(* ===== verification/Prelude.thy ===== *)
theory Prelude
  imports Complex_Main "HOL-Library.Word" "HOL-Library.Multiset"
begin

unbundle bit_operations_syntax

text \<open>
  Shared vocabulary of the development: bytes and C strings, little-endian integers in a
  buffer, the arithmetic of probing a power-of-two table, generic facts on lists of optional
  slots, and the collections of rules the component theories share.
\<close>

section \<open>Collections of rules\<close>

named_theorems bytes_simps "laws of buffers: encoding, decoding, C strings"
named_theorems map_simps "laws of the hash map as its clients see it"

section \<open>Machine types\<close>

type_synonym u8 = "8 word"
type_synonym u16 = "16 word"
type_synonym u32 = "32 word"
type_synonym bytes = "u8 list"

section \<open>Slots: lists of optional elements\<close>

primrec somes :: "'a option list \<Rightarrow> 'a list" where
  "somes [] = []"
| "somes (x # xs) = (case x of None \<Rightarrow> somes xs | Some a \<Rightarrow> a # somes xs)"

lemma somes_append [simp]: "somes (xs @ ys) = somes xs @ somes ys"
  by (induction xs) (auto split: option.splits)

lemma somes_replicate_None [simp]: "somes (replicate n None) = []"
  by (induction n) auto

lemma set_somes: "set (somes xs) = {a. Some a \<in> set xs}"
  by (induction xs) (auto split: option.splits)

lemma mset_somes_cong: "mset xs = mset ys \<Longrightarrow> mset (somes xs) = mset (somes ys)"
proof -
  have "mset (somes zs) = image_mset the (filter_mset (\<lambda>x. x \<noteq> None) (mset zs))" for zs :: "'a option list"
    by (induction zs) (auto split: option.splits)
  then show "mset xs = mset ys \<Longrightarrow> mset (somes xs) = mset (somes ys)" by metis
qed

lemma somes_update_None_Some:
  assumes "i < length xs" and "xs ! i = None"
  shows "mset (somes (xs[i := Some a])) = add_mset a (mset (somes xs))"
proof -
  have "xs = take i xs @ None # drop (Suc i) xs"
    using assms by (metis id_take_nth_drop)
  moreover have "xs[i := Some a] = take i xs @ Some a # drop (Suc i) xs"
    using assms by (simp add: upd_conv_take_nth_drop)
  ultimately show ?thesis
    by (metis (no_types, lifting) add_mset_add_single mset.simps(2) mset_append option.simps(4,5)
        somes.simps(2) somes_append union_mset_add_mset_right)
qed

lemma somes_update_Some_None:
  assumes "i < length xs" and "xs ! i = Some a"
  shows "mset (somes xs) = add_mset a (mset (somes (xs[i := None])))"
proof -
  have "mset (somes ((xs[i := None])[i := Some a])) = add_mset a (mset (somes (xs[i := None])))"
    by (rule somes_update_None_Some) (use assms in simp_all)
  moreover have "(xs[i := None])[i := Some a] = xs"
    using assms by (metis list_update_id list_update_overwrite)
  ultimately show ?thesis by simp
qed

lemma length_somes_le: "length (somes xs) \<le> length xs"
  by (induction xs) (auto split: option.splits)

lemma length_somes_eq: "length (somes xs) = length xs - length (filter (\<lambda>x. x = None) xs)"
  by (induction xs) (auto simp: Suc_diff_le split: option.splits)

lemma free_slot:
  assumes "length (somes xs) < length xs"
  shows "\<exists>i < length xs. xs ! i = None"
proof (rule ccontr)
  assume "\<not> ?thesis"
  then have "None \<notin> set xs" by (metis in_set_conv_nth)
  then have "\<forall>x \<in> set xs. \<not> x = None" by metis
  then have "filter (\<lambda>x. x = None) xs = []" by (simp add: filter_empty_conv)
  with assms show False by (simp add: length_somes_eq)
qed

section \<open>Association lists given by a key function\<close>

lemma map_of_key_Some:
  assumes "distinct (map key xs)"
  shows "map_of (map (\<lambda>e. (key e, e)) xs) k = Some e \<longleftrightarrow> e \<in> set xs \<and> key e = k"
proof -
  have "distinct (map fst (map (\<lambda>e. (key e, e)) xs))"
    using assms by (simp add: comp_def)
  from map_of_eq_Some_iff [OF this] show ?thesis by auto
qed

lemma option_eq_by_Some: "(\<And>e. x = Some e \<longleftrightarrow> y = Some e) \<Longrightarrow> x = y"
  by (cases x; cases y) auto

lemma map_of_key_mset:
  assumes "distinct (map key xs)" and "mset ys = mset xs"
  shows "distinct (map key ys)"
    and "map_of (map (\<lambda>e. (key e, e)) ys) = map_of (map (\<lambda>e. (key e, e)) xs)"
proof -
  have "mset (map key ys) = mset (map key xs)" using assms(2) by simp
  then show d: "distinct (map key ys)"
    using assms(1) by (metis mset_eq_imp_distinct_iff)
  show "map_of (map (\<lambda>e. (key e, e)) ys) = map_of (map (\<lambda>e. (key e, e)) xs)"
    using mset_eq_setD [OF assms(2)]
    by (intro ext option_eq_by_Some) (simp add: map_of_key_Some [OF d] map_of_key_Some [OF assms(1)])
qed

lemma map_of_key_insert:
  assumes "distinct (map key xs)" and "mset ys = add_mset e (mset xs)" and "key e \<notin> key ` set xs"
  shows "distinct (map key ys)"
    and "map_of (map (\<lambda>e. (key e, e)) ys) = (map_of (map (\<lambda>e. (key e, e)) xs))(key e \<mapsto> e)"
proof -
  have d: "distinct (map key (e # xs))" using assms by auto
  have m: "mset ys = mset (e # xs)" using assms(2) by simp
  show "distinct (map key ys)" using map_of_key_mset(1) [OF d m] .
  show "map_of (map (\<lambda>e. (key e, e)) ys) = (map_of (map (\<lambda>e. (key e, e)) xs))(key e \<mapsto> e)"
    using map_of_key_mset(2) [OF d m] by simp
qed

lemma map_of_key_delete:
  assumes "distinct (map key xs)" and "mset xs = add_mset e (mset ys)"
  shows "distinct (map key ys)" and "map_of (map (\<lambda>e. (key e, e)) xs) (key e) = Some e"
    and "map_of (map (\<lambda>e. (key e, e)) ys) = (map_of (map (\<lambda>e. (key e, e)) xs))(key e := None)"
proof -
  have m: "mset (e # ys) = mset xs" using assms(2) by simp
  note d = map_of_key_mset(1) [OF assms(1) m] and eq = map_of_key_mset(2) [OF assms(1) m]
  show dy: "distinct (map key ys)" using d by simp
  show "map_of (map (\<lambda>e. (key e, e)) xs) (key e) = Some e" by (simp add: eq [symmetric])
  have "map_of (map (\<lambda>e. (key e, e)) ys) (key e) = None"
    using d by (auto simp: map_of_eq_None_iff)
  then show "map_of (map (\<lambda>e. (key e, e)) ys) = (map_of (map (\<lambda>e. (key e, e)) xs))(key e := None)"
    by (simp add: eq [symmetric] fun_eq_iff)
qed

section \<open>Probing a table of power-of-two size\<close>

definition pos :: "nat \<Rightarrow> nat \<Rightarrow> nat \<Rightarrow> nat \<Rightarrow> nat" where
  "pos c s a n = (a + n * s) mod c"

lemma pos_less [simp]: "0 < c \<Longrightarrow> pos c s a n < c"
  by (simp add: pos_def)

lemma pos_0 [simp]: "a < c \<Longrightarrow> pos c s a 0 = a"
  by (simp add: pos_def)

lemma pos_Suc: "pos c s a (Suc n) = (pos c s a n + s) mod c"
  by (simp add: pos_def mod_simps algebra_simps)

lemma pos_add: "pos c s (pos c s a n) m = pos c s a (n + m)"
  by (simp add: pos_def mod_simps algebra_simps)

lemma pos_shift: "pos c s ((a + s) mod c) m = pos c s a (Suc m)"
  by (simp add: pos_def mod_simps algebra_simps)

lemma pos_inj:
  assumes "coprime s c" and "n < c" and "m < c" and "pos c s a n = pos c s a m"
  shows "n = m"
proof -
  have *: "n = m" if "n \<le> m" "m < c" "pos c s a n = pos c s a m" for n m
  proof -
    have "(a + m * s) mod c = (a + n * s) mod c" using that by (simp add: pos_def)
    then have "c dvd (a + m * s) - (a + n * s)"
      using that(1) by (simp add: mod_eq_dvd_iff_nat)
    then have "c dvd (m - n) * s" using that(1) by (simp add: diff_mult_distrib)
    then have "c dvd m - n" using assms(1)
      by (metis coprime_commute coprime_dvd_mult_left_iff)
    then show "n = m" using that by (metis diff_is_0_eq dvd_imp_le le_antisym less_imp_diff_less
          not_gr_zero linorder_not_le)
  qed
  show ?thesis
    using *[of n m] *[of m n] assms by (cases "n \<le> m") auto
qed

lemma pos_surj:
  assumes "coprime s c" and "q < c"
  shows "\<exists>n < c. pos c s a n = q"
proof -
  have "inj_on (pos c s a) {..<c}"
    using pos_inj [OF assms(1)] by (auto intro!: inj_onI)
  moreover have "pos c s a ` {..<c} \<subseteq> {..<c}" using assms(2) by auto
  ultimately have "pos c s a ` {..<c} = {..<c}"
    by (simp add: endo_inj_surj)
  then show ?thesis using assms(2) by (metis image_iff lessThan_iff)
qed

lemma and_mask_nat: "(x::nat) AND (2 ^ k - 1) = x mod 2 ^ k"
  by (metis mask_eq_exp_minus_1 take_bit_eq_mask take_bit_eq_mod)

section \<open>C strings and little-endian integers in a buffer\<close>

text \<open>
  A C string is the list of its characters without the terminator; \<open>strz\<close> is the memory it
  occupies, and \<open>cstr\<close> reads a string from memory. Reading beyond the end of a buffer gives zero
  bytes: received data is followed by the terminator that decryption appends.
\<close>

definition cstr :: "bytes \<Rightarrow> bytes" where
  "cstr buf = takeWhile (\<lambda>b. b \<noteq> 0) buf"

definition strz :: "bytes \<Rightarrow> bytes" where
  "strz s = s @ [0]"

definition byte_at :: "bytes \<Rightarrow> nat \<Rightarrow> u8" where
  "byte_at buf i = (if i < length buf then buf ! i else 0)"

definition enc_u16 :: "u16 \<Rightarrow> bytes" where
  "enc_u16 w = [ucast w, ucast (drop_bit 8 w)]"

definition dec_u16 :: "bytes \<Rightarrow> u16" where
  "dec_u16 buf = ucast (byte_at buf 0) OR push_bit 8 (ucast (byte_at buf 1))"

definition enc_u32 :: "u32 \<Rightarrow> bytes" where
  "enc_u32 w = [ucast w, ucast (drop_bit 8 w), ucast (drop_bit 16 w), ucast (drop_bit 24 w)]"

definition dec_u32 :: "bytes \<Rightarrow> u32" where
  "dec_u32 buf = ucast (byte_at buf 0) OR push_bit 8 (ucast (byte_at buf 1)) OR
     push_bit 16 (ucast (byte_at buf 2)) OR push_bit 24 (ucast (byte_at buf 3))"

lemma length_strz [simp]: "length (strz s) = length s + 1"
  by (simp add: strz_def)

lemma cstr_strz_append [bytes_simps]: "0 \<notin> set s \<Longrightarrow> cstr (strz s @ rest) = s"
  by (simp add: cstr_def strz_def takeWhile_tail) (metis (mono_tags, lifting) append.right_neutral takeWhile.simps(1) takeWhile_append2)

lemma cstr_strz [bytes_simps]: "0 \<notin> set s \<Longrightarrow> cstr (strz s) = s"
  using cstr_strz_append [of s "[]"] by simp

lemma cstr_no_zero [simp]: "0 \<notin> set (cstr buf)"
  by (auto simp: cstr_def dest: set_takeWhileD)

lemma cstr_idem [simp]: "cstr (cstr buf) = cstr buf"
  by (simp add: cstr_def)

lemma cstr_id [bytes_simps]: "0 \<notin> set s \<Longrightarrow> cstr s = s"
  by (auto simp: cstr_def takeWhile_eq_all_conv)

lemma strz_inject [simp]: "strz s = strz t \<longleftrightarrow> s = t"
  by (simp add: strz_def)

lemma strz_append_inject: "0 \<notin> set s \<Longrightarrow> 0 \<notin> set t \<Longrightarrow> strz s @ x = strz t @ y \<longleftrightarrow> s = t \<and> x = y"
  by (metis cstr_strz_append same_append_eq)

lemma length_enc [simp]: "length (enc_u16 w) = 2" "length (enc_u32 v) = 4"
  by (simp_all add: enc_u16_def enc_u32_def)

lemma byte_at_Cons [simp]: "byte_at (b # bs) 0 = b" "byte_at (b # bs) (Suc n) = byte_at bs n"
  by (simp_all add: byte_at_def)

lemma byte_at_enc_u16:
  "byte_at (enc_u16 w @ rest) 0 = ucast w" "byte_at (enc_u16 w @ rest) 1 = ucast (drop_bit 8 w)"
  by (simp_all add: enc_u16_def byte_at_def)

lemma byte_at_enc_u32:
  "byte_at (enc_u32 w @ rest) 0 = ucast w" "byte_at (enc_u32 w @ rest) 1 = ucast (drop_bit 8 w)"
  "byte_at (enc_u32 w @ rest) 2 = ucast (drop_bit 16 w)" "byte_at (enc_u32 w @ rest) 3 = ucast (drop_bit 24 w)"
  by (simp_all add: enc_u32_def byte_at_def)

lemma dec_enc_u16 [bytes_simps]: "dec_u16 (enc_u16 w @ rest) = w"
  unfolding dec_u16_def byte_at_enc_u16
  by (rule bit_word_eqI) (auto simp: bit_simps)

lemma dec_enc_u32 [bytes_simps]: "dec_u32 (enc_u32 w @ rest) = w"
  unfolding dec_u32_def byte_at_enc_u32
proof (rule bit_word_eqI)
  fix n
  show "bit ((ucast (ucast w :: u8) :: u32) OR push_bit 8 (ucast (ucast (drop_bit 8 w) :: u8)) OR
      push_bit 16 (ucast (ucast (drop_bit 16 w) :: u8)) OR
      push_bit 24 (ucast (ucast (drop_bit 24 w) :: u8))) n \<longleftrightarrow> bit w n" if "n < LENGTH(32)"
    using that by (cases "n < 16"; cases "n < 24") (auto simp: bit_simps)
qed

lemma enc_u16_inject [simp]: "enc_u16 v = enc_u16 w \<longleftrightarrow> v = w"
  by (metis append_Nil2 dec_enc_u16)

lemma enc_u32_inject [simp]: "enc_u32 v = enc_u32 w \<longleftrightarrow> v = w"
  by (metis append_Nil2 dec_enc_u32)

lemma word_of_nat_inject:
  assumes "i < 2 ^ LENGTH('a)" and "j < 2 ^ LENGTH('a)"
  shows "(of_nat i :: 'a::len word) = of_nat j \<longleftrightarrow> i = j"
  using assms by (simp add: word_of_nat_eq_iff take_bit_nat_eq_self)

lemma not_bit_above:
  assumes "i < 2 ^ k" and "k \<le> n"
  shows "\<not> bit (of_nat i :: 'a::len word) n"
proof -
  have "i < 2 ^ n" using assms by (metis less_le_trans one_le_numeral power_increasing)
  then show ?thesis by (simp add: bit_of_nat_iff bit_iff_odd [of i])
qed

text \<open>A number below \<open>2 ^ k\<close> and a flag in bit \<open>k\<close> packed into one word.\<close>

lemma flag_word:
  fixes k :: nat and i :: nat
  defines "w \<equiv> of_nat i :: 'a::len word"
  assumes "i < 2 ^ k" and "k < LENGTH('a)"
  shows "(w OR push_bit k 1) AND mask k = w" and "w AND mask k = w"
    and "w AND push_bit k 1 = 0" and "(w OR push_bit k 1) AND push_bit k 1 \<noteq> 0"
proof -
  have hi: "n < k" if "bit w n" for n
    using not_bit_above [where 'a = 'a, OF assms(2), of n] that unfolding w_def by (meson not_le)
  show "(w OR push_bit k 1) AND mask k = w"
    by (rule bit_word_eqI) (use hi in \<open>auto simp: bit_simps\<close>)
  show "w AND mask k = w"
    by (rule bit_word_eqI) (use hi in \<open>auto simp: bit_simps\<close>)
  show "w AND push_bit k 1 = 0"
    by (rule bit_word_eqI) (use hi in \<open>auto simp: bit_simps\<close>)
  have "bit ((w OR push_bit k 1) AND push_bit k 1) k" using assms(3) by (simp add: bit_simps)
  then show "(w OR push_bit k 1) AND push_bit k 1 \<noteq> 0" by (metis bit_0_eq bot_apply bot_bool_def)
qed

text \<open>The blocks of a list, and that they make up the list again.\<close>

lemma concat_blocks: "concat (map (\<lambda>i. take k (drop (k * i) xs)) [0..<n]) = take (k * n) xs"
proof (induction n)
  case (Suc n)
  have "take (k * n + k) xs = take (k * n) xs @ take k (drop (k * n) xs)" by (rule take_add)
  then show ?case using Suc by (simp add: add.commute)
qed simp

end
