(* ===== verification/PblHashSet.thy ===== *)
theory PblHashSet
  imports Prelude
begin

text \<open>
  The hash set of the embedded Program Base Library (embedded/libpbl/src/pblSet.c): an
  open-addressing table whose capacity is a power of two and whose probe step is an odd number
  taken from a table of primes. The set's function pointers \<open>hashValue\<close> and \<open>compare\<close> are
  the first two arguments of every operation here, since they never change after the set has
  been created. The load factor is the constant 0.75 the constructor sets, so
  \<open>(int)(m / loadFactor)\<close> is \<open>4 * m div 3\<close>. A loop that follows a probe sequence
  gets the capacity as fuel: a probe sequence has visited every slot it can reach after that
  many steps, so running out of fuel (\<open>None\<close>) stands for the loop that never ends.
\<close>

section \<open>State\<close>

record 'e PblHashSet =
  pointerArray :: "'e option list"
  capacity :: nat
  stepSize :: nat
  setSize :: nat
  changeCounter :: nat

definition pblPrimeStepSize :: "nat list" where
  "pblPrimeStepSize =
     [5, 11, 17, 37,
      67, 131, 257, 521,
      1031, 2053, 4099, 8209,
      16411, 32771, 65537, 131101,
      262147, 524309, 1048583, 2097169,
      4194319, 8388617, 16777259, 33554467,
      67108879, 134217757]"

definition pblCapacities :: "nat list" where
  "pblCapacities =
     [0x8, 0x10, 0x20, 0x40,
      0x80, 0x100, 0x200, 0x400,
      0x800, 0x1000, 0x2000, 0x4000,
      0x8000, 0x10000, 0x20000, 0x40000,
      0x80000, 0x100000, 0x200000, 0x400000,
      0x800000, 0x1000000, 0x2000000, 0x4000000,
      0x8000000, 0x10000000, 0x20000000, 0x40000000]"

definition PBL_STEP_SIZE :: nat where
  "PBL_STEP_SIZE = 3"

definition pblSetNewHashSet :: "'e PblHashSet" where
  "pblSetNewHashSet =
     \<lparr>pointerArray = [], capacity = 0, stepSize = PBL_STEP_SIZE, setSize = 0, changeCounter = 0\<rparr>"

text \<open>\<open>(int)( (double)m / set->loadFactor )\<close> with the load factor 0.75.\<close>

definition loadNeeded :: "nat \<Rightarrow> nat" where
  "loadNeeded m = 4 * m div 3"

section \<open>Growing\<close>

text \<open>
  The search for the target capacity: the first capacity that is large enough, with its step
  size; \<open>0\<close> when the table of capacities is exhausted.
\<close>

fun pblTargetCapacity :: "nat \<Rightarrow> nat \<Rightarrow> nat \<Rightarrow> nat list \<Rightarrow> nat \<times> nat" where
  "pblTargetCapacity needed i step [] = (0, step)"
| "pblTargetCapacity needed i step (c # cs) =
     (let step' = (if i > 1 then pblPrimeStepSize ! (i - 2) else step)
      in if needed \<le> c then (c, step') else pblTargetCapacity needed (Suc i) step' cs)"

text \<open>The rehash loop of \<open>pblHashSetEnsureCapacity\<close>, over the old pointer array.\<close>

fun pblRehash ::
  "('e PblHashSet \<Rightarrow> 'e \<Rightarrow> (int \<times> 'e PblHashSet) option) \<Rightarrow> 'e PblHashSet \<Rightarrow> 'e option list \<Rightarrow>
   (int \<times> 'e PblHashSet) option" where
  "pblRehash add newSet [] = Some (0, newSet)"
| "pblRehash add newSet (None # slots) = pblRehash add newSet slots"
| "pblRehash add newSet (Some e # slots) =
     (case add newSet e of
        None \<Rightarrow> None
      | Some (rc, newSet') \<Rightarrow> if rc < 0 then Some (-1, newSet') else pblRehash add newSet' slots)"

definition pblHashSetEnsureCapacity ::
  "('e PblHashSet \<Rightarrow> 'e \<Rightarrow> (int \<times> 'e PblHashSet) option) \<Rightarrow> 'e PblHashSet \<Rightarrow> nat \<Rightarrow>
   (int \<times> 'e PblHashSet) option" where
  "pblHashSetEnsureCapacity add st minCapacity =
     (let neededCapacity = loadNeeded minCapacity + 1;
          (targetCapacity, step) = pblTargetCapacity neededCapacity 0 PBL_STEP_SIZE pblCapacities
      in if targetCapacity = 0 then Some (-1, st)
         else if targetCapacity \<le> capacity st then Some (int (capacity st), st)
         else
           let newSet = (pblSetNewHashSet :: 'e PblHashSet)
                 \<lparr>pointerArray := replicate targetCapacity None,
                  capacity := targetCapacity, stepSize := step\<rparr>
           in case (if setSize st > 0 then pblRehash add newSet (pointerArray st) else Some (0, newSet)) of
                None \<Rightarrow> None
              | Some (rc, newSet') \<Rightarrow>
                  if rc < 0 then Some (-1, st)
                  else Some (int (capacity newSet'),
                         st\<lparr>capacity := capacity newSet', stepSize := stepSize newSet',
                            pointerArray := pointerArray newSet',
                            changeCounter := changeCounter st + 1\<rparr>))"

section \<open>Adding\<close>

datatype addProbe = AddStored nat | AddPresent | AddCycled

text \<open>The inner loop of \<open>pblHashSetAdd\<close>: it ends at a free slot, at an equal element, or
  when the probe sequence is back at its start.\<close>

fun pblAddProbe ::
  "nat \<Rightarrow> ('e \<Rightarrow> 'e \<Rightarrow> int) \<Rightarrow> 'e option list \<Rightarrow> nat \<Rightarrow> nat \<Rightarrow> 'e \<Rightarrow> nat \<Rightarrow> nat \<Rightarrow> addProbe option" where
  "pblAddProbe 0 cmp slots msk step e elementIndex index = None"
| "pblAddProbe (Suc fuel) cmp slots msk step e elementIndex index =
     (case slots ! index of
        None \<Rightarrow> Some (AddStored index)
      | Some x \<Rightarrow>
          if cmp x e = 0 then Some AddPresent
          else let index' = (index + step) AND msk
               in if elementIndex = index' then Some AddCycled
                  else pblAddProbe fuel cmp slots msk step e elementIndex index')"

text \<open>
  The outer loop of \<open>pblHashSetAdd\<close>. The fuel counts its rounds and the nested calls that
  \<open>pblHashSetEnsureCapacity\<close> makes for the new table.
\<close>

fun pblHashSetAddLoop ::
  "nat \<Rightarrow> ('e \<Rightarrow> nat) \<Rightarrow> ('e \<Rightarrow> 'e \<Rightarrow> int) \<Rightarrow> nat \<Rightarrow> nat \<Rightarrow> 'e PblHashSet \<Rightarrow> 'e \<Rightarrow>
   (int \<times> 'e PblHashSet) option" where
  "pblHashSetAddLoop 0 hv cmp minCapacity neededCapacity st e = None"
| "pblHashSetAddLoop (Suc fuel) hv cmp minCapacity neededCapacity st e =
     (case (if neededCapacity > capacity st
            then pblHashSetEnsureCapacity
                   (\<lambda>ns x. pblHashSetAddLoop fuel hv cmp (setSize ns + 1) (loadNeeded (setSize ns + 1)) ns x)
                   st minCapacity
            else Some (0, st)) of
        None \<Rightarrow> None
      | Some (rc, st1) \<Rightarrow>
          if rc < 0 then Some (-1, st1)
          else
            let msk = capacity st1 - 1;
                elementIndex = hv e AND msk
            in case pblAddProbe (capacity st1) cmp (pointerArray st1) msk (stepSize st1) e
                      elementIndex elementIndex of
                 None \<Rightarrow> None
               | Some (AddStored index) \<Rightarrow>
                   Some (1, st1\<lparr>pointerArray := (pointerArray st1)[index := Some e],
                                setSize := setSize st1 + 1,
                                changeCounter := changeCounter st1 + 1\<rparr>)
               | Some AddPresent \<Rightarrow> Some (0, st1)
               | Some AddCycled \<Rightarrow>
                   pblHashSetAddLoop fuel hv cmp (capacity st1 + 1) (loadNeeded (capacity st1 + 1)) st1 e)"

definition pblHashSetAdd ::
  "('e \<Rightarrow> nat) \<Rightarrow> ('e \<Rightarrow> 'e \<Rightarrow> int) \<Rightarrow> 'e PblHashSet \<Rightarrow> 'e \<Rightarrow> (int \<times> 'e PblHashSet) option" where
  "pblHashSetAdd hv cmp st e =
     pblHashSetAddLoop 2 hv cmp (setSize st + 1) (loadNeeded (setSize st + 1)) st e"

section \<open>Looking up and replacing\<close>

text \<open>The probe loop of \<open>pblHashSetGetElement\<close>, \<open>pblHashSetReplaceElement\<close> and of the search
  in \<open>pblHashSetRemoveElement\<close>: the slot where it stops, free or holding an equal element.\<close>

fun pblProbe ::
  "nat \<Rightarrow> ('e \<Rightarrow> 'e \<Rightarrow> int) \<Rightarrow> 'e option list \<Rightarrow> nat \<Rightarrow> nat \<Rightarrow> 'e \<Rightarrow> nat \<Rightarrow> nat option" where
  "pblProbe 0 cmp slots msk step e index = None"
| "pblProbe (Suc fuel) cmp slots msk step e index =
     (case slots ! index of
        None \<Rightarrow> Some index
      | Some x \<Rightarrow>
          if cmp x e = 0 then Some index
          else pblProbe fuel cmp slots msk step e ((index + step) AND msk))"

definition pblHashSetGetElement ::
  "('e \<Rightarrow> nat) \<Rightarrow> ('e \<Rightarrow> 'e \<Rightarrow> int) \<Rightarrow> 'e PblHashSet \<Rightarrow> 'e \<Rightarrow> 'e option option" where
  "pblHashSetGetElement hv cmp st e =
     (let msk = capacity st - 1
      in if setSize st = 0 \<or> capacity st < 1 then Some None
         else case pblProbe (capacity st) cmp (pointerArray st) msk (stepSize st) e (hv e AND msk) of
                None \<Rightarrow> None
              | Some index \<Rightarrow> Some (pointerArray st ! index))"

definition pblHashSetReplaceElement ::
  "('e \<Rightarrow> nat) \<Rightarrow> ('e \<Rightarrow> 'e \<Rightarrow> int) \<Rightarrow> 'e PblHashSet \<Rightarrow> 'e \<Rightarrow> ('e option \<times> 'e PblHashSet) option" where
  "pblHashSetReplaceElement hv cmp st e =
     (let msk = capacity st - 1
      in if setSize st = 0 \<or> capacity st < 1 then Some (None, st)
         else case pblProbe (capacity st) cmp (pointerArray st) msk (stepSize st) e (hv e AND msk) of
                None \<Rightarrow> None
              | Some index \<Rightarrow>
                  (case pointerArray st ! index of
                     None \<Rightarrow> Some (None, st)
                   | Some x \<Rightarrow>
                       Some (Some x, st\<lparr>pointerArray := (pointerArray st)[index := Some e]\<rparr>)))"

section \<open>Removing\<close>

text \<open>The scan of the indexes strictly between the hole and \<open>nextIndex\<close>: the index where the
  loop ends, which is \<open>hashValue\<close> if that is among them and \<open>nextIndex\<close> otherwise.\<close>

fun pblChainScan :: "nat \<Rightarrow> nat \<Rightarrow> nat \<Rightarrow> nat \<Rightarrow> nat \<Rightarrow> nat \<Rightarrow> nat option" where
  "pblChainScan 0 msk step hashValue nextIndex index = None"
| "pblChainScan (Suc fuel) msk step hashValue nextIndex index =
     (if index = nextIndex then Some index
      else if hashValue = index then Some index
      else pblChainScan fuel msk step hashValue nextIndex ((index + step) AND msk))"

text \<open>
  The loop that keeps the collision chains in order after a slot has become free: the element
  at \<open>nextIndex\<close> moves to the free slot \<open>indexToRemove\<close> unless its own chain starts
  behind the free slot.
\<close>

fun pblCloseGap ::
  "nat \<Rightarrow> ('e \<Rightarrow> nat) \<Rightarrow> nat \<Rightarrow> nat \<Rightarrow> 'e option list \<Rightarrow> nat \<Rightarrow> nat \<Rightarrow> 'e option list option" where
  "pblCloseGap 0 hv msk step slots indexToRemove nextIndex = None"
| "pblCloseGap (Suc fuel) hv msk step slots indexToRemove nextIndex =
     (case slots ! nextIndex of
        None \<Rightarrow> Some slots
      | Some x \<Rightarrow>
          let hashValue = hv x AND msk;
              moved = slots[indexToRemove := Some x, nextIndex := None];
              after = (nextIndex + step) AND msk
          in if hashValue = indexToRemove
             then pblCloseGap fuel hv msk step moved nextIndex after
             else if hashValue = nextIndex
             then pblCloseGap fuel hv msk step slots indexToRemove after
             else case pblChainScan (msk + 1) msk step hashValue nextIndex
                         ((indexToRemove + step) AND msk) of
                    None \<Rightarrow> None
                  | Some index \<Rightarrow>
                      if hashValue = index
                      then pblCloseGap fuel hv msk step slots indexToRemove after
                      else pblCloseGap fuel hv msk step moved nextIndex after)"

definition pblHashSetRemoveElement ::
  "('e \<Rightarrow> nat) \<Rightarrow> ('e \<Rightarrow> 'e \<Rightarrow> int) \<Rightarrow> 'e PblHashSet \<Rightarrow> 'e \<Rightarrow> (int \<times> 'e PblHashSet) option" where
  "pblHashSetRemoveElement hv cmp st e =
     (let msk = capacity st - 1
      in if setSize st = 0 \<or> capacity st < 1 then Some (0, st)
         else case pblProbe (capacity st) cmp (pointerArray st) msk (stepSize st) e (hv e AND msk) of
                None \<Rightarrow> None
              | Some indexToRemove \<Rightarrow>
                  (case pointerArray st ! indexToRemove of
                     None \<Rightarrow> Some (0, st)
                   | Some x \<Rightarrow>
                       (case pblCloseGap (capacity st) hv msk (stepSize st)
                               ((pointerArray st)[indexToRemove := None]) indexToRemove
                               ((indexToRemove + stepSize st) AND msk) of
                          None \<Rightarrow> None
                        | Some slots \<Rightarrow>
                            Some (1, st\<lparr>pointerArray := slots, setSize := setSize st - 1,
                                        changeCounter := changeCounter st + 1\<rparr>))))"

section \<open>The table invariant and the map a table stands for\<close>

text \<open>
  \<open>table_shape\<close>: a power-of-two table with an odd step. \<open>on_chain\<close>: every element can be
  reached from its home slot through occupied slots only, which is what a probe relies on.
\<close>

definition table_shape :: "nat \<Rightarrow> nat \<Rightarrow> 'e option list \<Rightarrow> bool" where
  "table_shape c s slots \<longleftrightarrow> length slots = c \<and> (\<exists>k \<ge> 3. c = 2 ^ k) \<and> odd s"

definition on_chain :: "('e \<Rightarrow> nat) \<Rightarrow> nat \<Rightarrow> nat \<Rightarrow> 'e option list \<Rightarrow> bool" where
  "on_chain hv c s slots \<longleftrightarrow>
     (\<forall>q < c. \<forall>e. slots ! q = Some e \<longrightarrow>
        (\<exists>n < c. pos c s (hv e mod c) n = q \<and>
           (\<forall>m < n. slots ! pos c s (hv e mod c) m \<noteq> None)))"

definition hs_wf :: "('e \<Rightarrow> nat) \<Rightarrow> ('e \<Rightarrow> 'k) \<Rightarrow> 'e PblHashSet \<Rightarrow> bool" where
  "hs_wf hv key st \<longleftrightarrow>
     setSize st = length (somes (pointerArray st)) \<and>
     (capacity st = 0 \<and> pointerArray st = [] \<or>
      table_shape (capacity st) (stepSize st) (pointerArray st) \<and>
      loadNeeded (setSize st) \<le> capacity st \<and>
      distinct (map key (somes (pointerArray st))) \<and>
      on_chain hv (capacity st) (stepSize st) (pointerArray st))"

definition hs_map :: "('e \<Rightarrow> 'k) \<Rightarrow> 'e PblHashSet \<Rightarrow> 'k \<rightharpoonup> 'e" where
  "hs_map key st = map_of (map (\<lambda>e. (key e, e)) (somes (pointerArray st)))"

lemma table_shape_step:
  assumes "table_shape c s slots"
  shows "x AND (c - 1) = x mod c" and "x AND (c - Suc 0) = x mod c"
  using assms and_mask_nat by (auto simp: table_shape_def)

lemma table_shape_pos:
  assumes "table_shape c s slots"
  shows "8 \<le> c" and "0 < c" and "coprime s c" and "length slots = c"
proof -
  from assms obtain k where k: "3 \<le> k" "c = 2 ^ k" by (auto simp: table_shape_def)
  then show "8 \<le> c" using power_increasing [of 3 k "2::nat"] by simp
  then show "0 < c" by simp
  show "coprime s c" using assms k by (simp add: table_shape_def)
  show "length slots = c" using assms by (simp add: table_shape_def)
qed

lemma loadNeeded_free:
  assumes "loadNeeded n \<le> c" and "8 \<le> c"
  shows "n < c"
  using assms by (simp add: loadNeeded_def)

text \<open>The three probe loops, as walks along \<^const>\<open>pos\<close>.\<close>

definition probeStop :: "('e \<Rightarrow> 'e \<Rightarrow> int) \<Rightarrow> 'e option list \<Rightarrow> 'e \<Rightarrow> nat \<Rightarrow> bool" where
  "probeStop cmp slots e q \<longleftrightarrow> (case slots ! q of None \<Rightarrow> True | Some x \<Rightarrow> cmp x e = 0)"

lemma pblProbe_walk:
  assumes "table_shape c s slots" and "a < c" and "n < fuel"
    and "\<forall>m < n. \<not> probeStop cmp slots e (pos c s a m)" and "probeStop cmp slots e (pos c s a n)"
  shows "pblProbe fuel cmp slots (c - 1) s e a = Some (pos c s a n)"
  using assms(2-)
proof (induction n arbitrary: fuel a)
  case 0
  then obtain f where "fuel = Suc f" by (cases fuel) auto
  with 0 show ?case by (auto simp: probeStop_def split: option.splits)
next
  case (Suc n)
  then obtain f where f: "fuel = Suc f" by (cases fuel) auto
  have "pblProbe f cmp slots (c - 1) s e ((a + s) mod c) = Some (pos c s ((a + s) mod c) n)"
    using Suc.prems f by (intro Suc.IH) (auto simp: pos_shift)
  moreover have "\<not> probeStop cmp slots e a"
    using Suc.prems(1,3) by (metis pos_0 zero_less_Suc)
  ultimately show ?case
    by (auto simp: f table_shape_step [OF assms(1)] pos_shift probeStop_def split: option.splits)
qed

lemma pblAddProbe_walk:
  assumes "table_shape c s slots" and "a < c" and "n < fuel" and "h < c"
    and "pos c s h j = a" and "n + j < c"
    and "\<forall>m < n. \<not> probeStop cmp slots e (pos c s a m)" and "probeStop cmp slots e (pos c s a n)"
  shows "pblAddProbe fuel cmp slots (c - 1) s e h a =
     Some (case slots ! pos c s a n of None \<Rightarrow> AddStored (pos c s a n) | Some _ \<Rightarrow> AddPresent)"
  using assms(2,3,5-)
proof (induction n arbitrary: fuel a j)
  case 0
  then obtain f where "fuel = Suc f" by (cases fuel) auto
  with 0 show ?case by (auto simp: probeStop_def split: option.splits)
next
  case (Suc n)
  then obtain f where f: "fuel = Suc f" by (cases fuel) auto
  let ?a = "(a + s) mod c"
  have a1: "pos c s h (Suc j) = ?a" using Suc.prems(3) by (simp add: pos_Suc)
  have "h \<noteq> ?a"
  proof
    assume "h = ?a"
    then have "pos c s h 0 = pos c s h (Suc j)" using a1 assms(4) by simp
    then have "0 = Suc j"
      by (rule pos_inj [OF table_shape_pos(3) [OF assms(1)], rotated 2]) (use Suc.prems(4) in auto)
    then show False by simp
  qed
  moreover have "pblAddProbe f cmp slots (c - 1) s e h ?a =
     Some (case slots ! pos c s ?a n of None \<Rightarrow> AddStored (pos c s ?a n) | Some _ \<Rightarrow> AddPresent)"
    by (rule Suc.IH [where j = "Suc j"]) (use Suc.prems f a1 in \<open>auto simp: pos_shift\<close>)
  moreover have "\<not> probeStop cmp slots e a"
    using Suc.prems(1,5) by (metis pos_0 zero_less_Suc)
  ultimately show ?case
    by (auto simp: f table_shape_step [OF assms(1)] pos_shift probeStop_def Let_def split: option.splits)
qed

section \<open>Closing the gap keeps the chains\<close>

definition gap_chain :: "('e \<Rightarrow> nat) \<Rightarrow> nat \<Rightarrow> nat \<Rightarrow> 'e option list \<Rightarrow> nat \<Rightarrow> bool" where
  "gap_chain hv c s slots hole \<longleftrightarrow>
     (\<forall>q < c. \<forall>e. slots ! q = Some e \<longrightarrow>
        (\<exists>n < c. pos c s (hv e mod c) n = q \<and>
           (\<forall>m < n. slots ! pos c s (hv e mod c) m \<noteq> None \<or> pos c s (hv e mod c) m = hole)))"

definition avoids_hole :: "('e \<Rightarrow> nat) \<Rightarrow> nat \<Rightarrow> nat \<Rightarrow> nat \<Rightarrow> 'e \<Rightarrow> nat \<Rightarrow> bool" where
  "avoids_hole hv c s hole e q \<longleftrightarrow>
     (\<exists>k < c. pos c s (hv e mod c) k = q \<and> (\<forall>m < k. pos c s (hv e mod c) m \<noteq> hole))"

definition scanned :: "('e \<Rightarrow> nat) \<Rightarrow> nat \<Rightarrow> nat \<Rightarrow> 'e option list \<Rightarrow> nat \<Rightarrow> nat \<Rightarrow> bool" where
  "scanned hv c s slots hole n \<longleftrightarrow>
     (\<forall>j. 0 < j \<and> j < n \<longrightarrow>
        (\<exists>e. slots ! pos c s hole j = Some e \<and> avoids_hole hv c s hole e (pos c s hole j)))"

lemma pblChainScan_walk:
  assumes "table_shape c s slots" and "n < c" and "h \<noteq> pos c s a n" and "i \<le> n" and "n - i < fuel"
  shows "pblChainScan fuel (c - 1) s h (pos c s a n) (pos c s a i) =
     Some (if \<exists>j. i \<le> j \<and> j < n \<and> pos c s a j = h then h else pos c s a n)"
  using assms(4,5)
proof (induction fuel arbitrary: i)
  case 0
  then show ?case by simp
next
  case (Suc fuel)
  have inj: "pos c s a k \<noteq> pos c s a n" if "k < n" for k
    using pos_inj [OF table_shape_pos(3) [OF assms(1)], of k n a] that assms(2) by auto
  have step: "(pos c s a i + s) AND (c - 1) = pos c s a (Suc i)"
    by (simp add: table_shape_step [OF assms(1)] pos_Suc)
  consider "i = n" | "i < n" "h = pos c s a i" | "i < n" "h \<noteq> pos c s a i"
    using Suc.prems(1) by linarith
  then show ?case
  proof cases
    case 1
    then show ?thesis by auto
  next
    case 2
    then show ?thesis using inj [of i] by auto
  next
    case 3
    then have "(\<exists>j. i \<le> j \<and> j < n \<and> pos c s a j = h) \<longleftrightarrow> (\<exists>j. Suc i \<le> j \<and> j < n \<and> pos c s a j = h)"
      by (metis Suc_leD Suc_leI le_neq_implies_less)
    moreover have "pblChainScan fuel (c - 1) s h (pos c s a n) (pos c s a (Suc i)) =
        Some (if \<exists>j. Suc i \<le> j \<and> j < n \<and> pos c s a j = h then h else pos c s a n)"
      by (rule Suc.IH) (use 3 Suc.prems in auto)
    ultimately show ?thesis using 3 inj [of i] step by (simp del: One_nat_def)
  qed
qed

lemma closed_gap_on_chain:
  assumes sh: "table_shape c s slots" and "hole < c" and gap: "gap_chain hv c s slots hole"
    and scan: "scanned hv c s slots hole n" and n: "1 \<le> n" "n < c"
    and free: "slots ! pos c s hole n = None"
  shows "on_chain hv c s slots"
  unfolding on_chain_def
proof (intro allI impI)
  fix q e
  assume q: "q < c" "slots ! q = Some e"
  let ?p = "pos c s (hv e mod c)"
  note inj = pos_inj [OF table_shape_pos(3) [OF sh]]
  from gap q obtain k where k: "k < c" "?p k = q"
    and path: "\<forall>m < k. slots ! ?p m \<noteq> None \<or> ?p m = hole"
    unfolding gap_chain_def by blast
  have "slots ! ?p m \<noteq> None" if m: "m < k" for m
  proof
    assume none: "slots ! ?p m = None"
    with path m have hole: "?p m = hole" by blast
    have at: "?p (m + i) = pos c s hole i" for i
      using pos_add [of c s "hv e mod c" m i] hole by simp
    have occ: "slots ! pos c s hole i \<noteq> None" if "0 < i" "m + i \<le> k" for i
    proof (cases "m + i = k")
      case True
      then show ?thesis using at [of i] k q by simp
    next
      case False
      then have "m + i < k" using that by simp
      moreover have "?p (m + i) \<noteq> hole" using inj [of "m + i" m] hole k(1) that by fastforce
      ultimately show ?thesis using path at [of i] by metis
    qed
    have "k - m < n"
    proof (rule ccontr)
      assume "\<not> k - m < n"
      then have "m + n \<le> k" using m by linarith
      then show False using occ [of n] n free by simp
    qed
    moreover have qj: "q = pos c s hole (k - m)" using at [of "k - m"] k m by simp
    ultimately have "avoids_hole hv c s hole e q"
      using scan m q unfolding scanned_def by (metis option.inject zero_less_diff)
    then obtain k' where "k' < c" "?p k' = q" "\<forall>m < k'. ?p m \<noteq> hole"
      unfolding avoids_hole_def by blast
    moreover have "k' = k" using inj [of k' k "hv e mod c"] calculation k by simp
    ultimately show False using hole m by blast
  qed
  with k show "\<exists>n < c. ?p n = q \<and> (\<forall>m < n. slots ! ?p m \<noteq> None)" by blast
qed

lemma home_in_gap_avoids:
  assumes sh: "table_shape c s slots" and "hole < c"
    and i: "1 \<le> i" "i \<le> n" "n < c" and home: "hv e mod c = pos c s hole i"
  shows "avoids_hole hv c s hole e (pos c s hole n)"
proof -
  note inj = pos_inj [OF table_shape_pos(3) [OF sh]]
  have at: "pos c s (hv e mod c) m = pos c s hole (i + m)" for m
    by (simp add: home pos_add)
  have "pos c s (hv e mod c) m \<noteq> hole" if "m < n - i" for m
  proof
    assume "pos c s (hv e mod c) m = hole"
    then have "pos c s hole (i + m) = pos c s hole 0" using at assms(2) by simp
    moreover have "i + m < c" "0 < c" using that i by linarith+
    ultimately show False using inj [of "i + m" 0 hole] i by linarith
  qed
  then show ?thesis
    unfolding avoids_hole_def using i at [of "n - i"] by (intro exI [of _ "n - i"]) auto
qed

lemma home_outside_gap_passes:
  assumes sh: "table_shape c s slots" and "hole < c" and "h < c" and n: "1 \<le> n" "n < c"
    and out: "\<forall>i. 1 \<le> i \<and> i \<le> n \<longrightarrow> pos c s hole i \<noteq> h"
    and k: "k < c" "pos c s h k = pos c s hole n"
  shows "\<exists>m < k. pos c s h m = hole"
proof -
  note inj = pos_inj [OF table_shape_pos(3) [OF sh]]
  obtain i where i: "i < c" "pos c s hole i = h"
    using pos_surj [OF table_shape_pos(3) [OF sh] assms(3)] by blast
  have at: "pos c s h m = pos c s hole (i + m)" for m
    by (simp add: i(2) [symmetric] pos_add)
  have per: "pos c s hole c = hole" using assms(2) by (simp add: pos_def)
  show ?thesis
  proof (cases "i + k < c")
    case True
    then have ik: "i + k = n" using inj [of "i + k" n hole] k at n by simp
    then have "i = 0" using i(2) out by (metis le_add1 less_one linorder_not_le)
    then have "pos c s h 0 = hole" using i assms(2) by simp
    then show ?thesis using ik \<open>i = 0\<close> n by (intro exI [of _ 0]) simp
  next
    case False
    then have "pos c s h (c - i) = hole" using at [of "c - i"] i per by simp
    moreover have "c - i \<noteq> k"
    proof
      assume "c - i = k"
      then have "i + k = c" using i by simp
      then have "pos c s hole 0 = pos c s hole n" using at [of k] k(2) per assms(2) by simp
      then show False using inj [of 0 n hole] n by simp
    qed
    ultimately show ?thesis using False by (intro exI [of _ "c - i"]) linarith
  qed
qed

lemma moved_gap_chain:
  assumes sh: "table_shape c s slots" and "hole < c" and gap: "gap_chain hv c s slots hole"
    and n: "1 \<le> n" "n < c" and x: "slots ! pos c s hole n = Some x"
    and k: "k < c" "pos c s (hv x mod c) k = pos c s hole n"
    and m0: "m0 < k" "pos c s (hv x mod c) m0 = hole"
    and path: "\<forall>m < k. slots ! pos c s (hv x mod c) m \<noteq> None \<or> pos c s (hv x mod c) m = hole"
  shows "gap_chain hv c s (slots[hole := Some x, pos c s hole n := None]) (pos c s hole n)"
    (is "gap_chain hv c s ?new ?next")
  unfolding gap_chain_def
proof (intro allI impI)
  fix q e
  assume q: "q < c" "?new ! q = Some e"
  have len: "length slots = c" "?next < c"
    using table_shape_pos(4) [OF sh] table_shape_pos(2) [OF sh] by auto
  have nq: "q \<noteq> ?next" using q len by auto
  have keep: "?new ! r \<noteq> None \<or> r = ?next" if "slots ! r \<noteq> None \<or> r = hole" for r
    using that len assms(2) by (cases "r = ?next"; cases "r = hole") auto
  show "\<exists>j < c. pos c s (hv e mod c) j = q \<and>
      (\<forall>m < j. ?new ! pos c s (hv e mod c) m \<noteq> None \<or> pos c s (hv e mod c) m = ?next)"
  proof (cases "q = hole")
    case True
    then have "e = x" using q nq len by simp
    moreover have "m0 < c" using m0 k by simp
    ultimately show ?thesis using True m0 path keep by (intro exI [of _ m0]) auto
  next
    case False
    then have "slots ! q = Some e" using q nq len by simp
    then obtain j where "j < c" "pos c s (hv e mod c) j = q"
      "\<forall>m < j. slots ! pos c s (hv e mod c) m \<noteq> None \<or> pos c s (hv e mod c) m = hole"
      using gap q(1) unfolding gap_chain_def by blast
    then show ?thesis using keep by (intro exI [of _ j]) auto
  qed
qed

lemma mset_move_slot:
  assumes "i < length xs" and "j < length xs" and "xs ! i = None"
  shows "mset (xs[i := xs ! j, j := None]) = mset xs"
  using mset_swap [OF assms(1,2)] assms
  by (cases "i = j") (auto simp: list_update_swap [of i j], metis list_update_id)

lemma scanned_Suc:
  assumes "scanned hv c s slots hole n" and "slots ! pos c s hole n = Some e"
    and "avoids_hole hv c s hole e (pos c s hole n)"
  shows "scanned hv c s slots hole (Suc n)"
  using assms unfolding scanned_def by (metis less_Suc_eq)

text \<open>
  One round of the loop, read along \<^const>\<open>pos\<close>: the code's three tests together ask whether
  the home slot of the element at distance \<open>n\<close> lies behind the hole.
\<close>

lemma pblCloseGap_round:
  assumes sh: "table_shape c s slots" and "hole < c" and "slots ! hole = None"
    and n: "1 \<le> n" "n < c" and x: "slots ! pos c s hole n = Some x"
  shows "pblCloseGap (Suc fuel) hv (c - 1) s slots hole (pos c s hole n) =
    (if \<exists>i. 1 \<le> i \<and> i \<le> n \<and> pos c s hole i = hv x mod c
     then pblCloseGap fuel hv (c - 1) s slots hole (pos c s hole (Suc n))
     else pblCloseGap fuel hv (c - 1) s (slots[hole := Some x, pos c s hole n := None])
            (pos c s hole n) (pos c s hole (Suc n)))"
proof -
  note inj = pos_inj [OF table_shape_pos(3) [OF sh]]
  note c = table_shape_pos(2) [OF sh]
  let ?h = "hv x mod c"
  have step: "(pos c s hole i + s) AND (c - 1) = pos c s hole (Suc i)" for i
    by (simp add: table_shape_step [OF sh] pos_Suc)
  have first: "(hole + s) AND (c - 1) = pos c s hole 1"
    using step [of 0] assms(2) by simp
  have home: "hv x AND (c - 1) = ?h" by (rule table_shape_step(1) [OF sh])
  have nohole: "pos c s hole i \<noteq> hole" if "1 \<le> i" "i \<le> n" for i
    using inj [of i 0 hole] that n assms(2) by force
  have fuel: "c - 1 + 1 = c" using c by simp
  consider "?h = hole" | "?h = pos c s hole n" | "?h \<noteq> hole" "?h \<noteq> pos c s hole n" by blast
  then show ?thesis
  proof cases
    case 1
    then show ?thesis using nohole n x home step by (auto simp: Let_def simp del: One_nat_def)
  next
    case 2
    then show ?thesis using nohole [of n] n x home step by (auto simp: Let_def simp del: One_nat_def)
  next
    case 3
    have "pblChainScan c (c - 1) s ?h (pos c s hole n) (pos c s hole 1) =
        Some (if \<exists>j. 1 \<le> j \<and> j < n \<and> pos c s hole j = ?h then ?h else pos c s hole n)"
      by (rule pblChainScan_walk [OF sh]) (use 3 n in auto)
    moreover have "(\<exists>j. 1 \<le> j \<and> j < n \<and> pos c s hole j = ?h) \<longleftrightarrow>
        (\<exists>i. 1 \<le> i \<and> i \<le> n \<and> pos c s hole i = ?h)"
      using 3(2) by (metis le_neq_implies_less less_imp_le)
    ultimately show ?thesis
      using 3 x home step first fuel
      by (cases "\<exists>i. 1 \<le> i \<and> i \<le> n \<and> pos c s hole i = hv x mod c")
         (auto simp: Let_def simp del: One_nat_def)
  qed
qed

lemma pblCloseGap_ok:
  assumes "table_shape c s slots" and "hole < c" and "slots ! hole = None"
    and "gap_chain hv c s slots hole" and "scanned hv c s slots hole n" and "1 \<le> n"
    and "t < fuel" and "n + t < c" and "slots ! pos c s hole (n + t) = None"
  shows "\<exists>slots'. pblCloseGap fuel hv (c - 1) s slots hole (pos c s hole n) = Some slots' \<and>
    length slots' = length slots \<and> mset slots' = mset slots \<and> on_chain hv c s slots'"
  using assms
proof (induction fuel arbitrary: slots hole n t)
  case 0
  then show ?case by simp
next
  case (Suc fuel)
  note sh = Suc.prems(1)
  note inj = pos_inj [OF table_shape_pos(3) [OF sh]]
  have n: "1 \<le> n" "n < c" using Suc.prems by auto
  have len: "length slots = c" "pos c s hole n < c"
    using table_shape_pos(4) [OF sh] table_shape_pos(2) [OF sh] by auto
  show ?case
  proof (cases "slots ! pos c s hole n")
    case None
    then show ?thesis
      using closed_gap_on_chain [OF sh Suc.prems(2,4,5) n None] by simp
  next
    case (Some x)
    note round = pblCloseGap_round [OF sh Suc.prems(2,3) n Some, of fuel hv]
    have "0 < t" using Suc.prems(9) Some by (metis add_0_right gr0I option.discI)
    then have t: "t - 1 < fuel" "Suc n + (t - 1) = n + t" "1 + (t - 1) = t"
      using Suc.prems(7) by auto
    show ?thesis
    proof (cases "\<exists>i. 1 \<le> i \<and> i \<le> n \<and> pos c s hole i = hv x mod c")
      case True
      then have "avoids_hole hv c s hole x (pos c s hole n)"
        using home_in_gap_avoids [OF sh Suc.prems(2)] n by metis
      then have "scanned hv c s slots hole (Suc n)"
        by (rule scanned_Suc [OF Suc.prems(5) Some])
      then show ?thesis
        unfolding round if_P [OF True]
        using Suc.IH [OF sh Suc.prems(2-4), of "Suc n" "t - 1"] Suc.prems(8,9) t by simp
    next
      case False
      let ?new = "slots[hole := Some x, pos c s hole n := None]"
      obtain k where k: "k < c" "pos c s (hv x mod c) k = pos c s hole n"
        and path: "\<forall>m < k. slots ! pos c s (hv x mod c) m \<noteq> None \<or> pos c s (hv x mod c) m = hole"
        using Suc.prems(4) Some len unfolding gap_chain_def by blast
      obtain m0 where m0: "m0 < k" "pos c s (hv x mod c) m0 = hole"
        using home_outside_gap_passes [OF sh Suc.prems(2) _ n _ k] False len by auto
      have gap: "gap_chain hv c s ?new (pos c s hole n)"
        by (rule moved_gap_chain [OF sh Suc.prems(2,4) n Some k m0 path])
      have sh': "table_shape c s ?new" using sh by (simp add: table_shape_def)
      have "pos c s hole (n + t) \<noteq> hole"
        using inj [of "n + t" 0 hole] Suc.prems(2,8) n by force
      moreover have "pos c s hole (n + t) \<noteq> pos c s hole n"
        using inj [of "n + t" n hole] Suc.prems(8) \<open>0 < t\<close> by force
      ultimately have free: "?new ! pos c s (pos c s hole n) (1 + (t - 1)) = None"
        using Suc.prems(9) t by (simp add: pos_add)
      have scan: "scanned hv c s ?new (pos c s hole n) 1" by (auto simp: scanned_def)
      have "?new ! pos c s hole n = None" using len by simp
      moreover have "1 + (t - 1) < c" using t Suc.prems(8) by linarith
      moreover have "mset ?new = mset slots"
        using mset_move_slot [of hole slots "pos c s hole n"] Some len Suc.prems(2,3) by simp
      ultimately show ?thesis
        unfolding round if_not_P [OF False]
        using Suc.IH [OF sh' len(2) _ gap scan _ t(1) _ free] by (simp add: pos_add)
    qed
  qed
qed

section \<open>The capacity search\<close>

lemma pblTargetCapacity_mem:
  assumes "pblTargetCapacity needed i step cs = (c, s)" and "c \<noteq> 0"
  shows "c \<in> set cs \<and> needed \<le> c \<and> (s = step \<or> (\<exists>j. j + 2 < i + length cs \<and> s = pblPrimeStepSize ! j))"
  using assms
proof (induction cs arbitrary: i step)
  case (Cons x cs)
  show ?case
  proof (cases "needed \<le> x")
    case True
    then have "c = x" "s = (if i > 1 then pblPrimeStepSize ! (i - 2) else step)"
      using Cons.prems by (auto simp: Let_def)
    then show ?thesis using True by (auto intro!: exI [of _ "i - 2"])
  next
    case False
    let ?step = "if i > 1 then pblPrimeStepSize ! (i - 2) else step"
    have "pblTargetCapacity needed (Suc i) ?step cs = (c, s)"
      using Cons.prems(1) False by (simp add: Let_def)
    note IH = Cons.IH [OF this Cons.prems(2)]
    have "s = step \<or> (\<exists>j. j + 2 < i + length (x # cs) \<and> s = pblPrimeStepSize ! j)"
    proof (cases "s = ?step \<and> i > 1")
      case True
      then show ?thesis by (intro disjI2 exI [of _ "i - 2"]) auto
    next
      case False
      then show ?thesis using IH by (auto split: if_splits)
    qed
    with IH show ?thesis by simp
  qed
qed simp

lemma pblTargetCapacity_found:
  "\<exists>c \<in> set cs. needed \<le> c \<Longrightarrow> 0 \<notin> set cs \<Longrightarrow> fst (pblTargetCapacity needed i step cs) \<noteq> 0"
  by (induction cs arbitrary: i step) (auto simp: Let_def)

lemma pblPrimeStepSize_odd: "j < 26 \<Longrightarrow> odd (pblPrimeStepSize ! j)"
proof -
  have "list_all odd pblPrimeStepSize" by (simp add: pblPrimeStepSize_def)
  moreover have "length pblPrimeStepSize = 26" by (simp add: pblPrimeStepSize_def)
  ultimately show "j < 26 \<Longrightarrow> odd (pblPrimeStepSize ! j)" by (simp add: list_all_length)
qed

lemma pblCapacities_power:
  assumes "c \<in> set pblCapacities"
  shows "\<exists>k \<ge> 3. c = 2 ^ k"
proof -
  have eq: "pblCapacities = map (\<lambda>i. 2 ^ (i + 3)) [0..<28]"
    by (simp add: pblCapacities_def upt_conv_Cons)
  from assms have "c \<in> set (map (\<lambda>i. 2 ^ (i + 3)) [0..<28])" unfolding eq .
  then obtain i where "c = 2 ^ (i + 3)" unfolding list.set_map by blast
  then show ?thesis by (intro exI [of _ "i + 3"]) simp
qed

text \<open>The largest number of elements that growing can make room for.\<close>

definition pblMaxElements :: nat where
  "pblMaxElements = 805306367"

lemma pblTargetCapacity_ok:
  assumes "m \<le> pblMaxElements"
  obtains c s where "pblTargetCapacity (loadNeeded m + 1) 0 PBL_STEP_SIZE pblCapacities = (c, s)"
    and "c \<noteq> 0" and "loadNeeded m < c" and "\<exists>k \<ge> 3. c = 2 ^ k" and "odd s"
proof -
  obtain c s where eq: "pblTargetCapacity (loadNeeded m + 1) 0 PBL_STEP_SIZE pblCapacities = (c, s)"
    by fastforce
  have "loadNeeded m + 1 \<le> 0x40000000"
    using assms by (simp add: loadNeeded_def pblMaxElements_def)
  moreover have "0x40000000 \<in> set pblCapacities" by (simp add: pblCapacities_def)
  moreover have "0 \<notin> set pblCapacities" by (simp add: pblCapacities_def)
  ultimately have "c \<noteq> 0" using pblTargetCapacity_found eq by (metis fst_conv)
  moreover have "length pblCapacities = 28" by (simp add: pblCapacities_def)
  moreover have "odd s"
    using pblTargetCapacity_mem [OF eq \<open>c \<noteq> 0\<close>] pblPrimeStepSize_odd
    by (auto simp: PBL_STEP_SIZE_def pblCapacities_def)
  ultimately show ?thesis
    using that [OF eq] pblTargetCapacity_mem [OF eq] pblCapacities_power by auto
qed

lemma pblTargetCapacity_full:
  assumes "m > pblMaxElements"
  shows "fst (pblTargetCapacity (loadNeeded m + 1) 0 PBL_STEP_SIZE pblCapacities) = 0"
proof (rule ccontr)
  assume nz: "\<not> ?thesis"
  obtain c s where eq: "pblTargetCapacity (loadNeeded m + 1) 0 PBL_STEP_SIZE pblCapacities = (c, s)"
    by fastforce
  have "list_all (\<lambda>c. c \<le> 0x40000000) pblCapacities" by (simp add: pblCapacities_def)
  then have "c \<le> 0x40000000"
    using pblTargetCapacity_mem [OF eq] nz eq by (auto simp: list_all_iff)
  moreover have "0x40000000 < loadNeeded m + 1"
    using assms by (simp add: loadNeeded_def pblMaxElements_def)
  ultimately show False using pblTargetCapacity_mem [OF eq] nz eq by auto
qed

section \<open>The operations refine a finite map\<close>

text \<open>
  What the hash set needs of the two functions it is given: elements with equal keys compare
  as equal, only they do, and they hash to the same value. Keys are whatever the comparison
  looks at.
\<close>

locale pbl_elements =
  fixes hv :: "'e \<Rightarrow> nat" and cmp :: "'e \<Rightarrow> 'e \<Rightarrow> int" and key :: "'e \<Rightarrow> 'k"
  assumes cmp_zero: "cmp l r = 0 \<longleftrightarrow> key l = key r"
    and hv_key: "key l = key r \<Longrightarrow> hv l = hv r"
begin

lemma wf_cases:
  assumes "hs_wf hv key st"
  obtains (empty) "capacity st = 0" "pointerArray st = []" "setSize st = 0"
  | (table) "table_shape (capacity st) (stepSize st) (pointerArray st)"
      "setSize st = length (somes (pointerArray st))" "setSize st < capacity st"
      "loadNeeded (setSize st) \<le> capacity st"
      "distinct (map key (somes (pointerArray st)))"
      "on_chain hv (capacity st) (stepSize st) (pointerArray st)"
  using assms loadNeeded_free table_shape_pos(1) unfolding hs_wf_def by fastforce

lemma hs_map_Some:
  assumes "distinct (map key (somes (pointerArray st)))"
  shows "hs_map key st k = Some e \<longleftrightarrow> Some e \<in> set (pointerArray st) \<and> key e = k"
  using map_of_key_Some [OF assms] unfolding hs_map_def by (auto simp: set_somes)

text \<open>A probe for an element stops within the table: at the element with its key, or at a free
  slot, and then the key is not in the table.\<close>

lemma probe_stops:
  assumes sh: "table_shape (capacity st) (stepSize st) (pointerArray st)"
    and free: "length (somes (pointerArray st)) < capacity st"
    and dist: "distinct (map key (somes (pointerArray st)))"
    and chain: "on_chain hv (capacity st) (stepSize st) (pointerArray st)"
  obtains n where "n < capacity st"
    and "\<forall>m < n. \<not> probeStop cmp (pointerArray st) e (pos (capacity st) (stepSize st) (hv e mod capacity st) m)"
    and "probeStop cmp (pointerArray st) e (pos (capacity st) (stepSize st) (hv e mod capacity st) n)"
    and "pointerArray st ! pos (capacity st) (stepSize st) (hv e mod capacity st) n = hs_map key st (key e)"
proof -
  let ?c = "capacity st" and ?slots = "pointerArray st"
  let ?p = "pos ?c (stepSize st) (hv e mod ?c)"
  let ?stop = "\<lambda>n. n < ?c \<and> probeStop cmp ?slots e (?p n)"
  note c = table_shape_pos [OF sh] and inj = pos_inj [OF table_shape_pos(3) [OF sh]]
  obtain q where "q < ?c" "?slots ! q = None" using free_slot free c(4) by metis
  moreover obtain k where "k < ?c" "?p k = q" using pos_surj [OF c(3) \<open>q < ?c\<close>] by blast
  ultimately have "?stop k" by (simp add: probeStop_def)
  define n where "n = (LEAST n. ?stop n)"
  have n: "?stop n" unfolding n_def using \<open>?stop k\<close> by (rule LeastI)
  have before: "\<forall>m < n. \<not> probeStop cmp ?slots e (?p m)"
    using n not_less_Least [of _ ?stop] unfolding n_def by (metis (lifting) less_trans)
  have pn: "?p n < ?c" using c by simp
  have "?slots ! ?p n = hs_map key st (key e)"
  proof (cases "?slots ! ?p n")
    case (Some x)
    with n have "key x = key e" by (simp add: probeStop_def cmp_zero)
    moreover have "Some x \<in> set ?slots" using Some pn c(4) by (metis nth_mem)
    ultimately show ?thesis using hs_map_Some [OF dist] Some by metis
  next
    case None
    have "hs_map key st (key e) \<noteq> Some x" for x
    proof
      assume "hs_map key st (key e) = Some x"
      then have x: "Some x \<in> set ?slots" "key x = key e" using hs_map_Some [OF dist] by auto
      then obtain q where q: "q < ?c" "?slots ! q = Some x" using c(4) by (metis in_set_conv_nth)
      moreover have "hv x = hv e" using x hv_key by blast
      ultimately obtain j where j: "j < ?c" "?p j = q" "\<forall>m < j. ?slots ! ?p m \<noteq> None"
        using chain unfolding on_chain_def by metis
      have "probeStop cmp ?slots e (?p j)" using j q x by (simp add: probeStop_def cmp_zero)
      then have "\<not> j < n" using before by blast
      moreover have "\<not> n < j" using j None by blast
      ultimately show False using j q None by simp
    qed
    then show ?thesis using None by (metis not_None_eq)
  qed
  then show ?thesis using that n before by blast
qed

lemma home_slot:
  assumes "table_shape c s slots"
  shows "hv e AND (c - Suc 0) = hv e mod c" and "hv e mod c < c"
  using table_shape_step(2) [OF assms] table_shape_pos(2) [OF assms] by simp_all

lemma probe_ok:
  assumes sh: "table_shape (capacity st) (stepSize st) (pointerArray st)"
    and free: "length (somes (pointerArray st)) < capacity st"
    and dist: "distinct (map key (somes (pointerArray st)))"
    and chain: "on_chain hv (capacity st) (stepSize st) (pointerArray st)"
  obtains q where "q < capacity st"
    and "pblProbe (capacity st) cmp (pointerArray st) (capacity st - Suc 0) (stepSize st) e
           (hv e mod capacity st) = Some q"
    and "pointerArray st ! q = hs_map key st (key e)"
proof -
  obtain n where n: "n < capacity st"
    "\<forall>m < n. \<not> probeStop cmp (pointerArray st) e (pos (capacity st) (stepSize st) (hv e mod capacity st) m)"
    "probeStop cmp (pointerArray st) e (pos (capacity st) (stepSize st) (hv e mod capacity st) n)"
    "pointerArray st ! pos (capacity st) (stepSize st) (hv e mod capacity st) n = hs_map key st (key e)"
    by (rule probe_stops [OF assms])
  show ?thesis
    using that [OF _ _ n(4)] pblProbe_walk [OF sh home_slot(2) [OF sh] n(1-3)]
      table_shape_pos(2) [OF sh] by simp
qed

lemma hs_map_empty: "pointerArray st = [] \<Longrightarrow> hs_map key st = Map.empty"
  by (simp add: hs_map_def)

lemma hs_map_size_0: "hs_wf hv key st \<Longrightarrow> setSize st = 0 \<Longrightarrow> hs_map key st = Map.empty"
  by (auto simp: hs_map_def hs_wf_def)

lemma get_ok:
  assumes "hs_wf hv key st"
  shows "pblHashSetGetElement hv cmp st e = Some (hs_map key st (key e))"
  using assms
proof (cases rule: wf_cases)
  case empty
  then show ?thesis by (simp add: pblHashSetGetElement_def hs_map_empty)
next
  case table
  show ?thesis
  proof (cases "setSize st = 0")
    case True
    then show ?thesis using hs_map_size_0 [OF assms] by (simp add: pblHashSetGetElement_def)
  next
    case False
    obtain q where "q < capacity st"
      "pblProbe (capacity st) cmp (pointerArray st) (capacity st - Suc 0) (stepSize st) e
         (hv e mod capacity st) = Some q" "pointerArray st ! q = hs_map key st (key e)"
      using table by (metis probe_ok)
    then show ?thesis
      using False home_slot(1) [OF table(1)] by (simp add: pblHashSetGetElement_def Let_def)
  qed
qed

lemma on_chain_swap:
  assumes "on_chain hv c s slots" and "slots ! q = Some x" and "hv x = hv e" and "length slots = c"
    and "q < c"
  shows "on_chain hv c s (slots[q := Some e])"
proof -
  have keep: "slots ! r \<noteq> None \<Longrightarrow> slots[q := Some e] ! r \<noteq> None" for r
    using assms(2,4,5) by (cases "r = q") auto
  show ?thesis
    unfolding on_chain_def
  proof (intro allI impI)
    fix r y
    assume r: "r < c" "slots[q := Some e] ! r = Some y"
    then obtain z where z: "slots ! r = Some z" "hv z = hv y"
      using assms by (cases "r = q") simp_all
    then show "\<exists>n < c. pos c s (hv y mod c) n = r \<and>
        (\<forall>m < n. slots[q := Some e] ! pos c s (hv y mod c) m \<noteq> None)"
      using assms(1) r(1) keep unfolding on_chain_def by metis
  qed
qed

lemma replace_ok:
  assumes "hs_wf hv key st"
  shows "\<exists>st'. pblHashSetReplaceElement hv cmp st e = Some (hs_map key st (key e), st') \<and> hs_wf hv key st' \<and>
    hs_map key st' = (if hs_map key st (key e) = None then hs_map key st else (hs_map key st)(key e \<mapsto> e)) \<and>
    setSize st' = setSize st \<and> changeCounter st' = changeCounter st"
  using assms
proof (cases rule: wf_cases)
  case empty
  then show ?thesis using assms by (simp add: pblHashSetReplaceElement_def hs_map_empty)
next
  case table
  show ?thesis
  proof (cases "setSize st = 0")
    case True
    then show ?thesis using assms hs_map_size_0 [OF assms] by (simp add: pblHashSetReplaceElement_def)
  next
    case False
    obtain q where q: "q < capacity st"
      "pblProbe (capacity st) cmp (pointerArray st) (capacity st - Suc 0) (stepSize st) e
         (hv e mod capacity st) = Some q" "pointerArray st ! q = hs_map key st (key e)"
      using table by (metis probe_ok)
    note len = table_shape_pos(4) [OF table(1)]
    show ?thesis
    proof (cases "hs_map key st (key e)")
      case None
      then show ?thesis
        using False q assms home_slot(1) [OF table(1)] by (simp add: pblHashSetReplaceElement_def Let_def)
    next
      case (Some x)
      let ?slots = "pointerArray st"
      let ?new = "?slots[q := Some e]"
      let ?st' = "st\<lparr>pointerArray := ?new\<rparr>"
      have kx: "key x = key e" using Some hs_map_Some [OF table(5)] by simp
      have del: "mset (somes ?slots) = add_mset x (mset (somes (?slots[q := None])))"
        by (rule somes_update_Some_None) (use q len Some in auto)
      have ins: "mset (somes ?new) = add_mset e (mset (somes (?slots[q := None])))"
        using somes_update_None_Some [of q "?slots[q := None]" e] q len by simp
      note d = map_of_key_delete [OF table(5) del]
      have "key e \<notin> key ` set (somes (?slots[q := None]))"
        using fun_cong [OF d(3), of "key e"] kx by (simp add: map_of_eq_None_iff image_image)
      note i = map_of_key_insert [OF d(1) ins this]
      have "length (somes ?new) = length (somes ?slots)"
        using arg_cong [OF del, of size] arg_cong [OF ins, of size] by simp
      then have "setSize ?st' = length (somes ?new)" using table(2) by simp
      moreover have "table_shape (capacity st) (stepSize st) ?new"
        using table(1) by (simp add: table_shape_def)
      moreover have "on_chain hv (capacity st) (stepSize st) ?new"
        using on_chain_swap [OF table(6) _ _ len q(1)] q(3) Some hv_key [OF kx] by metis
      ultimately have "hs_wf hv key ?st'" using i(1) table(4) by (simp add: hs_wf_def)
      moreover have "hs_map key ?st' = (hs_map key st)(key e \<mapsto> e)"
        using i(2) d(3) kx by (simp add: hs_map_def)
      ultimately show ?thesis
        using False q Some home_slot(1) [OF table(1)] by (simp add: pblHashSetReplaceElement_def Let_def)
    qed
  qed
qed

lemma remove_ok:
  assumes "hs_wf hv key st"
  shows "\<exists>st'. pblHashSetRemoveElement hv cmp st e =
      Some (if hs_map key st (key e) = None then 0 else 1, st') \<and> hs_wf hv key st' \<and>
    hs_map key st' = (hs_map key st)(key e := None) \<and>
    setSize st' = (if hs_map key st (key e) = None then setSize st else setSize st - 1) \<and>
    (hs_map key st (key e) \<noteq> None \<longrightarrow> changeCounter st' = changeCounter st + 1) \<and>
    (hs_map key st (key e) = None \<longrightarrow> st' = st)"
  using assms
proof (cases rule: wf_cases)
  case empty
  then show ?thesis using assms by (simp add: pblHashSetRemoveElement_def hs_map_empty)
next
  case table
  show ?thesis
  proof (cases "hs_map key st (key e)")
    case None
    then have same: "(hs_map key st)(key e := None) = hs_map key st" by (simp add: fun_upd_idem)
    show ?thesis
    proof (cases "setSize st = 0")
      case True
      then show ?thesis using assms None same by (simp add: pblHashSetRemoveElement_def)
    next
      case False
      obtain q where q: "pblProbe (capacity st) cmp (pointerArray st) (capacity st - Suc 0) (stepSize st) e
           (hv e mod capacity st) = Some q" "pointerArray st ! q = hs_map key st (key e)"
        using table by (metis probe_ok)
      then show ?thesis
        using False None assms same home_slot(1) [OF table(1)]
        by (simp add: pblHashSetRemoveElement_def Let_def)
    qed
  next
    case (Some x)
    let ?c = "capacity st" and ?s = "stepSize st" and ?slots = "pointerArray st"
    note c = table_shape_pos [OF table(1)]
    obtain q where q: "q < ?c"
      "pblProbe ?c cmp ?slots (?c - Suc 0) ?s e (hv e mod ?c) = Some q" "?slots ! q = hs_map key st (key e)"
      using table by (metis probe_ok)
    let ?hole = "?slots[q := None]"
    have kx: "key x = key e" and mem: "Some x \<in> set ?slots" using Some hs_map_Some [OF table(5)] by auto
    have del: "mset (somes ?slots) = add_mset x (mset (somes ?hole))"
      by (rule somes_update_Some_None) (use q c Some in auto)
    have "x \<in> set (somes ?slots)" using mem by (simp add: set_somes)
    then have ne: "setSize st \<noteq> 0" using table(2) by auto
    have sh: "table_shape ?c ?s ?hole" using table(1) by (simp add: table_shape_def)
    have gap: "gap_chain hv ?c ?s ?hole q"
      unfolding gap_chain_def
    proof (intro allI impI)
      fix r y
      assume r: "r < ?c" "?hole ! r = Some y"
      then have "?slots ! r = Some y" using q c by (cases "r = q") auto
      then obtain n where "n < ?c" "pos ?c ?s (hv y mod ?c) n = r"
        "\<forall>m < n. ?slots ! pos ?c ?s (hv y mod ?c) m \<noteq> None"
        using table(6) r(1) unfolding on_chain_def by blast
      then show "\<exists>n < ?c. pos ?c ?s (hv y mod ?c) n = r \<and>
          (\<forall>m < n. ?hole ! pos ?c ?s (hv y mod ?c) m \<noteq> None \<or> pos ?c ?s (hv y mod ?c) m = q)"
        by (metis nth_list_update_neq)
    qed
    obtain f where f: "f < length ?slots" "?slots ! f = None"
      using free_slot table(2,3) c(4) by metis
    obtain k where k: "k < ?c" "pos ?c ?s q k = f" using pos_surj [OF c(3)] f(1) c(4) by metis
    have "k \<noteq> 0" using k(2) f(2) q Some by (metis option.discI pos_0)
    have free: "?hole ! pos ?c ?s q (1 + (k - 1)) = None"
      using k f q Some \<open>k \<noteq> 0\<close> by (metis add.commute le_add_diff_inverse2 less_one linorder_not_le
          nth_list_update_neq option.discI)
    have scan: "scanned hv ?c ?s ?hole q 1" by (auto simp: scanned_def)
    have "\<exists>slots'. pblCloseGap ?c hv (?c - 1) ?s ?hole q (pos ?c ?s q 1) = Some slots' \<and>
        length slots' = length ?hole \<and> mset slots' = mset ?hole \<and> on_chain hv ?c ?s slots'"
      by (rule pblCloseGap_ok [OF sh q(1) _ gap scan, where t = "k - 1"])
         (use k q c free \<open>k \<noteq> 0\<close> in auto)
    moreover have "(q + ?s) AND (?c - Suc 0) = pos ?c ?s q 1"
      using table_shape_step(2) [OF table(1)] by (simp add: pos_def)
    ultimately obtain slots' where s': "pblCloseGap ?c hv (?c - Suc 0) ?s ?hole q ((q + ?s) AND (?c - Suc 0)) = Some slots'"
      "length slots' = length ?hole" "mset slots' = mset ?hole" "on_chain hv ?c ?s slots'"
      by auto
    let ?st' = "st\<lparr>pointerArray := slots', setSize := setSize st - 1, changeCounter := changeCounter st + 1\<rparr>"
    have del': "mset (somes ?slots) = add_mset x (mset (somes slots'))"
      using del mset_somes_cong [OF s'(3)] by simp
    note d = map_of_key_delete [OF table(5) del']
    have "setSize st = length (somes slots') + 1"
      using table(2) arg_cong [OF del', of size] by simp
    moreover have "loadNeeded (setSize st - 1) \<le> ?c" using table(4) by (simp add: loadNeeded_def)
    moreover have "table_shape ?c ?s slots'" using sh s'(2) by (simp add: table_shape_def)
    ultimately have "hs_wf hv key ?st'" using d(1) s'(4) by (simp add: hs_wf_def)
    moreover have "hs_map key ?st' = (hs_map key st)(key e := None)"
      using d(3) kx by (simp add: hs_map_def)
    ultimately show ?thesis
      using Some q s'(1) ne c home_slot(1) [OF table(1)]
      by (simp add: pblHashSetRemoveElement_def Let_def)
  qed
qed

text \<open>Adding to a table that has room: the element goes to the free slot its probe ends at.\<close>

lemma add_fits:
  assumes wf: "hs_wf hv key st" and fits: "loadNeeded (setSize st + 1) \<le> capacity st"
    and needed: "needed \<le> capacity st"
  shows "\<exists>rc st'. pblHashSetAddLoop (Suc fuel) hv cmp minCap needed st e = Some (rc, st') \<and>
    hs_wf hv key st' \<and>
    (hs_map key st (key e) \<noteq> None \<longrightarrow> rc = 0 \<and> st' = st) \<and>
    (hs_map key st (key e) = None \<longrightarrow> rc = 1 \<and> hs_map key st' = (hs_map key st)(key e \<mapsto> e) \<and>
       mset (somes (pointerArray st')) = add_mset e (mset (somes (pointerArray st))) \<and>
       capacity st' = capacity st \<and> stepSize st' = stepSize st \<and>
       setSize st' = setSize st + 1 \<and> changeCounter st' = changeCounter st + 1)"
  using wf
proof (cases rule: wf_cases)
  case empty
  then show ?thesis using fits by (simp add: loadNeeded_def)
next
  case table
  let ?c = "capacity st" and ?s = "stepSize st" and ?slots = "pointerArray st"
  let ?h = "hv e mod ?c"
  note c = table_shape_pos [OF table(1)]
  obtain n where n: "n < ?c"
    "\<forall>m < n. \<not> probeStop cmp ?slots e (pos ?c ?s ?h m)" "probeStop cmp ?slots e (pos ?c ?s ?h n)"
    "?slots ! pos ?c ?s ?h n = hs_map key st (key e)"
    using table by (metis probe_stops)
  let ?q = "pos ?c ?s ?h n"
  have qc: "?q < ?c" using c by simp
  have probe: "pblAddProbe ?c cmp ?slots (?c - 1) ?s e ?h ?h =
      Some (case ?slots ! ?q of None \<Rightarrow> AddStored ?q | Some _ \<Rightarrow> AddPresent)"
    by (rule pblAddProbe_walk [where j = 0, OF table(1)]) (use n c in auto)
  show ?thesis
  proof (cases "hs_map key st (key e)")
    case (Some x)
    then show ?thesis
      using wf needed probe n(4) home_slot(1) [OF table(1)] by (simp add: Let_def)
  next
    case None
    let ?new = "?slots[?q := Some e]"
    let ?st' = "st\<lparr>pointerArray := ?new, setSize := setSize st + 1, changeCounter := changeCounter st + 1\<rparr>"
    have ins: "mset (somes ?new) = add_mset e (mset (somes ?slots))"
      by (rule somes_update_None_Some) (use n(4) None qc c in auto)
    have "key e \<notin> key ` set (somes ?slots)"
      using None by (simp add: hs_map_def map_of_eq_None_iff image_image)
    note i = map_of_key_insert [OF table(5) ins this]
    have keep: "?slots ! r \<noteq> None \<Longrightarrow> ?new ! r \<noteq> None" for r
      using qc c(4) by (cases "r = ?q") auto
    have chain: "on_chain hv ?c ?s ?new"
      unfolding on_chain_def
    proof (intro allI impI)
      fix r y
      assume r: "r < ?c" "?new ! r = Some y"
      show "\<exists>n < ?c. pos ?c ?s (hv y mod ?c) n = r \<and>
          (\<forall>m < n. ?new ! pos ?c ?s (hv y mod ?c) m \<noteq> None)"
      proof (cases "r = ?q")
        case True
        then have "y = e" using r c(4) by simp
        moreover have "\<forall>m < n. ?slots ! pos ?c ?s ?h m \<noteq> None"
          using n(2) by (auto simp: probeStop_def split: option.splits)
        ultimately show ?thesis using True n(1) keep by (intro exI [of _ n]) auto
      next
        case False
        then have "?slots ! r = Some y" using r by simp
        then show ?thesis using table(6) r(1) keep unfolding on_chain_def by metis
      qed
    qed
    have "setSize st + 1 = length (somes ?new)"
      using table(2) arg_cong [OF ins, of size] by simp
    moreover have "table_shape ?c ?s ?new" using table(1) by (simp add: table_shape_def)
    ultimately have "hs_wf hv key ?st'" using i(1) chain fits by (simp add: hs_wf_def)
    moreover have "hs_map key ?st' = (hs_map key st)(key e \<mapsto> e)" using i(2) by (simp add: hs_map_def)
    ultimately show ?thesis
      using None needed probe n(4) ins home_slot(1) [OF table(1)] by (simp add: Let_def)
  qed
qed

lemma loadNeeded_mono: "m \<le> n \<Longrightarrow> loadNeeded m \<le> loadNeeded n"
  unfolding loadNeeded_def by (intro div_le_mono) simp

lemma rehash_ok:
  assumes "hs_wf hv key ns" and "loadNeeded (setSize ns + length (somes slots)) \<le> capacity ns"
    and "distinct (map key (somes slots))"
    and "\<forall>e \<in> set (somes slots). hs_map key ns (key e) = None"
  shows "\<exists>ns'. pblRehash (\<lambda>ns x. pblHashSetAddLoop (Suc fuel) hv cmp (setSize ns + 1)
        (loadNeeded (setSize ns + 1)) ns x) ns slots = Some (0, ns') \<and>
    hs_wf hv key ns' \<and> capacity ns' = capacity ns \<and> stepSize ns' = stepSize ns \<and>
    setSize ns' = setSize ns + length (somes slots) \<and>
    mset (somes (pointerArray ns')) = mset (somes (pointerArray ns)) + mset (somes slots)"
  using assms
proof (induction slots arbitrary: ns)
  case Nil
  then show ?case by simp
next
  case (Cons s slots)
  show ?case
  proof (cases s)
    case None
    then show ?thesis using Cons by simp
  next
    case (Some e)
    have fits: "loadNeeded (setSize ns + 1) \<le> capacity ns"
      using Cons.prems(2) Some loadNeeded_mono [of "setSize ns + 1" "setSize ns + length (somes (s # slots))"]
      by simp
    obtain st' where st': "pblHashSetAddLoop (Suc fuel) hv cmp (setSize ns + 1) (loadNeeded (setSize ns + 1)) ns e
        = Some (1, st')" "hs_wf hv key st'" "hs_map key st' = (hs_map key ns)(key e \<mapsto> e)"
      "mset (somes (pointerArray st')) = add_mset e (mset (somes (pointerArray ns)))"
      "capacity st' = capacity ns" "stepSize st' = stepSize ns" "setSize st' = setSize ns + 1"
      using add_fits [OF Cons.prems(1) fits fits, of fuel "setSize ns + 1" e] Cons.prems(4) Some by auto
    have "\<forall>x \<in> set (somes slots). hs_map key st' (key x) = None"
      using Cons.prems(3,4) Some st'(3) by (auto simp: image_iff)
    then show ?thesis
      using Cons.IH [OF st'(2)] Cons.prems(2,3) Some st' by (simp add: ac_simps)
  qed
qed

lemma ensure_ok:
  assumes wf: "hs_wf hv key st" and room: "setSize st < pblMaxElements"
    and grow: "capacity st < loadNeeded (setSize st + 1)"
  shows "\<exists>c st1. pblHashSetEnsureCapacity (\<lambda>ns x. pblHashSetAddLoop (Suc fuel) hv cmp (setSize ns + 1)
        (loadNeeded (setSize ns + 1)) ns x) st (setSize st + 1) = Some (c, st1) \<and> 0 \<le> c \<and>
    hs_wf hv key st1 \<and> hs_map key st1 = hs_map key st \<and> setSize st1 = setSize st \<and>
    mset (somes (pointerArray st1)) = mset (somes (pointerArray st)) \<and>
    loadNeeded (setSize st1 + 1) \<le> capacity st1 \<and> changeCounter st1 = changeCounter st + 1"
proof -
  obtain c s where t: "pblTargetCapacity (loadNeeded (setSize st + 1) + 1) 0 PBL_STEP_SIZE pblCapacities = (c, s)"
    "c \<noteq> 0" "loadNeeded (setSize st + 1) < c" "\<exists>k \<ge> 3. c = 2 ^ k" "odd s"
    using pblTargetCapacity_ok [of "setSize st + 1"] room by (metis Suc_eq_plus1 Suc_leI)
  define ns :: "'e PblHashSet" where
    "ns = pblSetNewHashSet\<lparr>pointerArray := replicate c None, capacity := c, stepSize := s\<rparr>"
  have ns: "capacity ns = c" "stepSize ns = s" "setSize ns = 0" "pointerArray ns = replicate c None"
    by (simp_all add: ns_def pblSetNewHashSet_def)
  have sh: "table_shape c s (replicate c None)" using t by (simp add: table_shape_def)
  have wf_ns: "hs_wf hv key ns"
    using sh ns by (auto simp: hs_wf_def on_chain_def loadNeeded_def)
  have load: "loadNeeded (length (somes (pointerArray st))) \<le> c"
    using wf loadNeeded_mono [of "setSize st" "setSize st + 1"] t(3) by (simp add: hs_wf_def)
  have dist: "distinct (map key (somes (pointerArray st)))" using wf by (auto simp: hs_wf_def)
  obtain ns' where ns': "(if setSize st > 0
        then pblRehash (\<lambda>ns x. pblHashSetAddLoop (Suc fuel) hv cmp (setSize ns + 1)
               (loadNeeded (setSize ns + 1)) ns x) ns (pointerArray st)
        else Some (0, ns)) = Some (0, ns')"
    "hs_wf hv key ns'" "capacity ns' = c" "stepSize ns' = s" "setSize ns' = setSize st"
    "mset (somes (pointerArray ns')) = mset (somes (pointerArray st))"
  proof (cases "setSize st > 0")
    case True
    have "\<forall>e \<in> set (somes (pointerArray st)). hs_map key ns (key e) = None"
      by (simp add: hs_map_def ns)
    moreover have "setSize st = length (somes (pointerArray st))" using wf by (simp add: hs_wf_def)
    ultimately show ?thesis
      using rehash_ok [OF wf_ns _ dist, of fuel] load ns that True
      by (auto simp del: pblHashSetAddLoop.simps)
  next
    case False
    then have "somes (pointerArray st) = []" using wf by (simp add: hs_wf_def)
    then show ?thesis using that [of ns] False wf_ns ns by simp
  qed
  let ?st1 = "st\<lparr>capacity := c, stepSize := s, pointerArray := pointerArray ns',
                changeCounter := changeCounter st + 1\<rparr>"
  have "pblHashSetEnsureCapacity (\<lambda>ns x. pblHashSetAddLoop (Suc fuel) hv cmp (setSize ns + 1)
        (loadNeeded (setSize ns + 1)) ns x) st (setSize st + 1) = Some (int c, ?st1)"
    using t(1-3) grow ns'(1,3,4)
    by (auto simp: pblHashSetEnsureCapacity_def Let_def ns_def [symmetric] simp del: pblHashSetAddLoop.simps
        split: if_splits)
  moreover have "hs_wf hv key ?st1" using ns'(2-5) unfolding hs_wf_def by auto
  moreover have "hs_map key ?st1 = hs_map key st"
    using map_of_key_mset(2) [OF dist ns'(6)] by (simp add: hs_map_def)
  moreover have "loadNeeded (setSize ?st1 + 1) \<le> capacity ?st1" using t(3) by simp
  ultimately show ?thesis using ns'(6) by fastforce
qed

theorem add_ok:
  assumes wf: "hs_wf hv key st" and room: "setSize st < pblMaxElements"
  shows "\<exists>rc st'. pblHashSetAdd hv cmp st e = Some (rc, st') \<and> hs_wf hv key st' \<and>
    (hs_map key st (key e) \<noteq> None \<longrightarrow> rc = 0 \<and> hs_map key st' = hs_map key st \<and> setSize st' = setSize st) \<and>
    (hs_map key st (key e) = None \<longrightarrow> rc = 1 \<and> hs_map key st' = (hs_map key st)(key e \<mapsto> e) \<and>
       setSize st' = setSize st + 1 \<and> changeCounter st < changeCounter st')"
proof (cases "capacity st < loadNeeded (setSize st + 1)")
  case False
  then have fits: "loadNeeded (setSize st + 1) \<le> capacity st" by simp
  show ?thesis
    using add_fits [OF wf fits fits, of 1 "setSize st + 1" e]
    unfolding pblHashSetAdd_def numeral_2_eq_2 One_nat_def by fastforce
next
  case True
  obtain c st1 where e: "pblHashSetEnsureCapacity (\<lambda>ns x. pblHashSetAddLoop (Suc 0) hv cmp (setSize ns + 1)
        (loadNeeded (setSize ns + 1)) ns x) st (setSize st + 1) = Some (c, st1)" "0 \<le> c"
    and st1: "hs_wf hv key st1" "hs_map key st1 = hs_map key st" "setSize st1 = setSize st"
      "loadNeeded (setSize st1 + 1) \<le> capacity st1" "changeCounter st1 = changeCounter st + 1"
    using ensure_ok [OF wf room True, of 0] by blast
  have "pblHashSetAdd hv cmp st e =
      pblHashSetAddLoop (Suc (Suc 0)) hv cmp (setSize st + 1) (loadNeeded (setSize st + 1)) st e"
    by (simp only: pblHashSetAdd_def numeral_2_eq_2)
  also have "\<dots> = pblHashSetAddLoop (Suc (Suc 0)) hv cmp (setSize st + 1) (loadNeeded (setSize st1 + 1)) st1 e"
    unfolding pblHashSetAddLoop.simps(2) [of "Suc 0"]
    using e True st1(3,4) by (simp del: pblHashSetAddLoop.simps)
  finally have eq: "pblHashSetAdd hv cmp st e =
      pblHashSetAddLoop (Suc (Suc 0)) hv cmp (setSize st + 1) (loadNeeded (setSize st1 + 1)) st1 e" .
  show ?thesis
    unfolding eq
    using add_fits [OF st1(1,4,4), of "Suc 0" "setSize st + 1" e] st1
    by (fastforce simp del: pblHashSetAddLoop.simps)
qed

lemma add_full:
  assumes "capacity st < loadNeeded (setSize st + 1)" and "pblMaxElements \<le> setSize st"
  shows "pblHashSetAdd hv cmp st e = Some (-1, st)"
proof -
  have "fst (pblTargetCapacity (loadNeeded (setSize st + 1) + 1) 0 PBL_STEP_SIZE pblCapacities) = 0"
    by (rule pblTargetCapacity_full) (use assms in simp)
  then obtain s where "pblTargetCapacity (loadNeeded (setSize st + 1) + 1) 0 PBL_STEP_SIZE pblCapacities = (0, s)"
    by (metis prod.collapse)
  then show ?thesis
    using assms(1)
    by (simp add: pblHashSetAdd_def numeral_2_eq_2 pblHashSetEnsureCapacity_def Let_def)
qed

text \<open>Whatever the size, adding returns; when it fails the set is as before.\<close>

lemma add_total:
  assumes wf: "hs_wf hv key st" and new: "hs_map key st (key e) = None"
  shows "\<exists>rc st'. pblHashSetAdd hv cmp st e = Some (rc, st') \<and> hs_wf hv key st' \<and>
    (rc = -1 \<and> st' = st \<and> pblMaxElements \<le> setSize st \<or>
     rc = 1 \<and> hs_map key st' = (hs_map key st)(key e \<mapsto> e) \<and> setSize st' = setSize st + 1 \<and>
       changeCounter st < changeCounter st')"
proof (cases "setSize st < pblMaxElements")
  case True
  then show ?thesis using add_ok [OF wf True, of e] new by blast
next
  case False
  show ?thesis
  proof (cases "capacity st < loadNeeded (setSize st + 1)")
    case True
    then show ?thesis using add_full [OF True, of e] False wf by auto
  next
    case fits: False
    then have fits: "loadNeeded (setSize st + 1) \<le> capacity st" by simp
    then show ?thesis
      using add_fits [OF wf fits fits, of "Suc 0" "setSize st + 1" e] new
      unfolding pblHashSetAdd_def numeral_2_eq_2 by fastforce
  qed
qed

end

lemma new_wf: "hs_wf hv key pblSetNewHashSet"
  by (simp add: hs_wf_def pblSetNewHashSet_def)

lemma new_map: "hs_map key pblSetNewHashSet = Map.empty"
  by (simp add: hs_map_def pblSetNewHashSet_def)

end
