(* ===== verification/KeyedStore.thy ===== *)
theory KeyedStore
  imports Prelude
begin

text \<open>
  The contract of a store from keys to values, as the tables of the network core use it: peers by
  name, streams by identifier, clients by descriptor. The client facts (sweeps that delete by a
  condition, searches over the entries, counts) are proved from the laws of the operations; the
  hash map of the code provides the laws in PblMap.
\<close>

locale keyed_store =
  fixes new :: "'m"
    and get :: "'m \<Rightarrow> 'k \<Rightarrow> 'v option"
    and room :: "'m \<Rightarrow> 'k \<Rightarrow> bool"
    and add :: "'m \<Rightarrow> 'k \<Rightarrow> 'v \<Rightarrow> 'm"
    and remove :: "'m \<Rightarrow> 'k \<Rightarrow> 'm"
    and entries :: "'m \<Rightarrow> ('k \<times> 'v) list"
  assumes law_new: "get new k = None"
    and law_add: "room m k \<Longrightarrow> get (add m k v) = (get m)(k \<mapsto> v)"
    and law_remove: "get (remove m k) = (get m)(k := None)"
    and law_mem: "(k, v) \<in> set (entries m) \<longleftrightarrow> get m k = Some v"
    and law_distinct: "distinct (map fst (entries m))"
begin

lemma map_of_entries: "map_of (entries m) = get m"
  using law_mem [of _ _ m] map_of_eq_Some_iff [OF law_distinct, of m]
  by (intro ext option_eq_by_Some) simp

lemma distinct_entries: "distinct (entries m)"
  using law_distinct [of m] by (simp add: distinct_map)

lemma dom_get: "dom (get m) = fst ` set (entries m)"
  by (simp add: dom_map_of_conv_image_fst flip: map_of_entries)

lemma entries_empty: "entries m = [] \<longleftrightarrow> get m = Map.empty"
  by (metis law_mem list.set_intros(1) map_of.simps(1) map_of_entries neq_Nil_conv not_Some_eq surj_pair)

lemma get_add_remove: "room (remove m k) k \<Longrightarrow> get (add (remove m k) k v) = (get m)(k \<mapsto> v)"
  by (simp add: law_add law_remove)

text \<open>Deleting a list of keys, and deleting every entry a condition selects.\<close>

lemma get_remove_list: "get (foldl remove m ks) k = (if k \<in> set ks then None else get m k)"
  by (induction ks arbitrary: m) (auto simp: law_remove)

lemma get_sweep:
  "get (foldl remove m (map fst (filter P (entries m)))) k =
     (case get m k of None \<Rightarrow> None | Some v \<Rightarrow> if P (k, v) then None else Some v)"
proof -
  have "k \<in> set (map fst (filter P (entries m))) \<longleftrightarrow> (\<exists>v. get m k = Some v \<and> P (k, v))"
    using law_mem [of k _ m] by force
  then show ?thesis by (auto simp: get_remove_list split: option.splits)
qed

text \<open>A search through the entries.\<close>

lemma search_Some: "find P (entries m) = Some (k, v) \<Longrightarrow> get m k = Some v \<and> P (k, v)"
  by (auto simp: find_Some_iff simp flip: law_mem)

lemma search_None: "find P (entries m) = None \<longleftrightarrow> (\<forall>k v. get m k = Some v \<longrightarrow> \<not> P (k, v))"
  by (auto simp: find_None_iff simp flip: law_mem)

lemma search_unique:
  assumes "get m k = Some v" and "P (k, v)" and "\<And>k' v'. get m k' = Some v' \<Longrightarrow> P (k', v') \<Longrightarrow> k' = k"
  shows "find P (entries m) = Some (k, v)"
proof -
  obtain k' v' where f: "find P (entries m) = Some (k', v')"
    using assms(1,2) search_None [of P m] by (cases "find P (entries m)") auto
  with search_Some [OF f] assms(1,3) show ?thesis by auto
qed

text \<open>The number of entries a condition selects.\<close>

lemma count_entries: "length (filter P (entries m)) = card {(k, v). get m k = Some v \<and> P (k, v)}"
proof -
  have "set (filter P (entries m)) = {(k, v). get m k = Some v \<and> P (k, v)}"
    by (auto simp: law_mem)
  then show ?thesis using distinct_card [of "filter P (entries m)"] distinct_entries by (metis distinct_filter)
qed

end

end
