(* ===== verification/PblMap.thy ===== *)
theory PblMap
  imports PblHashSet KeyedStore
begin

text \<open>
  The hash map of the embedded Program Base Library (pblMap.c) on top of the hash set: a set
  of entries compared and hashed by their key bytes, searched with a key element. The raw
  operations are the code's, on the hash set; the type \<open>PblMap\<close> is the hash sets such a map
  can be, and the operations on it are what the rest of the development uses. That the raw
  operations always return and stay within the type is proved once, here.
\<close>

section \<open>Elements, hashing and comparison\<close>

datatype 'v pblElement =
    PblMapEntry bytes 'v
  | PblMapKey bytes

fun elemKey :: "'v pblElement \<Rightarrow> bytes" where
  "elemKey (PblMapEntry k v) = k"
| "elemKey (PblMapKey k) = k"

text \<open>\<open>pblHt_J_Zobel_Hash\<close>: the accumulator is a C int; its additions wrap and its right shift
  is the arithmetic one.\<close>

fun zobelLoop :: "u32 \<Rightarrow> bytes \<Rightarrow> u32" where
  "zobelLoop ret [] = ret"
| "zobelLoop ret (b # bs) =
     zobelLoop (ret XOR (push_bit 5 ret + ucast b + signed_drop_bit 2 ret)) bs"

definition pblHt_J_Zobel_Hash :: "bytes \<Rightarrow> u32" where
  "pblHt_J_Zobel_Hash key = zobelLoop 104729 key AND 0x7fffffff"

definition pblHtHashValue :: "bytes \<Rightarrow> u32" where
  "pblHtHashValue key = pblHt_J_Zobel_Hash key AND 0x7fffffff"

fun pblMapEntryHashValue :: "'v pblElement \<Rightarrow> nat" where
  "pblMapEntryHashValue (PblMapEntry k v) = (if length k = 0 then 0 else unat (pblHtHashValue k))"
| "pblMapEntryHashValue (PblMapKey k) = (if length k = 0 then 0 else unat (pblHtHashValue k))"

text \<open>\<open>memcmp\<close> on the common prefix: the sign of the first difference.\<close>

fun memcmp :: "bytes \<Rightarrow> bytes \<Rightarrow> int" where
  "memcmp (a # as) (b # bs) = (if a = b then memcmp as bs else if unat a < unat b then -1 else 1)"
| "memcmp _ _ = 0"

definition pbl_memcmp :: "bytes \<Rightarrow> bytes \<Rightarrow> int" where
  "pbl_memcmp left right =
     (if length left = 0 then (if length right = 0 then 0 else -1)
      else if length right = 0 then 1
      else let len = (if length left \<le> length right then length left else length right);
               rc = memcmp (take len left) (take len right)
           in if rc \<noteq> 0 then rc else int (length left) - int (length right))"

fun pblMapEntryCompareFunction :: "'v pblElement \<Rightarrow> 'v pblElement \<Rightarrow> int" where
  "pblMapEntryCompareFunction (PblMapEntry k v) (PblMapEntry k' v') = pbl_memcmp k k'"
| "pblMapEntryCompareFunction (PblMapEntry k v) (PblMapKey k') = pbl_memcmp k k'"
| "pblMapEntryCompareFunction (PblMapKey k) (PblMapEntry k' v') = pbl_memcmp k k'"
| "pblMapEntryCompareFunction (PblMapKey k) (PblMapKey k') = pbl_memcmp k k'"

lemma memcmp_zero: "length as = length bs \<Longrightarrow> memcmp as bs = 0 \<longleftrightarrow> as = bs"
  by (induction as bs rule: memcmp.induct) auto

lemma pbl_memcmp_zero: "pbl_memcmp left right = 0 \<longleftrightarrow> left = right"
proof (cases "length left = length right")
  case True
  then show ?thesis by (auto simp: pbl_memcmp_def Let_def memcmp_zero)
next
  case False
  then show ?thesis by (auto simp: pbl_memcmp_def Let_def)
qed

lemma pblMapEntryCompareFunction_key:
  "pblMapEntryCompareFunction l r = pbl_memcmp (elemKey l) (elemKey r)"
  by (cases l; cases r) simp_all

lemma pblMapEntryHashValue_key: "elemKey l = elemKey r \<Longrightarrow> pblMapEntryHashValue l = pblMapEntryHashValue r"
  by (cases l; cases r) simp_all

interpretation elems: pbl_elements pblMapEntryHashValue pblMapEntryCompareFunction elemKey
proof
  fix l r :: "'v pblElement"
  show "pblMapEntryCompareFunction l r = 0 \<longleftrightarrow> elemKey l = elemKey r"
    by (simp add: pblMapEntryCompareFunction_key pbl_memcmp_zero)
  show "elemKey l = elemKey r \<Longrightarrow> pblMapEntryHashValue l = pblMapEntryHashValue r"
    by (rule pblMapEntryHashValue_key)
qed

section \<open>The operations of the code, on the hash set\<close>

type_synonym 'v rawMap = "'v pblElement PblHashSet"

fun entryValue :: "'v pblElement \<Rightarrow> 'v option" where
  "entryValue (PblMapEntry k v) = Some v"
| "entryValue (PblMapKey k) = None"

definition pblMapGet_raw :: "'v rawMap \<Rightarrow> bytes \<Rightarrow> 'v option option" where
  "pblMapGet_raw st k =
     (case pblHashSetGetElement pblMapEntryHashValue pblMapEntryCompareFunction st (PblMapKey k) of
        None \<Rightarrow> None
      | Some None \<Rightarrow> Some None
      | Some (Some e) \<Rightarrow> Some (entryValue e))"

definition pblMapAdd_raw :: "'v rawMap \<Rightarrow> bytes \<Rightarrow> 'v \<Rightarrow> (int \<times> 'v rawMap) option" where
  "pblMapAdd_raw st k v =
     (let newEntry = PblMapEntry k v
      in case pblHashSetReplaceElement pblMapEntryHashValue pblMapEntryCompareFunction st newEntry of
           None \<Rightarrow> None
         | Some (Some mapEntry, st') \<Rightarrow> Some (0, st')
         | Some (None, st') \<Rightarrow>
             (case pblHashSetAdd pblMapEntryHashValue pblMapEntryCompareFunction st' newEntry of
                None \<Rightarrow> None
              | Some (rc, st'') \<Rightarrow> if rc < 0 then Some (-1, st'') else Some (1, st'')))"

definition pblMapRemove_raw :: "'v rawMap \<Rightarrow> bytes \<Rightarrow> ('v option \<times> 'v rawMap) option" where
  "pblMapRemove_raw st k =
     (case pblHashSetGetElement pblMapEntryHashValue pblMapEntryCompareFunction st (PblMapKey k) of
        None \<Rightarrow> None
      | Some None \<Rightarrow> Some (None, st)
      | Some (Some mapEntry) \<Rightarrow>
          (case pblHashSetRemoveElement pblMapEntryHashValue pblMapEntryCompareFunction st mapEntry of
             None \<Rightarrow> None
           | Some (rc, st') \<Rightarrow> Some (entryValue mapEntry, st')))"

text \<open>\<open>pblSetRemove\<close> removes the element a fresh iterator returns first; \<open>pblMapClear\<close> calls it
  until the set is empty.\<close>

definition pblSetRemoveFirst :: "'v rawMap \<Rightarrow> (int \<times> 'v rawMap) option" where
  "pblSetRemoveFirst st =
     (case somes (pointerArray st) of
        [] \<Rightarrow> Some (0, st)
      | e # es \<Rightarrow> pblHashSetRemoveElement pblMapEntryHashValue pblMapEntryCompareFunction st e)"

fun pblMapClear_loop :: "nat \<Rightarrow> 'v rawMap \<Rightarrow> 'v rawMap option" where
  "pblMapClear_loop fuel st =
     (if setSize st > 0
      then (case fuel of
              0 \<Rightarrow> None
            | Suc f \<Rightarrow> (case pblSetRemoveFirst st of
                          None \<Rightarrow> None
                        | Some (rc, st') \<Rightarrow> pblMapClear_loop f st'))
      else Some st)"

declare pblMapClear_loop.simps [simp del]

definition pblMapClear_raw :: "'v rawMap \<Rightarrow> 'v rawMap option" where
  "pblMapClear_raw st = pblMapClear_loop (setSize st) st"

text \<open>The entries in the order of an iterator over the map: the occupied slots by index.\<close>

definition entries_raw :: "'v rawMap \<Rightarrow> (bytes \<times> 'v) list" where
  "entries_raw st = List.map_filter (\<lambda>e. map_option (Pair (elemKey e)) (entryValue e)) (somes (pointerArray st))"

text \<open>A store through the pointer that \<open>pblMapGet\<close> returned: the value changes in place.\<close>

fun storeElem :: "bytes \<Rightarrow> ('v \<Rightarrow> 'v) \<Rightarrow> 'v pblElement \<Rightarrow> 'v pblElement" where
  "storeElem k f (PblMapEntry k' v) = (if k' = k then PblMapEntry k' (f v) else PblMapEntry k' v)"
| "storeElem k f (PblMapKey k') = PblMapKey k'"

definition pblMapStore_raw :: "'v rawMap \<Rightarrow> bytes \<Rightarrow> ('v \<Rightarrow> 'v) \<Rightarrow> 'v rawMap" where
  "pblMapStore_raw st k f = st\<lparr>pointerArray := map (map_option (storeElem k f)) (pointerArray st)\<rparr>"

section \<open>The type of maps\<close>

definition map_wf :: "'v rawMap \<Rightarrow> bool" where
  "map_wf st \<longleftrightarrow> hs_wf pblMapEntryHashValue elemKey st \<and>
     (\<forall>e \<in> set (somes (pointerArray st)). entryValue e \<noteq> None)"

lemma map_wf_new: "map_wf pblSetNewHashSet"
  by (simp add: map_wf_def new_wf) (simp add: pblSetNewHashSet_def)

typedef 'v PblMap = "{st :: 'v rawMap. map_wf st}"
  using map_wf_new by blast

setup_lifting type_definition_PblMap

definition raw_lookup :: "'v rawMap \<Rightarrow> bytes \<rightharpoonup> 'v" where
  "raw_lookup st k = (case hs_map elemKey st k of None \<Rightarrow> None | Some e \<Rightarrow> entryValue e)"

lemma map_wf_dist: "map_wf st \<Longrightarrow> distinct (map elemKey (somes (pointerArray st)))"
  by (auto simp: map_wf_def hs_wf_def)

lemma map_wf_hs: "map_wf st \<Longrightarrow> hs_wf pblMapEntryHashValue elemKey st"
  by (simp add: map_wf_def)

lemma map_wf_iff_ran:
  assumes "hs_wf pblMapEntryHashValue elemKey st"
  shows "map_wf st \<longleftrightarrow> (\<forall>k e. hs_map elemKey st k = Some e \<longrightarrow> entryValue e \<noteq> None)"
proof -
  have "distinct (map elemKey (somes (pointerArray st)))" using assms by (auto simp: hs_wf_def)
  from elems.hs_map_Some [OF this] show ?thesis
    using assms by (auto simp: map_wf_def set_somes)
qed

lemma raw_lookup_None: "map_wf st \<Longrightarrow> raw_lookup st k = None \<longleftrightarrow> hs_map elemKey st k = None"
  using map_wf_iff_ran [OF map_wf_hs] by (auto simp: raw_lookup_def split: option.splits)

lemma pblMapGet_raw_ok: "map_wf st \<Longrightarrow> pblMapGet_raw st k = Some (raw_lookup st k)"
  by (auto simp: pblMapGet_raw_def elems.get_ok map_wf_hs raw_lookup_def split: option.splits)

lemma map_wf_upd:
  assumes "map_wf st" and "hs_wf pblMapEntryHashValue elemKey st'"
    and "hs_map elemKey st' = (hs_map elemKey st)(k \<mapsto> PblMapEntry k v)"
  shows "map_wf st'" and "raw_lookup st' = (raw_lookup st)(k \<mapsto> v)"
proof -
  have "\<forall>k e. hs_map elemKey st k = Some e \<longrightarrow> entryValue e \<noteq> None"
    using assms(1) map_wf_iff_ran map_wf_hs by blast
  then show "map_wf st'" unfolding map_wf_iff_ran [OF assms(2)] assms(3) by auto
  show "raw_lookup st' = (raw_lookup st)(k \<mapsto> v)"
    by (auto simp: raw_lookup_def assms(3) fun_eq_iff)
qed

lemma map_wf_del:
  assumes "map_wf st" and "hs_wf pblMapEntryHashValue elemKey st'"
    and "hs_map elemKey st' = (hs_map elemKey st)(k := None)"
  shows "map_wf st'" and "raw_lookup st' = (raw_lookup st)(k := None)"
proof -
  have "\<forall>k e. hs_map elemKey st k = Some e \<longrightarrow> entryValue e \<noteq> None"
    using assms(1) map_wf_iff_ran map_wf_hs by blast
  then show "map_wf st'" unfolding map_wf_iff_ran [OF assms(2)] assms(3) by auto
  show "raw_lookup st' = (raw_lookup st)(k := None)"
    by (auto simp: raw_lookup_def assms(3) fun_eq_iff)
qed

text \<open>Every raw operation returns, stays within the type, and does to the lookup function what
  its name says.\<close>

lemma pblMapAdd_raw_ok:
  assumes wf: "map_wf st"
  obtains rc st' where "pblMapAdd_raw st k v = Some (rc, st')" and "map_wf st'"
    and "rc = -1 \<and> st' = st \<and> raw_lookup st k = None \<and> pblMaxElements \<le> setSize st \<or>
         rc = 0 \<and> raw_lookup st k \<noteq> None \<and> raw_lookup st' = (raw_lookup st)(k \<mapsto> v) \<and>
           setSize st' = setSize st \<and> changeCounter st' = changeCounter st \<or>
         rc = 1 \<and> raw_lookup st k = None \<and> raw_lookup st' = (raw_lookup st)(k \<mapsto> v) \<and>
           setSize st' = setSize st + 1 \<and> changeCounter st < changeCounter st'"
proof -
  note hs = map_wf_hs [OF wf] and none = raw_lookup_None [OF wf]
  let ?e = "PblMapEntry k v"
  obtain st1 where r: "pblHashSetReplaceElement pblMapEntryHashValue pblMapEntryCompareFunction st ?e =
      Some (hs_map elemKey st k, st1)" "hs_wf pblMapEntryHashValue elemKey st1"
    "hs_map elemKey st1 = (if hs_map elemKey st k = None then hs_map elemKey st else (hs_map elemKey st)(k \<mapsto> ?e))"
    "setSize st1 = setSize st" "changeCounter st1 = changeCounter st"
    using elems.replace_ok [OF hs, of ?e] by auto
  show ?thesis
  proof (cases "hs_map elemKey st k")
    case (Some x)
    then show ?thesis
      using that [of 0 st1] r map_wf_upd [OF wf r(2)] none by (simp add: pblMapAdd_raw_def)
  next
    case None
    then have r': "hs_map elemKey st1 = hs_map elemKey st" using r by simp
    obtain rc st2 where a: "pblHashSetAdd pblMapEntryHashValue pblMapEntryCompareFunction st1 ?e = Some (rc, st2)"
      "hs_wf pblMapEntryHashValue elemKey st2"
      "rc = -1 \<and> st2 = st1 \<and> pblMaxElements \<le> setSize st1 \<or>
       rc = 1 \<and> hs_map elemKey st2 = (hs_map elemKey st1)(k \<mapsto> ?e) \<and> setSize st2 = setSize st1 + 1 \<and>
         changeCounter st1 < changeCounter st2"
      using elems.add_total [OF r(2), of ?e] None r' by auto
    have "st1 = st"
      using r(1) None unfolding pblHashSetReplaceElement_def
      by (auto simp: Let_def split: option.splits if_splits)
    then show ?thesis
      using that [of rc st2] a r None none wf map_wf_upd [OF wf a(2)] by (auto simp: pblMapAdd_raw_def)
  qed
qed

lemma pblMapRemove_raw_ok:
  assumes wf: "map_wf st"
  obtains st' where "pblMapRemove_raw st k = Some (raw_lookup st k, st')" and "map_wf st'"
    and "raw_lookup st' = (raw_lookup st)(k := None)"
    and "setSize st' = (if raw_lookup st k = None then setSize st else setSize st - 1)"
    and "raw_lookup st k = None \<longrightarrow> st' = st"
    and "raw_lookup st k \<noteq> None \<longrightarrow> changeCounter st' = changeCounter st + 1"
proof -
  note hs = map_wf_hs [OF wf] and none = raw_lookup_None [OF wf]
  show ?thesis
  proof (cases "hs_map elemKey st k")
    case None
    then have "raw_lookup st k = None" using none by simp
    then show ?thesis
      using that [of st] None wf
      by (auto simp: pblMapRemove_raw_def elems.get_ok [OF hs] fun_upd_idem)
  next
    case (Some x)
    have kx: "elemKey x = k" using Some elems.hs_map_Some [OF map_wf_dist [OF wf]] by simp
    obtain st' where s: "pblHashSetRemoveElement pblMapEntryHashValue pblMapEntryCompareFunction st x = Some (1, st')"
      "hs_wf pblMapEntryHashValue elemKey st'" "hs_map elemKey st' = (hs_map elemKey st)(k := None)"
      "setSize st' = setSize st - 1" "changeCounter st' = changeCounter st + 1"
      using elems.remove_ok [OF hs, of x] Some kx by auto
    have l: "raw_lookup st k = entryValue x" using Some by (simp add: raw_lookup_def)
    moreover have "raw_lookup st k \<noteq> None" using none Some by simp
    ultimately obtain y where y: "entryValue x = Some y" "raw_lookup st k = Some y" by auto
    have "pblMapRemove_raw st k = Some (raw_lookup st k, st')"
      using s(1) Some l by (simp add: pblMapRemove_raw_def elems.get_ok [OF hs])
    then show ?thesis
      using that [of st'] s(4,5) y(2) map_wf_del [OF wf s(2,3)] by simp
  qed
qed

lemma setSize_lookup: "map_wf st \<Longrightarrow> setSize st = 0 \<Longrightarrow> raw_lookup st = Map.empty"
  using elems.hs_map_size_0 [OF map_wf_hs, of st] by (auto simp: raw_lookup_def)

lemma pblSetRemoveFirst_ok:
  assumes wf: "map_wf st" and "setSize st > 0"
  obtains st' where "pblSetRemoveFirst st = Some (1, st')" and "map_wf st'" and "setSize st' = setSize st - 1"
    and "changeCounter st' = changeCounter st + 1"
proof -
  note hs = map_wf_hs [OF wf]
  obtain e es where e: "somes (pointerArray st) = e # es"
    using assms by (cases "somes (pointerArray st)") (auto simp: map_wf_def hs_wf_def)
  then have "Some e \<in> set (pointerArray st)" using set_somes [of "pointerArray st"] by auto
  then have "hs_map elemKey st (elemKey e) = Some e"
    using elems.hs_map_Some [OF map_wf_dist [OF wf]] by simp
  then show ?thesis
    using elems.remove_ok [OF hs, of e] e map_wf_del(1) [OF wf] that
    by (auto simp: pblSetRemoveFirst_def)
qed

lemma pblMapClear_loop_ok:
  assumes "map_wf st" and "setSize st \<le> fuel"
  shows "\<exists>st'. pblMapClear_loop fuel st = Some st' \<and> map_wf st' \<and> setSize st' = 0 \<and>
    changeCounter st' = changeCounter st + setSize st"
  using assms
proof (induction fuel arbitrary: st)
  case 0
  then show ?case by (simp add: pblMapClear_loop.simps [of 0])
next
  case (Suc fuel)
  show ?case
  proof (cases "setSize st > 0")
    case False
    then show ?thesis using Suc.prems by (simp add: pblMapClear_loop.simps [of "Suc fuel"])
  next
    case True
    obtain st1 where st1: "pblSetRemoveFirst st = Some (1, st1)" "map_wf st1"
      "setSize st1 = setSize st - 1" "changeCounter st1 = changeCounter st + 1"
      by (rule pblSetRemoveFirst_ok [OF Suc.prems(1) True])
    then show ?thesis
      using Suc.IH [OF st1(2)] Suc.prems(2) True by (auto simp: pblMapClear_loop.simps [of "Suc fuel"])
  qed
qed

lemma pblMapClear_raw_ok:
  assumes "map_wf st"
  obtains st' where "pblMapClear_raw st = Some st'" and "map_wf st'" and "setSize st' = 0"
    and "raw_lookup st' = Map.empty" and "changeCounter st' = changeCounter st + setSize st"
  using pblMapClear_loop_ok [OF assms order_refl] setSize_lookup
  by (auto simp: pblMapClear_raw_def)

lemma pblMapAdd_raw_wf:
  assumes "map_wf st"
  shows "map_wf (snd (the (pblMapAdd_raw st k v)))"
proof -
  obtain rc st' where "pblMapAdd_raw st k v = Some (rc, st')" "map_wf st'"
    by (rule pblMapAdd_raw_ok [OF assms])
  then show ?thesis by simp
qed

text \<open>
  C11: adding to a map always returns, keeps the table in order, and afterwards a lookup of the key
  gives the new value while every other key gives what it gave before; the result is 0 when a value
  was replaced and 1 when the key is new. Only a table of the largest capacity refuses, unchanged.
\<close>

theorem map_add:
  assumes "map_wf st"
  shows "\<exists>rc st'. pblMapAdd_raw st k v = Some (rc, st') \<and> map_wf st' \<and>
    (rc = -1 \<and> st' = st \<and> pblMapGet_raw st k = Some None \<and> pblMaxElements \<le> setSize st \<or>
     rc = (if pblMapGet_raw st k = Some None then 1 else 0) \<and>
       (\<forall>k'. pblMapGet_raw st' k' = (if k' = k then Some (Some v) else pblMapGet_raw st k')))"
proof -
  obtain rc st' where "pblMapAdd_raw st k v = Some (rc, st')" "map_wf st'"
    "rc = -1 \<and> st' = st \<and> raw_lookup st k = None \<and> pblMaxElements \<le> setSize st \<or>
     rc = 0 \<and> raw_lookup st k \<noteq> None \<and> raw_lookup st' = (raw_lookup st)(k \<mapsto> v) \<and>
       setSize st' = setSize st \<and> changeCounter st' = changeCounter st \<or>
     rc = 1 \<and> raw_lookup st k = None \<and> raw_lookup st' = (raw_lookup st)(k \<mapsto> v) \<and>
       setSize st' = setSize st + 1 \<and> changeCounter st < changeCounter st'"
    by (rule pblMapAdd_raw_ok [OF assms])
  then show ?thesis by (intro exI [of _ rc] exI [of _ st']) (auto simp: pblMapGet_raw_ok assms)
qed

definition one_entry :: "nat rawMap" where
  "one_entry = snd (the (pblMapAdd_raw pblSetNewHashSet [1, 2] 7))"

lemma one_entry_wf: "map_wf one_entry"
  unfolding one_entry_def by (rule pblMapAdd_raw_wf [OF map_wf_new])

theorem map_add_witness:
  "\<exists>rc st'. pblMapAdd_raw one_entry [3] 8 = Some (rc, st') \<and> map_wf st'"
  using map_add [OF one_entry_wf, of "[3]" 8] by blast

text \<open>
  C12: removing a key always returns what a lookup gave, keeps the table in order (the elements
  behind the freed slot that belong to the same collision chains are moved up), and afterwards the
  key is gone and every other key gives what it gave before.
\<close>

theorem map_remove:
  assumes "map_wf st"
  shows "\<exists>old st'. pblMapRemove_raw st k = Some (old, st') \<and> pblMapGet_raw st k = Some old \<and> map_wf st' \<and>
    (\<forall>k'. pblMapGet_raw st' k' = (if k' = k then Some None else pblMapGet_raw st k')) \<and>
    setSize st' = (if old = None then setSize st else setSize st - 1)"
proof -
  obtain st' where "pblMapRemove_raw st k = Some (raw_lookup st k, st')" "map_wf st'"
    "raw_lookup st' = (raw_lookup st)(k := None)"
    "setSize st' = (if raw_lookup st k = None then setSize st else setSize st - 1)"
    by (rule pblMapRemove_raw_ok [OF assms])
  then show ?thesis by (auto simp: pblMapGet_raw_ok assms)
qed

theorem map_remove_witness:
  "\<exists>old st'. pblMapRemove_raw one_entry [1, 2] = Some (old, st') \<and> pblMapGet_raw st' [1, 2] = Some None"
  using map_remove [OF one_entry_wf, of "[1, 2]"] by (elim exE conjE) simp

text \<open>
  Clearing a map ends after as many removals as it has elements, and leaves an empty map.
\<close>

theorem map_clear:
  assumes "map_wf st"
  shows "\<exists>st'. pblMapClear_raw st = Some st' \<and> map_wf st' \<and> setSize st' = 0 \<and>
    changeCounter st' = changeCounter st + setSize st \<and> (\<forall>k. pblMapGet_raw st' k = Some None)"
proof -
  obtain st' where "pblMapClear_raw st = Some st'" "map_wf st'" "setSize st' = 0"
    "raw_lookup st' = Map.empty" "changeCounter st' = changeCounter st + setSize st"
    by (rule pblMapClear_raw_ok [OF assms])
  then show ?thesis by (simp add: pblMapGet_raw_ok)
qed

theorem map_clear_witness: "\<exists>st'. pblMapClear_raw one_entry = Some st' \<and> setSize st' = 0"
  using map_clear [OF one_entry_wf] by blast

lemma pblMapRemove_raw_wf:
  assumes "map_wf st"
  shows "map_wf (snd (the (pblMapRemove_raw st k)))"
proof -
  obtain st' where "pblMapRemove_raw st k = Some (raw_lookup st k, st')" "map_wf st'"
    by (rule pblMapRemove_raw_ok [OF assms])
  then show ?thesis by simp
qed

lemma pblMapClear_raw_wf:
  assumes "map_wf st"
  shows "map_wf (the (pblMapClear_raw st))"
proof -
  obtain st' where "pblMapClear_raw st = Some st'" "map_wf st'"
    by (rule pblMapClear_raw_ok [OF assms])
  then show ?thesis by simp
qed

section \<open>The operations on the type\<close>

text \<open>
  The client's view. \<open>pblMapAdd\<close> and \<open>pblMapRemove\<close> pair the code's return value with the new
  map. \<open>pblMapStore\<close> is a store through the pointer \<open>pblMapGet\<close> returned. Entries that
  \<open>pblMapRemove\<close> or a replacing \<open>pblMapAdd\<close> take out are values here; freeing them is not
  modelled.
\<close>

lift_definition pblMapNewHashMap :: "'v PblMap" is pblSetNewHashSet
  by (rule map_wf_new)

lift_definition pblMapGet :: "'v PblMap \<Rightarrow> bytes \<Rightarrow> 'v option" is
  "\<lambda>st k. the (pblMapGet_raw st k)" .

lift_definition pblMapAddRc :: "'v PblMap \<Rightarrow> bytes \<Rightarrow> 'v \<Rightarrow> int" is
  "\<lambda>st k v. fst (the (pblMapAdd_raw st k v))" .

lift_definition pblMapAddTo :: "'v PblMap \<Rightarrow> bytes \<Rightarrow> 'v \<Rightarrow> 'v PblMap" is
  "\<lambda>st k v. snd (the (pblMapAdd_raw st k v))"
  by (rule pblMapAdd_raw_wf)

definition pblMapAdd :: "'v PblMap \<Rightarrow> bytes \<Rightarrow> 'v \<Rightarrow> int \<times> 'v PblMap" where
  "pblMapAdd m k v = (pblMapAddRc m k v, pblMapAddTo m k v)"

lift_definition pblMapRemoveFrom :: "'v PblMap \<Rightarrow> bytes \<Rightarrow> 'v PblMap" is
  "\<lambda>st k. snd (the (pblMapRemove_raw st k))"
  by (rule pblMapRemove_raw_wf)

definition pblMapRemove :: "'v PblMap \<Rightarrow> bytes \<Rightarrow> 'v option \<times> 'v PblMap" where
  "pblMapRemove m k = (pblMapGet m k, pblMapRemoveFrom m k)"

lift_definition pblMapClear :: "'v PblMap \<Rightarrow> 'v PblMap" is
  "\<lambda>st. the (pblMapClear_raw st)"
  by (rule pblMapClear_raw_wf)

lemma storeElem_simps [simp]:
  "elemKey (storeElem k f e) = elemKey e"
  "pblMapEntryHashValue (storeElem k f e) = pblMapEntryHashValue e"
  "entryValue (storeElem k f e) = (if elemKey e = k then map_option f (entryValue e) else entryValue e)"
  by (cases e; simp)+

lemma somes_map_option: "somes (map (map_option g) xs) = map g (somes xs)"
  by (induction xs) (auto split: option.splits)

lemma pblMapStore_raw_simps [simp]:
  "somes (pointerArray (pblMapStore_raw st k f)) = map (storeElem k f) (somes (pointerArray st))"
  "capacity (pblMapStore_raw st k f) = capacity st" "stepSize (pblMapStore_raw st k f) = stepSize st"
  "setSize (pblMapStore_raw st k f) = setSize st" "changeCounter (pblMapStore_raw st k f) = changeCounter st"
  by (simp_all add: pblMapStore_raw_def somes_map_option)

lemma on_chain_store:
  assumes "on_chain pblMapEntryHashValue c s (pointerArray st)" and "length (pointerArray st) = c" and "0 < c"
  shows "on_chain pblMapEntryHashValue c s (pointerArray (pblMapStore_raw st k f))"
  using assms unfolding on_chain_def pblMapStore_raw_def by auto

lemma pblMapStore_raw_wf:
  assumes "map_wf st"
  shows "map_wf (pblMapStore_raw st k f)"
proof -
  let ?st = "pblMapStore_raw st k f"
  have len: "length (pointerArray ?st) = length (pointerArray st)" by (simp add: pblMapStore_raw_def)
  then have shape: "table_shape c s (pointerArray ?st) \<longleftrightarrow> table_shape c s (pointerArray st)" for c s
    by (simp add: table_shape_def)
  have "elemKey \<circ> storeElem k f = elemKey" by (simp add: fun_eq_iff)
  moreover have "on_chain pblMapEntryHashValue (capacity st) (stepSize st) (pointerArray ?st)"
    if "table_shape (capacity st) (stepSize st) (pointerArray st)"
      "on_chain pblMapEntryHashValue (capacity st) (stepSize st) (pointerArray st)"
    using on_chain_store [OF that(2)] table_shape_pos [OF that(1)] that(1) by (simp add: table_shape_def)
  ultimately have "hs_wf pblMapEntryHashValue elemKey ?st"
    using map_wf_hs [OF assms] len shape unfolding hs_wf_def by (auto simp del: comp_apply)
  then show ?thesis using assms by (auto simp: map_wf_def)
qed

lift_definition pblMapStore :: "'v PblMap \<Rightarrow> bytes \<Rightarrow> ('v \<Rightarrow> 'v) \<Rightarrow> 'v PblMap" is pblMapStore_raw
  by (rule pblMapStore_raw_wf)

lift_definition pblMapSize :: "'v PblMap \<Rightarrow> nat" is setSize .

lift_definition pblMapIsEmpty :: "'v PblMap \<Rightarrow> bool" is "\<lambda>st. 0 = setSize st" .

lift_definition pblMapChangeCounter :: "'v PblMap \<Rightarrow> nat" is changeCounter .

lift_definition pblMapEntries :: "'v PblMap \<Rightarrow> (bytes \<times> 'v) list" is entries_raw .

section \<open>Laws of the operations\<close>

definition pblMapRoom :: "'v PblMap \<Rightarrow> bytes \<Rightarrow> bool" where
  "pblMapRoom m k \<longleftrightarrow> pblMapGet m k \<noteq> None \<or> pblMapSize m < pblMaxElements"

lemma pblMapGet_rep: "pblMapGet m k = raw_lookup (Rep_PblMap m) k"
  using pblMapGet_raw_ok [of "Rep_PblMap m"] Rep_PblMap [of m] by (simp add: pblMapGet.rep_eq)

lemma get_new [map_simps]: "pblMapGet pblMapNewHashMap k = None"
  by (simp add: pblMapGet_rep pblMapNewHashMap.rep_eq raw_lookup_def new_map)

lemma size_new [map_simps]: "pblMapSize pblMapNewHashMap = 0"
  by (simp add: pblMapSize.rep_eq pblMapNewHashMap.rep_eq pblSetNewHashSet_def)

lemma add_cases:
  obtains (replaced) "pblMapGet m k \<noteq> None" and "pblMapAddRc m k v = 0"
    and "pblMapSize (pblMapAddTo m k v) = pblMapSize m"
    and "pblMapChangeCounter (pblMapAddTo m k v) = pblMapChangeCounter m"
    and "pblMapGet (pblMapAddTo m k v) = (pblMapGet m)(k \<mapsto> v)"
  | (added) "pblMapGet m k = None" and "pblMapAddRc m k v = 1"
    and "pblMapSize (pblMapAddTo m k v) = pblMapSize m + 1"
    and "pblMapChangeCounter m < pblMapChangeCounter (pblMapAddTo m k v)"
    and "pblMapGet (pblMapAddTo m k v) = (pblMapGet m)(k \<mapsto> v)"
  | (full) "pblMapGet m k = None" and "pblMapAddRc m k v = -1"
    and "pblMaxElements \<le> pblMapSize m" and "pblMapAddTo m k v = m"
proof -
  have wf: "map_wf (Rep_PblMap m)" using Rep_PblMap [of m] by simp
  note rep = pblMapSize.rep_eq pblMapChangeCounter.rep_eq pblMapAddRc.rep_eq pblMapAddTo.rep_eq
  obtain rc st' where a: "pblMapAdd_raw (Rep_PblMap m) k v = Some (rc, st')" "map_wf st'"
    "rc = -1 \<and> st' = Rep_PblMap m \<and> raw_lookup (Rep_PblMap m) k = None \<and> pblMaxElements \<le> setSize (Rep_PblMap m) \<or>
     rc = 0 \<and> raw_lookup (Rep_PblMap m) k \<noteq> None \<and> raw_lookup st' = (raw_lookup (Rep_PblMap m))(k \<mapsto> v) \<and>
       setSize st' = setSize (Rep_PblMap m) \<and> changeCounter st' = changeCounter (Rep_PblMap m) \<or>
     rc = 1 \<and> raw_lookup (Rep_PblMap m) k = None \<and> raw_lookup st' = (raw_lookup (Rep_PblMap m))(k \<mapsto> v) \<and>
       setSize st' = setSize (Rep_PblMap m) + 1 \<and> changeCounter (Rep_PblMap m) < changeCounter st'"
    by (rule pblMapAdd_raw_ok [OF wf])
  have rc: "pblMapAddRc m k v = rc" and st': "Rep_PblMap (pblMapAddTo m k v) = st'"
    using a(1) by (simp_all add: rep)
  have get: "pblMapGet (pblMapAddTo m k v) = raw_lookup st'" "pblMapGet m = raw_lookup (Rep_PblMap m)"
    by (simp_all add: fun_eq_iff pblMapGet_rep st')
  from a(3) show thesis
  proof (elim disjE conjE)
    assume "rc = -1" "st' = Rep_PblMap m" "raw_lookup (Rep_PblMap m) k = None"
      "pblMaxElements \<le> setSize (Rep_PblMap m)"
    then show thesis
      using full rc st' get by (simp add: Rep_PblMap_inject pblMapSize.rep_eq)
  next
    assume "rc = 0" "raw_lookup (Rep_PblMap m) k \<noteq> None" "raw_lookup st' = (raw_lookup (Rep_PblMap m))(k \<mapsto> v)"
      "setSize st' = setSize (Rep_PblMap m)" "changeCounter st' = changeCounter (Rep_PblMap m)"
    then show thesis
      using replaced rc st' get by (simp add: pblMapSize.rep_eq pblMapChangeCounter.rep_eq)
  next
    assume "rc = 1" "raw_lookup (Rep_PblMap m) k = None" "raw_lookup st' = (raw_lookup (Rep_PblMap m))(k \<mapsto> v)"
      "setSize st' = setSize (Rep_PblMap m) + 1" "changeCounter (Rep_PblMap m) < changeCounter st'"
    then show thesis
      using added rc st' get by (simp add: pblMapSize.rep_eq pblMapChangeCounter.rep_eq)
  qed
qed

lemma get_add [map_simps]: "pblMapRoom m k \<Longrightarrow> pblMapGet (pblMapAddTo m k v) = (pblMapGet m)(k \<mapsto> v)"
  by (rule add_cases [of m k v]) (auto simp: pblMapRoom_def)

lemma get_add_same [map_simps]: "pblMapRoom m k \<Longrightarrow> pblMapGet (pblMapAddTo m k v) k = Some v"
  by (simp add: get_add)

lemma get_add_other [map_simps]: "k' \<noteq> k \<Longrightarrow> pblMapGet (pblMapAddTo m k v) k' = pblMapGet m k'"
  by (rule add_cases [of m k v]) auto

lemma rc_add [map_simps]:
  "pblMapRoom m k \<Longrightarrow> pblMapAddRc m k v = (if pblMapGet m k \<noteq> None then 0 else 1)"
  by (rule add_cases [of m k v]) (auto simp: pblMapRoom_def)

lemma rc_add_negative: "pblMapAddRc m k v < 0 \<Longrightarrow> pblMapAddTo m k v = m"
  by (rule add_cases [of m k v]) auto

lemma size_add [map_simps]:
  "pblMapRoom m k \<Longrightarrow>
   pblMapSize (pblMapAddTo m k v) = (if pblMapGet m k \<noteq> None then pblMapSize m else pblMapSize m + 1)"
  by (rule add_cases [of m k v]) (auto simp: pblMapRoom_def)

lemma change_add_replace [map_simps]:
  "pblMapGet m k \<noteq> None \<Longrightarrow> pblMapChangeCounter (pblMapAddTo m k v) = pblMapChangeCounter m"
  by (rule add_cases [of m k v]) auto

lemma get_add_Some:
  "pblMapGet (pblMapAddTo m k v) k' = Some w \<Longrightarrow> k' = k \<and> w = v \<or> pblMapGet m k' = Some w"
  by (rule add_cases [of m k v]) (auto split: if_splits)

lemma remove_facts:
  "pblMapGet (pblMapRemoveFrom m k) = (pblMapGet m)(k := None)"
  "pblMapSize (pblMapRemoveFrom m k) = (if pblMapGet m k = None then pblMapSize m else pblMapSize m - 1)"
  "pblMapGet m k = None \<Longrightarrow> pblMapRemoveFrom m k = m"
  "pblMapGet m k \<noteq> None \<Longrightarrow> pblMapChangeCounter (pblMapRemoveFrom m k) = pblMapChangeCounter m + 1"
proof -
  have wf: "map_wf (Rep_PblMap m)" using Rep_PblMap [of m] by simp
  obtain st' where r: "pblMapRemove_raw (Rep_PblMap m) k = Some (raw_lookup (Rep_PblMap m) k, st')"
    "raw_lookup st' = (raw_lookup (Rep_PblMap m))(k := None)"
    "setSize st' = (if raw_lookup (Rep_PblMap m) k = None then setSize (Rep_PblMap m) else setSize (Rep_PblMap m) - 1)"
    "raw_lookup (Rep_PblMap m) k = None \<longrightarrow> st' = Rep_PblMap m"
    "raw_lookup (Rep_PblMap m) k \<noteq> None \<longrightarrow> changeCounter st' = changeCounter (Rep_PblMap m) + 1"
    by (rule pblMapRemove_raw_ok [OF wf])
  have st': "Rep_PblMap (pblMapRemoveFrom m k) = st'" using r(1) by (simp add: pblMapRemoveFrom.rep_eq)
  show "pblMapGet (pblMapRemoveFrom m k) = (pblMapGet m)(k := None)"
    using r(2) by (simp add: fun_eq_iff pblMapGet_rep st')
  show "pblMapSize (pblMapRemoveFrom m k) = (if pblMapGet m k = None then pblMapSize m else pblMapSize m - 1)"
    using r(3) by (simp add: pblMapGet_rep pblMapSize.rep_eq st')
  show "pblMapGet m k = None \<Longrightarrow> pblMapRemoveFrom m k = m"
    using r(4) by (simp add: pblMapGet_rep st' flip: Rep_PblMap_inject)
  show "pblMapGet m k \<noteq> None \<Longrightarrow> pblMapChangeCounter (pblMapRemoveFrom m k) = pblMapChangeCounter m + 1"
    using r(5) by (simp add: pblMapGet_rep pblMapChangeCounter.rep_eq st')
qed

lemmas [map_simps] = remove_facts

lemma clear_facts [map_simps]:
  "pblMapGet (pblMapClear m) = Map.empty"
  "pblMapSize (pblMapClear m) = 0"
proof -
  obtain st' where "pblMapClear_raw (Rep_PblMap m) = Some st'" "setSize st' = 0" "raw_lookup st' = Map.empty"
    by (rule pblMapClear_raw_ok [of "Rep_PblMap m"]) (use Rep_PblMap [of m] in simp)
  then show "pblMapGet (pblMapClear m) = Map.empty" "pblMapSize (pblMapClear m) = 0"
    by (simp_all add: fun_eq_iff pblMapGet_rep pblMapClear.rep_eq pblMapSize.rep_eq)
qed

subsection \<open>The entries an iterator returns\<close>

lemma entries_of_somes:
  "\<forall>e \<in> set es. entryValue e \<noteq> None \<Longrightarrow>
   List.map_filter (\<lambda>e. map_option (Pair (elemKey e)) (entryValue e)) es =
   map (\<lambda>e. (elemKey e, the (entryValue e))) es"
  by (induction es) (auto simp: map_filter_simps)

lemma entries_rep:
  "pblMapEntries m = map (\<lambda>e. (elemKey e, the (entryValue e))) (somes (pointerArray (Rep_PblMap m)))"
  using Rep_PblMap [of m] by (simp add: pblMapEntries.rep_eq entries_raw_def entries_of_somes map_wf_def)

lemma entries_distinct [map_simps]: "distinct (map fst (pblMapEntries m))"
  using map_wf_dist [of "Rep_PblMap m"] Rep_PblMap [of m] by (simp add: entries_rep comp_def)

lemma entries_mem: "(k, v) \<in> set (pblMapEntries m) \<longleftrightarrow> pblMapGet m k = Some v"
proof -
  have wf: "map_wf (Rep_PblMap m)" using Rep_PblMap [of m] by simp
  have hs: "hs_map elemKey (Rep_PblMap m) k' = Some e \<longleftrightarrow>
      Some e \<in> set (pointerArray (Rep_PblMap m)) \<and> elemKey e = k'" for k' e
    using elems.hs_map_Some [OF map_wf_dist [OF wf]] by blast
  have val: "entryValue e \<noteq> None" if "Some e \<in> set (pointerArray (Rep_PblMap m))" for e
    using that wf by (simp add: map_wf_def set_somes)
  have "(k, v) \<in> set (pblMapEntries m) \<longleftrightarrow>
      (\<exists>e. Some e \<in> set (pointerArray (Rep_PblMap m)) \<and> elemKey e = k \<and> the (entryValue e) = v)"
    by (auto simp: entries_rep image_iff set_somes)
  also have "\<dots> \<longleftrightarrow> (\<exists>e. hs_map elemKey (Rep_PblMap m) k = Some e \<and> entryValue e = Some v)"
    using hs val by fastforce
  also have "\<dots> \<longleftrightarrow> pblMapGet m k = Some v"
    by (auto simp: pblMapGet_rep raw_lookup_def split: option.splits)
  finally show ?thesis .
qed

lemma entries_set: "set (pblMapEntries m) = {(k, v). pblMapGet m k = Some v}"
  by (auto simp: entries_mem)

lemma entries_length [map_simps]: "length (pblMapEntries m) = pblMapSize m"
  using Rep_PblMap [of m] by (auto simp: entries_rep pblMapSize.rep_eq map_wf_def hs_wf_def)

lemma entries_store:
  "pblMapEntries (pblMapStore m k f) = map (\<lambda>(k', v). (k', if k' = k then f v else v)) (pblMapEntries m)"
  using Rep_PblMap [of m] by (auto simp: entries_rep pblMapStore.rep_eq map_wf_def)

lemma get_store [map_simps]:
  "pblMapGet (pblMapStore m k f) k' = (if k' = k then map_option f (pblMapGet m k) else pblMapGet m k')"
proof (rule option_eq_by_Some)
  fix v
  have "pblMapGet (pblMapStore m k f) k' = Some v \<longleftrightarrow>
      (\<exists>w. pblMapGet m k' = Some w \<and> v = (if k' = k then f w else w))"
    by (auto simp: entries_store image_iff simp flip: entries_mem split: prod.splits)
  then show "pblMapGet (pblMapStore m k f) k' = Some v \<longleftrightarrow>
      (if k' = k then map_option f (pblMapGet m k) else pblMapGet m k') = Some v"
    by auto
qed

lemma store_facts [map_simps]:
  "pblMapSize (pblMapStore m k f) = pblMapSize m"
  "pblMapChangeCounter (pblMapStore m k f) = pblMapChangeCounter m"
  by (simp_all add: pblMapSize.rep_eq pblMapChangeCounter.rep_eq pblMapStore.rep_eq)

lemma isEmpty_size [map_simps]: "pblMapIsEmpty m \<longleftrightarrow> pblMapSize m = 0"
  by (simp add: pblMapIsEmpty.rep_eq pblMapSize.rep_eq)

subsection \<open>The hash map provides the contract of a keyed store\<close>

interpretation pm: keyed_store pblMapNewHashMap pblMapGet pblMapRoom pblMapAddTo pblMapRemoveFrom pblMapEntries
  by unfold_locales (simp_all add: map_simps entries_mem)

end
