(* ===== verification/TeoTypes.thy ===== *)
theory TeoTypes
  imports PblMap
begin

text \<open>
  The data types the components share (net_com.h, net_core.h, net_arp.h, ev_mgr.h): command
  numbers, received packets, peer records, events, and the effects a node has on the outside
  world. An effect the C code performs by a call into libev, TR-UDP, the user's event callback
  or a socket is an entry of the node's output, in the order of the calls.
\<close>

section \<open>Commands (enum ksnCMD)\<close>

definition CMD_NONE :: u8 where "CMD_NONE = 0"
definition CMD_CONNECT_R :: u8 where "CMD_CONNECT_R = 4"
definition CMD_CONNECT :: u8 where "CMD_CONNECT = 5"
definition CMD_DISCONNECTED :: u8 where "CMD_DISCONNECTED = 6"
definition CMD_VPN :: u8 where "CMD_VPN = 7"
definition CMD_RESET :: u8 where "CMD_RESET = 8"
definition CMD_64_RESERVED :: u8 where "CMD_64_RESERVED = 64"
definition CMD_ECHO :: u8 where "CMD_ECHO = 65"
definition CMD_ECHO_ANSWER :: u8 where "CMD_ECHO_ANSWER = 66"
definition CMD_TUN :: u8 where "CMD_TUN = 67"
definition CMD_SPLIT :: u8 where "CMD_SPLIT = 68"
definition CMD_STREAM :: u8 where "CMD_STREAM = 69"
definition CMD_L0 :: u8 where "CMD_L0 = 70"
definition CMD_L0_TO :: u8 where "CMD_L0_TO = 71"
definition CMD_PEERS :: u8 where "CMD_PEERS = 72"
definition CMD_PEERS_ANSWER :: u8 where "CMD_PEERS_ANSWER = 73"
definition CMD_RESEND :: u8 where "CMD_RESEND = 74"
definition CMD_RECONNECT :: u8 where "CMD_RECONNECT = 75"
definition CMD_RECONNECT_ANSWER :: u8 where "CMD_RECONNECT_ANSWER = 76"
definition CMD_L0_CLIENTS :: u8 where "CMD_L0_CLIENTS = 79"
definition CMD_L0_CLIENTS_ANSWER :: u8 where "CMD_L0_CLIENTS_ANSWER = 80"
definition CMD_SUBSCRIBE :: u8 where "CMD_SUBSCRIBE = 81"
definition CMD_UNSUBSCRIBE :: u8 where "CMD_UNSUBSCRIBE = 82"
definition CMD_SUBSCRIBE_ANSWER :: u8 where "CMD_SUBSCRIBE_ANSWER = 83"
definition CMD_L0_CLIENTS_N :: u8 where "CMD_L0_CLIENTS_N = 84"
definition CMD_L0_CLIENTS_N_ANSWER :: u8 where "CMD_L0_CLIENTS_N_ANSWER = 85"
definition CMD_GET_NUM_PEERS :: u8 where "CMD_GET_NUM_PEERS = 86"
definition CMD_GET_NUM_PEERS_ANSWER :: u8 where "CMD_GET_NUM_PEERS_ANSWER = 87"
definition CMD_L0_STAT :: u8 where "CMD_L0_STAT = 88"
definition CMD_L0_STAT_ANSWER :: u8 where "CMD_L0_STAT_ANSWER = 89"
definition CMD_HOST_INFO :: u8 where "CMD_HOST_INFO = 90"
definition CMD_HOST_INFO_ANSWER :: u8 where "CMD_HOST_INFO_ANSWER = 91"
definition CMD_L0_INFO :: u8 where "CMD_L0_INFO = 92"
definition CMD_L0_INFO_ANSWER :: u8 where "CMD_L0_INFO_ANSWER = 93"
definition CMD_TRUDP_INFO :: u8 where "CMD_TRUDP_INFO = 94"
definition CMD_TRUDP_INFO_ANSWER :: u8 where "CMD_TRUDP_INFO_ANSWER = 95"
definition CMD_L0_AUTH :: u8 where "CMD_L0_AUTH = 96"
definition CMD_LOGGING :: u8 where "CMD_LOGGING = 98"
definition CMD_L0_CLIENT_RESET :: u8 where "CMD_L0_CLIENT_RESET = 99"
definition CMD_SUBSCRIBE_RND :: u8 where "CMD_SUBSCRIBE_RND = 100"
definition CMD_L0_CLIENT_BROADCAST :: u8 where "CMD_L0_CLIENT_BROADCAST = 101"
definition CMD_GET_PUBLIC_IP :: u8 where "CMD_GET_PUBLIC_IP = 102"
definition CMD_GET_PUBLIC_IP_ANSWER :: u8 where "CMD_GET_PUBLIC_IP_ANSWER = 103"
definition CMD_192_RESERVED :: u8 where "CMD_192_RESERVED = 192"
definition CMD_ECHO_UNRELIABLE :: u8 where "CMD_ECHO_UNRELIABLE = 195"
definition CMD_ECHO_UNRELIABLE_ANSWER :: u8 where "CMD_ECHO_UNRELIABLE_ANSWER = 196"

lemmas CMD_defs =
  CMD_NONE_def CMD_CONNECT_R_def CMD_CONNECT_def CMD_DISCONNECTED_def CMD_VPN_def CMD_RESET_def
  CMD_64_RESERVED_def CMD_ECHO_def CMD_ECHO_ANSWER_def CMD_TUN_def CMD_SPLIT_def CMD_STREAM_def CMD_L0_def
  CMD_L0_TO_def CMD_PEERS_def CMD_PEERS_ANSWER_def CMD_RESEND_def CMD_RECONNECT_def
  CMD_RECONNECT_ANSWER_def CMD_L0_CLIENTS_def CMD_L0_CLIENTS_ANSWER_def CMD_SUBSCRIBE_def
  CMD_UNSUBSCRIBE_def CMD_SUBSCRIBE_ANSWER_def CMD_L0_CLIENTS_N_def CMD_L0_CLIENTS_N_ANSWER_def
  CMD_GET_NUM_PEERS_def CMD_GET_NUM_PEERS_ANSWER_def CMD_L0_STAT_def CMD_L0_STAT_ANSWER_def
  CMD_HOST_INFO_def CMD_HOST_INFO_ANSWER_def CMD_L0_INFO_def CMD_L0_INFO_ANSWER_def
  CMD_TRUDP_INFO_def CMD_TRUDP_INFO_ANSWER_def CMD_L0_AUTH_def CMD_LOGGING_def CMD_L0_CLIENT_RESET_def
  CMD_SUBSCRIBE_RND_def CMD_L0_CLIENT_BROADCAST_def CMD_GET_PUBLIC_IP_def
  CMD_GET_PUBLIC_IP_ANSWER_def CMD_192_RESERVED_def CMD_ECHO_UNRELIABLE_def
  CMD_ECHO_UNRELIABLE_ANSWER_def

text \<open>\<open>CMD_TRUDP_CHECK\<close>: the commands that go through the reliable channel.\<close>

definition CMD_TRUDP_CHECK :: "u8 \<Rightarrow> bool" where
  "CMD_TRUDP_CHECK cmd \<longleftrightarrow> cmd = 0 \<or> cmd = CMD_CONNECT \<or> (CMD_64_RESERVED \<le> cmd \<and> cmd < CMD_192_RESERVED)"

section \<open>Received packets\<close>

text \<open>
  \<open>ksnCorePacketData\<close>. \<open>rd_from\<close> is the memory \<open>from\<close> points to, its \<open>from_len\<close> bytes with the
  terminating zero. \<open>rd_arp\<close> is the name of the peer record that \<open>arp\<close> points to.
\<close>

record ksnCorePacketData =
  rd_addr :: bytes
  rd_port :: int
  rd_mtu :: int
  rd_from :: bytes
  rd_cmd :: u8
  rd_data :: bytes
  rd_raw_data :: bytes
  rd_arp :: "bytes option"
  rd_l0_f :: bool

definition ksnCorePacketData_zero :: ksnCorePacketData where
  "ksnCorePacketData_zero =
     \<lparr>rd_addr = [], rd_port = 0, rd_mtu = 0, rd_from = [], rd_cmd = 0, rd_data = [], rd_raw_data = [],
      rd_arp = None, rd_l0_f = False\<rparr>"

section \<open>Events (enum ksnetEvMgrEvents)\<close>

definition EV_K_STARTED :: u16 where "EV_K_STARTED = 0"
definition EV_K_STOPPED_BEFORE :: u16 where "EV_K_STOPPED_BEFORE = 1"
definition EV_K_STOPPED :: u16 where "EV_K_STOPPED = 2"
definition EV_K_CONNECTED :: u16 where "EV_K_CONNECTED = 3"
definition EV_K_DISCONNECTED :: u16 where "EV_K_DISCONNECTED = 4"
definition EV_K_RECEIVED :: u16 where "EV_K_RECEIVED = 5"
definition EV_K_RECEIVED_WRONG :: u16 where "EV_K_RECEIVED_WRONG = 6"
definition EV_K_RECEIVED_ACK :: u16 where "EV_K_RECEIVED_ACK = 7"
definition EV_K_IDLE :: u16 where "EV_K_IDLE = 8"
definition EV_K_TIMER :: u16 where "EV_K_TIMER = 9"
definition EV_K_ASYNC :: u16 where "EV_K_ASYNC = 12"
definition EV_K_CQUE_CALLBACK :: u16 where "EV_K_CQUE_CALLBACK = 14"
definition EV_K_STREAM_CONNECTED :: u16 where "EV_K_STREAM_CONNECTED = 15"
definition EV_K_STREAM_CONNECT_TIMEOUT :: u16 where "EV_K_STREAM_CONNECT_TIMEOUT = 16"
definition EV_K_STREAM_DISCONNECTED :: u16 where "EV_K_STREAM_DISCONNECTED = 17"
definition EV_K_STREAM_DATA :: u16 where "EV_K_STREAM_DATA = 18"
definition EV_K_SUBSCRIBE :: u16 where "EV_K_SUBSCRIBE = 19"
definition EV_K_SUBSCRIBED :: u16 where "EV_K_SUBSCRIBED = 20"
definition EV_K_L0_CONNECTED :: u16 where "EV_K_L0_CONNECTED = 21"
definition EV_K_L0_DISCONNECTED :: u16 where "EV_K_L0_DISCONNECTED = 22"
definition EV_K_LOGGING :: u16 where "EV_K_LOGGING = 28"

lemmas EV_defs =
  EV_K_STARTED_def EV_K_STOPPED_BEFORE_def EV_K_STOPPED_def EV_K_RECEIVED_ACK_def EV_K_IDLE_def EV_K_TIMER_def EV_K_ASYNC_def EV_K_CONNECTED_def EV_K_DISCONNECTED_def EV_K_RECEIVED_def EV_K_RECEIVED_WRONG_def
  EV_K_CQUE_CALLBACK_def EV_K_STREAM_CONNECTED_def EV_K_STREAM_CONNECT_TIMEOUT_def
  EV_K_STREAM_DISCONNECTED_def EV_K_STREAM_DATA_def EV_K_SUBSCRIBE_def EV_K_SUBSCRIBED_def
  EV_K_L0_CONNECTED_def EV_K_L0_DISCONNECTED_def EV_K_LOGGING_def

section \<open>Effects\<close>

text \<open>What an event carries to the user's callback.\<close>

datatype eventData =
    EvPacket ksnCorePacketData
  | EvCQue u32 int
  | EvAck u32 ksnCorePacketData
  | EvKey bytes
  | EvAsync nat bytes
  | EvNone

text \<open>
  \<open>TrudpSendto\<close>: a call of \<open>ksnTRUDPsendto\<close> with command, buffer and remote address.
  \<open>UninitRead\<close> marks a branch of the C code that depends on memory it has not written, \<open>Fault\<close> an
  access through a null or freed pointer, after which the operation does nothing more, and
  \<open>Diverge\<close> a recursion that never ends.
\<close>

datatype action =
    TrudpSendto u8 bytes bytes int
  | EventCb u16 eventData
  | TimerStart u32 real
  | TimerStop u32
  | TrudpChannelDestroyAddr bytes int
  | TrudpChannelDestroyAll
  | TrudpSendReset bytes int
  | IoStart int
  | IoStop int
  | CloseFd int
  | ShutdownFd int
  | WriteFd int bytes
  | TeosockSend int bytes
  | MetricGauge bytes int
  | MetricTick
  | KillSelf
  | ExitProcess
  | LoopBreak
  | TcpProxyConnect
  | HostIoStart
  | IdleStart string
  | IdleStop string
  | WatcherStart string
  | WatcherStop string
  | LoopDestroy
  | AsyncSignal
  | UninitRead
  | Fault
  | Diverge

end
