(* ===== verification/NetSplit.thy ===== *)
theory NetSplit
  imports TeoTypes
begin

text \<open>
  Splitting large packets when they are sent and combining them when they are received
  (net_split.c). A packet longer than MAX_DATA_LEN becomes numbered sub-packets; the receiver
  stores them in a hash map under sender, packet number and sub-packet number, and builds the
  packet when the one with the last-packet flag arrives.
\<close>

section \<open>State and constants\<close>

definition MAX_DATA_LEN :: nat where "MAX_DATA_LEN = 448"
definition MAX_PACKET_LEN :: nat where "MAX_PACKET_LEN = 5 * 1024 * 1024"
definition LAST_PACKET_FLAG :: u16 where "LAST_PACKET_FLAG = 0x8000"

record ksnSplitClass =
  split_map :: "bytes PblMap"
  packet_number :: u16
  last_added :: real

definition ksnSplitInit :: ksnSplitClass where
  "ksnSplitInit = \<lparr>split_map = pblMapNewHashMap, packet_number = 0, last_added = 0\<rparr>"

section \<open>Sending\<close>

text \<open>One sub-packet buffer: data length, packet number, sub-packet number, data, and the command
  after the data of the first one.\<close>

definition splitSubpacket :: "u16 \<Rightarrow> u8 \<Rightarrow> bytes \<Rightarrow> nat \<Rightarrow> nat \<Rightarrow> bytes" where
  "splitSubpacket pn cmd packet num_subpackets i =
     (let is_last = (i + 1 = num_subpackets);
          data_len = (of_nat (if is_last then length packet - MAX_DATA_LEN * i else MAX_DATA_LEN) :: u16)
      in enc_u16 (if i \<noteq> 0 then data_len else data_len + 1) @
         enc_u16 pn @
         enc_u16 (of_nat i OR (if is_last then LAST_PACKET_FLAG else 0)) @
         take (unat data_len) (drop (MAX_DATA_LEN * i) packet) @
         (if i = 0 then [cmd] else []))"

definition ksnSplitPacket :: "ksnSplitClass \<Rightarrow> u8 \<Rightarrow> bytes \<Rightarrow> bytes list \<times> ksnSplitClass" where
  "ksnSplitPacket ks cmd packet =
     (if length packet > MAX_DATA_LEN
      then let num_subpackets = length packet div MAX_DATA_LEN +
                 (if length packet mod MAX_DATA_LEN \<noteq> 0 then 1 else 0)
           in (map (splitSubpacket (packet_number ks) cmd packet num_subpackets) [0..<num_subpackets],
               ks\<lparr>packet_number := packet_number ks + 1\<rparr>)
      else ([], ks))"

text \<open>What \<open>ksnCoreSendto\<close> sends of a sub-packet buffer: as many bytes as its length field says
  after the two numbers.\<close>

definition splitPayload :: "bytes \<Rightarrow> bytes" where
  "splitPayload sub = take (unat (dec_u16 sub) + 4) (drop 2 sub)"

section \<open>Receiving\<close>

text \<open>
  The outcomes of combining: nothing to deliver (NULL), a combined packet, or a packet too short
  for the fields the code reads, on which its length arithmetic wraps below zero.
\<close>

datatype combineResult =
    CombNull
  | CombRds ksnCorePacketData
  | CombFault

definition create_key :: "bytes \<Rightarrow> u16 \<Rightarrow> u16 \<Rightarrow> bytes" where
  "create_key from packet_num subpacket_num =
     [of_nat (length from)] @ from @ enc_u16 packet_num @ enc_u16 subpacket_num"

datatype combineLoop =
    LoopDone u8 bytes
  | LoopMissing
  | LoopFault

fun ksnSplitCombine_loop ::
  "bytes \<Rightarrow> u16 \<Rightarrow> nat list \<Rightarrow> u8 \<Rightarrow> bytes \<Rightarrow> bytes PblMap \<Rightarrow> combineLoop \<times> bytes PblMap" where
  "ksnSplitCombine_loop from packet_num [] cmd data m = (LoopDone cmd data, m)"
| "ksnSplitCombine_loop from packet_num (i # is) cmd data m =
     (let key = create_key from packet_num (of_nat i)
      in case pblMapGet m key of
           None \<Rightarrow> (LoopMissing, m)
         | Some data_s \<Rightarrow>
             if i = 0
             then if data_s = [] then (LoopFault, m)
                  else ksnSplitCombine_loop from packet_num is (last data_s) (data @ butlast data_s)
                         (pblMapRemoveFrom m key)
             else ksnSplitCombine_loop from packet_num is cmd (data @ data_s) (pblMapRemoveFrom m key))"

definition ksnSplitCombine :: "real \<Rightarrow> ksnSplitClass \<Rightarrow> ksnCorePacketData \<Rightarrow> combineResult \<times> ksnSplitClass" where
  "ksnSplitCombine current_time ks rd =
     (if length (rd_data rd) < 4 then (CombFault, ks)
      else
        let packet_num = dec_u16 (rd_data rd);
            last_packet = dec_u16 (drop 2 (rd_data rd)) AND LAST_PACKET_FLAG;
            subpacket_num = dec_u16 (drop 2 (rd_data rd)) AND (LAST_PACKET_FLAG - 1);
            m0 = (if current_time - last_added ks > 10 \<and> \<not> pblMapIsEmpty (split_map ks)
                  then pblMapClear (split_map ks) else split_map ks);
            m1 = pblMapAddTo m0 (create_key (rd_from rd) packet_num subpacket_num) (drop 4 (rd_data rd));
            ks1 = ks\<lparr>split_map := m1, last_added := current_time\<rparr>
        in if last_packet \<noteq> 0
           then case ksnSplitCombine_loop (rd_from rd) packet_num [0..<unat subpacket_num + 1] 0 [] m1 of
                  (LoopDone cmd data, m2) \<Rightarrow>
                    (CombRds (ksnCorePacketData_zero
                       \<lparr>rd_addr := rd_addr rd, rd_arp := rd_arp rd, rd_data := data, rd_from := rd_from rd,
                        rd_mtu := rd_mtu rd, rd_port := rd_port rd, rd_cmd := cmd\<rparr>),
                     ks1\<lparr>split_map := m2\<rparr>)
                | (LoopMissing, m2) \<Rightarrow> (CombNull, ks1\<lparr>split_map := m2\<rparr>)
                | (LoopFault, m2) \<Rightarrow> (CombFault, ks1\<lparr>split_map := m2\<rparr>)
           else (CombNull, ks1))"

text \<open>A sequence of sub-packets at their arrival times.\<close>

fun ksnSplitCombine_seq ::
  "ksnSplitClass \<Rightarrow> (real \<times> ksnCorePacketData) list \<Rightarrow> combineResult list \<times> ksnSplitClass" where
  "ksnSplitCombine_seq ks [] = ([], ks)"
| "ksnSplitCombine_seq ks ((t, rd) # rest) =
     (let (r, ks1) = ksnSplitCombine t ks rd;
          (rs, ks2) = ksnSplitCombine_seq ks1 rest
      in (r # rs, ks2))"

section \<open>Keys\<close>

lemma create_key_inject:
  assumes "length f < 256" and "length f' < 256"
  shows "create_key f p i = create_key f' p' i' \<longleftrightarrow> f = f' \<and> p = p' \<and> i = i'"
proof -
  have "length f = length f'" if "(of_nat (length f) :: u8) = of_nat (length f')"
    using that assms by (simp add: word_of_nat_inject)
  then show ?thesis by (auto simp: create_key_def append_eq_append_conv)
qed

lemma subpacket_flags:
  assumes "i < 0x8000"
  shows "(of_nat i OR LAST_PACKET_FLAG) AND (LAST_PACKET_FLAG - 1) = of_nat i"
    and "(of_nat i :: u16) AND (LAST_PACKET_FLAG - 1) = of_nat i"
    and "(of_nat i OR LAST_PACKET_FLAG) AND LAST_PACKET_FLAG \<noteq> 0"
    and "(of_nat i :: u16) AND LAST_PACKET_FLAG = 0"
proof -
  have m: "LAST_PACKET_FLAG = push_bit 15 1" "LAST_PACKET_FLAG - 1 = mask 15"
    by (simp_all add: LAST_PACKET_FLAG_def mask_eq_exp_minus_1 push_bit_eq_mult)
  have p: "i < 2 ^ 15" "(15::nat) < LENGTH(16)" using assms by simp_all
  note f = flag_word [where 'a = 16, OF p]
  show "(of_nat i OR LAST_PACKET_FLAG) AND (LAST_PACKET_FLAG - 1) = of_nat i"
    unfolding m(2) unfolding m(1) by (rule f(1))
  show "(of_nat i :: u16) AND (LAST_PACKET_FLAG - 1) = of_nat i" unfolding m(2) by (rule f(2))
  show "(of_nat i OR LAST_PACKET_FLAG) AND LAST_PACKET_FLAG \<noteq> 0" unfolding m(1) by (rule f(4))
  show "(of_nat i :: u16) AND LAST_PACKET_FLAG = 0" unfolding m(1) by (rule f(3))
qed

section \<open>Sub-packets\<close>

definition splitCount :: "bytes \<Rightarrow> nat" where
  "splitCount packet = length packet div MAX_DATA_LEN + (if length packet mod MAX_DATA_LEN \<noteq> 0 then 1 else 0)"

definition splitStored :: "u8 \<Rightarrow> bytes \<Rightarrow> nat \<Rightarrow> bytes" where
  "splitStored cmd packet i =
     take MAX_DATA_LEN (drop (MAX_DATA_LEN * i) packet) @ (if i = 0 then [cmd] else [])"

lemma splitCount_bounds:
  assumes "MAX_DATA_LEN < length packet"
  shows "2 \<le> splitCount packet" and "length packet \<le> MAX_DATA_LEN * splitCount packet"
    and "MAX_DATA_LEN * (splitCount packet - 1) < length packet"
proof -
  define q r where "q = length packet div MAX_DATA_LEN" and "r = length packet mod MAX_DATA_LEN"
  have "length packet = 448 * q + r" "r < 448" by (simp_all add: q_def r_def MAX_DATA_LEN_def)
  then show "2 \<le> splitCount packet" "length packet \<le> MAX_DATA_LEN * splitCount packet"
    "MAX_DATA_LEN * (splitCount packet - 1) < length packet"
    using assms unfolding splitCount_def q_def [symmetric] r_def [symmetric] MAX_DATA_LEN_def
    by (auto split: if_splits)
qed

lemma splitCount_max:
  assumes "length packet \<le> MAX_PACKET_LEN - MAX_DATA_LEN"
  shows "splitCount packet \<le> 11703"
  using assms unfolding splitCount_def MAX_DATA_LEN_def MAX_PACKET_LEN_def by (auto split: if_splits)

lemma splitPayload_subpacket:
  assumes "MAX_DATA_LEN < length packet" and "i < splitCount packet"
  shows "splitPayload (splitSubpacket pn cmd packet (splitCount packet) i) =
    enc_u16 pn @ enc_u16 (of_nat i OR (if i + 1 = splitCount packet then LAST_PACKET_FLAG else 0)) @
    splitStored cmd packet i"
proof -
  note b = splitCount_bounds [OF assms(1)]
  define n where "n = splitCount packet"
  define len where "len = (if i + 1 = n then length packet - MAX_DATA_LEN * i else MAX_DATA_LEN)"
  have len: "len \<le> MAX_DATA_LEN" "len \<le> length packet - MAX_DATA_LEN * i"
  proof -
    have "MAX_DATA_LEN * i + MAX_DATA_LEN \<le> length packet" if "i + 1 \<noteq> n"
    proof -
      have "MAX_DATA_LEN * (i + 1) \<le> MAX_DATA_LEN * (n - 1)"
        by (rule mult_le_mono2) (use that assms(2) n_def in simp)
      then show ?thesis using b(3) n_def by simp
    qed
    moreover have "length packet \<le> MAX_DATA_LEN * i + MAX_DATA_LEN" if "i + 1 = n"
      using b(2) that n_def by (metis add.commute distrib_left mult.right_neutral)
    ultimately show "len \<le> MAX_DATA_LEN" "len \<le> length packet - MAX_DATA_LEN * i"
      by (auto simp: len_def)
  qed
  have u: "unat (of_nat len :: u16) = len"
    using len(1) by (simp add: unat_of_nat MAX_DATA_LEN_def)
  have chunk: "take len (drop (MAX_DATA_LEN * i) packet) = take MAX_DATA_LEN (drop (MAX_DATA_LEN * i) packet)"
    using len by (auto simp: len_def)
  have u1: "unat (of_nat len + 1 :: u16) = len + 1"
  proof -
    have eq: "(of_nat len + 1 :: u16) = of_nat (Suc len)" by simp
    have "unat (of_nat (Suc len) :: u16) = Suc len"
      by (simp only: unat_of_nat) (use len(1) in \<open>simp add: MAX_DATA_LEN_def\<close>)
    then show ?thesis unfolding eq by simp
  qed
  show ?thesis
    unfolding splitPayload_def splitSubpacket_def splitStored_def n_def [symmetric] Let_def
      len_def [symmetric] u chunk [symmetric]
    using len(2) by (auto simp: dec_enc_u16 u u1)
qed

section \<open>Storing and combining\<close>

lemma size_add_le: "pblMapSize (pblMapAddTo m k v) \<le> pblMapSize m + 1"
  by (rule add_cases [of m k v]) auto

text \<open>The keys of one packet of one sender.\<close>

lemma create_key_index:
  assumes "i < 65536" and "j < 65536"
  shows "create_key from pn (of_nat i) = create_key from pn (of_nat j) \<longleftrightarrow> i = j"
  using assms by (auto simp: create_key_def word_of_nat_inject)

text \<open>The map once a list of sub-packets has been stored.\<close>

definition split_store :: "bytes \<Rightarrow> u16 \<Rightarrow> u8 \<Rightarrow> bytes \<Rightarrow> nat list \<Rightarrow> bytes PblMap \<Rightarrow> bytes PblMap" where
  "split_store from pn cmd packet is m =
     fold (\<lambda>i m. pblMapAddTo m (create_key from pn (of_nat i)) (splitStored cmd packet i)) is m"

lemma split_store_simps [simp]:
  "split_store from pn cmd packet [] m = m"
  "split_store from pn cmd packet (i # is) m =
     split_store from pn cmd packet is (pblMapAddTo m (create_key from pn (of_nat i)) (splitStored cmd packet i))"
  by (simp_all add: split_store_def)

lemma get_split_store:
  assumes "pblMapSize m + length is \<le> pblMaxElements" and "\<forall>i \<in> set is. i < 65536" and "j < 65536"
  shows "pblMapGet (split_store from pn cmd packet is m) (create_key from pn (of_nat j)) =
      (if j \<in> set is then Some (splitStored cmd packet j) else pblMapGet m (create_key from pn (of_nat j)))"
  using assms(1,2)
proof (induction "is" arbitrary: m)
  case (Cons i "is")
  let ?m = "pblMapAddTo m (create_key from pn (of_nat i)) (splitStored cmd packet i)"
  have "pblMapSize ?m + length is \<le> pblMaxElements"
    using Cons.prems(1) size_add_le [of m "create_key from pn (of_nat i)" "splitStored cmd packet i"] by simp
  moreover have "pblMapRoom m (create_key from pn (of_nat i))"
    using Cons.prems(1) by (simp add: pblMapRoom_def)
  ultimately show ?case
    using Cons assms(3) by (auto simp: map_simps create_key_index)
qed simp

lemma get_split_store_other:
  assumes "\<forall>i \<in> set is. k \<noteq> create_key from pn (of_nat i)"
  shows "pblMapGet (split_store from pn cmd packet is m) k = pblMapGet m k"
  using assms by (induction "is" arbitrary: m) (auto simp: map_simps)

text \<open>Combining sub-packets that are all in the map.\<close>

lemma combine_loop_tail:
  assumes "\<forall>i \<in> set is. 0 < i \<and> i < 65536 \<and> pblMapGet m (create_key from pn (of_nat i)) = Some (splitStored cmd packet i)"
    and "distinct is"
  shows "ksnSplitCombine_loop from pn is c data m =
    (LoopDone c (data @ concat (map (splitStored cmd packet) is)),
     foldl pblMapRemoveFrom m (map (\<lambda>i. create_key from pn (of_nat i)) is))"
  using assms
proof (induction "is" arbitrary: data m)
  case (Cons i "is")
  let ?m = "pblMapRemoveFrom m (create_key from pn (of_nat i))"
  have "pblMapGet ?m (create_key from pn (of_nat j)) = Some (splitStored cmd packet j)" if "j \<in> set is" for j
    using Cons.prems that by (auto simp: map_simps create_key_index)
  then have "ksnSplitCombine_loop from pn is c (data @ splitStored cmd packet i) ?m =
      (LoopDone c ((data @ splitStored cmd packet i) @ concat (map (splitStored cmd packet) is)),
       foldl pblMapRemoveFrom ?m (map (\<lambda>i. create_key from pn (of_nat i)) is))"
    using Cons.prems by (intro Cons.IH) auto
  then show ?case using Cons.prems by (simp add: Let_def)
qed simp

lemma splitStored_concat:
  assumes "0 < n"
  shows "take MAX_DATA_LEN packet @ concat (map (splitStored cmd packet) [Suc 0..<n]) = take (MAX_DATA_LEN * n) packet"
proof -
  have "[0..<n] = 0 # [Suc 0..<n]" using assms by (simp add: upt_conv_Cons)
  moreover have eq: "map (splitStored cmd packet) [Suc 0..<n] =
      map (\<lambda>i. take MAX_DATA_LEN (drop (MAX_DATA_LEN * i) packet)) [Suc 0..<n]"
    by (auto simp: splitStored_def)
  ultimately show ?thesis unfolding eq using concat_blocks [of MAX_DATA_LEN packet n] by simp
qed

lemma combine_loop_all:
  assumes "\<forall>i < n. pblMapGet m (create_key from pn (of_nat i)) = Some (splitStored cmd packet i)"
    and "0 < n" and "n \<le> 0x8000"
  shows "ksnSplitCombine_loop from pn [0..<n] 0 [] m =
    (LoopDone cmd (take (MAX_DATA_LEN * n) packet),
     foldl pblMapRemoveFrom m (map (\<lambda>i. create_key from pn (of_nat i)) [0..<n]))"
proof -
  have u: "[0..<n] = 0 # [Suc 0..<n]" using assms(2) by (simp add: upt_conv_Cons)
  have s0: "splitStored cmd packet 0 \<noteq> []" "last (splitStored cmd packet 0) = cmd"
    "butlast (splitStored cmd packet 0) = take MAX_DATA_LEN packet"
    by (simp_all add: splitStored_def)
  let ?m = "pblMapRemoveFrom m (create_key from pn (of_nat 0))"
  have "create_key from pn (of_nat i) \<noteq> create_key from pn (of_nat 0)" if "i < n" "0 < i" for i
    using that assms create_key_index [of i 0] by auto
  then have "\<forall>i \<in> set [Suc 0..<n]. 0 < i \<and> i < 65536 \<and>
      pblMapGet ?m (create_key from pn (of_nat i)) = Some (splitStored cmd packet i)"
    using assms by (auto simp: map_simps)
  from combine_loop_tail [OF this distinct_upt, of cmd "take MAX_DATA_LEN packet"]
  have "ksnSplitCombine_loop from pn [Suc 0..<n] cmd (take MAX_DATA_LEN packet) ?m =
      (LoopDone cmd (take (MAX_DATA_LEN * n) packet),
       foldl pblMapRemoveFrom ?m (map (\<lambda>i. create_key from pn (of_nat i)) [Suc 0..<n]))"
    by (simp add: splitStored_concat [OF assms(2)])
  moreover have "pblMapGet m (create_key from pn (of_nat 0)) = Some (splitStored cmd packet 0)"
    using assms(1,2) by blast
  ultimately show ?thesis unfolding u using s0 by (simp add: Let_def)
qed

section \<open>The round trip\<close>

text \<open>The packet a receiver gets for sub-packet \<open>i\<close>, and the state a receiver combines from: the map,
  emptied when it is stale.\<close>

definition splitReceived :: "ksnCorePacketData \<Rightarrow> u16 \<Rightarrow> u8 \<Rightarrow> bytes \<Rightarrow> nat \<Rightarrow> ksnCorePacketData" where
  "splitReceived rd pn cmd packet i =
     rd\<lparr>rd_data := splitPayload (splitSubpacket pn cmd packet (splitCount packet) i)\<rparr>"

lemma received_fields:
  assumes large: "MAX_DATA_LEN < length packet" and "i < splitCount packet"
  shows "rd_data (splitReceived rd pn cmd packet i) =
      enc_u16 pn @ enc_u16 (of_nat i OR (if i + 1 = splitCount packet then LAST_PACKET_FLAG else 0)) @
      splitStored cmd packet i"
    and "rd_from (splitReceived rd pn cmd packet i) = rd_from rd"
  by (simp_all add: splitReceived_def splitPayload_subpacket [OF assms])

lemma combine_store:
  assumes large: "MAX_DATA_LEN < length packet" and bounded: "splitCount packet \<le> 0x8000"
    and "i + 1 < splitCount packet" and "t - last_added ks \<le> 10"
  shows "ksnSplitCombine t ks (splitReceived rd pn cmd packet i) =
    (CombNull, ks\<lparr>split_map := pblMapAddTo (split_map ks) (create_key (rd_from rd) pn (of_nat i)) (splitStored cmd packet i),
                  last_added := t\<rparr>)"
proof -
  have i: "i < splitCount packet" "i + 1 \<noteq> splitCount packet" "i < 0x8000" using assms by simp_all
  have "dec_u16 (drop 2 (enc_u16 pn @ x)) = dec_u16 x" for x by simp
  then show ?thesis
    using assms(4) i(2) subpacket_flags [OF i(3)]
    by (simp add: ksnSplitCombine_def received_fields [OF large i(1)] dec_enc_u16 Let_def)
qed

lemma combine_seq_store:
  assumes large: "MAX_DATA_LEN < length packet" and bounded: "splitCount packet \<le> 0x8000"
    and "\<forall>(t, i) \<in> set arrivals. i + 1 < splitCount packet"
    and "successively (\<lambda>s t. t - s \<le> 10) (last_added ks # map fst arrivals)"
  shows "ksnSplitCombine_seq ks (map (\<lambda>(t, i). (t, splitReceived rd pn cmd packet i)) arrivals) =
    (replicate (length arrivals) CombNull,
     ks\<lparr>split_map := split_store (rd_from rd) pn cmd packet (map snd arrivals) (split_map ks),
        last_added := last (last_added ks # map fst arrivals)\<rparr>)"
  using assms(3,4)
proof (induction arrivals arbitrary: ks)
  case (Cons a arrivals)
  obtain t i where a: "a = (t, i)" by fastforce
  let ?ks = "ks\<lparr>split_map := pblMapAddTo (split_map ks) (create_key (rd_from rd) pn (of_nat i)) (splitStored cmd packet i),
                  last_added := t\<rparr>"
  have "ksnSplitCombine t ks (splitReceived rd pn cmd packet i) = (CombNull, ?ks)"
    by (rule combine_store [OF large bounded]) (use Cons.prems a in auto)
  moreover have "ksnSplitCombine_seq ?ks (map (\<lambda>(t, i). (t, splitReceived rd pn cmd packet i)) arrivals) =
    (replicate (length arrivals) CombNull,
     ?ks\<lparr>split_map := split_store (rd_from rd) pn cmd packet (map snd arrivals) (split_map ?ks),
        last_added := last (last_added ?ks # map fst arrivals)\<rparr>)"
    by (rule Cons.IH) (use Cons.prems a in auto)
  ultimately show ?case by (simp add: a split_def)
qed simp

lemma combine_last:
  assumes large: "MAX_DATA_LEN < length packet" and bounded: "splitCount packet \<le> 0x8000"
    and fresh: "t - last_added ks \<le> 10" and room: "pblMapSize (split_map ks) < pblMaxElements"
    and stored: "\<forall>i. i + 1 < splitCount packet \<longrightarrow>
      pblMapGet (split_map ks) (create_key (rd_from rd) pn (of_nat i)) = Some (splitStored cmd packet i)"
  shows "ksnSplitCombine t ks (splitReceived rd pn cmd packet (splitCount packet - 1)) =
    (CombRds (ksnCorePacketData_zero
       \<lparr>rd_addr := rd_addr rd, rd_arp := rd_arp rd, rd_data := packet, rd_from := rd_from rd,
        rd_mtu := rd_mtu rd, rd_port := rd_port rd, rd_cmd := cmd\<rparr>),
     ks\<lparr>split_map := foldl pblMapRemoveFrom
           (split_store (rd_from rd) pn cmd packet [splitCount packet - 1] (split_map ks))
           (map (\<lambda>i. create_key (rd_from rd) pn (of_nat i)) [0..<splitCount packet]),
        last_added := t\<rparr>)"
proof -
  let ?n = "splitCount packet" and ?key = "\<lambda>i. create_key (rd_from rd) pn (of_nat i)"
  let ?m = "split_store (rd_from rd) pn cmd packet [?n - 1] (split_map ks)"
  note b = splitCount_bounds [OF large]
  have n: "?n - 1 < ?n" "?n - 1 < 0x8000" "?n - 1 + 1 = ?n" "0 < ?n" using b bounded by simp_all
  have "unat (of_nat (?n - 1) :: u16) = ?n - 1"
    by (simp only: unat_of_nat) (use bounded in simp)
  then have u: "unat (of_nat (?n - 1) :: u16) + 1 = ?n" using n(3) by presburger
  have get: "pblMapGet ?m (?key i) = Some (splitStored cmd packet i)" if "i < ?n" for i
  proof (cases "i = ?n - 1")
    case False
    then have "i + 1 < ?n" using that by simp
    then show ?thesis
      using room stored get_split_store [of "split_map ks" "[?n - 1]" i] that bounded by auto
  qed (use get_split_store [of "split_map ks" "[?n - 1]" i] room that bounded in auto)
  have loop: "ksnSplitCombine_loop (rd_from rd) pn [0..<?n] 0 [] ?m =
      (LoopDone cmd (take (MAX_DATA_LEN * ?n) packet), foldl pblMapRemoveFrom ?m (map ?key [0..<?n]))"
    by (rule combine_loop_all) (use get n(4) bounded in auto)
  have whole: "take (MAX_DATA_LEN * ?n) packet = packet" using b(2) by simp
  have data: "rd_data (splitReceived rd pn cmd packet (?n - 1)) =
      enc_u16 pn @ enc_u16 (of_nat (?n - 1) OR LAST_PACKET_FLAG) @ splitStored cmd packet (?n - 1)"
    using received_fields(1) [OF large n(1)] n(3) by simp
  have fields: "dec_u16 (rd_data (splitReceived rd pn cmd packet (?n - 1))) = pn"
    "dec_u16 (drop 2 (rd_data (splitReceived rd pn cmd packet (?n - 1)))) = of_nat (?n - 1) OR LAST_PACKET_FLAG"
    "drop 4 (rd_data (splitReceived rd pn cmd packet (?n - 1))) = splitStored cmd packet (?n - 1)"
    "\<not> length (rd_data (splitReceived rd pn cmd packet (?n - 1))) < 4"
    unfolding data by (simp_all add: dec_enc_u16)
  have rest: "rd_from (splitReceived rd pn cmd packet j) = rd_from rd" "rd_addr (splitReceived rd pn cmd packet j) = rd_addr rd"
    "rd_arp (splitReceived rd pn cmd packet j) = rd_arp rd" "rd_mtu (splitReceived rd pn cmd packet j) = rd_mtu rd"
    "rd_port (splitReceived rd pn cmd packet j) = rd_port rd" for j
    by (simp_all add: splitReceived_def)
  have m: "pblMapAddTo (split_map ks) (?key (?n - 1)) (splitStored cmd packet (?n - 1)) = ?m"
    by simp
  show ?thesis
    unfolding ksnSplitCombine_def Let_def fields rest subpacket_flags(1) [OF n(2)] u
    using fresh fields(4) subpacket_flags(3) [OF n(2)] loop whole unfolding m by simp
qed

text \<open>The feed of a receiver, and what arrives when a packet has been split.\<close>

definition split_feed :: "ksnCorePacketData \<Rightarrow> bytes list \<Rightarrow> (real \<times> nat) list \<Rightarrow> (real \<times> ksnCorePacketData) list" where
  "split_feed rd subs arrivals = map (\<lambda>(t, i). (t, rd\<lparr>rd_data := splitPayload (subs ! i)\<rparr>)) arrivals"

lemma split_feed_packet:
  assumes "MAX_DATA_LEN < length packet" and "\<forall>(t, i) \<in> set arrivals. i < splitCount packet"
  shows "split_feed rd (fst (ksnSplitPacket ks cmd packet)) arrivals =
    map (\<lambda>(t, i). (t, splitReceived rd (packet_number ks) cmd packet i)) arrivals"
  using assms unfolding split_feed_def ksnSplitPacket_def splitReceived_def splitCount_def [symmetric] Let_def
  by auto

lemma combine_seq_append:
  "ksnSplitCombine_seq ks (xs @ ys) =
     (let (rs, ks1) = ksnSplitCombine_seq ks xs; (rs', ks2) = ksnSplitCombine_seq ks1 ys in (rs @ rs', ks2))"
  by (induction xs arbitrary: ks) (auto simp: split_def Let_def)

lemma successively_last:
  "successively P (xs @ [y]) \<Longrightarrow> xs \<noteq> [] \<Longrightarrow> P (last xs) y"
  by (simp add: successively_append_iff)

lemma size_split_store: "pblMapSize (split_store from pn cmd packet is m) \<le> pblMapSize m + length is"
proof (induction "is" arbitrary: m)
  case (Cons i "is")
  have "pblMapSize (split_store from pn cmd packet is (pblMapAddTo m (create_key from pn (of_nat i)) (splitStored cmd packet i)))
      \<le> pblMapSize (pblMapAddTo m (create_key from pn (of_nat i)) (splitStored cmd packet i)) + length is"
    by (rule Cons.IH)
  then show ?case
    using size_add_le [of m "create_key from pn (of_nat i)" "splitStored cmd packet i"] by simp
qed simp

lemma get_remove_keys:
  "pblMapGet (foldl pblMapRemoveFrom m ks) k = (if k \<in> set ks then None else pblMapGet m k)"
  by (rule pm.get_remove_list)

theorem split_roundtrip_full:
  assumes large: "MAX_DATA_LEN < length packet" and sendable: "length packet \<le> MAX_PACKET_LEN - MAX_DATA_LEN"
    and order: "snd ` set arrivals = {..<splitCount packet - 1}"
    and times: "successively (\<lambda>s t. t - s \<le> 10) (last_added kr # map fst arrivals @ [t])"
    and room: "pblMapSize (split_map kr) + length arrivals < pblMaxElements"
  shows "ksnSplitCombine_seq kr (split_feed rd (fst (ksnSplitPacket ks cmd packet)) (arrivals @ [(t, splitCount packet - 1)])) =
      (replicate (length arrivals) CombNull @
       [CombRds (ksnCorePacketData_zero
          \<lparr>rd_addr := rd_addr rd, rd_arp := rd_arp rd, rd_data := packet, rd_from := rd_from rd,
           rd_mtu := rd_mtu rd, rd_port := rd_port rd, rd_cmd := cmd\<rparr>)],
       kr\<lparr>split_map := foldl pblMapRemoveFrom
             (split_store (rd_from rd) (packet_number ks) cmd packet (map snd arrivals @ [splitCount packet - 1]) (split_map kr))
             (map (\<lambda>i. create_key (rd_from rd) (packet_number ks) (of_nat i)) [0..<splitCount packet]),
          last_added := t\<rparr>)"
proof -
  let ?n = "splitCount packet" and ?pn = "packet_number ks"
  note b = splitCount_bounds [OF large] and m = splitCount_max [OF sendable]
  have bounded: "?n \<le> 0x8000" using m by simp
  have idx: "\<forall>(t, i) \<in> set arrivals. i + 1 < ?n"
  proof clarify
    fix t i assume "(t, i) \<in> set arrivals"
    then have "i \<in> snd ` set arrivals" by force
    then show "i + 1 < ?n" using order by simp
  qed
  have feed: "split_feed rd (fst (ksnSplitPacket ks cmd packet)) (arrivals @ [(t, ?n - 1)]) =
      map (\<lambda>(t, i). (t, splitReceived rd ?pn cmd packet i)) (arrivals @ [(t, ?n - 1)])"
    by (rule split_feed_packet [OF large]) (use idx b in fastforce)
  let ?k1 = "kr\<lparr>split_map := split_store (rd_from rd) ?pn cmd packet (map snd arrivals) (split_map kr),
        last_added := last (last_added kr # map fst arrivals)\<rparr>"
  have times': "successively (\<lambda>s t. t - s \<le> 10) (last_added kr # map fst arrivals)"
    "t - last (last_added kr # map fst arrivals) \<le> 10"
    using times successively_append_iff [of "\<lambda>s t. t - s \<le> 10" "last_added kr # map fst arrivals" "[t]"] by auto
  note store = combine_seq_store [OF large bounded idx times'(1), of rd ?pn cmd]
  have lt: "i < 65536" if "i \<in> set (map snd arrivals)" for i using that order bounded by auto
  have "ksnSplitCombine t ?k1 (splitReceived rd ?pn cmd packet (?n - 1)) =
    (CombRds (ksnCorePacketData_zero
       \<lparr>rd_addr := rd_addr rd, rd_arp := rd_arp rd, rd_data := packet, rd_from := rd_from rd,
        rd_mtu := rd_mtu rd, rd_port := rd_port rd, rd_cmd := cmd\<rparr>),
     ?k1\<lparr>split_map := foldl pblMapRemoveFrom
           (split_store (rd_from rd) ?pn cmd packet [?n - 1] (split_map ?k1))
           (map (\<lambda>i. create_key (rd_from rd) ?pn (of_nat i)) [0..<?n]),
        last_added := t\<rparr>)"
  proof (rule combine_last [OF large bounded])
    show "t - last_added ?k1 \<le> 10" using times'(2) by simp
    show "pblMapSize (split_map ?k1) < pblMaxElements"
      using size_split_store [of "rd_from rd" ?pn cmd packet "map snd arrivals" "split_map kr"] room by simp
    show "\<forall>i. i + 1 < ?n \<longrightarrow> pblMapGet (split_map ?k1) (create_key (rd_from rd) ?pn (of_nat i)) =
        Some (splitStored cmd packet i)"
      using get_split_store [of "split_map kr" "map snd arrivals"] lt room order bounded by auto
  qed
  moreover have "split_store (rd_from rd) ?pn cmd packet [?n - 1] (split_map ?k1) =
      split_store (rd_from rd) ?pn cmd packet (map snd arrivals @ [?n - 1]) (split_map kr)"
    by (simp add: split_store_def)
  ultimately show ?thesis
    unfolding feed map_append combine_seq_append store by simp
qed

text \<open>A packet of 449 bytes makes two sub-packets.\<close>

lemma example_count: "splitCount (replicate 449 (7::u8)) = 2"
  by (simp add: splitCount_def MAX_DATA_LEN_def)

lemma example_hyps:
  "MAX_DATA_LEN < length (replicate 449 (7::u8))"
  "length (replicate 449 (7::u8)) \<le> MAX_PACKET_LEN - MAX_DATA_LEN"
  "snd ` set [(0::real, 0)] = {..<splitCount (replicate 449 (7::u8)) - 1}"
  "successively (\<lambda>s t. t - s \<le> 10) (last_added ksnSplitInit # map fst [(0::real, 0::nat)] @ [1])"
  "pblMapSize (split_map ksnSplitInit) + length [(0::real, 0::nat)] < pblMaxElements"
  by (simp_all add: example_count MAX_DATA_LEN_def MAX_PACKET_LEN_def ksnSplitInit_def map_simps pblMaxElements_def)
     (auto simp: numeral_2_eq_2)

text \<open>
  C13: a packet that ksnCoreSendto splits arrives whole: whatever the order of its sub-packets
  (repeated ones included), as long as the one with the last-packet flag comes last and the gaps
  are at most ten seconds, the receiver delivers nothing before the last and then exactly the
  packet, with its command, the sender's name and address.
\<close>

theorem split_roundtrip:
  assumes "MAX_DATA_LEN < length packet" and "length packet \<le> MAX_PACKET_LEN - MAX_DATA_LEN"
    and "snd ` set arrivals = {..<splitCount packet - 1}"
    and "successively (\<lambda>s t. t - s \<le> 10) (last_added kr # map fst arrivals @ [t])"
    and "pblMapSize (split_map kr) + length arrivals < pblMaxElements"
  shows "fst (ksnSplitCombine_seq kr
        (split_feed rd (fst (ksnSplitPacket ks cmd packet)) (arrivals @ [(t, splitCount packet - 1)]))) =
      replicate (length arrivals) CombNull @
      [CombRds (ksnCorePacketData_zero
         \<lparr>rd_addr := rd_addr rd, rd_arp := rd_arp rd, rd_data := packet, rd_from := rd_from rd,
          rd_mtu := rd_mtu rd, rd_port := rd_port rd, rd_cmd := cmd\<rparr>)]"
  by (simp only: split_roundtrip_full [OF assms] fst_conv)

text \<open>
  Combining leaves no sub-packet of the delivered packet behind and does not touch the
  sub-packets of any other sender or packet number.
\<close>

theorem split_roundtrip_map:
  assumes "MAX_DATA_LEN < length packet" and "length packet \<le> MAX_PACKET_LEN - MAX_DATA_LEN"
    and "snd ` set arrivals = {..<splitCount packet - 1}"
    and "successively (\<lambda>s t. t - s \<le> 10) (last_added kr # map fst arrivals @ [t])"
    and "pblMapSize (split_map kr) + length arrivals < pblMaxElements"
  shows "pblMapGet (split_map (snd (ksnSplitCombine_seq kr
        (split_feed rd (fst (ksnSplitPacket ks cmd packet)) (arrivals @ [(t, splitCount packet - 1)]))))) k =
      (if \<exists>i < splitCount packet. k = create_key (rd_from rd) (packet_number ks) (of_nat i) then None
       else pblMapGet (split_map kr) k)"
proof -
  have lt: "\<forall>i \<in> set (map snd arrivals @ [splitCount packet - 1]). i < splitCount packet"
    using assms(3) splitCount_bounds [OF assms(1)] by auto
  have "pblMapGet (split_store (rd_from rd) (packet_number ks) cmd packet
        (map snd arrivals @ [splitCount packet - 1]) (split_map kr)) k = pblMapGet (split_map kr) k"
    if "\<forall>i < splitCount packet. k \<noteq> create_key (rd_from rd) (packet_number ks) (of_nat i)"
    by (rule get_split_store_other) (use that lt in blast)
  then show ?thesis
    unfolding split_roundtrip_full [OF assms] snd_conv
    by (auto simp: get_remove_keys)
qed

theorem split_roundtrip_witness:
  "fst (ksnSplitCombine_seq ksnSplitInit
      (split_feed ksnCorePacketData_zero (fst (ksnSplitPacket ksnSplitInit 129 (replicate 449 7))) ([(0, 0)] @ [(1, 1)]))) =
   [CombNull, CombRds (ksnCorePacketData_zero\<lparr>rd_data := replicate 449 7, rd_cmd := 129\<rparr>)]"
proof -
  have e: "ksnCorePacketData_zero\<lparr>rd_addr := rd_addr ksnCorePacketData_zero, rd_arp := rd_arp ksnCorePacketData_zero,
      rd_data := d, rd_from := rd_from ksnCorePacketData_zero, rd_mtu := rd_mtu ksnCorePacketData_zero,
      rd_port := rd_port ksnCorePacketData_zero, rd_cmd := c\<rparr> = ksnCorePacketData_zero\<lparr>rd_data := d, rd_cmd := c\<rparr>" for d c
    by (simp add: ksnCorePacketData_zero_def)
  from split_roundtrip [OF example_hyps, of ksnCorePacketData_zero ksnSplitInit 129] show ?thesis
    by (simp only: e example_count) simp
qed

theorem split_roundtrip_map_witness:
  "pblMapGet (split_map (snd (ksnSplitCombine_seq ksnSplitInit
      (split_feed ksnCorePacketData_zero (fst (ksnSplitPacket ksnSplitInit 129 (replicate 449 7))) ([(0, 0)] @ [(1, 1)])))))
     (create_key [] 0 1) = None"
proof -
  from split_roundtrip_map [OF example_hyps, of ksnCorePacketData_zero ksnSplitInit 129 "create_key [] 0 1"] show ?thesis
    by (simp add: example_count ksnSplitInit_def ksnCorePacketData_zero_def map_simps)
qed

section \<open>Malformed and incomplete packets\<close>

text \<open>No stored sub-packet is empty: what combining needs to read the command of the first one.\<close>

definition split_inv :: "ksnSplitClass \<Rightarrow> bool" where
  "split_inv ks \<longleftrightarrow> (\<forall>k v. pblMapGet (split_map ks) k = Some v \<longrightarrow> v \<noteq> [])"

lemma combine_loop_no_fault:
  assumes "\<forall>k v. pblMapGet m k = Some v \<longrightarrow> v \<noteq> []"
  shows "fst (ksnSplitCombine_loop from pn is c data m) \<noteq> LoopFault \<and>
    (\<forall>k v. pblMapGet (snd (ksnSplitCombine_loop from pn is c data m)) k = Some v \<longrightarrow> v \<noteq> [])"
  using assms
proof (induction "is" arbitrary: c data m)
  case (Cons i "is")
  have "\<forall>k v. pblMapGet (pblMapRemoveFrom m (create_key from pn (of_nat i))) k = Some v \<longrightarrow> v \<noteq> []"
    using Cons.prems by (simp add: map_simps)
  from Cons.IH [OF this] show ?case
    using Cons.prems by (auto simp: Let_def split: option.splits)
qed simp

text \<open>
  C14: with at least one byte of payload in every sub-packet, combining never reads outside the
  received data, and no empty sub-packet gets into the map.
\<close>

theorem split_no_fault:
  assumes "split_inv ks" and "5 \<le> length (rd_data rd)"
  shows "fst (ksnSplitCombine t ks rd) \<noteq> CombFault \<and> split_inv (snd (ksnSplitCombine t ks rd))"
proof -
  define pn where "pn = dec_u16 (rd_data rd)"
  define sn where "sn = dec_u16 (drop 2 (rd_data rd)) AND (LAST_PACKET_FLAG - 1)"
  define m0 where "m0 = (if t - last_added ks > 10 \<and> \<not> pblMapIsEmpty (split_map ks)
    then pblMapClear (split_map ks) else split_map ks)"
  define m1 where "m1 = pblMapAddTo m0 (create_key (rd_from rd) pn sn) (drop 4 (rd_data rd))"
  obtain lr m2 where l: "ksnSplitCombine_loop (rd_from rd) pn [0..<unat sn + 1] 0 [] m1 = (lr, m2)" by fastforce
  have "\<forall>k v. pblMapGet m0 k = Some v \<longrightarrow> v \<noteq> []"
    using assms(1) by (simp add: split_inv_def m0_def map_simps)
  then have m1: "\<forall>k v. pblMapGet m1 k = Some v \<longrightarrow> v \<noteq> []"
    using assms(2) get_add_Some [of m0 "create_key (rd_from rd) pn sn" "drop 4 (rd_data rd)"]
    unfolding m1_def by fastforce
  from combine_loop_no_fault [OF this, of "rd_from rd" pn "[0..<unat sn + 1]" 0 "[]"]
  have "lr \<noteq> LoopFault" and m2: "\<forall>k v. pblMapGet m2 k = Some v \<longrightarrow> v \<noteq> []" unfolding l by simp_all
  then show ?thesis
    unfolding ksnSplitCombine_def Let_def pn_def [symmetric] sn_def [symmetric] m0_def [symmetric]
      m1_def [symmetric] l
    using assms(2) m1 by (cases lr) (simp_all add: split_inv_def)
qed

theorem split_no_fault_witness:
  "fst (ksnSplitCombine 0 ksnSplitInit (ksnCorePacketData_zero\<lparr>rd_data := [0, 0, 0, 0x80, 65]\<rparr>)) \<noteq> CombFault"
proof -
  have "split_inv ksnSplitInit" by (simp add: split_inv_def ksnSplitInit_def map_simps)
  from split_no_fault [OF this, of "ksnCorePacketData_zero\<lparr>rd_data := [0, 0, 0, 0x80, 65]\<rparr>" 0]
  show ?thesis by simp
qed

text \<open>
  Without that byte it does: a first sub-packet with the last-packet flag and no payload makes
  the receiver read the command before the start of the stored data.
\<close>

theorem split_empty_fault:
  "fst (ksnSplitCombine t ksnSplitInit (ksnCorePacketData_zero\<lparr>rd_data := enc_u16 pn @ enc_u16 LAST_PACKET_FLAG\<rparr>)) = CombFault"
proof -
  have "dec_u16 (drop 2 (enc_u16 pn @ x)) = dec_u16 x" for x by simp
  moreover have "LAST_PACKET_FLAG AND (LAST_PACKET_FLAG - 1) = 0" by (simp add: LAST_PACKET_FLAG_def)
  moreover have "LAST_PACKET_FLAG AND LAST_PACKET_FLAG \<noteq> 0" by (simp add: LAST_PACKET_FLAG_def)
  moreover have "dec_u16 (enc_u16 w) = w" for w using dec_enc_u16 [of w "[]"] by simp
  moreover have "pblMapRoom (pblMapNewHashMap :: bytes PblMap) k" for k
    by (simp add: pblMapRoom_def map_simps pblMaxElements_def)
  ultimately show ?thesis
    by (simp add: ksnSplitCombine_def ksnSplitInit_def Let_def map_simps dec_enc_u16)
qed

lemma combine_loop_missing:
  assumes "\<forall>i \<in> set xs. i < 65536 \<and> (\<exists>v. pblMapGet m (create_key from pn (of_nat i)) = Some v \<and> v \<noteq> [])"
    and "distinct xs" and "j \<notin> set xs" and "j < 65536" and "pblMapGet m (create_key from pn (of_nat j)) = None"
  shows "ksnSplitCombine_loop from pn (xs @ j # ys) c data m =
    (LoopMissing, foldl pblMapRemoveFrom m (map (\<lambda>i. create_key from pn (of_nat i)) xs))"
  using assms
proof (induction xs arbitrary: c data m)
  case (Cons i xs)
  let ?m = "pblMapRemoveFrom m (create_key from pn (of_nat i))"
  obtain v where v: "pblMapGet m (create_key from pn (of_nat i)) = Some v" "v \<noteq> []"
    using Cons.prems(1) by auto
  have "\<forall>l \<in> set xs. l < 65536 \<and> (\<exists>v. pblMapGet ?m (create_key from pn (of_nat l)) = Some v \<and> v \<noteq> [])"
    using Cons.prems by (auto simp: map_simps create_key_index)
  moreover have "pblMapGet ?m (create_key from pn (of_nat j)) = None"
    using Cons.prems by (simp add: map_simps)
  ultimately have "ksnSplitCombine_loop from pn (xs @ j # ys) c' data' ?m =
      (LoopMissing, foldl pblMapRemoveFrom ?m (map (\<lambda>i. create_key from pn (of_nat i)) xs))" for c' data'
    using Cons.prems by (intro Cons.IH) auto
  then show ?case using v by (cases "i = 0") (simp_all add: Let_def)
qed (simp add: Let_def)

text \<open>
  When the last sub-packet arrives and sub-packet \<open>j\<close> is missing, nothing is delivered, and all
  sub-packets before \<open>j\<close> are already gone from the map, so that the missing one cannot complete
  the packet any more.
\<close>

theorem split_incomplete:
  assumes data: "rd_data rd = enc_u16 pn @ enc_u16 (of_nat n OR LAST_PACKET_FLAG) @ d"
    and "n < 0x8000" and "j < n" and fresh: "t - last_added ks \<le> 10" and inv: "split_inv ks"
    and missing: "pblMapGet (split_map ks) (create_key (rd_from rd) pn (of_nat j)) = None"
    and before: "\<forall>i < j. pblMapGet (split_map ks) (create_key (rd_from rd) pn (of_nat i)) \<noteq> None"
  shows "fst (ksnSplitCombine t ks rd) = CombNull \<and>
    (\<forall>i \<le> j. pblMapGet (split_map (snd (ksnSplitCombine t ks rd))) (create_key (rd_from rd) pn (of_nat i)) = None)"
proof -
  let ?key = "\<lambda>i. create_key (rd_from rd) pn (of_nat i)"
  define m1 where "m1 = pblMapAddTo (split_map ks) (?key n) d"
  have other: "pblMapGet m1 (?key i) = pblMapGet (split_map ks) (?key i)" if "i < n" for i
    unfolding m1_def by (rule get_add_other) (use that assms(2) create_key_index [of i n] in auto)
  have u: "unat (of_nat n :: u16) = n" by (simp only: unat_of_nat) (use assms(2) in simp)
  have "[0..<unat (of_nat n :: u16) + 1] = [0..<j] @ j # [Suc j..<n + 1]"
    using assms(3) upt_add_eq_append [of 0 j "n + 1 - j"] unfolding u by (simp add: upt_conv_Cons)
  moreover have "ksnSplitCombine_loop (rd_from rd) pn ([0..<j] @ j # [Suc j..<n + 1]) 0 [] m1 =
      (LoopMissing, foldl pblMapRemoveFrom m1 (map ?key [0..<j]))"
    by (rule combine_loop_missing)
       (use other before missing inv assms(2,3) in \<open>auto simp: split_inv_def\<close>)
  moreover have "dec_u16 (drop 2 (rd_data rd)) = of_nat n OR LAST_PACKET_FLAG" "dec_u16 (rd_data rd) = pn"
    "drop 4 (rd_data rd) = d" "\<not> length (rd_data rd) < 4"
    unfolding data by (simp_all add: dec_enc_u16)
  ultimately have c: "ksnSplitCombine t ks rd =
      (CombNull, ks\<lparr>split_map := foldl pblMapRemoveFrom m1 (map ?key [0..<j]), last_added := t\<rparr>)"
    using fresh subpacket_flags [OF assms(2)]
    by (simp add: ksnSplitCombine_def Let_def flip: m1_def)
  have "pblMapGet (foldl pblMapRemoveFrom m1 (map ?key [0..<j])) (?key i) = None" if "i \<le> j" for i
    using that other [of j] missing assms(3) by (cases "i = j") (auto simp: get_remove_keys)
  then show ?thesis unfolding c by simp
qed

theorem split_incomplete_witness:
  "fst (ksnSplitCombine 0 ksnSplitInit
     (ksnCorePacketData_zero\<lparr>rd_data := enc_u16 0 @ enc_u16 (of_nat 1 OR LAST_PACKET_FLAG) @ [65]\<rparr>)) = CombNull"
proof -
  have "split_inv ksnSplitInit" by (simp add: split_inv_def ksnSplitInit_def map_simps)
  then show ?thesis
    using split_incomplete [of "ksnCorePacketData_zero\<lparr>rd_data := enc_u16 0 @ enc_u16 (of_nat 1 OR LAST_PACKET_FLAG) @ [65]\<rparr>"
      0 1 "[65]" 0 0 ksnSplitInit]
    by (simp add: ksnSplitInit_def map_simps del: of_nat_1)
qed

end
