(* ===== verification/CQue.thy ===== *)
theory CQue
  imports TeoTypes
begin

text \<open>
  The callback queue (modules/cque.c): records with a callback, its data and a timer, under
  32-bit identifiers. Executing a record, or its timer, calls the callback, which may change any
  part of the node; the queue is therefore accessed in the state of its host through a reading
  and an updating function, and the host says how a callback runs.
\<close>

section \<open>State\<close>

datatype cqueFn =
    PeerTypeCb
  | ConnectCb
  | ReconnectCb
  | StreamConnectCb
  | CheckConnectedCb
  | UserCb nat

datatype cqueData =
    PeerTypeReq bytes bytes int
  | ConnectReq bytes int
  | ReconnectReq bytes
  | StreamReq bytes
  | UserData nat
  | NoData

text \<open>\<open>cq_timeout\<close> is None while the field has not been written; the timer of
  a record runs from the \<open>TimerStart\<close> of its identifier to the \<open>TimerStop\<close>.\<close>

record ksnCQueData =
  cq_cb :: "cqueFn option"
  cq_timeout :: "real option"
  cq_id :: u32
  cq_data :: cqueData

record ksnCQueClass =
  cq_next_id :: u32
  cque_map :: "ksnCQueData PblMap"
  cq_event_f :: bool

definition ksnCQueInit :: "bool \<Rightarrow> ksnCQueClass" where
  "ksnCQueInit send_event = \<lparr>cq_next_id = 0, cque_map = pblMapNewHashMap, cq_event_f = send_event\<rparr>"

section \<open>Operations on the queue\<close>

definition cq_get :: "ksnCQueClass \<Rightarrow> u32 \<Rightarrow> ksnCQueData option" where
  "cq_get kq i = pblMapGet (cque_map kq) (enc_u32 i)"

text \<open>\<open>ksnCQueAdd\<close> returns the record it added, the queue and the timer call.\<close>

definition ksnCQueAdd ::
  "ksnCQueClass \<Rightarrow> cqueFn option \<Rightarrow> real \<Rightarrow> cqueData \<Rightarrow> ksnCQueData option \<times> ksnCQueClass \<times> action list" where
  "ksnCQueAdd kq cb timeout data =
     (let i = (if cq_next_id kq = 0 then cq_next_id kq + 1 else cq_next_id kq);
          data_new = \<lparr>cq_cb = cb, cq_timeout = None, cq_id = i, cq_data = data\<rparr>;
          (rc, m) = pblMapAdd (cque_map kq) (enc_u32 i) data_new;
          kq1 = kq\<lparr>cq_next_id := i + 1, cque_map := m\<rparr>
      in if rc \<ge> 0
         then case cq_get kq1 i of
                None \<Rightarrow> (None, kq1, [])
              | Some cq \<Rightarrow>
                  if timeout > 0
                  then let cq1 = cq\<lparr>cq_timeout := Some timeout\<rparr>
                       in (Some cq1, kq1\<lparr>cque_map := pblMapStore m (enc_u32 i) (\<lambda>_. cq1)\<rparr>, [TimerStart i timeout])
                  else (Some cq, kq1, [])
         else (None, kq1, []))"

text \<open>The test \<open>cq->timeout > 0.0\<close> before a timer is stopped.\<close>

definition cq_stop_timer :: "ksnCQueData \<Rightarrow> action list" where
  "cq_stop_timer cq =
     (case cq_timeout cq of
        None \<Rightarrow> [UninitRead]
      | Some t \<Rightarrow> if t > 0 then [TimerStop (cq_id cq)] else [])"

definition ksnCQueRemove :: "ksnCQueClass \<Rightarrow> u32 \<Rightarrow> int \<times> ksnCQueClass \<times> action list" where
  "ksnCQueRemove kq i =
     (case cq_get kq i of
        None \<Rightarrow> (-1, kq, [])
      | Some cq \<Rightarrow> (0, kq\<lparr>cque_map := pblMapRemoveFrom (cque_map kq) (enc_u32 i)\<rparr>, cq_stop_timer cq))"

definition ksnCQueSetData :: "ksnCQueClass \<Rightarrow> u32 \<Rightarrow> cqueData \<Rightarrow> int \<times> ksnCQueClass" where
  "ksnCQueSetData kq i data =
     (case cq_get kq i of
        None \<Rightarrow> (-1, kq)
      | Some cq \<Rightarrow> (0, kq\<lparr>cque_map := pblMapStore (cque_map kq) (enc_u32 i) (\<lambda>c. c\<lparr>cq_data := data\<rparr>)\<rparr>))"

definition ksnCQueGetData :: "ksnCQueClass \<Rightarrow> u32 \<Rightarrow> cqueData option" where
  "ksnCQueGetData kq i = map_option cq_data (cq_get kq i)"

definition ksnCQueFindData :: "ksnCQueClass \<Rightarrow> (cqueData \<Rightarrow> bool) \<Rightarrow> bytes option" where
  "ksnCQueFindData kq compare =
     map_option fst (find (\<lambda>(k, cq). compare (cq_data cq)) (pblMapEntries (cque_map kq)))"

definition teoCqueStopAll :: "ksnCQueClass \<Rightarrow> bool \<Rightarrow> ksnCQueClass \<times> action list" where
  "teoCqueStopAll kq running =
     (kq\<lparr>cque_map := pblMapClear (cque_map kq)\<rparr>,
      concat (map (\<lambda>(k, cq). case cq_timeout cq of
                     None \<Rightarrow> [UninitRead]
                   | Some t \<Rightarrow> if t > 0 \<and> running then [TimerStop (cq_id cq)] else [])
                  (pblMapEntries (cque_map kq))))"

section \<open>Executing a record\<close>

text \<open>
  The host state \<open>s\<close>: \<open>get\<close> and \<open>upd\<close> reach its queue, \<open>emit\<close> logs an effect, \<open>run\<close> is the
  call of a callback with identifier, type and data, \<open>has_cb\<close> says whether there is a user
  event callback.
\<close>

definition cq_call ::
  "('s \<Rightarrow> ksnCQueClass) \<Rightarrow> (action list \<Rightarrow> 's \<Rightarrow> 's) \<Rightarrow> (cqueFn \<Rightarrow> u32 \<Rightarrow> int \<Rightarrow> cqueData \<Rightarrow> 's \<Rightarrow> 's) \<Rightarrow>
   ('s \<Rightarrow> bool) \<Rightarrow> u32 \<Rightarrow> int \<Rightarrow> ksnCQueData \<Rightarrow> 's \<Rightarrow> 's" where
  "cq_call get emit run has_cb i type cq s =
     (let s1 = (case cq_cb cq of None \<Rightarrow> s | Some cb \<Rightarrow> run cb i type (cq_data cq) s)
      in if has_cb s1 \<and> cq_event_f (get s1) then emit [EventCb EV_K_CQUE_CALLBACK (EvCQue i type)] s1 else s1)"

definition ksnCQueExec ::
  "('s \<Rightarrow> ksnCQueClass) \<Rightarrow> ((ksnCQueClass \<Rightarrow> ksnCQueClass) \<Rightarrow> 's \<Rightarrow> 's) \<Rightarrow> (action list \<Rightarrow> 's \<Rightarrow> 's) \<Rightarrow>
   (cqueFn \<Rightarrow> u32 \<Rightarrow> int \<Rightarrow> cqueData \<Rightarrow> 's \<Rightarrow> 's) \<Rightarrow> ('s \<Rightarrow> bool) \<Rightarrow> u32 \<Rightarrow> 's \<Rightarrow> int \<times> 's" where
  "ksnCQueExec get upd emit run has_cb i s =
     (case cq_get (get s) i of
        None \<Rightarrow> (-1, s)
      | Some cq \<Rightarrow>
          let s1 = emit (cq_stop_timer cq) s;
              s2 = cq_call get emit run has_cb i 1 cq s1
          in (0, upd (\<lambda>kq. kq\<lparr>cque_map := pblMapRemoveFrom (cque_map kq) (enc_u32 i)\<rparr>) s2))"

text \<open>The timer of a record fires: libev calls \<open>cq_timer_cb\<close> for a record with an active timer.\<close>

definition cq_timer_cb ::
  "('s \<Rightarrow> ksnCQueClass) \<Rightarrow> ((ksnCQueClass \<Rightarrow> ksnCQueClass) \<Rightarrow> 's \<Rightarrow> 's) \<Rightarrow> (action list \<Rightarrow> 's \<Rightarrow> 's) \<Rightarrow>
   (cqueFn \<Rightarrow> u32 \<Rightarrow> int \<Rightarrow> cqueData \<Rightarrow> 's \<Rightarrow> 's) \<Rightarrow> ('s \<Rightarrow> bool) \<Rightarrow> ksnCQueData \<Rightarrow> 's \<Rightarrow> 's" where
  "cq_timer_cb get upd emit run has_cb cq s =
     (let s1 = emit [TimerStop (cq_id cq)] s;
          s2 = cq_call get emit run has_cb (cq_id cq) 0 cq s1
      in upd (\<lambda>kq. kq\<lparr>cque_map := pblMapRemoveFrom (cque_map kq) (enc_u32 (cq_id cq))\<rparr>) s2)"

section \<open>Invariant\<close>

text \<open>Every record lies under its own identifier, which is not 0, and a timeout that has been set is
  positive.\<close>

definition cque_wf :: "ksnCQueClass \<Rightarrow> bool" where
  "cque_wf kq \<longleftrightarrow> (\<forall>k cq. pblMapGet (cque_map kq) k = Some cq \<longrightarrow>
     k = enc_u32 (cq_id cq) \<and> cq_id cq \<noteq> 0 \<and> (\<forall>t. cq_timeout cq = Some t \<longrightarrow> t > 0))"

text \<open>No identifier in the queue has been reused: all are below the next one.\<close>

definition cque_below :: "ksnCQueClass \<Rightarrow> bool" where
  "cque_below kq \<longleftrightarrow> (\<forall>i. cq_get kq i \<noteq> None \<longrightarrow> i < cq_next_id kq)"

lemma cq_get_wf: "cque_wf kq \<Longrightarrow> cq_get kq i = Some cq \<Longrightarrow> cq_id cq = i \<and> i \<noteq> 0 \<and> (\<forall>t. cq_timeout cq = Some t \<longrightarrow> t > 0)"
  unfolding cque_wf_def cq_get_def by (metis enc_u32_inject)

lemma cque_wf_remove: "cque_wf kq \<Longrightarrow> cque_wf (kq\<lparr>cque_map := pblMapRemoveFrom (cque_map kq) k\<rparr>)"
  by (auto simp: cque_wf_def map_simps)

lemma cq_get_remove [simp]:
  "cq_get (kq\<lparr>cque_map := pblMapRemoveFrom (cque_map kq) (enc_u32 i)\<rparr>) j = (if j = i then None else cq_get kq j)"
  by (auto simp: cq_get_def map_simps)

definition cqueNextId :: "ksnCQueClass \<Rightarrow> u32" where
  "cqueNextId kq = (if cq_next_id kq = 0 then 1 else cq_next_id kq)"

definition cqueRoom :: "ksnCQueClass \<Rightarrow> bool" where
  "cqueRoom kq \<longleftrightarrow> pblMapSize (cque_map kq) < pblMaxElements"

lemma ksnCQueAdd_room:
  assumes "cqueRoom kq"
  obtains m where "ksnCQueAdd kq cb timeout data =
      (Some \<lparr>cq_cb = cb, cq_timeout = (if timeout > 0 then Some timeout else None), cq_id = cqueNextId kq, cq_data = data\<rparr>,
       kq\<lparr>cq_next_id := cqueNextId kq + 1, cque_map := m\<rparr>,
       if timeout > 0 then [TimerStart (cqueNextId kq) timeout] else [])"
    and "pblMapGet m = (pblMapGet (cque_map kq))(enc_u32 (cqueNextId kq) \<mapsto>
      \<lparr>cq_cb = cb, cq_timeout = (if timeout > 0 then Some timeout else None), cq_id = cqueNextId kq, cq_data = data\<rparr>)"
proof -
  let ?k = "enc_u32 (cqueNextId kq)"
  let ?d = "\<lparr>cq_cb = cb, cq_timeout = None, cq_id = cqueNextId kq, cq_data = data\<rparr>"
  let ?m = "pblMapAddTo (cque_map kq) ?k ?d"
  have room: "pblMapRoom (cque_map kq) ?k" using assms by (simp add: cqueRoom_def pblMapRoom_def)
  have rc: "pblMapAddRc (cque_map kq) ?k ?d \<ge> 0" using room by (simp add: map_simps)
  have get: "pblMapGet ?m = (pblMapGet (cque_map kq))(?k \<mapsto> ?d)" by (rule get_add [OF room])
  have nid: "(if cq_next_id kq = 0 then cq_next_id kq + 1 else cq_next_id kq) = cqueNextId kq"
    by (simp add: cqueNextId_def)
  show thesis
  proof (cases "timeout > 0")
    case True
    show thesis
    proof (rule that)
      show "pblMapGet (pblMapStore ?m ?k (\<lambda>_. ?d\<lparr>cq_timeout := Some timeout\<rparr>)) =
        (pblMapGet (cque_map kq))(?k \<mapsto>
          \<lparr>cq_cb = cb, cq_timeout = (if timeout > 0 then Some timeout else None), cq_id = cqueNextId kq, cq_data = data\<rparr>)"
        using True by (auto simp: fun_eq_iff map_simps get)
    qed (use True rc get in \<open>simp add: ksnCQueAdd_def Let_def nid pblMapAdd_def cq_get_def\<close>)
  next
    case False
    show thesis
      by (rule that [of ?m]) (use False rc get in \<open>simp_all add: ksnCQueAdd_def Let_def nid pblMapAdd_def cq_get_def\<close>)
  qed
qed

section \<open>Adding\<close>

lemma cque_wf_init: "cque_wf (ksnCQueInit b)" and cque_below_init: "cque_below (ksnCQueInit b)"
  by (simp_all add: cque_wf_def cque_below_def ksnCQueInit_def cq_get_def map_simps)

lemma cqueNextId_nonzero: "cqueNextId kq \<noteq> 0"
  by (simp add: cqueNextId_def)

lemma cque_wf_add:
  assumes "cque_wf kq"
  shows "cque_wf (fst (snd (ksnCQueAdd kq cb timeout data)))"
proof -
  let ?k = "enc_u32 (cqueNextId kq)"
  let ?d = "\<lparr>cq_cb = cb, cq_timeout = None, cq_id = cqueNextId kq, cq_data = data\<rparr>"
  have nid: "(if cq_next_id kq = 0 then cq_next_id kq + 1 else cq_next_id kq) = cqueNextId kq"
    by (simp add: cqueNextId_def)
  have stored: "pblMapGet (pblMapAddTo (cque_map kq) ?k ?d) ?k = Some ?d"
    if "pblMapAddRc (cque_map kq) ?k ?d \<ge> 0"
    using that by (auto intro: add_cases [of "cque_map kq" ?k ?d])
  have old: "cque_wf (kq\<lparr>cq_next_id := n, cque_map := pblMapAddTo (cque_map kq) ?k ?d\<rparr>)" for n
    using get_add_Some [of "cque_map kq" ?k ?d] assms cqueNextId_nonzero
    by (fastforce simp: cque_wf_def)
  have "cque_wf (kq\<lparr>cq_next_id := n, cque_map := pblMapStore (pblMapAddTo (cque_map kq) ?k ?d) ?k
      (\<lambda>_. ?d\<lparr>cq_timeout := Some timeout\<rparr>)\<rparr>)" if "timeout > 0" for n
    using old assms that cqueNextId_nonzero by (auto simp: cque_wf_def map_simps)
  then show ?thesis
    using old stored by (auto simp: ksnCQueAdd_def nid pblMapAdd_def Let_def cq_get_def split: option.splits)
qed

text \<open>
  What adding to the callback queue promises: the new record has a non-zero identifier, the
  queue returns its data under that identifier, its timer is started exactly when the timeout is
  positive, and the records under all other identifiers are as before.
\<close>

theorem cque_add:
  assumes "cqueRoom kq"
  shows "\<exists>cq kq' acts. ksnCQueAdd kq cb timeout data = (Some cq, kq', acts) \<and> cq_id cq \<noteq> 0 \<and>
    cq_get kq' (cq_id cq) = Some cq \<and> cq_cb cq = cb \<and> ksnCQueGetData kq' (cq_id cq) = Some data \<and>
    (\<forall>j. j \<noteq> cq_id cq \<longrightarrow> cq_get kq' j = cq_get kq j) \<and>
    acts = (if timeout > 0 then [TimerStart (cq_id cq) timeout] else [])"
proof -
  obtain m where "ksnCQueAdd kq cb timeout data =
      (Some \<lparr>cq_cb = cb, cq_timeout = (if timeout > 0 then Some timeout else None), cq_id = cqueNextId kq, cq_data = data\<rparr>,
       kq\<lparr>cq_next_id := cqueNextId kq + 1, cque_map := m\<rparr>,
       if timeout > 0 then [TimerStart (cqueNextId kq) timeout] else [])"
    "pblMapGet m = (pblMapGet (cque_map kq))(enc_u32 (cqueNextId kq) \<mapsto>
      \<lparr>cq_cb = cb, cq_timeout = (if timeout > 0 then Some timeout else None), cq_id = cqueNextId kq, cq_data = data\<rparr>)"
    by (rule ksnCQueAdd_room [OF assms])
  then show ?thesis using cqueNextId_nonzero by (auto simp: ksnCQueGetData_def cq_get_def)
qed

theorem cque_add_witness:
  "\<exists>cq kq' acts. ksnCQueAdd (ksnCQueInit True) (Some PeerTypeCb) 1 NoData = (Some cq, kq', acts) \<and>
    acts = [TimerStart (cq_id cq) 1]"
proof -
  have "cqueRoom (ksnCQueInit True)"
    by (simp add: cqueRoom_def ksnCQueInit_def map_simps pblMaxElements_def)
  from cque_add [OF this, of "Some PeerTypeCb" 1 NoData] show ?thesis by force
qed

text \<open>
  Until the 32-bit counter wraps, an identifier is given out once: the record that is added
  never replaces one that is waiting, and the queue keeps that property.
\<close>

theorem cque_add_fresh:
  assumes "cque_below kq" and "cqueRoom kq" and "cq_next_id kq < 0xFFFFFFFF"
  shows "cq_get kq (cqueNextId kq) = None \<and> cque_below (fst (snd (ksnCQueAdd kq cb timeout data)))"
proof -
  obtain m where m: "ksnCQueAdd kq cb timeout data =
      (Some \<lparr>cq_cb = cb, cq_timeout = (if timeout > 0 then Some timeout else None), cq_id = cqueNextId kq, cq_data = data\<rparr>,
       kq\<lparr>cq_next_id := cqueNextId kq + 1, cque_map := m\<rparr>,
       if timeout > 0 then [TimerStart (cqueNextId kq) timeout] else [])"
    "pblMapGet m = (pblMapGet (cque_map kq))(enc_u32 (cqueNextId kq) \<mapsto>
      \<lparr>cq_cb = cb, cq_timeout = (if timeout > 0 then Some timeout else None), cq_id = cqueNextId kq, cq_data = data\<rparr>)"
    by (rule ksnCQueAdd_room [OF assms(2)])
  have le: "cq_next_id kq \<le> cqueNextId kq"
    unfolding cqueNextId_def by simp
  have "cqueNextId kq < 0xFFFFFFFF" using assms(3) unfolding cqueNextId_def by simp
  then have lt: "cqueNextId kq < cqueNextId kq + 1"
    by (simp add: word_less_nat_alt unat_plus_if')
  have fresh: "cq_get kq (cqueNextId kq) = None"
    using assms(1) le by (metis cque_below_def leD)
  have "j < cqueNextId kq + 1" if "cq_get (kq\<lparr>cq_next_id := cqueNextId kq + 1, cque_map := m\<rparr>) j \<noteq> None" for j
  proof (cases "j = cqueNextId kq")
    case False
    then have "cq_get kq j \<noteq> None" using that m(2) by (simp add: cq_get_def)
    then have "j < cqueNextId kq" using assms(1) le by (metis cque_below_def less_le_trans)
    then show ?thesis using lt by (rule less_trans)
  qed (use lt in simp)
  then show ?thesis using fresh m(1) by (simp add: cque_below_def)
qed

lemma cqueRoom_init: "cqueRoom (ksnCQueInit b)"
  by (simp add: cqueRoom_def ksnCQueInit_def map_simps pblMaxElements_def)

theorem cque_add_fresh_witness:
  "cque_below (fst (snd (ksnCQueAdd (ksnCQueInit True) None 0 NoData)))"
proof -
  have "cq_next_id (ksnCQueInit True) < 0xFFFFFFFF" by (simp add: ksnCQueInit_def)
  from cque_add_fresh [OF cque_below_init cqueRoom_init this, of None 0 NoData] show ?thesis by simp
qed

text \<open>
  Once the counter has wrapped to 0 it skips 0 but not the identifiers that are still waiting:
  a record under identifier 1 is replaced, its callback will never be called, and its timer is not
  stopped.
\<close>

theorem cque_wrap_replaces:
  assumes "cq_next_id kq = 0" and "cq_get kq 1 = Some old" and "cqueRoom kq"
  shows "\<exists>cq kq' acts. ksnCQueAdd kq cb timeout data = (Some cq, kq', acts) \<and> cq_id cq = 1 \<and>
    cq_get kq' 1 = Some cq \<and> cq_cb cq = cb \<and> cq_data cq = data \<and> (\<forall>i. TimerStop i \<notin> set acts)"
proof -
  have "cqueNextId kq = 1" using assms(1) by (simp add: cqueNextId_def)
  then obtain m where "ksnCQueAdd kq cb timeout data =
      (Some \<lparr>cq_cb = cb, cq_timeout = (if timeout > 0 then Some timeout else None), cq_id = 1, cq_data = data\<rparr>,
       kq\<lparr>cq_next_id := 1 + 1, cque_map := m\<rparr>, if timeout > 0 then [TimerStart 1 timeout] else [])"
    "pblMapGet m = (pblMapGet (cque_map kq))(enc_u32 1 \<mapsto>
      \<lparr>cq_cb = cb, cq_timeout = (if timeout > 0 then Some timeout else None), cq_id = 1, cq_data = data\<rparr>)"
    using ksnCQueAdd_room [OF assms(3), of cb timeout data] by metis
  then show ?thesis by (auto simp: cq_get_def)
qed

definition cque_wrapped :: ksnCQueClass where
  "cque_wrapped = (ksnCQueInit True)\<lparr>cque_map := pblMapAddTo pblMapNewHashMap (enc_u32 1)
     \<lparr>cq_cb = Some ReconnectCb, cq_timeout = Some 5, cq_id = 1, cq_data = NoData\<rparr>\<rparr>"

theorem cque_wrap_replaces_witness:
  "\<exists>cq kq' acts. ksnCQueAdd cque_wrapped (Some PeerTypeCb) 1 NoData = (Some cq, kq', acts) \<and>
    cq_get kq' 1 = Some cq \<and> cq_cb cq = Some PeerTypeCb"
proof -
  let ?old = "\<lparr>cq_cb = Some ReconnectCb, cq_timeout = Some 5, cq_id = 1, cq_data = NoData\<rparr>"
  have room: "pblMapRoom (pblMapNewHashMap :: ksnCQueData PblMap) k" for k
    by (simp add: pblMapRoom_def map_simps pblMaxElements_def)
  have "cq_next_id cque_wrapped = 0" "cq_get cque_wrapped 1 = Some ?old" "cqueRoom cque_wrapped"
    using room by (simp_all add: cque_wrapped_def ksnCQueInit_def cq_get_def cqueRoom_def map_simps pblMaxElements_def)
  from cque_wrap_replaces [OF this, of "Some PeerTypeCb" 1 NoData] show ?thesis by force
qed

section \<open>Executing: what holds in every host\<close>

text \<open>The interface a host of a queue provides.\<close>

locale cque_host =
  fixes get :: "'s \<Rightarrow> ksnCQueClass"
    and upd :: "(ksnCQueClass \<Rightarrow> ksnCQueClass) \<Rightarrow> 's \<Rightarrow> 's"
    and emit :: "action list \<Rightarrow> 's \<Rightarrow> 's"
  assumes get_upd: "get (upd f s) = f (get s)"
    and get_emit: "get (emit acts s) = get s"
begin

lemma exec_absent: "cq_get (get s) i = None \<Longrightarrow> ksnCQueExec get upd emit run has_cb i s = (-1, s)"
  by (simp add: ksnCQueExec_def)

lemma exec_present:
  "cq_get (get s) i = Some cq \<Longrightarrow>
   fst (ksnCQueExec get upd emit run has_cb i s) = 0 \<and>
   cq_get (get (snd (ksnCQueExec get upd emit run has_cb i s))) i = None"
  by (simp add: ksnCQueExec_def Let_def get_upd)

lemma exec_once:
  "ksnCQueExec get upd emit run has_cb i (snd (ksnCQueExec get upd emit run has_cb i s)) =
   (-1, snd (ksnCQueExec get upd emit run has_cb i s))"
  by (cases "cq_get (get s) i") (simp_all add: exec_absent exec_present)

lemma timer_removes: "cq_get (get (cq_timer_cb get upd emit run has_cb cq s)) (cq_id cq) = None"
  by (simp add: cq_timer_cb_def Let_def get_upd)

text \<open>If callbacks keep the records of other identifiers, so does executing.\<close>

lemma call_other:
  assumes "\<And>cb s'. cq_get (get (run cb i type (cq_data cq) s')) j = cq_get (get s') j"
  shows "cq_get (get (cq_call get emit run has_cb i type cq s)) j = cq_get (get s) j"
  using assms by (auto simp: cq_call_def Let_def get_emit split: option.splits)

lemma exec_other:
  assumes "\<And>cb d s'. cq_get (get (run cb i 1 d s')) j = cq_get (get s') j" and "j \<noteq> i"
  shows "cq_get (get (snd (ksnCQueExec get upd emit run has_cb i s))) j = cq_get (get s) j"
  using assms call_other by (auto simp: ksnCQueExec_def Let_def get_upd get_emit split: option.splits)

lemma call_wf:
  assumes "cque_wf (get s)" and "\<And>cb s'. cque_wf (get s') \<Longrightarrow> cque_wf (get (run cb i type (cq_data cq) s'))"
  shows "cque_wf (get (cq_call get emit run has_cb i type cq s))"
  using assms by (auto simp: cq_call_def Let_def get_emit split: option.splits)

lemma exec_wf:
  assumes "cque_wf (get s)" and "\<And>cb d s'. cque_wf (get s') \<Longrightarrow> cque_wf (get (run cb i 1 d s'))"
  shows "cque_wf (get (snd (ksnCQueExec get upd emit run has_cb i s)))"
proof (cases "cq_get (get s) i")
  case (Some cq)
  have "cque_wf (get (cq_call get emit run has_cb i 1 cq (emit (cq_stop_timer cq) s)))"
    by (rule call_wf) (use assms in \<open>auto simp: get_emit\<close>)
  then show ?thesis using Some by (simp add: ksnCQueExec_def Let_def get_upd cque_wf_remove)
qed (use assms in \<open>simp add: exec_absent\<close>)

lemma timer_wf:
  assumes "cque_wf (get s)" and "\<And>cb d s'. cque_wf (get s') \<Longrightarrow> cque_wf (get (run cb (cq_id cq) 0 d s'))"
  shows "cque_wf (get (cq_timer_cb get upd emit run has_cb cq s))"
proof -
  have "cque_wf (get (cq_call get emit run has_cb (cq_id cq) 0 cq (emit [TimerStop (cq_id cq)] s)))"
    by (rule call_wf) (use assms in \<open>auto simp: get_emit\<close>)
  then show ?thesis by (simp add: cq_timer_cb_def Let_def get_upd cque_wf_remove)
qed

end

end
