(* ===== verification/Crypt.thy ===== *)
theory Crypt
  imports Prelude
begin

text \<open>
  Encryption of packets (crypt.c). AES in CBC mode is OpenSSL's; it is a parameter here: \<open>aes_enc\<close>
  and \<open>aes_dec\<close> take key, initialisation vector and data and return the result, the empty list
  where the OpenSSL call fails. Around it, the code keeps a 16-bit length field and recognises
  encrypted packets by it.
\<close>

definition BLOCK_SIZE :: nat where "BLOCK_SIZE = 16"
definition KEY_SIZE :: nat where "KEY_SIZE = 32"

text \<open>\<open>strncpy\<close> into a field: copied up to the terminator, padded with zeros, cut at the size.\<close>

definition strncpy :: "bytes \<Rightarrow> nat \<Rightarrow> bytes" where
  "strncpy src n = take n (cstr src) @ replicate (n - length (cstr src)) 0"

record ksnCryptClass =
  cr_iv :: bytes
  cr_key :: bytes
  cr_key_len :: nat

definition default_digits :: "nat \<Rightarrow> bytes" where
  "default_digits n = map (\<lambda>i. of_nat (48 + i mod 10)) [0..<n]"

definition ksnCryptInit :: "bytes \<Rightarrow> bytes \<Rightarrow> ksnCryptClass" where
  "ksnCryptInit net_key network =
     (let iv0 = default_digits 16;
          iv = strncpy (if net_key \<noteq> [] then net_key else iv0) BLOCK_SIZE;
          key0 = default_digits 32;
          key1 = (if net_key \<noteq> [] then strncpy net_key KEY_SIZE else key0);
          key2 = (if network \<noteq> [] then strncpy network KEY_SIZE else key1)
      in \<lparr>cr_iv = iv, cr_key = key2, cr_key_len = length (cstr key2)\<rparr>)"

type_synonym cipher = "bytes \<Rightarrow> bytes \<Rightarrow> bytes \<Rightarrow> bytes"

definition encryptBufferLen :: "nat \<Rightarrow> nat" where
  "encryptBufferLen package_len =
     ((package_len + 1) div BLOCK_SIZE + (if (package_len + 1) mod BLOCK_SIZE \<noteq> 0 then 1 else 0)) * BLOCK_SIZE"

definition ksnEncryptPackage :: "cipher \<Rightarrow> ksnCryptClass \<Rightarrow> bytes \<Rightarrow> bytes" where
  "ksnEncryptPackage aes_enc kcr package =
     enc_u16 (of_nat (length package)) @ aes_enc (cr_key kcr) (cr_iv kcr) package"

definition ksnDecryptPackage :: "cipher \<Rightarrow> ksnCryptClass \<Rightarrow> bytes \<Rightarrow> bytes" where
  "ksnDecryptPackage aes_dec kcr package =
     (let decrypted = aes_dec (cr_key kcr) (cr_iv kcr) (drop 2 package)
      in if length decrypted \<noteq> 0 then decrypted else package)"

definition ksnCheckEncrypted :: "bytes \<Rightarrow> bool" where
  "ksnCheckEncrypted package =
     (let decrypt_len = unat (dec_u16 package)
      in decrypt_len \<noteq> 0 \<and> decrypt_len < length package \<and> (length package - 2) mod BLOCK_SIZE = 0)"

section \<open>Properties\<close>

text \<open>What OpenSSL documents of AES-CBC with its default padding: decryption inverts encryption and
  the result fills whole blocks, with one to sixteen bytes of padding.\<close>

definition cbc_padded :: "cipher \<Rightarrow> cipher \<Rightarrow> bool" where
  "cbc_padded aes_enc aes_dec \<longleftrightarrow>
     (\<forall>key iv p. aes_dec key iv (aes_enc key iv p) = p \<and>
        length (aes_enc key iv p) = (length p div BLOCK_SIZE + 1) * BLOCK_SIZE)"

text \<open>Padding alone, without a cipher, has these properties.\<close>

definition pad_only_enc :: cipher where
  "pad_only_enc key iv p = p @ replicate (BLOCK_SIZE - length p mod BLOCK_SIZE) (of_nat (BLOCK_SIZE - length p mod BLOCK_SIZE))"

definition pad_only_dec :: cipher where
  "pad_only_dec key iv c = (if c = [] then [] else take (length c - unat (last c)) c)"

lemma pad_only: "cbc_padded pad_only_enc pad_only_dec"
proof -
  have "pad_only_dec key iv (pad_only_enc key iv p) = p \<and>
      length (pad_only_enc key iv p) = (length p div BLOCK_SIZE + 1) * BLOCK_SIZE" for key iv and p :: bytes
  proof -
    define k where "k = BLOCK_SIZE - length p mod BLOCK_SIZE"
    have k: "0 < k" "k \<le> 16" by (simp_all add: k_def BLOCK_SIZE_def)
    have u: "unat (of_nat k :: u8) = k" by (simp only: unat_of_nat) (use k in simp)
    have e: "pad_only_enc key iv p = p @ replicate k (of_nat k)" by (simp add: pad_only_enc_def k_def)
    have "length p + k = (length p div BLOCK_SIZE + 1) * BLOCK_SIZE"
      unfolding k_def BLOCK_SIZE_def by presburger
    then show ?thesis using k u by (simp add: e pad_only_dec_def)
  qed
  then show ?thesis by (simp add: cbc_padded_def)
qed

text \<open>
  The buffer that ksnEncryptPackage allocates holds exactly what the cipher writes, whatever the
  length of the packet.
\<close>

theorem encrypt_fits:
  assumes "cbc_padded aes_enc aes_dec"
  shows "length (aes_enc (cr_key kcr) (cr_iv kcr) package) = encryptBufferLen (length package)"
proof -
  have "(n div 16 + 1) * 16 = ((n + 1) div 16 + (if (n + 1) mod 16 \<noteq> 0 then 1 else 0)) * 16" for n :: nat
  proof -
    define q r where "q = n div 16" and "r = n mod 16"
    have n: "n = r + q * 16" and r: "r < 16" by (simp_all add: q_def r_def)
    have "(r + 1 + q * 16) div 16 = q + (r + 1) div 16" "(r + 1 + q * 16) mod 16 = (r + 1) mod 16"
      by (simp_all del: add_Suc add_Suc_right)
    moreover have "(r + 1) div 16 = (if r = 15 then 1 else 0)" "(r + 1) mod 16 = (if r = 15 then 0 else r + 1)"
      using r by auto
    moreover have "n + 1 = r + 1 + q * 16" using n by simp
    ultimately show ?thesis unfolding q_def [symmetric] by (simp only:) auto
  qed
  then show ?thesis using assms by (simp only: cbc_padded_def encryptBufferLen_def BLOCK_SIZE_def)
qed

theorem encrypt_fits_witness:
  "length (pad_only_enc (cr_key (ksnCryptInit [] [])) (cr_iv (ksnCryptInit [] [])) [1, 2, 3]) = encryptBufferLen (length [1::u8, 2, 3])"
  using encrypt_fits [OF pad_only, of "ksnCryptInit [] []" "[1, 2, 3]"] by blast

lemma decrypt_encrypt:
  assumes "cbc_padded aes_enc aes_dec" and "0 < length package" and "length package < 65536"
  shows "ksnCheckEncrypted (ksnEncryptPackage aes_enc kcr package)"
    and "ksnDecryptPackage aes_dec kcr (ksnEncryptPackage aes_enc kcr package) = package"
proof -
  let ?e = "aes_enc (cr_key kcr) (cr_iv kcr) package"
  have len: "length ?e = (length package div 16 + 1) * 16" and inv: "aes_dec (cr_key kcr) (cr_iv kcr) ?e = package"
    using assms(1) by (simp_all add: cbc_padded_def BLOCK_SIZE_def)
  have u: "unat (of_nat (length package) :: u16) = length package"
    by (simp only: unat_of_nat) (use assms(3) in simp)
  have "length package < 2 + (length package div 16 + 1) * 16" by presburger
  then show "ksnCheckEncrypted (ksnEncryptPackage aes_enc kcr package)"
    "ksnDecryptPackage aes_dec kcr (ksnEncryptPackage aes_enc kcr package) = package"
    using assms(2) len inv u
    by (simp_all add: ksnEncryptPackage_def ksnCheckEncrypted_def ksnDecryptPackage_def dec_enc_u16 BLOCK_SIZE_def)
qed

text \<open>
  C19: an encrypted packet of 1 to 65535 bytes is recognised as encrypted by the receiver and
  decrypts to itself.
\<close>

theorem encrypt_roundtrip:
  assumes "cbc_padded aes_enc aes_dec" and "0 < length package" and "length package < 65536"
  shows "ksnCheckEncrypted (ksnEncryptPackage aes_enc kcr package) \<and>
    ksnDecryptPackage aes_dec kcr (ksnEncryptPackage aes_enc kcr package) = package"
  using decrypt_encrypt [OF assms] by simp

theorem encrypt_roundtrip_witness:
  "ksnDecryptPackage pad_only_dec (ksnCryptInit [] []) (ksnEncryptPackage pad_only_enc (ksnCryptInit [] []) [7]) = [7]"
  using encrypt_roundtrip [OF pad_only, of "[7]" "ksnCryptInit [] []"] by simp

text \<open>
  A packet of 65536 bytes is not recognised: its 16-bit length field is 0, and the receiver
  takes the ciphertext for a plain packet.
\<close>

theorem encrypt_64k_unrecognised:
  "length package = 65536 \<Longrightarrow> \<not> ksnCheckEncrypted (ksnEncryptPackage aes_enc kcr package)"
  by (simp add: ksnEncryptPackage_def ksnCheckEncrypted_def dec_enc_u16)

theorem encrypt_64k_unrecognised_witness:
  "\<not> ksnCheckEncrypted (ksnEncryptPackage pad_only_enc (ksnCryptInit [] []) (replicate 65536 1))"
  by (rule encrypt_64k_unrecognised) simp

end
