(* ===== verification/EvMgr.thy ===== *)
theory EvMgr
  imports NetSplit CQue Crypt
begin

text \<open>
  The state of a node (ksnetEvMgrClass of ev_mgr.h with the classes it points to), its environment
  and the host information. Every component of the network core works on this state; the
  components' own parts are the fields below. The environment holds what comes from code outside
  the repository: layouts of structures declared in the teocli submodule, OpenSSL, the JSON
  tokeniser, TR-UDP statistics, and build or machine constants.
\<close>

section \<open>Component states\<close>

text \<open>ARP table record (ksnet_arp_data_ext); \<open>arp_type\<close> is None for a NULL pointer.\<close>

record ksnet_arp_data_ext =
  arp_addr :: bytes
  arp_port :: int
  arp_mode :: int
  arp_connected_time :: real
  arp_last_activity :: real
  arp_last_triptime_send :: real
  arp_last_triptime_got :: real
  arp_last_triptime :: real
  arp_triptime :: real
  arp_monitor_time :: real
  arp_type :: "bytes option"
  arp_cque_id_peer_type :: u32

definition arp_zero :: ksnet_arp_data_ext where
  "arp_zero = \<lparr>arp_addr = [], arp_port = 0, arp_mode = 0, arp_connected_time = 0, arp_last_activity = 0,
     arp_last_triptime_send = 0, arp_last_triptime_got = 0, arp_last_triptime = 0, arp_triptime = 0,
     arp_monitor_time = 0, arp_type = None, arp_cque_id_peer_type = 0\<rparr>"

text \<open>Stream record (ksnStreamMapData); \<open>st_cq\<close> is the identifier of the queue record \<open>cq\<close> points to.\<close>

record ksnStreamMapData =
  st_created :: bool
  st_pipe_in :: "int \<times> int"
  st_pipe_out :: "int \<times> int"
  st_key :: bytes
  st_cq :: "u32 option"

text \<open>Subscriber (teoSScrListData).\<close>

record teoSScrListData =
  sl_ev :: u16
  sl_cmd :: u8
  sl_l0_f :: bool
  sl_port :: u16
  sl_addr :: bytes
  sl_data :: bytes

text \<open>Pending reconnect (reconnect_map_data).\<close>

record reconnect_map_data =
  rm_cq :: "u32 option"
  rm_peer :: "bytes option"

text \<open>
  L0 client (ksnLNullData) and L0 server (ksnLNullClass). The queue of the server is None while the
  pointer to it has not been written.
\<close>

datatype l0Crypt =
    NoCrypt
  | CryptContext bytes

record ksnLNullData =
  l0_name :: "bytes option"
  l0_read_buffer :: bytes
  l0_t_addr :: "bytes option"
  l0_t_port :: int
  l0_last_time :: real
  l0_crypt :: l0Crypt

record ksnLNullClass =
  l0_map :: "ksnLNullData PblMap"
  l0_map_n :: "int PblMap"
  l0_fd :: int
  l0_fd_trudp :: int
  l0_clients :: int
  l0_visits :: int
  l0_packets_to_peer :: int
  l0_packets_from_peer :: int
  l0_packets_to_client :: int
  l0_packets_from_client :: int
  l0_cque :: "ksnCQueClass option"

text \<open>
  VPN (ksnVpnClass): whether the interface is up, its descriptor, and the peers' names by hardware
  address. Tunnels (ksnTunClass): the servers of this host under their descriptors, and the peer and
  its descriptor under the descriptor of a connection.
\<close>

record ksnVpnClass =
  ksnet_vpn_started :: bool
  ksnet_vpn_map :: "bytes PblMap"
  tuntap_fd :: int

record ksn_tun_accept_data =
  tun_d_port :: u16
  tun_d_to :: bytes
  tun_d_to_port :: u16
  tun_d_to_ip :: "bytes option"

record ksnTunClass =
  tun_list :: "ksn_tun_accept_data PblMap"
  tun_map :: "(bytes \<times> u16) PblMap"

text \<open>
  What the L0 server keeps in a TR-UDP channel (trudpChannelData): the client's number, the bytes
  read so far and the length of the packet delivered last.
\<close>

record trudpChannel =
  tcd_fd :: int
  tcd_read_buffer :: bytes
  tcd_last_packet_ptr :: nat

section \<open>Environment and node\<close>

text \<open>Host information (host_info_data): version digits, number of strings, the string array.\<close>

record host_info_data =
  hid_ver :: "u8 list"
  hid_string_ar_num :: u8
  hid_string_ar :: bytes

text \<open>
  The packets of the teocli library: the size of the header, its fields (read from a header), the
  byte checksum, taking a packet out of a buffer, decryption (None when it fails), and the key
  exchange: the payload of a key exchange, creating a context, checking and applying a client's keys,
  the two states of a context, and the answer.
\<close>

record teocliLib =
  cp_header_size :: nat
  cp_cmd :: "bytes \<Rightarrow> u8"
  cp_name_length :: "bytes \<Rightarrow> nat"
  cp_data_length :: "bytes \<Rightarrow> nat"
  cp_checksum :: "bytes \<Rightarrow> u8"
  cp_header_checksum :: "bytes \<Rightarrow> u8"
  byte_checksum :: "bytes \<Rightarrow> u8"
  cp_from_buffer :: "bytes \<Rightarrow> bytes option"
  cp_decrypt :: "l0Crypt \<Rightarrow> bytes \<Rightarrow> bytes option"
  kex_payload :: "bytes \<Rightarrow> bytes option"
  kex_context :: "bytes \<Rightarrow> l0Crypt option"
  kex_validate :: "l0Crypt \<Rightarrow> bytes \<Rightarrow> bool"
  kex_apply :: "l0Crypt \<Rightarrow> bytes \<Rightarrow> l0Crypt option"
  crypt_pending :: "l0Crypt \<Rightarrow> l0Crypt"
  crypt_established :: "l0Crypt \<Rightarrow> l0Crypt"
  kex_create :: "l0Crypt \<Rightarrow> bytes option"

text \<open>
  A token of the JSON tokeniser jsmn, of which the code uses the type and the two ends, and a tokeniser
  for one object of strings, with which the examples run: None when there are more tokens than the
  array has room for.
\<close>

datatype jsmntype_t = JSMN_UNDEFINED | JSMN_OBJECT | JSMN_ARRAY | JSMN_STRING | JSMN_PRIMITIVE

record jsmntok_t =
  tok_type :: jsmntype_t
  tok_start :: int
  tok_end :: int

fun jsmn_quoted :: "int \<Rightarrow> int option \<Rightarrow> bytes \<Rightarrow> jsmntok_t list" where
  "jsmn_quoted i opened [] = []"
| "jsmn_quoted i opened (c # cs) =
     (if c \<noteq> 34 then jsmn_quoted (i + 1) opened cs
      else case opened of
             None \<Rightarrow> jsmn_quoted (i + 1) (Some (i + 1)) cs
           | Some s \<Rightarrow> \<lparr>tok_type = JSMN_STRING, tok_start = s, tok_end = i\<rparr> # jsmn_quoted (i + 1) None cs)"

definition jsmn_strings :: "bytes \<Rightarrow> nat \<Rightarrow> jsmntok_t list option" where
  "jsmn_strings json n =
     (if json = [] \<or> hd json \<noteq> 123 then None
      else let tokens = \<lparr>tok_type = JSMN_OBJECT, tok_start = 0, tok_end = int (length json)\<rparr> # jsmn_quoted 0 None json
           in if n < length tokens then None else Some tokens)"

record teoEnv =
  ARP_TABLE_IP_SIZE :: nat
  MAX_FD_NUMBER :: int
  env_version :: "u8 list"
  host_info_enc :: "host_info_data \<Rightarrow> bytes"
  host_info_dec :: "bytes \<Rightarrow> host_info_data"
  arp_table_bytes :: "bool \<Rightarrow> (bytes \<times> ksnet_arp_data_ext) list \<Rightarrow> bytes"
  l0_packet_create :: "u8 \<Rightarrow> bytes \<Rightarrow> bytes \<Rightarrow> bytes"
  l0_packet_cmd :: "bytes \<Rightarrow> u8"
  l0_packet_seal :: "l0Crypt \<Rightarrow> bool \<Rightarrow> bytes \<Rightarrow> bytes"
  l0_clients_bytes :: "bytes list \<Rightarrow> bytes"
  l0_stat_bytes :: "ksnLNullClass \<Rightarrow> bytes"
  l0_info_bytes :: "bytes \<Rightarrow> int \<Rightarrow> bytes"
  trudp_stat_bytes :: "bool \<Rightarrow> bytes"
  sscr_data_bytes :: "u16 \<Rightarrow> u8 \<Rightarrow> bytes \<Rightarrow> bytes"
  jsmn :: "bytes \<Rightarrow> nat \<Rightarrow> jsmntok_t list option"
  md5_hex :: "bytes \<Rightarrow> bytes"
  double_enc :: "real \<Rightarrow> bytes"
  double_dec :: "bytes \<Rightarrow> real"
  aes_enc :: cipher
  aes_dec :: cipher
  env_ips :: "bytes list"
  dns_lookup :: "bytes \<Rightarrow> bytes option"
  teocli :: teocliLib

text \<open>
  The node. \<open>ke_time\<close> is the event loop's time, \<open>ke_run\<close> the run flag, \<open>ke_event_cb\<close> whether the
  application has an event callback, \<open>ke_km\<close> whether the multi-network module runs,
  \<open>ke_channels\<close> the open TR-UDP channels by address and port,
  \<open>ke_tp\<close> the client descriptor of the TCP proxy module if there is one. \<open>ke_async_queue\<close> are the
  pending asynchronous events with their user data, \<open>ke_async_idle\<close> whether their idle watcher is active. \<open>ke_conns\<close>, \<open>ke_pipes\<close> and \<open>ke_rands\<close> are the results
  of the coming calls that connect to a TCP server, of \<open>pipe\<close> and of \<open>rand\<close>; \<open>ke_out\<close> is the list of effects so far.
\<close>

record ksnetEvMgr =
  ke_env :: teoEnv
  ke_time :: real
  ke_run :: bool
  ke_event_cb :: bool
  ke_is_rhost :: bool
  ke_km :: bool
  cfg_host_name :: bytes
  cfg_r_host_name :: bytes
  cfg_r_host_addr_opt :: bytes
  cfg_r_host_addr :: bytes
  cfg_r_port :: int
  cfg_r_tcp_f :: bool
  cfg_crypt_f :: bool
  cfg_l0_allow_f :: bool
  cfg_l0_tcp_ip_remote :: bytes
  cfg_l0_tcp_port :: int
  cfg_l0_public_ipv4 :: bytes
  cfg_l0_public_ipv6 :: bytes
  cfg_auth_secret :: bytes
  cfg_vpn_connect_f :: bool
  cfg_send_ack_event_f :: bool
  ke_app_type :: "bytes option"
  ke_app_version :: "bytes option"
  kc_name :: bytes
  kc_port :: int
  kc_last_check_event :: real
  kcr :: ksnCryptClass
  ka :: "ksnet_arp_data_ext PblMap"
  kq :: ksnCQueClass
  kco_ks :: ksnSplitClass
  kr_map :: "reconnect_map_data PblMap"
  ks_map :: "ksnStreamMapData PblMap"
  ksscr_map :: "teoSScrListData list PblMap"
  kl :: "ksnLNullClass option"
  kvpn :: "ksnVpnClass option"
  ktun :: ksnTunClass
  ke_channels :: "bytes \<Rightarrow> int \<Rightarrow> trudpChannel option"
  ke_tp :: "int option"
  ke_idle_count :: u32
  ke_idle_activity_count :: u32
  ke_timer_val :: u32
  ke_last_custom_timer :: real
  ke_custom_timer_interval :: real
  ke_async_queue :: "(nat \<times> bytes) list"
  ke_async_idle :: bool
  ke_conns :: "int list"
  ke_pipes :: "(int \<times> int) option list"
  ke_rands :: "nat list"
  ke_out :: "action list"

definition emit :: "action list \<Rightarrow> ksnetEvMgr \<Rightarrow> ksnetEvMgr" where
  "emit acts ke = ke\<lparr>ke_out := ke_out ke @ acts\<rparr>"

definition ksnetEvMgrGetTime :: "ksnetEvMgr \<Rightarrow> real" where
  "ksnetEvMgrGetTime ke = (if ke_run ke then ke_time ke else 0)"

text \<open>Destroying a TR-UDP channel, and all of them.\<close>

definition channel_destroy :: "bytes \<Rightarrow> int \<Rightarrow> ksnetEvMgr \<Rightarrow> ksnetEvMgr" where
  "channel_destroy addr port ke =
     emit [TrudpChannelDestroyAddr addr port]
       (ke\<lparr>ke_channels := (\<lambda>a p. if a = addr \<and> p = port then None else ke_channels ke a p)\<rparr>)"

definition channel_destroy_all :: "ksnetEvMgr \<Rightarrow> ksnetEvMgr" where
  "channel_destroy_all ke = emit [TrudpChannelDestroyAll] (ke\<lparr>ke_channels := (\<lambda>a p. None)\<rparr>)"

text \<open>A call of the application's event callback, if there is one.\<close>

definition event_cb :: "u16 \<Rightarrow> eventData \<Rightarrow> ksnetEvMgr \<Rightarrow> ksnetEvMgr" where
  "event_cb ev data ke = (if ke_event_cb ke then emit [EventCb ev data] ke else ke)"

definition ascii :: "string \<Rightarrow> bytes" where
  "ascii s = map (\<lambda>c. of_nat (of_char c)) s"

section \<open>Host information\<close>

definition teoGetHostInfo :: "ksnetEvMgr \<Rightarrow> host_info_data" where
  "teoGetHostInfo ke =
     (let app_type = (case ke_app_type ke of None \<Rightarrow> ascii ''teo-default'' | Some t \<Rightarrow> t);
          app_version = (case ke_app_version ke of None \<Rightarrow> [] | Some v \<Rightarrow> v);
          services = (if cfg_l0_allow_f ke then [ascii ''teo-l0''] else []) @
                     (if cfg_vpn_connect_f ke then [ascii ''teo-vpn''] else [])
      in \<lparr>hid_ver = env_version (ke_env ke),
          hid_string_ar_num = 2 + of_nat (length services),
          hid_string_ar = strz (cfg_host_name ke) @ strz app_type @ concat (map strz services) @ strz app_version\<rparr>)"

text \<open>The types in a host information record: strings 1 to \<open>string_ar_num - 1\<close> in quotation marks.\<close>

fun typeLoop :: "nat \<Rightarrow> bool \<Rightarrow> bytes \<Rightarrow> bytes \<Rightarrow> bytes" where
  "typeLoop 0 first rest type_str = type_str"
| "typeLoop (Suc n) first rest type_str =
     (let s = cstr rest
      in typeLoop n False (drop (length s + 1) rest)
           (type_str @ (if first then [] else ascii '', '') @ ascii [CHR 0x22] @ s @ ascii [CHR 0x22]))"

definition teoGetFullAppTypeFromHostInfo :: "host_info_data \<Rightarrow> bytes" where
  "teoGetFullAppTypeFromHostInfo hid =
     typeLoop (unat (hid_string_ar_num hid) - 1) True
       (drop (length (cstr (hid_string_ar hid)) + 1) (hid_string_ar hid)) []"

section \<open>The callback queue in the node\<close>

definition upd_kq :: "(ksnCQueClass \<Rightarrow> ksnCQueClass) \<Rightarrow> ksnetEvMgr \<Rightarrow> ksnetEvMgr" where
  "upd_kq f ke = ke\<lparr>kq := f (kq ke)\<rparr>"

interpretation kq_host: cque_host kq upd_kq emit
  by unfold_locales (simp_all add: upd_kq_def emit_def)

definition ke_CQueAdd :: "cqueFn option \<Rightarrow> real \<Rightarrow> cqueData \<Rightarrow> ksnetEvMgr \<Rightarrow> ksnCQueData option \<times> ksnetEvMgr" where
  "ke_CQueAdd cb timeout data ke =
     (case ksnCQueAdd (kq ke) cb timeout data of (cq, q, acts) \<Rightarrow> (cq, emit acts (ke\<lparr>kq := q\<rparr>)))"

lemma emit_simps [simp]:
  "ka (emit acts ke) = ka ke" "kq (emit acts ke) = kq ke" "kco_ks (emit acts ke) = kco_ks ke"
  "kr_map (emit acts ke) = kr_map ke" "ks_map (emit acts ke) = ks_map ke"
  "ksscr_map (emit acts ke) = ksscr_map ke" "kl (emit acts ke) = kl ke"
  "ke_env (emit acts ke) = ke_env ke" "ke_time (emit acts ke) = ke_time ke" "ke_run (emit acts ke) = ke_run ke"
  "ke_event_cb (emit acts ke) = ke_event_cb ke" "ke_out (emit acts ke) = ke_out ke @ acts"
  "cfg_r_host_name (emit acts ke) = cfg_r_host_name ke" "cfg_host_name (emit acts ke) = cfg_host_name ke"
  "kc_name (emit acts ke) = kc_name ke" "kcr (emit acts ke) = kcr ke" "cfg_crypt_f (emit acts ke) = cfg_crypt_f ke"
  "cfg_l0_allow_f (emit acts ke) = cfg_l0_allow_f ke" "ke_pipes (emit acts ke) = ke_pipes ke"
  "ke_rands (emit acts ke) = ke_rands ke" "ke_km (emit acts ke) = ke_km ke" "ke_is_rhost (emit acts ke) = ke_is_rhost ke"
  "kc_port (emit acts ke) = kc_port ke" "kvpn (emit acts ke) = kvpn ke" "ktun (emit acts ke) = ktun ke"
  "ke_conns (emit acts ke) = ke_conns ke"
  by (simp_all add: emit_def)

lemma channel_destroy_simps [simp]:
  "ka (channel_destroy addr port ke) = ka ke" "kq (channel_destroy addr port ke) = kq ke" "kco_ks (channel_destroy addr port ke) = kco_ks ke"
  "kr_map (channel_destroy addr port ke) = kr_map ke" "ks_map (channel_destroy addr port ke) = ks_map ke"
  "ksscr_map (channel_destroy addr port ke) = ksscr_map ke" "kl (channel_destroy addr port ke) = kl ke"
  "ke_env (channel_destroy addr port ke) = ke_env ke" "ke_time (channel_destroy addr port ke) = ke_time ke" "ke_run (channel_destroy addr port ke) = ke_run ke"
  "ke_event_cb (channel_destroy addr port ke) = ke_event_cb ke" "ke_out (channel_destroy addr port ke) = ke_out ke @ [TrudpChannelDestroyAddr addr port]"
  "cfg_r_host_name (channel_destroy addr port ke) = cfg_r_host_name ke" "cfg_host_name (channel_destroy addr port ke) = cfg_host_name ke"
  "kc_name (channel_destroy addr port ke) = kc_name ke" "kcr (channel_destroy addr port ke) = kcr ke" "cfg_crypt_f (channel_destroy addr port ke) = cfg_crypt_f ke"
  "cfg_l0_allow_f (channel_destroy addr port ke) = cfg_l0_allow_f ke" "ke_pipes (channel_destroy addr port ke) = ke_pipes ke"
  "ke_rands (channel_destroy addr port ke) = ke_rands ke" "ke_km (channel_destroy addr port ke) = ke_km ke" "ke_is_rhost (channel_destroy addr port ke) = ke_is_rhost ke"
  "kc_port (channel_destroy addr port ke) = kc_port ke" "kvpn (channel_destroy addr port ke) = kvpn ke" "ktun (channel_destroy addr port ke) = ktun ke"
  "ke_conns (channel_destroy addr port ke) = ke_conns ke"
  by (simp_all add: channel_destroy_def)

lemma emit_nil [simp]: "emit [] ke = ke"
  by (simp add: emit_def)

lemma emit_emit [simp]: "emit bs (emit as ke) = emit (as @ bs) ke"
  by (simp add: emit_def)

text \<open>The type string as a specification: the types in quotation marks, separated by commas.\<close>

fun typeString :: "bool \<Rightarrow> bytes list \<Rightarrow> bytes" where
  "typeString first [] = []"
| "typeString first (s # ss) =
     (if first then [] else ascii '', '') @ ascii [CHR 0x22] @ s @ ascii [CHR 0x22] @ typeString False ss"

lemma typeLoop_strings:
  assumes "\<forall>s \<in> set ss. 0 \<notin> set s"
  shows "typeLoop (length ss) first (concat (map strz ss) @ rest) acc = acc @ typeString first ss"
  using assms
proof (induction ss arbitrary: first acc)
  case (Cons s ss)
  have c: "cstr (strz s @ x) = s" for x using Cons.prems by (simp add: cstr_strz_append)
  have "drop (length s + 1) (strz s @ x) = x" for x by (simp add: strz_def)
  then show ?case using Cons by (simp add: Let_def c)
qed simp

definition nodeTypes :: "ksnetEvMgr \<Rightarrow> bytes list" where
  "nodeTypes ke = (case ke_app_type ke of None \<Rightarrow> ascii ''teo-default'' | Some t \<Rightarrow> t) #
     (if cfg_l0_allow_f ke then [ascii ''teo-l0''] else []) @
     (if cfg_vpn_connect_f ke then [ascii ''teo-vpn''] else [])"

text \<open>
  The type string that other peers compute from a host's information is exactly the host's
  application type followed by its services (L0 server, VPN), in quotation marks and in order.
\<close>

theorem host_info_type:
  assumes "0 \<notin> set (cfg_host_name ke)" and "\<forall>t. ke_app_type ke = Some t \<longrightarrow> 0 \<notin> set t"
  shows "teoGetFullAppTypeFromHostInfo (teoGetHostInfo ke) = typeString True (nodeTypes ke)"
proof -
  have z: "0 \<notin> set (ascii ''teo-default'')" "0 \<notin> set (ascii ''teo-l0'')" "0 \<notin> set (ascii ''teo-vpn'')"
    by (simp_all add: ascii_def)
  then have nz: "\<forall>s \<in> set (nodeTypes ke). 0 \<notin> set s"
    using assms(2) by (auto simp: nodeTypes_def split: option.splits)
  obtain v where v: "hid_string_ar (teoGetHostInfo ke) =
      strz (cfg_host_name ke) @ concat (map strz (nodeTypes ke)) @ strz v"
    by (auto simp: teoGetHostInfo_def nodeTypes_def Let_def)
  have n: "unat (hid_string_ar_num (teoGetHostInfo ke)) - 1 = length (nodeTypes ke)"
    by (simp add: teoGetHostInfo_def nodeTypes_def Let_def)
  have d: "drop (length (cfg_host_name ke) + 1) (strz (cfg_host_name ke) @ x) = x" for x
    by (simp add: strz_def)
  show ?thesis
    unfolding teoGetFullAppTypeFromHostInfo_def n v cstr_strz_append [OF assms(1)] d typeLoop_strings [OF nz] by simp
qed

section \<open>A concrete node\<close>

text \<open>A small environment and a node just started in it, used where a concrete input is needed.\<close>

definition exampleTeocli :: teocliLib where
  "exampleTeocli = \<lparr>cp_header_size = 8, cp_cmd = (\<lambda>p. byte_at p 0), cp_name_length = (\<lambda>p. unat (byte_at p 1)),
     cp_data_length = (\<lambda>p. unat (dec_u16 (drop 2 p))), cp_checksum = (\<lambda>p. byte_at p 6),
     cp_header_checksum = (\<lambda>p. byte_at p 7), byte_checksum = (\<lambda>b. foldl (+) 0 b),
     cp_from_buffer = (\<lambda>b. if 8 \<le> length b \<and> 8 + unat (byte_at b 1) + unat (dec_u16 (drop 2 b)) = length b then Some b else None),
     cp_decrypt = (\<lambda>c p. Some p), kex_payload = (\<lambda>d. None), kex_context = (\<lambda>k. None),
     kex_validate = (\<lambda>c k. False), kex_apply = (\<lambda>c k. None), crypt_pending = (\<lambda>c. c), crypt_established = (\<lambda>c. c),
     kex_create = (\<lambda>c. None)\<rparr>"

definition exampleEnv :: teoEnv where
  "exampleEnv = \<lparr>ARP_TABLE_IP_SIZE = 48, MAX_FD_NUMBER = 1024, env_version = [0, 4, 1],
     host_info_enc = (\<lambda>h. hid_ver h @ hid_string_ar_num h # hid_string_ar h),
     host_info_dec = (\<lambda>b. \<lparr>hid_ver = take 3 b, hid_string_ar_num = byte_at b 3, hid_string_ar = drop 4 b\<rparr>),
     arp_table_bytes = (\<lambda>json rows. concat (map (strz \<circ> fst) rows)),
     l0_packet_create = (\<lambda>cmd name data. cmd # of_nat (length name + 1) # enc_u16 (of_nat (length data)) @ strz name @ data),
     l0_packet_cmd = (\<lambda>p. byte_at p 0), l0_packet_seal = (\<lambda>c e p. p),
     l0_clients_bytes = (\<lambda>names. concat (map strz names)), l0_stat_bytes = (\<lambda>kl. []),
     l0_info_bytes = (\<lambda>ip port. strz ip), trudp_stat_bytes = (\<lambda>json. []),
     sscr_data_bytes = (\<lambda>ev cmd data. enc_u16 ev @ [cmd] @ data), jsmn = jsmn_strings,
     md5_hex = (\<lambda>d. replicate 32 48),
     double_enc = (\<lambda>d. replicate 8 0), double_dec = (\<lambda>b. 0),
     aes_enc = pad_only_enc, aes_dec = pad_only_dec, env_ips = [], dns_lookup = (\<lambda>a. Some a), teocli = exampleTeocli\<rparr>"

definition exampleNode :: "bytes \<Rightarrow> ksnetEvMgr" where
  "exampleNode name = \<lparr>ke_env = exampleEnv, ke_time = 100, ke_run = True, ke_event_cb = True, ke_is_rhost = False,
     ke_km = False, cfg_host_name = name, cfg_r_host_name = [], cfg_r_host_addr_opt = [], cfg_r_host_addr = [], cfg_r_port = 9000,
     cfg_r_tcp_f = False, cfg_crypt_f = True, cfg_l0_allow_f = False, cfg_l0_tcp_ip_remote = [],
     cfg_l0_tcp_port = 9000, cfg_l0_public_ipv4 = [], cfg_l0_public_ipv6 = [], cfg_auth_secret = [],
     cfg_vpn_connect_f = False, cfg_send_ack_event_f = False, ke_app_type = None, ke_app_version = None, kc_name = name, kc_port = 9010,
     kc_last_check_event = 0, kcr = ksnCryptInit [] [], ka = pblMapNewHashMap, kq = ksnCQueInit True,
     kco_ks = ksnSplitInit, kr_map = pblMapNewHashMap, ks_map = pblMapNewHashMap, ksscr_map = pblMapNewHashMap,
     kl = None, kvpn = None, ktun = \<lparr>tun_list = pblMapNewHashMap, tun_map = pblMapNewHashMap\<rparr>,
     ke_channels = (\<lambda>addr port. None), ke_tp = None, ke_idle_count = 0, ke_idle_activity_count = 0, ke_timer_val = 0, ke_last_custom_timer = 0,
     ke_custom_timer_interval = 0, ke_async_queue = [], ke_async_idle = False, ke_conns = [], ke_pipes = [], ke_rands = [], ke_out = []\<rparr>"

lemma example_room [simp]: "pblMapRoom (pblMapNewHashMap :: 'a PblMap) k"
  by (simp add: pblMapRoom_def map_simps pblMaxElements_def)

theorem host_info_type_witness:
  "teoGetFullAppTypeFromHostInfo (teoGetHostInfo (exampleNode [97])) = typeString True (nodeTypes (exampleNode [97]))"
  by (rule host_info_type) (simp_all add: exampleNode_def)

end
