(* ===== verification/ArpTable.thy ===== *)
theory ArpTable
  imports EvMgr
begin

text \<open>
  The ARP table of a node (net_arp.c): the peers by name with their address, port, mode and
  times. Removing peers also closes their streams and is in Connect. A pointer to a record is the
  record's key; a store through it is \<open>arp_store\<close>. Traversals call a function for every record, as
  the iterator of the map returns them; the functions the code passes do not change the table.
\<close>

section \<open>Operations\<close>

definition ksnetArpGet :: "ksnetEvMgr \<Rightarrow> bytes \<Rightarrow> ksnet_arp_data_ext option" where
  "ksnetArpGet ke name = pblMapGet (ka ke) (strz name)"

definition ksnetArpSize :: "ksnetEvMgr \<Rightarrow> nat" where
  "ksnetArpSize ke = pblMapSize (ka ke)"

definition ksnetArpAdd :: "bytes \<Rightarrow> ksnet_arp_data_ext \<Rightarrow> ksnetEvMgr \<Rightarrow> ksnetEvMgr" where
  "ksnetArpAdd name data ke = ke\<lparr>ka := snd (pblMapAdd (ka ke) (strz name) data)\<rparr>"

definition arp_store :: "bytes \<Rightarrow> (ksnet_arp_data_ext \<Rightarrow> ksnet_arp_data_ext) \<Rightarrow> ksnetEvMgr \<Rightarrow> ksnetEvMgr" where
  "arp_store name f ke = ke\<lparr>ka := pblMapStore (ka ke) (strz name) f\<rparr>"

definition localhost :: bytes where
  "localhost = ascii ''::1''"

definition ksnetArpAddHost :: "ksnetEvMgr \<Rightarrow> ksnetEvMgr" where
  "ksnetArpAddHost ke =
     ksnetArpAdd (cfg_host_name ke)
       (arp_zero\<lparr>arp_connected_time := ke_time ke,
                 arp_addr := take (ARP_TABLE_IP_SIZE (ke_env ke)) localhost,
                 arp_port := kc_port ke, arp_mode := -1,
                 arp_type := Some (teoGetFullAppTypeFromHostInfo (teoGetHostInfo ke))\<rparr>) ke"

definition ksnetArpSetHostPort :: "bytes \<Rightarrow> int \<Rightarrow> ksnetEvMgr \<Rightarrow> bool \<times> ksnetEvMgr" where
  "ksnetArpSetHostPort name port ke =
     (case ksnetArpGet ke name of
        None \<Rightarrow> (False, ke)
      | Some _ \<Rightarrow> (True, arp_store name (\<lambda>a. a\<lparr>arp_port := port\<rparr>) ke))"

text \<open>The traversal stops when the callback returns true. With \<open>flag\<close> this host is included.\<close>

fun arp_iterate ::
  "(bytes \<Rightarrow> ksnet_arp_data_ext \<Rightarrow> 's \<Rightarrow> bool \<times> 's) \<Rightarrow> bool \<Rightarrow> (bytes \<times> ksnet_arp_data_ext) list \<Rightarrow> 's \<Rightarrow> bool \<times> 's" where
  "arp_iterate cb flag [] s = (False, s)"
| "arp_iterate cb flag ((key, arp) # entries) s =
     (if flag \<or> arp_mode arp \<ge> 0
      then case cb (cstr key) arp s of
             (True, s') \<Rightarrow> (True, s')
           | (False, s') \<Rightarrow> arp_iterate cb flag entries s'
      else arp_iterate cb flag entries s)"

definition ksnetArpGetAllFlag ::
  "ksnetEvMgr \<Rightarrow> (bytes \<Rightarrow> ksnet_arp_data_ext \<Rightarrow> 's \<Rightarrow> bool \<times> 's) \<Rightarrow> 's \<Rightarrow> bool \<Rightarrow> bool \<times> 's" where
  "ksnetArpGetAllFlag ke cb data flag = arp_iterate cb flag (pblMapEntries (ka ke)) data"

definition ksnetArpGetAll ::
  "ksnetEvMgr \<Rightarrow> (bytes \<Rightarrow> ksnet_arp_data_ext \<Rightarrow> 's \<Rightarrow> bool \<times> 's) \<Rightarrow> 's \<Rightarrow> bool \<times> 's" where
  "ksnetArpGetAll ke cb data = ksnetArpGetAllFlag ke cb data False"

definition ksnetArpGetAllH ::
  "ksnetEvMgr \<Rightarrow> (bytes \<Rightarrow> ksnet_arp_data_ext \<Rightarrow> 's \<Rightarrow> bool \<times> 's) \<Rightarrow> 's \<Rightarrow> bool \<times> 's" where
  "ksnetArpGetAllH ke cb data = ksnetArpGetAllFlag ke cb data True"

text \<open>\<open>addr_port_equal\<close> compares the port as a 16-bit number.\<close>

definition addr_port_equal :: "bytes \<Rightarrow> int \<Rightarrow> bytes \<Rightarrow> int \<Rightarrow> bool" where
  "addr_port_equal ap_addr ap_port addr port \<longleftrightarrow> ap_port = uint (of_int port :: u16) \<and> ap_addr = addr"

definition find_arp_by_addr_cb ::
  "bytes \<Rightarrow> int \<Rightarrow> bytes \<Rightarrow> ksnet_arp_data_ext \<Rightarrow> (bytes \<times> ksnet_arp_data_ext) option \<Rightarrow>
   bool \<times> (bytes \<times> ksnet_arp_data_ext) option" where
  "find_arp_by_addr_cb addr port peer_name arp fa =
     (if addr_port_equal addr port (arp_addr arp) (arp_port arp) then (True, Some (peer_name, arp)) else (False, fa))"

definition ksnetArpFindByAddr :: "ksnetEvMgr \<Rightarrow> bytes \<Rightarrow> int \<Rightarrow> (bytes \<times> ksnet_arp_data_ext) option" where
  "ksnetArpFindByAddr ke addr port =
     (case ksnetArpGetAllH ke (find_arp_by_addr_cb addr port) None of
        (True, fa) \<Rightarrow> fa
      | (False, _) \<Rightarrow> None)"

text \<open>The table as sent to peers and clients: rows of name and data, times relative to now in the
  short form, types in the extended one.\<close>

definition ksnetArpShowData :: "ksnetEvMgr \<Rightarrow> (bytes \<times> ksnet_arp_data_ext) list" where
  "ksnetArpShowData ke =
     map (\<lambda>(key, arp). (cstr key, arp\<lparr>arp_connected_time := ksnetEvMgrGetTime ke - arp_connected_time arp\<rparr>))
       (pblMapEntries (ka ke))"

definition teoArpGetExtendedArpTable :: "ksnetEvMgr \<Rightarrow> (bytes \<times> ksnet_arp_data_ext) list" where
  "teoArpGetExtendedArpTable ke =
     map (\<lambda>(key, arp). (cstr key, arp\<lparr>arp_type := Some (case arp_type arp of None \<Rightarrow> [] | Some t \<Rightarrow> t)\<rparr>))
       (pblMapEntries (ka ke))"

definition ksnetArpMetrics :: "ksnetEvMgr \<Rightarrow> (bytes \<times> real) list" where
  "ksnetArpMetrics ke =
     map (\<lambda>(name, arp). (ascii ''PT.'' @ name, arp_last_triptime arp))
       (filter (\<lambda>(name, arp). arp_mode arp \<noteq> -1) (ksnetArpShowData ke))"

section \<open>Invariant: every key is the name of a C string\<close>

definition arp_wf :: "ksnetEvMgr \<Rightarrow> bool" where
  "arp_wf ke \<longleftrightarrow> (\<forall>key arp. pblMapGet (ka ke) key = Some arp \<longrightarrow> (\<exists>name. key = strz name \<and> 0 \<notin> set name))"

lemma arp_wf_key: "arp_wf ke \<Longrightarrow> pblMapGet (ka ke) key = Some arp \<Longrightarrow> key = strz (cstr key) \<and> ksnetArpGet ke (cstr key) = Some arp"
  by (auto simp: arp_wf_def ksnetArpGet_def cstr_strz)

lemma arp_wf_emit [simp]: "arp_wf (emit acts ke) \<longleftrightarrow> arp_wf ke"
  by (simp add: arp_wf_def)

lemma ksnetArpGet_emit [simp]: "ksnetArpGet (emit acts ke) name = ksnetArpGet ke name"
  by (simp add: ksnetArpGet_def)

lemma arp_wf_add: "arp_wf ke \<Longrightarrow> 0 \<notin> set name \<Longrightarrow> arp_wf (ksnetArpAdd name data ke)"
  using get_add_Some [of "ka ke" "strz name" data]
  by (fastforce simp: arp_wf_def ksnetArpAdd_def pblMapAdd_def)

lemma arp_wf_store: "arp_wf ke \<Longrightarrow> arp_wf (arp_store name f ke)"
  by (auto simp: arp_wf_def arp_store_def map_simps split: if_splits)

lemma arp_get_add:
  "pblMapRoom (ka ke) (strz name) \<Longrightarrow>
   ksnetArpGet (ksnetArpAdd name data ke) n = (if n = name then Some data else ksnetArpGet ke n)"
  by (simp add: ksnetArpGet_def ksnetArpAdd_def pblMapAdd_def map_simps)

lemma arp_get_store:
  "ksnetArpGet (arp_store name f ke) n = (if n = name then map_option f (ksnetArpGet ke name) else ksnetArpGet ke n)"
  by (simp add: ksnetArpGet_def arp_store_def map_simps)

lemma arp_iterate_find:
  "arp_iterate (\<lambda>name arp s. if P name arp then (True, Some (name, arp)) else (False, s)) flag entries s =
     (case find (\<lambda>(key, arp). (flag \<or> arp_mode arp \<ge> 0) \<and> P (cstr key) arp) entries of
        None \<Rightarrow> (False, s)
      | Some (key, arp) \<Rightarrow> (True, Some (cstr key, arp)))"
proof (induction entries)
  case (Cons e entries)
  obtain key arp where "e = (key, arp)" by fastforce
  then show ?case
    using Cons by (cases "flag \<or> arp_mode arp \<ge> 0"; cases "P (cstr key) arp") simp_all
qed simp

lemma arp_find_eq:
  "ksnetArpFindByAddr ke addr port =
     (case find (\<lambda>(key :: bytes, arp). addr_port_equal addr port (arp_addr arp) (arp_port arp)) (pblMapEntries (ka ke)) of
        None \<Rightarrow> None | Some (key, arp) \<Rightarrow> Some (cstr key, arp))"
proof -
  have eq: "find_arp_by_addr_cb addr port =
      (\<lambda>name arp s. if addr_port_equal addr port (arp_addr arp) (arp_port arp) then (True, Some (name, arp)) else (False, s))"
    by (simp add: fun_eq_iff find_arp_by_addr_cb_def)
  show ?thesis
    unfolding ksnetArpFindByAddr_def ksnetArpGetAllH_def ksnetArpGetAllFlag_def eq arp_iterate_find
    by (auto split: option.splits)
qed

lemma arp_find_name: "ksnetArpFindByAddr ke addr port = Some (name, arp) \<Longrightarrow> 0 \<notin> set name"
  by (auto simp: arp_find_eq split: option.splits)

text \<open>
  Finding a peer by address is correct and complete: a result is a peer in the table with that
  address and port, and there is none exactly when no peer has them.
\<close>

theorem arp_find_by_addr:
  assumes "arp_wf ke"
  shows "(\<forall>name arp. ksnetArpFindByAddr ke addr port = Some (name, arp) \<longrightarrow>
      ksnetArpGet ke name = Some arp \<and> addr_port_equal addr port (arp_addr arp) (arp_port arp)) \<and>
    (ksnetArpFindByAddr ke addr port = None \<longleftrightarrow>
      (\<forall>name arp. ksnetArpGet ke name = Some arp \<longrightarrow> 0 \<notin> set name \<longrightarrow>
         \<not> addr_port_equal addr port (arp_addr arp) (arp_port arp)))"
proof -
  let ?P = "\<lambda>(key :: bytes, arp). addr_port_equal addr port (arp_addr arp) (arp_port arp)"
  note f = arp_find_eq [of ke addr port]
  show ?thesis
  proof (cases "find ?P (pblMapEntries (ka ke))")
    case None
    then have "\<forall>k arp. pblMapGet (ka ke) k = Some arp \<longrightarrow> \<not> addr_port_equal addr port (arp_addr arp) (arp_port arp)"
      by (simp add: pm.search_None)
    then show ?thesis unfolding f None by (auto simp: ksnetArpGet_def)
  next
    case (Some kv)
    obtain key arp where kv: "kv = (key, arp)" by fastforce
    have "pblMapGet (ka ke) key = Some arp" "addr_port_equal addr port (arp_addr arp) (arp_port arp)"
      using pm.search_Some [of ?P "ka ke" key arp] Some kv by auto
    then show ?thesis using Some kv arp_wf_key [OF assms] unfolding f by fastforce
  qed
qed

lemma example_arp_wf: "arp_wf (ksnetArpAdd [98] (arp_zero\<lparr>arp_addr := [49], arp_port := 9001\<rparr>) (exampleNode [97]))"
  by (rule arp_wf_add) (simp_all add: arp_wf_def exampleNode_def map_simps)

theorem arp_find_by_addr_witness:
  "ksnetArpFindByAddr (ksnetArpAdd [98] (arp_zero\<lparr>arp_addr := [49], arp_port := 9001\<rparr>) (exampleNode [97])) [49] 9001 \<noteq> None"
  using arp_find_by_addr [OF example_arp_wf, of "[49]" 9001]
  by (auto simp: arp_get_add exampleNode_def addr_port_equal_def intro!: exI [of _ "[98]"])

end
