(* ===== verification/NetCore.thy ===== *)
theory NetCore
  imports ArpTable
begin

text \<open>
  Packets and sending (net_core.c, with the parts of l0-server.c that a send to an L0 client
  needs): the packet format with sender name and command, sending to an address with splitting
  and encryption, and sending by peer name, by type, or to an L0 client.
\<close>

section \<open>Packets\<close>

text \<open>\<open>from\<close> is the memory the code copies, its first \<open>from_len\<close> bytes.\<close>

definition ksnCoreCreatePacketFrom :: "u8 \<Rightarrow> bytes \<Rightarrow> nat \<Rightarrow> bytes \<Rightarrow> bytes" where
  "ksnCoreCreatePacketFrom cmd from from_len data =
     [of_nat from_len] @ take from_len from @ [cmd] @ data"

text \<open>\<open>kc->name_len\<close> is an 8-bit field.\<close>

definition kc_name_len :: "ksnetEvMgr \<Rightarrow> nat" where
  "kc_name_len ke = unat (of_nat (length (kc_name ke) + 1) :: u8)"

definition ksnCoreCreatePacket :: "ksnetEvMgr \<Rightarrow> u8 \<Rightarrow> bytes \<Rightarrow> bytes" where
  "ksnCoreCreatePacket ke cmd data =
     ksnCoreCreatePacketFrom cmd (strz (kc_name ke)) (kc_name_len ke) data"

definition ksnCoreParsePacket :: "bytes \<Rightarrow> ksnCorePacketData \<Rightarrow> bool \<times> ksnCorePacketData" where
  "ksnCoreParsePacket packet rd =
     (let rd0 = rd\<lparr>rd_raw_data := packet\<rparr>;
          from_len = unat (byte_at packet 0)
      in if from_len \<noteq> 0 \<and> from_len + 2 \<le> length packet \<and> byte_at packet from_len = 0
         then let rd1 = rd0\<lparr>rd_from := take from_len (drop 1 packet)\<rparr>
              in if length (cstr (drop 1 packet)) + 1 = from_len
                 then (True, rd1\<lparr>rd_cmd := byte_at packet (1 + from_len), rd_data := drop (2 + from_len) packet\<rparr>)
                 else (False, rd1)
         else (False, rd0))"

section \<open>L0 clients: lookup and sending\<close>

definition ksnLNullGetClientConnection :: "ksnLNullClass \<Rightarrow> int \<Rightarrow> ksnLNullData option" where
  "ksnLNullGetClientConnection l fd = pblMapGet (l0_map l) (enc_u32 (of_int fd))"

definition ksnLNullClientIsConnected :: "ksnLNullClass \<Rightarrow> bytes \<Rightarrow> int" where
  "ksnLNullClientIsConnected l client_name =
     (case pblMapGet (l0_map_n l) (strz client_name) of None \<Rightarrow> 0 | Some fd \<Rightarrow> fd)"

text \<open>Big packets go to TR-UDP clients in pieces of at most 512 bytes.\<close>

function l0_pieces :: "bytes \<Rightarrow> bytes list" where
  "l0_pieces pkg = (if length pkg \<le> 512 then [pkg] else take 512 pkg # l0_pieces (drop 512 pkg))"
  by pat_completeness auto
termination by (relation "measure length") auto

declare l0_pieces.simps [simp del]

definition ksnLNullPacketSend :: "int \<Rightarrow> bytes \<Rightarrow> ksnLNullClass \<Rightarrow> ksnetEvMgr \<Rightarrow> ksnetEvMgr" where
  "ksnLNullPacketSend fd pkg l ke =
     (let cmd = l0_packet_cmd (ke_env ke) pkg;
          with_encryption = CMD_TRUDP_CHECK cmd;
          kld = ksnLNullGetClientConnection l fd;
          ctx = (if with_encryption then (case kld of None \<Rightarrow> NoCrypt | Some d \<Rightarrow> l0_crypt d) else NoCrypt);
          sealed = l0_packet_seal (ke_env ke) ctx with_encryption pkg;
          acts = (if fd < MAX_FD_NUMBER (ke_env ke)
                  then [TeosockSend fd sealed]
                  else case kld of
                         None \<Rightarrow> []
                       | Some d \<Rightarrow> map (\<lambda>piece. TrudpSendto cmd piece (case l0_t_addr d of None \<Rightarrow> [] | Some a \<Rightarrow> a) (l0_t_port d))
                                     (l0_pieces sealed));
          l1 = (if cmd \<noteq> 0 then l\<lparr>l0_packets_to_client := l0_packets_to_client l + 1\<rparr> else l)
      in (emit acts ke)\<lparr>kl := Some l1\<rparr>)"

text \<open>The fields of a packet from or to an L0 client (ksnLNullSPacket, packed).\<close>

definition sp_cmd :: "bytes \<Rightarrow> u8" where "sp_cmd d = byte_at d 0"
definition sp_name_length :: "bytes \<Rightarrow> nat" where "sp_name_length d = unat (byte_at d 1)"
definition sp_data_length :: "bytes \<Rightarrow> nat" where "sp_data_length d = unat (dec_u16 (drop 2 d))"
definition sp_payload :: "bytes \<Rightarrow> bytes" where "sp_payload d = drop 4 d"
definition sp_data :: "bytes \<Rightarrow> bytes" where
  "sp_data d = take (sp_data_length d) (drop (sp_name_length d) (sp_payload d))"

text \<open>The length of the name is an 8-bit field, and the data is written where it says the name ends.\<close>

definition l0_spacket :: "u8 \<Rightarrow> bytes \<Rightarrow> bytes \<Rightarrow> bytes" where
  "l0_spacket cmd cname data =
     (let name_length = length cname mod 256
      in [cmd, of_nat (length cname)] @ enc_u16 (of_nat (length data)) @ take name_length cname @ data @
         drop (name_length + length data) (cname @ replicate (length data) 0))"

section \<open>Sending to an address\<close>

definition sendto_encrypt :: "ksnetEvMgr \<Rightarrow> u8 \<Rightarrow> bytes \<Rightarrow> bytes \<Rightarrow> int \<Rightarrow> action" where
  "sendto_encrypt ke cmd packet addr port =
     TrudpSendto cmd
       (if cfg_crypt_f ke then ksnEncryptPackage (aes_enc (ke_env ke)) (kcr ke) packet else packet) addr port"

definition ksnCoreSetEventTime :: "ksnetEvMgr \<Rightarrow> ksnetEvMgr" where
  "ksnCoreSetEventTime ke = ke\<lparr>kc_last_check_event := ksnetEvMgrGetTime ke\<rparr>"

text \<open>The result is false for the return value -1 of a packet that is too large; otherwise the code
  returns what the last send call returned.\<close>

definition ksnCoreSendto :: "bytes \<Rightarrow> int \<Rightarrow> u8 \<Rightarrow> bytes \<Rightarrow> ksnetEvMgr \<Rightarrow> bool \<times> ksnetEvMgr" where
  "ksnCoreSendto addr port cmd data ke =
     (if length data \<le> MAX_PACKET_LEN - MAX_DATA_LEN
      then let (packets, ks) = (if cmd \<noteq> CMD_VPN then ksnSplitPacket (kco_ks ke) cmd data else ([], kco_ks ke));
               ke1 = ke\<lparr>kco_ks := ks\<rparr>;
               acts = (if packets \<noteq> []
                       then map (\<lambda>sub. sendto_encrypt ke CMD_SPLIT
                                   (ksnCoreCreatePacket ke CMD_SPLIT (splitPayload sub)) addr port) packets
                       else [sendto_encrypt ke cmd (ksnCoreCreatePacket ke cmd data) addr port])
           in (True, ksnCoreSetEventTime (emit acts ke1))
      else (False, ksnCoreSetEventTime ke))"

section \<open>Sending by name\<close>

definition strstr :: "bytes \<Rightarrow> bytes \<Rightarrow> bool" where
  "strstr hay needle = list_ex (\<lambda>i. take (length needle) (drop i hay) = needle) [0..<length hay + 1]"

definition send_by_type_check_cb ::
  "bytes \<Rightarrow> bytes \<Rightarrow> ksnet_arp_data_ext \<Rightarrow> ksnet_arp_data_ext list \<Rightarrow> bool \<times> ksnet_arp_data_ext list" where
  "send_by_type_check_cb name peer_name arp sd =
     (False, if (case arp_type arp of None \<Rightarrow> False | Some t \<Rightarrow> strstr t name) then sd @ [arp] else sd)"

definition teoBroadcastSend :: "bytes \<Rightarrow> u8 \<Rightarrow> bytes \<Rightarrow> ksnetEvMgr \<Rightarrow> ksnetEvMgr" where
  "teoBroadcastSend to cmd data ke =
     fold (\<lambda>arp ke. snd (ksnCoreSendto (arp_addr arp) (arp_port arp) cmd data ke))
       (snd (ksnetArpGetAll ke (send_by_type_check_cb to) [])) ke"

text \<open>Sending through another network is a stub of the code that finds no peer.\<close>

definition ksnMultiSendCmdTo :: "bytes \<Rightarrow> u8 \<Rightarrow> bytes \<Rightarrow> bytes option" where
  "ksnMultiSendCmdTo to cmd data = None"

text \<open>The result is the name of the record the returned pointer points to.\<close>

definition ksnCoreSendCmdto :: "bytes \<Rightarrow> u8 \<Rightarrow> bytes \<Rightarrow> ksnetEvMgr \<Rightarrow> bytes option \<times> ksnetEvMgr" where
  "ksnCoreSendCmdto to cmd data ke =
     (case ksnetArpGet ke to of
        Some arp \<Rightarrow> (Some to, snd (ksnCoreSendto (arp_addr arp) (arp_port arp) cmd data ke))
      | None \<Rightarrow>
          let sd = snd (ksnetArpGetAll ke (send_by_type_check_cb to) [])
          in if sd \<noteq> []
             then let r = (case ke_rands ke of [] \<Rightarrow> 0 | n # _ \<Rightarrow> n) mod length sd;
                      arp = sd ! r;
                      ke1 = ke\<lparr>ke_rands := tl (ke_rands ke)\<rparr>
                  in (None, snd (ksnCoreSendto (arp_addr arp) (arp_port arp) cmd data ke1))
             else if ke_km ke \<and> ksnMultiSendCmdTo to cmd data \<noteq> None
             then (ksnMultiSendCmdTo to cmd data, ke)
             else if cmd = CMD_L0 \<and> cfg_l0_allow_f ke
             then case kl ke of
                    None \<Rightarrow> (None, ke)
                  | Some l \<Rightarrow>
                      let fd = ksnLNullClientIsConnected l to
                      in if fd \<noteq> 0
                         then (None, ksnLNullPacketSend fd
                                 (l0_packet_create (ke_env ke) (sp_cmd data) (cstr (sp_payload data)) (sp_data data)) l ke)
                         else (None, ke)
             else (None, ke))"

text \<open>Answers go to an L0 client through its server, or straight to the sender's address.\<close>

definition ksnLNullSendToL0 :: "bytes \<Rightarrow> int \<Rightarrow> bytes \<Rightarrow> u8 \<Rightarrow> bytes \<Rightarrow> ksnetEvMgr \<Rightarrow> bool \<times> ksnetEvMgr" where
  "ksnLNullSendToL0 addr port cname cmd data ke =
     ksnCoreSendto addr port CMD_L0_TO (l0_spacket cmd cname data) ke"

text \<open>What a received buffer is decrypted to, and whether it was encrypted (ksnCoreProcessPacket).\<close>

definition core_decrypt :: "ksnetEvMgr \<Rightarrow> bytes \<Rightarrow> bool \<times> bytes" where
  "core_decrypt ke buf =
     (if cfg_crypt_f ke \<and> ksnCheckEncrypted buf
      then (True, ksnDecryptPackage (aes_dec (ke_env ke)) (kcr ke) buf)
      else (False, buf))"

section \<open>The packet format\<close>

lemma u8_of_nat: "n < 256 \<Longrightarrow> unat (of_nat n :: u8) = n"
  by (simp only: unat_of_nat) simp

lemma parse_created:
  assumes "0 \<notin> set name" and "length name < 255"
  shows "ksnCoreParsePacket (ksnCoreCreatePacketFrom cmd (strz name) (length name + 1) data) rd =
    (True, rd\<lparr>rd_raw_data := ksnCoreCreatePacketFrom cmd (strz name) (length name + 1) data,
              rd_from := strz name, rd_cmd := cmd, rd_data := data\<rparr>)"
proof -
  let ?p = "ksnCoreCreatePacketFrom cmd (strz name) (length name + 1) data"
  have p: "?p = of_nat (length name + 1) # strz name @ cmd # data"
    by (simp add: ksnCoreCreatePacketFrom_def)
  have len: "unat (byte_at ?p 0) = length name + 1"
    unfolding p using assms(2) u8_of_nat [of "length name + 1"] by simp
  have z: "byte_at ?p (length name + 1) = 0" "byte_at ?p (1 + (length name + 1)) = cmd"
    unfolding p by (simp_all add: byte_at_def strz_def nth_append)
  have c: "cstr (drop 1 ?p) = name" unfolding p using assms(1) by (simp add: cstr_strz_append)
  have t: "take (length name + 1) (drop 1 ?p) = strz name" "drop (2 + (length name + 1)) ?p = data"
    "length name + 1 + 2 \<le> length ?p"
    unfolding p by (simp_all add: strz_def)
  show ?thesis
    unfolding ksnCoreParsePacket_def Let_def len z c t by (use t(3) in simp)
qed

text \<open>
  C16: a packet made from a sender's name, a command and data is parsed as valid, with that sender,
  command and data.
\<close>

theorem parse_create:
  assumes "0 \<notin> set name" and "length name < 255"
  shows "ksnCoreParsePacket (ksnCoreCreatePacketFrom cmd (strz name) (length name + 1) data) rd =
    (True, rd\<lparr>rd_raw_data := ksnCoreCreatePacketFrom cmd (strz name) (length name + 1) data,
              rd_from := strz name, rd_cmd := cmd, rd_data := data\<rparr>)"
  by (rule parse_created [OF assms])

theorem parse_create_witness:
  "ksnCoreParsePacket (ksnCoreCreatePacketFrom 65 (strz [97]) (length [97::u8] + 1) [1, 2]) ksnCorePacketData_zero =
   (True, ksnCorePacketData_zero\<lparr>rd_raw_data := ksnCoreCreatePacketFrom 65 (strz [97]) (length [97::u8] + 1) [1, 2],
      rd_from := strz [97], rd_cmd := 65, rd_data := [1, 2]\<rparr>)"
  by (rule parse_create) simp_all

text \<open>
  C15: the parser accepts nothing else: a packet it takes as valid is the packet made from the
  fields it read, and the sender's name is a non-empty buffer whose only zero byte is its last.
\<close>

theorem parse_valid:
  assumes "ksnCoreParsePacket packet rd = (True, rd')"
  shows "\<exists>name. rd_from rd' = strz name \<and> 0 \<notin> set name \<and> length name < 255 \<and>
    packet = ksnCoreCreatePacketFrom (rd_cmd rd') (strz name) (length name + 1) (rd_data rd')"
proof -
  define n where "n = unat (byte_at packet 0)"
  define name where "name = cstr (drop 1 packet)"
  have n: "n \<noteq> 0" "n + 2 \<le> length packet" "byte_at packet n = 0" "length name + 1 = n"
    and rd': "rd' = rd\<lparr>rd_raw_data := packet, rd_from := take n (drop 1 packet),
      rd_cmd := byte_at packet (1 + n), rd_data := drop (2 + n) packet\<rparr>"
    using assms unfolding ksnCoreParsePacket_def Let_def n_def [symmetric] name_def [symmetric]
    by (auto split: if_splits)
  have n255: "n < 256" using unsigned_less [of "byte_at packet 0", where 'a = nat] by (simp add: n_def)
  have "take (length name) (drop 1 packet) = name"
    unfolding name_def cstr_def by (rule takeWhile_eq_take [symmetric])
  moreover have "drop 1 packet ! length name = 0" using n by (simp add: byte_at_def)
  ultimately have from_: "take n (drop 1 packet) = strz name"
    using n(2,4) take_Suc_conv_app_nth [of "length name" "drop 1 packet"] by (simp add: strz_def)
  have "packet = byte_at packet 0 # take n (drop 1 packet) @ byte_at packet (1 + n) # drop (2 + n) packet"
  proof -
    have b: "byte_at packet 0 = packet ! 0" "byte_at packet (1 + n) = packet ! (1 + n)"
      using n(2) by (auto simp: byte_at_def)
    have d1: "drop 1 packet = take n (drop 1 packet) @ drop (1 + n) packet"
      using append_take_drop_id [of n "drop 1 packet"] by (simp add: add.commute)
    have d2: "drop (1 + n) packet = packet ! (1 + n) # drop (2 + n) packet"
      using n(2) Cons_nth_drop_Suc [of "1 + n" packet] by simp
    have "packet = packet ! 0 # drop 1 packet" using n(2) by (cases packet) simp_all
    also have "\<dots> = packet ! 0 # take n (drop 1 packet) @ packet ! (1 + n) # drop (2 + n) packet"
      by (subst d1, subst d2) (rule refl)
    finally show ?thesis unfolding b .
  qed
  moreover have "byte_at packet 0 = of_nat (length name + 1)" unfolding n(4) n_def by simp
  ultimately have "packet = of_nat (length name + 1) # strz name @ byte_at packet (1 + n) # drop (2 + n) packet"
    unfolding from_ by simp
  moreover have "rd_from rd' = strz name" "rd_cmd rd' = byte_at packet (1 + n)" "rd_data rd' = drop (2 + n) packet"
    unfolding rd' from_ by simp_all
  moreover have "ksnCoreCreatePacketFrom c (strz name) (length name + 1) d = of_nat (length name + 1) # strz name @ c # d" for c d
    by (simp add: ksnCoreCreatePacketFrom_def)
  ultimately have "packet = ksnCoreCreatePacketFrom (rd_cmd rd') (strz name) (length name + 1) (rd_data rd')"
    by (simp only:)
  moreover have "rd_from rd' = strz name" unfolding rd' from_ by simp
  moreover have "0 \<notin> set name" by (simp add: name_def)
  ultimately show ?thesis using n255 n(4) by (intro exI [of _ name]) simp
qed

theorem parse_valid_witness:
  "\<exists>name. 0 \<notin> set name \<and> [2, 97, 0, 65, 1] = ksnCoreCreatePacketFrom 65 (strz name) (length name + 1) [1]"
proof -
  have "ksnCoreParsePacket [2, 97, 0, 65, 1] ksnCorePacketData_zero =
      (True, ksnCorePacketData_zero\<lparr>rd_raw_data := [2, 97, 0, 65, 1], rd_from := [97, 0], rd_cmd := 65, rd_data := [1]\<rparr>)"
    by (simp add: ksnCoreParsePacket_def byte_at_def cstr_def)
  from parse_valid [OF this] show ?thesis by auto
qed

section \<open>What is sent is what is received\<close>

text \<open>The commands and data a receiver gets for one call of \<open>ksnCoreSendto\<close>.\<close>

definition sent_parts :: "ksnetEvMgr \<Rightarrow> u8 \<Rightarrow> bytes \<Rightarrow> (u8 \<times> bytes) list" where
  "sent_parts ke cmd data =
     (if cmd \<noteq> CMD_VPN \<and> MAX_DATA_LEN < length data
      then map (\<lambda>sub. (CMD_SPLIT, splitPayload sub)) (fst (ksnSplitPacket (kco_ks ke) cmd data))
      else [(cmd, data)])"

definition sent_packet :: "ksnetEvMgr \<Rightarrow> u8 \<Rightarrow> bytes \<Rightarrow> bytes" where
  "sent_packet ke cmd data =
     (let p = ksnCoreCreatePacket ke cmd data
      in if cfg_crypt_f ke then ksnEncryptPackage (aes_enc (ke_env ke)) (kcr ke) p else p)"

lemma sendto_out:
  assumes "length data \<le> MAX_PACKET_LEN - MAX_DATA_LEN"
  shows "ksnCoreSendto addr port cmd data ke =
    (True, ksnCoreSetEventTime (emit (map (\<lambda>(c, d). TrudpSendto c (sent_packet ke c d) addr port) (sent_parts ke cmd data))
       (ke\<lparr>kco_ks := (if cmd \<noteq> CMD_VPN then snd (ksnSplitPacket (kco_ks ke) cmd data) else kco_ks ke)\<rparr>)))"
proof -
  have "fst (ksnSplitPacket (kco_ks ke) cmd data) = [] \<longleftrightarrow> \<not> MAX_DATA_LEN < length data"
    using splitCount_bounds [of data]
    by (auto simp: ksnSplitPacket_def Let_def splitCount_def MAX_DATA_LEN_def)
  moreover have "ksnSplitPacket (kco_ks ke) cmd data =
      (fst (ksnSplitPacket (kco_ks ke) cmd data), snd (ksnSplitPacket (kco_ks ke) cmd data))"
    by simp
  ultimately show ?thesis
    using assms by (auto simp: ksnCoreSendto_def sent_parts_def sent_packet_def sendto_encrypt_def Let_def
        comp_def split: prod.splits)
qed

lemma sent_packet_parse:
  assumes "cbc_padded (aes_enc (ke_env ke)) (aes_dec (ke_env kr))" and "cfg_crypt_f kr = cfg_crypt_f ke"
    and "kcr kr = kcr ke" and "0 \<notin> set (kc_name ke)" and "length (kc_name ke) < 255" and "length d < 65000"
  shows "fst (core_decrypt kr (sent_packet ke c d)) = cfg_crypt_f ke \<and>
    ksnCoreParsePacket (snd (core_decrypt kr (sent_packet ke c d))) rd =
      (True, rd\<lparr>rd_raw_data := ksnCoreCreatePacket ke c d, rd_from := strz (kc_name ke), rd_cmd := c, rd_data := d\<rparr>)"
proof -
  have n: "kc_name_len ke = length (kc_name ke) + 1"
    unfolding kc_name_len_def by (rule u8_of_nat) (use assms(5) in simp)
  have p: "ksnCoreCreatePacket ke c d = ksnCoreCreatePacketFrom c (strz (kc_name ke)) (length (kc_name ke) + 1) d"
    unfolding ksnCoreCreatePacket_def n ..
  have len: "0 < length (ksnCoreCreatePacket ke c d)" "length (ksnCoreCreatePacket ke c d) < 65536"
    unfolding p using assms(5,6) by (simp_all add: ksnCoreCreatePacketFrom_def)
  note parse = parse_created [OF assms(4,5), of c d rd, folded p]
  show ?thesis
  proof (cases "cfg_crypt_f ke")
    case True
    then show ?thesis
      using decrypt_encrypt [OF assms(1) len, of "kcr ke"] assms(2,3) parse
      by (simp add: core_decrypt_def sent_packet_def Let_def)
  next
    case False
    then show ?thesis using assms(2) parse by (simp add: core_decrypt_def sent_packet_def Let_def)
  qed
qed

lemma length_payload:
  assumes "MAX_DATA_LEN < length data" and "i < splitCount data"
  shows "length (splitPayload (splitSubpacket pn cmd data (splitCount data) i)) \<le> 453"
  unfolding splitPayload_subpacket [OF assms] splitStored_def by (auto simp: MAX_DATA_LEN_def min_def)

lemma length_sent_parts:
  assumes "cmd \<noteq> CMD_VPN \<or> length data \<le> MAX_DATA_LEN" and "(c, d) \<in> set (sent_parts ke cmd data)"
  shows "length d \<le> 453"
  using assms length_payload [of data]
  by (auto simp: sent_parts_def ksnSplitPacket_def Let_def splitCount_def MAX_DATA_LEN_def split: if_splits)

text \<open>
  Sending to an address makes one TR-UDP send per part, in order, and a node with the same
  network key decrypts and parses each of them to the part's command and data under the sender's
  name. Packets up to MAX_DATA_LEN bytes are one part, larger ones the sub-packets of a split.
\<close>

theorem sendto_received:
  assumes "length data \<le> MAX_PACKET_LEN - MAX_DATA_LEN" and "cmd \<noteq> CMD_VPN \<or> length data \<le> MAX_DATA_LEN"
    and "cbc_padded (aes_enc (ke_env ke)) (aes_dec (ke_env kr))" and "cfg_crypt_f kr = cfg_crypt_f ke"
    and "kcr kr = kcr ke" and "0 \<notin> set (kc_name ke)" and "length (kc_name ke) < 255"
  shows "\<exists>packets. ke_out (snd (ksnCoreSendto addr port cmd data ke)) = ke_out ke @
      map2 (\<lambda>(c, d) p. TrudpSendto c p addr port) (sent_parts ke cmd data) packets \<and>
    map (\<lambda>p. ksnCoreParsePacket (snd (core_decrypt kr p)) rd) packets =
      map (\<lambda>(c, d). (True, rd\<lparr>rd_raw_data := ksnCoreCreatePacket ke c d, rd_from := strz (kc_name ke),
                              rd_cmd := c, rd_data := d\<rparr>)) (sent_parts ke cmd data)"
proof (intro exI conjI)
  let ?ps = "map (\<lambda>(c, d). sent_packet ke c d) (sent_parts ke cmd data)"
  show "ke_out (snd (ksnCoreSendto addr port cmd data ke)) = ke_out ke @
      map2 (\<lambda>(c, d) p. TrudpSendto c p addr port) (sent_parts ke cmd data) ?ps"
    by (simp add: sendto_out [OF assms(1)] ksnCoreSetEventTime_def zip_map2 map_zip_map2 split_def zip_same_conv_map)
  have "ksnCoreParsePacket (snd (core_decrypt kr (sent_packet ke c d))) rd =
      (True, rd\<lparr>rd_raw_data := ksnCoreCreatePacket ke c d, rd_from := strz (kc_name ke), rd_cmd := c, rd_data := d\<rparr>)"
    if "(c, d) \<in> set (sent_parts ke cmd data)" for c d
    using sent_packet_parse [OF assms(3-7)] length_sent_parts [OF assms(2) that] by simp
  then show "map (\<lambda>p. ksnCoreParsePacket (snd (core_decrypt kr p)) rd) ?ps =
      map (\<lambda>(c, d). (True, rd\<lparr>rd_raw_data := ksnCoreCreatePacket ke c d, rd_from := strz (kc_name ke),
                              rd_cmd := c, rd_data := d\<rparr>)) (sent_parts ke cmd data)"
    by auto
qed

theorem sendto_received_witness:
  "\<exists>packets. ke_out (snd (ksnCoreSendto [49] 9000 CMD_ECHO [1] (exampleNode [97]))) = ke_out (exampleNode [97]) @
      map2 (\<lambda>(c, d) p. TrudpSendto c p [49] 9000) (sent_parts (exampleNode [97]) CMD_ECHO [1]) packets"
proof -
  have "length [1::u8] \<le> MAX_PACKET_LEN - MAX_DATA_LEN" "CMD_ECHO \<noteq> CMD_VPN \<or> length [1::u8] \<le> MAX_DATA_LEN"
    "cbc_padded (aes_enc (ke_env (exampleNode [97]))) (aes_dec (ke_env (exampleNode [98])))"
    "cfg_crypt_f (exampleNode [98]) = cfg_crypt_f (exampleNode [97])" "kcr (exampleNode [98]) = kcr (exampleNode [97])"
    "0 \<notin> set (kc_name (exampleNode [97]))" "length (kc_name (exampleNode [97])) < 255"
    using pad_only by (simp_all add: exampleNode_def exampleEnv_def MAX_PACKET_LEN_def MAX_DATA_LEN_def)
  from sendto_received [OF this] show ?thesis by blast
qed

section \<open>What sending leaves alone\<close>

text \<open>
  Sending changes the packet counter of the splitter, the last event time, the client packet
  counter of the L0 server and the random numbers left; it emits sends and nothing else.
\<close>

fun is_send :: "action \<Rightarrow> bool" where
  "is_send (TrudpSendto cmd packet addr port) = True"
| "is_send (TeosockSend fd packet) = True"
| "is_send _ = False"

definition send_only :: "ksnetEvMgr \<Rightarrow> ksnetEvMgr \<Rightarrow> bool" where
  "send_only ke ke' \<longleftrightarrow> (\<exists>n r t l out. (\<forall>a \<in> set out. is_send a) \<and>
     (l = kl ke \<or> (\<exists>x k. kl ke = Some x \<and> l = Some (x\<lparr>l0_packets_to_client := k\<rparr>))) \<and>
     ke' = ke\<lparr>kco_ks := (kco_ks ke)\<lparr>packet_number := n\<rparr>, ke_rands := r, kc_last_check_event := t, kl := l,
              ke_out := ke_out ke @ out\<rparr>)"

lemma send_only_refl [simp]: "send_only ke ke"
  unfolding send_only_def
  by (rule exI [of _ "packet_number (kco_ks ke)"], rule exI [of _ "ke_rands ke"],
      rule exI [of _ "kc_last_check_event ke"], rule exI [of _ "kl ke"], rule exI [of _ "[]"]) simp

lemma send_only_trans:
  assumes "send_only a b" and "send_only b c"
  shows "send_only a c"
proof -
  obtain n r t l out where b: "b = a\<lparr>kco_ks := (kco_ks a)\<lparr>packet_number := n\<rparr>, ke_rands := r, kc_last_check_event := t,
      kl := l, ke_out := ke_out a @ out\<rparr>" "\<forall>x \<in> set out. is_send x"
    "l = kl a \<or> (\<exists>x k. kl a = Some x \<and> l = Some (x\<lparr>l0_packets_to_client := k\<rparr>))"
    using assms(1) unfolding send_only_def by blast
  obtain n' r' t' l' out' where c: "c = b\<lparr>kco_ks := (kco_ks b)\<lparr>packet_number := n'\<rparr>, ke_rands := r',
      kc_last_check_event := t', kl := l', ke_out := ke_out b @ out'\<rparr>" "\<forall>x \<in> set out'. is_send x"
    "l' = kl b \<or> (\<exists>x k. kl b = Some x \<and> l' = Some (x\<lparr>l0_packets_to_client := k\<rparr>))"
    using assms(2) unfolding send_only_def by blast
  show ?thesis unfolding send_only_def
  proof (intro exI conjI)
    show "c = a\<lparr>kco_ks := (kco_ks a)\<lparr>packet_number := n'\<rparr>, ke_rands := r', kc_last_check_event := t', kl := l',
        ke_out := ke_out a @ out @ out'\<rparr>"
      unfolding c(1) b(1) by simp
    show "\<forall>x \<in> set (out @ out'). is_send x" using b(2) c(2) by auto
    show "l' = kl a \<or> (\<exists>x k. kl a = Some x \<and> l' = Some (x\<lparr>l0_packets_to_client := k\<rparr>))"
      using b(1,3) c(3) by auto
  qed
qed

lemma send_only_fields:
  assumes "send_only ke ke'"
  shows "ka ke' = ka ke" "kq ke' = kq ke" "kr_map ke' = kr_map ke" "ks_map ke' = ks_map ke"
    "ksscr_map ke' = ksscr_map ke" "ke_env ke' = ke_env ke" "ke_time ke' = ke_time ke" "ke_run ke' = ke_run ke"
    "ke_event_cb ke' = ke_event_cb ke" "ke_is_rhost ke' = ke_is_rhost ke" "ke_km ke' = ke_km ke"
    "cfg_r_host_name ke' = cfg_r_host_name ke" "cfg_host_name ke' = cfg_host_name ke" "kc_name ke' = kc_name ke"
    "kc_port ke' = kc_port ke" "kcr ke' = kcr ke" "cfg_crypt_f ke' = cfg_crypt_f ke" "cfg_l0_allow_f ke' = cfg_l0_allow_f ke"
    "ke_pipes ke' = ke_pipes ke" "split_map (kco_ks ke') = split_map (kco_ks ke)"
    "kl ke' = None \<longleftrightarrow> kl ke = None" "ke_app_type ke' = ke_app_type ke"
    "kvpn ke' = kvpn ke" "ktun ke' = ktun ke" "ke_conns ke' = ke_conns ke" "ke_channels ke' = ke_channels ke"
    "cfg_r_port ke' = cfg_r_port ke" "cfg_r_host_addr ke' = cfg_r_host_addr ke" "ke_async_queue ke' = ke_async_queue ke"
    "cfg_auth_secret ke' = cfg_auth_secret ke"
  using assms unfolding send_only_def by auto

lemma send_only_out: "send_only ke ke' \<Longrightarrow> \<exists>out. ke_out ke' = ke_out ke @ out \<and> (\<forall>a \<in> set out. is_send a)"
  unfolding send_only_def by auto

lemma send_only_emit: "(\<forall>a \<in> set acts. is_send a) \<Longrightarrow> send_only ke (emit acts ke)"
  unfolding send_only_def emit_def
  by (rule exI [of _ "packet_number (kco_ks ke)"], rule exI [of _ "ke_rands ke"],
      rule exI [of _ "kc_last_check_event ke"], rule exI [of _ "kl ke"], rule exI [of _ acts]) simp

lemma send_only_sendto [simp]: "send_only ke (snd (ksnCoreSendto addr port cmd data ke))"
proof -
  have time: "send_only k (ksnCoreSetEventTime k)" for k
    unfolding send_only_def ksnCoreSetEventTime_def
    by (rule exI [of _ "packet_number (kco_ks k)"], rule exI [of _ "ke_rands k"],
        rule exI [of _ "ksnetEvMgrGetTime k"], rule exI [of _ "kl k"], rule exI [of _ "[]"]) simp
  have split: "send_only ke (ke\<lparr>kco_ks := snd (ksnSplitPacket (kco_ks ke) cmd data)\<rparr>)"
    unfolding send_only_def ksnSplitPacket_def
    by (rule exI [of _ "if MAX_DATA_LEN < length data then packet_number (kco_ks ke) + 1 else packet_number (kco_ks ke)"],
        rule exI [of _ "ke_rands ke"], rule exI [of _ "kc_last_check_event ke"], rule exI [of _ "kl ke"],
        rule exI [of _ "[]"]) (simp add: Let_def)
  show ?thesis
  proof (cases "length data \<le> MAX_PACKET_LEN - MAX_DATA_LEN")
    case True
    let ?acts = "map (\<lambda>(c, d). TrudpSendto c (sent_packet ke c d) addr port) (sent_parts ke cmd data)"
    have acts: "\<forall>a \<in> set ?acts. is_send a" by auto
    show ?thesis
      unfolding sendto_out [OF True] snd_conv
      by (rule send_only_trans [OF send_only_trans [OF _ send_only_emit [OF acts]] time])
         (use split in simp)
  qed (use time in \<open>simp add: ksnCoreSendto_def\<close>)
qed

lemma send_only_packetSend [simp]:
  assumes "kl ke = Some l"
  shows "send_only ke (ksnLNullPacketSend fd pkg l ke)"
proof -
  obtain acts k where "ksnLNullPacketSend fd pkg l ke = (emit acts ke)\<lparr>kl := Some (l\<lparr>l0_packets_to_client := k\<rparr>)\<rparr>"
    "\<forall>a \<in> set acts. is_send a"
  proof (rule that)
    let ?cmd = "l0_packet_cmd (ke_env ke) pkg"
    let ?kld = "ksnLNullGetClientConnection l fd"
    let ?sealed = "l0_packet_seal (ke_env ke)
      (if CMD_TRUDP_CHECK ?cmd then (case ?kld of None \<Rightarrow> NoCrypt | Some d \<Rightarrow> l0_crypt d) else NoCrypt)
      (CMD_TRUDP_CHECK ?cmd) pkg"
    let ?acts = "if fd < MAX_FD_NUMBER (ke_env ke) then [TeosockSend fd ?sealed]
      else case ?kld of None \<Rightarrow> [] | Some d \<Rightarrow>
        map (\<lambda>piece. TrudpSendto ?cmd piece (case l0_t_addr d of None \<Rightarrow> [] | Some a \<Rightarrow> a) (l0_t_port d)) (l0_pieces ?sealed)"
    show "ksnLNullPacketSend fd pkg l ke = (emit ?acts ke)\<lparr>kl := Some (l\<lparr>l0_packets_to_client :=
        (if ?cmd \<noteq> 0 then l0_packets_to_client l + 1 else l0_packets_to_client l)\<rparr>)\<rparr>"
      by (simp add: ksnLNullPacketSend_def Let_def)
    show "\<forall>a \<in> set ?acts. is_send a" by (auto split: option.splits)
  qed
  then show ?thesis
    unfolding send_only_def emit_def
    by (intro exI [of _ "packet_number (kco_ks ke)"] exI [of _ "ke_rands ke"] exI [of _ "kc_last_check_event ke"]
        exI [of _ "Some (l\<lparr>l0_packets_to_client := k\<rparr>)"] exI [of _ acts]) (auto simp: assms)
qed

lemma send_only_rands [simp]: "send_only ke (ke\<lparr>ke_rands := r\<rparr>)"
  unfolding send_only_def
  by (rule exI [of _ "packet_number (kco_ks ke)"], rule exI [of _ r],
      rule exI [of _ "kc_last_check_event ke"], rule exI [of _ "kl ke"], rule exI [of _ "[]"]) simp

lemma send_only_sendCmdto [simp]: "send_only ke (snd (ksnCoreSendCmdto to cmd data ke))"
  using send_only_trans [OF send_only_rands send_only_sendto]
  by (auto simp: ksnCoreSendCmdto_def Let_def split: option.split)

lemma send_only_sendToL0 [simp]: "send_only ke (snd (ksnLNullSendToL0 addr port cname cmd data ke))"
  by (simp add: ksnLNullSendToL0_def)

lemma send_only_fold:
  "(\<And>x k. x \<in> set xs \<Longrightarrow> send_only k (f x k)) \<Longrightarrow> send_only ke (fold f xs ke)"
  by (induction xs arbitrary: ke) (auto intro: send_only_trans)

lemma send_only_broadcast [simp]: "send_only ke (teoBroadcastSend to cmd data ke)"
  by (simp add: teoBroadcastSend_def send_only_fold)

lemmas sendto_fields [simp] = send_only_fields [OF send_only_sendto]
lemmas sendCmdto_fields [simp] = send_only_fields [OF send_only_sendCmdto]
lemmas sendToL0_fields [simp] = send_only_fields [OF send_only_sendToL0]

text \<open>A known peer is found, and the result names it; the record the code returns is live.\<close>

lemma sendCmdto_known: "ksnetArpGet ke to = Some arp \<Longrightarrow> fst (ksnCoreSendCmdto to cmd data ke) = Some to"
  by (simp add: ksnCoreSendCmdto_def)

lemma sendCmdto_result: "fst (ksnCoreSendCmdto to cmd data ke) = (if ksnetArpGet ke to = None then None else Some to)"
  by (auto simp: ksnCoreSendCmdto_def Let_def ksnMultiSendCmdTo_def split: option.split)

text \<open>The faults a node has run into so far.\<close>

fun is_fault :: "action \<Rightarrow> bool" where
  "is_fault UninitRead = True"
| "is_fault Fault = True"
| "is_fault Diverge = True"
| "is_fault _ = False"

definition faults :: "ksnetEvMgr \<Rightarrow> action list" where
  "faults ke = filter is_fault (ke_out ke)"

lemma faults_emit [simp]: "faults (emit acts ke) = faults ke @ filter is_fault acts"
  by (simp add: faults_def)

lemma send_no_fault: "is_send a \<Longrightarrow> \<not> is_fault a"
  by (cases a) simp_all

lemma send_only_faults: "send_only ke ke' \<Longrightarrow> faults ke' = faults ke"
  using send_only_out [of ke ke'] send_no_fault by (auto simp: faults_def filter_empty_conv)

lemmas send_faults [simp] =
  send_only_faults [OF send_only_sendto] send_only_faults [OF send_only_sendCmdto]
  send_only_faults [OF send_only_sendToL0]

lemma event_cb_fields [simp]:
  "ka (event_cb ev d ke) = ka ke" "kq (event_cb ev d ke) = kq ke" "kr_map (event_cb ev d ke) = kr_map ke"
  "ks_map (event_cb ev d ke) = ks_map ke" "ksscr_map (event_cb ev d ke) = ksscr_map ke"
  "ke_env (event_cb ev d ke) = ke_env ke" "ke_time (event_cb ev d ke) = ke_time ke" "ke_run (event_cb ev d ke) = ke_run ke"
  "ke_event_cb (event_cb ev d ke) = ke_event_cb ke" "kl (event_cb ev d ke) = kl ke" "kco_ks (event_cb ev d ke) = kco_ks ke"
  "cfg_r_host_name (event_cb ev d ke) = cfg_r_host_name ke" "ke_pipes (event_cb ev d ke) = ke_pipes ke"
  "kvpn (event_cb ev d ke) = kvpn ke" "ktun (event_cb ev d ke) = ktun ke"
  "faults (event_cb ev d ke) = faults ke" "kc_name (event_cb ev d ke) = kc_name ke"
  by (simp_all add: event_cb_def)

lemma channel_destroy_faults [simp]: "faults (channel_destroy addr port ke) = faults ke"
  by (simp add: faults_def)

lemma map_update_fields [simp]:
  "faults (ke\<lparr>ks_map := m\<rparr>) = faults ke" "faults (ke\<lparr>kq := q\<rparr>) = faults ke" "faults (ke\<lparr>ka := a\<rparr>) = faults ke"
  "faults (ke\<lparr>kr_map := r\<rparr>) = faults ke" "faults (ke\<lparr>ksscr_map := sm\<rparr>) = faults ke"
  "faults (ke\<lparr>ke_pipes := ps\<rparr>) = faults ke" "faults (ke\<lparr>kl := l\<rparr>) = faults ke" "faults (ke\<lparr>kco_ks := ks\<rparr>) = faults ke"
  "faults (ke\<lparr>kvpn := v\<rparr>) = faults ke" "faults (ke\<lparr>ktun := tn\<rparr>) = faults ke" "faults (ke\<lparr>ke_conns := cs\<rparr>) = faults ke"
  by (simp_all add: faults_def)

end
