(* ===== verification/Stream.thy ===== *)
theory Stream
  imports NetCore
begin

text \<open>
  The stream module (modules/stream.c): named byte streams to peers, kept in a map under peer name
  and stream name, with two pipes each for the application. This theory has the packets, closing,
  the watchers and the timeout callback; creating a stream executes a queue record and is in
  StreamCmd. A callback's pointer to a stream record is alive when the record in the map is the
  one that waits for this queue record.
\<close>

section \<open>Packets and keys\<close>

definition CMD_ST_CREATE :: u8 where "CMD_ST_CREATE = 1"
definition CMD_ST_CREATE_GOT :: u8 where "CMD_ST_CREATE_GOT = 2"
definition CMD_ST_CREATED :: u8 where "CMD_ST_CREATED = 3"
definition CMD_ST_DATA :: u8 where "CMD_ST_DATA = 4"
definition CMD_ST_CLOSE :: u8 where "CMD_ST_CLOSE = 5"
definition CMD_ST_CLOSE_GOT :: u8 where "CMD_ST_CLOSE_GOT = 6"
definition CMD_ST_CLOSE_NOTREMOVE :: u8 where "CMD_ST_CLOSE_NOTREMOVE = 7"

lemmas CMD_ST_defs = CMD_ST_CREATE_def CMD_ST_CREATE_GOT_def CMD_ST_CREATED_def CMD_ST_DATA_def
  CMD_ST_CLOSE_def CMD_ST_CLOSE_GOT_def CMD_ST_CLOSE_NOTREMOVE_def

definition stream_key :: "bytes \<Rightarrow> bytes \<Rightarrow> bytes" where
  "stream_key to_peer stream_name = strz to_peer @ strz stream_name"

text \<open>
  \<open>struct stream_packet\<close> with its C layout: the command at offset 0, the data length at 2, the name
  length at 4 and the data from 5 on; its size is 6, so a packet ends with a byte that is never
  written. Bytes the code does not write are 0 here.
\<close>

definition stream_packet :: "u8 \<Rightarrow> bytes \<Rightarrow> bytes \<Rightarrow> bytes" where
  "stream_packet cmd stream_name data =
     (let stream_name_len = length stream_name + 1;
          sp_name_len = (of_nat stream_name_len :: u8)
      in [cmd, 0] @ enc_u16 (of_nat (length data)) @ [sp_name_len] @
         take (unat sp_name_len) (strz stream_name) @ replicate (stream_name_len - unat sp_name_len) 0 @
         data @ [0])"

definition st_cmd :: "bytes \<Rightarrow> u8" where "st_cmd d = byte_at d 0"
definition st_data_len :: "bytes \<Rightarrow> nat" where "st_data_len d = unat (dec_u16 (drop 2 d))"
definition st_name_len :: "bytes \<Rightarrow> nat" where "st_name_len d = unat (byte_at d 4)"
definition st_data :: "bytes \<Rightarrow> bytes" where "st_data d = drop 5 d"

definition ksnStreamSendTo :: "bytes \<Rightarrow> bytes \<Rightarrow> u8 \<Rightarrow> bytes \<Rightarrow> ksnetEvMgr \<Rightarrow> ksnetEvMgr" where
  "ksnStreamSendTo to_peer stream_name cmd data ke =
     snd (ksnCoreSendCmdto to_peer CMD_STREAM (stream_packet cmd stream_name data) ke)"

section \<open>Closing\<close>

definition ksnStreamClose :: "bytes \<Rightarrow> bytes \<Rightarrow> u8 \<Rightarrow> ksnetEvMgr \<Rightarrow> ksnetEvMgr" where
  "ksnStreamClose to_peer stream_name send_f ke =
     (let key = stream_key to_peer stream_name
      in case pblMapGet (ks_map ke) key of
           None \<Rightarrow> ke
         | Some smd \<Rightarrow>
             let ke1 = (if st_created smd
                        then let ke2 = emit [IoStop (fst (st_pipe_in smd)), IoStop (fst (st_pipe_out smd))] ke;
                                 ke3 = (if send_f \<noteq> CMD_ST_CLOSE_GOT
                                        then ksnStreamSendTo to_peer stream_name CMD_ST_CLOSE [] ke2 else ke2)
                             in event_cb EV_K_STREAM_DISCONNECTED (EvKey key) ke3
                        else ke)
             in if send_f \<noteq> CMD_ST_CLOSE_NOTREMOVE
                then ke1\<lparr>ks_map := pblMapRemoveFrom (ks_map ke1) key\<rparr> else ke1)"

text \<open>The peer and stream name that \<open>ksnStreamClose\<close> gets from a key.\<close>

definition key_peer :: "bytes \<Rightarrow> bytes" where "key_peer key = cstr key"
definition key_stream :: "bytes \<Rightarrow> bytes" where "key_stream key = cstr (drop (length (cstr key) + 1) key)"

definition ksnStreamCloseAll :: "ksnetEvMgr \<Rightarrow> ksnetEvMgr" where
  "ksnStreamCloseAll ke =
     (let ke1 = fold (\<lambda>(key, smd) ke. ksnStreamClose (key_peer key) (key_stream key) CMD_ST_CLOSE_NOTREMOVE ke)
                  (pblMapEntries (ks_map ke)) ke
      in ke1\<lparr>ks_map := pblMapClear (ks_map ke1)\<rparr>)"

text \<open>
  \<open>ksnStreamClosePeer\<close> closes the first stream of the peer and calls itself. Every call but the
  last removes a stream, so the number of streams bounds the depth.
\<close>

fun ksnStreamClosePeer_rec :: "nat \<Rightarrow> bytes \<Rightarrow> ksnetEvMgr \<Rightarrow> ksnetEvMgr" where
  "ksnStreamClosePeer_rec 0 peer_name ke = emit [Diverge] ke"
| "ksnStreamClosePeer_rec (Suc fuel) peer_name ke =
     (case find (\<lambda>(key, smd). key_peer key = peer_name) (pblMapEntries (ks_map ke)) of
        None \<Rightarrow> ke
      | Some (key, smd) \<Rightarrow>
          ksnStreamClosePeer_rec fuel peer_name
            (ksnStreamClose (key_peer key) (key_stream key) CMD_ST_CLOSE_GOT ke))"

definition ksnStreamClosePeer :: "bytes \<Rightarrow> ksnetEvMgr \<Rightarrow> ksnetEvMgr" where
  "ksnStreamClosePeer peer_name ke = ksnStreamClosePeer_rec (pblMapSize (ks_map ke) + 1) peer_name ke"

section \<open>Watchers and callbacks\<close>

definition connect_watchers :: "bytes \<Rightarrow> ksnStreamMapData \<Rightarrow> ksnetEvMgr \<Rightarrow> ksnetEvMgr" where
  "connect_watchers key smd ke =
     event_cb EV_K_STREAM_CONNECTED (EvKey key)
       ((emit [IoStart (fst (st_pipe_in smd)), IoStart (fst (st_pipe_out smd))] ke)
          \<lparr>ks_map := pblMapStore (ks_map ke) key (\<lambda>d. d\<lparr>st_created := True\<rparr>)\<rparr>)"

text \<open>The timeout and success callback of a stream that is being created.\<close>

definition kq_connect_cb :: "u32 \<Rightarrow> int \<Rightarrow> bytes \<Rightarrow> ksnetEvMgr \<Rightarrow> ksnetEvMgr" where
  "kq_connect_cb i type key ke =
     (case pblMapGet (ks_map ke) key of
        None \<Rightarrow> emit [Fault] ke
      | Some smd \<Rightarrow>
          if st_cq smd \<noteq> Some i then emit [Fault] ke
          else if type = 0
          then ksnStreamClose (key_peer (st_key smd)) (key_stream (st_key smd)) CMD_ST_CLOSE_GOT
                 (event_cb EV_K_STREAM_CONNECT_TIMEOUT (EvKey (st_key smd)) ke)
          else ke)"

text \<open>\<open>ksnStreamGetDataFromMap\<close>: stream name, peer name, output and input descriptor.\<close>

definition ksnStreamGetDataFromMap :: "ksnStreamMapData \<Rightarrow> bytes \<times> bytes \<times> int \<times> int" where
  "ksnStreamGetDataFromMap smd =
     (key_stream (st_key smd), key_peer (st_key smd), snd (st_pipe_out smd), fst (st_pipe_in smd))"

definition stream_in_cb :: "ksnStreamMapData \<Rightarrow> ksnetEvMgr \<Rightarrow> ksnetEvMgr" where
  "stream_in_cb smd ke = event_cb EV_K_STREAM_DATA (EvKey (st_key smd)) ke"

text \<open>\<open>input\<close> is what the read of the output pipe returns, None for an error.\<close>

definition stream_out_cb :: "ksnStreamMapData \<Rightarrow> bytes option \<Rightarrow> ksnetEvMgr \<Rightarrow> ksnetEvMgr" where
  "stream_out_cb smd input ke =
     (case input of
        None \<Rightarrow> ke
      | Some buf \<Rightarrow> ksnStreamSendTo (key_peer (st_key smd)) (key_stream (st_key smd)) CMD_ST_DATA buf ke)"

section \<open>Invariant and what closing does\<close>

text \<open>Every stream lies under the key of its peer and stream name, and knows it.\<close>

definition stream_wf :: "ksnetEvMgr \<Rightarrow> bool" where
  "stream_wf ke \<longleftrightarrow> (\<forall>key smd. pblMapGet (ks_map ke) key = Some smd \<longrightarrow>
     st_key smd = key \<and> (\<exists>p n. key = stream_key p n \<and> 0 \<notin> set p \<and> 0 \<notin> set n))"

lemma key_parts:
  assumes "0 \<notin> set p" and "0 \<notin> set n"
  shows "key_peer (stream_key p n) = p" "key_stream (stream_key p n) = n"
proof -
  have c: "cstr (strz p @ x) = p" "cstr (strz n) = n" for x
    using assms by (simp_all add: cstr_strz_append cstr_strz)
  have "drop (length p + 1) (strz p @ strz n) = strz n" by (simp add: strz_def)
  then show "key_peer (stream_key p n) = p" "key_stream (stream_key p n) = n"
    by (simp_all add: key_peer_def key_stream_def stream_key_def c)
qed

lemma stream_wf_key:
  assumes "stream_wf ke" and "pblMapGet (ks_map ke) key = Some smd"
  shows "stream_key (key_peer key) (key_stream key) = key" "st_key smd = key"
  using assms key_parts unfolding stream_wf_def by metis+

lemma streamSendTo_fields [simp]:
  "ka (ksnStreamSendTo p n c d ke) = ka ke" "kq (ksnStreamSendTo p n c d ke) = kq ke"
  "kr_map (ksnStreamSendTo p n c d ke) = kr_map ke" "ks_map (ksnStreamSendTo p n c d ke) = ks_map ke"
  "ksscr_map (ksnStreamSendTo p n c d ke) = ksscr_map ke" "faults (ksnStreamSendTo p n c d ke) = faults ke"
  "ke_env (ksnStreamSendTo p n c d ke) = ke_env ke" "cfg_r_host_name (ksnStreamSendTo p n c d ke) = cfg_r_host_name ke"
  "ke_event_cb (ksnStreamSendTo p n c d ke) = ke_event_cb ke"
  by (simp_all add: ksnStreamSendTo_def)

lemma streamClose_fields [simp]:
  "ka (ksnStreamClose p n f ke) = ka ke" "kq (ksnStreamClose p n f ke) = kq ke"
  "kr_map (ksnStreamClose p n f ke) = kr_map ke" "ksscr_map (ksnStreamClose p n f ke) = ksscr_map ke"
  "faults (ksnStreamClose p n f ke) = faults ke" "cfg_r_host_name (ksnStreamClose p n f ke) = cfg_r_host_name ke"
  "ke_env (ksnStreamClose p n f ke) = ke_env ke" "ke_event_cb (ksnStreamClose p n f ke) = ke_event_cb ke"
  by (simp_all add: ksnStreamClose_def Let_def split: option.split)

lemma streamClose_map:
  "f \<noteq> CMD_ST_CLOSE_NOTREMOVE \<Longrightarrow>
   ks_map (ksnStreamClose p n f ke) = pblMapRemoveFrom (ks_map ke) (stream_key p n)"
  by (auto simp: ksnStreamClose_def Let_def map_simps split: option.split)

lemma stream_wf_close: "stream_wf ke \<Longrightarrow> stream_wf (ksnStreamClose p n f ke)"
  by (cases "f = CMD_ST_CLOSE_NOTREMOVE")
     (auto simp: stream_wf_def streamClose_map map_simps ksnStreamClose_def Let_def split: option.split)

lemma closePeer_rec:
  assumes "stream_wf ke" and "pblMapSize (ks_map ke) < fuel"
  shows "faults (ksnStreamClosePeer_rec fuel peer ke) = faults ke \<and>
    stream_wf (ksnStreamClosePeer_rec fuel peer ke) \<and> ka (ksnStreamClosePeer_rec fuel peer ke) = ka ke \<and>
    kq (ksnStreamClosePeer_rec fuel peer ke) = kq ke \<and> kr_map (ksnStreamClosePeer_rec fuel peer ke) = kr_map ke \<and>
    pblMapGet (ks_map (ksnStreamClosePeer_rec fuel peer ke)) =
      (\<lambda>key. if key_peer key = peer then None else pblMapGet (ks_map ke) key)"
  using assms
proof (induction fuel arbitrary: ke)
  case (Suc fuel)
  let ?P = "\<lambda>(key, smd :: ksnStreamMapData). key_peer key = peer"
  show ?case
  proof (cases "find ?P (pblMapEntries (ks_map ke))")
    case None
    then have "\<forall>key smd. pblMapGet (ks_map ke) key = Some smd \<longrightarrow> key_peer key \<noteq> peer"
      by (simp add: pm.search_None)
    then have "pblMapGet (ks_map ke) = (\<lambda>key. if key_peer key = peer then None else pblMapGet (ks_map ke) key)"
      by (intro ext) (metis option.exhaust)
    then show ?thesis using None Suc.prems by simp
  next
    case (Some e)
    obtain key smd where e: "e = (key, smd)" by fastforce
    have key: "pblMapGet (ks_map ke) key = Some smd" "key_peer key = peer"
      using pm.search_Some [of ?P "ks_map ke" key smd] Some e by auto
    let ?ke = "ksnStreamClose (key_peer key) (key_stream key) CMD_ST_CLOSE_GOT ke"
    have m: "ks_map ?ke = pblMapRemoveFrom (ks_map ke) key"
      using stream_wf_key(1) [OF Suc.prems(1) key(1)] by (simp add: streamClose_map CMD_ST_defs)
    have "0 < pblMapSize (ks_map ke)"
      using key(1) by (metis entries_length entries_mem length_pos_if_in_set)
    then have "pblMapSize (ks_map ?ke) < fuel"
      using Suc.prems(2) key(1) by (simp add: m map_simps)
    note IH = Suc.IH [OF stream_wf_close [OF Suc.prems(1)] this]
    have "pblMapGet (ks_map ?ke) = (pblMapGet (ks_map ke))(key := None)" unfolding m by (simp add: map_simps)
    then have "(\<lambda>k. if key_peer k = peer then None else pblMapGet (ks_map ?ke) k) =
        (\<lambda>k. if key_peer k = peer then None else pblMapGet (ks_map ke) k)"
      using key(2) by (auto simp: fun_eq_iff)
    then show ?thesis using IH Some e by simp
  qed
qed simp

lemma closePeer_facts:
  assumes "stream_wf ke"
  shows "faults (ksnStreamClosePeer peer ke) = faults ke" "stream_wf (ksnStreamClosePeer peer ke)"
    "ka (ksnStreamClosePeer peer ke) = ka ke" "kq (ksnStreamClosePeer peer ke) = kq ke"
    "kr_map (ksnStreamClosePeer peer ke) = kr_map ke"
    "pblMapGet (ks_map (ksnStreamClosePeer peer ke)) =
      (\<lambda>key. if key_peer key = peer then None else pblMapGet (ks_map ke) key)"
  using closePeer_rec [OF assms, of "pblMapSize (ks_map ke) + 1"] by (simp_all add: ksnStreamClosePeer_def)

text \<open>
  C21: closing the streams of a peer ends (the recursion stops after at most one call per stream),
  leaves no stream of that peer, and leaves every stream of another peer as it was.
\<close>

theorem stream_close_peer:
  assumes "stream_wf ke"
  shows "pblMapGet (ks_map (ksnStreamClosePeer peer ke)) =
      (\<lambda>key. if key_peer key = peer then None else pblMapGet (ks_map ke) key) \<and>
    faults (ksnStreamClosePeer peer ke) = faults ke \<and> stream_wf (ksnStreamClosePeer peer ke)"
  using closePeer_facts [OF assms] by simp

definition example_smd :: "bytes \<Rightarrow> bytes \<Rightarrow> ksnStreamMapData" where
  "example_smd p n = \<lparr>st_created = True, st_pipe_in = (5, 6), st_pipe_out = (7, 8), st_key = stream_key p n, st_cq = None\<rparr>"

definition stream_node :: ksnetEvMgr where
  "stream_node = (exampleNode [97])
     \<lparr>ks_map := pblMapAddTo pblMapNewHashMap (stream_key [98] [115]) (example_smd [98] [115])\<rparr>"

lemma stream_node_get: "pblMapGet (ks_map stream_node) k = (if k = stream_key [98] [115] then Some (example_smd [98] [115]) else None)"
  by (simp add: stream_node_def map_simps)

lemma stream_node_wf: "stream_wf stream_node"
  unfolding stream_wf_def stream_node_get
  by (auto simp: example_smd_def) (rule exI [of _ "[98]"], rule exI [of _ "[115]"], simp)

theorem stream_close_peer_witness:
  "pblMapGet (ks_map (ksnStreamClosePeer [98] stream_node)) (stream_key [98] [115]) = None"
  using stream_close_peer [OF stream_node_wf, of "[98]"] key_parts(1) [of "[98]" "[115]"] by simp

end
