(* ===== verification/Connect.thy ===== *)
theory Connect
  imports Stream
begin

text \<open>
  Packets of the connection commands (commands_creator.c), the sends that introduce peers to each
  other (net_com.c, net_core.c), and the removal of peers from the ARP table (net_arp.c).
\<close>

section \<open>Strings and IP addresses (utils.c)\<close>

definition is_digit :: "u8 \<Rightarrow> bool" where "is_digit c \<longleftrightarrow> 48 \<le> c \<and> c \<le> 57"

definition atoi :: "bytes \<Rightarrow> int" where
  "atoi s =
     (let t = dropWhile (\<lambda>c. c = 32 \<or> (9 \<le> c \<and> c \<le> 13)) s;
          neg = (t \<noteq> [] \<and> hd t = 45);
          u = (if t \<noteq> [] \<and> (hd t = 45 \<or> hd t = 43) then tl t else t);
          v = foldl (\<lambda>n c. 10 * n + (uint c - 48)) 0 (takeWhile is_digit u)
      in if neg then - v else v)"

text \<open>\<open>strtok\<close> by one separator: the non-empty pieces.\<close>

fun strtok_all :: "u8 \<Rightarrow> bytes \<Rightarrow> bytes \<Rightarrow> bytes list" where
  "strtok_all sep piece [] = (if piece = [] then [] else [piece])"
| "strtok_all sep piece (c # cs) =
     (if c = sep then (if piece = [] then [] else [piece]) @ strtok_all sep [] cs
      else strtok_all sep (piece @ [c]) cs)"

definition ip_to_array :: "bytes \<Rightarrow> u8 list" where
  "ip_to_array ip = map (\<lambda>s. of_int (atoi s)) (take 4 (strtok_all 46 [] ip))"

definition ip_is_private :: "bytes \<Rightarrow> bool" where
  "ip_is_private ip =
     (let a = ip_to_array ip
      in byte_at a 0 = 10 \<or> (byte_at a 0 = 192 \<and> byte_at a 1 = 168) \<or>
         (byte_at a 0 = 172 \<and> byte_at a 1 \<ge> 16 \<and> byte_at a 1 \<le> 31))"

section \<open>Packets (commands_creator.c)\<close>

definition MAX_IP_STR_LEN :: nat where "MAX_IP_STR_LEN = 16"

text \<open>\<open>connect_r_packet_t\<close>, packed: port, number of addresses, type in 64 bytes, addresses.\<close>

definition cr_ip_counts :: "bytes \<Rightarrow> u8" where "cr_ip_counts d = byte_at d 4"
definition cr_type :: "bytes \<Rightarrow> bytes" where "cr_type d = cstr (drop 5 d)"

text \<open>The result is None when an assertion fails and the program aborts.\<close>

definition createCmdConnectRPacketUdp :: "ksnetEvMgr \<Rightarrow> bytes option" where
  "createCmdConnectRPacketUdp ke =
     (let ips = env_ips (ke_env ke);
          len = unat (of_nat (length ips) :: u8);
          full_type = teoGetFullAppTypeFromHostInfo (teoGetHostInfo ke);
          private = filter ip_is_private (take len ips);
          area = concat (map strz private)
      in if length full_type < 64 \<and> length area \<le> len * MAX_IP_STR_LEN
         then Some (enc_u32 (of_int (kc_port ke)) @ [of_nat (length private)] @ strncpy full_type 64 @
                    area @ replicate (len * MAX_IP_STR_LEN - length area) 0)
         else None)"

definition createCmdConnectRPacketTcp :: "ksnetEvMgr \<Rightarrow> bytes" where
  "createCmdConnectRPacketTcp ke = [0]"

definition createCmdConnectPacket :: "ksnetEvMgr \<Rightarrow> bytes \<Rightarrow> bytes \<Rightarrow> u32 \<Rightarrow> bytes" where
  "createCmdConnectPacket ke name addr port =
     strz name @ strz addr @ strz (teoGetFullAppTypeFromHostInfo (teoGetHostInfo ke)) @ enc_u32 port"

definition createCmdResendPacket :: "bytes \<Rightarrow> u8 \<Rightarrow> bytes \<Rightarrow> bytes" where
  "createCmdResendPacket to cmd data = strz to @ [cmd] @ data"

section \<open>Sending (net_com.c, net_core.c)\<close>

definition ksnCommandSendCmdConnect :: "bytes \<Rightarrow> bytes \<Rightarrow> bytes \<Rightarrow> int \<Rightarrow> ksnetEvMgr \<Rightarrow> bool \<times> ksnetEvMgr" where
  "ksnCommandSendCmdConnect to name addr port ke =
     (case ksnCoreSendCmdto to CMD_CONNECT (createCmdConnectPacket ke name addr (of_int port)) ke of
        (arp, ke') \<Rightarrow> (arp \<noteq> None, ke'))"

definition ksnCommandSendCmdConnectA ::
  "bytes \<Rightarrow> int \<Rightarrow> bytes \<Rightarrow> bytes \<Rightarrow> int \<Rightarrow> ksnetEvMgr \<Rightarrow> bool \<times> ksnetEvMgr" where
  "ksnCommandSendCmdConnectA to_addr to_port name addr port ke =
     ksnCoreSendto to_addr to_port CMD_CONNECT (createCmdConnectPacket ke name addr (of_int port)) ke"

definition ksnCommandEchoBuffer :: "ksnetEvMgr \<Rightarrow> bytes \<Rightarrow> bytes" where
  "ksnCommandEchoBuffer ke data = data @ double_enc (ke_env ke) (ksnetEvMgrGetTime ke)"

definition ksnCommandSendCmdEcho :: "bytes \<Rightarrow> bytes \<Rightarrow> ksnetEvMgr \<Rightarrow> bool \<times> ksnetEvMgr" where
  "ksnCommandSendCmdEcho to data ke =
     (case ksnCoreSendCmdto to CMD_ECHO (ksnCommandEchoBuffer ke data) ke of
        (None, ke') \<Rightarrow> (False, ke')
      | (Some name, ke') \<Rightarrow>
          (True, arp_store name (\<lambda>a. a\<lparr>arp_last_triptime_send := ksnetEvMgrGetTime ke'\<rparr>) ke'))"

text \<open>\<open>from\<close>, \<open>addr\<close> and \<open>port\<close> are the fields of the received packet the callbacks read.\<close>

definition send_cmd_connect_cb ::
  "bytes \<Rightarrow> bytes \<Rightarrow> int \<Rightarrow> bytes \<Rightarrow> ksnet_arp_data_ext \<Rightarrow> ksnetEvMgr \<Rightarrow> bool \<times> ksnetEvMgr" where
  "send_cmd_connect_cb from addr port peer_name arp ke =
     (False, if peer_name \<noteq> from then snd (ksnCommandSendCmdConnect peer_name from addr port ke) else ke)"

definition send_cmd_connect_cb_b ::
  "bytes \<Rightarrow> bytes \<Rightarrow> int \<Rightarrow> bytes \<Rightarrow> ksnet_arp_data_ext \<Rightarrow> ksnetEvMgr \<Rightarrow> bool \<times> ksnetEvMgr" where
  "send_cmd_connect_cb_b from addr port peer_name arp ke =
     (False, if peer_name \<noteq> from
             then snd (ksnCommandSendCmdConnectA addr port peer_name (arp_addr arp) (arp_port arp) ke) else ke)"

definition send_cmd_connected_cb ::
  "bytes \<Rightarrow> ksnet_arp_data_ext \<Rightarrow> bytes \<Rightarrow> bytes \<Rightarrow> int \<Rightarrow> ksnetEvMgr \<Rightarrow> ksnetEvMgr" where
  "send_cmd_connected_cb child_peer arp_data new_peer addr port ke =
     (if child_peer \<noteq> new_peer
      then let ke1 = snd (ksnCommandSendCmdConnect new_peer child_peer (arp_addr arp_data) (arp_port arp_data) ke)
           in snd (ksnCommandSendCmdConnect child_peer new_peer addr port ke1)
      else ke)"

definition send_cmd_disconnect_cb ::
  "bytes option \<Rightarrow> bytes \<Rightarrow> ksnet_arp_data_ext \<Rightarrow> ksnetEvMgr \<Rightarrow> bool \<times> ksnetEvMgr" where
  "send_cmd_disconnect_cb data name arp ke =
     (False, snd (ksnCoreSendto (arp_addr arp) (arp_port arp) CMD_DISCONNECTED
                    (case data of None \<Rightarrow> [] | Some d \<Rightarrow> strz d) ke))"

definition send_cmd_disconnect_peer_cb ::
  "bytes \<Rightarrow> ksnet_arp_data_ext \<Rightarrow> ksnetEvMgr \<Rightarrow> bool \<times> ksnetEvMgr" where
  "send_cmd_disconnect_peer_cb name arp ke =
     (False, if arp_mode arp = 2 then snd (ksnetArpGetAll ke (send_cmd_disconnect_cb (Some name)) ke) else ke)"

text \<open>\<open>ksnCoreDestroy\<close>: the sends that say goodbye.\<close>

definition ksnCoreDestroy_sends :: "ksnetEvMgr \<Rightarrow> ksnetEvMgr" where
  "ksnCoreDestroy_sends ke =
     (let ke1 = snd (ksnetArpGetAll ke send_cmd_disconnect_peer_cb ke)
      in snd (ksnetArpGetAll ke1 (send_cmd_disconnect_cb None) ke1))"

section \<open>Removing peers (net_arp.c)\<close>

definition ksnetArpRemove :: "bytes \<Rightarrow> ksnetEvMgr \<Rightarrow> bool \<times> ksnetEvMgr" where
  "ksnetArpRemove name ke =
     (case pblMapRemove (ka ke) (strz name) of
        (arp, m) \<Rightarrow>
          let ke1 = ke\<lparr>ka := m\<rparr>;
              ke2 = (case arp of None \<Rightarrow> ke1
                     | Some a \<Rightarrow> channel_destroy (arp_addr a) (arp_port a) ke1)
          in (arp \<noteq> None, ksnStreamClosePeer name ke2))"

definition ksnetArpRemoveAll :: "ksnetEvMgr \<Rightarrow> ksnetEvMgr" where
  "ksnetArpRemoveAll ke =
     channel_destroy_all
       (ksnetArpAddHost (ke\<lparr>cfg_r_host_name := [], ka := pblMapNewHashMap\<rparr>))"

section \<open>Lemmas\<close>

lemma send_only_connect [simp]:
  "send_only ke (snd (ksnCommandSendCmdConnect to name addr port ke))"
  "send_only ke (snd (ksnCommandSendCmdConnectA to_addr to_port name addr port ke))"
  by (simp_all add: ksnCommandSendCmdConnect_def ksnCommandSendCmdConnectA_def split_def)

lemma send_only_callbacks [simp]:
  "send_only ke (snd (send_cmd_connect_cb from addr port name arp ke))"
  "send_only ke (snd (send_cmd_connect_cb_b from addr port name arp ke))"
  "send_only ke (snd (send_cmd_disconnect_cb d name arp ke))"
  "send_only ke (send_cmd_connected_cb child arp_data new_peer addr port ke)"
  by (auto simp: send_cmd_connect_cb_def send_cmd_connect_cb_b_def send_cmd_disconnect_cb_def
      send_cmd_connected_cb_def Let_def intro: send_only_trans [OF send_only_connect(1) send_only_connect(1)])

lemma send_only_iterate:
  assumes "\<And>name arp k. send_only k (snd (cb name arp k))"
  shows "send_only ke (snd (arp_iterate cb flag entries ke))"
proof (induction entries arbitrary: ke)
  case (Cons e entries)
  obtain key arp where e: "e = (key, arp)" by fastforce
  obtain r k where k: "cb (cstr key) arp ke = (r, k)" by fastforce
  have "send_only ke k" using assms [of ke "cstr key" arp] k by simp
  then show ?case using Cons.IH [of ke] Cons.IH [of k] k by (auto simp: e intro: send_only_trans split: bool.split)
qed simp

lemma send_only_getAll [simp]:
  "(\<And>name arp k. send_only k (snd (cb name arp k))) \<Longrightarrow> send_only ke (snd (ksnetArpGetAll ke0 cb ke))"
  by (simp add: ksnetArpGetAll_def ksnetArpGetAllFlag_def send_only_iterate)

lemma arpRemove_facts:
  assumes "stream_wf ke"
  shows "ksnetArpGet (snd (ksnetArpRemove name ke)) n = (if n = name then None else ksnetArpGet ke n)"
    "pblMapGet (ks_map (snd (ksnetArpRemove name ke))) =
      (\<lambda>key. if key_peer key = name then None else pblMapGet (ks_map ke) key)"
    "faults (snd (ksnetArpRemove name ke)) = faults ke" "stream_wf (snd (ksnetArpRemove name ke))"
    "kq (snd (ksnetArpRemove name ke)) = kq ke" "kr_map (snd (ksnetArpRemove name ke)) = kr_map ke"
    "fst (ksnetArpRemove name ke) \<longleftrightarrow> ksnetArpGet ke name \<noteq> None"
proof -
  obtain ke2 where ke2: "snd (ksnetArpRemove name ke) = ksnStreamClosePeer name ke2" "ks_map ke2 = ks_map ke"
    "faults ke2 = faults ke" "ka ke2 = pblMapRemoveFrom (ka ke) (strz name)" "kq ke2 = kq ke" "kr_map ke2 = kr_map ke"
    by (cases "pblMapGet (ka ke) (strz name)") (simp_all add: ksnetArpRemove_def pblMapRemove_def Let_def)
  have wf: "stream_wf ke2" using assms ke2(2) by (simp add: stream_wf_def)
  show "ksnetArpGet (snd (ksnetArpRemove name ke)) n = (if n = name then None else ksnetArpGet ke n)"
    unfolding ke2 ksnetArpGet_def closePeer_facts(3) [OF wf] by (simp add: map_simps)
  show "pblMapGet (ks_map (snd (ksnetArpRemove name ke))) =
      (\<lambda>key. if key_peer key = name then None else pblMapGet (ks_map ke) key)"
    unfolding ke2(1) closePeer_facts(6) [OF wf] ke2(2) ..
  show "faults (snd (ksnetArpRemove name ke)) = faults ke" "stream_wf (snd (ksnetArpRemove name ke))"
    "kq (snd (ksnetArpRemove name ke)) = kq ke" "kr_map (snd (ksnetArpRemove name ke)) = kr_map ke"
    unfolding ke2(1) using closePeer_facts(1,2,4,5) [OF wf] ke2 by simp_all
  show "fst (ksnetArpRemove name ke) \<longleftrightarrow> ksnetArpGet ke name \<noteq> None"
    by (simp add: ksnetArpRemove_def pblMapRemove_def ksnetArpGet_def Let_def)
qed

text \<open>
  Removing a peer takes exactly that peer out of the table, closes exactly its streams, and
  says whether there was such a peer.
\<close>

theorem arp_remove:
  assumes "stream_wf ke"
  shows "(fst (ksnetArpRemove name ke) \<longleftrightarrow> ksnetArpGet ke name \<noteq> None) \<and>
    ksnetArpGet (snd (ksnetArpRemove name ke)) n = (if n = name then None else ksnetArpGet ke n) \<and>
    pblMapGet (ks_map (snd (ksnetArpRemove name ke))) key =
      (if key_peer key = name then None else pblMapGet (ks_map ke) key) \<and>
    faults (snd (ksnetArpRemove name ke)) = faults ke"
  using arpRemove_facts [OF assms] by simp

theorem arp_remove_witness:
  "pblMapGet (ks_map (snd (ksnetArpRemove [98] stream_node))) (stream_key [98] [115]) = None"
  using arp_remove [OF stream_node_wf, of "[98]" "[98]" "stream_key [98] [115]"] key_parts(1) [of "[98]" "[115]"]
  by simp

end
