(* ===== verification/Recon.thy ===== *)
theory Recon
  imports Connect
begin

text \<open>
  Reconnecting to disconnected peers (net_recon.c). A peer that has been lost is entered in a map
  and asked for at the r-host; a callback queue record with a timeout of five seconds waits for
  the answer and repeats the request. The callback's pointer to the map record is alive when the
  record under its key waits for this queue record.
\<close>

section \<open>Operations\<close>

definition ksnReconnectSend :: "bytes \<Rightarrow> ksnetEvMgr \<Rightarrow> int \<times> ksnetEvMgr" where
  "ksnReconnectSend peer ke =
     (let r_host = cfg_r_host_name ke; key = strz peer
      in if r_host \<noteq> [] \<and> ksnetArpGet ke r_host \<noteq> None
         then if pblMapGet (kr_map ke) key = None
              then case pblMapAdd (kr_map ke) key \<lparr>rm_cq = None, rm_peer = None\<rparr> of
                     (rc, m) \<Rightarrow>
                       let ke1 = ke\<lparr>kr_map := m\<rparr>
                       in if rc \<ge> 0
                          then case ksnCoreSendCmdto r_host CMD_RECONNECT (strz peer) ke1 of
                                 (None, ke2) \<Rightarrow> (-1, ke2\<lparr>kr_map := pblMapRemoveFrom (kr_map ke2) key\<rparr>)
                               | (Some arp_data, ke2) \<Rightarrow>
                                   if pblMapGet (kr_map ke2) key \<noteq> None
                                   then let ke3 = ke2\<lparr>kr_map := pblMapStore (kr_map ke2) key (\<lambda>d. d\<lparr>rm_peer := Some peer\<rparr>)\<rparr>
                                        in case ke_CQueAdd (Some ReconnectCb) 5 (ReconnectReq key) ke3 of
                                             (cq, ke4) \<Rightarrow>
                                               (0, ke4\<lparr>kr_map := pblMapStore (kr_map ke4) key
                                                          (\<lambda>d. d\<lparr>rm_cq := map_option cq_id cq\<rparr>)\<rparr>)
                                   else (-2, ke2)
                          else (-2, ke1)
              else (1, ke)
         else (-1, ke))"

definition ksnReconnectSendAnswer :: "bytes \<Rightarrow> bytes \<Rightarrow> ksnetEvMgr \<Rightarrow> int \<times> ksnetEvMgr" where
  "ksnReconnectSendAnswer peer peer_to_reconnect ke =
     (case ksnCoreSendCmdto peer CMD_RECONNECT_ANSWER (strz peer_to_reconnect) ke of
        (arp, ke') \<Rightarrow> (if arp = None then -1 else 0, ke'))"

definition ksnReconnectProcess :: "ksnCorePacketData \<Rightarrow> ksnetEvMgr \<Rightarrow> int \<times> ksnetEvMgr" where
  "ksnReconnectProcess rd ke =
     (let peer = cstr (rd_data rd); from = cstr (rd_from rd)
      in (1, case ksnetArpGet ke peer of
               None \<Rightarrow> snd (ksnReconnectSendAnswer from peer ke)
             | Some arp_data \<Rightarrow> send_cmd_connected_cb peer arp_data from (rd_addr rd) (rd_port rd) ke))"

definition ksnReconnectCQueCallback :: "u32 \<Rightarrow> int \<Rightarrow> bytes \<Rightarrow> ksnetEvMgr \<Rightarrow> ksnetEvMgr" where
  "ksnReconnectCQueCallback i type key ke =
     (case pblMapGet (kr_map ke) key of
        None \<Rightarrow> emit [Fault] ke
      | Some md \<Rightarrow>
          if rm_cq md \<noteq> Some i then emit [Fault] ke
          else case rm_peer md of
                 None \<Rightarrow> emit [Fault] ke
               | Some peer \<Rightarrow>
                   (case pblMapRemove (kr_map ke) (strz peer) of
                      (None, m) \<Rightarrow> ke
                    | (Some md', m) \<Rightarrow>
                        let ke1 = ke\<lparr>kr_map := m\<rparr>
                        in if type = 0
                           then if ksnetArpGet ke1 peer \<noteq> None then ke1 else snd (ksnReconnectSend peer ke1)
                           else ke1))"

section \<open>Invariant\<close>

text \<open>
  A pending request and its queue record belong together: every request waits for a live record
  whose callback and data are the request's, and every live record with the reconnect callback is
  the one its request waits for. While a record is executed its request is already gone; \<open>X\<close> is
  the set of the records being executed.
\<close>

definition recon_req :: "u32 set \<Rightarrow> ksnetEvMgr \<Rightarrow> bytes \<Rightarrow> reconnect_map_data \<Rightarrow> bool" where
  "recon_req X ke key md \<longleftrightarrow> (\<exists>peer i cq. rm_peer md = Some peer \<and> key = strz peer \<and> rm_cq md = Some i \<and> i \<notin> X \<and>
     cq_get (kq ke) i = Some cq \<and> cq_cb cq = Some ReconnectCb \<and> cq_data cq = ReconnectReq key)"

definition recon_cq :: "ksnetEvMgr \<Rightarrow> u32 \<Rightarrow> ksnCQueData \<Rightarrow> bool" where
  "recon_cq ke i cq \<longleftrightarrow> (cq_cb cq = Some ReconnectCb \<longrightarrow>
     (\<exists>key md. cq_data cq = ReconnectReq key \<and> pblMapGet (kr_map ke) key = Some md \<and> rm_cq md = Some i))"

definition recon_inv :: "u32 set \<Rightarrow> ksnetEvMgr \<Rightarrow> bool" where
  "recon_inv X ke \<longleftrightarrow> (\<forall>key md. pblMapGet (kr_map ke) key = Some md \<longrightarrow> recon_req X ke key md) \<and>
     (\<forall>i cq. i \<notin> X \<longrightarrow> cq_get (kq ke) i = Some cq \<longrightarrow> recon_cq ke i cq)"

lemma recon_inv_req: "recon_inv X ke \<Longrightarrow> pblMapGet (kr_map ke) key = Some md \<Longrightarrow> recon_req X ke key md"
  and recon_inv_cq: "recon_inv X ke \<Longrightarrow> i \<notin> X \<Longrightarrow> cq_get (kq ke) i = Some cq \<Longrightarrow> recon_cq ke i cq"
  by (simp_all add: recon_inv_def)

lemma recon_req_live:
  assumes "recon_req X ke key md"
  obtains peer i cq where "rm_peer md = Some peer" and "key = strz peer" and "rm_cq md = Some i" and "i \<notin> X"
    and "cq_get (kq ke) i = Some cq" and "cq_cb cq = Some ReconnectCb" and "cq_data cq = ReconnectReq key"
  using assms unfolding recon_req_def by blast

lemma recon_cq_live:
  assumes "recon_cq ke i cq" and "cq_cb cq = Some ReconnectCb"
  obtains key md where "cq_data cq = ReconnectReq key" and "pblMapGet (kr_map ke) key = Some md" and "rm_cq md = Some i"
  using assms unfolding recon_cq_def by blast

text \<open>Room for one more record in the queue, under an identifier that is not in use.\<close>

definition cque_ready :: "ksnetEvMgr \<Rightarrow> bool" where
  "cque_ready ke \<longleftrightarrow> cque_below (kq ke) \<and> cqueRoom (kq ke) \<and> cq_next_id (kq ke) < 0xFFFFFFFF"

lemma recon_inv_cong: "kr_map ke' = kr_map ke \<Longrightarrow> kq ke' = kq ke \<Longrightarrow> recon_inv X ke' \<longleftrightarrow> recon_inv X ke"
  by (simp add: recon_inv_def recon_req_def recon_cq_def)

lemma cque_fresh:
  assumes "cque_ready ke"
  shows "cq_get (kq ke) (cqueNextId (kq ke)) = None"
proof -
  have "cq_next_id (kq ke) \<le> cqueNextId (kq ke)" by (simp add: cqueNextId_def)
  then show ?thesis using assms unfolding cque_ready_def cque_below_def by (metis leD)
qed

lemma ke_CQueAdd_room:
  assumes "cque_ready ke"
  obtains ke' where "ke_CQueAdd cb timeout data ke =
      (Some \<lparr>cq_cb = cb, cq_timeout = (if timeout > 0 then Some timeout else None), cq_id = cqueNextId (kq ke), cq_data = data\<rparr>, ke')"
    and "cq_get (kq ke') = (cq_get (kq ke))(cqueNextId (kq ke) \<mapsto>
      \<lparr>cq_cb = cb, cq_timeout = (if timeout > 0 then Some timeout else None), cq_id = cqueNextId (kq ke), cq_data = data\<rparr>)"
    and "kr_map ke' = kr_map ke" and "ka ke' = ka ke" and "ks_map ke' = ks_map ke" and "faults ke' = faults ke"
    and "cfg_r_host_name ke' = cfg_r_host_name ke"
    and "cq_next_id (kq ke') = cqueNextId (kq ke) + 1"
proof -
  obtain m where m: "ksnCQueAdd (kq ke) cb timeout data =
      (Some \<lparr>cq_cb = cb, cq_timeout = (if timeout > 0 then Some timeout else None), cq_id = cqueNextId (kq ke), cq_data = data\<rparr>,
       (kq ke)\<lparr>cq_next_id := cqueNextId (kq ke) + 1, cque_map := m\<rparr>,
       if timeout > 0 then [TimerStart (cqueNextId (kq ke)) timeout] else [])"
    "pblMapGet m = (pblMapGet (cque_map (kq ke)))(enc_u32 (cqueNextId (kq ke)) \<mapsto>
      \<lparr>cq_cb = cb, cq_timeout = (if timeout > 0 then Some timeout else None), cq_id = cqueNextId (kq ke), cq_data = data\<rparr>)"
    using assms ksnCQueAdd_room [of "kq ke"] unfolding cque_ready_def by blast
  show thesis
    by (rule that, simp add: ke_CQueAdd_def m(1))
       (auto simp: fun_eq_iff cq_get_def m(2))
qed

text \<open>Entering a request with its record, and taking both out.\<close>

lemma recon_inv_enter:
  assumes "recon_inv X ke" and "cq_get (kq ke) i = None" and "i \<notin> X" and "pblMapGet (kr_map ke) key = None" and "key = strz peer"
    and "cq_get (kq ke') = (cq_get (kq ke))(i \<mapsto> cq)" and "cq_cb cq = Some ReconnectCb" and "cq_data cq = ReconnectReq key"
    and "pblMapGet (kr_map ke') = (pblMapGet (kr_map ke))(key \<mapsto> \<lparr>rm_cq = Some i, rm_peer = Some peer\<rparr>)"
  shows "recon_inv X ke'"
proof -
  have req: "recon_req X ke' k md" if md: "pblMapGet (kr_map ke') k = Some md" for k md
  proof (cases "k = key")
    case True
    then show ?thesis using md assms by (auto simp: recon_req_def)
  next
    case False
    then have "recon_req X ke k md" using md assms(1,9) by (simp add: recon_inv_def)
    then show ?thesis using assms(2,6) by (fastforce simp: recon_req_def)
  qed
  have cq: "recon_cq ke' j c" if c: "cq_get (kq ke') j = Some c" and j: "j \<notin> X" for j c
  proof (cases "j = i")
    case True
    then show ?thesis using c assms by (auto simp: recon_cq_def)
  next
    case False
    then have "recon_cq ke j c" using c j assms(1,6) by (simp add: recon_inv_def)
    then show ?thesis using assms(4,9) by (fastforce simp: recon_cq_def)
  qed
  from req cq show ?thesis by (simp add: recon_inv_def)
qed

lemma ksnReconnectSend_cases:
  obtains (offline) "cfg_r_host_name ke = [] \<or> ksnetArpGet ke (cfg_r_host_name ke) = None"
      and "ksnReconnectSend peer ke = (-1, ke)"
  | (running) "pblMapGet (kr_map ke) (strz peer) \<noteq> None" and "ksnReconnectSend peer ke = (1, ke)"
  | (full) "pblMapGet (kr_map ke) (strz peer) = None" and "ksnReconnectSend peer ke = (-2, ke)"
      and "\<not> pblMapRoom (kr_map ke) (strz peer)"
  | (sent) ke3 m where "cfg_r_host_name ke \<noteq> []" and "ksnetArpGet ke (cfg_r_host_name ke) \<noteq> None"
      and "pblMapGet (kr_map ke) (strz peer) = None"
      and "send_only (ke\<lparr>kr_map := m\<rparr>) ke3"
      and "ke3 = snd (ksnCoreSendCmdto (cfg_r_host_name ke) CMD_RECONNECT (strz peer) (ke\<lparr>kr_map := m\<rparr>))"
      and "pblMapGet m = (pblMapGet (kr_map ke))(strz peer \<mapsto> \<lparr>rm_cq = None, rm_peer = None\<rparr>)"
      and "ksnReconnectSend peer ke =
        (case ke_CQueAdd (Some ReconnectCb) 5 (ReconnectReq (strz peer))
                (ke3\<lparr>kr_map := pblMapStore m (strz peer) (\<lambda>d. d\<lparr>rm_peer := Some peer\<rparr>)\<rparr>) of
           (cq, ke4) \<Rightarrow> (0, ke4\<lparr>kr_map := pblMapStore (kr_map ke4) (strz peer) (\<lambda>d. d\<lparr>rm_cq := map_option cq_id cq\<rparr>)\<rparr>))"
proof -
  let ?key = "strz peer" and ?r = "cfg_r_host_name ke" and ?d = "\<lparr>rm_cq = None, rm_peer = None\<rparr> :: reconnect_map_data"
  let ?m = "pblMapAddTo (kr_map ke) ?key ?d"
  show thesis
  proof (cases "?r \<noteq> [] \<and> ksnetArpGet ke ?r \<noteq> None \<and> pblMapGet (kr_map ke) ?key = None")
    case False
    then show thesis
    proof (cases "?r \<noteq> [] \<and> ksnetArpGet ke ?r \<noteq> None")
      case False
      then show thesis using offline by (auto simp: ksnReconnectSend_def Let_def)
    next
      case True
      with \<open>\<not> (?r \<noteq> [] \<and> _ \<and> _)\<close> show thesis using running by (auto simp: ksnReconnectSend_def Let_def)
    qed
  next
    case True
    show thesis
    proof (rule add_cases [of "kr_map ke" ?key ?d])
      assume f: "pblMapAddRc (kr_map ke) ?key ?d = - 1" "pblMaxElements \<le> pblMapSize (kr_map ke)" "?m = kr_map ke"
      then have "ksnReconnectSend peer ke = (-2, ke)"
        using True by (simp add: ksnReconnectSend_def Let_def pblMapAdd_def)
      then show thesis using full True f(2) by (simp add: pblMapRoom_def)
    next
      assume a: "pblMapAddRc (kr_map ke) ?key ?d = 1" "pblMapGet ?m = (pblMapGet (kr_map ke))(?key \<mapsto> ?d)"
      have "fst (ksnCoreSendCmdto ?r CMD_RECONNECT ?key (ke\<lparr>kr_map := ?m\<rparr>)) = Some ?r"
        using True by (auto simp: sendCmdto_result ksnetArpGet_def)
      then obtain ke3 where k: "ksnCoreSendCmdto ?r CMD_RECONNECT ?key (ke\<lparr>kr_map := ?m\<rparr>) = (Some ?r, ke3)"
        by (metis prod.collapse)
      then have fr: "send_only (ke\<lparr>kr_map := ?m\<rparr>) ke3" by (metis send_only_sendCmdto snd_conv)
      have "kr_map ke3 = ?m" using send_only_fields(3) [OF fr] by simp
      have c1: "(?r \<noteq> [] \<and> ksnetArpGet ke ?r \<noteq> None) = True" "(pblMapGet (kr_map ke) ?key = None) = True"
        "(0 \<le> pblMapAddRc (kr_map ke) ?key ?d) = True" "(pblMapGet ?m ?key \<noteq> None) = True"
        using True a by auto
      have eq: "ksnReconnectSend peer ke =
        (case ke_CQueAdd (Some ReconnectCb) 5 (ReconnectReq ?key)
                (ke3\<lparr>kr_map := pblMapStore ?m ?key (\<lambda>d. d\<lparr>rm_peer := Some peer\<rparr>)\<rparr>) of
           (cq, ke4) \<Rightarrow> (0, ke4\<lparr>kr_map := pblMapStore (kr_map ke4) ?key (\<lambda>d. d\<lparr>rm_cq := map_option cq_id cq\<rparr>)\<rparr>))"
        unfolding ksnReconnectSend_def Let_def c1 if_True pblMapAdd_def prod.case k option.case \<open>kr_map ke3 = ?m\<close> ..
      have snd: "ke3 = snd (ksnCoreSendCmdto ?r CMD_RECONNECT ?key (ke\<lparr>kr_map := ?m\<rparr>))"
        unfolding k by simp
      show thesis
        by (rule sent [OF _ _ _ fr snd a(2) eq]) (use True in simp_all)
    qed (use True in simp)
  qed
qed

lemma reconnectSend_facts:
  assumes "recon_inv X ke" and "cque_ready ke" and "\<forall>j \<in> X. cq_get (kq ke) j \<noteq> None"
  shows "recon_inv X (snd (ksnReconnectSend peer ke))" "faults (snd (ksnReconnectSend peer ke)) = faults ke"
    "ka (snd (ksnReconnectSend peer ke)) = ka ke" "ks_map (snd (ksnReconnectSend peer ke)) = ks_map ke"
    "cfg_r_host_name (snd (ksnReconnectSend peer ke)) = cfg_r_host_name ke"
proof -
  have "recon_inv X (snd (ksnReconnectSend peer ke)) \<and> faults (snd (ksnReconnectSend peer ke)) = faults ke \<and>
    ka (snd (ksnReconnectSend peer ke)) = ka ke \<and> ks_map (snd (ksnReconnectSend peer ke)) = ks_map ke \<and>
    cfg_r_host_name (snd (ksnReconnectSend peer ke)) = cfg_r_host_name ke"
  proof (cases rule: ksnReconnectSend_cases [of ke peer])
    case (sent ke3 m)
    let ?ke3 = "ke3\<lparr>kr_map := pblMapStore m (strz peer) (\<lambda>d. d\<lparr>rm_peer := Some peer\<rparr>)\<rparr>"
    note same = send_only_fields [OF sent(4)] send_only_faults [OF sent(4)]
    have ready: "cque_ready ?ke3" using assms(2) same by (simp add: cque_ready_def)
    obtain ke4 where ke4: "ke_CQueAdd (Some ReconnectCb) 5 (ReconnectReq (strz peer)) ?ke3 =
        (Some \<lparr>cq_cb = Some ReconnectCb, cq_timeout = (if (0::real) < 5 then Some 5 else None),
               cq_id = cqueNextId (kq ?ke3), cq_data = ReconnectReq (strz peer)\<rparr>, ke4)"
      "cq_get (kq ke4) = (cq_get (kq ?ke3))(cqueNextId (kq ?ke3) \<mapsto>
        \<lparr>cq_cb = Some ReconnectCb, cq_timeout = (if (0::real) < 5 then Some 5 else None), cq_id = cqueNextId (kq ?ke3),
         cq_data = ReconnectReq (strz peer)\<rparr>)"
      "kr_map ke4 = kr_map ?ke3" "ka ke4 = ka ?ke3" "ks_map ke4 = ks_map ?ke3" "faults ke4 = faults ?ke3"
      "cfg_r_host_name ke4 = cfg_r_host_name ?ke3"
      by (rule ke_CQueAdd_room [OF ready])
    let ?ke5 = "ke4\<lparr>kr_map := pblMapStore (kr_map ke4) (strz peer) (\<lambda>d. d\<lparr>rm_cq := Some (cqueNextId (kq ke))\<rparr>)\<rparr>"
    have res: "snd (ksnReconnectSend peer ke) = ?ke5"
      using ke4(1) same(2) unfolding sent(7) by simp
    have "recon_inv X ?ke5"
    proof (rule recon_inv_enter [OF assms(1) cque_fresh [OF assms(2)] _ sent(3) refl, where cq =
          "\<lparr>cq_cb = Some ReconnectCb, cq_timeout = (if (0::real) < 5 then Some 5 else None), cq_id = cqueNextId (kq ke),
            cq_data = ReconnectReq (strz peer)\<rparr>"])
      show "pblMapGet (kr_map ?ke5) = (pblMapGet (kr_map ke))(strz peer \<mapsto>
          \<lparr>rm_cq = Some (cqueNextId (kq ke)), rm_peer = Some peer\<rparr>)"
        using sent(6) by (auto simp: fun_eq_iff ke4(3) map_simps)
    qed (use ke4(2) same assms(3) cque_fresh [OF assms(2)] in auto)
    then show ?thesis unfolding res using ke4(4-7) same by simp
  qed (use assms in simp_all)
  then show "recon_inv X (snd (ksnReconnectSend peer ke))" "faults (snd (ksnReconnectSend peer ke)) = faults ke"
    "ka (snd (ksnReconnectSend peer ke)) = ka ke" "ks_map (snd (ksnReconnectSend peer ke)) = ks_map ke"
    "cfg_r_host_name (snd (ksnReconnectSend peer ke)) = cfg_r_host_name ke"
    by simp_all
qed

text \<open>
  Every pending reconnect request keeps waiting for exactly one live callback queue record, and
  every such record for one request, when a request is sent: asking again for a peer that is being
  asked for changes nothing, and without a connected r-host nothing is entered.
\<close>

theorem reconnect_send:
  assumes "recon_inv {} ke" and "cque_ready ke"
  shows "recon_inv {} (snd (ksnReconnectSend peer ke)) \<and>
    (fst (ksnReconnectSend peer ke) = 0 \<longrightarrow> pblMapGet (kr_map (snd (ksnReconnectSend peer ke))) (strz peer) \<noteq> None) \<and>
    (fst (ksnReconnectSend peer ke) \<noteq> 0 \<longrightarrow> snd (ksnReconnectSend peer ke) = ke) \<and>
    faults (snd (ksnReconnectSend peer ke)) = faults ke"
proof -
  have "(fst (ksnReconnectSend peer ke) = 0 \<longrightarrow> pblMapGet (kr_map (snd (ksnReconnectSend peer ke))) (strz peer) \<noteq> None) \<and>
    (fst (ksnReconnectSend peer ke) \<noteq> 0 \<longrightarrow> snd (ksnReconnectSend peer ke) = ke)"
  proof (cases rule: ksnReconnectSend_cases [of ke peer])
    case (sent ke3 m)
    have "kr_map (snd (ke_CQueAdd cb t d k)) = kr_map k" for cb t d k
      by (simp add: ke_CQueAdd_def split: prod.splits)
    then have "kr_map (snd (ke_CQueAdd cb t d (ke3\<lparr>kr_map := n\<rparr>))) = n" for cb t d n by simp
    then show ?thesis
      unfolding sent(7) split_def by (simp add: map_simps sent(6))
  qed simp_all
  then show ?thesis using reconnectSend_facts [OF assms] by simp
qed

definition recon_node :: ksnetEvMgr where
  "recon_node = ksnetArpAdd [114] arp_zero ((exampleNode [97])\<lparr>cfg_r_host_name := [114]\<rparr>)"

lemma recon_node_ok: "recon_inv {} recon_node" "cque_ready recon_node"
  by (simp_all add: recon_inv_def recon_node_def ksnetArpAdd_def exampleNode_def map_simps cq_get_def ksnCQueInit_def
      cque_ready_def cque_below_def cqueRoom_def pblMaxElements_def)

theorem reconnect_send_witness: "recon_inv {} (snd (ksnReconnectSend [98] recon_node))"
  using reconnect_send [OF recon_node_ok] by blast

end
