(* ===== verification/Callbacks.thy ===== *)
theory Callbacks
  imports Recon
begin

text \<open>
  The callbacks that the queue records of a node run: the host information request of
  net_core.c, the channel check of net_com.c, the reconnect request of net_recon.c and the stream
  timeout of modules/stream.c; executing a record and its timer in the node; and the operations
  that execute records: the reconnect answer, creating a stream and the stream command.
\<close>

section \<open>The callbacks\<close>

definition peer_type_cb :: "u32 \<Rightarrow> int \<Rightarrow> bytes \<Rightarrow> bytes \<Rightarrow> int \<Rightarrow> ksnetEvMgr \<Rightarrow> ksnetEvMgr" where
  "peer_type_cb i type addr from port ke =
     (if type = 0
      then case ksnetArpGet ke from of
             None \<Rightarrow> ke
           | Some arp_cque \<Rightarrow>
               let ke1 = snd (ksnCoreSendto addr port CMD_HOST_INFO [] ke)
               in (case ke_CQueAdd (Some PeerTypeCb) 1 (PeerTypeReq addr from port) ke1 of
                     (None, ke2) \<Rightarrow> emit [Fault] ke2
                   | (Some cq, ke2) \<Rightarrow> ksnetArpAdd from (arp_cque\<lparr>arp_cque_id_peer_type := cq_id cq\<rparr>) ke2)
      else ke)"

definition cmd_connect_cque_cb :: "bytes \<Rightarrow> int \<Rightarrow> ksnetEvMgr \<Rightarrow> ksnetEvMgr" where
  "cmd_connect_cque_cb addr port ke =
     (if ksnetArpFindByAddr ke addr port = None then emit [TrudpChannelDestroyAddr addr port] ke else ke)"

text \<open>The call of a record's callback with its data. Callbacks of the application do not change
  the node here.\<close>

fun cque_run :: "cqueFn \<Rightarrow> u32 \<Rightarrow> int \<Rightarrow> cqueData \<Rightarrow> ksnetEvMgr \<Rightarrow> ksnetEvMgr" where
  "cque_run PeerTypeCb i type (PeerTypeReq addr from port) ke = peer_type_cb i type addr from port ke"
| "cque_run ConnectCb i type (ConnectReq addr port) ke = cmd_connect_cque_cb addr port ke"
| "cque_run ReconnectCb i type (ReconnectReq key) ke = ksnReconnectCQueCallback i type key ke"
| "cque_run StreamConnectCb i type (StreamReq key) ke = kq_connect_cb i type key ke"
| "cque_run (UserCb n) i type data ke = ke"
| "cque_run cb i type data ke = emit [Fault] ke"

definition ke_CQueExec :: "u32 \<Rightarrow> ksnetEvMgr \<Rightarrow> int \<times> ksnetEvMgr" where
  "ke_CQueExec i ke = ksnCQueExec kq upd_kq emit cque_run ke_event_cb i ke"

definition ke_timer :: "ksnCQueData \<Rightarrow> ksnetEvMgr \<Rightarrow> ksnetEvMgr" where
  "ke_timer cq ke = cq_timer_cb kq upd_kq emit cque_run ke_event_cb cq ke"

section \<open>Operations that execute records\<close>

text \<open>The pointer to a queue record is alive while a record with its identifier is in the queue.\<close>

definition exec_pointer :: "u32 option \<Rightarrow> ksnetEvMgr \<Rightarrow> ksnetEvMgr" where
  "exec_pointer cq ke =
     (case cq of
        None \<Rightarrow> emit [Fault] ke
      | Some i \<Rightarrow> if cq_get (kq ke) i = None then emit [Fault] ke else snd (ke_CQueExec i ke))"

definition ksnReconnectProcessAnswer :: "ksnCorePacketData \<Rightarrow> ksnetEvMgr \<Rightarrow> int \<times> ksnetEvMgr" where
  "ksnReconnectProcessAnswer rd ke =
     (1, case pblMapGet (kr_map ke) (strz (cstr (rd_data rd))) of
           None \<Rightarrow> ke
         | Some map_data \<Rightarrow> exec_pointer (rm_cq map_data) ke)"

text \<open>A call of \<open>pipe\<close>: the next result of the system, None for an error.\<close>

definition pipe_call :: "ksnetEvMgr \<Rightarrow> (int \<times> int) option \<times> ksnetEvMgr" where
  "pipe_call ke = (case ke_pipes ke of [] \<Rightarrow> (None, ke) | r # rs \<Rightarrow> (r, ke\<lparr>ke_pipes := rs\<rparr>))"

definition KSN_STREAM_CONNECT_TIMEOUT :: real where "KSN_STREAM_CONNECT_TIMEOUT = 5"

definition ksnStreamCreate :: "bytes \<Rightarrow> bytes \<Rightarrow> u8 \<Rightarrow> ksnetEvMgr \<Rightarrow> int \<times> ksnetEvMgr" where
  "ksnStreamCreate to_peer stream_name send_f ke =
     (let key = stream_key to_peer stream_name
      in if send_f = CMD_ST_CREATE \<or> send_f = CMD_ST_CREATE_GOT
         then case pipe_call ke of
                (None, ke1) \<Rightarrow> (-1, ke1)
              | (Some pin, ke1) \<Rightarrow>
                  (case pipe_call ke1 of
                     (None, ke2) \<Rightarrow> (-1, ke2)
                   | (Some pout, ke2) \<Rightarrow>
                       let smd = \<lparr>st_created = False, st_pipe_in = pin, st_pipe_out = pout, st_key = key, st_cq = None\<rparr>;
                           (rc, m) = pblMapAdd (ks_map ke2) key smd;
                           ke3 = ke2\<lparr>ks_map := m\<rparr>
                       in if rc \<ge> 0
                          then case pblMapGet m key of
                                 None \<Rightarrow> (0, ke3)
                               | Some d \<Rightarrow>
                                   if send_f = CMD_ST_CREATE
                                   then let ke4 = ksnStreamSendTo to_peer stream_name CMD_ST_CREATE [] ke3;
                                            (cq, ke5) = ke_CQueAdd (Some StreamConnectCb) KSN_STREAM_CONNECT_TIMEOUT
                                                          (StreamReq key) ke4
                                        in (0, ke5\<lparr>ks_map := pblMapStore (ks_map ke5) key (\<lambda>x. x\<lparr>st_cq := map_option cq_id cq\<rparr>)\<rparr>)
                                   else (0, ksnStreamSendTo to_peer stream_name CMD_ST_CREATED [] (connect_watchers key d ke3))
                          else (0, ke3))
         else if send_f = CMD_ST_CREATED
         then case pblMapGet (ks_map ke) key of
                None \<Rightarrow> (-3, ke)
              | Some d \<Rightarrow> (0, exec_pointer (st_cq d) (connect_watchers key d ke))
         else (0, ke))"

definition cmd_stream_cb :: "ksnCorePacketData \<Rightarrow> ksnetEvMgr \<Rightarrow> int \<times> ksnetEvMgr" where
  "cmd_stream_cb rd ke =
     (let d = rd_data rd; from = cstr (rd_from rd); name = cstr (st_data d)
      in if st_cmd d = CMD_ST_CREATE then (1, snd (ksnStreamCreate from name CMD_ST_CREATE_GOT ke))
         else if st_cmd d = CMD_ST_CREATED then (1, snd (ksnStreamCreate from name CMD_ST_CREATED ke))
         else if st_cmd d = CMD_ST_CLOSE then (1, ksnStreamClose from name CMD_ST_CLOSE_GOT ke)
         else if st_cmd d = CMD_ST_DATA
         then (1, case pblMapGet (ks_map ke) (stream_key from name) of
                    None \<Rightarrow> ke
                  | Some sd \<Rightarrow> emit [WriteFd (snd (st_pipe_in sd))
                                  (take (st_data_len d) (drop (st_name_len d) (st_data d)))] ke)
         else (0, ke))"

section \<open>Reconnecting\<close>

lemma recon_inv_take:
  assumes "recon_inv {} ke" and "pblMapGet (kr_map ke) key = Some md" and "rm_cq md = Some i"
    and "ke' = ke\<lparr>kr_map := pblMapRemoveFrom (kr_map ke) key\<rparr>"
  shows "recon_inv {i} ke'"
proof -
  have get: "pblMapGet (kr_map ke') = (pblMapGet (kr_map ke))(key := None)" "kq ke' = kq ke"
    unfolding assms(4) by (simp_all add: map_simps)
  obtain cq where cq: "cq_get (kq ke) i = Some cq" "cq_data cq = ReconnectReq key"
    using recon_req_live [OF recon_inv_req [OF assms(1,2)]] assms(3) by (metis option.inject)
  have "recon_req {i} ke' k m" if m: "pblMapGet (kr_map ke') k = Some m" for k m
  proof -
    have k: "k \<noteq> key" "pblMapGet (kr_map ke) k = Some m" using m unfolding get by (auto split: if_splits)
    obtain peer j c where j: "rm_peer m = Some peer" "k = strz peer" "rm_cq m = Some j" "cq_get (kq ke) j = Some c"
      "cq_cb c = Some ReconnectCb" "cq_data c = ReconnectReq k"
      by (rule recon_req_live [OF recon_inv_req [OF assms(1) k(2)]])
    then have "j \<noteq> i" using cq k(1) by auto
    then show ?thesis using j unfolding recon_req_def get by auto
  qed
  moreover have "recon_cq ke' j c" if c: "cq_get (kq ke) j = Some c" and j: "j \<noteq> i" for j c
    unfolding recon_cq_def
  proof
    assume "cq_cb c = Some ReconnectCb"
    then obtain k m where k: "cq_data c = ReconnectReq k" "pblMapGet (kr_map ke) k = Some m" "rm_cq m = Some j"
      using recon_cq_live [OF recon_inv_cq [OF assms(1) _ c]] by blast
    then have "k \<noteq> key" using assms(2,3) j by auto
    then show "\<exists>key md. cq_data c = ReconnectReq key \<and> pblMapGet (kr_map ke') key = Some md \<and> rm_cq md = Some j"
      using k unfolding get by auto
  qed
  ultimately show ?thesis by (simp add: recon_inv_def get(2))
qed

lemma recon_inv_drop:
  assumes "recon_inv {i} ke"
  shows "recon_inv {} (upd_kq (\<lambda>q. q\<lparr>cque_map := pblMapRemoveFrom (cque_map q) (enc_u32 i)\<rparr>) ke)"
    (is "recon_inv {} ?ke")
proof -
  have get: "kr_map ?ke = kr_map ke" "cq_get (kq ?ke) j = (if j = i then None else cq_get (kq ke) j)" for j
    by (simp_all add: upd_kq_def)
  have "recon_req {} ?ke k m" if "pblMapGet (kr_map ke) k = Some m" for k m
    using recon_inv_req [OF assms that] unfolding recon_req_def get by auto
  moreover have "recon_cq ?ke j c" if "cq_get (kq ?ke) j = Some c" for j c
    using recon_inv_cq [OF assms, of j c] that unfolding recon_cq_def get by (auto split: if_splits)
  ultimately show ?thesis by (simp add: recon_inv_def get(1))
qed

lemma recon_record:
  assumes "recon_inv {} ke" and "cq_get (kq ke) i = Some cq" and "cq_cb cq = Some ReconnectCb"
  obtains peer md where "cq_data cq = ReconnectReq (strz peer)" and "pblMapGet (kr_map ke) (strz peer) = Some md"
    and "rm_cq md = Some i" and "rm_peer md = Some peer"
proof -
  obtain key md where 1: "cq_data cq = ReconnectReq key" "pblMapGet (kr_map ke) key = Some md" "rm_cq md = Some i"
    using recon_cq_live [OF recon_inv_cq [OF assms(1) _ assms(2)] assms(3)] by blast
  then show thesis using that recon_req_live [OF recon_inv_req [OF assms(1) 1(2)]] by metis
qed

lemma reconnectCallback_ok:
  assumes "recon_inv {} ke" and "cque_ready ke" and "pblMapGet (kr_map ke) (strz peer) = Some md"
    and "rm_cq md = Some i" and "rm_peer md = Some peer" and "pblMapSize (kr_map ke) \<le> pblMaxElements"
  shows "recon_inv {i} (ksnReconnectCQueCallback i type (strz peer) ke)"
    "faults (ksnReconnectCQueCallback i type (strz peer) ke) = faults ke"
    "pblMapGet (kr_map (ksnReconnectCQueCallback i type (strz peer) ke)) (strz peer) \<noteq> None \<longleftrightarrow>
      type = 0 \<and> ksnetArpGet ke peer = None \<and> cfg_r_host_name ke \<noteq> [] \<and> ksnetArpGet ke (cfg_r_host_name ke) \<noteq> None"
proof -
  let ?ke1 = "ke\<lparr>kr_map := pblMapRemoveFrom (kr_map ke) (strz peer)\<rparr>"
  have inv1: "recon_inv {i} ?ke1" by (rule recon_inv_take [OF assms(1,3,4) refl])
  have ready1: "cque_ready ?ke1" using assms(2) by (simp add: cque_ready_def)
  obtain cq where cq: "cq_get (kq ke) i = Some cq"
    using recon_req_live [OF recon_inv_req [OF assms(1,3)]] assms(4) by (metis option.inject)
  have live1: "\<forall>j \<in> {i}. cq_get (kq ?ke1) j \<noteq> None" using cq by simp
  have eq: "ksnReconnectCQueCallback i type (strz peer) ke =
      (if type = 0 \<and> ksnetArpGet ?ke1 peer = None then snd (ksnReconnectSend peer ?ke1) else ?ke1)"
    using assms(3-5) by (auto simp: ksnReconnectCQueCallback_def pblMapRemove_def Let_def)
  note send = reconnectSend_facts [OF inv1 ready1 live1]
  show "recon_inv {i} (ksnReconnectCQueCallback i type (strz peer) ke)"
    "faults (ksnReconnectCQueCallback i type (strz peer) ke) = faults ke"
    unfolding eq using send inv1 by simp_all
  have gone: "pblMapGet (kr_map ?ke1) (strz peer) = None" by (simp add: map_simps)
  have "0 < pblMapSize (kr_map ke)"
    using assms(3) by (metis entries_length entries_mem length_pos_if_in_set)
  then have room: "pblMapRoom (kr_map ?ke1) (strz peer)"
    using assms(3,6) by (simp add: pblMapRoom_def map_simps)
  have "pblMapGet (kr_map (snd (ksnReconnectSend peer ?ke1))) (strz peer) \<noteq> None \<longleftrightarrow>
      cfg_r_host_name ke \<noteq> [] \<and> ksnetArpGet ke (cfg_r_host_name ke) \<noteq> None"
  proof (cases rule: ksnReconnectSend_cases [of ?ke1 peer])
    case offline
    then show ?thesis using gone by (auto simp: ksnetArpGet_def)
  next
    case running
    then show ?thesis using gone by simp
  next
    case full
    then show ?thesis using room by simp
  next
    case (sent ke3 m)
    have k: "kr_map (snd (ke_CQueAdd cb t d (ke3\<lparr>kr_map := n\<rparr>))) = n" for cb t d n
      by (simp add: ke_CQueAdd_def split: prod.splits)
    have "pblMapGet (kr_map (snd (ksnReconnectSend peer ?ke1))) (strz peer) \<noteq> None"
      unfolding sent(7) split_def by (simp add: k map_simps sent(6))
    then show ?thesis using sent(1,2) by (simp add: ksnetArpGet_def)
  qed
  then show "pblMapGet (kr_map (ksnReconnectCQueCallback i type (strz peer) ke)) (strz peer) \<noteq> None \<longleftrightarrow>
      type = 0 \<and> ksnetArpGet ke peer = None \<and> cfg_r_host_name ke \<noteq> [] \<and> ksnetArpGet ke (cfg_r_host_name ke) \<noteq> None"
    unfolding eq using gone by (auto simp: ksnetArpGet_def)
qed

text \<open>Executing a reconnect record, whether by its timer (type 0) or by an answer (type 1).\<close>

lemma reconnect_call_ok:
  assumes "recon_inv {} ke" and "cque_ready ke" and "cq_get (kq ke) i = Some cq" and "cq_cb cq = Some ReconnectCb"
    and "cq_data cq = ReconnectReq (strz peer)" and "pblMapSize (kr_map ke) \<le> pblMaxElements"
    and "ke' = upd_kq (\<lambda>q. q\<lparr>cque_map := pblMapRemoveFrom (cque_map q) (enc_u32 i)\<rparr>)
      (cq_call kq emit cque_run ke_event_cb i type cq (emit acts ke))" and "filter is_fault acts = []"
  shows "recon_inv {} ke'" "faults ke' = faults ke" "cq_get (kq ke') i = None"
    "pblMapGet (kr_map ke') (strz peer) \<noteq> None \<longleftrightarrow>
      type = 0 \<and> ksnetArpGet ke peer = None \<and> cfg_r_host_name ke \<noteq> [] \<and> ksnetArpGet ke (cfg_r_host_name ke) \<noteq> None"
proof -
  obtain peer' md where md: "cq_data cq = ReconnectReq (strz peer')" "pblMapGet (kr_map ke) (strz peer') = Some md"
    "rm_cq md = Some i" "rm_peer md = Some peer'"
    by (rule recon_record [OF assms(1,3,4)])
  have p: "peer' = peer" using md(1) assms(5) by (simp add: strz_def)
  let ?e = "emit acts ke"
  have inv: "recon_inv {} ?e" using assms(1) by (simp add: recon_inv_cong [of ?e ke])
  have ready: "cque_ready ?e" using assms(2) by (simp add: cque_ready_def)
  note cb = reconnectCallback_ok [OF inv ready, of peer md i type]
  define r where "r = ksnReconnectCQueCallback i type (strz peer) ?e"
  have r: "recon_inv {i} r" "faults r = faults ke" "pblMapGet (kr_map r) (strz peer) \<noteq> None \<longleftrightarrow>
      type = 0 \<and> ksnetArpGet ke peer = None \<and> cfg_r_host_name ke \<noteq> [] \<and> ksnetArpGet ke (cfg_r_host_name ke) \<noteq> None"
    using cb md(2-4) assms(6,8) unfolding r_def p by simp_all
  obtain r' where r': "ke' = upd_kq (\<lambda>q. q\<lparr>cque_map := pblMapRemoveFrom (cque_map q) (enc_u32 i)\<rparr>) r'"
    "kr_map r' = kr_map r" "kq r' = kq r" "faults r' = faults r"
  proof (rule that)
    show "ke' = upd_kq (\<lambda>q. q\<lparr>cque_map := pblMapRemoveFrom (cque_map q) (enc_u32 i)\<rparr>)
        (if ke_event_cb r \<and> cq_event_f (kq r) then emit [EventCb EV_K_CQUE_CALLBACK (EvCQue i type)] r else r)"
      unfolding assms(7) cq_call_def by (simp add: assms(4,5) r_def Let_def)
  qed simp_all
  have "recon_inv {i} r'" using r(1) r' by (simp add: recon_inv_cong [of r' r])
  then show "recon_inv {} ke'" unfolding r'(1) by (rule recon_inv_drop)
  show "faults ke' = faults ke" "cq_get (kq ke') i = None" using r r' by (simp_all add: upd_kq_def)
  show "pblMapGet (kr_map ke') (strz peer) \<noteq> None \<longleftrightarrow>
      type = 0 \<and> ksnetArpGet ke peer = None \<and> cfg_r_host_name ke \<noteq> [] \<and> ksnetArpGet ke (cfg_r_host_name ke) \<noteq> None"
    using r(3) r' by (simp add: upd_kq_def)
qed

text \<open>
  When the five seconds of a reconnect request are over, its queue record goes, and the request
  is entered again (with a new record) exactly when the peer is still not connected while the
  r-host is; requests and live records still belong together, and no freed memory is touched.
\<close>

theorem reconnect_timeout:
  assumes "recon_inv {} ke" and "cque_ready ke" and "cq_get (kq ke) (cq_id cq) = Some cq"
    and "cq_cb cq = Some ReconnectCb" and "cq_data cq = ReconnectReq (strz peer)"
    and "pblMapSize (kr_map ke) \<le> pblMaxElements"
  shows "recon_inv {} (ke_timer cq ke) \<and> faults (ke_timer cq ke) = faults ke \<and>
    cq_get (kq (ke_timer cq ke)) (cq_id cq) = None \<and>
    (pblMapGet (kr_map (ke_timer cq ke)) (strz peer) \<noteq> None \<longleftrightarrow>
       ksnetArpGet ke peer = None \<and> cfg_r_host_name ke \<noteq> [] \<and> ksnetArpGet ke (cfg_r_host_name ke) \<noteq> None)"
proof -
  have "ke_timer cq ke = upd_kq (\<lambda>q. q\<lparr>cque_map := pblMapRemoveFrom (cque_map q) (enc_u32 (cq_id cq))\<rparr>)
      (cq_call kq emit cque_run ke_event_cb (cq_id cq) 0 cq (emit [TimerStop (cq_id cq)] ke))"
    by (simp add: ke_timer_def cq_timer_cb_def Let_def)
  from reconnect_call_ok [OF assms(1-6) this] show ?thesis by simp
qed

text \<open>
  When the r-host answers that the wanted peer is not connected to it, the request and its
  queue record are taken out; an answer for a peer nobody asked for changes nothing.
\<close>

theorem reconnect_answer:
  assumes "recon_inv {} ke" and "cque_ready ke" and "cque_wf (kq ke)" and "0 \<notin> set peer"
    and "rd_data rd = strz peer" and "pblMapSize (kr_map ke) \<le> pblMaxElements"
    and "\<forall>i cq. cq_get (kq ke) i = Some cq \<longrightarrow> cq_timeout cq \<noteq> None"
  shows "recon_inv {} (snd (ksnReconnectProcessAnswer rd ke)) \<and>
    pblMapGet (kr_map (snd (ksnReconnectProcessAnswer rd ke))) (strz peer) = None \<and>
    faults (snd (ksnReconnectProcessAnswer rd ke)) = faults ke \<and>
    (pblMapGet (kr_map ke) (strz peer) = None \<longrightarrow> snd (ksnReconnectProcessAnswer rd ke) = ke)"
proof (cases "pblMapGet (kr_map ke) (strz peer)")
  case None
  then show ?thesis using assms(1,4,5) by (simp add: ksnReconnectProcessAnswer_def cstr_strz)
next
  case (Some md)
  obtain i cq where cq: "rm_cq md = Some i" "cq_get (kq ke) i = Some cq" "cq_cb cq = Some ReconnectCb"
    "cq_data cq = ReconnectReq (strz peer)"
    using recon_req_live [OF recon_inv_req [OF assms(1) Some]] by metis
  have id: "cq_id cq = i" using cq_get_wf [OF assms(3) cq(2)] by simp
  have acts: "filter is_fault (cq_stop_timer cq) = []"
    using assms(7) cq(2) by (auto simp: cq_stop_timer_def split: option.split)
  have "snd (ksnReconnectProcessAnswer rd ke) =
      upd_kq (\<lambda>q. q\<lparr>cque_map := pblMapRemoveFrom (cque_map q) (enc_u32 i)\<rparr>)
        (cq_call kq emit cque_run ke_event_cb i 1 cq (emit (cq_stop_timer cq) ke))"
    using Some cq(1,2) assms(4,5)
    by (simp add: ksnReconnectProcessAnswer_def exec_pointer_def ke_CQueExec_def ksnCQueExec_def cstr_strz Let_def)
  from reconnect_call_ok [OF assms(1,2) cq(2-4) assms(6) this acts] Some show ?thesis by simp
qed

text \<open>A node that waits for an answer about one peer.\<close>

definition waiting_cq :: ksnCQueData where
  "waiting_cq = \<lparr>cq_cb = Some ReconnectCb, cq_timeout = Some 5, cq_id = 1, cq_data = ReconnectReq (strz [98])\<rparr>"

definition waiting_node :: ksnetEvMgr where
  "waiting_node = recon_node
     \<lparr>kr_map := pblMapAddTo pblMapNewHashMap (strz [98]) \<lparr>rm_cq = Some 1, rm_peer = Some [98]\<rparr>,
      kq := (ksnCQueInit True)\<lparr>cq_next_id := 2, cque_map := pblMapAddTo pblMapNewHashMap (enc_u32 1) waiting_cq\<rparr>\<rparr>"

lemma waiting_node_get:
  "cq_get (kq waiting_node) i = (if i = 1 then Some waiting_cq else None)"
  "pblMapGet (kr_map waiting_node) k = (if k = strz [98] then Some \<lparr>rm_cq = Some 1, rm_peer = Some [98]\<rparr> else None)"
  by (auto simp: waiting_node_def cq_get_def map_simps)

lemma waiting_node_ok:
  "recon_inv {} waiting_node" "cque_ready waiting_node" "cque_wf (kq waiting_node)"
  "pblMapSize (kr_map waiting_node) \<le> pblMaxElements"
proof -
  show "recon_inv {} waiting_node"
    by (auto simp: recon_inv_def recon_req_def recon_cq_def waiting_node_get waiting_cq_def)
  show "cque_ready waiting_node"
    using waiting_node_get(1)
    by (auto simp: cque_ready_def cque_below_def cqueRoom_def) (simp_all add: waiting_node_def map_simps pblMaxElements_def)
  show "cque_wf (kq waiting_node)"
    by (auto simp: cque_wf_def waiting_node_def map_simps waiting_cq_def)
  show "pblMapSize (kr_map waiting_node) \<le> pblMaxElements"
    by (simp add: waiting_node_def map_simps pblMaxElements_def)
qed

lemma waiting_node_arp: "ksnetArpGet waiting_node [98] = None" "ksnetArpGet waiting_node (cfg_r_host_name waiting_node) \<noteq> None"
  "cfg_r_host_name waiting_node \<noteq> []"
  by (simp_all add: waiting_node_def recon_node_def ksnetArpGet_def ksnetArpAdd_def exampleNode_def pblMapAdd_def map_simps strz_def)

theorem reconnect_timeout_witness:
  "recon_inv {} (ke_timer waiting_cq waiting_node) \<and> pblMapGet (kr_map (ke_timer waiting_cq waiting_node)) (strz [98]) \<noteq> None"
proof -
  have "cq_get (kq waiting_node) (cq_id waiting_cq) = Some waiting_cq" "cq_cb waiting_cq = Some ReconnectCb"
    "cq_data waiting_cq = ReconnectReq (strz [98])"
    by (simp_all add: waiting_node_get) (simp_all add: waiting_cq_def)
  from reconnect_timeout [OF waiting_node_ok(1,2) this waiting_node_ok(4)] show ?thesis
    using waiting_node_arp by simp
qed

theorem reconnect_answer_witness:
  "pblMapGet (kr_map (snd (ksnReconnectProcessAnswer (ksnCorePacketData_zero\<lparr>rd_data := strz [98]\<rparr>) waiting_node))) (strz [98]) = None"
proof -
  have "0 \<notin> set [98 :: u8]" "rd_data (ksnCorePacketData_zero\<lparr>rd_data := strz [98]\<rparr>) = strz [98]"
    "\<forall>i cq. cq_get (kq waiting_node) i = Some cq \<longrightarrow> cq_timeout cq \<noteq> None"
    by (simp_all add: waiting_node_get waiting_cq_def)
  from reconnect_answer [OF waiting_node_ok(1-3) this(1,2) waiting_node_ok(4) this(3)] show ?thesis by blast
qed

end
