(* ===== verification/StreamCmd.thy ===== *)
theory StreamCmd
  imports Callbacks
begin

text \<open>
  What the stream commands do: data sent on one node arrives at the application's pipe on the
  other, and two sequences of calls that end in an access to a null or freed pointer.
\<close>

section \<open>Data\<close>

lemma stream_packet_fields:
  assumes "0 \<notin> set name" and "length name < 255" and "length data < 65536"
  shows "st_cmd (stream_packet cmd name data) = cmd" "cstr (st_data (stream_packet cmd name data)) = name"
    "take (st_data_len (stream_packet cmd name data))
       (drop (st_name_len (stream_packet cmd name data)) (st_data (stream_packet cmd name data))) = data"
proof -
  have n: "unat (of_nat (length name + 1) :: u8) = length name + 1"
    by (rule u8_of_nat) (use assms(2) in simp)
  have d: "unat (of_nat (length data) :: u16) = length data"
    using assms(3) by (simp only: unat_of_nat) simp
  obtain a b where ab: "enc_u16 (of_nat (length data)) = [a, b]"
    unfolding enc_u16_def by blast
  have p: "stream_packet cmd name data =
      [cmd, 0] @ [a, b] @ [of_nat (length name + 1)] @ strz name @ data @ [0]"
    using n by (simp add: stream_packet_def Let_def strz_def flip: ab)
  have dec: "dec_u16 ([a, b] @ x) = of_nat (length data)" for x
    using dec_enc_u16 [of "of_nat (length data)" x] by (simp add: ab)
  show "st_cmd (stream_packet cmd name data) = cmd" by (simp add: st_cmd_def p)
  show "cstr (st_data (stream_packet cmd name data)) = name"
    using assms(1) by (simp add: st_data_def p cstr_strz_append)
  have len: "st_data_len (stream_packet cmd name data) = length data"
    using dec [of "of_nat (length name + 1) # strz name @ data @ [0]"] d by (simp add: st_data_len_def p)
  have nlen: "st_name_len (stream_packet cmd name data) = length (strz name)"
    using n by (simp add: st_name_len_def p byte_at_def strz_def)
  show "take (st_data_len (stream_packet cmd name data))
       (drop (st_name_len (stream_packet cmd name data)) (st_data (stream_packet cmd name data))) = data"
    unfolding len nlen by (simp add: st_data_def p)
qed

text \<open>
  C22: stream data a node sends is, on the node that receives the command, written unchanged to the
  application's end of the input pipe of exactly that stream.
\<close>

theorem stream_data_delivered:
  assumes "0 \<notin> set name" and "length name < 255" and "length data < 65536"
    and "rd_data rd = stream_packet CMD_ST_DATA name data" and "rd_from rd = strz peer" and "0 \<notin> set peer"
    and "pblMapGet (ks_map ke) (stream_key peer name) = Some smd"
  shows "cmd_stream_cb rd ke = (1, emit [WriteFd (snd (st_pipe_in smd)) data] ke)"
proof -
  note f = stream_packet_fields [OF assms(1-3), of CMD_ST_DATA, folded assms(4)]
  have c: "cstr (rd_from rd) = peer" using assms(5,6) by (simp add: cstr_strz)
  show ?thesis
    unfolding cmd_stream_cb_def Let_def f c by (simp add: CMD_ST_defs assms(7))
qed

theorem stream_data_delivered_witness:
  "cmd_stream_cb (ksnCorePacketData_zero\<lparr>rd_data := stream_packet CMD_ST_DATA [115] [1, 2, 3], rd_from := strz [98]\<rparr>) stream_node =
   (1, emit [WriteFd 6 [1, 2, 3]] stream_node)"
proof -
  let ?rd = "ksnCorePacketData_zero\<lparr>rd_data := stream_packet CMD_ST_DATA [115] [1, 2, 3], rd_from := strz [98]\<rparr>"
  have "0 \<notin> set [115 :: u8]" "length [115 :: u8] < 255" "length [1, 2, 3 :: u8] < 65536"
    "rd_data ?rd = stream_packet CMD_ST_DATA [115] [1, 2, 3]" "rd_from ?rd = strz [98]" "0 \<notin> set [98 :: u8]"
    "pblMapGet (ks_map stream_node) (stream_key [98] [115]) = Some (example_smd [98] [115])"
    by (simp_all add: stream_node_get)
  from stream_data_delivered [OF this] show ?thesis by (simp add: example_smd_def)
qed

section \<open>Creating\<close>

lemma pipe_call_two:
  assumes "ke_pipes ke = Some a # Some b # ps"
  shows "pipe_call ke = (Some a, ke\<lparr>ke_pipes := Some b # ps\<rparr>)"
    "pipe_call (ke\<lparr>ke_pipes := Some b # ps\<rparr>) = (Some b, ke\<lparr>ke_pipes := ps\<rparr>)"
  using assms by (simp_all add: pipe_call_def)

lemma connect_watchers_fields [simp]:
  "ks_map (connect_watchers key d ke) = pblMapStore (ks_map ke) key (\<lambda>x. x\<lparr>st_created := True\<rparr>)"
  "faults (connect_watchers key d ke) = faults ke" "kq (connect_watchers key d ke) = kq ke"
  "ka (connect_watchers key d ke) = ka ke"
  by (simp_all add: connect_watchers_def)

lemma create_got:
  assumes "ke_pipes ke = Some a # Some b # ps" and "pblMapRoom (ks_map ke) (stream_key p n)"
  shows "pblMapGet (ks_map (snd (ksnStreamCreate p n CMD_ST_CREATE_GOT ke))) (stream_key p n) =
      Some \<lparr>st_created = True, st_pipe_in = a, st_pipe_out = b, st_key = stream_key p n, st_cq = None\<rparr>"
    "faults (snd (ksnStreamCreate p n CMD_ST_CREATE_GOT ke)) = faults ke"
    "kq (snd (ksnStreamCreate p n CMD_ST_CREATE_GOT ke)) = kq ke"
  using assms pipe_call_two [OF assms(1)]
  by (simp_all add: ksnStreamCreate_def Let_def pblMapAdd_def map_simps CMD_ST_defs)

text \<open>
  A peer that asks for a stream and then confirms the creation of that same stream makes the
  node read through a null pointer: the stream it created on request has no queue record to
  execute.
\<close>

theorem stream_created_fault:
  assumes "ke_pipes ke = Some a # Some b # ps" and "pblMapRoom (ks_map ke) (stream_key peer name)"
    and "0 \<notin> set name" and "length name < 255" and "0 \<notin> set peer"
    and "rd_from rd = strz peer" and "rd_data rd = stream_packet CMD_ST_CREATE name []"
    and "rd_from rd' = strz peer" and "rd_data rd' = stream_packet CMD_ST_CREATED name []"
  shows "faults (snd (cmd_stream_cb rd' (snd (cmd_stream_cb rd ke)))) = faults ke @ [Fault]"
proof -
  have len: "length ([] :: bytes) < 65536" by simp
  note f = stream_packet_fields(1,2) [OF assms(3,4) len]
  have c: "cstr (rd_from rd) = peer" "cstr (rd_from rd') = peer" using assms(5,6,8) by (simp_all add: cstr_strz)
  have s1: "snd (cmd_stream_cb rd ke) = snd (ksnStreamCreate peer name CMD_ST_CREATE_GOT ke)"
    unfolding cmd_stream_cb_def Let_def assms(7) f c by simp
  have s2: "snd (cmd_stream_cb rd' k) = snd (ksnStreamCreate peer name CMD_ST_CREATED k)" for k
    unfolding cmd_stream_cb_def Let_def assms(9) f c by (simp add: CMD_ST_defs)
  note got = create_got [OF assms(1,2)]
  show ?thesis
    unfolding s2 unfolding s1
    by (subst ksnStreamCreate_def) (simp add: CMD_ST_defs got [unfolded CMD_ST_defs] exec_pointer_def Let_def)
qed

lemma example_pipes: "ke_pipes ((exampleNode [97])\<lparr>ke_pipes := [Some (5, 6), Some (7, 8)]\<rparr>) = Some (5, 6) # Some (7, 8) # []"
  by simp

theorem stream_created_fault_witness:
  "faults (snd (cmd_stream_cb (ksnCorePacketData_zero\<lparr>rd_from := strz [98], rd_data := stream_packet CMD_ST_CREATED [115] []\<rparr>)
    (snd (cmd_stream_cb (ksnCorePacketData_zero\<lparr>rd_from := strz [98], rd_data := stream_packet CMD_ST_CREATE [115] []\<rparr>)
      ((exampleNode [97])\<lparr>ke_pipes := [Some (5, 6), Some (7, 8)]\<rparr>))))) = [Fault]"
proof -
  have "pblMapRoom (ks_map ((exampleNode [97])\<lparr>ke_pipes := [Some (5, 6), Some (7, 8)]\<rparr>)) (stream_key [98] [115])"
    by (simp add: exampleNode_def)
  from stream_created_fault [OF example_pipes this, where
      rd = "ksnCorePacketData_zero\<lparr>rd_from := strz [98], rd_data := stream_packet CMD_ST_CREATE [115] []\<rparr>" and
      rd' = "ksnCorePacketData_zero\<lparr>rd_from := strz [98], rd_data := stream_packet CMD_ST_CREATED [115] []\<rparr>"]
  show ?thesis by (simp add: faults_def exampleNode_def)
qed

text \<open>
  Closing a stream while the peer has not confirmed it leaves its queue record: when the five
  seconds are over, the record's callback reads the freed stream record.
\<close>

theorem stream_close_pending_fault:
  assumes "pblMapGet (ks_map ke) (stream_key peer name) = Some smd" and "st_cq smd = Some (cq_id cq)"
    and "cq_get (kq ke) (cq_id cq) = Some cq" and "cq_cb cq = Some StreamConnectCb"
    and "cq_data cq = StreamReq (stream_key peer name)"
  shows "cq_get (kq (ksnStreamClose peer name CMD_ST_CLOSE ke)) (cq_id cq) = Some cq \<and>
    faults (ke_timer cq (ksnStreamClose peer name CMD_ST_CLOSE ke)) = faults ke @ [Fault]"
proof -
  let ?ke = "ksnStreamClose peer name CMD_ST_CLOSE ke"
  have gone: "pblMapGet (ks_map ?ke) (stream_key peer name) = None"
    by (simp add: streamClose_map CMD_ST_defs map_simps)
  have "faults (cque_run StreamConnectCb i t (StreamReq (stream_key peer name)) (emit [TimerStop j] ?ke)) = faults ke @ [Fault]" for i t j
    by (simp add: kq_connect_cb_def gone)
  then show ?thesis
    using assms(3-5) by (simp add: ke_timer_def cq_timer_cb_def cq_call_def Let_def upd_kq_def)
qed

definition pending_cq :: ksnCQueData where
  "pending_cq = \<lparr>cq_cb = Some StreamConnectCb, cq_timeout = Some 5, cq_id = 1, cq_data = StreamReq (stream_key [98] [115])\<rparr>"

definition pending_node :: ksnetEvMgr where
  "pending_node = stream_node
     \<lparr>ks_map := pblMapAddTo pblMapNewHashMap (stream_key [98] [115]) ((example_smd [98] [115])\<lparr>st_created := False, st_cq := Some 1\<rparr>),
      kq := (ksnCQueInit True)\<lparr>cq_next_id := 2, cque_map := pblMapAddTo pblMapNewHashMap (enc_u32 1) pending_cq\<rparr>\<rparr>"

theorem stream_close_pending_fault_witness:
  "faults (ke_timer pending_cq (ksnStreamClose [98] [115] CMD_ST_CLOSE pending_node)) = [Fault]"
proof -
  have "pblMapGet (ks_map pending_node) (stream_key [98] [115]) = Some ((example_smd [98] [115])\<lparr>st_created := False, st_cq := Some 1\<rparr>)"
    "st_cq ((example_smd [98] [115])\<lparr>st_created := False, st_cq := Some 1\<rparr>) = Some (cq_id pending_cq)"
    "cq_get (kq pending_node) (cq_id pending_cq) = Some pending_cq" "cq_cb pending_cq = Some StreamConnectCb"
    "cq_data pending_cq = StreamReq (stream_key [98] [115])"
    by (simp_all add: pending_node_def cq_get_def map_simps) (simp_all add: pending_cq_def)
  from stream_close_pending_fault [OF this] show ?thesis
    by (simp add: faults_def pending_node_def stream_node_def exampleNode_def)
qed

end
