(* ===== verification/Subscribe.thy ===== *)
theory Subscribe
  imports Connect
begin

text \<open>
  The subscribe module (modules/subscribe.c): for every event the list of the peers and L0 clients
  that want to hear of it. The lists of libpbl are lists here. Printing the table is not modelled.
\<close>

section \<open>Operations\<close>

definition sscr_get :: "ksnetEvMgr \<Rightarrow> u16 \<Rightarrow> teoSScrListData list option" where
  "sscr_get ke ev = pblMapGet (ksscr_map ke) (enc_u16 ev)"

text \<open>Sending an event to its subscribers.\<close>

definition sscr_send_one :: "u16 \<Rightarrow> bytes \<Rightarrow> u8 \<Rightarrow> teoSScrListData \<Rightarrow> ksnetEvMgr \<Rightarrow> ksnetEvMgr" where
  "sscr_send_one ev data cmd d ke =
     (let out = sscr_data_bytes (ke_env ke) ev cmd data
      in if \<not> sl_l0_f d then snd (ksnCoreSendCmdto (sl_data d) CMD_SUBSCRIBE_ANSWER out ke)
         else snd (ksnLNullSendToL0 (sl_addr d) (sint (sl_port d)) (strz (sl_data d)) CMD_SUBSCRIBE_ANSWER out ke))"

definition teoSScrSend :: "u16 \<Rightarrow> bytes \<Rightarrow> u8 \<Rightarrow> ksnetEvMgr \<Rightarrow> ksnetEvMgr" where
  "teoSScrSend ev data cmd ke =
     (case sscr_get ke ev of
        None \<Rightarrow> ke
      | Some list \<Rightarrow> fold (sscr_send_one ev data cmd) list ke)"

fun find_idx :: "bytes \<Rightarrow> nat \<Rightarrow> teoSScrListData list \<Rightarrow> nat option" where
  "find_idx peer_name idx [] = None"
| "find_idx peer_name idx (d # ds) =
     (if peer_name \<noteq> [] \<and> sl_data d = peer_name then Some idx else find_idx peer_name (idx + 1) ds)"

text \<open>None is the return value -1.\<close>

definition find_in_list :: "ksnetEvMgr \<Rightarrow> bytes \<Rightarrow> u16 \<Rightarrow> nat option" where
  "find_in_list ke peer_name ev =
     (case sscr_get ke ev of None \<Rightarrow> None | Some list \<Rightarrow> find_idx peer_name 0 list)"

definition teoSScrNumberOfSubscribers :: "ksnetEvMgr \<Rightarrow> nat" where
  "teoSScrNumberOfSubscribers ke = sum_list (map (length \<circ> snd) (pblMapEntries (ksscr_map ke)))"

definition teoSScrNumberOfEventSubscribers :: "ksnetEvMgr \<Rightarrow> u16 \<Rightarrow> nat" where
  "teoSScrNumberOfEventSubscribers ke ev = (case sscr_get ke ev of None \<Rightarrow> 0 | Some list \<Rightarrow> length list)"

text \<open>The list element of \<open>add_data_to_list\<close>; \<open>arp_data\<close> is the L0 server's record for a client.\<close>

definition sscr_element :: "ksnetEvMgr \<Rightarrow> bytes \<Rightarrow> u16 \<Rightarrow> ksnet_arp_data_ext option \<Rightarrow> teoSScrListData" where
  "sscr_element ke peer_name ev arp_data =
     (case arp_data of
        None \<Rightarrow> \<lparr>sl_ev = ev, sl_cmd = 0, sl_l0_f = False, sl_port = 0, sl_addr = [], sl_data = peer_name\<rparr>
      | Some arp \<Rightarrow> \<lparr>sl_ev = ev, sl_cmd = 0, sl_l0_f = True, sl_port = of_int (arp_port arp),
                     sl_addr = take (ARP_TABLE_IP_SIZE (ke_env ke)) (arp_addr arp), sl_data = peer_name\<rparr>)"

definition teoSScrSubscription :: "bytes \<Rightarrow> u16 \<Rightarrow> ksnet_arp_data_ext option \<Rightarrow> ksnetEvMgr \<Rightarrow> ksnetEvMgr" where
  "teoSScrSubscription peer_name ev arp_data ke =
     (let d = sscr_element ke peer_name ev arp_data
      in case sscr_get ke ev of
           None \<Rightarrow> ke\<lparr>ksscr_map := snd (pblMapAdd (ksscr_map ke) (enc_u16 ev) [d])\<rparr>
         | Some list \<Rightarrow>
             if find_in_list ke peer_name ev = None
             then ke\<lparr>ksscr_map := pblMapStore (ksscr_map ke) (enc_u16 ev) (\<lambda>l. l @ [d])\<rparr> else ke)"

definition teoSScrUnSubscription :: "bytes \<Rightarrow> u16 \<Rightarrow> ksnetEvMgr \<Rightarrow> nat \<times> ksnetEvMgr" where
  "teoSScrUnSubscription peer_name ev ke =
     (case sscr_get ke ev of
        None \<Rightarrow> (0, ke)
      | Some list \<Rightarrow>
          (case find_in_list ke peer_name ev of
             None \<Rightarrow> (0, ke)
           | Some idx \<Rightarrow>
               (1, ke\<lparr>ksscr_map := pblMapStore (ksscr_map ke) (enc_u16 ev) (\<lambda>l. take idx l @ drop (idx + 1) l)\<rparr>)))"

definition teoSScrUnSubscriptionAll :: "bytes \<Rightarrow> ksnetEvMgr \<Rightarrow> nat \<times> ksnetEvMgr" where
  "teoSScrUnSubscriptionAll peer_name ke =
     fold (\<lambda>(key, list) (n, ke). case teoSScrUnSubscription peer_name (dec_u16 key) ke of (r, ke') \<Rightarrow> (n + r, ke'))
       (pblMapEntries (ksscr_map ke)) (0, ke)"

definition teoSScrSubscribe :: "bytes \<Rightarrow> u16 \<Rightarrow> ksnetEvMgr \<Rightarrow> ksnetEvMgr" where
  "teoSScrSubscribe peer_name ev ke = snd (ksnCoreSendCmdto peer_name CMD_SUBSCRIBE (enc_u16 ev) ke)"

definition teoSScrUnSubscribe :: "bytes \<Rightarrow> u16 \<Rightarrow> ksnetEvMgr \<Rightarrow> ksnetEvMgr" where
  "teoSScrUnSubscribe peer_name ev ke = snd (ksnCoreSendCmdto peer_name CMD_UNSUBSCRIBE (enc_u16 ev) ke)"

text \<open>The event in a subscribe command: two bytes, or a number in text.\<close>

definition sscr_event :: "bytes \<Rightarrow> u16" where
  "sscr_event data =
     (if length data \<ge> 6 \<and> take 5 data = ascii ''TEXT:'' then of_int (atoi (cstr (drop 5 data))) else dec_u16 data)"

definition rd_l0_arp :: "ksnCorePacketData \<Rightarrow> ksnetEvMgr \<Rightarrow> ksnet_arp_data_ext option" where
  "rd_l0_arp rd ke =
     (if rd_l0_f rd then (case rd_arp rd of None \<Rightarrow> None | Some name \<Rightarrow> ksnetArpGet ke name) else None)"

definition cmd_subscribe_cb :: "ksnCorePacketData \<Rightarrow> ksnetEvMgr \<Rightarrow> int \<times> ksnetEvMgr" where
  "cmd_subscribe_cb rd ke =
     (if rd_cmd rd = CMD_SUBSCRIBE
      then (1, event_cb EV_K_SUBSCRIBED (EvPacket rd)
                 (teoSScrSubscription (cstr (rd_from rd)) (sscr_event (rd_data rd)) (rd_l0_arp rd ke) ke))
      else if rd_cmd rd = CMD_UNSUBSCRIBE
      then (1, snd (teoSScrUnSubscription (cstr (rd_from rd)) (dec_u16 (rd_data rd)) ke))
      else if rd_cmd rd = CMD_SUBSCRIBE_ANSWER then (1, event_cb EV_K_SUBSCRIBE (EvPacket rd) ke)
      else if rd_cmd rd = CMD_SUBSCRIBE_RND
      then (1, event_cb EV_K_SUBSCRIBED (EvPacket rd)
                 (teoSScrSubscription (cstr (drop 2 (rd_data rd))) (sscr_event (rd_data rd)) (rd_l0_arp rd ke) ke))
      else (0, ke))"

section \<open>Invariant\<close>

text \<open>No name is twice in the list of an event (except the empty name, which is never found).\<close>

definition sscr_wf :: "ksnetEvMgr \<Rightarrow> bool" where
  "sscr_wf ke \<longleftrightarrow> (\<forall>ev list. sscr_get ke ev = Some list \<longrightarrow>
     distinct (filter (\<lambda>n. n \<noteq> []) (map sl_data list)) \<and> (\<forall>d \<in> set list. sl_ev d = ev))"

lemma find_idx_None: "find_idx p i ds = None \<longleftrightarrow> p = [] \<or> (\<forall>d \<in> set ds. sl_data d \<noteq> p)"
  by (induction ds arbitrary: i) auto

lemma find_idx_Some:
  "find_idx p i ds = Some k \<Longrightarrow>
   i \<le> k \<and> k - i < length ds \<and> sl_data (ds ! (k - i)) = p \<and> p \<noteq> [] \<and> (\<forall>j < k - i. sl_data (ds ! j) \<noteq> p)"
proof (induction ds arbitrary: i)
  case (Cons d ds)
  show ?case
  proof (cases "p \<noteq> [] \<and> sl_data d = p")
    case False
    then have "find_idx p (i + 1) ds = Some k" using Cons.prems by (auto split: if_splits)
    note IH = Cons.IH [OF this]
    then have s: "k - i = Suc (k - (i + 1))" by arith
    show ?thesis using IH False unfolding s by (auto simp: less_Suc_eq_0_disj)
  qed (use Cons.prems in auto)
qed simp

lemma sscr_get_store:
  "sscr_get (ke\<lparr>ksscr_map := pblMapStore (ksscr_map ke) (enc_u16 ev) f\<rparr>) e =
   (if e = ev then map_option f (sscr_get ke ev) else sscr_get ke e)"
  by (simp add: sscr_get_def map_simps)

lemma sscr_get_add:
  "pblMapRoom (ksscr_map ke) (enc_u16 ev) \<Longrightarrow>
   sscr_get (ke\<lparr>ksscr_map := snd (pblMapAdd (ksscr_map ke) (enc_u16 ev) l)\<rparr>) e = (if e = ev then Some l else sscr_get ke e)"
  by (simp add: sscr_get_def pblMapAdd_def map_simps)

text \<open>The subscribers of an event, without duplicates or a missing list.\<close>

definition subscribers :: "ksnetEvMgr \<Rightarrow> u16 \<Rightarrow> teoSScrListData list" where
  "subscribers ke ev = (case sscr_get ke ev of None \<Rightarrow> [] | Some list \<Rightarrow> list)"

lemma sscr_wf_subscribers:
  assumes "sscr_wf ke"
  shows "distinct (filter (\<lambda>n. n \<noteq> []) (map sl_data (subscribers ke ev)))" "\<forall>d \<in> set (subscribers ke ev). sl_ev d = ev"
  using assms by (cases "sscr_get ke ev"; simp add: sscr_wf_def subscribers_def)+

lemma names_once:
  "distinct (filter (\<lambda>n. n \<noteq> []) (map f l)) \<Longrightarrow> p \<noteq> [] \<Longrightarrow>
   length (filter (\<lambda>d. f d = p) l) = (if p \<in> f ` set l then 1 else 0)"
proof (induction l)
  case (Cons d l)
  then show ?case by (auto split: if_splits simp: image_iff)
qed simp

lemma sscr_element_data [simp]: "sl_data (sscr_element ke p ev a) = p" "sl_ev (sscr_element ke p ev a) = ev"
  by (simp_all add: sscr_element_def split: option.split)

lemma subscription_list:
  assumes "pblMapRoom (ksscr_map ke) (enc_u16 ev)"
  shows "sscr_get (teoSScrSubscription peer ev arp ke) e =
    (if e \<noteq> ev then sscr_get ke e
     else if peer \<noteq> [] \<and> peer \<in> sl_data ` set (subscribers ke ev) then sscr_get ke ev
     else Some (subscribers ke ev @ [sscr_element ke peer ev arp]))"
proof (cases "sscr_get ke ev")
  case None
  then show ?thesis
    using sscr_get_add [OF assms] by (simp add: teoSScrSubscription_def Let_def subscribers_def)
next
  case (Some list)
  then show ?thesis
    by (auto simp: teoSScrSubscription_def Let_def subscribers_def find_in_list_def find_idx_None sscr_get_store)
qed

text \<open>
  Subscribing a named peer puts it into the list of the event if it is not there and leaves the
  list alone if it is, so it is there exactly once; the lists of other events do not change.
\<close>

theorem subscribe_once:
  assumes "sscr_wf ke" and "peer \<noteq> []" and "pblMapRoom (ksscr_map ke) (enc_u16 ev)"
  shows "sscr_wf (teoSScrSubscription peer ev arp ke) \<and>
    length (filter (\<lambda>d. sl_data d = peer) (subscribers (teoSScrSubscription peer ev arp ke) ev)) = 1 \<and>
    filter (\<lambda>d. sl_data d \<noteq> peer) (subscribers (teoSScrSubscription peer ev arp ke) ev) =
      filter (\<lambda>d. sl_data d \<noteq> peer) (subscribers ke ev) \<and>
    (\<forall>e. e \<noteq> ev \<longrightarrow> sscr_get (teoSScrSubscription peer ev arp ke) e = sscr_get ke e)"
proof -
  let ?ke = "teoSScrSubscription peer ev arp ke" and ?l = "subscribers ke ev"
  note get = subscription_list [OF assms(3), of peer arp]
  note old = sscr_wf_subscribers [OF assms(1), of ev]
  show ?thesis
  proof (cases "peer \<in> sl_data ` set ?l")
    case True
    then have same: "sscr_get ?ke e = sscr_get ke e" for e using get assms(2) by auto
    have wf: "sscr_wf ?ke" using assms(1) by (simp add: sscr_wf_def same)
    have count: "length (filter (\<lambda>d. sl_data d = peer) ?l) = 1"
      using True names_once [OF old(1) assms(2)] by simp
    show ?thesis using wf count by (simp add: subscribers_def same)
  next
    case False
    then have new: "subscribers ?ke ev = ?l @ [sscr_element ke peer ev arp]" using get by (simp add: subscribers_def)
    have "filter (\<lambda>d. sl_data d = peer) ?l = []" using False by (auto simp: filter_empty_conv)
    moreover have "sscr_wf ?ke"
      using assms(1) old False get assms(2) by (auto simp: sscr_wf_def)
    ultimately show ?thesis using get by (simp add: new)
  qed
qed

definition sscr_node :: ksnetEvMgr where
  "sscr_node = teoSScrSubscription [98] 5 None (exampleNode [97])"

lemma example_sscr: "sscr_wf (exampleNode n)" "pblMapRoom (ksscr_map (exampleNode n)) k"
  by (simp_all add: sscr_wf_def sscr_get_def exampleNode_def map_simps)

theorem subscribe_once_witness:
  "length (filter (\<lambda>d. sl_data d = [98]) (subscribers (teoSScrSubscription [98] 5 None (exampleNode [97])) 5)) = 1"
  using subscribe_once [of "exampleNode [97]" "[98]" 5 None] example_sscr by simp

text \<open>
  Unsubscribing a named peer from an event takes it off the list and nobody else, keeps the order
  of the others, and returns 1 exactly when it was subscribed.
\<close>

theorem unsubscribe:
  assumes "sscr_wf ke" and "peer \<noteq> []"
  shows "subscribers (snd (teoSScrUnSubscription peer ev ke)) ev = filter (\<lambda>d. sl_data d \<noteq> peer) (subscribers ke ev) \<and>
    fst (teoSScrUnSubscription peer ev ke) = (if peer \<in> sl_data ` set (subscribers ke ev) then 1 else 0) \<and>
    (\<forall>e. e \<noteq> ev \<longrightarrow> sscr_get (snd (teoSScrUnSubscription peer ev ke)) e = sscr_get ke e)"
proof (cases "sscr_get ke ev")
  case None
  then show ?thesis by (simp add: teoSScrUnSubscription_def subscribers_def)
next
  case (Some list)
  have l: "subscribers ke ev = list" using Some by (simp add: subscribers_def)
  show ?thesis
  proof (cases "find_idx peer 0 list")
    case None
    then have "\<forall>d \<in> set list. sl_data d \<noteq> peer" using assms(2) by (simp add: find_idx_None)
    then show ?thesis
      using None Some l by (auto simp: teoSScrUnSubscription_def find_in_list_def filter_id_conv)
  next
    case (Some k)
    have k: "k < length list" "sl_data (list ! k) = peer" using find_idx_Some [OF Some] by auto
    have split: "list = take k list @ list ! k # drop (k + 1) list"
      using id_take_nth_drop [OF k(1)] by simp
    have "distinct (filter (\<lambda>n. n \<noteq> []) (map sl_data list))"
      using sscr_wf_subscribers(1) [OF assms(1), of ev] by (simp add: l)
    then have one: "\<forall>d \<in> set (take k list @ drop (k + 1) list). sl_data d \<noteq> peer"
      using k(2) assms(2) by (subst (asm) split) (auto simp: image_iff)
    have "take k list @ drop (k + 1) list = filter (\<lambda>d. sl_data d \<noteq> peer) list"
      using one k(2) by (subst (3) split) (simp add: filter_id_conv)
    then show ?thesis
      using Some \<open>sscr_get ke ev = Some list\<close> k l
      by (auto simp: teoSScrUnSubscription_def find_in_list_def sscr_get_store subscribers_def image_iff)
  qed
qed

theorem unsubscribe_witness:
  "subscribers (snd (teoSScrUnSubscription [98] 5 sscr_node)) 5 = filter (\<lambda>d. sl_data d \<noteq> [98]) (subscribers sscr_node 5)"
proof -
  have "sscr_get sscr_node e = (if e = 5 then Some [sscr_element (exampleNode [97]) [98] 5 None] else None)" for e
    using subscription_list [of "exampleNode [97]" 5 "[98]" None e] example_sscr(2)
    unfolding sscr_node_def by (simp add: subscribers_def sscr_get_def exampleNode_def map_simps)
  then have "sscr_wf sscr_node" by (simp add: sscr_wf_def)
  from unsubscribe [OF this, of "[98]" 5] show ?thesis by simp
qed

section \<open>Delivery\<close>

lemma sent_packet_fields:
  "kcr ke' = kcr ke \<Longrightarrow> cfg_crypt_f ke' = cfg_crypt_f ke \<Longrightarrow> kc_name ke' = kc_name ke \<Longrightarrow> ke_env ke' = ke_env ke \<Longrightarrow>
   sent_packet ke' c d = sent_packet ke c d"
  unfolding sent_packet_def ksnCoreCreatePacket_def kc_name_len_def by (simp only:)

lemma sendto_short_out:
  assumes "length data \<le> MAX_DATA_LEN"
  shows "ke_out (snd (ksnCoreSendto addr port cmd data ke)) = ke_out ke @ [TrudpSendto cmd (sent_packet ke cmd data) addr port]"
proof -
  have "length data \<le> MAX_PACKET_LEN - MAX_DATA_LEN" using assms by (simp add: MAX_PACKET_LEN_def MAX_DATA_LEN_def)
  then show ?thesis
    using assms by (simp add: sendto_out sent_parts_def ksnCoreSetEventTime_def)
qed

text \<open>
  An event reaches every subscribed peer: for each of them, in the order of the list, one
  CMD_SUBSCRIBE_ANSWER packet with the event is sent to the address the ARP table has for it.
\<close>

theorem subscribers_get_event:
  assumes "\<forall>d \<in> set (subscribers ke ev). \<not> sl_l0_f d \<and> ksnetArpGet ke (sl_data d) = Some (arp d)"
    and "length (sscr_data_bytes (ke_env ke) ev cmd data) \<le> MAX_DATA_LEN"
  shows "ke_out (teoSScrSend ev data cmd ke) = ke_out ke @
    map (\<lambda>d. TrudpSendto CMD_SUBSCRIBE_ANSWER
               (sent_packet ke CMD_SUBSCRIBE_ANSWER (sscr_data_bytes (ke_env ke) ev cmd data)) (arp_addr (arp d)) (arp_port (arp d)))
        (subscribers ke ev)"
proof -
  have "ke_out (fold (sscr_send_one ev data cmd) ds k) = ke_out k @
    map (\<lambda>d. TrudpSendto CMD_SUBSCRIBE_ANSWER
               (sent_packet ke CMD_SUBSCRIBE_ANSWER (sscr_data_bytes (ke_env ke) ev cmd data)) (arp_addr (arp d)) (arp_port (arp d))) ds"
    if "\<forall>d \<in> set ds. \<not> sl_l0_f d \<and> ksnetArpGet ke (sl_data d) = Some (arp d)" and "send_only ke k" for ds k
    using that
  proof (induction ds arbitrary: k)
    case (Cons d ds)
    note same = send_only_fields [OF Cons.prems(2)]
    have get: "ksnetArpGet k (sl_data d) = Some (arp d)" using Cons.prems(1) same by (simp add: ksnetArpGet_def)
    let ?out = "sscr_data_bytes (ke_env ke) ev cmd data"
    have one: "sscr_send_one ev data cmd d k =
        snd (ksnCoreSendto (arp_addr (arp d)) (arp_port (arp d)) CMD_SUBSCRIBE_ANSWER ?out k)"
      using Cons.prems(1) get same(6) by (simp add: sscr_send_one_def Let_def ksnCoreSendCmdto_def)
    have "send_only ke (sscr_send_one ev data cmd d k)"
      unfolding one by (rule send_only_trans [OF Cons.prems(2) send_only_sendto])
    note IH = Cons.IH [OF _ this]
    have "sent_packet k CMD_SUBSCRIBE_ANSWER ?out = sent_packet ke CMD_SUBSCRIBE_ANSWER ?out"
      by (rule sent_packet_fields) (simp_all add: same)
    then show ?case
      using IH Cons.prems(1) sendto_short_out [OF assms(2), of "arp_addr (arp d)" "arp_port (arp d)" CMD_SUBSCRIBE_ANSWER k]
      by (simp add: one)
  qed simp
  from this [OF assms(1) send_only_refl] show ?thesis
    by (cases "sscr_get ke ev") (simp_all add: teoSScrSend_def subscribers_def)
qed

definition sscr_arp_node :: ksnetEvMgr where
  "sscr_arp_node = teoSScrSubscription [98] 5 None
     (ksnetArpAdd [98] (arp_zero\<lparr>arp_addr := [49], arp_port := 9001\<rparr>) (exampleNode [97]))"

lemma sscr_arp_node_get:
  "subscribers sscr_arp_node 5 = [\<lparr>sl_ev = 5, sl_cmd = 0, sl_l0_f = False, sl_port = 0, sl_addr = [], sl_data = [98]\<rparr>]"
  "ksnetArpGet sscr_arp_node [98] = Some (arp_zero\<lparr>arp_addr := [49], arp_port := 9001\<rparr>)"
  "ke_env sscr_arp_node = exampleEnv"
  by (simp_all add: sscr_arp_node_def teoSScrSubscription_def sscr_get_def subscribers_def ksnetArpAdd_def exampleNode_def
      pblMapAdd_def map_simps sscr_element_def Let_def ksnetArpGet_def)

theorem subscribers_get_event_witness:
  "\<exists>packet. ke_out (teoSScrSend 5 [1] 0 sscr_arp_node) = ke_out sscr_arp_node @ [TrudpSendto CMD_SUBSCRIBE_ANSWER packet [49] 9001]"
proof -
  have "\<forall>d \<in> set (subscribers sscr_arp_node 5). \<not> sl_l0_f d \<and>
      ksnetArpGet sscr_arp_node (sl_data d) = Some (arp_zero\<lparr>arp_addr := [49], arp_port := 9001\<rparr>)"
    "length (sscr_data_bytes (ke_env sscr_arp_node) 5 0 [1]) \<le> MAX_DATA_LEN"
    by (simp_all add: sscr_arp_node_get) (simp add: exampleEnv_def MAX_DATA_LEN_def)
  from subscribers_get_event [OF this] show ?thesis by (simp add: sscr_arp_node_get(1))
qed

lemma send_only_sscrSend [simp]: "send_only ke (teoSScrSend ev data cmd ke)"
  by (auto simp: teoSScrSend_def sscr_send_one_def Let_def split: option.split intro!: send_only_fold)

end
