(* ===== verification/L0Json.thy ===== *)
theory L0Json
  imports EvMgr
begin

text \<open>
  The JSON requests of the L0 server (modules/l0-server.c): the signed login of a client and the
  requests of the authentication application. The tokeniser is the library jsmn, the parameter
  \<open>jsmn\<close> of the environment; what the server does with the tokens is modelled. A string view or a
  copied value is its text, None for a null pointer. A token behind the last one is memory the
  tokeniser has not written, or lies behind the array.
\<close>

section \<open>Tokens and text\<close>

fun strncmp :: "bytes \<Rightarrow> bytes \<Rightarrow> nat \<Rightarrow> int" where
  "strncmp a b 0 = 0"
| "strncmp a b (Suc n) =
     (if byte_at a 0 \<noteq> byte_at b 0 then (if byte_at a 0 < byte_at b 0 then -1 else 1)
      else if byte_at a 0 = 0 then 0
      else strncmp (tl a) (tl b) n)"

lemma strncmp_eq: "length a = length b \<Longrightarrow> 0 \<notin> set a \<Longrightarrow> strncmp a b (length a) = 0 \<longleftrightarrow> a = b"
  by (induction a b rule: list_induct2) auto

lemma strncmp_take: "0 \<notin> set s \<Longrightarrow> strncmp a s (length s) = 0 \<longleftrightarrow> take (length s) a = s"
proof (induction s arbitrary: a)
  case (Cons c s)
  then show ?case by (cases a) (auto simp: byte_at_def)
qed simp

definition tok_text :: "bytes \<Rightarrow> jsmntok_t \<Rightarrow> bytes" where
  "tok_text json tok = take (nat (tok_end tok - tok_start tok)) (drop (nat (tok_start tok)) json)"

definition json_eq :: "bytes \<Rightarrow> jsmntok_t \<Rightarrow> bytes \<Rightarrow> bool" where
  "json_eq json tok s \<longleftrightarrow>
     tok_type tok = JSMN_STRING \<and> int (length s) = tok_end tok - tok_start tok \<and>
     strncmp (drop (nat (tok_start tok)) json) s (nat (tok_end tok - tok_start tok)) = 0"

definition jsoneq :: "bytes \<Rightarrow> jsmntok_t \<Rightarrow> bytes \<Rightarrow> int" where
  "jsoneq json tok s =
     (if int (length s) = tok_end tok - tok_start tok \<and>
         strncmp (drop (nat (tok_start tok)) json) s (nat (tok_end tok - tok_start tok)) = 0 then 0 else -1)"

text \<open>What the tokeniser promises of the tokens it returns: they lie inside the text.\<close>

definition tok_inside :: "bytes \<Rightarrow> jsmntok_t \<Rightarrow> bool" where
  "tok_inside json tok \<longleftrightarrow> 0 \<le> tok_start tok \<and> tok_start tok \<le> tok_end tok \<and> tok_end tok \<le> int (length json)"

lemma tok_text_length: "tok_inside json tok \<Longrightarrow> int (length (tok_text json tok)) = tok_end tok - tok_start tok"
  by (auto simp: tok_inside_def tok_text_def)

lemma jsoneq_text:
  assumes "tok_inside json tok" and "0 \<notin> set s"
  shows "jsoneq json tok s = 0 \<longleftrightarrow> tok_text json tok = s"
proof (cases "int (length s) = tok_end tok - tok_start tok")
  case True
  then have "nat (tok_end tok - tok_start tok) = length s" by simp
  then show ?thesis using True strncmp_take [OF assms(2)] by (simp add: jsoneq_def tok_text_def)
next
  case False
  then show ?thesis using tok_text_length [OF assms(1)] by (auto simp: jsoneq_def)
qed

lemma json_eq_text:
  assumes "tok_inside json tok" and "0 \<notin> set s"
  shows "json_eq json tok s \<longleftrightarrow> tok_type tok = JSMN_STRING \<and> tok_text json tok = s"
  unfolding jsoneq_text [OF assms, symmetric] by (simp add: json_eq_def jsoneq_def)

section \<open>The signed login\<close>

record auth_payload =
  ap_name :: "bytes option"
  ap_sign :: "bytes option"
  ap_until :: "bytes option"

definition USER_ID :: bytes where "USER_ID = ascii ''userId''"
definition SIGN :: bytes where "SIGN = ascii ''sign''"
definition TIMESTAMP :: bytes where "TIMESTAMP = ascii ''timestamp''"

lemma key_bytes:
  "USER_ID = [117, 115, 101, 114, 73, 100]" "SIGN = [115, 105, 103, 110]"
  "TIMESTAMP = [116, 105, 109, 101, 115, 116, 97, 109, 112]"
  by (simp_all add: USER_ID_def SIGN_def TIMESTAMP_def ascii_def)

lemma key_facts [simp]:
  "0 \<notin> set USER_ID" "0 \<notin> set SIGN" "0 \<notin> set TIMESTAMP" "USER_ID \<noteq> SIGN" "USER_ID \<noteq> TIMESTAMP" "SIGN \<noteq> TIMESTAMP"
  "SIGN \<noteq> USER_ID" "TIMESTAMP \<noteq> USER_ID" "TIMESTAMP \<noteq> SIGN"
  by (simp_all add: key_bytes)

text \<open>The loop over the tokens; None when the token behind the last one is used.\<close>

fun auth_tokens :: "bytes \<Rightarrow> auth_payload \<Rightarrow> jsmntok_t list \<Rightarrow> auth_payload option" where
  "auth_tokens json v [] = Some v"
| "auth_tokens json v (t # ts) =
     (if json_eq json t USER_ID then
        (case ts of [] \<Rightarrow> None | x # ts' \<Rightarrow> auth_tokens json (v\<lparr>ap_name := Some (tok_text json x)\<rparr>) ts')
      else if json_eq json t SIGN then
        (case ts of [] \<Rightarrow> None | x # ts' \<Rightarrow> auth_tokens json (v\<lparr>ap_sign := Some (tok_text json x)\<rparr>) ts')
      else if json_eq json t TIMESTAMP then
        (case ts of [] \<Rightarrow> None | x # ts' \<Rightarrow> auth_tokens json (v\<lparr>ap_until := Some (tok_text json x)\<rparr>) ts')
      else auth_tokens json v ts)"

definition AUTH_TOKENS :: nat where "AUTH_TOKENS = 128"

text \<open>
  The result is the name, the signature and the expiry time, None when the payload is refused; \<open>Inl\<close>
  when a token that was not written, or the one behind the array on the stack, is used.
\<close>

definition parseAuthPayload ::
  "(bytes \<Rightarrow> nat \<Rightarrow> jsmntok_t list option) \<Rightarrow> bytes \<Rightarrow> action + (bytes \<times> bytes \<times> bytes) option" where
  "parseAuthPayload parse json =
     (case parse json AUTH_TOKENS of
        None \<Rightarrow> Inr None
      | Some tokens \<Rightarrow>
          if length tokens < 1 \<or> tok_type (hd tokens) \<noteq> JSMN_OBJECT then Inr None
          else case auth_tokens json \<lparr>ap_name = None, ap_sign = None, ap_until = None\<rparr> (tl tokens) of
                 None \<Rightarrow> Inl (if length tokens = AUTH_TOKENS then Fault else UninitRead)
               | Some v \<Rightarrow>
                   Inr (case (ap_name v, ap_sign v, ap_until v) of
                          (Some name, Some sign, Some valid_until) \<Rightarrow> Some (name, sign, valid_until)
                        | _ \<Rightarrow> None))"

section \<open>Requests of the authentication application\<close>

record json_param =
  jp_userId :: "bytes option"
  jp_clientId :: "bytes option"
  jp_username :: "bytes option"
  jp_accessToken :: "bytes option"
  jp_networks :: "bytes option"

definition CLIENT_ID :: bytes where "CLIENT_ID = ascii ''clientId''"
definition USERNAME :: bytes where "USERNAME = ascii ''username''"
definition ACCESS_TOKEN :: bytes where "ACCESS_TOKEN = ascii ''accessToken''"
definition NETWORKS :: bytes where "NETWORKS = ascii ''networks''"

text \<open>A bit of \<open>keys\<close> is set exactly when its parameter is; the loop ends when all are.\<close>

fun json_tokens :: "bytes \<Rightarrow> json_param \<Rightarrow> jsmntok_t list \<Rightarrow> json_param option" where
  "json_tokens data jp [] = Some jp"
| "json_tokens data jp (t # ts) =
     (if jp_userId jp \<noteq> None \<and> jp_clientId jp \<noteq> None \<and> jp_username jp \<noteq> None \<and> jp_accessToken jp \<noteq> None \<and> jp_networks jp \<noteq> None
      then Some jp
      else if jp_userId jp = None \<and> jsoneq data t USER_ID = 0 then
        (case ts of [] \<Rightarrow> None | x # ts' \<Rightarrow> json_tokens data (jp\<lparr>jp_userId := Some (tok_text data x)\<rparr>) ts')
      else if jp_clientId jp = None \<and> jsoneq data t CLIENT_ID = 0 then
        (case ts of [] \<Rightarrow> None | x # ts' \<Rightarrow> json_tokens data (jp\<lparr>jp_clientId := Some (tok_text data x)\<rparr>) ts')
      else if jp_username jp = None \<and> jsoneq data t USERNAME = 0 then
        (case ts of [] \<Rightarrow> None | x # ts' \<Rightarrow> json_tokens data (jp\<lparr>jp_username := Some (tok_text data x)\<rparr>) ts')
      else if jp_accessToken jp = None \<and> jsoneq data t ACCESS_TOKEN = 0 then
        (case ts of [] \<Rightarrow> None | x # ts' \<Rightarrow> json_tokens data (jp\<lparr>jp_accessToken := Some (tok_text data x)\<rparr>) ts')
      else if jp_networks jp = None \<and> jsoneq data t NETWORKS = 0 then
        (case ts of [] \<Rightarrow> None | x # ts' \<Rightarrow> json_tokens data (jp\<lparr>jp_networks := Some (tok_text data x)\<rparr>) ts')
      else json_tokens data jp ts)"

definition get_num_of_tags :: "bytes \<Rightarrow> nat" where
  "get_num_of_tags data = (length (filter (\<lambda>c. c = of_char CHR '':'') data) + 1) * 4"

text \<open>
  The parameters, None when the data is not a JSON object: they then stay what they were. \<open>Inl\<close> when
  a token behind the last one is used.
\<close>

definition json_parse :: "(bytes \<Rightarrow> nat \<Rightarrow> jsmntok_t list option) \<Rightarrow> bytes \<Rightarrow> action + json_param option" where
  "json_parse parse data =
     (let num_of_tags = get_num_of_tags data
      in case parse data num_of_tags of
           None \<Rightarrow> Inr None
         | Some t \<Rightarrow>
             if length t < 1 \<or> tok_type (hd t) \<noteq> JSMN_OBJECT then Inr None
             else case json_tokens data \<lparr>jp_userId = None, jp_clientId = None, jp_username = None,
                    jp_accessToken = None, jp_networks = None\<rparr> (tl t) of
                    None \<Rightarrow> Inl (if length t = num_of_tags then Fault else UninitRead)
                  | Some jp \<Rightarrow> Inr (Some jp))"

section \<open>What the loops find\<close>

text \<open>
  The tokens of the members of an object: the key, the value and what is inside the value. The pairs
  of texts are what an object means; the loops do not skip what is inside a value and the values of
  keys they do not know, which are therefore required not to be one of the names that are looked for.
\<close>

type_synonym member = "jsmntok_t \<times> jsmntok_t \<times> jsmntok_t list"

definition member_tokens :: "member list \<Rightarrow> jsmntok_t list" where
  "member_tokens ms = concat (map (\<lambda>(k, v, inner). k # v # inner) ms)"

definition member_texts :: "bytes \<Rightarrow> member list \<Rightarrow> (bytes \<times> bytes) list" where
  "member_texts json ms = map (\<lambda>(k, v, inner). (tok_text json k, tok_text json v)) ms"

lemma member_simps [simp]:
  "member_tokens [] = []" "member_tokens ((k, v, inner) # ms) = k # v # inner @ member_tokens ms"
  "member_texts json [] = []" "member_texts json ((k, v, inner) # ms) = (tok_text json k, tok_text json v) # member_texts json ms"
  by (simp_all add: member_tokens_def member_texts_def)

definition no_name :: "bytes set \<Rightarrow> bytes \<Rightarrow> jsmntok_t \<Rightarrow> bool" where
  "no_name names json tok \<longleftrightarrow> tok_inside json tok \<and> tok_text json tok \<notin> names"

text \<open>A value of a known key may be anything: the loops skip it.\<close>

definition member_ok :: "bytes set \<Rightarrow> bytes \<Rightarrow> member \<Rightarrow> bool" where
  "member_ok names json m \<longleftrightarrow>
     (case m of (k, v, inner) \<Rightarrow>
        tok_type k = JSMN_STRING \<and> tok_inside json k \<and>
        (tok_text json k \<in> names \<or> no_name names json v) \<and> list_all (no_name names json) inner)"

lemma member_ok_triple [simp]:
  "member_ok names json (k, v, inner) \<longleftrightarrow> tok_type k = JSMN_STRING \<and> tok_inside json k \<and>
     (tok_text json k \<in> names \<or> no_name names json v) \<and> list_all (no_name names json) inner"
  by (simp add: member_ok_def)

definition auth_names :: "bytes set" where "auth_names = {USER_ID, SIGN, TIMESTAMP}"

lemma auth_skip:
  "list_all (no_name auth_names json) inner \<Longrightarrow> auth_tokens json v (inner @ ts) = auth_tokens json v ts"
  by (induction inner) (auto simp: no_name_def auth_names_def json_eq_text)

text \<open>Of members with the same key the last one counts.\<close>

definition found_last :: "(bytes \<times> bytes) list \<Rightarrow> bytes \<Rightarrow> bytes option \<Rightarrow> bytes option" where
  "found_last kvs key old = (case map_of (rev kvs) key of None \<Rightarrow> old | Some x \<Rightarrow> Some x)"

lemma found_last_simps [simp]:
  "found_last [] key old = old"
  "found_last ((k, x) # kvs) key old = found_last kvs key (if k = key then Some x else old)"
  by (simp_all add: found_last_def map_add_def split: option.split)

lemma auth_tokens_append:
  assumes "list_all (member_ok auth_names json) ms"
  shows "auth_tokens json v (member_tokens ms @ ts) =
    auth_tokens json (v\<lparr>ap_name := found_last (member_texts json ms) USER_ID (ap_name v),
      ap_sign := found_last (member_texts json ms) SIGN (ap_sign v),
      ap_until := found_last (member_texts json ms) TIMESTAMP (ap_until v)\<rparr>) ts"
  using assms
proof (induction ms arbitrary: v)
  case (Cons m ms)
  obtain k x inner where m: "m = (k, x, inner)" by (cases m)
  have k: "tok_inside json k" "tok_type k = JSMN_STRING" and inner: "list_all (no_name auth_names json) inner"
    and x: "tok_text json k \<in> auth_names \<or> no_name auth_names json x" and ms: "list_all (member_ok auth_names json) ms"
    using Cons.prems by (simp_all add: m)
  have keq: "json_eq json k s \<longleftrightarrow> tok_text json k = s" if "0 \<notin> set s" for s
    using json_eq_text [OF k(1) that] k(2) by simp
  note IH = Cons.IH [OF ms]
  consider "tok_text json k = USER_ID" | "tok_text json k = SIGN" | "tok_text json k = TIMESTAMP"
    | "tok_text json k \<notin> auth_names" by (auto simp: auth_names_def)
  then show ?case
  proof cases
    case 4
    then have "list_all (no_name auth_names json) (x # inner)" using x inner by simp
    from auth_skip [OF this, of v] 4 show ?thesis
      by (simp add: m keq IH auth_names_def)
  qed (simp_all add: m keq IH auth_skip [OF inner])
qed simp

lemma parse_login:
  assumes "parse json AUTH_TOKENS = Some (obj # member_tokens ms)" and "tok_type obj = JSMN_OBJECT"
    and "list_all (member_ok auth_names json) ms"
  shows "parseAuthPayload parse json =
    Inr (case (map_of (rev (member_texts json ms)) USER_ID, map_of (rev (member_texts json ms)) SIGN,
               map_of (rev (member_texts json ms)) TIMESTAMP) of
           (Some name, Some sign, Some valid_until) \<Rightarrow> Some (name, sign, valid_until)
         | _ \<Rightarrow> None)"
  using assms(1,2) auth_tokens_append [OF assms(3), of _ "[]"]
  by (simp add: parseAuthPayload_def found_last_def split: option.split)

text \<open>A login whose last token is one of the names makes the loop use a token that is not there.\<close>

theorem login_key_last:
  assumes "parse json AUTH_TOKENS = Some (obj # member_tokens ms @ [k])" and "tok_type obj = JSMN_OBJECT"
    and "list_all (member_ok auth_names json) ms"
    and "tok_type k = JSMN_STRING" and "tok_inside json k" and "tok_text json k \<in> auth_names"
  shows "\<exists>a. parseAuthPayload parse json = Inl a"
proof -
  have "auth_tokens json v [k] = None" for v
    using assms(4-6) by (auto simp: json_eq_text auth_names_def)
  then show ?thesis using assms(1,2) auth_tokens_append [OF assms(3), of _ "[k]"]
    by (simp add: parseAuthPayload_def)
qed

definition request_names :: "bytes set" where
  "request_names = {USER_ID, CLIENT_ID, USERNAME, ACCESS_TOKEN, NETWORKS}"

lemma request_key_facts [simp]:
  "0 \<notin> set CLIENT_ID" "0 \<notin> set USERNAME" "0 \<notin> set ACCESS_TOKEN" "0 \<notin> set NETWORKS"
  "distinct [USER_ID, CLIENT_ID, USERNAME, ACCESS_TOKEN, NETWORKS]"
  by (simp_all add: USER_ID_def CLIENT_ID_def USERNAME_def ACCESS_TOKEN_def NETWORKS_def ascii_def)

definition jp_get :: "json_param \<Rightarrow> bytes \<Rightarrow> bytes option" where
  "jp_get jp key =
     (if key = USER_ID then jp_userId jp else if key = CLIENT_ID then jp_clientId jp
      else if key = USERNAME then jp_username jp else if key = ACCESS_TOKEN then jp_accessToken jp
      else if key = NETWORKS then jp_networks jp else None)"

lemma request_distinct [simp]:
  "USER_ID \<noteq> CLIENT_ID" "USER_ID \<noteq> USERNAME" "USER_ID \<noteq> ACCESS_TOKEN" "USER_ID \<noteq> NETWORKS"
  "CLIENT_ID \<noteq> USER_ID" "CLIENT_ID \<noteq> USERNAME" "CLIENT_ID \<noteq> ACCESS_TOKEN" "CLIENT_ID \<noteq> NETWORKS"
  "USERNAME \<noteq> USER_ID" "USERNAME \<noteq> CLIENT_ID" "USERNAME \<noteq> ACCESS_TOKEN" "USERNAME \<noteq> NETWORKS"
  "ACCESS_TOKEN \<noteq> USER_ID" "ACCESS_TOKEN \<noteq> CLIENT_ID" "ACCESS_TOKEN \<noteq> USERNAME" "ACCESS_TOKEN \<noteq> NETWORKS"
  "NETWORKS \<noteq> USER_ID" "NETWORKS \<noteq> CLIENT_ID" "NETWORKS \<noteq> USERNAME" "NETWORKS \<noteq> ACCESS_TOKEN"
  using request_key_facts(5) by (simp_all add: eq_commute)

lemma found_last_absent: "key \<notin> fst ` set kvs \<Longrightarrow> found_last kvs key old = old"
  by (induction kvs) auto

lemma request_skip:
  "list_all (no_name request_names data) inner \<Longrightarrow> json_tokens data jp (inner @ ts) = json_tokens data jp ts"
proof (induction inner)
  case (Cons t inner)
  then have "jsoneq data t s \<noteq> 0" if "s \<in> request_names" for s
    using that jsoneq_text [of data t s] by (auto simp: no_name_def request_names_def)
  then show ?case using Cons by (cases ts) (simp_all add: request_names_def)
qed simp

lemma request_full:
  "jp_userId jp \<noteq> None \<and> jp_clientId jp \<noteq> None \<and> jp_username jp \<noteq> None \<and> jp_accessToken jp \<noteq> None \<and> jp_networks jp \<noteq> None \<Longrightarrow>
   json_tokens data jp ts = Some jp"
  by (cases ts) simp_all

lemma json_tokens_members:
  assumes "list_all (member_ok request_names data) ms" and "distinct (map fst (member_texts data ms))"
    and "\<forall>key \<in> fst ` set (member_texts data ms). jp_get jp key = None"
  shows "json_tokens data jp (member_tokens ms) =
    Some (jp\<lparr>jp_userId := found_last (member_texts data ms) USER_ID (jp_userId jp),
      jp_clientId := found_last (member_texts data ms) CLIENT_ID (jp_clientId jp),
      jp_username := found_last (member_texts data ms) USERNAME (jp_username jp),
      jp_accessToken := found_last (member_texts data ms) ACCESS_TOKEN (jp_accessToken jp),
      jp_networks := found_last (member_texts data ms) NETWORKS (jp_networks jp)\<rparr>)"
  using assms
proof (induction ms arbitrary: jp)
  case (Cons m ms)
  obtain k x inner where m: "m = (k, x, inner)" by (cases m)
  have k: "tok_inside data k" and inner: "list_all (no_name request_names data) inner"
    and x: "tok_text data k \<in> request_names \<or> no_name request_names data x" and ms: "list_all (member_ok request_names data) ms"
    using Cons.prems(1) by (simp_all add: m)
  have keq: "jsoneq data k s = 0 \<longleftrightarrow> tok_text data k = s" if "0 \<notin> set s" for s
    using jsoneq_text [OF k that] .
  have new: "tok_text data k \<notin> fst ` set (member_texts data ms)" and d: "distinct (map fst (member_texts data ms))"
    using Cons.prems(2) by (simp_all add: m)
  have none: "jp_get jp (tok_text data k) = None" and rest: "\<forall>key \<in> fst ` set (member_texts data ms). jp_get jp key = None"
    using Cons.prems(3) by (simp_all add: m)
  have "\<forall>key \<in> fst ` set (member_texts data ms). jp_get jp' key = None"
    if "\<forall>key. key \<noteq> tok_text data k \<longrightarrow> jp_get jp' key = jp_get jp key" for jp'
    using that new rest by metis
  note IH' = Cons.IH [OF ms d this] and IH = Cons.IH [OF ms d]
  consider "tok_text data k = USER_ID" | "tok_text data k = CLIENT_ID" | "tok_text data k = USERNAME"
    | "tok_text data k = ACCESS_TOKEN" | "tok_text data k = NETWORKS" | "tok_text data k \<notin> request_names"
    by (auto simp: request_names_def)
  then show ?case
  proof cases
    case 6
    then have "list_all (no_name request_names data) (x # inner)" using x inner by simp
    from request_skip [OF this, of jp] have "json_tokens data jp (x # inner @ member_tokens ms) = json_tokens data jp (member_tokens ms)" by simp
    moreover have "json_tokens data jp (k # ts) = json_tokens data jp ts" for ts
      using 6 by (auto simp: keq request_names_def request_full)
    ultimately show ?thesis using 6 IH [OF rest] by (simp add: m request_names_def)
  qed (use none new in \<open>simp_all add: m keq request_skip [OF inner] IH' jp_get_def found_last_absent\<close>)
qed simp

text \<open>A request with distinct keys is what its members say, whatever other members it has.\<close>

theorem request_parsed:
  assumes "parse data (get_num_of_tags data) = Some (obj # member_tokens ms)" and "tok_type obj = JSMN_OBJECT"
    and "list_all (member_ok request_names data) ms" and "distinct (map fst (member_texts data ms))"
  shows "json_parse parse data = Inr (Some \<lparr>jp_userId = map_of (member_texts data ms) USER_ID,
    jp_clientId = map_of (member_texts data ms) CLIENT_ID, jp_username = map_of (member_texts data ms) USERNAME,
    jp_accessToken = map_of (member_texts data ms) ACCESS_TOKEN, jp_networks = map_of (member_texts data ms) NETWORKS\<rparr>)"
proof -
  have r: "found_last (member_texts data ms) key None = map_of (member_texts data ms) key" for key
    using map_of_inject_set [of "rev (member_texts data ms)" "member_texts data ms"] assms(4)
    by (simp add: found_last_def rev_map [symmetric] split: option.split)
  show ?thesis
    using assms(1,2) json_tokens_members [OF assms(3,4), of "\<lparr>jp_userId = None, jp_clientId = None,
      jp_username = None, jp_accessToken = None, jp_networks = None\<rparr>"]
    by (simp add: json_parse_def Let_def r jp_get_def)
qed

section \<open>Requests that go wrong\<close>

text \<open>
  A login whose object is nothing but the name of a member, and a request of the authentication
  application with a list of networks: it has more tokens than four for each colon and four more, the
  tokeniser refuses it, and the parameters are never written.
\<close>

definition json_example :: "string \<Rightarrow> bytes" where
  "json_example s = map (\<lambda>c. if c = 126 then 34 else c) (ascii s)"

theorem login_name_only: "parseAuthPayload jsmn_strings (json_example ''{~userId~}'') = Inl UninitRead"
  by code_simp

theorem request_many_networks:
  "json_parse jsmn_strings (json_example ''{~userId~:~a~,~networks~:[~b~,~c~,~d~,~e~,~f~,~g~,~h~,~i~,~j~]}'') = Inr None"
  "jsmn_strings (json_example ''{~userId~:~a~,~networks~:[~b~,~c~,~d~,~e~,~f~,~g~,~h~,~i~,~j~]}'') 13 \<noteq> None"
  by code_simp+

end
