(* ===== verification/L0Server.thy ===== *)
theory L0Server
  imports Subscribe L0Json
begin

text \<open>
  The L0 server (modules/l0-server.c): clients under their connection number, and the numbers under
  the clients' names. Registration, disconnection, login with a signed name, the confirmation and
  kick commands, broadcasts, forwarding of answers to clients and the check for dead clients.
  The packets of the teocli protocol, the JSON tokeniser and MD5 are parameters (what is done with
  the tokens is in L0Json); reading packets
  from client connections is in L0Client.
\<close>

definition CMD_USER :: u8 where "CMD_USER = 129"
definition CMD_CONFIRM_AUTH :: u8 where "CMD_CONFIRM_AUTH = 147"
definition CMD_USER_NR :: u8 where "CMD_USER_NR = 193"
definition CMD_LAST :: u8 where "CMD_LAST = 255"

section \<open>Numbers in text\<close>

fun nat_text :: "nat \<Rightarrow> bytes" where
  "nat_text n = (if n < 10 then [] else nat_text (n div 10)) @ [of_nat (48 + n mod 10)]"

declare nat_text.simps [simp del]

definition int_text :: "int \<Rightarrow> bytes" where
  "int_text i = (if i < 0 then 45 # nat_text (nat (- i)) else nat_text (nat i))"

section \<open>Clients\<close>

definition upd_kl :: "(ksnLNullClass \<Rightarrow> ksnLNullClass) \<Rightarrow> ksnetEvMgr \<Rightarrow> ksnetEvMgr" where
  "upd_kl f ke = ke\<lparr>kl := map_option f (kl ke)\<rparr>"

definition fd_key :: "int \<Rightarrow> bytes" where "fd_key fd = enc_u32 (of_int fd)"

definition l0_client :: "int \<Rightarrow> ksnetEvMgr \<Rightarrow> ksnLNullData option" where
  "l0_client fd ke = (case kl ke of None \<Rightarrow> None | Some l \<Rightarrow> ksnLNullGetClientConnection l fd)"

definition client_fd :: "bytes \<Rightarrow> ksnetEvMgr \<Rightarrow> int" where
  "client_fd name ke = (case kl ke of None \<Rightarrow> 0 | Some l \<Rightarrow> ksnLNullClientIsConnected l name)"

definition ksnLNullGetNextFakeFd :: "ksnetEvMgr \<Rightarrow> ksnLNullClass \<Rightarrow> int \<times> ksnLNullClass" where
  "ksnLNullGetNextFakeFd ke l =
     (let fd = (if l0_fd_trudp l < MAX_FD_NUMBER (ke_env ke) then MAX_FD_NUMBER (ke_env ke) else l0_fd_trudp l)
      in (fd, l\<lparr>l0_fd_trudp := fd + 1\<rparr>))"

definition ksnLNullClientRegister :: "int \<Rightarrow> bytes option \<Rightarrow> int \<Rightarrow> ksnetEvMgr \<Rightarrow> bool \<times> ksnetEvMgr" where
  "ksnLNullClientRegister fd remote_addr remote_port ke =
     (let data = \<lparr>l0_name = None, l0_read_buffer = [], l0_t_addr = remote_addr, l0_t_port = remote_port,
                  l0_last_time = ksnetEvMgrGetTime ke, l0_crypt = NoCrypt\<rparr>;
          ke1 = upd_kl (\<lambda>l. l\<lparr>l0_map := snd (pblMapAdd (l0_map l) (fd_key fd) data)\<rparr>) ke
      in if l0_client fd ke1 = None then (False, ke1)
         else (True, upd_kl (\<lambda>l. l\<lparr>l0_clients := l0_clients l + 1\<rparr>) ke1))"

definition ksnLNullClientConnect :: "int \<Rightarrow> bytes option \<Rightarrow> int \<Rightarrow> ksnetEvMgr \<Rightarrow> ksnetEvMgr" where
  "ksnLNullClientConnect fd remote_addr remote_port ke =
     (case ksnLNullClientRegister fd remote_addr remote_port ke of
        (True, ke1) \<Rightarrow> emit [IoStart fd] ke1
      | (False, ke1) \<Rightarrow> ke1)"

text \<open>The JSON the connect and disconnect events carry, with its terminating zero.\<close>

definition l0_event_json :: "bytes \<Rightarrow> bytes option \<Rightarrow> int \<Rightarrow> bytes" where
  "l0_event_json name t_addr n =
     strz (ascii [CHR 0x7B, CHR 0x22] @ ascii ''client_name'' @ ascii [CHR 0x22, CHR 0x3A, CHR 0x22] @ name @
       ascii [CHR 0x22, CHR 0x2C, CHR 0x22] @ ascii ''trudp_ip'' @ ascii [CHR 0x22, CHR 0x3A, CHR 0x22] @
       (case t_addr of None \<Rightarrow> ascii ''error'' | Some a \<Rightarrow> a) @
       ascii [CHR 0x22, CHR 0x2C, CHR 0x22] @ ascii ''count_of_clients'' @ ascii [CHR 0x22, CHR 0x3A] @ int_text n @ ascii [CHR 0x7D])"

text \<open>\<open>remove_f\<close>: 0 keeps the (emptied) record, 1 removes it, 2 removes it but neither closes the
  connection nor tells the subscribers.\<close>

definition ksnLNullClientDisconnect :: "int \<Rightarrow> nat \<Rightarrow> ksnetEvMgr \<Rightarrow> ksnetEvMgr" where
  "ksnLNullClientDisconnect fd remove_f ke =
     (case l0_client fd ke of
        None \<Rightarrow> ke
      | Some kld \<Rightarrow>
          let ke1 = (if fd < MAX_FD_NUMBER (ke_env ke)
                     then emit ([IoStop fd] @ (if remove_f \<noteq> 2 then [CloseFd fd] else [])) ke else ke);
              ke2 = upd_kl (\<lambda>l. l\<lparr>l0_clients := l0_clients l - 1\<rparr>) ke1;
              ke3 = (case l0_name kld of
                       None \<Rightarrow> ke2
                     | Some name \<Rightarrow>
                         let ke' = (if remove_f \<noteq> 2
                                    then teoSScrSend EV_K_L0_DISCONNECTED
                                           (l0_event_json name (l0_t_addr kld)
                                              (case kl ke2 of None \<Rightarrow> 0 | Some l \<Rightarrow> l0_clients l)) 0 ke2
                                    else ke2)
                         in if remove_f \<noteq> 0
                            then upd_kl (\<lambda>l. l\<lparr>l0_map_n := pblMapRemoveFrom (l0_map_n l) (strz name)\<rparr>) ke' else ke')
          in if remove_f \<noteq> 0
             then upd_kl (\<lambda>l. l\<lparr>l0_map := pblMapRemoveFrom (l0_map l) (fd_key fd)\<rparr>) ke3
             else upd_kl (\<lambda>l. l\<lparr>l0_map := pblMapStore (l0_map l) (fd_key fd)
                                  (\<lambda>d. d\<lparr>l0_name := None, l0_t_addr := None, l0_read_buffer := [], l0_crypt := NoCrypt\<rparr>)\<rparr>) ke3)"

section \<open>Sending to clients\<close>

definition l0_send_packet :: "int \<Rightarrow> bytes \<Rightarrow> ksnetEvMgr \<Rightarrow> ksnetEvMgr" where
  "l0_send_packet fd pkg ke = (case kl ke of None \<Rightarrow> emit [Fault] ke | Some l \<Rightarrow> ksnLNullPacketSend fd pkg l ke)"

definition ksnLNullSend :: "int \<Rightarrow> u8 \<Rightarrow> bytes \<Rightarrow> ksnetEvMgr \<Rightarrow> ksnetEvMgr" where
  "ksnLNullSend fd cmd data ke = l0_send_packet fd (l0_packet_create (ke_env ke) cmd (cfg_host_name ke) data) ke"

text \<open>The iterator runs backwards through the clients; the clients' numbers are looked up by name.\<close>

definition ksnLNullSendBroadcast :: "u8 \<Rightarrow> bytes \<Rightarrow> ksnetEvMgr \<Rightarrow> nat \<times> ksnetEvMgr" where
  "ksnLNullSendBroadcast cmd data ke =
     (case kl ke of
        None \<Rightarrow> (0, emit [Fault] ke)
      | Some l \<Rightarrow>
          fold (\<lambda>(key, client) (n, ke).
                  case l0_name client of
                    None \<Rightarrow> (n, ke)
                  | Some name \<Rightarrow>
                      let fd = client_fd name ke
                      in if fd = 0 then (n, ke) else (n + 1, ksnLNullSend fd cmd data ke))
            (rev (pblMapEntries (l0_map l))) (0, ke))"

text \<open>The confirmation carries one byte more than the name and its zero; it is 0 here.\<close>

definition confirmAuth :: "int \<Rightarrow> ksnetEvMgr \<Rightarrow> ksnetEvMgr" where
  "confirmAuth fd ke =
     (case l0_client fd ke of
        None \<Rightarrow> emit [Fault] ke
      | Some kld \<Rightarrow>
          (case l0_name kld of
             None \<Rightarrow> emit [Fault] ke
           | Some name \<Rightarrow> l0_send_packet fd
               (l0_packet_create (ke_env ke) CMD_CONFIRM_AUTH (cfg_host_name ke) (strz name @ [0])) ke))"

section \<open>Login\<close>

definition WG001 :: bytes where "WG001 = ascii ''wg001-''"

text \<open>
  The time as an \<open>int\<close>: the fraction is cut off. A time that does not fit is undefined in C; the machine's
  conversion gives the smallest \<open>int\<close>.
\<close>

definition int32 :: "int \<Rightarrow> bool" where "int32 fd \<longleftrightarrow> - (2 ^ 31) \<le> fd \<and> fd < 2 ^ 31"

definition time_int :: "real \<Rightarrow> int" where
  "time_int t = (let n = (if 0 \<le> t then \<lfloor>t\<rfloor> else \<lceil>t\<rceil>) in if int32 n then n else - (2 ^ 31))"

definition checkAuthData :: "ksnetEvMgr \<Rightarrow> bytes \<Rightarrow> bytes \<Rightarrow> bytes \<Rightarrow> bytes \<Rightarrow> bool" where
  "checkAuthData ke name auth_data_valid_until sign secret =
     (if length sign \<noteq> 32 then False
      else let current_time_str = int_text (time_int (ksnetEvMgrGetTime ke))
           in if length current_time_str > length auth_data_valid_until \<or>
                 (length current_time_str = length auth_data_valid_until \<and>
                  strncmp auth_data_valid_until current_time_str (length auth_data_valid_until) < 0)
              then False
              else strncmp (md5_hex (ke_env ke) (name @ secret @ auth_data_valid_until)) sign 32 = 0)"

definition updateClientName :: "int \<Rightarrow> bytes \<Rightarrow> ksnetEvMgr \<Rightarrow> ksnetEvMgr" where
  "updateClientName fd name ke =
     (let client_name = WG001 @ cstr name;
          fd_ex = client_fd client_name ke;
          ke1 = (if fd_ex \<noteq> 0 \<and> fd_ex \<noteq> fd then ksnLNullClientDisconnect fd_ex 1 ke else ke);
          ke2 = upd_kl (\<lambda>l. l\<lparr>l0_map := pblMapStore (l0_map l) (fd_key fd) (\<lambda>d. d\<lparr>l0_name := Some client_name\<rparr>)\<rparr>) ke1
      in if fd_ex \<noteq> fd
         then upd_kl (\<lambda>l. l\<lparr>l0_map_n := snd (pblMapAdd (l0_map_n l) (strz client_name) fd)\<rparr>) ke2
         else ke2)"

definition sendConnectedEvent :: "int \<Rightarrow> ksnetEvMgr \<Rightarrow> ksnetEvMgr" where
  "sendConnectedEvent fd ke =
     (case l0_client fd ke of
        None \<Rightarrow> emit [Fault] ke
      | Some kld \<Rightarrow>
          let n = (case kl ke of None \<Rightarrow> 0 | Some l \<Rightarrow> pblMapSize (l0_map l));
              name = (case l0_name kld of None \<Rightarrow> ascii ''(null)'' | Some s \<Rightarrow> s)
          in upd_kl (\<lambda>l. l\<lparr>l0_visits := l0_visits l + 1\<rparr>)
               (teoSScrSend EV_K_L0_CONNECTED (l0_event_json name (l0_t_addr kld) (int n)) 0 ke))"

definition ksnLNullClientAuthCheck :: "int \<Rightarrow> bytes \<Rightarrow> ksnetEvMgr \<Rightarrow> bool \<times> ksnetEvMgr" where
  "ksnLNullClientAuthCheck fd payload ke =
     (if cfg_auth_secret ke = [] then (False, ksnLNullClientDisconnect fd 1 ke)
      else case parseAuthPayload (jsmn (ke_env ke)) (cstr payload) of
             Inl undefined_use \<Rightarrow> (False, emit [undefined_use] ke)
           | Inr None \<Rightarrow> (False, ksnLNullClientDisconnect fd 1 ke)
           | Inr (Some (name, sign, valid_until)) \<Rightarrow>
               if \<not> checkAuthData ke name valid_until sign (cfg_auth_secret ke)
               then (False, ksnLNullClientDisconnect fd 1 ke)
               else let ke1 = updateClientName fd name ke
                    in (True, if teoSScrNumberOfEventSubscribers ke1 EV_K_L0_CONNECTED > 0
                              then sendConnectedEvent fd ke1 else confirmAuth fd ke1))"

section \<open>Commands from peers\<close>

definition cmd_l0_broadcast_cb :: "ksnCorePacketData \<Rightarrow> ksnetEvMgr \<Rightarrow> int \<times> ksnetEvMgr" where
  "cmd_l0_broadcast_cb rd ke =
     (if cfg_l0_allow_f ke then (1, snd (ksnLNullSendBroadcast (rd_cmd rd) (rd_data rd) ke)) else (0, ke))"

definition cmd_l0_to_cb :: "ksnCorePacketData \<Rightarrow> ksnetEvMgr \<Rightarrow> int \<times> ksnetEvMgr" where
  "cmd_l0_to_cb rd ke =
     (1, case kl ke of
           None \<Rightarrow> emit [Fault] ke
         | Some l \<Rightarrow>
             let ke1 = upd_kl (\<lambda>l. l\<lparr>l0_packets_from_peer := l0_packets_from_peer l + 1\<rparr>) ke;
                 fd = client_fd (cstr (sp_payload (rd_data rd))) ke1
             in if fd \<noteq> 0
                then l0_send_packet fd
                       (l0_packet_create (ke_env ke) (sp_cmd (rd_data rd)) (cstr (rd_from rd)) (sp_data (rd_data rd))) ke1
                else ke1)"

text \<open>
  For data that is not a JSON object \<open>json_parse\<close> returns before it clears the parameters, and the
  callers, which ignore its result, go on with pointers that were never written.
\<close>

definition cmd_l0_check_cb :: "ksnCorePacketData \<Rightarrow> ksnetEvMgr \<Rightarrow> int \<times> ksnetEvMgr" where
  "cmd_l0_check_cb rd ke =
     (1, case json_parse (jsmn (ke_env ke)) (cstr (rd_data rd)) of
           Inl undefined_use \<Rightarrow> emit [undefined_use] ke
         | Inr None \<Rightarrow> emit [UninitRead] ke
         | Inr (Some jp) \<Rightarrow>
             (case jp_userId jp of None \<Rightarrow> ke | Some userId \<Rightarrow>
              if kl ke = None then emit [Fault] ke
              else let fd = client_fd userId ke
                   in if fd \<noteq> 0 \<and> l0_client fd ke \<noteq> None then confirmAuth fd ke else ke))"

definition cmd_l0_kick_client :: "ksnCorePacketData \<Rightarrow> ksnetEvMgr \<Rightarrow> int \<times> ksnetEvMgr" where
  "cmd_l0_kick_client rd ke =
     (1, case json_parse (jsmn (ke_env ke)) (cstr (rd_data rd)) of
           Inl undefined_use \<Rightarrow> emit [undefined_use] ke
         | Inr None \<Rightarrow> emit [UninitRead] ke
         | Inr (Some jp) \<Rightarrow>
             (case jp_userId jp of None \<Rightarrow> ke | Some userId \<Rightarrow>
              if kl ke = None then emit [Fault] ke
              else let fd = client_fd userId ke
                   in if fd \<noteq> 0
                      then let ke1 = ksnLNullSend fd CMD_L0_CLIENT_RESET (strz (ascii ''2'')) ke
                           in if l0_client fd ke1 \<noteq> None then ksnLNullClientDisconnect fd 2 ke1 else ke1
                      else ke))"

text \<open>The names of the clients that have one, None when there is no server.\<close>

definition ksnLNullClientsList :: "ksnetEvMgr \<Rightarrow> bytes list option" where
  "ksnLNullClientsList ke =
     (case kl ke of
        None \<Rightarrow> None
      | Some l \<Rightarrow>
          if cfg_l0_allow_f ke \<and> l0_fd l \<noteq> 0
          then Some (List.map_filter (\<lambda>(key, d). l0_name d) (rev (pblMapEntries (l0_map l)))) else None)"

section \<open>Dead clients\<close>

definition CHECK_TIMEOUT :: real where "CHECK_TIMEOUT = 10"
definition SEND_PING_TIMEOUT :: real where "SEND_PING_TIMEOUT = 30"
definition DISCONNECT_TIMEOUT :: real where "DISCONNECT_TIMEOUT = 60"

text \<open>
  The loop of \<open>_check_connected\<close> over the clients, last first. The iterator of libpbl fails when the
  map has changed since it was made (its change counter is \<open>counter\<close>), and the loop ends.
\<close>

fun check_clients :: "nat \<Rightarrow> (bytes \<times> ksnLNullData) list \<Rightarrow> ksnetEvMgr \<Rightarrow> ksnetEvMgr" where
  "check_clients counter [] ke = ke"
| "check_clients counter ((key, d) # rest) ke =
     (if (case kl ke of None \<Rightarrow> True | Some l \<Rightarrow> pblMapChangeCounter (l0_map l) \<noteq> counter) then ke
      else let fd = sint (dec_u32 key)
           in if ksnetEvMgrGetTime ke - l0_last_time d \<ge> DISCONNECT_TIMEOUT
              then check_clients counter rest (ksnLNullClientDisconnect fd 1 ke)
              else if l0_name d \<noteq> None \<and> ksnetEvMgrGetTime ke - l0_last_time d \<ge> SEND_PING_TIMEOUT
              then check_clients counter rest
                     (l0_send_packet fd
                        (l0_packet_create (ke_env ke) CMD_ECHO (cfg_host_name ke)
                           (ksnCommandEchoBuffer ke (strz (ascii ''ping'')))) ke)
              else check_clients counter rest ke)"

definition check_connected :: "ksnetEvMgr \<Rightarrow> ksnetEvMgr" where
  "check_connected ke =
     (case kl ke of
        None \<Rightarrow> emit [Fault] ke
      | Some l \<Rightarrow>
          let ke1 = check_clients (pblMapChangeCounter (l0_map l)) (rev (pblMapEntries (l0_map l))) ke
          in (case kl ke1 of
                None \<Rightarrow> ke1
              | Some l1 \<Rightarrow>
                  (case l0_cque l1 of
                     None \<Rightarrow> emit [UninitRead, Fault] ke1
                   | Some q0 \<Rightarrow>
                       (case ksnCQueAdd q0 (Some CheckConnectedCb) CHECK_TIMEOUT NoData of
                          (cq, q, acts) \<Rightarrow> emit acts (ke1\<lparr>kl := Some (l1\<lparr>l0_cque := Some q\<rparr>)\<rparr>)))))"

text \<open>
  \<open>ksnLNullStop\<close> for a started server: all clients go, the maps are cleared. The test for a started
  server is that the descriptor is not 0; when the server could not be made neither the descriptor nor
  the pointer to the queue has been written, and destroying the queue follows that pointer.
\<close>

definition ksnLNullStop :: "ksnetEvMgr \<Rightarrow> ksnetEvMgr" where
  "ksnLNullStop ke =
     (case kl ke of
        None \<Rightarrow> ke
      | Some l \<Rightarrow>
          if cfg_l0_allow_f ke \<and> l0_fd l \<noteq> 0
          then let ke1 = fold (\<lambda>(key, d) ke. ksnLNullClientDisconnect (sint (dec_u32 key)) 0 ke)
                           (rev (pblMapEntries (l0_map l))) ke;
                   ke2 = upd_kl (\<lambda>l. l\<lparr>l0_map_n := pblMapClear (l0_map_n l), l0_map := pblMapClear (l0_map l)\<rparr>) ke1
               in (case kl ke2 of
                     None \<Rightarrow> ke2
                   | Some l2 \<Rightarrow>
                       (case l0_cque l2 of
                          None \<Rightarrow> emit [UninitRead, Fault] ke2
                        | Some q0 \<Rightarrow>
                            (case teoCqueStopAll q0 (ke_run ke2) of
                               (q, acts) \<Rightarrow> emit acts (ke2\<lparr>kl := Some (l2\<lparr>l0_cque := Some q\<rparr>)\<rparr>))))
          else ke)"

section \<open>Names and connection numbers\<close>

text \<open>What sending leaves of the server: everything but the count of packets to clients.\<close>

lemma send_only_kl:
  assumes "send_only ke ke'" and "kl ke = Some l"
  obtains k where "kl ke' = Some (l\<lparr>l0_packets_to_client := k\<rparr>)"
proof -
  from assms have "kl ke' = Some l \<or> (\<exists>k. kl ke' = Some (l\<lparr>l0_packets_to_client := k\<rparr>))"
    unfolding send_only_def by auto
  then show thesis using that [of "l0_packets_to_client l"] that by auto
qed

lemma upd_kl_simps [simp]:
  "kl (upd_kl f ke) = map_option f (kl ke)" "ke_env (upd_kl f ke) = ke_env ke" "ksscr_map (upd_kl f ke) = ksscr_map ke"
  "ke_run (upd_kl f ke) = ke_run ke" "ke_time (upd_kl f ke) = ke_time ke" "ka (upd_kl f ke) = ka ke" "kq (upd_kl f ke) = kq ke"
  "kr_map (upd_kl f ke) = kr_map ke" "ks_map (upd_kl f ke) = ks_map ke" "faults (upd_kl f ke) = faults ke"
  "cfg_l0_allow_f (upd_kl f ke) = cfg_l0_allow_f ke" "cfg_host_name (upd_kl f ke) = cfg_host_name ke"
  by (simp_all add: upd_kl_def faults_def)

lemma disconnect_removed:
  assumes "kl ke = Some l" and "ksnLNullGetClientConnection l fd = Some kld" and "remove_f \<noteq> 0"
  obtains k where "kl (ksnLNullClientDisconnect fd remove_f ke) = Some (l\<lparr>l0_clients := l0_clients l - 1,
      l0_map := pblMapRemoveFrom (l0_map l) (fd_key fd),
      l0_map_n := (case l0_name kld of None \<Rightarrow> l0_map_n l | Some n \<Rightarrow> pblMapRemoveFrom (l0_map_n l) (strz n)),
      l0_packets_to_client := k\<rparr>)"
proof -
  have c: "l0_client fd ke = Some kld" using assms(1,2) by (simp add: l0_client_def)
  define ke1 where "ke1 = upd_kl (\<lambda>l. l\<lparr>l0_clients := l0_clients l - 1\<rparr>)
    (if fd < MAX_FD_NUMBER (ke_env ke) then emit ([IoStop fd] @ (if remove_f \<noteq> 2 then [CloseFd fd] else [])) ke else ke)"
  have k1: "kl ke1 = Some (l\<lparr>l0_clients := l0_clients l - 1\<rparr>)" using assms(1) by (simp add: ke1_def)
  show thesis
  proof (cases "l0_name kld")
    case None
    then have "kl (ksnLNullClientDisconnect fd remove_f ke) =
        map_option (\<lambda>l. l\<lparr>l0_map := pblMapRemoveFrom (l0_map l) (fd_key fd)\<rparr>) (kl ke1)"
      using assms(3) c by (simp add: ksnLNullClientDisconnect_def Let_def flip: ke1_def)
    then show thesis using that [of "l0_packets_to_client l"] None k1 by simp
  next
    case (Some n)
    define ke2 where "ke2 = (if remove_f \<noteq> 2 then teoSScrSend EV_K_L0_DISCONNECTED
        (l0_event_json n (l0_t_addr kld) (case kl ke1 of None \<Rightarrow> 0 | Some l \<Rightarrow> l0_clients l)) 0 ke1 else ke1)"
    have "send_only ke1 ke2" by (simp add: ke2_def)
    from send_only_kl [OF this k1] obtain k where
      k2: "kl ke2 = Some (l\<lparr>l0_clients := l0_clients l - 1, l0_packets_to_client := k\<rparr>)" by auto
    have "kl (ksnLNullClientDisconnect fd remove_f ke) =
        map_option (\<lambda>l. l\<lparr>l0_map := pblMapRemoveFrom (l0_map l) (fd_key fd)\<rparr>)
          (map_option (\<lambda>l. l\<lparr>l0_map_n := pblMapRemoveFrom (l0_map_n l) (strz n)\<rparr>) (kl ke2))"
      using assms(3) c Some by (simp add: ksnLNullClientDisconnect_def Let_def ke2_def flip: ke1_def)
    then show thesis using that [of k] Some k2 by simp
  qed
qed

lemma disconnect_absent: "l0_client fd ke = None \<Longrightarrow> ksnLNullClientDisconnect fd remove_f ke = ke"
  by (simp add: ksnLNullClientDisconnect_def)

lemma sint_int32: "int32 a \<Longrightarrow> sint (of_int a :: u32) = a"
  by (simp add: int32_def signed_of_int signed_take_bit_int_eq_self)

lemma fd_key_inject: "int32 a \<Longrightarrow> int32 b \<Longrightarrow> fd_key a = fd_key b \<longleftrightarrow> a = b"
  unfolding fd_key_def enc_u32_inject by (metis sint_int32)

text \<open>
  The two maps agree: a name leads to the number of a client with that name, and a client's name
  leads to its number.
\<close>

definition l0_inv :: "ksnLNullClass \<Rightarrow> bool" where
  "l0_inv l \<longleftrightarrow>
     (\<forall>key fd. pblMapGet (l0_map_n l) key = Some fd \<longrightarrow> int32 fd \<and> fd \<noteq> 0 \<and>
        (\<exists>n d. key = strz n \<and> ksnLNullGetClientConnection l fd = Some d \<and> l0_name d = Some n)) \<and>
     (\<forall>key d n. pblMapGet (l0_map l) key = Some d \<longrightarrow> l0_name d = Some n \<longrightarrow>
        (\<exists>fd. key = fd_key fd \<and> pblMapGet (l0_map_n l) (strz n) = Some fd))"

lemma l0_conn_key: "ksnLNullGetClientConnection l fd = pblMapGet (l0_map l) (fd_key fd)"
  by (simp add: ksnLNullGetClientConnection_def fd_key_def)

lemma l0_inv_name:
  assumes "l0_inv l" and "pblMapGet (l0_map_n l) key = Some fd"
  obtains n d where "int32 fd" and "fd \<noteq> 0" and "key = strz n" and "pblMapGet (l0_map l) (fd_key fd) = Some d"
    and "l0_name d = Some n"
  using assms unfolding l0_inv_def l0_conn_key by blast

lemma l0_inv_client:
  assumes "l0_inv l" and "pblMapGet (l0_map l) key = Some d" and "l0_name d = Some n"
  obtains fd where "key = fd_key fd" and "pblMapGet (l0_map_n l) (strz n) = Some fd"
  using assms unfolding l0_inv_def by blast

lemma l0_inv_remove:
  assumes "l0_inv l" and "pblMapGet (l0_map l) (fd_key fd) = Some kld" and "int32 fd"
    and "pblMapGet (l0_map l') = (pblMapGet (l0_map l))(fd_key fd := None)"
    and "pblMapGet (l0_map_n l') = (case l0_name kld of None \<Rightarrow> pblMapGet (l0_map_n l)
          | Some n \<Rightarrow> (pblMapGet (l0_map_n l))(strz n := None))"
  shows "l0_inv l'"
proof -
  have own: "f = fd \<longleftrightarrow> (\<exists>n. l0_name kld = Some n \<and> key = strz n)" if f: "pblMapGet (l0_map_n l) key = Some f" for key f
  proof -
    obtain n d where nd: "int32 f" "key = strz n" "pblMapGet (l0_map l) (fd_key f) = Some d" "l0_name d = Some n"
      by (rule l0_inv_name [OF assms(1) f])
    show ?thesis
    proof
      assume "f = fd"
      then show "\<exists>n. l0_name kld = Some n \<and> key = strz n" using nd assms(2) by auto
    next
      assume "\<exists>n. l0_name kld = Some n \<and> key = strz n"
      then have "l0_name kld = Some n" using nd(2) by auto
      then obtain g where "fd_key fd = fd_key g" "pblMapGet (l0_map_n l) (strz n) = Some g"
        by (rule l0_inv_client [OF assms(1,2)])
      then have "fd_key fd = fd_key f" using f nd(2) by simp
      then show "f = fd" using fd_key_inject assms(3) nd(1) by metis
    qed
  qed
  have "int32 f \<and> f \<noteq> 0 \<and> (\<exists>n d. key = strz n \<and> pblMapGet (l0_map l') (fd_key f) = Some d \<and> l0_name d = Some n)"
    if "pblMapGet (l0_map_n l') key = Some f" for key f
  proof -
    have f: "pblMapGet (l0_map_n l) key = Some f" "\<not> (\<exists>n. l0_name kld = Some n \<and> key = strz n)"
      using that unfolding assms(5) by (auto split: option.splits if_splits)
    obtain n d where nd: "int32 f" "f \<noteq> 0" "key = strz n" "pblMapGet (l0_map l) (fd_key f) = Some d" "l0_name d = Some n"
      by (rule l0_inv_name [OF assms(1) f(1)])
    have "fd_key f \<noteq> fd_key fd" using own [OF f(1)] f(2) fd_key_inject [OF nd(1) assms(3)] by simp
    then show ?thesis using nd unfolding assms(4) by simp
  qed
  moreover have "\<exists>f. key = fd_key f \<and> pblMapGet (l0_map_n l') (strz n) = Some f"
    if d: "pblMapGet (l0_map l') key = Some d" and n: "l0_name d = Some n" for key d n
  proof -
    have k: "pblMapGet (l0_map l) key = Some d" "key \<noteq> fd_key fd" using d unfolding assms(4) by (auto split: if_splits)
    obtain f where f: "key = fd_key f" "pblMapGet (l0_map_n l) (strz n) = Some f"
      by (rule l0_inv_client [OF assms(1) k(1) n])
    then have "\<not> l0_name kld = Some n" using own [OF f(2)] k(2) by auto
    then show ?thesis using f unfolding assms(5) by (auto split: option.split)
  qed
  ultimately show ?thesis unfolding l0_inv_def l0_conn_key by simp
qed

text \<open>
  C8: disconnecting a client takes its record and its name out together: afterwards neither leads to
  the other, every other client keeps its record, and names and numbers still agree.
\<close>

theorem l0_disconnect:
  assumes "kl ke = Some l" and "l0_inv l" and "ksnLNullGetClientConnection l fd = Some kld" and "int32 fd"
  shows "\<exists>l'. kl (ksnLNullClientDisconnect fd 1 ke) = Some l' \<and> l0_inv l' \<and> l0_clients l' = l0_clients l - 1 \<and>
    (\<forall>f. int32 f \<longrightarrow> ksnLNullGetClientConnection l' f = (if f = fd then None else ksnLNullGetClientConnection l f)) \<and>
    (\<forall>n. l0_name kld = Some n \<longrightarrow> ksnLNullClientIsConnected l' n = 0)"
proof -
  obtain k where k: "kl (ksnLNullClientDisconnect fd 1 ke) = Some (l\<lparr>l0_clients := l0_clients l - 1,
      l0_map := pblMapRemoveFrom (l0_map l) (fd_key fd),
      l0_map_n := (case l0_name kld of None \<Rightarrow> l0_map_n l | Some n \<Rightarrow> pblMapRemoveFrom (l0_map_n l) (strz n)),
      l0_packets_to_client := k\<rparr>)" (is "_ = Some ?l")
    by (rule disconnect_removed [OF assms(1,3) one_neq_zero])
  have "l0_inv ?l"
    by (rule l0_inv_remove [OF assms(2) _ assms(4)])
       (use assms(3) in \<open>cases "l0_name kld"; simp add: l0_conn_key map_simps\<close>)+
  then show ?thesis
    unfolding k using assms(4)
    by (auto simp: l0_conn_key map_simps fd_key_inject ksnLNullClientIsConnected_def)
qed

section \<open>Logging in\<close>

lemma l0_inv_login:
  assumes "l0_inv l" and "pblMapGet (l0_map l) (fd_key fd) = Some kld" and "l0_name kld = None" and "int32 fd" and "fd \<noteq> 0"
    and "pblMapGet (l0_map_n l) (strz n) = None"
    and "pblMapGet (l0_map l') = (pblMapGet (l0_map l))(fd_key fd \<mapsto> kld\<lparr>l0_name := Some n\<rparr>)"
    and "pblMapGet (l0_map_n l') = (pblMapGet (l0_map_n l))(strz n \<mapsto> fd)"
  shows "l0_inv l'"
proof -
  have "int32 f \<and> f \<noteq> 0 \<and> (\<exists>m d. key = strz m \<and> pblMapGet (l0_map l') (fd_key f) = Some d \<and> l0_name d = Some m)"
    if "pblMapGet (l0_map_n l') key = Some f" for key f
  proof (cases "key = strz n")
    case True
    then show ?thesis using that assms(4,5,7,8) by simp
  next
    case False
    then have f: "pblMapGet (l0_map_n l) key = Some f" using that assms(8) by simp
    obtain m d where md: "int32 f" "f \<noteq> 0" "key = strz m" "pblMapGet (l0_map l) (fd_key f) = Some d" "l0_name d = Some m"
      by (rule l0_inv_name [OF assms(1) f])
    then have "fd_key f \<noteq> fd_key fd" using assms(2,3) by auto
    then show ?thesis using md assms(7) by simp
  qed
  moreover have "\<exists>f. key = fd_key f \<and> pblMapGet (l0_map_n l') (strz m) = Some f"
    if d: "pblMapGet (l0_map l') key = Some d" and m: "l0_name d = Some m" for key d m
  proof (cases "key = fd_key fd")
    case True
    then show ?thesis using d m assms(7,8) by auto
  next
    case False
    then have k: "pblMapGet (l0_map l) key = Some d" using d assms(7) by simp
    obtain f where f: "key = fd_key f" "pblMapGet (l0_map_n l) (strz m) = Some f"
      by (rule l0_inv_client [OF assms(1) k m])
    then show ?thesis using assms(6,8) by auto
  qed
  ultimately show ?thesis unfolding l0_inv_def l0_conn_key by simp
qed

text \<open>The state in which a login enters the name: another client with it is gone.\<close>

definition login_ready :: "int \<Rightarrow> bytes \<Rightarrow> ksnetEvMgr \<Rightarrow> ksnetEvMgr" where
  "login_ready fd n ke = (let fd_ex = client_fd n ke
     in if fd_ex \<noteq> 0 \<and> fd_ex \<noteq> fd then ksnLNullClientDisconnect fd_ex 1 ke else ke)"

lemma updateClientName_login:
  "updateClientName fd name ke = (let n = WG001 @ cstr name;
     ke2 = upd_kl (\<lambda>l. l\<lparr>l0_map := pblMapStore (l0_map l) (fd_key fd) (\<lambda>d. d\<lparr>l0_name := Some n\<rparr>)\<rparr>) (login_ready fd n ke)
   in if client_fd n ke \<noteq> fd then upd_kl (\<lambda>l. l\<lparr>l0_map_n := pblMapAddTo (l0_map_n l) (strz n) fd\<rparr>) ke2 else ke2)"
  by (simp add: updateClientName_def login_ready_def Let_def pblMapAdd_def)

lemma client_fd_get:
  "kl ke = Some l \<Longrightarrow> client_fd n ke = (case pblMapGet (l0_map_n l) (strz n) of None \<Rightarrow> 0 | Some f \<Rightarrow> f)"
  by (simp add: client_fd_def ksnLNullClientIsConnected_def)

lemma login_ready_facts:
  assumes l: "kl ke = Some l" and inv: "l0_inv l" and c: "pblMapGet (l0_map l) (fd_key fd) = Some kld"
    and i: "int32 fd" and fresh: "l0_name kld \<noteq> Some n"
  obtains l1 where "kl (login_ready fd n ke) = Some l1" and "l0_inv l1" and "pblMapGet (l0_map l1) (fd_key fd) = Some kld"
    and "pblMapGet (l0_map_n l1) (strz n) = None" and "pblMapSize (l0_map_n l1) \<le> pblMapSize (l0_map_n l)"
    and "\<And>f. int32 f \<Longrightarrow> pblMapGet (l0_map l1) (fd_key f) =
      (if pblMapGet (l0_map_n l) (strz n) = Some f then None else pblMapGet (l0_map l) (fd_key f))"
    and "\<And>m. m \<noteq> n \<Longrightarrow> pblMapGet (l0_map_n l1) (strz m) = pblMapGet (l0_map_n l) (strz m)"
proof (cases "pblMapGet (l0_map_n l) (strz n)")
  case None
  then show thesis using that [of l] assms by (simp add: login_ready_def client_fd_get)
next
  case (Some g)
  obtain m d where md: "int32 g" "g \<noteq> 0" "strz n = strz m" "pblMapGet (l0_map l) (fd_key g) = Some d" "l0_name d = Some m"
    by (rule l0_inv_name [OF inv Some])
  have ne: "g \<noteq> fd" using md c fresh by auto
  have conn: "ksnLNullGetClientConnection l g = Some d" using md(4) by (simp add: l0_conn_key)
  obtain k where k: "kl (ksnLNullClientDisconnect g 1 ke) = Some (l\<lparr>l0_clients := l0_clients l - 1,
      l0_map := pblMapRemoveFrom (l0_map l) (fd_key g),
      l0_map_n := (case l0_name d of None \<Rightarrow> l0_map_n l | Some n \<Rightarrow> pblMapRemoveFrom (l0_map_n l) (strz n)),
      l0_packets_to_client := k\<rparr>)" (is "_ = Some ?l")
    by (rule disconnect_removed [OF l conn one_neq_zero])
  have "l0_inv ?l"
    by (rule l0_inv_remove [OF inv md(4,1)]) (use md(5) in \<open>simp_all add: map_simps\<close>)
  moreover have "login_ready fd n ke = ksnLNullClientDisconnect g 1 ke"
    using Some md(2) ne by (simp add: login_ready_def client_fd_get [OF l])
  ultimately show thesis
    using that [of ?l] k md(1,3,5) c i ne Some fd_key_inject
    by (auto simp: map_simps)
qed

lemma l0_first_login:
  assumes "kl ke = Some l" and "l0_inv l" and "ksnLNullGetClientConnection l fd = Some kld" and "l0_name kld = None"
    and "int32 fd" and "fd \<noteq> 0" and "pblMapSize (l0_map_n l) < pblMaxElements"
  shows "\<exists>l'. kl (updateClientName fd name ke) = Some l' \<and> l0_inv l' \<and>
    ksnLNullClientIsConnected l' (WG001 @ cstr name) = fd \<and>
    ksnLNullGetClientConnection l' fd = Some (kld\<lparr>l0_name := Some (WG001 @ cstr name)\<rparr>) \<and>
    (\<forall>f. int32 f \<longrightarrow> f \<noteq> 0 \<longrightarrow> f \<noteq> fd \<longrightarrow> ksnLNullGetClientConnection l' f =
      (if ksnLNullClientIsConnected l (WG001 @ cstr name) = f then None else ksnLNullGetClientConnection l f))"
proof -
  let ?n = "WG001 @ cstr name"
  have fresh: "l0_name kld \<noteq> Some ?n" using assms(4) by simp
  have c: "pblMapGet (l0_map l) (fd_key fd) = Some kld" using assms(3) by (simp add: l0_conn_key)
  obtain l1 where l1: "kl (login_ready fd ?n ke) = Some l1" "l0_inv l1" "pblMapGet (l0_map l1) (fd_key fd) = Some kld"
      "pblMapGet (l0_map_n l1) (strz ?n) = None" "pblMapSize (l0_map_n l1) \<le> pblMapSize (l0_map_n l)"
    and other: "\<And>f. int32 f \<Longrightarrow> pblMapGet (l0_map l1) (fd_key f) =
      (if pblMapGet (l0_map_n l) (strz ?n) = Some f then None else pblMapGet (l0_map l) (fd_key f))"
    by (rule login_ready_facts [OF assms(1,2) c assms(5) fresh]) blast
  have ne: "client_fd ?n ke \<noteq> fd"
  proof
    assume "client_fd ?n ke = fd"
    then have "pblMapGet (l0_map_n l) (strz ?n) = Some fd"
      using assms(6) client_fd_get [OF assms(1)] by (simp split: option.splits)
    then show False using l0_inv_name [OF assms(2)] c fresh by (metis option.inject strz_inject)
  qed
  let ?l = "l1\<lparr>l0_map := pblMapStore (l0_map l1) (fd_key fd) (\<lambda>d. d\<lparr>l0_name := Some ?n\<rparr>),
    l0_map_n := pblMapAddTo (l0_map_n l1) (strz ?n) fd\<rparr>"
  have room: "pblMapRoom (l0_map_n l1) (strz ?n)" using l1(5) assms(7) by (simp add: pblMapRoom_def)
  have k: "kl (updateClientName fd name ke) = Some ?l"
    using l1(1) ne by (simp add: updateClientName_def login_ready_def Let_def pblMapAdd_def)
  have m: "pblMapGet (l0_map ?l) = (pblMapGet (l0_map l1))(fd_key fd \<mapsto> kld\<lparr>l0_name := Some ?n\<rparr>)"
    using l1(3) by (auto simp: map_simps fun_eq_iff)
  have "l0_inv ?l"
    by (rule l0_inv_login [OF l1(2,3) assms(4-6) l1(4) m]) (simp add: room map_simps)
  moreover have "ksnLNullClientIsConnected ?l ?n = fd" by (simp add: ksnLNullClientIsConnected_def room map_simps)
  moreover have "ksnLNullGetClientConnection ?l f =
      (if ksnLNullClientIsConnected l ?n = f then None else ksnLNullGetClientConnection l f)"
    if f: "int32 f" "f \<noteq> 0" "f \<noteq> fd" for f
    unfolding l0_conn_key m using other [OF f(1)] fd_key_inject [OF f(1) assms(5)] f(2,3)
    by (auto simp: ksnLNullClientIsConnected_def split: option.splits)
  ultimately show ?thesis unfolding k using m by (auto simp: l0_conn_key)
qed

text \<open>
  C7: the login of a client that has no name yet, or carries that name already, makes the name lead to the
  client and the client carry it; another client that held the name is disconnected, every other client
  keeps its record, and names and numbers still agree. (A client that logs in once more under another
  name leaves its old name in the table: \<open>l0_relogin_stale\<close> below.)
\<close>

theorem l0_login:
  assumes "kl ke = Some l" and "l0_inv l" and "ksnLNullGetClientConnection l fd = Some kld"
    and "l0_name kld \<in> {None, Some (WG001 @ cstr name)}"
    and "int32 fd" and "fd \<noteq> 0" and "pblMapSize (l0_map_n l) < pblMaxElements"
  shows "\<exists>l'. kl (updateClientName fd name ke) = Some l' \<and> l0_inv l' \<and>
    ksnLNullClientIsConnected l' (WG001 @ cstr name) = fd \<and>
    ksnLNullGetClientConnection l' fd = Some (kld\<lparr>l0_name := Some (WG001 @ cstr name)\<rparr>) \<and>
    (\<forall>f. int32 f \<longrightarrow> f \<noteq> 0 \<longrightarrow> f \<noteq> fd \<longrightarrow> ksnLNullGetClientConnection l' f =
      (if ksnLNullClientIsConnected l (WG001 @ cstr name) = f then None else ksnLNullGetClientConnection l f))"
proof (cases "l0_name kld")
  case None
  show ?thesis by (rule l0_first_login [OF assms(1-3) None assms(5-7)])
next
  case (Some n)
  then have n: "n = WG001 @ cstr name" using assms(4) by simp
  have c: "pblMapGet (l0_map l) (fd_key fd) = Some kld" using assms(3) by (simp add: l0_conn_key)
  obtain f where f: "fd_key fd = fd_key f" "pblMapGet (l0_map_n l) (strz n) = Some f"
    by (rule l0_inv_client [OF assms(2) c Some])
  then have fd: "pblMapGet (l0_map_n l) (strz n) = Some fd"
    using l0_inv_name [OF assms(2) f(2)] fd_key_inject [OF assms(5)] by metis
  let ?l = "l\<lparr>l0_map := pblMapStore (l0_map l) (fd_key fd) (\<lambda>d. d\<lparr>l0_name := Some n\<rparr>)\<rparr>"
  have k: "kl (updateClientName fd name ke) = Some ?l"
    using assms(1) fd by (simp add: updateClientName_def Let_def client_fd_get [OF assms(1)] n)
  have "kld\<lparr>l0_name := Some n\<rparr> = kld" using Some by simp
  then have m: "pblMapGet (l0_map ?l) = pblMapGet (l0_map l)" using c by (auto simp: map_simps fun_eq_iff)
  have "l0_inv ?l" using assms(2) unfolding l0_inv_def l0_conn_key m by simp
  moreover have "ksnLNullClientIsConnected l n = fd" using fd by (simp add: ksnLNullClientIsConnected_def)
  ultimately show ?thesis
    unfolding k using c m \<open>kld\<lparr>l0_name := Some n\<rparr> = kld\<close>
    by (auto simp: l0_conn_key ksnLNullClientIsConnected_def n)
qed

text \<open>
  A client that logs in a second time under another name keeps the old entry: the old name
  still leads to it although its record carries the new name, so the two maps no longer agree.
\<close>

theorem l0_relogin_stale:
  assumes "kl ke = Some l" and "l0_inv l" and "ksnLNullGetClientConnection l fd = Some kld" and "l0_name kld = Some old"
    and "int32 fd" and "old \<noteq> WG001 @ cstr name"
  shows "\<exists>l'. kl (updateClientName fd name ke) = Some l' \<and> ksnLNullClientIsConnected l' old = fd \<and>
    (\<exists>d. ksnLNullGetClientConnection l' fd = Some d \<and> l0_name d = Some (WG001 @ cstr name)) \<and> \<not> l0_inv l'"
proof -
  let ?n = "WG001 @ cstr name"
  have c: "pblMapGet (l0_map l) (fd_key fd) = Some kld" using assms(3) by (simp add: l0_conn_key)
  obtain l1 where l1: "kl (login_ready fd ?n ke) = Some l1" "pblMapGet (l0_map l1) (fd_key fd) = Some kld"
      "\<And>m. m \<noteq> ?n \<Longrightarrow> pblMapGet (l0_map_n l1) (strz m) = pblMapGet (l0_map_n l) (strz m)"
    by (rule login_ready_facts [OF assms(1,2) c assms(5)]) (use assms(4,6) in auto)
  obtain f where f: "fd_key fd = fd_key f" "pblMapGet (l0_map_n l) (strz old) = Some f"
    by (rule l0_inv_client [OF assms(2) c assms(4)])
  then have old: "pblMapGet (l0_map_n l1) (strz old) = Some fd"
    using l1(3) [OF assms(6)] l0_inv_name [OF assms(2) f(2)] fd_key_inject [OF assms(5)] by metis
  obtain l' where k: "kl (updateClientName fd name ke) = Some l'"
    and m: "pblMapGet (l0_map l') (fd_key fd) = Some (kld\<lparr>l0_name := Some ?n\<rparr>)"
    and n: "l0_map_n l' = l0_map_n l1 \<or> l0_map_n l' = pblMapAddTo (l0_map_n l1) (strz ?n) fd"
  proof (rule that)
    let ?l = "l1\<lparr>l0_map := pblMapStore (l0_map l1) (fd_key fd) (\<lambda>d. d\<lparr>l0_name := Some ?n\<rparr>),
      l0_map_n := (if client_fd ?n ke \<noteq> fd then pblMapAddTo (l0_map_n l1) (strz ?n) fd else l0_map_n l1)\<rparr>"
    show "kl (updateClientName fd name ke) = Some ?l"
      using l1(1) by (simp add: updateClientName_login Let_def)
  qed (use l1(2) in \<open>simp_all add: map_simps\<close>)
  have o: "pblMapGet (l0_map_n l') (strz old) = Some fd"
    using n old assms(6) by (auto simp: map_simps)
  have "\<not> l0_inv l'"
  proof
    assume "l0_inv l'"
    then obtain x d where "strz old = strz x" "pblMapGet (l0_map l') (fd_key fd) = Some d" "l0_name d = Some x"
      using o by (rule l0_inv_name)
    then show False using m assms(6) by auto
  qed
  then show ?thesis using k m o by (auto simp: l0_conn_key ksnLNullClientIsConnected_def)
qed

section \<open>A server with a client\<close>

definition l0_client_zero :: "bytes option \<Rightarrow> ksnLNullData" where
  "l0_client_zero n = \<lparr>l0_name = n, l0_read_buffer = [], l0_t_addr = None, l0_t_port = 0, l0_last_time = 90, l0_crypt = NoCrypt\<rparr>"

definition l0_example :: ksnLNullClass where
  "l0_example = \<lparr>l0_map = pblMapAddTo (pblMapAddTo pblMapNewHashMap (fd_key 5) (l0_client_zero (Some [97]))) (fd_key 6) (l0_client_zero None),
     l0_map_n = pblMapAddTo pblMapNewHashMap (strz [97]) 5, l0_fd = 4, l0_fd_trudp = 1024, l0_clients = 2, l0_visits = 1,
     l0_packets_to_peer = 0, l0_packets_from_peer = 0, l0_packets_to_client = 0, l0_packets_from_client = 0,
     l0_cque = Some (ksnCQueInit False)\<rparr>"

definition l0_node :: ksnetEvMgr where
  "l0_node = (exampleNode [115])\<lparr>cfg_l0_allow_f := True, kl := Some l0_example\<rparr>"

lemma l0_node_kl: "kl l0_node = Some l0_example" by (simp add: l0_node_def)

lemma small_int32 [simp]: "int32 (numeral n) \<longleftrightarrow> (numeral n :: int) < 2 ^ 31"
  by (simp add: int32_def)

lemma key56 [simp]: "fd_key 5 \<noteq> fd_key 6" "fd_key 6 \<noteq> fd_key 5"
  by (simp_all add: fd_key_inject)

lemma room1: "pblMapRoom (pblMapAddTo pblMapNewHashMap k v) k'"
  by (simp add: pblMapRoom_def size_add size_new get_new pblMaxElements_def)

lemma l0_example_get:
  "pblMapGet (l0_map l0_example) k = (if k = fd_key 5 then Some (l0_client_zero (Some [97]))
     else if k = fd_key 6 then Some (l0_client_zero None) else None)"
  "pblMapGet (l0_map_n l0_example) k = (if k = strz [97] then Some 5 else None)"
  by (auto simp: l0_example_def map_simps room1)

lemma l0_example_inv: "l0_inv l0_example"
  unfolding l0_inv_def l0_conn_key l0_example_get by (auto simp: l0_client_zero_def int32_def split: if_splits)

theorem l0_disconnect_witness:
  "\<exists>l'. kl (ksnLNullClientDisconnect 5 1 l0_node) = Some l' \<and> ksnLNullClientIsConnected l' [97] = 0"
proof -
  have c: "ksnLNullGetClientConnection l0_example 5 = Some (l0_client_zero (Some [97]))"
    by (simp add: l0_conn_key l0_example_get)
  have "int32 5" by simp
  from l0_disconnect [OF l0_node_kl l0_example_inv c this] show ?thesis by (auto simp: l0_client_zero_def)
qed

theorem l0_login_witness:
  "\<exists>l'. kl (updateClientName 6 [98] l0_node) = Some l' \<and> ksnLNullClientIsConnected l' (WG001 @ cstr [98]) = 6"
proof -
  have c: "ksnLNullGetClientConnection l0_example 6 = Some (l0_client_zero None)"
    by (simp add: l0_conn_key l0_example_get)
  have "l0_name (l0_client_zero None) \<in> {None, Some (WG001 @ cstr [98])}" "int32 6" "(6::int) \<noteq> 0" "pblMapSize (l0_map_n l0_example) < pblMaxElements"
    by (simp_all add: l0_client_zero_def l0_example_def size_add size_new get_new pblMaxElements_def)
  from l0_login [OF l0_node_kl l0_example_inv c this] show ?thesis by auto
qed

theorem l0_relogin_stale_witness:
  "\<exists>l'. kl (updateClientName 5 [98] l0_node) = Some l' \<and> ksnLNullClientIsConnected l' [97] = 5"
proof -
  have c: "ksnLNullGetClientConnection l0_example 5 = Some (l0_client_zero (Some [97]))"
    by (simp add: l0_conn_key l0_example_get)
  have "l0_name (l0_client_zero (Some [97])) = Some [97]" "int32 5" "[97] \<noteq> WG001 @ cstr [98]"
    by (simp_all add: l0_client_zero_def WG001_def ascii_def)
  from l0_relogin_stale [OF l0_node_kl l0_example_inv c this] show ?thesis by auto
qed

section \<open>The check for dead clients\<close>

definition client_dead :: "ksnetEvMgr \<Rightarrow> bytes \<times> ksnLNullData \<Rightarrow> bool" where
  "client_dead ke e \<longleftrightarrow> ksnetEvMgrGetTime ke - l0_last_time (snd e) \<ge> DISCONNECT_TIMEOUT"

definition l0_keys :: "ksnLNullClass \<Rightarrow> bool" where
  "l0_keys l \<longleftrightarrow> (\<forall>key d. pblMapGet (l0_map l) key = Some d \<longrightarrow> (\<exists>fd. int32 fd \<and> key = fd_key fd))"

lemma send_only_l0_packet [simp]: "kl ke \<noteq> None \<Longrightarrow> send_only ke (l0_send_packet fd pkg ke)"
  by (auto simp: l0_send_packet_def)

lemma fd_key_dec: "int32 fd \<Longrightarrow> sint (dec_u32 (fd_key fd)) = fd"
  using dec_enc_u32 [of "of_int fd" "[]"] by (simp add: fd_key_def sint_int32)

lemma check_clients_changed:
  "kl ke = Some l \<Longrightarrow> pblMapChangeCounter (l0_map l) \<noteq> counter \<Longrightarrow> check_clients counter xs ke = ke"
  by (cases xs) auto

lemma check_clients_first:
  assumes "kl ke = Some l" and "pblMapChangeCounter (l0_map l) = counter" and "l0_keys l"
    and "\<forall>(key, d) \<in> set xs. pblMapGet (l0_map l) key = Some d"
  shows "\<exists>l'. kl (check_clients counter xs ke) = Some l' \<and> pblMapGet (l0_map l') =
    (case filter (client_dead ke) xs of [] \<Rightarrow> pblMapGet (l0_map l) | e # _ \<Rightarrow> (pblMapGet (l0_map l))(fst e := None))"
  using assms
proof (induction xs arbitrary: ke l)
  case (Cons e xs)
  obtain key d where e: "e = (key, d)" by fastforce
  have get: "pblMapGet (l0_map l) key = Some d" using Cons.prems(4) by (simp add: e)
  obtain fd where fd: "int32 fd" "key = fd_key fd" using get Cons.prems(3) unfolding l0_keys_def by blast
  have s: "sint (dec_u32 key) = fd" using fd by (simp add: fd_key_dec)
  show ?case
  proof (cases "client_dead ke e")
    case True
    obtain k where k: "kl (ksnLNullClientDisconnect fd 1 ke) = Some (l\<lparr>l0_clients := l0_clients l - 1,
        l0_map := pblMapRemoveFrom (l0_map l) (fd_key fd),
        l0_map_n := (case l0_name d of None \<Rightarrow> l0_map_n l | Some n \<Rightarrow> pblMapRemoveFrom (l0_map_n l) (strz n)),
        l0_packets_to_client := k\<rparr>)"
      by (rule disconnect_removed [OF Cons.prems(1) _ one_neq_zero]) (use get fd in \<open>simp_all add: l0_conn_key\<close>)
    have "check_clients counter (e # xs) ke = ksnLNullClientDisconnect fd 1 ke"
      using True Cons.prems(1,2) get fd(2) check_clients_changed [OF k, of counter xs]
      by (simp add: e s [unfolded fd(2)] client_dead_def remove_facts)
    then show ?thesis unfolding \<open>check_clients counter (e # xs) ke = _\<close> k using True by (simp add: e fd(2) remove_facts(1) fun_eq_iff)
  next
    case False
    define ke' where "ke' = (if l0_name d \<noteq> None \<and> ksnetEvMgrGetTime ke - l0_last_time d \<ge> SEND_PING_TIMEOUT
      then l0_send_packet fd (l0_packet_create (ke_env ke) CMD_ECHO (cfg_host_name ke)
        (ksnCommandEchoBuffer ke (strz (ascii ''ping'')))) ke else ke)"
    have ke': "check_clients counter (e # xs) ke = check_clients counter xs ke'" "send_only ke ke'"
      using False Cons.prems(1,2) by (simp_all add: e s [unfolded fd(2)] fd(2) client_dead_def ke'_def)
    obtain k where k: "kl ke' = Some (l\<lparr>l0_packets_to_client := k\<rparr>)" by (rule send_only_kl [OF ke'(2) Cons.prems(1)])
    have time: "client_dead ke' = client_dead ke"
      using send_only_fields(7,8) [OF ke'(2)] by (simp add: client_dead_def fun_eq_iff ksnetEvMgrGetTime_def)
    have "l0_keys (l\<lparr>l0_packets_to_client := k\<rparr>)" using Cons.prems(3) by (simp add: l0_keys_def)
    moreover have "\<forall>(key, d) \<in> set xs. pblMapGet (l0_map (l\<lparr>l0_packets_to_client := k\<rparr>)) key = Some d"
      using Cons.prems(4) by simp
    ultimately show ?thesis using Cons.IH [OF k] Cons.prems(2) False ke'(1) time by (simp cong: list.case_cong)
  qed
qed auto

text \<open>
  One pass of the check disconnects the first client in the iteration order that has been silent
  for DISCONNECT_TIMEOUT, and no other: the iterator fails after the first removal, so further dead
  clients stay until the next passes.
\<close>

theorem check_connected_first:
  assumes "kl ke = Some l" and "l0_keys l"
  shows "\<exists>l'. kl (check_connected ke) = Some l' \<and> pblMapGet (l0_map l') =
    (case filter (client_dead ke) (rev (pblMapEntries (l0_map l))) of
       [] \<Rightarrow> pblMapGet (l0_map l) | e # _ \<Rightarrow> (pblMapGet (l0_map l))(fst e := None))"
proof -
  have "\<forall>(key, d) \<in> set (rev (pblMapEntries (l0_map l))). pblMapGet (l0_map l) key = Some d"
    by (auto simp: entries_mem)
  from check_clients_first [OF assms(1) refl assms(2) this] show ?thesis
    using assms(1) by (auto simp: check_connected_def Let_def split: prod.splits option.splits)
qed

lemma ex_keys: "\<exists>fd. int32 fd \<and> fd_key 5 = fd_key fd" "\<exists>fd. int32 fd \<and> fd_key 6 = fd_key fd"
  by (rule exI [of _ 5], simp) (rule exI [of _ 6], simp)

lemma late_dead: "client_dead (l0_node\<lparr>ke_time := 200\<rparr>) (key, l0_client_zero n)"
  by (simp add: client_dead_def l0_node_def exampleNode_def ksnetEvMgrGetTime_def DISCONNECT_TIMEOUT_def l0_client_zero_def)

lemma l0_example_keys: "l0_keys l0_example"
  unfolding l0_keys_def l0_example_get using ex_keys by (simp split: if_split)

lemma l0_example_size: "pblMapSize (l0_map l0_example) = 2"
  by (simp add: l0_example_def size_add size_new room1 get_new get_add_other)

lemma l0_example_dead:
  obtains e es where "filter (client_dead (l0_node\<lparr>ke_time := 200\<rparr>)) (rev (pblMapEntries (l0_map l0_example))) = e # es"
    and "fst e = fd_key 5 \<or> fst e = fd_key 6"
proof -
  obtain e es where e: "rev (pblMapEntries (l0_map l0_example)) = e # es"
    using entries_length [of "l0_map l0_example"] l0_example_size
    by (cases "rev (pblMapEntries (l0_map l0_example))") simp_all
  have "e \<in> set (rev (pblMapEntries (l0_map l0_example)))" unfolding e by simp
  then have "(fst e, snd e) \<in> set (pblMapEntries (l0_map l0_example))" by simp
  then have m: "pblMapGet (l0_map l0_example) (fst e) = Some (snd e)" unfolding entries_mem .
  then have k: "fst e = fd_key 5 \<or> fst e = fd_key 6" unfolding l0_example_get by (simp split: if_splits)
  have "snd e = l0_client_zero (Some [97]) \<or> snd e = l0_client_zero None"
    using m unfolding l0_example_get by (simp split: if_splits)
  then have "client_dead (l0_node\<lparr>ke_time := 200\<rparr>) (fst e, snd e)" using late_dead by metis
  then show thesis using that k unfolding e by simp
qed

theorem check_connected_first_witness:
  "\<exists>l'. kl (check_connected (l0_node\<lparr>ke_time := 200\<rparr>)) = Some l' \<and>
    (pblMapGet (l0_map l') (fd_key 5) = None \<longleftrightarrow> pblMapGet (l0_map l') (fd_key 6) \<noteq> None)"
proof -
  obtain e es where e: "filter (client_dead (l0_node\<lparr>ke_time := 200\<rparr>)) (rev (pblMapEntries (l0_map l0_example))) = e # es"
    "fst e = fd_key 5 \<or> fst e = fd_key 6" by (rule l0_example_dead)
  have k: "kl (l0_node\<lparr>ke_time := 200\<rparr>) = Some l0_example" by (simp add: l0_node_def)
  obtain l' where l': "kl (check_connected (l0_node\<lparr>ke_time := 200\<rparr>)) = Some l'"
    "pblMapGet (l0_map l') = (pblMapGet (l0_map l0_example))(fst e := None)"
    using check_connected_first [OF k l0_example_keys] unfolding e(1) list.case by (elim exE conjE)
  have "pblMapGet (l0_map l') (fd_key 5) = None \<longleftrightarrow> pblMapGet (l0_map l') (fd_key 6) \<noteq> None"
    unfolding l'(2) fun_upd_def l0_example_get using e(2) by (elim disjE) simp_all
  with l'(1) show ?thesis by (intro exI conjI)
qed

section \<open>The signature of a login\<close>

fun dec_value :: "bytes \<Rightarrow> nat" where
  "dec_value [] = 0"
| "dec_value (c # cs) = (unat c - 48) * 10 ^ length cs + dec_value cs"

lemma dec_value_snoc: "dec_value (cs @ [c]) = 10 * dec_value cs + (unat c - 48)"
  by (induction cs) (simp_all add: algebra_simps)

lemma unat_digit: "d < 10 \<Longrightarrow> unat (of_nat (48 + d) :: u8) = 48 + d"
  by (simp add: unsigned_of_nat take_bit_nat_eq_self_iff del: of_nat_add)

lemma dec_value_nat_text [simp]: "dec_value (nat_text n) = n"
  by (induction n rule: nat_text.induct) (subst nat_text.simps, auto simp: dec_value_snoc unat_digit simp del: of_nat_add)

lemma is_digit_unat: "is_digit c \<longleftrightarrow> 48 \<le> unat c \<and> unat c \<le> 57"
  by (simp add: is_digit_def word_le_nat_alt)

lemma nat_text_digits: "\<forall>c \<in> set (nat_text n). is_digit c"
proof (induction n rule: nat_text.induct)
  case (1 n)
  have "is_digit (of_nat (48 + n mod 10))" unfolding is_digit_unat by (subst (1 2) unat_digit) simp_all
  then show ?case using 1 by (subst nat_text.simps) (auto simp del: of_nat_add)
qed

lemma nat_text_length_le: "10 \<le> n \<Longrightarrow> 10 ^ (length (nat_text n) - 1) \<le> n"
proof (induction n rule: nat_text.induct)
  case (1 n)
  have l: "length (nat_text n) - 1 = length (nat_text (n div 10))" using 1(2) by (subst nat_text.simps) simp
  have ne: "nat_text k \<noteq> []" for k by (subst nat_text.simps) simp
  show ?case
  proof (cases "10 \<le> n div 10")
    case True
    then have "10 ^ (length (nat_text (n div 10)) - 1) \<le> n div 10" using 1 by simp
    then have "10 * 10 ^ (length (nat_text (n div 10)) - 1) \<le> n" by (simp add: less_eq_div_iff_mult_less_eq mult.commute)
    then show ?thesis unfolding l using ne [of "n div 10"] by (cases "nat_text (n div 10)") simp_all
  next
    case False
    then have "length (nat_text (n div 10)) = 1" by (subst nat_text.simps) simp
    then show ?thesis unfolding l using 1(2) by simp
  qed
qed

lemma dec_value_bound: "\<forall>c \<in> set s. is_digit c \<Longrightarrow> dec_value s < 10 ^ length s"
proof (induction s)
  case (Cons c s)
  then have "unat c \<le> 57" "dec_value s < 10 ^ length s" by (simp_all add: is_digit_unat)
  then have "unat c - 48 \<le> 9" "dec_value s < 10 ^ length s" by linarith+
  then have "(unat c - 48) * 10 ^ length s + dec_value s < 9 * 10 ^ length s + 10 ^ length s"
    by (intro add_le_less_mono mult_le_mono1)
  then show ?case by simp
qed simp

lemma nat_text_length_less: "length (nat_text a) < length (nat_text b) \<Longrightarrow> a < b"
proof -
  assume l: "length (nat_text a) < length (nat_text b)"
  have a: "a < 10 ^ length (nat_text a)" using dec_value_bound [OF nat_text_digits [of a]] by simp
  have "0 < length (nat_text a)" by (subst nat_text.simps) simp
  with l have "10 \<le> b" using nat_text.simps [of b] by (cases "b < 10") auto
  then have "10 ^ (length (nat_text b) - 1) \<le> b" by (rule nat_text_length_le)
  moreover have "10 ^ length (nat_text a) \<le> (10::nat) ^ (length (nat_text b) - 1)" using l by (intro power_increasing) simp_all
  ultimately show "a < b" using a by (meson less_le_trans)
qed

lemma byte_at_Cons0 [simp]: "byte_at (c # cs) 0 = c"
  by (simp add: byte_at_def)

lemma strncmp_digits:
  assumes "length a = length b" and "\<forall>c \<in> set a. is_digit c" and "\<forall>c \<in> set b. is_digit c"
  shows "strncmp a b (length a) < 0 \<longleftrightarrow> dec_value a < dec_value b"
  using assms
proof (induction a b rule: list_induct2)
  case (Cons x xs y ys)
  have d: "48 \<le> unat x" "48 \<le> unat y" using Cons.prems by (simp_all add: is_digit_unat)
  have b: "dec_value xs < 10 ^ length xs" "dec_value ys < 10 ^ length xs"
    using dec_value_bound [of xs] dec_value_bound [of ys] Cons.prems Cons.hyps by simp_all
  have lt: "p * 10 ^ length xs + u < q * 10 ^ length xs + v" if "p < q" "u < 10 ^ length xs" for p q u v :: nat
  proof -
    have "p * 10 ^ length xs + u < Suc p * 10 ^ length xs" using that(2) by simp
    also have "\<dots> \<le> q * 10 ^ length xs" using that(1) by (intro mult_le_mono1) simp
    finally show ?thesis by simp
  qed
  consider "x < y" | "y < x" | "x = y" by fastforce
  then show ?case
  proof cases
    case 1
    then have "unat x - 48 < unat y - 48" using d by (simp add: word_less_nat_alt)
    from lt [OF this b(1), of "dec_value ys"] show ?thesis using 1 Cons.hyps by auto
  next
    case 2
    then have "unat y - 48 < unat x - 48" using d by (simp add: word_less_nat_alt)
    from lt [OF this b(2), of "dec_value xs"] show ?thesis using 2 Cons.hyps by auto
  next
    case 3
    have "x \<noteq> 0" using d by auto
    then show ?thesis using 3 Cons.IH Cons.prems Cons.hyps by simp
  qed
qed simp

text \<open>
  With a decimal expiry time, a login is accepted exactly when the signature is the MD5 digest
  of name, secret and expiry time and the expiry time has not passed: the comparison of the two
  times as strings, by length and then character by character, is the comparison of the numbers.
\<close>

theorem auth_accepts:
  assumes "length (md5_hex (ke_env ke) (name @ secret @ nat_text v)) = 32"
    and "0 \<notin> set (md5_hex (ke_env ke) (name @ secret @ nat_text v))" and "0 \<le> ksnetEvMgrGetTime ke"
    and "ksnetEvMgrGetTime ke < 2 ^ 31"
  shows "checkAuthData ke name (nat_text v) sign secret \<longleftrightarrow>
    sign = md5_hex (ke_env ke) (name @ secret @ nat_text v) \<and> \<lfloor>ksnetEvMgrGetTime ke\<rfloor> \<le> int v"
proof -
  define t where "t = nat \<lfloor>ksnetEvMgrGetTime ke\<rfloor>"
  have fl: "\<lfloor>ksnetEvMgrGetTime ke\<rfloor> = int t" using assms(3) by (simp add: t_def)
  have "int t < 2 ^ 31" using assms(4) unfolding fl [symmetric] by (simp add: floor_less_iff)
  then have t: "int_text (time_int (ksnetEvMgrGetTime ke)) = nat_text t"
    using assms(3) fl by (simp add: int_text_def time_int_def int32_def)
  have expired: "length (nat_text t) > length (nat_text v) \<or> (length (nat_text t) = length (nat_text v) \<and>
      strncmp (nat_text v) (nat_text t) (length (nat_text v)) < 0) \<longleftrightarrow> v < t"
    using nat_text_length_less [of v t] nat_text_length_less [of t v]
      strncmp_digits [of "nat_text v" "nat_text t"] nat_text_digits by (cases rule: linorder_cases [of "length (nat_text v)" "length (nat_text t)"]) auto
  show ?thesis
    using strncmp_eq [of "md5_hex (ke_env ke) (name @ secret @ nat_text v)" sign] assms(1,2)
    unfolding checkAuthData_def t Let_def expired fl by auto
qed

text \<open>
  From the year 2038 on the time does not fit: its text is that of the smallest \<open>int\<close>, eleven characters,
  and every expiry time of ten digits or less counts as passed.
\<close>

theorem auth_year_2038:
  assumes "2 ^ 31 \<le> ksnetEvMgrGetTime ke" and "length valid_until < 11"
  shows "\<not> checkAuthData ke name valid_until sign secret"
proof -
  have "2 ^ 31 \<le> \<lfloor>ksnetEvMgrGetTime ke\<rfloor>" using assms(1) by (simp add: le_floor_iff)
  then have "time_int (ksnetEvMgrGetTime ke) = - 2147483648" using assms(1) by (simp add: time_int_def int32_def Let_def)
  then have "length (int_text (time_int (ksnetEvMgrGetTime ke))) = 11" by (simp add: int_text_def nat_text.simps)
  then show ?thesis using assms(2) by (simp add: checkAuthData_def Let_def)
qed

theorem auth_year_2038_witness:
  "\<not> checkAuthData (l0_node\<lparr>ke_time := 2147483648\<rparr>) [97] (nat_text 4294967296) (replicate 32 48) [98]"
  by (rule auth_year_2038) (simp_all add: l0_node_def exampleNode_def ksnetEvMgrGetTime_def nat_text.simps)

theorem auth_accepts_witness:
  "checkAuthData l0_node [97] (nat_text 100) (replicate 32 48) [98] \<and> \<not> checkAuthData l0_node [97] (nat_text 99) (replicate 32 48) [98]"
proof -
  have m: "length (md5_hex (ke_env l0_node) d) = 32" "0 \<notin> set (md5_hex (ke_env l0_node) d)"
    "md5_hex (ke_env l0_node) d = replicate 32 48" for d
    by (simp_all add: l0_node_def exampleNode_def exampleEnv_def)
  have t: "0 \<le> ksnetEvMgrGetTime l0_node" "ksnetEvMgrGetTime l0_node < 2 ^ 31" "\<lfloor>ksnetEvMgrGetTime l0_node\<rfloor> = 100"
    by (simp_all add: l0_node_def exampleNode_def ksnetEvMgrGetTime_def)
  show ?thesis
    unfolding auth_accepts [OF m(1,2) t(1,2)] m(3) t(3) by simp
qed

text \<open>
  C9: the check of a login payload with a decimal expiry time, without leading zeros, made before the time
  leaves the range of an \<open>int\<close> in 2038, succeeds exactly when a secret is set, the JSON object has a user, a
  signature and a time, of members with the same key the last one, the signature is the MD5 digest of
  user, secret and time, and the time has not passed. The members may hold anything, in any order, as
  long as no token within a value is taken for one of the three names (\<open>member_ok\<close>). From 2038 on see
  \<open>auth_year_2038\<close> above.
\<close>

theorem login_accepted:
  assumes "jsmn (ke_env ke) (cstr payload) 128 = Some (obj # member_tokens ms)" and "tok_type obj = JSMN_OBJECT"
    and "list_all (member_ok {ascii ''userId'', ascii ''sign'', ascii ''timestamp''} (cstr payload)) ms"
    and "map_of (rev (member_texts (cstr payload) ms)) (ascii ''timestamp'') = Some (nat_text v)"
    and "\<And>d. length (md5_hex (ke_env ke) d) = 32" and "\<And>d. 0 \<notin> set (md5_hex (ke_env ke) d)" and "0 \<le> ksnetEvMgrGetTime ke"
    and "ksnetEvMgrGetTime ke < 2 ^ 31"
  shows "fst (ksnLNullClientAuthCheck fd payload ke) \<longleftrightarrow>
    cfg_auth_secret ke \<noteq> [] \<and> \<lfloor>ksnetEvMgrGetTime ke\<rfloor> \<le> int v \<and>
    (\<exists>name. map_of (rev (member_texts (cstr payload) ms)) (ascii ''userId'') = Some name \<and>
       map_of (rev (member_texts (cstr payload) ms)) (ascii ''sign'') =
         Some (md5_hex (ke_env ke) (name @ cfg_auth_secret ke @ nat_text v)))"
proof -
  have parse: "parseAuthPayload (jsmn (ke_env ke)) (cstr payload) =
    Inr (case (map_of (rev (member_texts (cstr payload) ms)) USER_ID, map_of (rev (member_texts (cstr payload) ms)) SIGN) of
           (Some name, Some sign) \<Rightarrow> Some (name, sign, nat_text v) | _ \<Rightarrow> None)"
    using parse_login [of "jsmn (ke_env ke)" "cstr payload" obj ms] assms(1-4)
    by (simp add: AUTH_TOKENS_def auth_names_def USER_ID_def SIGN_def TIMESTAMP_def split: option.split)
  show ?thesis
    unfolding ksnLNullClientAuthCheck_def parse USER_ID_def [symmetric] SIGN_def [symmetric]
    using auth_accepts [OF assms(5,6,7,8), of _ v] by (auto simp: Let_def split: option.split)
qed

text \<open>A node that has a secret, and a login of a user with the digest the example environment gives.\<close>

definition secret_node :: ksnetEvMgr where "secret_node = l0_node\<lparr>cfg_auth_secret := [115]\<rparr>"

definition login_json :: bytes where
  "login_json = json_example ''{~userId~:~a~,~sign~:~00000000000000000000000000000000~,~timestamp~:~100~}''"

definition string_tok :: "int \<Rightarrow> int \<Rightarrow> jsmntok_t" where
  "string_tok i j = \<lparr>tok_type = JSMN_STRING, tok_start = i, tok_end = j\<rparr>"

definition login_members :: "member list" where
  "login_members = [(string_tok 2 8, string_tok 11 12, []), (string_tok 15 19, string_tok 22 54, []),
     (string_tok 57 66, string_tok 69 72, [])]"

lemma login_json_zero: "cstr login_json = login_json"
  by code_simp

lemma login_json_tokens:
  "jsmn_strings login_json 128 = Some (\<lparr>tok_type = JSMN_OBJECT, tok_start = 0, tok_end = 74\<rparr> # member_tokens login_members)"
  by code_simp

lemma login_json_texts:
  "member_texts login_json login_members =
     [(ascii ''userId'', [97]), (ascii ''sign'', replicate 32 48), (ascii ''timestamp'', [49, 48, 48])]"
  by code_simp

lemma login_json_ok: "list_all (member_ok {ascii ''userId'', ascii ''sign'', ascii ''timestamp''} login_json) login_members"
  by code_simp

theorem login_accepted_witness:
  "fst (ksnLNullClientAuthCheck 6 login_json secret_node) \<and>
   \<not> fst (ksnLNullClientAuthCheck 6 login_json (secret_node\<lparr>ke_time := 101\<rparr>))"
proof -
  have e: "jsmn (ke_env secret_node) = jsmn_strings" "md5_hex (ke_env secret_node) d = replicate 32 48"
      "ksnetEvMgrGetTime secret_node = 100" "ksnetEvMgrGetTime (secret_node\<lparr>ke_time := 101\<rparr>) = 101" "cfg_auth_secret secret_node = [115]" "ke_run secret_node" for d
    by (simp_all add: secret_node_def l0_node_def exampleNode_def exampleEnv_def ksnetEvMgrGetTime_def)
  have t: "[49, 48, 48] = nat_text 100" by (simp add: nat_text.simps)
  have m: "map_of (rev (member_texts (cstr login_json) login_members)) (ascii ''timestamp'') = Some (nat_text 100)"
      "map_of (rev (member_texts (cstr login_json) login_members)) (ascii ''userId'') = Some [97]"
      "map_of (rev (member_texts (cstr login_json) login_members)) (ascii ''sign'') = Some (replicate 32 48)"
    unfolding login_json_zero login_json_texts t [symmetric] by (simp_all add: ascii_def)
  have "fst (ksnLNullClientAuthCheck 6 login_json (secret_node\<lparr>ke_time := d\<rparr>)) \<longleftrightarrow> d < 101" if "0 \<le> d" "d < 2 ^ 31" for d
    by (subst login_accepted [of _ login_json "\<lparr>tok_type = JSMN_OBJECT, tok_start = 0, tok_end = 74\<rparr>" login_members 100])
      (use that login_json_tokens login_json_ok in \<open>simp_all add: login_json_zero m [unfolded login_json_zero] e ksnetEvMgrGetTime_def floor_le_iff\<close>)
  from this [of 100] this [of 101] show ?thesis by (simp add: secret_node_def l0_node_def exampleNode_def)
qed

section \<open>Broadcasts\<close>

definition logged_in :: "ksnLNullClass \<Rightarrow> int list" where
  "logged_in l = map (\<lambda>(key, d). sint (dec_u32 key)) (filter (\<lambda>(key, d). l0_name d \<noteq> None) (rev (pblMapEntries (l0_map l))))"

lemma broadcast_loop:
  assumes "kl ke = Some l" and "l0_inv l" and "\<forall>(key, d) \<in> set xs. pblMapGet (l0_map l) key = Some d"
  shows "fold (\<lambda>(key, client) (n, ke).
                  case l0_name client of
                    None \<Rightarrow> (n, ke)
                  | Some name \<Rightarrow>
                      let fd = client_fd name ke
                      in if fd = 0 then (n, ke) else (n + 1, ksnLNullSend fd cmd data ke)) xs (n, ke) =
    (n + length (filter (\<lambda>(key, d). l0_name d \<noteq> None) xs),
     fold (\<lambda>fd ke. ksnLNullSend fd cmd data ke)
       (map (\<lambda>(key, d). sint (dec_u32 key)) (filter (\<lambda>(key, d). l0_name d \<noteq> None) xs)) ke)"
  using assms
proof (induction xs arbitrary: ke l n)
  case (Cons e xs)
  obtain key d where e: "e = (key, d)" by fastforce
  show ?case
  proof (cases "l0_name d")
    case None
    then show ?thesis using Cons.IH [OF Cons.prems(1,2)] Cons.prems(3) by (simp add: e)
  next
    case (Some name)
    have get: "pblMapGet (l0_map l) key = Some d" using Cons.prems(3) by (simp add: e)
    obtain fd where fd: "key = fd_key fd" "pblMapGet (l0_map_n l) (strz name) = Some fd"
      by (rule l0_inv_client [OF Cons.prems(2) get Some])
    have i: "int32 fd" "fd \<noteq> 0" using l0_inv_name [OF Cons.prems(2) fd(2)] by blast+
    have cfd: "client_fd name ke = fd" using fd(2) client_fd_get [OF Cons.prems(1)] by simp
    have "send_only ke (ksnLNullSend fd cmd data ke)" using Cons.prems(1) by (simp add: ksnLNullSend_def)
    from send_only_kl [OF this Cons.prems(1)] obtain k
      where k: "kl (ksnLNullSend fd cmd data ke) = Some (l\<lparr>l0_packets_to_client := k\<rparr>)" by blast
    have inv: "l0_inv (l\<lparr>l0_packets_to_client := k\<rparr>)" using Cons.prems(2) by (simp add: l0_inv_def ksnLNullGetClientConnection_def)
    have "\<forall>(key, d) \<in> set xs. pblMapGet (l0_map (l\<lparr>l0_packets_to_client := k\<rparr>)) key = Some d"
      using Cons.prems(3) by simp
    from Cons.IH [OF k inv this, of "n + 1"] show ?thesis
      using Some cfd i(2) fd_key_dec [OF i(1)] by (simp add: e fd(1) Let_def)
  qed
qed simp

text \<open>
  A broadcast sends the packet exactly once to every client that has logged in, to that client's
  own connection, and to no other connection, and returns their number.
\<close>

theorem l0_broadcast:
  assumes "kl ke = Some l" and "l0_inv l"
  shows "ksnLNullSendBroadcast cmd data ke =
      (length (logged_in l), fold (\<lambda>fd ke. ksnLNullSend fd cmd data ke) (logged_in l) ke) \<and>
    distinct (logged_in l) \<and>
    set (logged_in l) = {fd. int32 fd \<and> (\<exists>d. ksnLNullGetClientConnection l fd = Some d \<and> l0_name d \<noteq> None)}"
proof (intro conjI)
  let ?named = "filter (\<lambda>(key, d). l0_name d \<noteq> None) (rev (pblMapEntries (l0_map l)))"
  have mem: "\<forall>(key, d) \<in> set (rev (pblMapEntries (l0_map l))). pblMapGet (l0_map l) key = Some d"
    by (auto simp: entries_mem)
  show "ksnLNullSendBroadcast cmd data ke =
      (length (logged_in l), fold (\<lambda>fd ke. ksnLNullSend fd cmd data ke) (logged_in l) ke)"
    using broadcast_loop [OF assms mem, of cmd data 0] assms(1) by (simp add: ksnLNullSendBroadcast_def logged_in_def)
  have key: "\<exists>fd. int32 fd \<and> key = fd_key fd \<and> sint (dec_u32 key) = fd" if "(key, d) \<in> set ?named" for key d
  proof -
    have g: "pblMapGet (l0_map l) key = Some d" and "l0_name d \<noteq> None" using that by (auto simp: entries_mem)
    then obtain name where name: "l0_name d = Some name" by blast
    obtain fd where fd: "key = fd_key fd" "pblMapGet (l0_map_n l) (strz name) = Some fd"
      by (rule l0_inv_client [OF assms(2) g name])
    have "int32 fd" using l0_inv_name [OF assms(2) fd(2)] by blast
    then show ?thesis using fd(1) fd_key_dec by blast
  qed
  have "inj_on (\<lambda>(key, d). sint (dec_u32 key)) (set ?named)"
  proof (rule inj_onI, clarify)
    fix k d k' d' assume a: "(k, d) \<in> set ?named" "(k', d') \<in> set ?named" "sint (dec_u32 k) = sint (dec_u32 k')"
    then have "k = k'" using key [OF a(1)] key [OF a(2)] by metis
    then show "k = k' \<and> d = d'" using a(1,2) by (auto simp: entries_mem)
  qed
  moreover have "distinct ?named" using entries_distinct [of "l0_map l"] by (simp add: distinct_map)
  ultimately show "distinct (logged_in l)" by (simp add: logged_in_def distinct_map)
  show "set (logged_in l) = {fd. int32 fd \<and> (\<exists>d. ksnLNullGetClientConnection l fd = Some d \<and> l0_name d \<noteq> None)}"
  proof (intro set_eqI iffI)
    fix fd assume "fd \<in> set (logged_in l)"
    then obtain k d where kd: "(k, d) \<in> set ?named" "fd = sint (dec_u32 k)" by (auto simp: logged_in_def)
    then show "fd \<in> {fd. int32 fd \<and> (\<exists>d. ksnLNullGetClientConnection l fd = Some d \<and> l0_name d \<noteq> None)}"
      using key [OF kd(1)] by (auto simp: l0_conn_key entries_mem)
  next
    fix fd assume "fd \<in> {fd. int32 fd \<and> (\<exists>d. ksnLNullGetClientConnection l fd = Some d \<and> l0_name d \<noteq> None)}"
    then obtain d where d: "int32 fd" "(fd_key fd, d) \<in> set ?named" by (auto simp: l0_conn_key entries_mem)
    then show "fd \<in> set (logged_in l)" unfolding logged_in_def set_map using fd_key_dec [OF d(1)] by force
  qed
qed

theorem l0_broadcast_witness: "fst (ksnLNullSendBroadcast CMD_USER [1] l0_node) = length (logged_in l0_example)"
  using l0_broadcast [OF l0_node_kl l0_example_inv, of CMD_USER "[1]"] by simp

end
