(* ===== verification/Vpn.thy ===== *)
theory Vpn
  imports Connect
begin

text \<open>
  The VPN module (modules/vpn.c): Ethernet frames between the peers' virtual interfaces. A table
  maps the hardware address of a frame's source to the peer that sent it; frames read from this
  host's interface go to the peer of their destination, or to all peers when it is the broadcast
  address. Opening the interface and running its shell scripts is system code and not modelled.
\<close>

section \<open>Hardware addresses and the table\<close>

definition eth_destination :: "bytes \<Rightarrow> bytes" where "eth_destination frame = take 6 frame"
definition eth_source :: "bytes \<Rightarrow> bytes" where "eth_source frame = take 6 (drop 6 frame)"

definition mac_is_broadcast :: "bytes \<Rightarrow> bool" where
  "mac_is_broadcast mac = list_all (\<lambda>i. byte_at mac i = 255) [0..<6]"

definition map_find_by_mac :: "ksnVpnClass \<Rightarrow> bytes \<Rightarrow> bytes option" where
  "map_find_by_mac v mac = pblMapGet (ksnet_vpn_map v) mac"

definition map_find_by_name :: "ksnVpnClass \<Rightarrow> bytes \<Rightarrow> bytes option" where
  "map_find_by_name v name = map_option fst (find (\<lambda>(mac, n). n = name) (pblMapEntries (ksnet_vpn_map v)))"

section \<open>Frames from peers and from the interface\<close>

text \<open>A frame without a whole header makes the code read past its end.\<close>

definition cmd_vpn_cb :: "bytes \<Rightarrow> bytes \<Rightarrow> ksnetEvMgr \<Rightarrow> int \<times> ksnetEvMgr" where
  "cmd_vpn_cb from data ke =
     (1, case kvpn ke of
           None \<Rightarrow> ke
         | Some v \<Rightarrow>
             if \<not> ksnet_vpn_started v then ke
             else if length data < 12 then emit [UninitRead] ke
             else let v1 = (if map_find_by_mac v (eth_source data) = None
                            then v\<lparr>ksnet_vpn_map := snd (pblMapAdd (ksnet_vpn_map v) (eth_source data) from)\<rparr> else v)
                  in emit [WriteFd (tuntap_fd v) data] (ke\<lparr>kvpn := Some v1\<rparr>))"

definition vpn_send_to_one_cb :: "bytes \<Rightarrow> bytes \<Rightarrow> ksnet_arp_data_ext \<Rightarrow> ksnetEvMgr \<Rightarrow> bool \<times> ksnetEvMgr" where
  "vpn_send_to_one_cb data peer_name arp ke = (False, snd (ksnCoreSendCmdto peer_name CMD_VPN data ke))"

definition vpn_send_to_all :: "bytes \<Rightarrow> ksnetEvMgr \<Rightarrow> ksnetEvMgr" where
  "vpn_send_to_all data ke = snd (ksnetArpGetAll ke (vpn_send_to_one_cb data) ke)"

text \<open>The result of reading the interface: a frame, or an error that may be an interruption.\<close>

definition tuntap_io_cb :: "bool + bytes \<Rightarrow> ksnetEvMgr \<Rightarrow> ksnetEvMgr" where
  "tuntap_io_cb nread ke =
     (case kvpn ke of
        None \<Rightarrow> emit [Fault] ke
      | Some v \<Rightarrow>
          (case nread of
             Inl interrupted \<Rightarrow> if interrupted then ke else emit [CloseFd (tuntap_fd v)] ke
           | Inr buffer \<Rightarrow>
               if length buffer < 12 then emit [UninitRead] ke
               else if mac_is_broadcast (eth_destination buffer) then vpn_send_to_all buffer ke
               else case map_find_by_mac v (eth_destination buffer) of
                      Some name \<Rightarrow> snd (ksnCoreSendCmdto name CMD_VPN buffer ke)
                    | None \<Rightarrow> ke))"

section \<open>Properties\<close>

lemma send_only_vpn_all [simp]: "send_only ke (vpn_send_to_all data ke)"
  by (simp add: vpn_send_to_all_def vpn_send_to_one_cb_def)

text \<open>A frame from a peer goes to this host's interface unchanged, and enters its source.\<close>

lemma cmd_vpn_frame:
  assumes "kvpn ke = Some v" and "ksnet_vpn_started v" and "12 \<le> length data"
    and "pblMapRoom (ksnet_vpn_map v) (eth_source data)"
  obtains v1 where "snd (cmd_vpn_cb from data ke) = emit [WriteFd (tuntap_fd v) data] (ke\<lparr>kvpn := Some v1\<rparr>)"
    and "tuntap_fd v1 = tuntap_fd v" and "ksnet_vpn_started v1"
    and "map_find_by_mac v1 = (map_find_by_mac v)(eth_source data \<mapsto>
      (case map_find_by_mac v (eth_source data) of None \<Rightarrow> from | Some peer \<Rightarrow> peer))"
proof (cases "map_find_by_mac v (eth_source data)")
  case None
  let ?v = "v\<lparr>ksnet_vpn_map := pblMapAddTo (ksnet_vpn_map v) (eth_source data) from\<rparr>"
  show thesis
  proof (rule that)
    show "snd (cmd_vpn_cb from data ke) = emit [WriteFd (tuntap_fd v) data] (ke\<lparr>kvpn := Some ?v\<rparr>)"
      using assms None by (simp add: cmd_vpn_cb_def pblMapAdd_def)
    show "map_find_by_mac ?v = (map_find_by_mac v)(eth_source data \<mapsto>
      (case map_find_by_mac v (eth_source data) of None \<Rightarrow> from | Some peer \<Rightarrow> peer))"
      using assms(4) None by (simp add: map_find_by_mac_def map_simps fun_eq_iff)
  qed (use assms(2) in simp_all)
next
  case (Some peer)
  show thesis
    by (rule that [of v]) (use assms Some in \<open>simp_all add: cmd_vpn_cb_def fun_eq_iff\<close>)
qed

text \<open>
  What a peer's frames teach is used: a frame the peer sends reaches this host's interface
  unchanged, and a later frame from the interface to the first one's source address goes to the peer
  the address was first seen from, and to nobody else.
\<close>

theorem vpn_learned_route:
  assumes "kvpn ke = Some v" and "ksnet_vpn_started v" and "12 \<le> length data" and "12 \<le> length frame"
    and "pblMapRoom (ksnet_vpn_map v) (eth_source data)"
    and "eth_destination frame = eth_source data" and "\<not> mac_is_broadcast (eth_source data)"
  shows "ke_out (snd (cmd_vpn_cb from data ke)) = ke_out ke @ [WriteFd (tuntap_fd v) data] \<and>
    tuntap_io_cb (Inr frame) (snd (cmd_vpn_cb from data ke)) =
      snd (ksnCoreSendCmdto (case map_find_by_mac v (eth_source data) of None \<Rightarrow> from | Some peer \<Rightarrow> peer)
             CMD_VPN frame (snd (cmd_vpn_cb from data ke)))"
proof -
  obtain v1 where v1: "snd (cmd_vpn_cb from data ke) = emit [WriteFd (tuntap_fd v) data] (ke\<lparr>kvpn := Some v1\<rparr>)"
    "map_find_by_mac v1 = (map_find_by_mac v)(eth_source data \<mapsto>
      (case map_find_by_mac v (eth_source data) of None \<Rightarrow> from | Some peer \<Rightarrow> peer))"
    by (rule cmd_vpn_frame [OF assms(1-3,5)])
  show ?thesis unfolding v1(1) using assms(4,6,7) by (simp add: tuntap_io_cb_def v1(2))
qed

definition vpn_node :: ksnetEvMgr where
  "vpn_node = (exampleNode [97])\<lparr>kvpn := Some \<lparr>ksnet_vpn_started = True, ksnet_vpn_map = pblMapNewHashMap, tuntap_fd = 7\<rparr>\<rparr>"

theorem vpn_learned_route_witness:
  "ke_out (snd (cmd_vpn_cb [98] ([1, 2, 3, 4, 5, 6] @ [11, 12, 13, 14, 15, 16]) vpn_node)) =
    [WriteFd 7 ([1, 2, 3, 4, 5, 6] @ [11, 12, 13, 14, 15, 16])]"
proof -
  let ?v = "\<lparr>ksnet_vpn_started = True, ksnet_vpn_map = pblMapNewHashMap, tuntap_fd = 7\<rparr> :: ksnVpnClass"
  let ?d = "[1, 2, 3, 4, 5, 6] @ [11, 12, 13, 14, 15, 16] :: bytes"
  let ?f = "[11, 12, 13, 14, 15, 16] @ [1, 2, 3, 4, 5, 6] :: bytes"
  have "kvpn vpn_node = Some ?v" "ksnet_vpn_started ?v" "12 \<le> length ?d" "12 \<le> length ?f"
    "pblMapRoom (ksnet_vpn_map ?v) (eth_source ?d)" "eth_destination ?f = eth_source ?d"
    "\<not> mac_is_broadcast (eth_source ?d)"
    by (simp_all add: vpn_node_def eth_source_def eth_destination_def mac_is_broadcast_def byte_at_def upt_rec)
  from vpn_learned_route [OF this, of "[98]"] show ?thesis by (simp add: vpn_node_def exampleNode_def)
qed

text \<open>
  An address stays with the peer it was first seen from: a frame with the same source from any
  other peer does not change where frames to that address go.
\<close>

theorem vpn_address_sticks:
  assumes "kvpn ke = Some v" and "ksnet_vpn_started v" and "12 \<le> length data"
    and "map_find_by_mac v (eth_source data) = Some peer"
  shows "kvpn (snd (cmd_vpn_cb from data ke)) = Some v"
  using assms by (simp add: cmd_vpn_cb_def)

theorem vpn_address_sticks_witness:
  "\<exists>v. kvpn (snd (cmd_vpn_cb [99] ([1, 2, 3, 4, 5, 6] @ [11, 12, 13, 14, 15, 16])
      (snd (cmd_vpn_cb [98] ([1, 2, 3, 4, 5, 6] @ [11, 12, 13, 14, 15, 16]) vpn_node)))) = Some v \<and>
    map_find_by_mac v [11, 12, 13, 14, 15, 16] = Some [98]"
proof -
  let ?v = "\<lparr>ksnet_vpn_started = True, ksnet_vpn_map = pblMapNewHashMap, tuntap_fd = 7\<rparr> :: ksnVpnClass"
  let ?d = "[1, 2, 3, 4, 5, 6] @ [11, 12, 13, 14, 15, 16] :: bytes"
  have s: "eth_source ?d = [11, 12, 13, 14, 15, 16]" by (simp add: eth_source_def)
  have "kvpn vpn_node = Some ?v" "ksnet_vpn_started ?v" "12 \<le> length ?d" "pblMapRoom (ksnet_vpn_map ?v) (eth_source ?d)"
    by (simp_all add: vpn_node_def)
  then obtain v1 where v1: "snd (cmd_vpn_cb [98] ?d vpn_node) = emit [WriteFd (tuntap_fd ?v) ?d] (vpn_node\<lparr>kvpn := Some v1\<rparr>)"
    "ksnet_vpn_started v1" "map_find_by_mac v1 = (map_find_by_mac ?v)(eth_source ?d \<mapsto>
      (case map_find_by_mac ?v (eth_source ?d) of None \<Rightarrow> [98] | Some peer \<Rightarrow> peer))"
    by (rule cmd_vpn_frame)
  have m: "map_find_by_mac v1 (eth_source ?d) = Some [98]" unfolding v1(3) by (simp add: map_find_by_mac_def get_new)
  have "kvpn (snd (cmd_vpn_cb [98] ?d vpn_node)) = Some v1" unfolding v1(1) by simp
  from vpn_address_sticks [OF this v1(2) _ m, of "[99]"] show ?thesis using m s by auto
qed

end
