(* ===== verification/Tun.thy ===== *)
theory Tun
  imports Connect
begin

text \<open>
  The tunnel module (modules/net_tun.c): TCP connections carried between peers. The host with the
  client asks its peer to connect to a server; when the peer has connected, both enter the other's
  descriptor under their own, and data read from one descriptor is written to the other. Sockets
  are effects; the results of connecting and of creating servers are inputs.
\<close>

section \<open>Commands\<close>

definition TUN_CREATE :: u8 where "TUN_CREATE = 0"
definition TUN_CREATED :: u8 where "TUN_CREATED = 1"
definition TUN_NOT_CREATED :: u8 where "TUN_NOT_CREATED = 2"
definition TUN_DISCONNECTED :: u8 where "TUN_DISCONNECTED = 3"
definition TUN_DATA :: u8 where "TUN_DATA = 4"

lemmas TUN_defs = TUN_CREATE_def TUN_CREATED_def TUN_NOT_CREATED_def TUN_DISCONNECTED_def TUN_DATA_def

section \<open>The table of connections and the list of servers\<close>

definition upd_ktun :: "(ksnTunClass \<Rightarrow> ksnTunClass) \<Rightarrow> ksnetEvMgr \<Rightarrow> ksnetEvMgr" where
  "upd_ktun f ke = ke\<lparr>ktun := f (ktun ke)\<rparr>"

definition ksnTunMapAdd :: "u16 \<Rightarrow> bytes \<Rightarrow> u16 \<Rightarrow> ksnetEvMgr \<Rightarrow> ksnetEvMgr" where
  "ksnTunMapAdd fd to to_fd = upd_ktun (\<lambda>t. t\<lparr>tun_map := snd (pblMapAdd (tun_map t) (enc_u16 fd) (to, to_fd))\<rparr>)"

definition ksnTunMapGet :: "ksnetEvMgr \<Rightarrow> u16 \<Rightarrow> (bytes \<times> u16) option" where
  "ksnTunMapGet ke fd = pblMapGet (tun_map (ktun ke)) (enc_u16 fd)"

definition ksnTunMapRemove :: "u16 \<Rightarrow> ksnetEvMgr \<Rightarrow> ksnetEvMgr" where
  "ksnTunMapRemove fd = upd_ktun (\<lambda>t. t\<lparr>tun_map := pblMapRemoveFrom (tun_map t) (enc_u16 fd)\<rparr>)"

definition ksnTunListAdd :: "int \<Rightarrow> ksn_tun_accept_data \<Rightarrow> ksnetEvMgr \<Rightarrow> ksnetEvMgr" where
  "ksnTunListAdd fd tun_d = upd_ktun (\<lambda>t. t\<lparr>tun_list := snd (pblMapAdd (tun_list t) (enc_u32 (of_int fd)) tun_d)\<rparr>)"

definition ksnTunListRemove :: "int \<Rightarrow> ksnetEvMgr \<Rightarrow> bool \<times> ksnetEvMgr" where
  "ksnTunListRemove fd ke =
     (pblMapGet (tun_list (ktun ke)) (enc_u32 (of_int fd)) \<noteq> None,
      upd_ktun (\<lambda>t. t\<lparr>tun_list := pblMapRemoveFrom (tun_list t) (enc_u32 (of_int fd))\<rparr>) ke)"

section \<open>Creating tunnels\<close>

text \<open>\<open>server\<close> is the descriptor and port of the TCP server the system creates.\<close>

definition ksnTunCreate :: "int \<times> u16 \<Rightarrow> bytes \<Rightarrow> u16 \<Rightarrow> bytes option \<Rightarrow> ksnetEvMgr \<Rightarrow> ksnetEvMgr" where
  "ksnTunCreate server to to_port to_ip ke =
     (case server of (fd, port_created) \<Rightarrow>
        if fd > 0
        then ksnTunListAdd fd \<lparr>tun_d_port = port_created, tun_d_to = to, tun_d_to_port = to_port, tun_d_to_ip = to_ip\<rparr> ke
        else ke)"

definition ksn_tun_accept_cb :: "ksn_tun_accept_data \<Rightarrow> int \<Rightarrow> ksnetEvMgr \<Rightarrow> ksnetEvMgr" where
  "ksn_tun_accept_cb tun_d fd ke =
     (case ksnCoreSendCmdto (tun_d_to tun_d) CMD_TUN
             ([TUN_CREATE] @ enc_u16 (of_int fd) @ enc_u16 (tun_d_to_port tun_d) @
              strz (case tun_d_to_ip tun_d of None \<Rightarrow> [] | Some ip \<Rightarrow> ip)) ke of
        (None, ke1) \<Rightarrow> emit [ShutdownFd fd, CloseFd fd] ke1
      | (Some name, ke1) \<Rightarrow> ke1)"

section \<open>Commands from peers\<close>

text \<open>The result of connecting to a server: the next one of the system, -1 for an error.\<close>

definition tcp_connect :: "ksnetEvMgr \<Rightarrow> int \<times> ksnetEvMgr" where
  "tcp_connect ke = (case ke_conns ke of [] \<Rightarrow> (-1, ke) | fd # fds \<Rightarrow> (fd, ke\<lparr>ke_conns := fds\<rparr>))"

definition cmd_tun_created_cb :: "bytes \<Rightarrow> u16 \<Rightarrow> u16 \<Rightarrow> ksnetEvMgr \<Rightarrow> ksnetEvMgr" where
  "cmd_tun_created_cb from fd from_fd ke = emit [IoStart (uint fd)] (ksnTunMapAdd fd from from_fd ke)"

text \<open>The address and port only matter to the system's connect call.\<close>

definition cmd_tun_create_cb :: "bytes \<Rightarrow> u16 \<Rightarrow> u16 \<Rightarrow> bytes \<Rightarrow> ksnetEvMgr \<Rightarrow> ksnetEvMgr" where
  "cmd_tun_create_cb from from_fd port ip ke =
     (case tcp_connect ke of (fd, ke1) \<Rightarrow>
        if fd > 0
        then cmd_tun_created_cb from (of_int fd) from_fd
               (snd (ksnCoreSendCmdto from CMD_TUN ([TUN_CREATED] @ enc_u16 (of_int fd) @ enc_u16 from_fd) ke1))
        else snd (ksnCoreSendCmdto from CMD_TUN ([TUN_NOT_CREATED] @ enc_u16 from_fd) ke1))"

definition cmd_tun_disconnected_send :: "u16 \<Rightarrow> ksnetEvMgr \<Rightarrow> ksnetEvMgr" where
  "cmd_tun_disconnected_send fd ke =
     (case ksnTunMapGet ke fd of
        None \<Rightarrow> emit [UninitRead, Fault] ke
      | Some (to, to_fd) \<Rightarrow> snd (ksnCoreSendCmdto to CMD_TUN ([TUN_NOT_CREATED] @ enc_u16 to_fd) ke))"

definition cmd_tun_disconnected_cb :: "u16 \<Rightarrow> ksnetEvMgr \<Rightarrow> ksnetEvMgr" where
  "cmd_tun_disconnected_cb fd = emit [ShutdownFd (uint fd)]"

definition cmd_tun_write_cb :: "u16 \<Rightarrow> bytes \<Rightarrow> ksnetEvMgr \<Rightarrow> ksnetEvMgr" where
  "cmd_tun_write_cb fd data = emit [WriteFd (uint fd) data]"

definition cmd_tun_cb :: "ksnCorePacketData \<Rightarrow> ksnetEvMgr \<Rightarrow> int \<times> ksnetEvMgr" where
  "cmd_tun_cb rd ke =
     (let d = rd_data rd; from = cstr (rd_from rd); tun_cmd = byte_at d 0; from_fd = dec_u16 (drop 1 d)
      in (1, if length d < 3 \<or> (length d < 5 \<and> (tun_cmd = TUN_CREATE \<or> tun_cmd = TUN_CREATED)) then emit [UninitRead] ke
             else if tun_cmd = TUN_CREATE
             then cmd_tun_create_cb from from_fd (dec_u16 (drop 3 d)) (cstr (drop 5 d)) ke
             else if tun_cmd = TUN_CREATED then cmd_tun_created_cb from (dec_u16 (drop 3 d)) from_fd ke
             else if tun_cmd = TUN_DATA then cmd_tun_write_cb from_fd (drop 3 d) ke
             else if tun_cmd = TUN_DISCONNECTED \<or> tun_cmd = TUN_NOT_CREATED then cmd_tun_disconnected_cb from_fd ke
             else ke))"

section \<open>Data from connections\<close>

text \<open>The result of reading: None for an error, no bytes when the connection is closed.\<close>

definition cmd_tun_read_cb :: "u16 \<Rightarrow> bytes option \<Rightarrow> ksnetEvMgr \<Rightarrow> ksnetEvMgr" where
  "cmd_tun_read_cb fd result ke =
     (case result of
        None \<Rightarrow> ke
      | Some data \<Rightarrow>
          if data = []
          then ksnTunMapRemove fd (cmd_tun_disconnected_send fd (emit [IoStop (uint fd), CloseFd (uint fd)] ke))
          else case ksnTunMapGet ke fd of
                 Some (to, to_fd) \<Rightarrow> snd (ksnCoreSendCmdto to CMD_TUN ([TUN_DATA] @ enc_u16 to_fd @ data) ke)
               | None \<Rightarrow> ke)"

text \<open>\<open>ksnTunMapFree\<close>: all connections are closed and their peers told.\<close>

definition ksnTunMapFree :: "ksnetEvMgr \<Rightarrow> ksnetEvMgr" where
  "ksnTunMapFree ke =
     upd_ktun (\<lambda>t. t\<lparr>tun_map := pblMapNewHashMap\<rparr>)
       (fold (\<lambda>(key, d) ke. cmd_tun_disconnected_send (dec_u16 key) (emit [CloseFd (uint (dec_u16 key))] ke))
         (pblMapEntries (tun_map (ktun ke))) ke)"

section \<open>Properties\<close>

lemma upd_ktun_fields [simp]:
  "ktun (upd_ktun f ke) = f (ktun ke)" "ka (upd_ktun f ke) = ka ke" "ke_out (upd_ktun f ke) = ke_out ke"
  "faults (upd_ktun f ke) = faults ke" "kq (upd_ktun f ke) = kq ke" "ks_map (upd_ktun f ke) = ks_map ke"
  "kr_map (upd_ktun f ke) = kr_map ke"
  by (simp_all add: upd_ktun_def faults_def)

lemma TunMapGet_send [simp]: "ksnTunMapGet (snd (ksnCoreSendCmdto to cmd data ke)) = ksnTunMapGet ke"
  by (simp add: ksnTunMapGet_def fun_eq_iff)

lemma TunMapGet_fields [simp]: "ksnTunMapGet (emit acts ke) = ksnTunMapGet ke" "ksnTunMapGet (ke\<lparr>ke_conns := cs\<rparr>) = ksnTunMapGet ke"
  by (simp_all add: ksnTunMapGet_def fun_eq_iff)

definition tun_room :: "u16 \<Rightarrow> ksnetEvMgr \<Rightarrow> bool" where
  "tun_room fd ke \<longleftrightarrow> pblMapRoom (tun_map (ktun ke)) (enc_u16 fd)"

lemma tun_room_fields [simp]:
  "tun_room fd (snd (ksnCoreSendCmdto to cmd data ke)) = tun_room fd ke" "tun_room fd (emit acts ke) = tun_room fd ke"
  "tun_room fd (ke\<lparr>ke_conns := cs\<rparr>) = tun_room fd ke"
  by (simp_all add: tun_room_def)

lemma TunMapGet_add: "tun_room fd ke \<Longrightarrow> ksnTunMapGet (ksnTunMapAdd fd to to_fd ke) = (ksnTunMapGet ke)(fd \<mapsto> (to, to_fd))"
  by (simp add: ksnTunMapGet_def ksnTunMapAdd_def tun_room_def pblMapAdd_def map_simps fun_eq_iff)

lemma TunMapGet_remove: "ksnTunMapGet (ksnTunMapRemove fd ke) = (ksnTunMapGet ke)(fd := None)"
  by (simp add: ksnTunMapGet_def ksnTunMapRemove_def map_simps fun_eq_iff)

text \<open>The commands as they are received.\<close>

lemma cmd_tun_create:
  assumes "rd_data rd = [TUN_CREATE] @ enc_u16 a @ enc_u16 port @ strz ip" and "0 \<notin> set ip"
  shows "cmd_tun_cb rd ke = (1, cmd_tun_create_cb (cstr (rd_from rd)) a port ip ke)"
  using assms by (simp add: cmd_tun_cb_def Let_def TUN_defs bytes_simps strz_def cstr_strz [unfolded strz_def])

lemma cmd_tun_created:
  assumes "rd_data rd = [TUN_CREATED] @ enc_u16 b @ enc_u16 a"
  shows "cmd_tun_cb rd ke = (1, cmd_tun_created_cb (cstr (rd_from rd)) a b ke)"
  using assms dec_enc_u16 [of a "[]"] by (simp add: cmd_tun_cb_def Let_def TUN_defs bytes_simps)

lemma cmd_tun_data:
  assumes "rd_data rd = [TUN_DATA] @ enc_u16 b @ data"
  shows "cmd_tun_cb rd ke = (1, emit [WriteFd (uint b) data] ke)"
  using assms by (simp add: cmd_tun_cb_def cmd_tun_write_cb_def Let_def TUN_defs bytes_simps)

text \<open>
  The two ends of a tunnel find each other. When the peer \<open>to\<close> gets the create command of a
  connection \<open>a\<close> and its connect call succeeds with \<open>b\<close>, it answers with the created command; when
  that command comes back, each end has the other's name and descriptor under its own descriptor.
\<close>

theorem tun_handshake:
  assumes "rd_data rd = [TUN_CREATE] @ enc_u16 a @ enc_u16 port @ strz ip" and "0 \<notin> set ip"
    and "ke_conns kb = uint b # cs" and "b \<noteq> 0" and "tun_room b kb" and "tun_room a ka1"
    and "rd_data rd' = [TUN_CREATED] @ enc_u16 b @ enc_u16 a"
  shows "\<exists>kb1. snd (cmd_tun_cb rd kb) = cmd_tun_created_cb (cstr (rd_from rd)) b a
        (snd (ksnCoreSendCmdto (cstr (rd_from rd)) CMD_TUN (rd_data rd') kb1)) \<and>
    ksnTunMapGet (snd (cmd_tun_cb rd kb)) b = Some (cstr (rd_from rd), a) \<and>
    ksnTunMapGet (snd (cmd_tun_cb rd' ka1)) a = Some (cstr (rd_from rd'), b)"
proof -
  have b: "uint b > 0" using assms(4) by (simp add: word_neq_0_conv word_less_def)
  have "snd (cmd_tun_cb rd kb) = cmd_tun_created_cb (cstr (rd_from rd)) b a
      (snd (ksnCoreSendCmdto (cstr (rd_from rd)) CMD_TUN (rd_data rd') (kb\<lparr>ke_conns := cs\<rparr>)))"
    unfolding cmd_tun_create [OF assms(1,2)] using assms(3,7) b by (simp add: cmd_tun_create_cb_def tcp_connect_def)
  moreover have "snd (cmd_tun_cb rd' ka1) = cmd_tun_created_cb (cstr (rd_from rd')) a b ka1"
    unfolding cmd_tun_created [OF assms(7)] by simp
  ultimately show ?thesis
    using assms(5,6) by (auto simp: cmd_tun_created_cb_def TunMapGet_add)
qed

theorem tun_handshake_witness:
  "\<exists>rd kb. ksnTunMapGet (snd (cmd_tun_cb rd kb)) 9 = Some ([97], 5)"
proof -
  let ?rd = "ksnCorePacketData_zero\<lparr>rd_from := strz [97], rd_data := [TUN_CREATE] @ enc_u16 5 @ enc_u16 80 @ strz []\<rparr>"
  let ?rd' = "ksnCorePacketData_zero\<lparr>rd_from := strz [98], rd_data := [TUN_CREATED] @ enc_u16 9 @ enc_u16 5\<rparr>"
  let ?kb = "(exampleNode [98])\<lparr>ke_conns := [9]\<rparr>"
  have "rd_data ?rd = [TUN_CREATE] @ enc_u16 5 @ enc_u16 80 @ strz []" "(0::u8) \<notin> set []"
    "ke_conns ?kb = uint (9::u16) # []" "(9::u16) \<noteq> 0" "tun_room 9 ?kb" "tun_room 5 (exampleNode [97])"
    "rd_data ?rd' = [TUN_CREATED] @ enc_u16 9 @ enc_u16 5"
    by (simp_all add: tun_room_def exampleNode_def)
  from tun_handshake [OF this] have "ksnTunMapGet (snd (cmd_tun_cb ?rd ?kb)) 9 = Some (cstr (rd_from ?rd), 5)" by blast
  moreover have "cstr (rd_from ?rd) = [97]" by (simp add: cstr_strz)
  ultimately show ?thesis by metis
qed

text \<open>
  C27: data goes through a tunnel unchanged and in one piece: what an end reads from its descriptor
  is sent to the peer it is connected with, and a peer that receives the command writes exactly
  those bytes to its own descriptor.
\<close>

theorem tun_data_delivered:
  assumes "ksnTunMapGet ka1 a = Some (to, b)" and "data \<noteq> []"
  shows "\<exists>packet. cmd_tun_read_cb a (Some data) ka1 = snd (ksnCoreSendCmdto to CMD_TUN packet ka1) \<and>
    (\<forall>rd kb. rd_data rd = packet \<longrightarrow> cmd_tun_cb rd kb = (1, emit [WriteFd (uint b) data] kb))"
  using assms cmd_tun_data by (auto simp: cmd_tun_read_cb_def)

definition tun_node :: ksnetEvMgr where
  "tun_node = ksnTunMapAdd 5 [98] 9 (exampleNode [97])"

theorem tun_data_delivered_witness:
  "\<exists>packet. \<forall>rd kb. rd_data rd = packet \<longrightarrow> cmd_tun_cb rd kb = (1, emit [WriteFd 9 [1, 2]] kb)"
proof -
  have "tun_room 5 (exampleNode [97])" by (simp add: tun_room_def exampleNode_def)
  then have "ksnTunMapGet tun_node 5 = Some ([98], 9)" by (simp add: tun_node_def TunMapGet_add)
  from tun_data_delivered [OF this, of "[1, 2]"] show ?thesis by auto
qed

lemma tun_fd_key: "enc_u16 (dec_u16 (enc_u16 fd)) = enc_u16 fd"
  using dec_enc_u16 [of fd "[]"] by simp

text \<open>
  When a connection is closed its descriptor leaves the table, its peer is told to shut its own
  end down, and the other connections stay.
\<close>

theorem tun_close:
  assumes "ksnTunMapGet ke fd = Some (to, to_fd)"
  shows "ksnTunMapGet (cmd_tun_read_cb fd (Some []) ke) = (ksnTunMapGet ke)(fd := None) \<and>
    faults (cmd_tun_read_cb fd (Some []) ke) = faults ke \<and>
    (\<exists>packet ke1. cmd_tun_read_cb fd (Some []) ke = ksnTunMapRemove fd (snd (ksnCoreSendCmdto to CMD_TUN packet ke1)) \<and>
      (\<forall>rd kb. rd_data rd = packet \<longrightarrow> cmd_tun_cb rd kb = (1, emit [ShutdownFd (uint to_fd)] kb)))"
proof -
  let ?ke = "emit [IoStop (uint fd), CloseFd (uint fd)] ke"
  let ?p = "[TUN_NOT_CREATED] @ enc_u16 to_fd"
  have e: "cmd_tun_read_cb fd (Some []) ke = ksnTunMapRemove fd (snd (ksnCoreSendCmdto to CMD_TUN ?p ?ke))"
    using assms by (simp add: cmd_tun_read_cb_def cmd_tun_disconnected_send_def)
  have "\<forall>rd kb. rd_data rd = ?p \<longrightarrow> cmd_tun_cb rd kb = (1, emit [ShutdownFd (uint to_fd)] kb)"
    using dec_enc_u16 [of to_fd "[]"] by (simp add: cmd_tun_cb_def cmd_tun_disconnected_cb_def Let_def TUN_defs)
  then show ?thesis unfolding e by (auto simp: TunMapGet_remove) (simp add: ksnTunMapRemove_def)
qed

theorem tun_close_witness: "ksnTunMapGet (cmd_tun_read_cb 5 (Some []) tun_node) 5 = None"
proof -
  have "tun_room 5 (exampleNode [97])" by (simp add: tun_room_def exampleNode_def)
  then have "ksnTunMapGet tun_node 5 = Some ([98], 9)" by (simp add: tun_node_def TunMapGet_add)
  from tun_close [OF this] show ?thesis by simp
qed

end
