(* ===== verification/NetCom.thy ===== *)
theory NetCom
  imports StreamCmd L0Server Vpn Tun
begin

text \<open>
  The commands of the network (net_com.c): the handler of every command and the dispatcher
  \<open>ksnCommandCheck\<close>, which calls itself for a packet combined from sub-packets and for the command in
  a packet of an L0 client. The result of a handler is the number the code returns: 0 when the
  application is to see the packet.
\<close>

section \<open>Answers\<close>

text \<open>The answer of a handler goes to the L0 client the command came from, or to the sender.\<close>

definition com_answer :: "ksnCorePacketData \<Rightarrow> u8 \<Rightarrow> bytes \<Rightarrow> ksnetEvMgr \<Rightarrow> ksnetEvMgr" where
  "com_answer rd cmd data ke =
     (if rd_l0_f rd then snd (ksnLNullSendToL0 (rd_addr rd) (rd_port rd) (rd_from rd) cmd data ke)
      else snd (ksnCoreSendto (rd_addr rd) (rd_port rd) cmd data ke))"

text \<open>The request is for JSON when its data is a non-empty beginning of this word with its zero.\<close>

definition rd_json :: "ksnCorePacketData \<Rightarrow> bool" where
  "rd_json rd \<longleftrightarrow> rd_data rd \<noteq> [] \<and> strncmp (rd_data rd) (strz (ascii ''JSON'')) (length (rd_data rd)) = 0"

definition json_key :: "string \<Rightarrow> bytes" where
  "json_key k = ascii ([CHR 0x22] @ k @ [CHR 0x22] @ '': '')"

definition json_text :: "bytes \<Rightarrow> bytes" where
  "json_text s = [34] @ s @ [34]"

section \<open>Echo and reset\<close>

definition cmd_reset_cb :: "ksnCorePacketData \<Rightarrow> ksnetEvMgr \<Rightarrow> int \<times> ksnetEvMgr" where
  "cmd_reset_cb rd ke =
     (if rd_data rd \<noteq> [] \<and> (byte_at (rd_data rd) 0 = 1 \<or> byte_at (rd_data rd) 0 = 49)
      then (1, emit [KillSelf] ke) else (0, ke))"

definition cmd_echo_cb :: "ksnCorePacketData \<Rightarrow> ksnetEvMgr \<Rightarrow> int \<times> ksnetEvMgr" where
  "cmd_echo_cb rd ke = (1, com_answer rd CMD_ECHO_ANSWER (rd_data rd) ke)"

definition cmd_echo_unr_cb :: "ksnCorePacketData \<Rightarrow> ksnetEvMgr \<Rightarrow> int \<times> ksnetEvMgr" where
  "cmd_echo_unr_cb rd ke =
     (1, snd (ksnLNullSendToL0 (rd_addr rd) (rd_port rd) (rd_from rd) CMD_ECHO_UNRELIABLE_ANSWER (rd_data rd) ke))"

text \<open>The last eight bytes of the data are the time of sending. With the text of the monitor the
  record is looked up again by the sender's name, which is a client's name for a client's command.\<close>

definition cmd_echo_answer_cb :: "ksnCorePacketData \<Rightarrow> ksnetEvMgr \<Rightarrow> int \<times> ksnetEvMgr" where
  "cmd_echo_answer_cb rd ke =
     (0, case rd_arp rd of
           None \<Rightarrow> emit [Fault] ke
         | Some name \<Rightarrow>
             if length (rd_data rd) < 8 then emit [UninitRead] ke
             else let time_got = ksnetEvMgrGetTime ke;
                      time_send = double_dec (ke_env ke) (drop (length (rd_data rd) - 8) (rd_data rd));
                      triptime = (time_got - time_send) * 1000;
                      ke1 = arp_store name (\<lambda>a. a\<lparr>arp_last_triptime_got := time_got, arp_last_triptime := triptime,
                                                  arp_triptime := (arp_triptime a + triptime) / 2\<rparr>) ke
                  in if cstr (rd_data rd) = ascii ''monitor''
                     then case ksnetArpGet ke1 (cstr (rd_from rd)) of
                            None \<Rightarrow> emit [Fault] ke1
                          | Some arp \<Rightarrow> ksnetArpAdd (cstr (rd_from rd)) (arp\<lparr>arp_monitor_time := time_got - time_send\<rparr>) ke1
                     else ke1)"

section \<open>Questions about the node\<close>

definition cmd_peers_cb :: "ksnCorePacketData \<Rightarrow> ksnetEvMgr \<Rightarrow> int \<times> ksnetEvMgr" where
  "cmd_peers_cb rd ke =
     (1, com_answer rd CMD_PEERS_ANSWER (arp_table_bytes (ke_env ke) (rd_json rd) (teoArpGetExtendedArpTable ke)) ke)"

definition cmd_peers_num_cb :: "ksnCorePacketData \<Rightarrow> ksnetEvMgr \<Rightarrow> int \<times> ksnetEvMgr" where
  "cmd_peers_num_cb rd ke =
     (1, com_answer rd CMD_GET_NUM_PEERS_ANSWER
           (if rd_json rd
            then strz (ascii ''{ '' @ json_key ''numPeers'' @ nat_text (ksnetArpSize ke) @ ascii '' }'')
            else enc_u32 (of_nat (ksnetArpSize ke))) ke)"

definition cmd_l0_clients_cb :: "ksnCorePacketData \<Rightarrow> ksnetEvMgr \<Rightarrow> int \<times> ksnetEvMgr" where
  "cmd_l0_clients_cb rd ke =
     (1, case ksnLNullClientsList ke of
           None \<Rightarrow> ke
         | Some names \<Rightarrow> com_answer rd CMD_L0_CLIENTS_ANSWER (l0_clients_bytes (ke_env ke) names) ke)"

definition cmd_l0_clients_n_cb :: "ksnCorePacketData \<Rightarrow> ksnetEvMgr \<Rightarrow> int \<times> ksnetEvMgr" where
  "cmd_l0_clients_n_cb rd ke =
     (let clients_number = (case ksnLNullClientsList ke of None \<Rightarrow> 0 | Some names \<Rightarrow> length names)
      in (1, com_answer rd CMD_L0_CLIENTS_N_ANSWER
               (if rd_json rd
                then strz (ascii ''{ '' @ json_key ''numClients'' @ nat_text clients_number @ ascii '' }'')
                else enc_u32 (of_nat clients_number)) ke))"

definition cmd_l0_info_cb :: "ksnCorePacketData \<Rightarrow> ksnetEvMgr \<Rightarrow> int \<times> ksnetEvMgr" where
  "cmd_l0_info_cb rd ke =
     (1, com_answer rd CMD_L0_INFO_ANSWER
           (if kl ke \<noteq> None \<and> cfg_l0_allow_f ke \<and> cfg_l0_tcp_ip_remote ke \<noteq> []
            then l0_info_bytes (ke_env ke) (cfg_l0_tcp_ip_remote ke) (cfg_l0_tcp_port ke) else []) ke)"

definition cmd_l0_stat_cb :: "ksnCorePacketData \<Rightarrow> ksnetEvMgr \<Rightarrow> int \<times> ksnetEvMgr" where
  "cmd_l0_stat_cb rd ke =
     (1, case kl ke of
           None \<Rightarrow> ke
         | Some l \<Rightarrow> com_answer rd CMD_L0_STAT_ANSWER
             (if rd_json rd
              then strz (ascii ''{ '' @ json_key ''visits'' @ int_text (l0_visits l) @ ascii '' }'')
              else l0_stat_bytes (ke_env ke) l) ke)"

definition cmd_get_public_ip_cb :: "ksnCorePacketData \<Rightarrow> ksnetEvMgr \<Rightarrow> int \<times> ksnetEvMgr" where
  "cmd_get_public_ip_cb rd ke =
     (1, com_answer rd CMD_GET_PUBLIC_IP_ANSWER
           (if rd_json rd
            then strz (ascii ''{ '' @ json_key ''public_v4'' @ json_text (cfg_l0_public_ipv4 ke) @ ascii '', '' @
                       json_key ''public_v6'' @ json_text (cfg_l0_public_ipv6 ke) @ ascii ''  }'')
            else strz (cfg_l0_public_ipv4 ke) @ strz (cfg_l0_public_ipv6 ke)) ke)"

definition cmd_trudp_info_cb :: "ksnCorePacketData \<Rightarrow> ksnetEvMgr \<Rightarrow> int \<times> ksnetEvMgr" where
  "cmd_trudp_info_cb rd ke = (1, com_answer rd CMD_TRUDP_INFO_ANSWER (trudp_stat_bytes (ke_env ke) (rd_json rd)) ke)"

section \<open>Host information\<close>

text \<open>The memory after the first \<open>n\<close> strings of an array of strings.\<close>

fun skip_strings :: "nat \<Rightarrow> bytes \<Rightarrow> bytes" where
  "skip_strings 0 ar = ar"
| "skip_strings (Suc n) ar = skip_strings n (drop (length (cstr ar) + 1) ar)"

definition host_info_json :: "host_info_data \<Rightarrow> bytes" where
  "host_info_json hid =
     (let type_str = teoGetFullAppTypeFromHostInfo hid;
          app_version = cstr (skip_strings (unat (hid_string_ar_num hid)) (hid_string_ar hid));
          ver = map (\<lambda>i. nat_text (unat (byte_at (hid_ver hid) i))) [0, 1, 2]
      in strz (ascii ''{ '' @ json_key ''name'' @ json_text (cstr (hid_string_ar hid)) @ ascii '', '' @
               json_key ''type'' @ ascii ''[ '' @ type_str @ ascii '' ], '' @
               json_key ''appType'' @ ascii ''[ '' @ type_str @ ascii '' ], '' @
               json_key ''version'' @ json_text (ver ! 0 @ ascii ''.'' @ ver ! 1 @ ascii ''.'' @ ver ! 2) @ ascii '', '' @
               json_key ''app_version'' @ json_text app_version @ ascii '', '' @
               json_key ''appVersion'' @ json_text app_version @ ascii '' }''))"

definition cmd_host_info_cb :: "ksnCorePacketData \<Rightarrow> ksnetEvMgr \<Rightarrow> int \<times> ksnetEvMgr" where
  "cmd_host_info_cb rd ke =
     (let hid = teoGetHostInfo ke
      in (1, com_answer rd CMD_HOST_INFO_ANSWER
               (if rd_json rd then host_info_json hid else host_info_enc (ke_env ke) hid) ke))"

definition met_con :: "bytes \<Rightarrow> bytes" where "met_con name = ascii ''CON.'' @ name"

definition cmd_host_info_answer_cb :: "ksnCorePacketData \<Rightarrow> ksnetEvMgr \<Rightarrow> int \<times> ksnetEvMgr" where
  "cmd_host_info_answer_cb rd ke =
     (if rd_data rd \<noteq> [] \<and> hd (rd_data rd) \<noteq> 123 \<and> last (rd_data rd) \<noteq> 125
      then case ksnetArpGet ke (cstr (rd_from rd)) of
             None \<Rightarrow> (0, emit [Fault] ke)
           | Some arp_cque \<Rightarrow>
               let ke1 = snd (ke_CQueExec (arp_cque_id_peer_type arp_cque) ke)
               in (case rd_arp rd of
                     None \<Rightarrow> (0, emit [Fault] ke1)
                   | Some name \<Rightarrow>
                       (case ksnetArpGet ke1 name of
                          None \<Rightarrow> (0, emit [Fault] ke1)
                        | Some arp \<Rightarrow>
                            if arp_type arp = None
                            then let type_str = teoGetFullAppTypeFromHostInfo (host_info_dec (ke_env ke1) (rd_data rd));
                                     ke2 = emit [MetricGauge (met_con (cstr (rd_from rd))) 1]
                                             (arp_store name (\<lambda>a. a\<lparr>arp_type := Some type_str\<rparr>) ke1)
                                 in (1, teoSScrSend EV_K_CONNECTED (rd_from rd) 0 (event_cb EV_K_CONNECTED (EvPacket rd) ke2))
                            else (0, ke1)))
      else (0, ke))"

section \<open>Connecting and disconnecting peers\<close>

definition cmd_resend_cb :: "ksnCorePacketData \<Rightarrow> ksnetEvMgr \<Rightarrow> int \<times> ksnetEvMgr" where
  "cmd_resend_cb rd ke =
     (let to = cstr (rd_data rd); ptr = length to + 2; from = cstr (rd_from rd)
      in (1, if length (rd_data rd) < ptr then emit [UninitRead] ke
             else let ke1 = snd (ksnCoreSendCmdto to (byte_at (rd_data rd) (length to + 1)) (drop ptr (rd_data rd)) ke)
                  in (case ksnetArpGet ke1 to of
                        None \<Rightarrow> ke1
                      | Some arp \<Rightarrow>
                          let ke2 = snd (ksnCommandSendCmdConnect to from (rd_addr rd) (rd_port rd) ke1)
                          in snd (ksnCommandSendCmdConnect from to (arp_addr arp) (arp_port arp) ke2))))"

text \<open>\<open>cmd_connect_r_cb\<close> for a peer behind a TCP proxy: the addresses of this host, then the peer's.\<close>

definition connect_r_tcp :: "ksnCorePacketData \<Rightarrow> bytes \<Rightarrow> ksnet_arp_data_ext \<Rightarrow> ksnetEvMgr \<Rightarrow> ksnetEvMgr" where
  "connect_r_tcp rd name arp ke =
     (let from = cstr (rd_from rd);
          ips = env_ips (ke_env ke);
          addrs = localhost # filter ip_is_private (take (unat (of_nat (length ips) :: u8)) ips);
          send = (\<lambda>addr ke. snd (ksnetArpGetAll ke (send_cmd_connect_cb from addr (arp_port arp)) ke));
          ke1 = fold send addrs (arp_store name (\<lambda>a. a\<lparr>arp_mode := 2\<rparr>) ke);
          ke2 = teoSScrSend EV_K_CONNECTED (rd_from rd) 0 (event_cb EV_K_CONNECTED (EvPacket rd) ke1)
      in send (arp_addr arp) ke2)"

definition cmd_connect_r_cb :: "ksnCorePacketData \<Rightarrow> ksnetEvMgr \<Rightarrow> int \<times> ksnetEvMgr" where
  "cmd_connect_r_cb rd ke =
     (let from = cstr (rd_from rd);
          ke1 = snd (ksnCoreSendCmdto from CMD_NONE [0, 0] (ke\<lparr>ke_is_rhost := True\<rparr>))
      in (1, if length (rd_data rd) < 5 then emit [UninitRead] ke1
             else if cr_ip_counts (rd_data rd) \<noteq> 0
             then let ke2 = snd (ksnetArpGetAll ke1 (send_cmd_connect_cb from (rd_addr rd) (rd_port rd)) ke1)
                  in snd (ksnetArpGetAll ke2 (send_cmd_connect_cb_b from (rd_addr rd) (rd_port rd)) ke2)
             else case rd_arp rd of
                    None \<Rightarrow> emit [Fault] ke1
                  | Some name \<Rightarrow>
                      (case ksnetArpGet ke1 name of
                         None \<Rightarrow> emit [Fault] ke1
                       | Some arp \<Rightarrow> connect_r_tcp rd name arp ke1)))"

definition cmd_connect_cb :: "ksnCorePacketData \<Rightarrow> ksnetEvMgr \<Rightarrow> int \<times> ksnetEvMgr" where
  "cmd_connect_cb rd ke =
     (let d = rd_data rd;
          name = cstr d;
          d1 = drop (length name + 1) d;
          addr = cstr d1;
          d2 = drop (length addr + 1) d1;
          full_type = cstr d2;
          d3 = drop (length full_type + 1) d2;
          port = uint (dec_u32 d3)
      in (1, if length d3 < 4 then emit [UninitRead] ke
             else let ke1 = (if ksnetArpGet ke name = None then snd (ksnCoreSendto addr port CMD_NONE [0] ke) else ke)
                  in snd (ke_CQueAdd (Some ConnectCb) 2 (ConnectReq addr port) ke1)))"

definition cmd_disconnected_cb :: "ksnCorePacketData \<Rightarrow> ksnetEvMgr \<Rightarrow> int \<times> ksnetEvMgr" where
  "cmd_disconnected_cb rd ke =
     (let from = cstr (rd_from rd);
          peer_name = (if byte_at (rd_data rd) 0 \<noteq> 0 then cstr (rd_data rd) else from);
          ke1 = emit [MetricGauge (met_con peer_name) 0] ke;
          is_rhost = (cfg_r_host_name ke1 \<noteq> [] \<and> cfg_r_host_name ke1 = from);
          ke2 = (if is_rhost then ke1\<lparr>cfg_r_host_name := []\<rparr> else snd (ksnReconnectSend peer_name ke1));
          ke3 = event_cb EV_K_DISCONNECTED (EvPacket rd) ke2;
          ke4 = teoSScrSend EV_K_DISCONNECTED (rd_from rd) 0 ke3
      in (1, snd (ksnetArpRemove peer_name ke4)))"

section \<open>The dispatcher\<close>

text \<open>The commands whose handlers do not come back to the dispatcher.\<close>

definition command_single :: "ksnCorePacketData \<Rightarrow> ksnetEvMgr \<Rightarrow> int \<times> ksnetEvMgr" where
  "command_single rd ke =
     (let cmd = rd_cmd rd in
      if cmd = CMD_NONE then (1, ke)
      else if cmd = CMD_RESET then cmd_reset_cb rd ke
      else if cmd = CMD_ECHO then cmd_echo_cb rd ke
      else if cmd = CMD_ECHO_ANSWER then cmd_echo_answer_cb rd ke
      else if cmd = CMD_ECHO_UNRELIABLE then cmd_echo_unr_cb rd ke
      else if cmd = CMD_CONNECT_R then cmd_connect_r_cb rd ke
      else if cmd = CMD_CONNECT then cmd_connect_cb rd ke
      else if cmd = CMD_DISCONNECTED then cmd_disconnected_cb rd ke
      else if cmd = CMD_VPN then cmd_vpn_cb (cstr (rd_from rd)) (rd_data rd) ke
      else if cmd = CMD_TUN then cmd_tun_cb rd ke
      else if cmd = CMD_STREAM then cmd_stream_cb rd ke
      else if cmd = CMD_L0_TO then (if kl ke \<noteq> None then cmd_l0_to_cb rd ke else (0, ke))
      else if cmd = CMD_L0_CLIENT_BROADCAST then (if kl ke \<noteq> None then cmd_l0_broadcast_cb rd ke else (0, ke))
      else if cmd = CMD_PEERS then cmd_peers_cb rd ke
      else if cmd = CMD_GET_NUM_PEERS then cmd_peers_num_cb rd ke
      else if cmd = CMD_RESEND then cmd_resend_cb rd ke
      else if cmd = CMD_RECONNECT then ksnReconnectProcess rd ke
      else if cmd = CMD_RECONNECT_ANSWER then ksnReconnectProcessAnswer rd ke
      else if cmd = CMD_L0_CLIENTS then cmd_l0_clients_cb rd ke
      else if cmd = CMD_L0_CLIENTS_N then cmd_l0_clients_n_cb rd ke
      else if cmd = CMD_L0_STAT then cmd_l0_stat_cb rd ke
      else if cmd = CMD_L0_INFO then cmd_l0_info_cb rd ke
      else if cmd = CMD_HOST_INFO then cmd_host_info_cb rd ke
      else if cmd = CMD_GET_PUBLIC_IP then cmd_get_public_ip_cb rd ke
      else if cmd = CMD_HOST_INFO_ANSWER then cmd_host_info_answer_cb rd ke
      else if cmd = CMD_TRUDP_INFO then cmd_trudp_info_cb rd ke
      else if cmd = CMD_SUBSCRIBE \<or> cmd = CMD_UNSUBSCRIBE \<or> cmd = CMD_SUBSCRIBE_ANSWER \<or> cmd = CMD_SUBSCRIBE_RND
      then cmd_subscribe_cb rd ke
      else if cmd = CMD_L0_AUTH then cmd_l0_check_cb rd ke
      else if cmd = CMD_L0_CLIENT_RESET then cmd_l0_kick_client rd ke
      else (0, ke))"

text \<open>
  The handlers that come back take the dispatcher as an argument. It also returns the packet, which
  the handler of client commands overwrites.
\<close>

definition cmd_split_cb ::
  "(ksnCorePacketData \<Rightarrow> ksnetEvMgr \<Rightarrow> int \<times> ksnCorePacketData \<times> ksnetEvMgr) \<Rightarrow>
   ksnCorePacketData \<Rightarrow> ksnetEvMgr \<Rightarrow> int \<times> ksnetEvMgr" where
  "cmd_split_cb check rd ke =
     (case ksnSplitCombine (ksnetEvMgrGetTime ke) (kco_ks ke) rd of
        (CombRds rds, ks) \<Rightarrow>
          (case check rds (ke\<lparr>kco_ks := ks\<rparr>) of (processed, rds1, ke1) \<Rightarrow>
             if processed = 0 then (2, event_cb EV_K_RECEIVED (EvPacket rds1) ke1) else (processed, ke1))
      | (CombNull, ks) \<Rightarrow> (1, ke\<lparr>kco_ks := ks\<rparr>)
      | (CombFault, ks) \<Rightarrow> (1, emit [Fault] (ke\<lparr>kco_ks := ks\<rparr>)))"

definition l0_command_valid :: "u8 \<Rightarrow> bool" where
  "l0_command_valid cmd \<longleftrightarrow>
     cmd \<in> {CMD_ECHO, CMD_ECHO_ANSWER, CMD_ECHO_UNRELIABLE, CMD_ECHO_UNRELIABLE_ANSWER, CMD_PEERS, CMD_L0_CLIENTS,
            CMD_RESET, CMD_SUBSCRIBE, CMD_SUBSCRIBE_RND, CMD_UNSUBSCRIBE, CMD_L0_CLIENTS_N, CMD_L0_STAT,
            CMD_HOST_INFO, CMD_GET_NUM_PEERS, CMD_TRUDP_INFO} \<or>
     (CMD_USER \<le> cmd \<and> cmd < CMD_192_RESERVED) \<or> (CMD_USER_NR \<le> cmd \<and> cmd < CMD_LAST)"

text \<open>The client's packet must lie within the data and its name must be terminated: the code reads
  on past them.\<close>

definition sp_inside :: "bytes \<Rightarrow> bool" where
  "sp_inside d \<longleftrightarrow> 4 \<le> length d \<and> sp_name_length d + sp_data_length d \<le> length (sp_payload d) \<and>
     0 \<in> set (take (sp_name_length d) (sp_payload d))"

definition cmd_l0_cb ::
  "(ksnCorePacketData \<Rightarrow> ksnetEvMgr \<Rightarrow> int \<times> ksnCorePacketData \<times> ksnetEvMgr) \<Rightarrow>
   ksnCorePacketData \<Rightarrow> ksnetEvMgr \<Rightarrow> int \<times> ksnCorePacketData \<times> ksnetEvMgr" where
  "cmd_l0_cb check rd ke =
     (let d = rd_data rd
      in if d = [] then (1, rd, emit [UninitRead] ke)
         else if \<not> l0_command_valid (sp_cmd d) then (1, rd, ke)
         else if \<not> sp_inside d then (1, rd, emit [UninitRead] ke)
         else check (rd\<lparr>rd_cmd := sp_cmd d, rd_from := take (sp_name_length d) (sp_payload d),
                        rd_data := sp_data d, rd_l0_f := True\<rparr>) ke)"

text \<open>The dispatcher ends: a combined packet takes its bytes out of the table of sub-packets, and
  the data of a client's packet is shorter than the packet.\<close>

definition stored_bytes :: "bytes PblMap \<Rightarrow> nat" where
  "stored_bytes m = sum_list (map (\<lambda>(key, data). length data) (pblMapEntries m))"

lemma stored_bytes_sum: "stored_bytes m = (\<Sum>(key, data) \<in> {(key, data). pblMapGet m key = Some data}. length data)"
  using entries_distinct [of m]
  by (simp only: stored_bytes_def entries_set [symmetric] sum_list_distinct_conv_sum_set distinct_map)

lemma finite_stored: "finite {(key, data). pblMapGet m key = Some data}"
  unfolding entries_set [symmetric] by (rule finite_set)

lemma stored_bytes_add: "stored_bytes (pblMapAddTo m k v) \<le> stored_bytes m + length v"
proof -
  let ?S = "\<lambda>m. {(key, data). pblMapGet m key = Some data}"
  have "?S (pblMapAddTo m k v) \<subseteq> insert (k, v) (?S m)"
    using get_add_Some [of m k v] by auto
  then have "stored_bytes (pblMapAddTo m k v) \<le> (\<Sum>(key, data) \<in> insert (k, v) (?S m). length data)"
    unfolding stored_bytes_sum by (intro sum_mono2) (simp_all add: finite_stored)
  also have "\<dots> \<le> length v + stored_bytes m"
    unfolding stored_bytes_sum by (simp add: sum.insert_if finite_stored)
  finally show ?thesis by simp
qed

lemma stored_bytes_remove:
  assumes "pblMapGet m k = Some v"
  shows "stored_bytes (pblMapRemoveFrom m k) + length v = stored_bytes m"
proof -
  have s: "{(key, data). pblMapGet (pblMapRemoveFrom m k) key = Some data} = {(key, data). pblMapGet m key = Some data} - {(k, v)}"
    using assms by (auto simp: remove_facts(1) split: if_splits)
  show ?thesis
    unfolding stored_bytes_sum s using assms sum.remove [OF finite_stored, of "(k, v)" m "\<lambda>(key, data). length data"] by simp
qed

lemma stored_bytes_clear: "stored_bytes (pblMapClear m) = 0"
  by (simp add: stored_bytes_sum map_simps)

lemma combine_loop_bytes:
  "ksnSplitCombine_loop from pn is cmd data m = (LoopDone c d, m') \<Longrightarrow>
   length d + stored_bytes m' \<le> length data + stored_bytes m"
proof (induction "is" arbitrary: cmd data m)
  case (Cons i "is")
  let ?key = "create_key from pn (of_nat i)"
  obtain v where v: "pblMapGet m ?key = Some v" using Cons.prems by (cases "pblMapGet m ?key") (simp_all add: Let_def)
  note r = stored_bytes_remove [OF v]
  show ?case
  proof (cases "i = 0")
    case True
    then have "v \<noteq> []" "ksnSplitCombine_loop from pn is (last v) (data @ butlast v) (pblMapRemoveFrom m ?key) = (LoopDone c d, m')"
      using Cons.prems v by (auto simp: Let_def split: if_splits)
    from Cons.IH [OF this(2)] show ?thesis using r by simp
  next
    case False
    then have "ksnSplitCombine_loop from pn is cmd (data @ v) (pblMapRemoveFrom m ?key) = (LoopDone c d, m')"
      using Cons.prems v by (simp add: Let_def)
    from Cons.IH [OF this] show ?thesis using r by simp
  qed
qed simp

lemma combine_loop_less:
  assumes "ksnSplitCombine_loop from pn [0..<Suc n] 0 [] m = (LoopDone c d, m')"
  shows "length d + stored_bytes m' < stored_bytes m"
proof -
  let ?key = "create_key from pn (of_nat 0)"
  have u: "[0..<Suc n] = 0 # [1..<Suc n]" by (simp add: upt_conv_Cons del: upt_Suc)
  obtain v where v: "pblMapGet m ?key = Some v" using assms unfolding u by (cases "pblMapGet m ?key") (simp_all add: Let_def)
  have "v \<noteq> []" "ksnSplitCombine_loop from pn [1..<Suc n] (last v) (butlast v) (pblMapRemoveFrom m ?key) = (LoopDone c d, m')"
    using assms v unfolding u by (auto simp: Let_def split: if_splits)
  moreover from combine_loop_bytes [OF this(2)] have "length d + stored_bytes m' \<le> (length v - 1) + stored_bytes (pblMapRemoveFrom m ?key)"
    by simp
  moreover have "0 < length v" using calculation(1) by simp
  ultimately show ?thesis using stored_bytes_remove [OF v] by linarith
qed

lemma combine_shrinks:
  assumes "ksnSplitCombine t ks rd = (CombRds rds, ks')"
  shows "stored_bytes (split_map ks') + length (rd_data rds) < stored_bytes (split_map ks) + length (rd_data rd)"
proof -
  define m0 where "m0 = (if t - last_added ks > 10 \<and> \<not> pblMapIsEmpty (split_map ks)
    then pblMapClear (split_map ks) else split_map ks)"
  define num where "num = unat (dec_u16 (drop 2 (rd_data rd)) AND (LAST_PACKET_FLAG - 1))"
  define m1 where "m1 = pblMapAddTo m0 (create_key (rd_from rd) (dec_u16 (rd_data rd))
    (dec_u16 (drop 2 (rd_data rd)) AND (LAST_PACKET_FLAG - 1))) (drop 4 (rd_data rd))"
  have len: "4 \<le> length (rd_data rd)" using assms by (auto simp: ksnSplitCombine_def not_less split: if_splits)
  obtain c d m2 where loop: "ksnSplitCombine_loop (rd_from rd) (dec_u16 (rd_data rd)) [0..<Suc num] 0 [] m1 = (LoopDone c d, m2)"
    and r: "rd_data rds = d" "split_map ks' = m2"
    using assms by (auto simp: ksnSplitCombine_def Let_def m0_def m1_def num_def simp del: upt_Suc
        split: if_splits prod.splits combineLoop.splits)
  have "stored_bytes m0 \<le> stored_bytes (split_map ks)" by (simp add: m0_def stored_bytes_clear)
  moreover have "stored_bytes m1 \<le> stored_bytes m0 + (length (rd_data rd) - 4)"
    using stored_bytes_add [of m0 _ "drop 4 (rd_data rd)"] by (simp add: m1_def)
  ultimately show ?thesis using combine_loop_less [OF loop] len unfolding r by linarith
qed

lemma cmd_split_cb_cong [fundef_cong]:
  assumes "rd = rd'" and "ke = ke'"
    and "\<And>rds ks. ksnSplitCombine (ksnetEvMgrGetTime ke') (kco_ks ke') rd' = (CombRds rds, ks) \<Longrightarrow>
      check rds (ke'\<lparr>kco_ks := ks\<rparr>) = check' rds (ke'\<lparr>kco_ks := ks\<rparr>)"
  shows "cmd_split_cb check rd ke = cmd_split_cb check' rd' ke'"
  using assms by (auto simp: cmd_split_cb_def split: combineResult.splits prod.splits)

lemma cmd_l0_cb_cong [fundef_cong]:
  assumes "rd = rd'" and "ke = ke'"
    and "\<And>d rds. rd_data rd' = d \<Longrightarrow> sp_inside d \<Longrightarrow> rd_data rds = sp_data d \<Longrightarrow> check rds ke' = check' rds ke'"
  shows "cmd_l0_cb check rd ke = cmd_l0_cb check' rd' ke'"
  using assms by (auto simp: cmd_l0_cb_def Let_def)

lemma sp_data_less: "sp_inside d \<Longrightarrow> length (sp_data d) < length d"
  by (auto simp: sp_inside_def sp_data_def sp_payload_def min_def)

function ksnCommandCheck :: "ksnCorePacketData \<Rightarrow> ksnetEvMgr \<Rightarrow> int \<times> ksnCorePacketData \<times> ksnetEvMgr" where
  "ksnCommandCheck rd ke =
     (if rd_cmd rd = CMD_SPLIT then case cmd_split_cb ksnCommandCheck rd ke of (processed, ke1) \<Rightarrow> (processed, rd, ke1)
      else if rd_cmd rd = CMD_L0 then cmd_l0_cb ksnCommandCheck rd ke
      else case command_single rd ke of (processed, ke1) \<Rightarrow> (processed, rd, ke1))"
  by pat_completeness auto
termination
  by (relation "measure (\<lambda>(rd, ke). stored_bytes (split_map (kco_ks ke)) + length (rd_data rd))")
     (auto dest: combine_shrinks sp_data_less)

declare ksnCommandCheck.simps [simp del]

end
