(* ===== verification/Process.thy ===== *)
theory Process
  imports NetCom
begin

text \<open>
  Receiving packets (net_core.c): a new peer is entered when its first packet comes, the packet goes
  to the dispatcher, and what no handler processed goes to the application. A packet that is not one
  of the network goes to the L0 server, whose handler is an argument here.
\<close>

section \<open>New peers\<close>

definition KSN_MAX_HOST_NAME :: nat where "KSN_MAX_HOST_NAME = 31"
definition R_HOST_ADDR_SIZE :: nat where "R_HOST_ADDR_SIZE = 128"

text \<open>Whether the packet of an unknown peer is the r-host's.\<close>

definition is_r_host_packet :: "ksnCorePacketData \<Rightarrow> ksnetEvMgr \<Rightarrow> bool" where
  "is_r_host_packet rd ke \<longleftrightarrow>
     cfg_r_host_name ke = [] \<and> cfg_r_port ke = rd_port rd \<and>
     (((rd_cmd rd = CMD_NONE \<or> rd_cmd rd = CMD_HOST_INFO) \<and> length (rd_data rd) = 2) \<or> cfg_r_host_addr ke = rd_addr rd)"

definition new_peer_arp :: "ksnCorePacketData \<Rightarrow> ksnetEvMgr \<Rightarrow> int \<Rightarrow> ksnet_arp_data_ext" where
  "new_peer_arp rd ke mode =
     arp_zero\<lparr>arp_addr := take (ARP_TABLE_IP_SIZE (ke_env ke) - 1) (rd_addr rd),
              arp_connected_time := ksnetEvMgrGetTime ke, arp_port := rd_port rd, arp_mode := mode\<rparr>"

text \<open>The packet of a new peer: the peer is asked for its type, entered, and, when it is the r-host,
  told about the other peers and they about it.\<close>

definition core_new_peer :: "ksnCorePacketData \<Rightarrow> ksnetEvMgr \<Rightarrow> ksnetEvMgr" where
  "core_new_peer rd ke =
     (let name = cstr (rd_from rd);
          connect_r = (rd_cmd rd = CMD_CONNECT_R);
          is_r = is_r_host_packet rd ke;
          ke1 = (if is_r
                 then ke\<lparr>cfg_r_host_name := take (KSN_MAX_HOST_NAME - 1) name,
                         cfg_r_host_addr := take (R_HOST_ADDR_SIZE - 1) (rd_addr rd)\<rparr> else ke);
          arp = new_peer_arp rd ke1 (if is_r then 1 else 0);
          ke2 = snd (ksnCoreSendto (rd_addr rd) (rd_port rd) CMD_HOST_INFO (if connect_r then [0, 0] else [0]) ke1)
      in case ke_CQueAdd (Some PeerTypeCb) 1 (PeerTypeReq (rd_addr rd) name (rd_port rd)) ke2 of
           (None, ke3) \<Rightarrow> emit [Fault] ke3
         | (Some cq, ke3) \<Rightarrow>
             let ke4 = (if connect_r \<and> length (rd_data rd) < 6 then emit [UninitRead] ke3 else ke3);
                 ke5 = ksnetArpAdd name
                         (arp\<lparr>arp_cque_id_peer_type := cq_id cq,
                              arp_type := (if connect_r then Some (cr_type (rd_data rd)) else None)\<rparr>) ke4
             in if is_r
                then let ke6 = snd (ksnetArpGetAll ke5 (send_cmd_connect_cb_b name (rd_addr rd) (rd_port rd)) ke5)
                     in snd (ksnetArpGetAll ke6 (send_cmd_connect_cb name (rd_addr rd) (rd_port rd)) ke6)
                else ke5)"

text \<open>The record found for the sender, none when the table of peers is full.\<close>

definition rd_found :: "ksnCorePacketData \<Rightarrow> ksnetEvMgr \<Rightarrow> ksnCorePacketData" where
  "rd_found rd ke =
     rd\<lparr>rd_arp := (if ksnetArpGet ke (cstr (rd_from rd)) = None then None else Some (cstr (rd_from rd)))\<rparr>"

definition ksnCoreCheckNewPeer :: "ksnCorePacketData \<Rightarrow> ksnetEvMgr \<Rightarrow> ksnCorePacketData \<times> ksnetEvMgr" where
  "ksnCoreCheckNewPeer rd ke =
     (let name = cstr (rd_from rd)
      in case ksnetArpGet ke name of
           None \<Rightarrow> (let ke1 = core_new_peer rd ke in (rd_found rd ke1, ke1))
         | Some arp \<Rightarrow>
             (rd_found rd ke,
              if rd_cmd rd = CMD_NONE \<and> length (rd_data rd) = 2
              then arp_store name (\<lambda>a. a\<lparr>arp_mode := 1\<rparr>) (ke\<lparr>cfg_r_host_name := take (KSN_MAX_HOST_NAME - 1) name\<rparr>)
              else ke))"

section \<open>Packets\<close>

text \<open>What a packet of the network is: it parses, and it was encrypted or carries a client's command.\<close>

definition core_packet :: "ksnetEvMgr \<Rightarrow> bytes \<Rightarrow> bytes \<Rightarrow> int \<Rightarrow> bool \<times> ksnCorePacketData" where
  "core_packet ke buf addr port =
     (case core_decrypt ke buf of (encrypted, data) \<Rightarrow>
        case ksnCoreParsePacket data (ksnCorePacketData_zero\<lparr>rd_addr := addr, rd_port := port\<rparr>) of (valid, rd) \<Rightarrow>
          if valid \<and> (encrypted \<or> rd_cmd rd = CMD_L0) then (True, rd)
          else (False, rd\<lparr>rd_from := [0], rd_data := data\<rparr>))"

text \<open>The part for packets of the network.\<close>

definition core_command :: "ksnCorePacketData \<Rightarrow> ksnetEvMgr \<Rightarrow> ksnetEvMgr" where
  "core_command rd ke =
     (case ksnCoreCheckNewPeer rd ke of (rd1, ke1) \<Rightarrow>
        case rd_arp rd1 of
          None \<Rightarrow> emit [Fault] ke1
        | Some name \<Rightarrow>
            let ke2 = arp_store name (\<lambda>a. a\<lparr>arp_last_activity := ksnetEvMgrGetTime ke1\<rparr>) ke1
            in case ksnCommandCheck rd1 ke2 of (processed, rd2, ke3) \<Rightarrow>
                 if processed = 0 then event_cb EV_K_RECEIVED (EvPacket rd2) ke3 else ke3)"

definition ksnCoreProcessPacket ::
  "(ksnCorePacketData \<Rightarrow> ksnetEvMgr \<Rightarrow> ksnetEvMgr) \<Rightarrow> bytes \<Rightarrow> bytes \<Rightarrow> int \<Rightarrow> ksnetEvMgr \<Rightarrow> ksnetEvMgr" where
  "ksnCoreProcessPacket l0_check buf addr port ke =
     (if \<not> ke_run ke \<or> buf = [] then ke
      else case core_packet ke buf addr port of
             (True, rd) \<Rightarrow> core_command rd ke
           | (False, rd) \<Rightarrow> if kl ke = None then ke else l0_check rd ke)"

end
