(* ===== verification/L0Client.thy ===== *)
theory L0Client
  imports Process
begin

text \<open>
  Reading from the clients of the L0 server (modules/l0-server.c): packets of the teocli protocol cut
  out of the bytes of a TCP connection or of a TR-UDP channel, the key exchange, logins, and the
  packets for the network. The library's packets are parameters, their header read from its bytes.
  A packet for this host itself is handled like one received; that handler is an argument.
\<close>

section \<open>Packets of clients\<close>

definition cp_header :: "teocliLib \<Rightarrow> bytes \<Rightarrow> bytes" where
  "cp_header lib buf = take (cp_header_size lib) buf"

definition cp_length :: "teocliLib \<Rightarrow> bytes \<Rightarrow> nat" where
  "cp_length lib buf = cp_header_size lib + cp_name_length lib (cp_header lib buf) + cp_data_length lib (cp_header lib buf)"

definition cp_body :: "teocliLib \<Rightarrow> bytes \<Rightarrow> bytes" where
  "cp_body lib pkt = drop (cp_header_size lib) pkt"

definition cp_payload :: "teocliLib \<Rightarrow> bytes \<Rightarrow> bytes" where
  "cp_payload lib pkt = take (cp_data_length lib (cp_header lib pkt)) (drop (cp_name_length lib (cp_header lib pkt)) (cp_body lib pkt))"

text \<open>The header's checksum is its last byte and covers the rest of it.\<close>

definition cp_header_ok :: "teocliLib \<Rightarrow> bytes \<Rightarrow> bool" where
  "cp_header_ok lib buf \<longleftrightarrow>
     cp_header_checksum lib (cp_header lib buf) = byte_checksum lib (take (cp_header_size lib - 1) buf)"

definition cp_checks :: "teocliLib \<Rightarrow> bytes \<Rightarrow> bool" where
  "cp_checks lib pkt \<longleftrightarrow> cp_header_ok lib pkt \<and>
     cp_checksum lib (cp_header lib pkt) = byte_checksum lib
       (take (cp_name_length lib (cp_header lib pkt) + cp_data_length lib (cp_header lib pkt)) (cp_body lib pkt))"

definition cp_is_login :: "teocliLib \<Rightarrow> bytes \<Rightarrow> bool" where
  "cp_is_login lib pkt \<longleftrightarrow> cp_cmd lib (cp_header lib pkt) = 0 \<and> cp_name_length lib (cp_header lib pkt) = 1 \<and>
     byte_at (cp_body lib pkt) 0 = 0 \<and> cp_data_length lib (cp_header lib pkt) \<noteq> 0"

text \<open>A login's payload is one string that fills it.\<close>

definition login_payload_ok :: "bytes \<Rightarrow> bool" where
  "login_payload_ok data \<longleftrightarrow> 1 < length data \<and> last data = 0 \<and> length (cstr data) = length data - 1"

section \<open>Key exchange\<close>

definition l0_store :: "int \<Rightarrow> (ksnLNullData \<Rightarrow> ksnLNullData) \<Rightarrow> ksnetEvMgr \<Rightarrow> ksnetEvMgr" where
  "l0_store fd f = upd_kl (\<lambda>l. l\<lparr>l0_map := pblMapStore (l0_map l) (fd_key fd) f\<rparr>)"

definition sendKEXResponse :: "int \<Rightarrow> l0Crypt \<Rightarrow> ksnetEvMgr \<Rightarrow> bool \<times> ksnetEvMgr" where
  "sendKEXResponse fd ctx ke =
     (case kex_create (teocli (ke_env ke)) ctx of
        None \<Rightarrow> (False, ke)
      | Some resp \<Rightarrow> (True, ksnLNullSend fd 0 resp ke))"

definition processKeyExchange :: "int \<Rightarrow> ksnLNullData \<Rightarrow> bytes \<Rightarrow> ksnetEvMgr \<Rightarrow> bool \<times> ksnetEvMgr" where
  "processKeyExchange fd kld kex ke =
     (let lib = teocli (ke_env ke)
      in case (if l0_crypt kld = NoCrypt then kex_context lib kex else Some (l0_crypt kld)) of
           None \<Rightarrow> (False, ke)
         | Some ctx \<Rightarrow>
             let ke1 = l0_store fd (\<lambda>d. d\<lparr>l0_crypt := ctx\<rparr>) ke
             in if \<not> kex_validate lib ctx kex then (False, ke1)
                else case kex_apply lib ctx kex of
                       None \<Rightarrow> (False, ke1)
                     | Some ctx1 \<Rightarrow>
                         let ke2 = l0_store fd (\<lambda>d. d\<lparr>l0_crypt := crypt_pending lib ctx1\<rparr>) ke1
                         in case sendKEXResponse fd (crypt_pending lib ctx1) ke2 of
                              (False, ke3) \<Rightarrow> (False, ke3)
                            | (True, ke3) \<Rightarrow>
                                (True, l0_store fd (\<lambda>d. d\<lparr>l0_crypt := crypt_established lib (crypt_pending lib ctx1)\<rparr>) ke3))"

section \<open>Packets for the network\<close>

text \<open>\<open>local\<close> is the receiving of a packet by this host.\<close>

definition ksnLNullSendFromL0 ::
  "(bytes \<Rightarrow> bytes \<Rightarrow> int \<Rightarrow> ksnetEvMgr \<Rightarrow> ksnetEvMgr) \<Rightarrow> bytes \<Rightarrow> bytes \<Rightarrow> ksnetEvMgr \<Rightarrow> ksnetEvMgr" where
  "ksnLNullSendFromL0 local pkt cname ke =
     (let lib = teocli (ke_env ke);
          peer_name = cstr (cp_body lib pkt);
          spacket = l0_spacket (cp_cmd lib (cp_header lib pkt)) (strz cname) (cp_payload lib pkt);
          ke1 = (if peer_name \<noteq> [] \<and> peer_name \<noteq> cfg_host_name ke
                 then snd (ksnCoreSendCmdto peer_name CMD_L0 spacket ke)
                 else local (ksnCoreCreatePacket ke CMD_L0 spacket) localhost (kc_port ke) ke)
      in upd_kl (\<lambda>l. l\<lparr>l0_packets_to_peer := l0_packets_to_peer l + 1\<rparr>) ke1)"

section \<open>TCP connections\<close>

text \<open>What is done with a packet with right checksums; false when the connection was closed for a
  failed key exchange, after which nothing more is read.\<close>

definition l0_tcp_packet ::
  "(bytes \<Rightarrow> bytes \<Rightarrow> int \<Rightarrow> ksnetEvMgr \<Rightarrow> ksnetEvMgr) \<Rightarrow> int \<Rightarrow> ksnLNullData \<Rightarrow> bytes \<Rightarrow> ksnetEvMgr \<Rightarrow> bool \<times> ksnetEvMgr" where
  "l0_tcp_packet local fd kld pkt ke =
     (let lib = teocli (ke_env ke)
      in case cp_decrypt lib (l0_crypt kld) pkt of
           None \<Rightarrow> (True, ke)
         | Some packet \<Rightarrow>
             if cp_is_login lib packet
             then case kex_payload lib (cp_payload lib packet) of
                    Some kex \<Rightarrow>
                      (case processKeyExchange fd kld kex ke of
                         (True, ke1) \<Rightarrow> (True, ke1)
                       | (False, ke1) \<Rightarrow> (False, ksnLNullClientDisconnect fd 1 ke1))
                  | None \<Rightarrow>
                      (True, if login_payload_ok (cp_payload lib packet)
                             then snd (ksnLNullClientAuthCheck fd (cp_payload lib packet) ke) else ke)
             else (True, case l0_name kld of
                           None \<Rightarrow> ke
                         | Some name \<Rightarrow> ksnLNullSendFromL0 local packet name ke))"

text \<open>
  The loop over the read buffer. A packet may end the client, and the code goes on with the record
  it had. The size of a header is positive.
\<close>

function l0_read_loop ::
  "(bytes \<Rightarrow> bytes \<Rightarrow> int \<Rightarrow> ksnetEvMgr \<Rightarrow> ksnetEvMgr) \<Rightarrow> int \<Rightarrow> bytes \<Rightarrow> ksnetEvMgr \<Rightarrow> ksnetEvMgr" where
  "l0_read_loop local fd buf ke =
     (case l0_client fd ke of
        None \<Rightarrow> emit [Fault] ke
      | Some kld \<Rightarrow>
          let lib = teocli (ke_env ke)
          in if cp_header_size lib \<le> length buf \<and> cp_length lib buf \<le> length buf \<and> 0 < cp_length lib buf
             then let pkt = take (cp_length lib buf) buf; rest = drop (cp_length lib buf) buf
                  in if cp_checks lib pkt
                     then case l0_tcp_packet local fd kld pkt ke of
                            (True, ke1) \<Rightarrow> l0_read_loop local fd rest ke1
                          | (False, ke1) \<Rightarrow> ke1
                     else l0_read_loop local fd rest ke
             else l0_store fd (\<lambda>d. d\<lparr>l0_read_buffer := buf\<rparr>) ke)"
  by pat_completeness auto
termination by (relation "measure (\<lambda>(local, fd, buf, ke). length buf)") auto

declare l0_read_loop.simps [simp del]

text \<open>The result of reading: None for an error, no bytes when the connection is closed.\<close>

definition cmd_l0_read_cb ::
  "(bytes \<Rightarrow> bytes \<Rightarrow> int \<Rightarrow> ksnetEvMgr \<Rightarrow> ksnetEvMgr) \<Rightarrow> int \<Rightarrow> bytes option \<Rightarrow> ksnetEvMgr \<Rightarrow> ksnetEvMgr" where
  "cmd_l0_read_cb local fd received ke =
     (case received of
        None \<Rightarrow> ke
      | Some buffer \<Rightarrow>
          if buffer = [] then ksnLNullClientDisconnect fd 1 ke
          else case l0_client fd ke of
                 None \<Rightarrow> ke
               | Some kld \<Rightarrow>
                   l0_read_loop local fd (l0_read_buffer kld @ buffer)
                     (l0_store fd (\<lambda>d. d\<lparr>l0_last_time := ksnetEvMgrGetTime ke\<rparr>) ke))"

section \<open>TR-UDP channels\<close>

definition upd_channel :: "bytes \<Rightarrow> int \<Rightarrow> (trudpChannel \<Rightarrow> trudpChannel) \<Rightarrow> ksnetEvMgr \<Rightarrow> ksnetEvMgr" where
  "upd_channel addr port f ke =
     ke\<lparr>ke_channels := (\<lambda>a p. if a = addr \<and> p = port then map_option f (ke_channels ke a p) else ke_channels ke a p)\<rparr>"

text \<open>
  A part of a large packet: what was delivered before is dropped, the part is appended, and the
  result is the length of the packet at the front of the buffer (-1: not complete, -2: wrong
  checksum, the buffer is emptied, -3: not the begin of a packet). A part shorter than a header is
  read past its end, where the bytes are taken to be zero. The code's buffer grows by 4096 bytes when a
  part does not fit; a part is a datagram of at most 2048 bytes, so that it always fits then, and the
  size of the buffer is left out here.
\<close>

definition packetCombineClient :: "teocliLib \<Rightarrow> trudpChannel \<Rightarrow> bytes \<Rightarrow> int \<times> trudpChannel" where
  "packetCombineClient lib tcd data =
     (let buf = drop (tcd_last_packet_ptr tcd) (tcd_read_buffer tcd);
          tcd0 = tcd\<lparr>tcd_read_buffer := buf, tcd_last_packet_ptr := 0\<rparr>
      in if data \<noteq> [] \<and> buf = [] \<and> \<not> cp_header_ok lib (data @ replicate (cp_header_size lib) 0) then (-3, tcd0)
         else let buf1 = buf @ data; len = cp_length lib buf1
              in if cp_header_size lib < length buf1 \<and> len \<le> length buf1
                 then (if cp_checks lib (take len buf1)
                       then (int len, tcd0\<lparr>tcd_read_buffer := buf1, tcd_last_packet_ptr := len\<rparr>)
                       else (-2, tcd0\<lparr>tcd_read_buffer := []\<rparr>))
                 else (-1, tcd0\<lparr>tcd_read_buffer := buf1\<rparr>))"

text \<open>A complete packet of a client; the result is false for a packet that was not processed.\<close>

definition processPacket ::
  "(bytes \<Rightarrow> bytes \<Rightarrow> int \<Rightarrow> ksnetEvMgr \<Rightarrow> ksnetEvMgr) \<Rightarrow> int \<Rightarrow> ksnLNullData \<Rightarrow> ksnCorePacketData \<Rightarrow> bytes \<Rightarrow>
   ksnetEvMgr \<Rightarrow> bool \<times> ksnetEvMgr" where
  "processPacket local fd kld rd pkt ke =
     (let lib = teocli (ke_env ke)
      in case cp_decrypt lib (l0_crypt kld) pkt of
           None \<Rightarrow> (False, ke)
         | Some packet \<Rightarrow>
             let cmd = cp_cmd lib (cp_header lib packet);
                 reset = emit [TrudpSendReset (rd_addr rd) (rd_port rd)];
                 ke1 = (if cmd \<noteq> 0 then upd_kl (\<lambda>l. l\<lparr>l0_packets_from_client := l0_packets_from_client l + 1\<rparr>) ke else ke)
             in if cmd = 0
                then (if \<not> cp_is_login lib packet then (False, ke1)
                      else (True,
                        case kex_payload lib (cp_payload lib packet) of
                          Some kex \<Rightarrow>
                            (case processKeyExchange fd kld kex ke1 of
                               (True, ke2) \<Rightarrow> ke2
                             | (False, ke2) \<Rightarrow> ksnLNullClientDisconnect fd 1 (reset ke2))
                        | None \<Rightarrow>
                            (if login_payload_ok (cp_payload lib packet)
                             then case ksnLNullClientAuthCheck fd (cp_payload lib packet) ke1 of
                                    (True, ke2) \<Rightarrow> ke2
                                  | (False, ke2) \<Rightarrow> reset ke2
                             else ksnLNullClientDisconnect fd 1 (reset ke1))))
                else (True,
                  case l0_name kld of
                    None \<Rightarrow> reset ke1
                  | Some name \<Rightarrow> ksnLNullSendFromL0 local packet name
                      (l0_store fd (\<lambda>d. d\<lparr>l0_last_time := ksnetEvMgrGetTime ke1\<rparr>) ke1)))"

text \<open>The record of the client of a channel, made on its first packet.\<close>

definition l0_with_client ::
  "int \<Rightarrow> ksnCorePacketData \<Rightarrow> (ksnLNullData \<Rightarrow> ksnetEvMgr \<Rightarrow> bool \<times> ksnetEvMgr) \<Rightarrow> ksnetEvMgr \<Rightarrow> bool \<times> ksnetEvMgr" where
  "l0_with_client fd rd f ke =
     (let ke1 = (if l0_client fd ke = None
                 then snd (ksnLNullClientRegister fd (Some (rd_addr rd)) (rd_port rd) ke) else ke)
      in case l0_client fd ke1 of
           None \<Rightarrow> (True, emit [Fault] ke1)
         | Some kld \<Rightarrow> f kld ke1)"

definition ksnLNulltrudpCheckPaket ::
  "(bytes \<Rightarrow> bytes \<Rightarrow> int \<Rightarrow> ksnetEvMgr \<Rightarrow> ksnetEvMgr) \<Rightarrow> ksnCorePacketData \<Rightarrow> ksnetEvMgr \<Rightarrow> bool \<times> ksnetEvMgr" where
  "ksnLNulltrudpCheckPaket local rd ke =
     (case (ke_channels ke (rd_addr rd) (rd_port rd), kl ke) of
        (Some tcd0, Some l) \<Rightarrow>
          let (fd, ke1) = (if tcd_fd tcd0 = 0
                 then (case ksnLNullGetNextFakeFd ke l of (f, l1) \<Rightarrow>
                         (f, upd_channel (rd_addr rd) (rd_port rd) (\<lambda>c. c\<lparr>tcd_fd := f\<rparr>) (ke\<lparr>kl := Some l1\<rparr>)))
                 else (tcd_fd tcd0, ke))
          in (case cp_from_buffer (teocli (ke_env ke)) (rd_data rd) of
                Some packet \<Rightarrow>
                  (if l0_client fd ke1 = None \<and> rd_cmd rd \<noteq> 0
                   then (False, ksnLNullClientDisconnect fd 1 ke1)
                   else l0_with_client fd rd (\<lambda>kld. processPacket local fd kld rd packet) ke1)
              | None \<Rightarrow>
                  (case packetCombineClient (teocli (ke_env ke)) (tcd0\<lparr>tcd_fd := fd\<rparr>) (rd_data rd) of (rc, tcd) \<Rightarrow>
                     let ke2 = upd_channel (rd_addr rd) (rd_port rd) (\<lambda>c. tcd) ke1
                     in if rc \<le> 0 then (True, ke2)
                        else l0_with_client fd rd
                               (\<lambda>kld. processPacket local fd kld rd (take (nat rc) (tcd_read_buffer tcd))) ke2))
      | (None, _) \<Rightarrow> (True, ke)
      | (_, None) \<Rightarrow> (True, emit [Fault] ke))"

section \<open>Packets received by the node\<close>

text \<open>
  Receiving a packet, with the packets a client sends to this host itself handled inside. \<open>n\<close>
  bounds how deep that goes.
\<close>

fun node_packet :: "nat \<Rightarrow> bytes \<Rightarrow> bytes \<Rightarrow> int \<Rightarrow> ksnetEvMgr \<Rightarrow> ksnetEvMgr" where
  "node_packet 0 buf addr port ke = emit [Diverge] ke"
| "node_packet (Suc n) buf addr port ke =
     ksnCoreProcessPacket (\<lambda>rd ke. snd (ksnLNulltrudpCheckPaket (node_packet n) rd ke)) buf addr port ke"

section \<open>Packets in a stream of bytes\<close>

text \<open>The complete packets at the front of a buffer, and what is left.\<close>

function l0_frames :: "teocliLib \<Rightarrow> bytes \<Rightarrow> bytes list \<times> bytes" where
  "l0_frames lib buf =
     (if cp_header_size lib \<le> length buf \<and> cp_length lib buf \<le> length buf \<and> 0 < cp_length lib buf
      then case l0_frames lib (drop (cp_length lib buf) buf) of (ps, rest) \<Rightarrow> (take (cp_length lib buf) buf # ps, rest)
      else ([], buf))"
  by pat_completeness auto
termination by (relation "measure (\<lambda>(lib, buf). length buf)") auto

declare l0_frames.simps [simp del]

fun l0_run ::
  "teocliLib \<Rightarrow> (bytes \<Rightarrow> bytes \<Rightarrow> int \<Rightarrow> ksnetEvMgr \<Rightarrow> ksnetEvMgr) \<Rightarrow> int \<Rightarrow> bytes list \<Rightarrow> bytes \<Rightarrow> ksnetEvMgr \<Rightarrow> ksnetEvMgr" where
  "l0_run lib local fd [] rest ke =
     (case l0_client fd ke of None \<Rightarrow> emit [Fault] ke | Some kld \<Rightarrow> l0_store fd (\<lambda>d. d\<lparr>l0_read_buffer := rest\<rparr>) ke)"
| "l0_run lib local fd (pkt # ps) rest ke =
     (case l0_client fd ke of
        None \<Rightarrow> emit [Fault] ke
      | Some kld \<Rightarrow>
          if cp_checks lib pkt
          then case l0_tcp_packet local fd kld pkt ke of
                 (True, ke1) \<Rightarrow> l0_run lib local fd ps rest ke1
               | (False, ke1) \<Rightarrow> ke1
          else l0_run lib local fd ps rest ke)"

lemma env_store [simp]: "ke_env (l0_store fd f ke) = ke_env ke"
  by (simp add: l0_store_def)

lemma env_send [simp]: "ke_env (ksnLNullSend fd cmd data ke) = ke_env ke" "ke_env (l0_send_packet fd pkg ke) = ke_env ke"
  by (simp_all add: ksnLNullSend_def l0_send_packet_def ksnLNullPacketSend_def Let_def split: option.splits)

lemma env_sscrSend [simp]: "ke_env (teoSScrSend ev data cmd ke) = ke_env ke"
  by (rule send_only_fields(6) [OF send_only_sscrSend])

lemma env_disconnect [simp]: "ke_env (ksnLNullClientDisconnect fd f ke) = ke_env ke"
  by (simp add: ksnLNullClientDisconnect_def Let_def split: option.splits)

lemma env_kex: "ke_env (snd (processKeyExchange fd kld kex ke)) = ke_env ke"
  by (auto simp: processKeyExchange_def sendKEXResponse_def Let_def split: option.splits prod.splits if_splits)

lemma env_confirm [simp]: "ke_env (confirmAuth fd ke) = ke_env ke" "ke_env (sendConnectedEvent fd ke) = ke_env ke"
  by (simp_all add: confirmAuth_def sendConnectedEvent_def Let_def split: option.splits)

lemma env_name [simp]: "ke_env (updateClientName fd name ke) = ke_env ke"
  by (simp add: updateClientName_def Let_def)

lemma env_auth: "ke_env (snd (ksnLNullClientAuthCheck fd payload ke)) = ke_env ke"
  by (simp add: ksnLNullClientAuthCheck_def Let_def split: option.splits sum.splits)

lemma env_fromL0:
  assumes "\<And>b a p ke. ke_env (local b a p ke) = ke_env ke"
  shows "ke_env (ksnLNullSendFromL0 local pkt name ke) = ke_env ke"
  by (simp add: ksnLNullSendFromL0_def Let_def assms)

lemma env_tcp_packet:
  assumes "\<And>b a p ke. ke_env (local b a p ke) = ke_env ke"
  shows "ke_env (snd (l0_tcp_packet local fd kld pkt ke)) = ke_env ke"
proof -
  have k: "processKeyExchange fd kld kex ke = (r, ke1) \<Longrightarrow> ke_env ke1 = ke_env ke" for kex r ke1
    using env_kex [of fd kld kex ke] by simp
  show ?thesis
    by (auto simp: l0_tcp_packet_def Let_def env_fromL0 [of local, OF assms] env_auth dest: k
        split: option.splits prod.splits bool.splits)
qed

lemma read_loop_run:
  assumes "\<And>b a p ke. ke_env (local b a p ke) = ke_env ke"
  shows "l0_read_loop local fd buf ke =
    (case l0_frames (teocli (ke_env ke)) buf of (ps, rest) \<Rightarrow> l0_run (teocli (ke_env ke)) local fd ps rest ke)"
proof (induction "length buf" arbitrary: buf ke rule: less_induct)
  case less
  define lib where "lib = teocli (ke_env ke)"
  define n where "n = cp_length lib buf"
  show ?case
  proof (cases "cp_header_size lib \<le> length buf \<and> n \<le> length buf \<and> 0 < n")
    case True
    have lt: "length (drop n buf) < length buf" using True unfolding length_drop by linarith
    have IH: "l0_read_loop local fd (drop n buf) k =
        (case l0_frames lib (drop n buf) of (ps, rest) \<Rightarrow> l0_run lib local fd ps rest k)" if "teocli (ke_env k) = lib" for k
      using less [OF lt, of k] that by simp
    have env: "teocli (ke_env ke1) = lib" if "l0_tcp_packet local fd kld (take n buf) ke = (r, ke1)" for kld r ke1
      using env_tcp_packet [of local fd kld "take n buf" ke, OF assms] that by (simp add: lib_def)
    have L: "l0_read_loop local fd buf ke =
        (case l0_client fd ke of None \<Rightarrow> emit [Fault] ke
         | Some kld \<Rightarrow> if cp_checks lib (take n buf)
             then case l0_tcp_packet local fd kld (take n buf) ke of
                    (True, ke1) \<Rightarrow> l0_read_loop local fd (drop n buf) ke1 | (False, ke1) \<Rightarrow> ke1
             else l0_read_loop local fd (drop n buf) ke)"
      unfolding l0_read_loop.simps [of local fd buf] lib_def [symmetric] Let_def n_def [symmetric] using True by (simp split: option.split)
    have F: "l0_frames lib buf = (case l0_frames lib (drop n buf) of (ps, rest) \<Rightarrow> (take n buf # ps, rest))"
      using True by (simp add: l0_frames.simps [of lib buf] flip: n_def)
    obtain ps rest where fr: "l0_frames lib (drop n buf) = (ps, rest)" by fastforce
    show ?thesis
      unfolding L F fr lib_def [symmetric]
      using IH [of ke] IH env fr by (auto simp: lib_def [symmetric] split: option.splits prod.splits bool.splits)
  next
    case False
    have F: "l0_frames lib buf = ([], buf)"
      unfolding l0_frames.simps [of lib buf] n_def [symmetric] by (rule if_not_P [OF False])
    show ?thesis
      unfolding l0_read_loop.simps [of local fd buf] lib_def [symmetric] Let_def n_def [symmetric] F if_not_P [OF False]
      by simp
  qed
qed

text \<open>A header is all that decides where a packet ends.\<close>

lemma cp_length_append: "cp_header_size lib \<le> length a \<Longrightarrow> cp_length lib (a @ b) = cp_length lib a"
  by (simp add: cp_length_def cp_header_def)

text \<open>
  A packet of a client by its layout, and a part of one: a header, a name and data of the lengths that
  the header says.
\<close>

definition client_packet :: "teocliLib \<Rightarrow> bytes \<Rightarrow> bool" where
  "client_packet lib p \<longleftrightarrow> (\<exists>hdr name data. p = hdr @ name @ data \<and> length hdr = cp_header_size lib \<and>
     cp_name_length lib hdr = length name \<and> cp_data_length lib hdr = length data)"

definition packet_part :: "teocliLib \<Rightarrow> bytes \<Rightarrow> bool" where
  "packet_part lib r \<longleftrightarrow> (\<exists>x. x \<noteq> [] \<and> client_packet lib (r @ x))"

lemma client_packet_length:
  "client_packet lib p \<Longrightarrow> cp_length lib p = length p \<and> cp_header_size lib \<le> length p"
  by (auto simp: client_packet_def cp_length_def cp_header_def)

lemma packet_part_short:
  assumes "packet_part lib r"
  shows "\<not> (cp_header_size lib \<le> length r \<and> cp_length lib r \<le> length r)"
proof
  assume r: "cp_header_size lib \<le> length r \<and> cp_length lib r \<le> length r"
  obtain x where x: "x \<noteq> []" "client_packet lib (r @ x)" using assms by (auto simp: packet_part_def)
  from client_packet_length [OF x(2)] cp_length_append [of lib r x] r x(1) show False by auto
qed

lemma part_of_packet: "client_packet lib (r @ x @ y) \<Longrightarrow> x @ y \<noteq> [] \<Longrightarrow> packet_part lib r"
  by (auto simp: packet_part_def)

text \<open>Packets that follow each other are the frames of their bytes.\<close>

lemma frames_packets:
  assumes "0 < cp_header_size lib" and "\<forall>p \<in> set ps. client_packet lib p" and "packet_part lib r"
  shows "l0_frames lib (concat ps @ r) = (ps, r)"
  using assms(2)
proof (induction ps)
  case Nil
  have "\<not> (cp_header_size lib \<le> length r \<and> cp_length lib r \<le> length r \<and> 0 < cp_length lib r)"
    using packet_part_short [OF assms(3)] by blast
  then show ?case by (subst l0_frames.simps) (simp only: concat.simps append_Nil if_False)
next
  case (Cons p ps)
  note p = client_packet_length [of lib p]
  have l: "cp_length lib (p @ concat ps @ r) = length p" using p Cons.prems cp_length_append [of lib p] by simp
  have "0 < length p" using p Cons.prems assms(1) by auto
  then show ?case using p Cons l by (subst l0_frames.simps) simp
qed

text \<open>The packets that a beginning of the stream completes.\<close>

lemma stream_cut:
  assumes "b @ t = concat pkts @ rest" and "\<forall>p \<in> set pkts. client_packet lib p" and "packet_part lib rest"
  shows "\<exists>ps qs r. pkts = ps @ qs \<and> b = concat ps @ r \<and> packet_part lib r \<and> r @ t = concat qs @ rest"
  using assms
proof (induction pkts arbitrary: b)
  case Nil
  obtain x where "x \<noteq> []" "client_packet lib (rest @ x)" using Nil.prems(3) by (auto simp: packet_part_def)
  moreover have "rest = b @ t" using Nil.prems(1) by simp
  ultimately have "packet_part lib b" by (intro part_of_packet [of lib b t x]) simp_all
  then show ?case using Nil.prems(1) by auto
next
  case (Cons p pkts)
  show ?case
  proof (cases "length p \<le> length b")
    case True
    define b1 where "b1 = drop (length p) b"
    have "take (length p) b = p" using True arg_cong [OF Cons.prems(1), of "take (length p)"] by simp
    then have "b = p @ b1" unfolding b1_def by (metis append_take_drop_id)
    moreover from this have "b1 @ t = concat pkts @ rest" using Cons.prems(1) by simp
    ultimately obtain ps qs r where "pkts = ps @ qs" "b1 = concat ps @ r" "packet_part lib r" "r @ t = concat qs @ rest"
      using Cons.IH [of b1] Cons.prems by auto
    then show ?thesis using \<open>b = p @ b1\<close> by (intro exI [of _ "p # ps"] exI [of _ qs] exI [of _ r]) simp
  next
    case False
    then obtain x where x: "p = b @ x" "x \<noteq> []"
      using Cons.prems(1) by (auto simp: append_eq_append_conv2)
    then have "packet_part lib b" using Cons.prems(2) by (auto simp: packet_part_def)
    then show ?thesis using Cons.prems(1) by (intro exI [of _ "[]"] exI [of _ "p # pkts"] exI [of _ b]) simp
  qed
qed

text \<open>
  Successive reads from a client, each after something else the node does, and what they come to: each
  read has the packets it completes and the bytes it leaves for the next one.
\<close>

definition l0_reads ::
  "(bytes \<Rightarrow> bytes \<Rightarrow> int \<Rightarrow> ksnetEvMgr \<Rightarrow> ksnetEvMgr) \<Rightarrow> int \<Rightarrow> ((ksnetEvMgr \<Rightarrow> ksnetEvMgr) \<times> bytes) list \<Rightarrow> ksnetEvMgr \<Rightarrow> ksnetEvMgr" where
  "l0_reads local fd reads ke = fold (\<lambda>(between, chunk) k. cmd_l0_read_cb local fd (Some chunk) (between k)) reads ke"

definition l0_touch :: "int \<Rightarrow> ksnetEvMgr \<Rightarrow> ksnetEvMgr" where
  "l0_touch fd k = l0_store fd (\<lambda>d. d\<lparr>l0_last_time := ksnetEvMgrGetTime k\<rparr>) k"

fun l0_handled_reads ::
  "(bytes \<Rightarrow> bytes \<Rightarrow> int \<Rightarrow> ksnetEvMgr \<Rightarrow> ksnetEvMgr) \<Rightarrow> int \<Rightarrow>
   (((ksnetEvMgr \<Rightarrow> ksnetEvMgr) \<times> bytes) \<times> bytes list \<times> bytes) list \<Rightarrow> ksnetEvMgr \<Rightarrow> ksnetEvMgr" where
  "l0_handled_reads local fd [] ke = ke"
| "l0_handled_reads local fd (((between, chunk), ps, r) # xs) ke =
     (let k = between ke
      in l0_handled_reads local fd xs
           (if l0_client fd k = None then k else l0_run (teocli (ke_env k)) local fd ps r (l0_touch fd k)))"

fun reads_cut :: "teocliLib \<Rightarrow> bytes \<Rightarrow> (('g \<times> bytes) \<times> bytes list \<times> bytes) list \<Rightarrow> bool" where
  "reads_cut lib held [] = True"
| "reads_cut lib held (((between, chunk), ps, r) # xs) =
     (held @ chunk = concat ps @ r \<and> packet_part lib r \<and> reads_cut lib r xs)"

text \<open>What happens between reads may close the connection but leaves the bytes kept for it alone.\<close>

definition keeps_buffer :: "int \<Rightarrow> (ksnetEvMgr \<Rightarrow> ksnetEvMgr) \<Rightarrow> bool" where
  "keeps_buffer fd f \<longleftrightarrow> (\<forall>k. ke_env (f k) = ke_env k \<and>
     (\<forall>d. l0_client fd (f k) = Some d \<longrightarrow> (\<exists>d'. l0_client fd k = Some d' \<and> l0_read_buffer d' = l0_read_buffer d)))"

definition held_bytes :: "int \<Rightarrow> bytes \<Rightarrow> ksnetEvMgr \<Rightarrow> bool" where
  "held_bytes fd r ke \<longleftrightarrow> (\<forall>d. l0_client fd ke = Some d \<longrightarrow> l0_read_buffer d = r)"

lemma client_store: "l0_client fd (l0_store fd f ke) = map_option f (l0_client fd ke)"
  by (simp add: l0_client_def l0_store_def l0_conn_key get_store split: option.splits)

lemma disconnect_gone:
  assumes "kl ke = Some l" and "l0_client fd ke = Some kld"
  shows "l0_client fd (ksnLNullClientDisconnect fd 1 ke) = None"
proof -
  have "ksnLNullGetClientConnection l fd = Some kld" using assms by (simp add: l0_client_def)
  from disconnect_removed [OF assms(1) this one_neq_zero] obtain k where
    "kl (ksnLNullClientDisconnect fd 1 ke) = Some (l\<lparr>l0_clients := l0_clients l - 1,
      l0_map := pblMapRemoveFrom (l0_map l) (fd_key fd),
      l0_map_n := (case l0_name kld of None \<Rightarrow> l0_map_n l | Some n \<Rightarrow> pblMapRemoveFrom (l0_map_n l) (strz n)),
      l0_packets_to_client := k\<rparr>)" by blast
  then show ?thesis by (simp add: l0_client_def l0_conn_key remove_facts(1))
qed

lemma disconnect_none: "l0_client fd (ksnLNullClientDisconnect fd 1 ke) = None"
proof (cases "l0_client fd ke")
  case (Some kld)
  moreover from this obtain l where "kl ke = Some l" by (auto simp: l0_client_def split: option.splits)
  ultimately show ?thesis by (rule disconnect_gone [rotated])
qed (simp add: disconnect_absent)

lemma client_emit: "l0_client fd (emit acts ke) = l0_client fd ke"
  by (simp add: l0_client_def)

lemma tcp_packet_stops: "l0_tcp_packet local fd kld pkt ke = (False, ke1) \<Longrightarrow> l0_client fd ke1 = None"
  by (auto simp: l0_tcp_packet_def Let_def disconnect_none [unfolded One_nat_def] split: option.splits prod.splits bool.splits if_splits)

lemma run_holds: "held_bytes fd rest (l0_run lib local fd ps rest ke)"
proof (induction ps arbitrary: ke)
  case Nil
  then show ?case by (auto simp: held_bytes_def client_store client_emit split: option.split)
next
  case (Cons p ps)
  then show ?case
    using tcp_packet_stops [of local fd _ p ke] by (auto simp: held_bytes_def client_emit split: option.split prod.split bool.split)
qed

lemma run_env:
  assumes "\<And>b a p ke. ke_env (local b a p ke) = ke_env ke"
  shows "ke_env (l0_run lib local fd ps rest ke) = ke_env ke"
proof (induction ps arbitrary: ke)
  case (Cons p ps)
  have "ke_env ke1 = ke_env ke" if "l0_tcp_packet local fd kld p ke = (b, ke1)" for kld b ke1
    using env_tcp_packet [of local fd kld p ke, OF assms] that by simp
  then show ?case using Cons by (auto split: option.split prod.split bool.split)
qed (simp split: option.split)

lemma read_cb_frames:
  assumes "\<And>b a p ke. ke_env (local b a p ke) = ke_env ke" and "l0_client fd ke = Some kld" and "chunk \<noteq> []"
    and "l0_frames (teocli (ke_env ke)) (l0_read_buffer kld @ chunk) = (ps, rest)"
  shows "cmd_l0_read_cb local fd (Some chunk) ke = l0_run (teocli (ke_env ke)) local fd ps rest (l0_touch fd ke)"
  using read_loop_run [of local fd "l0_read_buffer kld @ chunk" "l0_touch fd ke", OF assms(1)] assms(2-4)
  by (simp add: cmd_l0_read_cb_def l0_touch_def)

lemma touch_env: "ke_env (l0_touch fd k) = ke_env k"
  by (simp add: l0_touch_def)

lemma reads_handled:
  assumes env: "\<And>b a p ke. ke_env (local b a p ke) = ke_env ke" and size: "0 < cp_header_size lib"
    and "\<forall>(between, chunk) \<in> set reads. chunk \<noteq> [] \<and> keeps_buffer fd between"
    and "held @ concat (map snd reads) = concat pkts @ rest" and "\<forall>p \<in> set pkts. client_packet lib p" and "packet_part lib rest"
    and "teocli (ke_env ke) = lib" and "held_bytes fd held ke" and "packet_part lib held"
  shows "\<exists>xs. map fst xs = reads \<and> concat (map (fst \<circ> snd) xs) = pkts \<and> reads_cut lib held xs \<and>
    l0_reads local fd reads ke = l0_handled_reads local fd xs ke"
  using assms(3-9)
proof (induction reads arbitrary: held pkts ke)
  case Nil
  have "pkts = []"
  proof (cases pkts)
    case (Cons p qs)
    then have "length p \<le> length held" using Nil.prems(2) by auto
    moreover have "held = p @ concat qs @ rest" using Nil.prems(2) Cons by simp
    moreover have "cp_length lib held = length p" "cp_header_size lib \<le> length p"
      using \<open>held = p @ concat qs @ rest\<close> client_packet_length [of lib p] cp_length_append [of lib p] Nil.prems(3) Cons by simp_all
    ultimately show ?thesis using packet_part_short [OF Nil.prems(7)] by simp
  qed
  then show ?case by (intro exI [of _ "[]"]) (simp add: l0_reads_def)
next
  case (Cons x reads)
  obtain g chunk where x: "x = (g, chunk)" by fastforce
  have keep: "keeps_buffer fd g" and ne: "chunk \<noteq> []" using Cons.prems(1) by (auto simp: x)
  have "held_bytes fd held (g ke)"
    using keep Cons.prems(6) unfolding keeps_buffer_def held_bytes_def by metis
  then have g: "chunk \<noteq> []" "ke_env (g ke) = ke_env ke" "held_bytes fd held (g ke)"
    using ne keep by (simp_all add: keeps_buffer_def)
  obtain ps qs r where cut: "pkts = ps @ qs" "held @ chunk = concat ps @ r" "packet_part lib r"
      "r @ concat (map snd reads) = concat qs @ rest"
    using stream_cut [of "held @ chunk" "concat (map snd reads)" pkts rest lib] Cons.prems(2-4) by (auto simp: x)
  define k where "k = (if l0_client fd (g ke) = None then g ke else l0_run lib local fd ps r (l0_touch fd (g ke)))"
  have lib: "teocli (ke_env (g ke)) = lib" using g(2) Cons.prems(5) by simp
  have read: "cmd_l0_read_cb local fd (Some chunk) (g ke) = k"
  proof (cases "l0_client fd (g ke)")
    case (Some kld)
    then have "l0_read_buffer kld = held" using g(3) by (simp add: held_bytes_def)
    then have "l0_frames lib (l0_read_buffer kld @ chunk) = (ps, r)"
      using frames_packets [OF size _ cut(3), of ps] cut(1,2) Cons.prems(3) by simp
    then show ?thesis using read_cb_frames [OF env Some g(1)] lib Some by (simp add: k_def)
  qed (use g(1) in \<open>simp add: cmd_l0_read_cb_def k_def\<close>)
  have "held_bytes fd r k" by (auto simp: k_def run_holds) (simp add: held_bytes_def)
  moreover have "teocli (ke_env k) = lib" using lib by (simp add: k_def run_env [OF env] l0_touch_def)
  ultimately have "\<exists>xs. map fst xs = reads \<and> concat (map (fst \<circ> snd) xs) = qs \<and> reads_cut lib r xs \<and>
      l0_reads local fd reads k = l0_handled_reads local fd xs k"
    by (intro Cons.IH [OF _ cut(4) _ Cons.prems(4) _ _ cut(3)]) (use Cons.prems(1,3) cut(1) in auto)
  then obtain xs where xs: "map fst xs = reads" "concat (map (fst \<circ> snd) xs) = qs" "reads_cut lib r xs"
      "l0_reads local fd reads k = l0_handled_reads local fd xs k"
    by (elim exE conjE) (rule that)
  show ?case
    by (rule exI [of _ "((g, chunk), ps, r) # xs"])
      (use xs cut read lib in \<open>auto simp: x l0_reads_def k_def Let_def comp_def\<close>)
qed

text \<open>
  C18: what a TCP client sends, packets one after the other and perhaps the begin of one more, arrives in
  any pieces, and the node does other things between the reads: every packet is handled exactly once, in
  order, in the read that completes it, and what a read leaves is kept for the next one. Each read is
  given the packets it completes and the part of a packet it leaves; the effect of the reads is that of
  handling these packets. A client that is disconnected by one of its packets or between the reads gets
  nothing more.
\<close>

theorem l0_read_packets:
  assumes "\<And>b a p ke. ke_env (local b a p ke) = ke_env ke" and "0 < cp_header_size (teocli (ke_env ke))"
    and "l0_client fd ke = Some kld" and "l0_read_buffer kld = []"
    and "\<forall>p \<in> set pkts. client_packet (teocli (ke_env ke)) p" and "packet_part (teocli (ke_env ke)) rest"
    and "concat (map snd reads) = concat pkts @ rest" and "\<forall>(between, chunk) \<in> set reads. chunk \<noteq> [] \<and> keeps_buffer fd between"
  shows "\<exists>xs. map fst xs = reads \<and> concat (map (fst \<circ> snd) xs) = pkts \<and> reads_cut (teocli (ke_env ke)) [] xs \<and>
    l0_reads local fd reads ke = l0_handled_reads local fd xs ke"
proof (rule reads_handled [where held = "[]" and rest = rest and pkts = pkts and ke = ke, OF assms(1,2,8)])
  show "packet_part (teocli (ke_env ke)) []"
  proof (cases pkts)
    case Nil
    obtain x where "x \<noteq> []" "client_packet (teocli (ke_env ke)) (rest @ x)" using assms(6) by (auto simp: packet_part_def)
    then show ?thesis by (auto simp: packet_part_def intro: exI [of _ "rest @ x"])
  next
    case (Cons p ps)
    then have "p \<noteq> []" using assms(2,5) client_packet_length by fastforce
    then show ?thesis using assms(5) Cons by (auto simp: packet_part_def)
  qed
qed (use assms in \<open>simp_all add: held_bytes_def\<close>)

section \<open>Before and after a login\<close>

definition l0_login_packet :: "teocliLib \<Rightarrow> l0Crypt \<Rightarrow> bytes \<Rightarrow> bool" where
  "l0_login_packet lib crypt pkt \<longleftrightarrow>
     (case cp_decrypt lib crypt pkt of None \<Rightarrow> False | Some packet \<Rightarrow> cp_is_login lib packet)"

lemma run_silent:
  assumes "l0_client fd ke = Some kld" and "l0_name kld = None"
    and "\<forall>p \<in> set ps. cp_checks (teocli (ke_env ke)) p \<longrightarrow> \<not> l0_login_packet (teocli (ke_env ke)) (l0_crypt kld) p"
  shows "l0_run (teocli (ke_env ke)) local fd ps rest ke = l0_store fd (\<lambda>d. d\<lparr>l0_read_buffer := rest\<rparr>) ke"
  using assms(3)
proof (induction ps)
  case (Cons p ps)
  have "cp_checks (teocli (ke_env ke)) p \<Longrightarrow> l0_tcp_packet local fd kld p ke = (True, ke)"
    using Cons.prems assms(2)
    by (cases "cp_decrypt (teocli (ke_env ke)) (l0_crypt kld) p") (simp_all add: l0_tcp_packet_def l0_login_packet_def Let_def)
  then show ?case using Cons assms(1) by simp
qed (simp add: assms(1))

lemma store_out [simp]: "ke_out (l0_store fd f ke) = ke_out ke" "ke_out (upd_kl g ke) = ke_out ke"
  by (simp_all add: l0_store_def upd_kl_def)

text \<open>
  C10: a client that has not logged in can only log in: as long as none of the packets read from its TCP
  connection has the form of a login, which is also that of a key exchange, the node makes no send, calls
  no callback and closes nothing, whatever the packets are. (A login or key exchange is answered, and
  one that is rejected closes the connection.)
\<close>

theorem l0_silent_before_login:
  assumes "\<And>b a p ke. ke_env (local b a p ke) = ke_env ke" and "l0_client fd ke = Some kld" and "l0_name kld = None"
    and "buffer \<noteq> []"
    and "\<forall>p \<in> set (fst (l0_frames (teocli (ke_env ke)) (l0_read_buffer kld @ buffer))).
      \<not> l0_login_packet (teocli (ke_env ke)) (l0_crypt kld) p"
  shows "ke_out (cmd_l0_read_cb local fd (Some buffer) ke) = ke_out ke"
proof -
  define ke1 where "ke1 = l0_store fd (\<lambda>d. d\<lparr>l0_last_time := ksnetEvMgrGetTime ke\<rparr>) ke"
  have ke1: "l0_client fd ke1 = Some (kld\<lparr>l0_last_time := ksnetEvMgrGetTime ke\<rparr>)" "ke_env ke1 = ke_env ke" "ke_out ke1 = ke_out ke"
    using assms(2) by (simp_all add: ke1_def client_store)
  obtain ps rest where fr: "l0_frames (teocli (ke_env ke)) (l0_read_buffer kld @ buffer) = (ps, rest)" by fastforce
  have "cmd_l0_read_cb local fd (Some buffer) ke = l0_run (teocli (ke_env ke1)) local fd ps rest ke1"
    using assms(2,4) read_loop_run [of local fd "l0_read_buffer kld @ buffer" ke1, OF assms(1)] fr
    by (simp add: cmd_l0_read_cb_def ke1_def)
  also have "\<dots> = l0_store fd (\<lambda>d. d\<lparr>l0_read_buffer := rest\<rparr>) ke1"
    by (rule run_silent [OF ke1(1)]) (use assms(3,5) fr ke1(2) in auto)
  finally show ?thesis using ke1(3) by simp
qed

lemma l0_node_client: "l0_client 6 l0_node = Some (l0_client_zero None)" "l0_client 5 l0_node = Some (l0_client_zero (Some [97]))"
  "ke_env l0_node = exampleEnv"
  by (simp_all add: l0_client_def l0_node_kl l0_conn_key l0_example_get)
     (simp add: l0_node_def exampleNode_def)

text \<open>A packet for the peer \<open>b\<close> in the example environment, with right checksums, and a login.\<close>

definition early_packet :: bytes where "early_packet = [129, 2, 2, 0, 0, 0, 101, 234, 98, 0, 1, 2]"
definition login_packet :: bytes where "login_packet = [0, 1, 2, 0, 0, 0, 97, 100, 0, 97, 0]"

lemma exampleTeocli_simps [simp]:
  "cp_header_size exampleTeocli = 8" "cp_cmd exampleTeocli p = byte_at p 0"
  "cp_name_length exampleTeocli p = unat (byte_at p 1)" "cp_data_length exampleTeocli p = unat (dec_u16 (drop 2 p))"
  "cp_checksum exampleTeocli p = byte_at p 6" "cp_header_checksum exampleTeocli p = byte_at p 7"
  "byte_checksum exampleTeocli p = foldl (+) 0 p" "cp_decrypt exampleTeocli c p = Some p" "kex_payload exampleTeocli p = None"
  by (simp_all add: exampleTeocli_def)

lemma early_frames: "l0_frames exampleTeocli early_packet = ([early_packet], [])"
  "l0_frames exampleTeocli login_packet = ([login_packet], [])"
proof -
  have e: "l0_frames exampleTeocli [] = ([], [])" by (simp add: l0_frames.simps [of _ "[]"])
  have l: "cp_length exampleTeocli early_packet = 12" "cp_length exampleTeocli login_packet = 11"
    by (simp_all add: cp_length_def cp_header_def early_packet_def login_packet_def dec_u16_def byte_at_def)
  show "l0_frames exampleTeocli early_packet = ([early_packet], [])"
    by (subst l0_frames.simps) (simp add: l, simp add: early_packet_def e)
  show "l0_frames exampleTeocli login_packet = ([login_packet], [])"
    by (subst l0_frames.simps) (simp add: l, simp add: login_packet_def e)
qed

text \<open>Two packets in three pieces, the last one after a timer of the node.\<close>

lemma example_packets: "client_packet exampleTeocli early_packet" "client_packet exampleTeocli login_packet" "packet_part exampleTeocli []"
proof -
  show e: "client_packet exampleTeocli early_packet"
    unfolding client_packet_def
    by (intro exI [of _ "take 8 early_packet"] exI [of _ "[98, 0]"] exI [of _ "[1, 2]"]) (simp add: early_packet_def dec_u16_def byte_at_def)
  show "client_packet exampleTeocli login_packet"
    unfolding client_packet_def
    by (intro exI [of _ "take 8 login_packet"] exI [of _ "[0]"] exI [of _ "[97, 0]"]) (simp add: login_packet_def dec_u16_def byte_at_def)
  show "packet_part exampleTeocli []" using e by (auto simp: packet_part_def early_packet_def)
qed

theorem l0_read_packets_witness:
  "\<exists>xs :: (((ksnetEvMgr \<Rightarrow> ksnetEvMgr) \<times> bytes) \<times> bytes list \<times> bytes) list. map (snd \<circ> fst) xs = [take 5 early_packet, drop 5 early_packet @ take 3 login_packet, drop 3 login_packet] \<and>
     concat (map (fst \<circ> snd) xs) = [early_packet, login_packet] \<and> reads_cut exampleTeocli [] xs"
proof -
  let ?reads = "[(id :: ksnetEvMgr \<Rightarrow> ksnetEvMgr, take 5 early_packet), (id, drop 5 early_packet @ take 3 login_packet),
    (\<lambda>k. k\<lparr>ke_timer_val := 1\<rparr>, drop 3 login_packet)]"
  have lib: "teocli (ke_env l0_node) = exampleTeocli" by (simp add: l0_node_client(3) exampleEnv_def)
  have k: "keeps_buffer 6 id" "keeps_buffer 6 (\<lambda>k. k\<lparr>ke_timer_val := 1\<rparr>)" by (simp_all add: keeps_buffer_def l0_client_def)
  have "\<exists>xs. map fst xs = ?reads \<and> concat (map (fst \<circ> snd) xs) = [early_packet, login_packet] \<and>
      reads_cut (teocli (ke_env l0_node)) [] xs \<and>
      l0_reads (\<lambda>b a p ke. ke) 6 ?reads l0_node = l0_handled_reads (\<lambda>b a p ke. ke) 6 xs l0_node"
    by (rule l0_read_packets [OF _ _ l0_node_client(1), where rest = "[]"])
      (use k example_packets in \<open>simp_all add: lib l0_client_zero_def\<close>, simp_all add: early_packet_def login_packet_def)
  then show ?thesis
  proof (elim exE conjE)
    fix xs
    assume xs: "map fst xs = ?reads" "concat (map (fst \<circ> snd) xs) = [early_packet, login_packet]"
      "reads_cut (teocli (ke_env l0_node)) [] xs"
    have "map (snd \<circ> fst) xs = map snd (map fst xs)" by simp
    then show ?thesis using xs(2,3) unfolding xs(1) lib by (intro exI [of _ xs]) simp
  qed
qed

theorem l0_silent_before_login_witness:
  "ke_out (cmd_l0_read_cb (\<lambda>b a p ke. ke) 6 (Some early_packet) l0_node) = ke_out l0_node"
  by (rule l0_silent_before_login [OF _ l0_node_client(1)])
     (simp_all add: l0_client_zero_def l0_node_client(3) exampleEnv_def early_frames(1) [unfolded early_packet_def] l0_login_packet_def cp_is_login_def
        early_packet_def cp_header_def byte_at_def)

lemma auth_rejected:
  "\<not> fst (ksnLNullClientAuthCheck fd payload ke) \<Longrightarrow>
   cfg_auth_secret ke = [] \<or> (\<exists>r. parseAuthPayload (jsmn (ke_env ke)) (cstr payload) = Inr r) \<Longrightarrow>
   snd (ksnLNullClientAuthCheck fd payload ke) = ksnLNullClientDisconnect fd 1 ke"
  by (auto simp: ksnLNullClientAuthCheck_def Let_def split: option.splits if_splits)

lemma run_gone: "l0_client fd ke = None \<Longrightarrow> l0_run lib local fd ps rest ke = emit [Fault] ke"
  by (cases ps) simp_all

text \<open>The state after packets that leave the client connected.\<close>

fun l0_handled ::
  "teocliLib \<Rightarrow> (bytes \<Rightarrow> bytes \<Rightarrow> int \<Rightarrow> ksnetEvMgr \<Rightarrow> ksnetEvMgr) \<Rightarrow> int \<Rightarrow> bytes list \<Rightarrow> ksnetEvMgr \<Rightarrow> ksnetEvMgr option" where
  "l0_handled lib local fd [] ke = Some ke"
| "l0_handled lib local fd (pkt # ps) ke =
     (case l0_client fd ke of
        None \<Rightarrow> None
      | Some kld \<Rightarrow>
          if cp_checks lib pkt
          then case l0_tcp_packet local fd kld pkt ke of
                 (True, ke1) \<Rightarrow> l0_handled lib local fd ps ke1
               | (False, ke1) \<Rightarrow> None
          else l0_handled lib local fd ps ke)"

lemma run_handled: "l0_handled lib local fd qs ke = Some k \<Longrightarrow> l0_run lib local fd (qs @ ps) rest ke = l0_run lib local fd ps rest k"
  by (induction lib local fd qs ke rule: l0_handled.induct) (auto split: option.splits prod.splits bool.splits if_splits)

lemma handled_env:
  assumes "\<And>b a p ke. ke_env (local b a p ke) = ke_env ke"
  shows "l0_handled lib local fd qs ke = Some k \<Longrightarrow> ke_env k = ke_env ke"
proof (induction qs arbitrary: ke)
  case (Cons p qs)
  have "ke_env ke1 = ke_env ke" if "l0_tcp_packet local fd kld p ke = (b, ke1)" for kld b ke1
    using env_tcp_packet [of local fd kld p ke, OF assms] that by simp
  then show ?case using Cons by (auto split: option.splits prod.splits bool.splits if_splits)
qed simp

text \<open>
  C23: a rejected login over TCP makes the node use freed memory. Wherever the login stands among the
  packets of a read, after packets that have left the client connected, and whatever the reason for the
  rejection (no secret set, a payload without the members, a wrong signature, a time that has passed):
  the check of the login disconnects the client and frees its record, and the loop over the read buffer
  goes on with it. (The payload is one the tokenizer reads within its text.)
\<close>

theorem l0_login_fault:
  assumes "\<And>b a p ke. ke_env (local b a p ke) = ke_env ke" and "l0_client fd ke = Some kld0" and "buffer \<noteq> []"
    and "l0_frames (teocli (ke_env ke)) (l0_read_buffer kld0 @ buffer) = (qs @ pkt # ps, rest)"
    and "l0_handled (teocli (ke_env ke)) local fd qs (l0_touch fd ke) = Some k" and "l0_client fd k = Some kld"
    and "cp_checks (teocli (ke_env ke)) pkt" and "cp_decrypt (teocli (ke_env ke)) (l0_crypt kld) pkt = Some packet"
    and "cp_is_login (teocli (ke_env ke)) packet" and "kex_payload (teocli (ke_env ke)) (cp_payload (teocli (ke_env ke)) packet) = None"
    and "login_payload_ok (cp_payload (teocli (ke_env ke)) packet)"
    and "\<not> fst (ksnLNullClientAuthCheck fd (cp_payload (teocli (ke_env ke)) packet) k)"
    and "cfg_auth_secret k = [] \<or> (\<exists>r. parseAuthPayload (jsmn (ke_env k)) (cstr (cp_payload (teocli (ke_env ke)) packet)) = Inr r)"
  shows "cmd_l0_read_cb local fd (Some buffer) ke = emit [Fault] (ksnLNullClientDisconnect fd 1 k)"
proof -
  have env: "ke_env k = ke_env ke" using handled_env [of local, OF assms(1,5)] by (simp add: l0_touch_def)
  have rej: "snd (ksnLNullClientAuthCheck fd (cp_payload (teocli (ke_env ke)) packet) k) = ksnLNullClientDisconnect fd 1 k"
    by (rule auth_rejected [OF assms(12,13)])
  have "l0_tcp_packet local fd kld pkt k = (True, ksnLNullClientDisconnect fd 1 k)"
    unfolding l0_tcp_packet_def Let_def env using assms(8-11) rej by simp
  then have "l0_run (teocli (ke_env ke)) local fd (pkt # ps) rest k = emit [Fault] (ksnLNullClientDisconnect fd 1 k)"
    using assms(6,7) run_gone [OF disconnect_none] by simp
  then show ?thesis
    using read_cb_frames [OF assms(1-4)] run_handled [OF assms(5)] by simp
qed

text \<open>The login after a packet that is too early, on a server without a secret.\<close>

lemma early_login_frames: "l0_frames exampleTeocli (early_packet @ login_packet) = ([early_packet] @ login_packet # [], [])"
proof -
  have l: "cp_length exampleTeocli (early_packet @ login_packet) = 12"
    by (simp add: cp_length_def cp_header_def early_packet_def login_packet_def dec_u16_def byte_at_def)
  have t: "take 12 (early_packet @ login_packet) = early_packet" "drop 12 (early_packet @ login_packet) = login_packet"
    "length early_packet = 12" "length login_packet = 11"
    by (simp_all add: early_packet_def login_packet_def)
  show ?thesis unfolding l0_frames.simps [of _ "early_packet @ login_packet"] l t(1,2) early_frames(2) by (simp add: t(3,4))
qed

theorem l0_login_fault_witness:
  "cmd_l0_read_cb (\<lambda>b a p ke. ke) 6 (Some (early_packet @ login_packet)) l0_node =
    emit [Fault] (ksnLNullClientDisconnect 6 1 (l0_touch 6 l0_node))"
proof -
  let ?kld = "(l0_client_zero None)\<lparr>l0_last_time := ksnetEvMgrGetTime l0_node\<rparr>"
  have c: "l0_client 6 (l0_touch 6 l0_node) = Some ?kld" by (simp add: l0_touch_def client_store l0_node_client)
  have lib: "teocli (ke_env l0_node) = exampleTeocli" "cfg_auth_secret (l0_touch 6 l0_node) = []"
    by (simp_all add: l0_node_client(3) exampleEnv_def) (simp add: l0_touch_def l0_store_def upd_kl_def l0_node_def exampleNode_def)
  have d: "l0_handled exampleTeocli (\<lambda>b a p ke. ke) 6 [early_packet] (l0_touch 6 l0_node) = Some (l0_touch 6 l0_node)"
    using lib(1) touch_env [of 6 l0_node]
    by (simp add: c l0_tcp_packet_def Let_def cp_is_login_def) (simp add: l0_client_zero_def early_packet_def cp_header_def byte_at_def)
  show ?thesis
    by (rule l0_login_fault [OF _ l0_node_client(1) _ _ _ c, of _ _ "[early_packet]" login_packet "[]" "[]" login_packet])
      (simp_all add: lib d early_login_frames [simplified] l0_client_zero_def del: l0_handled.simps,
       simp_all add: early_packet_def cp_checks_def cp_header_ok_def cp_is_login_def login_payload_ok_def cp_payload_def cp_body_def login_packet_def
        cp_header_def cstr_def byte_at_def dec_u16_def ksnLNullClientAuthCheck_def lib)
qed

section \<open>Packets in parts over TR-UDP\<close>

fun packetCombine_seq :: "teocliLib \<Rightarrow> trudpChannel \<Rightarrow> bytes list \<Rightarrow> int list \<times> trudpChannel" where
  "packetCombine_seq lib tcd [] = ([], tcd)"
| "packetCombine_seq lib tcd (p # ps) =
     (case packetCombineClient lib tcd p of (rc, tcd1) \<Rightarrow>
        case packetCombine_seq lib tcd1 ps of (rcs, tcd2) \<Rightarrow> (rc # rcs, tcd2))"

definition combine_buffer :: "trudpChannel \<Rightarrow> bytes" where
  "combine_buffer tcd = drop (tcd_last_packet_ptr tcd) (tcd_read_buffer tcd)"

lemma header_ok_prefix:
  "cp_header_size lib \<le> length a \<Longrightarrow> cp_header_ok lib (a @ b) = cp_header_ok lib a"
  by (simp add: cp_header_ok_def cp_header_def)

lemma combine_part:
  assumes "combine_buffer tcd @ p @ q = pkt" and "q \<noteq> []" and "p \<noteq> []"
    and "combine_buffer tcd = [] \<longrightarrow> cp_header_size lib \<le> length p"
    and "combine_buffer tcd \<noteq> [] \<longrightarrow> cp_header_size lib \<le> length (combine_buffer tcd)"
    and "cp_length lib pkt = length pkt" and "cp_header_ok lib pkt"
  shows "packetCombineClient lib tcd p =
    (-1, tcd\<lparr>tcd_read_buffer := combine_buffer tcd @ p, tcd_last_packet_ptr := 0\<rparr>)"
proof -
  have h: "cp_header_size lib \<le> length (combine_buffer tcd @ p)" using assms(4,5) by (cases "combine_buffer tcd = []") auto
  then have "cp_length lib (combine_buffer tcd @ p) = length pkt"
    using cp_length_append [of lib "combine_buffer tcd @ p" q] assms(1,6) by simp
  moreover have "length (combine_buffer tcd @ p) < length pkt" using assms(1,2) by auto
  moreover have "cp_header_ok lib (p @ replicate (cp_header_size lib) 0)" if "combine_buffer tcd = []"
    using that assms(1,4,7) header_ok_prefix [of lib p q] header_ok_prefix [of lib p "replicate (cp_header_size lib) 0"] by auto
  ultimately show ?thesis
    unfolding packetCombineClient_def Let_def combine_buffer_def [symmetric] by auto
qed

lemma combine_last_part:
  assumes "combine_buffer tcd @ p = pkt" and "p \<noteq> []" and "combine_buffer tcd = [] \<longrightarrow> cp_header_size lib \<le> length p"
    and "cp_length lib pkt = length pkt" and "cp_header_size lib < length pkt" and "cp_checks lib pkt"
  shows "packetCombineClient lib tcd p =
    (int (length pkt), tcd\<lparr>tcd_read_buffer := pkt, tcd_last_packet_ptr := length pkt\<rparr>)"
proof -
  have "cp_header_ok lib (p @ replicate (cp_header_size lib) 0)" if "combine_buffer tcd = []"
    using that assms(1,3,6) header_ok_prefix [of lib p "replicate (cp_header_size lib) 0"] by (auto simp: cp_checks_def)
  then show ?thesis
    using assms unfolding packetCombineClient_def Let_def combine_buffer_def [symmetric] by auto
qed

lemma combine_parts:
  assumes "combine_buffer tcd @ concat (parts @ [p]) = pkt" and "[] \<notin> set (parts @ [p])"
    and "combine_buffer tcd = [] \<longrightarrow> cp_header_size lib \<le> length (hd (parts @ [p]))"
    and "combine_buffer tcd \<noteq> [] \<longrightarrow> cp_header_size lib \<le> length (combine_buffer tcd)"
    and "cp_length lib pkt = length pkt" and "cp_header_size lib < length pkt" and "cp_checks lib pkt"
  shows "packetCombine_seq lib tcd (parts @ [p]) =
    (replicate (length parts) (-1) @ [int (length pkt)], tcd\<lparr>tcd_read_buffer := pkt, tcd_last_packet_ptr := length pkt\<rparr>)"
  using assms(1-4)
proof (induction parts arbitrary: tcd)
  case Nil
  then show ?case using combine_last_part [of tcd p pkt lib] assms(5-7) by simp
next
  case (Cons q parts)
  define tcd1 where "tcd1 = tcd\<lparr>tcd_read_buffer := combine_buffer tcd @ q, tcd_last_packet_ptr := 0\<rparr>"
  have b: "combine_buffer tcd1 = combine_buffer tcd @ q" by (simp add: tcd1_def combine_buffer_def)
  have ne: "concat (parts @ [p]) \<noteq> []" "q \<noteq> []" using Cons.prems(2) by auto
  have "packetCombineClient lib tcd q = (-1, tcd1)"
    unfolding tcd1_def
    by (rule combine_part [of _ _ "concat (parts @ [p])" pkt]) (use Cons.prems ne assms(5,7) in \<open>auto simp: cp_checks_def\<close>)
  moreover have "packetCombine_seq lib tcd1 (parts @ [p]) =
      (replicate (length parts) (-1) @ [int (length pkt)], tcd1\<lparr>tcd_read_buffer := pkt, tcd_last_packet_ptr := length pkt\<rparr>)"
    by (rule Cons.IH) (use Cons.prems b ne in \<open>auto split: if_splits\<close>)
  ultimately show ?case by (simp add: tcd1_def)
qed

text \<open>
  C17: a large packet that a TR-UDP client sends in parts is put together again: with nothing left over
  in the channel, parts that are not empty, a first part that holds the header, and right checksums,
  every part but the last answers that more is to come, the last gives the packet's length with the
  packet at the front of the buffer, and nothing is left over for the next packet.
\<close>

theorem l0_combine_parts:
  assumes "combine_buffer tcd = []" and "concat (parts @ [p]) = pkt" and "[] \<notin> set (parts @ [p])"
    and "cp_header_size lib \<le> length (hd (parts @ [p]))" and "cp_length lib pkt = length pkt"
    and "cp_header_size lib < length pkt" and "cp_checks lib pkt"
  shows "fst (packetCombine_seq lib tcd (parts @ [p])) = replicate (length parts) (-1) @ [int (length pkt)] \<and>
    tcd_read_buffer (snd (packetCombine_seq lib tcd (parts @ [p]))) = pkt \<and>
    combine_buffer (snd (packetCombine_seq lib tcd (parts @ [p]))) = []"
proof -
  have "packetCombine_seq lib tcd (parts @ [p]) =
      (replicate (length parts) (-1) @ [int (length pkt)], tcd\<lparr>tcd_read_buffer := pkt, tcd_last_packet_ptr := length pkt\<rparr>)"
    by (rule combine_parts) (use assms in simp_all)
  then show ?thesis by (simp add: combine_buffer_def)
qed

theorem l0_combine_parts_witness:
  "fst (packetCombine_seq exampleTeocli \<lparr>tcd_fd = 1024, tcd_read_buffer = [], tcd_last_packet_ptr = 0\<rparr>
     ([take 9 login_packet] @ [drop 9 login_packet])) = [-1, 11]"
proof -
  let ?t = "\<lparr>tcd_fd = 1024, tcd_read_buffer = [], tcd_last_packet_ptr = 0\<rparr>"
  have "combine_buffer ?t = []" "concat ([take 9 login_packet] @ [drop 9 login_packet]) = login_packet"
    "[] \<notin> set ([take 9 login_packet] @ [drop 9 login_packet])"
    "cp_header_size exampleTeocli \<le> length (hd ([take 9 login_packet] @ [drop 9 login_packet]))"
    "cp_length exampleTeocli login_packet = length login_packet" "cp_header_size exampleTeocli < length login_packet"
    "cp_checks exampleTeocli login_packet"
    by (simp_all add: combine_buffer_def login_packet_def cp_length_def cp_checks_def cp_header_ok_def cp_header_def cp_body_def
        byte_at_def dec_u16_def)
  from l0_combine_parts [OF this] show ?thesis by (simp add: login_packet_def)
qed

end
