(* ===== verification/EventLoop.thy ===== *)
theory EventLoop
  imports L0Client
begin

text \<open>
  The callbacks of the event loop (ev_mgr.c) and of TR-UDP (tr-udp.c): connecting to the r-host,
  checking the connected peers, the timer, the idle and the asynchronous callbacks, and what the
  node does with the events of a TR-UDP channel. Watchers of libev are effects.
\<close>

section \<open>Constants\<close>

definition CHECK_EVENTS_AFTER :: real where "CHECK_EVENTS_AFTER = 11.5"
definition KSNET_EVENT_MGR_TIMER :: real where "KSNET_EVENT_MGR_TIMER = 0.25"
definition TRIPTIME :: bytes where "TRIPTIME = strz (ascii ''triptime'')"

section \<open>Connecting to the r-host\<close>

text \<open>None: the name does not resolve and the program exits. Any address that begins with
  \<open>localhost\<close> is the local host.\<close>

definition resolveDnsName :: "ksnetEvMgr \<Rightarrow> bytes option" where
  "resolveDnsName ke =
     (if take 9 (cfg_r_host_addr_opt ke) = ascii ''localhost'' then Some localhost
      else map_option (take 128) (dns_lookup (ke_env ke) (cfg_r_host_addr_opt ke)))"

definition ksnTCPProxyClientConnect :: "ksnetEvMgr \<Rightarrow> ksnetEvMgr" where
  "ksnTCPProxyClientConnect ke =
     (if cfg_r_tcp_f ke
      then case tcp_connect ke of (fd, ke1) \<Rightarrow>
             if fd \<ge> 0 then emit [IoStart fd] (ke1\<lparr>ke_tp := Some fd\<rparr>) else ke1
      else ke)"

definition connect_r_host_cb :: "ksnetEvMgr \<Rightarrow> ksnetEvMgr" where
  "connect_r_host_cb ke =
     (if cfg_r_host_addr ke \<noteq> [] \<and> cfg_r_host_name ke = []
      then case resolveDnsName ke of
             None \<Rightarrow> emit [ExitProcess] ke
           | Some addr \<Rightarrow>
               let ke1 = ke\<lparr>cfg_r_host_addr := addr\<rparr>;
                   tcp = (ke_tp ke1 \<noteq> None \<and> cfg_r_tcp_f ke1);
                   ke2 = (if tcp \<and> the (ke_tp ke1) < 0 then ksnTCPProxyClientConnect ke1 else ke1)
               in (case (if tcp then Some (createCmdConnectRPacketTcp ke2) else createCmdConnectRPacketUdp ke2) of
                     None \<Rightarrow> emit [ExitProcess] ke2
                   | Some packet \<Rightarrow> snd (ksnCoreSendto (cfg_r_host_addr ke2) (cfg_r_port ke2) CMD_CONNECT_R packet ke2))
      else ke)"

section \<open>Removing peers\<close>

definition remove_peer :: "bytes \<Rightarrow> ksnet_arp_data_ext \<Rightarrow> ksnetEvMgr \<Rightarrow> ksnetEvMgr" where
  "remove_peer peer_name arp ke =
     snd (cmd_disconnected_cb
            (ksnCorePacketData_zero\<lparr>rd_from := strz peer_name, rd_addr := arp_addr arp, rd_port := arp_port arp,
                                    rd_arp := Some peer_name\<rparr>) ke)"

definition remove_peer_addr :: "bytes \<Rightarrow> int \<Rightarrow> ksnetEvMgr \<Rightarrow> int \<times> ksnetEvMgr" where
  "remove_peer_addr addr port ke =
     (case ksnetArpFindByAddr ke addr port of
        None \<Rightarrow> (0, ke)
      | Some (peer_name, arp) \<Rightarrow>
          if arp_mode arp \<ge> 0 then (1, remove_peer peer_name arp ke) else (arp_mode arp, ke))"

section \<open>Checking the peers\<close>

definition check_connected_cb :: "bytes \<Rightarrow> ksnet_arp_data_ext \<Rightarrow> ksnetEvMgr \<Rightarrow> bool \<times> ksnetEvMgr" where
  "check_connected_cb peer_name arp ke =
     (let ct = ksnetEvMgrGetTime ke;
          ke1 = (if ct - arp_last_activity arp > CHECK_EVENTS_AFTER \<or>
                    ct - arp_last_triptime_send arp > CHECK_EVENTS_AFTER * 2
                 then snd (ksnCommandSendCmdEcho peer_name TRIPTIME ke) else ke)
      in if ct - arp_last_activity arp > CHECK_EVENTS_AFTER + 2.5
         then (True, remove_peer peer_name arp (snd (send_cmd_disconnect_cb None [] arp ke1)))
         else (False, ke1))"

definition idle_activity_cb :: "ksnetEvMgr \<Rightarrow> ksnetEvMgr" where
  "idle_activity_cb ke =
     (let ke1 = connect_r_host_cb ke
      in case ksnetArpGetAll ke1 check_connected_cb ke1 of
           (True, ke2) \<Rightarrow> ke2
         | (False, ke2) \<Rightarrow>
             (emit [IdleStop ''activity''] ke2)\<lparr>ke_idle_activity_count :=
                (if ke_idle_activity_count ke2 = - 1 then 0 else ke_idle_activity_count ke2) + 1\<rparr>)"

section \<open>Idle and timer\<close>

definition idle_cb :: "ksnetEvMgr \<Rightarrow> ksnetEvMgr" where
  "idle_cb ke =
     (let ke1 = emit [IdleStop ''idle''] ke;
          ke2 = (if ke_idle_count ke1 = 0
                 then let ke' = event_cb EV_K_STARTED EvNone (connect_r_host_cb ke1)
                      in if cfg_r_tcp_f ke' then ke' else emit [HostIoStart] ke'
                 else if ke_idle_count ke1 = - 1 then ke1\<lparr>ke_idle_count := 0\<rparr> else ke1);
          ke3 = ke2\<lparr>ke_idle_count := ke_idle_count ke2 + 1\<rparr>
      in ksnCoreSetEventTime (event_cb EV_K_IDLE EvNone ke3))"

text \<open>The intervals count timer ticks: five seconds, and an eighth of the check interval, as integers.\<close>

definition timer_cb :: "ksnetEvMgr \<Rightarrow> ksnetEvMgr" where
  "timer_cb ke =
     (let show_interval = of_int \<lfloor>5 / KSNET_EVENT_MGR_TIMER\<rfloor>;
          activity_interval = of_int \<lfloor>CHECK_EVENTS_AFTER / 8 / KSNET_EVENT_MGR_TIMER\<rfloor>;
          t = ksnetEvMgrGetTime ke;
          ke1 = (if ke_last_custom_timer ke = 0 then ke\<lparr>ke_last_custom_timer := t\<rparr> else ke)
      in if ke_run ke1
         then let ke2 = ke1\<lparr>ke_timer_val := ke_timer_val ke1 + 1\<rparr>;
                  ke3 = (if ke_timer_val ke2 mod show_interval = 0 then emit [MetricTick] ke2 else ke2);
                  ke4 = (if ke_event_cb ke3 \<and> ke_custom_timer_interval ke3 \<noteq> 0 \<and>
                            t - ke_last_custom_timer ke3 > ke_custom_timer_interval ke3
                         then event_cb EV_K_TIMER EvNone (ke3\<lparr>ke_last_custom_timer := t\<rparr>) else ke3);
                  ke5 = (if ksnetEvMgrGetTime ke4 - kc_last_check_event ke4 > CHECK_EVENTS_AFTER
                         then emit [IdleStart ''idle''] ke4 else ke4)
              in if ke_timer_val ke5 mod activity_interval = 0 then emit [IdleStart ''activity''] ke5 else ke5
         else emit [LoopBreak] ke1)"

definition ksnetEvMgrSetCustomTimer :: "real \<Rightarrow> ksnetEvMgr \<Rightarrow> ksnetEvMgr" where
  "ksnetEvMgrSetCustomTimer time_interval ke =
     ke\<lparr>ke_last_custom_timer := ksnetEvMgrGetTime ke, ke_custom_timer_interval := time_interval\<rparr>"

definition ksnetEvMgrStop :: "ksnetEvMgr \<Rightarrow> ksnetEvMgr" where
  "ksnetEvMgrStop ke = ke\<lparr>ke_run := False\<rparr>"

section \<open>Asynchronous events\<close>

definition ksnetEvMgrAsync :: "bytes \<Rightarrow> nat \<Rightarrow> ksnetEvMgr \<Rightarrow> ksnetEvMgr" where
  "ksnetEvMgrAsync data user_data ke =
     emit [AsyncSignal] (ke\<lparr>ke_async_queue := ke_async_queue ke @ [(user_data, data)]\<rparr>)"

text \<open>One event a signal, the idle watcher signals for the next. The callback is called without a
  test that there is one.\<close>

definition sig_async_cb :: "ksnetEvMgr \<Rightarrow> ksnetEvMgr" where
  "sig_async_cb ke =
     (case ke_async_queue ke of
        [] \<Rightarrow> ke
      | (user_data, data) # rest \<Rightarrow>
          if ke_async_idle ke then ke
          else let ke1 = ke\<lparr>ke_async_queue := rest\<rparr>
               in if ke_event_cb ke1
                  then emit [EventCb EV_K_ASYNC (EvAsync user_data data), IdleStart ''async''] (ke1\<lparr>ke_async_idle := True\<rparr>)
                  else emit [Fault] ke1)"

definition idle_async_cb :: "ksnetEvMgr \<Rightarrow> ksnetEvMgr" where
  "idle_async_cb ke = emit [IdleStop ''async'', AsyncSignal] (ke\<lparr>ke_async_idle := False\<rparr>)"

section \<open>Events of TR-UDP channels\<close>

datatype trudpEvent =
    CONNECTED
  | DISCONNECTED bool
  | GOT_RESET
  | SEND_RESET "bytes option"
  | GOT_ACK_RESET
  | GOT_ACK_PING bytes
  | GOT_PING bytes
  | GOT_ACK u32 bytes
  | GOT_DATA bytes
  | GOT_DATA_NO_TRUDP bytes

definition trudp_send_event_ack_to_app :: "u32 \<Rightarrow> bytes \<Rightarrow> bytes \<Rightarrow> int \<Rightarrow> ksnetEvMgr \<Rightarrow> ksnetEvMgr" where
  "trudp_send_event_ack_to_app pid data addr port ke =
     (if ke_event_cb ke
      then case ksnCoreParsePacket (snd (core_decrypt ke data)) (ksnCorePacketData_zero\<lparr>rd_addr := addr, rd_port := port\<rparr>) of
             (valid, rd) \<Rightarrow>
               if valid \<and> 128 \<le> rd_cmd rd \<and> rd_cmd rd < 192 then event_cb EV_K_RECEIVED_ACK (EvAck pid rd) ke else ke
      else ke)"

text \<open>
  The events of a channel to an address. \<open>DISCONNECTED True\<close> carries the time of the last packet, the
  other form follows the destruction of the channel. \<open>n\<close> bounds the nesting of packets to this host.
\<close>

definition trudp_event_cb :: "nat \<Rightarrow> bytes \<Rightarrow> int \<Rightarrow> trudpEvent \<Rightarrow> ksnetEvMgr \<Rightarrow> ksnetEvMgr" where
  "trudp_event_cb n addr port event ke =
     (case event of
        DISCONNECTED True \<Rightarrow>
          let fd = (case ke_channels ke addr port of None \<Rightarrow> 0 | Some tcd \<Rightarrow> tcd_fd tcd);
              ke1 = (if fd \<noteq> 0 then ksnLNullClientDisconnect fd 1 ke else ke)
          in (case remove_peer_addr addr port ke1 of
                (rv, ke2) \<Rightarrow>
                  if rv \<noteq> 1
                  then channel_destroy addr port ke2 else ke2)
      | GOT_RESET \<Rightarrow> snd (remove_peer_addr addr port ke)
      | SEND_RESET None \<Rightarrow> snd (remove_peer_addr addr port ke)
      | GOT_ACK pid data \<Rightarrow> if cfg_send_ack_event_f ke then trudp_send_event_ack_to_app pid data addr port ke else ke
      | GOT_DATA data \<Rightarrow> node_packet n data addr port ke
      | GOT_DATA_NO_TRUDP data \<Rightarrow> node_packet n data addr port ke
      | _ \<Rightarrow> ke)"

section \<open>What the handlers leave of the table of peers\<close>

text \<open>The table, the time and the run flag are what checking the peers depends on.\<close>

definition arp_view :: "ksnetEvMgr \<Rightarrow> ksnet_arp_data_ext PblMap \<times> real \<times> bool" where
  "arp_view ke = (ka ke, ke_time ke, ke_run ke)"

lemma arp_view_emit [simp]: "arp_view (emit acts ke) = arp_view ke" "arp_view (event_cb ev d ke) = arp_view ke"
  "arp_view (ke\<lparr>ks_map := m\<rparr>) = arp_view ke" "arp_view (ke\<lparr>kr_map := r\<rparr>) = arp_view ke" "arp_view (ke\<lparr>kq := q\<rparr>) = arp_view ke"
  "arp_view (ke\<lparr>cfg_r_host_name := n\<rparr>) = arp_view ke" "arp_view (ke\<lparr>cfg_r_host_addr := n\<rparr>) = arp_view ke"
  "arp_view (ke\<lparr>ke_tp := t\<rparr>) = arp_view ke" "arp_view (ke\<lparr>ke_conns := cs\<rparr>) = arp_view ke"
  "arp_view (channel_destroy a p ke) = arp_view ke" "arp_view (ke\<lparr>ke_idle_activity_count := c\<rparr>) = arp_view ke"
  by (simp_all add: arp_view_def)

lemma arp_view_send: "send_only ke ke' \<Longrightarrow> arp_view ke' = arp_view ke"
  by (simp add: arp_view_def send_only_fields)

lemmas arp_view_sends [simp] =
  arp_view_send [OF send_only_sendto] arp_view_send [OF send_only_sendCmdto] arp_view_send [OF send_only_sscrSend]
  arp_view_send [OF send_only_callbacks(3)]

lemma arp_view_streamClose [simp]: "arp_view (ksnStreamClose p n f ke) = arp_view ke"
  by (simp add: ksnStreamClose_def ksnStreamSendTo_def Let_def split: option.split)

lemma arp_view_closePeer [simp]: "arp_view (ksnStreamClosePeer p ke) = arp_view ke"
proof -
  have "arp_view (ksnStreamClosePeer_rec n p ke) = arp_view ke" for n
    by (induction n arbitrary: ke) (simp_all split: option.split prod.split)
  then show ?thesis unfolding ksnStreamClosePeer_def .
qed

lemma arp_view_CQueAdd [simp]: "arp_view (snd (ke_CQueAdd cb t d ke)) = arp_view ke"
  by (simp add: ke_CQueAdd_def split: prod.split)

lemma arp_view_reconnect [simp]: "arp_view (snd (ksnReconnectSend peer ke)) = arp_view ke"
proof (cases rule: ksnReconnectSend_cases [of ke peer])
  case (sent ke3 m)
  have "arp_view (snd (ke_CQueAdd cb t d (ke3\<lparr>kr_map := m'\<rparr>))) = arp_view ke" for cb t d m'
    using arp_view_send [OF sent(4)] by simp
  then show ?thesis unfolding sent(7) split_def by simp
qed simp_all

lemma arp_view_connect [simp]: "arp_view (connect_r_host_cb ke) = arp_view ke"
  by (simp add: connect_r_host_cb_def ksnTCPProxyClientConnect_def tcp_connect_def Let_def
      split: option.split prod.split list.split)

lemma arp_view_arp: "arp_view ke' = arp_view ke \<Longrightarrow> ksnetArpGet ke' n = ksnetArpGet ke n"
  "arp_view ke' = arp_view ke \<Longrightarrow> ksnetEvMgrGetTime ke' = ksnetEvMgrGetTime ke"
  "arp_view ke' = arp_view ke \<Longrightarrow> ka ke' = ka ke"
  by (simp_all add: arp_view_def ksnetArpGet_def ksnetEvMgrGetTime_def)

lemma arpRemove_view:
  "ka (snd (ksnetArpRemove name ke)) = pblMapRemoveFrom (ka ke) (strz name)"
  "ksnetEvMgrGetTime (snd (ksnetArpRemove name ke)) = ksnetEvMgrGetTime ke"
proof -
  have "arp_view (snd (ksnetArpRemove name ke)) = arp_view (ke\<lparr>ka := pblMapRemoveFrom (ka ke) (strz name)\<rparr>)"
    by (simp add: ksnetArpRemove_def pblMapRemove_def Let_def split: option.split)
  then show "ka (snd (ksnetArpRemove name ke)) = pblMapRemoveFrom (ka ke) (strz name)"
    "ksnetEvMgrGetTime (snd (ksnetArpRemove name ke)) = ksnetEvMgrGetTime ke"
    by (simp_all add: arp_view_def ksnetEvMgrGetTime_def)
qed

lemma remove_peer_view:
  assumes "0 \<notin> set name"
  shows "ka (remove_peer name arp ke) = pblMapRemoveFrom (ka ke) (strz name)"
    "ksnetEvMgrGetTime (remove_peer name arp ke) = ksnetEvMgrGetTime ke"
proof -
  define ke1 where "ke1 = emit [MetricGauge (met_con name) 0] ke"
  obtain rd ke4 where r: "remove_peer name arp ke = snd (ksnetArpRemove name ke4)" "arp_view ke4 = arp_view ke"
    by (simp add: remove_peer_def cmd_disconnected_cb_def Let_def byte_at_def ksnCorePacketData_zero_def cstr_strz [OF assms])
  show "ka (remove_peer name arp ke) = pblMapRemoveFrom (ka ke) (strz name)"
    "ksnetEvMgrGetTime (remove_peer name arp ke) = ksnetEvMgrGetTime ke"
    unfolding r(1) arpRemove_view using arp_view_arp(2,3) [OF r(2)] by simp_all
qed

section \<open>Dead peers\<close>

definition peer_dead :: "ksnetEvMgr \<Rightarrow> ksnet_arp_data_ext \<Rightarrow> bool" where
  "peer_dead ke arp \<longleftrightarrow> arp_mode arp \<ge> 0 \<and> ksnetEvMgrGetTime ke - arp_last_activity arp > CHECK_EVENTS_AFTER + 2.5"

definition dead_peers :: "ksnetEvMgr \<Rightarrow> bytes set" where
  "dead_peers ke = {name. \<exists>arp. ksnetArpGet ke name = Some arp \<and> peer_dead ke arp}"

text \<open>What matters of a record for the check is not changed by asking a peer for its trip time.\<close>

definition same_peers :: "ksnetEvMgr \<Rightarrow> ksnetEvMgr \<Rightarrow> bool" where
  "same_peers ke ke' \<longleftrightarrow> ksnetEvMgrGetTime ke' = ksnetEvMgrGetTime ke \<and>
     (\<forall>key. map_option (\<lambda>a. a\<lparr>arp_last_triptime_send := 0\<rparr>) (pblMapGet (ka ke') key) =
            map_option (\<lambda>a. a\<lparr>arp_last_triptime_send := 0\<rparr>) (pblMapGet (ka ke) key))"

lemma same_peers_refl [simp]: "same_peers ke ke"
  by (simp add: same_peers_def)

lemma same_peers_trans: "same_peers a b \<Longrightarrow> same_peers b c \<Longrightarrow> same_peers a c"
  by (simp add: same_peers_def)

lemma same_peers_view:
  assumes "arp_view ke' = arp_view ke"
  shows "same_peers ke ke'"
  using arp_view_arp(2,3) [OF assms] by (simp add: same_peers_def)

lemma dead_send: "peer_dead ke (a\<lparr>arp_last_triptime_send := t\<rparr>) \<longleftrightarrow> peer_dead ke a"
  by (simp add: peer_dead_def)

lemma same_peers_echo: "same_peers ke (snd (ksnCommandSendCmdEcho to data ke))"
proof -
  obtain r ke1 where s: "ksnCoreSendCmdto to CMD_ECHO (ksnCommandEchoBuffer ke data) ke = (r, ke1)" by fastforce
  have v: "arp_view ke1 = arp_view ke" using arp_view_sends(2) [of to CMD_ECHO "ksnCommandEchoBuffer ke data" ke] s by simp
  show ?thesis
  proof (cases r)
    case None
    then show ?thesis using s v by (simp add: ksnCommandSendCmdEcho_def same_peers_view)
  next
    case (Some name)
    have t: "ksnetEvMgrGetTime (arp_store name f ke1) = ksnetEvMgrGetTime ke" for f
      unfolding arp_view_arp(2) [OF v, symmetric] by (simp add: arp_store_def ksnetEvMgrGetTime_def)
    have m: "map_option (\<lambda>a. a\<lparr>arp_last_triptime_send := 0\<rparr>) (pblMapGet (ka (arp_store name (\<lambda>a. a\<lparr>arp_last_triptime_send := x\<rparr>) ke1)) key) =
        map_option (\<lambda>a. a\<lparr>arp_last_triptime_send := 0\<rparr>) (pblMapGet (ka ke) key)" for x key
      using arp_view_arp(3) [OF v] by (simp add: arp_store_def get_store option.map_comp comp_def)
    show ?thesis using s Some t m by (simp add: ksnCommandSendCmdEcho_def same_peers_def)
  qed
qed

lemma same_peers_dead: "same_peers ke ke' \<Longrightarrow> dead_peers ke' = dead_peers ke"
proof -
  assume s: "same_peers ke ke'"
  have "(\<exists>arp. pblMapGet (ka ke') k = Some arp \<and> peer_dead ke' arp) \<longleftrightarrow> (\<exists>arp. pblMapGet (ka ke) k = Some arp \<and> peer_dead ke arp)" for k
  proof -
    have "(\<exists>arp. m = Some arp \<and> peer_dead ke arp) \<longleftrightarrow>
        (\<exists>arp. map_option (\<lambda>a. a\<lparr>arp_last_triptime_send := 0\<rparr>) m = Some arp \<and> peer_dead ke arp)" for m
      by (cases m) (simp_all add: dead_send)
    moreover have "peer_dead ke' = peer_dead ke" using s by (simp add: same_peers_def peer_dead_def fun_eq_iff)
    ultimately show ?thesis using s unfolding same_peers_def by metis
  qed
  then show ?thesis by (simp add: dead_peers_def ksnetArpGet_def)
qed

text \<open>One pass over the entries: the first dead peer goes, the others stay.\<close>

definition check_result :: "ksnetEvMgr \<Rightarrow> (bytes \<times> ksnet_arp_data_ext) list \<Rightarrow> bool \<times> ksnetEvMgr \<Rightarrow> bool" where
  "check_result ke0 entries r \<longleftrightarrow>
     (case r of
        (False, ke') \<Rightarrow> (\<forall>(key, arp) \<in> set entries. \<not> peer_dead ke0 arp) \<and> same_peers ke0 ke'
      | (True, ke') \<Rightarrow> \<exists>key arp ke1. (key, arp) \<in> set entries \<and> peer_dead ke0 arp \<and> same_peers ke0 ke1 \<and>
          ka ke' = pblMapRemoveFrom (ka ke1) key \<and> ksnetEvMgrGetTime ke' = ksnetEvMgrGetTime ke0)"

lemma check_result_Cons:
  assumes "check_result ke0 entries r" and "\<not> peer_dead ke0 arp"
  shows "check_result ke0 ((key, arp) # entries) r"
proof (cases r)
  case (Pair b ke')
  then show ?thesis using assms by (cases b) (auto simp: check_result_def)
qed

lemma check_pass:
  assumes "\<forall>(key, arp) \<in> set entries. \<exists>name. key = strz name \<and> 0 \<notin> set name" and "same_peers ke0 ke"
  shows "check_result ke0 entries (arp_iterate check_connected_cb False entries ke)"
  using assms
proof (induction entries arbitrary: ke)
  case Nil
  then show ?case by (simp add: check_result_def)
next
  case (Cons e entries)
  obtain name arp where e: "e = (strz name, arp)" "0 \<notin> set name" using Cons.prems(1) by auto
  note t = Cons.prems(2) [unfolded same_peers_def, THEN conjunct1]
  have rest: "\<forall>(key, arp) \<in> set entries. \<exists>name. key = strz name \<and> 0 \<notin> set name" using Cons.prems(1) by auto
  define ke1 where "ke1 = (if ksnetEvMgrGetTime ke - arp_last_activity arp > CHECK_EVENTS_AFTER \<or>
      ksnetEvMgrGetTime ke - arp_last_triptime_send arp > CHECK_EVENTS_AFTER * 2
    then snd (ksnCommandSendCmdEcho name TRIPTIME ke) else ke)"
  have s1: "same_peers ke0 ke1"
    using same_peers_trans [OF Cons.prems(2) same_peers_echo] Cons.prems(2) by (simp add: ke1_def)
  define ke2 where "ke2 = snd (send_cmd_disconnect_cb None [] arp ke1)"
  have s2: "same_peers ke0 ke2" unfolding ke2_def by (rule same_peers_trans [OF s1 same_peers_view]) simp
  have call: "check_connected_cb name arp ke =
      (if ksnetEvMgrGetTime ke0 - arp_last_activity arp > CHECK_EVENTS_AFTER + 2.5
       then (True, remove_peer name arp ke2) else (False, ke1))"
    by (simp only: check_connected_cb_def Let_def ke1_def ke2_def t)
  show ?case
  proof (cases "peer_dead ke0 arp")
    case True
    then have "arp_iterate check_connected_cb False (e # entries) ke = (True, remove_peer name arp ke2)"
      using call by (simp add: e cstr_strz peer_dead_def)
    moreover have "ksnetEvMgrGetTime (remove_peer name arp ke2) = ksnetEvMgrGetTime ke0"
      unfolding remove_peer_view(2) [OF e(2)] using s2 by (simp add: same_peers_def)
    ultimately show ?thesis
      using True s2 remove_peer_view(1) [OF e(2)] unfolding e(1) check_result_def by auto
  next
    case False
    then have "arp_iterate check_connected_cb False (e # entries) ke =
        arp_iterate check_connected_cb False entries (if arp_mode arp \<ge> 0 then ke1 else ke)"
      using call by (simp add: e cstr_strz peer_dead_def)
    moreover have "same_peers ke0 (if arp_mode arp \<ge> 0 then ke1 else ke)" using s1 Cons.prems(2) by simp
    ultimately show ?thesis using check_result_Cons [OF Cons.IH [OF rest] False] unfolding e(1) by simp
  qed
qed

text \<open>A pass of the check, started from the state of the node after connecting to the r-host.\<close>

lemma same_peers_wf: "same_peers ke ke' \<Longrightarrow> arp_wf ke \<Longrightarrow> arp_wf ke'"
  unfolding same_peers_def arp_wf_def by (metis map_option_is_None not_None_eq)

lemma same_peers_known: "same_peers ke ke' \<Longrightarrow> ksnetArpGet ke' n = None \<longleftrightarrow> ksnetArpGet ke n = None"
  unfolding same_peers_def ksnetArpGet_def by (metis map_option_is_None)

lemma finite_dead: "finite (dead_peers ke)"
proof -
  have "inj_on strz (dead_peers ke)" by (simp add: inj_on_def)
  moreover have "strz ` dead_peers ke \<subseteq> fst ` set (pblMapEntries (ka ke))"
    by (force simp: dead_peers_def ksnetArpGet_def simp flip: entries_mem)
  ultimately show ?thesis by (meson List.finite_set finite_imageD finite_imageI finite_subset)
qed

lemma activity_pass:
  assumes "arp_wf ke"
  shows "dead_peers ke = {} \<and> same_peers ke (idle_activity_cb ke) \<or>
    (\<exists>n \<in> dead_peers ke. \<exists>ke1. same_peers ke ke1 \<and> ka (idle_activity_cb ke) = pblMapRemoveFrom (ka ke1) (strz n) \<and>
       ksnetEvMgrGetTime (idle_activity_cb ke) = ksnetEvMgrGetTime ke)"
proof -
  define ke0 where "ke0 = connect_r_host_cb ke"
  have s0: "same_peers ke ke0" unfolding ke0_def by (rule same_peers_view) simp
  have ka0: "ka ke0 = ka ke" "ksnetEvMgrGetTime ke0 = ksnetEvMgrGetTime ke" "peer_dead ke0 = peer_dead ke"
    using arp_view_arp(2,3) [of ke0 ke] by (simp_all add: ke0_def peer_dead_def fun_eq_iff)
  have wf: "\<forall>(key, arp) \<in> set (pblMapEntries (ka ke0)). \<exists>name. key = strz name \<and> 0 \<notin> set name"
    using same_peers_wf [OF s0 assms] by (auto simp: arp_wf_def entries_mem)
  obtain b ke' where r: "arp_iterate check_connected_cb False (pblMapEntries (ka ke0)) ke0 = (b, ke')" by fastforce
  have c: "check_result ke0 (pblMapEntries (ka ke0)) (b, ke')"
    using check_pass [OF wf same_peers_refl [of ke0]] unfolding r .
  show ?thesis
  proof (cases b)
    case False
    have "dead_peers ke = {}"
      using c False unfolding check_result_def ka0 by (auto simp: dead_peers_def ksnetArpGet_def simp flip: entries_mem)
    moreover have "same_peers ke' (idle_activity_cb ke)"
      by (rule same_peers_view) (use r False in \<open>simp add: idle_activity_cb_def Let_def ke0_def [symmetric] ksnetArpGetAll_def ksnetArpGetAllFlag_def\<close>)
    moreover have "same_peers ke ke'" using c False by (auto simp: check_result_def intro: same_peers_trans [OF s0])
    ultimately show ?thesis using same_peers_trans by blast
  next
    case True
    then have i: "idle_activity_cb ke = ke'"
      using r by (simp add: idle_activity_cb_def Let_def ke0_def [symmetric] ksnetArpGetAll_def ksnetArpGetAllFlag_def)
    from c True obtain key arp ke1 where k: "(key, arp) \<in> set (pblMapEntries (ka ke))" "peer_dead ke arp" "same_peers ke0 ke1"
      "ka ke' = pblMapRemoveFrom (ka ke1) key" "ksnetEvMgrGetTime ke' = ksnetEvMgrGetTime ke"
      unfolding check_result_def ka0 by auto
    obtain n where n: "key = strz n" using wf k(1) ka0(1) by auto
    have "n \<in> dead_peers ke" using k(1,2) n by (auto simp: dead_peers_def ksnetArpGet_def entries_mem)
    then show ?thesis using k(3-5) same_peers_trans [OF s0] unfolding i n by blast
  qed
qed

lemma activity_step:
  assumes "arp_wf ke"
  shows "arp_wf (idle_activity_cb ke)"
    and "card (dead_peers (idle_activity_cb ke)) = card (dead_peers ke) - 1"
    and "dead_peers (idle_activity_cb ke) \<subseteq> dead_peers ke"
    and "n \<notin> dead_peers ke \<Longrightarrow> ksnetArpGet (idle_activity_cb ke) n = None \<longleftrightarrow> ksnetArpGet ke n = None"
proof -
  consider (none) "dead_peers ke = {}" "same_peers ke (idle_activity_cb ke)"
    | (one) m ke1 where "m \<in> dead_peers ke" "same_peers ke ke1" "ka (idle_activity_cb ke) = pblMapRemoveFrom (ka ke1) (strz m)"
      "ksnetEvMgrGetTime (idle_activity_cb ke) = ksnetEvMgrGetTime ke"
    using activity_pass [OF assms] by blast
  then have "arp_wf (idle_activity_cb ke) \<and> card (dead_peers (idle_activity_cb ke)) = card (dead_peers ke) - 1 \<and>
      dead_peers (idle_activity_cb ke) \<subseteq> dead_peers ke \<and>
      (n \<notin> dead_peers ke \<longrightarrow> (ksnetArpGet (idle_activity_cb ke) n = None \<longleftrightarrow> ksnetArpGet ke n = None))"
  proof cases
    case none
    then show ?thesis using same_peers_wf [OF none(2) assms] same_peers_dead [OF none(2)] same_peers_known [OF none(2)] by simp
  next
    case one
    have t: "ksnetEvMgrGetTime ke1 = ksnetEvMgrGetTime ke" using one(2) by (simp add: same_peers_def)
    have get: "ksnetArpGet (idle_activity_cb ke) x = (if x = m then None else ksnetArpGet ke1 x)" for x
      unfolding ksnetArpGet_def one(3) by (simp add: remove_facts(1))
    have "peer_dead (idle_activity_cb ke) = peer_dead ke1" using one(4) t by (simp add: peer_dead_def fun_eq_iff)
    then have d: "dead_peers (idle_activity_cb ke) = dead_peers ke - {m}"
      using get unfolding same_peers_dead [OF one(2), symmetric] by (auto simp: dead_peers_def)
    have "arp_wf ke1" by (rule same_peers_wf [OF one(2) assms])
    then have "arp_wf (idle_activity_cb ke)" unfolding arp_wf_def one(3) by (auto simp: remove_facts(1) split: if_splits)
    then show ?thesis using d one(1) get same_peers_known [OF one(2)] finite_dead [of ke] by auto
  qed
  then show "arp_wf (idle_activity_cb ke)" "card (dead_peers (idle_activity_cb ke)) = card (dead_peers ke) - 1"
    "dead_peers (idle_activity_cb ke) \<subseteq> dead_peers ke"
    "n \<notin> dead_peers ke \<Longrightarrow> ksnetArpGet (idle_activity_cb ke) n = None \<longleftrightarrow> ksnetArpGet ke n = None"
    by simp_all
qed

lemma activity_steps:
  assumes "arp_wf ke" and "card (dead_peers ke) \<le> k"
  shows "dead_peers ((idle_activity_cb ^^ k) ke) = {} \<and>
    (n \<notin> dead_peers ke \<longrightarrow> (ksnetArpGet ((idle_activity_cb ^^ k) ke) n = None \<longleftrightarrow> ksnetArpGet ke n = None))"
  using assms
proof (induction k arbitrary: ke)
  case 0
  then show ?case using finite_dead [of ke] by simp
next
  case (Suc k)
  define ke1 where "ke1 = idle_activity_cb ke"
  note step = activity_step [OF Suc.prems(1), folded ke1_def]
  have "card (dead_peers ke1) \<le> k" using step(2) Suc.prems(2) by simp
  note IH = Suc.IH [OF step(1) this]
  have "(idle_activity_cb ^^ Suc k) ke = (idle_activity_cb ^^ k) ke1"
    unfolding funpow_Suc_right comp_apply ke1_def ..
  then show ?case using IH step(3) step(4) [of n] by auto
qed

text \<open>
  C5: the check of the peers gets rid of every dead one and of no other: a pass removes exactly one peer
  that has been silent for more than 14 seconds, as long as there is one, and no other peer: what was
  not dead is known after it just as before; so that after as many passes as there are dead peers none
  is left, and every peer that was not dead is still known.
\<close>

theorem dead_peers_removed:
  assumes "arp_wf ke" and "card (dead_peers ke) \<le> k"
  shows "card (dead_peers (idle_activity_cb ke)) = card (dead_peers ke) - 1 \<and>
    dead_peers (idle_activity_cb ke) \<subseteq> dead_peers ke \<and>
    (n \<notin> dead_peers ke \<longrightarrow> (ksnetArpGet (idle_activity_cb ke) n = None \<longleftrightarrow> ksnetArpGet ke n = None)) \<and>
    dead_peers ((idle_activity_cb ^^ k) ke) = {} \<and>
    (n \<notin> dead_peers ke \<longrightarrow> (ksnetArpGet ((idle_activity_cb ^^ k) ke) n = None \<longleftrightarrow> ksnetArpGet ke n = None))"
  using activity_step [OF assms(1)] activity_steps [OF assms] by blast

definition silent_node :: ksnetEvMgr where
  "silent_node = ksnetArpAdd [98] (arp_zero\<lparr>arp_addr := [49], arp_port := 9010, arp_last_activity := 80\<rparr>) (exampleNode [97])"

lemma silent_node_dead: "arp_wf silent_node" "dead_peers silent_node = {[98]}"
proof -
  show "arp_wf silent_node"
    unfolding silent_node_def by (rule arp_wf_add) (simp_all add: arp_wf_def exampleNode_def map_simps)
  have "ksnetArpGet silent_node n = (if n = [98] then Some (arp_zero\<lparr>arp_addr := [49], arp_port := 9010, arp_last_activity := 80\<rparr>) else None)" for n
    unfolding silent_node_def by (subst arp_get_add) (simp_all add: exampleNode_def, simp add: ksnetArpGet_def map_simps)
  then show "dead_peers silent_node = {[98]}"
    by (auto simp: dead_peers_def peer_dead_def silent_node_def ksnetArpAdd_def exampleNode_def ksnetEvMgrGetTime_def arp_zero_def
        CHECK_EVENTS_AFTER_def split: if_splits)
qed

theorem dead_peers_removed_witness: "dead_peers ((idle_activity_cb ^^ 1) silent_node) = {}"
  using dead_peers_removed [OF silent_node_dead(1), of 1] silent_node_dead(2) by simp

section \<open>Asynchronous events arrive in order\<close>

text \<open>The loop's answer to a signal and to the idle watcher the callback starts.\<close>

definition async_round :: "ksnetEvMgr \<Rightarrow> ksnetEvMgr" where
  "async_round ke = idle_async_cb (sig_async_cb ke)"

definition async_events :: "ksnetEvMgr \<Rightarrow> eventData list" where
  "async_events ke = List.map_filter (\<lambda>a. case a of EventCb ev d \<Rightarrow> (if ev = EV_K_ASYNC then Some d else None) | _ \<Rightarrow> None) (ke_out ke)"

lemma async_events_emit [simp]:
  "async_events (emit acts ke) = async_events ke @
     List.map_filter (\<lambda>a. case a of EventCb ev d \<Rightarrow> (if ev = EV_K_ASYNC then Some d else None) | _ \<Rightarrow> None) acts"
  by (simp add: async_events_def List.map_filter_def)

lemma async_events_fields [simp]:
  "async_events (ke\<lparr>ke_async_queue := q\<rparr>) = async_events ke" "async_events (ke\<lparr>ke_async_idle := b\<rparr>) = async_events ke"
  by (simp_all add: async_events_def)

lemma async_round_step:
  assumes "ke_event_cb ke" and "\<not> ke_async_idle ke" and "ke_async_queue ke = (u, d) # rest"
  shows "ke_async_queue (async_round ke) = rest" "\<not> ke_async_idle (async_round ke)" "ke_event_cb (async_round ke)"
    "async_events (async_round ke) = async_events ke @ [EvAsync u d]"
  using assms by (simp_all add: async_round_def idle_async_cb_def sig_async_cb_def emit_def [of _ "_ :: ksnetEvMgr"])
     (simp_all add: async_events_def List.map_filter_def)

definition post_events :: "(bytes \<times> nat) list \<Rightarrow> ksnetEvMgr \<Rightarrow> ksnetEvMgr" where
  "post_events evs ke = fold (\<lambda>(d, u). ksnetEvMgrAsync d u) evs ke"

lemma async_post:
  "ke_async_queue (ksnetEvMgrAsync d u ke) = ke_async_queue ke @ [(u, d)]"
  "ke_event_cb (ksnetEvMgrAsync d u ke) = ke_event_cb ke" "ke_async_idle (ksnetEvMgrAsync d u ke) = ke_async_idle ke"
  "async_events (ksnetEvMgrAsync d u ke) = async_events ke"
  by (simp_all add: ksnetEvMgrAsync_def List.map_filter_def) (simp_all add: emit_def)

lemma post_events_fields:
  "ke_async_queue (post_events evs ke) = ke_async_queue ke @ map (\<lambda>(d, u). (u, d)) evs"
  "ke_event_cb (post_events evs ke) = ke_event_cb ke" "ke_async_idle (post_events evs ke) = ke_async_idle ke"
  "async_events (post_events evs ke) = async_events ke"
  unfolding post_events_def
  by (induction evs arbitrary: ke) (simp_all add: async_post split_def)

lemma async_rounds:
  assumes "ke_event_cb ke" and "\<not> ke_async_idle ke"
  shows "async_events ((async_round ^^ length (ke_async_queue ke)) ke) =
      async_events ke @ map (\<lambda>(u, d). EvAsync u d) (ke_async_queue ke) \<and>
    ke_async_queue ((async_round ^^ length (ke_async_queue ke)) ke) = []"
  using assms
proof (induction "ke_async_queue ke" arbitrary: ke)
  case (Cons e rest)
  obtain u d where e: "e = (u, d)" by fastforce
  have q: "ke_async_queue ke = (u, d) # rest" using Cons.hyps(2) e by simp
  note step = async_round_step [OF Cons.prems q]
  have "(async_round ^^ length (ke_async_queue ke)) ke = (async_round ^^ length rest) (async_round ke)"
    unfolding q by (simp only: list.size funpow_Suc_right comp_apply add_Suc_right add_0_right)
  then show ?case using Cons.hyps(1) [OF step(1) [symmetric] step(3,2)] step(1,4) q by simp
qed simp

text \<open>
  Asynchronous events reach the application once each and in the order they were posted: posting a
  list of events and as many rounds of the loop calls the application's callback with exactly those
  events, in order, and empties the queue.
\<close>

theorem async_in_order:
  assumes "ke_event_cb ke" and "\<not> ke_async_idle ke" and "ke_async_queue ke = []"
  shows "async_events ((async_round ^^ length evs) (post_events evs ke)) = async_events ke @ map (\<lambda>(d, u). EvAsync u d) evs \<and>
    ke_async_queue ((async_round ^^ length evs) (post_events evs ke)) = []"
proof -
  have q: "ke_async_queue (post_events evs ke) = map (\<lambda>(d, u). (u, d)) evs"
    using assms(3) by (simp add: post_events_fields)
  have "(\<lambda>(u, d). EvAsync u d) \<circ> (\<lambda>(d, u). (u, d)) = (\<lambda>(d, u). EvAsync u d)" by auto
  then show ?thesis
    using async_rounds [of "post_events evs ke"] assms(1,2) post_events_fields(2-4) [of evs ke] q by simp
qed

theorem async_in_order_witness:
  "async_events ((async_round ^^ 2) (post_events [([1], 7), ([2], 8)] (exampleNode [97]))) = [EvAsync 7 [1], EvAsync 8 [2]]"
  using async_in_order [of "exampleNode [97]" "[([1], 7), ([2], 8)]"]
  by (simp add: exampleNode_def async_events_def List.map_filter_def numeral_2_eq_2)

section \<open>A peer that was restarted\<close>

text \<open>
  When a peer was restarted or a channel to it was reset, the node forgets the peer with that
  address and no other, and never its own record.
\<close>

theorem reset_forgets_peer:
  assumes "arp_wf ke"
  shows "ksnetArpGet (trudp_event_cb n addr port GOT_RESET ke) x =
    (case ksnetArpFindByAddr ke addr port of
       None \<Rightarrow> ksnetArpGet ke x
     | Some (name, arp) \<Rightarrow> if 0 \<le> arp_mode arp \<and> x = name then None else ksnetArpGet ke x)"
proof (cases "ksnetArpFindByAddr ke addr port")
  case (Some na)
  obtain name arp where na: "na = (name, arp)" by fastforce
  have z: "0 \<notin> set name"
    using Some na arp_find_name by simp
  show ?thesis
    using Some na remove_peer_view(1) [OF z, of arp ke]
    by (simp add: trudp_event_cb_def remove_peer_addr_def ksnetArpGet_def remove_facts(1))
qed (simp add: trudp_event_cb_def remove_peer_addr_def)

theorem reset_forgets_peer_witness: "ksnetArpGet (trudp_event_cb 1 [49] 9010 GOT_RESET silent_node) [98] = None"
proof -
  have get: "ksnetArpGet silent_node n = (if n = [98] then Some (arp_zero\<lparr>arp_addr := [49], arp_port := 9010, arp_last_activity := 80\<rparr>) else None)" for n
    unfolding silent_node_def by (subst arp_get_add) (simp_all add: exampleNode_def, simp add: ksnetArpGet_def map_simps)
  obtain name arp where f: "ksnetArpFindByAddr silent_node [49] 9010 = Some (name, arp)"
  proof (cases "ksnetArpFindByAddr silent_node [49] 9010")
    case None
    have "pblMapGet (ka silent_node) (strz [98]) = Some (arp_zero\<lparr>arp_addr := [49], arp_port := 9010, arp_last_activity := 80\<rparr>)"
      using get [of "[98]"] by (simp add: ksnetArpGet_def)
    then have "find (\<lambda>(key :: bytes, arp). addr_port_equal [49] 9010 (arp_addr arp) (arp_port arp)) (pblMapEntries (ka silent_node)) \<noteq> None"
      by (auto simp: pm.search_None addr_port_equal_def intro!: exI [of _ "strz [98]"])
    then show ?thesis using None by (auto simp: arp_find_eq split: prod.splits)
  qed auto
  obtain key where "pblMapGet (ka silent_node) key = Some arp" "name = cstr key"
    using f by (auto simp: arp_find_eq dest: pm.search_Some split: option.splits)
  moreover have "key = strz (cstr key)" using arp_wf_key [OF silent_node_dead(1) calculation(1)] by simp
  ultimately have "ksnetArpGet silent_node name = Some arp" by (simp add: ksnetArpGet_def)
  then have "name = [98]" "arp_mode arp = 0" using get [of name] by (auto simp: arp_zero_def split: if_splits)
  then show ?thesis
    using reset_forgets_peer [OF silent_node_dead(1), of 1 "[49]" 9010 "[98]"] f by simp
qed

end
