(* ===== verification/AsyncCalls.thy ===== *)
theory AsyncCalls
  imports EventLoop
begin

text \<open>
  Calls from other threads (modules/async_calls.c). Libev may only be used by the thread of the event
  loop, so a call from another thread is put into a buffer and posted as an asynchronous event; the
  module's event callback takes the buffer apart and makes the call. In the multi-thread mode the
  caller waits for the result and tries again while the send queue of the peer's channel is long.
\<close>

section \<open>The buffers\<close>

definition KSN_CORE_SEND_CMD_TO :: u8 where "KSN_CORE_SEND_CMD_TO = 1"
definition TEO_SSCR_SEND :: u8 where "TEO_SSCR_SEND = 2"
definition SEND_CMD_ANSWER_TO :: u8 where "SEND_CMD_ANSWER_TO = 3"
definition TEO_SSCR_SUBSCRIBE :: u8 where "TEO_SSCR_SUBSCRIBE = 4"

lemmas async_func_defs = KSN_CORE_SEND_CMD_TO_def TEO_SSCR_SEND_def SEND_CMD_ANSWER_TO_def TEO_SSCR_SUBSCRIBE_def

text \<open>Lengths of strings with their zero are 8-bit fields, and so many bytes are copied.\<close>

definition async_length :: "bytes \<Rightarrow> u8" where "async_length s = of_nat (length s + 1)"
definition async_text :: "bytes \<Rightarrow> bytes" where "async_text s = take (unat (async_length s)) (strz s)"

definition async_send_cmd :: "bytes \<Rightarrow> u8 \<Rightarrow> bytes \<Rightarrow> bytes" where
  "async_send_cmd peer cmd data = [KSN_CORE_SEND_CMD_TO, cmd, async_length peer] @ async_text peer @ data"

definition async_sscr_send :: "u16 \<Rightarrow> bytes \<Rightarrow> u8 \<Rightarrow> bytes" where
  "async_sscr_send event data cmd = [TEO_SSCR_SEND, cmd] @ enc_u16 event @ data"

definition async_answer :: "ksnCorePacketData \<Rightarrow> u8 \<Rightarrow> bytes \<Rightarrow> bytes" where
  "async_answer rd cmd data =
     [SEND_CMD_ANSWER_TO, cmd, if rd_l0_f rd then 1 else 0, async_length (rd_addr rd), of_nat (length (rd_from rd))] @
     async_text (rd_addr rd) @ rd_from rd @ enc_u32 (of_int (rd_port rd)) @ data"

definition async_subscribe :: "bytes \<Rightarrow> u16 \<Rightarrow> bytes" where
  "async_subscribe peer ev = [TEO_SSCR_SUBSCRIBE, 0, async_length peer] @ enc_u16 ev @ async_text peer"

section \<open>The calls\<close>

text \<open>\<open>other\<close>: the caller is not the thread of the event loop.\<close>

definition ksnCoreSendCmdtoA :: "bool \<Rightarrow> bytes \<Rightarrow> u8 \<Rightarrow> bytes \<Rightarrow> nat \<Rightarrow> ksnetEvMgr \<Rightarrow> ksnetEvMgr" where
  "ksnCoreSendCmdtoA other peer cmd data ud ke =
     (if other then ksnetEvMgrAsync (async_send_cmd peer cmd data) ud ke else snd (ksnCoreSendCmdto peer cmd data ke))"

definition teoSScrSendA :: "bool \<Rightarrow> u16 \<Rightarrow> bytes \<Rightarrow> u8 \<Rightarrow> nat \<Rightarrow> ksnetEvMgr \<Rightarrow> ksnetEvMgr" where
  "teoSScrSendA other event data cmd ud ke =
     (if other then ksnetEvMgrAsync (async_sscr_send event data cmd) ud ke else teoSScrSend event data cmd ke)"

definition sendCmdAnswerToBinaryA :: "bool \<Rightarrow> ksnCorePacketData \<Rightarrow> u8 \<Rightarrow> bytes \<Rightarrow> nat \<Rightarrow> ksnetEvMgr \<Rightarrow> ksnetEvMgr" where
  "sendCmdAnswerToBinaryA other rd cmd data ud ke =
     (if other then ksnetEvMgrAsync (async_answer rd cmd data) ud ke
      else if rd_l0_f rd then snd (ksnLNullSendToL0 (rd_addr rd) (rd_port rd) (rd_from rd) cmd data ke)
      else snd (ksnCoreSendto (rd_addr rd) (rd_port rd) cmd data ke))"

definition teoSScrSubscribeA :: "bool \<Rightarrow> bytes \<Rightarrow> u16 \<Rightarrow> nat \<Rightarrow> ksnetEvMgr \<Rightarrow> ksnetEvMgr" where
  "teoSScrSubscribeA other peer ev ud ke =
     (if other then ksnetEvMgrAsync (async_subscribe peer ev) ud ke else teoSScrSubscribe peer ev ke)"

section \<open>Handling in the event loop\<close>

definition SEND_IF :: int where "SEND_IF = 64"
definition CHSQ_WRONG_REQUEST :: int where "CHSQ_WRONG_REQUEST = -2"
definition CHSQ_WRONG_PEER :: int where "CHSQ_WRONG_PEER = -3"
definition CHSQ_WRONG_ADDRESS :: int where "CHSQ_WRONG_ADDRESS = -4"
definition CHSQ_TIMEOUT :: int where "CHSQ_TIMEOUT = -5"

lemmas CHSQ_defs = SEND_IF_def CHSQ_WRONG_REQUEST_def CHSQ_WRONG_PEER_def CHSQ_WRONG_ADDRESS_def CHSQ_TIMEOUT_def

text \<open>\<open>sq\<close>: the length of the send queue of the TR-UDP channel of an address.\<close>

definition check_send_queue :: "(bytes \<Rightarrow> int \<Rightarrow> nat) \<Rightarrow> bytes option \<Rightarrow> bytes option \<Rightarrow> int \<Rightarrow> ksnetEvMgr \<Rightarrow> int" where
  "check_send_queue sq peer addr port ke =
     (case (case (peer, addr) of
              (Some p, None) \<Rightarrow>
                (case ksnetArpGet ke p of
                   Some arp \<Rightarrow> (0, Some (arp_addr arp), arp_port arp)
                 | None \<Rightarrow> (CHSQ_WRONG_PEER, None, port))
            | _ \<Rightarrow> (0, addr, port)) of
        (rv, Some a, p) \<Rightarrow> (case ke_channels ke a p of Some tcd \<Rightarrow> int (sq a p) | None \<Rightarrow> CHSQ_WRONG_ADDRESS)
      | (rv, None, p) \<Rightarrow> if rv = 0 then CHSQ_WRONG_REQUEST else rv)"

definition send_condition :: "int \<Rightarrow> bool" where
  "send_condition rv \<longleftrightarrow> (rv \<ge> 0 \<or> rv = CHSQ_WRONG_PEER) \<and> rv < SEND_IF"

text \<open>The calls in a buffer: the result for the caller, none for an unknown function, and the node.\<close>

definition async_func :: "bool \<Rightarrow> (bytes \<Rightarrow> int \<Rightarrow> nat) \<Rightarrow> bytes \<Rightarrow> ksnetEvMgr \<Rightarrow> int option \<times> ksnetEvMgr" where
  "async_func multi sq data ke =
     (let f_type = byte_at data 0; cmd = byte_at data 1;
          guarded = (\<lambda>rv ke'. (Some rv, if \<not> multi \<or> send_condition rv then ke' else ke))
      in if f_type = KSN_CORE_SEND_CMD_TO
         then let peer_length = unat (byte_at data 2); peer = cstr (drop 3 data)
              in guarded (check_send_queue sq (Some peer) None 0 ke)
                   (snd (ksnCoreSendCmdto peer cmd (drop (3 + peer_length) data) ke))
         else if f_type = TEO_SSCR_SEND
         then (Some 0, teoSScrSend (dec_u16 (drop 2 data)) (drop 4 data) cmd ke)
         else if f_type = SEND_CMD_ANSWER_TO
         then let l0_f = byte_at data 2; addr_length = unat (byte_at data 3); from_length = unat (byte_at data 4);
                  addr = cstr (drop 5 data); from = take from_length (drop (5 + addr_length) data);
                  rest = drop (5 + addr_length + from_length) data;
                  port = sint (dec_u32 rest); d = drop 4 rest
              in guarded (check_send_queue sq None (Some addr) port ke)
                   (if l0_f \<noteq> 0 then snd (ksnLNullSendToL0 addr port from cmd d ke) else snd (ksnCoreSendto addr port cmd d ke))
         else if f_type = TEO_SSCR_SUBSCRIBE
         then let peer = cstr (drop 5 data)
              in guarded (check_send_queue sq (Some peer) None 0 ke) (teoSScrSubscribe peer (dec_u16 (drop 3 data)) ke)
         else (None, ke))"

text \<open>
  The module's event callback for an asynchronous event: \<open>ours\<close> when the user data has the module's
  label. Without data it is the question whether there are threads at all, which sets the result to 0
  in the multi-thread mode. What the module does not process goes to the application's callback.
\<close>

definition async_event_cb :: "bool \<Rightarrow> (bytes \<Rightarrow> int \<Rightarrow> nat) \<Rightarrow> bool \<Rightarrow> bytes option \<Rightarrow> nat \<Rightarrow> ksnetEvMgr \<Rightarrow> int option \<times> ksnetEvMgr" where
  "async_event_cb multi sq ours data ud ke =
     (let parent = (\<lambda>k. event_cb EV_K_ASYNC (EvAsync ud (case data of None \<Rightarrow> [] | Some d \<Rightarrow> d)) k)
      in if ours
         then case data of
                None \<Rightarrow> (if multi then Some 0 else None, ke)
              | Some d \<Rightarrow> if length d > 2
                          then (case async_func multi sq d ke of (None, ke1) \<Rightarrow> (None, parent ke1) | (Some rv, ke1) \<Rightarrow> (Some rv, ke1))
                          else (None, parent ke)
         else (None, parent ke))"

text \<open>
  The loop of a waiting caller and the thread of the event loop, one action of either at a time. The
  caller posts its buffer and waits; when the wait ends, because the handler has signalled or the time is
  over, a result that is still \<open>CHSQ_TIMEOUT\<close> ends the multi-thread mode; then the loop is left or the
  buffer is posted once more. The result is set to \<open>CHSQ_TIMEOUT\<close> only once, before the loop.
  \<open>ac_pending\<close> are the posted events the node has not handled (their queue is in EventLoop), \<open>ac_freed\<close>
  whether the record with the result has been freed: by the caller in the multi-thread mode, by the
  handler otherwise. Reading a freed record is a fault. Between, the node does anything else (\<open>AsyncOther\<close>).
\<close>

datatype async_phase = AsyncPost | AsyncWait | AsyncTest | AsyncDone int

record async_caller =
  ac_phase :: async_phase
  ac_rv :: int
  ac_pending :: nat
  ac_multi :: bool
  ac_freed :: bool
  ac_fault :: bool
  ac_ke :: ksnetEvMgr

datatype async_turn = AsyncCaller | AsyncHandler "bytes \<Rightarrow> int \<Rightarrow> nat" | AsyncOther "ksnetEvMgr \<Rightarrow> ksnetEvMgr"

definition async_start :: "bool \<Rightarrow> ksnetEvMgr \<Rightarrow> async_caller" where
  "async_start multi ke = \<lparr>ac_phase = AsyncPost, ac_rv = CHSQ_TIMEOUT, ac_pending = 0, ac_multi = multi,
     ac_freed = False, ac_fault = False, ac_ke = ke\<rparr>"

definition send_async_caller :: "async_caller \<Rightarrow> async_caller" where
  "send_async_caller c =
     (case ac_phase c of
        AsyncPost \<Rightarrow> c\<lparr>ac_phase := AsyncWait, ac_pending := ac_pending c + 1\<rparr>
      | AsyncWait \<Rightarrow>
          c\<lparr>ac_phase := AsyncTest, ac_fault := ac_fault c \<or> ac_multi c \<and> ac_freed c,
            ac_multi := ac_multi c \<and> ac_rv c \<noteq> CHSQ_TIMEOUT\<rparr>
      | AsyncTest \<Rightarrow>
          if ac_multi c \<and> (ac_rv c \<ge> SEND_IF \<or> ac_rv c = CHSQ_TIMEOUT) \<and> ke_run (ac_ke c)
          then c\<lparr>ac_phase := AsyncPost, ac_fault := ac_fault c \<or> ac_freed c\<rparr>
          else c\<lparr>ac_phase := AsyncDone (ac_rv c), ac_fault := ac_fault c \<or> ac_freed c, ac_freed := ac_freed c \<or> ac_multi c\<rparr>
      | AsyncDone r \<Rightarrow> c)"

definition send_async_handler :: "bytes \<Rightarrow> nat \<Rightarrow> (bytes \<Rightarrow> int \<Rightarrow> nat) \<Rightarrow> async_caller \<Rightarrow> async_caller" where
  "send_async_handler buf ud sq c =
     (if ac_pending c = 0 then c
      else if ac_freed c then c\<lparr>ac_pending := ac_pending c - 1, ac_fault := True\<rparr>
      else case async_event_cb (ac_multi c) sq True (Some buf) ud (ac_ke c) of
             (Some rv, ke) \<Rightarrow> c\<lparr>ac_pending := ac_pending c - 1, ac_rv := rv, ac_freed := \<not> ac_multi c, ac_ke := ke\<rparr>
           | (None, ke) \<Rightarrow> c\<lparr>ac_pending := ac_pending c - 1, ac_ke := ke\<rparr>)"

fun send_async :: "bytes \<Rightarrow> nat \<Rightarrow> async_turn list \<Rightarrow> async_caller \<Rightarrow> async_caller" where
  "send_async buf ud [] c = c"
| "send_async buf ud (AsyncCaller # ts) c = send_async buf ud ts (send_async_caller c)"
| "send_async buf ud (AsyncHandler sq # ts) c = send_async buf ud ts (send_async_handler buf ud sq c)"
| "send_async buf ud (AsyncOther f # ts) c = send_async buf ud ts (c\<lparr>ac_ke := f (ac_ke c)\<rparr>)"

section \<open>A call from another thread is the call\<close>

lemma async_text_parts:
  assumes "0 \<notin> set s" and "length s < 255"
  shows "async_text s = strz s" "unat (async_length s) = length s + 1" "cstr (async_text s @ x) = s" "cstr (async_text s) = s"
proof -
  show n: "unat (async_length s) = length s + 1" unfolding async_length_def by (rule u8_of_nat) (use assms(2) in simp)
  then show t: "async_text s = strz s" by (simp add: async_text_def strz_def)
  show "cstr (async_text s @ x) = s" "cstr (async_text s) = s" unfolding t using assms(1) by (simp_all add: cstr_strz_append cstr_strz)
qed

lemma byte_at_simps: "byte_at (x # xs) 0 = x" "byte_at (x # xs) (Suc n) = byte_at xs n"
  by (simp_all add: byte_at_def)

lemma drop_front: "n = length xs \<Longrightarrow> drop n (xs @ ys) = ys"
  by simp

lemma async_send_cmd_func:
  assumes "0 \<notin> set peer" and "length peer < 255"
  shows "async_func multi sq (async_send_cmd peer cmd data) ke =
    (Some (check_send_queue sq (Some peer) None 0 ke),
     if \<not> multi \<or> send_condition (check_send_queue sq (Some peer) None 0 ke)
     then snd (ksnCoreSendCmdto peer cmd data ke) else ke)"
proof -
  note t = async_text_parts [OF assms]
  have "drop (3 + (length peer + 1)) (async_send_cmd peer cmd data) = data"
    unfolding async_send_cmd_def t(1) append_assoc [symmetric] by (rule drop_front) (simp add: strz_def)
  moreover have "cstr (drop 3 (async_send_cmd peer cmd data)) = peer" by (simp add: async_send_cmd_def t(3))
  moreover have "byte_at (async_send_cmd peer cmd data) 0 = KSN_CORE_SEND_CMD_TO" "byte_at (async_send_cmd peer cmd data) 1 = cmd"
    "unat (byte_at (async_send_cmd peer cmd data) 2) = length peer + 1"
    using t(2) by (simp_all add: async_send_cmd_def byte_at_simps numeral_2_eq_2)
  ultimately show ?thesis unfolding async_func_def Let_def by (simp only: if_True simp_thms)
qed

lemma async_sscr_send_func: "async_func multi sq (async_sscr_send event data cmd) ke = (Some 0, teoSScrSend event data cmd ke)"
proof -
  let ?b = "async_sscr_send event data cmd"
  have "byte_at ?b 0 = TEO_SSCR_SEND" "byte_at ?b 1 = cmd" by (simp_all add: async_sscr_send_def byte_at_simps)
  moreover have "drop 2 ?b = enc_u16 event @ data" by (simp add: async_sscr_send_def)
  moreover have "drop 4 ?b = data"
    unfolding async_sscr_send_def append_assoc [symmetric] by (rule drop_front) simp
  ultimately show ?thesis unfolding async_func_def Let_def by (simp add: async_func_defs dec_enc_u16)
qed

lemma async_subscribe_func:
  assumes "0 \<notin> set peer" and "length peer < 255"
  shows "async_func multi sq (async_subscribe peer ev) ke =
    (Some (check_send_queue sq (Some peer) None 0 ke),
     if \<not> multi \<or> send_condition (check_send_queue sq (Some peer) None 0 ke) then teoSScrSubscribe peer ev ke else ke)"
proof -
  note t = async_text_parts [OF assms]
  let ?b = "async_subscribe peer ev"
  have "byte_at ?b 0 = TEO_SSCR_SUBSCRIBE" by (simp add: async_subscribe_def byte_at_simps)
  moreover have "drop 3 ?b = enc_u16 ev @ async_text peer" by (simp add: async_subscribe_def)
  moreover have "drop 5 ?b = async_text peer"
    unfolding async_subscribe_def append_assoc [symmetric] by (rule drop_front) simp
  ultimately show ?thesis unfolding async_func_def Let_def by (simp add: async_func_defs dec_enc_u16 t(4))
qed

text \<open>The call a thread makes for an answer.\<close>

definition answer_call :: "ksnCorePacketData \<Rightarrow> u8 \<Rightarrow> bytes \<Rightarrow> ksnetEvMgr \<Rightarrow> ksnetEvMgr" where
  "answer_call rd cmd data ke =
     (if rd_l0_f rd then snd (ksnLNullSendToL0 (rd_addr rd) (rd_port rd) (rd_from rd) cmd data ke)
      else snd (ksnCoreSendto (rd_addr rd) (rd_port rd) cmd data ke))"

lemma async_answer_func:
  assumes "0 \<notin> set (rd_addr rd)" and "length (rd_addr rd) < 255" and "length (rd_from rd) < 256" and "int32 (rd_port rd)"
  shows "async_func multi sq (async_answer rd cmd data) ke =
    (Some (check_send_queue sq None (Some (rd_addr rd)) (rd_port rd) ke),
     if \<not> multi \<or> send_condition (check_send_queue sq None (Some (rd_addr rd)) (rd_port rd) ke)
     then answer_call rd cmd data ke else ke)"
proof -
  note t = async_text_parts [OF assms(1,2)]
  let ?b = "async_answer rd cmd data"
  let ?h = "[SEND_CMD_ANSWER_TO, cmd, if rd_l0_f rd then 1 else 0, async_length (rd_addr rd), of_nat (length (rd_from rd))] :: bytes"
  have fl: "unat (of_nat (length (rd_from rd)) :: u8) = length (rd_from rd)" by (rule u8_of_nat) (rule assms(3))
  have b: "?b = ((?h @ async_text (rd_addr rd)) @ rd_from rd) @ enc_u32 (of_int (rd_port rd)) @ data"
    by (simp add: async_answer_def)
  have len: "length (async_text (rd_addr rd)) = length (rd_addr rd) + 1" by (simp add: t(1) strz_def)
  have "byte_at ?b 0 = SEND_CMD_ANSWER_TO" "byte_at ?b 1 = cmd" "byte_at ?b 2 = (if rd_l0_f rd then 1 else 0)"
    "unat (byte_at ?b 3) = length (rd_addr rd) + 1" "unat (byte_at ?b 4) = length (rd_from rd)"
    using t(2) fl by (simp_all add: async_answer_def byte_at_simps eval_nat_numeral)
  moreover have "cstr (drop 5 ?b) = rd_addr rd"
    unfolding async_answer_def using drop_front [of 5 ?h] t(3) by simp
  moreover have "drop (5 + (length (rd_addr rd) + 1)) ?b = rd_from rd @ enc_u32 (of_int (rd_port rd)) @ data"
    unfolding b append_assoc [of _ "rd_from rd"] by (rule drop_front) (simp add: len)
  moreover have rest: "drop (5 + (length (rd_addr rd) + 1) + length (rd_from rd)) ?b = enc_u32 (of_int (rd_port rd)) @ data"
    unfolding b by (rule drop_front) (simp add: len)
  moreover have "drop 4 (enc_u32 (of_int (rd_port rd)) @ data) = data" by (rule drop_front) simp
  ultimately show ?thesis
    unfolding async_func_def Let_def answer_call_def
    by (simp add: async_func_defs dec_enc_u32 sint_int32 [OF assms(4)] del: drop_append)
qed

lemma async_buffer_long:
  "2 < length (async_send_cmd peer cmd data)" "2 < length (async_sscr_send event data cmd)"
  "2 < length (async_answer rd cmd data)" "2 < length (async_subscribe peer ev)"
  by (simp_all add: async_send_cmd_def async_sscr_send_def async_answer_def async_subscribe_def)

text \<open>What handling an event does with the call it carries.\<close>

definition async_guard :: "bool \<Rightarrow> int \<Rightarrow> (ksnetEvMgr \<Rightarrow> ksnetEvMgr) \<Rightarrow> ksnetEvMgr \<Rightarrow> int option \<times> ksnetEvMgr" where
  "async_guard multi rv call ke = (Some rv, if \<not> multi \<or> send_condition rv then call ke else ke)"

lemma send_condition_zero: "send_condition 0"
  by (simp add: send_condition_def SEND_IF_def)

text \<open>
  C24: a call from another thread whose event is handled by the event loop gets the length of the send
  queue, or an error code, as its result. Without the multi-thread mode its effect is exactly that of the
  call itself in the thread of the event loop; in the multi-thread mode this is so when the result lets
  it be sent, and otherwise the node is unchanged. Sending to the subscribers is never refused. The
  application's callback does not see the event. Names and addresses are shorter than 255 bytes, the
  limit of their length field.
\<close>

theorem async_call_is_call:
  assumes "0 \<notin> set peer" and "length peer < 255"
    and "0 \<notin> set (rd_addr rd)" and "length (rd_addr rd) < 255" and "length (rd_from rd) < 256" and "int32 (rd_port rd)"
  shows "async_event_cb multi sq True (Some (async_send_cmd peer cmd data)) ud ke =
      async_guard multi (check_send_queue sq (Some peer) None 0 ke) (ksnCoreSendCmdtoA False peer cmd data ud) ke \<and>
    async_event_cb multi sq True (Some (async_sscr_send event data cmd)) ud ke =
      async_guard multi 0 (teoSScrSendA False event data cmd ud) ke \<and>
    async_event_cb multi sq True (Some (async_answer rd cmd data)) ud ke =
      async_guard multi (check_send_queue sq None (Some (rd_addr rd)) (rd_port rd) ke) (sendCmdAnswerToBinaryA False rd cmd data ud) ke \<and>
    async_event_cb multi sq True (Some (async_subscribe peer ev)) ud ke =
      async_guard multi (check_send_queue sq (Some peer) None 0 ke) (teoSScrSubscribeA False peer ev ud) ke"
  using async_send_cmd_func [OF assms(1,2), of multi sq cmd data ke] async_sscr_send_func [of multi sq event data cmd ke]
    async_answer_func [OF assms(3-6), of multi sq cmd data ke] async_subscribe_func [OF assms(1,2), of multi sq ev ke]
  by (simp add: async_event_cb_def Let_def async_buffer_long ksnCoreSendCmdtoA_def teoSScrSendA_def sendCmdAnswerToBinaryA_def
      teoSScrSubscribeA_def answer_call_def async_guard_def send_condition_zero)

theorem async_call_is_call_witness:
  "snd (async_event_cb False (\<lambda>a p. 0) True (Some (async_send_cmd [98] 129 [1, 2])) 7 (exampleNode [97])) =
    snd (ksnCoreSendCmdto [98] 129 [1, 2] (exampleNode [97]))"
  using async_call_is_call [of "[98]" ksnCorePacketData_zero False "\<lambda>a p. 0" 129 "[1, 2]" 7 "exampleNode [97]"]
  by (simp add: ksnCorePacketData_zero_def int32_def ksnCoreSendCmdtoA_def async_guard_def)

section \<open>Waiting callers\<close>

lemma send_async_append: "send_async buf ud (s @ t) c = send_async buf ud t (send_async buf ud s c)"
  by (induction buf ud s c rule: send_async.induct) simp_all

text \<open>What the node does besides, and schedules in which no wait ends before its event is handled.\<close>

fun async_others :: "async_turn list \<Rightarrow> ksnetEvMgr \<Rightarrow> ksnetEvMgr" where
  "async_others [] ke = ke"
| "async_others (AsyncOther f # ts) ke = async_others ts (f ke)"
| "async_others (_ # ts) ke = async_others ts ke"

lemma async_others_append: "async_others (s @ t) ke = async_others t (async_others s ke)"
  by (induction s ke rule: async_others.induct) simp_all

fun in_time :: "bytes \<Rightarrow> nat \<Rightarrow> async_turn list \<Rightarrow> async_caller \<Rightarrow> bool" where
  "in_time buf ud [] c = True"
| "in_time buf ud (t # ts) c =
     ((case t of AsyncCaller \<Rightarrow> ac_phase c \<noteq> AsyncWait \<or> ac_pending c = 0 | _ \<Rightarrow> True) \<and>
      in_time buf ud ts (send_async buf ud [t] c))"

lemma in_time_append: "in_time buf ud (s @ t) c \<longleftrightarrow> in_time buf ud s c \<and> in_time buf ud t (send_async buf ud s c)"
proof (induction s arbitrary: c)
  case (Cons a s)
  show ?case using Cons send_async_append [of buf ud "[a]" s c] by simp
qed simp

text \<open>The call has been made once, with result \<open>r\<close>, or refused.\<close>

definition call_made :: "bytes \<Rightarrow> (ksnetEvMgr \<Rightarrow> ksnetEvMgr) \<Rightarrow> int \<Rightarrow> async_turn list \<Rightarrow> ksnetEvMgr \<Rightarrow> ksnetEvMgr \<Rightarrow> bool" where
  "call_made peer call r s ke ke' \<longleftrightarrow>
     (\<exists>s1 sq s2. s = s1 @ AsyncHandler sq # s2 \<and> check_send_queue sq (Some peer) None 0 (async_others s1 ke) = r \<and>
       ke' = async_others s2 (if send_condition r then call (async_others s1 ke) else async_others s1 ke))"

lemma call_made_later: "call_made peer call r s ke ke' \<Longrightarrow> call_made peer call r (s @ [t]) ke (async_others [t] ke')"
  unfolding call_made_def by (metis append_Cons append_assoc async_others_append)

lemma call_refused: "call_made peer call r s ke ke' \<Longrightarrow> \<not> send_condition r \<Longrightarrow> ke' = async_others s ke"
  by (auto simp: call_made_def async_others_append)

lemma check_send_queue_not_timeout: "check_send_queue sq peer addr port ke \<noteq> CHSQ_TIMEOUT"
  by (auto simp: check_send_queue_def CHSQ_defs split: option.split)

definition async_inv :: "bytes \<Rightarrow> (ksnetEvMgr \<Rightarrow> ksnetEvMgr) \<Rightarrow> ksnetEvMgr \<Rightarrow> async_turn list \<Rightarrow> async_caller \<Rightarrow> bool" where
  "async_inv peer call ke s c \<longleftrightarrow> \<not> ac_fault c \<and>
     (case ac_phase c of
        AsyncPost \<Rightarrow> ac_multi c \<and> \<not> ac_freed c \<and> ac_pending c = 0 \<and> ac_ke c = async_others s ke
      | AsyncWait \<Rightarrow> ac_multi c \<and> \<not> ac_freed c \<and>
          (ac_pending c = 1 \<and> ac_ke c = async_others s ke \<or> ac_pending c = 0 \<and> call_made peer call (ac_rv c) s ke (ac_ke c))
      | AsyncTest \<Rightarrow> ac_multi c \<and> \<not> ac_freed c \<and> ac_pending c = 0 \<and> call_made peer call (ac_rv c) s ke (ac_ke c)
      | AsyncDone r \<Rightarrow> ac_pending c = 0 \<and> call_made peer call r s ke (ac_ke c))"

lemma call_made_not_timeout: "call_made peer call r s ke ke' \<Longrightarrow> r \<noteq> CHSQ_TIMEOUT"
  by (auto simp: call_made_def check_send_queue_not_timeout)

lemma async_inv_caller:
  assumes i: "async_inv peer call ke s c" and t: "ac_phase c \<noteq> AsyncWait \<or> ac_pending c = 0"
  shows "async_inv peer call ke (s @ [AsyncCaller]) (send_async_caller c)"
proof -
  note m = call_made_later [of peer call _ s ke _ AsyncCaller, simplified]
  have o: "async_others (s @ [AsyncCaller]) ke = async_others s ke" by (simp add: async_others_append)
  show ?thesis
  proof (cases "ac_phase c")
    case AsyncTest
    then have made: "call_made peer call (ac_rv c) s ke (ac_ke c)" using i by (simp add: async_inv_def)
    note n = call_made_not_timeout [OF made]
    have "ac_rv c \<ge> SEND_IF \<Longrightarrow> ac_ke c = async_others s ke"
      by (rule call_refused [OF made]) (simp add: send_condition_def)
    then show ?thesis using i AsyncTest made n m by (auto simp: async_inv_def send_async_caller_def o)
  next
    case AsyncWait
    with i t have made: "call_made peer call (ac_rv c) s ke (ac_ke c)" by (auto simp: async_inv_def)
    then show ?thesis using i t AsyncWait m call_made_not_timeout [OF made]
      by (auto simp: async_inv_def send_async_caller_def)
  qed (use i m in \<open>auto simp: async_inv_def send_async_caller_def o\<close>)
qed

lemma async_inv_handler:
  assumes i: "async_inv peer call ke s c"
    and f: "\<And>k. async_event_cb True sq True (Some buf) ud k = async_guard True (check_send_queue sq (Some peer) None 0 k) call k"
  shows "async_inv peer call ke (s @ [AsyncHandler sq]) (send_async_handler buf ud sq c)"
proof (cases "ac_pending c = 0")
  case True
  then show ?thesis using i call_made_later [of peer call _ s ke _ "AsyncHandler sq", simplified]
    by (auto simp: async_inv_def send_async_handler_def async_others_append split: async_phase.splits)
next
  case False
  let ?r = "check_send_queue sq (Some peer) None 0 (ac_ke c)"
  from i False have w: "ac_phase c = AsyncWait" "ac_pending c = 1" "ac_multi c" "\<not> ac_freed c" "\<not> ac_fault c"
    and k: "ac_ke c = async_others s ke"
    by (auto simp: async_inv_def split: async_phase.splits)
  have "call_made peer call ?r (s @ [AsyncHandler sq]) ke (if send_condition ?r then call (ac_ke c) else ac_ke c)"
    unfolding call_made_def k by (intro exI [of _ s] exI [of _ sq] exI [of _ "[]"]) simp
  then show ?thesis using w by (simp add: async_inv_def send_async_handler_def f async_guard_def)
qed

lemma async_inv_other:
  "async_inv peer call ke s c \<Longrightarrow> async_inv peer call ke (s @ [AsyncOther f]) (c\<lparr>ac_ke := f (ac_ke c)\<rparr>)"
  using call_made_later [of peer call _ s ke _ "AsyncOther f", simplified]
  by (auto simp: async_inv_def async_others_append split: async_phase.splits)

lemma async_inv_run:
  assumes f: "\<And>sq k. async_event_cb True sq True (Some buf) ud k = async_guard True (check_send_queue sq (Some peer) None 0 k) call k"
    and "in_time buf ud s (async_start True ke)"
  shows "async_inv peer call ke s (send_async buf ud s (async_start True ke))"
  using assms(2)
proof (induction s rule: rev_induct)
  case (snoc t s)
  then have i: "async_inv peer call ke s (send_async buf ud s (async_start True ke))" by (simp add: in_time_append)
  show ?case
  proof (cases t)
    case AsyncCaller
    then show ?thesis using async_inv_caller [OF i] snoc.prems by (simp add: in_time_append send_async_append)
  next
    case (AsyncHandler sq)
    then show ?thesis using async_inv_handler [OF i f] by (simp add: send_async_append)
  next
    case (AsyncOther f)
    then show ?thesis using async_inv_other [OF i] by (simp add: send_async_append)
  qed
qed (simp add: async_inv_def async_start_def)

text \<open>The handling of the buffer of a send to a peer.\<close>

lemma async_send_event:
  assumes "0 \<notin> set peer" and "length peer < 255"
  shows "async_event_cb multi sq True (Some (async_send_cmd peer cmd data)) ud k =
    async_guard multi (check_send_queue sq (Some peer) None 0 k) (\<lambda>k. snd (ksnCoreSendCmdto peer cmd data k)) k"
  using async_send_cmd_func [OF assms, of multi sq cmd data k]
  by (simp add: async_event_cb_def async_buffer_long async_guard_def)

text \<open>
  C25: in the multi-thread mode, whatever the order in which the waiting thread, the event loop and the
  rest of the node run, as long as no wait ends before its event is handled: when the thread's loop has
  ended with result \<open>r\<close>, none of its events is left, freed memory has not been read, and the send to the
  peer has been made exactly once, at one handling of an event, in the node as it was there and with \<open>r\<close>
  as the length of the peer's queue then, if \<open>r\<close> lets it be sent, and not at all otherwise. (What happens
  when a wait does end early is shown by the lemmas below.)
\<close>

theorem send_async_once:
  assumes "0 \<notin> set peer" and "length peer < 255"
    and "in_time (async_send_cmd peer cmd data) ud s (async_start True ke)"
    and "c = send_async (async_send_cmd peer cmd data) ud s (async_start True ke)" and "ac_phase c = AsyncDone r"
  shows "ac_pending c = 0 \<and> \<not> ac_fault c \<and>
    (\<exists>s1 sq s2. s = s1 @ AsyncHandler sq # s2 \<and> check_send_queue sq (Some peer) None 0 (async_others s1 ke) = r \<and>
      ac_ke c = async_others s2 (if send_condition r then snd (ksnCoreSendCmdto peer cmd data (async_others s1 ke))
                                 else async_others s1 ke))"
proof -
  have "async_inv peer (\<lambda>k. snd (ksnCoreSendCmdto peer cmd data k)) ke s c"
    unfolding assms(4) by (rule async_inv_run [OF async_send_event [OF assms(1,2)] assms(3)])
  then show ?thesis using assms(5) by (simp add: async_inv_def call_made_def)
qed

definition async_node :: ksnetEvMgr where
  "async_node = (ksnetArpAdd [98] (arp_zero\<lparr>arp_addr := [49], arp_port := 9010\<rparr>) (exampleNode [97]))
     \<lparr>ke_channels := (\<lambda>a p. Some \<lparr>tcd_fd = 0, tcd_read_buffer = [], tcd_last_packet_ptr = 0\<rparr>)\<rparr>"

lemma async_node_get: "ksnetArpGet async_node [98] = Some (arp_zero\<lparr>arp_addr := [49], arp_port := 9010\<rparr>)"
  by (simp add: async_node_def ksnetArpGet_def ksnetArpAdd_def pblMapAdd_def exampleNode_def map_simps room1)

lemma async_node_queue: "check_send_queue (\<lambda>a p. n) (Some [98]) None 0 async_node = int n"
  by (simp add: check_send_queue_def async_node_get) (simp add: async_node_def)

lemma async_node_run: "ke_run async_node"
  by (simp add: async_node_def ksnetArpAdd_def exampleNode_def)

lemma async_node_event:
  "async_event_cb multi (\<lambda>a p. n) True (Some (async_send_cmd [98] 129 [1, 2])) 7 async_node =
    (Some (int n), if \<not> multi \<or> n < 64 then snd (ksnCoreSendCmdto [98] 129 [1, 2] async_node) else async_node)"
  by (simp add: async_send_event async_node_queue async_guard_def send_condition_def SEND_IF_def)

text \<open>Two rounds: the queue is long in the first and short in the second.\<close>

abbreviation "two_rounds \<equiv> [AsyncCaller, AsyncHandler (\<lambda>a p. 64), AsyncCaller, AsyncCaller,
  AsyncCaller, AsyncHandler (\<lambda>a p. 3), AsyncCaller, AsyncCaller]"

lemmas send_async_simps = async_start_def send_async_caller_def send_async_handler_def async_node_event async_node_run CHSQ_defs

lemma two_rounds_end: "ac_phase (send_async (async_send_cmd [98] 129 [1, 2]) 7 two_rounds (async_start True async_node)) = AsyncDone 3"
  by (simp add: send_async_simps)

theorem send_async_once_witness:
  "ac_pending (send_async (async_send_cmd [98] 129 [1, 2]) 7 two_rounds (async_start True async_node)) = 0"
proof -
  have t: "in_time (async_send_cmd [98] 129 [1, 2]) 7 two_rounds (async_start True async_node)"
    by (simp add: send_async_simps)
  show ?thesis using send_async_once [OF _ _ t refl two_rounds_end] by simp
qed

section \<open>Waits that end too early\<close>

text \<open>
  A first wait that ends before its event is handled: the caller gets \<open>CHSQ_TIMEOUT\<close>, the mode is left,
  and the event, handled later, makes the call all the same.
\<close>

lemma send_async_late:
  "send_async (async_send_cmd [98] 129 [1, 2]) 7 [AsyncCaller, AsyncCaller, AsyncCaller, AsyncHandler (\<lambda>a p. n)] (async_start True async_node) =
    \<lparr>ac_phase = AsyncDone CHSQ_TIMEOUT, ac_rv = int n, ac_pending = 0, ac_multi = False, ac_freed = True, ac_fault = False,
     ac_ke = snd (ksnCoreSendCmdto [98] 129 [1, 2] async_node)\<rparr>"
  by (simp add: send_async_simps)

text \<open>
  The result keeps the long queue of an earlier round, so a wait that ends too early in a later round is
  not noticed: the buffer is posted once more, and both events send.
\<close>

lemma ksnCoreSendto_peers:
  "ke_channels (snd (ksnCoreSendto addr port cmd data ke)) = ke_channels ke"
  "ksnetArpGet (snd (ksnCoreSendto addr port cmd data ke)) = ksnetArpGet ke"
  "ke_run (snd (ksnCoreSendto addr port cmd data ke)) = ke_run ke"
  by (simp_all add: ksnCoreSendto_def ksnCoreSetEventTime_def emit_def ksnetArpGet_def fun_eq_iff Let_def split: prod.split)

lemma check_send_queue_sent:
  "check_send_queue sq (Some peer) None 0 (snd (ksnCoreSendto addr port cmd data ke)) = check_send_queue sq (Some peer) None 0 ke"
  unfolding check_send_queue_def ksnCoreSendto_peers ..

lemma send_async_twice_run:
  assumes "async_event_cb True (\<lambda>a p. 64) True (Some buf) ud k0 = (Some 64, k0)" and "ke_run k0"
    and "async_event_cb True (\<lambda>a p. 3) True (Some buf) ud k0 = (Some 3, k1)"
    and "async_event_cb True (\<lambda>a p. 3) True (Some buf) ud k1 = (Some 3, k2)"
  shows "send_async buf ud
      [AsyncCaller, AsyncHandler (\<lambda>a p. 64), AsyncCaller, AsyncCaller, AsyncCaller, AsyncCaller, AsyncCaller,
       AsyncCaller, AsyncHandler (\<lambda>a p. 3), AsyncHandler (\<lambda>a p. 3), AsyncCaller, AsyncCaller] (async_start True k0) =
    \<lparr>ac_phase = AsyncDone 3, ac_rv = 3, ac_pending = 0, ac_multi = True, ac_freed = True, ac_fault = False, ac_ke = k2\<rparr>"
  using assms by (simp add: async_start_def send_async_caller_def send_async_handler_def CHSQ_defs)

lemma send_async_twice:
  "send_async (async_send_cmd [98] 129 [1, 2]) 7
      [AsyncCaller, AsyncHandler (\<lambda>a p. 64), AsyncCaller, AsyncCaller, AsyncCaller, AsyncCaller, AsyncCaller,
       AsyncCaller, AsyncHandler (\<lambda>a p. 3), AsyncHandler (\<lambda>a p. 3), AsyncCaller, AsyncCaller] (async_start True async_node) =
    \<lparr>ac_phase = AsyncDone 3, ac_rv = 3, ac_pending = 0, ac_multi = True, ac_freed = True, ac_fault = False,
     ac_ke = snd (ksnCoreSendCmdto [98] 129 [1, 2] (snd (ksnCoreSendCmdto [98] 129 [1, 2] async_node)))\<rparr>"
proof (rule send_async_twice_run)
  let ?k = "snd (ksnCoreSendCmdto [98] 129 [1, 2] async_node)"
  have "check_send_queue (\<lambda>a p. 3) (Some [98]) None 0 ?k = check_send_queue (\<lambda>a p. 3) (Some [98]) None 0 async_node"
    unfolding ksnCoreSendCmdto_def async_node_get option.case snd_conv by (rule check_send_queue_sent)
  then show "async_event_cb True (\<lambda>a p. 3) True (Some (async_send_cmd [98] 129 [1, 2])) 7 ?k =
      (Some 3, snd (ksnCoreSendCmdto [98] 129 [1, 2] ?k))"
    by (simp only: async_send_event async_guard_def async_node_queue) (simp add: async_send_event async_guard_def send_condition_def SEND_IF_def async_node_queue)
qed (simp_all add: async_node_event async_node_run)

text \<open>
  Without the multi-thread mode the handler frees the record with the result, and a caller that has not
  yet read it reads freed memory.
\<close>

lemma send_async_freed:
  "ac_fault (send_async (async_send_cmd [98] 129 [1, 2]) 7 [AsyncCaller, AsyncHandler (\<lambda>a p. n), AsyncCaller, AsyncCaller] (async_start False async_node))"
  by (simp add: send_async_simps)

end
