(* ===== verification/TcpProxy.thy ===== *)
theory TcpProxy
  imports EventLoop "HOL-Library.Sublist"
begin

text \<open>
  The TCP proxy (modules/tcp_proxy.c): a host that cannot send UDP sends its packets over a TCP
  connection to a proxy, which sends them from a UDP port of its own and returns what arrives there.
  The packet format with its parser, the clients of the server, and the client. The proxy's calls of the
  system are effects of its own; the byte checksum is the teocli library's. A record of the map is
  under its TCP and under its UDP descriptor.
\<close>

section \<open>Packets\<close>

definition KSN_BUFFER_DB_SIZE :: nat where "KSN_BUFFER_DB_SIZE = 2048"
definition CMD_TCPP_PROXY :: u8 where "CMD_TCPP_PROXY = 0"
definition TCPP_HEADER_SIZE :: nat where "TCPP_HEADER_SIZE = 8"

text \<open>\<open>ksnTCPProxyHeader\<close> in memory: checksum, version and command in four bits each, port, packet length,
  address length, header checksum. The first checksum is over all bytes after it, the second over those
  between the two.\<close>

definition th_checksum :: "bytes \<Rightarrow> u8" where "th_checksum b = byte_at b 0"
definition th_command :: "bytes \<Rightarrow> u8" where "th_command b = drop_bit 4 (byte_at b 1)"
definition th_port :: "bytes \<Rightarrow> u16" where "th_port b = dec_u16 (drop 2 b)"
definition th_packet_length :: "bytes \<Rightarrow> nat" where "th_packet_length b = unat (dec_u16 (drop 4 b))"
definition th_addr_length :: "bytes \<Rightarrow> nat" where "th_addr_length b = unat (byte_at b 6)"
definition th_packet_checksum :: "bytes \<Rightarrow> u8" where "th_packet_checksum b = byte_at b 7"

definition tcpp_fields :: "bytes \<Rightarrow> int \<Rightarrow> u8 \<Rightarrow> bytes \<Rightarrow> bytes" where
  "tcpp_fields addr port cmd data =
     [push_bit 4 cmd] @ enc_u16 (of_int port) @ enc_u16 (of_nat (length data)) @ [of_nat (length addr + 1)]"

text \<open>The result is an error code, as a number of type size_t, or the packet.\<close>

definition ksnTCPProxyPackageCreate ::
  "(bytes \<Rightarrow> u8) \<Rightarrow> nat \<Rightarrow> bytes \<Rightarrow> int \<Rightarrow> u8 \<Rightarrow> bytes \<Rightarrow> int + bytes" where
  "ksnTCPProxyPackageCreate get_byte_checksum buffer_length addr port cmd data =
     (if buffer_length \<ge> TCPP_HEADER_SIZE
      then let fields = tcpp_fields addr port cmd data;
               addr_length = unat (of_nat (length addr + 1) :: u8);
               body = fields @ [get_byte_checksum fields] @ take addr_length (strz addr) @ data
           in if buffer_length \<ge> TCPP_HEADER_SIZE + addr_length + length data
              then Inr (get_byte_checksum body # body) else Inl (-2)
      else Inl (-1))"

section \<open>The parser\<close>

datatype ksnTCPProxyBufferStage = WAIT_FOR_START | WAIT_FOR_END | PROCESS_PACKET

text \<open>\<open>tp_buffer\<close> is the part of the buffer that has been written, \<open>tp_ptr\<close> the end of the data in it.\<close>

record ksnTCPProxyPacketData =
  tp_buffer :: bytes
  tp_length :: nat
  tp_ptr :: nat
  tp_stage :: ksnTCPProxyBufferStage

definition tcpp_start :: ksnTCPProxyPacketData where
  "tcpp_start = \<lparr>tp_buffer = [], tp_length = 0, tp_ptr = 0, tp_stage = WAIT_FOR_START\<rparr>"

definition pkg_len :: "bytes \<Rightarrow> nat" where
  "pkg_len b = TCPP_HEADER_SIZE + th_packet_length b + th_addr_length b"

definition tcpp_process_packet :: "(bytes \<Rightarrow> u8) \<Rightarrow> ksnTCPProxyPacketData \<Rightarrow> int \<times> ksnTCPProxyPacketData" where
  "tcpp_process_packet get_byte_checksum p =
     (let len = pkg_len (tp_buffer p);
          checksum = get_byte_checksum (take (len - 1) (drop 1 (tp_buffer p)));
          p1 = p\<lparr>tp_length := len, tp_stage := WAIT_FOR_START, tp_ptr := (if tp_ptr p > len then tp_ptr p else 0)\<rparr>
      in (if th_checksum (tp_buffer p) = checksum then int len else -3, p1))"

text \<open>None: the data is written past the end of the buffer.\<close>

definition tcpp_wait_for_end ::
  "(bytes \<Rightarrow> u8) \<Rightarrow> ksnTCPProxyPacketData \<Rightarrow> bytes \<Rightarrow> (int \<times> ksnTCPProxyPacketData) option" where
  "tcpp_wait_for_end get_byte_checksum p data =
     (if tp_ptr p + length data > KSN_BUFFER_DB_SIZE then None
      else let p1 = p\<lparr>tp_buffer := take (tp_ptr p) (tp_buffer p) @ data @ drop (tp_ptr p + length data) (tp_buffer p),
                      tp_ptr := tp_ptr p + length data\<rparr>;
               b = tp_buffer p1
           in if tp_ptr p1 \<ge> TCPP_HEADER_SIZE
              then if \<not> (th_addr_length b \<noteq> 0 \<and> th_port b \<noteq> 0 \<and>
                          th_packet_checksum b = get_byte_checksum (take (TCPP_HEADER_SIZE - 2) (drop 1 b)))
                   then Some (-2, p1\<lparr>tp_stage := WAIT_FOR_START, tp_ptr := 0\<rparr>)
                   else if tp_ptr p1 \<ge> pkg_len b
                   then Some (tcpp_process_packet get_byte_checksum (p1\<lparr>tp_stage := PROCESS_PACKET\<rparr>))
                   else Some (0, p1)
              else Some (0, p1))"

definition ksnTCPProxyPackageProcess ::
  "(bytes \<Rightarrow> u8) \<Rightarrow> ksnTCPProxyPacketData \<Rightarrow> bytes \<Rightarrow> (int \<times> ksnTCPProxyPacketData) option" where
  "ksnTCPProxyPackageProcess get_byte_checksum p data =
     (case tp_stage p of
        WAIT_FOR_START \<Rightarrow>
          let ptr = (if tp_ptr p \<noteq> 0 then tp_ptr p - tp_length p else 0);
              buffer = (if tp_ptr p \<noteq> 0 then take ptr (drop (tp_length p) (tp_buffer p)) @ drop ptr (tp_buffer p) else tp_buffer p)
          in tcpp_wait_for_end get_byte_checksum
               (p\<lparr>tp_buffer := buffer, tp_ptr := ptr, tp_length := 0, tp_stage := WAIT_FOR_END\<rparr>) data
      | WAIT_FOR_END \<Rightarrow> tcpp_wait_for_end get_byte_checksum p data
      | PROCESS_PACKET \<Rightarrow> Some (tcpp_process_packet get_byte_checksum p))"

section \<open>The proxy\<close>

record ksnTCPProxyData =
  tcp_proxy_fd :: int
  udp_proxy_port :: int
  udp_proxy_fd :: int
  tpd_packet :: ksnTCPProxyPacketData

record ksnTCPProxyClass =
  tp_fd_client :: int
  tp_packet :: ksnTCPProxyPacketData
  tp_fd :: int
  tp_map :: "ksnTCPProxyData PblMap"

text \<open>What the proxy does to the world. \<open>TcppHost\<close> is the call of the host callback, with the packet that
  \<open>teo_recvfrom\<close> then finds in the client's buffer.\<close>

datatype tcppAction =
    TcppIoStart int
  | TcppIoStop int
  | TcppClose int
  | TcppWrite int bytes
  | TcppSendto int bytes bytes int
  | TcppHost bytes bytes int
  | TcppRemovePeers
  | TcppServerStop int
  | TcppFault

text \<open>The parts of the packet at the front of a buffer.\<close>

definition tcpp_addr :: "bytes \<Rightarrow> bytes" where "tcpp_addr b = cstr (drop TCPP_HEADER_SIZE b)"

definition tcpp_data :: "bytes \<Rightarrow> bytes" where
  "tcpp_data b = take (th_packet_length b) (drop (TCPP_HEADER_SIZE + th_addr_length b) b)"

text \<open>A command: \<open>addr_ok\<close> is whether the library can make a socket address of a string.\<close>

definition tcpp_command :: "(bytes \<Rightarrow> bool) \<Rightarrow> int option \<Rightarrow> bytes \<Rightarrow> tcppAction list" where
  "tcpp_command addr_ok udp_fd b =
     (if addr_ok (tcpp_addr b) \<and> th_command b = CMD_TCPP_PROXY
      then [case udp_fd of Some fd \<Rightarrow> TcppSendto fd (tcpp_data b) (tcpp_addr b) (uint (th_port b))
            | None \<Rightarrow> TcppHost (tcpp_data b) (tcpp_addr b) (uint (th_port b))]
      else [])"

text \<open>
  The loop over what has been received. The result says how it ended: the buffer overflown, an error of
  the parser, or the buffer used up. Every packet takes bytes out of the buffer.
\<close>

datatype tcppEnd = TcppOverflow | TcppError int | TcppDone

definition tcpp_left :: "ksnTCPProxyPacketData \<Rightarrow> nat" where
  "tcpp_left p = (if tp_stage p = WAIT_FOR_START then tp_ptr p - tp_length p else tp_ptr p)"

lemma tcpp_process_left:
  assumes "ksnTCPProxyPackageProcess chk p data = Some (rv, p')" and "rv > 0" and "tp_ptr p' \<noteq> 0"
  shows "tcpp_left p' < tcpp_left p + length data"
proof -
  have pos: "0 < pkg_len b" for b by (simp add: pkg_len_def TCPP_HEADER_SIZE_def)
  have pp: "tcpp_left p' < tp_ptr q" if "tcpp_process_packet chk q = (rv, p')" for q
    using that assms(3) pos [of "tp_buffer q"] by (auto simp: tcpp_process_packet_def Let_def tcpp_left_def split: if_splits)
  have we: "tcpp_left p' < tp_ptr q + length data" if "tcpp_wait_for_end chk q data = Some (rv, p')" for q
    using that assms(2) pp by (fastforce simp: tcpp_wait_for_end_def Let_def split: if_splits)
  show ?thesis
  proof (cases "tp_stage p")
    case PROCESS_PACKET
    then show ?thesis using assms(1) pp [of p] by (simp add: ksnTCPProxyPackageProcess_def tcpp_left_def)
  qed (use assms(1) we in \<open>fastforce simp: ksnTCPProxyPackageProcess_def tcpp_left_def Let_def split: if_splits\<close>)+
qed

function tcpp_read_loop ::
  "(bytes \<Rightarrow> u8) \<Rightarrow> (bytes \<Rightarrow> bool) \<Rightarrow> int option \<Rightarrow> ksnTCPProxyPacketData \<Rightarrow> bytes \<Rightarrow> tcppEnd \<times> ksnTCPProxyPacketData \<times> tcppAction list" where
  "tcpp_read_loop chk addr_ok udp_fd p data =
     (case ksnTCPProxyPackageProcess chk p data of
        None \<Rightarrow> (TcppOverflow, p, [TcppFault])
      | Some (rv, p1) \<Rightarrow>
          if rv > 0
          then let acts = tcpp_command addr_ok udp_fd (tp_buffer p1)
               in if tp_ptr p1 \<noteq> 0
                  then (case tcpp_read_loop chk addr_ok udp_fd p1 [] of (e, p2, acts') \<Rightarrow> (e, p2, acts @ acts'))
                  else (TcppDone, p1, acts)
          else if rv < 0 then (TcppError rv, p1, []) else (TcppDone, p1, []))"
  by pat_completeness auto
termination
  by (relation "measure (\<lambda>(chk, addr_ok, udp_fd, p, data). tcpp_left p + length data)") (auto dest: tcpp_process_left)

declare tcpp_read_loop.simps [simp del]

section \<open>Clients of the server\<close>

definition tp_get :: "ksnTCPProxyClass \<Rightarrow> int \<Rightarrow> ksnTCPProxyData option" where
  "tp_get tp fd = pblMapGet (tp_map tp) (fd_key fd)"

definition ksnTCPProxyServerClientDisconnect :: "int \<Rightarrow> bool \<Rightarrow> ksnTCPProxyClass \<Rightarrow> ksnTCPProxyClass \<times> tcppAction list" where
  "ksnTCPProxyServerClientDisconnect fd remove_f tp =
     (case tp_get tp fd of
        None \<Rightarrow> (tp, [])
      | Some tpd \<Rightarrow>
          if fd = udp_proxy_fd tpd then (tp, [])
          else (if remove_f
                then tp\<lparr>tp_map := pblMapRemoveFrom (pblMapRemoveFrom (tp_map tp) (fd_key (udp_proxy_fd tpd))) (fd_key fd)\<rparr> else tp,
                [TcppIoStop fd, TcppClose fd, TcppIoStop (udp_proxy_fd tpd), TcppClose (udp_proxy_fd tpd)]))"

text \<open>A client connects: \<open>udp\<close> is the UDP socket and port the system gives.\<close>

definition ksnTCPProxyServerClientConnect :: "int \<Rightarrow> int \<times> int \<Rightarrow> ksnTCPProxyClass \<Rightarrow> ksnTCPProxyClass \<times> tcppAction list" where
  "ksnTCPProxyServerClientConnect fd udp tp =
     (let data = \<lparr>tcp_proxy_fd = fd, udp_proxy_port = snd udp, udp_proxy_fd = fst udp, tpd_packet = tcpp_start\<rparr>;
          m = snd (pblMapAdd (snd (pblMapAdd (tp_map tp) (fd_key fd) data)) (fd_key (fst udp)) data);
          tp1 = tp\<lparr>tp_map := m\<rparr>
      in if tp_get tp1 fd \<noteq> None
         then (tp1\<lparr>tp_map := pblMapStore m (fd_key fd) (\<lambda>d. d\<lparr>tpd_packet := tcpp_start\<rparr>)\<rparr>, [TcppIoStart fd, TcppIoStart (fst udp)])
         else (tp1, []))"

text \<open>A UDP packet for a client. A packet that does not fit makes the code write with the error code as the
  length.\<close>

definition cmd_udpp_read_cb :: "(bytes \<Rightarrow> u8) \<Rightarrow> int \<Rightarrow> bytes \<Rightarrow> bytes \<Rightarrow> int \<Rightarrow> ksnTCPProxyClass \<Rightarrow> tcppAction list" where
  "cmd_udpp_read_cb chk fd data addr port tp =
     (if data = [] then []
      else case tp_get tp fd of
             None \<Rightarrow> []
           | Some tpd \<Rightarrow>
               (case ksnTCPProxyPackageCreate chk KSN_BUFFER_DB_SIZE addr port CMD_TCPP_PROXY data of
                  Inl e \<Rightarrow> [TcppFault]
                | Inr packet \<Rightarrow> [TcppWrite (tcp_proxy_fd tpd) packet]))"

text \<open>Data from a client's TCP connection: None for a reading error, no bytes when it is closed.\<close>

definition cmd_tcpp_read_cb ::
  "(bytes \<Rightarrow> u8) \<Rightarrow> (bytes \<Rightarrow> bool) \<Rightarrow> int \<Rightarrow> bytes option \<Rightarrow> ksnTCPProxyClass \<Rightarrow> ksnTCPProxyClass \<times> tcppAction list" where
  "cmd_tcpp_read_cb chk addr_ok fd received tp =
     (case received of
        None \<Rightarrow> (tp, [])
      | Some data \<Rightarrow>
          if data = [] then ksnTCPProxyServerClientDisconnect fd True tp
          else case tp_get tp fd of
                 None \<Rightarrow> (tp, [])
               | Some tpd \<Rightarrow>
                   (case tcpp_read_loop chk addr_ok (Some (udp_proxy_fd tpd)) (tpd_packet tpd) data of
                      (e, p, acts) \<Rightarrow>
                        let tp1 = tp\<lparr>tp_map := pblMapStore (tp_map tp) (fd_key fd) (\<lambda>d. d\<lparr>tpd_packet := p\<rparr>)\<rparr>
                        in (case e of
                              TcppError rv \<Rightarrow>
                                (case ksnTCPProxyServerClientDisconnect fd True tp1 of (tp2, acts') \<Rightarrow> (tp2, acts @ acts'))
                            | _ \<Rightarrow> (tp1, acts))))"

text \<open>\<open>started\<close>: the server is allowed by the configuration.\<close>

definition ksnTCPProxyServerStop :: "bool \<Rightarrow> ksnTCPProxyClass \<Rightarrow> ksnTCPProxyClass \<times> tcppAction list" where
  "ksnTCPProxyServerStop allowed tp =
     (if allowed \<and> tp_fd tp \<noteq> 0
      then (tp\<lparr>tp_map := pblMapClear (tp_map tp)\<rparr>,
            concat (map (\<lambda>(key, d). snd (ksnTCPProxyServerClientDisconnect (sint (dec_u32 key)) False tp))
                      (rev (pblMapEntries (tp_map tp)))) @ [TcppServerStop (tp_fd tp)])
      else (tp, []))"

section \<open>The client\<close>

definition ksnTCPProxyClientStop :: "bool \<Rightarrow> ksnTCPProxyClass \<Rightarrow> ksnTCPProxyClass \<times> tcppAction list" where
  "ksnTCPProxyClientStop r_tcp_f tp =
     (if r_tcp_f \<and> tp_fd_client tp > 0
      then (tp\<lparr>tp_fd_client := 0\<rparr>, [TcppIoStop (tp_fd_client tp), TcppClose (tp_fd_client tp), TcppRemovePeers])
      else (tp, []))"

text \<open>An error of the parser only disconnects a client of the server with this descriptor.\<close>

definition cmd_tcppc_read_cb ::
  "(bytes \<Rightarrow> u8) \<Rightarrow> (bytes \<Rightarrow> bool) \<Rightarrow> bool \<Rightarrow> int \<Rightarrow> bytes option \<Rightarrow> ksnTCPProxyClass \<Rightarrow> ksnTCPProxyClass \<times> tcppAction list" where
  "cmd_tcppc_read_cb chk addr_ok r_tcp_f fd received tp =
     (case received of
        None \<Rightarrow> (tp, [])
      | Some data \<Rightarrow>
          if data = [] then ksnTCPProxyClientStop r_tcp_f tp
          else (case tcpp_read_loop chk addr_ok None (tp_packet tp) data of
                  (e, p, acts) \<Rightarrow>
                    (case e of
                       TcppError rv \<Rightarrow>
                         (case ksnTCPProxyServerClientDisconnect fd True (tp\<lparr>tp_packet := p\<rparr>) of (tp2, acts') \<Rightarrow> (tp2, acts @ acts'))
                     | _ \<Rightarrow> (tp\<lparr>tp_packet := p\<rparr>, acts))))"

text \<open>Sending through the proxy, when there is one, and what the receive call finds in the buffer.\<close>

definition ksnTCPProxySendTo :: "(bytes \<Rightarrow> u8) \<Rightarrow> u8 \<Rightarrow> bytes \<Rightarrow> bytes \<Rightarrow> int \<Rightarrow> ksnTCPProxyClass \<Rightarrow> tcppAction list" where
  "ksnTCPProxySendTo chk cmd data addr port tp =
     (case ksnTCPProxyPackageCreate chk KSN_BUFFER_DB_SIZE addr port cmd data of
        Inl e \<Rightarrow> [TcppFault]
      | Inr packet \<Rightarrow> [TcppWrite (tp_fd_client tp) packet])"

definition teo_sendto :: "(bytes \<Rightarrow> u8) \<Rightarrow> bool \<Rightarrow> int \<Rightarrow> bytes \<Rightarrow> bytes \<Rightarrow> int \<Rightarrow> ksnTCPProxyClass \<Rightarrow> tcppAction list" where
  "teo_sendto chk r_tcp_f fd data addr port tp =
     (if r_tcp_f \<and> tp_fd_client tp > 0 then ksnTCPProxySendTo chk CMD_TCPP_PROXY data addr port tp
      else [TcppSendto fd data addr port])"

definition tcpp_recvfrom :: "(bytes \<Rightarrow> bool) \<Rightarrow> nat \<Rightarrow> ksnTCPProxyClass \<Rightarrow> int + bytes \<times> bytes \<times> int" where
  "tcpp_recvfrom addr_ok buffer_len tp =
     (let b = tp_buffer (tp_packet tp)
      in if buffer_len \<ge> th_packet_length b
         then if addr_ok (tcpp_addr b) then Inr (tcpp_data b, tcpp_addr b, uint (th_port b)) else Inl (-3)
         else Inl (-2))"

section \<open>What the client writes, the server parses\<close>

text \<open>A packet the proxy can carry: address, port and data. It must fit twice into the parser's buffer,
  since up to 1024 bytes are read when the buffer may hold all but the last byte of a packet.\<close>

type_synonym tcppMessage = "bytes \<times> int \<times> bytes"

definition tcpp_message_ok :: "(bytes \<Rightarrow> bool) \<Rightarrow> tcppMessage \<Rightarrow> bool" where
  "tcpp_message_ok addr_ok = (\<lambda>(addr, port, data). 0 \<notin> set addr \<and> addr_ok addr \<and> 0 < port \<and> port < 65536 \<and>
     length addr < 255 \<and> TCPP_HEADER_SIZE + length addr + 1 + length data \<le> 1024)"

definition tcpp_bytes :: "(bytes \<Rightarrow> u8) \<Rightarrow> tcppMessage \<Rightarrow> bytes" where
  "tcpp_bytes chk = (\<lambda>(addr, port, data).
     case ksnTCPProxyPackageCreate chk KSN_BUFFER_DB_SIZE addr port CMD_TCPP_PROXY data of Inl e \<Rightarrow> [] | Inr packet \<Rightarrow> packet)"

lemma byte_at_append: "n < length xs \<Longrightarrow> byte_at (xs @ ys) n = byte_at xs n"
  by (simp add: byte_at_def nth_append)

lemma port_word: "0 < port \<Longrightarrow> port < 65536 \<Longrightarrow> uint (of_int port :: u16) = port"
  by (simp add: uint_word_of_int)

definition tcpp_head :: "(bytes \<Rightarrow> u8) \<Rightarrow> tcppMessage \<Rightarrow> bytes" where
  "tcpp_head chk = (\<lambda>(addr, port, data).
     let f = tcpp_fields addr port CMD_TCPP_PROXY data in chk (f @ [chk f] @ strz addr @ data) # f @ [chk f])"

lemma tcpp_create:
  assumes "tcpp_message_ok addr_ok (addr, port, data)"
  shows "ksnTCPProxyPackageCreate chk KSN_BUFFER_DB_SIZE addr port CMD_TCPP_PROXY data =
      Inr (tcpp_head chk (addr, port, data) @ strz addr @ data)"
    "tcpp_bytes chk (addr, port, data) = tcpp_head chk (addr, port, data) @ strz addr @ data"
    "length (tcpp_head chk (addr, port, data)) = 8"
proof -
  have ok: "length addr < 255" "TCPP_HEADER_SIZE + (length addr + 1) + length data \<le> KSN_BUFFER_DB_SIZE"
    "TCPP_HEADER_SIZE \<le> KSN_BUFFER_DB_SIZE"
    using assms by (simp_all add: tcpp_message_ok_def KSN_BUFFER_DB_SIZE_def TCPP_HEADER_SIZE_def)
  have al: "unat (of_nat (length addr + 1) :: u8) = length addr + 1" by (rule u8_of_nat) (use ok(1) in simp)
  have t: "take (length addr + 1) (strz addr) = strz addr" by (simp add: strz_def)
  show c: "ksnTCPProxyPackageCreate chk KSN_BUFFER_DB_SIZE addr port CMD_TCPP_PROXY data =
      Inr (tcpp_head chk (addr, port, data) @ strz addr @ data)"
    using ok(2,3) unfolding ksnTCPProxyPackageCreate_def Let_def al t by (simp add: tcpp_head_def Let_def)
  show "tcpp_bytes chk (addr, port, data) = tcpp_head chk (addr, port, data) @ strz addr @ data"
    by (simp add: tcpp_bytes_def c)
  show "length (tcpp_head chk (addr, port, data)) = 8" by (simp add: tcpp_head_def tcpp_fields_def Let_def)
qed

text \<open>The header of a packet, whatever follows it in the buffer.\<close>

lemma tcpp_header:
  assumes "tcpp_message_ok addr_ok (addr, port, data)"
  shows "th_port (tcpp_head chk (addr, port, data) @ x) = of_int port"
    "th_packet_length (tcpp_head chk (addr, port, data) @ x) = length data"
    "th_addr_length (tcpp_head chk (addr, port, data) @ x) = length addr + 1"
    "th_command (tcpp_head chk (addr, port, data) @ x) = 0"
    "th_packet_checksum (tcpp_head chk (addr, port, data) @ x) = chk (take 6 (drop 1 (tcpp_head chk (addr, port, data) @ x)))"
    "th_checksum (tcpp_head chk (addr, port, data) @ x) = chk (drop 1 (tcpp_bytes chk (addr, port, data)))"
proof -
  let ?f = "tcpp_fields addr port CMD_TCPP_PROXY data"
  have ok: "length addr < 255" "length data < 65536"
    using assms by (simp_all add: tcpp_message_ok_def)
  have al: "unat (of_nat (length addr + 1) :: u8) = length addr + 1" by (rule u8_of_nat) (use ok(1) in simp)
  have dl: "unat (of_nat (length data) :: u16) = length data" using ok(2) by (simp only: unat_of_nat) simp
  obtain a b where e1: "enc_u16 (of_int port) = [a, b]" unfolding enc_u16_def by blast
  obtain c d where e2: "enc_u16 (of_nat (length data)) = [c, d]" unfolding enc_u16_def by blast
  note e = e1 e2
  have pd: "dec_u16 [a, b] = of_int port" "dec_u16 [c, d] = of_nat (length data)"
    using dec_enc_u16 [of "of_int port" "[]"] dec_enc_u16 [of "of_nat (length data)" "[]"] by (simp_all add: e)
  define h g :: u8 where "h = push_bit 4 CMD_TCPP_PROXY" and "g = of_nat (length addr + 1)"
  then have F: "?f = [h, a, b, c, d, g]" "h = push_bit 4 CMD_TCPP_PROXY" "g = of_nat (length addr + 1)"
    by (simp_all only: tcpp_fields_def e append.simps)
  define k1 where "k1 = chk ([h, a, b, c, d, g] @ [chk [h, a, b, c, d, g]] @ strz addr @ data)"
  have H: "tcpp_head chk (addr, port, data) @ x = k1 # h # a # b # c # d # g # chk [h, a, b, c, d, g] # x" for x
    by (simp add: tcpp_head_def F(1) k1_def Let_def)
  have "th_port (tcpp_head chk (addr, port, data) @ x) = dec_u16 [a, b]"
    unfolding H th_port_def by (simp add: dec_u16_def byte_at_def)
  then show "th_port (tcpp_head chk (addr, port, data) @ x) = of_int port" by (simp only: pd)
  have "th_packet_length (tcpp_head chk (addr, port, data) @ x) = unat (dec_u16 [c, d])"
    unfolding H th_packet_length_def by (simp add: dec_u16_def byte_at_def)
  then show "th_packet_length (tcpp_head chk (addr, port, data) @ x) = length data" by (simp only: pd dl)
  show "th_addr_length (tcpp_head chk (addr, port, data) @ x) = length addr + 1"
    unfolding H th_addr_length_def using al by (simp add: byte_at_def F(3))
  show "th_command (tcpp_head chk (addr, port, data) @ x) = 0"
    unfolding H th_command_def by (simp add: byte_at_def F(2) CMD_TCPP_PROXY_def)
  show "th_packet_checksum (tcpp_head chk (addr, port, data) @ x) = chk (take 6 (drop 1 (tcpp_head chk (addr, port, data) @ x)))"
    unfolding H th_packet_checksum_def by (simp add: byte_at_def)
  show "th_checksum (tcpp_head chk (addr, port, data) @ x) = chk (drop 1 (tcpp_bytes chk (addr, port, data)))"
    unfolding tcpp_create(2) [OF assms] H th_checksum_def by (simp add: byte_at_def k1_def)
qed

text \<open>Between calls the parser holds the bytes of a packet that is not complete.\<close>

definition tcpp_holds :: "ksnTCPProxyPacketData \<Rightarrow> bytes \<Rightarrow> bool" where
  "tcpp_holds p pend \<longleftrightarrow> tp_ptr p \<le> length (tp_buffer p) \<and>
     (tp_stage p = WAIT_FOR_START \<and> tp_ptr p = 0 \<and> pend = [] \<or>
      tp_stage p = WAIT_FOR_START \<and> tp_length p < tp_ptr p \<and> pend = drop (tp_length p) (take (tp_ptr p) (tp_buffer p)) \<or>
      tp_stage p = WAIT_FOR_END \<and> pend = take (tp_ptr p) (tp_buffer p))"

lemma tcpp_process_holds:
  assumes "tcpp_holds p pend"
  obtains q rest where "ksnTCPProxyPackageProcess chk p data = tcpp_wait_for_end chk q data" and "tp_stage q = WAIT_FOR_END"
    and "tp_ptr q = length pend" and "tp_buffer q = pend @ rest"
proof -
  have len: "tp_ptr p \<le> length (tp_buffer p)" using assms by (simp add: tcpp_holds_def)
  consider (fresh) "tp_stage p = WAIT_FOR_START" "tp_ptr p = 0" "pend = []"
    | (more) "tp_stage p = WAIT_FOR_START" "tp_length p < tp_ptr p" "pend = drop (tp_length p) (take (tp_ptr p) (tp_buffer p))"
    | (inside) "tp_stage p = WAIT_FOR_END" "pend = take (tp_ptr p) (tp_buffer p)"
    using assms unfolding tcpp_holds_def by (elim conjE disjE) simp_all
  then show thesis
  proof cases
    case fresh
    show thesis
      by (rule that [of "p\<lparr>tp_ptr := 0, tp_length := 0, tp_stage := WAIT_FOR_END\<rparr>" "tp_buffer p"])
        (use fresh in \<open>simp_all add: ksnTCPProxyPackageProcess_def Let_def\<close>)
  next
    case more
    let ?n = "tp_ptr p - tp_length p"
    have "pend = take ?n (drop (tp_length p) (tp_buffer p))" unfolding more(3) by (simp add: drop_take)
    then show thesis
      by (intro that [of "p\<lparr>tp_buffer := take ?n (drop (tp_length p) (tp_buffer p)) @ drop ?n (tp_buffer p), tp_ptr := ?n,
          tp_length := 0, tp_stage := WAIT_FOR_END\<rparr>" "drop ?n (tp_buffer p)"])
        (use more len in \<open>simp_all add: ksnTCPProxyPackageProcess_def Let_def\<close>)
  next
    case inside
    show thesis
      by (rule that [of p "drop (tp_ptr p) (tp_buffer p)"])
        (use inside len in \<open>simp_all add: ksnTCPProxyPackageProcess_def\<close>)
  qed
qed

lemma tcpp_wait:
  assumes "tp_ptr p + length data \<le> KSN_BUFFER_DB_SIZE"
    and "take (tp_ptr p) (tp_buffer p) @ data @ drop (tp_ptr p + length data) (tp_buffer p) = b"
  shows "tcpp_wait_for_end chk p data =
    (let p1 = p\<lparr>tp_buffer := b, tp_ptr := tp_ptr p + length data\<rparr>
     in if 8 \<le> tp_ptr p + length data
        then if \<not> (th_addr_length b \<noteq> 0 \<and> th_port b \<noteq> 0 \<and> th_packet_checksum b = chk (take 6 (drop 1 b)))
             then Some (-2, p1\<lparr>tp_stage := WAIT_FOR_START, tp_ptr := 0\<rparr>)
             else if pkg_len b \<le> tp_ptr p + length data then Some (tcpp_process_packet chk (p1\<lparr>tp_stage := PROCESS_PACKET\<rparr>))
             else Some (0, p1)
        else Some (0, p1))"
  using assms(1) by (simp add: tcpp_wait_for_end_def Let_def assms(2) TCPP_HEADER_SIZE_def)

text \<open>A complete packet at the front, and a part of one.\<close>

lemma tcpp_complete:
  assumes "tcpp_holds p pend" and "tcpp_message_ok addr_ok m" and "pend @ data = tcpp_bytes chk m @ later"
    and "length (pend @ data) \<le> KSN_BUFFER_DB_SIZE"
  obtains p' rest where "ksnTCPProxyPackageProcess chk p data = Some (int (length (tcpp_bytes chk m)), p')"
    and "tcpp_holds p' later" and "tp_ptr p' = 0 \<longleftrightarrow> later = []" and "tp_buffer p' = tcpp_bytes chk m @ rest"
proof -
  obtain addr port pdata where m: "m = (addr, port, pdata)" by (cases m)
  note ok = assms(2) [unfolded m]
  let ?H = "tcpp_head chk m" and ?P = "tcpp_bytes chk m"
  have P: "?P = ?H @ strz addr @ pdata" "length ?H = 8" using tcpp_create(2,3) [OF ok, of chk] by (simp_all add: m)
  obtain q rest where q: "ksnTCPProxyPackageProcess chk p data = tcpp_wait_for_end chk q data" "tp_stage q = WAIT_FOR_END"
    "tp_ptr q = length pend" "tp_buffer q = pend @ rest" by (rule tcpp_process_holds [OF assms(1)])
  define b where "b = ?P @ later @ drop (length data) rest"
  have buf: "take (tp_ptr q) (tp_buffer q) @ data @ drop (tp_ptr q + length data) (tp_buffer q) = b"
    using assms(3) by (simp add: q b_def)
  have hb: "b = ?H @ strz addr @ pdata @ later @ drop (length data) rest" by (simp add: b_def P(1))
  note h = tcpp_header [OF ok, of chk "strz addr @ pdata @ later @ drop (length data) rest", folded m, folded hb]
  have len: "pkg_len b = length ?P" using h(2,3) P by (simp add: pkg_len_def TCPP_HEADER_SIZE_def strz_def)
  have port: "(of_int port :: u16) \<noteq> 0" using port_word [of port] ok by (auto simp: tcpp_message_ok_def)
  have total: "length pend + length data = length ?P + length later"
    using arg_cong [OF assms(3), of length] by simp
  have ge8: "8 \<le> length ?P" using P by simp
  have body: "take (length ?P - 1) (drop 1 b) = drop 1 ?P" using ge8 by (simp add: b_def)
  let ?p = "q\<lparr>tp_buffer := b, tp_ptr := length pend + length data, tp_stage := WAIT_FOR_START, tp_length := length ?P\<rparr>"
  let ?p' = "if later = [] then ?p\<lparr>tp_ptr := 0\<rparr> else ?p"
  have proc: "tcpp_process_packet chk (q\<lparr>tp_buffer := b, tp_ptr := length pend + length data, tp_stage := PROCESS_PACKET\<rparr>) =
      (int (length ?P), ?p')"
    using h(6) total by (simp add: tcpp_process_packet_def Let_def len body del: One_nat_def)
  have fits: "tp_ptr q + length data \<le> KSN_BUFFER_DB_SIZE" using assms(4) by (simp add: q(3))
  have "tcpp_wait_for_end chk q data = Some (int (length ?P), ?p')"
    using h(1,3,5) port total ge8 proc by (simp add: tcpp_wait [OF fits buf] q(3) len Let_def del: One_nat_def)
  then have "ksnTCPProxyPackageProcess chk p data = Some (int (length ?P), ?p')" by (simp add: q(1))
  moreover have "tcpp_holds ?p' later" using total by (simp add: tcpp_holds_def b_def)
  moreover have "tp_ptr ?p' = 0 \<longleftrightarrow> later = []" using total ge8 by auto
  moreover have "tp_buffer ?p' = ?P @ (later @ drop (length data) rest)" by (simp add: b_def)
  ultimately show thesis by (rule that)
qed

lemma tcpp_part:
  assumes "tcpp_holds p pend" and "tcpp_message_ok addr_ok m" and "strict_prefix (pend @ data) (tcpp_bytes chk m)"
    and "length (pend @ data) \<le> KSN_BUFFER_DB_SIZE"
  obtains p' where "ksnTCPProxyPackageProcess chk p data = Some (0, p')" and "tcpp_holds p' (pend @ data)"
proof -
  obtain addr port pdata where m: "m = (addr, port, pdata)" by (cases m)
  note ok = assms(2) [unfolded m]
  let ?H = "tcpp_head chk m" and ?P = "tcpp_bytes chk m"
  have P: "?P = ?H @ strz addr @ pdata" "length ?H = 8" using tcpp_create(2,3) [OF ok, of chk] by (simp_all add: m)
  obtain z zs where z: "?P = (pend @ data) @ z # zs" using assms(3) by (auto elim: strict_prefixE')
  obtain q rest where q: "ksnTCPProxyPackageProcess chk p data = tcpp_wait_for_end chk q data" "tp_stage q = WAIT_FOR_END"
    "tp_ptr q = length pend" "tp_buffer q = pend @ rest" by (rule tcpp_process_holds [OF assms(1)])
  define b where "b = (pend @ data) @ drop (length data) rest"
  have buf: "take (tp_ptr q) (tp_buffer q) @ data @ drop (tp_ptr q + length data) (tp_buffer q) = b"
    by (simp add: q b_def)
  have fits: "tp_ptr q + length data \<le> KSN_BUFFER_DB_SIZE" using assms(4) by (simp add: q(3))
  let ?p' = "q\<lparr>tp_buffer := b, tp_ptr := length pend + length data\<rparr>"
  have "tcpp_wait_for_end chk q data = Some (0, ?p')"
  proof (cases "8 \<le> length pend + length data")
    case True
    have "take 8 (pend @ data) = ?H" using arg_cong [OF z, of "take 8"] True P by simp
    then have "pend @ data = ?H @ drop 8 (pend @ data)" by (metis append_take_drop_id)
    then have hb: "b = ?H @ drop 8 (pend @ data) @ drop (length data) rest" unfolding b_def by (metis append.assoc)
    note h = tcpp_header [OF ok, of chk "drop 8 (pend @ data) @ drop (length data) rest", folded m, folded hb]
    have len: "pkg_len b = length ?P" using h(2,3) P by (simp add: pkg_len_def TCPP_HEADER_SIZE_def strz_def)
    have port: "(of_int port :: u16) \<noteq> 0" using port_word [of port] ok by (auto simp: tcpp_message_ok_def)
    have "length pend + length data < length ?P" using arg_cong [OF z, of length] by simp
    then show ?thesis using h(1,3,5) port True by (simp add: tcpp_wait [OF fits buf] q(3) len Let_def del: One_nat_def)
  qed (simp add: tcpp_wait [OF fits buf] q(3) Let_def)
  moreover have "tcpp_holds ?p' (pend @ data)" using q(2) by (simp add: tcpp_holds_def b_def)
  ultimately show thesis using that q(1) by simp
qed

text \<open>What a message becomes at the other end.\<close>

definition tcpp_effect :: "int option \<Rightarrow> tcppMessage \<Rightarrow> tcppAction" where
  "tcpp_effect udp_fd = (\<lambda>(addr, port, data).
     case udp_fd of Some fd \<Rightarrow> TcppSendto fd data addr port | None \<Rightarrow> TcppHost data addr port)"

lemma tcpp_command_message:
  assumes "tcpp_message_ok addr_ok m"
  shows "tcpp_command addr_ok udp_fd (tcpp_bytes chk m @ rest) = [tcpp_effect udp_fd m]"
proof -
  obtain addr port pdata where m: "m = (addr, port, pdata)" by (cases m)
  note ok = assms [unfolded m]
  let ?H = "tcpp_head chk m"
  have P: "tcpp_bytes chk m @ rest = ?H @ strz addr @ pdata @ rest" "length ?H = 8"
    using tcpp_create(2,3) [OF ok, of chk] by (simp_all add: m)
  note h = tcpp_header [OF ok, of chk "strz addr @ pdata @ rest", folded m, folded P(1)]
  have z: "0 \<notin> set addr" "addr_ok addr" "0 < port" "port < 65536" using ok by (simp_all add: tcpp_message_ok_def)
  have addr: "tcpp_addr (tcpp_bytes chk m @ rest) = addr"
    unfolding P(1) tcpp_addr_def using P(2) z(1) by (simp add: TCPP_HEADER_SIZE_def cstr_strz_append)
  have "drop (TCPP_HEADER_SIZE + th_addr_length (tcpp_bytes chk m @ rest)) (tcpp_bytes chk m @ rest) = pdata @ rest"
    unfolding h(3) unfolding P(1) using P(2) by (simp add: TCPP_HEADER_SIZE_def strz_def)
  then have "tcpp_data (tcpp_bytes chk m @ rest) = pdata" by (simp add: tcpp_data_def h(2))
  then show ?thesis
    using addr h(1,4) z port_word [OF z(3,4)] by (simp add: tcpp_command_def CMD_TCPP_PROXY_def tcpp_effect_def m split: option.split)
qed

lemma tcpp_bytes_nonempty: "tcpp_message_ok addr_ok m \<Longrightarrow> tcpp_bytes chk m \<noteq> []"
  using tcpp_create(2,3) [of addr_ok _ _ _ chk] by (cases m) (metis Nil_is_append_conv list.size(3) zero_neq_numeral)

lemma tcpp_bytes_length: "tcpp_message_ok addr_ok m \<Longrightarrow> length (tcpp_bytes chk m) \<le> 1024"
  using tcpp_create(2,3) [of addr_ok _ _ _ chk] by (cases m) (simp add: tcpp_message_ok_def TCPP_HEADER_SIZE_def strz_def)

definition tcpp_begin :: "(bytes \<Rightarrow> u8) \<Rightarrow> (bytes \<Rightarrow> bool) \<Rightarrow> bytes \<Rightarrow> bool" where
  "tcpp_begin chk addr_ok part \<longleftrightarrow> part = [] \<or> (\<exists>m. tcpp_message_ok addr_ok m \<and> strict_prefix part (tcpp_bytes chk m))"

lemma tcpp_loop:
  assumes "tcpp_holds p pend" and "\<forall>m \<in> set ms. tcpp_message_ok addr_ok m" and "tcpp_begin chk addr_ok part"
    and "pend @ data = concat (map (tcpp_bytes chk) ms) @ part" and "length (pend @ data) \<le> KSN_BUFFER_DB_SIZE"
    and "addr_ok [49]"
  shows "\<exists>p'. tcpp_read_loop chk addr_ok udp_fd p data = (TcppDone, p', map (tcpp_effect udp_fd) ms) \<and> tcpp_holds p' part"
  using assms(1-5)
proof (induction ms arbitrary: p pend data)
  case Nil
  have witness: "tcpp_message_ok addr_ok ([49], 1, [])"
    using assms(6) by (simp add: tcpp_message_ok_def TCPP_HEADER_SIZE_def)
  have part: "pend @ data = part" using Nil.prems(4) by simp
  have "strict_prefix [] (tcpp_bytes chk ([49], 1, []))" using tcpp_bytes_nonempty [OF witness, of chk] by (simp add: strict_prefix_def)
  then obtain m where m: "tcpp_message_ok addr_ok m" "strict_prefix (pend @ data) (tcpp_bytes chk m)"
    using Nil.prems(3) witness unfolding part tcpp_begin_def by blast
  obtain p' where "ksnTCPProxyPackageProcess chk p data = Some (0, p')" "tcpp_holds p' (pend @ data)"
    by (rule tcpp_part [OF Nil.prems(1) m Nil.prems(5)])
  then show ?case using Nil.prems(4) by (simp add: tcpp_read_loop.simps [of chk addr_ok udp_fd p data])
next
  case (Cons m ms)
  let ?later = "concat (map (tcpp_bytes chk) ms) @ part"
  have ok: "tcpp_message_ok addr_ok m" using Cons.prems(2) by simp
  have eq: "pend @ data = tcpp_bytes chk m @ ?later" using Cons.prems(4) by simp
  obtain p' rest where p': "ksnTCPProxyPackageProcess chk p data = Some (int (length (tcpp_bytes chk m)), p')"
    "tcpp_holds p' ?later" "tp_ptr p' = 0 \<longleftrightarrow> ?later = []" "tp_buffer p' = tcpp_bytes chk m @ rest"
    by (rule tcpp_complete [OF Cons.prems(1) ok eq Cons.prems(5)])
  have pos: "0 < length (tcpp_bytes chk m)" using tcpp_bytes_nonempty [OF ok, of chk] by simp
  note unf = tcpp_read_loop.simps [of chk addr_ok udp_fd p data] p'(1) tcpp_command_message [OF ok]
  show ?case
  proof (cases "?later = []")
    case True
    then have "ms = [] \<and> part = []" using Cons.prems(2) tcpp_bytes_nonempty [of addr_ok _ chk] by (cases ms) auto
    moreover have "tp_ptr p' = 0" using p'(3) True by blast
    ultimately show ?thesis using p'(2,4) pos by (simp add: unf Let_def)
  next
    case False
    have "length ?later \<le> KSN_BUFFER_DB_SIZE" using Cons.prems(5) arg_cong [OF eq, of length] by simp
    then obtain p2 where "tcpp_read_loop chk addr_ok udp_fd p' [] = (TcppDone, p2, map (tcpp_effect udp_fd) ms)" "tcpp_holds p2 part"
      using Cons.IH [of p' ?later "[]"] p'(2) Cons.prems(2,3) by auto
    moreover have "tp_ptr p' \<noteq> 0" using p'(3) False by blast
    ultimately show ?thesis using p'(4) pos by (simp add: unf Let_def)
  qed
qed

lemma prefix_messages:
  assumes "prefix s (concat (map f ms))"
  shows "\<exists>ms1 ms2 part. ms = ms1 @ ms2 \<and> s = concat (map f ms1) @ part \<and>
    (part = [] \<or> ms2 \<noteq> [] \<and> strict_prefix part (f (hd ms2))) \<and> prefix part (concat (map f ms2))"
  using assms
proof (induction ms arbitrary: s)
  case (Cons m ms)
  show ?case
  proof (cases "prefix (f m) s")
    case True
    then obtain s' where s: "s = f m @ s'" by (auto elim: prefixE)
    then have "prefix s' (concat (map f ms))" using Cons.prems by simp
    from Cons.IH [OF this] obtain ms1 ms2 part where r: "ms = ms1 @ ms2" "s' = concat (map f ms1) @ part"
      "part = [] \<or> ms2 \<noteq> [] \<and> strict_prefix part (f (hd ms2))" "prefix part (concat (map f ms2))" by blast
    then show ?thesis using s by (intro exI [of _ "m # ms1"] exI [of _ ms2] exI [of _ part]) simp
  next
    case False
    then have "strict_prefix s (f m)" using Cons.prems prefix_same_cases [of s "concat (map f (m # ms))" "f m"]
      by (auto simp: strict_prefix_def)
    then show ?thesis using Cons.prems by (intro exI [of _ "[]"] exI [of _ "m # ms"] exI [of _ s]) simp
  qed
qed simp

text \<open>The server reads pieces of the stream from a client.\<close>

fun tcpp_reads :: "(bytes \<Rightarrow> u8) \<Rightarrow> (bytes \<Rightarrow> bool) \<Rightarrow> int \<Rightarrow> bytes list \<Rightarrow> ksnTCPProxyClass \<Rightarrow> ksnTCPProxyClass \<times> tcppAction list" where
  "tcpp_reads chk addr_ok fd [] tp = (tp, [])"
| "tcpp_reads chk addr_ok fd (c # cs) tp =
     (case cmd_tcpp_read_cb chk addr_ok fd (Some c) tp of (tp1, acts) \<Rightarrow>
        case tcpp_reads chk addr_ok fd cs tp1 of (tp2, acts') \<Rightarrow> (tp2, acts @ acts'))"

lemma tcpp_reads_stream:
  assumes "tp_get tp fd = Some tpd" and "tcpp_holds (tpd_packet tpd) pend"
    and "pend = [] \<or> ms \<noteq> [] \<and> strict_prefix pend (tcpp_bytes chk (hd ms))"
    and "\<forall>m \<in> set ms. tcpp_message_ok addr_ok m" and "\<forall>c \<in> set chunks. c \<noteq> [] \<and> length c \<le> 1024"
    and "pend @ concat chunks = concat (map (tcpp_bytes chk) ms)" and "addr_ok [49]"
  shows "snd (tcpp_reads chk addr_ok fd chunks tp) = map (tcpp_effect (Some (udp_proxy_fd tpd))) ms"
  using assms(1-6)
proof (induction chunks arbitrary: tp tpd pend ms)
  case Nil
  show ?case
  proof (cases ms)
    case (Cons m ms')
    then have "length (tcpp_bytes chk m) \<le> length pend" "tcpp_bytes chk m \<noteq> []"
      using Nil.prems(4,6) tcpp_bytes_nonempty [of addr_ok m chk] by simp_all
    then show ?thesis using Nil.prems(3) Cons by (auto dest: prefix_length_less)
  qed simp
next
  case (Cons c cs)
  have "prefix (pend @ c) (concat (map (tcpp_bytes chk) ms))"
    using Cons.prems(6) [symmetric] by simp
  from prefix_messages [OF this] obtain ms1 ms2 part where r: "ms = ms1 @ ms2" "pend @ c = concat (map (tcpp_bytes chk) ms1) @ part"
    "part = [] \<or> ms2 \<noteq> [] \<and> strict_prefix part (tcpp_bytes chk (hd ms2))" by blast
  have ok: "\<forall>m \<in> set ms1. tcpp_message_ok addr_ok m" "\<forall>m \<in> set ms2. tcpp_message_ok addr_ok m"
    using Cons.prems(4) by (simp_all add: r(1))
  have c: "c \<noteq> []" "length c \<le> 1024" using Cons.prems(5) by simp_all
  have "length pend \<le> 1024"
    using Cons.prems(3,4) tcpp_bytes_length [of addr_ok "hd ms" chk] by (auto dest!: prefix_length_less)
  then have len: "length (pend @ c) \<le> KSN_BUFFER_DB_SIZE" using c(2) by (simp add: KSN_BUFFER_DB_SIZE_def)
  have beg: "tcpp_begin chk addr_ok part" using r(3) ok(2) hd_in_set [of ms2] unfolding tcpp_begin_def by blast
  obtain p' where p': "tcpp_read_loop chk addr_ok (Some (udp_proxy_fd tpd)) (tpd_packet tpd) c =
      (TcppDone, p', map (tcpp_effect (Some (udp_proxy_fd tpd))) ms1)" "tcpp_holds p' part"
    using tcpp_loop [OF Cons.prems(2) ok(1) beg r(2) len assms(7)] by blast
  let ?tp = "tp\<lparr>tp_map := pblMapStore (tp_map tp) (fd_key fd) (\<lambda>d. d\<lparr>tpd_packet := p'\<rparr>)\<rparr>"
  have read: "cmd_tcpp_read_cb chk addr_ok fd (Some c) tp = (?tp, map (tcpp_effect (Some (udp_proxy_fd tpd))) ms1)"
    using c(1) Cons.prems(1) p'(1) by (simp add: cmd_tcpp_read_cb_def Let_def)
  have get: "tp_get ?tp fd = Some (tpd\<lparr>tpd_packet := p'\<rparr>)" using Cons.prems(1) by (simp add: tp_get_def map_simps)
  have "(pend @ c) @ concat cs = concat (map (tcpp_bytes chk) ms1) @ concat (map (tcpp_bytes chk) ms2)"
    using Cons.prems(6) by (simp add: r(1))
  then have "part @ concat cs = concat (map (tcpp_bytes chk) ms2)" unfolding r(2) by simp
  from Cons.IH [OF get _ r(3) ok(2) _ this] p'(2) Cons.prems(5)
  have "snd (tcpp_reads chk addr_ok fd cs ?tp) = map (tcpp_effect (Some (udp_proxy_fd tpd))) ms2" by simp
  then show ?case by (simp add: read split_def r(1))
qed

text \<open>
  C26: what the TCP proxy's client writes for UDP packets leaves the server as the same packets: however
  the connection cuts the stream of bytes into pieces, the server sends each packet once, in order, with
  its data to its address and port, and nothing else.
\<close>

theorem tcpp_delivered:
  assumes "tp_get tp fd = Some tpd" and "tpd_packet tpd = tcpp_start" and "tp_fd_client client > 0"
    and "\<forall>m \<in> set ms. tcpp_message_ok addr_ok m" and "addr_ok [49]" and "\<forall>c \<in> set chunks. c \<noteq> [] \<and> length c \<le> 1024"
    and "map (\<lambda>(addr, port, data). teo_sendto chk True 0 data addr port client) ms = map (\<lambda>b. [TcppWrite (tp_fd_client client) b]) written"
    and "concat chunks = concat written"
  shows "snd (tcpp_reads chk addr_ok fd chunks tp) = map (\<lambda>(addr, port, data). TcppSendto (udp_proxy_fd tpd) data addr port) ms"
proof -
  have sent: "(\<lambda>(addr, port, data). teo_sendto chk True 0 data addr port client) m = [TcppWrite (tp_fd_client client) (tcpp_bytes chk m)]"
    if "m \<in> set ms" for m
  proof -
    obtain addr port data where m: "m = (addr, port, data)" by (cases m)
    then have "tcpp_message_ok addr_ok (addr, port, data)" using assms(4) that by blast
    from tcpp_create(1,2) [OF this, of chk] show ?thesis
      using assms(3) by (simp add: m teo_sendto_def ksnTCPProxySendTo_def)
  qed
  have "map (\<lambda>b. [TcppWrite (tp_fd_client client) b]) written = map (\<lambda>m. [TcppWrite (tp_fd_client client) (tcpp_bytes chk m)]) ms"
    unfolding assms(7) [symmetric] using sent by (intro map_cong) simp_all
  then have "map (\<lambda>b. [TcppWrite (tp_fd_client client) b]) written =
      map (\<lambda>b. [TcppWrite (tp_fd_client client) b]) (map (tcpp_bytes chk) ms)" by (simp add: comp_def)
  moreover have "inj (\<lambda>b. [TcppWrite (tp_fd_client client) b])" by (rule injI) simp
  ultimately have written: "written = map (tcpp_bytes chk) ms" by (simp only: inj_map_eq_map)
  have "tcpp_holds (tpd_packet tpd) []" by (simp add: assms(2) tcpp_holds_def tcpp_start_def)
  from tcpp_reads_stream [OF assms(1) this _ assms(4,6) _ assms(5)] assms(8)
  show ?thesis by (simp add: written tcpp_effect_def)
qed

definition tcpp_example :: ksnTCPProxyClass where
  "tcpp_example = fst (ksnTCPProxyServerClientConnect 5 (6, 9011)
     \<lparr>tp_fd_client = 4, tp_packet = tcpp_start, tp_fd = 3, tp_map = pblMapNewHashMap\<rparr>)"

lemma tcpp_example_get:
  "tp_get tcpp_example 5 = Some \<lparr>tcp_proxy_fd = 5, udp_proxy_port = 9011, udp_proxy_fd = 6, tpd_packet = tcpp_start\<rparr>"
proof -
  have k: "fd_key 5 \<noteq> fd_key 6" by (simp add: fd_key_def enc_u32_def)
  have room: "pblMapRoom pblMapNewHashMap k" for k :: bytes by (simp add: pblMapRoom_def size_new pblMaxElements_def)
  show ?thesis
    using k by (simp add: tcpp_example_def ksnTCPProxyServerClientConnect_def tp_get_def Let_def pblMapAdd_def map_simps room1 room)
qed

theorem tcpp_delivered_witness:
  "snd (tcpp_reads (foldl (+) 0) (\<lambda>a. a \<noteq> []) 5 (map (\<lambda>b. [b]) (tcpp_bytes (foldl (+) 0) ([49], 9000, [1, 2]))) tcpp_example) =
    [TcppSendto 6 [1, 2] [49] 9000]"
proof -
  let ?chk = "foldl (+) 0 :: bytes \<Rightarrow> u8" and ?m = "([49], 9000, [1, 2]) :: tcppMessage"
  have ok: "tcpp_message_ok (\<lambda>a. a \<noteq> []) ?m" by (simp add: tcpp_message_ok_def TCPP_HEADER_SIZE_def)
  have c: "tp_fd_client tcpp_example = 4"
    by (simp add: tcpp_example_def ksnTCPProxyServerClientConnect_def Let_def)
  have "map (\<lambda>(addr, port, data). teo_sendto ?chk True 0 data addr port tcpp_example) [?m] =
      map (\<lambda>b. [TcppWrite (tp_fd_client tcpp_example) b]) [tcpp_bytes ?chk ?m]"
    using tcpp_create(1,2) [OF ok, of ?chk] by (simp add: teo_sendto_def ksnTCPProxySendTo_def c)
  from tcpp_delivered [OF tcpp_example_get _ _ _ _ _ this, of "\<lambda>a. a \<noteq> []" "map (\<lambda>b. [b]) (tcpp_bytes ?chk ?m)"]
  show ?thesis using ok by (simp add: c concat_map_singleton)
qed

text \<open>
  The parser waits for a packet as long as its header says without a look at the size of its buffer: a
  client whose header promises more than the buffer holds makes the server write past its end.
\<close>

theorem tcpp_overflow:
  assumes "tcpp_holds p pend" and "length pend + length data > KSN_BUFFER_DB_SIZE"
  shows "tcpp_read_loop chk addr_ok udp_fd p data = (TcppOverflow, p, [TcppFault])"
proof -
  obtain q rest where q: "ksnTCPProxyPackageProcess chk p data = tcpp_wait_for_end chk q data" "tp_stage q = WAIT_FOR_END"
    "tp_ptr q = length pend" "tp_buffer q = pend @ rest" by (rule tcpp_process_holds [OF assms(1)])
  show ?thesis
    unfolding tcpp_read_loop.simps [of chk addr_ok udp_fd p data] q(1) using assms(2) by (simp add: tcpp_wait_for_end_def q(3))
qed

end
