(* ===== verification/PblList.thy ===== *)
theory PblList
  imports Prelude
begin

text \<open>
  The array list of the embedded Program Base Library (embedded/libpbl/src/pblList.c), which holds
  the subscribers of an event and the queue of asynchronous events: an array of pointers with a
  capacity that grows by doubling. Null pointers may be elements. A result that the code gives
  as \<open>(void*)-1\<close> is \<open>None\<close> here. Linked lists are not used by teonet and not modelled. Memory is always
  found; sizes, capacities and the lengths of copied blocks are of type \<open>int\<close> in the code.
\<close>

section \<open>Data refinement\<close>

text \<open>
  A concrete state stands for an abstract one when every operation gives the same result on both and
  leads to states that again stand for each other, as long as the abstract states stay within the limits
  \<open>pre\<close> of the concrete ones. Then no sequence of operations that keeps the limits tells them apart.
\<close>

fun run_ops :: "('o \<Rightarrow> 's \<Rightarrow> 'r \<times> 's) \<Rightarrow> 'o list \<Rightarrow> 's \<Rightarrow> 'r list \<times> 's" where
  "run_ops f [] s = ([], s)"
| "run_ops f (p # ps) s = (case f p s of (r, s') \<Rightarrow> map_prod (Cons r) id (run_ops f ps s'))"

fun ops_ok :: "('o \<Rightarrow> 's \<Rightarrow> bool) \<Rightarrow> ('o \<Rightarrow> 's \<Rightarrow> 'r \<times> 's) \<Rightarrow> 'o list \<Rightarrow> 's \<Rightarrow> bool" where
  "ops_ok pre f [] s = True"
| "ops_ok pre f (p # ps) s = (pre p s \<and> ops_ok pre f ps (snd (f p s)))"

locale data_refinement =
  fixes inv :: "'s \<Rightarrow> bool"
    and abs :: "'s \<Rightarrow> 'a"
    and pre :: "'o \<Rightarrow> 'a \<Rightarrow> bool"
    and cop :: "'o \<Rightarrow> 's \<Rightarrow> 'r \<times> 's"
    and aop :: "'o \<Rightarrow> 'a \<Rightarrow> 'r \<times> 'a"
  assumes law_inv: "inv s \<Longrightarrow> pre p (abs s) \<Longrightarrow> inv (snd (cop p s))"
    and law_abs: "inv s \<Longrightarrow> pre p (abs s) \<Longrightarrow> map_prod id abs (cop p s) = aop p (abs s)"
begin

lemma step_refines:
  assumes "inv s" and "pre p (abs s)" and "cop p s = (r, s')"
  shows "inv s'" "aop p (abs s) = (r, abs s')"
  using law_inv [OF assms(1,2)] law_abs [OF assms(1,2)] assms(3) by simp_all

lemma run_refines:
  "inv s \<Longrightarrow> ops_ok pre aop ps (abs s) \<Longrightarrow> inv (snd (run_ops cop ps s)) \<and> map_prod id abs (run_ops cop ps s) = run_ops aop ps (abs s)"
proof (induction ps arbitrary: s)
  case (Cons p ps)
  obtain r s' where c: "cop p s = (r, s')" by fastforce
  note st = step_refines [OF Cons.prems(1) _ c]
  then show ?case using c Cons.IH [of s'] Cons.prems by (cases "run_ops cop ps s'") (auto simp: map_prod_def split: prod.splits)
qed simp

end

section \<open>State\<close>

record 'e PblArrayList =
  al_pointerArray :: "'e option list"
  al_size :: nat
  al_capacity :: nat
  al_changeCounter :: nat
  al_fault :: bool

definition PBLAL_INITIAL_CAPACITY :: nat where "PBLAL_INITIAL_CAPACITY = 10"

definition pblListNewArrayList :: "'e PblArrayList" where
  "pblListNewArrayList = \<lparr>al_pointerArray = [], al_size = 0, al_capacity = 0, al_changeCounter = 0, al_fault = False\<rparr>"

text \<open>A copy of a block inside the array, as \<open>memmove\<close> makes it, and a \<open>memset\<close> with null pointers.\<close>

definition memmove :: "nat \<Rightarrow> nat \<Rightarrow> nat \<Rightarrow> 'a list \<Rightarrow> 'a list" where
  "memmove to frm len xs = take to xs @ take len (drop frm xs) @ drop (to + len) xs"

definition memset0 :: "nat \<Rightarrow> nat \<Rightarrow> 'e option list \<Rightarrow> 'e option list" where
  "memset0 to len xs = take to xs @ replicate len None @ drop (to + len) xs"

text \<open>
  The number of bytes of \<open>n\<close> pointers is stored in an \<open>int\<close>: the value is cut to 32 bits and read with a
  sign. A negative length is a huge one for \<open>memmove\<close> and \<open>memset\<close>, which then leave the array
  (\<open>al_fault\<close>); one that is too small copies too little.
\<close>

definition INT_MAX :: nat where "INT_MAX = 2147483647"

definition int_len :: "nat \<Rightarrow> int" where
  "int_len n = sint (of_nat (8 * n) :: 32 word)"

definition move_block :: "nat \<Rightarrow> nat \<Rightarrow> nat \<Rightarrow> 'e PblArrayList \<Rightarrow> 'e PblArrayList" where
  "move_block to frm n l =
     (if int_len n < 0 then l\<lparr>al_fault := True\<rparr>
      else l\<lparr>al_pointerArray := memmove to frm (nat (int_len n) div 8) (al_pointerArray l)\<rparr>)"

definition null_block :: "nat \<Rightarrow> nat \<Rightarrow> 'e PblArrayList \<Rightarrow> 'e PblArrayList" where
  "null_block to n l =
     (if int_len n < 0 then l\<lparr>al_fault := True\<rparr>
      else l\<lparr>al_pointerArray := memset0 to (nat (int_len n) div 8) (al_pointerArray l)\<rparr>)"

text \<open>Below this size all lengths in bytes fit.\<close>

definition AL_LIMIT :: nat where "AL_LIMIT = 268435456"

lemma int_len_fits:
  assumes "n < AL_LIMIT"
  shows "int_len n = 8 * int n"
proof -
  have "int_len n = sint (of_int (int (8 * n)) :: 32 word)" by (simp only: int_len_def of_int_of_nat_eq)
  also have "\<dots> = int (8 * n)"
    by (subst signed_of_int, subst signed_take_bit_int_eq_self) (use assms in \<open>simp_all add: AL_LIMIT_def\<close>)
  finally show ?thesis by simp
qed

lemma blocks_fit:
  "n < AL_LIMIT \<Longrightarrow> move_block to frm n l = l\<lparr>al_pointerArray := memmove to frm n (al_pointerArray l)\<rparr>"
  "n < AL_LIMIT \<Longrightarrow> null_block to n l = l\<lparr>al_pointerArray := memset0 to n (al_pointerArray l)\<rparr>"
  by (simp_all add: move_block_def null_block_def int_len_fits nat_mult_distrib)

section \<open>Operations\<close>

definition pblArrayListEnsureCapacity :: "nat \<Rightarrow> 'e PblArrayList \<Rightarrow> nat \<times> 'e PblArrayList" where
  "pblArrayListEnsureCapacity minCapacity l =
     (if minCapacity \<le> al_capacity l then (al_capacity l, l)
      else (minCapacity,
            l\<lparr>al_pointerArray := take (al_capacity l) (al_pointerArray l) @ replicate (minCapacity - al_capacity l) None,
              al_capacity := minCapacity, al_changeCounter := al_changeCounter l + 1\<rparr>))"

text \<open>The product \<open>capacity * 2 + 1\<close> is an \<open>int\<close>; its overflow is a fault.\<close>

definition pblArrayListAddAt :: "int \<Rightarrow> 'e option \<Rightarrow> 'e PblArrayList \<Rightarrow> int \<times> 'e PblArrayList" where
  "pblArrayListAddAt index element l =
     (if index < 0 \<or> index > int (al_size l) then (-1, l)
      else if al_size l = al_capacity l \<and> al_capacity l * 2 + 1 > INT_MAX then (-1, l\<lparr>al_fault := True\<rparr>)
      else let i = nat index;
               l1 = (if al_size l = al_capacity l
                     then snd (pblArrayListEnsureCapacity (max (al_capacity l * 2 + 1) PBLAL_INITIAL_CAPACITY) l) else l);
               l2 = (if i < al_size l then move_block (i + 1) i (al_size l - i) l1 else l1)
           in (int (al_size l) + 1,
               l2\<lparr>al_pointerArray := (al_pointerArray l2)[i := element], al_size := al_size l + 1,
                 al_changeCounter := al_changeCounter l1 + 1\<rparr>))"

definition pblListAdd :: "'e option \<Rightarrow> 'e PblArrayList \<Rightarrow> int \<times> 'e PblArrayList" where
  "pblListAdd element l = pblArrayListAddAt (int (al_size l)) element l"

definition pblArrayListRemoveAt :: "int \<Rightarrow> 'e PblArrayList \<Rightarrow> 'e option option \<times> 'e PblArrayList" where
  "pblArrayListRemoveAt index l =
     (if index < 0 \<or> index \<ge> int (al_size l) then (None, l)
      else let i = nat index;
               l1 = (if i < al_size l - 1 then move_block i (i + 1) (al_size l - 1 - i) l else l)
           in (Some (al_pointerArray l ! i),
               l1\<lparr>al_pointerArray := (al_pointerArray l1)[al_size l - 1 := None], al_size := al_size l - 1,
                 al_changeCounter := al_changeCounter l + 1\<rparr>))"

definition pblListRemoveAt :: "int \<Rightarrow> 'e PblArrayList \<Rightarrow> 'e option option \<times> 'e PblArrayList" where
  "pblListRemoveAt index l = (if index < 0 \<or> index \<ge> int (al_size l) then (None, l) else pblArrayListRemoveAt index l)"

definition pblListPoll :: "'e PblArrayList \<Rightarrow> 'e option option \<times> 'e PblArrayList" where
  "pblListPoll l = pblListRemoveAt 0 l"

definition pblListGet :: "int \<Rightarrow> 'e PblArrayList \<Rightarrow> 'e option option" where
  "pblListGet index l =
     (if index < 0 \<or> index \<ge> int (al_size l) then None else Some (al_pointerArray l ! nat index))"

definition pblListSet :: "int \<Rightarrow> 'e option \<Rightarrow> 'e PblArrayList \<Rightarrow> 'e option option \<times> 'e PblArrayList" where
  "pblListSet index element l =
     (if index < 0 \<or> index \<ge> int (al_size l) then (None, l)
      else (Some (al_pointerArray l ! nat index), l\<lparr>al_pointerArray := (al_pointerArray l)[nat index := element]\<rparr>))"

definition pblListSize :: "'e PblArrayList \<Rightarrow> nat" where "pblListSize l = al_size l"
definition pblListIsEmpty :: "'e PblArrayList \<Rightarrow> bool" where "pblListIsEmpty l \<longleftrightarrow> al_size l = 0"

definition pblListClear :: "'e PblArrayList \<Rightarrow> 'e PblArrayList" where
  "pblListClear l =
     l\<lparr>al_pointerArray := memset0 0 (al_size l) (al_pointerArray l), al_size := 0,
       al_changeCounter := al_changeCounter l + 1\<rparr>"

text \<open>The loop that doubles the capacity until a new size fits.\<close>

function pblGrow :: "nat \<Rightarrow> nat \<Rightarrow> nat" where
  "pblGrow n capacity = (if n > capacity then pblGrow n (capacity * 2 + 1) else capacity)"
  by pat_completeness auto
termination by (relation "measure (\<lambda>(n, capacity). n - capacity)") auto

declare pblGrow.simps [simp del]

definition pblArrayListSetSize :: "int \<Rightarrow> 'e PblArrayList \<Rightarrow> int \<times> 'e PblArrayList" where
  "pblArrayListSetSize sz l =
     (if sz < 0 \<or> sz = int (al_size l) then (int (al_size l), l)
      else if sz > int (al_capacity l) \<and> max (al_capacity l) PBLAL_INITIAL_CAPACITY * 2 + 1 > INT_MAX
      then (sz, l\<lparr>al_fault := True\<rparr>)
      else let n = nat sz;
               l1 = (if n < al_size l
                     then l\<lparr>al_pointerArray := memset0 n (al_size l - n) (al_pointerArray l)\<rparr>
                     else if n > al_capacity l
                     then let c = max (al_capacity l) PBLAL_INITIAL_CAPACITY
                          in snd (pblArrayListEnsureCapacity (if n > c * 2 + 1 then n else pblGrow n c) l)
                     else l)
           in (sz, l1\<lparr>al_size := n, al_changeCounter := al_changeCounter l1 + 1\<rparr>))"

definition pblListSetSize :: "int \<Rightarrow> 'e PblArrayList \<Rightarrow> int \<times> 'e PblArrayList" where
  "pblListSetSize sz l =
     (if sz < 0 \<or> sz = int (al_size l) then (int (al_size l), l)
      else if sz = 0 then (0, pblListClear l) else pblArrayListSetSize sz l)"

definition pblListRemoveRange :: "int \<Rightarrow> int \<Rightarrow> 'e PblArrayList \<Rightarrow> int \<times> 'e PblArrayList" where
  "pblListRemoveRange fromIndex toIndex l =
     (if fromIndex < 0 \<or> fromIndex \<ge> int (al_size l) then (-1, l)
      else if toIndex < 0 \<or> toIndex > int (al_size l) then (-1, l)
      else if toIndex - fromIndex < 1 then (int (al_size l), l)
      else if toIndex - fromIndex = int (al_size l) then (0, pblListClear l)
      else let f = nat fromIndex; t = nat toIndex; n = t - f;
               l1 = (if t < al_size l then move_block f t (al_size l - t) l else l)
           in (int (al_size l - n),
               (null_block (al_size l - n) n l1)\<lparr>al_size := al_size l - n,
                 al_changeCounter := al_changeCounter l + 1\<rparr>))"

text \<open>
  Trimming asks for a number of bytes that is an \<open>int\<close>, too: a negative one is not given; with one that is
  too small the new array is shorter than its capacity.
\<close>

definition pblArrayListTrimToSize :: "'e PblArrayList \<Rightarrow> int \<times> 'e PblArrayList" where
  "pblArrayListTrimToSize l =
     (if al_size l = al_capacity l then (int (al_capacity l), l)
      else if int_len (al_size l) < 0 then (-1, l)
      else (int (al_size l),
            l\<lparr>al_pointerArray := take (nat (int_len (al_size l)) div 8) (al_pointerArray l), al_capacity := al_size l,
              al_fault := al_fault l \<or> nat (int_len (al_size l)) div 8 < al_size l\<rparr>))"

section \<open>The list an array list stands for\<close>

text \<open>
  A well-formed array list has its elements in front and null pointers behind them. \<open>al_of xs k c\<close> is
  the one with the elements \<open>xs\<close>, room for \<open>k\<close> more, and the change counter \<open>c\<close>.
\<close>

definition al_of :: "'e option list \<Rightarrow> nat \<Rightarrow> nat \<Rightarrow> 'e PblArrayList" where
  "al_of xs k c = \<lparr>al_pointerArray = xs @ replicate k None, al_size = length xs, al_capacity = length xs + k,
                   al_changeCounter = c, al_fault = False\<rparr>"

definition al_elems :: "'e PblArrayList \<Rightarrow> 'e option list" where
  "al_elems l = take (al_size l) (al_pointerArray l)"

definition al_wf :: "'e PblArrayList \<Rightarrow> bool" where
  "al_wf l \<longleftrightarrow> \<not> al_fault l \<and> al_size l \<le> al_capacity l \<and> length (al_pointerArray l) = al_capacity l \<and>
     (\<forall>i. al_size l \<le> i \<and> i < al_capacity l \<longrightarrow> al_pointerArray l ! i = None)"

lemma al_of_fields [simp]:
  "al_pointerArray (al_of xs k c) = xs @ replicate k None" "al_size (al_of xs k c) = length xs"
  "al_capacity (al_of xs k c) = length xs + k" "al_changeCounter (al_of xs k c) = c" "\<not> al_fault (al_of xs k c)"
  by (simp_all add: al_of_def)

lemma al_elems_of [simp]: "al_elems (al_of xs k c) = xs" by (simp add: al_elems_def)

lemma al_wf_of [simp]: "al_wf (al_of xs k c)" by (auto simp: al_wf_def nth_append)

lemma al_wf_cases:
  assumes "al_wf l"
  obtains k where "l = al_of (al_elems l) k (al_changeCounter l)"
proof
  have "drop (al_size l) (al_pointerArray l) = replicate (al_capacity l - al_size l) None"
    using assms by (intro nth_equalityI) (auto simp: al_wf_def)
  then have "al_pointerArray l = al_elems l @ replicate (al_capacity l - al_size l) None"
    by (metis al_elems_def append_take_drop_id)
  then show "l = al_of (al_elems l) (al_capacity l - al_size l) (al_changeCounter l)"
    using assms by (simp add: al_of_def al_wf_def al_elems_def)
qed

lemma al_eqI:
  "al_pointerArray l = xs @ replicate k None \<Longrightarrow> al_size l = length xs \<Longrightarrow> al_capacity l = length xs + k \<Longrightarrow> \<not> al_fault l \<Longrightarrow>
   l = al_of xs k (al_changeCounter l)"
  by (simp add: al_of_def)

section \<open>What the operations do to the elements\<close>

text \<open>The growth of a full array, and the room there is afterwards.\<close>

lemma ensure_full:
  "0 < n \<Longrightarrow> snd (pblArrayListEnsureCapacity (length xs + n) (al_of xs 0 c)) = al_of xs n (c + 1)"
  by (simp add: pblArrayListEnsureCapacity_def al_of_def)

lemma insert_shift:
  assumes "i < length xs"
  shows "(memmove (i + 1) i (length xs - i) (xs @ replicate (Suc k) None))[i := e] =
     take i xs @ e # drop i xs @ replicate k None"
proof -
  have "memmove (i + 1) i (length xs - i) (xs @ replicate (Suc k) None) =
      take (i + 1) xs @ drop i xs @ replicate k None"
    using assms by (simp add: memmove_def)
  then show ?thesis using assms by (simp add: take_Suc_conv_app_nth list_update_append)
qed

lemma add_at_room:
  assumes "i \<le> length xs" and "length xs < AL_LIMIT"
  shows "pblArrayListAddAt (int i) e (al_of xs (Suc k) c) =
     (int (length xs) + 1, al_of (take i xs @ e # drop i xs) k (c + 1))"
proof (cases "i < length xs")
  case True
  then show ?thesis using insert_shift [OF True, of k e] assms(2) by (simp add: pblArrayListAddAt_def al_of_def Let_def blocks_fit)
next
  case False
  with assms have "i = length xs" by simp
  then show ?thesis by (simp add: pblArrayListAddAt_def al_of_def Let_def list_update_append)
qed

lemma add_at:
  assumes "al_wf l" "0 \<le> i" "i \<le> int (al_size l)" "al_size l < AL_LIMIT"
  shows "fst (pblArrayListAddAt i e l) = int (al_size l) + 1" "al_wf (snd (pblArrayListAddAt i e l))"
    "al_elems (snd (pblArrayListAddAt i e l)) = take (nat i) (al_elems l) @ e # drop (nat i) (al_elems l)"
    "al_changeCounter l < al_changeCounter (snd (pblArrayListAddAt i e l))"
    "al_capacity l \<le> 2 * AL_LIMIT \<Longrightarrow> al_capacity (snd (pblArrayListAddAt i e l)) \<le> 2 * AL_LIMIT"
proof -
  obtain k where l: "l = al_of (al_elems l) k (al_changeCounter l)" using al_wf_cases [OF assms(1)] .
  define xs where "xs = al_elems l"
  define c where "c = al_changeCounter l"
  have l: "l = al_of xs k c" using l by (simp add: xs_def c_def)
  have i: "nat i \<le> length xs" and small: "length xs < AL_LIMIT" using assms l by simp_all
  have "\<exists>k' c'. c < c' \<and> pblArrayListAddAt i e l = (int (length xs) + 1, al_of (take (nat i) xs @ e # drop (nat i) xs) k' c') \<and>
      (length xs + k \<le> 2 * AL_LIMIT \<longrightarrow> length xs + 1 + k' \<le> 2 * AL_LIMIT)"
  proof (cases k)
    case (Suc k')
    then show ?thesis using add_at_room [OF i small, of e k' c] assms(2) l by auto
  next
    case 0
    define n where "n = max (length xs * 2 + 1) PBLAL_INITIAL_CAPACITY - length xs"
    have n: "0 < n" "max (length xs * 2 + 1) PBLAL_INITIAL_CAPACITY = length xs + n" by (auto simp: n_def)
    have g: "snd (pblArrayListEnsureCapacity (length xs + n) (al_of xs 0 c)) = al_of xs n (c + 1)"
      by (rule ensure_full [OF n(1)])
    have "pblArrayListAddAt i e (al_of xs 0 c) = pblArrayListAddAt i e (al_of xs n (c + 1))"
      using g n i assms(2) small unfolding pblArrayListAddAt_def by (simp add: Let_def AL_LIMIT_def INT_MAX_def)
    then have "pblArrayListAddAt i e l = (int (length xs) + 1, al_of (take (nat i) xs @ e # drop (nat i) xs) (n - 1) (c + 1 + 1))"
      using add_at_room [OF i small, of e "n - 1" "c + 1"] n(1) assms(2) l 0 by simp
    moreover have "length xs + 1 + (n - 1) \<le> 2 * AL_LIMIT"
      using n small by (auto simp: AL_LIMIT_def PBLAL_INITIAL_CAPACITY_def)
    ultimately show ?thesis by (intro exI [of _ "n - 1"] exI [of _ "c + 1 + 1"]) simp
  qed
  then show "fst (pblArrayListAddAt i e l) = int (al_size l) + 1" "al_wf (snd (pblArrayListAddAt i e l))"
    "al_elems (snd (pblArrayListAddAt i e l)) = take (nat i) (al_elems l) @ e # drop (nat i) (al_elems l)"
    "al_changeCounter l < al_changeCounter (snd (pblArrayListAddAt i e l))"
    "al_capacity l \<le> 2 * AL_LIMIT \<Longrightarrow> al_capacity (snd (pblArrayListAddAt i e l)) \<le> 2 * AL_LIMIT"
    using l i by auto
qed

lemma add_last:
  assumes "al_wf l" and "al_size l < AL_LIMIT"
  shows "fst (pblListAdd e l) = int (al_size l) + 1" "al_wf (snd (pblListAdd e l))"
    "al_elems (snd (pblListAdd e l)) = al_elems l @ [e]"
    "al_changeCounter l < al_changeCounter (snd (pblListAdd e l))"
    "al_capacity l \<le> 2 * AL_LIMIT \<Longrightarrow> al_capacity (snd (pblListAdd e l)) \<le> 2 * AL_LIMIT"
  using add_at [OF assms(1) _ _ assms(2), of "int (al_size l)" e] assms by (simp_all add: pblListAdd_def al_elems_def al_wf_def)

lemma remove_shift:
  assumes "i < length xs"
  shows "(if i < length xs - 1 then memmove i (i + 1) (length xs - 1 - i) (xs @ replicate k None) else xs @ replicate k None)
      [length xs - 1 := None] = take i xs @ drop (i + 1) xs @ replicate (Suc k) None"
proof (cases "i < length xs - 1")
  case True
  have "memmove i (i + 1) (length xs - 1 - i) (xs @ replicate k None) =
      take i xs @ drop (i + 1) xs @ drop (length xs - 1) xs @ replicate k None"
    using True by (simp add: memmove_def)
  moreover have "drop (length xs - 1) xs = [last xs]"
    using assms by (metis append_butlast_last_id append_eq_conv_conj length_butlast less_nat_zero_code list.size(3))
  ultimately show ?thesis using True by (simp add: list_update_append)
next
  case False
  with assms have "i = length xs - 1" by simp
  moreover from assms obtain ys y where "xs = ys @ [y]" by (metis less_nat_zero_code list.size(3) rev_exhaust)
  ultimately show ?thesis by (simp add: list_update_append)
qed

lemma remove_at_of:
  assumes "i < length xs" and "length xs < AL_LIMIT"
  shows "pblArrayListRemoveAt (int i) (al_of xs k c) = (Some (xs ! i), al_of (take i xs @ drop (i + 1) xs) (Suc k) (c + 1))"
  using assms remove_shift [OF assms(1), of k]
  by (auto simp: pblArrayListRemoveAt_def Let_def nth_append blocks_fit al_of_def min_def)

lemma remove_at:
  assumes "al_wf l" "0 \<le> i" "i < int (al_size l)" "al_size l < AL_LIMIT"
  shows "fst (pblListRemoveAt i l) = Some (al_elems l ! nat i)" "al_wf (snd (pblListRemoveAt i l))"
    "al_elems (snd (pblListRemoveAt i l)) = take (nat i) (al_elems l) @ drop (nat i + 1) (al_elems l)"
    "al_changeCounter (snd (pblListRemoveAt i l)) = al_changeCounter l + 1"
    "al_capacity (snd (pblListRemoveAt i l)) = al_capacity l"
proof -
  obtain k where l: "l = al_of (al_elems l) k (al_changeCounter l)" using al_wf_cases [OF assms(1)] .
  define xs where "xs = al_elems l"
  define c where "c = al_changeCounter l"
  have l: "l = al_of xs k c" using l by (simp add: xs_def c_def)
  have i: "nat i < length xs" "length xs < AL_LIMIT" using assms l by simp_all
  have "pblListRemoveAt i l = (Some (xs ! nat i), al_of (take (nat i) xs @ drop (nat i + 1) xs) (Suc k) (c + 1))"
    using remove_at_of [OF i, of k c] assms(2,3) by (simp add: pblListRemoveAt_def l)
  then show "fst (pblListRemoveAt i l) = Some (al_elems l ! nat i)" "al_wf (snd (pblListRemoveAt i l))"
    "al_elems (snd (pblListRemoveAt i l)) = take (nat i) (al_elems l) @ drop (nat i + 1) (al_elems l)"
    "al_changeCounter (snd (pblListRemoveAt i l)) = al_changeCounter l + 1"
    "al_capacity (snd (pblListRemoveAt i l)) = al_capacity l"
    using l i by auto
qed

lemma clear_of: "pblListClear (al_of xs k c) = al_of [] (length xs + k) (c + 1)"
  by (simp add: pblListClear_def memset0_def al_of_def replicate_add)

lemma grow_fits: "n \<le> pblGrow n c" "c \<le> pblGrow n c"
proof (induction n c rule: pblGrow.induct)
  case (1 n c)
  { case 1 show ?case using "1.IH" by (subst pblGrow.simps) simp }
  { case 2 show ?case using "1.IH" by (subst pblGrow.simps) auto }
qed

lemma grow_once: "c < n \<Longrightarrow> n \<le> c * 2 + 1 \<Longrightarrow> pblGrow n c = c * 2 + 1"
  by (simp add: pblGrow.simps [of n c] pblGrow.simps [of n "c * 2 + 1"] pblGrow.simps [of n "Suc (c * 2)"])

lemma set_size_of:
  assumes "0 < n" "n \<noteq> length xs" and "n < AL_LIMIT" and "length xs + k \<le> 2 * AL_LIMIT"
  shows "\<exists>k' c'. pblArrayListSetSize (int n) (al_of xs k c) =
    (int n, al_of (take n xs @ replicate (n - length xs) None) k' c') \<and> c < c' \<and> n + k' \<le> 2 * AL_LIMIT"
proof -
  have fits: "max (length xs + k) PBLAL_INITIAL_CAPACITY * 2 + 1 \<le> INT_MAX"
    using assms(4) by (auto simp: AL_LIMIT_def INT_MAX_def PBLAL_INITIAL_CAPACITY_def max_def)
  consider (cut) "n < length xs" | (room) "length xs < n" "n \<le> length xs + k" | (grow) "length xs + k < n"
    using assms by linarith
  then show ?thesis
  proof cases
    case cut
    then have "replicate (length xs - n) None @ replicate k None = replicate (length xs + k - n) None"
      by (simp flip: replicate_add)
    then have "pblArrayListSetSize (int n) (al_of xs k c) = (int n, al_of (take n xs) (length xs + k - n) (c + 1))"
      using cut by (simp add: pblArrayListSetSize_def memset0_def al_of_def)
    then show ?thesis using cut assms(4) by (intro exI [of _ "length xs + k - n"] exI [of _ "c + 1"]) simp
  next
    case room
    then have "replicate k None = replicate (n - length xs) None @ replicate (length xs + k - n) None"
      by (simp flip: replicate_add)
    then have "pblArrayListSetSize (int n) (al_of xs k c) =
        (int n, al_of (xs @ replicate (n - length xs) None) (length xs + k - n) (c + 1))"
      using room by (simp add: pblArrayListSetSize_def al_of_def)
    then show ?thesis using room assms(4) by (intro exI [of _ "length xs + k - n"] exI [of _ "c + 1"]) simp
  next
    case grow
    define c0 where "c0 = max (length xs + k) PBLAL_INITIAL_CAPACITY"
    define m where "m = (if n > c0 * 2 + 1 then n else pblGrow n c0)"
    have m: "n \<le> m" using grow_fits by (simp add: m_def)
    have m2: "m \<le> 2 * AL_LIMIT"
    proof (cases "n \<le> c0 * 2 + 1")
      case True
      show ?thesis
      proof (cases "c0 < n")
        case True
        with \<open>n \<le> c0 * 2 + 1\<close> show ?thesis using assms(3) by (simp add: m_def grow_once)
      next
        case False
        then have "m = c0" by (simp add: m_def pblGrow.simps [of n c0])
        then show ?thesis using assms(4) by (auto simp: c0_def AL_LIMIT_def PBLAL_INITIAL_CAPACITY_def)
      qed
    qed (use assms(3) in \<open>simp add: m_def\<close>)
    have "replicate k None @ replicate (m - (length xs + k)) None =
        replicate (n - length xs) None @ replicate (m - n) None"
      using grow m by (simp flip: replicate_add)
    then have e: "snd (pblArrayListEnsureCapacity m (al_of xs k c)) =
        \<lparr>al_pointerArray = xs @ replicate (n - length xs) None @ replicate (m - n) None, al_size = length xs,
         al_capacity = m, al_changeCounter = c + 1, al_fault = False\<rparr>"
      using grow m by (simp add: pblArrayListEnsureCapacity_def al_of_def)
    have "pblArrayListSetSize (int n) (al_of xs k c) =
        (let l1 = snd (pblArrayListEnsureCapacity m (al_of xs k c))
         in (int n, l1\<lparr>al_size := n, al_changeCounter := al_changeCounter l1 + 1\<rparr>))"
      using grow fits unfolding m_def c0_def by (simp add: pblArrayListSetSize_def Let_def)
    then have "pblArrayListSetSize (int n) (al_of xs k c) =
        (int n, al_of (xs @ replicate (n - length xs) None) (m - n) (c + 1 + 1))"
      using grow m unfolding e by (simp add: al_of_def)
    then show ?thesis using grow m m2 by (intro exI [of _ "m - n"] exI [of _ "c + 1 + 1"]) simp
  qed
qed

lemma remove_range_of:
  assumes "f < t" "t \<le> length xs" "t - f < length xs" and "length xs < AL_LIMIT"
  shows "pblListRemoveRange (int f) (int t) (al_of xs k c) =
    (int (length xs - (t - f)), al_of (take f xs @ drop t xs) (t - f + k) (c + 1))"
proof -
  have "memset0 (length xs - (t - f)) (t - f)
      (if t < length xs then memmove f t (length xs - t) (xs @ replicate k None) else xs @ replicate k None) =
    take f xs @ drop t xs @ replicate (t - f + k) None"
    using assms by (auto simp: memset0_def memmove_def min_def simp flip: replicate_add)
  then show ?thesis using assms
    by (auto simp: pblListRemoveRange_def al_of_def Let_def nat_diff_distrib blocks_fit)
qed

section \<open>Array lists refine lists\<close>

text \<open>The operations as data, run on an array list and on the list of its elements.\<close>

datatype 'e listOp =
    OpAdd "'e option" | OpAddAt int "'e option" | OpRemoveAt int | OpPoll | OpGet int | OpSet int "'e option"
  | OpSize | OpIsEmpty | OpClear | OpSetSize int | OpRemoveRange int int | OpTrim

datatype 'e listResult = RInt int | RPtr "'e option option" | RBool bool | RNone

fun al_op :: "'e listOp \<Rightarrow> 'e PblArrayList \<Rightarrow> 'e listResult \<times> 'e PblArrayList" where
  "al_op (OpAdd e) l = map_prod RInt id (pblListAdd e l)"
| "al_op (OpAddAt i e) l = map_prod RInt id (pblArrayListAddAt i e l)"
| "al_op (OpRemoveAt i) l = map_prod RPtr id (pblListRemoveAt i l)"
| "al_op OpPoll l = map_prod RPtr id (pblListPoll l)"
| "al_op (OpGet i) l = (RPtr (pblListGet i l), l)"
| "al_op (OpSet i e) l = map_prod RPtr id (pblListSet i e l)"
| "al_op OpSize l = (RInt (int (pblListSize l)), l)"
| "al_op OpIsEmpty l = (RBool (pblListIsEmpty l), l)"
| "al_op OpClear l = (RNone, pblListClear l)"
| "al_op (OpSetSize n) l = map_prod RInt id (pblListSetSize n l)"
| "al_op (OpRemoveRange f t) l = map_prod RInt id (pblListRemoveRange f t l)"
| "al_op OpTrim l = map_prod RInt id (pblArrayListTrimToSize l)"

definition in_list :: "int \<Rightarrow> 'a list \<Rightarrow> bool" where "in_list i xs \<longleftrightarrow> 0 \<le> i \<and> i < int (length xs)"

fun list_op :: "'e listOp \<Rightarrow> 'e option list \<Rightarrow> 'e listResult \<times> 'e option list" where
  "list_op (OpAdd e) xs = (RInt (int (length xs) + 1), xs @ [e])"
| "list_op (OpAddAt i e) xs =
     (if 0 \<le> i \<and> i \<le> int (length xs) then (RInt (int (length xs) + 1), take (nat i) xs @ e # drop (nat i) xs)
      else (RInt (-1), xs))"
| "list_op (OpRemoveAt i) xs =
     (if in_list i xs then (RPtr (Some (xs ! nat i)), take (nat i) xs @ drop (nat i + 1) xs) else (RPtr None, xs))"
| "list_op OpPoll xs = (case xs of [] \<Rightarrow> (RPtr None, []) | x # xs' \<Rightarrow> (RPtr (Some x), xs'))"
| "list_op (OpGet i) xs = (RPtr (if in_list i xs then Some (xs ! nat i) else None), xs)"
| "list_op (OpSet i e) xs =
     (if in_list i xs then (RPtr (Some (xs ! nat i)), xs[nat i := e]) else (RPtr None, xs))"
| "list_op OpSize xs = (RInt (int (length xs)), xs)"
| "list_op OpIsEmpty xs = (RBool (xs = []), xs)"
| "list_op OpClear xs = (RNone, [])"
| "list_op (OpSetSize n) xs =
     (if n < 0 then (RInt (int (length xs)), xs)
      else (RInt n, take (nat n) xs @ replicate (nat n - length xs) None))"
| "list_op (OpRemoveRange f t) xs =
     (if in_list f xs \<and> 0 \<le> t \<and> t \<le> int (length xs)
      then if f < t then (RInt (int (length xs) - (t - f)), take (nat f) xs @ drop (nat t) xs) else (RInt (int (length xs)), xs)
      else (RInt (-1), xs))"
| "list_op OpTrim xs = (RInt (int (length xs)), xs)"

lemma set_of:
  "0 \<le> i \<Longrightarrow> i < int (length xs) \<Longrightarrow> pblListSet i e (al_of xs k c) = (Some (xs ! nat i), al_of (xs[nat i := e]) k c)"
  by (auto simp: pblListSet_def al_of_def nth_append list_update_append nat_less_iff)

lemma trim_of: "length xs < AL_LIMIT \<Longrightarrow> pblArrayListTrimToSize (al_of xs k c) = (int (length xs), al_of xs 0 c)"
  by (auto simp: pblArrayListTrimToSize_def al_of_def int_len_fits nat_mult_distrib)

text \<open>The limits: an operation leaves the list shorter than \<open>AL_LIMIT\<close>. Capacities are then at most the double.\<close>

definition list_small :: "'e listOp \<Rightarrow> 'e option list \<Rightarrow> bool" where
  "list_small p xs \<longleftrightarrow> length (snd (list_op p xs)) < AL_LIMIT"

definition al_ok :: "'e PblArrayList \<Rightarrow> bool" where
  "al_ok l \<longleftrightarrow> al_wf l \<and> al_size l < AL_LIMIT \<and> al_capacity l \<le> 2 * AL_LIMIT"

lemma al_ok_of [simp]: "al_ok (al_of xs k c) \<longleftrightarrow> length xs < AL_LIMIT \<and> length xs + k \<le> 2 * AL_LIMIT"
  by (simp add: al_ok_def)

definition al_refines :: "'r \<times> 'e PblArrayList \<Rightarrow> 'r \<times> 'e option list \<Rightarrow> bool" where
  "al_refines a b \<longleftrightarrow> fst a = fst b \<and> al_wf (snd a) \<and> al_elems (snd a) = snd b \<and> al_capacity (snd a) \<le> 2 * AL_LIMIT"

lemma al_op_refines:
  assumes "length xs < AL_LIMIT" and "length xs + k \<le> 2 * AL_LIMIT" and "list_small p xs"
  shows "al_refines (al_op p (al_of xs k c)) (list_op p xs)"
proof (cases p)
  case (OpAdd e)
  then show ?thesis using add_last [of "al_of xs k c" e] assms by (simp add: al_refines_def)
next
  case (OpAddAt i e)
  then show ?thesis using add_at [of "al_of xs k c" i e] assms
    by (auto simp: al_refines_def) (auto simp: pblArrayListAddAt_def)
next
  case (OpRemoveAt i)
  then show ?thesis using remove_at [of "al_of xs k c" i] assms
    by (auto simp: al_refines_def in_list_def) (auto simp: pblListRemoveAt_def)
next
  case OpPoll
  then show ?thesis using remove_at [of "al_of xs k c" 0] assms
    by (cases xs) (auto simp: al_refines_def pblListPoll_def pblListRemoveAt_def)
next
  case (OpGet i)
  then show ?thesis using assms by (auto simp: al_refines_def pblListGet_def in_list_def nth_append nat_less_iff)
next
  case (OpSet i e)
  then show ?thesis using set_of [of i xs e k c] assms by (auto simp: al_refines_def in_list_def) (auto simp: pblListSet_def)
next
  case (OpSetSize n)
  consider "n < 0" | "n = int (length xs)" | "n = 0" "xs \<noteq> []" | "0 < n" "n \<noteq> int (length xs)" by fastforce
  then show ?thesis
  proof cases
    case 4
    then have "nat n < AL_LIMIT" using assms(3) by (simp add: list_small_def OpSetSize min_def split: if_splits)
    then obtain k' c' where "pblArrayListSetSize n (al_of xs k c) =
        (n, al_of (take (nat n) xs @ replicate (nat n - length xs) None) k' c')" "nat n + k' \<le> 2 * AL_LIMIT"
      using set_size_of [of "nat n" xs k c] assms(2) 4 by (auto simp: nat_eq_iff)
    then show ?thesis using 4 OpSetSize by (auto simp: al_refines_def pblListSetSize_def min_def)
  qed (use OpSetSize assms in \<open>auto simp: al_refines_def pblListSetSize_def clear_of\<close>)
next
  case (OpRemoveRange f t)
  consider "\<not> (in_list f xs \<and> 0 \<le> t \<and> t \<le> int (length xs))" | "in_list f xs" "0 \<le> t" "t \<le> int (length xs)" "t \<le> f"
    | "f = 0" "t = int (length xs)" "xs \<noteq> []" | "in_list f xs" "f < t" "t \<le> int (length xs)" "t - f < int (length xs)"
    by (fastforce simp: in_list_def)
  then show ?thesis
  proof cases
    case 1
    then show ?thesis using OpRemoveRange assms
      by (cases "f < 0 \<or> int (length xs) \<le> f") (auto simp: al_refines_def pblListRemoveRange_def in_list_def)
  next
    case 4
    then have "pblListRemoveRange f t (al_of xs k c) =
        (int (length xs - (nat t - nat f)), al_of (take (nat f) xs @ drop (nat t) xs) (nat t - nat f + k) (c + 1))"
      using remove_range_of [of "nat f" "nat t" xs k c] assms(1) by (simp add: in_list_def nat_diff_distrib')
    then show ?thesis using 4 OpRemoveRange assms by (auto simp: al_refines_def in_list_def)
  qed (use OpRemoveRange assms in \<open>auto simp: al_refines_def pblListRemoveRange_def clear_of in_list_def\<close>)
qed (use assms in \<open>simp_all add: al_refines_def pblListSize_def pblListIsEmpty_def clear_of trim_of\<close>)

lemma al_elems_length: "al_wf l \<Longrightarrow> length (al_elems l) = al_size l"
  by (simp add: al_wf_def al_elems_def)

interpretation al: data_refinement al_ok al_elems list_small al_op list_op
proof
  fix l :: "'e PblArrayList" and p
  assume ok: "al_ok l" and small: "list_small p (al_elems l)"
  then obtain k where l: "l = al_of (al_elems l) k (al_changeCounter l)" using al_wf_cases al_ok_def by blast
  have "al_ok (al_of (al_elems l) k (al_changeCounter l))" using ok by (subst l [symmetric])
  then have "length (al_elems l) < AL_LIMIT" "length (al_elems l) + k \<le> 2 * AL_LIMIT" by (simp_all only: al_ok_of)
  from al_op_refines [OF this small, of "al_changeCounter l"]
  have ref: "al_refines (al_op p l) (list_op p (al_elems l))" by (simp only: l [symmetric])
  then have "al_size (snd (al_op p l)) < AL_LIMIT"
    using al_elems_length [of "snd (al_op p l)"] small by (simp add: al_refines_def list_small_def)
  then show "al_ok (snd (al_op p l))" using ref by (simp add: al_ok_def al_refines_def)
  show "map_prod id al_elems (al_op p l) = list_op p (al_elems l)"
    using ref by (cases "al_op p l"; cases "list_op p (al_elems l)") (simp add: al_refines_def)
qed



text \<open>
  Beyond the limit: with 268435457 pointers, which \<open>pblListSetSize\<close> gives without complaint, removing the
  first one gives \<open>memmove\<close> a negative length.
\<close>

lemma array_list_overflow:
  assumes "al_size l = 268435457"
  shows "al_fault (snd (pblListRemoveAt 0 l))"
proof -
  have "int_len (268435456) < 0" by (simp add: int_len_def)
  then show ?thesis using assms by (simp add: pblListRemoveAt_def pblArrayListRemoveAt_def Let_def move_block_def)
qed

end
