(* ===== verification/PblIterator.thy ===== *)
theory PblIterator
  imports PblList PblMap
begin

text \<open>
  The iterators of the Program Base Library (embedded/libpbl/src/pblIterator.c and the element
  pointers of pblSet.c) over hash sets, which maps are, and array lists. An iterator stops being
  usable when its collection is changed by anything but itself. A pointer into the array of a hash set
  is its index; the null pointer and \<open>(void*)-1\<close> are \<open>None\<close>. Tree sets and linked lists are left out.
\<close>

section \<open>State\<close>

datatype 'e PblCollection = PblHash "'e PblHashSet" | PblArray "'e PblArrayList"

fun coll_size :: "'e PblCollection \<Rightarrow> nat" where
  "coll_size (PblHash st) = setSize st"
| "coll_size (PblArray l) = al_size l"

fun coll_changeCounter :: "'e PblCollection \<Rightarrow> nat" where
  "coll_changeCounter (PblHash st) = changeCounter st"
| "coll_changeCounter (PblArray l) = al_changeCounter l"

record PblIterator =
  it_index :: int
  it_lastIndexReturned :: int
  it_changeCounter :: nat
  it_current :: "nat option"
  it_prev :: "nat option"
  it_next :: "nat option"

section \<open>Element pointers of a hash set\<close>

definition pblHashElementFirst :: "'e PblHashSet \<Rightarrow> nat option" where
  "pblHashElementFirst st =
     (if setSize st = 0 then None else find (\<lambda>i. pointerArray st ! i \<noteq> None) [0..<capacity st])"

definition pblHashElementNext :: "'e PblHashSet \<Rightarrow> nat \<Rightarrow> nat option" where
  "pblHashElementNext st p =
     (if setSize st = 0 then None else find (\<lambda>i. pointerArray st ! i \<noteq> None) [p + 1..<capacity st])"

definition pblHashElementLast :: "'e PblHashSet \<Rightarrow> nat option" where
  "pblHashElementLast st =
     (if setSize st = 0 then None else find (\<lambda>i. pointerArray st ! i \<noteq> None) (rev [0..<capacity st]))"

definition pblHashElementPrevious :: "'e PblHashSet \<Rightarrow> nat \<Rightarrow> nat option" where
  "pblHashElementPrevious st p =
     (if setSize st = 0 then None else find (\<lambda>i. pointerArray st ! i \<noteq> None) (rev [0..<p]))"

section \<open>Operations\<close>

definition pblIteratorInit :: "'e PblCollection \<Rightarrow> PblIterator" where
  "pblIteratorInit c =
     \<lparr>it_index = 0, it_lastIndexReturned = -1, it_changeCounter = coll_changeCounter c,
      it_current = None, it_prev = None,
      it_next = (case c of PblHash st \<Rightarrow> pblHashElementFirst st | PblArray l \<Rightarrow> None)\<rparr>"

definition pblIteratorReverseInit :: "'e PblCollection \<Rightarrow> PblIterator" where
  "pblIteratorReverseInit c =
     \<lparr>it_index = int (coll_size c), it_lastIndexReturned = -1, it_changeCounter = coll_changeCounter c,
      it_current = None, it_prev = (case c of PblHash st \<Rightarrow> pblHashElementLast st | PblArray l \<Rightarrow> None),
      it_next = None\<rparr>"

definition pblIteratorHasPrevious :: "'e PblCollection \<Rightarrow> PblIterator \<Rightarrow> int" where
  "pblIteratorHasPrevious c it =
     (if it_changeCounter it \<noteq> coll_changeCounter c then -1
      else if it_index it > 0 \<and> it_index it \<le> int (coll_size c) then 1 else 0)"

definition pblIteratorHasNext :: "'e PblCollection \<Rightarrow> PblIterator \<Rightarrow> int" where
  "pblIteratorHasNext c it =
     (if it_changeCounter it \<noteq> coll_changeCounter c then -1
      else if it_index it \<ge> 0 \<and> it_index it < int (coll_size c) then 1 else 0)"

text \<open>The result is \<open>None\<close> for \<open>(void*)-1\<close>, else the element, which for a list may be a null pointer.\<close>

definition pblIteratorNext :: "'e PblCollection \<Rightarrow> PblIterator \<Rightarrow> 'e option option \<times> PblIterator" where
  "pblIteratorNext c it =
     (if pblIteratorHasNext c it < 0 then (None, it)
      else if pblIteratorHasNext c it = 0 then (None, it)
      else let moved = (\<lambda>it. it\<lparr>it_lastIndexReturned := it_index it, it_index := it_index it + 1\<rparr>)
           in case c of
                PblHash st \<Rightarrow>
                  (case it_next it of
                     None \<Rightarrow> (None, it)
                   | Some p \<Rightarrow> (Some (pointerArray st ! p),
                                moved (it\<lparr>it_current := Some p, it_prev := Some p, it_next := pblHashElementNext st p\<rparr>)))
              | PblArray l \<Rightarrow>
                  (case pblListGet (it_index it) l of
                     None \<Rightarrow> (None, it)
                   | Some e \<Rightarrow> (Some e, moved it)))"

definition pblIteratorPrevious :: "'e PblCollection \<Rightarrow> PblIterator \<Rightarrow> 'e option option \<times> PblIterator" where
  "pblIteratorPrevious c it =
     (if pblIteratorHasPrevious c it < 0 then (None, it)
      else if pblIteratorHasPrevious c it = 0 then (None, it)
      else let moved = (\<lambda>it. it\<lparr>it_index := it_index it - 1, it_lastIndexReturned := it_index it - 1\<rparr>)
           in case c of
                PblHash st \<Rightarrow>
                  (case it_prev it of
                     None \<Rightarrow> (None, it)
                   | Some p \<Rightarrow> (Some (pointerArray st ! p),
                                moved (it\<lparr>it_current := Some p, it_next := Some p, it_prev := pblHashElementPrevious st p\<rparr>)))
              | PblArray l \<Rightarrow>
                  (case pblListGet (it_index it - 1) l of
                     None \<Rightarrow> (None, it)
                   | Some e \<Rightarrow> (Some e, moved it)))"

text \<open>Removing the element that was returned last. Hash sets are refused.\<close>

definition pblIteratorRemove :: "'e PblCollection \<Rightarrow> PblIterator \<Rightarrow> int \<times> 'e PblCollection \<times> PblIterator" where
  "pblIteratorRemove c it =
     (if it_changeCounter it \<noteq> coll_changeCounter c then (-1, c, it)
      else case c of
             PblHash st \<Rightarrow> (-1, c, it)
           | PblArray l \<Rightarrow>
               if it_lastIndexReturned it < 0 then (-1, c, it)
               else (case pblArrayListRemoveAt (it_lastIndexReturned it) l of
                       (None, l') \<Rightarrow> (-1, c, it)
                     | (Some e, l') \<Rightarrow>
                         (int (al_size l'), PblArray l',
                          it\<lparr>it_index := (if it_lastIndexReturned it < it_index it then it_index it - 1 else it_index it),
                             it_current := None, it_lastIndexReturned := -1, it_changeCounter := al_changeCounter l'\<rparr>)))"

definition pblIteratorSet :: "'e option \<Rightarrow> 'e PblCollection \<Rightarrow> PblIterator \<Rightarrow> 'e option option \<times> 'e PblCollection" where
  "pblIteratorSet element c it =
     (case c of
        PblHash st \<Rightarrow> (None, c)
      | PblArray l \<Rightarrow>
          if it_changeCounter it \<noteq> al_changeCounter l then (None, c)
          else if it_lastIndexReturned it < 0 then (None, c)
          else map_prod id PblArray (pblListSet (it_lastIndexReturned it) element l))"

section \<open>Loops\<close>

text \<open>The loops over a collection that the library's clients write, here collecting the elements.\<close>

function it_forward :: "'e PblCollection \<Rightarrow> PblIterator \<Rightarrow> 'e option list" where
  "it_forward c it =
     (if pblIteratorHasNext c it > 0
      then (case pblIteratorNext c it of (None, it') \<Rightarrow> [] | (Some e, it') \<Rightarrow> e # it_forward c it') else [])"
  by pat_completeness auto
termination
  by (relation "measure (\<lambda>(c, it). nat (int (coll_size c) - it_index it))")
    (auto simp: pblIteratorNext_def pblIteratorHasNext_def Let_def split: if_splits option.splits PblCollection.splits)

function it_backward :: "'e PblCollection \<Rightarrow> PblIterator \<Rightarrow> 'e option list" where
  "it_backward c it =
     (if pblIteratorHasPrevious c it > 0
      then (case pblIteratorPrevious c it of (None, it') \<Rightarrow> [] | (Some e, it') \<Rightarrow> e # it_backward c it') else [])"
  by pat_completeness auto
termination
  by (relation "measure (\<lambda>(c, it). nat (it_index it))")
    (auto simp: pblIteratorPrevious_def pblIteratorHasPrevious_def Let_def split: if_splits option.splits PblCollection.splits)

declare it_forward.simps [simp del] it_backward.simps [simp del]

section \<open>What an iterator visits\<close>

fun coll_wf :: "'e PblCollection \<Rightarrow> bool" where
  "coll_wf (PblHash st) \<longleftrightarrow> length (pointerArray st) = capacity st \<and> setSize st = length (somes (pointerArray st))"
| "coll_wf (PblArray l) \<longleftrightarrow> al_wf l"

fun coll_elems :: "'e PblCollection \<Rightarrow> 'e option list" where
  "coll_elems (PblHash st) = map Some (somes (pointerArray st))"
| "coll_elems (PblArray l) = al_elems l"

lemma coll_size_elems: "coll_wf c \<Longrightarrow> coll_size c = length (coll_elems c)"
  by (cases c) (auto simp: al_wf_def al_elems_def)

lemma slots_next:
  assumes "find (\<lambda>i. xs ! i \<noteq> None) [a..<length xs] = r"
  shows "case r of None \<Rightarrow> somes (drop a xs) = []
     | Some p \<Rightarrow> \<exists>e. p < length xs \<and> xs ! p = Some e \<and> somes (drop a xs) = e # somes (drop (p + 1) xs)"
  using assms
proof (induction "length xs - a" arbitrary: a)
  case (Suc n)
  then have a: "a < length xs" by simp
  then have u: "[a..<length xs] = a # [a + 1..<length xs]" and d: "drop a xs = xs ! a # drop (a + 1) xs"
    by (simp_all add: upt_conv_Cons Cons_nth_drop_Suc)
  show ?case
  proof (cases "xs ! a")
    case None
    then have "find (\<lambda>i. xs ! i \<noteq> None) [a + 1..<length xs] = r" using Suc.prems u by simp
    moreover have "n = length xs - (a + 1)" using Suc.hyps(2) by simp
    moreover have "somes (drop a xs) = somes (drop (a + 1) xs)" using None d by simp
    ultimately show ?thesis using Suc.hyps(1) [of "a + 1"] by presburger
  qed (use Suc.prems u d a in auto)
qed auto

lemma slots_previous:
  assumes "find (\<lambda>i. xs ! i \<noteq> None) (rev [0..<b]) = r" and "b \<le> length xs"
  shows "case r of None \<Rightarrow> somes (take b xs) = []
     | Some p \<Rightarrow> \<exists>e. p < b \<and> xs ! p = Some e \<and> somes (take b xs) = somes (take p xs) @ [e]"
  using assms
proof (induction b)
  case (Suc b)
  have t: "take (Suc b) xs = take b xs @ [xs ! b]" using Suc.prems by (simp add: take_Suc_conv_app_nth)
  show ?case
  proof (cases "xs ! b")
    case None
    then have "find (\<lambda>i. xs ! i \<noteq> None) (rev [0..<b]) = r" using Suc.prems by simp
    then show ?thesis using Suc.IH Suc.prems None t by (auto split: option.splits)
  qed (use Suc.prems t in auto)
qed auto

lemma hash_forward:
  assumes "coll_wf (PblHash st)" and "it_changeCounter it = changeCounter st"
    and "it_next it = (if setSize st = 0 then None else find (\<lambda>i. pointerArray st ! i \<noteq> None) [a..<capacity st])"
    and "it_index it = int (setSize st) - int (length (somes (drop a (pointerArray st))))"
  shows "it_forward (PblHash st) it = map Some (somes (drop a (pointerArray st)))"
  using assms(2-)
proof (induction "length (somes (drop a (pointerArray st)))" arbitrary: a it)
  case 0
  then show ?case by (subst it_forward.simps) (simp add: pblIteratorHasNext_def)
next
  case (Suc n)
  have total: "length (somes (drop a (pointerArray st))) \<le> setSize st"
    using assms(1) somes_append [of "take a (pointerArray st)" "drop a (pointerArray st)"] by simp
  have ne: "somes (drop a (pointerArray st)) \<noteq> []" using Suc.hyps(2) by fastforce
  have "pblIteratorHasNext (PblHash st) it = 1"
    using ne Suc.prems Suc.hyps(2) total by (simp add: pblIteratorHasNext_def)
  moreover obtain p e where p: "it_next it = Some p" "pointerArray st ! p = Some e"
    "somes (drop a (pointerArray st)) = e # somes (drop (p + 1) (pointerArray st))"
  proof -
    have "setSize st \<noteq> 0" using total Suc.hyps(2) by simp
    then have "find (\<lambda>i. pointerArray st ! i \<noteq> None) [a..<length (pointerArray st)] = it_next it"
      using Suc.prems assms(1) by simp
    then show thesis using slots_next [of "pointerArray st" a "it_next it"] Suc.hyps(2) that by (auto split: option.splits)
  qed
  ultimately show ?case
    using Suc.hyps(1) [of "p + 1"] Suc.hyps(2) Suc.prems total
    by (subst it_forward.simps) (simp add: pblIteratorNext_def pblHashElementNext_def)
qed

lemma hash_backward:
  assumes "coll_wf (PblHash st)" and "b \<le> capacity st" and "it_changeCounter it = changeCounter st"
    and "it_prev it = (if setSize st = 0 then None else find (\<lambda>i. pointerArray st ! i \<noteq> None) (rev [0..<b]))"
    and "it_index it = int (length (somes (take b (pointerArray st))))"
  shows "it_backward (PblHash st) it = map Some (rev (somes (take b (pointerArray st))))"
  using assms(2-)
proof (induction "length (somes (take b (pointerArray st)))" arbitrary: b it)
  case 0
  then show ?case by (subst it_backward.simps) (simp add: pblIteratorHasPrevious_def)
next
  case (Suc n)
  have total: "length (somes (take b (pointerArray st))) \<le> setSize st"
    using assms(1) somes_append [of "take b (pointerArray st)" "drop b (pointerArray st)"] by simp
  have ne: "somes (take b (pointerArray st)) \<noteq> []" using Suc.hyps(2) by fastforce
  have "pblIteratorHasPrevious (PblHash st) it = 1"
    using ne Suc.prems Suc.hyps(2) total by (simp add: pblIteratorHasPrevious_def)
  moreover obtain p e where p: "it_prev it = Some p" "p < b" "pointerArray st ! p = Some e"
    "somes (take b (pointerArray st)) = somes (take p (pointerArray st)) @ [e]"
  proof -
    have "setSize st \<noteq> 0" using total Suc.hyps(2) by simp
    then have "find (\<lambda>i. pointerArray st ! i \<noteq> None) (rev [0..<b]) = it_prev it"
      using Suc.prems by simp
    then show thesis using slots_previous [of "pointerArray st" b "it_prev it"] ne that assms(1) Suc.prems(1)
      by (auto split: option.splits)
  qed
  ultimately show ?case
    using Suc.hyps(1) [of p] Suc.hyps(2) Suc.prems total
    by (subst it_backward.simps) (simp add: pblIteratorPrevious_def pblHashElementPrevious_def)
qed

lemma array_forward:
  assumes "al_wf l" "it_changeCounter it = al_changeCounter l" "it_index it = int i" "i \<le> al_size l"
  shows "it_forward (PblArray l) it = drop i (al_elems l)"
  using assms(2-)
proof (induction "al_size l - i" arbitrary: i it)
  case (Suc n)
  then have i: "i < al_size l" by simp
  have "pblIteratorNext (PblArray l) it = (Some (al_elems l ! i), it\<lparr>it_lastIndexReturned := int i, it_index := int (i + 1)\<rparr>)"
    using Suc.prems i by (simp add: pblIteratorNext_def pblIteratorHasNext_def pblListGet_def al_elems_def)
  moreover have "drop i (al_elems l) = al_elems l ! i # drop (i + 1) (al_elems l)"
    using assms(1) i Cons_nth_drop_Suc [of i "al_elems l"] by (simp add: al_elems_def al_wf_def)
  ultimately show ?case
    using Suc.hyps(1) [of "i + 1"] Suc.hyps(2) Suc.prems i
    by (subst it_forward.simps) (simp add: pblIteratorHasNext_def)
qed (subst it_forward.simps, simp add: pblIteratorHasNext_def al_elems_def)

lemma array_backward:
  assumes "al_wf l" "it_changeCounter it = al_changeCounter l" "it_index it = int i" "i \<le> al_size l"
  shows "it_backward (PblArray l) it = rev (take i (al_elems l))"
  using assms(2-)
proof (induction i arbitrary: it)
  case (Suc i)
  have "pblIteratorPrevious (PblArray l) it = (Some (al_elems l ! i), it\<lparr>it_index := int i, it_lastIndexReturned := int i\<rparr>)"
    using Suc.prems by (simp add: pblIteratorPrevious_def pblIteratorHasPrevious_def pblListGet_def al_elems_def)
  moreover have "take (Suc i) (al_elems l) = take i (al_elems l) @ [al_elems l ! i]"
    using assms(1) Suc.prems by (simp add: take_Suc_conv_app_nth al_elems_def al_wf_def)
  ultimately show ?case
    using Suc.IH Suc.prems by (subst it_backward.simps) (simp add: pblIteratorHasPrevious_def)
qed (subst it_backward.simps, simp add: pblIteratorHasPrevious_def)

text \<open>
  C29: a loop over an unchanged collection gets every element of it once, a hash set's in the order of
  its slots and a list's in the order of the list, and a loop backwards gets them in the opposite order.
\<close>

theorem iterator_visits_all:
  assumes "coll_wf c"
  shows "it_forward c (pblIteratorInit c) = coll_elems c \<and>
    it_backward c (pblIteratorReverseInit c) = rev (coll_elems c)"
proof (cases c)
  case (PblHash st)
  have "it_forward c (pblIteratorInit c) = map Some (somes (drop 0 (pointerArray st)))"
    unfolding PblHash using assms PblHash
    by (intro hash_forward) (auto simp: pblIteratorInit_def pblHashElementFirst_def)
  moreover have "it_backward c (pblIteratorReverseInit c) = map Some (rev (somes (take (capacity st) (pointerArray st))))"
    unfolding PblHash using assms PblHash
    by (intro hash_backward) (auto simp: pblIteratorReverseInit_def pblHashElementLast_def)
  ultimately show ?thesis using assms PblHash by (simp add: rev_map)
next
  case (PblArray l)
  have "it_forward c (pblIteratorInit c) = drop 0 (al_elems l)"
    unfolding PblArray using assms PblArray by (intro array_forward) (auto simp: pblIteratorInit_def)
  moreover have "it_backward c (pblIteratorReverseInit c) = rev (take (al_size l) (al_elems l))"
    unfolding PblArray using assms PblArray by (intro array_backward) (auto simp: pblIteratorReverseInit_def)
  ultimately show ?thesis using PblArray by (simp add: al_elems_def)
qed

section \<open>Iterators over maps\<close>

lemma coll_wf_map: "map_wf st \<Longrightarrow> coll_wf (PblHash st)"
  by (auto simp: map_wf_def hs_wf_def table_shape_def)

lemma rep_map_wf: "map_wf (Rep_PblMap m)" using Rep_PblMap [of m] by simp

text \<open>The entries a module gets from an iterator over its table are those of the model's traversals.\<close>

definition entry_pair :: "'v pblElement option \<Rightarrow> bytes \<times> 'v" where
  "entry_pair e = (elemKey (the e), the (entryValue (the e)))"

lemma entry_pairs:
  "\<forall>e \<in> set es. entryValue e \<noteq> None \<Longrightarrow>
   map entry_pair (map Some es) = List.map_filter (\<lambda>e. map_option (Pair (elemKey e)) (entryValue e)) es"
  by (induction es) (auto simp: map_filter_simps entry_pair_def)

lemma map_iterator:
  "map entry_pair (it_forward (PblHash (Rep_PblMap m)) (pblIteratorInit (PblHash (Rep_PblMap m)))) = pblMapEntries m"
  "map entry_pair (it_backward (PblHash (Rep_PblMap m)) (pblIteratorReverseInit (PblHash (Rep_PblMap m)))) = rev (pblMapEntries m)"
proof -
  have w: "coll_wf (PblHash (Rep_PblMap m))" by (rule coll_wf_map [OF rep_map_wf])
  have f: "it_forward (PblHash (Rep_PblMap m)) (pblIteratorInit (PblHash (Rep_PblMap m))) = map Some (somes (pointerArray (Rep_PblMap m)))"
    using hash_forward [OF w, of "pblIteratorInit (PblHash (Rep_PblMap m))" 0] w
    by (simp add: pblIteratorInit_def pblHashElementFirst_def)
  have b: "it_backward (PblHash (Rep_PblMap m)) (pblIteratorReverseInit (PblHash (Rep_PblMap m))) =
      map Some (rev (somes (pointerArray (Rep_PblMap m))))"
    using hash_backward [OF w, of "capacity (Rep_PblMap m)" "pblIteratorReverseInit (PblHash (Rep_PblMap m))"] w
    by (simp add: pblIteratorReverseInit_def pblHashElementLast_def)
  have "map entry_pair (map Some (somes (pointerArray (Rep_PblMap m)))) = pblMapEntries m"
    unfolding pblMapEntries.rep_eq entries_raw_def
    by (rule entry_pairs) (use rep_map_wf [of m] in \<open>simp add: map_wf_def\<close>)
  then show "map entry_pair (it_forward (PblHash (Rep_PblMap m)) (pblIteratorInit (PblHash (Rep_PblMap m)))) = pblMapEntries m"
    "map entry_pair (it_backward (PblHash (Rep_PblMap m)) (pblIteratorReverseInit (PblHash (Rep_PblMap m)))) = rev (pblMapEntries m)"
    unfolding f b rev_map [symmetric] by (simp_all add: rev_map)
qed

text \<open>
  When an entry is removed from the map, or a new one added, every iterator that was over it reports
  the modification with -1 and gives \<open>(void*)-1\<close> for the next and the previous entry. -1 counts as
  true: a loop that does not compare with 0 takes \<open>(void*)-1\<close> for an entry.
\<close>

theorem iterator_modified:
  assumes "map_wf st" and "pblMapRemove_raw st k = Some (Some v, st')" and "it_changeCounter it \<le> changeCounter st"
  shows "pblIteratorHasNext (PblHash st') it = -1 \<and> pblIteratorHasPrevious (PblHash st') it = -1 \<and>
    pblIteratorNext (PblHash st') it = (None, it) \<and> pblIteratorPrevious (PblHash st') it = (None, it)"
proof -
  have "changeCounter st' = changeCounter st + 1"
    by (rule pblMapRemove_raw_ok [OF assms(1), of k]) (use assms(2) in \<open>metis option.distinct(1) option.inject prod.inject\<close>)
  then have "it_changeCounter it \<noteq> changeCounter st'" using assms(3) by simp
  then show ?thesis
    by (simp add: pblIteratorHasNext_def pblIteratorHasPrevious_def pblIteratorNext_def pblIteratorPrevious_def)
qed

theorem iterator_visits_all_witness:
  "it_forward (PblHash one_entry) (pblIteratorInit (PblHash one_entry)) = coll_elems (PblHash one_entry) \<and>
   it_backward (PblHash one_entry) (pblIteratorReverseInit (PblHash one_entry)) = rev (coll_elems (PblHash one_entry))"
  by (rule iterator_visits_all [OF coll_wf_map [OF one_entry_wf]])

section \<open>Removing while iterating\<close>

text \<open>Only an array list's iterator may remove: the loop that deletes what a condition selects.\<close>

function it_sweep :: "('e option \<Rightarrow> bool) \<Rightarrow> 'e PblCollection \<Rightarrow> PblIterator \<Rightarrow> 'e PblCollection" where
  "it_sweep P c it =
     (if pblIteratorHasNext c it > 0
      then (case pblIteratorNext c it of
              (None, it') \<Rightarrow> c
            | (Some e, it') \<Rightarrow>
                if P e then (case pblIteratorRemove c it' of (rc, c', it'') \<Rightarrow> if rc < 0 then c else it_sweep P c' it'')
                else it_sweep P c it')
      else c)"
  by pat_completeness auto
termination
  by (relation "measure (\<lambda>(P, c, it). nat (int (coll_size c) - it_index it))")
    (auto simp: pblIteratorNext_def pblIteratorHasNext_def pblIteratorRemove_def pblArrayListRemoveAt_def Let_def
      split: if_splits option.splits PblCollection.splits prod.splits)

declare it_sweep.simps [simp del]

lemma sweep_from:
  assumes "al_wf l" "it_changeCounter it = al_changeCounter l" "it_index it = int i" "i \<le> al_size l" "al_size l < AL_LIMIT"
  shows "\<exists>l'. it_sweep P (PblArray l) it = PblArray l' \<and> al_wf l' \<and>
    al_elems l' = take i (al_elems l) @ filter (\<lambda>e. \<not> P e) (drop i (al_elems l))"
  using assms
proof (induction "al_size l - i" arbitrary: i it l)
  case 0
  then show ?case by (subst it_sweep.simps) (auto simp: pblIteratorHasNext_def al_elems_def)
next
  case (Suc n)
  then have i: "i < al_size l" by simp
  define e where "e = al_elems l ! i"
  have len: "length (al_elems l) = al_size l" using Suc.prems(1) by (simp add: al_wf_def al_elems_def)
  have d: "drop i (al_elems l) = e # drop (i + 1) (al_elems l)" and t: "take (i + 1) (al_elems l) = take i (al_elems l) @ [e]"
    using i len by (simp_all add: e_def Cons_nth_drop_Suc take_Suc_conv_app_nth)
  define it1 where "it1 = it\<lparr>it_lastIndexReturned := int i, it_index := int i + 1\<rparr>"
  have next1: "pblIteratorHasNext (PblArray l) it = 1" "pblIteratorNext (PblArray l) it = (Some e, it1)"
    using Suc.prems i by (simp_all add: pblIteratorNext_def pblIteratorHasNext_def pblListGet_def al_elems_def it1_def e_def)
  show ?case
  proof (cases "P e")
    case True
    obtain l' where r: "pblArrayListRemoveAt (int i) l = (Some e, l')" "al_wf l'"
      "al_elems l' = take i (al_elems l) @ drop (i + 1) (al_elems l)"
      using remove_at [OF Suc.prems(1) _ _ Suc.prems(5), of "int i"] i
      by (cases "pblArrayListRemoveAt (int i) l") (auto simp: pblListRemoveAt_def e_def)
    have s: "al_size l' = al_size l - 1"
      using r(1) i by (auto simp: pblArrayListRemoveAt_def Let_def)
    define it2 where "it2 = it1\<lparr>it_index := int i, it_current := None, it_lastIndexReturned := -1,
      it_changeCounter := al_changeCounter l'\<rparr>"
    have "pblIteratorRemove (PblArray l) it1 = (int (al_size l'), PblArray l', it2)"
      using r(1) Suc.prems by (simp add: pblIteratorRemove_def it1_def it2_def)
    then have "it_sweep P (PblArray l) it = it_sweep P (PblArray l') it2"
      using True next1 by (subst it_sweep.simps) simp
    moreover have "take i (al_elems l') = take i (al_elems l)" "drop i (al_elems l') = drop (i + 1) (al_elems l)"
      using r(3) i len by simp_all
    ultimately show ?thesis
      using Suc.hyps(1) [of l' i it2] Suc.hyps(2) Suc.prems(5) r(2) s i True d by (simp add: it2_def)
  next
    case False
    then have "it_sweep P (PblArray l) it = it_sweep P (PblArray l) it1"
      using next1 by (subst it_sweep.simps) simp
    then show ?thesis
      using Suc.hyps(1) [of l "i + 1" it1] Suc.hyps(2) Suc.prems i False d t by (simp add: it1_def)
  qed
qed

theorem sweep_filters:
  assumes "al_wf l" and "al_size l < AL_LIMIT"
  shows "\<exists>l'. it_sweep P (PblArray l) (pblIteratorInit (PblArray l)) = PblArray l' \<and> al_wf l' \<and>
    al_elems l' = filter (\<lambda>e. \<not> P e) (al_elems l)"
  using sweep_from [OF assms(1) _ _ _ assms(2), of "pblIteratorInit (PblArray l)" 0 P] by (simp add: pblIteratorInit_def)

end
