(* ===== verification/StringArr.thy ===== *)
theory StringArr
  imports TeoTypes
begin

text \<open>
  Arrays of strings (utils/string_arr.c): adding, moving, splitting a text at separators with quoted
  parts kept together, and joining. A string is its bytes without the terminating zero; an array is
  the list of its strings, the null pointer the empty list. Splitting writes into the text it is
  given: spaces between quotes are replaced by a character that does not occur, and put back at the end.
\<close>

section \<open>Arrays\<close>

definition ksnet_stringArrCreate :: "bytes list" where "ksnet_stringArrCreate = []"

definition ksnet_stringArrLength :: "bytes list \<Rightarrow> nat" where "ksnet_stringArrLength arr = length arr"

definition ksnet_stringArrAdd :: "bytes list \<Rightarrow> bytes \<Rightarrow> bytes list" where
  "ksnet_stringArrAdd arr str = arr @ [cstr str]"

text \<open>The loops of moving, which shift the strings in between until they reach the target.\<close>

function move_up :: "bytes \<Rightarrow> nat \<Rightarrow> nat \<Rightarrow> bytes list \<Rightarrow> int \<times> bytes list" where
  "move_up frm i to arr =
     (if i < length arr
      then let arr1 = arr[i - 1 := arr ! i]
           in if i = to then (1, arr1[i := frm]) else move_up frm (i + 1) to arr1
      else (0, arr))"
  by pat_completeness auto
termination by (relation "measure (\<lambda>(frm, i, to, arr). length arr - i)") auto

fun move_down :: "bytes \<Rightarrow> nat \<Rightarrow> nat \<Rightarrow> bytes list \<Rightarrow> int \<times> bytes list" where
  "move_down frm i to arr =
     (let arr1 = arr[i + 1 := arr ! i]
      in if i = to then (1, arr1[i := frm])
         else (case i of 0 \<Rightarrow> (0, arr1) | Suc j \<Rightarrow> move_down frm j to arr1))"

declare move_up.simps [simp del] move_down.simps [simp del]

definition ksnet_stringArrMoveTo :: "bytes list \<Rightarrow> nat \<Rightarrow> nat \<Rightarrow> int \<times> bytes list" where
  "ksnet_stringArrMoveTo arr fromIdx toIdx =
     (if arr \<noteq> [] \<and> fromIdx < length arr \<and> toIdx < length arr \<and> fromIdx \<noteq> toIdx
      then if fromIdx < toIdx then move_up (arr ! fromIdx) (fromIdx + 1) toIdx arr
           else move_down (arr ! fromIdx) (fromIdx - 1) toIdx arr
      else (0, arr))"

section \<open>Splitting and joining\<close>

definition find_replace_to_char :: "bytes \<Rightarrow> bytes \<Rightarrow> u8" where
  "find_replace_to_char str replace_to_str =
     (case find (\<lambda>c. c \<notin> set str) replace_to_str of None \<Rightarrow> 0 | Some c \<Rightarrow> c)"

definition quota :: u8 where "quota = 34"
definition blank :: u8 where "blank = 32"

text \<open>The bytes up to the next quote or the end of the text.\<close>

definition scan :: "bytes \<Rightarrow> bytes" where "scan s = takeWhile (\<lambda>c. c \<noteq> 0 \<and> c \<noteq> quota) s"

text \<open>
  The text is scanned from quote to quote up to the next zero byte. The result says whether something
  was replaced.
\<close>

function replace_char_between_quotas :: "u8 \<Rightarrow> u8 \<Rightarrow> bytes \<Rightarrow> bool \<times> bytes" where
  "replace_char_between_quotas replace_from replace_to str =
     (let a = scan str
      in case drop (length a) str of
           [] \<Rightarrow> (False, str)
         | q # s1 \<Rightarrow>
             if q = 0 then (False, str)
             else let b = scan s1
                  in (case drop (length b) s1 of
                        [] \<Rightarrow> (False, str)
                      | q' # s2 \<Rightarrow>
                          if q' = 0 then (False, str)
                          else (case replace_char_between_quotas replace_from replace_to s2 of (r, s2') \<Rightarrow>
                                  (replace_from \<in> set b \<or> r,
                                   a @ q # map (\<lambda>c. if c = replace_from then replace_to else c) b @ q' # s2'))))"
  by pat_completeness auto
termination
proof (relation "measure (\<lambda>(f, t, s). length s)", goal_cases)
  case (2 f t str a q s1 b q' s2)
  have "length (drop (length a) str) = Suc (length s1)" "length (drop (length b) s1) = Suc (length s2)"
    using 2 by simp_all
  then show ?case by simp
qed simp

declare replace_char_between_quotas.simps [simp del]

text \<open>
  The characters that may stand for a space; the loop over the text: \<open>lb\<close> and \<open>rb\<close> are the bounds of
  the current part, \<open>parts\<close> their number so far, \<open>res\<close> the parts.
\<close>

definition replace_to_str :: bytes where
  "replace_to_str = [95, 36, 35, 37, 42, 64, 33, 45, 43, 124, 1]"

function split_loop :: "bytes \<Rightarrow> bytes \<Rightarrow> bool \<Rightarrow> int \<Rightarrow> nat \<Rightarrow> nat \<Rightarrow> int \<Rightarrow> bytes list \<Rightarrow> bytes list \<times> nat" where
  "split_loop str separators with_empty max_parts lb rb parts res =
     (if rb < length str
      then let found = str ! rb \<in> set separators \<and> (with_empty \<or> rb \<ge> lb);
               res1 = (if found then res @ [take (rb - lb) (drop lb str)] else res);
               lb1 = (if found then rb + 1 else lb);
               parts1 = (if found then parts + 1 else parts)
           in if parts1 \<ge> max_parts - 1 \<and> max_parts \<noteq> 0 then (res1, lb1)
              else split_loop str separators with_empty max_parts lb1 (rb + 1) parts1 res1
      else (res, lb))"
  by pat_completeness auto
termination by (relation "measure (\<lambda>(str, seps, e, m, lb, rb, parts, res). length str - rb)") auto

declare split_loop.simps [simp del]

text \<open>The parts, and the text as it is afterwards.\<close>

definition ksnet_stringArrSplit :: "bytes \<Rightarrow> bytes \<Rightarrow> bool \<Rightarrow> int \<Rightarrow> bytes list \<times> bytes" where
  "ksnet_stringArrSplit string separators with_empty max_parts =
     (if string = [] then ([], string)
      else let replace_ch = find_replace_to_char string replace_to_str
           in case replace_char_between_quotas blank replace_ch string of (replaced, string1) \<Rightarrow>
                let str = cstr string1
                in case split_loop str separators with_empty max_parts 0 0 0 [] of (res, lb) \<Rightarrow>
                     let result = (if with_empty \<or> lb < length str then res @ [drop lb str] else res)
                     in if replaced
                        then (map (\<lambda>s. snd (replace_char_between_quotas replace_ch blank s)) result,
                              snd (replace_char_between_quotas replace_ch blank string1))
                        else (result, string1))"

fun join :: "bytes \<Rightarrow> bytes list \<Rightarrow> bytes" where
  "join separator [] = []"
| "join separator [s] = s"
| "join separator (s # ss) = s @ separator @ join separator ss"

definition combine_length :: "bytes list \<Rightarrow> bytes \<Rightarrow> nat" where
  "combine_length arr separator = sum_list (map (\<lambda>s. length s + length separator + 1) arr)"

definition ksnet_stringArrCombine :: "bytes list \<Rightarrow> bytes \<Rightarrow> bytes option" where
  "ksnet_stringArrCombine arr separator =
     (if arr = [] then None else if combine_length arr separator = 0 then None else Some (join separator arr))"

text \<open>Runs of the characters in \<open>extras\<close> are reduced to their first.\<close>

fun remove_extras_loop :: "bytes \<Rightarrow> bool \<Rightarrow> bytes \<Rightarrow> bytes" where
  "remove_extras_loop extras flg [] = []"
| "remove_extras_loop extras flg (c # cs) =
     (if c \<in> set extras then (if flg then remove_extras_loop extras flg cs else c # remove_extras_loop extras True cs)
      else c # remove_extras_loop extras False cs)"

definition remove_extras :: "bytes \<Rightarrow> bytes \<Rightarrow> bytes" where
  "remove_extras str extras = remove_extras_loop extras False str"

section \<open>Moving\<close>

lemma two_at:
  assumes "i + 1 < length xs"
  obtains ys a b zs where "xs = ys @ a # b # zs" "length ys = i"
proof -
  have "xs = take i xs @ xs ! i # xs ! (i + 1) # drop (i + 2) xs"
    using assms by (simp add: Cons_nth_drop_Suc)
  then show thesis using that [of "take i xs"] assms by simp
qed

lemma move_up_shift:
  "0 < i \<Longrightarrow> i \<le> to \<Longrightarrow> to < length arr \<Longrightarrow>
   move_up frm i to arr = (1, take (i - 1) arr @ take (to + 1 - i) (drop i arr) @ frm # drop (to + 1) arr)"
proof (induction "to - i" arbitrary: i arr)
  case 0
  then have i: "i = to" by simp
  obtain ys a b zs where arr: "arr = ys @ a # b # zs" "length ys = i - 1"
    by (rule two_at [of "i - 1" arr]) (use 0 i in auto)
  then have "to = Suc (length ys)" using 0 i by simp
  then show ?case using i by (subst move_up.simps) (simp add: arr(1) Let_def nth_append list_update_append)
next
  case (Suc n)
  obtain ys a b zs where arr: "arr = ys @ a # b # zs" "length ys = i - 1"
    by (rule two_at [of "i - 1" arr]) (use Suc.prems in auto)
  define m where "m = to - i - 1"
  have i: "i = Suc (length ys)" and to: "to = length ys + 2 + m" using Suc.prems Suc.hyps(2) arr by (simp_all add: m_def)
  let ?arr = "ys @ b # b # zs"
  have "move_up frm i to arr = move_up frm (i + 1) to ?arr"
    using i to by (subst move_up.simps) (simp add: arr(1) Let_def nth_append list_update_append)
  also have "\<dots> = (1, take i ?arr @ take (to - i) (drop (i + 1) ?arr) @ frm # drop (to + 1) ?arr)"
    using Suc.hyps(1) [of "i + 1" ?arr] Suc.hyps(2) Suc.prems i arr(1) by simp
  also have "\<dots> = (1, take (i - 1) arr @ take (to + 1 - i) (drop i arr) @ frm # drop (to + 1) arr)"
    by (simp add: arr(1) i to numeral_3_eq_3)
  finally show ?case .
qed

lemma move_down_shift:
  "to \<le> i \<Longrightarrow> i + 1 < length arr \<Longrightarrow>
   move_down frm i to arr = (1, take to arr @ frm # take (i + 1 - to) (drop to arr) @ drop (i + 2) arr)"
proof (induction "i - to" arbitrary: i arr)
  case 0
  then have i: "i = to" by simp
  obtain ys a b zs where arr: "arr = ys @ a # b # zs" "length ys = i"
    by (rule two_at [of i arr]) (use 0 in auto)
  then show ?case using i by (subst move_down.simps) (simp add: Let_def nth_append list_update_append)
next
  case (Suc n)
  then obtain j where i: "i = Suc j" by (cases i) auto
  obtain ys a b zs where arr: "arr = ys @ a # b # zs" "length ys = i"
    by (rule two_at [of i arr]) (use Suc.prems in auto)
  let ?arr = "ys @ a # a # zs"
  have "to \<le> j" using Suc.hyps(2) i by simp
  then have "move_down frm i to arr = move_down frm j to ?arr"
    using i arr by (subst move_down.simps) (simp add: Let_def nth_append list_update_append)
  also have "\<dots> = (1, take to ?arr @ frm # take (j + 1 - to) (drop to ?arr) @ drop (j + 2) ?arr)"
    using Suc.hyps(1) [of j ?arr] Suc.hyps(2) Suc.prems i arr by simp
  also have "\<dots> = (1, take to arr @ frm # take (i + 1 - to) (drop to arr) @ drop (i + 2) arr)"
    using i arr Suc.prems Suc.hyps(2) by (simp add: Suc_diff_le)
  finally show ?case .
qed

text \<open>Taking the string out and putting it in at the new place.\<close>

definition moved :: "'a list \<Rightarrow> nat \<Rightarrow> nat \<Rightarrow> 'a list" where
  "moved xs f t = (let rest = take f xs @ drop (f + 1) xs in take t rest @ xs ! f # drop t rest)"

text \<open>
  Moving a string of an array gives 1 and the array with the string taken out and put in at the new
  position, all others in their order; with an index outside, or twice the same, it gives 0 and the
  array as it was.
\<close>

theorem string_moved:
  "ksnet_stringArrMoveTo arr f t =
    (if f < length arr \<and> t < length arr \<and> f \<noteq> t then (1, moved arr f t) else (0, arr))"
proof (cases "f < length arr \<and> t < length arr \<and> f \<noteq> t")
  case True
  then have ne: "arr \<noteq> []" by auto
  show ?thesis
  proof (cases "f < t")
    case up: True
    have "moved arr f t = take f arr @ take (t - f) (drop (f + 1) arr) @ arr ! f # drop (t + 1) arr"
      using True up by (simp add: moved_def Let_def)
    then show ?thesis using True up ne move_up_shift [of "f + 1" t arr "arr ! f"] by (simp add: ksnet_stringArrMoveTo_def)
  next
    case False
    then have d: "t < f" using True by simp
    have "moved arr f t = take t arr @ arr ! f # take (f - t) (drop t arr) @ drop (f + 1) arr"
      using True d by (simp add: moved_def Let_def drop_take)
    then show ?thesis using True d ne move_down_shift [of t "f - 1" arr "arr ! f"] by (simp add: ksnet_stringArrMoveTo_def)
  qed
qed (auto simp: ksnet_stringArrMoveTo_def)

section \<open>Splitting what was joined\<close>

text \<open>
  A text that can be an argument: no zero byte, quotes in pairs, and blanks only between them; and what
  replacing between its quotes does.
\<close>

fun balanced :: "bool \<Rightarrow> bytes \<Rightarrow> bool" where
  "balanced inq [] \<longleftrightarrow> \<not> inq"
| "balanced inq (c # cs) \<longleftrightarrow> c \<noteq> 0 \<and> balanced (if c = quota then \<not> inq else inq) cs"

fun arg_ok :: "bool \<Rightarrow> bytes \<Rightarrow> bool" where
  "arg_ok inq [] \<longleftrightarrow> \<not> inq"
| "arg_ok inq (c # cs) \<longleftrightarrow> c \<noteq> 0 \<and> (inq \<or> c \<noteq> blank) \<and> arg_ok (if c = quota then \<not> inq else inq) cs"

fun requote :: "u8 \<Rightarrow> u8 \<Rightarrow> bool \<Rightarrow> bytes \<Rightarrow> bytes" where
  "requote f t inq [] = []"
| "requote f t inq (c # cs) =
     (if c = quota then c # requote f t (\<not> inq) cs else (if inq \<and> c = f then t else c) # requote f t inq cs)"

lemma arg_balanced: "arg_ok inq s \<Longrightarrow> balanced inq s" by (induction s arbitrary: inq) auto

lemma requote_free: "quota \<notin> set a \<Longrightarrow> requote f t inq (a @ s) = map (\<lambda>c. if inq \<and> c = f then t else c) a @ requote f t inq s"
  by (induction a) auto

lemma balanced_free: "quota \<notin> set a \<Longrightarrow> 0 \<notin> set a \<Longrightarrow> balanced inq (a @ s) = balanced inq s"
  by (induction a) auto

lemma balanced_nonzero: "balanced inq s \<Longrightarrow> 0 \<notin> set s" by (induction s arbitrary: inq) auto

lemma balanced_append: "balanced inq a \<Longrightarrow> balanced inq (a @ s) = balanced (\<not> inq \<and> inq) s"
  by (induction a arbitrary: inq) auto

lemma requote_append: "balanced inq a \<Longrightarrow> requote f t inq (a @ s) = requote f t inq a @ requote f t False s"
  by (induction a arbitrary: inq) auto

lemma scan_split: "scan s @ drop (length (scan s)) s = s"
  unfolding scan_def by (metis takeWhile_dropWhile_id dropWhile_eq_drop)

lemma scan_stop: "drop (length (scan s)) s = c # s' \<Longrightarrow> c = 0 \<or> c = quota"
  using hd_dropWhile [of "\<lambda>c. c \<noteq> 0 \<and> c \<noteq> quota" s] unfolding scan_def dropWhile_eq_drop [symmetric] by force

lemma scan_free: "quota \<notin> set (scan s)" "0 \<notin> set (scan s)"
  by (auto simp: scan_def dest: set_takeWhileD)

lemma quota_nonzero [simp]: "quota \<noteq> 0" "quota \<noteq> blank" "blank \<noteq> quota" "blank \<noteq> 0" by (simp_all add: quota_def blank_def)

text \<open>The scan of a text: no quote, one quote, or a quoted part.\<close>

lemma quote_cases:
  obtains (none) "replace_char_between_quotas f t s = (False, s)" "\<not> balanced False s \<or> quota \<notin> set s"
  | (quoted) a b s2 where "s = a @ quota # b @ quota # s2" "quota \<notin> set a" "0 \<notin> set a" "quota \<notin> set b" "0 \<notin> set b"
      "replace_char_between_quotas f t s =
       (f \<in> set b \<or> fst (replace_char_between_quotas f t s2),
        a @ quota # map (\<lambda>c. if c = f then t else c) b @ quota # snd (replace_char_between_quotas f t s2))"
proof (cases "drop (length (scan s)) s")
  case Nil
  then have "quota \<notin> set s" using scan_split [of s] scan_free(1) [of s] by simp
  moreover have "replace_char_between_quotas f t s = (False, s)"
    using Nil by (subst replace_char_between_quotas.simps) (simp only: Let_def list.case)
  ultimately show thesis using none by simp
next
  case (Cons q s1)
  note s = scan_split [of s, unfolded Cons] and q = scan_stop [OF Cons]
  note unf = replace_char_between_quotas.simps [of f t s, unfolded Let_def Cons list.case]
  show thesis
  proof (cases "q = 0")
    case True
    have "replace_char_between_quotas f t s = (False, s)" by (simp add: unf True)
    moreover have "0 \<in> set s" using True by (subst s [symmetric]) simp
    ultimately show thesis using none balanced_nonzero by blast
  next
    case False
    then have q: "q = quota" using q by simp
    show thesis
    proof (cases "drop (length (scan s1)) s1")
      case Nil
      have "replace_char_between_quotas f t s = (False, s)" using unf False Nil by (simp only: if_False list.case)
      moreover have "quota \<notin> set s1" "0 \<notin> set s1" using scan_split [of s1] Nil scan_free [of s1] by simp_all
      then have "\<not> balanced True s1" using balanced_free [of s1 True "[]"] by simp
      then have "\<not> balanced False s"
        using balanced_free [of "scan s" False "quota # s1"] scan_free [of s] s q by simp
      ultimately show thesis using none by blast
    next
      case c1: (Cons q' s2)
      note s1 = scan_split [of s1, unfolded c1] and q' = scan_stop [OF c1]
      show thesis
      proof (cases "q' = 0")
        case True
        have "replace_char_between_quotas f t s = (False, s)" by (simp add: unf False c1 True)
        moreover have "0 \<in> set s1" using True by (subst s1 [symmetric]) simp
        then have "0 \<in> set s" by (subst s [symmetric]) simp
        ultimately show thesis using none balanced_nonzero by blast
      next
        case q0: False
        then have q': "q' = quota" using q' by simp
        show thesis
        proof (rule quoted [of "scan s" "scan s1" s2])
          show "s = scan s @ quota # scan s1 @ quota # s2" using s s1 q q' by simp
          show "replace_char_between_quotas f t s =
              (f \<in> set (scan s1) \<or> fst (replace_char_between_quotas f t s2),
               scan s @ quota # map (\<lambda>c. if c = f then t else c) (scan s1) @ quota # snd (replace_char_between_quotas f t s2))"
            by (subst unf) (simp add: False c1 q0 q q' split_def)
        qed (use scan_free in blast)+
      qed
    qed
  qed
qed

lemma balanced_quoted:
  "quota \<notin> set a \<Longrightarrow> 0 \<notin> set a \<Longrightarrow> quota \<notin> set b \<Longrightarrow> 0 \<notin> set b \<Longrightarrow>
   balanced False (a @ quota # b @ quota # s) = balanced False s"
  by (simp add: balanced_free)

lemma requote_quoted:
  "quota \<notin> set a \<Longrightarrow> quota \<notin> set b \<Longrightarrow>
   requote f t False (a @ quota # b @ quota # s) = a @ quota # map (\<lambda>c. if c = f then t else c) b @ quota # requote f t False s"
  by (simp add: requote_free)

lemma replace_balanced:
  "balanced False s \<Longrightarrow> snd (replace_char_between_quotas f t s) = requote f t False s"
proof (induction "length s" arbitrary: s rule: less_induct)
  case less
  show ?case
  proof (rule quote_cases [of f t s])
    assume "replace_char_between_quotas f t s = (False, s)" "\<not> balanced False s \<or> quota \<notin> set s"
    then show ?case using less.prems requote_free [of s f t False "[]"] by simp
  next
    fix a b s2
    assume s: "s = a @ quota # b @ quota # s2" "quota \<notin> set a" "0 \<notin> set a" "quota \<notin> set b" "0 \<notin> set b"
      and r: "replace_char_between_quotas f t s =
       (f \<in> set b \<or> fst (replace_char_between_quotas f t s2),
        a @ quota # map (\<lambda>c. if c = f then t else c) b @ quota # snd (replace_char_between_quotas f t s2))"
    have "balanced False s2" using less.prems s balanced_quoted by simp
    then have "snd (replace_char_between_quotas f t s2) = requote f t False s2" using less.hyps s(1) by simp
    then show ?case using r requote_quoted [OF s(2,4), of f t s2] s(1) by simp
  qed
qed

lemma replace_unchanged: "\<not> fst (replace_char_between_quotas f t s) \<Longrightarrow> snd (replace_char_between_quotas f t s) = s"
proof (induction "length s" arbitrary: s rule: less_induct)
  case less
  show ?case
  proof (rule quote_cases [of f t s])
    fix a b s2
    assume s: "s = a @ quota # b @ quota # s2"
      and r: "replace_char_between_quotas f t s =
       (f \<in> set b \<or> fst (replace_char_between_quotas f t s2),
        a @ quota # map (\<lambda>c. if c = f then t else c) b @ quota # snd (replace_char_between_quotas f t s2))"
    have "f \<notin> set b" and n: "\<not> fst (replace_char_between_quotas f t s2)" using less.prems r by simp_all
    then have "map (\<lambda>c. if c = f then t else c) b = b" by (auto intro: map_idI)
    moreover have "snd (replace_char_between_quotas f t s2) = s2" using less.hyps [of s2] n s by simp
    ultimately show ?case using r s by simp
  qed simp
qed

text \<open>The quoted parts of arguments are separate in their joined text.\<close>

definition args_ok :: "bytes list \<Rightarrow> bool" where
  "args_ok ws \<longleftrightarrow> ws \<noteq> [] \<and> ws \<noteq> [[]] \<and> (\<forall>w \<in> set ws. arg_ok False w)"

lemma join_Cons: "ws \<noteq> [] \<Longrightarrow> join sep (w # ws) = w @ sep @ join sep ws" by (cases ws) auto

lemma balanced_blank: "balanced False (blank # s) = balanced False s"
  using quota_nonzero by (simp add: quota_def blank_def)

lemma requote_blank: "requote f t False (blank # s) = blank # requote f t False s"
  by (simp add: quota_def blank_def)

lemma balanced_join: "\<forall>w \<in> set ws. balanced False w \<Longrightarrow> balanced False (join [blank] ws)"
proof (induction ws)
  case (Cons w ws)
  then show ?case by (cases ws) (simp_all add: balanced_append balanced_blank)
qed simp

lemma requote_join:
  "\<forall>w \<in> set ws. balanced False w \<Longrightarrow> requote f t False (join [blank] ws) = join [blank] (map (requote f t False) ws)"
proof (induction ws)
  case (Cons w ws)
  then show ?case by (cases ws) (simp_all add: requote_append requote_blank)
qed simp

lemma join_set: "set (join [blank] ws) \<subseteq> \<Union> (set ` set ws) \<union> {blank}"
proof (induction ws)
  case (Cons w ws)
  then show ?case by (cases ws) auto
qed simp

lemma join_word: "w \<in> set ws \<Longrightarrow> set w \<subseteq> set (join [blank] ws)"
proof (induction ws)
  case (Cons v ws)
  then show ?case by (cases ws) auto
qed simp

lemma join_empty: "join [blank] ws = [] \<longleftrightarrow> ws = [] \<or> ws = [[]]"
  by (cases ws; cases "tl ws") auto

lemma requote_balanced: "t \<noteq> 0 \<Longrightarrow> t \<noteq> quota \<Longrightarrow> balanced inq s \<Longrightarrow> balanced inq (requote f t inq s)"
  by (induction s arbitrary: inq) auto

lemma requote_back: "t \<notin> set s \<Longrightarrow> t \<noteq> quota \<Longrightarrow> requote t f inq (requote f t inq s) = s"
  by (induction s arbitrary: inq) auto

lemma requote_none: "t \<notin> set (requote f t inq s) \<Longrightarrow> requote f t inq s = s"
  by (induction s arbitrary: inq) (auto split: if_splits)

lemma requote_no_blank: "arg_ok inq s \<Longrightarrow> t \<noteq> blank \<Longrightarrow> blank \<notin> set (requote blank t inq s)"
  by (induction s arbitrary: inq) (auto simp: quota_def blank_def)

lemma requote_length [simp]: "length (requote f t inq s) = length s"
  by (induction s arbitrary: inq) auto

text \<open>The loop passes over a word, and ends a part at a separator.\<close>

lemma split_word:
  assumes "\<forall>i. rb \<le> i \<and> i < rb + n \<longrightarrow> str ! i \<notin> set seps" and "rb + n \<le> length str"
  shows "split_loop str seps e 0 lb rb parts res = split_loop str seps e 0 lb (rb + n) parts res"
  using assms
proof (induction n)
  case (Suc n)
  then have "split_loop str seps e 0 lb (rb + n) parts res = split_loop str seps e 0 lb (rb + Suc n) parts res"
    by (subst split_loop.simps) simp
  then show ?case using Suc by simp
qed simp

lemma split_join:
  assumes "ws \<noteq> []" and "\<forall>w \<in> set ws. blank \<notin> set w" and "str = pre @ join [blank] ws"
  shows "\<exists>lb. split_loop str [blank] e 0 (length pre) (length pre) parts res = (res @ butlast ws, lb) \<and>
    drop lb str = last ws \<and> lb \<le> length str"
  using assms
proof (induction ws arbitrary: pre parts res)
  case (Cons w ws)
  have word: "\<forall>i. length pre \<le> i \<and> i < length pre + length w \<longrightarrow> str ! i \<notin> set [blank]"
  proof (intro allI impI)
    fix i assume i: "length pre \<le> i \<and> i < length pre + length w"
    then have "str ! i = w ! (i - length pre)"
      using Cons.prems(3) by (cases ws) (auto simp: nth_append)
    then show "str ! i \<notin> set [blank]" using Cons.prems(2) i by (metis empty_iff list.set(1) list.set_intros(1) nth_mem set_ConsD add.commute less_diff_conv2)
  qed
  have len: "length pre + length w \<le> length str" using Cons.prems(3) by (cases ws) auto
  have at: "split_loop str [blank] e 0 (length pre) (length pre) parts res =
      split_loop str [blank] e 0 (length pre) (length pre + length w) parts res"
    by (rule split_word [OF word len])
  show ?case
  proof (cases ws)
    case Nil
    then have "length str = length pre + length w" using Cons.prems(3) by simp
    then have "split_loop str [blank] e 0 (length pre) (length pre + length w) parts res = (res, length pre)"
      by (subst split_loop.simps) simp
    then show ?thesis using at Nil Cons.prems(3) by simp
  next
    case (Cons w' ws')
    then have str: "str = (pre @ w @ [blank]) @ join [blank] ws" using Cons.prems(3) by simp
    have "split_loop str [blank] e 0 (length pre) (length pre + length w) parts res =
        split_loop str [blank] e 0 (length (pre @ w @ [blank])) (length (pre @ w @ [blank])) (parts + 1) (res @ [w])"
      by (subst split_loop.simps) (simp add: str nth_append)
    then show ?thesis
      using Cons.IH [OF _ _ str, of "parts + 1" "res @ [w]"] Cons.prems(2) at \<open>ws = w' # ws'\<close> by simp
  qed
qed simp

lemma find_replace_free:
  assumes "find_replace_to_char str rs = c" and "\<exists>c \<in> set rs. c \<notin> set str"
  shows "c \<in> set rs" "c \<notin> set str"
  using assms by (auto simp: find_replace_to_char_def find_Some_iff find_None_iff split: option.splits)

text \<open>
  C30: joining arguments with blanks and splitting the text at blanks gives the arguments back, those
  with quoted blanks in one piece, and the text is left as it was, provided that one of the
  characters that stand for a blank does not occur (and that a last empty argument is asked for).
\<close>

theorem split_joined:
  assumes "args_ok ws" and "\<exists>c \<in> set replace_to_str. \<forall>w \<in> set ws. c \<notin> set w" and "with_empty \<or> last ws \<noteq> []"
  shows "ksnet_stringArrCombine ws [blank] = Some (join [blank] ws) \<and>
    ksnet_stringArrSplit (join [blank] ws) [blank] with_empty 0 = (ws, join [blank] ws)"
proof
  have ws: "ws \<noteq> []" "ws \<noteq> [[]]" "\<forall>w \<in> set ws. arg_ok False w" using assms(1) by (simp_all add: args_ok_def)
  then have bal: "\<forall>w \<in> set ws. balanced False w" by (simp add: arg_balanced)
  show "ksnet_stringArrCombine ws [blank] = Some (join [blank] ws)"
    using ws(1) by (cases ws) (simp_all add: ksnet_stringArrCombine_def combine_length_def)
  define s where "s = join [blank] ws"
  have s: "s \<noteq> []" "balanced False s" using ws bal by (simp_all add: s_def join_empty balanced_join)
  define c where "c = find_replace_to_char s replace_to_str"
  have free: "\<exists>c \<in> set replace_to_str. c \<notin> set s"
    using assms(2) join_set [of ws] unfolding s_def by (fastforce simp: replace_to_str_def blank_def)
  have c: "c \<in> set replace_to_str" "c \<notin> set s" using find_replace_free [OF c_def [symmetric] free] by simp_all
  then have c': "c \<noteq> 0" "c \<noteq> quota" "c \<noteq> blank" by (auto simp: replace_to_str_def quota_def blank_def)
  define vs where "vs = map (requote blank c False) ws"
  define s1 where "s1 = requote blank c False s"
  have s1: "snd (replace_char_between_quotas blank c s) = s1" using replace_balanced [OF s(2)] by (simp add: s1_def)
  have s1_join: "s1 = join [blank] vs" unfolding s1_def s_def vs_def by (rule requote_join [OF bal])
  have s1_bal: "balanced False s1" unfolding s1_def using c' s(2) by (simp add: requote_balanced)
  then have s1_cstr: "cstr s1 = s1" using balanced_nonzero [of False s1] by (auto simp: cstr_def takeWhile_eq_all_conv)
  have "\<exists>lb. split_loop s1 [blank] with_empty 0 (length ([] :: bytes)) (length ([] :: bytes)) 0 [] = ([] @ butlast vs, lb) \<and>
      drop lb s1 = last vs \<and> lb \<le> length s1"
    using ws c'(3) s1_join by (intro split_join) (auto simp: vs_def requote_no_blank)
  then obtain lb where lb: "split_loop s1 [blank] with_empty 0 0 0 0 [] = (butlast vs, lb)" "drop lb s1 = last vs" "lb \<le> length s1"
    by auto
  have vs: "vs \<noteq> []" using ws(1) by (simp add: vs_def)
  have "last vs \<noteq> []" if "\<not> with_empty"
    using that assms(3) ws(1) by (simp add: vs_def last_map) (metis list.size(3) length_0_conv requote_length)
  then have result: "(if with_empty \<or> lb < length s1 then butlast vs @ [drop lb s1] else butlast vs) = vs"
    using vs lb(2,3) by auto
  have "ksnet_stringArrSplit s [blank] with_empty 0 =
     (if fst (replace_char_between_quotas blank c s)
      then (map (\<lambda>s. snd (replace_char_between_quotas c blank s)) vs, snd (replace_char_between_quotas c blank s1))
      else (vs, s1))"
    unfolding ksnet_stringArrSplit_def Let_def c_def [symmetric] split_def s1 s1_cstr lb(1) fst_conv snd_conv result
    using s(1) by simp
  also have "\<dots> = (ws, s)"
  proof (cases "fst (replace_char_between_quotas blank c s)")
    case True
    have "snd (replace_char_between_quotas c blank s1) = s"
      using replace_balanced [OF s1_bal, of c blank] requote_back [OF c(2) c'(2), of blank False] by (simp add: s1_def)
    moreover have "snd (replace_char_between_quotas c blank (requote blank c False w)) = w" if "w \<in> set ws" for w
    proof -
      have "c \<notin> set w" using c(2) join_word [OF that] by (auto simp: s_def)
      then show ?thesis
        using replace_balanced [of "requote blank c False w" c blank] requote_balanced [of c False w blank] bal that c'
          requote_back [of c w blank False] by simp
    qed
    ultimately show ?thesis using True by (simp add: vs_def map_idI)
  next
    case False
    then have "s1 = s" using replace_unchanged s1 by metis
    moreover have "requote blank c False w = w" if "w \<in> set ws" for w
    proof (rule requote_none)
      have "set (requote blank c False w) \<subseteq> set s"
        using join_word [of "requote blank c False w" vs] that \<open>s1 = s\<close> s1_join by (simp add: vs_def)
      then show "c \<notin> set (requote blank c False w)" using c(2) by blast
    qed
    ultimately show ?thesis using False by (simp add: vs_def map_idI)
  qed
  finally show "ksnet_stringArrSplit (join [blank] ws) [blank] with_empty 0 = (ws, join [blank] ws)" by (simp add: s_def)
qed

definition example_args :: "bytes list" where
  "example_args = [[116, 101, 111], [34, 97, 32, 98, 34], [45, 112]]"

theorem split_joined_witness:
  "ksnet_stringArrCombine example_args [blank] = Some (join [blank] example_args) \<and>
   ksnet_stringArrSplit (join [blank] example_args) [blank] False 0 = (example_args, join [blank] example_args)"
proof (rule split_joined)
  show "args_ok example_args" by (simp add: args_ok_def example_args_def quota_def blank_def)
  show "\<exists>c \<in> set replace_to_str. \<forall>w \<in> set example_args. c \<notin> set w"
    by (simp add: replace_to_str_def example_args_def)
qed (simp add: example_args_def)

text \<open>
  At separators other than blanks, a quoted part is cut, and the characters that stood for its blanks
  stay in the pieces: \<open>"a b,c"\<close> split at commas gives \<open>"a_b\<close> and \<open>c"\<close>.
\<close>

theorem split_quoted_comma:
  "fst (ksnet_stringArrSplit [34, 97, 32, 98, 44, 99, 34] [44] False 0) = [[34, 97, 95, 98], [99, 34]]"
  by code_simp

text \<open>With at most one part asked for, a text that begins with a separator is still cut in two.\<close>

theorem split_one_part:
  "fst (ksnet_stringArrSplit [44, 97, 44, 98] [44] False 1) = [[], [97, 44, 98]]"
  by code_simp

end
