(* ===== verification/Base64.thy ===== *)
theory Base64
  imports Prelude
begin

text \<open>
  Base64 (utils/base64.c). The decoding table is allocated but only its entries for the 64 characters
  are written; what the others hold is the argument \<open>junk\<close>. Reading in front of the input is \<open>B64Fault\<close>.
\<close>

section \<open>Tables\<close>

definition encoding_table :: bytes where
  "encoding_table =
     [65, 66, 67, 68, 69, 70, 71, 72, 73, 74, 75, 76, 77, 78, 79, 80,
      81, 82, 83, 84, 85, 86, 87, 88, 89, 90, 97, 98, 99, 100, 101, 102,
      103, 104, 105, 106, 107, 108, 109, 110, 111, 112, 113, 114, 115, 116, 117, 118,
      119, 120, 121, 122, 48, 49, 50, 51, 52, 53, 54, 55, 56, 57, 43, 47]"

definition mod_table :: "nat list" where "mod_table = [0, 2, 1]"

text \<open>The loop fills the entry of every character; a later one would replace an earlier one.\<close>

definition build_decoding_table :: "(u8 \<Rightarrow> u8) \<Rightarrow> u8 \<Rightarrow> u8" where
  "build_decoding_table junk = fold (\<lambda>i tab. tab(encoding_table ! i := of_nat i)) [0..<64] junk"

section \<open>Encoding\<close>

definition pad :: u8 where "pad = 61"

definition triple_of :: "u8 \<Rightarrow> u8 \<Rightarrow> u8 \<Rightarrow> u32" where
  "triple_of a b c = push_bit 16 (ucast a) + push_bit 8 (ucast b) + ucast c"

definition encode_triple :: "u32 \<Rightarrow> bytes" where
  "encode_triple triple =
     [encoding_table ! unat (drop_bit (3 * 6) triple AND 0x3F), encoding_table ! unat (drop_bit (2 * 6) triple AND 0x3F),
      encoding_table ! unat (drop_bit (1 * 6) triple AND 0x3F), encoding_table ! unat (drop_bit (0 * 6) triple AND 0x3F)]"

fun encode_loop :: "bytes \<Rightarrow> bytes" where
  "encode_loop [] = []"
| "encode_loop [a] = encode_triple (triple_of a 0 0)"
| "encode_loop [a, b] = encode_triple (triple_of a b 0)"
| "encode_loop (a # b # c # data) = encode_triple (triple_of a b c) @ encode_loop data"

definition ksn_base64_encode :: "bytes \<Rightarrow> bytes" where
  "ksn_base64_encode data =
     (let output_length = 4 * ((length data + 2) div 3); n = mod_table ! (length data mod 3)
      in fold (\<lambda>i out. out[output_length - 1 - i := pad]) [0..<n] (encode_loop data))"

section \<open>Decoding\<close>

datatype b64Result = B64Null | B64Fault | B64Data bytes

text \<open>The table's entries are signed characters, widened to 32 bits.\<close>

definition sextet :: "(u8 \<Rightarrow> u8) \<Rightarrow> u8 \<Rightarrow> u32" where
  "sextet table c = (if c = pad then 0 else scast (table c))"

definition decode_triple :: "(u8 \<Rightarrow> u8) \<Rightarrow> u8 \<Rightarrow> u8 \<Rightarrow> u8 \<Rightarrow> u8 \<Rightarrow> u32" where
  "decode_triple table a b c d =
     push_bit (3 * 6) (sextet table a) + push_bit (2 * 6) (sextet table b) + push_bit (1 * 6) (sextet table c) +
     push_bit (0 * 6) (sextet table d)"

fun decode_loop :: "(u8 \<Rightarrow> u8) \<Rightarrow> nat \<Rightarrow> bytes \<Rightarrow> bytes" where
  "decode_loop table output_left (a # b # c # d # data) =
     (let triple = decode_triple table a b c d
      in take output_left [ucast (drop_bit (2 * 8) triple AND 0xFF), ucast (drop_bit (1 * 8) triple AND 0xFF),
                           ucast (drop_bit (0 * 8) triple AND 0xFF)] @
         decode_loop table (output_left - 3) data)"
| "decode_loop table output_left data = []"

definition ksn_base64_decode :: "(u8 \<Rightarrow> u8) \<Rightarrow> bytes \<Rightarrow> b64Result" where
  "ksn_base64_decode junk data =
     (let n = length data
      in if n mod 4 \<noteq> 0 then B64Null
         else if n = 0 then B64Fault
         else let output_length = n div 4 * 3 - (if data ! (n - 1) = pad then 1 else 0) - (if data ! (n - 2) = pad then 1 else 0)
              in B64Data (decode_loop (build_decoding_table junk) output_length data))"

section \<open>The tables are inverse\<close>

lemma encoding_length [simp]: "length encoding_table = 64" by (simp add: encoding_table_def)

lemma encoding_distinct: "distinct encoding_table" by code_simp

lemma encoding_no_pad: "pad \<notin> set encoding_table" by code_simp

lemma fill_table:
  assumes "distinct xs" and "n \<le> length xs"
  shows "i < n \<Longrightarrow> fold (\<lambda>i tab. tab(xs ! i := f i)) [0..<n] g (xs ! i) = f i"
  using assms(2)
proof (induction n)
  case (Suc n)
  then show ?case using assms(1) by (auto simp: less_Suc_eq nth_eq_iff_index_eq)
qed simp

lemma decode_char: "k < 64 \<Longrightarrow> build_decoding_table junk (encoding_table ! k) = of_nat k"
  unfolding build_decoding_table_def by (rule fill_table [OF encoding_distinct]) simp_all

lemma sextet_encoded:
  assumes "k < 64"
  shows "sextet (build_decoding_table junk) (encoding_table ! k) = of_nat k"
proof -
  have "encoding_table ! k \<noteq> pad" using assms encoding_no_pad by (metis encoding_length nth_mem)
  moreover have "scast (of_nat k :: u8) = (of_nat k :: u32)"
  proof -
    have "k \<in> set [0..<64]" using assms by simp
    moreover have "list_all (\<lambda>k. scast (of_nat k :: u8) = (of_nat k :: u32)) [0..<64]" by code_simp
    ultimately show ?thesis unfolding list_all_iff by blast
  qed
  ultimately show ?thesis using assms by (simp add: sextet_def decode_char)
qed

section \<open>Groups of three bytes\<close>

lemma unat_small: "n < 2 ^ 32 \<Longrightarrow> unat (of_nat n :: u32) = n"
  by (simp add: unsigned_of_nat take_bit_nat_eq_self)

lemma ucast_of_unat: "(ucast (a :: u8) :: u32) = of_nat (unat a)"
  by (simp add: word_unat_eq_iff unsigned_ucast_eq unsigned_of_nat take_bit_nat_eq_self order.strict_trans2 [OF unsigned_less])

lemma triple_nat: "triple_of a b c = of_nat (unat a * 65536 + unat b * 256 + unat c)"
  unfolding triple_of_def push_bit_eq_mult ucast_of_unat by simp

lemma byte_less: "unat (a :: u8) < 256" using unsigned_less [of a] by simp

lemma triple_less: "unat (a :: u8) * 65536 + unat (b :: u8) * 256 + unat (c :: u8) < 2 ^ 24"
  using byte_less [of a] byte_less [of b] byte_less [of c] by simp

lemma and_mask_nat32:
  assumes "n < 2 ^ 32"
  shows "(of_nat n :: u32) AND 0x3F = of_nat (n mod 64)" "(of_nat n :: u32) AND 0xFF = of_nat (n mod 256)"
proof -
  have m: "(0x3F :: u32) = mask 6" "(0xFF :: u32) = mask 8" by (simp_all add: mask_eq_exp_minus_1)
  have s: "n mod 64 < 2 ^ 32" "n mod 256 < 2 ^ 32" using assms by (meson le_less_trans mod_less_eq_dividend)+
  show "(of_nat n :: u32) AND 0x3F = of_nat (n mod 64)" "(of_nat n :: u32) AND 0xFF = of_nat (n mod 256)"
    unfolding m take_bit_eq_mask [symmetric] word_unat_eq_iff unsigned_take_bit_eq unat_small [OF assms]
      unat_small [OF s(1)] unat_small [OF s(2)]
    by (simp_all add: take_bit_eq_mod)
qed

lemma drop_small:
  assumes "n < 2 ^ 32"
  shows "drop_bit k (of_nat n :: u32) = of_nat (n div 2 ^ k)"
proof -
  have s: "n div 2 ^ k < 2 ^ 32" using assms by (meson div_le_dividend le_less_trans)
  show ?thesis
    unfolding word_unat_eq_iff unat_small [OF s] unsigned_drop_bit_eq unat_small [OF assms]
    using assms by (simp add: drop_bit_eq_div take_bit_nat_eq_self)
qed

lemma sextets:
  assumes "(n :: nat) < 2 ^ 24"
  shows "(n div 2 ^ 18 mod 64) * 2 ^ 18 + (n div 2 ^ 12 mod 64) * 2 ^ 12 + (n div 2 ^ 6 mod 64) * 2 ^ 6 + n mod 64 = n"
proof -
  define q1 q2 q3 where "q1 = n div 64" and "q2 = q1 div 64" and "q3 = q2 div 64"
  have d: "n div 2 ^ 6 = q1" "n div 2 ^ 12 = q2" "n div 2 ^ 18 = q3"
    by (simp_all add: q1_def q2_def q3_def flip: div_mult2_eq)
  have "q3 < 64" using assms d(3) by (simp add: less_mult_imp_div_less flip: d(3))
  then have "q3 mod 64 = q3" by simp
  moreover have "q1 * 64 + n mod 64 = n" "q2 * 64 + q1 mod 64 = q1" "q3 * 64 + q2 mod 64 = q2"
    by (simp_all add: q1_def q2_def q3_def)
  ultimately show ?thesis unfolding d by simp
qed

lemma decode_encoded:
  assumes "n < 2 ^ 24"
  shows "decode_triple (build_decoding_table junk) (encoding_table ! (n div 2 ^ 18 mod 64)) (encoding_table ! (n div 2 ^ 12 mod 64))
     (encoding_table ! (n div 2 ^ 6 mod 64)) (encoding_table ! (n mod 64)) = of_nat n"
proof -
  define s1 s2 s3 s4 where "s1 = n div 2 ^ 18 mod 64" and "s2 = n div 2 ^ 12 mod 64" and "s3 = n div 2 ^ 6 mod 64" and "s4 = n mod 64"
  have "s1 < 64" "s2 < 64" "s3 < 64" "s4 < 64" by (simp_all add: s1_def s2_def s3_def s4_def)
  then have "decode_triple (build_decoding_table junk) (encoding_table ! s1) (encoding_table ! s2)
     (encoding_table ! s3) (encoding_table ! s4) = of_nat (s1 * 2 ^ 18 + s2 * 2 ^ 12 + s3 * 2 ^ 6 + s4)"
    by (simp add: decode_triple_def sextet_encoded push_bit_eq_mult)
  moreover have "s1 * 2 ^ 18 + s2 * 2 ^ 12 + s3 * 2 ^ 6 + s4 = n"
    unfolding s1_def s2_def s3_def s4_def by (rule sextets [OF assms])
  ultimately have "decode_triple (build_decoding_table junk) (encoding_table ! s1) (encoding_table ! s2)
     (encoding_table ! s3) (encoding_table ! s4) = of_nat n"
    by (simp only:)
  then show ?thesis unfolding s1_def s2_def s3_def s4_def .
qed

lemma encode_nat:
  assumes "n < 2 ^ 24"
  shows "encode_triple (of_nat n) = [encoding_table ! (n div 2 ^ 18 mod 64), encoding_table ! (n div 2 ^ 12 mod 64),
     encoding_table ! (n div 2 ^ 6 mod 64), encoding_table ! (n mod 64)]"
proof -
  have n: "n < 2 ^ 32" using assms by simp
  have u: "unat (drop_bit k (of_nat n :: u32) AND 0x3F) = n div 2 ^ k mod 64" for k
  proof -
    have "n div 2 ^ k < 2 ^ 32" using n by (meson div_le_dividend le_less_trans)
    moreover have "n div 2 ^ k mod 64 < 2 ^ 32" by (rule order.strict_trans [OF mod_less_divisor]) simp_all
    ultimately show ?thesis by (simp only: drop_small [OF n] and_mask_nat32 unat_small)
  qed
  show ?thesis unfolding encode_triple_def u by simp
qed

lemma bytes_back:
  assumes "n = unat (a :: u8) * 65536 + unat (b :: u8) * 256 + unat (c :: u8)"
  shows "[ucast (drop_bit (2 * 8) (of_nat n :: u32) AND 0xFF), ucast (drop_bit (1 * 8) (of_nat n :: u32) AND 0xFF),
          ucast (drop_bit (0 * 8) (of_nat n :: u32) AND 0xFF)] = [a, b, c]"
proof -
  have n: "n < 2 ^ 32" using triple_less [of a b c] assms by simp
  have w: "drop_bit k (of_nat n :: u32) AND 0xFF = of_nat (n div 2 ^ k mod 256)" for k
  proof -
    have "n div 2 ^ k < 2 ^ 32" using n by (meson div_le_dividend le_less_trans)
    then show ?thesis by (simp only: drop_small [OF n] and_mask_nat32)
  qed
  define h where "h = unat a * 256 + unat b"
  have "n = h * 256 + unat c" using assms by (simp add: h_def)
  then have q: "n div 256 = h" "n mod 256 = unat c" using byte_less [of c] by simp_all
  note q = q(1) [unfolded h_def] q(2)
  have "n div 2 ^ (1 * 8) mod 256 = unat b" unfolding mult_1 using q(1) byte_less [of b] by simp
  moreover have "n div 2 ^ (2 * 8) = n div 256 div 256" by (simp flip: div_mult2_eq)
  then have "n div 2 ^ (2 * 8) mod 256 = unat a" using q(1) byte_less [of a] byte_less [of b] by simp
  moreover have "n div 2 ^ (0 * 8) mod 256 = unat c" using q(2) by simp
  moreover have "ucast (of_nat (unat x) :: u32) = x" for x :: u8
  proof -
    have "unat x < 2 ^ 32" using byte_less [of x] by simp
    then show ?thesis
      unfolding word_unat_eq_iff [of _ x] unsigned_ucast_eq
      using byte_less [of x] by (simp only: unat_small) (simp add: take_bit_nat_eq_self)
  qed
  ultimately show ?thesis unfolding w by simp
qed

section \<open>Round trip\<close>

lemma group_back:
  "\<exists>e1 e2 e3 e4. encode_triple (triple_of a b c) = [e1, e2, e3, e4] \<and> {e1, e2, e3, e4} \<subseteq> set encoding_table \<and>
     (let t = decode_triple (build_decoding_table junk) e1 e2 e3 e4
      in [ucast (drop_bit (2 * 8) t AND 0xFF), ucast (drop_bit (1 * 8) t AND 0xFF), ucast (drop_bit (0 * 8) t AND 0xFF)]) = [a, b, c]"
proof -
  define n where "n = unat a * 65536 + unat b * 256 + unat c"
  have n: "n < 2 ^ 24" using triple_less by (simp add: n_def)
  have e: "encode_triple (triple_of a b c) = [encoding_table ! (n div 2 ^ 18 mod 64), encoding_table ! (n div 2 ^ 12 mod 64),
     encoding_table ! (n div 2 ^ 6 mod 64), encoding_table ! (n mod 64)]"
    unfolding triple_nat n_def [symmetric] by (rule encode_nat [OF n])
  have s: "n div 2 ^ k mod 64 < 64" "n mod 64 < 64" for k by simp_all
  show ?thesis
    unfolding e Let_def
    by (intro exI conjI, rule refl)
      (use s nth_mem [of _ encoding_table] in \<open>simp del: power_numeral\<close>,
       simp only: decode_encoded [OF n] bytes_back [OF n_def])
qed

lemma pad_sextet: "sextet table pad = 0" "sextet (build_decoding_table junk) (encoding_table ! 0) = 0"
  using sextet_encoded [of 0 junk] by (simp_all add: sextet_def)

lemma group_ends:
  assumes "encode_triple (triple_of a b 0) = [e1, e2, e3, e4]"
  shows "e4 = encoding_table ! 0" "b = 0 \<Longrightarrow> e3 = encoding_table ! 0"
proof -
  define n where "n = unat a * 65536 + unat b * 256"
  have n: "n < 2 ^ 24" "triple_of a b 0 = of_nat n" using triple_less [of a b 0] triple_nat [of a b 0] by (simp_all add: n_def)
  have "n = (unat a * 1024 + unat b * 4) * 64" by (simp add: n_def)
  then have q: "n mod 64 = 0" "n div 64 = unat a * 1024 + unat b * 4" by simp_all
  show "e4 = encoding_table ! 0" using assms q(1) unfolding n(2) encode_nat [OF n(1)] by simp
  assume "b = 0"
  then have "n div 64 = (unat a * 16) * 64" using q(2) by simp
  then have "n div 64 mod 64 = 0" by simp
  then show "e3 = encoding_table ! 0" using assms unfolding n(2) encode_nat [OF n(1)] by simp
qed

text \<open>The encoder group by group: the last one has its unused characters replaced.\<close>

lemma encode_loop_length: "length (encode_loop data) = 4 * ((length data + 2) div 3)"
proof (induction data rule: encode_loop.induct)
  case (4 a b c data)
  have "(5 + length data) div 3 = (length data + 2) div 3 + 1" by presburger
  then show ?case using 4 by (simp add: encode_triple_def)
qed (simp_all add: encode_triple_def)

lemma upto_small: "[0..<0] = ([] :: nat list)" "[0..<1] = [0 :: nat]" "[0..<2] = [0, 1 :: nat]" by (simp_all add: numeral_2_eq_2)

lemma mod_table_cases: "n mod 3 = 0 \<and> mod_table ! (n mod 3) = 0 \<or> n mod 3 = 1 \<and> mod_table ! (n mod 3) = 2 \<or> n mod 3 = 2 \<and> mod_table ! (n mod 3) = 1"
proof -
  have "n mod 3 < 3" by simp
  then consider "n mod 3 = 0" | "n mod 3 = 1" | "n mod 3 = 2" by linarith
  then show ?thesis by cases (simp_all add: mod_table_def)
qed

lemma encode_group:
  "ksn_base64_encode (a # b # c # data) = encode_triple (triple_of a b c) @ ksn_base64_encode data"
proof -
  define m where "m = (length data + 2) div 3"
  define k where "k = mod_table ! (length data mod 3)"
  define g where "g = encode_triple (triple_of a b c)"
  have g: "length g = 4" by (simp add: g_def encode_triple_def)
  have "(length (a # b # c # data) + 2) div 3 = m + 1" "length (a # b # c # data) mod 3 = length data mod 3"
    by (simp_all add: m_def)
  then have l: "ksn_base64_encode (a # b # c # data) = fold (\<lambda>i out. out[4 * (m + 1) - 1 - i := pad]) [0..<k] (g @ encode_loop data)"
    by (simp only: ksn_base64_encode_def Let_def k_def [symmetric] encode_loop.simps g_def)
  have r: "ksn_base64_encode data = fold (\<lambda>i out. out[4 * m - 1 - i := pad]) [0..<k] (encode_loop data)"
    by (simp only: ksn_base64_encode_def Let_def k_def [symmetric] m_def [symmetric])
  have "k = 0 \<or> 1 \<le> m \<and> (k = 1 \<or> k = 2)"
    using mod_table_cases [of "length data"] by (cases data) (auto simp: k_def m_def)
  then consider "k = 0" | j where "m = j + 1" "k = 1" | j where "m = j + 1" "k = 2"
    by (metis le_add_diff_inverse2)
  then show ?thesis unfolding l r g_def [symmetric]
    by cases (simp_all add: upto_small list_update_append g del: One_nat_def)
qed

lemma encode_rest:
  "ksn_base64_encode [] = []"
  "encode_triple (triple_of a 0 0) = [e1, e2, e3, e4] \<Longrightarrow> ksn_base64_encode [a] = [e1, e2, pad, pad]"
  "encode_triple (triple_of a b 0) = [e1, e2, e3, e4] \<Longrightarrow> ksn_base64_encode [a, b] = [e1, e2, e3, pad]"
  by (simp_all add: ksn_base64_encode_def mod_table_def upto_small numeral_2_eq_2)

lemma decode_loop_encode:
  "decode_loop (build_decoding_table junk) (length data) (ksn_base64_encode data) = data"
proof (induction data rule: encode_loop.induct)
  case (2 a)
  obtain e1 e2 e3 e4 where e: "encode_triple (triple_of a 0 0) = [e1, e2, e3, e4]" and
    d: "let t = decode_triple (build_decoding_table junk) e1 e2 e3 e4
      in [ucast (drop_bit (2 * 8) t AND 0xFF), ucast (drop_bit (1 * 8) t AND 0xFF), ucast (drop_bit (0 * 8) t AND 0xFF)] = [a, 0, 0]"
    using group_back [of a 0 0 junk] by metis
  have "decode_triple (build_decoding_table junk) e1 e2 pad pad = decode_triple (build_decoding_table junk) e1 e2 e3 e4"
    using group_ends [OF e] by (simp add: decode_triple_def pad_sextet)
  then show ?case using d unfolding encode_rest(2) [OF e] by (simp add: Let_def)
next
  case (3 a b)
  obtain e1 e2 e3 e4 where e: "encode_triple (triple_of a b 0) = [e1, e2, e3, e4]" and
    d: "let t = decode_triple (build_decoding_table junk) e1 e2 e3 e4
      in [ucast (drop_bit (2 * 8) t AND 0xFF), ucast (drop_bit (1 * 8) t AND 0xFF), ucast (drop_bit (0 * 8) t AND 0xFF)] = [a, b, 0]"
    using group_back [of a b 0 junk] by metis
  have "decode_triple (build_decoding_table junk) e1 e2 e3 pad = decode_triple (build_decoding_table junk) e1 e2 e3 e4"
    using group_ends [OF e] by (simp add: decode_triple_def pad_sextet)
  then show ?case using d unfolding encode_rest(3) [OF e] by (simp add: Let_def)
next
  case (4 a b c data)
  obtain e1 e2 e3 e4 where e: "encode_triple (triple_of a b c) = [e1, e2, e3, e4]" and
    d: "let t = decode_triple (build_decoding_table junk) e1 e2 e3 e4
      in [ucast (drop_bit (2 * 8) t AND 0xFF), ucast (drop_bit (1 * 8) t AND 0xFF), ucast (drop_bit (0 * 8) t AND 0xFF)] = [a, b, c]"
    using group_back [of a b c junk] by metis
  then show ?case using 4 d unfolding encode_group e by (simp add: Let_def)
qed (simp add: encode_rest)

lemma encode_last:
  "data \<noteq> [] \<Longrightarrow> \<exists>es e1 e2 e3 e4. ksn_base64_encode data = es @ [e1, e2, e3, e4] \<and> length es = 4 * ((length data + 2) div 3 - 1) \<and>
     (e4 = pad \<longleftrightarrow> length data mod 3 \<noteq> 0) \<and> (e3 = pad \<longleftrightarrow> length data mod 3 = 1)"
proof (induction data rule: encode_loop.induct)
  case (2 a)
  then show ?case using encode_rest(2) group_back [of a 0 0] by fastforce
next
  case (3 a b)
  obtain e1 e2 e3 e4 where "encode_triple (triple_of a b 0) = [e1, e2, e3, e4]" "e3 \<in> set encoding_table"
    using group_back [of a b 0] by blast
  then show ?case using encode_rest(3) encoding_no_pad by fastforce
next
  case (4 a b c data)
  obtain e1 e2 e3 e4 where e: "encode_triple (triple_of a b c) = [e1, e2, e3, e4]" "e3 \<noteq> pad" "e4 \<noteq> pad"
    using group_back [of a b c] encoding_no_pad by blast
  show ?case
  proof (cases data)
    case Nil
    then show ?thesis using encode_group [of a b c data] e by (simp add: encode_rest)
  next
    case (Cons x xs)
    then obtain es f1 f2 f3 f4 where f: "ksn_base64_encode data = es @ [f1, f2, f3, f4]" "length es = 4 * ((length data + 2) div 3 - 1)"
      "f4 = pad \<longleftrightarrow> length data mod 3 \<noteq> 0" "f3 = pad \<longleftrightarrow> length data mod 3 = 1"
      using 4 by blast
    have n: "(length (a # b # c # data) + 2) div 3 - 1 = (length data + 2) div 3" "length (a # b # c # data) mod 3 = length data mod 3"
      by simp_all
    have "1 \<le> (length data + 2) div 3" using Cons by simp
    then have "length ([e1, e2, e3, e4] @ es) = 4 * ((length data + 2) div 3)" using f(2) by simp
    then show ?thesis
      unfolding n using encode_group [of a b c data] e(1) f(1,3,4)
      by (intro exI [of _ "[e1, e2, e3, e4] @ es"] exI [of _ f1] exI [of _ f2] exI [of _ f3] exI [of _ f4]) simp
  qed
qed simp

text \<open>
  What the encoder makes of any non-empty data, with four characters for each three bytes or part of
  them, the decoder turns back into the data, whatever its table holds for other characters. For an
  empty text the decoder reads in front of it.
\<close>

theorem base64_roundtrip:
  "length (ksn_base64_encode data) = 4 * ((length data + 2) div 3) \<and>
   ksn_base64_decode junk (ksn_base64_encode data) = (if data = [] then B64Fault else B64Data data)"
proof (cases "data = []")
  case False
  then obtain es e1 e2 e3 e4 where e: "ksn_base64_encode data = es @ [e1, e2, e3, e4]"
    "length es = 4 * ((length data + 2) div 3 - 1)" "e4 = pad \<longleftrightarrow> length data mod 3 \<noteq> 0" "e3 = pad \<longleftrightarrow> length data mod 3 = 1"
    using encode_last by blast
  define m where "m = (length data + 2) div 3"
  have m: "1 \<le> m" using False by (cases data) (auto simp: m_def)
  have n: "length (ksn_base64_encode data) = 4 * m" using e(1,2) m by (simp add: m_def)
  have "3 * m - (if length data mod 3 \<noteq> 0 then 1 else 0) - (if length data mod 3 = 1 then 1 else 0) = length data"
  proof -
    obtain q r where qr: "length data = 3 * q + r" "r < 3" by (metis mod_less_divisor mult_div_mod_eq zero_less_numeral)
    then consider "r = 0" | "r = 1" | "r = 2" by linarith
    moreover have "length data mod 3 = r" using qr by simp
    moreover have "m = q + (r + 2) div 3" unfolding m_def qr(1) add.assoc by simp
    ultimately show ?thesis using qr(1) by cases simp_all
  qed
  then have d: "4 * m div 4 * 3 - (if e4 = pad then 1 else 0) - (if e3 = pad then 1 else 0) = length data"
    using e(3,4) by (simp add: mult.commute)
  have l: "ksn_base64_encode data ! (4 * m - 1) = e4" "ksn_base64_encode data ! (4 * m - 2) = e3"
    using n m unfolding e(1) by (auto simp: nth_append)
  have "ksn_base64_decode junk (ksn_base64_encode data) = B64Data data"
    unfolding ksn_base64_decode_def Let_def n l d decode_loop_encode using m by simp
  then show ?thesis using False n by (simp add: m_def)
qed (simp add: encode_rest ksn_base64_decode_def)

end
