(* ===== verification/Delivery.thy ===== *)
theory Delivery
  imports L0Client
begin

text \<open>
  Two nodes: what one sends, the other receives. A node that receives the packets another made for
  an application command calls its application once, with the sender's name, the command and the
  data, whether the packets are the parts of a split or not. Commands of a client of the L0 server
  reach the application of the peer the client named.
\<close>

section \<open>Receiving a sequence of packets\<close>

definition node_packets :: "nat \<Rightarrow> bytes list \<Rightarrow> bytes \<Rightarrow> int \<Rightarrow> ksnetEvMgr \<Rightarrow> ksnetEvMgr" where
  "node_packets n bufs addr port ke = fold (\<lambda>buf. node_packet n buf addr port) bufs ke"

text \<open>The buffers in a list of effects, in order.\<close>

definition sent_buffers :: "action list \<Rightarrow> bytes list" where
  "sent_buffers acts = List.map_filter (\<lambda>a. case a of TrudpSendto cmd buf addr port \<Rightarrow> Some buf | _ \<Rightarrow> None) acts"

text \<open>What a call adds to the effects.\<close>

definition new_out :: "ksnetEvMgr \<Rightarrow> ksnetEvMgr \<Rightarrow> action list" where
  "new_out ke ke' = drop (length (ke_out ke)) (ke_out ke')"

lemma new_out_append [simp]: "ke_out ke' = ke_out ke @ acts \<Longrightarrow> new_out ke ke' = acts"
  by (simp add: new_out_def)

definition is_user :: "u8 \<Rightarrow> bool" where
  "is_user cmd \<longleftrightarrow> 128 \<le> cmd \<and> cmd < 192"

text \<open>The network key and the cipher that two nodes share.\<close>

definition same_key :: "ksnetEvMgr \<Rightarrow> ksnetEvMgr \<Rightarrow> bool" where
  "same_key a b \<longleftrightarrow> cbc_padded (aes_enc (ke_env a)) (aes_dec (ke_env b)) \<and> cfg_crypt_f b = cfg_crypt_f a \<and> kcr b = kcr a"

definition c_name :: "bytes \<Rightarrow> bool" where
  "c_name s \<longleftrightarrow> 0 \<notin> set s \<and> length s < 255"

section \<open>One packet\<close>

text \<open>What becomes of a packet: the dispatcher, then the application if no handler processed it.\<close>

definition dispatch :: "ksnCorePacketData \<Rightarrow> ksnetEvMgr \<Rightarrow> ksnetEvMgr" where
  "dispatch rd ke =
     (case ksnCommandCheck rd ke of (processed, rd2, ke1) \<Rightarrow>
        if processed = 0 then event_cb EV_K_RECEIVED (EvPacket rd2) ke1 else ke1)"

definition received :: "ksnetEvMgr \<Rightarrow> u8 \<Rightarrow> bytes \<Rightarrow> bytes \<Rightarrow> int \<Rightarrow> ksnCorePacketData" where
  "received a c d addr port =
     ksnCorePacketData_zero\<lparr>rd_addr := addr, rd_port := port, rd_raw_data := ksnCoreCreatePacket a c d,
       rd_from := strz (kc_name a), rd_cmd := c, rd_data := d\<rparr>"

lemma packet_received_simps [simp]:
  "rd_from (received a c d addr port) = strz (kc_name a)" "rd_cmd (received a c d addr port) = c"
  "rd_data (received a c d addr port) = d" "rd_addr (received a c d addr port) = addr"
  "rd_port (received a c d addr port) = port"
  by (simp_all add: received_def)

lemma sent_packet_ne: "sent_packet a c d \<noteq> []"
  by (simp add: sent_packet_def Let_def ksnEncryptPackage_def ksnCoreCreatePacket_def ksnCoreCreatePacketFrom_def enc_u16_def)

lemma node_packet_sent:
  assumes "same_key a b" and "c_name (kc_name a)" and "length d < 65000" and "ke_run b" and "cfg_crypt_f a \<or> c = CMD_L0"
  shows "node_packet (Suc n) (sent_packet a c d) addr port b = core_command (received a c d addr port) b"
proof -
  note p = sent_packet_parse [of a b d c "ksnCorePacketData_zero\<lparr>rd_addr := addr, rd_port := port\<rparr>"]
  have "core_packet b (sent_packet a c d) addr port = (True, received a c d addr port)"
    using p assms by (simp add: core_packet_def same_key_def c_name_def received_def split_def)
  then show ?thesis using assms(4) sent_packet_ne by (simp add: ksnCoreProcessPacket_def)
qed

text \<open>A node that has seen a packet of a peer now.\<close>

definition seen :: "bytes \<Rightarrow> ksnetEvMgr \<Rightarrow> ksnetEvMgr" where
  "seen name ke = arp_store name (\<lambda>a. a\<lparr>arp_last_activity := ksnetEvMgrGetTime ke\<rparr>) ke"

lemma seen_fields [simp]:
  "ke_env (seen name ke) = ke_env ke" "ke_run (seen name ke) = ke_run ke" "ke_event_cb (seen name ke) = ke_event_cb ke"
  "ke_time (seen name ke) = ke_time ke" "ksnetEvMgrGetTime (seen name ke) = ksnetEvMgrGetTime ke"
  "kcr (seen name ke) = kcr ke" "cfg_crypt_f (seen name ke) = cfg_crypt_f ke" "ke_out (seen name ke) = ke_out ke"
  "kco_ks (seen name ke) = kco_ks ke" "kl (seen name ke) = kl ke" "kc_name (seen name ke) = kc_name ke"
  "ksnetArpGet (seen name ke) peer = None \<longleftrightarrow> ksnetArpGet ke peer = None"
  by (simp_all add: seen_def arp_store_def ksnetEvMgrGetTime_def ksnetArpGet_def get_store)

lemma core_command_known:
  assumes "ksnetArpGet ke name \<noteq> None" and "rd_cmd rd \<noteq> CMD_NONE" and "cstr (rd_from rd) = name"
  shows "core_command rd ke = dispatch (rd\<lparr>rd_arp := Some name\<rparr>) (seen name ke)"
  using assms by (auto simp: dispatch_def core_command_def ksnCoreCheckNewPeer_def Let_def rd_found_def seen_def)

lemma is_user_other:
  assumes "is_user c"
  shows "c \<noteq> CMD_SPLIT" "c \<noteq> CMD_L0" "c \<noteq> CMD_NONE" "c \<noteq> CMD_VPN"
  using assms unfolding is_user_def by (auto simp: CMD_SPLIT_def CMD_L0_def CMD_NONE_def CMD_VPN_def)

lemma command_user:
  assumes "is_user (rd_cmd rd)"
  shows "ksnCommandCheck rd ke = (0, rd, ke)"
proof -
  have "command_single rd ke = (0, ke)"
    using assms unfolding command_single_def Let_def is_user_def
    by (auto simp: CMD_defs)
  then show ?thesis using is_user_other [OF assms] by (simp add: ksnCommandCheck.simps [of rd])
qed

section \<open>Packets in parts\<close>

lemma command_split_null:
  assumes "rd_cmd rd = CMD_SPLIT" and "ksnSplitCombine (ksnetEvMgrGetTime ke) (kco_ks ke) rd = (CombNull, ks)"
  shows "ksnCommandCheck rd ke = (1, rd, ke\<lparr>kco_ks := ks\<rparr>)"
  using assms by (simp add: ksnCommandCheck.simps [of rd] cmd_split_cb_def)

lemma dispatch_split:
  assumes "rd_cmd rd = CMD_SPLIT" and "ksnSplitCombine (ksnetEvMgrGetTime ke) (kco_ks ke) rd = (CombRds rds, ks)"
  shows "dispatch rd ke = dispatch rds (ke\<lparr>kco_ks := ks\<rparr>)"
  using assms by (simp add: dispatch_def ksnCommandCheck.simps [of rd] cmd_split_cb_def split: prod.splits)

text \<open>Combining looks at these fields of a sub-packet only.\<close>

lemma combine_fields:
  assumes "rd_data rd = rd_data rd'" and "rd_from rd = rd_from rd'" and "rd_addr rd = rd_addr rd'"
    and "rd_port rd = rd_port rd'" and "rd_arp rd = rd_arp rd'" and "rd_mtu rd = rd_mtu rd'"
  shows "ksnSplitCombine t ks rd = ksnSplitCombine t ks rd'"
  unfolding ksnSplitCombine_def assms by (rule refl)

text \<open>The table of sub-packets as the first of them finds it, when old ones have been dropped.\<close>

definition split_now :: "real \<Rightarrow> ksnSplitClass \<Rightarrow> ksnSplitClass" where
  "split_now t ks = ks\<lparr>split_map := (if t - last_added ks > 10 \<and> \<not> pblMapIsEmpty (split_map ks)
     then pblMapClear (split_map ks) else split_map ks), last_added := t\<rparr>"

lemma combine_now: "4 \<le> length (rd_data rd) \<Longrightarrow> ksnSplitCombine t (split_now t ks) rd = ksnSplitCombine t ks rd"
  by (simp add: ksnSplitCombine_def split_now_def)

lemma size_split_now: "pblMapSize (split_map (split_now t ks)) \<le> pblMapSize (split_map ks)"
  by (simp add: split_now_def map_simps)

abbreviation of_peer :: "bytes \<Rightarrow> ksnCorePacketData \<Rightarrow> ksnCorePacketData" where
  "of_peer name rd \<equiv> rd\<lparr>rd_arp := Some name\<rparr>"

definition parts_feed :: "ksnetEvMgr \<Rightarrow> bytes list \<Rightarrow> bytes \<Rightarrow> int \<Rightarrow> real \<Rightarrow> (real \<times> ksnCorePacketData) list" where
  "parts_feed a ds addr port t = map (\<lambda>d. (t, of_peer (kc_name a) (received a CMD_SPLIT d addr port))) ds"

lemma parts_feed_simps [simp]:
  "parts_feed a [] addr port t = []"
  "parts_feed a (d # ds) addr port t =
     (t, of_peer (kc_name a) (received a CMD_SPLIT d addr port)) # parts_feed a ds addr port t"
  by (simp_all add: parts_feed_def)

lemma seen_kco_ks: "seen name (ke\<lparr>kco_ks := ks\<rparr>) = (seen name ke)\<lparr>kco_ks := ks\<rparr>"
  by (simp add: seen_def arp_store_def ksnetEvMgrGetTime_def)

lemma seen_pow_kco_ks: "(seen name ^^ k) (ke\<lparr>kco_ks := ks\<rparr>) = ((seen name ^^ k) ke)\<lparr>kco_ks := ks\<rparr>"
  by (induction k) (simp_all add: seen_kco_ks)

lemma seen_pow_fields [simp]:
  "ke_env ((seen name ^^ k) ke) = ke_env ke" "ke_run ((seen name ^^ k) ke) = ke_run ke"
  "ksnetEvMgrGetTime ((seen name ^^ k) ke) = ksnetEvMgrGetTime ke" "ke_event_cb ((seen name ^^ k) ke) = ke_event_cb ke"
  "kcr ((seen name ^^ k) ke) = kcr ke" "cfg_crypt_f ((seen name ^^ k) ke) = cfg_crypt_f ke"
  "ke_out ((seen name ^^ k) ke) = ke_out ke" "kco_ks ((seen name ^^ k) ke) = kco_ks ke"
  "ksnetArpGet ((seen name ^^ k) ke) peer = None \<longleftrightarrow> ksnetArpGet ke peer = None"
  by (induction k) simp_all

text \<open>A sending node and a receiving one that knows it.\<close>

definition linked :: "ksnetEvMgr \<Rightarrow> ksnetEvMgr \<Rightarrow> bool" where
  "linked a b \<longleftrightarrow> same_key a b \<and> cfg_crypt_f a \<and> c_name (kc_name a) \<and> ke_run b \<and> ksnetArpGet b (kc_name a) \<noteq> None"

lemma ksnetArpGet_kco_ks: "ksnetArpGet (ke\<lparr>kco_ks := ks\<rparr>) = ksnetArpGet ke"
  by (simp add: ksnetArpGet_def fun_eq_iff)

lemma linked_seen [simp]:
  "linked a (seen name b) = linked a b" "linked a ((seen name ^^ k) b) = linked a b" "linked a (b\<lparr>kco_ks := ks\<rparr>) = linked a b"
  by (simp_all add: linked_def same_key_def ksnetArpGet_kco_ks del: not_None_eq)

lemma linked_packet:
  assumes "linked a b" and "length d < 65000" and "c \<noteq> CMD_NONE"
  shows "node_packet (Suc n) (sent_packet a c d) addr port b =
    dispatch (of_peer (kc_name a) (received a c d addr port)) (seen (kc_name a) b)"
proof -
  have "cstr (rd_from (received a c d addr port)) = kc_name a"
    using assms(1) by (simp add: linked_def c_name_def cstr_strz)
  then show ?thesis
    using assms node_packet_sent [of a b d c] core_command_known [of b "kc_name a" "received a c d addr port"]
    by (simp add: linked_def)
qed

lemma getTime_kco_ks: "ksnetEvMgrGetTime (ke\<lparr>kco_ks := ks\<rparr>) = ksnetEvMgrGetTime ke"
  by (simp add: ksnetEvMgrGetTime_def)

lemma linked_parts_null:
  assumes "linked a b" and "\<forall>d \<in> set ds. length d < 65000"
    and "ksnSplitCombine_seq (kco_ks b) (parts_feed a ds addr port t) = (replicate (length ds) CombNull, ks)"
    and "ksnetEvMgrGetTime b = t"
  shows "node_packets (Suc n) (map (sent_packet a CMD_SPLIT) ds) addr port b =
    ((seen (kc_name a) ^^ length ds) b)\<lparr>kco_ks := ks\<rparr>"
  using assms
proof (induction ds arbitrary: b)
  case (Cons d ds)
  define ks1 where "ks1 = snd (ksnSplitCombine t (kco_ks b)
     (of_peer (kc_name a) (received a CMD_SPLIT d addr port)))"
  have c: "ksnSplitCombine t (kco_ks b) (of_peer (kc_name a) (received a CMD_SPLIT d addr port)) = (CombNull, ks1)"
    and r: "ksnSplitCombine_seq ks1 (parts_feed a ds addr port t) = (replicate (length ds) CombNull, ks)"
    using Cons.prems(3) by (auto simp: ks1_def split: prod.splits)
  have "CMD_SPLIT \<noteq> CMD_NONE" by (simp add: CMD_defs)
  then have 1: "node_packet (Suc n) (sent_packet a CMD_SPLIT d) addr port b = (seen (kc_name a) b)\<lparr>kco_ks := ks1\<rparr>"
    using linked_packet [OF Cons.prems(1), of d CMD_SPLIT n addr port] Cons.prems(2,4) c
    by (simp add: dispatch_def command_split_null)
  have "node_packets (Suc n) (map (sent_packet a CMD_SPLIT) ds) addr port ((seen (kc_name a) b)\<lparr>kco_ks := ks1\<rparr>) =
      ((seen (kc_name a) ^^ length ds) ((seen (kc_name a) b)\<lparr>kco_ks := ks1\<rparr>))\<lparr>kco_ks := ks\<rparr>"
    by (rule Cons.IH) (use Cons.prems r in \<open>simp_all add: getTime_kco_ks\<close>)
  also have "\<dots> = ((seen (kc_name a) ^^ length (d # ds)) b)\<lparr>kco_ks := ks\<rparr>"
    unfolding seen_pow_kco_ks by (simp add: funpow_swap1)
  finally show ?case using 1 by (simp add: node_packets_def)
qed (simp add: node_packets_def)

definition same_part :: "ksnCorePacketData \<Rightarrow> ksnCorePacketData \<Rightarrow> bool" where
  "same_part rd rd' \<longleftrightarrow> rd_data rd = rd_data rd' \<and> rd_from rd = rd_from rd' \<and> rd_addr rd = rd_addr rd' \<and>
     rd_port rd = rd_port rd' \<and> rd_arp rd = rd_arp rd' \<and> rd_mtu rd = rd_mtu rd'"

lemma combine_seq_fields:
  "list_all2 (\<lambda>(t, rd) (t', rd'). t = t' \<and> same_part rd rd') xs ys \<Longrightarrow> ksnSplitCombine_seq ks xs = ksnSplitCombine_seq ks ys"
proof (induction xs ys arbitrary: ks rule: list_all2_induct)
  case (Cons x xs y ys)
  then show ?case
    using combine_fields [of "snd x" "snd y"] by (auto simp: same_part_def split: prod.splits)
qed simp

lemma combine_seq_now:
  assumes "fst x = t" and "4 \<le> length (rd_data (snd x))"
  shows "ksnSplitCombine_seq (split_now t ks) (x # xs) = ksnSplitCombine_seq ks (x # xs)"
  using assms combine_now by (cases x) simp

lemma parts_of_split:
  assumes "MAX_DATA_LEN < length data"
  shows "map splitPayload (fst (ksnSplitPacket ks cmd data)) =
    map (\<lambda>i. splitPayload (fst (ksnSplitPacket ks cmd data) ! i)) ([0..<splitCount data - 1] @ [splitCount data - 1])"
proof -
  have "length (fst (ksnSplitPacket ks cmd data)) = splitCount data"
    using assms by (simp add: ksnSplitPacket_def splitCount_def Let_def)
  then have "map (\<lambda>i. splitPayload (fst (ksnSplitPacket ks cmd data) ! i)) [0..<splitCount data] =
      map splitPayload (fst (ksnSplitPacket ks cmd data))"
    by (intro nth_equalityI) simp_all
  moreover have "[0..<splitCount data] = [0..<splitCount data - 1] @ [splitCount data - 1]"
    using splitCount_bounds(1) [OF assms] upt_Suc_append [of 0 "splitCount data - 1"] by simp
  ultimately show ?thesis by simp
qed

text \<open>The packet the parts make at the receiver.\<close>

definition whole_packet :: "ksnetEvMgr \<Rightarrow> u8 \<Rightarrow> bytes \<Rightarrow> bytes \<Rightarrow> int \<Rightarrow> ksnCorePacketData" where
  "whole_packet a cmd data addr port =
     ksnCorePacketData_zero\<lparr>rd_addr := addr, rd_arp := Some (kc_name a), rd_data := data,
       rd_from := strz (kc_name a), rd_mtu := 0, rd_port := port, rd_cmd := cmd\<rparr>"

lemma parts_combined:
  assumes large: "MAX_DATA_LEN < length data" and "length data \<le> MAX_PACKET_LEN - MAX_DATA_LEN"
    and "pblMapSize (split_map ks) + splitCount data \<le> pblMaxElements"
  shows "\<exists>ks'. ksnSplitCombine_seq ks (parts_feed a (map splitPayload (fst (ksnSplitPacket ksa cmd data))) addr port t) =
    (replicate (splitCount data - 1) CombNull @ [CombRds (whole_packet a cmd data addr port)], ks')"
proof -
  let ?subs = "fst (ksnSplitPacket ksa cmd data)" and ?n = "splitCount data"
  let ?rd = "of_peer (kc_name a) (received a CMD_SPLIT [] addr port)" and ?arr = "map (\<lambda>i. (t, i)) [0..<?n - 1]"
  note b = splitCount_bounds [OF large]
  have times: "successively (\<lambda>s t. t - s \<le> (10::real)) (t # map fst ?arr @ [t])"
  proof -
    have "t # map fst ?arr @ [t] = replicate (?n + 1) t"
      using b(1) by (intro replicate_eqI) auto
    moreover have "successively (\<lambda>s t. t - s \<le> (10::real)) (replicate k t)" for k
      by (induction k rule: induct_nat_012) simp_all
    ultimately show ?thesis by metis
  qed
  obtain ks' where full: "ksnSplitCombine_seq (split_now t ks) (split_feed ?rd ?subs (?arr @ [(t, ?n - 1)])) =
      (replicate (length ?arr) CombNull @
       [CombRds (ksnCorePacketData_zero
          \<lparr>rd_addr := rd_addr ?rd, rd_arp := rd_arp ?rd, rd_data := data, rd_from := rd_from ?rd,
           rd_mtu := rd_mtu ?rd, rd_port := rd_port ?rd, rd_cmd := cmd\<rparr>)], ks')"
    using split_roundtrip_full [OF large assms(2), of ?arr "split_now t ks" t ?rd ksa cmd] times size_split_now [of t ks] assms(3) b(1)
    by (force simp: split_now_def)
  have "list_all2 (\<lambda>(t, rd) (t', rd'). t = t' \<and> same_part rd rd')
      (parts_feed a (map splitPayload ?subs) addr port t) (split_feed ?rd ?subs (?arr @ [(t, ?n - 1)]))"
    unfolding parts_feed_def parts_of_split [OF large] split_feed_def
    by (simp add: list_all2_append list_all2_map1 list_all2_map2 list_all2_same same_part_def received_def)
  note same = combine_seq_fields [OF this]
  have "?subs ! 0 = splitSubpacket (packet_number ksa) cmd data ?n 0"
    unfolding ksnSplitPacket_def splitCount_def [symmetric] Let_def using b(1) large by simp
  then have len: "4 \<le> length (splitPayload (?subs ! 0))"
    using b(1) splitPayload_subpacket [OF large, of 0 "packet_number ksa" cmd] by simp
  have "ksnSplitCombine_seq (split_now t ks) (split_feed ?rd ?subs (?arr @ [(t, ?n - 1)])) =
      ksnSplitCombine_seq ks (split_feed ?rd ?subs (?arr @ [(t, ?n - 1)]))"
  proof -
    have "?arr @ [(t, ?n - 1)] = (t, 0) # map (\<lambda>i. (t, i)) [1..<?n - 1] @ [(t, ?n - 1)]"
      using b(1) by (cases "?n = 1") (simp_all add: upt_conv_Cons)
    then have "split_feed ?rd ?subs (?arr @ [(t, ?n - 1)]) =
        (t, ?rd\<lparr>rd_data := splitPayload (?subs ! 0)\<rparr>) # split_feed ?rd ?subs (map (\<lambda>i. (t, i)) [1..<?n - 1] @ [(t, ?n - 1)])"
      by (simp add: split_feed_def)
    moreover have "fst (t, ?rd\<lparr>rd_data := splitPayload (?subs ! 0)\<rparr>) = t"
      "4 \<le> length (rd_data (snd (t, ?rd\<lparr>rd_data := splitPayload (?subs ! 0)\<rparr>)))"
      using len by simp_all
    ultimately show ?thesis by (simp only: combine_seq_now)
  qed
  then show ?thesis
    using full same by (simp add: whole_packet_def received_def ksnCorePacketData_zero_def)
qed

text \<open>The packets of one send, received in order.\<close>

lemma combine_seq_last:
  assumes "ksnSplitCombine_seq ks (xs @ [(t, rd)]) = (rs @ [r], ks')" and "length rs = length xs"
  obtains ks1 where "ksnSplitCombine_seq ks xs = (rs, ks1)" and "ksnSplitCombine t ks1 rd = (r, ks')"
proof -
  have len: "length (fst (ksnSplitCombine_seq ks xs)) = length xs"
    by (induction xs arbitrary: ks) (auto simp: split_def Let_def)
  obtain rs1 ks1 where s: "ksnSplitCombine_seq ks xs = (rs1, ks1)" by fastforce
  obtain r1 ks2 where c: "ksnSplitCombine t ks1 rd = (r1, ks2)" by fastforce
  have "rs1 @ [r1] = rs @ [r]" "ks2 = ks'" using assms(1) s c by (simp_all add: combine_seq_append)
  then show thesis using that s c by simp
qed

text \<open>The state in which the last part finds the receiver, and the whole packet in it.\<close>

definition after_parts :: "bytes \<Rightarrow> ksnetEvMgr \<Rightarrow> ksnetEvMgr \<Rightarrow> bool" where
  "after_parts name b b' \<longleftrightarrow> (\<exists>k ks. b' = ((seen name ^^ k) b)\<lparr>kco_ks := ks\<rparr>)"

definition packet_of :: "ksnetEvMgr \<Rightarrow> u8 \<Rightarrow> bytes \<Rightarrow> bytes \<Rightarrow> int \<Rightarrow> ksnCorePacketData \<Rightarrow> bool" where
  "packet_of a cmd data addr port rd \<longleftrightarrow> rd_cmd rd = cmd \<and> rd_data rd = data \<and> rd_from rd = strz (kc_name a) \<and>
     rd_addr rd = addr \<and> rd_port rd = port \<and> rd_arp rd = Some (kc_name a) \<and> \<not> rd_l0_f rd"

lemma after_parts_fields:
  assumes "after_parts name b b'"
  shows "ke_out b' = ke_out b" "ke_event_cb b' = ke_event_cb b" "ke_env b' = ke_env b" "ke_run b' = ke_run b"
    "ksnetEvMgrGetTime b' = ksnetEvMgrGetTime b" "ksnetArpGet b' peer = None \<longleftrightarrow> ksnetArpGet b peer = None"
    "kcr b' = kcr b" "cfg_crypt_f b' = cfg_crypt_f b"
  using assms by (auto simp: after_parts_def getTime_kco_ks ksnetArpGet_kco_ks simp del: not_None_eq)

lemma linked_split:
  assumes "linked a b" and large: "MAX_DATA_LEN < length data"
    and "length data \<le> MAX_PACKET_LEN - MAX_DATA_LEN" and "pblMapSize (split_map (kco_ks b)) + splitCount data \<le> pblMaxElements"
  obtains b' where "after_parts (kc_name a) b b'" and
    "node_packets (Suc n) (map (sent_packet a CMD_SPLIT) (map splitPayload (fst (ksnSplitPacket ks cmd data)))) addr port b =
     dispatch (whole_packet a cmd data addr port) b'"
proof -
  let ?t = "ksnetEvMgrGetTime b" and ?rd = "\<lambda>d. of_peer (kc_name a) (received a CMD_SPLIT d addr port)"
  define part where "part i = splitPayload (fst (ksnSplitPacket ks cmd data) ! i)" for i
  define ds where "ds = map part [0..<splitCount data - 1]"
  have ps: "map splitPayload (fst (ksnSplitPacket ks cmd data)) = ds @ [part (splitCount data - 1)]"
    unfolding parts_of_split [OF large] ds_def part_def by simp
  have small: "length d < 65000" if d: "d \<in> set (ds @ [part (splitCount data - 1)])" for d
  proof -
    have "d \<in> set (map splitPayload (fst (ksnSplitPacket ks cmd data)))" using d unfolding ps .
    then obtain i where "i < splitCount data" "d = splitPayload (splitSubpacket (packet_number ks) cmd data (splitCount data) i)"
      using large unfolding ksnSplitPacket_def splitCount_def [symmetric] Let_def by auto
    then show ?thesis using length_payload [OF large, of i "packet_number ks" cmd] by simp
  qed
  obtain ks' where all: "ksnSplitCombine_seq (kco_ks b) (parts_feed a (ds @ [part (splitCount data - 1)]) addr port ?t) =
      (replicate (splitCount data - 1) CombNull @ [CombRds (whole_packet a cmd data addr port)], ks')"
    using parts_combined [OF large assms(3,4), of a ks cmd addr port ?t] unfolding ps by blast
  then obtain ks1 where init: "ksnSplitCombine_seq (kco_ks b) (parts_feed a ds addr port ?t) = (replicate (length ds) CombNull, ks1)"
    and last: "ksnSplitCombine ?t ks1 (?rd (part (splitCount data - 1))) = (CombRds (whole_packet a cmd data addr port), ks')"
    by (auto simp: parts_feed_def ds_def elim: combine_seq_last)
  define b1 where "b1 = ((seen (kc_name a) ^^ length ds) b)\<lparr>kco_ks := ks1\<rparr>"
  have 1: "node_packets (Suc n) (map (sent_packet a CMD_SPLIT) ds) addr port b = b1"
    unfolding b1_def by (rule linked_parts_null [OF assms(1) _ init]) (use small in auto)
  have b1: "linked a b1" "ksnetEvMgrGetTime b1 = ?t" "kco_ks b1 = ks1"
    using assms(1) by (simp_all add: b1_def getTime_kco_ks)
  have "node_packet (Suc n) (sent_packet a CMD_SPLIT (part (splitCount data - 1))) addr port b1 =
      dispatch (whole_packet a cmd data addr port) ((seen (kc_name a) b1)\<lparr>kco_ks := ks'\<rparr>)"
    using linked_packet [OF b1(1), of "part (splitCount data - 1)" CMD_SPLIT n addr port] last b1(2,3) small
    by (simp add: dispatch_split CMD_defs)
  moreover have "after_parts (kc_name a) b ((seen (kc_name a) b1)\<lparr>kco_ks := ks'\<rparr>)"
    unfolding after_parts_def b1_def seen_kco_ks by (intro exI [of _ "Suc (length ds)"] exI [of _ ks']) simp
  ultimately show thesis using that 1 unfolding ps by (simp add: node_packets_def)
qed

text \<open>The packets of one send, in one part or in several.\<close>

lemma linked_dispatch:
  assumes "linked a b" and "cmd \<noteq> CMD_VPN" and "cmd \<noteq> CMD_NONE" and "length data \<le> MAX_PACKET_LEN - MAX_DATA_LEN"
    and "pblMapSize (split_map (kco_ks b)) + splitCount data \<le> pblMaxElements"
  obtains b' rd where "after_parts (kc_name a) b b'" and "packet_of a cmd data addr port rd"
    and "node_packets (Suc n) (sent_buffers (new_out a (snd (ksnCoreSendto to_addr to_port cmd data a)))) addr port b = dispatch rd b'"
proof -
  have out: "new_out a (snd (ksnCoreSendto to_addr to_port cmd data a)) =
      map (\<lambda>(c, d). TrudpSendto c (sent_packet a c d) to_addr to_port) (sent_parts a cmd data)"
    by (rule new_out_append) (simp add: sendto_out [OF assms(4)] ksnCoreSetEventTime_def)
  have bufs: "sent_buffers (map (\<lambda>(c, d). TrudpSendto c (sent_packet a c d) to_addr to_port) ps) =
      map (\<lambda>(c, d). sent_packet a c d) ps" for ps
    by (induction ps) (simp_all add: sent_buffers_def List.map_filter_simps split_def)
  show thesis
  proof (cases "MAX_DATA_LEN < length data")
    case True
    then have "sent_parts a cmd data = map (\<lambda>d. (CMD_SPLIT, d)) (map splitPayload (fst (ksnSplitPacket (kco_ks a) cmd data)))"
      using assms(2) by (simp add: sent_parts_def)
    then have b: "sent_buffers (new_out a (snd (ksnCoreSendto to_addr to_port cmd data a))) =
        map (sent_packet a CMD_SPLIT) (map splitPayload (fst (ksnSplitPacket (kco_ks a) cmd data)))"
      unfolding out bufs by simp
    have "packet_of a cmd data addr port (whole_packet a cmd data addr port)"
      by (simp add: packet_of_def whole_packet_def ksnCorePacketData_zero_def)
    then show thesis using linked_split [OF assms(1) True assms(4,5)] that unfolding b by metis
  next
    case False
    have "sent_buffers (new_out a (snd (ksnCoreSendto to_addr to_port cmd data a))) = [sent_packet a cmd data]"
      unfolding out bufs using False by (simp add: sent_parts_def)
    moreover have "after_parts (kc_name a) b (seen (kc_name a) b)"
      unfolding after_parts_def by (intro exI [of _ 1] exI [of _ "kco_ks (seen (kc_name a) b)"]) simp
    moreover have "packet_of a cmd data addr port (of_peer (kc_name a) (received a cmd data addr port))"
      by (simp add: packet_of_def received_def ksnCorePacketData_zero_def)
    ultimately show thesis
      using linked_packet [OF assms(1), of data cmd n addr port] False assms(3) that
      by (simp add: node_packets_def MAX_DATA_LEN_def)
  qed
qed

text \<open>
  C4: splitting is invisible to the commands: receiving the packets one call of ksnCoreSendto makes
  has the effect of dispatching the whole packet once, with the sender's name and address, in the
  state the node had before (apart from the table of sub-packets and the time the sender was last
  seen). This holds for every command but CMD_VPN, which is never split, and CMD_NONE.
\<close>

theorem send_dispatch:
  assumes "linked a b" and "cmd \<noteq> CMD_VPN" and "cmd \<noteq> CMD_NONE" and "length data \<le> MAX_PACKET_LEN - MAX_DATA_LEN"
    and "pblMapSize (split_map (kco_ks b)) + splitCount data \<le> pblMaxElements"
  shows "\<exists>b' rd. after_parts (kc_name a) b b' \<and> packet_of a cmd data addr port rd \<and>
    node_packets (Suc n) (sent_buffers (new_out a (snd (ksnCoreSendto to_addr to_port cmd data a)))) addr port b = dispatch rd b'"
  by (rule linked_dispatch [OF assms, of addr port n to_addr to_port]) blast

lemma dispatch_app:
  assumes "ksnCommandCheck rd b' = (0, rd', b')" and "after_parts name b b'" and "ke_event_cb b"
  shows "new_out b (dispatch rd b') = [EventCb EV_K_RECEIVED (EvPacket rd')]"
  using assms by (simp add: dispatch_def event_cb_def after_parts_fields [OF assms(2)])

text \<open>
  C1: what one node sends another for an application command arrives once and whole: the packets of
  one call of ksnCoreSendto (one, or the parts of a split) make a running node with the same network
  key that knows the sender call its application exactly once, with the sender's name and address,
  the command and all the data, and do nothing else outside.
\<close>

theorem user_packet_delivered:
  assumes "linked a b" and "ke_event_cb b" and "is_user cmd" and "length data \<le> MAX_PACKET_LEN - MAX_DATA_LEN"
    and "pblMapSize (split_map (kco_ks b)) + splitCount data \<le> pblMaxElements"
  shows "\<exists>rd. new_out b (node_packets (Suc n) (sent_buffers (new_out a (snd (ksnCoreSendto to_addr to_port cmd data a)))) addr port b) =
      [EventCb EV_K_RECEIVED (EvPacket rd)] \<and>
    rd_from rd = strz (kc_name a) \<and> rd_cmd rd = cmd \<and> rd_data rd = data \<and> rd_addr rd = addr \<and> rd_port rd = port"
proof -
  obtain b' rd where d: "after_parts (kc_name a) b b'" "packet_of a cmd data addr port rd"
    "node_packets (Suc n) (sent_buffers (new_out a (snd (ksnCoreSendto to_addr to_port cmd data a)))) addr port b = dispatch rd b'"
    by (rule linked_dispatch [OF assms(1) is_user_other(4,3) [OF assms(3)] assms(4,5)])
  have "new_out b (dispatch rd b') = [EventCb EV_K_RECEIVED (EvPacket rd)]"
    by (rule dispatch_app [OF command_user d(1) assms(2)]) (use d(2) assms(3) in \<open>simp add: packet_of_def\<close>)
  then show ?thesis using d(2,3) by (auto simp: packet_of_def)
qed

text \<open>Two nodes with the same network key; the second knows the first.\<close>

definition delivery_peer :: ksnetEvMgr where
  "delivery_peer = ksnetArpAdd [97] (arp_zero\<lparr>arp_addr := [49], arp_port := 9010\<rparr>) (exampleNode [98])"

lemma delivery_linked: "linked (exampleNode [97]) delivery_peer" "ke_event_cb delivery_peer"
  using pad_only
  by (simp_all add: delivery_peer_def linked_def same_key_def c_name_def exampleNode_def exampleEnv_def arp_get_add)
     (simp_all add: ksnetArpAdd_def)

lemma delivery_ks: "kco_ks delivery_peer = ksnSplitInit"
  by (simp add: delivery_peer_def ksnetArpAdd_def exampleNode_def)

theorem user_packet_delivered_witness:
  "\<exists>rd. new_out delivery_peer (node_packets 1 (sent_buffers (new_out (exampleNode [97])
        (snd (ksnCoreSendto [50] 9010 129 (replicate 449 7) (exampleNode [97]))))) [49] 9010 delivery_peer) =
      [EventCb EV_K_RECEIVED (EvPacket rd)] \<and> rd_data rd = replicate 449 7"
proof -
  have "is_user 129" "length (replicate 449 (7::u8)) \<le> MAX_PACKET_LEN - MAX_DATA_LEN"
    "pblMapSize (split_map (kco_ks delivery_peer)) + splitCount (replicate 449 (7::u8)) \<le> pblMaxElements"
    by (simp_all add: is_user_def MAX_PACKET_LEN_def MAX_DATA_LEN_def delivery_ks ksnSplitInit_def map_simps pblMaxElements_def example_count)
  from user_packet_delivered [OF delivery_linked this, of 0 "[50]" 9010 "[49]" 9010] show ?thesis by auto
qed

lemma delivery_room:
  "length (replicate 449 (7::u8)) \<le> MAX_PACKET_LEN - MAX_DATA_LEN"
  "pblMapSize (split_map (kco_ks delivery_peer)) + splitCount (replicate 449 (7::u8)) \<le> pblMaxElements"
  by (simp_all add: MAX_PACKET_LEN_def MAX_DATA_LEN_def delivery_ks ksnSplitInit_def map_simps pblMaxElements_def example_count)

theorem send_dispatch_witness:
  "\<exists>b' rd. packet_of (exampleNode [97]) CMD_ECHO (replicate 449 7) [49] 9010 rd \<and>
    node_packets 1 (sent_buffers (new_out (exampleNode [97])
        (snd (ksnCoreSendto [50] 9010 CMD_ECHO (replicate 449 7) (exampleNode [97]))))) [49] 9010 delivery_peer = dispatch rd b'"
  using send_dispatch [OF delivery_linked(1) _ _ delivery_room, of CMD_ECHO "[49]" 9010 0 "[50]" 9010]
  by (auto simp: CMD_defs)

section \<open>Clients of the L0 server\<close>

lemma l0_spacket_fields:
  assumes "c_name name" and "length data < 65536"
  shows "sp_cmd (l0_spacket cmd (strz name) data) = cmd" "sp_name_length (l0_spacket cmd (strz name) data) = length name + 1"
    "sp_data (l0_spacket cmd (strz name) data) = data" "sp_inside (l0_spacket cmd (strz name) data)"
    "take (length name + 1) (sp_payload (l0_spacket cmd (strz name) data)) = strz name"
    "cstr (sp_payload (l0_spacket cmd (strz name) data)) = name"
    "length (l0_spacket cmd (strz name) data) = length name + length data + 5"
proof -
  have z: "0 \<notin> set name" "length name + 1 < 256" using assms(1) by (simp_all add: c_name_def)
  have l: "length (strz name) mod 256 = length name + 1" using z(2) by simp
  have p: "l0_spacket cmd (strz name) data =
      [cmd, of_nat (length name + 1)] @ enc_u16 (of_nat (length data)) @ strz name @ data"
    unfolding l0_spacket_def Let_def l by simp
  have u: "unat (of_nat (length data) :: u16) = length data"
    by (simp only: unat_of_nat) (use assms(2) in simp)
  have n: "unat (of_nat (length name + 1) :: u8) = length name + 1" by (rule u8_of_nat [OF z(2)])
  have d4: "sp_payload (l0_spacket cmd (strz name) data) = strz name @ data"
    unfolding p sp_payload_def by (simp add: enc_u16_def)
  show "sp_cmd (l0_spacket cmd (strz name) data) = cmd" unfolding p sp_cmd_def by simp
  show nl: "sp_name_length (l0_spacket cmd (strz name) data) = length name + 1"
    unfolding p sp_name_length_def using n by (simp add: byte_at_def)
  have dl: "sp_data_length (l0_spacket cmd (strz name) data) = length data"
    unfolding p sp_data_length_def using u by (simp add: dec_enc_u16)
  show "sp_data (l0_spacket cmd (strz name) data) = data" unfolding sp_data_def d4 nl dl by (simp add: strz_def)
  show len: "length (l0_spacket cmd (strz name) data) = length name + length data + 5" unfolding p by simp
  show tk: "take (length name + 1) (sp_payload (l0_spacket cmd (strz name) data)) = strz name"
    unfolding d4 by (simp add: strz_def)
  show "sp_inside (l0_spacket cmd (strz name) data)"
    unfolding sp_inside_def nl dl tk len unfolding d4 by (simp add: strz_def)
  show "cstr (sp_payload (l0_spacket cmd (strz name) data)) = name"
    unfolding d4 by (rule cstr_strz_append [OF z(1)])
qed

text \<open>A client's packet at the peer: the command is the client's, and so is the name of the sender.\<close>

lemma command_l0:
  assumes "rd_cmd rd = CMD_L0" and "rd_data rd = l0_spacket cmd (strz name) data" and "c_name name"
    and "length data < 65536" and "CMD_USER \<le> cmd" and "is_user cmd"
  shows "ksnCommandCheck rd ke = (0, rd\<lparr>rd_cmd := cmd, rd_from := strz name, rd_data := data, rd_l0_f := True\<rparr>, ke)"
proof -
  note f = l0_spacket_fields [OF assms(3,4), of cmd]
  have "CMD_L0 \<noteq> CMD_SPLIT" by (simp add: CMD_defs)
  moreover have "l0_command_valid cmd"
    using assms(5,6) by (simp add: l0_command_valid_def is_user_def CMD_192_RESERVED_def)
  moreover have "l0_spacket cmd (strz name) data \<noteq> []" using f(7) by (metis add_is_0 list.size(3) numeral_neq_zero)
  ultimately show ?thesis
    using assms f
    by (simp add: ksnCommandCheck.simps [of rd] cmd_l0_cb_def Let_def command_user)
qed

lemma upd_kl_linked [simp]:
  "linked (upd_kl f a) b = linked a b" "linked (l0_store fd g a) b = linked a b"
  "ke_out (upd_kl f a) = ke_out a" "ke_out (l0_store fd g a) = ke_out a"
  "ke_env (l0_store fd g a) = ke_env a" "cfg_host_name (l0_store fd g a) = cfg_host_name a"
  "ksnetArpGet (upd_kl f a) peer = ksnetArpGet a peer" "ksnetArpGet (l0_store fd g a) peer = ksnetArpGet a peer"
  "kc_name (upd_kl f a) = kc_name a" "kc_name (l0_store fd g a) = kc_name a"
  by (simp_all add: linked_def same_key_def upd_kl_def l0_store_def ksnetArpGet_def)

lemma sendFromL0_out:
  assumes "peer = cstr (cp_body (teocli (ke_env ke)) pkt)" and "peer \<noteq> []" and "peer \<noteq> cfg_host_name ke"
    and "ksnetArpGet ke peer = Some arp"
  shows "ke_out (ksnLNullSendFromL0 local pkt name ke) =
    ke_out (snd (ksnCoreSendto (arp_addr arp) (arp_port arp) CMD_L0
      (l0_spacket (cp_cmd (teocli (ke_env ke)) (cp_header (teocli (ke_env ke)) pkt)) (strz name) (cp_payload (teocli (ke_env ke)) pkt)) ke))"
  using assms by (simp add: ksnLNullSendFromL0_def Let_def ksnCoreSendCmdto_def)

text \<open>
  C2: a packet with an application's command that a logged in client sends over TR-UDP to a peer of
  the network reaches the application of that peer: the packets the L0 server makes for it
  (processPacket, the path of TR-UDP clients; the packets of TCP clients take another), received by a
  peer with the same network key that knows the server, call the peer's application exactly once, with
  the client's name as the sender, the client's command and data, marked as coming from a client. An
  application's command is one from CMD_USER up to the end of the range, 129 to 191; a client's echo
  or request for the list of peers is answered by the peer's library, not by its application, and is
  not meant here.
\<close>

theorem l0_packet_delivered:
  assumes "linked s b" and "ke_event_cb b" and "l0_name kld = Some name" and "c_name name"
    and "cp_decrypt (teocli (ke_env s)) (l0_crypt kld) pkt = Some packet"
    and "cp_cmd (teocli (ke_env s)) (cp_header (teocli (ke_env s)) packet) = cmd" and "CMD_USER \<le> cmd" and "is_user cmd"
    and "cp_payload (teocli (ke_env s)) packet = data" and "length data < 65536"
    and "cstr (cp_body (teocli (ke_env s)) packet) = peer" and "peer \<noteq> []" and "peer \<noteq> cfg_host_name s"
    and "ksnetArpGet s peer = Some arp"
    and "pblMapSize (split_map (kco_ks b)) + splitCount (l0_spacket cmd (strz name) data) \<le> pblMaxElements"
  shows "\<exists>rd'. new_out b (node_packets (Suc n) (sent_buffers (new_out s (snd (processPacket local fd kld rd pkt s)))) addr port b) =
      [EventCb EV_K_RECEIVED (EvPacket rd')] \<and>
    rd_from rd' = strz name \<and> rd_cmd rd' = cmd \<and> rd_data rd' = data \<and> rd_l0_f rd'"
proof -
  define s1 where "s1 = l0_store fd (\<lambda>d. d\<lparr>l0_last_time := ksnetEvMgrGetTime (upd_kl (\<lambda>l. l\<lparr>l0_packets_from_client := l0_packets_from_client l + 1\<rparr>) s)\<rparr>)
     (upd_kl (\<lambda>l. l\<lparr>l0_packets_from_client := l0_packets_from_client l + 1\<rparr>) s)"
  let ?sp = "l0_spacket cmd (strz name) data"
  have cmd0: "cmd \<noteq> 0" using assms(8) by (auto simp: is_user_def)
  have s1: "linked s1 b" "ke_out s1 = ke_out s" "kc_name s1 = kc_name s" using assms(1) by (simp_all add: s1_def)
  have "snd (processPacket local fd kld rd pkt s) = ksnLNullSendFromL0 local packet name s1"
    using assms(3,5,6) cmd0 by (simp add: processPacket_def Let_def s1_def)
  then have out: "new_out s (snd (processPacket local fd kld rd pkt s)) =
      new_out s1 (snd (ksnCoreSendto (arp_addr arp) (arp_port arp) CMD_L0 ?sp s1))"
    using sendFromL0_out [of peer s1 packet arp local name] assms(6,9,11-14) s1(2) by (simp add: new_out_def s1_def)
  have len: "length ?sp \<le> MAX_PACKET_LEN - MAX_DATA_LEN"
    using l0_spacket_fields(7) [OF assms(4,10)] assms(4,10) by (simp add: c_name_def MAX_PACKET_LEN_def MAX_DATA_LEN_def)
  have c: "CMD_L0 \<noteq> CMD_VPN" "CMD_L0 \<noteq> CMD_NONE" by (simp_all add: CMD_defs)
  obtain b' r where d: "after_parts (kc_name s1) b b'" "packet_of s1 CMD_L0 ?sp addr port r"
    "node_packets (Suc n) (sent_buffers (new_out s1 (snd (ksnCoreSendto (arp_addr arp) (arp_port arp) CMD_L0 ?sp s1)))) addr port b = dispatch r b'"
    by (rule linked_dispatch [OF s1(1) c len assms(15)])
  define r' where "r' = r\<lparr>rd_cmd := cmd, rd_from := strz name, rd_data := data, rd_l0_f := True\<rparr>"
  have "ksnCommandCheck r b' = (0, r', b')"
    unfolding r'_def by (rule command_l0) (use d(2) assms(4,7,8,10) in \<open>simp_all add: packet_of_def\<close>)
  from dispatch_app [OF this d(1) assms(2)] show ?thesis
    unfolding out d(3) by (intro exI [of _ r']) (simp add: r'_def)
qed

text \<open>
  C3: the answer goes back to that client: what a peer sends with ksnLNullSendToL0 for a client of a
  server makes the server hand exactly one packet, with the peer's name as the sender, the command
  and the data, to the connection of the client with that name.
\<close>

theorem l0_answer_delivered:
  assumes "linked a s" and "kl s = Some l" and "c_name name" and "length data < 65536"
    and "ksnLNullClientIsConnected l name = fd" and "fd \<noteq> 0"
    and "pblMapSize (split_map (kco_ks s)) + splitCount (l0_spacket cmd (strz name) data) \<le> pblMaxElements"
  shows "\<exists>s'. ke_env s' = ke_env s \<and> ke_out s' = ke_out s \<and>
    node_packets (Suc n) (sent_buffers (new_out a (snd (ksnLNullSendToL0 to_addr to_port (strz name) cmd data a)))) addr port s =
      ksnLNullPacketSend fd (l0_packet_create (ke_env s) cmd (kc_name a) data)
        (l\<lparr>l0_packets_from_peer := l0_packets_from_peer l + 1\<rparr>) s'"
proof -
  let ?sp = "l0_spacket cmd (strz name) data"
  note f = l0_spacket_fields [OF assms(3,4), of cmd]
  have len: "length ?sp \<le> MAX_PACKET_LEN - MAX_DATA_LEN"
    using f(7) assms(3,4) by (simp add: c_name_def MAX_PACKET_LEN_def MAX_DATA_LEN_def)
  have c: "CMD_L0_TO \<noteq> CMD_VPN" "CMD_L0_TO \<noteq> CMD_NONE" by (simp_all add: CMD_defs)
  obtain s' r where d: "after_parts (kc_name a) s s'" "packet_of a CMD_L0_TO ?sp addr port r"
    "node_packets (Suc n) (sent_buffers (new_out a (snd (ksnCoreSendto to_addr to_port CMD_L0_TO ?sp a)))) addr port s = dispatch r s'"
    by (rule linked_dispatch [OF assms(1) c len assms(7)])
  have k: "kl s' = Some l"
  proof -
    have "kl ((seen name ^^ j) s) = kl s" for j name by (induction j) simp_all
    then show ?thesis using d(1) assms(2) by (auto simp: after_parts_def)
  qed
  have frm: "cstr (rd_from r) = kc_name a"
    using d(2) assms(1) by (simp add: packet_of_def linked_def c_name_def cstr_strz)
  have "command_single r s' = cmd_l0_to_cb r s'"
    using d(2) k by (simp add: packet_of_def command_single_def Let_def CMD_defs)
  moreover have "CMD_L0_TO \<noteq> CMD_SPLIT" "CMD_L0_TO \<noteq> CMD_L0" by (simp_all add: CMD_defs)
  ultimately have "dispatch r s' = snd (cmd_l0_to_cb r s')"
    using d(2) by (simp add: dispatch_def ksnCommandCheck.simps [of r] packet_of_def cmd_l0_to_cb_def)
  also have "\<dots> = ksnLNullPacketSend fd (l0_packet_create (ke_env s) cmd (kc_name a) data)
      (l\<lparr>l0_packets_from_peer := l0_packets_from_peer l + 1\<rparr>) (upd_kl (\<lambda>l. l\<lparr>l0_packets_from_peer := l0_packets_from_peer l + 1\<rparr>) s')"
    using d(2) k f assms(5,6) frm after_parts_fields(3) [OF d(1)]
    by (simp add: cmd_l0_to_cb_def Let_def packet_of_def client_fd_def ksnLNullClientIsConnected_def l0_send_packet_def)
  finally show ?thesis
    using d(3) after_parts_fields(1,3) [OF d(1)]
    by (intro exI [of _ "upd_kl (\<lambda>l. l\<lparr>l0_packets_from_peer := l0_packets_from_peer l + 1\<rparr>) s'"]) (simp add: ksnLNullSendToL0_def)
qed

text \<open>A server with the clients of \<open>l0_node\<close> that knows the peer, and the peer that knows the server.\<close>

definition l0_server :: ksnetEvMgr where
  "l0_server = ksnetArpAdd [98] (arp_zero\<lparr>arp_addr := [49], arp_port := 9010\<rparr>) l0_node"

definition l0_peer :: ksnetEvMgr where
  "l0_peer = ksnetArpAdd (kc_name l0_node) arp_zero (exampleNode [98])"

text \<open>A packet in the example environment: command 129 with the data 1, 2 for the peer \<open>b\<close>.\<close>

definition client_packet :: bytes where
  "client_packet = [129, 2, 2, 0, 0, 0, 0, 0, 98, 0, 1, 2]"

lemma l0_server_fields: "ke_env l0_server = exampleEnv" "kc_name l0_server = kc_name l0_node" "kl l0_server = Some l0_example"
  "cfg_host_name l0_server = cfg_host_name l0_node" "ksnetArpGet l0_server [98] = Some (arp_zero\<lparr>arp_addr := [49], arp_port := 9010\<rparr>)"
  by (simp_all add: l0_server_def l0_node_def exampleNode_def ksnetArpAdd_def)
     (simp add: ksnetArpGet_def pblMapAdd_def map_simps)

lemma l0_linked: "linked l0_server l0_peer" "ke_event_cb l0_peer" "linked (exampleNode [98]) (ksnetArpAdd [98] arp_zero l0_node)"
  "kl (ksnetArpAdd [98] arp_zero l0_node) = Some l0_example"
  "kco_ks l0_peer = ksnSplitInit" "kco_ks (ksnetArpAdd [98] arp_zero l0_node) = ksnSplitInit"
  using pad_only
  by (simp_all add: l0_server_def l0_peer_def linked_def same_key_def c_name_def l0_node_def exampleNode_def exampleEnv_def)
     (simp_all add: ksnetArpAdd_def ksnetArpGet_def pblMapAdd_def map_simps)

lemma l0_small_count: "pblMapSize (split_map ksnSplitInit) + splitCount (l0_spacket 129 (strz [97]) [1, 2]) \<le> pblMaxElements"
  using l0_spacket_fields(7) [of "[97]" "[1, 2]" 129]
  by (simp add: splitCount_def c_name_def MAX_DATA_LEN_def ksnSplitInit_def map_simps pblMaxElements_def)

lemma client_packet_fields:
  "cp_decrypt (teocli (ke_env l0_server)) NoCrypt client_packet = Some client_packet"
  "cp_cmd (teocli (ke_env l0_server)) (cp_header (teocli (ke_env l0_server)) client_packet) = 129"
  "cp_payload (teocli (ke_env l0_server)) client_packet = [1, 2]"
  "cstr (cp_body (teocli (ke_env l0_server)) client_packet) = [98]"
  by (simp_all add: l0_server_fields exampleEnv_def exampleTeocli_def client_packet_def cp_header_def cp_payload_def cp_body_def
      cstr_def dec_u16_def byte_at_def)

theorem l0_packet_delivered_witness:
  "\<exists>rd'. new_out l0_peer (node_packets 1 (sent_buffers (new_out l0_server (snd (processPacket (\<lambda>b a p ke. ke) 5
        (l0_client_zero (Some [97])) ksnCorePacketData_zero client_packet l0_server)))) [49] 9010 l0_peer) =
      [EventCb EV_K_RECEIVED (EvPacket rd')] \<and> rd_from rd' = strz [97] \<and> rd_cmd rd' = 129 \<and> rd_data rd' = [1, 2] \<and> rd_l0_f rd'"
proof -
  have n: "l0_name (l0_client_zero (Some [97])) = Some [97]" "l0_crypt (l0_client_zero (Some [97])) = NoCrypt"
    "c_name [97]" "CMD_USER \<le> 129" "is_user 129" "length [1, 2::u8] < 65536" "[98::u8] \<noteq> []" "[98] \<noteq> cfg_host_name l0_server"
    by (simp_all add: l0_client_zero_def c_name_def CMD_USER_def is_user_def l0_server_fields l0_node_def exampleNode_def)
  show ?thesis
    using l0_packet_delivered [OF l0_linked(1,2) n(1,3), unfolded n(2), OF client_packet_fields(1,2) n(4,5) client_packet_fields(3) n(6)
        client_packet_fields(4) n(7,8) l0_server_fields(5), unfolded l0_linked(5), OF l0_small_count] by simp
qed

theorem l0_answer_delivered_witness:
  "\<exists>s'. node_packets 1 (sent_buffers (new_out (exampleNode [98])
      (snd (ksnLNullSendToL0 [49] 9010 (strz [97]) 129 [1, 2] (exampleNode [98]))))) [50] 9010 (ksnetArpAdd [98] arp_zero l0_node) =
    ksnLNullPacketSend 5 (l0_packet_create exampleEnv 129 [98] [1, 2])
      (l0_example\<lparr>l0_packets_from_peer := l0_packets_from_peer l0_example + 1\<rparr>) s'"
proof -
  have n: "c_name [97]" "length [1, 2::u8] < 65536" "ksnLNullClientIsConnected l0_example [97] = 5" "(5::int) \<noteq> 0"
    by (simp_all add: c_name_def ksnLNullClientIsConnected_def l0_example_get)
  have e: "ke_env (ksnetArpAdd [98] arp_zero l0_node) = exampleEnv" "kc_name (exampleNode [98]) = [98]"
    by (simp_all add: ksnetArpAdd_def l0_node_def exampleNode_def)
  show ?thesis
    using l0_answer_delivered [OF l0_linked(3,4) n, unfolded l0_linked(6), OF l0_small_count, of 0 "[49]" 9010 "[50]" 9010]
    unfolding e by auto
qed

end
