(* ===== verification/Node.thy ===== *)
theory Node
  imports Vpn Tun Delivery EventLoop "HOL-Library.Sublist"
begin

text \<open>
  The node as a whole: the steps a node can make, which are the callbacks of its event loop and the
  calls of its application, and the states it can reach from its start. The tables of a reachable
  node are well formed, its name, keys and environment are those it started with, and what it has
  sent stays sent.
\<close>

section \<open>Steps\<close>

text \<open>
  One rule for each callback that libev or TR-UDP runs and for each call of the library's interface;
  the arguments are what the system or the application gives. A timer and a stream's watchers
  belong to a record of their table.
\<close>

inductive node_step :: "ksnetEvMgr \<Rightarrow> ksnetEvMgr \<Rightarrow> bool" where
  trudp_event: "node_step ke (trudp_event_cb n addr port event ke)"
| udp_packet: "node_step ke (node_packet n buf addr port ke)"
| idle: "node_step ke (idle_cb ke)"
| activity: "node_step ke (idle_activity_cb ke)"
| timer: "node_step ke (timer_cb ke)"
| async_signal: "node_step ke (sig_async_cb ke)"
| async_idle: "node_step ke (idle_async_cb ke)"
| queue_timer: "cq_get (kq ke) (cq_id cq) = Some cq \<Longrightarrow> node_step ke (ke_timer cq ke)"
| l0_accept: "node_step ke (ksnLNullClientConnect fd remote_addr remote_port ke)"
| l0_read: "node_step ke (cmd_l0_read_cb (node_packet n) fd bytes_read ke)"
| l0_timer: "node_step ke (check_connected ke)"
| l0_stop: "node_step ke (ksnLNullStop ke)"
| stream_in: "pblMapGet (ks_map ke) key = Some smd \<Longrightarrow> node_step ke (stream_in_cb smd ke)"
| stream_out: "pblMapGet (ks_map ke) key = Some smd \<Longrightarrow> node_step ke (stream_out_cb smd input ke)"
| tun_accept: "node_step ke (ksn_tun_accept_cb tun_d fd ke)"
| tun_read: "node_step ke (cmd_tun_read_cb fd result ke)"
| vpn_read: "node_step ke (tuntap_io_cb frame ke)"
| time_passes: "ke_time ke \<le> t \<Longrightarrow> node_step ke (ke\<lparr>ke_time := t\<rparr>)"
| app_send_addr: "node_step ke (snd (ksnCoreSendto addr port cmd data ke))"
| app_send: "node_step ke (snd (ksnCoreSendCmdto to cmd data ke))"
| app_broadcast: "node_step ke (teoBroadcastSend to cmd data ke)"
| app_subscribe: "node_step ke (teoSScrSubscribe peer ev ke)"
| app_unsubscribe: "node_step ke (teoSScrUnSubscribe peer ev ke)"
| app_event: "node_step ke (teoSScrSend ev data cmd ke)"
| app_forget: "node_step ke (snd (teoSScrUnSubscriptionAll peer ke))"
| app_stream_create: "0 \<notin> set peer \<Longrightarrow> 0 \<notin> set name \<Longrightarrow> node_step ke (snd (ksnStreamCreate peer name send_f ke))"
| app_stream_close: "node_step ke (ksnStreamClose peer name send_f ke)"
| app_streams_close: "node_step ke (ksnStreamCloseAll ke)"
| app_queue: "node_step ke (snd (ke_CQueAdd (Some (UserCb f)) timeout data ke))"
| app_queue_exec: "node_step ke (snd (ke_CQueExec i ke))"
| app_l0_broadcast: "node_step ke (snd (ksnLNullSendBroadcast cmd data ke))"
| app_tunnel: "node_step ke (ksnTunCreate server to to_port to_ip ke)"
| app_tunnels_close: "node_step ke (ksnTunMapFree ke)"
| app_remove_peer: "node_step ke (snd (ksnetArpRemove name ke))"
| app_remove_peers: "node_step ke (ksnetArpRemoveAll ke)"
| app_custom_timer: "node_step ke (ksnetEvMgrSetCustomTimer interval ke)"
| app_async: "node_step ke (ksnetEvMgrAsync data user_data ke)"
| app_stop: "node_step ke (ksnetEvMgrStop ke)"

text \<open>A node that starts: its modules have been made, and it has entered itself in the table of peers.\<close>

definition node_start :: "ksnetEvMgr \<Rightarrow> ksnetEvMgr" where
  "node_start ke =
     ksnetArpAddHost (ke\<lparr>ka := pblMapNewHashMap, kq := ksnCQueInit False, kco_ks := ksnSplitInit, kr_map := pblMapNewHashMap,
       ks_map := pblMapNewHashMap, ksscr_map := pblMapNewHashMap,
       kl := map_option (\<lambda>l. l\<lparr>l0_map := pblMapNewHashMap, l0_map_n := pblMapNewHashMap\<rparr>) (kl ke), ke_out := []\<rparr>)"

definition node_reachable :: "ksnetEvMgr \<Rightarrow> ksnetEvMgr \<Rightarrow> bool" where
  "node_reachable ke0 ke \<longleftrightarrow> node_step\<^sup>*\<^sup>* (node_start ke0) ke"

section \<open>Invariant\<close>

text \<open>What never changes.\<close>

definition node_cfg :: "ksnetEvMgr \<Rightarrow> teoEnv \<times> bytes \<times> bytes \<times> ksnCryptClass \<times> bool" where
  "node_cfg ke = (ke_env ke, cfg_host_name ke, kc_name ke, kcr ke, cfg_crypt_f ke)"

text \<open>The tables: peers under their names, streams under their peer's and their own name, each
  subscriber once, queue records under their identifiers, clients under connection numbers.\<close>

definition node_tables :: "ksnetEvMgr \<Rightarrow> bool" where
  "node_tables ke \<longleftrightarrow> arp_wf ke \<and> stream_wf ke \<and> sscr_wf ke \<and> cque_wf (kq ke) \<and> (\<forall>l. kl ke = Some l \<longrightarrow> l0_keys l)"

text \<open>
  What stopping the node relies on: a client server that has a descriptor has a queue (ksnLNullInit
  writes neither when the server could not be made), and the tunnels are entered under descriptors.
\<close>

definition l0_queue :: "ksnLNullClass \<Rightarrow> bool" where
  "l0_queue l \<longleftrightarrow> l0_cque l \<noteq> None \<or> l0_fd l = 0"

definition tun_keys :: "ksnTunClass \<Rightarrow> bool" where
  "tun_keys t \<longleftrightarrow> (\<forall>key d. pblMapGet (tun_map t) key = Some d \<longrightarrow> (\<exists>fd. key = enc_u16 fd))"

definition stop_safe :: "ksnetEvMgr \<Rightarrow> bool" where
  "stop_safe ke \<longleftrightarrow> (\<forall>l. kl ke = Some l \<longrightarrow> l0_queue l) \<and> tun_keys (ktun ke)"

text \<open>\<open>c\<close> and \<open>out\<close> are the configuration and the effects at some time before; \<open>snd c\<close> says whether the node
  was made so that it can be stopped.\<close>

definition node_ok :: "(teoEnv \<times> bytes \<times> bytes \<times> ksnCryptClass \<times> bool) \<times> bool \<Rightarrow> action list \<Rightarrow> ksnetEvMgr \<Rightarrow> bool" where
  "node_ok c out ke \<longleftrightarrow> node_tables ke \<and> node_cfg ke = fst c \<and> (snd c \<longrightarrow> stop_safe ke) \<and> 0 \<notin> set (cfg_host_name ke) \<and>
     prefix out (ke_out ke)"

lemma node_ok_cong:
  assumes "node_ok c out ke" and "ka ke' = ka ke" and "ks_map ke' = ks_map ke" and "ksscr_map ke' = ksscr_map ke"
    and "kq ke' = kq ke" and "map_option (\<lambda>l. (l0_map l, l0_cque l, l0_fd l)) (kl ke') = map_option (\<lambda>l. (l0_map l, l0_cque l, l0_fd l)) (kl ke)"
    and "node_cfg ke' = node_cfg ke" and "prefix (ke_out ke) (ke_out ke')" and "ktun ke' = ktun ke"
  shows "node_ok c out ke'"
proof -
  have same: "\<exists>l. kl ke = Some l \<and> l0_keys l' = l0_keys l \<and> l0_queue l' = l0_queue l" if l': "kl ke' = Some l'" for l'
    using assms(6) l' by (cases "kl ke") (simp_all add: l0_keys_def l0_queue_def)
  have keys: "l0_keys l'" if "kl ke' = Some l'" for l'
    using same [OF that] assms(1) by (auto simp: node_ok_def node_tables_def)
  have safe: "snd c \<longrightarrow> stop_safe ke'"
    using same assms(1,9) by (auto simp: node_ok_def stop_safe_def)
  have tables: "arp_wf ke'" "stream_wf ke'" "sscr_wf ke'" "cque_wf (kq ke')"
    using assms(1-5) by (simp_all add: node_ok_def node_tables_def arp_wf_def stream_wf_def sscr_wf_def sscr_get_def)
  have host: "cfg_host_name ke' = cfg_host_name ke" using assms(7) by (simp add: node_cfg_def)
  have cfg: "node_cfg ke' = fst c" "0 \<notin> set (cfg_host_name ke')"
    using assms(1,7) host by (simp_all add: node_ok_def)
  have "prefix out (ke_out ke')" using assms(1,8) by (simp add: node_ok_def) (metis prefix_order.trans)
  then show ?thesis unfolding node_ok_def node_tables_def using keys tables cfg safe by blast
qed

text \<open>Changes of other fields, effects, and sends keep it.\<close>

lemma node_ok_fields [simp]:
  "node_ok c out (ke\<lparr>kvpn := a1\<rparr>) = node_ok c out ke"
  "node_ok c out (ke\<lparr>kr_map := a3\<rparr>) = node_ok c out ke" "node_ok c out (ke\<lparr>kco_ks := a4\<rparr>) = node_ok c out ke"
  "node_ok c out (ke\<lparr>ke_time := a5\<rparr>) = node_ok c out ke" "node_ok c out (ke\<lparr>ke_run := a6\<rparr>) = node_ok c out ke"
  "node_ok c out (ke\<lparr>ke_is_rhost := a7\<rparr>) = node_ok c out ke" "node_ok c out (ke\<lparr>cfg_r_host_name := a8\<rparr>) = node_ok c out ke"
  "node_ok c out (ke\<lparr>cfg_r_host_addr := a9\<rparr>) = node_ok c out ke" "node_ok c out (ke\<lparr>ke_channels := b1\<rparr>) = node_ok c out ke"
  "node_ok c out (ke\<lparr>ke_tp := b2\<rparr>) = node_ok c out ke" "node_ok c out (ke\<lparr>ke_conns := b3\<rparr>) = node_ok c out ke"
  "node_ok c out (ke\<lparr>ke_pipes := b4\<rparr>) = node_ok c out ke" "node_ok c out (ke\<lparr>ke_idle_count := b5\<rparr>) = node_ok c out ke"
  "node_ok c out (ke\<lparr>ke_idle_activity_count := b6\<rparr>) = node_ok c out ke" "node_ok c out (ke\<lparr>ke_timer_val := b7\<rparr>) = node_ok c out ke"
  "node_ok c out (ke\<lparr>ke_last_custom_timer := b8\<rparr>) = node_ok c out ke" "node_ok c out (ke\<lparr>ke_async_queue := b9\<rparr>) = node_ok c out ke"
  "node_ok c out (ke\<lparr>ke_async_idle := c1\<rparr>) = node_ok c out ke" "node_ok c out (ke\<lparr>ke_custom_timer_interval := c2\<rparr>) = node_ok c out ke"
  "node_ok c out (ke\<lparr>kc_last_check_event := c3\<rparr>) = node_ok c out ke"
  by (simp_all add: node_ok_def node_tables_def arp_wf_def stream_wf_def sscr_wf_def sscr_get_def node_cfg_def stop_safe_def)

lemma node_ok_emit [intro]: "node_ok c out ke \<Longrightarrow> node_ok c out (emit acts ke)"
  by (erule node_ok_cong) (simp_all add: node_cfg_def)

lemma node_ok_event [intro]: "node_ok c out ke \<Longrightarrow> node_ok c out (event_cb ev d ke)"
  by (auto simp: event_cb_def)

lemma node_ok_send:
  assumes "node_ok c out ke" and "send_only ke ke'"
  shows "node_ok c out ke'"
proof (rule node_ok_cong [OF assms(1)])
  show "map_option (\<lambda>l. (l0_map l, l0_cque l, l0_fd l)) (kl ke') = map_option (\<lambda>l. (l0_map l, l0_cque l, l0_fd l)) (kl ke)"
    "prefix (ke_out ke) (ke_out ke')"
    using assms(2) by (auto simp: send_only_def)
qed (simp_all add: node_cfg_def send_only_fields [OF assms(2)])

named_theorems node_keeps "operations that keep a node well formed"

lemmas [node_keeps] = node_ok_emit node_ok_event node_ok_send [OF _ send_only_sendto] node_ok_send [OF _ send_only_sendCmdto]
  node_ok_send [OF _ send_only_sendToL0] node_ok_send [OF _ send_only_broadcast] node_ok_send [OF _ send_only_connect(1)]
  node_ok_send [OF _ send_only_connect(2)] node_ok_send [OF _ send_only_callbacks(1)] node_ok_send [OF _ send_only_callbacks(2)]
  node_ok_send [OF _ send_only_callbacks(3)] node_ok_send [OF _ send_only_callbacks(4)] node_ok_send [OF _ send_only_sscrSend]

lemma node_ok_getAll [node_keeps]:
  "node_ok c out ke \<Longrightarrow> (\<And>name arp k. send_only k (snd (cb name arp k))) \<Longrightarrow> node_ok c out (snd (ksnetArpGetAll ke0 cb ke))"
  by (rule node_ok_send [OF _ send_only_getAll])

lemma node_ok_fold: "node_ok c out ke \<Longrightarrow> (\<And>x k. x \<in> set xs \<Longrightarrow> node_ok c out k \<Longrightarrow> node_ok c out (f x k)) \<Longrightarrow> node_ok c out (fold f xs ke)"
  by (induction xs arbitrary: ke) simp_all

lemma node_ok_fold_snd:
  "node_ok c out (snd p) \<Longrightarrow> (\<And>x q. x \<in> set xs \<Longrightarrow> node_ok c out (snd q) \<Longrightarrow> node_ok c out (snd (f x q))) \<Longrightarrow>
   node_ok c out (snd (fold f xs p))"
  by (induction xs arbitrary: p) simp_all

section \<open>The table of peers and the streams\<close>

lemma node_ok_tables:
  assumes "node_ok c out ke" and "arp_wf ke'" and "stream_wf ke'" and "sscr_wf ke'" and "cque_wf (kq ke')"
    and "kl ke' = kl ke" and "node_cfg ke' = node_cfg ke" and "ke_out ke' = ke_out ke" and "ktun ke' = ktun ke"
  shows "node_ok c out ke'"
proof -
  have "cfg_host_name ke' = cfg_host_name ke" using assms(7) by (simp add: node_cfg_def)
  then show ?thesis using assms by (simp add: node_ok_def node_tables_def stop_safe_def)
qed

lemma node_ok_parts:
  assumes "node_ok c out ke"
  shows "arp_wf ke" "stream_wf ke" "sscr_wf ke" "cque_wf (kq ke)" "0 \<notin> set (cfg_host_name ke)"
  using assms by (simp_all add: node_ok_def node_tables_def)

lemma wf_other:
  "arp_wf (ke\<lparr>ks_map := a\<rparr>) = arp_wf ke" "sscr_wf (ke\<lparr>ks_map := a\<rparr>) = sscr_wf ke" "sscr_wf (ke\<lparr>ka := b\<rparr>) = sscr_wf ke"
  "stream_wf (ke\<lparr>ka := b\<rparr>) = stream_wf ke" "arp_wf (ke\<lparr>ksscr_map := d\<rparr>) = arp_wf ke"
  "stream_wf (ke\<lparr>ksscr_map := d\<rparr>) = stream_wf ke" "arp_wf (ke\<lparr>kq := e\<rparr>) = arp_wf ke" "sscr_wf (ke\<lparr>kq := e\<rparr>) = sscr_wf ke"
  "stream_wf (ke\<lparr>kq := e\<rparr>) = stream_wf ke"
  by (simp_all add: arp_wf_def stream_wf_def sscr_wf_def sscr_get_def)

lemma node_ok_ka:
  assumes "node_ok c out ke" and "arp_wf (ke\<lparr>ka := m\<rparr>)"
  shows "node_ok c out (ke\<lparr>ka := m\<rparr>)"
  by (rule node_ok_tables [OF assms(1)]) (use assms node_ok_parts [OF assms(1)] in \<open>simp_all add: wf_other node_cfg_def\<close>)

lemma node_ok_ks_map:
  assumes "node_ok c out ke" and "stream_wf (ke\<lparr>ks_map := m\<rparr>)"
  shows "node_ok c out (ke\<lparr>ks_map := m\<rparr>)"
  by (rule node_ok_tables [OF assms(1)]) (use assms node_ok_parts [OF assms(1)] in \<open>simp_all add: wf_other node_cfg_def\<close>)

lemma node_ok_ksscr:
  assumes "node_ok c out ke" and "sscr_wf (ke\<lparr>ksscr_map := m\<rparr>)"
  shows "node_ok c out (ke\<lparr>ksscr_map := m\<rparr>)"
  by (rule node_ok_tables [OF assms(1)]) (use assms node_ok_parts [OF assms(1)] in \<open>simp_all add: wf_other node_cfg_def\<close>)

lemma node_ok_kq:
  assumes "node_ok c out ke" and "cque_wf q"
  shows "node_ok c out (ke\<lparr>kq := q\<rparr>)"
  by (rule node_ok_tables [OF assms(1)]) (use assms node_ok_parts [OF assms(1)] in \<open>simp_all add: wf_other node_cfg_def\<close>)

lemma node_ok_arp_add [node_keeps]: "node_ok c out ke \<Longrightarrow> 0 \<notin> set name \<Longrightarrow> node_ok c out (ksnetArpAdd name arp ke)"
  using node_ok_ka arp_wf_add node_ok_parts(1) unfolding ksnetArpAdd_def by blast

lemma node_ok_arp_store [node_keeps]: "node_ok c out ke \<Longrightarrow> node_ok c out (arp_store name f ke)"
  using node_ok_ka arp_wf_store node_ok_parts(1) unfolding arp_store_def by blast

lemma node_ok_arp_clear: "node_ok c out ke \<Longrightarrow> node_ok c out (ke\<lparr>ka := pblMapNewHashMap\<rparr>)"
  by (rule node_ok_ka) (simp_all add: arp_wf_def map_simps)

lemma node_ok_host [node_keeps]: "node_ok c out ke \<Longrightarrow> node_ok c out (ksnetArpAddHost ke)"
  by (simp add: ksnetArpAddHost_def node_ok_arp_add node_ok_parts(5))

lemma node_ok_channel [node_keeps]:
  "node_ok c out ke \<Longrightarrow> node_ok c out (channel_destroy addr port ke)" "node_ok c out ke \<Longrightarrow> node_ok c out (channel_destroy_all ke)"
  by (simp_all add: channel_destroy_def channel_destroy_all_def node_keeps)

lemma node_ok_streamSend [node_keeps]: "node_ok c out ke \<Longrightarrow> node_ok c out (ksnStreamSendTo p n cmd d ke)"
  by (simp add: ksnStreamSendTo_def node_keeps)

lemma node_ok_stream_remove: "node_ok c out ke \<Longrightarrow> node_ok c out (ke\<lparr>ks_map := pblMapRemoveFrom (ks_map ke) key\<rparr>)"
  by (rule node_ok_ks_map) (auto simp: stream_wf_def map_simps dest: node_ok_parts(2))

lemma node_ok_stream_store:
  "node_ok c out ke \<Longrightarrow> (\<And>d. st_key (f d) = st_key d) \<Longrightarrow> node_ok c out (ke\<lparr>ks_map := pblMapStore (ks_map ke) key f\<rparr>)"
  by (rule node_ok_ks_map) (auto simp: stream_wf_def map_simps split: if_splits dest: node_ok_parts(2))

lemma node_ok_streamClose [node_keeps]: "node_ok c out ke \<Longrightarrow> node_ok c out (ksnStreamClose p n f ke)"
  by (simp add: ksnStreamClose_def Let_def node_keeps node_ok_stream_remove split: option.split)

lemma node_ok_closePeer [node_keeps]: "node_ok c out ke \<Longrightarrow> node_ok c out (ksnStreamClosePeer name ke)"
proof -
  have "node_ok c out ke \<Longrightarrow> node_ok c out (ksnStreamClosePeer_rec k name ke)" for k ke
    by (induction k name ke rule: ksnStreamClosePeer_rec.induct) (simp_all add: node_keeps split: option.split)
  then show "node_ok c out ke \<Longrightarrow> ?thesis" by (simp add: ksnStreamClosePeer_def del: ksnStreamClosePeer_rec.simps)
qed

lemma node_ok_arpRemove [node_keeps]: "node_ok c out ke \<Longrightarrow> node_ok c out (snd (ksnetArpRemove name ke))"
proof -
  assume ok: "node_ok c out ke"
  have "arp_wf (ke\<lparr>ka := snd (pblMapRemove (ka ke) (strz name))\<rparr>)"
    using node_ok_parts(1) [OF ok] by (auto simp: arp_wf_def pblMapRemove_def map_simps split: if_splits)
  then have "node_ok c out (ke\<lparr>ka := snd (pblMapRemove (ka ke) (strz name))\<rparr>)" by (rule node_ok_ka [OF ok])
  then show ?thesis by (simp add: ksnetArpRemove_def split_def Let_def node_keeps split: option.split)
qed

lemma node_ok_arpRemoveAll [node_keeps]: "node_ok c out ke \<Longrightarrow> node_ok c out (ksnetArpRemoveAll ke)"
  unfolding ksnetArpRemoveAll_def by (intro node_keeps) (simp add: node_ok_arp_clear)

section \<open>Subscribers\<close>

lemma distinct_without:
  assumes "distinct (filter P (map g l))" and "k < length l"
  shows "distinct (filter P (map g (take k l @ drop (k + 1) l)))"
proof -
  have "distinct (filter P (map g (take k l @ l ! k # drop (k + 1) l)))"
    using assms(1) id_take_nth_drop [OF assms(2)] by simp
  then show ?thesis by (auto split: if_splits)
qed

lemma sscr_wf_subscribe: "sscr_wf ke \<Longrightarrow> sscr_wf (teoSScrSubscription peer ev arp ke)"
proof (cases "sscr_get ke ev")
  case None
  assume wf: "sscr_wf ke"
  have "sscr_get (ke\<lparr>ksscr_map := snd (pblMapAdd (ksscr_map ke) (enc_u16 ev) [d])\<rparr>) e = Some l \<Longrightarrow>
      sscr_get ke e = Some l \<or> e = ev \<and> l = [d]" for e l d
    using get_add_Some [of "ksscr_map ke" "enc_u16 ev" "[d]" "enc_u16 e" l] by (auto simp: sscr_get_def pblMapAdd_def)
  with wf None show ?thesis by (fastforce simp: sscr_wf_def teoSScrSubscription_def Let_def)
next
  case (Some list)
  assume wf: "sscr_wf ke"
  show ?thesis
  proof (cases "find_in_list ke peer ev")
    case None
    then have "peer = [] \<or> (\<forall>d \<in> set list. sl_data d \<noteq> peer)" using Some by (simp add: find_in_list_def find_idx_None)
    with wf None Some show ?thesis
      by (auto simp: sscr_wf_def teoSScrSubscription_def Let_def sscr_get_store split: if_splits)
  qed (use wf Some in \<open>simp add: teoSScrSubscription_def Let_def\<close>)
qed

lemma sscr_wf_unsubscribe: "sscr_wf ke \<Longrightarrow> sscr_wf (snd (teoSScrUnSubscription peer ev ke))"
proof (cases "sscr_get ke ev")
  case (Some list)
  assume wf: "sscr_wf ke"
  show ?thesis
  proof (cases "find_in_list ke peer ev")
    case (Some k)
    then have "k < length list" using \<open>sscr_get ke ev = Some list\<close> find_idx_Some [of peer 0 list k] by (simp add: find_in_list_def)
    then have "distinct (filter (\<lambda>n. n \<noteq> []) (map sl_data (take k list @ drop (k + 1) list)))"
      using wf \<open>sscr_get ke ev = Some list\<close> by (intro distinct_without) (simp_all add: sscr_wf_def)
    with wf Some \<open>sscr_get ke ev = Some list\<close> show ?thesis
      by (auto simp: sscr_wf_def teoSScrUnSubscription_def sscr_get_store split: if_splits dest: in_set_takeD in_set_dropD)
  qed (use wf Some in \<open>simp add: teoSScrUnSubscription_def\<close>)
qed (simp add: teoSScrUnSubscription_def)

lemma node_ok_subscription [node_keeps]: "node_ok c out ke \<Longrightarrow> node_ok c out (teoSScrSubscription peer ev arp ke)"
  using node_ok_ksscr sscr_wf_subscribe [OF node_ok_parts(3), of c out ke peer ev arp]
  by (auto simp: teoSScrSubscription_def Let_def split: option.splits if_splits)

lemma node_ok_unsubscription [node_keeps]: "node_ok c out ke \<Longrightarrow> node_ok c out (snd (teoSScrUnSubscription peer ev ke))"
  using node_ok_ksscr sscr_wf_unsubscribe [OF node_ok_parts(3), of c out ke peer ev]
  by (auto simp: teoSScrUnSubscription_def split: option.splits)

lemma node_ok_unsubscriptionAll [node_keeps]: "node_ok c out ke \<Longrightarrow> node_ok c out (snd (teoSScrUnSubscriptionAll peer ke))"
  unfolding teoSScrUnSubscriptionAll_def by (rule node_ok_fold_snd) (auto simp: node_keeps split_def)

lemma node_ok_subscribe_cmd [node_keeps]: "node_ok c out ke \<Longrightarrow> node_ok c out (snd (cmd_subscribe_cb rd ke))"
  by (simp add: cmd_subscribe_cb_def node_keeps)

section \<open>The queue and its callbacks\<close>

lemma node_ok_CQueAdd [node_keeps]: "node_ok c out ke \<Longrightarrow> node_ok c out (snd (ke_CQueAdd cb timeout data ke))"
  using cque_wf_add [OF node_ok_parts(4), of c out ke cb timeout data]
  by (auto simp: ke_CQueAdd_def split_def intro!: node_ok_emit node_ok_kq)

lemma node_ok_CQueAdd_eq: "node_ok c out ke \<Longrightarrow> ke_CQueAdd cb timeout data ke = (cq, ke') \<Longrightarrow> node_ok c out ke'"
  by (drule node_ok_CQueAdd [of _ _ _ cb timeout data]) simp

lemma arp_get_name:
  assumes "arp_wf ke" and "ksnetArpGet ke name = Some arp"
  shows "0 \<notin> set name"
  using assms strz_inject by (fastforce simp: arp_wf_def ksnetArpGet_def)

lemma node_ok_reconnectSend [node_keeps]: "node_ok c out ke \<Longrightarrow> node_ok c out (snd (ksnReconnectSend peer ke))"
  by (simp add: ksnReconnectSend_def Let_def split_def node_keeps split: option.split)

lemma node_ok_reconnectAnswer [node_keeps]: "node_ok c out ke \<Longrightarrow> node_ok c out (snd (ksnReconnectSendAnswer p q ke))"
  by (simp add: ksnReconnectSendAnswer_def split_def node_keeps)

lemma node_ok_reconnectProcess [node_keeps]: "node_ok c out ke \<Longrightarrow> node_ok c out (snd (ksnReconnectProcess rd ke))"
  by (simp add: ksnReconnectProcess_def Let_def node_keeps split: option.split)

lemma node_ok_reconnectCb [node_keeps]: "node_ok c out ke \<Longrightarrow> node_ok c out (ksnReconnectCQueCallback i type key ke)"
  by (auto simp: ksnReconnectCQueCallback_def Let_def split: option.split prod.split intro!: node_keeps)

lemma node_ok_peerTypeCb [node_keeps]: "node_ok c out ke \<Longrightarrow> node_ok c out (peer_type_cb i type addr from port ke)"
proof (cases "ksnetArpGet ke from")
  case (Some arp)
  assume ok: "node_ok c out ke"
  have from0: "0 \<notin> set from" by (rule arp_get_name [OF node_ok_parts(1) [OF ok] Some])
  have "node_ok c out (snd (ksnCoreSendto addr port CMD_HOST_INFO [] ke))" using ok by (intro node_keeps)
  then show ?thesis
    using ok Some from0 by (auto simp: peer_type_cb_def Let_def split: prod.splits option.splits
        dest: node_ok_CQueAdd_eq intro!: node_ok_emit node_ok_arp_add)
qed (simp add: peer_type_cb_def)

lemma node_ok_streamTimeout [node_keeps]: "node_ok c out ke \<Longrightarrow> node_ok c out (kq_connect_cb i type key ke)"
  by (simp add: kq_connect_cb_def node_keeps split: option.split)

lemma node_ok_cque_run: "node_ok c out ke \<Longrightarrow> node_ok c out (cque_run cb i type data ke)"
  by (cases "(cb, i, type, data, ke)" rule: cque_run.cases) (simp_all add: node_keeps cmd_connect_cque_cb_def)

lemma node_ok_cq_call: "node_ok c out ke \<Longrightarrow> node_ok c out (cq_call kq emit cque_run ke_event_cb i type cq ke)"
  by (simp add: cq_call_def Let_def node_ok_cque_run node_ok_emit split: option.split)

lemma node_ok_kq_remove:
  "node_ok c out ke \<Longrightarrow> node_ok c out (upd_kq (\<lambda>q. q\<lparr>cque_map := pblMapRemoveFrom (cque_map q) (enc_u32 i)\<rparr>) ke)"
  unfolding upd_kq_def by (rule node_ok_kq) (simp_all add: cque_wf_remove node_ok_parts(4))

lemma node_ok_CQueExec [node_keeps]: "node_ok c out ke \<Longrightarrow> node_ok c out (snd (ke_CQueExec i ke))"
  by (simp add: ke_CQueExec_def ksnCQueExec_def Let_def node_ok_kq_remove node_ok_cq_call node_ok_emit split: option.split)

lemma node_ok_timer [node_keeps]: "node_ok c out ke \<Longrightarrow> node_ok c out (ke_timer cq ke)"
  by (simp add: ke_timer_def cq_timer_cb_def Let_def node_ok_kq_remove node_ok_cq_call node_ok_emit)

lemma node_ok_exec_pointer [node_keeps]: "node_ok c out ke \<Longrightarrow> node_ok c out (exec_pointer cq ke)"
  by (simp add: exec_pointer_def node_keeps split: option.split)

lemma node_ok_reconnectProcessAnswer [node_keeps]: "node_ok c out ke \<Longrightarrow> node_ok c out (snd (ksnReconnectProcessAnswer rd ke))"
  by (simp add: ksnReconnectProcessAnswer_def node_keeps split: option.split)

section \<open>Creating streams\<close>

lemma node_ok_watchers [node_keeps]: "node_ok c out ke \<Longrightarrow> node_ok c out (connect_watchers key smd ke)"
proof -
  assume ok: "node_ok c out ke"
  let ?ke = "emit [IoStart (fst (st_pipe_in smd)), IoStart (fst (st_pipe_out smd))] ke"
  have "node_ok c out (?ke\<lparr>ks_map := pblMapStore (ks_map ?ke) key (\<lambda>d. d\<lparr>st_created := True\<rparr>)\<rparr>)"
    using ok by (intro node_ok_stream_store node_ok_emit) simp_all
  then show ?thesis by (simp add: connect_watchers_def node_ok_event)
qed

lemma pipe_call_ok: "pipe_call ke = (r, ke') \<Longrightarrow> node_ok c out ke \<Longrightarrow> node_ok c out ke'"
  by (auto simp: pipe_call_def split: list.splits)

lemma node_ok_stream_add:
  assumes "node_ok c out ke" and "0 \<notin> set peer" and "0 \<notin> set name" and "st_key smd = stream_key peer name"
  shows "node_ok c out (ke\<lparr>ks_map := snd (pblMapAdd (ks_map ke) (stream_key peer name) smd)\<rparr>)"
proof (rule node_ok_ks_map [OF assms(1)])
  have "pblMapGet (pblMapAddTo (ks_map ke) (stream_key peer name) smd) key = Some d \<Longrightarrow>
      pblMapGet (ks_map ke) key = Some d \<or> key = stream_key peer name \<and> d = smd" for key d
    using get_add_Some [of "ks_map ke" "stream_key peer name" smd key d] by auto
  then show "stream_wf (ke\<lparr>ks_map := snd (pblMapAdd (ks_map ke) (stream_key peer name) smd)\<rparr>)"
    using node_ok_parts(2) [OF assms(1)] assms(2-4) by (fastforce simp: stream_wf_def pblMapAdd_def)
qed

lemma node_ok_streamCreate [node_keeps]:
  assumes "node_ok c out ke" and "0 \<notin> set peer" and "0 \<notin> set name"
  shows "node_ok c out (snd (ksnStreamCreate peer name send_f ke))"
proof -
  have added: "node_ok c out (k\<lparr>ks_map := m\<rparr>)"
    if "pblMapAdd (ks_map k) (stream_key peer name) smd = (rc, m)" "node_ok c out k" "st_key smd = stream_key peer name" for k smd rc m
    using node_ok_stream_add [OF that(2) assms(2,3) that(3)] that(1) by simp
  have queued: "node_ok c out (k'\<lparr>ks_map := pblMapStore (ks_map k') key (\<lambda>x. x\<lparr>st_cq := i\<rparr>)\<rparr>)"
    if "ke_CQueAdd cb t d (ksnStreamSendTo peer name cmd data k) = (cq, k')" "node_ok c out k" for k k' cb t d cmd data cq key i
    by (rule node_ok_stream_store, rule node_ok_CQueAdd_eq [OF node_ok_streamSend that(1)]) (use that(2) in simp_all)
  show ?thesis
    unfolding ksnStreamCreate_def Let_def
    by (auto split: option.splits prod.splits intro!: queued node_keeps dest!: pipe_call_ok [OF _ assms(1)] pipe_call_ok added simp: assms(1))
qed

section \<open>The L0 server\<close>

definition l0_fine :: "'c \<times> bool \<Rightarrow> ksnLNullClass \<Rightarrow> bool" where
  "l0_fine c l \<longleftrightarrow> l0_keys l \<and> (snd c \<longrightarrow> l0_queue l)"

lemma node_ok_kl:
  assumes "node_ok c out ke" and "\<And>l. k = Some l \<Longrightarrow> l0_fine c l"
  shows "node_ok c out (ke\<lparr>kl := k\<rparr>)"
  using assms
  by (simp add: node_ok_def node_tables_def arp_wf_def stream_wf_def sscr_wf_def sscr_get_def node_cfg_def stop_safe_def l0_fine_def)

lemma node_ok_l0_keys: "node_ok c out ke \<Longrightarrow> kl ke = Some l \<Longrightarrow> l0_fine c l"
  by (simp add: node_ok_def node_tables_def stop_safe_def l0_fine_def)

lemma node_ok_upd_kl:
  assumes "node_ok c out ke" and "\<And>l. l0_fine c l \<Longrightarrow> l0_fine c (f l)"
  shows "node_ok c out (upd_kl f ke)"
  unfolding upd_kl_def by (rule node_ok_kl [OF assms(1)]) (use node_ok_l0_keys [OF assms(1)] assms(2) in auto)

lemma l0_keys_fields [simp]:
  "l0_fine c (l\<lparr>l0_map_n := a\<rparr>) = l0_fine c l" "l0_fine c (l\<lparr>l0_clients := b\<rparr>) = l0_fine c l" "l0_fine c (l\<lparr>l0_visits := d\<rparr>) = l0_fine c l"
  "l0_fine c (l\<lparr>l0_packets_from_peer := e\<rparr>) = l0_fine c l" "l0_fine c (l\<lparr>l0_packets_to_peer := f\<rparr>) = l0_fine c l"
  "l0_fine c (l\<lparr>l0_packets_from_client := g\<rparr>) = l0_fine c l" "l0_fine c (l\<lparr>l0_packets_to_client := h\<rparr>) = l0_fine c l"
  "l0_fine c (l\<lparr>l0_fd_trudp := i\<rparr>) = l0_fine c l"
  by (simp_all add: l0_keys_def l0_fine_def l0_queue_def)

lemma l0_fine_cque [intro]: "l0_fine c l \<Longrightarrow> l0_fine c (l\<lparr>l0_cque := Some q\<rparr>)"
  by (simp add: l0_keys_def l0_fine_def l0_queue_def)

text \<open>Every key of a connection number is that of an int.\<close>

lemma fd_key_int32: "\<exists>fd'. int32 fd' \<and> fd_key fd = fd_key fd'"
proof (intro exI conjI)
  show "int32 (sint (of_int fd :: u32))" using sint_range_size [of "of_int fd :: u32"] by (simp add: int32_def word_size)
  show "fd_key fd = fd_key (sint (of_int fd :: u32))" by (simp add: fd_key_def)
qed

lemma l0_queue_map [simp]: "l0_queue (l\<lparr>l0_map := m\<rparr>) = l0_queue l"
  by (simp add: l0_queue_def)

lemma l0_keys_add: "l0_fine c l \<Longrightarrow> l0_fine c (l\<lparr>l0_map := snd (pblMapAdd (l0_map l) (fd_key fd) d)\<rparr>)"
  using get_add_Some [of "l0_map l" "fd_key fd" d] fd_key_int32 [of fd]
  by (fastforce simp: l0_fine_def l0_keys_def pblMapAdd_def)

lemma l0_keys_remove: "l0_fine c l \<Longrightarrow> l0_fine c (l\<lparr>l0_map := pblMapRemoveFrom (l0_map l) key\<rparr>)"
  and l0_keys_store: "l0_fine c l \<Longrightarrow> l0_fine c (l\<lparr>l0_map := pblMapStore (l0_map l) key f\<rparr>)"
  and l0_keys_clear: "l0_fine c l \<Longrightarrow> l0_fine c (l\<lparr>l0_map := pblMapClear m\<rparr>)" "l0_fine c l \<Longrightarrow> l0_fine c (l\<lparr>l0_map := pblMapNewHashMap\<rparr>)"
  by (auto simp: l0_fine_def l0_keys_def map_simps split: if_splits)

lemmas node_ok_l0 = node_ok_upd_kl l0_keys_add l0_keys_remove l0_keys_store l0_keys_clear

lemma node_ok_l0_store [node_keeps]: "node_ok c out ke \<Longrightarrow> node_ok c out (l0_store fd f ke)"
  by (simp add: l0_store_def node_ok_l0)

lemma node_ok_l0_packet [node_keeps]: "node_ok c out ke \<Longrightarrow> node_ok c out (l0_send_packet fd pkg ke)"
  by (cases "kl ke = None") (simp add: l0_send_packet_def node_ok_emit, blast intro: node_ok_send send_only_l0_packet)

lemma node_ok_l0_send [node_keeps]: "node_ok c out ke \<Longrightarrow> node_ok c out (ksnLNullSend fd cmd data ke)"
  by (simp add: ksnLNullSend_def node_keeps)

lemma node_ok_l0_broadcast [node_keeps]: "node_ok c out ke \<Longrightarrow> node_ok c out (snd (ksnLNullSendBroadcast cmd data ke))"
  by (auto simp: ksnLNullSendBroadcast_def Let_def split_def split: option.split intro!: node_ok_fold_snd node_keeps)

lemma node_ok_l0_register [node_keeps]: "node_ok c out ke \<Longrightarrow> node_ok c out (snd (ksnLNullClientRegister fd a p ke))"
  by (simp add: ksnLNullClientRegister_def Let_def node_ok_l0)

lemma node_ok_l0_connect [node_keeps]: "node_ok c out ke \<Longrightarrow> node_ok c out (ksnLNullClientConnect fd a p ke)"
  using node_ok_l0_register [of c out ke fd a p] by (auto simp: ksnLNullClientConnect_def split: prod.split bool.split)

lemma node_ok_l0_disconnect [node_keeps]: "node_ok c out ke \<Longrightarrow> node_ok c out (ksnLNullClientDisconnect fd f ke)"
  by (simp add: ksnLNullClientDisconnect_def Let_def node_keeps node_ok_l0 split: option.split)

lemma node_ok_confirm [node_keeps]: "node_ok c out ke \<Longrightarrow> node_ok c out (confirmAuth fd ke)"
  by (simp add: confirmAuth_def node_keeps split: option.split)

lemma node_ok_clientName [node_keeps]: "node_ok c out ke \<Longrightarrow> node_ok c out (updateClientName fd name ke)"
  by (simp add: updateClientName_def Let_def node_keeps node_ok_l0)

lemma node_ok_connectedEvent [node_keeps]: "node_ok c out ke \<Longrightarrow> node_ok c out (sendConnectedEvent fd ke)"
  by (simp add: sendConnectedEvent_def Let_def node_keeps node_ok_l0 split: option.split)

lemma node_ok_authCheck [node_keeps]: "node_ok c out ke \<Longrightarrow> node_ok c out (snd (ksnLNullClientAuthCheck fd payload ke))"
  by (simp add: ksnLNullClientAuthCheck_def Let_def node_keeps split: option.split prod.split sum.split)

lemma node_ok_l0_commands [node_keeps]:
  "node_ok c out ke \<Longrightarrow> node_ok c out (snd (cmd_l0_broadcast_cb rd ke))" "node_ok c out ke \<Longrightarrow> node_ok c out (snd (cmd_l0_to_cb rd ke))"
  "node_ok c out ke \<Longrightarrow> node_ok c out (snd (cmd_l0_check_cb rd ke))" "node_ok c out ke \<Longrightarrow> node_ok c out (snd (cmd_l0_kick_client rd ke))"
  by (simp_all add: cmd_l0_broadcast_cb_def cmd_l0_to_cb_def cmd_l0_check_cb_def cmd_l0_kick_client_def Let_def node_keeps node_ok_l0
      split: option.split sum.split)

lemma node_ok_check_clients: "node_ok c out ke \<Longrightarrow> node_ok c out (check_clients n es ke)"
  by (induction n es ke rule: check_clients.induct) (simp_all add: Let_def node_keeps)

lemma node_ok_check_connected [node_keeps]: "node_ok c out ke \<Longrightarrow> node_ok c out (check_connected ke)"
  by (auto simp: check_connected_def Let_def split: option.split prod.split
      intro!: node_ok_emit node_ok_kl node_ok_check_clients l0_fine_cque intro: node_ok_l0_keys [OF node_ok_check_clients])

lemma node_ok_l0_stop [node_keeps]: "node_ok c out ke \<Longrightarrow> node_ok c out (ksnLNullStop ke)"
proof -
  assume ok: "node_ok c out ke"
  have "node_ok c out (fold (\<lambda>p. ksnLNullClientDisconnect (sint (dec_u32 (fst p))) 0) es ke)" for es :: "(bytes \<times> ksnLNullData) list"
    using ok by (rule node_ok_fold) (rule node_ok_l0_disconnect)
  then have "node_ok c out (upd_kl (\<lambda>l. l\<lparr>l0_map_n := pblMapClear (l0_map_n l), l0_map := pblMapClear (l0_map l)\<rparr>)
      (fold (\<lambda>p. ksnLNullClientDisconnect (sint (dec_u32 (fst p))) 0) es ke))" for es :: "(bytes \<times> ksnLNullData) list"
    by (rule node_ok_upd_kl) (simp add: l0_keys_clear)
  then show ?thesis
    using ok unfolding ksnLNullStop_def Let_def split_def
    by (auto simp del: upd_kl_simps split: option.split intro!: node_ok_emit node_ok_kl l0_fine_cque intro: node_ok_l0_keys)
qed

section \<open>Frames, tunnels and commands\<close>

lemma node_ok_vpn [node_keeps]:
  "node_ok c out ke \<Longrightarrow> node_ok c out (snd (cmd_vpn_cb from data ke))" "node_ok c out ke \<Longrightarrow> node_ok c out (tuntap_io_cb r ke)"
  by (simp_all add: cmd_vpn_cb_def tuntap_io_cb_def Let_def node_keeps node_ok_send [OF _ send_only_vpn_all]
      split: option.split sum.split)

lemma node_ok_upd_ktun: "node_ok c out ke \<Longrightarrow> (\<And>t. tun_keys t \<Longrightarrow> tun_keys (f t)) \<Longrightarrow> node_ok c out (upd_ktun f ke)"
  by (simp add: node_ok_def node_tables_def arp_wf_def stream_wf_def sscr_wf_def sscr_get_def node_cfg_def stop_safe_def upd_ktun_def)

lemma tun_keys_changes:
  "tun_keys t \<Longrightarrow> tun_keys (t\<lparr>tun_list := m\<rparr>)" "tun_keys (t\<lparr>tun_map := pblMapNewHashMap\<rparr>)"
  "tun_keys t \<Longrightarrow> tun_keys (t\<lparr>tun_map := pblMapRemoveFrom (tun_map t) key\<rparr>)"
  "tun_keys t \<Longrightarrow> tun_keys (t\<lparr>tun_map := snd (pblMapAdd (tun_map t) (enc_u16 fd) d)\<rparr>)"
  using get_add_Some [of "tun_map t" "enc_u16 fd" d]
  by (auto simp: tun_keys_def map_simps pblMapAdd_def split: if_splits) blast

lemma node_ok_tcp_connect [node_keeps]: "node_ok c out ke \<Longrightarrow> node_ok c out (snd (tcp_connect ke))"
  by (simp add: tcp_connect_def split: list.split)

lemma node_ok_tun [node_keeps]:
  "node_ok c out ke \<Longrightarrow> node_ok c out (ksnTunMapAdd fd to to_fd ke)" "node_ok c out ke \<Longrightarrow> node_ok c out (ksnTunMapRemove fd ke)"
  "node_ok c out ke \<Longrightarrow> node_ok c out (ksnTunListAdd i td ke)" "node_ok c out ke \<Longrightarrow> node_ok c out (ksnTunCreate server to port ip ke)"
  by (simp_all add: ksnTunMapAdd_def ksnTunMapRemove_def ksnTunListAdd_def ksnTunCreate_def node_keeps node_ok_upd_ktun tun_keys_changes
      split: prod.split)

lemma node_ok_tun_accept [node_keeps]: "node_ok c out ke \<Longrightarrow> node_ok c out (ksn_tun_accept_cb td fd ke)"
  by (simp add: ksn_tun_accept_cb_def split_def node_keeps split: option.split)

lemma node_ok_tun_disconnected [node_keeps]: "node_ok c out ke \<Longrightarrow> node_ok c out (cmd_tun_disconnected_send fd ke)"
  by (simp add: cmd_tun_disconnected_send_def node_keeps split: option.split)

lemma node_ok_tun_created [node_keeps]: "node_ok c out ke \<Longrightarrow> node_ok c out (cmd_tun_created_cb from fd from_fd ke)"
  by (simp add: cmd_tun_created_cb_def node_keeps)

lemma node_ok_tun_create [node_keeps]: "node_ok c out ke \<Longrightarrow> node_ok c out (cmd_tun_create_cb from from_fd port ip ke)"
  by (simp add: cmd_tun_create_cb_def split_def node_keeps)

lemma node_ok_tun_cmd [node_keeps]: "node_ok c out ke \<Longrightarrow> node_ok c out (snd (cmd_tun_cb rd ke))"
  by (simp add: cmd_tun_cb_def Let_def cmd_tun_write_cb_def cmd_tun_disconnected_cb_def node_keeps)

lemma node_ok_tun_read [node_keeps]: "node_ok c out ke \<Longrightarrow> node_ok c out (cmd_tun_read_cb fd r ke)"
  by (simp add: cmd_tun_read_cb_def node_keeps split: option.split)

lemma node_ok_tun_free [node_keeps]: "node_ok c out ke \<Longrightarrow> node_ok c out (ksnTunMapFree ke)"
  by (auto simp: ksnTunMapFree_def intro!: node_ok_upd_ktun node_ok_fold node_keeps tun_keys_changes)

lemma node_ok_stream_cmd [node_keeps]: "node_ok c out ke \<Longrightarrow> node_ok c out (snd (cmd_stream_cb rd ke))"
  by (simp add: cmd_stream_cb_def Let_def node_keeps cstr_no_zero split: option.split)

lemma node_ok_answer [node_keeps]: "node_ok c out ke \<Longrightarrow> node_ok c out (com_answer rd cmd data ke)"
  by (simp add: com_answer_def node_keeps)

lemma node_ok_questions [node_keeps]:
  assumes "node_ok c out ke"
  shows "node_ok c out (snd (cmd_reset_cb rd ke))" "node_ok c out (snd (cmd_echo_cb rd ke))" "node_ok c out (snd (cmd_echo_unr_cb rd ke))"
    "node_ok c out (snd (cmd_peers_cb rd ke))" "node_ok c out (snd (cmd_peers_num_cb rd ke))" "node_ok c out (snd (cmd_l0_clients_cb rd ke))"
    "node_ok c out (snd (cmd_l0_clients_n_cb rd ke))" "node_ok c out (snd (cmd_l0_info_cb rd ke))" "node_ok c out (snd (cmd_l0_stat_cb rd ke))"
    "node_ok c out (snd (cmd_get_public_ip_cb rd ke))" "node_ok c out (snd (cmd_trudp_info_cb rd ke))" "node_ok c out (snd (cmd_host_info_cb rd ke))"
  using assms by (simp_all add: cmd_reset_cb_def cmd_echo_cb_def cmd_echo_unr_cb_def cmd_peers_cb_def cmd_peers_num_cb_def
      cmd_l0_clients_cb_def cmd_l0_clients_n_cb_def cmd_l0_info_cb_def cmd_l0_stat_cb_def cmd_get_public_ip_cb_def
      cmd_trudp_info_cb_def cmd_host_info_cb_def Let_def node_keeps split: option.split)

lemma node_ok_echo_answer [node_keeps]: "node_ok c out ke \<Longrightarrow> node_ok c out (snd (cmd_echo_answer_cb rd ke))"
  by (simp add: cmd_echo_answer_cb_def Let_def node_keeps cstr_no_zero split: option.split)

lemma node_ok_host_answer [node_keeps]: "node_ok c out ke \<Longrightarrow> node_ok c out (snd (cmd_host_info_answer_cb rd ke))"
  by (simp add: cmd_host_info_answer_cb_def Let_def node_keeps split: option.split)

lemma node_ok_resend [node_keeps]: "node_ok c out ke \<Longrightarrow> node_ok c out (snd (cmd_resend_cb rd ke))"
  by (simp add: cmd_resend_cb_def Let_def node_keeps split: option.split)

lemma node_ok_connect_r_tcp [node_keeps]: "node_ok c out ke \<Longrightarrow> node_ok c out (connect_r_tcp rd name arp ke)"
  by (auto simp: connect_r_tcp_def Let_def intro!: node_ok_fold node_keeps)

lemma node_ok_connect_r [node_keeps]: "node_ok c out ke \<Longrightarrow> node_ok c out (snd (cmd_connect_r_cb rd ke))"
  by (simp add: cmd_connect_r_cb_def Let_def node_keeps split: option.split)

lemma node_ok_connect [node_keeps]: "node_ok c out ke \<Longrightarrow> node_ok c out (snd (cmd_connect_cb rd ke))"
  by (simp add: cmd_connect_cb_def Let_def node_keeps)

lemma node_ok_disconnected [node_keeps]: "node_ok c out ke \<Longrightarrow> node_ok c out (snd (cmd_disconnected_cb rd ke))"
  by (simp add: cmd_disconnected_cb_def Let_def node_keeps)

lemma node_ok_single [node_keeps]: "node_ok c out ke \<Longrightarrow> node_ok c out (snd (command_single rd ke))"
  unfolding command_single_def Let_def by (simp add: node_keeps)

section \<open>Packets\<close>

lemma node_ok_check: "node_ok c out ke \<Longrightarrow> node_ok c out (snd (snd (ksnCommandCheck rd ke)))"
proof (induction rd ke rule: ksnCommandCheck.induct)
  case (1 rd ke)
  consider (split) "rd_cmd rd = CMD_SPLIT" | (l0) "rd_cmd rd \<noteq> CMD_SPLIT" "rd_cmd rd = CMD_L0"
    | (single) "rd_cmd rd \<noteq> CMD_SPLIT" "rd_cmd rd \<noteq> CMD_L0" by blast
  then show ?case
  proof cases
    case split
    have "node_ok c out (snd (snd (ksnCommandCheck rds (ke\<lparr>kco_ks := ks\<rparr>))))"
      if "ksnSplitCombine (ksnetEvMgrGetTime ke) (kco_ks ke) rd = (CombRds rds, ks)" for rds ks
      by (rule "1.IH"(1)) (use split that "1.prems" in simp_all)
    moreover obtain r ks where "ksnSplitCombine (ksnetEvMgrGetTime ke) (kco_ks ke) rd = (r, ks)" by fastforce
    ultimately show ?thesis
      using split "1.prems" unfolding ksnCommandCheck.simps [of rd]
      by (cases r) (simp_all add: cmd_split_cb_def split_def node_keeps)
  next
    case l0
    have "node_ok c out (snd (snd (ksnCommandCheck rds ke)))" if "sp_inside (rd_data rd)" "rd_data rds = sp_data (rd_data rd)" for rds
      by (rule "1.IH"(2)) (use l0 that "1.prems" in simp_all)
    then show ?thesis
      using l0 "1.prems" unfolding ksnCommandCheck.simps [of rd] by (simp add: cmd_l0_cb_def Let_def node_ok_emit)
  next
    case single
    then show ?thesis using "1.prems" unfolding ksnCommandCheck.simps [of rd] by (simp add: split_def node_ok_single)
  qed
qed

lemma node_ok_new_peer [node_keeps]: "node_ok c out ke \<Longrightarrow> node_ok c out (core_new_peer rd ke)"
  by (simp add: core_new_peer_def Let_def split_def node_keeps split: option.split)

lemma node_ok_newPeer [node_keeps]: "node_ok c out ke \<Longrightarrow> node_ok c out (snd (ksnCoreCheckNewPeer rd ke))"
  by (simp add: ksnCoreCheckNewPeer_def Let_def node_keeps split: option.split)

lemma node_ok_core_command [node_keeps]: "node_ok c out ke \<Longrightarrow> node_ok c out (core_command rd ke)"
  by (simp add: core_command_def Let_def split_def node_keeps node_ok_check split: option.split)

lemma node_ok_process:
  "node_ok c out ke \<Longrightarrow> (\<And>rd k. node_ok c out k \<Longrightarrow> node_ok c out (l0_check rd k)) \<Longrightarrow>
   node_ok c out (ksnCoreProcessPacket l0_check buf addr port ke)"
  by (simp add: ksnCoreProcessPacket_def node_keeps split: prod.split bool.split)

lemma node_ok_upd_channel [node_keeps]: "node_ok c out ke \<Longrightarrow> node_ok c out (upd_channel addr port f ke)"
  by (simp add: upd_channel_def)

lemma node_ok_kex [node_keeps]: "node_ok c out ke \<Longrightarrow> node_ok c out (snd (processKeyExchange fd kld kex ke))"
  by (simp add: processKeyExchange_def sendKEXResponse_def Let_def node_keeps split: option.split)

lemma node_ok_fromL0 [node_keeps]:
  "node_ok c out ke \<Longrightarrow> (\<And>b a p k. node_ok c out k \<Longrightarrow> node_ok c out (local b a p k)) \<Longrightarrow>
   node_ok c out (ksnLNullSendFromL0 local pkt name ke)"
  by (simp add: ksnLNullSendFromL0_def Let_def node_keeps node_ok_l0)

lemma node_ok_tcp_packet:
  assumes "node_ok c out ke" and "\<And>b a p k. node_ok c out k \<Longrightarrow> node_ok c out (local b a p k)"
  shows "node_ok c out (snd (l0_tcp_packet local fd kld pkt ke))"
proof -
  have "node_ok c out k" if "processKeyExchange fd kld kex ke = (b, k)" for kex b k
    using node_ok_kex [OF assms(1), of fd kld kex] that by simp
  then show ?thesis
    using assms by (auto simp: l0_tcp_packet_def Let_def split: option.split prod.split bool.split intro!: node_keeps)
qed

lemma node_ok_read_loop:
  assumes "\<And>b a p k. node_ok c out k \<Longrightarrow> node_ok c out (local b a p k)"
  shows "node_ok c out ke \<Longrightarrow> node_ok c out (l0_read_loop local fd buf ke)"
  using assms
proof (induction local fd buf ke rule: l0_read_loop.induct)
  case (1 local fd buf ke)
  have next_ok: "node_ok c out k" if "l0_tcp_packet local fd kld pkt ke = (b, k)" for kld pkt b k
  proof -
    have "node_ok c out (snd (l0_tcp_packet local fd kld pkt ke))" by (rule node_ok_tcp_packet) (use "1.prems" in simp_all)
    then show ?thesis using that by simp
  qed
  show ?case
    unfolding l0_read_loop.simps [of local fd buf ke] Let_def
    using "1.prems" by (auto split: option.split prod.split bool.split intro!: node_keeps "1.IH" dest: next_ok)
qed

lemma node_ok_l0_read [node_keeps]:
  "node_ok c out ke \<Longrightarrow> (\<And>b a p k. node_ok c out k \<Longrightarrow> node_ok c out (local b a p k)) \<Longrightarrow>
   node_ok c out (cmd_l0_read_cb local fd r ke)"
  by (simp add: cmd_l0_read_cb_def node_keeps node_ok_read_loop split: option.split)

lemma node_ok_processPacket:
  assumes "node_ok c out ke" and "\<And>b a p k. node_ok c out k \<Longrightarrow> node_ok c out (local b a p k)"
  shows "node_ok c out (snd (processPacket local fd kld rd pkt ke))"
proof -
  define ke1 where "ke1 = upd_kl (\<lambda>l. l\<lparr>l0_packets_from_client := l0_packets_from_client l + 1\<rparr>) ke"
  have ok: "node_ok c out ke1" using assms(1) by (simp add: ke1_def node_ok_l0)
  have kex: "node_ok c out k" if "processKeyExchange fd kld kex k0 = (b, k)" "node_ok c out k0" for kex b k k0
    using node_ok_kex [OF that(2), of fd kld kex] that(1) by simp
  have auth: "node_ok c out k" if "ksnLNullClientAuthCheck fd d k0 = (b, k)" "node_ok c out k0" for d b k k0
    using node_ok_authCheck [OF that(2), of fd d] that(1) by simp
  show ?thesis
    unfolding processPacket_def Let_def ke1_def [symmetric]
    using assms ok by (auto split: option.split prod.split bool.split intro!: node_keeps dest: kex auth)
qed

lemma node_ok_with_client:
  "node_ok c out ke \<Longrightarrow> (\<And>kld k. node_ok c out k \<Longrightarrow> node_ok c out (snd (f kld k))) \<Longrightarrow> node_ok c out (snd (l0_with_client fd rd f ke))"
  by (simp add: l0_with_client_def Let_def node_keeps split: option.split)

lemma node_ok_checkPaket:
  assumes "node_ok c out ke" and "\<And>b a p k. node_ok c out k \<Longrightarrow> node_ok c out (local b a p k)"
  shows "node_ok c out (snd (ksnLNulltrudpCheckPaket local rd ke))"
proof (cases "ke_channels ke (rd_addr rd) (rd_port rd)"; cases "kl ke")
  fix tcd0 l assume tcd0: "ke_channels ke (rd_addr rd) (rd_port rd) = Some tcd0" and l: "kl ke = Some l"
  obtain f l1 where f: "ksnLNullGetNextFakeFd ke l = (f, l1)" by fastforce
  have "l0_fine c l1" using f node_ok_l0_keys [OF assms(1) l] by (auto simp: ksnLNullGetNextFakeFd_def Let_def)
  then have "node_ok c out (ke\<lparr>kl := Some l1\<rparr>)" by (intro node_ok_kl [OF assms(1)]) simp
  then have ch: "node_ok c out (upd_channel (rd_addr rd) (rd_port rd) g (ke\<lparr>kl := Some l1\<rparr>))" for g by (rule node_keeps)
  have client: "node_ok c out (snd (l0_with_client fd rd (\<lambda>kld. processPacket local fd kld rd pkt) k))"
    if "node_ok c out k" for fd pkt k
    by (intro node_ok_with_client node_ok_processPacket that assms(2))
  show ?thesis
    using tcd0 l assms(1) ch client
    by (simp add: ksnLNulltrudpCheckPaket_def f Let_def split_def node_keeps split: option.split)
qed (use assms(1) in \<open>simp_all add: ksnLNulltrudpCheckPaket_def node_ok_emit\<close>)

lemma node_ok_packet [node_keeps]: "node_ok c out ke \<Longrightarrow> node_ok c out (node_packet n buf addr port ke)"
proof (induction n arbitrary: buf addr port ke)
  case (Suc n)
  then show ?case unfolding node_packet.simps by (intro node_ok_process node_ok_checkPaket)
qed (simp add: node_ok_emit)

section \<open>The event loop\<close>

lemma node_ok_connect_r_host [node_keeps]: "node_ok c out ke \<Longrightarrow> node_ok c out (connect_r_host_cb ke)"
  by (simp add: connect_r_host_cb_def ksnTCPProxyClientConnect_def Let_def split_def node_keeps split: option.split)

lemma node_ok_remove_peer [node_keeps]: "node_ok c out ke \<Longrightarrow> node_ok c out (remove_peer name arp ke)"
  by (simp add: remove_peer_def node_keeps)

lemma node_ok_remove_addr [node_keeps]: "node_ok c out ke \<Longrightarrow> node_ok c out (snd (remove_peer_addr addr port ke))"
  by (simp add: remove_peer_addr_def node_keeps split: option.split prod.split)

lemma node_ok_echo [node_keeps]: "node_ok c out ke \<Longrightarrow> node_ok c out (snd (ksnCommandSendCmdEcho to data ke))"
  by (simp add: ksnCommandSendCmdEcho_def split_def node_keeps split: option.split)

lemma node_ok_check_peer: "node_ok c out ke \<Longrightarrow> node_ok c out (snd (check_connected_cb name arp ke))"
  by (simp add: check_connected_cb_def Let_def node_keeps)

lemma node_ok_iterate:
  "node_ok c out ke \<Longrightarrow> (\<And>name arp k. node_ok c out k \<Longrightarrow> node_ok c out (snd (cb name arp k))) \<Longrightarrow>
   node_ok c out (snd (arp_iterate cb flag es ke))"
proof (induction cb flag es ke rule: arp_iterate.induct)
  case (2 cb flag key arp es ke)
  show ?case
  proof (cases "flag \<or> arp_mode arp \<ge> 0")
    case True
    obtain b k where k: "cb (cstr key) arp ke = (b, k)" by fastforce
    have "node_ok c out k" using "2.prems"(2) [OF "2.prems"(1), of "cstr key" arp] k by simp
    then show ?thesis using True k "2.IH" "2.prems"(2) by (cases b) simp_all
  qed (use 2 in simp)
qed simp

lemma node_ok_activity [node_keeps]: "node_ok c out ke \<Longrightarrow> node_ok c out (idle_activity_cb ke)"
proof -
  assume "node_ok c out ke"
  then have "node_ok c out (snd (ksnetArpGetAll k0 check_connected_cb (connect_r_host_cb ke)))" for k0
    unfolding ksnetArpGetAll_def ksnetArpGetAllFlag_def by (intro node_ok_iterate node_ok_check_peer node_keeps)
  from this [of "connect_r_host_cb ke"] show ?thesis
    by (auto simp: idle_activity_cb_def Let_def node_ok_emit split: prod.splits bool.splits)
qed

lemma node_ok_event_loop [node_keeps]:
  assumes "node_ok c out ke"
  shows "node_ok c out (idle_cb ke)" "node_ok c out (timer_cb ke)" "node_ok c out (ksnetEvMgrSetCustomTimer t ke)"
    "node_ok c out (ksnetEvMgrStop ke)" "node_ok c out (ksnetEvMgrAsync data u ke)" "node_ok c out (sig_async_cb ke)"
    "node_ok c out (idle_async_cb ke)"
  using assms by (simp_all add: idle_cb_def timer_cb_def ksnetEvMgrSetCustomTimer_def ksnetEvMgrStop_def ksnetEvMgrAsync_def
      sig_async_cb_def idle_async_cb_def ksnCoreSetEventTime_def Let_def node_keeps split: list.split)

lemma node_ok_ack [node_keeps]: "node_ok c out ke \<Longrightarrow> node_ok c out (trudp_send_event_ack_to_app pid data addr port ke)"
  by (simp add: trudp_send_event_ack_to_app_def node_keeps split: prod.split)

lemma node_ok_trudp [node_keeps]: "node_ok c out ke \<Longrightarrow> node_ok c out (trudp_event_cb n addr port event ke)"
  by (simp add: trudp_event_cb_def Let_def split_def node_keeps split: trudpEvent.split option.split bool.split)

section \<open>Reachable nodes\<close>

lemma node_ok_closeAll [node_keeps]: "node_ok c out ke \<Longrightarrow> node_ok c out (ksnStreamCloseAll ke)"
proof -
  assume "node_ok c out ke"
  then have "node_ok c out (fold (\<lambda>(key, smd) k. ksnStreamClose (key_peer key) (key_stream key) CMD_ST_CLOSE_NOTREMOVE k) es ke)" for es
    by (rule node_ok_fold) (auto simp: node_keeps)
  then show ?thesis
    unfolding ksnStreamCloseAll_def Let_def by (rule node_ok_ks_map) (simp add: stream_wf_def map_simps)
qed

lemma node_ok_subscribing [node_keeps]:
  "node_ok c out ke \<Longrightarrow> node_ok c out (teoSScrSubscribe peer ev ke)" "node_ok c out ke \<Longrightarrow> node_ok c out (teoSScrUnSubscribe peer ev ke)"
  by (simp_all add: teoSScrSubscribe_def teoSScrUnSubscribe_def node_keeps)

lemma node_ok_stream_cbs [node_keeps]:
  "node_ok c out ke \<Longrightarrow> node_ok c out (stream_in_cb smd ke)" "node_ok c out ke \<Longrightarrow> node_ok c out (stream_out_cb smd r ke)"
  by (simp_all add: stream_in_cb_def stream_out_cb_def node_keeps split: option.split)

lemma node_ok_step: "node_step ke ke' \<Longrightarrow> node_ok c out ke \<Longrightarrow> node_ok c out ke'"
  by (induction rule: node_step.induct) (simp_all add: node_keeps)

lemma node_ok_steps: "node_step\<^sup>*\<^sup>* ke ke' \<Longrightarrow> node_ok c out ke \<Longrightarrow> node_ok c out ke'"
  by (induction rule: rtranclp_induct) (simp_all add: node_ok_step)

lemma node_ok_start:
  assumes "0 \<notin> set (cfg_host_name ke)"
  shows "node_ok (node_cfg ke, False) [] (node_start ke)"
proof -
  let ?ke = "ke\<lparr>ka := pblMapNewHashMap, kq := ksnCQueInit False, kco_ks := ksnSplitInit, kr_map := pblMapNewHashMap,
    ks_map := pblMapNewHashMap, ksscr_map := pblMapNewHashMap,
    kl := map_option (\<lambda>l. l\<lparr>l0_map := pblMapNewHashMap, l0_map_n := pblMapNewHashMap\<rparr>) (kl ke), ke_out := []\<rparr>"
  have "\<forall>l. kl ?ke = Some l \<longrightarrow> l0_keys l" by (auto simp: l0_keys_def map_simps)
  then have "node_ok (node_cfg ke, False) [] ?ke"
    using assms by (simp add: node_ok_def node_tables_def node_cfg_def arp_wf_def stream_wf_def sscr_wf_def sscr_get_def
        map_simps cque_wf_init)
  then show ?thesis unfolding node_start_def by (rule node_ok_host)
qed

text \<open>
  C6: in every state a node can reach, whatever packets come, whatever the application calls and in
  whatever order the callbacks run, every table is well formed and the node's name, key, encryption
  setting and environment are those it started with; what it has sent and told the application
  stays the beginning of all it will.
\<close>

theorem node_well_formed:
  assumes "node_reachable ke0 ke" and "0 \<notin> set (cfg_host_name ke0)"
  shows "node_tables ke \<and> node_cfg ke = node_cfg ke0 \<and> (\<forall>ke'. node_step\<^sup>*\<^sup>* ke ke' \<longrightarrow> prefix (ke_out ke) (ke_out ke'))"
proof -
  have ok: "node_ok (node_cfg ke0, False) [] ke"
    using node_ok_steps [OF assms(1) [unfolded node_reachable_def] node_ok_start [OF assms(2)]] .
  have "prefix (ke_out ke) (ke_out ke')" if "node_step\<^sup>*\<^sup>* ke ke'" for ke'
  proof -
    have "node_ok (node_cfg ke0, False) (ke_out ke) ke" using ok by (simp add: node_ok_def)
    from node_ok_steps [OF that this] show ?thesis by (simp add: node_ok_def)
  qed
  with ok show ?thesis by (simp add: node_ok_def)
qed

theorem node_well_formed_witness:
  "node_tables (idle_cb (timer_cb (node_start (exampleNode [97]))))"
proof -
  let ?n = "node_start (exampleNode [97])"
  have "node_step\<^sup>*\<^sup>* ?n (timer_cb ?n)" by (rule r_into_rtranclp, rule node_step.timer)
  from rtranclp.rtrancl_into_rtrancl [OF this node_step.idle] have "node_step\<^sup>*\<^sup>* ?n (idle_cb (timer_cb ?n))" .
  then have "node_reachable (exampleNode [97]) (idle_cb (timer_cb ?n))" by (simp only: node_reachable_def)
  moreover have "0 \<notin> set (cfg_host_name (exampleNode [97]))" by (simp add: exampleNode_def)
  ultimately show ?thesis using node_well_formed by blast
qed

end
