(* ===== verification/NetTcp.thy ===== *)
theory NetTcp
  imports L0Server "HOL-Library.Multiset"
begin

text \<open>
  The TCP servers of a node (modules/net_tcp.c): the table of servers by descriptor, each with the
  table of its clients; the search for a free port; creating and stopping servers and the watchers of
  clients. The results of the calls of the system are arguments: what socket, setsockopt and bind give
  for a port, and whether listen succeeds. The callback that accepts a connection and the client's
  connect are calls of the system and not modelled.
\<close>

section \<open>State\<close>

text \<open>A server (ev_ksnet_io); of a client's watcher its descriptor is kept.\<close>

record ev_ksnet_io =
  w_fd :: int
  clients_map :: "int PblMap"

text \<open>\<open>kt_out\<close> are the effects so far.\<close>

record ksnTcpClass =
  kt_map :: "ev_ksnet_io PblMap"
  kt_out :: "action list"

definition kt_emit :: "action list \<Rightarrow> ksnTcpClass \<Rightarrow> ksnTcpClass" where
  "kt_emit acts kt = kt\<lparr>kt_out := kt_out kt @ acts\<rparr>"

definition ksnTcpInit :: ksnTcpClass where
  "ksnTcpInit = \<lparr>kt_map = pblMapNewHashMap, kt_out = []\<rparr>"

section \<open>Clients\<close>

text \<open>The watcher of the client \<open>fd\<close> is entered at the server \<open>sd\<close>.\<close>

definition ksnTcpCb :: "int \<Rightarrow> int \<Rightarrow> ksnTcpClass \<Rightarrow> ksnTcpClass" where
  "ksnTcpCb sd fd kt =
     (kt_emit [IoStart fd] kt)
       \<lparr>kt_map := pblMapStore (kt_map kt) (fd_key sd) (\<lambda>w. w\<lparr>clients_map := pblMapAddTo (clients_map w) (fd_key fd) fd\<rparr>)\<rparr>"

definition ksnTcpGetServer :: "ksnTcpClass \<Rightarrow> int \<Rightarrow> int" where
  "ksnTcpGetServer kt sd =
     (case find (\<lambda>(key, w). pblMapGet (clients_map w) (fd_key sd) \<noteq> None) (pblMapEntries (kt_map kt)) of
        None \<Rightarrow> 0
      | Some (key, w) \<Rightarrow> w_fd w)"

text \<open>The server is looked up by its descriptor and used without a test.\<close>

definition ksnTcpCbStop :: "int \<Rightarrow> bool \<Rightarrow> bool \<Rightarrow> ksnTcpClass \<Rightarrow> ksnTcpClass" where
  "ksnTcpCbStop fd close_flg remove_flg kt =
     (let kt1 = kt_emit ((if close_flg then [CloseFd fd] else []) @ [IoStop fd]) kt
      in if remove_flg
         then let srv = ksnTcpGetServer kt1 fd
              in if srv \<noteq> 0
                 then if pblMapGet (kt_map kt1) (fd_key srv) = None then kt_emit [Fault] kt1
                      else kt1\<lparr>kt_map := pblMapStore (kt_map kt1) (fd_key srv)
                                 (\<lambda>w. w\<lparr>clients_map := pblMapRemoveFrom (clients_map w) (fd_key fd)\<rparr>)\<rparr>
                 else kt1
         else kt1)"

section \<open>Starting a server\<close>

definition KSNET_TRY_PORT :: nat where "KSNET_TRY_PORT = 1000"

text \<open>
  What the calls for a port give: no socket, a socket whose options cannot be set, a socket that cannot
  be bound, or one that is bound. The port is an int; the address gets its 16 low bits.
\<close>

datatype sockCall = SocketError | OptionError int | BindBusy int | Bound int

definition htons :: "int \<Rightarrow> u16" where "htons port = of_int port"

text \<open>
  Whether the loop ended with a bound socket, its descriptor or -1, the port, the effects. When no port
  is left the last socket is closed, and listen, which comes next, fails on it.
\<close>

fun tcp_try_ports :: "(u16 \<Rightarrow> sockCall) \<Rightarrow> nat \<Rightarrow> int \<Rightarrow> bool \<times> int \<times> int \<times> action list" where
  "tcp_try_ports sock 0 port = (False, -1, port, [])"
| "tcp_try_ports sock (Suc try_port) port =
     (case sock (htons port) of
        SocketError \<Rightarrow> (False, -1, port, [])
      | OptionError sd' \<Rightarrow> (False, -1, port, [])
      | Bound sd' \<Rightarrow> (True, sd', port, [])
      | BindBusy sd' \<Rightarrow>
          (case tcp_try_ports sock try_port (if try_port \<noteq> 0 then port + 1 else port) of
             (res, sd'', port', acts) \<Rightarrow> (res, sd'', port', CloseFd sd' # acts)))"

text \<open>The descriptor or -1, the port in the end, and the effects.\<close>

definition ksnTcpServerStart :: "(u16 \<Rightarrow> sockCall) \<Rightarrow> (int \<Rightarrow> bool) \<Rightarrow> int \<Rightarrow> int \<times> int \<times> action list" where
  "ksnTcpServerStart sock listens port =
     (case tcp_try_ports sock KSNET_TRY_PORT port of
        (res, sd, port1, acts) \<Rightarrow> if res \<and> listens sd then (sd, port1, acts) else (-1, port1, acts))"

text \<open>The descriptor, the port the caller is told, and the state.\<close>

definition ksnTcpServerCreate ::
  "(u16 \<Rightarrow> sockCall) \<Rightarrow> (int \<Rightarrow> bool) \<Rightarrow> int \<Rightarrow> ksnTcpClass \<Rightarrow> int \<times> int \<times> ksnTcpClass" where
  "ksnTcpServerCreate sock listens port kt =
     (case ksnTcpServerStart sock listens port of
        (sd, server_port, acts) \<Rightarrow>
          let kt1 = kt_emit acts kt
          in if sd > 0
             then (sd, server_port,
                   kt_emit [IoStart sd]
                     (kt1\<lparr>kt_map := pblMapAddTo (kt_map kt1) (fd_key sd) \<lparr>w_fd = sd, clients_map = pblMapNewHashMap\<rparr>\<rparr>))
             else (sd, 0, kt1))"

section \<open>Stopping servers\<close>

definition ksnTcpServerStopAllClients :: "int \<Rightarrow> ksnTcpClass \<Rightarrow> ksnTcpClass" where
  "ksnTcpServerStopAllClients sd kt =
     (case pblMapGet (kt_map kt) (fd_key sd) of
        None \<Rightarrow> kt
      | Some w \<Rightarrow>
          let kt1 = fold (\<lambda>(key, fd). ksnTcpCbStop fd True False) (pblMapEntries (clients_map w)) kt
          in kt1\<lparr>kt_map := pblMapStore (kt_map kt1) (fd_key sd) (\<lambda>w. w\<lparr>clients_map := pblMapClear (clients_map w)\<rparr>)\<rparr>)"

definition ksnTcpServerStop :: "int \<Rightarrow> ksnTcpClass \<Rightarrow> ksnTcpClass" where
  "ksnTcpServerStop sd kt =
     (case pblMapGet (kt_map kt) (fd_key sd) of
        None \<Rightarrow> kt
      | Some w \<Rightarrow>
          let kt1 = kt_emit [CloseFd (w_fd w), IoStop (w_fd w)] (ksnTcpServerStopAllClients sd kt)
          in kt1\<lparr>kt_map := pblMapRemoveFrom (kt_map kt1) (fd_key sd)\<rparr>)"

text \<open>
  Every round takes the first server of a new iterator. The key is read as an int; a server whose key
  is not that of the int would make the loop endless.
\<close>

partial_function (option) ksnTcpServerStopAll :: "ksnTcpClass \<Rightarrow> ksnTcpClass option" where
  "ksnTcpServerStopAll kt =
     (case pblMapEntries (kt_map kt) of
        [] \<Rightarrow> Some kt
      | (key, w) # es \<Rightarrow> ksnTcpServerStopAll (ksnTcpServerStop (sint (dec_u32 key)) kt))"

definition ksnTcpDestroy :: "ksnTcpClass \<Rightarrow> ksnTcpClass option" where
  "ksnTcpDestroy kt = ksnTcpServerStopAll kt"

section \<open>The search for a port\<close>

text \<open>A port is busy when a socket can be made for it but not bound.\<close>

definition port_busy :: "(u16 \<Rightarrow> sockCall) \<Rightarrow> int \<Rightarrow> bool" where
  "port_busy sock port \<longleftrightarrow> (case sock (htons port) of BindBusy sd \<Rightarrow> True | _ \<Rightarrow> False)"

lemma uint_htons: "0 \<le> port \<Longrightarrow> port < 65536 \<Longrightarrow> uint (htons port) = port"
  by (simp add: htons_def unsigned_of_int take_bit_int_eq_self)

lemma htons_65536: "htons 65536 = 0"
  by (rule word_uint_eqI) (simp add: htons_def)

lemma try_ports_found:
  assumes "\<And>i. i < n \<Longrightarrow> port_busy sock (port + int i)" and "sock (htons (port + int n)) = Bound sd" and "n < t"
  shows "\<exists>acts. tcp_try_ports sock t port = (True, sd, port + int n, acts)"
  using assms
proof (induction n arbitrary: t port)
  case 0
  then show ?case by (cases t) simp_all
next
  case (Suc n)
  obtain t' where t: "t = Suc t'" "t' \<noteq> 0" using Suc.prems(3) by (cases t) auto
  obtain sd1 where b: "sock (htons port) = BindBusy sd1"
    using Suc.prems(1) [of 0] by (auto simp: port_busy_def split: sockCall.splits)
  have "\<exists>acts. tcp_try_ports sock t' (port + 1) = (True, sd, port + 1 + int n, acts)"
  proof (rule Suc.IH)
    show "port_busy sock (port + 1 + int i)" if "i < n" for i
      using Suc.prems(1) [of "Suc i"] that by (simp add: algebra_simps)
    show "sock (htons (port + 1 + int n)) = Bound sd" using Suc.prems(2) by (simp add: algebra_simps)
    show "n < t'" using Suc.prems(3) t by simp
  qed
  with t b show ?case by (auto simp: algebra_simps)
qed

text \<open>
  C34: A TCP server is created at the first port that is free among the wanted one and the 999 behind it,
  its descriptor is returned and entered in the table, and the port the caller is told is the one the
  socket is bound to when that is at most 65535.
\<close>

theorem tcp_server_port:
  assumes "n < KSNET_TRY_PORT" and "\<And>i. i < n \<Longrightarrow> port_busy sock (port + int i)"
    and "sock (htons (port + int n)) = Bound sd" and "listens sd" and "sd > 0"
    and "pblMapRoom (kt_map kt) (fd_key sd)"
  shows "\<exists>kt'. ksnTcpServerCreate sock listens port kt = (sd, port + int n, kt') \<and>
           pblMapGet (kt_map kt') = (pblMapGet (kt_map kt))(fd_key sd \<mapsto> \<lparr>w_fd = sd, clients_map = pblMapNewHashMap\<rparr>) \<and>
           (0 \<le> port \<and> port + int n < 65536 \<longrightarrow> uint (htons (port + int n)) = port + int n)"
proof -
  obtain acts where "tcp_try_ports sock KSNET_TRY_PORT port = (True, sd, port + int n, acts)"
    using try_ports_found [OF assms(2,3,1)] by blast
  then show ?thesis
    using assms(4,5,6)
    by (simp add: ksnTcpServerCreate_def ksnTcpServerStart_def kt_emit_def Let_def map_simps uint_htons)
qed

text \<open>A busy port 65535 leads to the port 0, any free port, of which the caller is told 65536.\<close>

theorem tcp_port_wraps:
  assumes "port_busy sock 65535" and "sock 0 = Bound sd" and "listens sd" and "sd > 0"
  shows "fst (snd (ksnTcpServerCreate sock listens 65535 kt)) = 65536"
proof -
  have "\<exists>acts. tcp_try_ports sock KSNET_TRY_PORT 65535 = (True, sd, 65535 + int 1, acts)"
    by (rule try_ports_found) (use assms(1,2) in \<open>simp_all add: htons_65536 KSNET_TRY_PORT_def\<close>)
  then show ?thesis using assms(3,4) by (auto simp: ksnTcpServerCreate_def ksnTcpServerStart_def Let_def)
qed

section \<open>Stopping\<close>

context keyed_store begin

lemma mset_entries_remove:
  assumes "get m k = Some v"
  shows "mset (entries m) = add_mset (k, v) (mset (entries (remove m k)))"
proof -
  have "set (entries m) = insert (k, v) (set (entries (remove m k)))"
    using assms by (auto simp: law_mem law_remove split: if_splits)
  moreover have "(k, v) \<notin> set (entries (remove m k))" by (simp add: law_mem law_remove)
  ultimately have "mset_set (set (entries m)) = add_mset (k, v) (mset_set (set (entries (remove m k))))"
    by simp
  then show ?thesis by (simp add: mset_set_set distinct_entries)
qed

end

definition descriptors_of :: "bytes \<times> ev_ksnet_io \<Rightarrow> int list" where
  "descriptors_of = (\<lambda>(key, w). map snd (pblMapEntries (clients_map w)) @ [w_fd w])"

definition tcp_descriptors :: "ksnTcpClass \<Rightarrow> int list" where
  "tcp_descriptors kt = concat (map descriptors_of (pblMapEntries (kt_map kt)))"

definition closed :: "action list \<Rightarrow> int list" where
  "closed acts = concat (map (\<lambda>a. case a of CloseFd fd \<Rightarrow> [fd] | _ \<Rightarrow> []) acts)"

lemma closed_simps [simp]:
  "closed [] = []" "closed (xs @ ys) = closed xs @ closed ys"
  "closed (CloseFd fd # xs) = fd # closed xs" "closed (IoStop fd # xs) = closed xs"
  by (simp_all add: closed_def)

text \<open>Every server is in the table under its descriptor, a client under its own.\<close>

definition tcp_wf :: "ksnTcpClass \<Rightarrow> bool" where
  "tcp_wf kt \<longleftrightarrow>
     (\<forall>key w. pblMapGet (kt_map kt) key = Some w \<longrightarrow>
        int32 (w_fd w) \<and> key = fd_key (w_fd w) \<and>
        (\<forall>k fd. pblMapGet (clients_map w) k = Some fd \<longrightarrow> int32 fd \<and> k = fd_key fd))"

definition stop_acts :: "int list \<Rightarrow> action list" where
  "stop_acts fds = concat (map (\<lambda>fd. [CloseFd fd, IoStop fd]) fds)"

lemma stop_acts_simps [simp]:
  "stop_acts [] = []" "stop_acts (fd # fds) = CloseFd fd # IoStop fd # stop_acts fds"
  "stop_acts (xs @ ys) = stop_acts xs @ stop_acts ys"
  "closed (stop_acts fds) = fds" "Fault \<notin> set (stop_acts fds)"
  by (induction fds) (simp_all add: stop_acts_def)

lemma stop_clients:
  "fold (\<lambda>(key, fd). ksnTcpCbStop fd True False) es kt = kt_emit (stop_acts (map snd es)) kt"
  by (induction es arbitrary: kt) (auto simp: ksnTcpCbStop_def kt_emit_def Let_def)

lemma server_stop:
  assumes "pblMapGet (kt_map kt) (fd_key sd) = Some w"
  shows "pblMapGet (kt_map (ksnTcpServerStop sd kt)) = (pblMapGet (kt_map kt))(fd_key sd := None)"
    and "kt_out (ksnTcpServerStop sd kt) = kt_out kt @ stop_acts (descriptors_of (fd_key sd, w))"
  using assms
  by (auto simp: ksnTcpServerStop_def ksnTcpServerStopAllClients_def stop_clients kt_emit_def descriptors_of_def Let_def
      map_simps fun_eq_iff)

lemma entries_ext:
  "pblMapGet m = pblMapGet m' \<Longrightarrow> mset (pblMapEntries m) = mset (pblMapEntries m')"
  by (metis entries_set mset_set_set pm.distinct_entries)

text \<open>The descriptors outside one server; they depend on the lookups only.\<close>

definition other_descriptors :: "bytes \<Rightarrow> ksnTcpClass \<Rightarrow> int multiset" where
  "other_descriptors key kt = (\<Sum>e\<in>#mset (pblMapEntries (pblMapRemoveFrom (kt_map kt) key)). mset (descriptors_of e))"

lemma mset_tcp_descriptors: "mset (tcp_descriptors kt) = (\<Sum>e\<in>#mset (pblMapEntries (kt_map kt)). mset (descriptors_of e))"
  by (simp add: tcp_descriptors_def mset_concat sum_mset_sum_list flip: mset_map) (simp add: comp_def)

lemma tcp_descriptors_split:
  "mset (tcp_descriptors kt) =
     other_descriptors key kt + (case pblMapGet (kt_map kt) key of None \<Rightarrow> {#} | Some w \<Rightarrow> mset (descriptors_of (key, w)))"
  by (cases "pblMapGet (kt_map kt) key")
    (simp_all add: mset_tcp_descriptors other_descriptors_def map_simps pm.mset_entries_remove)

lemma other_descriptors_cong:
  assumes "(pblMapGet (kt_map kt))(key := None) = (pblMapGet (kt_map kt'))(key := None)"
  shows "other_descriptors key kt = other_descriptors key kt'"
proof -
  have "mset (pblMapEntries (pblMapRemoveFrom (kt_map kt) key)) = mset (pblMapEntries (pblMapRemoveFrom (kt_map kt') key))"
    by (rule entries_ext) (simp add: assms map_simps)
  then show ?thesis by (simp add: other_descriptors_def)
qed

lemma tcp_descriptors_stop:
  assumes "pblMapGet (kt_map kt) (fd_key sd) = Some w"
  shows "mset (tcp_descriptors kt) = mset (descriptors_of (fd_key sd, w)) + mset (tcp_descriptors (ksnTcpServerStop sd kt))"
  using assms other_descriptors_cong [of kt "fd_key sd" "ksnTcpServerStop sd kt"]
  by (simp add: tcp_descriptors_split [where key = "fd_key sd"] server_stop [OF assms])

section \<open>Reachable tables\<close>

text \<open>
  The calls the modules make; the system gives out no descriptor that is open.
\<close>

inductive tcp_step :: "ksnTcpClass \<Rightarrow> ksnTcpClass \<Rightarrow> bool" where
  create: "(\<And>port sd. sock port = Bound sd \<Longrightarrow> int32 sd \<and> sd \<notin> set (tcp_descriptors kt)) \<Longrightarrow>
           tcp_step kt (snd (snd (ksnTcpServerCreate sock listens port0 kt)))"
| client: "pblMapGet (kt_map kt) (fd_key sd) = Some w \<Longrightarrow> int32 fd \<Longrightarrow> fd \<notin> set (tcp_descriptors kt) \<Longrightarrow>
           tcp_step kt (ksnTcpCb sd fd kt)"
| client_stop: "tcp_step kt (ksnTcpCbStop fd close_flg True kt)"
| stop: "tcp_step kt (ksnTcpServerStop sd kt)"

definition tcp_ok :: "ksnTcpClass \<Rightarrow> bool" where
  "tcp_ok kt \<longleftrightarrow> tcp_wf kt \<and> distinct (tcp_descriptors kt) \<and> Fault \<notin> set (kt_out kt)"

lemma tcp_wfD:
  assumes "tcp_wf kt" and "pblMapGet (kt_map kt) key = Some w"
  shows "int32 (w_fd w)" "key = fd_key (w_fd w)" "pblMapGet (clients_map w) k = Some fd \<Longrightarrow> int32 fd \<and> k = fd_key fd"
  using assms unfolding tcp_wf_def by blast+

lemma distinct_submset:
  assumes "mset ys \<subseteq># mset xs" and "distinct xs"
  shows "distinct ys"
proof -
  obtain zs where "mset xs = mset (ys @ zs)"
    using assms(1) by (metis ex_mset mset_append mset_subset_eq_exists_conv)
  with assms(2) show ?thesis by (metis distinct_append mset_eq_imp_distinct_iff)
qed

text \<open>A table in which one server is as before or was replaced by a well formed one.\<close>

lemma tcp_ok_update:
  assumes "tcp_ok kt" and "pblMapGet (kt_map kt') = (pblMapGet (kt_map kt))(key := r)" and "Fault \<notin> set (kt_out kt')"
    and "\<And>w. r = Some w \<Longrightarrow> int32 (w_fd w) \<and> key = fd_key (w_fd w) \<and>
                (\<forall>k fd. pblMapGet (clients_map w) k = Some fd \<longrightarrow> int32 fd \<and> k = fd_key fd)"
    and "\<And>w. r = Some w \<Longrightarrow> \<exists>new. mset (descriptors_of (key, w)) \<subseteq>#
           mset new + (case pblMapGet (kt_map kt) key of None \<Rightarrow> {#} | Some w0 \<Rightarrow> mset (descriptors_of (key, w0))) \<and>
           distinct new \<and> set new \<inter> set (tcp_descriptors kt) = {}"
  shows "tcp_ok kt'"
proof -
  let ?old = "case pblMapGet (kt_map kt) key of None \<Rightarrow> {#} | Some w0 \<Rightarrow> mset (descriptors_of (key, w0))"
  have wf: "tcp_wf kt'"
    unfolding tcp_wf_def using assms(1,2,4) by (auto simp: tcp_ok_def tcp_wf_def split: if_splits)
  have other: "other_descriptors key kt' = other_descriptors key kt"
    by (rule other_descriptors_cong) (simp add: assms(2))
  have "\<exists>new. mset (tcp_descriptors kt') \<subseteq># mset (new @ tcp_descriptors kt) \<and>
          distinct new \<and> set new \<inter> set (tcp_descriptors kt) = {}"
  proof (cases r)
    case None
    then show ?thesis
      by (intro exI [of _ "[]"]) (simp add: tcp_descriptors_split [of _ key] other assms(2))
  next
    case (Some w)
    with assms(5) obtain new where n: "mset (descriptors_of (key, w)) \<subseteq># mset new + ?old" "distinct new"
      "set new \<inter> set (tcp_descriptors kt) = {}" by blast
    have "mset (tcp_descriptors kt') \<subseteq># mset (new @ tcp_descriptors kt)"
      using n(1) Some by (simp add: tcp_descriptors_split [of _ key] other assms(2) add_ac)
    with n(2,3) show ?thesis by blast
  qed
  then obtain new where "mset (tcp_descriptors kt') \<subseteq># mset (new @ tcp_descriptors kt)" "distinct (new @ tcp_descriptors kt)"
    using assms(1) by (auto simp: tcp_ok_def)
  then have "distinct (tcp_descriptors kt')" by (rule distinct_submset)
  with wf assms(3) show ?thesis by (simp add: tcp_ok_def)
qed

lemma get_server:
  assumes "tcp_wf kt" and "ksnTcpGetServer kt fd \<noteq> 0"
  obtains w where "pblMapGet (kt_map kt) (fd_key (ksnTcpGetServer kt fd)) = Some w" "w_fd w = ksnTcpGetServer kt fd"
proof -
  obtain key w where f: "find (\<lambda>(key, w). pblMapGet (clients_map w) (fd_key fd) \<noteq> None) (pblMapEntries (kt_map kt)) = Some (key, w)"
    using assms(2) by (auto simp: ksnTcpGetServer_def split: option.splits)
  then have "pblMapGet (kt_map kt) key = Some w" by (blast dest: pm.search_Some)
  moreover from this have "key = fd_key (w_fd w)" by (rule tcp_wfD [OF assms(1)])
  moreover have "ksnTcpGetServer kt fd = w_fd w" unfolding ksnTcpGetServer_def f by simp
  ultimately show thesis using that by simp
qed

lemma mset_clients: "mset (descriptors_of (key, w)) = add_mset (w_fd w) (mset (map snd (pblMapEntries (clients_map w))))"
  by (simp add: descriptors_of_def)

lemma tcp_ok_keep: "tcp_ok kt \<Longrightarrow> kt_map kt' = kt_map kt \<Longrightarrow> Fault \<notin> set (kt_out kt') \<Longrightarrow> tcp_ok kt'"
  by (simp add: tcp_ok_def tcp_wf_def tcp_descriptors_def)

lemma try_ports_results:
  "tcp_try_ports sock t port = (res, sd, port1, acts) \<Longrightarrow> Fault \<notin> set acts \<and> (res \<longrightarrow> (\<exists>p. sock p = Bound sd))"
  by (induction t arbitrary: port res sd port1 acts)
    (auto split: sockCall.splits prod.splits)

lemma server_create_cases:
  obtains (failed) acts where "kt_map (snd (snd (ksnTcpServerCreate sock listens port kt))) = kt_map kt"
    and "kt_out (snd (snd (ksnTcpServerCreate sock listens port kt))) = kt_out kt @ acts" and "Fault \<notin> set acts"
  | (created) acts p sd where "sock p = Bound sd" and "sd > 0"
    and "kt_map (snd (snd (ksnTcpServerCreate sock listens port kt))) =
           pblMapAddTo (kt_map kt) (fd_key sd) \<lparr>w_fd = sd, clients_map = pblMapNewHashMap\<rparr>"
    and "kt_out (snd (snd (ksnTcpServerCreate sock listens port kt))) = kt_out kt @ acts" and "Fault \<notin> set acts"
proof -
  obtain res sd port1 acts where t: "tcp_try_ports sock KSNET_TRY_PORT port = (res, sd, port1, acts)"
    by (metis prod_cases4)
  note r = try_ports_results [OF t]
  show thesis
  proof (cases "res \<and> listens sd \<and> sd > 0")
    case True
    with r t created [of _ sd "acts @ [IoStart sd]"] show ?thesis
      by (auto simp: ksnTcpServerCreate_def ksnTcpServerStart_def kt_emit_def Let_def)
  next
    case False
    with r t failed [of acts] show ?thesis
      by (auto simp: ksnTcpServerCreate_def ksnTcpServerStart_def kt_emit_def Let_def)
  qed
qed

lemma descriptor_mem:
  assumes "pblMapGet (kt_map kt) key = Some w"
  shows "w_fd w \<in> set (tcp_descriptors kt)"
    and "pblMapGet (clients_map w) k = Some fd \<Longrightarrow> fd \<in> set (tcp_descriptors kt)"
  using assms entries_mem [of key w "kt_map kt"] entries_mem [of k fd "clients_map w"]
  by (force simp: tcp_descriptors_def descriptors_of_def)+

lemma get_store_upd: "pblMapGet (pblMapStore m k f) = (pblMapGet m)(k := map_option f (pblMapGet m k))"
  by (auto simp: fun_eq_iff map_simps)

lemma mset_entries_added:
  assumes "pblMapGet m k = None"
  shows "mset (pblMapEntries (pblMapAddTo m k v)) \<subseteq># add_mset (k, v) (mset (pblMapEntries m))"
proof (cases rule: add_cases [of m k v])
  case added
  then have "mset (pblMapEntries (pblMapRemoveFrom (pblMapAddTo m k v) k)) = mset (pblMapEntries m)"
    using assms by (intro entries_ext) (auto simp: map_simps fun_eq_iff)
  moreover have "pblMapGet (pblMapAddTo m k v) k = Some v" using added by simp
  ultimately show ?thesis by (simp add: pm.mset_entries_remove)
qed (use assms in simp_all)

lemma mset_entries_removed: "mset (pblMapEntries (pblMapRemoveFrom m k)) \<subseteq># mset (pblMapEntries m)"
  by (cases "pblMapGet m k") (simp_all add: pm.mset_entries_remove remove_facts(3))

lemma tcp_ok_create:
  assumes "tcp_ok kt" and "\<And>port sd. sock port = Bound sd \<Longrightarrow> int32 sd \<and> sd \<notin> set (tcp_descriptors kt)"
  shows "tcp_ok (snd (snd (ksnTcpServerCreate sock listens port0 kt)))" (is "tcp_ok ?kt'")
proof (cases rule: server_create_cases [of sock listens port0 kt])
  case (failed acts)
  show ?thesis by (rule tcp_ok_keep [OF assms(1) failed(1)]) (use assms(1) failed(2,3) in \<open>simp add: tcp_ok_def\<close>)
next
  case (created acts p sd)
  have fresh: "int32 sd" "sd \<notin> set (tcp_descriptors kt)" using assms(2) created(1) by blast+
  have none: "pblMapGet (kt_map kt) (fd_key sd) = None"
  proof (rule ccontr)
    assume "pblMapGet (kt_map kt) (fd_key sd) \<noteq> None"
    then obtain w where w: "pblMapGet (kt_map kt) (fd_key sd) = Some w" by blast
    have "tcp_wf kt" using assms(1) by (simp add: tcp_ok_def)
    from tcp_wfD(1,2) [OF this w] have "sd = w_fd w" using fresh(1) fd_key_inject by blast
    with descriptor_mem(1) [OF w] fresh(2) show False by simp
  qed
  have out: "Fault \<notin> set (kt_out ?kt')" using assms(1) created(4,5) by (simp add: tcp_ok_def)
  let ?w = "\<lparr>w_fd = sd, clients_map = pblMapNewHashMap\<rparr>"
  show ?thesis
  proof (cases rule: add_cases [of "kt_map kt" "fd_key sd" ?w])
    case added
    show ?thesis
    proof (rule tcp_ok_update [OF assms(1) _ out])
      show "pblMapGet (kt_map ?kt') = (pblMapGet (kt_map kt))(fd_key sd := Some ?w)"
        using created(3) added by simp
      show "\<exists>new. mset (descriptors_of (fd_key sd, w)) \<subseteq># mset new +
              (case pblMapGet (kt_map kt) (fd_key sd) of None \<Rightarrow> {#} | Some w0 \<Rightarrow> mset (descriptors_of (fd_key sd, w0))) \<and>
              distinct new \<and> set new \<inter> set (tcp_descriptors kt) = {}" if "Some ?w = Some w" for w
        using that fresh none by (intro exI [of _ "[sd]"]) (auto simp: descriptors_of_def pm.entries_empty pm.law_new fun_eq_iff)
    qed (use fresh in \<open>auto simp: pm.law_new\<close>)
  qed (use none created(3) out tcp_ok_keep [OF assms(1), of ?kt'] in simp_all)
qed

lemma tcp_ok_client:
  assumes "tcp_ok kt" and w: "pblMapGet (kt_map kt) (fd_key sd) = Some w" and "int32 fd" "fd \<notin> set (tcp_descriptors kt)"
  shows "tcp_ok (ksnTcpCb sd fd kt)"
proof -
  have wf: "tcp_wf kt" using assms(1) by (simp add: tcp_ok_def)
  let ?w = "w\<lparr>clients_map := pblMapAddTo (clients_map w) (fd_key fd) fd\<rparr>"
  have none: "pblMapGet (clients_map w) (fd_key fd) = None"
  proof (rule ccontr)
    assume "pblMapGet (clients_map w) (fd_key fd) \<noteq> None"
    then obtain g where g: "pblMapGet (clients_map w) (fd_key fd) = Some g" by blast
    from tcp_wfD(3) [OF wf w g] have "fd = g" using assms(3) fd_key_inject by blast
    with descriptor_mem(2) [OF w g] assms(4) show False by simp
  qed
  show ?thesis
  proof (rule tcp_ok_update [OF assms(1)])
    show "pblMapGet (kt_map (ksnTcpCb sd fd kt)) = (pblMapGet (kt_map kt))(fd_key sd := Some ?w)"
      by (simp add: ksnTcpCb_def get_store_upd w)
    show "Fault \<notin> set (kt_out (ksnTcpCb sd fd kt))" using assms(1) by (simp add: ksnTcpCb_def kt_emit_def tcp_ok_def)
    show "int32 (w_fd w') \<and> fd_key sd = fd_key (w_fd w') \<and>
        (\<forall>k fd. pblMapGet (clients_map w') k = Some fd \<longrightarrow> int32 fd \<and> k = fd_key fd)" if "Some ?w = Some w'" for w'
      using that tcp_wfD [OF wf w] assms(3) by (auto dest!: get_add_Some)
    show "\<exists>new. mset (descriptors_of (fd_key sd, w')) \<subseteq># mset new +
            (case pblMapGet (kt_map kt) (fd_key sd) of None \<Rightarrow> {#} | Some w0 \<Rightarrow> mset (descriptors_of (fd_key sd, w0))) \<and>
            distinct new \<and> set new \<inter> set (tcp_descriptors kt) = {}" if "Some ?w = Some w'" for w'
      using that assms(4) image_mset_subseteq_mono [OF mset_entries_added [OF none], of snd fd]
      by (intro exI [of _ "[fd]"]) (auto simp: mset_clients w)
  qed
qed

lemma tcp_ok_client_stop:
  assumes "tcp_ok kt"
  shows "tcp_ok (ksnTcpCbStop fd close_flg True kt)"
proof -
  have wf: "tcp_wf kt" using assms(1) by (simp add: tcp_ok_def)
  define kt1 where "kt1 = kt_emit ((if close_flg then [CloseFd fd] else []) @ [IoStop fd]) kt"
  have map1: "kt_map kt1 = kt_map kt" by (simp add: kt1_def kt_emit_def)
  have out1: "Fault \<notin> set (kt_out kt1)" using assms by (simp add: kt1_def kt_emit_def tcp_ok_def)
  have srv: "ksnTcpGetServer kt1 fd = ksnTcpGetServer kt fd" by (simp add: ksnTcpGetServer_def map1)
  show ?thesis
  proof (cases "ksnTcpGetServer kt fd = 0")
    case True
    then have "ksnTcpCbStop fd close_flg True kt = kt1" by (simp add: ksnTcpCbStop_def Let_def srv flip: kt1_def)
    then show ?thesis using tcp_ok_keep [OF assms map1 out1] by simp
  next
    case False
    let ?sd = "ksnTcpGetServer kt fd"
    obtain w where w: "pblMapGet (kt_map kt) (fd_key ?sd) = Some w" "w_fd w = ?sd" using get_server [OF wf False] .
    let ?f = "\<lambda>w. w\<lparr>clients_map := pblMapRemoveFrom (clients_map w) (fd_key fd)\<rparr>"
    have eq: "ksnTcpCbStop fd close_flg True kt = kt1\<lparr>kt_map := pblMapStore (kt_map kt) (fd_key ?sd) ?f\<rparr>"
      using False w by (simp add: ksnTcpCbStop_def Let_def srv map1 flip: kt1_def)
    show ?thesis unfolding eq
    proof (rule tcp_ok_update [OF assms])
      show "pblMapGet (kt_map (kt1\<lparr>kt_map := pblMapStore (kt_map kt) (fd_key ?sd) ?f\<rparr>)) =
          (pblMapGet (kt_map kt))(fd_key ?sd := Some (?f w))" by (simp add: get_store_upd w)
      show "Fault \<notin> set (kt_out (kt1\<lparr>kt_map := pblMapStore (kt_map kt) (fd_key ?sd) ?f\<rparr>))" using out1 by simp
      show "int32 (w_fd w') \<and> fd_key ?sd = fd_key (w_fd w') \<and>
          (\<forall>k fd. pblMapGet (clients_map w') k = Some fd \<longrightarrow> int32 fd \<and> k = fd_key fd)" if "Some (?f w) = Some w'" for w'
        using that tcp_wfD [OF wf w(1)] w(2) by (auto simp: map_simps split: if_splits)
      show "\<exists>new. mset (descriptors_of (fd_key ?sd, w')) \<subseteq># mset new +
              (case pblMapGet (kt_map kt) (fd_key ?sd) of None \<Rightarrow> {#} | Some w0 \<Rightarrow> mset (descriptors_of (fd_key ?sd, w0))) \<and>
              distinct new \<and> set new \<inter> set (tcp_descriptors kt) = {}" if "Some (?f w) = Some w'" for w'
        using that image_mset_subseteq_mono [OF mset_entries_removed, of snd "clients_map w" "fd_key fd"]
        by (intro exI [of _ "[]"]) (auto simp: mset_clients w)
    qed
  qed
qed

lemma tcp_ok_stop:
  assumes "tcp_ok kt"
  shows "tcp_ok (ksnTcpServerStop sd kt)"
proof (cases "pblMapGet (kt_map kt) (fd_key sd)")
  case None
  then show ?thesis using assms by (simp add: ksnTcpServerStop_def)
next
  case (Some w)
  show ?thesis
    by (rule tcp_ok_update [OF assms server_stop(1) [OF Some]])
      (use assms in \<open>simp_all add: server_stop(2) [OF Some] tcp_ok_def\<close>)
qed

lemma entries_new: "pblMapEntries pblMapNewHashMap = []"
  by (simp add: pm.entries_empty pm.law_new fun_eq_iff)

lemma tcp_ok_reachable: "tcp_step\<^sup>*\<^sup>* ksnTcpInit kt \<Longrightarrow> tcp_ok kt"
proof (induction rule: rtranclp_induct)
  case base
  show ?case by (simp add: tcp_ok_def tcp_wf_def ksnTcpInit_def map_simps tcp_descriptors_def entries_new)
next
  case (step kt kt')
  from step(2,3) show ?case
    by cases (simp_all add: tcp_ok_create tcp_ok_client tcp_ok_client_stop tcp_ok_stop)
qed

lemma stop_all_ok:
  assumes "tcp_ok kt"
  shows "\<exists>kt' fds. ksnTcpServerStopAll kt = Some kt' \<and> pblMapIsEmpty (kt_map kt') \<and>
           kt_out kt' = kt_out kt @ stop_acts fds \<and> mset fds = mset (tcp_descriptors kt)"
  using assms
proof (induction "pblMapSize (kt_map kt)" arbitrary: kt)
  case 0
  then have "pblMapEntries (kt_map kt) = []" by (metis entries_length length_0_conv)
  with 0 show ?case
    by (intro exI [of _ kt] exI [of _ "[]"])
      (simp add: ksnTcpServerStopAll.simps [of kt] tcp_descriptors_def map_simps)
next
  case (Suc n)
  then obtain key w es where e: "pblMapEntries (kt_map kt) = (key, w) # es"
    by (metis entries_length length_Suc_conv surj_pair)
  then have get: "pblMapGet (kt_map kt) key = Some w" using entries_mem [of key w "kt_map kt"] by simp
  have wf: "tcp_wf kt" using Suc.prems by (simp add: tcp_ok_def)
  have key: "key = fd_key (w_fd w)" "int32 (w_fd w)" using tcp_wfD(1,2) [OF wf get] by simp_all
  then have sd: "sint (dec_u32 (fd_key (w_fd w))) = w_fd w"
    using dec_enc_u32 [of "of_int (w_fd w)" "[]"] by (simp add: fd_key_def sint_int32)
  let ?kt = "ksnTcpServerStop (w_fd w) kt"
  have get': "pblMapGet (kt_map kt) (fd_key (w_fd w)) = Some w" using get key(1) by simp
  have "pblMapSize (kt_map ?kt) = n"
    using Suc(2) get' pm.mset_entries_remove [OF get'] entries_ext [of "kt_map ?kt" "pblMapRemoveFrom (kt_map kt) key"]
    by (metis server_stop(1) entries_length size_mset size_add_mset key(1) diff_Suc_1 remove_facts(1,2) option.discI)
  from Suc.hyps(1) [OF this [symmetric] tcp_ok_stop [OF Suc.prems]]
  obtain kt' fds where ih: "ksnTcpServerStopAll ?kt = Some kt'" "pblMapIsEmpty (kt_map kt')"
    "kt_out kt' = kt_out ?kt @ stop_acts fds" "mset fds = mset (tcp_descriptors ?kt)" by blast
  show ?case
    by (intro exI [of _ kt'] exI [of _ "descriptors_of (key, w) @ fds"])
      (simp add: ksnTcpServerStopAll.simps [of kt] e sd ih server_stop(2) [OF get'] tcp_descriptors_stop [OF get'] key(1))
qed

text \<open>
  C33: Destroying the TCP module ends, whatever servers and clients there are: it leaves no server in the
  table and closes every descriptor of a server or client exactly once.
\<close>

theorem tcp_destroy:
  assumes "tcp_step\<^sup>*\<^sup>* ksnTcpInit kt"
  shows "\<exists>kt' acts. ksnTcpDestroy kt = Some kt' \<and> pblMapIsEmpty (kt_map kt') \<and> kt_out kt' = kt_out kt @ acts \<and>
           Fault \<notin> set acts \<and> mset (closed acts) = mset (tcp_descriptors kt) \<and> distinct (closed acts)"
proof -
  have ok: "tcp_ok kt" by (rule tcp_ok_reachable [OF assms])
  obtain kt' fds where "ksnTcpServerStopAll kt = Some kt'" "pblMapIsEmpty (kt_map kt')"
    "kt_out kt' = kt_out kt @ stop_acts fds" "mset fds = mset (tcp_descriptors kt)"
    using stop_all_ok [OF ok] by blast
  moreover from this(4) have "distinct fds"
    using ok by (metis mset_eq_imp_distinct_iff tcp_ok_def)
  ultimately show ?thesis unfolding ksnTcpDestroy_def by (intro exI [of _ kt'] exI [of _ "stop_acts fds"]) simp
qed

text \<open>A node with a server at port 9000, the first of which is busy, and one client.\<close>

definition sock_example :: "u16 \<Rightarrow> sockCall" where
  "sock_example port = (if port = 9000 then BindBusy 4 else Bound 5)"

definition tcp_example :: ksnTcpClass where
  "tcp_example = ksnTcpCb 5 6 (snd (snd (ksnTcpServerCreate sock_example (\<lambda>sd. True) 9000 ksnTcpInit)))"

theorem tcp_server_port_witness: "fst (ksnTcpServerCreate sock_example (\<lambda>sd. True) 9000 ksnTcpInit) = 5"
proof -
  have "\<exists>kt'. ksnTcpServerCreate sock_example (\<lambda>sd. True) 9000 ksnTcpInit = (5, 9000 + int 1, kt') \<and>
      pblMapGet (kt_map kt') = (pblMapGet (kt_map ksnTcpInit))(fd_key 5 \<mapsto> \<lparr>w_fd = 5, clients_map = pblMapNewHashMap\<rparr>) \<and>
      (0 \<le> (9000 :: int) \<and> 9000 + int 1 < 65536 \<longrightarrow> uint (htons (9000 + int 1)) = 9000 + int 1)"
    by (rule tcp_server_port)
      (simp_all add: port_busy_def sock_example_def htons_def KSNET_TRY_PORT_def ksnTcpInit_def pblMapRoom_def map_simps
        pblMaxElements_def)
  then show ?thesis by auto
qed

lemma tcp_example_reachable: "tcp_step\<^sup>*\<^sup>* ksnTcpInit tcp_example"
proof -
  let ?kt = "snd (snd (ksnTcpServerCreate sock_example (\<lambda>sd. True) 9000 ksnTcpInit))"
  let ?w = "\<lparr>w_fd = 5, clients_map = pblMapNewHashMap\<rparr>"
  have ini: "tcp_descriptors ksnTcpInit = []"
    by (simp add: tcp_descriptors_def ksnTcpInit_def entries_new)
  have one: "tcp_step ksnTcpInit ?kt"
    by (rule tcp_step.create) (auto simp: ini sock_example_def int32_def split: if_splits)
  have "tcp_try_ports sock_example KSNET_TRY_PORT 9000 = (True, 5, 9001, [CloseFd 4])"
    by (simp add: KSNET_TRY_PORT_def numeral_eq_Suc sock_example_def htons_def del: One_nat_def)
  then have map1: "kt_map ?kt = pblMapAddTo pblMapNewHashMap (fd_key 5) ?w"
    by (simp add: ksnTcpServerCreate_def ksnTcpServerStart_def Let_def kt_emit_def ksnTcpInit_def)
  have room: "pblMapRoom pblMapNewHashMap k" for k by (simp add: pblMapRoom_def map_simps pblMaxElements_def)
  have get: "pblMapGet (kt_map ?kt) = [fd_key 5 \<mapsto> ?w]"
    by (simp add: map1 map_simps room fun_eq_iff pm.law_new)
  have "6 \<notin> set (tcp_descriptors ?kt)"
    using get by (auto simp: tcp_descriptors_def descriptors_of_def entries_mem pm.law_new split: if_splits prod.splits)
  then have "tcp_step ?kt tcp_example"
    unfolding tcp_example_def using tcp_step.client [of ?kt 5 ?w 6] get by (simp add: int32_def)
  with one show ?thesis by (meson rtranclp.simps)
qed

theorem tcp_destroy_witness: "\<exists>kt'. ksnTcpDestroy tcp_example = Some kt' \<and> pblMapIsEmpty (kt_map kt')"
  using tcp_destroy [OF tcp_example_reachable] by blast

text \<open>A client that was entered at a server is found there.\<close>

theorem tcp_client_server:
  assumes "tcp_step\<^sup>*\<^sup>* ksnTcpInit kt" and "pblMapGet (kt_map kt) key = Some w" and "pblMapGet (clients_map w) (fd_key fd) = Some fd"
  shows "ksnTcpGetServer kt fd = w_fd w"
proof -
  have ok: "tcp_ok kt" by (rule tcp_ok_reachable [OF assms(1)])
  have one: "k = key" if k: "pblMapGet (kt_map kt) k = Some w'" "pblMapGet (clients_map w') (fd_key fd) \<noteq> None" for k w'
  proof (rule ccontr)
    assume ne: "k \<noteq> key"
    from k(2) obtain g where g: "pblMapGet (clients_map w') (fd_key fd) = Some g" by blast
    have wf: "tcp_wf kt" using ok by (simp add: tcp_ok_def)
    have "int32 g" "fd_key g = fd_key fd" "int32 fd"
      using tcp_wfD(3) [OF wf k(1) g] tcp_wfD(3) [OF wf assms(2,3)] by simp_all
    then have "g = fd" using fd_key_inject by simp
    then have "(fd_key fd, fd) \<in> set (pblMapEntries (clients_map w'))" "(fd_key fd, fd) \<in> set (pblMapEntries (clients_map w))"
      using g assms(3) by (simp_all add: entries_mem)
    from this [THEN imageI, of snd] have "fd \<in># mset (descriptors_of (k, w'))" "fd \<in># mset (descriptors_of (key, w))"
      by (simp_all add: descriptors_of_def)
    then have two: "count (mset (descriptors_of (k, w'))) fd \<noteq> 0" "count (mset (descriptors_of (key, w))) fd \<noteq> 0"
      by (simp_all only: count_eq_zero_iff not_not)
    have "mset (descriptors_of (k, w')) + mset (descriptors_of (key, w)) \<subseteq># mset (tcp_descriptors kt)"
      using ne k(1) assms(2) pm.mset_entries_remove [of "kt_map kt" k w'] pm.mset_entries_remove [of "pblMapRemoveFrom (kt_map kt) k" key w]
      by (simp add: mset_tcp_descriptors map_simps)
    then have "count (mset (descriptors_of (k, w'))) fd + count (mset (descriptors_of (key, w))) fd
        \<le> count (mset (tcp_descriptors kt)) fd"
      using mset_subset_eq_count [of _ _ fd] by fastforce
    moreover have "count (mset (tcp_descriptors kt)) fd \<le> 1"
      using ok by (simp add: tcp_ok_def distinct_count_atmost_1)
    ultimately show False using two by linarith
  qed
  have "find (\<lambda>(k, v). pblMapGet (clients_map v) (fd_key fd) \<noteq> None) (pblMapEntries (kt_map kt)) = Some (key, w)"
    by (rule pm.search_unique [OF assms(2)]) (simp_all add: assms(3) one)
  then show ?thesis unfolding ksnTcpGetServer_def by simp
qed

end
