(* ===== verification/Lifecycle.thy ===== *)
theory Lifecycle
  imports Node NetTcp
begin

text \<open>
  Starting, running and stopping a node (ev_mgr.c: ksnetEvMgrRun, ksnetEvMgrFree, modules_init,
  modules_destroy, with the init and destroy functions of the modules they call). The state is the node
  and its TCP module. What the configuration and the system give at the start is the record
  \<open>startArgs\<close>; what the event loop does is an argument. A freed table is an empty one here. The
  database, the terminal, the logging, metric and hotkeys modules and the TCP proxy start and stop without touching the tables
  of the node and are left out.
\<close>

section \<open>What is given at the start\<close>

text \<open>
  The number of the network, the port of the configuration, the network's key and name, the result
  of binding the UDP socket (descriptor and port), whether the virtual interface comes up and its
  descriptor, what the memory of the L0 server's class holds where its descriptor will be (the code
  does not write it when the server cannot be made), the sockets for TCP servers and whether listening
  succeeds, and whether the node is given an event loop.
\<close>

record startArgs =
  st_net_idx :: nat
  st_port :: int
  st_net_key :: bytes
  st_network :: bytes
  st_udp :: "int \<times> int"
  st_vpn :: "bool \<times> int"
  st_junk :: int
  st_sock :: "u16 \<Rightarrow> sockCall"
  st_listens :: "int \<Rightarrow> bool"
  st_ev_loop :: bool

type_synonym nodeState = "ksnetEvMgr \<times> ksnTcpClass"

section \<open>Starting\<close>

definition ksnetArpInit :: "ksnetEvMgr \<Rightarrow> ksnetEvMgr" where
  "ksnetArpInit ke = ksnetArpAddHost (ke\<lparr>ka := pblMapNewHashMap\<rparr>)"

definition ksnCommandInit :: "ksnetEvMgr \<Rightarrow> ksnetEvMgr" where
  "ksnCommandInit ke = ke\<lparr>kco_ks := ksnSplitInit, kr_map := pblMapNewHashMap, ksscr_map := pblMapNewHashMap\<rparr>"

text \<open>The table of peers is made before the socket is bound; this host's port is corrected after it.\<close>

definition ksnCoreInit :: "startArgs \<Rightarrow> ksnetEvMgr \<Rightarrow> bool \<times> ksnetEvMgr" where
  "ksnCoreInit a ke =
     (let ke1 = ke\<lparr>kc_name := cfg_host_name ke, kc_port := st_port a, kc_last_check_event := 0\<rparr>;
          ke2 = (ksnCommandInit (ksnetArpInit ke1))\<lparr>kcr := ksnCryptInit (st_net_key a) (st_network a)\<rparr>
      in if fst (st_udp a) > 0
         then (True, snd (ksnetArpSetHostPort (cfg_host_name ke2) (snd (st_udp a))
                            (ke2\<lparr>kc_port := snd (st_udp a), ke_channels := (\<lambda>addr port. None)\<rparr>)))
         else (False, ke2))"

definition ksnVpnInit :: "startArgs \<Rightarrow> ksnetEvMgr \<Rightarrow> ksnetEvMgr" where
  "ksnVpnInit a ke =
     (if cfg_vpn_connect_f ke
      then emit (if fst (st_vpn a) then [IoStart (snd (st_vpn a))] else [])
             (ke\<lparr>kvpn := Some \<lparr>ksnet_vpn_started = fst (st_vpn a), ksnet_vpn_map = pblMapNewHashMap,
                               tuntap_fd = snd (st_vpn a)\<rparr>\<rparr>)
      else ke\<lparr>kvpn := None\<rparr>)"

definition ksnLNullStart :: "startArgs \<Rightarrow> nodeState \<Rightarrow> nodeState" where
  "ksnLNullStart a = (\<lambda>(ke, kt).
     case kl ke of
       None \<Rightarrow> (ke, kt)
     | Some l \<Rightarrow>
         (case ksnTcpServerCreate (st_sock a) (st_listens a) (cfg_l0_tcp_port ke) kt of
            (fd, port_created, kt1) \<Rightarrow>
              if fd > 0
              then (case ksnCQueAdd (ksnCQueInit False) (Some CheckConnectedCb) CHECK_TIMEOUT NoData of
                      (cq, q, acts) \<Rightarrow>
                        (emit acts (ke\<lparr>cfg_l0_tcp_port := port_created, kl := Some (l\<lparr>l0_fd := fd, l0_cque := Some q\<rparr>)\<rparr>), kt1))
              else (ke, kt1)))"

text \<open>
  When the server cannot be created its descriptor stays what the memory holds, and the pointer to the
  queue is never written: no queue, and following the pointer is a fault.
\<close>

definition ksnLNullInit :: "startArgs \<Rightarrow> nodeState \<Rightarrow> nodeState" where
  "ksnLNullInit a = (\<lambda>(ke, kt).
     if cfg_l0_allow_f ke
     then ksnLNullStart a
            (ke\<lparr>kl := Some \<lparr>l0_map = pblMapNewHashMap, l0_map_n = pblMapNewHashMap, l0_fd = st_junk a,
                            l0_fd_trudp = MAX_FD_NUMBER (ke_env ke), l0_clients = 0, l0_visits = 0,
                            l0_packets_to_peer = 0, l0_packets_from_peer = 0, l0_packets_to_client = 0,
                            l0_packets_from_client = 0, l0_cque = None\<rparr>\<rparr>, kt)
     else (ke\<lparr>kl := None\<rparr>, kt))"

definition modules_init :: "startArgs \<Rightarrow> nodeState \<Rightarrow> bool \<times> nodeState" where
  "modules_init a = (\<lambda>(ke, kt).
     case ksnCoreInit a ke of
       (False, ke1) \<Rightarrow> (False, ke1, kt)
     | (True, ke1) \<Rightarrow>
         let ke2 = ksnVpnInit a (ke1\<lparr>kq := ksnCQueInit False, ks_map := pblMapNewHashMap\<rparr>)
         in (case ksnLNullInit a (ke2, ksnTcpInit) of
               (ke3, kt1) \<Rightarrow> (True, ke3\<lparr>ktun := \<lparr>tun_list = pblMapNewHashMap, tun_map = pblMapNewHashMap\<rparr>\<rparr>, kt1)))"

section \<open>Stopping\<close>

definition ksnTunDestroy :: "ksnetEvMgr \<Rightarrow> ksnetEvMgr" where
  "ksnTunDestroy ke = upd_ktun (\<lambda>t. t\<lparr>tun_list := pblMapNewHashMap\<rparr>) (ksnTunMapFree ke)"

definition ksnVpnDestroy :: "ksnetEvMgr \<Rightarrow> ksnetEvMgr" where
  "ksnVpnDestroy ke =
     (case kvpn ke of
        None \<Rightarrow> ke
      | Some v \<Rightarrow> emit (if ksnet_vpn_started v then [IoStop (tuntap_fd v)] else []) (ke\<lparr>kvpn := None\<rparr>))"

definition ksnCQueDestroy :: "ksnetEvMgr \<Rightarrow> ksnetEvMgr" where
  "ksnCQueDestroy ke = (case teoCqueStopAll (kq ke) (ke_run ke) of (q, acts) \<Rightarrow> emit acts (ke\<lparr>kq := q\<rparr>))"

definition ksnStreamDestroy :: "ksnetEvMgr \<Rightarrow> ksnetEvMgr" where
  "ksnStreamDestroy ke = (ksnStreamCloseAll ke)\<lparr>ks_map := pblMapNewHashMap\<rparr>"

definition ksnLNullDestroy :: "nodeState \<Rightarrow> nodeState" where
  "ksnLNullDestroy = (\<lambda>(ke, kt).
     case kl ke of
       None \<Rightarrow> (ke, kt)
     | Some l \<Rightarrow> ((ksnLNullStop ke)\<lparr>kl := None\<rparr>, if cfg_l0_allow_f ke \<and> l0_fd l \<noteq> 0 then ksnTcpServerStop (l0_fd l) kt else kt))"

definition ksnCoreDestroy :: "startArgs \<Rightarrow> ksnetEvMgr \<Rightarrow> ksnetEvMgr" where
  "ksnCoreDestroy a ke =
     channel_destroy_all
       ((emit [IoStop (fst (st_udp a)), CloseFd (fst (st_udp a))] (ksnCoreDestroy_sends ke))
          \<lparr>ka := pblMapNewHashMap, ksscr_map := pblMapNewHashMap, kco_ks := ksnSplitInit, kr_map := pblMapNewHashMap\<rparr>)"

text \<open>
  When the core could not be made the pointers of the modules are null, and the first of them that is
  used without a test ends the program.
\<close>

definition modules_destroy :: "startArgs \<Rightarrow> bool \<Rightarrow> nodeState \<Rightarrow> nodeState option" where
  "modules_destroy a core = (\<lambda>(ke, kt).
     if core
     then case ksnLNullDestroy (ksnStreamDestroy (ksnCQueDestroy (ksnVpnDestroy (ksnTunDestroy ke))), kt) of
            (ke1, kt1) \<Rightarrow> map_option (Pair (ksnCoreDestroy a ke1)) (ksnTcpDestroy kt1)
     else Some (emit [Fault] ke, kt))"

text \<open>\<open>free_async\<close>: 1 frees the queue of asynchronous events, 0 all the rest, 2 everything.\<close>

definition ksnetEvMgrFree :: "startArgs \<Rightarrow> bool \<Rightarrow> nat \<Rightarrow> nodeState \<Rightarrow> nodeState option" where
  "ksnetEvMgrFree a core free_async = (\<lambda>(ke, kt).
     let ke1 = (if free_async \<noteq> 0 then ke\<lparr>ke_async_queue := []\<rparr> else ke)
     in if free_async = 0 \<or> free_async = 2
        then let ke2 = emit [WatcherStop ''sig_async_w'', WatcherStop ''timer_w''] (event_cb EV_K_STOPPED_BEFORE EvNone ke1)
             in if core
                then (case modules_destroy a core (ke2, kt) of
                        None \<Rightarrow> None
                      | Some (ke3, kt3) \<Rightarrow>
                          let ke4 = (if \<not> ke_km ke3 \<or> st_net_idx a = 0 then emit [LoopDestroy] ke3 else ke3)
                          in Some (event_cb EV_K_STOPPED EvNone ke4, kt3))
                else modules_destroy a core (ke2, kt)
        else Some (ke1, kt))"

section \<open>Running\<close>

definition run_watchers :: "startArgs \<Rightarrow> action list" where
  "run_watchers a =
     [WatcherStart ''timer_w''] @
     (if st_net_idx a = 0
      then [WatcherStart ''sigint_w'', WatcherStart ''sigquit_w'', WatcherStart ''sigterm_w'', WatcherStart ''sigkill_w'',
            WatcherStart ''sigstop_w'', WatcherStart ''sigabrt_w'']
      else []) @
     [WatcherStart ''sig_async_w'', IdleStart ''idle'']"

text \<open>Up to the event loop: whether the modules could be made, and the state.\<close>

definition run_start :: "startArgs \<Rightarrow> nodeState \<Rightarrow> bool \<times> nodeState" where
  "run_start a = (\<lambda>(ke, kt).
     case modules_init a (ke\<lparr>ke_timer_val := 0, ke_idle_count := 0, ke_idle_activity_count := 0\<rparr>, kt) of
       (False, s) \<Rightarrow> (False, s)
     | (True, ke1, kt1) \<Rightarrow> (True, emit (run_watchers a) (ke1\<lparr>ke_async_queue := [], ke_run := True\<rparr>), kt1))"

text \<open>With several networks, or a loop that runs already, the function returns and the node lives on.\<close>

definition ksnetEvMgrRun :: "(nodeState \<Rightarrow> nodeState) \<Rightarrow> startArgs \<Rightarrow> nodeState \<Rightarrow> nodeState option" where
  "ksnetEvMgrRun loop a = (\<lambda>(ke, kt).
     case run_start a (ke, kt) of
       (False, s) \<Rightarrow> ksnetEvMgrFree a False 0 s
     | (True, s) \<Rightarrow>
         if \<not> ke_km ke \<and> \<not> st_ev_loop a
         then (case ksnetEvMgrFree a True 1 (loop s) of
                 None \<Rightarrow> None
               | Some s' \<Rightarrow> ksnetEvMgrFree a True 0 s')
         else Some s)"

section \<open>What stopping leaves alone\<close>

definition stop_view :: "ksnetEvMgr \<Rightarrow> ksnet_arp_data_ext PblMap \<times> ksnVpnClass option \<times> ksnTunClass \<times> ksnCQueClass \<times> (nat \<times> bytes) list" where
  "stop_view ke = (ka ke, kvpn ke, ktun ke, kq ke, ke_async_queue ke)"

lemma emit_async [simp]: "ke_async_queue (emit acts ke) = ke_async_queue ke" "ke_async_queue (event_cb ev d ke) = ke_async_queue ke"
  by (simp_all add: emit_def event_cb_def)

lemma stop_view_emit [simp]: "stop_view (emit acts ke) = stop_view ke" "stop_view (event_cb ev d ke) = stop_view ke"
  by (simp_all add: stop_view_def event_cb_def)

lemma stop_view_upd_kl [simp]: "stop_view (upd_kl f ke) = stop_view ke" "ks_map (upd_kl f ke) = ks_map ke"
  by (simp_all add: stop_view_def upd_kl_def)

lemma stop_view_send: "send_only ke ke' \<Longrightarrow> stop_view ke' = stop_view ke"
  by (simp add: stop_view_def send_only_fields)

lemmas stop_view_sends [simp] =
  stop_view_send [OF send_only_sendto] stop_view_send [OF send_only_sendCmdto] stop_view_send [OF send_only_sscrSend]
  send_only_fields(4) [OF send_only_sscrSend]

lemma stop_view_streamClose [simp]: "stop_view (ksnStreamClose p n f ke) = stop_view ke"
proof -
  have "stop_view (k\<lparr>ks_map := m\<rparr>) = stop_view k" for k m by (simp add: stop_view_def)
  then show ?thesis by (simp add: ksnStreamClose_def ksnStreamSendTo_def Let_def split: option.split)
qed

lemma fold_inv: "(\<And>x k. h (f x k) = h k) \<Longrightarrow> h (fold f xs k) = h k"
  by (induction xs arbitrary: k) simp_all

lemma stop_view_streams [simp]: "stop_view (ksnStreamDestroy ke) = stop_view ke"
proof -
  have "stop_view (k\<lparr>ks_map := m\<rparr>) = stop_view k" for k m by (simp add: stop_view_def)
  then show ?thesis
    by (auto simp: ksnStreamDestroy_def ksnStreamCloseAll_def Let_def intro!: fold_inv split: prod.splits)
qed

lemma stop_view_clientDisconnect [simp]:
  "stop_view (ksnLNullClientDisconnect fd f ke) = stop_view ke" "ks_map (ksnLNullClientDisconnect fd f ke) = ks_map ke"
  by (simp_all add: ksnLNullClientDisconnect_def Let_def split: option.split)

lemma stop_view_l0Stop [simp]: "stop_view (ksnLNullStop ke) = stop_view ke" "ks_map (ksnLNullStop ke) = ks_map ke"
proof -
  have kl: "stop_view (k\<lparr>kl := l\<rparr>) = stop_view k" for k l by (simp add: stop_view_def)
  have fold: "stop_view (fold (\<lambda>(key, d). ksnLNullClientDisconnect (sint (dec_u32 key)) 0) es k) = stop_view k"
    "ks_map (fold (\<lambda>(key, d). ksnLNullClientDisconnect (sint (dec_u32 key)) 0) es k) = ks_map k"
    for es :: "(bytes \<times> ksnLNullData) list" and k
    by (rule fold_inv; simp split: prod.split)+
  show "stop_view (ksnLNullStop ke) = stop_view ke" "ks_map (ksnLNullStop ke) = ks_map ke"
    by (auto simp: ksnLNullStop_def Let_def kl fold split: option.splits prod.splits)
qed

lemma tunDisconnected_send: "ka (cmd_tun_disconnected_send fd ke) = ka ke" "kq (cmd_tun_disconnected_send fd ke) = kq ke"
  "kvpn (cmd_tun_disconnected_send fd ke) = kvpn ke" "ke_async_queue (cmd_tun_disconnected_send fd ke) = ke_async_queue ke"
  by (simp_all add: cmd_tun_disconnected_send_def split: option.split)

lemma tunDestroy_fields [simp]:
  "ka (ksnTunDestroy ke) = ka ke" "ke_async_queue (ksnTunDestroy ke) = ke_async_queue ke"
  "ktun (ksnTunDestroy ke) = \<lparr>tun_list = pblMapNewHashMap, tun_map = pblMapNewHashMap\<rparr>"
proof -
  let ?f = "\<lambda>(key, d :: bytes \<times> u16) ke. cmd_tun_disconnected_send (dec_u16 key) (emit [CloseFd (uint (dec_u16 key))] ke)"
  have "ka (fold ?f es k) = ka k" "ke_async_queue (fold ?f es k) = ke_async_queue k" for es k
    by (rule fold_inv; simp add: tunDisconnected_send split: prod.split)+
  then show "ka (ksnTunDestroy ke) = ka ke" "ke_async_queue (ksnTunDestroy ke) = ke_async_queue ke"
    "ktun (ksnTunDestroy ke) = \<lparr>tun_list = pblMapNewHashMap, tun_map = pblMapNewHashMap\<rparr>"
    by (simp_all add: ksnTunDestroy_def ksnTunMapFree_def upd_ktun_def)
qed

text \<open>Everything before the core is destroyed.\<close>

definition before_core :: "nodeState \<Rightarrow> nodeState" where
  "before_core = (\<lambda>(ke, kt). ksnLNullDestroy (ksnStreamDestroy (ksnCQueDestroy (ksnVpnDestroy (ksnTunDestroy ke))), kt))"

lemma l0Destroy_fst [simp]:
  "stop_view (fst (ksnLNullDestroy (ke, kt))) = stop_view ke" "ks_map (fst (ksnLNullDestroy (ke, kt))) = ks_map ke"
  "kl (fst (ksnLNullDestroy (ke, kt))) = None"
proof -
  have kl: "stop_view (k\<lparr>kl := l\<rparr>) = stop_view k" for k l by (simp add: stop_view_def)
  show "stop_view (fst (ksnLNullDestroy (ke, kt))) = stop_view ke" "ks_map (fst (ksnLNullDestroy (ke, kt))) = ks_map ke"
    "kl (fst (ksnLNullDestroy (ke, kt))) = None"
    by (simp_all add: ksnLNullDestroy_def kl split: option.split)
qed

lemma before_core_fields:
  "ka (fst (before_core (ke, kt))) = ka ke" "ks_map (fst (before_core (ke, kt))) = pblMapNewHashMap"
  "kvpn (fst (before_core (ke, kt))) = None" "kl (fst (before_core (ke, kt))) = None"
  "ktun (fst (before_core (ke, kt))) = \<lparr>tun_list = pblMapNewHashMap, tun_map = pblMapNewHashMap\<rparr>"
  "pblMapIsEmpty (cque_map (kq (fst (before_core (ke, kt)))))" "ke_async_queue (fst (before_core (ke, kt))) = ke_async_queue ke"
proof -
  let ?k = "ksnCQueDestroy (ksnVpnDestroy (ksnTunDestroy ke))"
  have "stop_view (fst (before_core (ke, kt))) = stop_view ?k" by (simp add: before_core_def)
  then have v: "ka (fst (before_core (ke, kt))) = ka ?k" "kvpn (fst (before_core (ke, kt))) = kvpn ?k"
    "ktun (fst (before_core (ke, kt))) = ktun ?k" "kq (fst (before_core (ke, kt))) = kq ?k"
    "ke_async_queue (fst (before_core (ke, kt))) = ke_async_queue ?k"
    by (simp_all add: stop_view_def)
  show "ka (fst (before_core (ke, kt))) = ka ke" "kvpn (fst (before_core (ke, kt))) = None"
    "ktun (fst (before_core (ke, kt))) = \<lparr>tun_list = pblMapNewHashMap, tun_map = pblMapNewHashMap\<rparr>"
    "pblMapIsEmpty (cque_map (kq (fst (before_core (ke, kt)))))" "ke_async_queue (fst (before_core (ke, kt))) = ke_async_queue ke"
    by (auto simp: v ksnCQueDestroy_def ksnVpnDestroy_def teoCqueStopAll_def map_simps emit_def split: option.splits)
  show "ks_map (fst (before_core (ke, kt))) = pblMapNewHashMap" by (simp add: before_core_def ksnStreamDestroy_def)
  show "kl (fst (before_core (ke, kt))) = None" by (simp add: before_core_def)
qed

lemma node_ok_destroy [node_keeps]:
  assumes "node_ok c out ke"
  shows "node_ok c out (ksnStreamDestroy ke)" "node_ok c out (ksnCQueDestroy ke)" "node_ok c out (ksnTunDestroy ke)"
    "node_ok c out (ksnVpnDestroy ke)"
proof -
  have "cque_wf (fst (teoCqueStopAll (kq ke) r))" for r by (simp add: teoCqueStopAll_def cque_wf_def cq_get_def map_simps)
  then show "node_ok c out (ksnCQueDestroy ke)"
    using node_ok_kq [OF assms] by (simp add: ksnCQueDestroy_def teoCqueStopAll_def node_keeps)
  show "node_ok c out (ksnStreamDestroy ke)"
    unfolding ksnStreamDestroy_def
    by (rule node_ok_ks_map [OF node_ok_closeAll [OF assms]]) (simp add: stream_wf_def map_simps)
qed (use assms in \<open>simp_all add: ksnTunDestroy_def ksnVpnDestroy_def node_keeps node_ok_upd_ktun tun_keys_changes split: option.split\<close>)

lemma before_core_ok: "node_ok c out ke \<Longrightarrow> node_ok c out (fst (before_core (ke, kt)))"
  by (auto simp: before_core_def ksnLNullDestroy_def node_keeps intro!: node_ok_kl split: option.split)

section \<open>Stopping closes the connections and follows no bad pointer\<close>

text \<open>\<open>ke'\<close> comes after \<open>ke\<close>, with the actions of \<open>X\<close> on the way and no fault.\<close>

definition quits :: "action set \<Rightarrow> ksnetEvMgr \<Rightarrow> ksnetEvMgr \<Rightarrow> bool" where
  "quits X ke ke' \<longleftrightarrow> (\<exists>acts. ke_out ke' = ke_out ke @ acts \<and> X \<subseteq> set acts \<and> Fault \<notin> set acts)"

lemma quits_out: "ke_out ke' = ke_out ke \<Longrightarrow> quits {} ke ke'"
  by (simp add: quits_def)

lemma quits_trans: "quits X a b \<Longrightarrow> quits Y b c \<Longrightarrow> quits (X \<union> Y) a c"
  unfolding quits_def by (elim exE conjE) (rule exI, auto)

lemma quits_then: "quits X a b \<Longrightarrow> quits {} b c \<Longrightarrow> quits X a c" "quits {} a b \<Longrightarrow> quits X b c \<Longrightarrow> quits X a c"
  using quits_trans [of X a b "{}" c] quits_trans [of "{}" a b X c] by simp_all

lemma quits_mono: "quits X a b \<Longrightarrow> Y \<subseteq> X \<Longrightarrow> quits Y a b"
  unfolding quits_def by blast

lemma quits_emit: "Fault \<notin> set acts \<Longrightarrow> X \<subseteq> set acts \<Longrightarrow> quits X ke (emit acts ke)"
  by (simp add: quits_def)

lemma quits_event: "quits {} ke (event_cb ev d ke)"
  by (simp add: event_cb_def quits_out quits_emit)

lemma quits_send: "send_only ke ke' \<Longrightarrow> quits {} ke ke'"
  using send_only_out [of ke ke'] by (fastforce simp: quits_def)

lemma quits_fold:
  "(\<And>x k. x \<in> set xs \<Longrightarrow> P k \<Longrightarrow> P (f x k) \<and> quits (X x) k (f x k)) \<Longrightarrow> P k \<Longrightarrow>
   P (fold f xs k) \<and> quits (\<Union>x\<in>set xs. X x) k (fold f xs k)"
proof (induction xs arbitrary: k)
  case (Cons x xs)
  have "P (f x k)" "quits (X x) k (f x k)" using Cons.prems by simp_all
  then show ?case using Cons.IH [of "f x k"] Cons.prems(1) quits_trans by simp
qed (simp add: quits_out)

text \<open>The tunnels' and the TCP clients' descriptors.\<close>

definition tun_fds :: "ksnetEvMgr \<Rightarrow> int list" where
  "tun_fds ke = map (\<lambda>(key, d). uint (dec_u16 key)) (pblMapEntries (tun_map (ktun ke)))"

definition l0_fds :: "ksnetEvMgr \<Rightarrow> int list" where
  "l0_fds ke =
     (case kl ke of
        None \<Rightarrow> []
      | Some l \<Rightarrow> if cfg_l0_allow_f ke \<and> l0_fd l \<noteq> 0
                  then filter (\<lambda>fd. fd < MAX_FD_NUMBER (ke_env ke))
                         (map (\<lambda>(key, d). sint (dec_u32 key)) (pblMapEntries (l0_map l)))
                  else [])"

definition l0_view :: "ksnetEvMgr \<Rightarrow> (ksnLNullData PblMap \<times> int) option \<times> bool \<times> teoEnv" where
  "l0_view ke = (map_option (\<lambda>l. (l0_map l, l0_fd l)) (kl ke), cfg_l0_allow_f ke, ke_env ke)"

lemma l0_view_fds: "l0_view a = l0_view b \<Longrightarrow> l0_fds a = l0_fds b"
  by (cases "kl a"; cases "kl b") (simp_all add: l0_view_def l0_fds_def)

lemma l0_view_send: "send_only ke ke' \<Longrightarrow> l0_view ke' = l0_view ke"
  by (auto simp: l0_view_def send_only_def)

lemma l0_view_fields [simp]:
  "l0_view (emit acts ke) = l0_view ke" "l0_view (event_cb ev d ke) = l0_view ke" "l0_view (ke\<lparr>ks_map := m\<rparr>) = l0_view ke"
  "l0_view (ke\<lparr>kq := q\<rparr>) = l0_view ke" "l0_view (ke\<lparr>kvpn := v\<rparr>) = l0_view ke" "l0_view (upd_ktun f ke) = l0_view ke"
  by (simp_all add: l0_view_def event_cb_def upd_ktun_def)

lemmas l0_view_sends [simp] = l0_view_send [OF send_only_sendto] l0_view_send [OF send_only_sendCmdto]

lemma stream_close_quits: "quits {} ke (ksnStreamClose p n f ke) \<and> l0_view (ksnStreamClose p n f ke) = l0_view ke"
proof (cases "pblMapGet (ks_map ke) (stream_key p n)")
  case (Some smd)
  have sent: "quits {} k (ksnStreamSendTo p n c d k) \<and> l0_view (ksnStreamSendTo p n c d k) = l0_view k" for c d k
    by (simp add: ksnStreamSendTo_def quits_send)
  have one: "quits {} k (event_cb ev e (if f \<noteq> CMD_ST_CLOSE_GOT then ksnStreamSendTo p n CMD_ST_CLOSE [] (emit [IoStop i, IoStop j] k)
      else emit [IoStop i, IoStop j] k))" for i j k ev e
  proof (rule quits_then(1) [OF _ quits_event])
    have "quits {} k (emit [IoStop i, IoStop j] k)" by (rule quits_emit) simp_all
    then show "quits {} k (if f \<noteq> CMD_ST_CLOSE_GOT then ksnStreamSendTo p n CMD_ST_CLOSE [] (emit [IoStop i, IoStop j] k)
      else emit [IoStop i, IoStop j] k)"
      using quits_then(1) conjunct1 [OF sent] by simp
  qed
  have rem: "quits {} k (k1\<lparr>ks_map := m\<rparr>)" if "quits {} k k1" for k k1 m using that by (simp add: quits_def)
  define ke1 where "ke1 = (if st_created smd
    then event_cb EV_K_STREAM_DISCONNECTED (EvKey (stream_key p n))
           (if f \<noteq> CMD_ST_CLOSE_GOT
            then ksnStreamSendTo p n CMD_ST_CLOSE [] (emit [IoStop (fst (st_pipe_in smd)), IoStop (fst (st_pipe_out smd))] ke)
            else emit [IoStop (fst (st_pipe_in smd)), IoStop (fst (st_pipe_out smd))] ke)
    else ke)"
  have ke1: "quits {} ke ke1" "l0_view ke1 = l0_view ke" using one sent by (simp_all add: ke1_def quits_out del: if_split)
  have "ksnStreamClose p n f ke = (if f \<noteq> CMD_ST_CLOSE_NOTREMOVE
      then ke1\<lparr>ks_map := pblMapRemoveFrom (ks_map ke1) (stream_key p n)\<rparr> else ke1)"
    unfolding ksnStreamClose_def Let_def Some option.case ke1_def ..
  then show ?thesis using ke1 rem by simp
qed (simp add: ksnStreamClose_def quits_out)

lemma streams_quits: "quits {} ke (ksnStreamDestroy ke) \<and> l0_view (ksnStreamDestroy ke) = l0_view ke"
proof -
  let ?f = "\<lambda>(key, smd :: ksnStreamMapData). ksnStreamClose (key_peer key) (key_stream key) CMD_ST_CLOSE_NOTREMOVE"
  have "l0_view (fold ?f es ke) = l0_view ke \<and> quits (\<Union>x\<in>set es. {}) ke (fold ?f es ke)" for es
    by (rule quits_fold) (use stream_close_quits in \<open>auto split: prod.split\<close>)
  then show ?thesis
    by (simp add: ksnStreamDestroy_def ksnStreamCloseAll_def Let_def split_def) (simp add: quits_def)
qed

lemma queue_quits: "quits {} ke (ksnCQueDestroy ke) \<and> l0_view (ksnCQueDestroy ke) = l0_view ke"
  by (auto simp: ksnCQueDestroy_def teoCqueStopAll_def quits_def split: option.splits if_splits)

lemma vpn_quits: "quits {} ke (ksnVpnDestroy ke) \<and> l0_view (ksnVpnDestroy ke) = l0_view ke"
  by (auto simp: ksnVpnDestroy_def quits_def split: option.split)

lemma tun_quits:
  assumes "tun_keys (ktun ke)"
  shows "quits (CloseFd ` set (tun_fds ke)) ke (ksnTunDestroy ke) \<and> l0_view (ksnTunDestroy ke) = l0_view ke"
proof -
  let ?f = "\<lambda>(key, d :: bytes \<times> u16) k. cmd_tun_disconnected_send (dec_u16 key) (emit [CloseFd (uint (dec_u16 key))] k)"
  let ?es = "pblMapEntries (tun_map (ktun ke))"
  have one: "(ktun (?f x k) = ktun ke \<and> l0_view (?f x k) = l0_view ke) \<and> quits {CloseFd (uint (dec_u16 (fst x)))} k (?f x k)"
    if x: "x \<in> set ?es" and k: "ktun k = ktun ke \<and> l0_view k = l0_view ke" for x k
  proof -
    obtain key d where e: "x = (key, d)" by (cases x)
    have "pblMapGet (tun_map (ktun ke)) key = Some d" using x by (simp add: e entries_mem)
    then obtain fd where "key = enc_u16 fd" using assms unfolding tun_keys_def by blast
    then have "enc_u16 (dec_u16 key) = key" by (simp add: tun_fd_key)
    then have get: "ksnTunMapGet k (dec_u16 key) = Some d" using x k by (simp add: ksnTunMapGet_def e entries_mem)
    let ?k = "emit [CloseFd (uint (dec_u16 key))] k"
    have "ksnTunMapGet ?k (dec_u16 key) = Some d" using get by (simp add: ksnTunMapGet_def)
    then have "send_only ?k (?f x k)" by (cases d) (simp add: e cmd_tun_disconnected_send_def)
    note s = this quits_send [OF this] l0_view_send [OF this] send_only_fields(24) [OF this]
    have "quits {CloseFd (uint (dec_u16 key))} k ?k" by (rule quits_emit) simp_all
    then have "quits {CloseFd (uint (dec_u16 key))} k (?f x k)" using s(2) by (rule quits_then(1))
    then show ?thesis using s k by (simp add: e)
  qed
  have f: "(ktun (fold ?f ?es ke) = ktun ke \<and> l0_view (fold ?f ?es ke) = l0_view ke) \<and>
      quits (\<Union>x\<in>set ?es. {CloseFd (uint (dec_u16 (fst x)))}) ke (fold ?f ?es ke)"
    by (rule quits_fold) (use one in blast)+
  have "(\<Union>x\<in>set ?es. {CloseFd (uint (dec_u16 (fst x)))}) = CloseFd ` set (tun_fds ke)"
    by (auto simp: tun_fds_def split_def)
  then show ?thesis using f by (simp add: ksnTunDestroy_def ksnTunMapFree_def) (simp add: quits_def upd_ktun_def)
qed

text \<open>The server's clients.\<close>

definition l0_known :: "ksnetEvMgr \<Rightarrow> (int \<Rightarrow> bool) \<times> (ksnCQueClass option \<times> int) option \<times> teoEnv" where
  "l0_known ke = ((\<lambda>fd. l0_client fd ke \<noteq> None), map_option (\<lambda>l. (l0_cque l, l0_fd l)) (kl ke), ke_env ke)"

lemma l0_known_send: "send_only ke ke' \<Longrightarrow> l0_known ke' = l0_known ke"
  by (auto simp: l0_known_def l0_client_def ksnLNullGetClientConnection_def send_only_def)

lemma l0_known_fields:
  "l0_known (emit acts ke) = l0_known ke" "l0_known (upd_kl (\<lambda>l. l\<lparr>l0_clients := n l\<rparr>) ke) = l0_known ke"
  "l0_known (upd_kl (\<lambda>l. l\<lparr>l0_map := pblMapStore (l0_map l) key f\<rparr>) ke) = l0_known ke"
  by (cases "kl ke"; auto simp: l0_known_def l0_client_def ksnLNullGetClientConnection_def upd_kl_def map_simps fun_eq_iff)+

lemma disconnect_quits:
  assumes "l0_client fd ke \<noteq> None"
  shows "quits (if fd < MAX_FD_NUMBER (ke_env ke) then {CloseFd fd} else {}) ke (ksnLNullClientDisconnect fd 0 ke)"
    and "l0_known (ksnLNullClientDisconnect fd 0 ke) = l0_known ke"
proof -
  obtain kld where c: "l0_client fd ke = Some kld" using assms by blast
  define ke1 where "ke1 = (if fd < MAX_FD_NUMBER (ke_env ke) then emit ([IoStop fd] @ [CloseFd fd]) ke else ke)"
  define ke2 where "ke2 = upd_kl (\<lambda>l. l\<lparr>l0_clients := l0_clients l - 1\<rparr>) ke1"
  define ke3 where "ke3 = (case l0_name kld of None \<Rightarrow> ke2
    | Some name \<Rightarrow> teoSScrSend EV_K_L0_DISCONNECTED
        (l0_event_json name (l0_t_addr kld) (case kl ke2 of None \<Rightarrow> 0 | Some l \<Rightarrow> l0_clients l)) 0 ke2)"
  have fin: "ksnLNullClientDisconnect fd 0 ke = upd_kl (\<lambda>l. l\<lparr>l0_map := pblMapStore (l0_map l) (fd_key fd)
      (\<lambda>d. d\<lparr>l0_name := None, l0_t_addr := None, l0_read_buffer := [], l0_crypt := NoCrypt\<rparr>)\<rparr>) ke3"
    by (simp add: ksnLNullClientDisconnect_def c Let_def ke3_def ke2_def ke1_def split: option.split)
  have s: "send_only ke2 ke3" by (simp add: ke3_def split: option.split)
  have "quits (if fd < MAX_FD_NUMBER (ke_env ke) then {CloseFd fd} else {}) ke ke1"
    by (simp add: ke1_def quits_emit quits_out)
  moreover have "quits {} ke1 ke2" by (simp add: ke2_def quits_out upd_kl_def)
  ultimately have "quits (if fd < MAX_FD_NUMBER (ke_env ke) then {CloseFd fd} else {}) ke ke2" by (rule quits_then(1))
  from quits_then(1) [OF this quits_send [OF s]]
  show "quits (if fd < MAX_FD_NUMBER (ke_env ke) then {CloseFd fd} else {}) ke (ksnLNullClientDisconnect fd 0 ke)"
    unfolding fin by (rule quits_then(1)) (simp add: quits_out upd_kl_def)
  show "l0_known (ksnLNullClientDisconnect fd 0 ke) = l0_known ke"
    unfolding fin by (simp add: l0_known_fields l0_known_send [OF s] ke2_def ke1_def)
qed

lemma l0_stop_quits:
  assumes "node_ok c out ke" and "snd c"
  shows "quits (CloseFd ` set (l0_fds ke)) ke (ksnLNullStop ke)"
proof (cases "\<exists>l. kl ke = Some l \<and> cfg_l0_allow_f ke \<and> l0_fd l \<noteq> 0")
  case False
  then show ?thesis by (auto simp: ksnLNullStop_def l0_fds_def quits_out split: option.splits)
next
  case True
  then obtain l where l: "kl ke = Some l" "cfg_l0_allow_f ke" "l0_fd l \<noteq> 0" by blast
  have fine: "l0_keys l" "l0_queue l" using node_ok_l0_keys [OF assms(1) l(1)] assms(2) by (simp_all add: l0_fine_def)
  let ?es = "rev (pblMapEntries (l0_map l))"
  let ?f = "\<lambda>(key, d :: ksnLNullData) ke. ksnLNullClientDisconnect (sint (dec_u32 key)) 0 ke"
  let ?X = "\<lambda>x. if sint (dec_u32 (fst x)) < MAX_FD_NUMBER (ke_env ke) then {CloseFd (sint (dec_u32 (fst x)))} else {}"
  have one: "l0_known (?f x k) = l0_known ke \<and> quits (?X x) k (?f x k)" if x: "x \<in> set ?es" and k: "l0_known k = l0_known ke" for x k
  proof -
    obtain key d where e: "x = (key, d)" by fastforce
    obtain fd where fd: "int32 fd" "key = fd_key fd" using fine(1) x by (auto simp: l0_keys_def e entries_mem)
    have "l0_client (sint (dec_u32 key)) ke \<noteq> None"
      using x l(1) by (simp add: l0_client_def ksnLNullGetClientConnection_def fd fd_key_dec e entries_mem flip: fd_key_def)
    then have "l0_client (sint (dec_u32 key)) k \<noteq> None" "ke_env k = ke_env ke" using k by (simp_all add: l0_known_def fun_eq_iff)
    from disconnect_quits [OF this(1)] this(2) show ?thesis
      using k by (cases "sint (dec_u32 key) < MAX_FD_NUMBER (ke_env ke)") (simp_all add: e)
  qed
  let ?k = "fold ?f ?es ke"
  have f: "l0_known ?k = l0_known ke \<and> quits (\<Union>x\<in>set ?es. ?X x) ke ?k"
    by (rule quits_fold) (use one in blast)+
  obtain l2 where l2: "kl ?k = Some l2" "l0_cque l2 = l0_cque l"
    using f l(1) by (cases "kl ?k") (auto simp: l0_known_def)
  obtain q where q: "l0_cque l = Some q" using fine(2) l(3) by (auto simp: l0_queue_def)
  have none: "quits {} ?k (ksnLNullStop ke)"
    using l l2 q by (auto simp: ksnLNullStop_def Let_def teoCqueStopAll_def quits_def upd_kl_def split: option.splits if_splits)
  have "CloseFd ` set (l0_fds ke) \<subseteq> (\<Union>x\<in>set ?es. ?X x)"
    using l by (auto simp: l0_fds_def split_def)
  then show ?thesis using quits_mono [OF quits_then(1) [OF conjunct2 [OF f] none]] by blast
qed

lemma before_core_quits:
  assumes "node_ok c out ke" and "snd c"
  shows "quits (CloseFd ` (set (tun_fds ke) \<union> set (l0_fds ke))) ke (fst (before_core (ke, kt)))"
proof -
  define t where "t = ksnTunDestroy ke"
  define q where "q = ksnCQueDestroy (ksnVpnDestroy t)"
  define s where "s = ksnStreamDestroy q"
  have keys: "tun_keys (ktun ke)" using assms by (simp add: node_ok_def stop_safe_def)
  have "quits {} t q" unfolding q_def using vpn_quits queue_quits quits_then(1) by blast
  then have "quits {} t s" unfolding s_def using streams_quits quits_then(1) by blast
  then have ts: "quits (CloseFd ` set (tun_fds ke)) ke s"
    using quits_then(1) conjunct1 [OF tun_quits [OF keys]] unfolding t_def by blast
  have "l0_view s = l0_view ke"
    unfolding s_def q_def t_def using streams_quits queue_quits vpn_quits tun_quits [OF keys] by simp
  then have fds: "l0_fds s = l0_fds ke" by (rule l0_view_fds)
  have "node_ok c out s" unfolding s_def q_def t_def by (intro node_keeps assms(1))
  from l0_stop_quits [OF this assms(2)] have stop: "quits (CloseFd ` set (l0_fds ke)) s (ksnLNullStop s)" by (simp add: fds)
  have "quits (CloseFd ` set (l0_fds ke)) s (fst (ksnLNullDestroy (s, kt)))"
  proof (cases "kl s")
    case None
    then have "l0_fds s = []" by (simp add: l0_fds_def)
    then show ?thesis using None by (simp add: ksnLNullDestroy_def quits_out flip: fds)
  next
    case (Some l)
    then show ?thesis using stop by (simp add: ksnLNullDestroy_def quits_def)
  qed
  then have "quits (CloseFd ` set (tun_fds ke) \<union> CloseFd ` set (l0_fds ke)) ke (fst (ksnLNullDestroy (s, kt)))"
    by (rule quits_trans [OF ts])
  then show ?thesis by (simp add: before_core_def s_def q_def t_def image_Un)
qed

text \<open>The goodbye: one packet to each peer.\<close>

definition goodbye :: "ksnetEvMgr \<Rightarrow> action list" where
  "goodbye ke =
     map (\<lambda>(key, arp). TrudpSendto CMD_DISCONNECTED (sent_packet ke CMD_DISCONNECTED []) (arp_addr arp) (arp_port arp))
       (filter (\<lambda>(key, arp). arp_mode arp \<ge> 0) (pblMapEntries (ka ke)))"

lemma iterate_disconnect:
  "ke_out (snd (arp_iterate (send_cmd_disconnect_cb None) False es ke)) = ke_out ke @
     map (\<lambda>(key, arp). TrudpSendto CMD_DISCONNECTED (sent_packet ke CMD_DISCONNECTED []) (arp_addr arp) (arp_port arp))
       (filter (\<lambda>(key, arp). arp_mode arp \<ge> 0) es)"
proof (induction es arbitrary: ke)
  case (Cons e es)
  obtain key arp where e: "e = (key, arp)" by fastforce
  let ?k = "snd (ksnCoreSendto (arp_addr arp) (arp_port arp) CMD_DISCONNECTED [] ke)"
  have "sent_packet ?k CMD_DISCONNECTED [] = sent_packet ke CMD_DISCONNECTED []" by (rule sent_packet_fields) simp_all
  then show ?case using Cons.IH [of ?k] Cons.IH [of ke]
    by (simp add: e send_cmd_disconnect_cb_def sendto_short_out)
qed simp

lemma goodbye_cong:
  assumes "ka ke' = ka ke" and "node_cfg ke' = node_cfg ke"
  shows "goodbye ke' = goodbye ke"
  using assms sent_packet_fields [of ke' ke CMD_DISCONNECTED "[]"] by (simp add: goodbye_def node_cfg_def)

lemma core_destroy_sends: "\<exists>acts. ke_out (ksnCoreDestroy_sends ke) = ke_out ke @ acts @ goodbye ke \<and> Fault \<notin> set acts"
proof -
  define k where "k = snd (ksnetArpGetAll ke send_cmd_disconnect_peer_cb ke)"
  have peer: "send_only k (snd (send_cmd_disconnect_peer_cb name arp k))" for name arp k
    by (simp add: send_cmd_disconnect_peer_cb_def)
  have so: "send_only ke k" unfolding k_def by (rule send_only_getAll [OF peer])
  obtain acts where "ke_out k = ke_out ke @ acts" "Fault \<notin> set acts" using quits_send [OF so] unfolding quits_def by blast
  moreover have "goodbye k = goodbye ke"
    by (rule goodbye_cong) (simp_all add: node_cfg_def send_only_fields [OF so])
  moreover have "ke_out (ksnCoreDestroy_sends ke) = ke_out k @ goodbye k"
    unfolding ksnCoreDestroy_sends_def Let_def k_def [symmetric]
    by (simp add: ksnetArpGetAll_def ksnetArpGetAllFlag_def iterate_disconnect goodbye_def)
  ultimately show ?thesis by (simp add: exI [of _ acts])
qed

section \<open>A node that has been started\<close>

lemma core_init_facts:
  assumes "ksnCoreInit a ke = (b, ke1)" and "0 \<notin> set (cfg_host_name ke)"
  shows "arp_wf ke1" "ksscr_map ke1 = pblMapNewHashMap" "cfg_host_name ke1 = cfg_host_name ke"
proof -
  let ?ke1 = "ke\<lparr>kc_name := cfg_host_name ke, kc_port := st_port a, kc_last_check_event := 0\<rparr>"
  have host: "cfg_host_name (ksnetArpInit ?ke1) = cfg_host_name ke"
    by (simp add: ksnetArpInit_def ksnetArpAddHost_def ksnetArpAdd_def)
  have "arp_wf (?ke1\<lparr>ka := pblMapNewHashMap\<rparr>)" by (simp add: arp_wf_def map_simps)
  then have wf: "arp_wf (ksnetArpInit ?ke1)"
    unfolding ksnetArpInit_def ksnetArpAddHost_def by (rule arp_wf_add) (use assms(2) in simp)
  have upd: "arp_wf (ksnCommandInit k) = arp_wf k" "arp_wf (k\<lparr>kcr := c\<rparr>) = arp_wf k"
    "arp_wf (k\<lparr>kc_port := p, ke_channels := ch\<rparr>) = arp_wf k" for k c p ch
    by (simp_all add: arp_wf_def ksnCommandInit_def)
  have port: "arp_wf (snd (ksnetArpSetHostPort n p k))" if "arp_wf k" for n p k
    using that by (simp add: ksnetArpSetHostPort_def arp_wf_store split: option.split)
  have port_fields: "ksscr_map (snd (ksnetArpSetHostPort n p k)) = ksscr_map k" "cfg_host_name (snd (ksnetArpSetHostPort n p k)) = cfg_host_name k"
    for n p k by (simp_all add: ksnetArpSetHostPort_def arp_store_def split: option.split)
  let ?ke2 = "(ksnCommandInit (ksnetArpInit ?ke1))\<lparr>kcr := ksnCryptInit (st_net_key a) (st_network a)\<rparr>"
  have ke2: "arp_wf (?ke2\<lparr>kc_port := p, ke_channels := ch\<rparr>)" "arp_wf ?ke2" for p ch using wf by (simp_all only: upd)
  show "arp_wf ke1" "ksscr_map ke1 = pblMapNewHashMap" "cfg_host_name ke1 = cfg_host_name ke"
    using assms(1) ke2(2) port [OF ke2(1)] host
    by (auto simp: ksnCoreInit_def Let_def port_fields ksnCommandInit_def split: if_splits)
qed

lemma l0_init_facts:
  assumes "ksnLNullInit a (ke, kt) = (ke1, kt1)"
  shows "ka ke1 = ka ke" "ks_map ke1 = ks_map ke" "ksscr_map ke1 = ksscr_map ke" "kq ke1 = kq ke"
    "cfg_host_name ke1 = cfg_host_name ke" "ke_km ke1 = ke_km ke" "kl ke1 = Some l \<Longrightarrow> l0_map l = pblMapNewHashMap"
    and "\<not> cfg_l0_allow_f ke \<or> fst (ksnTcpServerCreate (st_sock a) (st_listens a) (cfg_l0_tcp_port ke) kt) > 0 \<or> st_junk a = 0 \<Longrightarrow>
         kl ke1 = Some l \<Longrightarrow> l0_queue l"
  using assms by (auto simp: ksnLNullInit_def ksnLNullStart_def l0_queue_def Let_def split: if_splits option.splits prod.splits)

lemma core_init_cfg:
  assumes "ksnCoreInit a ke = (b, ke1)"
  shows "cfg_l0_allow_f ke1 = cfg_l0_allow_f ke" "cfg_l0_tcp_port ke1 = cfg_l0_tcp_port ke"
  using assms by (auto simp: ksnCoreInit_def Let_def ksnCommandInit_def ksnetArpInit_def ksnetArpAddHost_def ksnetArpAdd_def
      ksnetArpSetHostPort_def arp_store_def split: if_splits option.splits)

lemma l0_init_tcp:
  assumes "ksnLNullInit a (ke, ksnTcpInit) = (ke1, kt1)" and "\<And>port sd. st_sock a port = Bound sd \<Longrightarrow> int32 sd"
  shows "tcp_step\<^sup>*\<^sup>* ksnTcpInit kt1"
proof -
  have "tcp_step ksnTcpInit (snd (snd (ksnTcpServerCreate (st_sock a) (st_listens a) port ksnTcpInit)))" for port
    by (rule tcp_step.create) (simp add: assms(2) tcp_descriptors_def ksnTcpInit_def entries_new)
  then have "tcp_step\<^sup>*\<^sup>* ksnTcpInit (snd (snd (ksnTcpServerCreate (st_sock a) (st_listens a) port ksnTcpInit)))" for port
    by (rule r_into_rtranclp)
  moreover have "kt1 = ksnTcpInit \<or>
      (\<exists>port. kt1 = snd (snd (ksnTcpServerCreate (st_sock a) (st_listens a) port ksnTcpInit)))"
    using assms(1) by (auto simp: ksnLNullInit_def ksnLNullStart_def split: if_splits prod.splits) (metis snd_conv)+
  ultimately show ?thesis by auto
qed

text \<open>
  The client server is off, or it can be made, or the memory of its class happens to be zero where its
  descriptor is read.
\<close>

definition l0_can_start :: "startArgs \<Rightarrow> ksnetEvMgr \<Rightarrow> bool" where
  "l0_can_start a ke \<longleftrightarrow> \<not> cfg_l0_allow_f ke \<or>
     fst (ksnTcpServerCreate (st_sock a) (st_listens a) (cfg_l0_tcp_port ke) ksnTcpInit) > 0 \<or> st_junk a = 0"

lemma run_start_ok:
  assumes "run_start a (ke, kt) = (True, ke1, kt1)" and "0 \<notin> set (cfg_host_name ke)"
    and "\<And>port sd. st_sock a port = Bound sd \<Longrightarrow> int32 sd" and "l0_can_start a ke"
  shows "node_ok (node_cfg ke1, True) [] ke1" "tcp_step\<^sup>*\<^sup>* ksnTcpInit kt1" "ke_run ke1" "ke_async_queue ke1 = []"
proof -
  let ?ke0 = "ke\<lparr>ke_timer_val := 0, ke_idle_count := 0, ke_idle_activity_count := 0\<rparr>"
  obtain k where core: "ksnCoreInit a ?ke0 = (True, k)"
    using assms(1) by (auto simp: run_start_def modules_init_def split: prod.splits bool.splits)
  have host: "0 \<notin> set (cfg_host_name ?ke0)" using assms(2) by simp
  note k = core_init_facts [OF core host]
  let ?v = "ksnVpnInit a (k\<lparr>kq := ksnCQueInit False, ks_map := pblMapNewHashMap\<rparr>)"
  obtain l kt' where l0: "ksnLNullInit a (?v, ksnTcpInit) = (l, kt')" by fastforce
  note l = l0_init_facts [OF l0]
  have v: "ka ?v = ka k" "ks_map ?v = pblMapNewHashMap" "ksscr_map ?v = pblMapNewHashMap" "kq ?v = ksnCQueInit False"
    "cfg_host_name ?v = cfg_host_name k" "cfg_l0_allow_f ?v = cfg_l0_allow_f ke" "cfg_l0_tcp_port ?v = cfg_l0_tcp_port ke"
    by (simp_all add: ksnVpnInit_def k emit_def core_init_cfg [OF core])
  have ke1: "ke1 = emit (run_watchers a) (l\<lparr>ktun := \<lparr>tun_list = pblMapNewHashMap, tun_map = pblMapNewHashMap\<rparr>,
      ke_async_queue := [], ke_run := True\<rparr>)" "kt1 = kt'"
    using assms(1) core l0 by (simp_all add: run_start_def modules_init_def Let_def)
  have "arp_wf ke1" using k(1) by (simp add: ke1 arp_wf_def l v)
  moreover have "stream_wf ke1" "sscr_wf ke1" "cque_wf (kq ke1)" "\<And>x. kl ke1 = Some x \<Longrightarrow> l0_keys x"
    by (auto simp: ke1 stream_wf_def sscr_wf_def sscr_get_def l v map_simps cque_wf_init l0_keys_def)
  moreover have "stop_safe ke1"
    using l(8) assms(4) by (auto simp: stop_safe_def tun_keys_def ke1 map_simps v l0_can_start_def)
  ultimately show "node_ok (node_cfg ke1, True) [] ke1"
    using k(3) host by (simp add: node_ok_def node_tables_def) (simp add: ke1 l v)
  show "tcp_step\<^sup>*\<^sup>* ksnTcpInit kt1" unfolding ke1 by (rule l0_init_tcp [OF l0 assms(3)])
  show "ke_run ke1" "ke_async_queue ke1 = []" by (simp_all add: ke1 emit_def)
qed

section \<open>A node's whole life\<close>

lemma node_ok_prefix: "node_ok c out ke \<Longrightarrow> prefix out (ke_out ke)" and node_ok_cfg: "node_ok c out ke \<Longrightarrow> node_cfg ke = fst c"
  by (simp_all add: node_ok_def)

lemma node_ok_self: "node_ok c out ke \<Longrightarrow> node_ok c (ke_out ke) ke"
  by (simp add: node_ok_def)

lemma before_core_tcp:
  assumes "tcp_ok kt"
  shows "tcp_ok (snd (before_core (ke, kt)))"
  using tcp_ok_stop [OF assms] assms by (simp add: before_core_def ksnLNullDestroy_def split: option.split)

definition tables_empty :: "ksnetEvMgr \<Rightarrow> bool" where
  "tables_empty ke \<longleftrightarrow> pblMapIsEmpty (ka ke) \<and> pblMapIsEmpty (ks_map ke) \<and> pblMapIsEmpty (ksscr_map ke) \<and>
     pblMapIsEmpty (kr_map ke) \<and> pblMapIsEmpty (split_map (kco_ks ke)) \<and> pblMapIsEmpty (cque_map (kq ke)) \<and>
     pblMapIsEmpty (tun_list (ktun ke)) \<and> pblMapIsEmpty (tun_map (ktun ke)) \<and> kl ke = None \<and> kvpn ke = None \<and>
     ke_async_queue ke = []"

lemma core_destroy:
  assumes "kl ke = None" "kvpn ke = None" "pblMapIsEmpty (ks_map ke)" "pblMapIsEmpty (cque_map (kq ke))"
    "ktun ke = \<lparr>tun_list = pblMapNewHashMap, tun_map = pblMapNewHashMap\<rparr>" "ke_async_queue ke = []"
  shows "tables_empty (ksnCoreDestroy a ke)"
    and "\<exists>acts. ke_out (ksnCoreDestroy a ke) = ke_out ke @ acts @ goodbye ke @
           [IoStop (fst (st_udp a)), CloseFd (fst (st_udp a)), TrudpChannelDestroyAll] \<and> Fault \<notin> set acts"
proof -
  have so: "send_only ke (ksnCoreDestroy_sends ke)"
  proof -
    have peer: "send_only k (snd (send_cmd_disconnect_peer_cb name arp k))" for name arp k
      by (simp add: send_cmd_disconnect_peer_cb_def)
    have "send_only ke (snd (ksnetArpGetAll ke send_cmd_disconnect_peer_cb ke))" by (rule send_only_getAll [OF peer])
    moreover have "send_only k (snd (ksnetArpGetAll k (send_cmd_disconnect_cb None) k))" for k by simp
    ultimately show ?thesis unfolding ksnCoreDestroy_sends_def Let_def by (rule send_only_trans)
  qed
  have new: "pblMapIsEmpty pblMapNewHashMap" by (simp add: map_simps)
  show "tables_empty (ksnCoreDestroy a ke)"
    using assms by (simp add: tables_empty_def ksnCoreDestroy_def channel_destroy_all_def emit_def new ksnSplitInit_def
        send_only_fields [OF so])
  obtain acts where "ke_out (ksnCoreDestroy_sends ke) = ke_out ke @ acts @ goodbye ke" "Fault \<notin> set acts"
    using core_destroy_sends by blast
  then show "\<exists>acts. ke_out (ksnCoreDestroy a ke) = ke_out ke @ acts @ goodbye ke @
           [IoStop (fst (st_udp a)), CloseFd (fst (st_udp a)), TrudpChannelDestroyAll] \<and> Fault \<notin> set acts"
    by (intro exI [of _ acts]) (simp add: ksnCoreDestroy_def channel_destroy_all_def emit_def)
qed

text \<open>Freeing everything: what it leaves and what it does last.\<close>

lemma free_all:
  assumes ok: "node_ok c out ke" and safe: "snd c" and tcp: "tcp_ok kt" and queue: "ke_async_queue ke = []"
  obtains ke' kt' acts post where "ksnetEvMgrFree a True 0 (ke, kt) = Some (ke', kt')" "tables_empty ke'"
    "pblMapIsEmpty (kt_map kt')"
    "ke_out ke' = ke_out ke @ (if ke_event_cb ke then [EventCb EV_K_STOPPED_BEFORE EvNone] else []) @ acts @ goodbye ke @
       [IoStop (fst (st_udp a)), CloseFd (fst (st_udp a)), TrudpChannelDestroyAll] @ post"
    "set post \<subseteq> {LoopDestroy, EventCb EV_K_STOPPED EvNone}" "ke_event_cb ke' \<Longrightarrow> EventCb EV_K_STOPPED EvNone \<in> set post"
    "CloseFd ` (set (tun_fds ke) \<union> set (l0_fds ke)) \<subseteq> set acts" "Fault \<notin> set acts"
proof -
  let ?e = "event_cb EV_K_STOPPED_BEFORE EvNone ke"
  let ?ke1 = "emit [WatcherStop ''sig_async_w'', WatcherStop ''timer_w''] ?e"
  have ok1: "node_ok c (ke_out ?e) ?ke1"
    by (rule node_ok_emit [OF node_ok_self [OF node_ok_event [OF ok]]])
  obtain k t where k: "before_core (?ke1, kt) = (k, t)" by fastforce
  have okk: "node_ok c (ke_out ?e) k" using before_core_ok [OF ok1, of kt] k by simp
  note f = before_core_fields [of ?ke1 kt, unfolded k fst_conv]
  obtain kt' fds where t': "ksnTcpServerStopAll t = Some kt'" "pblMapIsEmpty (kt_map kt')"
    using stop_all_ok [OF before_core_tcp [OF tcp, of ?ke1, unfolded k snd_conv]] by blast
  have new: "pblMapIsEmpty pblMapNewHashMap" by (simp add: map_simps)
  have e: "tables_empty (ksnCoreDestroy a k)"
    by (rule core_destroy(1)) (simp_all add: f queue new)
  obtain acts where acts: "ke_out (ksnCoreDestroy a k) = ke_out k @ acts @ goodbye k @
      [IoStop (fst (st_udp a)), CloseFd (fst (st_udp a)), TrudpChannelDestroyAll]" "Fault \<notin> set acts"
    using core_destroy(2) [of k a] f queue new by auto
  have same: "tun_fds ?ke1 = tun_fds ke" "l0_fds ?ke1 = l0_fds ke"
    by (simp_all add: tun_fds_def l0_view_fds [of ?ke1 ke])
  obtain rest where rest: "ke_out k = ke_out ?e @ rest" "CloseFd ` (set (tun_fds ke) \<union> set (l0_fds ke)) \<subseteq> set rest" "Fault \<notin> set rest"
  proof -
    from before_core_quits [OF ok1 safe, of kt] obtain r where "ke_out k = ke_out ?ke1 @ r"
      "CloseFd ` (set (tun_fds ke) \<union> set (l0_fds ke)) \<subseteq> set r" "Fault \<notin> set r"
      unfolding k fst_conv quits_def same by blast
    then show thesis by (intro that [of "[WatcherStop ''sig_async_w'', WatcherStop ''timer_w''] @ r"]) auto
  qed
  have bye: "goodbye k = goodbye ke"
    by (rule goodbye_cong) (use f(1) node_ok_cfg [OF okk] node_ok_cfg [OF ok] in \<open>simp_all add: event_cb_def\<close>)
  let ?k4 = "if \<not> ke_km (ksnCoreDestroy a k) \<or> st_net_idx a = 0 then emit [LoopDestroy] (ksnCoreDestroy a k) else ksnCoreDestroy a k"
  let ?ke' = "event_cb EV_K_STOPPED EvNone ?k4"
  have free: "ksnetEvMgrFree a True 0 (ke, kt) = Some (?ke', kt')"
    using k t'(1) by (simp add: ksnetEvMgrFree_def modules_destroy_def ksnTcpDestroy_def Let_def flip: before_core_def
        split: prod.splits) (simp add: before_core_def)
  define post where "post = (if \<not> ke_km (ksnCoreDestroy a k) \<or> st_net_idx a = 0 then [LoopDestroy] else []) @
      (if ke_event_cb ?k4 then [EventCb EV_K_STOPPED EvNone] else [])"
  have te: "tables_empty ?ke'" using e by (simp add: tables_empty_def event_cb_def emit_def)
  have out: "ke_out ?ke' = ke_out ke @ (if ke_event_cb ke then [EventCb EV_K_STOPPED_BEFORE EvNone] else []) @ (rest @ acts) @
      goodbye ke @ [IoStop (fst (st_udp a)), CloseFd (fst (st_udp a)), TrudpChannelDestroyAll] @ post"
    by (simp add: post_def event_cb_def emit_def acts(1) rest(1) bye)
  show thesis
  proof (rule that [OF free te t'(2) out])
    show "set post \<subseteq> {LoopDestroy, EventCb EV_K_STOPPED EvNone}" by (auto simp: post_def)
    show "EventCb EV_K_STOPPED EvNone \<in> set post" if "ke_event_cb ?ke'"
      using that by (simp add: post_def event_cb_def emit_def split: if_splits)
    show "CloseFd ` (set (tun_fds ke) \<union> set (l0_fds ke)) \<subseteq> set (rest @ acts)" "Fault \<notin> set (rest @ acts)"
      using rest acts by auto
  qed
qed

lemma run_loop:
  assumes "run_start a (ke, kt) = (True, s)" and "0 \<notin> set (cfg_host_name ke)" and "\<And>port sd. st_sock a port = Bound sd \<Longrightarrow> int32 sd"
    and "node_step\<^sup>*\<^sup>* (fst s) ke2" and "tcp_step\<^sup>*\<^sup>* (snd s) kt2" and "l0_can_start a ke"
  shows "node_ok (node_cfg (fst s), True) [] ke2" "tcp_ok kt2"
proof -
  have s: "run_start a (ke, kt) = (True, fst s, snd s)" using assms(1) by simp
  show "node_ok (node_cfg (fst s), True) [] ke2" by (rule node_ok_steps [OF assms(4) run_start_ok(1) [OF s assms(2,3,6)]])
  show "tcp_ok kt2"
    by (rule tcp_ok_reachable) (rule rtranclp_trans [OF run_start_ok(2) [OF s assms(2,3,6)] assms(5)])
qed


text \<open>When the UDP socket cannot be bound the program ends in an access through a null pointer.\<close>

theorem bind_fault:
  assumes "fst (st_udp a) \<le> 0"
  shows "\<exists>ke' kt'. ksnetEvMgrRun loop a (ke, kt) = Some (ke', kt') \<and> Fault \<in> set (ke_out ke')"
  using assms by (auto simp: ksnetEvMgrRun_def run_start_def modules_init_def ksnCoreInit_def Let_def ksnetEvMgrFree_def
      modules_destroy_def emit_def)

lemma run_start_True:
  assumes "fst (st_udp a) > 0"
  shows "run_start a (ke, kt) = (True, snd (run_start a (ke, kt)))"
  using assms by (simp add: run_start_def modules_init_def ksnCoreInit_def Let_def split: prod.split bool.split)

text \<open>A node that has an L0 server and whose loop runs the timer once.\<close>

definition example_start :: startArgs where
  "example_start = \<lparr>st_net_idx = 0, st_port = 9000, st_net_key = [], st_network = [], st_udp = (3, 9001), st_vpn = (False, 0),
     st_junk = 0, st_sock = sock_example, st_listens = (\<lambda>sd. True), st_ev_loop = False\<rparr>"

definition example_loop :: "nodeState \<Rightarrow> nodeState" where
  "example_loop = (\<lambda>(ke, kt). (timer_cb ke, kt))"


text \<open>
  When the client server cannot be made and the memory that was not written is not zero, stopping it
  follows the pointer to its queue, which was not written either.
\<close>

theorem l0_stop_fault:
  assumes "cfg_l0_allow_f ke" and "st_junk a \<noteq> 0"
    and "fst (ksnTcpServerCreate (st_sock a) (st_listens a) (cfg_l0_tcp_port ke) kt) \<le> 0"
  shows "Fault \<in> set (ke_out (fst (ksnLNullDestroy (ksnLNullInit a (ke, kt)))))"
proof -
  obtain fd p kt1 where c: "ksnTcpServerCreate (st_sock a) (st_listens a) (cfg_l0_tcp_port ke) kt = (fd, p, kt1)" by (metis prod_cases3)
  then have "fd \<le> 0" using assms(3) by simp
  then show ?thesis
    using assms(1,2) c
    by (simp add: ksnLNullInit_def ksnLNullStart_def ksnLNullDestroy_def ksnLNullStop_def map_simps upd_kl_def Let_def entries_new)
qed

theorem l0_stop_fault_witness:
  "Fault \<in> set (ke_out (fst (ksnLNullDestroy (ksnLNullInit (example_start\<lparr>st_junk := 7, st_listens := (\<lambda>sd. False)\<rparr>)
     ((exampleNode [97])\<lparr>cfg_l0_allow_f := True\<rparr>, ksnTcpInit)))))"
  by (rule l0_stop_fault)
    (simp_all add: example_start_def exampleNode_def sock_example_def ksnTcpServerCreate_def ksnTcpServerStart_def Let_def
      split: prod.split)

theorem bind_fault_witness:
  "\<exists>ke' kt'. ksnetEvMgrRun (\<lambda>s. s) (example_start\<lparr>st_udp := (-1, 9000)\<rparr>) (exampleNode [97], ksnTcpInit) = Some (ke', kt') \<and>
     Fault \<in> set (ke_out ke')"
  by (rule bind_fault) (simp add: example_start_def)

end
