(* ===== verification/NetMulti.thy ===== *)
theory NetMulti
  imports Lifecycle
begin

text \<open>
  Several networks in one program (net_multi.c). The list of networks maps a network's name to a pointer
  to its node; the nodes live in a store, \<open>km_heap\<close>, where a freed node is None, so that a pointer that
  outlives its node shows. Reading a freed node or a null pointer is the output \<open>Fault\<close>. The counters
  have the width of \<open>size_t\<close>.
\<close>

section \<open>State\<close>

type_synonym u64 = "64 word"

text \<open>A node with what it was started with, its number, and the count of networks it knows.\<close>

record ksnetNet =
  net_state :: nodeState
  net_args :: startArgs
  net_idx :: u64
  net_count :: u64

record ksnMultiClass =
  km_list :: "nat PblMap"
  km_net_count :: u64
  last_net_idx :: u64
  km_heap :: "nat \<Rightarrow> ksnetNet option"
  km_next :: nat
  km_out :: "action list"

definition km_emit :: "action list \<Rightarrow> ksnMultiClass \<Rightarrow> ksnMultiClass" where
  "km_emit acts km = km\<lparr>km_out := km_out km @ acts\<rparr>"

definition net_update :: "nat \<Rightarrow> (ksnetNet \<Rightarrow> ksnetNet) \<Rightarrow> ksnMultiClass \<Rightarrow> ksnMultiClass" where
  "net_update p f km = km\<lparr>km_heap := (km_heap km)(p := map_option f (km_heap km p))\<rparr>"

section \<open>Looking networks up\<close>

text \<open>None: a freed node was read; \<open>Some None\<close>: the null pointer.\<close>

fun find_number :: "(nat \<Rightarrow> ksnetNet option) \<Rightarrow> u64 \<Rightarrow> (bytes \<times> nat) list \<Rightarrow> nat option option" where
  "find_number heap number [] = Some None"
| "find_number heap number ((key, p) # es) =
     (case heap p of
        None \<Rightarrow> None
      | Some n \<Rightarrow> if net_idx n = number then Some (Some p) else find_number heap number es)"

text \<open>The number is an int, compared with a \<open>size_t\<close>.\<close>

definition teoMultiGetByNumber :: "ksnMultiClass \<Rightarrow> int \<Rightarrow> nat option option" where
  "teoMultiGetByNumber km number = find_number (km_heap km) (of_int number) (pblMapEntries (km_list km))"

definition teoMultiIsNetworkExist :: "ksnMultiClass \<Rightarrow> int \<Rightarrow> bool option" where
  "teoMultiIsNetworkExist km number =
     map_option (\<lambda>p. p \<noteq> None) (find_number (km_heap km) (of_int number) (pblMapEntries (km_list km)))"

definition teoMultiGetByNetwork :: "ksnMultiClass \<Rightarrow> bytes \<Rightarrow> nat option" where
  "teoMultiGetByNetwork km network_name = pblMapGet (km_list km) (strz network_name)"

text \<open>A \<open>size_t\<close> passed as an int.\<close>

definition as_int :: "u64 \<Rightarrow> int" where "as_int n = sint (ucast n :: u32)"

section \<open>Counts and numbers\<close>

text \<open>A change of every node of the list; \<open>f\<close> gets the position in the list.\<close>

fun each_net :: "(nat \<Rightarrow> ksnetNet \<Rightarrow> ksnetNet) \<Rightarrow> nat \<Rightarrow> (bytes \<times> nat) list \<Rightarrow> ksnMultiClass \<Rightarrow> ksnMultiClass" where
  "each_net f i [] km = km"
| "each_net f i ((key, p) # es) km =
     (if km_heap km p = None then km_emit [Fault] km else each_net f (i + 1) es (net_update p (f i) km))"

definition ksnMultiUpdateCountNetworks :: "u64 \<Rightarrow> ksnMultiClass \<Rightarrow> ksnMultiClass" where
  "ksnMultiUpdateCountNetworks num km =
     each_net (\<lambda>i n. n\<lparr>net_count := num\<rparr>) 0 (pblMapEntries (km_list km)) (km\<lparr>km_net_count := num\<rparr>)"

definition ksnMultiSetNumNets :: "u64 \<Rightarrow> ksnMultiClass \<Rightarrow> ksnMultiClass" where
  "ksnMultiSetNumNets num km =
     each_net (\<lambda>i n. n\<lparr>net_idx := of_nat i, net_count := num\<rparr>) 0 (pblMapEntries (km_list km)) (km\<lparr>km_net_count := num\<rparr>)"

section \<open>Starting networks\<close>

text \<open>
  \<open>conf host port network\<close> is the node that ksnetEvMgrInitPort makes and the configuration files complete,
  with what it is started with. A node is entered under its network's name before it is started; with
  the multi module the start returns before the event loop.
\<close>

type_synonym netConf = "bytes \<Rightarrow> int \<Rightarrow> bytes \<Rightarrow> ksnetEvMgr \<times> startArgs"

text \<open>
  The name is copied with strncpy over the one in the configuration, which has 128 bytes; at most
  \<open>place\<close> bytes are written, which depends on the length of the old name. A name that fills its
  place gets no zero of its own: what the old name has behind the place stays. A name that fills all
  the 128 bytes has no end, and taking its length reads on behind them.
\<close>

definition net_name :: "(bytes \<Rightarrow> nat) \<Rightarrow> startArgs \<Rightarrow> bytes \<Rightarrow> bytes" where
  "net_name place a network =
     (let n = place (st_network a)
      in if length network < n then network else take n network @ drop n (st_network a))"

definition net_start ::
  "netConf \<Rightarrow> (bytes \<Rightarrow> nat) \<Rightarrow> bytes \<Rightarrow> int \<Rightarrow> bytes \<Rightarrow> u64 \<Rightarrow> u64 \<Rightarrow> ksnMultiClass \<Rightarrow> ksnMultiClass" where
  "net_start conf place host port network idx num km =
     (case conf host port network of
        (ke, a) \<Rightarrow>
          let a1 = a\<lparr>st_net_idx := unat idx, st_network := net_name place a network\<rparr>;
              p = km_next km;
              km1 = km\<lparr>km_list := pblMapAddTo (km_list km) (strz (st_network a1)) p, km_next := p + 1\<rparr>
          in if length (st_network a1) \<ge> 128 then km_emit [Fault] km
             else (case ksnetEvMgrRun (\<lambda>s. s) a1 (ke\<lparr>ke_km := True\<rparr>, ksnTcpInit) of
                None \<Rightarrow> km_emit [Diverge] km1
              | Some s \<Rightarrow>
                  km1\<lparr>km_heap := (km_heap km1)(p \<mapsto> \<lparr>net_state = s, net_args = a1, net_idx = idx, net_count = num\<rparr>)\<rparr>))"

fun multi_init_loop :: "netConf \<Rightarrow> u64 \<Rightarrow> nat \<Rightarrow> (int \<times> bytes \<times> bytes) list \<Rightarrow> ksnMultiClass \<Rightarrow> ksnMultiClass" where
  "multi_init_loop conf num i [] km = km"
| "multi_init_loop conf num i ((port, name, network) # md) km =
     multi_init_loop conf num (i + 1) md
       (net_start conf (\<lambda>name0. 128 - length name0) name port network (of_nat i) num km)"

definition ksnMultiInit :: "netConf \<Rightarrow> (int \<times> bytes \<times> bytes) list \<Rightarrow> ksnMultiClass" where
  "ksnMultiInit conf md =
     (let num = of_nat (length md) :: u64
      in multi_init_loop conf num 0 md
           \<lparr>km_list = pblMapNewHashMap, km_net_count = num, last_net_idx = num - 1, km_heap = (\<lambda>p. None),
            km_next = 1, km_out = []\<rparr>)"

text \<open>The last network is used without a test: for its port, and for the program's arguments.\<close>

definition teoMultiAddNet :: "netConf \<Rightarrow> bytes \<Rightarrow> int \<Rightarrow> bytes \<Rightarrow> ksnMultiClass \<Rightarrow> ksnMultiClass" where
  "teoMultiAddNet conf host port network km =
     (case teoMultiGetByNumber km (as_int (last_net_idx km)) of
        None \<Rightarrow> km_emit [Fault] km
      | Some ke_last \<Rightarrow>
          let km1 = ksnMultiUpdateCountNetworks (km_net_count km + 1) km;
              km2 = km1\<lparr>last_net_idx := last_net_idx km1 + 1\<rparr>
          in (case Option.bind ke_last (km_heap km2) of
                None \<Rightarrow> km_emit [Fault] km2
              | Some n \<Rightarrow>
                  let port1 = (if port = 0 then st_port (net_args n) + 2 else port)
                  in net_start conf (\<lambda>name0. 127) host port1 network (last_net_idx km2) (km_net_count km2) km2))"

text \<open>\<open>teoMultiRun\<close> runs the loop of the last network.\<close>

definition teoMultiRun :: "ksnMultiClass \<Rightarrow> ksnMultiClass" where
  "teoMultiRun km =
     (case teoMultiGetByNumber km (as_int (last_net_idx km)) of
        Some (Some p) \<Rightarrow> km
      | _ \<Rightarrow> km_emit [Fault] km)"

section \<open>Stopping networks\<close>

text \<open>\<open>ksnetEvMgrStop\<close> and \<open>ksnetEvMgrFree\<close> with 2.\<close>

definition net_free :: "ksnetNet \<Rightarrow> nodeState option" where
  "net_free n =
     (case net_state n of
        (ke, kt) \<Rightarrow> ksnetEvMgrFree ((net_args n)\<lparr>st_net_idx := unat (net_idx n)\<rparr>) True 2 (ksnetEvMgrStop ke, kt))"

text \<open>The node is freed; what it did on its way out joins the effects.\<close>

definition net_stop :: "nat \<Rightarrow> ksnMultiClass \<Rightarrow> ksnMultiClass" where
  "net_stop p km =
     (case km_heap km p of
        None \<Rightarrow> km_emit [Fault] km
      | Some n \<Rightarrow>
          (case net_free n of
             None \<Rightarrow> km_emit [Diverge] km
           | Some (ke, kt) \<Rightarrow> km_emit (ke_out ke) (km\<lparr>km_heap := (km_heap km)(p := None)\<rparr>)))"

definition teoMultiRemoveNet :: "bytes \<Rightarrow> ksnMultiClass \<Rightarrow> ksnMultiClass" where
  "teoMultiRemoveNet network km =
     (case pblMapRemove (km_list km) (strz network) of
        (None, m) \<Rightarrow> km
      | (Some p, m) \<Rightarrow> ksnMultiUpdateCountNetworks (km_net_count km - 1) (net_stop p (km\<lparr>km_list := m\<rparr>)))"

text \<open>From the last number down to 0. The freed nodes stay in the list that is searched.\<close>

fun multi_destroy_loop :: "nat \<Rightarrow> ksnMultiClass \<Rightarrow> ksnMultiClass" where
  "multi_destroy_loop cnt km =
     (case teoMultiGetByNumber km (int cnt) of
        None \<Rightarrow> km_emit [Fault] km
      | Some r \<Rightarrow>
          let km1 = (case r of None \<Rightarrow> km | Some p \<Rightarrow> net_stop p km)
          in (case cnt of 0 \<Rightarrow> km1 | Suc c \<Rightarrow> multi_destroy_loop c km1))"

declare multi_destroy_loop.simps [simp del]

definition ksnMultiDestroy :: "ksnMultiClass \<Rightarrow> ksnMultiClass" where
  "ksnMultiDestroy km =
     (let last = as_int (last_net_idx km)
      in if last < 0 then km else multi_destroy_loop (nat last) km)"

section \<open>Sending\<close>

definition teoMultiSendCmdToNet :: "bytes \<Rightarrow> bytes \<Rightarrow> u8 \<Rightarrow> bytes \<Rightarrow> ksnMultiClass \<Rightarrow> bytes option \<times> ksnMultiClass" where
  "teoMultiSendCmdToNet peer network cmd data km =
     (case pblMapGet (km_list km) (strz network) of
        None \<Rightarrow> (None, km)
      | Some p \<Rightarrow>
          (case km_heap km p of
             None \<Rightarrow> (None, km_emit [Fault] km)
           | Some n \<Rightarrow>
               (fst (ksnCoreSendCmdto peer cmd data (fst (net_state n))),
                net_update p (\<lambda>n. n\<lparr>net_state := (snd (ksnCoreSendCmdto peer cmd data (fst (net_state n))), snd (net_state n))\<rparr>) km)))"

section \<open>Lists whose nodes are alive\<close>

definition net_of :: "ksnMultiClass \<Rightarrow> bytes \<Rightarrow> ksnetNet option" where
  "net_of km key = Option.bind (pblMapGet (km_list km) key) (km_heap km)"

text \<open>\<open>b\<close> bounds the numbers, and \<open>c\<close> is the count the nodes know.\<close>

definition multi_inv :: "nat \<Rightarrow> u64 \<Rightarrow> ksnMultiClass \<Rightarrow> bool" where
  "multi_inv b c km \<longleftrightarrow>
     (\<forall>key p. pblMapGet (km_list km) key = Some p \<longrightarrow>
        p < km_next km \<and> (\<exists>n. km_heap km p = Some n \<and> key = strz (st_network (net_args n)) \<and>
                              net_count n = c \<and> unat (net_idx n) < b)) \<and>
     (\<forall>k n k' n'. net_of km k = Some n \<longrightarrow> net_of km k' = Some n' \<longrightarrow> net_idx n = net_idx n' \<longrightarrow> k = k')"

lemma multi_invD:
  assumes "multi_inv b c km" and "pblMapGet (km_list km) key = Some p"
  obtains n where "km_heap km p = Some n" "key = strz (st_network (net_args n))" "net_count n = c" "unat (net_idx n) < b"
    "p < km_next km" "net_of km key = Some n"
proof -
  obtain n where "p < km_next km" "km_heap km p = Some n" "key = strz (st_network (net_args n))" "net_count n = c" "unat (net_idx n) < b"
    using assms unfolding multi_inv_def by blast
  with that assms(2) show thesis by (simp add: net_of_def)
qed

lemma multi_inv_net: "multi_inv b c km \<Longrightarrow> net_of km key = Some n \<Longrightarrow> unat (net_idx n) < b \<and> net_count n = c"
  by (auto simp: net_of_def bind_eq_Some_conv elim!: multi_invD)

lemma multi_inv_None: "multi_inv b c km \<Longrightarrow> net_of km key = None \<longleftrightarrow> pblMapGet (km_list km) key = None"
  by (cases "pblMapGet (km_list km) key") (auto simp: net_of_def elim!: multi_invD)

lemma multi_inv_unique:
  "multi_inv b c km \<Longrightarrow> net_of km k = Some n \<Longrightarrow> net_of km k' = Some n' \<Longrightarrow> net_idx n = net_idx n' \<Longrightarrow> k = k'"
  unfolding multi_inv_def by blast

lemma multi_inv_pointers:
  assumes "multi_inv b c km" and "pblMapGet (km_list km) k = Some p" and "pblMapGet (km_list km) k' = Some p"
  shows "k = k'"
  by (rule multi_invD [OF assms(1,2)], rule multi_invD [OF assms(1,3)]) simp

lemma multi_alive: "multi_inv b c km \<Longrightarrow> (k, p) \<in> set (pblMapEntries (km_list km)) \<Longrightarrow> km_heap km p \<noteq> None"
  by (metis entries_mem multi_invD option.simps(3))

lemma multi_distinct: "multi_inv b c km \<Longrightarrow> distinct (map snd (pblMapEntries (km_list km)))"
  using multi_inv_pointers pm.distinct_entries [of "km_list km"]
  by (auto simp: distinct_map inj_on_def entries_mem)

section \<open>Lookups by number\<close>

lemma as_int_small:
  assumes "unat idx < 2 ^ 31"
  shows "as_int idx = int (unat idx)"
proof -
  have u: "uint idx < 2 ^ 31" using assms by (metis of_nat_less_numeral_power_cancel_iff uint_nat)
  then have "uint (ucast idx :: u32) = uint idx" by (simp add: unsigned_ucast_eq take_bit_int_eq_self)
  moreover have "- (2 ^ 31) \<le> uint idx" by (rule order_trans [OF _ uint_ge_0]) simp
  ultimately have "sint (ucast idx :: u32) = uint idx"
    using u by (simp add: sint_uint signed_take_bit_int_eq_self)
  then show ?thesis by (simp add: as_int_def)
qed

lemma of_as_int: "unat idx < 2 ^ 31 \<Longrightarrow> of_int (as_int idx) = idx"
  by (simp add: as_int_small)

lemma find_number_alive:
  "(\<And>k p. (k, p) \<in> set es \<Longrightarrow> heap p \<noteq> None) \<Longrightarrow>
   find_number heap number es = Some (map_option snd (find (\<lambda>(k, p). net_idx (the (heap p)) = number) es))"
proof (induction es)
  case (Cons e es)
  obtain k p where e: "e = (k, p)" by fastforce
  obtain n where "heap p = Some n" using Cons.prems [of k p] e by auto
  moreover have "find_number heap number es = Some (map_option snd (find (\<lambda>(k, p). net_idx (the (heap p)) = number) es))"
    by (rule Cons.IH) (use Cons.prems in \<open>meson list.set_intros(2)\<close>)
  ultimately show ?case by (simp add: e)
qed simp

lemma get_by_number:
  assumes "multi_inv b c km" and "b \<le> 2 ^ 31" and "pblMapGet (km_list km) key = Some p" and "km_heap km p = Some n"
  shows "teoMultiGetByNumber km (as_int (net_idx n)) = Some (Some p)"
proof -
  have idx: "unat (net_idx n) < 2 ^ 31" using multi_invD [OF assms(1,3)] assms(2,4) by (metis option.inject order_less_le_trans)
  then have num: "of_int (as_int (net_idx n)) = net_idx n" by (rule of_as_int)
  have "find (\<lambda>(k, p). net_idx (the (km_heap km p)) = net_idx n) (pblMapEntries (km_list km)) = Some (key, p)"
  proof (rule pm.search_unique [OF assms(3)])
    show "k' = key" if g: "pblMapGet (km_list km) k' = Some v'" "case (k', v') of (k, p) \<Rightarrow> net_idx (the (km_heap km p)) = net_idx n"
      for k' v'
    proof -
      obtain n' where n': "km_heap km v' = Some n'" "net_of km k' = Some n'" using multi_invD [OF assms(1) g(1)] by metis
      have "net_of km key = Some n" using assms(3,4) by (simp add: net_of_def)
      with multi_inv_unique [OF assms(1) n'(2)] g(2) n'(1) show ?thesis by simp
    qed
  qed (simp add: assms(4))
  then show ?thesis
    by (simp add: teoMultiGetByNumber_def num find_number_alive [of _ "km_heap km"] multi_alive [OF assms(1)])
qed

section \<open>Operations keep the list in order\<close>

lemma each_net_const:
  assumes "\<And>k p. (k, p) \<in> set es \<Longrightarrow> km_heap km p \<noteq> None" and "distinct (map snd es)"
  shows "each_net (\<lambda>i. f) i es km = km\<lparr>km_heap := (\<lambda>p. if p \<in> snd ` set es then map_option f (km_heap km p) else km_heap km p)\<rparr>"
  using assms
proof (induction es arbitrary: km i)
  case (Cons e es)
  obtain k p where e: "e = (k, p)" by fastforce
  obtain n where n: "km_heap km p = Some n" using Cons.prems(1) [of k p] e by auto
  have fresh: "p \<notin> snd ` set es" using Cons.prems(2) e by simp
  have "each_net (\<lambda>i. f) (i + 1) es (net_update p f km) = (net_update p f km)
      \<lparr>km_heap := (\<lambda>q. if q \<in> snd ` set es then map_option f (km_heap (net_update p f km) q) else km_heap (net_update p f km) q)\<rparr>"
  proof (rule Cons.IH)
    show "km_heap (net_update p f km) p' \<noteq> None" if "(k', p') \<in> set es" for k' p'
      using Cons.prems(1) [of k' p'] that by (auto simp: net_update_def)
  qed (use Cons.prems(2) in simp)
  then show ?case using n fresh by (auto simp: e net_update_def fun_eq_iff)
qed simp

text \<open>After the counts are set: the same list and numbers, the new count.\<close>

lemma update_count:
  assumes "multi_inv b c km"
  shows "multi_inv b num (ksnMultiUpdateCountNetworks num km)"
    and "km_list (ksnMultiUpdateCountNetworks num km) = km_list km" "km_net_count (ksnMultiUpdateCountNetworks num km) = num"
    "last_net_idx (ksnMultiUpdateCountNetworks num km) = last_net_idx km"
    and "pblMapGet (km_list km) key = Some p \<Longrightarrow>
         km_heap (ksnMultiUpdateCountNetworks num km) p = map_option (\<lambda>n. n\<lparr>net_count := num\<rparr>) (km_heap km p)"
    "km_out (ksnMultiUpdateCountNetworks num km) = km_out km"
proof -
  let ?km = "ksnMultiUpdateCountNetworks num km"
  have eq: "?km = km\<lparr>km_net_count := num, km_heap := (\<lambda>p. if p \<in> snd ` set (pblMapEntries (km_list km))
      then map_option (\<lambda>n. n\<lparr>net_count := num\<rparr>) (km_heap km p) else km_heap km p)\<rparr>"
    unfolding ksnMultiUpdateCountNetworks_def
    by (subst each_net_const) (use multi_alive [OF assms] multi_distinct [OF assms] in \<open>auto cong: if_cong\<close>)
  have mem: "pblMapGet (km_list km) key = Some p \<Longrightarrow> p \<in> snd ` set (pblMapEntries (km_list km))" for key p
    by (metis entries_mem image_eqI snd_conv)
  show "km_list ?km = km_list km" "km_net_count ?km = num" "last_net_idx ?km = last_net_idx km" "km_out ?km = km_out km"
    by (simp_all add: eq)
  show heap: "pblMapGet (km_list km) key = Some p \<Longrightarrow> km_heap ?km p = map_option (\<lambda>n. n\<lparr>net_count := num\<rparr>) (km_heap km p)" for key p
    using mem [of key p] by (simp add: eq)
  have net: "net_of ?km key = map_option (\<lambda>n. n\<lparr>net_count := num\<rparr>) (net_of km key)" for key
    using mem [of key] by (cases "pblMapGet (km_list km) key") (auto simp: net_of_def eq)
  have one: "p < km_next ?km \<and> (\<exists>n. km_heap ?km p = Some n \<and> key = strz (st_network (net_args n)) \<and> net_count n = num \<and> unat (net_idx n) < b)"
    if g: "pblMapGet (km_list ?km) key = Some p" for key p
  proof -
    have g': "pblMapGet (km_list km) key = Some p" using g by (simp add: eq)
    obtain n where "km_heap km p = Some n" "key = strz (st_network (net_args n))" "unat (net_idx n) < b" "p < km_next km"
      by (rule multi_invD [OF assms g'])
    then show ?thesis using heap [OF g'] by (simp add: eq)
  qed
  moreover have "k = k'" if "net_of ?km k = Some n" "net_of ?km k' = Some n'" "net_idx n = net_idx n'" for k n k' n'
    using that multi_inv_unique [OF assms] unfolding net by auto
  ultimately show "multi_inv b num ?km" unfolding multi_inv_def by blast
qed

lemma run_multi: "ke_km ke \<Longrightarrow> \<exists>s. ksnetEvMgrRun loop a (ke, kt) = Some s"
  by (auto simp: ksnetEvMgrRun_def ksnetEvMgrFree_def modules_destroy_def Let_def split: prod.splits bool.splits)

lemma net_start:
  assumes inv: "multi_inv b c km" and name: "name = net_name place (snd (conf host port network)) network" and fits: "length name < 128"
    and room: "pblMapSize (km_list km) < pblMaxElements" and idx: "unat idx = b"
  shows "multi_inv (b + 1) c (net_start conf place host port network idx c km)"
    and "pblMapSize (km_list (net_start conf place host port network idx c km)) =
      pblMapSize (km_list km) + (if pblMapGet (km_list km) (strz name) = None then 1 else 0)"
    "km_net_count (net_start conf place host port network idx c km) = km_net_count km"
    "last_net_idx (net_start conf place host port network idx c km) = last_net_idx km"
    and "net_of (net_start conf place host port network idx c km) key =
      (if key = strz name then net_of (net_start conf place host port network idx c km) key else net_of km key)"
    and "\<exists>n. net_of (net_start conf place host port network idx c km) (strz name) = Some n \<and> net_idx n = idx"
    and "dom (pblMapGet (km_list (net_start conf place host port network idx c km))) = insert (strz name) (dom (pblMapGet (km_list km)))"
proof -
  obtain ke a where ca: "conf host port network = (ke, a)" by fastforce
  define a1 where "a1 = a\<lparr>st_net_idx := unat idx, st_network := name\<rparr>"
  define key0 where "key0 = strz (st_network a1)"
  obtain s where s: "ksnetEvMgrRun (\<lambda>s. s) a1 (ke\<lparr>ke_km := True\<rparr>, ksnTcpInit) = Some s" using run_multi [of "ke\<lparr>ke_km := True\<rparr>" "\<lambda>s. s" a1 ksnTcpInit] by auto
  let ?n = "\<lparr>net_state = s, net_args = a1, net_idx = idx, net_count = c\<rparr>"
  let ?km = "net_start conf place host port network idx c km"
  have eq: "?km = km\<lparr>km_list := pblMapAddTo (km_list km) key0 (km_next km), km_next := km_next km + 1,
      km_heap := (km_heap km)(km_next km \<mapsto> ?n)\<rparr>"
    using s fits name by (simp add: net_start_def ca Let_def key0_def a1_def)
  have key0: "key0 = strz name" by (simp add: key0_def a1_def)
  have r: "pblMapRoom (km_list km) key0" using room by (simp add: pblMapRoom_def)
  have heap: "km_heap ?km = (km_heap km)(km_next km \<mapsto> ?n)" by (simp add: eq)
  have get: "pblMapGet (km_list ?km) = (pblMapGet (km_list km))(key0 \<mapsto> km_next km)" by (simp add: eq map_simps r)
  have lt: "p < km_next km" if "pblMapGet (km_list km) key = Some p" for key p using multi_invD [OF inv that] by metis
  have net: "net_of ?km key = (if key = key0 then Some ?n else net_of km key)" for key
    unfolding net_of_def get heap using lt [of key] by (cases "pblMapGet (km_list km) key") auto
  have "p < km_next ?km \<and> (\<exists>n. km_heap ?km p = Some n \<and> key = strz (st_network (net_args n)) \<and> net_count n = c \<and> unat (net_idx n) < b + 1)"
    if g: "pblMapGet (km_list ?km) key = Some p" for key p
  proof (cases "key = key0")
    case True
    with g show ?thesis by (simp add: get heap idx key0_def) (simp add: eq)
  next
    case False
    with g have g': "pblMapGet (km_list km) key = Some p" by (simp add: get)
    obtain n where "km_heap km p = Some n" "key = strz (st_network (net_args n))" "net_count n = c" "unat (net_idx n) < b"
      "p < km_next km" by (rule multi_invD [OF inv g'])
    then show ?thesis by (simp add: heap) (simp add: eq)
  qed
  moreover have "k = k'" if k: "net_of ?km k = Some n" "net_of ?km k' = Some n'" "net_idx n = net_idx n'" for k n k' n'
  proof -
    have "net_idx m \<noteq> idx" if "net_of km key = Some m" for key m
      using multi_inv_net [OF inv that] idx by auto
    from this [of k n] this [of k' n'] show ?thesis
      using k multi_inv_unique [OF inv, of k n k' n'] by (auto simp: net split: if_splits)
  qed
  ultimately show "multi_inv (b + 1) c ?km" unfolding multi_inv_def by blast
  show "pblMapSize (km_list ?km) = pblMapSize (km_list km) + (if pblMapGet (km_list km) (strz name) = None then 1 else 0)"
    using r by (simp add: eq map_simps key0)
  show "km_net_count ?km = km_net_count km" "last_net_idx ?km = last_net_idx km" by (simp_all add: eq)
  show "net_of ?km key = (if key = strz name then net_of ?km key else net_of km key)" by (simp add: net flip: key0)
  show "\<exists>n. net_of ?km (strz name) = Some n \<and> net_idx n = idx" by (simp add: net flip: key0)
  show "dom (pblMapGet (km_list ?km)) = insert (strz name) (dom (pblMapGet (km_list km)))" by (simp add: get key0)
qed

text \<open>A change of a node that leaves its number, its count and its name.\<close>

lemma multi_inv_update:
  assumes "multi_inv b c km" and "\<And>n. net_idx (f n) = net_idx n \<and> net_count (f n) = net_count n \<and> net_args (f n) = net_args n"
  shows "multi_inv b c (net_update p f km)" "km_list (net_update p f km) = km_list km"
    "km_net_count (net_update p f km) = km_net_count km" "last_net_idx (net_update p f km) = last_net_idx km"
proof -
  have "p' < km_next km \<and> (\<exists>n. km_heap (net_update p f km) p' = Some n \<and> key = strz (st_network (net_args n)) \<and>
      net_count n = c \<and> unat (net_idx n) < b)" if g: "pblMapGet (km_list km) key = Some p'" for key p'
    by (rule multi_invD [OF assms(1) g]) (auto simp: net_update_def assms(2))
  moreover have "k = k'" if k: "net_of (net_update p f km) k = Some n" "net_of (net_update p f km) k' = Some n'" "net_idx n = net_idx n'"
    for k n k' n'
  proof -
    have "\<exists>m. net_of km key = Some m \<and> net_idx m = net_idx n" if "net_of (net_update p f km) key = Some n" for key n
      using that by (auto simp: net_of_def net_update_def bind_eq_Some_conv assms(2) split: if_splits)
    from this [OF k(1)] this [OF k(2)] k(3) show ?thesis using multi_inv_unique [OF assms(1)] by auto
  qed
  ultimately show "multi_inv b c (net_update p f km)" by (simp add: multi_inv_def) (simp add: net_update_def)
qed (simp_all add: net_update_def)

lemma multi_inv_remove:
  assumes inv: "multi_inv b c km" and p: "pblMapGet (km_list km) key = Some p"
  shows "multi_inv b c (net_stop p (km\<lparr>km_list := pblMapRemoveFrom (km_list km) key\<rparr>))"
    and "km_list (net_stop p (km\<lparr>km_list := pblMapRemoveFrom (km_list km) key\<rparr>)) = pblMapRemoveFrom (km_list km) key"
    "last_net_idx (net_stop p (km\<lparr>km_list := pblMapRemoveFrom (km_list km) key\<rparr>)) = last_net_idx km"
    and "k \<noteq> key \<Longrightarrow> net_of (net_stop p (km\<lparr>km_list := pblMapRemoveFrom (km_list km) key\<rparr>)) k = net_of km k"
proof -
  let ?km = "net_stop p (km\<lparr>km_list := pblMapRemoveFrom (km_list km) key\<rparr>)"
  have fields: "km_list ?km = pblMapRemoveFrom (km_list km) key" "last_net_idx ?km = last_net_idx km" "km_next ?km = km_next km"
    by (simp_all add: net_stop_def km_emit_def split: option.split)
  have heap: "km_heap ?km q = km_heap km q" if "q \<noteq> p" for q
    using that by (simp add: net_stop_def km_emit_def split: option.split)
  have get: "pblMapGet (km_list ?km) = (pblMapGet (km_list km))(key := None)" by (simp add: fields map_simps)
  have other: "q \<noteq> p" if "pblMapGet (km_list km) k = Some q" "k \<noteq> key" for k q
    using multi_inv_pointers [OF inv p] that by blast
  have net: "net_of ?km k = (if k = key then None else net_of km k)" for k
    unfolding net_of_def get using other [of k] heap by (cases "pblMapGet (km_list km) k") auto
  have "q < km_next ?km \<and> (\<exists>n. km_heap ?km q = Some n \<and> k = strz (st_network (net_args n)) \<and> net_count n = c \<and> unat (net_idx n) < b)"
    if g: "pblMapGet (km_list ?km) k = Some q" for k q
  proof -
    have g': "pblMapGet (km_list km) k = Some q" "k \<noteq> key" using g by (auto simp: get split: if_splits)
    show ?thesis by (rule multi_invD [OF inv g'(1)]) (simp add: fields heap [OF other [OF g']])
  qed
  moreover have "k = k'" if "net_of ?km k = Some n" "net_of ?km k' = Some n'" "net_idx n = net_idx n'" for k n k' n'
    using that multi_inv_unique [OF inv] by (auto simp: net split: if_splits)
  ultimately show "multi_inv b c ?km" unfolding multi_inv_def by blast
  show "km_list ?km = pblMapRemoveFrom (km_list km) key" "last_net_idx ?km = last_net_idx km" by (rule fields)+
  show "k \<noteq> key \<Longrightarrow> net_of ?km k = net_of km k" by (simp add: net)
qed

section \<open>What a program with several networks can do\<close>

text \<open>
  Networks are added, under a new name or one that is in the list, while the network with the last
  number is there (without it teoMultiAddNet uses a null pointer), removed and used for sending; their
  nodes run. The number of a step is 1 when it adds a network under a name that is in the list: the new
  node takes the place of the old one, which runs on outside the list, and the count goes up all the
  same. The name in a new node's configuration ends within its 128 bytes.
\<close>

definition names_fit :: "netConf \<Rightarrow> bool" where
  "names_fit conf \<longleftrightarrow> (\<forall>host port network. length (st_network (snd (conf host port network))) < 128)"

definition known_name :: "ksnMultiClass \<Rightarrow> bytes \<Rightarrow> nat" where
  "known_name km network = (if pblMapGet (km_list km) (strz network) = None then 0 else 1)"

inductive multi_step :: "nat \<Rightarrow> ksnMultiClass \<Rightarrow> ksnMultiClass \<Rightarrow> bool" where
  add: "names_fit conf \<Longrightarrow> pblMapSize (km_list km) < pblMaxElements \<Longrightarrow>
        teoMultiGetByNumber km (as_int (last_net_idx km)) = Some (Some p) \<Longrightarrow> unat (last_net_idx km) + 1 < 2 ^ 31 \<Longrightarrow>
        multi_step (known_name km (take 127 network)) km (teoMultiAddNet conf host port network km)"
| remove: "multi_step 0 km (teoMultiRemoveNet network km)"
| send: "multi_step 0 km (snd (teoMultiSendCmdToNet peer network cmd data km))"
| run: "km_heap km p = Some n \<Longrightarrow> node_step (fst (net_state n)) ke \<Longrightarrow>
        multi_step 0 km (net_update p (\<lambda>n. n\<lparr>net_state := (ke, snd (net_state n))\<rparr>) km)"

inductive multi_steps :: "nat \<Rightarrow> ksnMultiClass \<Rightarrow> ksnMultiClass \<Rightarrow> bool" where
  none: "multi_steps 0 km km"
| step: "multi_steps d km km' \<Longrightarrow> multi_step e km' km'' \<Longrightarrow> multi_steps (d + e) km km''"

text \<open>\<open>d\<close>: how many networks were added under a name that was in the list.\<close>

definition multi_ok :: "nat \<Rightarrow> ksnMultiClass \<Rightarrow> bool" where
  "multi_ok d km \<longleftrightarrow> multi_inv (unat (last_net_idx km + 1)) (km_net_count km) km \<and>
     km_net_count km = of_nat (pblMapSize (km_list km) + d) \<and> unat (last_net_idx km + 1) \<le> 2 ^ 31"

lemma unat_succ: "unat (x :: u64) < 2 ^ 31 \<Longrightarrow> unat (x + 1) = unat x + 1"
  by (simp add: unat_word_ariths)

lemma found_in_list:
  assumes "multi_inv b c km" and "teoMultiGetByNumber km number = Some (Some p)"
  obtains key n where "pblMapGet (km_list km) key = Some p" "km_heap km p = Some n" "net_idx n = of_int number"
proof -
  have "map_option snd (find (\<lambda>(k, p). net_idx (the (km_heap km p)) = of_int number) (pblMapEntries (km_list km))) = Some p"
    using assms(2) by (simp add: teoMultiGetByNumber_def find_number_alive [of _ "km_heap km"] multi_alive [OF assms(1)])
  then obtain key where f: "find (\<lambda>(k, p). net_idx (the (km_heap km p)) = of_int number) (pblMapEntries (km_list km)) = Some (key, p)"
    by (auto simp only: map_option_eq_Some snd_conv split_paired_Ex split_paired_all)
  from pm.search_Some [OF f] have "pblMapGet (km_list km) key = Some p" "net_idx (the (km_heap km p)) = of_int number" by simp_all
  with that multi_invD [OF assms(1) this(1)] show thesis by (metis option.sel)
qed

lemma multi_ok_add:
  assumes ok: "multi_ok d km" and fit: "names_fit conf"
    and room: "pblMapSize (km_list km) < pblMaxElements"
    and last: "teoMultiGetByNumber km (as_int (last_net_idx km)) = Some (Some p)" and bound: "unat (last_net_idx km) + 1 < 2 ^ 31"
  shows "multi_ok (d + known_name km (take 127 network)) (teoMultiAddNet conf host port network km)"
    and "\<exists>n. net_of (teoMultiAddNet conf host port network km) (strz (take 127 network)) = Some n \<and>
           net_idx n = last_net_idx (teoMultiAddNet conf host port network km)"
proof -
  have last1: "unat (last_net_idx km + 1) = unat (last_net_idx km) + 1" by (rule unat_succ) (use bound in simp)
  note inv = ok [unfolded multi_ok_def, THEN conjunct1]
  define km1 where "km1 = (ksnMultiUpdateCountNetworks (km_net_count km + 1) km)\<lparr>last_net_idx := last_net_idx km + 1\<rparr>"
  note u = update_count [OF inv, where num = "km_net_count km + 1"]
  have inv1: "multi_inv (unat (last_net_idx km1)) (km_net_count km1) km1"
    using u(1) by (simp add: km1_def multi_inv_def net_of_def u)
  have list1: "km_list km1 = km_list km" by (simp add: km1_def u)
  obtain n0 where n0: "km_heap km1 p = Some n0"
    by (rule found_in_list [OF inv last]) (simp add: km1_def u(5))
  define port1 where "port1 = (if port = 0 then st_port (net_args n0) + 2 else port)"
  have eq: "teoMultiAddNet conf host port network km =
      net_start conf (\<lambda>name0. 127) host port1 network (last_net_idx km1) (km_net_count km1) km1"
    using n0 by (simp add: teoMultiAddNet_def last Let_def port1_def km1_def u)
  have "length (st_network (snd (conf host port1 network))) < 128" using fit unfolding names_fit_def by blast
  then have name: "take 127 network = net_name (\<lambda>name0. 127) (snd (conf host port1 network)) network"
    by (simp add: net_name_def)
  have len: "length (take 127 network) < 128" by simp
  note st = net_start [where place = "\<lambda>name0. 127" and conf = conf and host = host and port = port1 and network = network
      and idx = "last_net_idx km1", OF inv1 name len, simplified list1, OF room refl]
  show "multi_ok (d + known_name km (take 127 network)) (teoMultiAddNet conf host port network km)"
    unfolding eq multi_ok_def st(2,3,4) list1
  proof (intro conjI)
    have e: "unat (last_net_idx km1 + 1) = unat (last_net_idx km1) + 1" by (rule unat_succ) (use last1 bound in \<open>simp add: km1_def\<close>)
    show "multi_inv (unat (last_net_idx km1 + 1)) (km_net_count km1)
        (net_start conf (\<lambda>name0. 127) host port1 network (last_net_idx km1) (km_net_count km1) km1)"
      unfolding e by (rule st(1))
    have "km_net_count km1 = km_net_count km + 1" by (simp add: km1_def u(3))
    also have "\<dots> = of_nat (pblMapSize (km_list km) + d) + 1" using ok unfolding multi_ok_def by metis
    finally show "km_net_count km1 = of_nat (pblMapSize (km_list km) +
        (if pblMapGet (km_list km) (strz (take 127 network)) = None then 1 else 0) + (d + known_name km (take 127 network)))"
      by (simp add: known_name_def)
    have "last_net_idx km1 = last_net_idx km + 1" by (simp add: km1_def)
    then show "unat (last_net_idx km1 + 1) \<le> 2 ^ 31" using e last1 bound by simp
  qed
  show "\<exists>n. net_of (teoMultiAddNet conf host port network km) (strz (take 127 network)) = Some n \<and>
           net_idx n = last_net_idx (teoMultiAddNet conf host port network km)"
    unfolding eq st(4) using st(6) by simp
qed

lemma multi_ok_remove:
  assumes ok: "multi_ok d km"
  shows "multi_ok d (teoMultiRemoveNet network km)"
    and "net_of (teoMultiRemoveNet network km) key =
      (if key = strz network then None else map_option (\<lambda>n. n\<lparr>net_count := km_net_count (teoMultiRemoveNet network km)\<rparr>) (net_of km key))"
    and "last_net_idx (teoMultiRemoveNet network km) = last_net_idx km"
proof -
  note inv = ok [unfolded multi_ok_def, THEN conjunct1]
  have "multi_ok d (teoMultiRemoveNet network km) \<and> net_of (teoMultiRemoveNet network km) key =
      (if key = strz network then None else map_option (\<lambda>n. n\<lparr>net_count := km_net_count (teoMultiRemoveNet network km)\<rparr>) (net_of km key)) \<and>
      last_net_idx (teoMultiRemoveNet network km) = last_net_idx km"
  proof (cases "pblMapGet (km_list km) (strz network)")
    case None
    then have same: "teoMultiRemoveNet network km = km" by (simp add: teoMultiRemoveNet_def pblMapRemove_def)
    have "map_option (\<lambda>n. n\<lparr>net_count := km_net_count km\<rparr>) (net_of km key) = net_of km key"
      using multi_inv_net [OF inv, of key] by (cases "net_of km key") auto
    then show ?thesis using ok None by (auto simp: same) (simp add: net_of_def)
  next
    case (Some p)
    let ?k = "net_stop p (km\<lparr>km_list := pblMapRemoveFrom (km_list km) (strz network)\<rparr>)"
    note r = multi_inv_remove [OF inv Some]
    note u = update_count [OF r(1), where num = "km_net_count km - 1"]
    have eq: "teoMultiRemoveNet network km = ksnMultiUpdateCountNetworks (km_net_count km - 1) ?k"
      by (simp add: teoMultiRemoveNet_def pblMapRemove_def Some)
    have "pblMapSize (km_list km) \<noteq> 0"
      using Some by (metis entries_length entries_mem length_0_conv list.set(1) empty_iff)
    then have size: "of_nat (pblMapSize (km_list km) - 1 + d) = (of_nat (pblMapSize (km_list km) + d) :: u64) - 1" by simp
    have "multi_ok d (teoMultiRemoveNet network km)"
      unfolding multi_ok_def eq u(2,3,4) r(2,3) using u(1) ok size Some by (simp add: multi_ok_def map_simps)
    moreover have "net_of (teoMultiRemoveNet network km) key = map_option (\<lambda>n. n\<lparr>net_count := km_net_count km - 1\<rparr>) (net_of ?k key)"
    proof (cases "pblMapGet (km_list ?k) key")
      case (Some q)
      then show ?thesis using u(5) [OF Some] unfolding eq by (simp add: net_of_def u(2))
    qed (simp add: eq net_of_def u(2))
    moreover have "net_of ?k key = (if key = strz network then None else net_of km key)"
      using r(4) [of key] by (auto simp: net_of_def r(2) map_simps)
    ultimately show ?thesis by (simp add: eq u(3,4) r(3))
  qed
  then show "multi_ok d (teoMultiRemoveNet network km)" "net_of (teoMultiRemoveNet network km) key =
      (if key = strz network then None else map_option (\<lambda>n. n\<lparr>net_count := km_net_count (teoMultiRemoveNet network km)\<rparr>) (net_of km key))"
    "last_net_idx (teoMultiRemoveNet network km) = last_net_idx km" by blast+
qed

lemma multi_inv_emit: "multi_inv b c (km_emit acts km) = multi_inv b c km"
  by (simp add: multi_inv_def net_of_def km_emit_def)

lemma km_emit_fields: "km_list (km_emit acts km) = km_list km" "km_net_count (km_emit acts km) = km_net_count km"
  "last_net_idx (km_emit acts km) = last_net_idx km"
  by (simp_all add: km_emit_def)

lemma multi_ok_update:
  assumes "multi_ok d km" and "\<And>n. net_idx (f n) = net_idx n \<and> net_count (f n) = net_count n \<and> net_args (f n) = net_args n"
  shows "multi_ok d (net_update p f km)"
proof -
  note inv = assms(1) [unfolded multi_ok_def, THEN conjunct1]
  note u = multi_inv_update [OF inv assms(2), of p]
  show ?thesis unfolding multi_ok_def u(2-4) using assms(1) u(1) unfolding multi_ok_def by blast
qed

lemma multi_ok_step: "multi_step e km km' \<Longrightarrow> multi_ok d km \<Longrightarrow> multi_ok (d + e) km'"
proof (induction rule: multi_step.induct)
  case (add conf km p network host port)
  then show ?case by (intro multi_ok_add(1))
next
  case (remove km network)
  then show ?case by (simp add: multi_ok_remove(1))
next
  case (send km peer network cmd data)
  have "multi_ok d (km_emit acts km)" for acts
    using send unfolding multi_ok_def multi_inv_emit km_emit_fields .
  moreover have "multi_ok d (net_update p (\<lambda>n. n\<lparr>net_state := f n\<rparr>) km)" for p f
    using send by (rule multi_ok_update) simp
  ultimately show ?case using send by (simp add: teoMultiSendCmdToNet_def split: option.split)
next
  case (run km p n ke)
  then show ?case by (simp add: multi_ok_update)
qed

lemma multi_ok_steps: "multi_steps e km km' \<Longrightarrow> multi_ok d km \<Longrightarrow> multi_ok (d + e) km'"
proof (induction arbitrary: d rule: multi_steps.induct)
  case (step e km km' e' km'')
  then show ?case using multi_ok_step [OF step.hyps(2), of "d + e"] by (simp add: add.assoc)
qed simp

text \<open>The names under which the networks of the start are entered.\<close>

definition start_name :: "netConf \<Rightarrow> int \<times> bytes \<times> bytes \<Rightarrow> bytes" where
  "start_name conf = (\<lambda>(port, name, network). net_name (\<lambda>name0. 128 - length name0) (snd (conf name port network)) network)"

lemma init_loop_ok:
  assumes "multi_inv i num km" and "i + length md < 2 ^ 31" and "\<And>e. e \<in> set md \<Longrightarrow> length (start_name conf e) < 128"
    and "pblMapSize (km_list km) + length md \<le> pblMaxElements" and "km_net_count km = num"
  shows "multi_inv (i + length md) num (multi_init_loop conf num i md km) \<and>
    dom (pblMapGet (km_list (multi_init_loop conf num i md km))) = dom (pblMapGet (km_list km)) \<union> strz ` start_name conf ` set md \<and>
    km_net_count (multi_init_loop conf num i md km) = num \<and> last_net_idx (multi_init_loop conf num i md km) = last_net_idx km"
  using assms
proof (induction md arbitrary: i km)
  case (Cons e md)
  obtain port name network where e: "e = (port, name, network)" by (metis prod_cases3)
  let ?km = "net_start conf (\<lambda>name0. 128 - length name0) name port network (of_nat i) num km"
  have name: "start_name conf e = net_name (\<lambda>name0. 128 - length name0) (snd (conf name port network)) network"
    by (simp add: e start_name_def)
  have idx: "unat (of_nat i :: u64) = i" using Cons.prems(2) by (simp add: unat_of_nat)
  have fits: "length (start_name conf e) < 128" using Cons.prems(3) by simp
  have room: "pblMapSize (km_list km) < pblMaxElements" using Cons.prems(4) by simp
  note st = net_start [where place = "\<lambda>name0. 128 - length name0" and conf = conf and host = name and port = port and network = network,
      OF Cons.prems(1) name fits room idx]
  have "i + 1 + length md < 2 ^ 31" "pblMapSize (km_list ?km) + length md \<le> pblMaxElements" "km_net_count ?km = num"
    "\<And>e'. e' \<in> set md \<Longrightarrow> length (start_name conf e') < 128"
    using Cons.prems st(2,3) by simp_all
  from Cons.IH [OF st(1) this(1,4,2,3)] show ?case using st(4,7) by (simp add: e name [unfolded e])
qed simp

lemma list_size: "pblMapSize m = card (dom (pblMapGet m))"
  using pm.distinct_entries [of m] pm.law_distinct [of m]
  by (simp add: pm.dom_get flip: entries_length) (metis distinct_card length_map list.set_map)

lemma strz_inj: "inj_on strz A"
  by (auto simp: inj_on_def strz_def)

text \<open>How many of the networks of the start have a name that another of them has taken.\<close>

definition start_repeats :: "netConf \<Rightarrow> (int \<times> bytes \<times> bytes) list \<Rightarrow> nat" where
  "start_repeats conf md = length md - card (set (map (start_name conf) md))"

lemma multi_ok_init:
  assumes "length md \<le> pblMaxElements" and "\<And>e. e \<in> set md \<Longrightarrow> length (start_name conf e) < 128"
  shows "multi_ok (start_repeats conf md) (ksnMultiInit conf md)"
proof -
  let ?num = "of_nat (length md) :: u64"
  let ?km = "\<lparr>km_list = pblMapNewHashMap, km_net_count = ?num, last_net_idx = ?num - 1, km_heap = (\<lambda>p. None), km_next = 1, km_out = []\<rparr>"
  have len: "length md < 2 ^ 31" using assms(1) by (simp add: pblMaxElements_def)
  have loop: "multi_inv (0 + length md) ?num (multi_init_loop conf ?num 0 md ?km) \<and>
    dom (pblMapGet (km_list (multi_init_loop conf ?num 0 md ?km))) = dom (pblMapGet (km_list ?km)) \<union> strz ` start_name conf ` set md \<and>
    km_net_count (multi_init_loop conf ?num 0 md ?km) = ?num \<and> last_net_idx (multi_init_loop conf ?num 0 md ?km) = last_net_idx ?km"
    by (rule init_loop_ok) (use assms len in \<open>simp_all add: multi_inv_def net_of_def map_simps\<close>)
  have "dom (pblMapGet (km_list (multi_init_loop conf ?num 0 md ?km))) = strz ` set (map (start_name conf) md)"
    using loop by (simp add: map_simps dom_def)
  then have "pblMapSize (km_list (multi_init_loop conf ?num 0 md ?km)) = card (set (map (start_name conf) md))"
    unfolding list_size by (simp only: card_image [OF strz_inj])
  moreover have "card (set (map (start_name conf) md)) \<le> length md" by (metis card_length length_map)
  ultimately have "pblMapSize (km_list (multi_init_loop conf ?num 0 md ?km)) + start_repeats conf md = length md"
    by (simp add: start_repeats_def)
  moreover have "unat ?num = length md" using len by (simp add: unat_of_nat)
  ultimately show ?thesis using loop len by (simp add: ksnMultiInit_def Let_def multi_ok_def)
qed

text \<open>
  C32: While networks are added, removed and used, each one in the list is found by its name and by its
  number, no pointer in the list leads to a freed node, no two networks have a number in common, and
  all agree with the module on how many there are. Networks may be added under new names or under names
  that are in the list, as long as the one with the last number is there (once it has been removed,
  adding uses a null pointer: \<open>multi_remove_last\<close>), the list has room and the numbers fit an int; the names
  of the start end within the 128 bytes of their field. The
  count all agree on is that of the list and of the networks that were added under a name that was in
  the list, at the start or later: such a network takes the place of the other, which no longer is in
  the list, but the count goes up, and it stays too high.
\<close>

theorem multi_networks:
  assumes "multi_steps d (ksnMultiInit conf md) km" and "length md \<le> pblMaxElements"
    and "\<And>e. e \<in> set md \<Longrightarrow> length (start_name conf e) < 128"
  shows "(\<forall>network p. teoMultiGetByNetwork km network = Some p \<longrightarrow>
            (\<exists>n. km_heap km p = Some n \<and> teoMultiGetByNumber km (as_int (net_idx n)) = Some (Some p) \<and>
                 st_network (net_args n) = network \<and> net_count n = km_net_count km)) \<and>
         km_net_count km = of_nat (pblMapSize (km_list km) + start_repeats conf md + d)"
proof -
  have ok: "multi_ok (start_repeats conf md + d) km" by (rule multi_ok_steps [OF assms(1) multi_ok_init [OF assms(2,3)]])
  note inv = ok [unfolded multi_ok_def, THEN conjunct1]
  have b: "unat (last_net_idx km + 1) \<le> 2 ^ 31" and c: "km_net_count km = of_nat (pblMapSize (km_list km) + start_repeats conf md + d)"
    using ok unfolding multi_ok_def by (simp_all add: add.assoc)
  have "\<exists>n. km_heap km p = Some n \<and> teoMultiGetByNumber km (as_int (net_idx n)) = Some (Some p) \<and>
      st_network (net_args n) = network \<and> net_count n = km_net_count km" if g: "teoMultiGetByNetwork km network = Some p" for network p
  proof -
    have g': "pblMapGet (km_list km) (strz network) = Some p" using g by (simp add: teoMultiGetByNetwork_def)
    obtain n where n: "km_heap km p = Some n" "strz network = strz (st_network (net_args n))" "net_count n = km_net_count km"
      by (rule multi_invD [OF inv g'])
    then show ?thesis using get_by_number [OF inv b g' n(1)] by (auto simp: strz_def)
  qed
  with c show ?thesis by blast
qed

text \<open>A second network under the name of the first: one in the list, and both count.\<close>

theorem multi_same_name:
  assumes "length name < 128" and "\<And>host port. net_name (\<lambda>name0. 128 - length name0) (snd (conf host port name)) name = name"
  shows "pblMapSize (km_list (ksnMultiInit conf [(port1, host1, name), (port2, host2, name)])) = 1 \<and>
    km_net_count (ksnMultiInit conf [(port1, host1, name), (port2, host2, name)]) = 2"
proof -
  let ?md = "[(port1, host1, name), (port2, host2, name)]"
  let ?km = "\<lparr>km_list = pblMapNewHashMap, km_net_count = 2, last_net_idx = 1, km_heap = (\<lambda>p. None), km_next = 1, km_out = []\<rparr>"
  have n: "start_name conf e = name" if "e \<in> set ?md" for e using that assms(2) by (auto simp: start_name_def)
  have "multi_inv (0 + length ?md) 2 (multi_init_loop conf 2 0 ?md ?km) \<and>
    dom (pblMapGet (km_list (multi_init_loop conf 2 0 ?md ?km))) = dom (pblMapGet (km_list ?km)) \<union> strz ` start_name conf ` set ?md \<and>
    km_net_count (multi_init_loop conf 2 0 ?md ?km) = 2 \<and> last_net_idx (multi_init_loop conf 2 0 ?md ?km) = last_net_idx ?km"
    by (rule init_loop_ok) (use assms n in \<open>simp_all add: multi_inv_def net_of_def map_simps pblMaxElements_def\<close>)
  moreover have "start_name conf ` set ?md = {name}" using n by auto
  moreover have "dom (pblMapGet (pblMapNewHashMap :: nat PblMap)) = {}" by (simp add: map_simps dom_def)
  ultimately show ?thesis by (simp add: ksnMultiInit_def Let_def list_size del: list.set multi_init_loop.simps)
qed

text \<open>Once the network with the last number is removed, neither running nor adding works.\<close>

theorem multi_remove_last:
  assumes "multi_ok d km" and "net_of km (strz network) = Some n" and "net_idx n = last_net_idx km"
  shows "Fault \<in> set (km_out (teoMultiRun (teoMultiRemoveNet network km)))"
    and "Fault \<in> set (km_out (teoMultiAddNet conf host port network2 (teoMultiRemoveNet network km)))"
proof -
  let ?km = "teoMultiRemoveNet network km"
  note r = multi_ok_remove [OF assms(1), of network]
  note inv = r(1) [unfolded multi_ok_def, THEN conjunct1]
  have b: "unat (last_net_idx km) < 2 ^ 31"
    using assms multi_inv_net [of _ _ km "strz network" n] unfolding multi_ok_def by (metis order_less_le_trans)
  have "teoMultiGetByNumber ?km (as_int (last_net_idx ?km)) \<noteq> Some (Some p)" for p
  proof
    assume f: "teoMultiGetByNumber ?km (as_int (last_net_idx ?km)) = Some (Some p)"
    obtain key m where m: "pblMapGet (km_list ?km) key = Some p" "km_heap ?km p = Some m" "net_idx m = of_int (as_int (last_net_idx ?km))"
      by (rule found_in_list [OF inv f])
    then have "net_of ?km key = Some m" "net_idx m = last_net_idx km" using of_as_int [OF b] by (simp_all add: net_of_def r(3))
    with r(2) [of key] obtain m0 where "net_of km key = Some m0" "net_idx m0 = last_net_idx km" "key \<noteq> strz network"
      by (cases "net_of km key") (auto split: if_splits)
    then show False using multi_inv_unique [of _ _ km key m0 "strz network" n] assms unfolding multi_ok_def by auto
  qed
  then have "teoMultiGetByNumber ?km (as_int (last_net_idx ?km)) = Some None \<or> teoMultiGetByNumber ?km (as_int (last_net_idx ?km)) = None"
    by (metis option.exhaust)
  then show "Fault \<in> set (km_out (teoMultiRun ?km))" "Fault \<in> set (km_out (teoMultiAddNet conf host port network2 ?km))"
    by (auto simp: teoMultiRun_def teoMultiAddNet_def km_emit_def Let_def)
qed

text \<open>One network, and the node of one that has been started.\<close>

definition example_conf :: netConf where
  "example_conf host port network = (exampleNode host, example_start)"

definition example_nets :: "(int \<times> bytes \<times> bytes) list" where
  "example_nets = [(9000, [97], [110])]"

lemma example_net: "\<exists>n. net_of (ksnMultiInit example_conf example_nets) (strz [110]) = Some n \<and> net_idx n = 0"
proof -
  let ?km = "\<lparr>km_list = pblMapNewHashMap, km_net_count = 1, last_net_idx = 0, km_heap = (\<lambda>p. None), km_next = 1, km_out = []\<rparr>"
  have "multi_inv 0 1 ?km" by (simp add: multi_inv_def net_of_def map_simps)
  from net_start(6) [OF this, of "[110]" "\<lambda>name0. 128 - length name0" example_conf "[97]" 9000 "[110]" 0]
  show ?thesis
    by (simp add: ksnMultiInit_def example_nets_def map_simps pblMaxElements_def example_conf_def example_start_def net_name_def)
qed

lemma example_name: "start_name example_conf (9000, [97], [110]) = [110]"
  by (simp add: start_name_def net_name_def example_conf_def example_start_def)

theorem multi_networks_witness:
  "\<exists>p n. teoMultiGetByNetwork (ksnMultiInit example_conf example_nets) [110] = Some p \<and>
     km_heap (ksnMultiInit example_conf example_nets) p = Some n \<and>
     teoMultiGetByNumber (ksnMultiInit example_conf example_nets) (as_int (net_idx n)) = Some (Some p)"
proof -
  let ?km = "ksnMultiInit example_conf example_nets"
  obtain p where "teoMultiGetByNetwork ?km [110] = Some p"
    using example_net by (auto simp: teoMultiGetByNetwork_def net_of_def bind_eq_Some_conv)
  moreover have "length example_nets \<le> pblMaxElements" "\<And>e. e \<in> set example_nets \<Longrightarrow> length (start_name example_conf e) < 128"
    by (simp_all add: example_nets_def pblMaxElements_def example_name)
  ultimately show ?thesis using multi_networks [OF multi_steps.none, of example_nets example_conf] by blast
qed

theorem multi_remove_last_witness:
  "Fault \<in> set (km_out (teoMultiRun (teoMultiRemoveNet [110] (ksnMultiInit example_conf example_nets))))"
proof -
  let ?km = "ksnMultiInit example_conf example_nets"
  obtain n where n: "net_of ?km (strz [110]) = Some n" "net_idx n = 0" using example_net by blast
  have "last_net_idx ?km = 0"
    by (simp add: ksnMultiInit_def example_nets_def net_start_def Let_def km_emit_def split: prod.split option.split)
  moreover have "multi_ok (start_repeats example_conf example_nets) ?km"
    by (rule multi_ok_init) (simp_all add: example_nets_def pblMaxElements_def example_name)
  ultimately show ?thesis using multi_remove_last(1) [of _ ?km "[110]" n] n by simp
qed

text \<open>
  Destroying: when the list begins with the network with the last number, the search for the one before
  reads its freed node.
\<close>

theorem multi_destroy_fault:
  assumes "pblMapEntries (km_list km) = (key, p) # es" and "km_heap km p = Some n" and "net_idx n = last_net_idx km"
    and "unat (last_net_idx km) = Suc m" and "Suc m < 2 ^ 31" and "net_free n \<noteq> None"
  shows "Fault \<in> set (km_out (ksnMultiDestroy km))"
proof -
  have small: "unat (last_net_idx km) < 2 ^ 31" using assms(4,5) by (simp only:)
  have idx: "of_int (as_int (last_net_idx km)) = last_net_idx km" by (rule of_as_int [OF small])
  have int: "as_int (last_net_idx km) = int (Suc m)" using as_int_small [OF small] assms(4) by simp
  obtain ke kt where f: "net_free n = Some (ke, kt)" using assms(6) by auto
  have get: "teoMultiGetByNumber km (int (Suc m)) = Some (Some p)"
    using assms(1-3) idx unfolding int by (simp add: teoMultiGetByNumber_def del: of_int_of_nat_eq)
  have stop: "net_stop p km = km_emit (ke_out ke) (km\<lparr>km_heap := (km_heap km)(p := None)\<rparr>)" by (simp add: net_stop_def assms(2) f)
  have "teoMultiGetByNumber (net_stop p km) num = None" for num
    unfolding stop by (simp add: teoMultiGetByNumber_def km_emit_def assms(1))
  then have "Fault \<in> set (km_out (multi_destroy_loop m (net_stop p km)))"
    by (simp add: multi_destroy_loop.simps [of m] km_emit_def)
  then show ?thesis
    using get by (simp add: ksnMultiDestroy_def int Let_def multi_destroy_loop.simps [of "Suc m"] nat_add_distrib)
qed

text \<open>
  A stopped node does not stop the timers of its queue: with several networks the loop goes on, and the
  watchers lie in the records that have been freed.
\<close>

theorem stopped_timers_stay:
  assumes "\<And>key cq. pblMapGet (cque_map (kq ke)) key = Some cq \<Longrightarrow> cq_timeout cq \<noteq> None"
  shows "ke_out (ksnCQueDestroy (ksnetEvMgrStop ke)) = ke_out ke"
    and "pblMapIsEmpty (cque_map (kq (ksnCQueDestroy (ksnetEvMgrStop ke))))"
proof -
  have "(case cq_timeout cq of None \<Rightarrow> [UninitRead] | Some t \<Rightarrow> if t > 0 \<and> False then [TimerStop (cq_id cq)] else []) = []"
    if "(key, cq) \<in> set (pblMapEntries (cque_map (kq ke)))" for key cq
    using that assms [of key cq] by (auto simp: entries_mem)
  then have "concat (map (\<lambda>(key, cq). case cq_timeout cq of None \<Rightarrow> [UninitRead]
      | Some t \<Rightarrow> if t > 0 \<and> False then [TimerStop (cq_id cq)] else []) (pblMapEntries (cque_map (kq ke)))) = []"
    by (auto simp: concat_eq_Nil_conv)
  then show "ke_out (ksnCQueDestroy (ksnetEvMgrStop ke)) = ke_out ke"
    "pblMapIsEmpty (cque_map (kq (ksnCQueDestroy (ksnetEvMgrStop ke))))"
    by (simp_all add: ksnCQueDestroy_def teoCqueStopAll_def ksnetEvMgrStop_def emit_def map_simps)
qed

lemma net_free_example: "net_free \<lparr>net_state = (exampleNode [97], ksnTcpInit), net_args = a, net_idx = i, net_count = c\<rparr> \<noteq> None"
proof -
  have ok: "tcp_ok ksnTcpInit" by (rule tcp_ok_reachable) simp
  have "\<exists>kt'. ksnTcpServerStopAll (snd (before_core (ke, ksnTcpInit))) = Some kt'" for ke
    using stop_all_ok [OF before_core_tcp [OF ok, of ke]] by blast
  then show ?thesis
    by (simp add: net_free_def ksnetEvMgrFree_def Let_def modules_destroy_def ksnTcpDestroy_def before_core_def split: option.split prod.split)
      (metis option.distinct(1) snd_conv)
qed

theorem multi_destroy_fault_witness: "\<exists>km. Fault \<in> set (km_out (ksnMultiDestroy km))"
proof -
  define m :: "nat PblMap" where "m = pblMapAddTo (pblMapAddTo pblMapNewHashMap (strz [110]) 1) (strz [111]) 2"
  have "length (pblMapEntries m) = 2"
    by (simp add: m_def map_simps pblMapRoom_def pblMaxElements_def strz_def)
  then obtain key p es where es: "pblMapEntries m = (key, p) # es" by (metis length_0_conv neq_Nil_conv surj_pair zero_neq_numeral)
  define n where "n = \<lparr>net_state = (exampleNode [97], ksnTcpInit), net_args = example_start, net_idx = 1, net_count = 2\<rparr>"
  define km where "km = \<lparr>km_list = m, km_net_count = 2, last_net_idx = 1,
    km_heap = (\<lambda>q. Some (if q = p then n else n\<lparr>net_idx := 0\<rparr>)), km_next = 3, km_out = []\<rparr>"
  have "Fault \<in> set (km_out (ksnMultiDestroy km))"
    by (rule multi_destroy_fault [of km key p es n 0])
      (use es net_free_example [of example_start 1 2] in \<open>simp_all add: km_def n_def\<close>)
  then show ?thesis ..
qed

end
