(* ===== verification/LogText.thy ===== *)
theory LogText
  imports NetCore
begin

text \<open>
  The functions of utils/utils.c that log messages go through: removing the escape sequences of a
  terminal, trimming, counting lines. They work in place on a zero-terminated text; the loops below
  write into the array that holds it, and a result is the text in front of the first zero.
\<close>

section \<open>Escape sequences\<close>

text \<open>
  The loop of removeTEsc over the positions up to and including the terminating zero. Inside a
  sequence nothing is written, the terminating zero included.
\<close>

definition ESC :: u8 where "ESC = 27"

fun removeTEsc_loop :: "nat \<Rightarrow> nat \<Rightarrow> nat \<Rightarrow> bool \<Rightarrow> bytes \<Rightarrow> bytes" where
  "removeTEsc_loop 0 i j skip_esc str = str"
| "removeTEsc_loop (Suc n) i j skip_esc str =
     (if skip_esc \<and> str ! i = 109 then removeTEsc_loop n (i + 1) j False str
      else if \<not> skip_esc \<and> str ! i = ESC then removeTEsc_loop n (i + 1) j True str
      else if \<not> skip_esc then removeTEsc_loop n (i + 1) (j + 1) skip_esc (str[j := str ! i])
      else removeTEsc_loop n (i + 1) j skip_esc str)"

definition removeTEsc :: "bytes \<Rightarrow> bytes" where
  "removeTEsc str = cstr (removeTEsc_loop (length str + 1) 0 0 False (strz str))"

section \<open>Trimming\<close>

fun trimlf_loop :: "nat \<Rightarrow> bytes \<Rightarrow> bytes" where
  "trimlf_loop 0 str = str"
| "trimlf_loop (Suc n) str = (if str ! n = 10 \<or> str ! n = 13 then trimlf_loop n (str[n := 0]) else str)"

definition trimlf :: "bytes \<Rightarrow> bytes" where
  "trimlf str = cstr (trimlf_loop (length str) (strz str))"

fun trim_begin :: "nat \<Rightarrow> nat \<Rightarrow> nat \<Rightarrow> bool \<Rightarrow> bytes \<Rightarrow> bytes" where
  "trim_begin 0 i j stop str = str[j := 0]"
| "trim_begin (Suc n) i j stop str =
     (if stop \<or> str ! i \<noteq> 32 \<and> str ! i \<noteq> 9 then trim_begin n (i + 1) (j + 1) True (str[j := str ! i])
      else trim_begin n (i + 1) j stop str)"

fun trim_end :: "nat \<Rightarrow> bytes \<Rightarrow> bytes" where
  "trim_end 0 str = str"
| "trim_end (Suc n) str = (if str ! n = 32 \<or> str ! n = 9 then trim_end n (str[n := 0]) else str)"

definition trim :: "bytes \<Rightarrow> bytes" where
  "trim str = (let s = trim_begin (length str) 0 0 False (strz str) in cstr (trim_end (length (cstr s)) s))"

section \<open>Lines\<close>

fun calculate_lines :: "bytes \<Rightarrow> nat" where
  "calculate_lines [] = 0"
| "calculate_lines (c # str) = (if c = 10 then 1 else 0) + calculate_lines str"

section \<open>What is left of a text\<close>

text \<open>The characters that the loop keeps.\<close>

fun kept :: "bool \<Rightarrow> bytes \<Rightarrow> bytes" where
  "kept skip [] = []"
| "kept skip (c # cs) =
     (if skip \<and> c = 109 then kept False cs
      else if \<not> skip \<and> c = ESC then kept True cs
      else if \<not> skip then c # kept skip cs
      else kept skip cs)"

lemma update_shift: "(ks @ mid @ c # cs)[length ks := c] = (ks @ [c]) @ (if mid = [] then [] else tl mid @ [c]) @ cs"
  by (cases mid) simp_all

lemma length_kept: "length (kept skip cs) \<le> length cs"
  by (induction skip cs rule: kept.induct) auto

lemma removeTEsc_loop_kept:
  "removeTEsc_loop (length cs) (length (ks @ mid)) (length ks) skip (ks @ mid @ cs) =
     ks @ kept skip cs @ drop (length (kept skip cs)) (mid @ cs)"
proof (induction cs arbitrary: ks mid skip)
  case (Cons c cs)
  have at: "(ks @ mid @ c # cs) ! length (ks @ mid) = c" by (simp add: nth_append)
  have skipped: "removeTEsc_loop (length cs) (length (ks @ mid) + 1) (length ks) sk (ks @ mid @ c # cs) =
      ks @ kept sk cs @ drop (length (kept sk cs)) (mid @ c # cs)" for sk
    using Cons.IH [of ks "mid @ [c]" sk] by simp
  let ?mid = "if mid = [] then [] else tl mid @ [c]"
  have moved: "removeTEsc_loop (length cs) (length (ks @ mid) + 1) (length ks + 1) False ((ks @ mid @ c # cs)[length ks := c]) =
      ks @ c # kept False cs @ drop (length (kept False cs)) (?mid @ cs)"
    unfolding update_shift using Cons.IH [of "ks @ [c]" ?mid False] by (cases mid) simp_all
  have "drop (length (kept False cs)) (?mid @ cs) = drop (length (c # kept False cs)) (mid @ c # cs)"
    by (cases mid) simp_all
  then show ?case using skipped moved by (simp only: list.size kept.simps removeTEsc_loop.simps at) auto
qed simp

lemma removeTEsc_kept:
  "removeTEsc str = cstr (kept False (strz str) @ drop (length (kept False (strz str))) (strz str))"
  using removeTEsc_loop_kept [of "strz str" "[]" "[]" False] by (simp add: removeTEsc_def)

text \<open>A text in pieces: plain ones and escape sequences, which begin with ESC and end with the letter m.\<close>

datatype logPiece =
    Plain bytes
  | Colour bytes

fun piece_ok :: "logPiece \<Rightarrow> bool" where
  "piece_ok (Plain s) \<longleftrightarrow> ESC \<notin> set s \<and> 0 \<notin> set s"
| "piece_ok (Colour s) \<longleftrightarrow> 109 \<notin> set s \<and> 0 \<notin> set s"

fun piece_text :: "logPiece \<Rightarrow> bytes" where
  "piece_text (Plain s) = s"
| "piece_text (Colour s) = ESC # s @ [109]"

fun piece_plain :: "logPiece \<Rightarrow> bytes" where
  "piece_plain (Plain s) = s"
| "piece_plain (Colour s) = []"

lemma kept_plain: "ESC \<notin> set s \<Longrightarrow> kept False (s @ cs) = s @ kept False cs"
  by (induction s) auto

lemma kept_skip: "109 \<notin> set s \<Longrightarrow> kept True (s @ cs) = kept True cs"
  by (induction s) auto

lemma kept_pieces:
  assumes "list_all piece_ok ps"
  shows "kept False (concat (map piece_text ps) @ cs) = concat (map piece_plain ps) @ kept False cs"
  using assms
proof (induction ps)
  case (Cons p ps)
  then show ?case by (cases p) (simp_all add: kept_plain kept_skip)
qed simp

lemma pieces_no_zero:
  assumes "list_all piece_ok ps"
  shows "0 \<notin> set (concat (map piece_text ps))" "0 \<notin> set (concat (map piece_plain ps))"
proof -
  have "0 \<notin> set (piece_text p)" "0 \<notin> set (piece_plain p)" if "piece_ok p" for p
    using that by (cases p; simp add: ESC_def)+
  then show "0 \<notin> set (concat (map piece_text ps))" "0 \<notin> set (concat (map piece_plain ps))"
    using assms by (auto simp: list_all_iff)
qed

text \<open>
  Of a text whose escape sequences all end with the letter m, removeTEsc leaves the plain pieces. If
  the last one does not, such as one that erases a line, the terminating zero is taken for a part of it:
  what follows the plain pieces is the old text from there on, with escape sequences in it.
\<close>

theorem escapes_removed:
  assumes "list_all piece_ok ps" and "109 \<notin> set x" and "0 \<notin> set x"
  shows "removeTEsc (concat (map piece_text ps)) = concat (map piece_plain ps) \<and>
    removeTEsc (concat (map piece_text ps) @ ESC # x) =
      concat (map piece_plain ps) @ drop (length (concat (map piece_plain ps))) (concat (map piece_text ps) @ ESC # x)"
proof -
  let ?s = "concat (map piece_text ps)" and ?p = "concat (map piece_plain ps)"
  note z = pieces_no_zero [OF assms(1)]
  have "kept False (strz ?s) = ?p @ [0]"
    using kept_pieces [OF assms(1), of "[0]"] by (simp add: strz_def ESC_def)
  then have 1: "removeTEsc ?s = ?p"
    unfolding removeTEsc_kept using z(2) by (simp add: cstr_def takeWhile_tail) (use z(2) in \<open>auto simp: takeWhile_eq_all_conv\<close>)
  have "kept False (strz (?s @ ESC # x)) = ?p"
    using kept_pieces [OF assms(1), of "ESC # x @ [0]"] kept_skip [of "x @ [0]" "[]"] assms(2) by (simp add: strz_def)
  moreover have "length ?p \<le> length ?s"
    using length_kept [of False ?s] kept_pieces [OF assms(1), of "[]"] by simp
  ultimately have "removeTEsc (?s @ ESC # x) = cstr (strz (?p @ drop (length ?p) (?s @ ESC # x)))"
    unfolding removeTEsc_kept by (simp add: strz_def)
  moreover have "0 \<notin> set (?p @ drop (length ?p) (?s @ ESC # x))"
    using z assms(3) by (auto simp: ESC_def dest!: in_set_dropD)
  ultimately show ?thesis using 1 by (simp add: cstr_strz)
qed

text \<open>A bold text with an erased line behind it keeps the second sequence and the rest of the first.\<close>

theorem escapes_removed_witness:
  "removeTEsc (ascii ''a'' @ ESC # ascii ''[1mb'') = ascii ''ab'' \<and>
   removeTEsc (ESC # ascii ''[1mab'' @ ESC # ascii ''[K'') = ascii ''ab1mab'' @ ESC # ascii ''[K''"
proof -
  have "109 \<notin> set (ascii ''[K'')" "0 \<notin> set (ascii ''[K'')" by (simp_all add: ascii_def)
  moreover have "list_all piece_ok [Plain (ascii ''a''), Colour (ascii ''[1''), Plain (ascii ''b'')]"
    "list_all piece_ok [Colour (ascii ''[1''), Plain (ascii ''ab'')]" by (simp_all add: ascii_def ESC_def)
  ultimately show ?thesis
    using escapes_removed [of "[Plain (ascii ''a''), Colour (ascii ''[1''), Plain (ascii ''b'')]" "ascii ''[K''"]
      escapes_removed [of "[Colour (ascii ''[1''), Plain (ascii ''ab'')]" "ascii ''[K''"] by (simp add: ascii_def)
qed

section \<open>Trimming\<close>

lemma trim_loop_spec:
  assumes "\<And>n str. loop (Suc n) str = (if P (str ! n) then loop n (str[n := 0]) else str)" and "\<And>str. loop 0 str = str"
  shows "loop (length s) (s @ r) =
    rev (dropWhile P (rev s)) @ replicate (length s - length (dropWhile P (rev s))) (0::u8) @ r"
proof (induction s arbitrary: r rule: rev_induct)
  case (snoc x s)
  have "length (dropWhile P (rev s)) \<le> length s" by (metis length_dropWhile_le length_rev)
  then show ?case
    using snoc [of "0 # r"] by (simp add: assms(1) nth_append list_update_append Suc_diff_le replicate_append_same [symmetric])
qed (simp add: assms(2))

lemma cstr_zero: "0 \<notin> set s \<Longrightarrow> cstr (s @ 0 # r) = s"
  using cstr_strz_append [of s r] by (simp add: strz_def)

lemma cstr_trimmed: "0 \<notin> set s \<Longrightarrow> cstr (rev (dropWhile P (rev s)) @ replicate k 0 @ 0 # r) = rev (dropWhile P (rev s))"
  using cstr_zero [of "rev (dropWhile P (rev s))"] by (cases k) (use set_dropWhileD [of 0 P "rev s"] in auto)

lemma trimlf_spec: "0 \<notin> set str \<Longrightarrow> trimlf str = rev (dropWhile (\<lambda>c. c = 10 \<or> c = 13) (rev str))"
  using trim_loop_spec [of trimlf_loop "\<lambda>c. c = 10 \<or> c = 13" str "[0]"] by (simp add: trimlf_def strz_def cstr_trimmed)

lemma trim_begin_spec:
  "\<exists>r. trim_begin (length cs) (length (ks @ mid)) (length ks) stop (ks @ mid @ strz cs) =
     ks @ (if stop then cs else dropWhile (\<lambda>c. c = 32 \<or> c = 9) cs) @ 0 # r"
proof (induction cs arbitrary: ks mid stop)
  case Nil
  then show ?case by (cases mid) (simp_all add: strz_def)
next
  case (Cons c cs)
  have at: "(ks @ mid @ strz (c # cs)) ! length (ks @ mid) = c" by (simp add: nth_append strz_def)
  let ?mid = "if mid = [] then [] else tl mid @ [c]"
  have moved: "(ks @ mid @ strz (c # cs))[length ks := c] = (ks @ [c]) @ ?mid @ strz cs"
    using update_shift [of ks mid c "strz cs"] by (simp add: strz_def)
  have len: "length (ks @ mid) + 1 = length ((ks @ [c]) @ ?mid)" "length ks + 1 = length (ks @ [c])" by (cases mid) simp_all
  have step: "trim_begin (length (c # cs)) (length (ks @ mid)) (length ks) stop (ks @ mid @ strz (c # cs)) =
      (if stop \<or> c \<noteq> 32 \<and> c \<noteq> 9
       then trim_begin (length cs) (length ((ks @ [c]) @ ?mid)) (length (ks @ [c])) True ((ks @ [c]) @ ?mid @ strz cs)
       else trim_begin (length cs) (length (ks @ mid) + 1) (length ks) stop (ks @ mid @ strz (c # cs)))"
    by (simp only: list.size add_Suc_right add_0_right trim_begin.simps at moved len)
  have skip: "ks @ mid @ strz (c # cs) = ks @ (mid @ [c]) @ strz cs" by (simp add: strz_def)
  show ?case
    unfolding step using Cons.IH [of "ks @ [c]" ?mid True] Cons.IH [of ks "mid @ [c]" False] by (auto simp: skip)
qed

lemma trim_spec:
  assumes "0 \<notin> set str"
  shows "trim str = rev (dropWhile (\<lambda>c. c = 32 \<or> c = 9) (rev (dropWhile (\<lambda>c. c = 32 \<or> c = 9) str)))"
proof -
  let ?t = "dropWhile (\<lambda>c. c = 32 \<or> c = 9) str"
  obtain r where b: "trim_begin (length str) 0 0 False (strz str) = ?t @ 0 # r"
    using trim_begin_spec [of str "[]" "[]" False] by auto
  have z: "0 \<notin> set ?t" using assms by (auto dest: set_dropWhileD)
  then have "cstr (?t @ 0 # r) = ?t" by (rule cstr_zero)
  then show ?thesis
    using trim_loop_spec [of trim_end "\<lambda>c. c = 32 \<or> c = 9" ?t "0 # r"] z
    by (simp add: trim_def b cstr_trimmed)
qed

end
