(* ===== verification/TextScan.thy ===== *)
theory TextScan
  imports NetCore
begin

text \<open>
  The scanner of the filter for log lines (text-filter/lexer-filter.c, generated by flex from
  lexer-filter.l): its tables, the loop over the compressed automaton with backing up to the last
  accepting state, and the actions. The buffer is the text with the two zero bytes that end it; the text
  has no zero byte in it. Printed output is left out.
\<close>

section \<open>Tables\<close>

text \<open>\<open>yy_accept\<close> gives the rule of an accepting state; 12 is the end of the buffer.\<close>

definition yy_accept :: "nat list" where
  "yy_accept =
   [0, 0, 0, 12, 10, 8, 7, 1, 10, 2, 7, 9, 5, 5, 3, 0, 6, 5, 5, 5, 5, 5, 4, 0]"

definition yy_ec :: "nat list" where
  "yy_ec =
   [0, 1, 1, 1, 1, 1, 1, 1, 1, 2, 3, 1, 1, 1, 1, 1, 1, 1, 1, 1, 1, 1, 1, 1, 1, 1, 1, 1, 1, 1, 1, 1, 2,
    4, 5, 1, 1, 1, 6, 1, 7, 7, 1, 1, 8, 1, 1, 1, 1, 1, 1, 1, 1, 1, 1, 1, 1, 1, 1, 1, 1, 7, 1, 1, 1, 1,
    1, 1, 1, 1, 1, 1, 1, 1, 1, 1, 1, 1, 1, 1, 1, 1, 1, 1, 1, 1, 1, 1, 1, 1, 1, 1, 1, 1, 1, 9, 1, 10, 9,
    9, 9, 9, 9, 11, 9, 9, 9, 9, 12, 9, 9, 13, 9, 9, 14, 9, 9, 9, 15, 9, 9, 9, 9, 1, 16, 1, 1, 1, 1, 1,
    1, 1, 1, 1, 1, 1, 1, 1, 1, 1, 1, 1, 1, 1, 1, 1, 1, 1, 1, 1, 1, 1, 1, 1, 1, 1, 1, 1, 1, 1, 1, 1, 1,
    1, 1, 1, 1, 1, 1, 1, 1, 1, 1, 1, 1, 1, 1, 1, 1, 1, 1, 1, 1, 1, 1, 1, 1, 1, 1, 1, 1, 1, 1, 1, 1, 1,
    1, 1, 1, 1, 1, 1, 1, 1, 1, 1, 1, 1, 1, 1, 1, 1, 1, 1, 1, 1, 1, 1, 1, 1, 1, 1, 1, 1, 1, 1, 1, 1, 1,
    1, 1, 1, 1, 1, 1, 1, 1, 1, 1, 1, 1, 1, 1, 1, 1, 1, 1, 1, 1, 1, 1, 1, 1, 1, 1, 1]"

definition yy_meta :: "nat list" where
  "yy_meta =
   [0, 1, 1, 1, 1, 1, 1, 1, 1, 2, 2, 2, 2, 2, 2, 2, 1]"

definition yy_base :: "nat list" where
  "yy_base =
   [0, 0, 0, 27, 28, 28, 28, 28, 21, 28, 28, 28, 0, 12, 28, 19, 28, 0, 12, 7, 11, 6, 0, 28, 16, 17]"

definition yy_def :: "nat list" where
  "yy_def =
   [0, 23, 1, 23, 23, 23, 23, 23, 24, 23, 23, 23, 25, 25, 23, 24, 23, 25, 25, 25, 25, 25, 25, 0, 23, 23]"

definition yy_nxt :: "nat list" where
  "yy_nxt =
   [0, 4, 5, 6, 7, 8, 9, 10, 11, 12, 12, 12, 13, 12, 12, 12, 14, 15, 15, 17, 22, 21, 20, 19, 16, 18,
    16, 23, 3, 23, 23, 23, 23, 23, 23, 23, 23, 23, 23, 23, 23, 23, 23, 23, 23]"

definition yy_chk :: "nat list" where
  "yy_chk =
   [0, 1, 1, 1, 1, 1, 1, 1, 1, 1, 1, 1, 1, 1, 1, 1, 1, 24, 24, 25, 21, 20, 19, 18, 15, 13, 8, 3, 23,
    23, 23, 23, 23, 23, 23, 23, 23, 23, 23, 23, 23, 23, 23, 23, 23]"

section \<open>The automaton\<close>

text \<open>The inner loop: the next state is in the row of a state or in that of one of its defaults.\<close>

partial_function (option) yy_chain :: "nat \<Rightarrow> nat \<Rightarrow> nat option" where
  "yy_chain s yy_c =
     (if yy_chk ! (yy_base ! s + yy_c) = s then Some (yy_nxt ! (yy_base ! s + yy_c))
      else let s1 = yy_def ! s in yy_chain s1 (if 24 \<le> s1 then yy_meta ! yy_c else yy_c))"

declare yy_chain.simps [code]

text \<open>
  From a state with \<open>n\<close> bytes matched: the last accepting state with its place is kept, until the state
  can match no further. None: the loop would read behind the buffer.
\<close>

fun yy_match :: "nat \<Rightarrow> nat \<times> nat \<Rightarrow> nat \<Rightarrow> bytes \<Rightarrow> (nat \<times> nat \<times> nat \<times> nat) option" where
  "yy_match s lst n [] = None"
| "yy_match s lst n (c # cs) =
     (let lst1 = (if yy_accept ! s \<noteq> 0 then (s, n) else lst)
      in case yy_chain s (yy_ec ! unat c) of
           None \<Rightarrow> None
         | Some s1 \<Rightarrow> if yy_base ! s1 \<noteq> 28 then yy_match s1 lst1 (n + 1) cs else Some (s1, n + 1, lst1))"

fun yy_get_previous_state :: "nat \<Rightarrow> nat \<times> nat \<Rightarrow> nat \<Rightarrow> bytes \<Rightarrow> (nat \<times> nat \<times> nat) option" where
  "yy_get_previous_state s lst n [] = Some (s, lst)"
| "yy_get_previous_state s lst n (c # cs) =
     (let lst1 = (if yy_accept ! s \<noteq> 0 then (s, n) else lst)
      in case yy_chain s (if c \<noteq> 0 then yy_ec ! unat c else 1) of
           None \<Rightarrow> None
         | Some s1 \<Rightarrow> yy_get_previous_state s1 lst1 (n + 1) cs)"

text \<open>The rule and the number of bytes it matches.\<close>

definition yy_find_action :: "nat \<Rightarrow> nat \<Rightarrow> nat \<times> nat \<Rightarrow> nat \<times> nat" where
  "yy_find_action s n lst = (if yy_accept ! s = 0 then (yy_accept ! fst lst, snd lst) else (yy_accept ! s, n))"

definition YY_END_OF_BUFFER :: nat where "YY_END_OF_BUFFER = 12"

text \<open>At the end of the buffer what was matched before it is looked at again; nothing matched is the end of the file.\<close>

definition yy_act :: "bytes \<Rightarrow> (nat \<times> nat) option" where
  "yy_act txt =
     (case yy_match 1 (0, 0) 0 (txt @ [0, 0]) of
        None \<Rightarrow> None
      | Some (s, n, lst) \<Rightarrow>
          (case yy_find_action s n lst of
             (act, m) \<Rightarrow>
               if act = YY_END_OF_BUFFER
               then if m = 1 then Some (YY_END_OF_BUFFER + 1, 0)
                    else map_option (\<lambda>(s1, lst1). yy_find_action s1 (length txt) lst1) (yy_get_previous_state 1 lst 0 txt)
               else Some (act, m)))"

section \<open>The actions\<close>

text \<open>The value of a token: text, a number, or what memory holds.\<close>

datatype YYSTYPE = SValue bytes | IValue int | Garbage

definition TSTRING :: int where "TSTRING = 258"
definition TWORD :: int where "TWORD = 259"
definition TLOGVAR :: int where "TLOGVAR = 260"
definition TAND :: int where "TAND = 261"
definition TOR :: int where "TOR = 262"
definition TNOT :: int where "TNOT = 263"

text \<open>
  The token, the variable yylval, which keeps its value when the token has none, and the text left. The
  token is 0 at the end of the text.
\<close>

partial_function (option) yylex :: "YYSTYPE \<Rightarrow> bytes \<Rightarrow> (int \<times> YYSTYPE \<times> bytes) option" where
  "yylex yylval txt =
     (case yy_act txt of
        None \<Rightarrow> None
      | Some (act, n) \<Rightarrow>
          let yytext = take n txt; left = drop n txt
          in if act = 1 then Some (TNOT, yylval, left)
             else if act = 2 then Some (TAND, yylval, left)
             else if act = 3 then Some (TOR, yylval, left)
             else if act = 4 then Some (TLOGVAR, yylval, left)
             else if act = 5 then Some (TWORD, SValue yytext, left)
             else if act = 6 then Some (TSTRING, SValue (take (n - 2) (drop 1 yytext)), left)
             else if act = 7 \<or> act = 9 then Some (uint (hd yytext), yylval, left)
             else if act = YY_END_OF_BUFFER + 1 then Some (0, yylval, left)
             else yylex yylval left)"

section \<open>The rules\<close>

text \<open>
  The patterns of lexer-filter.l in their order; each gives the length of the longest match at the
  beginning of a text, 0 for none. A scanner takes the longest match, of equal ones the first.
\<close>

definition word_char :: "u8 \<Rightarrow> bool" where "word_char c \<longleftrightarrow> 97 \<le> c \<and> c \<le> 122 \<or> c = 95"

definition lit :: "bytes \<Rightarrow> bytes \<Rightarrow> nat" where
  "lit w txt = (if take (length w) txt = w then length w else 0)"

definition one :: "(u8 \<Rightarrow> bool) \<Rightarrow> bytes \<Rightarrow> nat" where
  "one P txt = (case txt of [] \<Rightarrow> 0 | c # cs \<Rightarrow> if P c then 1 else 0)"

definition quoted :: "bytes \<Rightarrow> nat" where
  "quoted txt =
     (case txt of [] \<Rightarrow> 0 | c # cs \<Rightarrow> if c = 34 \<and> 34 \<in> set cs then length (takeWhile (\<lambda>x. x \<noteq> 34) cs) + 2 else 0)"

definition logvar :: bytes where "logvar = [108, 111, 103, 118, 97, 114]"

definition lex_rules :: "(bytes \<Rightarrow> nat) list" where
  "lex_rules =
     [lit [33], lit [38], lit [124], lit logvar, \<lambda>txt. length (takeWhile word_char txt), quoted,
      one (\<lambda>c. c \<in> {40, 41, 61, 10}), one (\<lambda>c. c \<in> {32, 9}), lit [44], one (\<lambda>c. c \<noteq> 10)]"

text \<open>The number of the rule, from 1, and the length.\<close>

fun longest :: "nat \<Rightarrow> nat list \<Rightarrow> nat \<times> nat" where
  "longest i [] = (0, 0)"
| "longest i (l # ls) = (case longest (i + 1) ls of (j, m) \<Rightarrow> if m \<le> l then (i, l) else (j, m))"

definition lex_rule :: "bytes \<Rightarrow> nat \<times> nat" where
  "lex_rule txt = longest 1 (map (\<lambda>r. r txt) lex_rules)"

section \<open>The automaton follows the rules\<close>

text \<open>The rows of the automaton when they are unpacked; state 23 is the one that matches nothing more.\<close>

definition only_end :: "nat list" where "only_end = 3 # replicate 16 23"
definition in_word :: "nat list" where "in_word = [3, 23, 23, 23, 23, 23, 23, 23, 23, 17, 17, 17, 17, 17, 17, 17, 23]"
definition in_quotes :: "nat list" where "in_quotes = [3, 15, 15, 15, 15, 16, 15, 15, 15, 15, 15, 15, 15, 15, 15, 15, 15]"

definition yy_row :: "nat \<Rightarrow> nat list" where
  "yy_row s =
     (if s = 1 \<or> s = 2 then [3, 4, 5, 6, 7, 8, 9, 10, 11, 12, 12, 12, 13, 12, 12, 12, 14]
      else if s = 3 then replicate 17 23
      else if s = 8 \<or> s = 15 then in_quotes
      else if s = 12 \<or> s = 17 \<or> s = 22 then in_word
      else if s = 13 then in_word[13 := 18] else if s = 18 then in_word[11 := 19] else if s = 19 then in_word[15 := 20]
      else if s = 20 then in_word[10 := 21] else if s = 21 then in_word[14 := 22]
      else only_end)"

lemma yy_rows: "list_all (\<lambda>s. list_all (\<lambda>c. yy_chain s c = Some (yy_row s ! c)) [0..<17]) [1..<23]"
  by code_simp

lemma yy_chain_row: "1 \<le> s \<Longrightarrow> s < 23 \<Longrightarrow> c < 17 \<Longrightarrow> yy_chain s c = Some (yy_row s ! c)"
  using yy_rows by (auto simp: list_all_iff)

text \<open>The class of a byte.\<close>

definition yy_class :: "u8 \<Rightarrow> nat" where "yy_class c = yy_ec ! unat c"

definition class_of :: "nat \<Rightarrow> nat" where
  "class_of n =
     (if n = 0 then 0 else if n = 9 \<or> n = 32 then 2 else if n = 10 then 3 else if n = 33 then 4 else if n = 34 then 5
      else if n = 38 then 6 else if n = 40 \<or> n = 41 \<or> n = 61 then 7 else if n = 44 then 8 else if n = 97 then 10
      else if n = 103 then 11 else if n = 108 then 12 else if n = 111 then 13 else if n = 114 then 14
      else if n = 118 then 15 else if n = 124 then 16 else if 97 \<le> n \<and> n \<le> 122 \<or> n = 95 then 9 else 1)"

lemma yy_classes: "yy_ec = map class_of [0..<256]"
  by code_simp

lemma yy_class:
  shows "yy_class c < 17" and "9 \<le> yy_class c \<and> yy_class c \<le> 15 \<longleftrightarrow> word_char c"
    and "yy_class c = 0 \<longleftrightarrow> c = 0" and "yy_class c = 2 \<longleftrightarrow> c = 9 \<or> c = 32" and "yy_class c = 3 \<longleftrightarrow> c = 10"
    and "yy_class c = 4 \<longleftrightarrow> c = 33" and "yy_class c = 5 \<longleftrightarrow> c = 34" and "yy_class c = 6 \<longleftrightarrow> c = 38"
    and "yy_class c = 7 \<longleftrightarrow> c = 40 \<or> c = 41 \<or> c = 61" and "yy_class c = 8 \<longleftrightarrow> c = 44" and "yy_class c = 16 \<longleftrightarrow> c = 124"
    and "yy_class c = 10 \<longleftrightarrow> c = 97" and "yy_class c = 11 \<longleftrightarrow> c = 103" and "yy_class c = 12 \<longleftrightarrow> c = 108"
    and "yy_class c = 13 \<longleftrightarrow> c = 111" and "yy_class c = 14 \<longleftrightarrow> c = 114" and "yy_class c = 15 \<longleftrightarrow> c = 118"
proof -
  have "unat c < 256" using unsigned_less [of c, where ?'a = nat] by simp
  then have k: "yy_class c = class_of (unat c)" by (simp add: yy_class_def yy_classes)
  show "yy_class c < 17" by (simp add: k class_of_def)
  show "9 \<le> yy_class c \<and> yy_class c \<le> 15 \<longleftrightarrow> word_char c"
    by (auto simp: k class_of_def word_char_def word_le_nat_alt word_unat_eq_iff split: if_splits)
  show "yy_class c = 0 \<longleftrightarrow> c = 0" "yy_class c = 2 \<longleftrightarrow> c = 9 \<or> c = 32" "yy_class c = 3 \<longleftrightarrow> c = 10"
    "yy_class c = 4 \<longleftrightarrow> c = 33" "yy_class c = 5 \<longleftrightarrow> c = 34" "yy_class c = 6 \<longleftrightarrow> c = 38"
    "yy_class c = 7 \<longleftrightarrow> c = 40 \<or> c = 41 \<or> c = 61" "yy_class c = 8 \<longleftrightarrow> c = 44" "yy_class c = 16 \<longleftrightarrow> c = 124"
    "yy_class c = 10 \<longleftrightarrow> c = 97" "yy_class c = 11 \<longleftrightarrow> c = 103" "yy_class c = 12 \<longleftrightarrow> c = 108"
    "yy_class c = 13 \<longleftrightarrow> c = 111" "yy_class c = 14 \<longleftrightarrow> c = 114" "yy_class c = 15 \<longleftrightarrow> c = 118"
    by (auto simp: k class_of_def word_unat_eq_iff split: if_splits)
qed

lemma yy_step: "1 \<le> s \<Longrightarrow> s < 23 \<Longrightarrow> yy_chain s (yy_ec ! unat c) = Some (yy_row s ! yy_class c)"
  using yy_class(1) [of c] by (simp add: yy_chain_row yy_class_def)

lemma yy_tables: "yy_accept ! 3 = 12" "yy_accept ! 15 = 0" "yy_accept ! 16 = 6" "yy_accept ! 23 = 0" "yy_accept ! 1 = 0" "yy_accept ! 8 = 10"
  "yy_base ! 3 = 27" "yy_base ! 8 = 21" "yy_base ! 15 = 19" "yy_base ! 16 = 28" "yy_base ! 23 = 28"
  by (simp_all add: yy_accept_def yy_base_def)

text \<open>The states within a word.\<close>

definition word_state :: "nat \<Rightarrow> bool" where "word_state s \<longleftrightarrow> s = 12 \<or> s = 13 \<or> 17 \<le> s \<and> s \<le> 22"

lemma word_state_rows: "list_all (\<lambda>s. list_all (\<lambda>c. word_state s \<longrightarrow>
     (if 9 \<le> c \<and> c \<le> 15 then word_state (yy_row s ! c) else yy_row s ! c = (if c = 0 then 3 else 23))) [0..<17]) [0..<23]"
  by code_simp

lemma word_state_class: "c < 17 \<Longrightarrow> word_state s \<Longrightarrow>
   (if 9 \<le> c \<and> c \<le> 15 then word_state (yy_row s ! c) else yy_row s ! c = (if c = 0 then 3 else 23))"
proof -
  assume "c < 17" and w: "word_state s"
  from w have "s < 23" by (auto simp: word_state_def)
  with \<open>c < 17\<close> word_state_rows w show ?thesis by (auto simp: list_all_iff)
qed

lemma word_state_step:
  assumes "word_state s"
  shows "word_char c \<Longrightarrow> word_state (yy_row s ! yy_class c)"
    and "\<not> word_char c \<Longrightarrow> yy_row s ! yy_class c = (if c = 0 then 3 else 23)"
  using word_state_class [OF yy_class(1) assms, of c] yy_class(2,3) [of c] by (auto split: if_splits)

lemma word_state_tables: "word_state s \<Longrightarrow> yy_accept ! s = (if s = 22 then 4 else 5) \<and> yy_base ! s \<noteq> 28 \<and> 1 \<le> s \<and> s < 23"
proof -
  have "list_all (\<lambda>s. word_state s \<longrightarrow> yy_accept ! s = (if s = 22 then 4 else 5) \<and> yy_base ! s \<noteq> 28) [0..<23]" by code_simp
  moreover assume "word_state s"
  moreover from this have "1 \<le> s" "s < 23" by (auto simp: word_state_def)
  ultimately show ?thesis by (auto simp: list_all_iff)
qed

text \<open>The state after bytes.\<close>

definition yy_run :: "nat \<Rightarrow> bytes \<Rightarrow> nat" where "yy_run s w = foldl (\<lambda>s c. yy_row s ! yy_class c) s w"

lemma yy_run_simps [simp]: "yy_run s [] = s" "yy_run s (c # w) = yy_run (yy_row s ! yy_class c) w"
  "yy_run s (w @ [c]) = yy_row (yy_run s w) ! yy_class c"
  by (simp_all add: yy_run_def)

lemma word_run: "word_state s \<Longrightarrow> list_all word_char w \<Longrightarrow> word_state (yy_run s w)"
  by (induction w arbitrary: s) (simp_all add: word_state_step)

lemma word_first: "word_char c \<Longrightarrow> word_state (yy_row 1 ! yy_class c)"
proof -
  have "list_all (\<lambda>c. word_state (yy_row 1 ! c)) [9..<16]" by code_simp
  then have "\<forall>c \<in> set [9..<16]. word_state (yy_row 1 ! c)" by (simp only: list_all_iff)
  moreover assume "word_char c"
  then have "yy_class c \<in> set [9..<16]" using yy_class(2) [of c] by auto
  ultimately show ?thesis by blast
qed

lemma match_word:
  assumes "word_state s" and "list_all word_char w"
  shows "\<not> word_char c \<Longrightarrow> c \<noteq> 0 \<Longrightarrow>
       yy_match s lst n (w @ c # cs) = Some (23, n + length w + 1, (yy_run s w, n + length w))"
    and "yy_match s lst n (w @ [0, 0]) = Some (23, n + length w + 2, (3, n + length w + 1))"
    and "yy_get_previous_state s lst n w = Some (yy_run s w, if w = [] then lst else (yy_run s (butlast w), n + length w - 1))"
proof -
  show "yy_match s lst n (w @ c # cs) = Some (23, n + length w + 1, (yy_run s w, n + length w))"
    if "\<not> word_char c" "c \<noteq> 0" for cs
    using assms that
  proof (induction w arbitrary: s lst n)
    case Nil
    then show ?case using word_state_tables [of s] by (simp add: yy_step word_state_step yy_tables)
  next
    case (Cons x w)
    have "word_state (yy_row s ! yy_class x)" using Cons.prems by (simp add: word_state_step)
    then show ?case using Cons word_state_tables [of s] word_state_tables [of "yy_row s ! yy_class x"] by (simp add: yy_step)
  qed
  have zero: "\<not> word_char 0" by (simp add: word_char_def)
  have end3: "yy_chain 3 (yy_ec ! unat (0 :: u8)) = Some 23" by (subst yy_step) (simp_all add: yy_row_def yy_class(1))
  show "yy_match s lst n (w @ [0, 0]) = Some (23, n + length w + 2, (3, n + length w + 1))"
    using assms
  proof (induction w arbitrary: s lst n)
    case Nil
    then have "yy_chain s (yy_ec ! unat (0 :: u8)) = Some 3" using word_state_tables [of s] zero by (subst yy_step) (simp_all add: word_state_step)
    then show ?case using Nil word_state_tables [of s] end3 by (simp add: yy_tables Let_def)
  next
    case (Cons x w)
    have "word_state (yy_row s ! yy_class x)" using Cons.prems by (simp add: word_state_step)
    then show ?case using Cons word_state_tables [of s] word_state_tables [of "yy_row s ! yy_class x"] by (simp add: yy_step)
  qed
  show "yy_get_previous_state s lst n w = Some (yy_run s w, if w = [] then lst else (yy_run s (butlast w), n + length w - 1))"
    using assms
  proof (induction w arbitrary: s lst n)
    case (Cons x w)
    have "word_state (yy_row s ! yy_class x)" "x \<noteq> 0" using Cons.prems zero by (auto simp: word_state_step)
    then show ?case using Cons word_state_tables [of s] by (simp add: yy_step)
  qed simp
qed

text \<open>A quotation that is closed, and one that is not.\<close>

lemma quote_rows: "s = 8 \<or> s = 15 \<Longrightarrow> c < 17 \<Longrightarrow> yy_row s ! c = (if c = 0 then 3 else if c = 5 then 16 else 15)"
proof -
  have "\<forall>c \<in> set [0..<17]. in_quotes ! c = (if c = 0 then 3 else if c = 5 then 16 else 15)" by code_simp
  then show "s = 8 \<or> s = 15 \<Longrightarrow> c < 17 \<Longrightarrow> yy_row s ! c = (if c = 0 then 3 else if c = 5 then 16 else 15)"
    by (auto simp: yy_row_def)
qed

lemma quote_step: "s = 8 \<or> s = 15 \<Longrightarrow> yy_chain s (yy_ec ! unat c) = Some (if c = 0 then 3 else if c = 34 then 16 else 15)" for c :: u8
  using yy_step [of s c] quote_rows [of s "yy_class c"] yy_class(1,3,7) [of c] by auto

lemma yy_chain_end: "yy_chain 3 (yy_ec ! unat (0 :: u8)) = Some 23"
  by (subst yy_step) (simp_all add: yy_row_def yy_class(1))

lemmas quote_15 = quote_step [of 15, simplified] and quote_8 = quote_step [of 8, simplified]

lemma match_in_quotes:
  assumes "0 \<notin> set q" and "34 \<notin> set q"
  shows "yy_match 15 lst n (q @ 34 # cs) = Some (16, n + length q + 1, lst)"
    and "yy_match 15 lst n (q @ [0, 0]) = Some (23, n + length q + 2, (3, n + length q + 1))"
    and "yy_get_previous_state 15 lst n q = Some (15, lst)"
proof -
  show "yy_match 15 lst n (q @ 34 # cs) = Some (16, n + length q + 1, lst)"
    using assms quote_step [of 15 34] by (induction q arbitrary: n) (auto simp: quote_15 yy_tables)
  show "yy_match 15 lst n (q @ [0, 0]) = Some (23, n + length q + 2, (3, n + length q + 1))"
    using assms quote_step [of 15 0] yy_chain_end by (induction q arbitrary: n) (auto simp: quote_15 yy_tables)
  show "yy_get_previous_state 15 lst n q = Some (15, lst)"
    using assms by (induction q arbitrary: n) (auto simp: quote_15 yy_tables)
qed

lemma match_quoted:
  assumes "0 \<notin> set q" and "34 \<notin> set q"
  shows "\<exists>lst1. yy_match 8 lst n (q @ 34 # cs) = Some (16, n + length q + 1, lst1)"
    and "yy_match 8 lst n (q @ [0, 0]) = Some (23, n + length q + 2, (3, n + length q + 1))"
    and "yy_get_previous_state 8 lst n q = Some (if q = [] then 8 else 15, if q \<noteq> [] then (8, n) else lst)"
  using assms match_in_quotes [of "tl q"] quote_step [of 8 34] quote_step [of 8 0] yy_chain_end
  by (cases q; auto simp: quote_8 yy_tables)+

text \<open>State 22 is that of the word logvar.\<close>

definition on_logvar :: "nat list" where "on_logvar = [1, 13, 18, 19, 20, 21, 22]"

lemma logvar_rows: "\<forall>s \<in> set [1..<23]. (s = 1 \<or> word_state s) \<longrightarrow> (\<forall>c \<in> set [9..<16].
     (yy_row s ! c = 13) = (s = 1 \<and> c = 12) \<and> (yy_row s ! c = 18) = (s = 13 \<and> c = 13) \<and>
     (yy_row s ! c = 19) = (s = 18 \<and> c = 11) \<and> (yy_row s ! c = 20) = (s = 19 \<and> c = 15) \<and>
     (yy_row s ! c = 21) = (s = 20 \<and> c = 10) \<and> (yy_row s ! c = 22) = (s = 21 \<and> c = 14))"
  by code_simp

lemma logvar_step:
  assumes "s = 1 \<or> word_state s" and "word_char c"
  shows "yy_row s ! yy_class c = 13 \<longleftrightarrow> s = 1 \<and> c = 108" "yy_row s ! yy_class c = 18 \<longleftrightarrow> s = 13 \<and> c = 111"
    "yy_row s ! yy_class c = 19 \<longleftrightarrow> s = 18 \<and> c = 103" "yy_row s ! yy_class c = 20 \<longleftrightarrow> s = 19 \<and> c = 118"
    "yy_row s ! yy_class c = 21 \<longleftrightarrow> s = 20 \<and> c = 97" "yy_row s ! yy_class c = 22 \<longleftrightarrow> s = 21 \<and> c = 114"
proof -
  have "s \<in> set [1..<23]" "yy_class c \<in> set [9..<16]" using assms yy_class(2) [of c] by (auto simp: word_state_def)
  then show "yy_row s ! yy_class c = 13 \<longleftrightarrow> s = 1 \<and> c = 108" "yy_row s ! yy_class c = 18 \<longleftrightarrow> s = 13 \<and> c = 111"
    "yy_row s ! yy_class c = 19 \<longleftrightarrow> s = 18 \<and> c = 103" "yy_row s ! yy_class c = 20 \<longleftrightarrow> s = 19 \<and> c = 118"
    "yy_row s ! yy_class c = 21 \<longleftrightarrow> s = 20 \<and> c = 97" "yy_row s ! yy_class c = 22 \<longleftrightarrow> s = 21 \<and> c = 114"
    using logvar_rows assms(1) yy_class(12-17) [of c] by metis+
qed

lemma run_state: "list_all word_char w \<Longrightarrow> w = [] \<or> word_state (yy_run 1 w)"
  by (cases w) (simp_all add: word_run [OF word_first] del: One_nat_def)

lemma run_snoc:
  assumes "list_all word_char (w @ [c])"
  shows "yy_run 1 (w @ [c]) = 13 \<longleftrightarrow> yy_run 1 w = 1 \<and> c = 108" "yy_run 1 (w @ [c]) = 18 \<longleftrightarrow> yy_run 1 w = 13 \<and> c = 111"
    "yy_run 1 (w @ [c]) = 19 \<longleftrightarrow> yy_run 1 w = 18 \<and> c = 103" "yy_run 1 (w @ [c]) = 20 \<longleftrightarrow> yy_run 1 w = 19 \<and> c = 118"
    "yy_run 1 (w @ [c]) = 21 \<longleftrightarrow> yy_run 1 w = 20 \<and> c = 97" "yy_run 1 (w @ [c]) = 22 \<longleftrightarrow> yy_run 1 w = 21 \<and> c = 114"
proof -
  have "yy_run 1 w = 1 \<or> word_state (yy_run 1 w)" "word_char c" using assms run_state [of w] by auto
  then show "yy_run 1 (w @ [c]) = 13 \<longleftrightarrow> yy_run 1 w = 1 \<and> c = 108" "yy_run 1 (w @ [c]) = 18 \<longleftrightarrow> yy_run 1 w = 13 \<and> c = 111"
    "yy_run 1 (w @ [c]) = 19 \<longleftrightarrow> yy_run 1 w = 18 \<and> c = 103" "yy_run 1 (w @ [c]) = 20 \<longleftrightarrow> yy_run 1 w = 19 \<and> c = 118"
    "yy_run 1 (w @ [c]) = 21 \<longleftrightarrow> yy_run 1 w = 20 \<and> c = 97" "yy_run 1 (w @ [c]) = 22 \<longleftrightarrow> yy_run 1 w = 21 \<and> c = 114"
    by (simp_all add: logvar_step)
qed

lemma run_logvar: "list_all word_char w \<Longrightarrow> yy_run 1 w = 22 \<longleftrightarrow> w = logvar"
proof -
  assume w: "list_all word_char w"
  have last_step: "yy_run 1 v = t \<longleftrightarrow> (\<exists>u. v = u @ [c] \<and> yy_run 1 u = t0)"
    if "\<And>u c'. list_all word_char (u @ [c']) \<Longrightarrow> yy_run 1 (u @ [c']) = t \<longleftrightarrow> yy_run 1 u = t0 \<and> c' = c"
      and "t \<noteq> 1" and "list_all word_char v" for v t t0 c
    using that(2,3) that(1) [of "butlast v" "List.last v"] by (cases v rule: rev_exhaust) auto
  have one: "yy_run 1 v = 1 \<longleftrightarrow> v = []" if "list_all word_char v" for v
    using run_state [OF that] by (auto simp: word_state_def)
  have "yy_run 1 logvar = 22" by code_simp
  moreover have "w = logvar" if "yy_run 1 w = 22"
    using that w last_step [OF run_snoc(6), of w] last_step [OF run_snoc(5)] last_step [OF run_snoc(4)] last_step [OF run_snoc(3)]
      last_step [OF run_snoc(2)] last_step [OF run_snoc(1)] one
    by (auto simp: logvar_def word_char_def)
  ultimately show ?thesis by blast
qed

text \<open>What the rules give, by the first byte.\<close>

lemma lex_rule_word:
  assumes "txt = w @ cs" and "w \<noteq> []" and "list_all word_char w" and "cs = [] \<or> \<not> word_char (hd cs)"
  shows "lex_rule txt = (if w = logvar then 4 else 5, length w)"
proof -
  have tw: "takeWhile word_char txt = w" using assms by (cases cs) (auto simp: list_all_iff takeWhile_append)
  obtain c w' where w: "w = c # w'" using assms(2) by (cases w) auto
  have c: "word_char c" using assms(3) w by simp
  have logvar_word: "\<And>x. x \<in> set logvar \<Longrightarrow> word_char x" by (auto simp: logvar_def word_char_def)
  have "lit logvar txt \<le> length w \<and> (lit logvar txt = length w \<longleftrightarrow> w = logvar)"
  proof (cases "take 6 txt = logvar")
    case True
    then have "txt = logvar @ drop 6 txt" by (metis append_take_drop_id)
    then have "w = logvar @ takeWhile word_char (drop 6 txt)"
      using tw logvar_word by (metis takeWhile_append2)
    moreover have "lit logvar txt = 6" using True by (simp add: lit_def logvar_def numeral_eq_Suc)
    ultimately show ?thesis by (auto simp: logvar_def)
  next
    case False
    then have "w \<noteq> logvar" using assms(1) by (auto simp: logvar_def)
    moreover have "lit logvar txt = 0" using False by (simp add: lit_def logvar_def numeral_eq_Suc)
    ultimately show ?thesis using assms(2) by simp
  qed
  moreover have "c \<noteq> 33" "c \<noteq> 38" "c \<noteq> 124" "c \<noteq> 34" "c \<noteq> 40" "c \<noteq> 41" "c \<noteq> 61" "c \<noteq> 10" "c \<noteq> 32" "c \<noteq> 9" "c \<noteq> 44"
    using c by (auto simp: word_char_def)
  moreover have "length w \<ge> 1" using w by simp
  ultimately show ?thesis
    using assms(1) w tw by (auto simp: lex_rule_def lex_rules_def lit_def [of "[_]"] one_def quoted_def)
qed

lemma lex_rule_other:
  assumes "\<not> word_char c" and "c \<noteq> 34 \<or> 34 \<notin> set cs"
  shows "lex_rule (c # cs) =
    ((if c = 33 then 1 else if c = 38 then 2 else if c = 124 then 3 else if c \<in> {40, 41, 61, 10} then 7
      else if c \<in> {32, 9} then 8 else if c = 44 then 9 else 10), 1)"
proof -
  have "takeWhile word_char (c # cs) = []" using assms(1) by simp
  moreover have "c \<noteq> 108" using assms(1) by (auto simp: word_char_def)
  then have "lit logvar (c # cs) = 0" by (simp add: lit_def logvar_def)
  moreover have "quoted (c # cs) = 0" using assms(2) by (auto simp: quoted_def)
  ultimately show ?thesis by (simp add: lex_rule_def lex_rules_def lit_def [of "[_]"] one_def)
qed

lemma lex_rule_quoted: "34 \<notin> set q \<Longrightarrow> lex_rule (34 # q @ 34 # cs) = (6, length q + 2)"
proof -
  assume q: "34 \<notin> set q"
  have "takeWhile (\<lambda>x. x \<noteq> 34) (q @ 34 # cs) = q" using q by (subst takeWhile_append2) auto
  then have "quoted (34 # q @ 34 # cs) = length q + 2" by (simp add: quoted_def)
  moreover have "lit logvar (34 # q @ 34 # cs) = 0" by (simp add: lit_def logvar_def)
  ultimately show ?thesis by (simp add: lex_rule_def lex_rules_def lit_def [of "[_]"] one_def word_char_def)
qed

text \<open>One step of the automaton from its start on a byte that begins neither a word nor a quotation.\<close>

lemma single_rows: "\<forall>c \<in> set [0..<17]. c \<noteq> 0 \<and> c \<noteq> 5 \<and> \<not> (9 \<le> c \<and> c \<le> 15) \<longrightarrow>
    yy_base ! (yy_row 1 ! c) = 28 \<and>
    yy_accept ! (yy_row 1 ! c) = (if c = 4 then 1 else if c = 6 then 2 else if c = 16 then 3 else if c = 7 \<or> c = 3 then 7
      else if c = 2 then 8 else if c = 8 then 9 else 10)"
  by code_simp

lemma start_tables: "yy_row 1 ! 0 = 3" "yy_row 1 ! 5 = 8" by (simp_all add: yy_row_def)

lemma start_step: "yy_chain 1 (yy_ec ! unat c) = Some (yy_row 1 ! yy_class c)"
  by (rule yy_step) simp_all

lemma start_accept: "yy_accept ! Suc 0 = 0" by (simp add: yy_accept_def)

lemma yy_act_rule:
  assumes "txt \<noteq> []" and "0 \<notin> set txt"
  shows "yy_act txt = Some (lex_rule txt)"
proof -
  obtain c cs where t: "txt = c # cs" using assms(1) by (cases "txt") auto
  have c0: "c \<noteq> 0" using assms(2) t by simp
  consider (word) "word_char c" | (quotes) q left where "c = 34" "cs = q @ 34 # left" "34 \<notin> set q"
    | (unclosed) "c = 34" "34 \<notin> set cs" | (other) "\<not> word_char c" "c \<noteq> 34"
    using split_list_first [of 34 cs] by blast
  then show ?thesis
  proof cases
    case word
    define w where "w = takeWhile word_char cs"
    define r where "r = dropWhile word_char cs"
    have cs: "cs = w @ r" by (simp add: w_def r_def)
    have r: "r = [] \<or> \<not> word_char (hd r)" unfolding r_def by (metis hd_dropWhile)
    have w: "list_all word_char w" by (auto simp: w_def list_all_iff dest: set_takeWhileD)
    have s: "word_state (yy_row 1 ! yy_class c)" by (rule word_first [OF word])
    have st: "word_state (yy_run 1 (c # w))" using word_run [OF s w] by simp
    have rule: "lex_rule txt = (if c # w = logvar then 4 else 5, length (c # w))"
      by (rule lex_rule_word [of _ _ r]) (use cs w word r in \<open>simp_all add: t\<close>)
    have act: "yy_accept ! yy_run 1 (c # w) = (if c # w = logvar then 4 else 5)"
      using word_state_tables [OF st] run_logvar [of "c # w"] w word by simp
    show ?thesis
    proof (cases r)
      case Nil
      have m: "yy_match 1 (0, 0) 0 (txt @ [0, 0]) = Some (23, length w + 3, (3, length w + 2))"
        using match_word(2) [OF s w, of "(0, 0)" 1] word_state_tables [OF s] Nil t cs by (simp add: start_step [simplified] start_accept yy_tables)
      obtain l where p: "yy_get_previous_state 1 (3, length w + 2) 0 txt = Some (yy_run 1 (c # w), l)"
        using match_word(3) [OF s w, of "(3, length w + 2)" 1] Nil t cs c0 by (simp add: start_step [simplified] start_accept yy_tables)
      have n: "length txt = length (c # w)" using t cs Nil by simp
      show ?thesis
        unfolding yy_act_def m using p act rule n by (simp add: yy_find_action_def yy_tables YY_END_OF_BUFFER_def del: One_nat_def yy_run_simps)
    next
      case (Cons x r')
      then have "\<not> word_char x" "x \<noteq> 0" using r assms(2) t cs by auto
      then have m: "yy_match 1 (0, 0) 0 (txt @ [0, 0]) = Some (23, length w + 2, (yy_run 1 (c # w), length w + 1))"
        using match_word(1) [OF s w, of x "(0, 0)" 1 "r' @ [0, 0]"] word_state_tables [OF s] Cons t cs
        by (simp add: start_step [simplified] start_accept yy_tables)
      show ?thesis
        unfolding yy_act_def m using act rule
        by (simp add: yy_find_action_def yy_tables YY_END_OF_BUFFER_def del: One_nat_def yy_run_simps)
    qed
  next
    case quotes
    have row: "yy_row 1 ! yy_class c = 8" using quotes(1) yy_class(7) [of c] start_tables by simp
    have "0 \<notin> set q" using assms(2) t quotes(2) by simp
    then obtain l where "yy_match 1 (0, 0) 0 (txt @ [0, 0]) = Some (16, length q + 2, l)"
      using match_quoted(1) [of q "(0, 0)" 1 "left @ [0, 0]"] quotes t row start_step [of c] by (auto simp: start_accept yy_tables Let_def)
    then show ?thesis
      using lex_rule_quoted [OF quotes(3), of left] quotes t
      by (simp add: yy_act_def yy_find_action_def yy_tables YY_END_OF_BUFFER_def)
  next
    case unclosed
    have row: "yy_row 1 ! yy_class c = 8" using unclosed(1) yy_class(7) [of c] start_tables by simp
    have z: "0 \<notin> set cs" using assms(2) t by simp
    have "yy_match 1 (0, 0) 0 (txt @ [0, 0]) = Some (23, length cs + 3, (3, length cs + 2))"
      using match_quoted(2) [of cs "(0, 0)" 1] unclosed z t row start_step [of c] by (simp add: start_accept yy_tables Let_def)
    moreover have "yy_get_previous_state 1 (3, length cs + 2) 0 txt =
        Some (if cs = [] then 8 else 15, if cs \<noteq> [] then (8, 1) else (3, length cs + 2))"
      using match_quoted(3) [of cs "(3, length cs + 2)" 1] unclosed z t row start_step [of c] c0 by (simp add: start_accept yy_tables Let_def)
    ultimately show ?thesis
      using lex_rule_other [of c cs] unclosed t
      by (auto simp: yy_act_def yy_find_action_def yy_tables YY_END_OF_BUFFER_def word_char_def)
  next
    case other
    have cl: "yy_class c \<noteq> 0" "yy_class c \<noteq> 5" "\<not> (9 \<le> yy_class c \<and> yy_class c \<le> 15)" "yy_class c \<in> set [0..<17]"
      using other c0 yy_class(1,2,3,7) [of c] by auto
    note row = single_rows [rule_format, OF cl(4)]
    have "yy_accept ! (yy_row 1 ! yy_class c) = fst (lex_rule txt)" "snd (lex_rule txt) = 1"
      using row cl other t lex_rule_other [of c cs] yy_class(4-11) [of c] by auto
    moreover from this have "yy_accept ! (yy_row 1 ! yy_class c) \<noteq> 0" "yy_accept ! (yy_row 1 ! yy_class c) \<noteq> 12"
      using other t lex_rule_other [of c cs] by auto
    moreover have "yy_match 1 (0, 0) 0 (txt @ [0, 0]) = Some (yy_row 1 ! yy_class c, 1, (0, 0))"
      using row cl t by (simp add: start_step [simplified] start_accept yy_tables)
    ultimately show ?thesis
      by (auto simp: yy_act_def yy_find_action_def YY_END_OF_BUFFER_def prod_eq_iff)
  qed
qed

text \<open>
  C36: The compressed automaton of the generated scanner takes on every text the match that the patterns of
  the lexer file give: the longest one, of equal ones that of the first pattern.
\<close>

theorem scanner_follows_rules:
  assumes "txt \<noteq> []" and "0 \<notin> set txt"
  shows "yy_act txt = Some (lex_rule txt)"
  by (rule yy_act_rule [OF assms])

theorem scanner_follows_rules_witness: "yy_act (ascii ''logvars'') = Some (5, 7)"
  using scanner_follows_rules [of "ascii ''logvars''"]
  by (simp add: ascii_def lex_rule_def lex_rules_def lit_def logvar_def one_def quoted_def word_char_def)

end
