(* ===== verification/TextFilter.thy ===== *)
theory TextFilter
  imports TextScan
begin

text \<open>
  The filter for log lines (text-filter): the parser that bison generated from grammar-filter.y
  (grammar-filter.c: its tables, the loop of yyparse with its error handling, and the actions), and
  log_string_match. The global variables of both files are fields of the state. The stack grows by
  doubling up to YYMAXDEPTH, so only that bound shows; memory for it does not run out.
\<close>

section \<open>Tables\<close>

definition YYEMPTY :: int where "YYEMPTY = -2"
definition YYFINAL :: int where "YYFINAL = 2"
definition YYLAST :: int where "YYLAST = 17"
definition YYNTOKENS :: int where "YYNTOKENS = 13"
definition YYPACT_NINF :: int where "YYPACT_NINF = -10"
definition YYTERROR :: int where "YYTERROR = 1"
definition YYMAXDEPTH :: nat where "YYMAXDEPTH = 10000"

definition yytranslate :: "int list" where
  "yytranslate =
   [0, 2, 2, 2, 2, 2, 2, 2, 2, 2, 9, 2, 2, 2, 2, 2, 2, 2, 2, 2, 2, 2, 2, 2, 2, 2, 2, 2, 2, 2, 2, 2, 2,
    2, 2, 2, 2, 2, 2, 2, 11, 12, 2, 2, 2, 2, 2, 2, 2, 2, 2, 2, 2, 2, 2, 2, 2, 2, 2, 2, 2, 10, 2, 2, 2,
    2, 2, 2, 2, 2, 2, 2, 2, 2, 2, 2, 2, 2, 2, 2, 2, 2, 2, 2, 2, 2, 2, 2, 2, 2, 2, 2, 2, 2, 2, 2, 2, 2,
    2, 2, 2, 2, 2, 2, 2, 2, 2, 2, 2, 2, 2, 2, 2, 2, 2, 2, 2, 2, 2, 2, 2, 2, 2, 2, 2, 2, 2, 2, 2, 2, 2,
    2, 2, 2, 2, 2, 2, 2, 2, 2, 2, 2, 2, 2, 2, 2, 2, 2, 2, 2, 2, 2, 2, 2, 2, 2, 2, 2, 2, 2, 2, 2, 2, 2,
    2, 2, 2, 2, 2, 2, 2, 2, 2, 2, 2, 2, 2, 2, 2, 2, 2, 2, 2, 2, 2, 2, 2, 2, 2, 2, 2, 2, 2, 2, 2, 2, 2,
    2, 2, 2, 2, 2, 2, 2, 2, 2, 2, 2, 2, 2, 2, 2, 2, 2, 2, 2, 2, 2, 2, 2, 2, 2, 2, 2, 2, 2, 2, 2, 2, 2,
    2, 2, 2, 2, 2, 2, 2, 2, 2, 2, 2, 2, 2, 2, 2, 2, 2, 2, 2, 2, 2, 2, 2, 2, 2, 2, 1, 2, 3, 4, 5, 6, 7, 8]"

definition yypact :: "int list" where
  "yypact =
   [-10, 12, -10, -5, 5, 10, -2, -10, -10, -2, -2, 6, -3, -10, 4, -10, -2, -2, -10, -10, -10]"

definition yydefact :: "int list" where
  "yydefact =
   [3, 0, 1, 0, 0, 0, 0, 5, 6, 0, 0, 0, 4, 9, 0, 2, 0, 0, 10, 8, 7]"

definition yypgoto :: "int list" where
  "yypgoto =
   [-10, -10, -10, -10, -9]"

definition yydefgoto :: "int list" where
  "yydefgoto =
   [-1, 1, 11, 4, 12]"

definition yytable :: "int list" where
  "yytable =
   [13, 14, 8, 16, 17, 5, 9, 19, 20, 10, 16, 17, 2, 7, 6, 15, 18, 3]"

definition yycheck :: "int list" where
  "yycheck =
   [9, 10, 4, 6, 7, 10, 8, 16, 17, 11, 6, 7, 0, 3, 9, 9, 12, 5]"

definition yyr1 :: "int list" where
  "yyr1 =
   [0, 13, 14, 14, 15, 16, 17, 17, 17, 17, 17]"

definition yyr2 :: "int list" where
  "yyr2 =
   [0, 2, 5, 0, 1, 3, 1, 3, 3, 2, 3]"

text \<open>An entry of a table.\<close>

definition tab_at :: "int list \<Rightarrow> int \<Rightarrow> int" where "tab_at xs i = xs ! nat i"

definition YYTRANSLATE :: "int \<Rightarrow> int" where
  "YYTRANSLATE x = (if 0 \<le> x \<and> x \<le> 263 then tab_at yytranslate x else 2)"

section \<open>The state of a parse\<close>

text \<open>
  The two stacks, top first; the token that has been read, with its value; the text that is left; how long
  ago an error was; the variables result and log_line.
\<close>

record yyparser =
  yyss :: "int list"
  yyvs :: "YYSTYPE list"
  yychar :: int
  yylval :: YYSTYPE
  yy_text :: bytes
  yyerrstatus :: nat
  yy_result :: int
  log_line :: bytes

text \<open>The next state; the end with the value of yyparse; or memory is used in a way that C leaves open.\<close>

datatype yyStep = Go yyparser | Return int yyparser | Undefined

section \<open>Actions\<close>

text \<open>The number of a value; the text of one.\<close>

fun iValue :: "YYSTYPE \<Rightarrow> int option" where
  "iValue (IValue i) = Some i"
| "iValue v = None"

fun sValue :: "YYSTYPE \<Rightarrow> bytes option" where
  "sValue (SValue s) = Some s"
| "sValue v = None"

text \<open>\<open>val\<close> is the value that the left side of the rule gets when its action sets none.\<close>

definition yy_user_action :: "int \<Rightarrow> YYSTYPE \<Rightarrow> yyparser \<Rightarrow> (YYSTYPE \<times> yyparser) option" where
  "yy_user_action n val p =
     (if n = 4 then map_option (\<lambda>i. (val, p\<lparr>yy_result := i\<rparr>)) (iValue (yyvs p ! 0))
      else if n = 5
      then Option.bind (sValue (yyvs p ! 0)) (\<lambda>s. if length s < 1024 then Some (val, p\<lparr>log_line := s\<rparr>) else None)
      else if n = 6
      then map_option (\<lambda>s. (IValue (if strstr (log_line p) s then 1 else 0), p)) (sValue (yyvs p ! 0))
      else if n = 7
      then Option.bind (iValue (yyvs p ! 2)) (\<lambda>i. map_option (\<lambda>j. (IValue (if i = 1 \<or> j = 1 then 1 else 0), p)) (iValue (yyvs p ! 0)))
      else if n = 8
      then Option.bind (iValue (yyvs p ! 2)) (\<lambda>i. map_option (\<lambda>j. (IValue (i * j), p)) (iValue (yyvs p ! 0)))
      else if n = 9 then map_option (\<lambda>i. (IValue (if i = 1 then 0 else 1), p)) (iValue (yyvs p ! 0))
      else if n = 10 then map_option (\<lambda>i. (IValue i, p)) (iValue (yyvs p ! 1))
      else Some (val, p))"

section \<open>The loop of the parser\<close>

definition yyreduce :: "int \<Rightarrow> yyparser \<Rightarrow> yyStep" where
  "yyreduce n p =
     (let yylen = nat (tab_at yyr2 n);
          val = (if yylen = 0 then Garbage else yyvs p ! (yylen - 1))
      in case yy_user_action n val p of
           None \<Rightarrow> Undefined
         | Some (val1, p1) \<Rightarrow>
             let ss = drop yylen (yyss p1);
                 lhs = tab_at yyr1 n - YYNTOKENS;
                 i = tab_at yypgoto lhs + hd ss;
                 s1 = (if 0 \<le> i \<and> i \<le> YYLAST \<and> tab_at yycheck i = hd ss then tab_at yytable i else tab_at yydefgoto lhs)
             in Go (p1\<lparr>yyss := s1 # ss, yyvs := val1 # drop yylen (yyvs p1)\<rparr>))"

text \<open>States are popped until one can shift the error token.\<close>

fun yyerrpop :: "int list \<Rightarrow> YYSTYPE list \<Rightarrow> (int \<times> int list \<times> YYSTYPE list) option" where
  "yyerrpop [] vs = None"
| "yyerrpop (s # ss) vs =
     (let n = tab_at yypact s + YYTERROR
      in if tab_at yypact s \<noteq> YYPACT_NINF \<and> 0 \<le> n \<and> n \<le> YYLAST \<and> tab_at yycheck n = YYTERROR \<and> 0 < tab_at yytable n
         then Some (tab_at yytable n, s # ss, vs)
         else yyerrpop ss (drop 1 vs))"

definition yyerrlab :: "yyparser \<Rightarrow> yyStep" where
  "yyerrlab p =
     (if yyerrstatus p = 3 \<and> yychar p = 0 then Return 1 p
      else let p1 = (if yyerrstatus p = 3 \<and> 0 < yychar p then p\<lparr>yychar := YYEMPTY\<rparr> else p)
           in case yyerrpop (yyss p1) (yyvs p1) of
                None \<Rightarrow> Return 1 p1
              | Some (s, ss, vs) \<Rightarrow> Go (p1\<lparr>yyss := s # ss, yyvs := yylval p1 # vs, yyerrstatus := 3\<rparr>))"

definition yydefault :: "yyparser \<Rightarrow> yyStep" where
  "yydefault p = (let n = tab_at yydefact (hd (yyss p)) in if n = 0 then yyerrlab p else yyreduce n p)"

text \<open>The token is read when there is none.\<close>

definition yy_read :: "yyparser \<Rightarrow> yyparser option" where
  "yy_read p =
     (if yychar p = YYEMPTY
      then map_option (\<lambda>(c, v, r). p\<lparr>yychar := c, yylval := v, yy_text := r\<rparr>) (yylex (yylval p) (yy_text p))
      else Some p)"

definition yy_decide :: "int \<Rightarrow> yyparser \<Rightarrow> yyStep" where
  "yy_decide n p =
     (let p1 = (if yychar p \<le> 0 then p\<lparr>yychar := 0\<rparr> else p);
          yytoken = (if yychar p \<le> 0 then 0 else YYTRANSLATE (yychar p));
          i = n + yytoken
      in if i < 0 \<or> YYLAST < i \<or> tab_at yycheck i \<noteq> yytoken then yydefault p1
         else if tab_at yytable i \<le> 0 then yyreduce (- tab_at yytable i) p1
         else Go (p1\<lparr>yyerrstatus := yyerrstatus p1 - 1, yyss := tab_at yytable i # yyss p1, yyvs := yylval p1 # yyvs p1,
                     yychar := YYEMPTY\<rparr>))"

text \<open>One round, from the state that has just been pushed.\<close>

definition yystep :: "yyparser \<Rightarrow> yyStep option" where
  "yystep p =
     (if YYMAXDEPTH \<le> length (yyss p) then Some (Return 2 p)
      else if hd (yyss p) = YYFINAL then Some (Return 0 p)
      else let n = tab_at yypact (hd (yyss p))
           in if n = YYPACT_NINF then Some (yydefault p)
              else map_option (yy_decide n) (yy_read p))"

text \<open>None: the parse does not end.\<close>

partial_function (option) yyrun :: "yyparser \<Rightarrow> (int \<times> yyparser) option option" where
  "yyrun p =
     (case yystep p of
        None \<Rightarrow> None
      | Some Undefined \<Rightarrow> Some None
      | Some (Return r q) \<Rightarrow> Some (Some (r, q))
      | Some (Go q) \<Rightarrow> yyrun q)"

text \<open>The variables that live on between parses: result, log_line, and the value of the last token.\<close>

record filterVars =
  fv_result :: int
  fv_log_line :: bytes
  fv_yylval :: YYSTYPE

definition yyparse :: "bytes \<Rightarrow> filterVars \<Rightarrow> (int \<times> filterVars) option option" where
  "yyparse str g =
     map_option (map_option (\<lambda>(r, q). (r, \<lparr>fv_result = yy_result q, fv_log_line = log_line q, fv_yylval = yylval q\<rparr>)))
       (yyrun \<lparr>yyss = [0], yyvs = [Garbage], yychar = YYEMPTY, yylval = fv_yylval g, yy_text = str, yyerrstatus = 0,
               yy_result = fv_result g, log_line = fv_log_line g\<rparr>)"

text \<open>logvar="LOG", a new line, MATCH, a new line.\<close>

definition filter_input :: "bytes \<Rightarrow> bytes \<Rightarrow> bytes" where
  "filter_input line match = logvar @ [61, 34] @ line @ [34, 10] @ match @ [10]"

definition log_string_match :: "bytes \<Rightarrow> bytes \<Rightarrow> filterVars \<Rightarrow> (bool \<times> filterVars) option option" where
  "log_string_match line match g =
     map_option (map_option (\<lambda>(r, g1). (fv_result g1 \<noteq> 0, g1))) (yyparse (filter_input line match) g)"

section \<open>Tokens of a text\<close>

inductive lexes :: "YYSTYPE \<Rightarrow> bytes \<Rightarrow> (int \<times> YYSTYPE) list \<Rightarrow> bool" where
  lexes_end: "yylex v str = Some (0, v1, r) \<Longrightarrow> lexes v str [(0, v1)]"
| lexes_token: "yylex v str = Some (c, v1, r) \<Longrightarrow> 0 < c \<Longrightarrow> lexes v1 r toks \<Longrightarrow> lexes v str ((c, v1) # toks)"

text \<open>The tokens that a parser has before it, the one it has read included.\<close>

definition feed :: "yyparser \<Rightarrow> (int \<times> YYSTYPE) list \<Rightarrow> bool" where
  "feed p toks \<longleftrightarrow>
     yychar p = YYEMPTY \<and> lexes (yylval p) (yy_text p) toks \<or>
     0 \<le> yychar p \<and> (\<exists>toks1. toks = (yychar p, yylval p) # toks1 \<and> (0 < yychar p \<longrightarrow> lexes (yylval p) (yy_text p) toks1))"

lemma feed_read:
  assumes "feed p ((c, v) # toks)"
  shows "\<exists>r. yy_read p = Some (p\<lparr>yychar := c, yylval := v, yy_text := r\<rparr>) \<and> 0 \<le> c \<and> (0 < c \<longrightarrow> lexes v r toks)"
  using assms unfolding feed_def
proof
  assume "yychar p = YYEMPTY \<and> lexes (yylval p) (yy_text p) ((c, v) # toks)"
  then have e: "yychar p = YYEMPTY" and l: "lexes (yylval p) (yy_text p) ((c, v) # toks)" by simp_all
  from l show ?thesis by cases (auto simp: yy_read_def e intro!: exI)
next
  assume "0 \<le> yychar p \<and> (\<exists>toks1. (c, v) # toks = (yychar p, yylval p) # toks1 \<and> (0 < yychar p \<longrightarrow> lexes (yylval p) (yy_text p) toks1))"
  then show ?thesis by (auto simp: yy_read_def YYEMPTY_def intro!: exI [of _ "yy_text p"])
qed

text \<open>A configuration: log line, result, stacks, tokens.\<close>

definition cfg :: "bytes \<Rightarrow> int \<Rightarrow> int list \<Rightarrow> YYSTYPE list \<Rightarrow> (int \<times> YYSTYPE) list \<Rightarrow> yyparser \<Rightarrow> bool" where
  "cfg l r ss vs toks p \<longleftrightarrow>
     log_line p = l \<and> yy_result p = r \<and> yyss p = ss \<and> yyvs p = vs \<and> feed p toks \<and> yyerrstatus p = 0"

definition leads :: "yyparser \<Rightarrow> (yyparser \<Rightarrow> bool) \<Rightarrow> bool" where
  "leads p Q \<longleftrightarrow> (\<exists>q. yyrun p = yyrun q \<and> Q q)"

lemma leads_refl: "Q p \<Longrightarrow> leads p Q"
  by (auto simp: leads_def)

lemma leads_trans: "leads p Q \<Longrightarrow> (\<And>q. Q q \<Longrightarrow> leads q R) \<Longrightarrow> leads p R"
  unfolding leads_def by metis

lemma leads_Go: "yystep p = Some (Go q) \<Longrightarrow> Q q \<Longrightarrow> leads p Q"
  unfolding leads_def by (subst yyrun.simps) auto

lemmas yy_tables = yypact_def yydefact_def yypgoto_def yydefgoto_def yytable_def yycheck_def yyr1_def yyr2_def tab_at_def
  YYFINAL_def YYLAST_def YYNTOKENS_def YYPACT_NINF_def YYTERROR_def

text \<open>The token and where it is shifted to.\<close>

definition shifts :: "int \<Rightarrow> int \<Rightarrow> int \<Rightarrow> bool" where
  "shifts s c s1 \<longleftrightarrow>
     s \<noteq> YYFINAL \<and> tab_at yypact s \<noteq> YYPACT_NINF \<and>
     (let t = (if c \<le> 0 then 0 else YYTRANSLATE c); i = tab_at yypact s + t
      in 0 \<le> i \<and> i \<le> YYLAST \<and> tab_at yycheck i = t \<and> tab_at yytable i = s1 \<and> 0 < s1)"

lemma shift_run:
  assumes "cfg l r (s # ss) vs ((c, v) # toks) p" and "shifts s c s1" and "0 < c" and "length ss + 1 < YYMAXDEPTH"
  shows "leads p (cfg l r (s1 # s # ss) (v # vs) toks)"
proof -
  obtain x where rd: "yy_read p = Some (p\<lparr>yychar := c, yylval := v, yy_text := x\<rparr>)" and x: "lexes v x toks"
    using feed_read assms(1,3) unfolding cfg_def by blast
  define q where "q = p\<lparr>yychar := YYEMPTY, yylval := v, yy_text := x, yyerrstatus := 0, yyss := s1 # s # ss, yyvs := v # vs\<rparr>"
  have "yystep p = Some (Go q)"
    using assms rd by (simp add: yystep_def cfg_def shifts_def Let_def yy_decide_def q_def not_le)
  moreover have "cfg l r (s1 # s # ss) (v # vs) toks q"
    using assms(1) x by (simp add: cfg_def q_def feed_def)
  ultimately show ?thesis by (rule leads_Go)
qed

text \<open>The states after a reduction.\<close>

definition goto_state :: "int \<Rightarrow> int \<Rightarrow> int" where
  "goto_state n s =
     (let lhs = tab_at yyr1 n - YYNTOKENS; i = tab_at yypgoto lhs + s
      in if 0 \<le> i \<and> i \<le> YYLAST \<and> tab_at yycheck i = s then tab_at yytable i else tab_at yydefgoto lhs)"

definition goto :: "int \<Rightarrow> int list \<Rightarrow> int list" where
  "goto n ss = goto_state n (hd ss) # ss"

definition reduces :: "int \<Rightarrow> int \<Rightarrow> int \<Rightarrow> bool" where
  "reduces s c n \<longleftrightarrow>
     s \<noteq> YYFINAL \<and> tab_at yydefact s = n \<and> n \<noteq> 0 \<and>
     (tab_at yypact s \<noteq> YYPACT_NINF \<longrightarrow>
       (let t = (if c \<le> 0 then 0 else YYTRANSLATE c); i = tab_at yypact s + t in i < 0 \<or> YYLAST < i \<or> tab_at yycheck i \<noteq> t))"

lemma reduce_run:
  assumes "cfg l r (s # ss) vs ((c, v) # toks) p" and "reduces s c n" and "length ss + 1 < YYMAXDEPTH"
    and "m = nat (tab_at yyr2 n)"
    and act: "\<And>q. yyvs q = vs \<Longrightarrow> log_line q = l \<Longrightarrow> yy_result q = r \<Longrightarrow>
        yy_user_action n (if m = 0 then Garbage else vs ! (m - 1)) q = Some (v1, q\<lparr>log_line := l1, yy_result := r1\<rparr>)"
  shows "leads p (cfg l1 r1 (goto n (drop m (s # ss))) (v1 # drop m vs) ((c, v) # toks))"
proof -
  have red: "yyreduce n q = Go (q\<lparr>log_line := l1, yy_result := r1, yyss := goto n (drop m (s # ss)), yyvs := v1 # drop m vs\<rparr>)"
    if "yyvs q = vs" "log_line q = l" "yy_result q = r" "yyss q = s # ss" for q
    unfolding yyreduce_def goto_def goto_state_def Let_def assms(4) [symmetric] that(1) act [OF that(1-3)] by (simp add: that(1,4))
  obtain x where rd: "yy_read p = Some (p\<lparr>yychar := c, yylval := v, yy_text := x\<rparr>)" and c0: "0 \<le> c" and x: "0 < c \<longrightarrow> lexes v x toks"
    using feed_read assms(1) unfolding cfg_def by blast
  let ?up = "\<lambda>q. q\<lparr>log_line := l1, yy_result := r1, yyss := goto n (drop m (s # ss)), yyvs := v1 # drop m vs\<rparr>"
  show ?thesis
  proof (cases "tab_at yypact s = YYPACT_NINF")
    case True
    then have "yystep p = Some (Go (?up p))"
      using assms(1,2,3) red [of p] by (simp add: yystep_def cfg_def reduces_def yydefault_def)
    moreover have "cfg l1 r1 (goto n (drop m (s # ss))) (v1 # drop m vs) ((c, v) # toks) (?up p)"
      using assms(1) by (simp add: cfg_def feed_def)
    ultimately show ?thesis by (rule leads_Go)
  next
    case False
    define q where "q = p\<lparr>yychar := c, yylval := v, yy_text := x\<rparr>"
    have q: "yychar q = c" "c \<le> 0 \<Longrightarrow> q\<lparr>yychar := 0\<rparr> = q" "yyss q = s # ss" "yyvs q = vs" "log_line q = l" "yy_result q = r"
      using assms(1) c0 by (simp_all add: q_def cfg_def)
    have "yy_decide (tab_at yypact s) q = yydefault q"
      using assms(2) False q(2) unfolding yy_decide_def reduces_def Let_def q(1) by auto
    also have "yydefault q = Go (?up q)"
      using assms(2) red [of q] q by (simp add: reduces_def yydefault_def)
    finally have "yystep p = Some (Go (?up q))"
      using assms(1,2,3) rd False by (simp add: yystep_def cfg_def reduces_def q_def)
    moreover have "cfg l1 r1 (goto n (drop m (s # ss))) (v1 # drop m vs) ((c, v) # toks) (?up q)"
      using assms(1) x c0 by (simp add: cfg_def feed_def q_def)
    ultimately show ?thesis by (rule leads_Go)
  qed
qed

section \<open>Expressions\<close>

text \<open>
  Tokens of an expression and what it says of a log line. As in grammar-filter.y, both operators have
  one precedence and group to the left, and a negation covers what stands next to it.
\<close>

inductive factor :: "bytes \<Rightarrow> (int \<times> YYSTYPE) list \<Rightarrow> bool \<Rightarrow> bool"
  and expr :: "bytes \<Rightarrow> (int \<times> YYSTYPE) list \<Rightarrow> bool \<Rightarrow> bool" where
  factor_word: "factor l [(TWORD, SValue w)] (strstr l w)"
| factor_not: "factor l ts b \<Longrightarrow> factor l ((TNOT, v) # ts) (\<not> b)"
| factor_paren: "expr l ts b \<Longrightarrow> factor l ((40, v) # ts @ [(41, u)]) b"
| expr_factor: "factor l ts b \<Longrightarrow> expr l ts b"
| expr_and: "expr l ts b \<Longrightarrow> factor l us c \<Longrightarrow> expr l (ts @ (TAND, v) # us) (b \<and> c)"
| expr_or: "expr l ts b \<Longrightarrow> factor l us c \<Longrightarrow> expr l (ts @ (TOR, v) # us) (b \<or> c)"

definition expr_states :: "int list" where "expr_states = [6, 9, 10, 16, 17]"

definition expr_next :: "int \<Rightarrow> int" where
  "expr_next s = (if s = 9 then 13 else if s = 10 then 14 else if s = 16 then 19 else if s = 17 then 20 else 12)"

lemma goto_expr_states: "\<forall>s \<in> set expr_states. \<forall>n \<in> set [6, 7, 8, 9, 10]. goto_state n s = expr_next s"
  by code_simp

lemma goto_expr:
  "s \<in> set expr_states \<Longrightarrow> n \<in> {6, 7, 8, 9, 10} \<Longrightarrow> goto n (s # ss) = expr_next s # s # ss"
  using goto_expr_states by (auto simp: goto_def)

lemma token_numbers: "YYTRANSLATE TWORD = 4" "YYTRANSLATE TNOT = 8" "YYTRANSLATE TAND = 6" "YYTRANSLATE TOR = 7" "YYTRANSLATE TLOGVAR = 5"
  "YYTRANSLATE TSTRING = 3" "YYTRANSLATE 40 = 11" "YYTRANSLATE 41 = 12" "YYTRANSLATE 61 = 10" "YYTRANSLATE 10 = 9"
  by code_simp+

lemma token_pos: "0 < TWORD" "0 < TNOT" "0 < TAND" "0 < TOR" "0 < TLOGVAR" "0 < TSTRING"
  by (simp_all add: TWORD_def TNOT_def TAND_def TOR_def TLOGVAR_def TSTRING_def)

lemma shifts_states: "\<forall>s \<in> set expr_states. shifts s TWORD 8 \<and> shifts s TNOT 9 \<and> shifts s 40 10"
  "\<forall>s \<in> set [12, 14]. shifts s TAND 16 \<and> shifts s TOR 17" "shifts 14 41 18"
  by code_simp+

lemma shifts_expr:
  "s \<in> set expr_states \<Longrightarrow> shifts s TWORD 8" "s \<in> set expr_states \<Longrightarrow> shifts s TNOT 9" "s \<in> set expr_states \<Longrightarrow> shifts s 40 10"
  "s \<in> {12, 14} \<Longrightarrow> shifts s TAND 16" "s \<in> {12, 14} \<Longrightarrow> shifts s TOR 17" "shifts 14 41 18"
  using shifts_states by auto

lemma reduces_expr: "reduces 8 c 6" "reduces 13 c 9" "reduces 18 c 10" "reduces 19 c 8" "reduces 20 c 7"
  by (simp_all add: reduces_def yy_tables)

text \<open>A reduction to an expression, which sets no variable.\<close>

lemma reduce_expr:
  assumes "cfg l r (s # ss) vs (t # rest) p" and "\<And>c. reduces s c n" and "n \<in> {6, 7, 8, 9, 10}" and "length ss + 1 < YYMAXDEPTH"
    and "drop (nat (tab_at yyr2 n)) (s # ss) = s1 # ss1" and "s1 \<in> set expr_states"
    and "\<And>q val. yyvs q = vs \<Longrightarrow> log_line q = l \<Longrightarrow> yy_user_action n val q = Some (v1, q)"
  shows "leads p (cfg l r (expr_next s1 # s1 # ss1) (v1 # drop (nat (tab_at yyr2 n)) vs) (t # rest))"
proof -
  obtain c u where t: "t = (c, u)" by (cases t)
  have "leads p (cfg l r (goto n (drop (nat (tab_at yyr2 n)) (s # ss))) (v1 # drop (nat (tab_at yyr2 n)) vs) ((c, u) # rest))"
    by (rule reduce_run [OF assms(1) [unfolded t] assms(2) assms(4) refl]) (simp add: assms(7))
  then show ?thesis using assms(3,6) by (simp add: assms(5) goto_expr t)
qed

lemma of_bool_01: "(of_bool b = (1 :: int)) = b" "(if b then 1 else 0 :: int) = of_bool b" "(if b then 0 else 1 :: int) = of_bool (\<not> b)"
  by simp_all

lemma factor_nonempty: "factor l ts b \<Longrightarrow> ts \<noteq> []" and expr_nonempty: "expr l ts b \<Longrightarrow> ts \<noteq> []"
  by (induction rule: factor_expr.inducts) simp_all

text \<open>An operator between an expression whose value is on the stack and a factor.\<close>

lemma operator_run:
  assumes "leads p (cfg l r (expr_next s # s # ss) (IValue (of_bool b) # vs) ((k, v) # us @ t # rest))"
    and k: "(k, n, f) = (TAND, 16, (\<and>)) \<or> (k, n, f) = (TOR, 17, (\<or>))" and s: "s \<in> {6, 10}"
    and len: "us \<noteq> []" "length ss + length us + 3 < YYMAXDEPTH"
    and second: "\<And>q vs. cfg l r (n # expr_next s # s # ss) vs (us @ t # rest) q \<Longrightarrow>
        leads q (cfg l r (expr_next n # n # expr_next s # s # ss) (IValue (of_bool c) # vs) (t # rest))"
  shows "leads p (cfg l r (expr_next s # s # ss) (IValue (of_bool (f b c)) # vs) (t # rest))"
  using assms(1)
proof (rule leads_trans)
  fix q
  assume "cfg l r (expr_next s # s # ss) (IValue (of_bool b) # vs) ((k, v) # us @ t # rest) q"
  moreover have s1: "expr_next s \<in> {12, 14}" "s \<in> set expr_states" using s by (auto simp: expr_next_def expr_states_def)
  ultimately have "leads q (cfg l r (n # expr_next s # s # ss) (v # IValue (of_bool b) # vs) (us @ t # rest))"
    using shifts_expr(4,5) [OF s1(1)] k token_pos len by (intro shift_run [where c = k]) auto
  then show "leads q (cfg l r (expr_next s # s # ss) (IValue (of_bool (f b c)) # vs) (t # rest))"
  proof (rule leads_trans)
    fix q1
    assume "cfg l r (n # expr_next s # s # ss) (v # IValue (of_bool b) # vs) (us @ t # rest) q1"
    then have "leads q1 (cfg l r (expr_next n # n # expr_next s # s # ss) (IValue (of_bool c) # v # IValue (of_bool b) # vs) (t # rest))"
      by (rule second)
    then show "leads q1 (cfg l r (expr_next s # s # ss) (IValue (of_bool (f b c)) # vs) (t # rest))"
    proof (rule leads_trans)
      fix q2
      assume q: "cfg l r (expr_next n # n # expr_next s # s # ss) (IValue (of_bool c) # v # IValue (of_bool b) # vs) (t # rest) q2"
      have len1: "length ss + 4 < YYMAXDEPTH" using len by (cases us) auto
      from k show "leads q2 (cfg l r (expr_next s # s # ss) (IValue (of_bool (f b c)) # vs) (t # rest))"
      proof
        assume k: "(k, n, f) = (TAND, 16, (\<and>))"
        with q have "cfg l r (19 # 16 # expr_next s # s # ss) (IValue (of_bool c) # v # IValue (of_bool b) # vs) (t # rest) q2"
          by (simp add: expr_next_def)
        from reduce_expr [OF this reduces_expr(4), of s ss "IValue (of_bool (b \<and> c))"] show ?thesis
          using k len1 s1 by (simp add: yy_user_action_def yy_tables)
      next
        assume k: "(k, n, f) = (TOR, 17, (\<or>))"
        with q have "cfg l r (20 # 17 # expr_next s # s # ss) (IValue (of_bool c) # v # IValue (of_bool b) # vs) (t # rest) q2"
          by (simp add: expr_next_def)
        from reduce_expr [OF this reduces_expr(5), of s ss "IValue (of_bool (b \<or> c))"] show ?thesis
          using k len1 s1 by (simp add: yy_user_action_def yy_tables)
      qed
    qed
  qed
qed

text \<open>The parser takes the tokens of an expression off and puts its value on the stack.\<close>

lemma expr_run:
  shows "factor l ts b \<Longrightarrow> s \<in> set expr_states \<Longrightarrow> cfg l r (s # ss) vs (ts @ t # rest) p \<Longrightarrow>
     length ss + length ts + 1 < YYMAXDEPTH \<Longrightarrow>
     leads p (cfg l r (expr_next s # s # ss) (IValue (of_bool b) # vs) (t # rest))"
    and "expr l ts b \<Longrightarrow> s \<in> {6, 10} \<Longrightarrow> cfg l r (s # ss) vs (ts @ t # rest) p \<Longrightarrow>
     length ss + length ts + 1 < YYMAXDEPTH \<Longrightarrow>
     leads p (cfg l r (expr_next s # s # ss) (IValue (of_bool b) # vs) (t # rest))"
proof (induction arbitrary: s ss vs t rest p and s ss vs t rest p rule: factor_expr.inducts)
  case (factor_word l w)
  have "leads p (cfg l r (8 # s # ss) (SValue w # vs) (t # rest))"
    by (rule shift_run [where c = TWORD]) (use factor_word shifts_expr(1) token_pos in auto)
  then show ?case
  proof (rule leads_trans)
    fix q
    assume q: "cfg l r (8 # s # ss) (SValue w # vs) (t # rest) q"
    show "leads q (cfg l r (expr_next s # s # ss) (IValue (of_bool (strstr l w)) # vs) (t # rest))"
      using reduce_expr [OF q reduces_expr(1), of s ss "IValue (of_bool (strstr l w))"] factor_word.prems
      by (simp add: yy_user_action_def yy_tables)
  qed
next
  case (factor_not l ts b v)
  have len: "length ts \<ge> 1" using factor_nonempty [OF factor_not.hyps] by (cases ts) auto
  have "leads p (cfg l r (9 # s # ss) (v # vs) (ts @ t # rest))"
    by (rule shift_run [where c = TNOT]) (use factor_not shifts_expr(2) token_pos in auto)
  then show ?case
  proof (rule leads_trans)
    fix q
    assume "cfg l r (9 # s # ss) (v # vs) (ts @ t # rest) q"
    then have "leads q (cfg l r (expr_next 9 # 9 # s # ss) (IValue (of_bool b) # v # vs) (t # rest))"
      by (rule factor_not.IH [rotated]) (use factor_not.prems in \<open>auto simp: expr_states_def\<close>)
    then show "leads q (cfg l r (expr_next s # s # ss) (IValue (of_bool (\<not> b)) # vs) (t # rest))"
    proof (rule leads_trans)
      fix q1
      assume q: "cfg l r (expr_next 9 # 9 # s # ss) (IValue (of_bool b) # v # vs) (t # rest) q1"
      show "leads q1 (cfg l r (expr_next s # s # ss) (IValue (of_bool (\<not> b)) # vs) (t # rest))"
        using reduce_expr [OF q [unfolded expr_next_def, simplified] reduces_expr(2), of s ss "IValue (of_bool (\<not> b))"] factor_not.prems len
        by (simp add: yy_user_action_def yy_tables)
    qed
  qed
next
  case (factor_paren l ts b v u)
  have len: "length ts \<ge> 1" using expr_nonempty [OF factor_paren.hyps] by (cases ts) auto
  have "leads p (cfg l r (10 # s # ss) (v # vs) (ts @ (41, u) # t # rest))"
    by (rule shift_run [where c = 40]) (use factor_paren shifts_expr(3) in auto)
  then show ?case
  proof (rule leads_trans)
    fix q
    assume "cfg l r (10 # s # ss) (v # vs) (ts @ (41, u) # t # rest) q"
    then have "leads q (cfg l r (expr_next 10 # 10 # s # ss) (IValue (of_bool b) # v # vs) ((41, u) # t # rest))"
      by (rule factor_paren.IH [rotated]) (use factor_paren.prems in auto)
    then show "leads q (cfg l r (expr_next s # s # ss) (IValue (of_bool b) # vs) (t # rest))"
    proof (rule leads_trans)
      fix q1
      assume "cfg l r (expr_next 10 # 10 # s # ss) (IValue (of_bool b) # v # vs) ((41, u) # t # rest) q1"
      then have "leads q1 (cfg l r (18 # 14 # 10 # s # ss) (u # IValue (of_bool b) # v # vs) (t # rest))"
        unfolding expr_next_def by (intro shift_run [where c = 41]) (use factor_paren.prems shifts_expr(6) len in auto)
      then show "leads q1 (cfg l r (expr_next s # s # ss) (IValue (of_bool b) # vs) (t # rest))"
      proof (rule leads_trans)
        fix q2
        assume q: "cfg l r (18 # 14 # 10 # s # ss) (u # IValue (of_bool b) # v # vs) (t # rest) q2"
        show "leads q2 (cfg l r (expr_next s # s # ss) (IValue (of_bool b) # vs) (t # rest))"
          using reduce_expr [OF q reduces_expr(3), of s ss "IValue (of_bool b)"] factor_paren.prems len
          by (simp add: yy_user_action_def yy_tables)
      qed
    qed
  qed
next
  case (expr_factor l ts b)
  show ?case by (rule expr_factor.IH) (use expr_factor.prems in \<open>auto simp: expr_states_def\<close>)
next
  case (expr_and l ts b us c v)
  have len: "length ts \<ge> 1"
    using expr_nonempty [OF expr_and.hyps(1)] by (cases ts) auto
  have first: "leads p (cfg l r (expr_next s # s # ss) (IValue (of_bool b) # vs) ((TAND, v) # us @ t # rest))"
    by (rule expr_and.IH(1)) (use expr_and.prems in auto)
  have second: "leads q (cfg l r (expr_next 16 # 16 # expr_next s # s # ss) (IValue (of_bool c) # vs) (t # rest))"
    if "cfg l r (16 # expr_next s # s # ss) vs (us @ t # rest) q" for q vs
    by (rule expr_and.IH(2) [OF _ that]) (use expr_and.prems len in \<open>simp_all add: expr_states_def\<close>)
  show ?case
    by (rule operator_run [where k = TAND and n = 16 and f = "(\<and>)", OF first _ _ _ _ second])
      (use expr_and.prems len factor_nonempty [OF expr_and.hyps(2)] in simp_all)
next
  case (expr_or l ts b us c v)
  have len: "length ts \<ge> 1"
    using expr_nonempty [OF expr_or.hyps(1)] by (cases ts) auto
  have first: "leads p (cfg l r (expr_next s # s # ss) (IValue (of_bool b) # vs) ((TOR, v) # us @ t # rest))"
    by (rule expr_or.IH(1)) (use expr_or.prems in auto)
  have second: "leads q (cfg l r (expr_next 17 # 17 # expr_next s # s # ss) (IValue (of_bool c) # vs) (t # rest))"
    if "cfg l r (17 # expr_next s # s # ss) vs (us @ t # rest) q" for q vs
    by (rule expr_or.IH(2) [OF _ that]) (use expr_or.prems len in \<open>simp_all add: expr_states_def\<close>)
  show ?case
    by (rule operator_run [where k = TOR and n = 17 and f = "(\<or>)", OF first _ _ _ _ second])
      (use expr_or.prems len factor_nonempty [OF expr_or.hyps(2)] in simp_all)
qed

section \<open>Reading the tokens\<close>

lemma yylex_rule:
  assumes "str \<noteq> []" and "0 \<notin> set str" and "lex_rule str = (act, n)"
  shows "yylex v str =
    (if act = 1 then Some (TNOT, v, drop n str) else if act = 2 then Some (TAND, v, drop n str)
     else if act = 3 then Some (TOR, v, drop n str) else if act = 4 then Some (TLOGVAR, v, drop n str)
     else if act = 5 then Some (TWORD, SValue (take n str), drop n str)
     else if act = 6 then Some (TSTRING, SValue (take (n - 2) (drop 1 (take n str))), drop n str)
     else if act = 7 \<or> act = 9 then Some (uint (hd (take n str)), v, drop n str)
     else if act = YY_END_OF_BUFFER + 1 then Some (0, v, drop n str)
     else yylex v (drop n str))"
  by (subst yylex.simps) (simp add: yy_act_rule [OF assms(1,2)] assms(3) Let_def)

lemma yylex_end: "yylex v [] = Some (0, v, [])"
proof -
  have "yy_act [] = Some (YY_END_OF_BUFFER + 1, 0)" by code_simp
  then show ?thesis by (subst yylex.simps) (simp add: YY_END_OF_BUFFER_def)
qed

lemma yylex_other:
  assumes "0 \<notin> set (c # cs)" and "\<not> word_char c" and "c \<noteq> 34"
  shows "yylex v (c # cs) =
    (if c = 33 then Some (TNOT, v, cs) else if c = 38 then Some (TAND, v, cs) else if c = 124 then Some (TOR, v, cs)
     else if c \<in> {40, 41, 61, 10, 44} then Some (uint c, v, cs) else yylex v cs)"
proof -
  have r: "lex_rule (c # cs) =
      ((if c = 33 then 1 else if c = 38 then 2 else if c = 124 then 3 else if c \<in> {40, 41, 61, 10} then 7
        else if c \<in> {32, 9} then 8 else if c = 44 then 9 else 10), 1)"
    by (rule lex_rule_other) (use assms in simp_all)
  show ?thesis by (subst yylex_rule [OF _ assms(1) r]) (auto simp: YY_END_OF_BUFFER_def)
qed

lemma yylex_string:
  assumes "0 \<notin> set (q @ cs)" and "34 \<notin> set q"
  shows "yylex v (34 # q @ 34 # cs) = Some (TSTRING, SValue q, cs)"
  by (subst yylex_rule [OF _ _ lex_rule_quoted [OF assms(2)]]) (use assms in simp_all)

lemma yylex_word:
  assumes "w \<noteq> []" and "list_all word_char w" and "cs = [] \<or> \<not> word_char (hd cs)" and "0 \<notin> set (w @ cs)"
  shows "yylex v (w @ cs) = (if w = logvar then Some (TLOGVAR, v, cs) else Some (TWORD, SValue w, cs))"
  by (subst yylex_rule [OF _ assms(4) lex_rule_word [OF refl assms(1-3)]]) (use assms in simp_all)

section \<open>Filter expressions\<close>

datatype filterExpr =
  FWord bytes | FNot filterExpr | FParen filterExpr | FAnd filterExpr filterExpr | FOr filterExpr filterExpr

primrec filter_holds :: "bytes \<Rightarrow> filterExpr \<Rightarrow> bool" where
  "filter_holds line (FWord w) = strstr line w"
| "filter_holds line (FNot e) = (\<not> filter_holds line e)"
| "filter_holds line (FParen e) = filter_holds line e"
| "filter_holds line (FAnd a b) = (filter_holds line a \<and> filter_holds line b)"
| "filter_holds line (FOr a b) = (filter_holds line a \<or> filter_holds line b)"

text \<open>How an expression is written: what is on the right of an operator, or negated, is in parentheses when it has an operator.\<close>

definition enclosed :: "filterExpr \<Rightarrow> bytes list \<Rightarrow> bytes list" where
  "enclosed e ls = (case e of FAnd a b \<Rightarrow> [40] # ls @ [[41]] | FOr a b \<Rightarrow> [40] # ls @ [[41]] | _ \<Rightarrow> ls)"

primrec lexemes :: "filterExpr \<Rightarrow> bytes list" where
  "lexemes (FWord w) = [w]"
| "lexemes (FNot e) = [33] # enclosed e (lexemes e)"
| "lexemes (FParen e) = [40] # lexemes e @ [[41]]"
| "lexemes (FAnd a b) = lexemes a @ [38] # enclosed b (lexemes b)"
| "lexemes (FOr a b) = lexemes a @ [124] # enclosed b (lexemes b)"

text \<open>Blanks and tabs may stand before, between and behind the lexemes.\<close>

inductive layout :: "bytes list \<Rightarrow> bytes \<Rightarrow> bool" where
  layout_end: "set bl \<subseteq> {32, 9} \<Longrightarrow> layout [] bl"
| layout_next: "set bl \<subseteq> {32, 9} \<Longrightarrow> layout ls str \<Longrightarrow> layout (x # ls) (bl @ x @ str)"

definition is_word :: "bytes \<Rightarrow> bool" where "is_word w \<longleftrightarrow> w \<noteq> [] \<and> list_all word_char w"

primrec filter_wf :: "filterExpr \<Rightarrow> bool" where
  "filter_wf (FWord w) = (is_word w \<and> w \<noteq> logvar)"
| "filter_wf (FNot e) = filter_wf e"
| "filter_wf (FParen e) = filter_wf e"
| "filter_wf (FAnd a b) = (filter_wf a \<and> filter_wf b)"
| "filter_wf (FOr a b) = (filter_wf a \<and> filter_wf b)"

text \<open>The tokens of lexemes; a token without a value has that of the one before.\<close>

definition token_of :: "YYSTYPE \<Rightarrow> bytes \<Rightarrow> int \<times> YYSTYPE" where
  "token_of v x =
     (if x = [33] then (TNOT, v) else if x = [38] then (TAND, v) else if x = [124] then (TOR, v)
      else if x = [40] then (40, v) else if x = [41] then (41, v) else (TWORD, SValue x))"

fun tokens_of :: "YYSTYPE \<Rightarrow> bytes list \<Rightarrow> (int \<times> YYSTYPE) list" where
  "tokens_of v [] = []"
| "tokens_of v (x # ls) = token_of v x # tokens_of (snd (token_of v x)) ls"

definition value_after :: "YYSTYPE \<Rightarrow> bytes list \<Rightarrow> YYSTYPE" where
  "value_after v ls = foldl (\<lambda>v x. snd (token_of v x)) v ls"

lemma tokens_of_append: "tokens_of v (xs @ ys) = tokens_of v xs @ tokens_of (value_after v xs) ys"
  by (induction xs arbitrary: v) (simp_all add: value_after_def)

lemma length_tokens_of [simp]: "length (tokens_of v ls) = length ls"
  by (induction ls arbitrary: v) simp_all

lemma word_lexeme: "is_word w \<Longrightarrow> token_of v w = (TWORD, SValue w)" "\<not> is_word [33]" "\<not> is_word [38]" "\<not> is_word [124]"
  "\<not> is_word [40]" "\<not> is_word [41]"
  by (auto simp: is_word_def token_of_def word_char_def)

lemma tokens_enclosed: "tokens_of v ([40] # ls @ [[41]]) = (40, v) # tokens_of v ls @ [(41, value_after v ls)]"
  by (simp add: tokens_of_append token_of_def)

lemma lexemes_expr:
  "filter_wf e \<Longrightarrow> expr line (tokens_of v (lexemes e)) (filter_holds line e) \<and>
     factor line (tokens_of v (enclosed e (lexemes e))) (filter_holds line e)"
proof (induction e arbitrary: v)
  case (FWord w)
  have "factor line [(TWORD, SValue w)] (strstr line w)" by (rule factor_word)
  then show ?case using FWord by (simp add: word_lexeme enclosed_def expr_factor)
next
  case (FNot e)
  have "factor line ((TNOT, v) # tokens_of v (enclosed e (lexemes e))) (\<not> filter_holds line e)"
    using FNot by (auto intro: factor_not)
  then show ?case by (simp add: enclosed_def [of "FNot e"] token_of_def expr_factor)
next
  case (FParen e)
  have "factor line (tokens_of v (lexemes (FParen e))) (filter_holds line (FParen e))" for v
    unfolding lexemes.simps tokens_enclosed using FParen by (auto intro: factor_paren)
  then show ?case by (simp add: enclosed_def [of "FParen e"] expr_factor)
next
  case (FAnd a b)
  have "expr line (tokens_of v (lexemes (FAnd a b))) (filter_holds line (FAnd a b))" for v
    using FAnd by (auto simp: tokens_of_append token_of_def intro!: expr_and)
  from this this [THEN factor_paren] show ?case unfolding enclosed_def filterExpr.case tokens_enclosed by blast
next
  case (FOr a b)
  have "expr line (tokens_of v (lexemes (FOr a b))) (filter_holds line (FOr a b))" for v
    using FOr by (auto simp: tokens_of_append token_of_def intro!: expr_or)
  from this this [THEN factor_paren] show ?case unfolding enclosed_def filterExpr.case tokens_enclosed by blast
qed

text \<open>Every lexeme is a word or an operator or a parenthesis; no two words stand side by side.\<close>

definition lexeme :: "bytes \<Rightarrow> bool" where
  "lexeme x \<longleftrightarrow> is_word x \<and> x \<noteq> logvar \<or> x \<in> {[33], [38], [124], [40], [41]}"

abbreviation apart :: "bytes list \<Rightarrow> bool" where "apart \<equiv> successively (\<lambda>x y. \<not> (is_word x \<and> is_word y))"

lemma lexemes_ok:
  "filter_wf e \<Longrightarrow> list_all lexeme (lexemes e) \<and> apart (lexemes e) \<and>
     list_all lexeme (enclosed e (lexemes e)) \<and> apart (enclosed e (lexemes e))"
proof -
  have encl: "list_all lexeme ls \<and> apart ls \<Longrightarrow> list_all lexeme (enclosed e ls) \<and> apart (enclosed e ls)" for e ls
    by (cases e) (auto simp: enclosed_def successively_Cons successively_append_iff lexeme_def word_lexeme)
  have "list_all lexeme (lexemes e) \<and> apart (lexemes e)" if "filter_wf e"
    using that by (induction e)
      (use encl in \<open>auto simp: successively_Cons successively_append_iff lexeme_def [of "[_]"] word_lexeme lexeme_def\<close>)
  then show "filter_wf e \<Longrightarrow> ?thesis" using encl by blast
qed

lemma yylex_blanks:
  "set bl \<subseteq> {32, 9} \<Longrightarrow> 0 \<notin> set cs \<Longrightarrow> yylex v (bl @ cs) = yylex v cs"
proof (induction bl)
  case (Cons b bl)
  then have "yylex v (b # bl @ cs) = yylex v (bl @ cs)"
    by (subst yylex_other) (auto simp: word_char_def)
  then show ?case using Cons by simp
qed simp

lemma lexes_blanks: "set bl \<subseteq> {32, 9} \<Longrightarrow> 0 \<notin> set cs \<Longrightarrow> lexes v (bl @ cs) toks = lexes v cs toks"
  by (subst (1 2) lexes.simps) (simp add: yylex_blanks)

lemma lexeme_no_zero: "lexeme x \<Longrightarrow> 0 \<notin> set x"
  by (auto simp: lexeme_def is_word_def list_all_iff word_char_def)

lemma layout_no_zero: "layout ls str \<Longrightarrow> list_all lexeme ls \<Longrightarrow> 0 \<notin> set str"
  by (induction rule: layout.induct) (auto dest: lexeme_no_zero)

lemma layout_head:
  assumes "layout ls str" and "list_all lexeme ls" and "ls \<noteq> [] \<Longrightarrow> \<not> is_word (hd ls)" and "\<not> word_char c"
  shows "\<not> word_char (hd (str @ c # rest))"
  using assms
proof cases
  case (layout_end)
  then show ?thesis using assms(4) by (cases str) (auto simp: word_char_def)
next
  case (layout_next bl ls1 str1 x)
  then have "x \<in> {[33], [38], [124], [40], [41]}" using assms(2,3) by (auto simp: lexeme_def)
  then show ?thesis using layout_next by (cases bl) (auto simp: word_char_def)
qed

lemma lexes_layout:
  assumes "layout ls str" and "list_all lexeme ls" and "apart ls" and "0 \<notin> set rest" and "lexes (value_after v ls) (10 # rest) toks"
  shows "lexes v (str @ 10 # rest) (tokens_of v ls @ toks)"
  using assms
proof (induction arbitrary: v rule: layout.induct)
  case (layout_end bl)
  then show ?case by (simp add: lexes_blanks value_after_def)
next
  case (layout_next bl ls str x)
  have z: "0 \<notin> set (x @ str @ 10 # rest)"
    using layout_next.prems layout_no_zero [OF layout_next.hyps(2)] lexeme_no_zero [of x] by auto
  have ap: "apart ls" "ls \<noteq> [] \<Longrightarrow> is_word x \<Longrightarrow> \<not> is_word (hd ls)"
    using layout_next.prems(2) by (cases ls; simp)+
  obtain c v1 where t: "token_of v x = (c, v1)" by (cases "token_of v x")
  have "yylex v (x @ str @ 10 # rest) = Some (c, v1, str @ 10 # rest) \<and> 0 < c"
  proof (cases "is_word x")
    case True
    then have "str @ 10 # rest = [] \<or> \<not> word_char (hd (str @ 10 # rest))"
      using layout_head [OF layout_next.hyps(2)] layout_next.prems(1) ap(2) by (auto simp: word_char_def)
    moreover have "x \<noteq> logvar" using layout_next.prems(1) True word_lexeme(2-6) by (auto simp: lexeme_def)
    moreover have "x \<noteq> []" "list_all word_char x" using True by (simp_all add: is_word_def)
    ultimately show ?thesis
      using yylex_word [of x "str @ 10 # rest" v] z t [unfolded word_lexeme(1) [OF True]] token_pos(1) by simp
  next
    case False
    then obtain c0 where x: "x = [c0]" and c0: "c0 \<in> {33, 38, 124, 40, 41}" using layout_next.prems(1) by (auto simp: lexeme_def)
    have nw: "\<not> word_char c0" "c0 \<noteq> 34" using c0 by (auto simp: word_char_def)
    have "yylex v (c0 # str @ 10 # rest) = Some (c, v1, str @ 10 # rest) \<and> 0 < c"
      using yylex_other [OF _ nw, of "str @ 10 # rest" v] z [unfolded x] c0 t [unfolded x token_of_def] token_pos by auto
    then show ?thesis by (simp add: x)
  qed
  moreover have "lexes v1 (str @ 10 # rest) (tokens_of v1 ls @ toks)"
    by (rule layout_next.IH) (use layout_next.prems ap t in \<open>simp_all add: value_after_def\<close>)
  ultimately have "lexes v (x @ str @ 10 # rest) ((c, v1) # tokens_of v1 ls @ toks)"
    by (auto intro: lexes_token)
  then show ?case using layout_next.hyps(1) z t by (simp add: lexes_blanks)
qed

section \<open>The whole parse\<close>

lemma shifts_line: "shifts 1 TLOGVAR 3" "shifts 3 61 5" "shifts 5 TSTRING 7" "shifts 4 10 6" "shifts 11 10 15"
  by code_simp+

lemma reduces_line: "reduces 0 c 3" "reduces 7 c 5" "reduces 12 10 4" "reduces 15 c 2"
  by (simp_all add: reduces_def yy_tables token_numbers)

lemma goto_line: "goto 3 (0 # ss) = 1 # 0 # ss" "goto 5 (1 # ss) = 4 # 1 # ss" "goto 4 (6 # ss) = 11 # 6 # ss" "goto 2 (0 # ss) = 1 # 0 # ss"
  by (simp_all add: goto_def goto_state_def yy_tables)

text \<open>From the start to the reduction of the log line.\<close>

lemma logged_run:
  assumes "cfg l r [0] [Garbage] ((TLOGVAR, a) # (61, b) # (TSTRING, SValue line) # t # toks) p" and "length line < 1024"
  shows "leads p (cfg line r [4, 1, 0] [a, Garbage, Garbage] (t # toks))"
proof -
  have d: "length ss + 1 < YYMAXDEPTH" if "length ss < 9" for ss :: "int list" using that by (simp add: YYMAXDEPTH_def)
  have s1: "leads p (cfg l r [1, 0] [Garbage, Garbage] ((TLOGVAR, a) # (61, b) # (TSTRING, SValue line) # t # toks))"
    using reduce_run [OF assms(1) reduces_line(1) d refl, where ?v1.0 = Garbage and ?l1.0 = l and ?r1.0 = r] by (simp add: yy_user_action_def yy_tables goto_line)
  have s2: "leads q (cfg l r [3, 1, 0] [a, Garbage, Garbage] ((61, b) # (TSTRING, SValue line) # t # toks))"
    if "cfg l r [1, 0] [Garbage, Garbage] ((TLOGVAR, a) # (61, b) # (TSTRING, SValue line) # t # toks) q" for q
    using shift_run [OF that shifts_line(1) token_pos(5) d] by simp
  have s3: "leads q (cfg l r [5, 3, 1, 0] [b, a, Garbage, Garbage] ((TSTRING, SValue line) # t # toks))"
    if "cfg l r [3, 1, 0] [a, Garbage, Garbage] ((61, b) # (TSTRING, SValue line) # t # toks) q" for q
    using shift_run [OF that shifts_line(2) _ d] by simp
  have s4: "leads q (cfg l r [7, 5, 3, 1, 0] [SValue line, b, a, Garbage, Garbage] (t # toks))"
    if "cfg l r [5, 3, 1, 0] [b, a, Garbage, Garbage] ((TSTRING, SValue line) # t # toks) q" for q
    using shift_run [OF that shifts_line(3) token_pos(6) d] by simp
  obtain c u where t: "t = (c, u)" by (cases t)
  have s5: "leads q (cfg line r [4, 1, 0] [a, Garbage, Garbage] (t # toks))"
    if "cfg l r [7, 5, 3, 1, 0] [SValue line, b, a, Garbage, Garbage] (t # toks) q" for q
    using reduce_run [OF that [unfolded t] reduces_line(2) d refl, where ?v1.0 = a and ?l1.0 = line and ?r1.0 = r] assms(2)
    by (simp add: t yy_user_action_def yy_tables goto_line)
  show ?thesis by (rule leads_trans [OF leads_trans [OF leads_trans [OF leads_trans [OF s1 s2] s3] s4] s5])
qed

text \<open>And to the place where the filter begins.\<close>

lemma line_run:
  assumes "cfg l r [0] [Garbage] ((TLOGVAR, a) # (61, b) # (TSTRING, SValue line) # (10, c) # toks) p" and "length line < 1024"
  shows "leads p (cfg line r [6, 4, 1, 0] [c, a, Garbage, Garbage] toks)"
proof (rule leads_trans [OF logged_run [OF assms]])
  fix q
  assume "cfg line r [4, 1, 0] [a, Garbage, Garbage] ((10, c) # toks) q"
  from shift_run [OF this shifts_line(4)] show "leads q (cfg line r [6, 4, 1, 0] [c, a, Garbage, Garbage] toks)"
    by (simp add: YYMAXDEPTH_def)
qed

text \<open>From the end of the filter on: the value goes to the variable, and the parser accepts.\<close>

lemma accept_run:
  assumes "cfg l r [12, 6, 4, 1, 0] (IValue i # vs) [(10, a), (0, b)] p"
  shows "\<exists>q. yyrun p = Some (Some (0, q)) \<and> yy_result q = i \<and> log_line q = l"
proof -
  have d: "length ss + 1 < YYMAXDEPTH" if "length ss < 9" for ss :: "int list" using that by (simp add: YYMAXDEPTH_def)
  have s1: "leads p (cfg l i [11, 6, 4, 1, 0] (IValue i # vs) [(10, a), (0, b)])"
    using reduce_run [OF assms reduces_line(3) d refl, where ?v1.0 = "IValue i" and ?l1.0 = l and ?r1.0 = i]
    by (simp add: yy_user_action_def yy_tables goto_line)
  have s2: "leads q (cfg l i [15, 11, 6, 4, 1, 0] (a # IValue i # vs) [(0, b)])"
    if "cfg l i [11, 6, 4, 1, 0] (IValue i # vs) [(10, a), (0, b)] q" for q
    using shift_run [OF that shifts_line(5) _ d] by simp
  have s3: "leads q (cfg l i [1, 0] ((a # IValue i # vs) ! 4 # drop 5 (a # IValue i # vs)) [(0, b)])"
    if "cfg l i [15, 11, 6, 4, 1, 0] (a # IValue i # vs) [(0, b)] q" for q
    using reduce_run [OF that reduces_line(4) d refl, where ?v1.0 = "(a # IValue i # vs) ! 4" and ?l1.0 = l and ?r1.0 = i]
    by (simp add: yy_user_action_def yy_tables goto_line)
  obtain vs1 where "leads p (cfg l i [1, 0] vs1 [(0, b)])" using leads_trans [OF leads_trans [OF s1 s2] s3] by blast
  then obtain q where pq: "yyrun p = yyrun q" and q: "cfg l i [1, 0] vs1 [(0, b)] q" by (auto simp: leads_def)
  obtain x where rd: "yy_read q = Some (q\<lparr>yychar := 0, yylval := b, yy_text := x\<rparr>)"
    using feed_read q unfolding cfg_def by blast
  let ?q = "q\<lparr>yychar := YYEMPTY, yylval := b, yy_text := x, yyerrstatus := 0, yyss := [2, 1, 0], yyvs := b # vs1\<rparr>"
  have "yystep q = Some (Go ?q)"
    using q rd by (simp add: yystep_def cfg_def yy_decide_def yy_tables YYMAXDEPTH_def)
  moreover have "yystep ?q = Some (Return 0 ?q)" by (simp add: yystep_def YYMAXDEPTH_def YYFINAL_def)
  ultimately have "yyrun q = Some (Some (0, ?q))" by (subst yyrun.simps, simp, subst yyrun.simps, simp)
  moreover have "yy_result ?q = i" "log_line ?q = l" using q by (simp_all add: cfg_def)
  ultimately show ?thesis unfolding pq by blast
qed

lemma uint_8 [simp]: "uint (61 :: u8) = 61" "uint (10 :: u8) = 10"
  by simp_all

text \<open>The tokens of the text that is parsed.\<close>

lemma lexes_string:
  assumes "0 \<notin> set line" and "34 \<notin> set line" and "0 \<notin> set rest" and "lexes (SValue line) rest toks"
  shows "lexes v (logvar @ [61, 34] @ line @ 34 # rest) ((TLOGVAR, v) # (61, v) # (TSTRING, SValue line) # toks)"
proof -
  have a: "yylex v (logvar @ 61 # 34 # line @ 34 # rest) = Some (TLOGVAR, v, 61 # 34 # line @ 34 # rest)"
    by (subst yylex_word) (use assms in \<open>auto simp: logvar_def word_char_def\<close>)
  have b: "yylex v (61 # 34 # line @ 34 # rest) = Some (61, v, 34 # line @ 34 # rest)"
    by (subst yylex_other) (use assms in \<open>auto simp: word_char_def\<close>)
  have c: "yylex v (34 # line @ 34 # rest) = Some (TSTRING, SValue line, rest)"
    by (rule yylex_string) (use assms in auto)
  show ?thesis
    using lexes_token [OF a _ lexes_token [OF b _ lexes_token [OF c _ assms(4)]]] token_pos by simp
qed

lemma lexes_line:
  assumes "0 \<notin> set line" and "34 \<notin> set line" and "0 \<notin> set rest" and "lexes (SValue line) rest toks"
  shows "lexes v (logvar @ [61, 34] @ line @ [34, 10] @ rest) ((TLOGVAR, v) # (61, v) # (TSTRING, SValue line) # (10, SValue line) # toks)"
proof -
  have d: "yylex (SValue line) (10 # rest) = Some (10, SValue line, rest)"
    by (subst yylex_other) (use assms in \<open>auto simp: word_char_def\<close>)
  show ?thesis
    using lexes_string [OF assms(1,2) _ lexes_token [OF d _ assms(4)]] assms(3) by simp
qed

lemma length_layout: "layout ls str \<Longrightarrow> list_all lexeme ls \<Longrightarrow> length ls \<le> length str"
proof (induction rule: layout.induct)
  case (layout_next bl ls str x)
  then have "x \<noteq> []" by (auto simp: lexeme_def is_word_def)
  then have "1 \<le> length x" by (cases x) auto
  with layout_next show ?case by simp
qed simp

text \<open>
  C35: A log line passes a filter exactly when the filter's expression holds for it: words are looked for in the
  line, the operators group to the left without precedence, blanks do not matter. The line has no
  quotation marks and fits its buffer.
\<close>

theorem filter_matches:
  assumes "filter_wf e" and "layout (lexemes e) match" and "length match \<le> 9000"
    and "0 \<notin> set line" and "34 \<notin> set line" and "length line < 1024"
  shows "\<exists>g1. log_string_match line match g = Some (Some (filter_holds line e, g1))"
proof -
  let ?v = "fv_yylval g"
  let ?ts = "tokens_of (SValue line) (lexemes e)"
  let ?u = "value_after (SValue line) (lexemes e)"
  note ok = lexemes_ok [OF assms(1)]
  have z: "0 \<notin> set (match @ [10])" using layout_no_zero [OF assms(2)] ok by simp
  have "lexes ?u [10] [(10, ?u), (0, ?u)]"
    by (rule lexes_token [OF _ _ lexes_end [OF yylex_end]]) (simp_all add: yylex_other word_char_def)
  then have "lexes (SValue line) (match @ [10]) (?ts @ [(10, ?u), (0, ?u)])"
    using lexes_layout [OF assms(2), of "[]"] ok by simp
  from lexes_line [OF assms(4,5) z this, of ?v]
  have lx: "lexes ?v (filter_input line match)
      ((TLOGVAR, ?v) # (61, ?v) # (TSTRING, SValue line) # (10, SValue line) # ?ts @ [(10, ?u), (0, ?u)])"
    by (simp add: filter_input_def)
  define p where "p = \<lparr>yyss = [0], yyvs = [Garbage], yychar = YYEMPTY, yylval = ?v, yy_text = filter_input line match,
    yyerrstatus = 0, yy_result = fv_result g, log_line = fv_log_line g\<rparr>"
  have "cfg (fv_log_line g) (fv_result g) [0] [Garbage]
      ((TLOGVAR, ?v) # (61, ?v) # (TSTRING, SValue line) # (10, SValue line) # ?ts @ [(10, ?u), (0, ?u)]) p"
    using lx by (simp add: cfg_def feed_def p_def)
  from line_run [OF this assms(6)] obtain vs where "leads p (cfg line (fv_result g) [6, 4, 1, 0] vs (?ts @ [(10, ?u), (0, ?u)]))" by blast
  then obtain q where pq: "yyrun p = yyrun q" and q: "cfg line (fv_result g) [6, 4, 1, 0] vs (?ts @ (10, ?u) # [(0, ?u)]) q"
    by (auto simp: leads_def)
  have "length (lexemes e) \<le> 9000" using length_layout [OF assms(2)] ok assms(3) by simp
  then have "leads q (cfg line (fv_result g) (expr_next 6 # 6 # [4, 1, 0]) (IValue (of_bool (filter_holds line e)) # vs) ((10, ?u) # [(0, ?u)]))"
    using lexemes_expr [OF assms(1), of line "SValue line"] by (intro expr_run(2) [OF _ _ q]) (auto simp: YYMAXDEPTH_def)
  then obtain q1 where q1: "yyrun q = yyrun q1"
    "cfg line (fv_result g) [12, 6, 4, 1, 0] (IValue (of_bool (filter_holds line e)) # vs) [(10, ?u), (0, ?u)] q1"
    by (auto simp: leads_def expr_next_def)
  from accept_run [OF q1(2)] obtain q2 where "yyrun p = Some (Some (0, q2))" "yy_result q2 = of_bool (filter_holds line e)"
    using pq q1(1) by auto
  then show ?thesis
    by (auto simp: log_string_match_def yyparse_def p_def)
qed

text \<open>The filter that text-filter.h gives as an example, on its first line.\<close>

definition example_filter :: filterExpr where
  "example_filter =
     FAnd (FParen (FOr (FWord (ascii ''net_core'')) (FWord (ascii ''net_crypt'')))) (FParen (FNot (FWord (ascii ''tr_udp''))))"

definition example_line :: bytes where
  "example_line = ascii ''DEBUG_VV net_core: ksnCoreSendto: send 17 bytes data''"

lemma layout_plain: "layout ls (concat ls)"
proof (induction ls)
  case Nil
  then show ?case using layout_end [of "[]"] by simp
next
  case (Cons x ls)
  then show ?case using layout_next [of "[]" ls "concat ls" x] by simp
qed

theorem filter_matches_witness:
  "\<exists>g1. log_string_match example_line (ascii ''(net_core|net_crypt)&(!tr_udp)'') \<lparr>fv_result = 0, fv_log_line = [], fv_yylval = Garbage\<rparr> =
     Some (Some (True, g1))"
proof -
  have "concat (lexemes example_filter) = ascii ''(net_core|net_crypt)&(!tr_udp)''" by code_simp
  then have "layout (lexemes example_filter) (ascii ''(net_core|net_crypt)&(!tr_udp)'')"
    using layout_plain [of "lexemes example_filter"] by simp
  moreover have "filter_wf example_filter" by code_simp
  moreover have "filter_holds example_line example_filter" by code_simp
  moreover have "0 \<notin> set example_line \<and> 34 \<notin> set example_line \<and> length example_line < 1024" by code_simp
  moreover have "length (ascii ''(net_core|net_crypt)&(!tr_udp)'') \<le> 9000" by (simp add: ascii_def)
  ultimately show ?thesis using filter_matches [of example_filter "ascii ''(net_core|net_crypt)&(!tr_udp)''" example_line] by auto
qed

section \<open>Filters and lines the parser does not take\<close>

lemma lex_rule_length: "str \<noteq> [] \<Longrightarrow> 0 \<notin> set str \<Longrightarrow> 1 \<le> snd (lex_rule str) \<and> fst (lex_rule str) \<in> {1..10}"
proof -
  assume ne: "str \<noteq> []" and z: "0 \<notin> set str"
  then obtain c cs where t: "str = c # cs" by (cases str) auto
  consider (word) "word_char c" | (quotes) q left where "c = 34" "cs = q @ 34 # left" "34 \<notin> set q"
    | (other) "\<not> word_char c" "c \<noteq> 34 \<or> 34 \<notin> set cs"
    using split_list_first [of 34 cs] by (cases "word_char c"; cases "c = 34 \<and> 34 \<in> set cs") blast+
  then show ?thesis
  proof cases
    case word
    have "dropWhile word_char cs = [] \<or> \<not> word_char (hd (dropWhile word_char cs))" by (metis hd_dropWhile)
    then have "lex_rule str = (if c # takeWhile word_char cs = logvar then 4 else 5, length (c # takeWhile word_char cs))"
      by (intro lex_rule_word [of _ _ "dropWhile word_char cs"]) (use t word in \<open>auto simp: list_all_iff dest: set_takeWhileD\<close>)
    then show ?thesis by simp
  next
    case quotes
    then show ?thesis using t lex_rule_quoted [of q "left"] by simp
  next
    case other
    then show ?thesis using t lex_rule_other [of c cs] by simp
  qed
qed

lemma yylex_progress:
  assumes "str \<noteq> []" and "0 \<notin> set str" and "lex_rule str = (act, n)"
  shows "(act = 8 \<or> act = 10) \<and> (\<forall>v. yylex v str = yylex v (drop n str)) \<or>
     (\<forall>v. \<exists>c v1. yylex v str = Some (c, v1, drop n str) \<and> 0 < c)"
proof -
  have n: "1 \<le> n" "act \<in> {1..10}" using lex_rule_length [OF assms(1,2)] assms(3) by simp_all
  have "hd (take n str) \<in> set str" using n assms(1) by (cases str; cases n) simp_all
  then have "hd (take n str) \<noteq> 0" using assms(2) by metis
  then have "uint (hd (take n str)) \<noteq> 0" by (simp add: uint_0_iff)
  then have hd: "0 < uint (hd (take n str))" using uint_ge_0 [of "hd (take n str)"] by linarith
  have a: "act = 1 \<or> act = 2 \<or> act = 3 \<or> act = 4 \<or> act = 5 \<or> act = 6 \<or> act = 7 \<or> act = 8 \<or> act = 9 \<or> act = 10"
    using n(2) by (simp only: atLeastAtMost_iff) arith
  note y = yylex_rule [OF assms]
  show ?thesis using a hd token_pos unfolding y by (elim disjE) (simp_all add: YY_END_OF_BUFFER_def)
qed

lemma lexes_total: "0 \<notin> set str \<Longrightarrow> \<exists>toks. lexes v str toks \<and> toks \<noteq> []"
proof (induction str arbitrary: v rule: length_induct)
  case (1 str)
  show ?case
  proof (cases "str = []")
    case True
    then show ?thesis using lexes_end [OF yylex_end] by blast
  next
    case False
    obtain act n where r: "lex_rule str = (act, n)" by (cases "lex_rule str")
    have n: "1 \<le> n" using lex_rule_length [OF False 1(2)] r by simp
    have short: "length (drop n str) < length str" using n False by simp
    have z: "0 \<notin> set (drop n str)" using 1(2) in_set_dropD by metis
    have IH: "\<exists>toks. lexes v (drop n str) toks \<and> toks \<noteq> []" for v
      using 1(1) [rule_format, OF short z] .
    from yylex_progress [OF False 1(2) r] show ?thesis
    proof
      assume "(act = 8 \<or> act = 10) \<and> (\<forall>v. yylex v str = yylex v (drop n str))"
      then have "lexes v str toks = lexes v (drop n str) toks" for toks
        by (subst (1 2) lexes.simps) simp
      then show ?thesis using IH [of v] by simp
    next
      assume "\<forall>v. \<exists>c v1. yylex v str = Some (c, v1, drop n str) \<and> 0 < c"
      then obtain c v1 where "yylex v str = Some (c, v1, drop n str)" "0 < c" by blast
      moreover obtain toks where "lexes v1 (drop n str) toks" using IH [of v1] by blast
      ultimately have "lexes v str ((c, v1) # toks)" by (rule lexes_token)
      then show ?thesis by blast
    qed
  qed
qed
text \<open>No state shifts the error token: a syntax error ends the parse.\<close>

lemma no_error_shift: "\<forall>s \<in> set [0..20]. tab_at yypact s = YYPACT_NINF \<or> tab_at yypact s + YYTERROR < 0 \<or>
     tab_at yypact s + YYTERROR > YYLAST \<or> tab_at yycheck (tab_at yypact s + YYTERROR) \<noteq> YYTERROR"
  by code_simp

lemma yyerrpop_None: "set ss \<subseteq> set [0..20] \<Longrightarrow> yyerrpop ss vs = None"
proof (induction ss arbitrary: vs)
  case (Cons s ss)
  then show ?case using no_error_shift by (fastforce simp: Let_def)
qed simp

definition rejects :: "int \<Rightarrow> int \<Rightarrow> bool" where
  "rejects s c \<longleftrightarrow>
     s \<noteq> YYFINAL \<and> tab_at yydefact s = 0 \<and>
     (tab_at yypact s \<noteq> YYPACT_NINF \<longrightarrow>
       (let t = (if c \<le> 0 then 0 else YYTRANSLATE c); i = tab_at yypact s + t in i < 0 \<or> YYLAST < i \<or> tab_at yycheck i \<noteq> t))"

lemma error_run:
  assumes "cfg l r (s # ss) vs ((c, v) # toks) p" and "rejects s c" and "set (s # ss) \<subseteq> set [0..20]" and "length ss + 1 < YYMAXDEPTH"
  shows "\<exists>q. yyrun p = Some (Some (1, q)) \<and> yy_result q = r \<and> log_line q = l"
proof -
  obtain x where rd: "yy_read p = Some (p\<lparr>yychar := c, yylval := v, yy_text := x\<rparr>)" and c0: "0 \<le> c"
    using feed_read assms(1) unfolding cfg_def by blast
  have err: "yydefault q = Return 1 q" if "yyss q = s # ss" "yyerrstatus q = 0" for q
    using that assms(2) yyerrpop_None [OF assms(3), of "yyvs q"] by (simp add: yydefault_def rejects_def yyerrlab_def)
  have "\<exists>q. yystep p = Some (Return 1 q) \<and> yy_result q = r \<and> log_line q = l"
  proof (cases "tab_at yypact s = YYPACT_NINF")
    case True
    then show ?thesis using assms(1,2,4) err [of p] by (auto simp: yystep_def cfg_def rejects_def)
  next
    case False
    define q where "q = p\<lparr>yychar := c, yylval := v, yy_text := x\<rparr>"
    have q: "yychar q = c" "c \<le> 0 \<Longrightarrow> q\<lparr>yychar := 0\<rparr> = q" "yyss q = s # ss" "yyerrstatus q = 0" "yy_result q = r" "log_line q = l"
      using assms(1) c0 by (simp_all add: q_def cfg_def)
    have "yy_decide (tab_at yypact s) q = yydefault q"
      using assms(2) False q(2) unfolding yy_decide_def rejects_def Let_def q(1) by auto
    then have "yystep p = Some (Return 1 q)"
      using assms(1,2,4) rd False err [OF q(3,4)] by (simp add: yystep_def cfg_def rejects_def q_def)
    then show ?thesis using q by blast
  qed
  then show ?thesis by (subst yyrun.simps) auto
qed

lemma parse_start:
  assumes "lexes (fv_yylval g) (filter_input line match) toks"
  shows "\<exists>p. cfg (fv_log_line g) (fv_result g) [0] [Garbage] toks p \<and>
     yyparse (filter_input line match) g = map_option (map_option (\<lambda>(r, q). (r, \<lparr>fv_result = yy_result q, fv_log_line = log_line q, fv_yylval = yylval q\<rparr>))) (yyrun p)"
  using assms unfolding yyparse_def
  by (intro exI [of _ "\<lparr>yyss = [0], yyvs = [Garbage], yychar = YYEMPTY, yylval = fv_yylval g, yy_text = filter_input line match,
      yyerrstatus = 0, yy_result = fv_result g, log_line = fv_log_line g\<rparr>"]) (simp add: cfg_def feed_def)

lemma rejects_10: "rejects 6 10" by code_simp

text \<open>
  A filter that has none of the small letters, operators and parentheses, such as one in capital
  letters, does not parse, and whether the line passes is what the last filter that did parse gave.
\<close>

theorem filter_stale:
  assumes "\<And>c. c \<in> set match \<Longrightarrow> \<not> word_char c \<and> c \<notin> {0, 10, 33, 34, 38, 40, 41, 44, 61, 124}"
    and "0 \<notin> set line" and "34 \<notin> set line" and "length line < 1024"
  shows "\<exists>g1. log_string_match line match g = Some (Some (fv_result g \<noteq> 0, g1)) \<and> fv_result g1 = fv_result g"
proof -
  have "yylex v (m @ [10]) = Some (10, v, [])" if "set m \<subseteq> set match" for m v
    using that
  proof (induction m)
    case (Cons c m)
    then have "yylex v (c # m @ [10]) = yylex v (m @ [10])"
      using assms(1) [of c] assms(1) by (subst yylex_other) (auto simp: subset_iff)
    then show ?case using Cons by simp
  qed (simp add: yylex_other word_char_def)
  then have "lexes v (match @ [10]) [(10, v), (0, v)]" for v
    using lexes_token [OF _ _ lexes_end [OF yylex_end]] by simp
  moreover have "0 \<notin> set (match @ [10])" using assms(1) by auto
  ultimately have "\<exists>a b c. lexes (fv_yylval g) (filter_input line match) ((TLOGVAR, a) # (61, b) # (TSTRING, SValue line) # (10, c) # (10, SValue line) # [(0, SValue line)])"
    using lexes_line [OF assms(2,3), of "match @ [10]"] by (fastforce simp: filter_input_def)
  then obtain a b c p where p: "cfg (fv_log_line g) (fv_result g) [0] [Garbage]
      ((TLOGVAR, a) # (61, b) # (TSTRING, SValue line) # (10, c) # (10, SValue line) # [(0, SValue line)]) p"
    and y: "yyparse (filter_input line match) g = map_option (map_option (\<lambda>(r, q). (r, \<lparr>fv_result = yy_result q, fv_log_line = log_line q, fv_yylval = yylval q\<rparr>))) (yyrun p)"
    using parse_start by blast
  from line_run [OF p assms(4)] obtain vs q where pq: "yyrun p = yyrun q"
    and q: "cfg line (fv_result g) [6, 4, 1, 0] vs ((10, SValue line) # [(0, SValue line)]) q"
    by (auto simp: leads_def)
  from error_run [OF q rejects_10] show ?thesis
    using y pq by (auto simp: log_string_match_def YYMAXDEPTH_def)
qed

theorem filter_stale_witness:
  "\<exists>g1. log_string_match (ascii ''a'') (ascii ''ERROR'') \<lparr>fv_result = 1, fv_log_line = [], fv_yylval = Garbage\<rparr> = Some (Some (True, g1))"
proof -
  have "list_all (\<lambda>c. \<not> word_char c \<and> c \<notin> {0, 10, 33, 34, 38, 40, 41, 44, 61, 124}) (ascii ''ERROR'')" by code_simp
  then have all: "\<And>c. c \<in> set (ascii ''ERROR'') \<Longrightarrow> \<not> word_char c \<and> c \<notin> {0, 10, 33, 34, 38, 40, 41, 44, 61, 124}"
    unfolding list_all_iff by blast
  have "0 \<notin> set (ascii ''a'')" "34 \<notin> set (ascii ''a'')" "length (ascii ''a'') < 1024" by (simp_all add: ascii_def)
  then show ?thesis
    using filter_stale [OF all, where line = "ascii ''a''" and g = "\<lparr>fv_result = 1, fv_log_line = [], fv_yylval = Garbage\<rparr>"] by auto
qed

text \<open>A quotation mark in the line ends it there, and what follows is not what the grammar wants.\<close>

lemma rejects_word: "rejects 4 TWORD" "rejects 4 TLOGVAR" by code_simp+

theorem filter_quoted_line:
  assumes "line = l1 @ 34 # x # l2" and "word_char x" and "34 \<notin> set l1" and "0 \<notin> set line" and "0 \<notin> set match"
    and "length line < 1024"
  shows "\<exists>g1. log_string_match line match g = Some (Some (fv_result g \<noteq> 0, g1))"
proof -
  let ?rest = "x # l2 @ [34, 10] @ match @ [10]"
  let ?v = "fv_yylval g"
  have z: "0 \<notin> set ?rest" "0 \<notin> set l1" using assms(1,4,5) by auto
  define w where "w = x # takeWhile word_char (l2 @ [34, 10] @ match @ [10])"
  define r where "r = dropWhile word_char (l2 @ [34, 10] @ match @ [10])"
  have rest: "?rest = w @ r" by (simp add: w_def r_def)
  have "r = [] \<or> \<not> word_char (hd r)" unfolding r_def by (metis hd_dropWhile)
  moreover have "list_all word_char w" using assms(2) by (auto simp: w_def list_all_iff dest: set_takeWhileD)
  moreover have "w \<noteq> []" by (simp add: w_def)
  moreover have z2: "0 \<notin> set (w @ r)" using z(1) unfolding rest .
  ultimately obtain c v1 where c: "yylex (SValue l1) (w @ r) = Some (c, v1, r)" "c = TWORD \<or> c = TLOGVAR"
    using yylex_word [of w r "SValue l1"] by (cases "w = logvar") auto
  obtain toks where "lexes v1 r toks" using lexes_total [of r v1] z2 by auto
  then have more: "lexes (SValue l1) ?rest ((c, v1) # toks)"
    unfolding rest using lexes_token [OF c(1)] c(2) token_pos by auto
  have "lexes ?v (logvar @ [61, 34] @ l1 @ 34 # ?rest) ((TLOGVAR, ?v) # (61, ?v) # (TSTRING, SValue l1) # (c, v1) # toks)"
    by (rule lexes_string [OF z(2) assms(3) z(1) more])
  then have "lexes ?v (filter_input line match) ((TLOGVAR, ?v) # (61, ?v) # (TSTRING, SValue l1) # (c, v1) # toks)"
    using assms(1) by (simp add: filter_input_def)
  then obtain p where p: "cfg (fv_log_line g) (fv_result g) [0] [Garbage] ((TLOGVAR, ?v) # (61, ?v) # (TSTRING, SValue l1) # (c, v1) # toks) p"
    and y: "yyparse (filter_input line match) g = map_option (map_option (\<lambda>(r, q). (r, \<lparr>fv_result = yy_result q, fv_log_line = log_line q, fv_yylval = yylval q\<rparr>))) (yyrun p)"
    using parse_start by blast
  have "length l1 < 1024" using assms(1,6) by simp
  from logged_run [OF p this] obtain q where pq: "yyrun p = yyrun q" and q: "cfg l1 (fv_result g) [4, 1, 0] [?v, Garbage, Garbage] ((c, v1) # toks) q"
    by (auto simp: leads_def)
  have "rejects 4 c" using c(2) rejects_word by auto
  from error_run [OF q this] show ?thesis
    using y pq by (auto simp: log_string_match_def YYMAXDEPTH_def)
qed

end
