(* ===== verification/Logging.thy ===== *)
theory Logging
  imports LogText TextFilter AsyncCalls Delivery
begin

text \<open>
  Log messages (ksnet_printf of utils/utils.c, the filter of hotkeys.c, modules/logging_client.c and
  modules/logging_server.c). A message is shown if its type and the filter allow it, written to the system
  log, and, as an asynchronous event, sent by the logging client to the logging servers it knows. A
  logging server makes itself known to each peer that connects, and gives the messages it gets to its
  application.

  Both modules put their event callback in front of the one before: an event goes to the client's
  callback, then to the server's, then to the application's. The map of servers is a teoMap of the teoccl
  library, which is not part of the repository.
\<close>

section \<open>State\<close>

text \<open>
  A map: adding gives none on an error; \<open>tm_keys\<close> are the texts that the element data point to in the
  calls of teoMapForeach, in their order.
\<close>

record 'm teoMapLib =
  tm_new :: 'm
  tm_add :: "bytes \<Rightarrow> 'm \<Rightarrow> 'm option"
  tm_delete :: "bytes \<Rightarrow> 'm \<Rightarrow> 'm"
  tm_keys :: "'m \<Rightarrow> bytes list"

text \<open>What a map does: the hypothesis on the library.\<close>

definition teo_map :: "'m teoMapLib \<Rightarrow> bool" where
  "teo_map lib \<longleftrightarrow> tm_keys lib (tm_new lib) = [] \<and>
     (\<forall>k m m'. tm_add lib k m = Some m' \<longrightarrow> set (tm_keys lib m') = insert k (set (tm_keys lib m))) \<and>
     (\<forall>k m. set (tm_keys lib (tm_delete lib k m)) = set (tm_keys lib m) - {k}) \<and> (\<forall>m. distinct (tm_keys lib m))"

text \<open>
  The hotkeys module: whether single keys are read or a line of text, whether the next key y quits, what is
  shown again and again, the last key, the number of the text asked for and the text kept, the filter,
  and the timers: that of the pings to a peer, that of the monitor, and those that show the
  peers and the statistics, each with an idle watcher that runs between two times. \<open>kh_freed_idle\<close>: the
  idle watcher of a freed timer record is still active.
\<close>

datatype showTimer = TimerOn | IdleOn

record ksnetHotkeysClass =
  kh_non_blocking :: bool
  kh_wait_y :: bool
  kh_peer_m :: bool
  kh_tr_udp_m :: bool
  kh_tr_udp_queues_m :: bool
  kh_last_hotkey :: int
  kh_str_number :: nat
  kh_str :: bytes
  kh_filter_f :: bool
  kh_filter :: "bytes option"
  kh_pt :: "bytes option"
  kh_mt :: bool
  kh_pet :: "showTimer option"
  kh_put :: "showTimer option"
  kh_freed_idle :: bool

text \<open>
  What logging needs of a node: the servers the client knows (none without the client), whether the
  server runs, the hotkeys module, the flags of the configuration, the variables of the filter's parser,
  the four bytes at an address of user data with the address of the client's label, and what has been
  shown (with or without the time in front) and written to the system log.
\<close>

record 'm teoLogs =
  lc_map :: "'m option"
  ls_on :: bool
  kh :: "ksnetHotkeysClass option"
  show_connect_f :: bool
  show_debug_f :: bool
  show_debug_vv_f :: bool
  show_debug_vvv_f :: bool
  color_output_disable_f :: bool
  log_priority :: int
  logging_f :: bool
  log_disable_f :: bool
  send_all_logs_f :: bool
  lg_filter :: filterVars
  lg_user_data :: "nat \<Rightarrow> u32"
  lg_label_ptr :: nat
  lg_shown :: "(bool \<times> bytes) list"
  lg_syslog :: "(int \<times> bytes) list"

definition ASYNC_LABEL :: u32 where "ASYNC_LABEL = 0xAA77AA77"

type_synonym 'm logNode = "'m teoLogs \<times> ksnetEvMgr"

section \<open>Filter\<close>

definition hotkeysResetFilter :: "ksnetHotkeysClass \<Rightarrow> ksnetHotkeysClass" where
  "hotkeysResetFilter hotkeys = (if kh_filter hotkeys \<noteq> None then hotkeys\<lparr>kh_filter := None\<rparr> else hotkeys)"

definition teoHotkeySetFilter :: "ksnetHotkeysClass \<Rightarrow> bytes \<Rightarrow> ksnetHotkeysClass" where
  "teoHotkeySetFilter hotkeys filter_text = (hotkeysResetFilter hotkeys)\<lparr>kh_filter := Some filter_text\<rparr>"

definition teoFilterFlagCheck :: "'m teoLogs \<Rightarrow> bool" where
  "teoFilterFlagCheck lg = (case kh lg of Some k \<Rightarrow> kh_filter_f k | None \<Rightarrow> True)"

text \<open>None: the match does not return, or overruns the line's array.\<close>

definition teoLogCheck :: "bytes \<Rightarrow> 'm teoLogs \<Rightarrow> (bool \<times> 'm teoLogs) option" where
  "teoLogCheck line lg =
     (case kh lg of
        None \<Rightarrow> Some (True, lg)
      | Some k \<Rightarrow>
          (case kh_filter k of
             None \<Rightarrow> Some (True, lg)
           | Some f \<Rightarrow> map_option (\<lambda>(r, g). (r, lg\<lparr>lg_filter := g\<rparr>)) (Option.bind (log_string_match line f (lg_filter lg)) (\<lambda>x. x))))"

text \<open>\<open>teoFilterFlagCheck(ke) && teoLogCheck(ke, line)\<close>\<close>

definition log_check :: "bytes \<Rightarrow> 'm teoLogs \<Rightarrow> (bool \<times> 'm teoLogs) option" where
  "log_check line lg = (if teoFilterFlagCheck lg then teoLogCheck line lg else Some (False, lg))"

section \<open>Logging client\<close>

definition teoLoggingClientAddServer :: "'m teoMapLib \<Rightarrow> bytes \<Rightarrow> 'm teoLogs \<Rightarrow> 'm teoLogs" where
  "teoLoggingClientAddServer lib peer lg =
     lg\<lparr>lc_map := map_option (\<lambda>m. case tm_add lib (strz peer) m of Some m' \<Rightarrow> m' | None \<Rightarrow> m) (lc_map lg)\<rparr>"

definition teoLoggingClientRemoveServer :: "'m teoMapLib \<Rightarrow> bytes \<Rightarrow> 'm teoLogs \<Rightarrow> 'm teoLogs" where
  "teoLoggingClientRemoveServer lib peer lg = lg\<lparr>lc_map := map_option (tm_delete lib (strz peer)) (lc_map lg)\<rparr>"

definition teoLoggingClientSendOne :: "bytes \<Rightarrow> bytes \<Rightarrow> ksnetEvMgr \<Rightarrow> ksnetEvMgr" where
  "teoLoggingClientSendOne data key ke = snd (ksnCoreSendCmdto (cstr key) CMD_LOGGING data ke)"

definition teoLoggingClientSendAll :: "'m teoMapLib \<Rightarrow> bytes \<Rightarrow> 'm logNode \<Rightarrow> 'm logNode" where
  "teoLoggingClientSendAll lib data = (\<lambda>(lg, ke).
     case lc_map lg of None \<Rightarrow> (lg, ke) | Some m \<Rightarrow> (lg, fold (teoLoggingClientSendOne data) (tm_keys lib m) ke))"

definition teoLoggingClientSend :: "bytes \<Rightarrow> 'm logNode \<Rightarrow> 'm logNode" where
  "teoLoggingClientSend message = (\<lambda>(lg, ke).
     if \<not> log_disable_f lg \<and> (send_all_logs_f lg \<or> take 1 message = [35] \<or> strstr message (ascii '': ### ''))
     then (lg, ksnetEvMgrAsync (strz message) (lg_label_ptr lg) ke) else (lg, ke))"

section \<open>Event callbacks\<close>

definition app_event_cb :: "u16 \<Rightarrow> eventData \<Rightarrow> 'm logNode \<Rightarrow> 'm logNode" where
  "app_event_cb ev d = (\<lambda>(lg, ke). (lg, event_cb ev d ke))"

definition LOG_INFO :: int where "LOG_INFO = 6"

text \<open>
  The server's handling of a log message; its text is that of the data up to a zero, and what is
  behind the packet if there is none.
\<close>

definition log_received :: "ksnCorePacketData \<Rightarrow> 'm logNode \<Rightarrow> 'm logNode" where
  "log_received rd = (\<lambda>(lg, ke).
     let ke1 = (if 0 \<in> set (rd_data rd) then ke else emit [UninitRead] ke);
         line = cstr (rd_from rd) @ ascii '': '' @ cstr (rd_data rd)
     in case log_check (cstr (rd_data rd)) lg of
          None \<Rightarrow> (lg, emit [Fault] ke1)
        | Some (show_it, lg1) \<Rightarrow>
            let lg2 = (if show_it then lg1\<lparr>lg_shown := lg_shown lg1 @ [(False, line @ [10])]\<rparr> else lg1);
                lg3 = lg2\<lparr>lg_syslog := lg_syslog lg2 @ [(LOG_INFO, ascii ''TEO_LOGGING: '' @ line)]\<rparr>
            in app_event_cb EV_K_LOGGING (EvPacket rd) (lg3, ke1))"

text \<open>The callbacks of the two modules. An event that carries no packet where one is read is a fault.\<close>

definition logging_server_event_cb :: "u16 \<Rightarrow> eventData \<Rightarrow> 'm logNode \<Rightarrow> 'm logNode" where
  "logging_server_event_cb ev d = (\<lambda>(lg, ke).
     if ev = EV_K_CONNECTED
     then (case d of
             EvPacket rd \<Rightarrow> app_event_cb ev d (lg, snd (ksnCoreSendCmdto (cstr (rd_from rd)) CMD_LOGGING [] ke))
           | _ \<Rightarrow> (lg, emit [Fault] ke))
     else if ev = EV_K_RECEIVED
     then (case d of
             EvPacket rd \<Rightarrow> if rd_cmd rd = CMD_LOGGING \<and> rd_data rd \<noteq> [] then log_received rd (lg, ke) else app_event_cb ev d (lg, ke)
           | _ \<Rightarrow> (lg, emit [Fault] ke))
     else app_event_cb ev d (lg, ke))"

definition logging_client_event_cb ::
  "'m teoMapLib \<Rightarrow> (u16 \<Rightarrow> eventData \<Rightarrow> 'm logNode \<Rightarrow> 'm logNode) \<Rightarrow> u16 \<Rightarrow> eventData \<Rightarrow> 'm logNode \<Rightarrow> 'm logNode" where
  "logging_client_event_cb lib parent ev d = (\<lambda>(lg, ke).
     if ev = EV_K_DISCONNECTED
     then (case d of
             EvPacket rd \<Rightarrow> parent ev d (teoLoggingClientRemoveServer lib (cstr (rd_from rd)) lg, ke)
           | _ \<Rightarrow> (lg, emit [Fault] ke))
     else if ev = EV_K_RECEIVED
     then (case d of
             EvPacket rd \<Rightarrow> if rd_cmd rd = CMD_LOGGING \<and> rd_data rd = []
                           then (teoLoggingClientAddServer lib (cstr (rd_from rd)) lg, ke) else parent ev d (lg, ke)
           | _ \<Rightarrow> (lg, emit [Fault] ke))
     else if ev = EV_K_ASYNC
     then (case d of
             EvAsync user_data data \<Rightarrow>
               if user_data \<noteq> 0 \<and> lg_user_data lg user_data = ASYNC_LABEL
               then teoLoggingClientSendAll lib data (lg, ke) else parent ev d (lg, ke)
           | _ \<Rightarrow> parent ev d (lg, ke))
     else parent ev d (lg, ke))"

text \<open>The callback of a node with the modules that run; the server was put in front first.\<close>

definition log_event :: "'m teoMapLib \<Rightarrow> u16 \<Rightarrow> eventData \<Rightarrow> 'm logNode \<Rightarrow> 'm logNode" where
  "log_event lib ev d = (\<lambda>(lg, ke).
     let parent = (if ls_on lg then logging_server_event_cb else app_event_cb)
     in if lc_map lg \<noteq> None then logging_client_event_cb lib parent ev d (lg, ke) else parent ev d (lg, ke))"

definition teoLoggingServerInit :: "'m teoLogs \<Rightarrow> 'm teoLogs" where
  "teoLoggingServerInit lg = lg\<lparr>ls_on := logging_f lg\<rparr>"

definition teoLoggingClientInit :: "'m teoMapLib \<Rightarrow> 'm teoLogs \<Rightarrow> 'm teoLogs" where
  "teoLoggingClientInit lib lg = lg\<lparr>lc_map := (if log_disable_f lg then None else Some (tm_new lib))\<rparr>"

definition teoLoggingClientDestroy :: "'m teoLogs \<Rightarrow> 'm teoLogs" where
  "teoLoggingClientDestroy lg = lg\<lparr>lc_map := None\<rparr>"

definition teoLoggingServerDestroy :: "'m teoLogs \<Rightarrow> 'm teoLogs" where
  "teoLoggingServerDestroy lg = lg\<lparr>ls_on := False\<rparr>"

section \<open>Messages\<close>

text \<open>The types of messages and their numbers.\<close>

datatype ksnet_printf_type = NONE_LOG | ERROR_M | CONNECT | MESSAGE | DEBUG | DEBUG_VV | DEBUG_VVV | DISPLAY_M

fun type_number :: "ksnet_printf_type \<Rightarrow> int" where
  "type_number NONE_LOG = 0"
| "type_number ERROR_M = 1"
| "type_number CONNECT = 2"
| "type_number MESSAGE = 3"
| "type_number DEBUG = 4"
| "type_number DEBUG_VV = 5"
| "type_number DEBUG_VVV = 6"
| "type_number DISPLAY_M = 7"

text \<open>Whether a message of a type is to be shown, and its priority in the system log.\<close>

fun type_show :: "ksnet_printf_type \<Rightarrow> 'm teoLogs \<Rightarrow> bool" where
  "type_show CONNECT lg = show_connect_f lg"
| "type_show DEBUG lg = (show_debug_f lg \<or> show_debug_vv_f lg \<or> show_debug_vvv_f lg)"
| "type_show DEBUG_VV lg = (show_debug_vv_f lg \<or> show_debug_vvv_f lg)"
| "type_show DEBUG_VVV lg = show_debug_vvv_f lg"
| "type_show _ lg = True"

fun type_priority :: "ksnet_printf_type \<Rightarrow> int" where
  "type_priority CONNECT = 5"
| "type_priority DEBUG = 6"
| "type_priority DEBUG_VV = 7"
| "type_priority DEBUG_VVV = 7"
| "type_priority MESSAGE = 5"
| "type_priority DISPLAY_M = 5"
| "type_priority ERROR_M = 3"
| "type_priority NONE_LOG = 6"

text \<open>\<open>p\<close>: the formatted message. None: the filter did not return.\<close>

definition ksnet_printf :: "ksnet_printf_type \<Rightarrow> bytes \<Rightarrow> 'm logNode \<Rightarrow> 'm logNode option" where
  "ksnet_printf type p = (\<lambda>(lg, ke).
     let show_log = (type \<noteq> DISPLAY_M \<and> type_number type \<le> log_priority lg)
     in if type_show type lg \<or> show_log
        then case (if type_show type lg then log_check p lg else Some (False, lg)) of
               None \<Rightarrow> None
             | Some (show_it, lg1) \<Rightarrow>
                 let p1 = (if show_it \<and> color_output_disable_f lg1 then trimlf (removeTEsc p) else p);
                     text_shown = (if color_output_disable_f lg1 then p1 @ [10] else p1);
                     lg2 = (if show_it then lg1\<lparr>lg_shown := lg_shown lg1 @ [(type \<noteq> DISPLAY_M \<and> ksnetEvMgrGetTime ke \<noteq> 0, text_shown)]\<rparr> else lg1);
                     data = trimlf (removeTEsc p1);
                     priority = (if type_priority type < 7 then type_priority type else LOG_INFO)
                 in Some (if show_log then teoLoggingClientSend data (lg2\<lparr>lg_syslog := lg_syslog lg2 @ [(priority, data)]\<rparr>, ke) else (lg2, ke))
        else Some (lg, ke))"

text \<open>
  The signal callback of asynchronous events with these callbacks, and with the message \<open>msg\<close> that it
  begins with.
\<close>

definition log_sig_async_cb :: "'m teoMapLib \<Rightarrow> bytes \<Rightarrow> 'm logNode \<Rightarrow> 'm logNode option" where
  "log_sig_async_cb lib msg n =
     map_option (\<lambda>(lg, ke).
       case ke_async_queue ke of
         [] \<Rightarrow> (lg, ke)
       | (user_data, data) # rest \<Rightarrow>
           if ke_async_idle ke then (lg, ke)
           else case log_event lib EV_K_ASYNC (EvAsync user_data data) (lg, ke\<lparr>ke_async_queue := rest\<rparr>) of
                  (lg1, ke1) \<Rightarrow> (lg1, emit [IdleStart ''async''] (ke1\<lparr>ke_async_idle := True\<rparr>)))
       (ksnet_printf DEBUG_VV msg n)"

text \<open>The end of receiving a packet (dispatch) with these callbacks.\<close>

definition log_dispatch :: "'m teoMapLib \<Rightarrow> ksnCorePacketData \<Rightarrow> 'm logNode \<Rightarrow> 'm logNode" where
  "log_dispatch lib rd = (\<lambda>(lg, ke).
     case ksnCommandCheck rd ke of (processed, rd2, ke1) \<Rightarrow>
       if processed = 0 then log_event lib EV_K_RECEIVED (EvPacket rd2) (lg, ke1) else (lg, ke1))"

section \<open>A message reaches the servers\<close>

text \<open>The buffers sent to an address.\<close>

definition sent_to :: "bytes \<Rightarrow> int \<Rightarrow> action list \<Rightarrow> bytes list" where
  "sent_to addr port acts = List.map_filter (\<lambda>a. case a of
     TrudpSendto cmd buf ad p \<Rightarrow> (if ad = addr \<and> p = port then Some buf else None) | _ \<Rightarrow> None) acts"

lemma sent_to_simps [simp]:
  "sent_to addr port [] = []" "sent_to addr port (xs @ ys) = sent_to addr port xs @ sent_to addr port ys"
  "sent_to addr port (AsyncSignal # xs) = sent_to addr port xs" "sent_to addr port (IdleStart s # xs) = sent_to addr port xs"
  by (simp_all add: sent_to_def List.map_filter_def)

lemma sent_to_sendto:
  "sent_to addr port (map (\<lambda>(c, d). TrudpSendto c (f c d) ad p) ps) = (if ad = addr \<and> p = port then map (\<lambda>(c, d). f c d) ps else [])"
  by (induction ps) (auto simp: sent_to_def List.map_filter_simps)

lemma new_out_trans:
  assumes "send_only a b" and "send_only b c"
  shows "new_out a c = new_out a b @ new_out b c"
  using send_only_out [OF assms(1)] send_only_out [OF assms(2)] by (auto simp: new_out_def)

definition log_fits :: "bytes \<Rightarrow> bool" where
  "log_fits data \<longleftrightarrow> length data \<le> MAX_PACKET_LEN - MAX_DATA_LEN"

lemma send_one_sent:
  assumes "ksnetArpGet ke (cstr key) = Some arp" and "log_fits data"
  shows "sent_to addr port (new_out ke (teoLoggingClientSendOne data key ke)) =
    (if arp_addr arp = addr \<and> arp_port arp = port
     then sent_buffers (new_out ke (snd (ksnCoreSendto addr port CMD_LOGGING data ke))) else [])"
proof -
  let ?acts = "map (\<lambda>(c, d). TrudpSendto c (sent_packet ke c d) (arp_addr arp) (arp_port arp)) (sent_parts ke CMD_LOGGING data)"
  have out: "new_out ke (snd (ksnCoreSendto ad p CMD_LOGGING data ke)) =
      map (\<lambda>(c, d). TrudpSendto c (sent_packet ke c d) ad p) (sent_parts ke CMD_LOGGING data)" for ad p
    using assms(2) by (intro new_out_append) (simp add: sendto_out log_fits_def ksnCoreSetEventTime_def)
  have bufs: "sent_buffers (map (\<lambda>(c, d). TrudpSendto c (sent_packet ke c d) ad p) ps) = map (\<lambda>(c, d). sent_packet ke c d) ps" for ad p ps
    by (induction ps) (simp_all add: sent_buffers_def List.map_filter_simps split_def)
  show ?thesis
    using assms(1) by (auto simp: teoLoggingClientSendOne_def ksnCoreSendCmdto_def out bufs sent_to_sendto)
qed

lemma send_only_sendOne [simp]: "send_only ke (teoLoggingClientSendOne data key ke)"
  by (simp add: teoLoggingClientSendOne_def)

lemma send_only_sendAll [simp]: "send_only ke (fold (teoLoggingClientSendOne data) keys ke)"
  by (simp add: send_only_fold)

lemma send_only_arp: "send_only a b \<Longrightarrow> ksnetArpGet b = ksnetArpGet a"
  by (simp add: ksnetArpGet_def fun_eq_iff send_only_fields(1))

lemma send_all_others:
  assumes "\<And>key. key \<in> set keys \<Longrightarrow> \<exists>arp. ksnetArpGet a (cstr key) = Some arp \<and> \<not> (arp_addr arp = addr \<and> arp_port arp = port)"
    and "log_fits data"
  shows "sent_to addr port (new_out a (fold (teoLoggingClientSendOne data) keys a)) = []"
  using assms(1)
proof (induction keys arbitrary: a)
  case (Cons key keys)
  let ?a = "teoLoggingClientSendOne data key a"
  have arp: "ksnetArpGet ?a = ksnetArpGet a" by (rule send_only_arp) simp
  have "sent_to addr port (new_out ?a (fold (teoLoggingClientSendOne data) keys ?a)) = []"
    by (rule Cons.IH) (use Cons.prems arp in simp)
  moreover have "sent_to addr port (new_out a ?a) = []"
    using Cons.prems [of key] send_one_sent [OF _ assms(2)] by auto
  ultimately show ?case using new_out_trans [of a ?a "fold (teoLoggingClientSendOne data) keys ?a"] by simp
qed (simp add: new_out_def)

text \<open>Of several servers with addresses of their own each is sent the message once.\<close>

definition servers_at :: "ksnetEvMgr \<Rightarrow> bytes list \<Rightarrow> bytes \<Rightarrow> bytes \<Rightarrow> int \<Rightarrow> bool" where
  "servers_at a keys key addr port \<longleftrightarrow> distinct keys \<and> key \<in> set keys \<and>
     (\<forall>k \<in> set keys. \<exists>arp. ksnetArpGet a (cstr k) = Some arp \<and> ((arp_addr arp = addr \<and> arp_port arp = port) \<longleftrightarrow> k = key))"

lemma send_all_sent:
  assumes "servers_at a keys key addr port" and "log_fits data"
  obtains a1 where "send_only a a1" and
    "sent_to addr port (new_out a (fold (teoLoggingClientSendOne data) keys a)) =
     sent_buffers (new_out a1 (snd (ksnCoreSendto addr port CMD_LOGGING data a1)))"
proof -
  let ?s = "teoLoggingClientSendOne data"
  obtain xs ys where k: "keys = xs @ key # ys" "key \<notin> set xs" "key \<notin> set ys"
    using assms(1) by (auto simp: servers_at_def in_set_conv_decomp)
  have at: "\<exists>arp. ksnetArpGet a (cstr k) = Some arp \<and> ((arp_addr arp = addr \<and> arp_port arp = port) \<longleftrightarrow> k = key)" if "k \<in> set keys" for k
    using assms(1) that by (simp add: servers_at_def)
  define a1 where "a1 = fold ?s xs a"
  define a2 where "a2 = ?s key a1"
  define a3 where "a3 = fold ?s ys a2"
  have so: "send_only a a1" "send_only a1 a2" "send_only a2 a3" by (simp_all add: a1_def a2_def a3_def)
  have arp: "ksnetArpGet a1 = ksnetArpGet a" "ksnetArpGet a2 = ksnetArpGet a"
    using send_only_arp so(1,2) by metis+
  have "sent_to addr port (new_out a a1) = []"
    unfolding a1_def by (rule send_all_others [OF _ assms(2)]) (use at k in fastforce)
  moreover have "sent_to addr port (new_out a2 a3) = []"
    unfolding a3_def by (rule send_all_others [OF _ assms(2)]) (use at k arp in fastforce)
  moreover have "sent_to addr port (new_out a1 a2) = sent_buffers (new_out a1 (snd (ksnCoreSendto addr port CMD_LOGGING data a1)))"
  proof -
    obtain r where "ksnetArpGet a1 (cstr key) = Some r" "arp_addr r = addr" "arp_port r = port"
      using at [of key] k(1) unfolding arp by auto
    then show ?thesis using send_one_sent [of a1 key r data addr port] assms(2) by (simp add: a2_def)
  qed
  moreover have "new_out a (fold ?s keys a) = new_out a a1 @ new_out a1 a2 @ new_out a2 a3"
    using new_out_trans [OF send_only_trans [OF so(1,2)] so(3)] new_out_trans [OF so(1,2)]
    by (simp add: k(1) a1_def a2_def a3_def)
  ultimately show thesis using that [OF so(1)] by simp
qed

text \<open>The configuration a node starts with, in which the callback's own debug message is dropped.\<close>

definition quiet :: "'m teoLogs \<Rightarrow> bool" where
  "quiet lg \<longleftrightarrow> \<not> show_debug_vv_f lg \<and> \<not> show_debug_vvv_f lg \<and> log_priority lg < 5"

lemma printf_quiet: "quiet lg \<Longrightarrow> ksnet_printf DEBUG_VV msg (lg, ke) = Some (lg, ke)"
  by (simp add: ksnet_printf_def quiet_def Let_def)

text \<open>A client that knows servers and whose label is at the address it posts its events with.\<close>

definition log_client :: "'m teoMapLib \<Rightarrow> bytes list \<Rightarrow> 'm teoLogs \<Rightarrow> bool" where
  "log_client lib keys lg \<longleftrightarrow> (\<exists>m. lc_map lg = Some m \<and> tm_keys lib m = keys) \<and> \<not> log_disable_f lg \<and>
     lg_label_ptr lg \<noteq> 0 \<and> lg_user_data lg (lg_label_ptr lg) = ASYNC_LABEL"

text \<open>The messages that are sent: all of them, or those that begin with a sharp sign or hold three of them.\<close>

definition log_sent :: "bytes \<Rightarrow> 'm teoLogs \<Rightarrow> bool" where
  "log_sent message lg \<longleftrightarrow> send_all_logs_f lg \<or> take 1 message = [35] \<or> strstr message (ascii '': ### '')"

lemma client_send:
  assumes "log_client lib keys lg" and "log_sent message lg"
  shows "teoLoggingClientSend message (lg, ke) = (lg, ksnetEvMgrAsync (strz message) (lg_label_ptr lg) ke)"
  using assms by (simp add: teoLoggingClientSend_def log_client_def log_sent_def)

lemma client_async:
  assumes "log_client lib keys lg"
  shows "log_event lib EV_K_ASYNC (EvAsync (lg_label_ptr lg) d) (lg, ke) = (lg, fold (teoLoggingClientSendOne d) keys ke)"
  using assms by (auto simp: log_client_def log_event_def Let_def logging_client_event_cb_def teoLoggingClientSendAll_def EV_defs)

lemma command_logging:
  assumes "rd_cmd rd = CMD_LOGGING"
  shows "ksnCommandCheck rd ke = (0, rd, ke)"
proof -
  have "command_single rd ke = (0, ke)" using assms unfolding command_single_def Let_def by (simp add: CMD_defs)
  moreover have "CMD_LOGGING \<noteq> CMD_SPLIT" "CMD_LOGGING \<noteq> CMD_L0" by (simp_all add: CMD_defs)
  ultimately show ?thesis using assms by (simp add: ksnCommandCheck.simps [of rd])
qed

lemma log_dispatch_message:
  assumes "rd_cmd rd = CMD_LOGGING" and "rd_data rd = strz message" and "0 \<notin> set message" and "ls_on lg"
    and "log_check message lg = Some (sh, lg1)"
  shows "\<exists>lg2. log_dispatch lib rd (lg, ke) = (lg2, event_cb EV_K_LOGGING (EvPacket rd) ke) \<and>
    lg_syslog lg2 = lg_syslog lg1 @ [(LOG_INFO, ascii ''TEO_LOGGING: '' @ cstr (rd_from rd) @ ascii '': '' @ message)]"
proof -
  have "log_event lib EV_K_RECEIVED (EvPacket rd) (lg, ke) = log_received rd (lg, ke)"
    using assms(1,2,4) by (simp add: log_event_def Let_def logging_client_event_cb_def logging_server_event_cb_def EV_defs strz_def)
  moreover have "0 \<in> set (rd_data rd)" by (simp add: assms(2) strz_def)
  ultimately show ?thesis
    using assms(5) by (simp add: log_dispatch_def command_logging [OF assms(1)] log_received_def Let_def assms(2) cstr_strz [OF assms(3)]
        app_event_cb_def)
qed

lemma send_only_linked: "send_only a a1 \<Longrightarrow> linked a1 b = linked a b"
  by (simp add: linked_def same_key_def send_only_fields)

text \<open>
  C37: A log message of a node reaches the application of each logging server it knows, once: handling the
  event that the logging client posts sends the server packets whose receipt, with the callback of the
  logging server, is the event EV_K_LOGGING with the node's name and the message, and a line in the system
  log. The application does not get it as a received command.
\<close>

theorem log_delivered:
  assumes "quiet lga" and "log_client lib keys lga" and "log_sent message lga" and "servers_at a keys key addr port"
    and "ke_async_queue a = []" and "\<not> ke_async_idle a" and "0 \<notin> set message" and "log_fits (strz message)"
    and "linked a b" and "pblMapSize (split_map (kco_ks b)) + splitCount (strz message) \<le> pblMaxElements"
    and "ls_on lgb" and "log_check message lgb = Some (sh, lgb1)"
  shows "\<exists>a2 b1 rd lgb2. log_sig_async_cb lib msg (teoLoggingClientSend message (lga, a)) = Some (lga, a2) \<and>
    node_packets (Suc n) (sent_to addr port (new_out a a2)) from_addr from_port b = dispatch rd b1 \<and>
    after_parts (kc_name a) b b1 \<and> packet_of a CMD_LOGGING (strz message) from_addr from_port rd \<and>
    log_dispatch lib rd (lgb, b1) = (lgb2, event_cb EV_K_LOGGING (EvPacket rd) b1) \<and>
    lg_syslog lgb2 = lg_syslog lgb1 @ [(LOG_INFO, ascii ''TEO_LOGGING: '' @ kc_name a @ ascii '': '' @ message)]"
proof -
  define k where "k = (ksnetEvMgrAsync (strz message) (lg_label_ptr lga) a)\<lparr>ke_async_queue := []\<rparr>"
  define a2 where "a2 = emit [IdleStart ''async''] ((fold (teoLoggingClientSendOne (strz message)) keys k)\<lparr>ke_async_idle := True\<rparr>)"
  have sig: "log_sig_async_cb lib msg (teoLoggingClientSend message (lga, a)) = Some (lga, a2)"
    using assms(5,6) by (simp add: client_send [OF assms(2,3)] log_sig_async_cb_def printf_quiet [OF assms(1)] async_post
        client_async [OF assms(2)] k_def a2_def)
  have k: "ke_out k = ke_out a @ [AsyncSignal]" "ksnetArpGet k = ksnetArpGet a" "linked k b" "kc_name k = kc_name a"
    using assms(9) by (simp_all add: k_def ksnetEvMgrAsync_def emit_def linked_def same_key_def)
      (simp add: ksnetArpGet_def fun_eq_iff)
  have "servers_at k keys key addr port" using assms(4) by (simp add: servers_at_def k(2))
  from send_all_sent [OF this assms(8)] obtain a1 where so: "send_only k a1" and
    sent: "sent_to addr port (new_out k (fold (teoLoggingClientSendOne (strz message)) keys k)) =
      sent_buffers (new_out a1 (snd (ksnCoreSendto addr port CMD_LOGGING (strz message) a1)))" .
  obtain out where "ke_out (fold (teoLoggingClientSendOne (strz message)) keys k) = ke_out k @ out"
    using send_only_out [OF send_only_sendAll] by blast
  then have out: "sent_to addr port (new_out a a2) = sent_buffers (new_out a1 (snd (ksnCoreSendto addr port CMD_LOGGING (strz message) a1)))"
    using sent by (simp add: new_out_def a2_def k(1))
  have name: "kc_name a1 = kc_name a" using send_only_fields(14) [OF so] k(4) by simp
  have c: "CMD_LOGGING \<noteq> CMD_VPN" "CMD_LOGGING \<noteq> CMD_NONE" by (simp_all add: CMD_defs)
  have "linked a1 b" using send_only_linked [OF so] k(3) by simp
  from linked_dispatch [OF this c _ assms(10), of from_addr from_port n addr port] assms(8) obtain b1 rd
    where d: "after_parts (kc_name a) b b1" "packet_of a CMD_LOGGING (strz message) from_addr from_port rd"
      "node_packets (Suc n) (sent_to addr port (new_out a a2)) from_addr from_port b = dispatch rd b1"
    unfolding out log_fits_def packet_of_def name by blast
  have "0 \<notin> set (kc_name a)" using assms(9) by (simp add: linked_def c_name_def)
  then have frm: "cstr (rd_from rd) = kc_name a" using d(2) by (simp add: packet_of_def cstr_strz)
  from log_dispatch_message [OF _ _ assms(7,11,12), of rd lib b1] d(2) show ?thesis
    unfolding frm using sig d by (auto simp: packet_of_def)
qed

text \<open>
  C38: A logging server becomes known to the clients: its answer to the event that a peer has connected makes the
  logging client of that peer enter it in the map of servers, and the event that it has disconnected takes
  it out again; the other servers stay.
\<close>

theorem log_server_known:
  assumes "teo_map lib" and "ls_on lgb" and "linked b a" and "ksnetArpGet b (kc_name a) = Some arp" and "cstr (rd_from rd) = kc_name a"
    and "lc_map lga = Some m" and "tm_add lib (strz (kc_name b)) m \<noteq> None"
    and "pblMapSize (split_map (kco_ks a)) + splitCount [] \<le> pblMaxElements"
  shows "\<exists>b2 a1 rd1 lga1 m1 m2. log_event lib EV_K_CONNECTED (EvPacket rd) (lgb, b) = (lgb, b2) \<and>
    node_packets (Suc n) (sent_buffers (new_out b b2)) from_addr from_port a = dispatch rd1 a1 \<and>
    after_parts (kc_name b) a a1 \<and> packet_of b CMD_LOGGING [] from_addr from_port rd1 \<and>
    log_dispatch lib rd1 (lga, a1) = (lga1, a1) \<and> lc_map lga1 = Some m1 \<and>
    set (tm_keys lib m1) = insert (strz (kc_name b)) (set (tm_keys lib m)) \<and>
    lc_map (fst (log_event lib EV_K_DISCONNECTED (EvPacket rd1) (lga1, a1))) = Some m2 \<and>
    set (tm_keys lib m2) = set (tm_keys lib m) - {strz (kc_name b)}"
proof -
  let ?s = "snd (ksnCoreSendto (arp_addr arp) (arp_port arp) CMD_LOGGING [] b)"
  obtain m1 where m1: "tm_add lib (strz (kc_name b)) m = Some m1" using assms(7) by blast
  define b2 where "b2 = event_cb EV_K_CONNECTED (EvPacket rd) ?s"
  have conn: "log_event lib EV_K_CONNECTED (EvPacket rd) (lgb, b) = (lgb, b2)"
    using assms(2,4,5) by (simp add: log_event_def Let_def logging_client_event_cb_def logging_server_event_cb_def app_event_cb_def
        EV_defs ksnCoreSendCmdto_def b2_def)
  obtain out where o: "ke_out ?s = ke_out b @ out" using send_only_out [OF send_only_sendto] by blast
  then have bufs: "sent_buffers (new_out b b2) = sent_buffers (new_out b ?s)"
    by (simp add: new_out_def b2_def event_cb_def sent_buffers_def List.map_filter_def)
  have c: "CMD_LOGGING \<noteq> CMD_VPN" "CMD_LOGGING \<noteq> CMD_NONE" by (simp_all add: CMD_defs)
  have len: "length [] \<le> MAX_PACKET_LEN - MAX_DATA_LEN" by simp
  obtain a1 rd1 where ap: "after_parts (kc_name b) a a1" and d: "packet_of b CMD_LOGGING [] from_addr from_port rd1"
    "node_packets (Suc n) (sent_buffers (new_out b b2)) from_addr from_port a = dispatch rd1 a1"
    unfolding bufs by (rule linked_dispatch [OF assms(3) c len assms(8), of from_addr from_port n "arp_addr arp" "arp_port arp"])
  have name: "cstr (strz (kc_name b)) = kc_name b" "cstr (rd_from rd1) = kc_name b"
    using d(1) assms(3) by (simp_all add: packet_of_def linked_def c_name_def cstr_strz)
  define lga1 where "lga1 = lga\<lparr>lc_map := Some m1\<rparr>"
  have rcv: "log_dispatch lib rd1 (lga, a1) = (lga1, a1)"
    using d(1) assms(6) command_logging [of rd1 a1]
    by (simp add: packet_of_def log_dispatch_def log_event_def Let_def logging_client_event_cb_def EV_defs name
        teoLoggingClientAddServer_def m1 lga1_def)
  have keys: "set (tm_keys lib m1) = insert (strz (kc_name b)) (set (tm_keys lib m))"
    "set (tm_keys lib (tm_delete lib (strz (kc_name b)) m1)) = set (tm_keys lib m1) - {strz (kc_name b)}"
    using assms(1) m1 by (auto simp: teo_map_def)
  have gone: "lc_map (fst (log_event lib EV_K_DISCONNECTED (EvPacket rd1) (lga1, a1))) = Some (tm_delete lib (strz (kc_name b)) m1)"
    by (simp add: log_event_def Let_def logging_client_event_cb_def logging_server_event_cb_def app_event_cb_def EV_defs name
        teoLoggingClientRemoveServer_def lga1_def)
  have "set (tm_keys lib (tm_delete lib (strz (kc_name b)) m1)) = set (tm_keys lib m) - {strz (kc_name b)}"
    unfolding keys(2) keys(1) by blast
  moreover have "lc_map lga1 = Some m1" by (simp add: lga1_def)
  ultimately show ?thesis using conn d rcv keys(1) gone ap by blast
qed

section \<open>Debug messages of the callback\<close>

text \<open>The callback called several times, as each signal makes libev do.\<close>

fun log_sigs :: "'m teoMapLib \<Rightarrow> bytes \<Rightarrow> nat \<Rightarrow> 'm logNode \<Rightarrow> 'm logNode option" where
  "log_sigs lib msg 0 n = Some n"
| "log_sigs lib msg (Suc k) n = Option.bind (log_sig_async_cb lib msg n) (log_sigs lib msg k)"

text \<open>A node that sends all its messages, extra debug messages among them.\<close>

definition verbose :: "'m teoLogs \<Rightarrow> bool" where
  "verbose lg \<longleftrightarrow> 5 \<le> log_priority lg \<and> send_all_logs_f lg \<and> \<not> log_disable_f lg \<and> kh lg = None"

lemma printf_verbose:
  assumes "verbose lg"
  shows "\<exists>lg1 data. ksnet_printf DEBUG_VV msg (lg, ke) = Some (lg1, ksnetEvMgrAsync data (lg_label_ptr lg1) ke) \<and> verbose lg1"
  using assms
  by (auto simp: ksnet_printf_def Let_def verbose_def log_check_def teoFilterFlagCheck_def teoLogCheck_def teoLoggingClientSend_def
      split: option.splits)

text \<open>
  When all messages are sent, extra debug messages included, the message with which the callback of
  asynchronous events begins is itself posted as an asynchronous event: every call of the callback signals
  the next one, and while the idle watcher waits for the node to have nothing to do, the queue
  grows with each call and nothing is taken from it.
\<close>

theorem log_feedback:
  assumes "verbose lg" and "ke_async_idle ke"
  shows "\<exists>lg1 ke1. log_sigs lib msg k (lg, ke) = Some (lg1, ke1) \<and> length (ke_async_queue ke1) = length (ke_async_queue ke) + k \<and>
    new_out ke ke1 = replicate k AsyncSignal"
proof -
  have "\<exists>lg1 ke1. log_sigs lib msg k (lg, ke) = Some (lg1, ke1) \<and> length (ke_async_queue ke1) = length (ke_async_queue ke) + k \<and>
    ke_out ke1 = ke_out ke @ replicate k AsyncSignal"
    using assms
  proof (induction k arbitrary: lg ke)
    case (Suc k)
    obtain lg1 data where p: "ksnet_printf DEBUG_VV msg (lg, ke) = Some (lg1, ksnetEvMgrAsync data (lg_label_ptr lg1) ke)" "verbose lg1"
      using printf_verbose [OF Suc.prems(1)] by blast
    let ?ke = "ksnetEvMgrAsync data (lg_label_ptr lg1) ke"
    have "log_sig_async_cb lib msg (lg, ke) = Some (lg1, ?ke)"
      using Suc.prems(2) by (simp add: log_sig_async_cb_def p(1) async_post split: list.split)
    moreover have "ke_out ?ke = ke_out ke @ [AsyncSignal]" by (simp add: ksnetEvMgrAsync_def emit_def)
    ultimately show ?case
      using Suc.IH [OF p(2), of ?ke] Suc.prems(2) by (auto simp: async_post)
  qed simp
  then show ?thesis by (auto simp: new_out_def)
qed

section \<open>Examples\<close>

text \<open>A map kept as a list, a client and a server of log messages, and the nodes they are on.\<close>

definition list_map :: "bytes list teoMapLib" where
  "list_map = \<lparr>tm_new = [], tm_add = (\<lambda>k m. Some (k # m)), tm_delete = removeAll, tm_keys = remdups\<rparr>"

lemma teo_map_list: "teo_map list_map"
  by (simp add: teo_map_def list_map_def)

definition example_logs :: "bytes list teoLogs" where
  "example_logs = \<lparr>lc_map = Some [strz [98]], ls_on = False, kh = None, show_connect_f = False, show_debug_f = False,
     show_debug_vv_f = False, show_debug_vvv_f = False, color_output_disable_f = False, log_priority = 4, logging_f = False,
     log_disable_f = False, send_all_logs_f = False, lg_filter = \<lparr>fv_result = 0, fv_log_line = [], fv_yylval = Garbage\<rparr>,
     lg_user_data = (\<lambda>p. ASYNC_LABEL), lg_label_ptr = 1, lg_shown = [], lg_syslog = []\<rparr>"

definition log_node :: ksnetEvMgr where
  "log_node = ksnetArpAdd [98] (arp_zero\<lparr>arp_addr := [50], arp_port := 9010\<rparr>) (exampleNode [97])"

lemma log_node_fields: "linked log_node delivery_peer" "ke_async_queue log_node = []" "\<not> ke_async_idle log_node"
  "kc_name log_node = [97]" "ksnetArpGet log_node [98] = Some (arp_zero\<lparr>arp_addr := [50], arp_port := 9010\<rparr>)"
  "kco_ks log_node = ksnSplitInit" "linked delivery_peer log_node" "kc_name delivery_peer = [98]"
  "ksnetArpGet delivery_peer [97] = Some (arp_zero\<lparr>arp_addr := [49], arp_port := 9010\<rparr>)"
  using pad_only
  by (simp_all add: log_node_def delivery_peer_def linked_def same_key_def c_name_def exampleNode_def exampleEnv_def)
     (simp_all add: ksnetArpAdd_def ksnetArpGet_def pblMapAdd_def map_simps)

theorem log_delivered_witness:
  "\<exists>a2 b1 rd lgb2. log_sig_async_cb list_map [] (teoLoggingClientSend (ascii ''#x'') (example_logs, log_node)) = Some (example_logs, a2) \<and>
    node_packets 1 (sent_to [50] 9010 (new_out log_node a2)) [49] 9010 delivery_peer = dispatch rd b1 \<and>
    log_dispatch list_map rd (example_logs\<lparr>ls_on := True\<rparr>, b1) = (lgb2, event_cb EV_K_LOGGING (EvPacket rd) b1) \<and>
    lg_syslog lgb2 = [(LOG_INFO, ascii ''TEO_LOGGING: '' @ [97] @ ascii '': #x'')]"
proof -
  have s: "ascii ''#x'' = [35, 120]" by (simp add: ascii_def)
  have 1: "quiet example_logs" "log_client list_map [strz [98]] example_logs" "log_sent (ascii ''#x'') example_logs"
    by (simp_all add: quiet_def log_client_def log_sent_def example_logs_def list_map_def s)
  have 2: "servers_at log_node [strz [98]] (strz [98]) [50] 9010"
    by (simp add: servers_at_def log_node_fields(5) cstr_strz)
  have 3: "0 \<notin> set (ascii ''#x'')" "log_fits (strz (ascii ''#x''))"
    by (simp_all add: s log_fits_def MAX_PACKET_LEN_def MAX_DATA_LEN_def)
  have 4: "pblMapSize (split_map (kco_ks delivery_peer)) + splitCount (strz (ascii ''#x'')) \<le> pblMaxElements"
    by (simp add: s delivery_ks splitCount_def MAX_DATA_LEN_def ksnSplitInit_def map_simps pblMaxElements_def)
  have 5: "ls_on (example_logs\<lparr>ls_on := True\<rparr>)"
    "log_check (ascii ''#x'') (example_logs\<lparr>ls_on := True\<rparr>) = Some (True, example_logs\<lparr>ls_on := True\<rparr>)"
    by (simp_all add: log_check_def teoFilterFlagCheck_def teoLogCheck_def example_logs_def)
  have "lg_syslog (example_logs\<lparr>ls_on := True\<rparr>) = []" "ascii '': '' @ ascii ''#x'' = ascii '': #x''"
    by (simp_all add: example_logs_def ascii_def)
  then show ?thesis
    using log_delivered [OF 1 2 log_node_fields(2,3) 3 log_node_fields(1) 4 5, of "[]" 0 "[49]" 9010]
    unfolding log_node_fields(4) by fastforce
qed

theorem log_server_known_witness:
  "\<exists>b2 a1 rd1 lga1 m1. log_event list_map EV_K_CONNECTED (EvPacket (ksnCorePacketData_zero\<lparr>rd_from := strz [97]\<rparr>))
      (example_logs\<lparr>ls_on := True\<rparr>, delivery_peer) = (example_logs\<lparr>ls_on := True\<rparr>, b2) \<and>
    node_packets 1 (sent_buffers (new_out delivery_peer b2)) [50] 9010 log_node = dispatch rd1 a1 \<and>
    log_dispatch list_map rd1 (example_logs\<lparr>lc_map := Some []\<rparr>, a1) = (lga1, a1) \<and> lc_map lga1 = Some m1 \<and>
    set (tm_keys list_map m1) = {strz [98]}"
proof -
  have 1: "ls_on (example_logs\<lparr>ls_on := True\<rparr>)" "lc_map (example_logs\<lparr>lc_map := Some []\<rparr>) = Some []" by simp_all
  have 2: "ksnetArpGet delivery_peer (kc_name log_node) = Some (arp_zero\<lparr>arp_addr := [49], arp_port := 9010\<rparr>)"
    by (simp add: log_node_fields)
  have 3: "cstr (rd_from (ksnCorePacketData_zero\<lparr>rd_from := strz [97]\<rparr>)) = kc_name log_node"
    by (simp add: log_node_fields cstr_strz)
  have 4: "tm_add list_map (strz (kc_name delivery_peer)) [] \<noteq> None" by (simp add: list_map_def)
  have 5: "pblMapSize (split_map (kco_ks log_node)) + splitCount [] \<le> pblMaxElements"
    by (simp add: log_node_fields splitCount_def MAX_DATA_LEN_def ksnSplitInit_def map_simps pblMaxElements_def)
  have "tm_keys list_map [] = []" by (simp add: list_map_def)
  then show ?thesis
    using log_server_known [OF teo_map_list 1(1) log_node_fields(7) 2 3 1(2) 4 5, of 0 "[50]" 9010]
    unfolding log_node_fields(8) by fastforce
qed

theorem log_feedback_witness:
  "\<exists>lg1 ke1. log_sigs list_map [] 100 (example_logs\<lparr>log_priority := 5, send_all_logs_f := True\<rparr>, log_node\<lparr>ke_async_idle := True\<rparr>) = Some (lg1, ke1) \<and>
    length (ke_async_queue ke1) = 100"
  using log_feedback [of "example_logs\<lparr>log_priority := 5, send_all_logs_f := True\<rparr>" "log_node\<lparr>ke_async_idle := True\<rparr>" list_map "[]" 100]
  by (auto simp: verbose_def example_logs_def log_node_fields)

end
