(* ===== verification/Hotkeys.thy ===== *)
theory Hotkeys
  imports Logging
begin

text \<open>
  The keys of a running program (hotkeys.c). A key is read from the terminal, or, when a command
  has asked for one, a line of text, which goes to the command of the last key. The input is handled when
  the event loop is idle. What is printed is not modelled. The timers of the module send pings and
  requests of the monitor, and show tables again and again.
\<close>

section \<open>State and input\<close>

definition EV_K_HOTKEY :: u16 where "EV_K_HOTKEY = 10"
definition EV_K_USER :: u16 where "EV_K_USER = 11"

text \<open>What stdin_cb reads: a key, or a line when single keys are off.\<close>

datatype hotkeyInput =
    HotKey int
  | HotString bytes

text \<open>The networks of the program: their number, the index of this one, and which exist.\<close>

record hotkeyNets =
  hn_count :: nat
  hn_idx :: int
  hn_exists :: "int \<Rightarrow> bool"

definition keys_non_blocking_start :: "ksnetHotkeysClass \<Rightarrow> ksnetHotkeysClass" where
  "keys_non_blocking_start k = k\<lparr>kh_non_blocking := True\<rparr>"

definition keys_non_blocking_stop :: "ksnetHotkeysClass \<Rightarrow> ksnetHotkeysClass" where
  "keys_non_blocking_stop k = k\<lparr>kh_non_blocking := False\<rparr>"

text \<open>The flags of the configuration that show the peers or the statistics from the beginning.\<close>

definition ksnetHotkeysInit :: "bool \<Rightarrow> bool \<Rightarrow> ksnetHotkeysClass" where
  "ksnetHotkeysInit show_peers_f show_tr_udp_f =
     (let k = keys_non_blocking_start
            \<lparr>kh_non_blocking = False, kh_wait_y = False, kh_peer_m = False, kh_tr_udp_m = False, kh_tr_udp_queues_m = False,
             kh_last_hotkey = 0, kh_str_number = 0, kh_str = [], kh_filter_f = True, kh_filter = None, kh_pt = None, kh_mt = False,
             kh_pet = None, kh_put = None, kh_freed_idle = False\<rparr>
      in if show_peers_f then k\<lparr>kh_pet := Some TimerOn, kh_peer_m := True\<rparr>
         else if show_tr_udp_f then k\<lparr>kh_put := Some TimerOn, kh_tr_udp_m := True\<rparr> else k)"

text \<open>Destroying the module leaves its timers running.\<close>

definition ksnetHotkeysDestroy :: "'m teoLogs \<Rightarrow> 'm teoLogs" where
  "ksnetHotkeysDestroy lg = lg\<lparr>kh := None\<rparr>"

section \<open>Timers\<close>

text \<open>Stopping frees the record but stops only the timer, not the idle watcher.\<close>

definition peer_timer_stop :: "ksnetHotkeysClass \<Rightarrow> ksnetHotkeysClass" where
  "peer_timer_stop k = k\<lparr>kh_pet := None, kh_freed_idle := kh_freed_idle k \<or> kh_pet k = Some IdleOn\<rparr>"

definition tr_udp_timer_stop :: "ksnetHotkeysClass \<Rightarrow> ksnetHotkeysClass" where
  "tr_udp_timer_stop k = k\<lparr>kh_put := None, kh_freed_idle := kh_freed_idle k \<or> kh_put k = Some IdleOn\<rparr>"

definition show_timer_cb :: "showTimer option \<Rightarrow> showTimer option" where
  "show_timer_cb t = (if t = Some TimerOn then Some IdleOn else t)"

definition show_idle_cb :: "showTimer option \<Rightarrow> showTimer option" where
  "show_idle_cb t = (if t = Some IdleOn then Some TimerOn else t)"

definition peer_timer_cb :: "ksnetHotkeysClass \<Rightarrow> ksnetHotkeysClass" where
  "peer_timer_cb k = k\<lparr>kh_pet := show_timer_cb (kh_pet k)\<rparr>"

definition peer_idle_cb :: "ksnetHotkeysClass \<Rightarrow> ksnetHotkeysClass" where
  "peer_idle_cb k = k\<lparr>kh_pet := show_idle_cb (kh_pet k)\<rparr>"

definition tr_udp_timer_cb :: "ksnetHotkeysClass \<Rightarrow> ksnetHotkeysClass" where
  "tr_udp_timer_cb k = k\<lparr>kh_put := show_timer_cb (kh_put k)\<rparr>"

text \<open>The idle callback of the statistics reads the module's record through the node.\<close>

definition tr_udp_idle_cb :: "'m logNode \<Rightarrow> 'm logNode" where
  "tr_udp_idle_cb = (\<lambda>(lg, ke).
     case kh lg of None \<Rightarrow> (lg, emit [Fault] ke) | Some k \<Rightarrow> (lg\<lparr>kh := Some (k\<lparr>kh_put := show_idle_cb (kh_put k)\<rparr>)\<rparr>, ke))"

text \<open>\<open>junk\<close>: the bytes behind "ping" in the buffer of 56 bytes, which are not written before they are sent.\<close>

definition ping_timer_cb :: "bytes \<Rightarrow> bytes \<Rightarrow> ksnetEvMgr \<Rightarrow> ksnetEvMgr" where
  "ping_timer_cb junk peer ke = snd (ksnCommandSendCmdEcho peer (strz (ascii ''ping'') @ take 51 (junk @ replicate 51 0)) (emit [UninitRead] ke))"

definition monitor_timer_one_cb :: "bytes \<Rightarrow> ksnet_arp_data_ext \<Rightarrow> ksnetEvMgr \<Rightarrow> bool \<times> ksnetEvMgr" where
  "monitor_timer_one_cb peer_name arp ke =
     (False, snd (ksnCommandSendCmdEcho peer_name (strz (ascii ''monitor'')) (ksnetArpAdd peer_name (arp\<lparr>arp_monitor_time := 0\<rparr>) ke)))"

definition monitor_timer_cb :: "ksnetEvMgr \<Rightarrow> ksnetEvMgr" where
  "monitor_timer_cb ke = snd (ksnetArpGetAll ke monitor_timer_one_cb ke)"

section \<open>Numbers in a text\<close>

fun atoi_digits :: "bytes \<Rightarrow> int \<Rightarrow> int" where
  "atoi_digits [] n = n"
| "atoi_digits (c # cs) n = (if 48 \<le> c \<and> c \<le> 57 then atoi_digits cs (n * 10 + (uint c - 48)) else n)"

definition atoi :: "bytes \<Rightarrow> int" where
  "atoi s =
     (let t = dropWhile (\<lambda>c. c = 32 \<or> 9 \<le> c \<and> c \<le> 13) s
      in case t of
           [] \<Rightarrow> 0
         | c # cs \<Rightarrow> if c = 45 then - atoi_digits cs 0 else if c = 43 then atoi_digits cs 0 else atoi_digits t 0)"

section \<open>Commands\<close>

text \<open>Asking for a text.\<close>

definition ask :: "ksnetHotkeysClass \<Rightarrow> ksnetHotkeysClass" where
  "ask k = keys_non_blocking_stop (k\<lparr>kh_str_number := 0\<rparr>)"

text \<open>The keys that show a table: pressed twice they show it until they are pressed again.\<close>

definition hotkey_peers :: "int \<Rightarrow> ksnetHotkeysClass \<Rightarrow> ksnetHotkeysClass" where
  "hotkey_peers hotkey k =
     (if kh_pet k = None
      then let m = (if kh_last_hotkey k = hotkey then \<not> kh_peer_m k else kh_peer_m k)
           in k\<lparr>kh_peer_m := m, kh_pet := (if m then Some TimerOn else None)\<rparr>
      else if kh_peer_m k then peer_timer_stop (k\<lparr>kh_peer_m := False\<rparr>) else k)"

definition hotkey_tr_udp :: "int \<Rightarrow> ksnetHotkeysClass \<Rightarrow> ksnetHotkeysClass" where
  "hotkey_tr_udp hotkey k =
     (if kh_put k = None
      then let m = (if kh_last_hotkey k = hotkey then \<not> kh_tr_udp_m k else kh_tr_udp_m k)
           in k\<lparr>kh_tr_udp_m := m, kh_put := (if m then Some TimerOn else None)\<rparr>
      else if kh_tr_udp_m k then tr_udp_timer_stop (k\<lparr>kh_tr_udp_m := False\<rparr>) else k)"

definition hotkey_queues :: "int \<Rightarrow> ksnetHotkeysClass \<Rightarrow> ksnetHotkeysClass" where
  "hotkey_queues hotkey k =
     (if kh_put k = None
      then let m = (if kh_last_hotkey k = hotkey then \<not> kh_tr_udp_queues_m k else kh_tr_udp_queues_m k)
           in k\<lparr>kh_tr_udp_queues_m := m, kh_put := (if m then Some TimerOn else None)\<rparr>
      else if kh_tr_udp_queues_m k then tr_udp_timer_stop (k\<lparr>kh_tr_udp_queues_m := False\<rparr>) else k)"

text \<open>The keys d, w and c for the debug messages.\<close>

definition hotkey_debug :: "'m teoLogs \<Rightarrow> 'm teoLogs" where
  "hotkey_debug lg =
     (if show_debug_vv_f lg \<or> show_debug_vvv_f lg then lg\<lparr>show_debug_vv_f := False, show_debug_vvv_f := False\<rparr>
      else lg\<lparr>show_debug_f := \<not> show_debug_f lg\<rparr>)"

definition hotkey_debug_vv :: "'m teoLogs \<Rightarrow> 'm teoLogs" where
  "hotkey_debug_vv lg =
     (if show_debug_vvv_f lg then lg\<lparr>show_debug_vvv_f := False\<rparr>
      else lg\<lparr>show_debug_vv_f := \<not> show_debug_vv_f lg, show_debug_vvv_f := False\<rparr>)"

definition hotkey_debug_vvv :: "'m teoLogs \<Rightarrow> 'm teoLogs" where
  "hotkey_debug_vvv lg = lg\<lparr>show_debug_vvv_f := \<not> show_debug_vvv_f lg, show_debug_vv_f := \<not> show_debug_vvv_f lg\<rparr>"

definition upd_kh :: "(ksnetHotkeysClass \<Rightarrow> ksnetHotkeysClass) \<Rightarrow> 'm logNode \<Rightarrow> 'm logNode" where
  "upd_kh f = (\<lambda>(lg, ke). (lg\<lparr>kh := map_option f (kh lg)\<rparr>, ke))"

text \<open>A key, \<open>k\<close> is the module's record before it.\<close>

definition hotkey_key :: "'m teoMapLib \<Rightarrow> hotkeyNets \<Rightarrow> int \<Rightarrow> ksnetHotkeysClass \<Rightarrow> 'm logNode \<Rightarrow> 'm logNode" where
  "hotkey_key lib nets hotkey k n =
     (if hotkey \<in> set (map of_char ''?hsv'') then n
      else if hotkey = of_char CHR ''u'' then upd_kh (hotkey_tr_udp hotkey) n
      else if hotkey = of_char CHR ''Q'' then upd_kh (hotkey_queues hotkey) n
      else if hotkey \<in> set (map of_char ''aA'') then log_event lib EV_K_USER EvNone n
      else if hotkey = of_char CHR ''p'' then upd_kh (hotkey_peers hotkey) n
      else if hotkey = of_char CHR ''d'' then apfst hotkey_debug n
      else if hotkey = of_char CHR ''w'' then apfst hotkey_debug_vv n
      else if hotkey = of_char CHR ''c'' then apfst hotkey_debug_vvv n
      else if hotkey \<in> set (map of_char ''mt'') then upd_kh ask n
      else if hotkey = of_char CHR ''n'' then (if hn_count nets > 1 then upd_kh ask n else n)
      else if hotkey = of_char CHR ''i'' then (if kh_pt k = None then upd_kh ask n else upd_kh (\<lambda>k. k\<lparr>kh_pt := None\<rparr>) n)
      else if hotkey = of_char CHR ''M'' then upd_kh (\<lambda>k. k\<lparr>kh_mt := \<not> kh_mt k\<rparr>) n
      else if hotkey = of_char CHR ''f'' then upd_kh (\<lambda>k. ask (k\<lparr>kh_filter_f := \<not> kh_filter_f k\<rparr>)) n
      else if hotkey = of_char CHR ''q'' then upd_kh (\<lambda>k. k\<lparr>kh_wait_y := True\<rparr>) n
      else if hotkey = of_char CHR ''r'' then apsnd (emit [KillSelf]) n
      else if hotkey = of_char CHR ''e'' then apsnd (emit [Fault]) n
      else if hotkey = of_char CHR ''y''
      then upd_kh (\<lambda>k. k\<lparr>kh_wait_y := False\<rparr>) (if kh_wait_y k then apsnd ksnetEvMgrStop n else n)
      else log_event lib EV_K_HOTKEY (EvKey (enc_u32 (of_int hotkey))) n)"

text \<open>
  A text for the command of the key \<open>hotkey\<close>, and the network to which the module moves if there is one.
  A key that does not ask for texts is handled as if it had been pressed.
\<close>

definition hotkey_string ::
  "'m teoMapLib \<Rightarrow> hotkeyNets \<Rightarrow> int \<Rightarrow> bytes \<Rightarrow> ksnetHotkeysClass \<Rightarrow> 'm logNode \<Rightarrow> int option \<times> 'm logNode" where
  "hotkey_string lib nets hotkey data k n =
     (let s = trimlf data; number = kh_str_number k; back_to_keys = upd_kh keys_non_blocking_start
      in if hotkey = of_char CHR ''m''
         then (None,
               if number = 0
               then (if s \<noteq> [] then upd_kh (\<lambda>k. k\<lparr>kh_str := take 256 s, kh_str_number := 1\<rparr>) n else back_to_keys n)
               else if number = 1
               then back_to_keys (if s \<noteq> [] then apsnd (\<lambda>ke. snd (ksnCommandSendCmdEcho (cstr (kh_str k)) (strz s) ke)) n else n)
               else n)
         else if hotkey = of_char CHR ''n''
         then (if hn_count nets > 1 \<and> number = 0
               then let n1 = back_to_keys n; net = atoi (cstr (take 256 s)) - 1
                    in if s \<noteq> [] \<and> hn_exists nets net \<and> net \<noteq> hn_idx nets
                       then (Some net, apfst ksnetHotkeysDestroy (upd_kh (\<lambda>k. k\<lparr>kh_str := take 256 s\<rparr>) n1))
                       else (None, if s \<noteq> [] then upd_kh (\<lambda>k. k\<lparr>kh_str := take 256 s\<rparr>) n1 else n1)
               else (None, n))
         else if hotkey = of_char CHR ''i''
         then (None, if number = 0 then back_to_keys (if s \<noteq> [] then upd_kh (\<lambda>k. k\<lparr>kh_pt := Some s\<rparr>) n else n) else n)
         else if hotkey = of_char CHR ''t'' then (None, if number = 0 then back_to_keys n else n)
         else if hotkey = of_char CHR ''M'' then (None, n)
         else if hotkey = of_char CHR ''f''
         then let n1 = upd_kh (\<lambda>k. k\<lparr>kh_filter_f := \<not> kh_filter_f k\<rparr>) n
              in (None,
                  if number = 0
                  then back_to_keys (upd_kh (\<lambda>k. if s \<noteq> [] then teoHotkeySetFilter k s else hotkeysResetFilter k) n1)
                  else n1)
         else (None, hotkey_key lib nets hotkey k n))"

text \<open>
  The handling of an input: the network the module moves to, if any, and the node. The input is of the kind
  that stdin_cb read, by the mode at that time.
\<close>

definition hotkeys_cb :: "'m teoMapLib \<Rightarrow> hotkeyNets \<Rightarrow> hotkeyInput \<Rightarrow> 'm logNode \<Rightarrow> int option \<times> 'm logNode" where
  "hotkeys_cb lib nets inp n =
     (case kh (fst n) of
        None \<Rightarrow> (None, apsnd (emit [Fault]) n)
      | Some k0 \<Rightarrow>
          let hotkey = (case inp of HotKey ch \<Rightarrow> ch | HotString s \<Rightarrow> kh_last_hotkey k0);
              k = (if hotkey \<noteq> of_char CHR ''y'' then k0\<lparr>kh_wait_y := False\<rparr> else k0);
              n1 = upd_kh (\<lambda>_. k) n
          in (case (case inp of HotKey ch \<Rightarrow> (None, hotkey_key lib nets hotkey k n1) | HotString s \<Rightarrow> hotkey_string lib nets hotkey s k n1) of
                (Some net, n2) \<Rightarrow> (Some net, n2)
              | (None, n2) \<Rightarrow> (None, upd_kh (\<lambda>k. k\<lparr>kh_last_hotkey := hotkey\<rparr>) n2)))"

section \<open>Steps\<close>

text \<open>
  The steps of the module within its node: an input of the kind its mode asks for, its timers, and the
  callback of an idle watcher whose record has been freed, which uses the freed record and starts the
  timer in it again, so that it comes back.
\<close>

inductive hotkeys_step :: "'m teoMapLib \<Rightarrow> hotkeyNets \<Rightarrow> hotkeyInput option \<Rightarrow> 'm logNode \<Rightarrow> 'm logNode \<Rightarrow> bool"
  for lib nets where
  input_key: "kh lg = Some k \<Longrightarrow> kh_non_blocking k \<Longrightarrow> hotkeys_cb lib nets (HotKey ch) (lg, ke) = (None, n) \<Longrightarrow>
    hotkeys_step lib nets (Some (HotKey ch)) (lg, ke) n"
| input_string: "kh lg = Some k \<Longrightarrow> \<not> kh_non_blocking k \<Longrightarrow> hotkeys_cb lib nets (HotString s) (lg, ke) = (None, n) \<Longrightarrow>
    hotkeys_step lib nets (Some (HotString s)) (lg, ke) n"
| peer_timer: "hotkeys_step lib nets None n (upd_kh peer_timer_cb n)"
| peer_idle: "hotkeys_step lib nets None n (upd_kh peer_idle_cb n)"
| tr_udp_timer: "hotkeys_step lib nets None n (upd_kh tr_udp_timer_cb n)"
| tr_udp_idle: "kh (fst n) = Some k \<Longrightarrow> kh_put k = Some IdleOn \<Longrightarrow> hotkeys_step lib nets None n (tr_udp_idle_cb n)"
| ping: "kh lg = Some k \<Longrightarrow> kh_pt k = Some peer \<Longrightarrow> hotkeys_step lib nets None (lg, ke) (lg, ping_timer_cb junk peer ke)"
| monitor: "kh lg = Some k \<Longrightarrow> kh_mt k \<Longrightarrow> hotkeys_step lib nets None (lg, ke) (lg, monitor_timer_cb ke)"
| freed_idle: "kh lg = Some k \<Longrightarrow> kh_freed_idle k \<Longrightarrow> hotkeys_step lib nets None (lg, ke) (lg, emit [Fault] ke)"

text \<open>
  The program with its networks: the one that has the module, the nodes of all, and the records of the
  module that were freed when it moved to another network. Their timers, which are records of their own,
  are left running in the node they were started in: \<open>hp_old\<close> has them with that node.
\<close>

record 'm hotkeysProg =
  hp_cur :: int
  hp_node :: "int \<Rightarrow> 'm logNode"
  hp_old :: "(int \<times> ksnetHotkeysClass) list"

definition upd_node :: "int \<Rightarrow> ('m logNode \<Rightarrow> 'm logNode) \<Rightarrow> 'm hotkeysProg \<Rightarrow> 'm hotkeysProg" where
  "upd_node i f p = p\<lparr>hp_node := (hp_node p)(i := f (hp_node p i))\<rparr>"

definition upd_old :: "nat \<Rightarrow> ksnetHotkeysClass \<Rightarrow> 'm hotkeysProg \<Rightarrow> 'm hotkeysProg" where
  "upd_old j k p = p\<lparr>hp_old := (hp_old p)[j := (fst (hp_old p ! j), k)]\<rparr>"

text \<open>
  The move after hotkeys_cb: the module is made anew in the other network, and idle_stdin_cb, which called
  hotkeys_cb, writes into its watcher, which was in the freed record. \<open>k\<close> is the record before the move.
\<close>

definition switch_to_net :: "int \<Rightarrow> bool \<Rightarrow> bool \<Rightarrow> ksnetHotkeysClass \<Rightarrow> 'm logNode \<Rightarrow> 'm hotkeysProg \<Rightarrow> 'm hotkeysProg" where
  "switch_to_net net show_peers show_tr_udp k n p =
     (let p1 = upd_node (hp_cur p) (\<lambda>_. apsnd (emit [Fault]) n) p;
          p2 = upd_node net (apfst (\<lambda>lg. lg\<lparr>kh := Some (ksnetHotkeysInit show_peers show_tr_udp)\<rparr>)) p1
      in p2\<lparr>hp_cur := net, hp_old := hp_old p @ [(hp_cur p, k)]\<rparr>)"

inductive hotkeys_prog_step :: "'m teoMapLib \<Rightarrow> hotkeyNets \<Rightarrow> hotkeyInput option \<Rightarrow> 'm hotkeysProg \<Rightarrow> 'm hotkeysProg \<Rightarrow> bool"
  for lib nets where
  in_node: "hotkeys_step lib (nets\<lparr>hn_idx := hp_cur p\<rparr>) inp (hp_node p (hp_cur p)) n \<Longrightarrow>
    hotkeys_prog_step lib nets inp p (upd_node (hp_cur p) (\<lambda>_. n) p)"
| switch_net: "kh (fst (hp_node p (hp_cur p))) = Some k \<Longrightarrow> \<not> kh_non_blocking k \<Longrightarrow>
    hotkeys_cb lib (nets\<lparr>hn_idx := hp_cur p\<rparr>) (HotString s) (hp_node p (hp_cur p)) = (Some net, n) \<Longrightarrow>
    hotkeys_prog_step lib nets (Some (HotString s)) p (switch_to_net net show_peers show_tr_udp k n p)"
| old_peer_timer: "j < length (hp_old p) \<Longrightarrow> hp_old p ! j = (i, k) \<Longrightarrow>
    hotkeys_prog_step lib nets None p (upd_old j (peer_timer_cb k) p)"
| old_peer_idle: "j < length (hp_old p) \<Longrightarrow> hp_old p ! j = (i, k) \<Longrightarrow>
    hotkeys_prog_step lib nets None p (upd_old j (peer_idle_cb k) p)"
| old_tr_udp_timer: "j < length (hp_old p) \<Longrightarrow> hp_old p ! j = (i, k) \<Longrightarrow>
    hotkeys_prog_step lib nets None p (upd_old j (tr_udp_timer_cb k) p)"
| old_tr_udp_idle: "j < length (hp_old p) \<Longrightarrow> hp_old p ! j = (i, k) \<Longrightarrow> kh_put k = Some IdleOn \<Longrightarrow>
    hotkeys_prog_step lib nets None p
      (if kh (fst (hp_node p i)) = None then upd_node i (apsnd (emit [Fault])) p
       else upd_old j (k\<lparr>kh_put := show_idle_cb (kh_put k)\<rparr>) p)"
| old_ping: "j < length (hp_old p) \<Longrightarrow> hp_old p ! j = (i, k) \<Longrightarrow> kh_pt k = Some peer \<Longrightarrow>
    hotkeys_prog_step lib nets None p (upd_node i (apsnd (ping_timer_cb junk peer)) p)"
| old_monitor: "j < length (hp_old p) \<Longrightarrow> hp_old p ! j = (i, k) \<Longrightarrow> kh_mt k \<Longrightarrow>
    hotkeys_prog_step lib nets None p (upd_node i (apsnd monitor_timer_cb) p)"
| old_freed_idle: "j < length (hp_old p) \<Longrightarrow> hp_old p ! j = (i, k) \<Longrightarrow> kh_freed_idle k \<Longrightarrow>
    hotkeys_prog_step lib nets None p (upd_node i (apsnd (emit [Fault])) p)"

text \<open>
  The states that a module just initialized reaches, with the inputs on the way, the last one first. At
  the beginning one network has the module.
\<close>

definition hotkeys_begin :: "'m hotkeysProg \<Rightarrow> bool" where
  "hotkeys_begin p \<longleftrightarrow> hp_old p = [] \<and> (\<exists>a b. kh (fst (hp_node p (hp_cur p))) = Some (ksnetHotkeysInit a b)) \<and>
     (\<forall>i. i \<noteq> hp_cur p \<longrightarrow> kh (fst (hp_node p i)) = None)"

inductive hotkeys_reaches :: "'m teoMapLib \<Rightarrow> hotkeyNets \<Rightarrow> 'm hotkeysProg \<Rightarrow> hotkeyInput list \<Rightarrow> 'm hotkeysProg \<Rightarrow> bool"
  for lib nets p0 where
  reaches_init: "hotkeys_begin p0 \<Longrightarrow> hotkeys_reaches lib nets p0 [] p0"
| reaches_input: "hotkeys_reaches lib nets p0 inps p \<Longrightarrow> hotkeys_prog_step lib nets (Some inp) p p' \<Longrightarrow> hotkeys_reaches lib nets p0 (inp # inps) p'"
| reaches_timer: "hotkeys_reaches lib nets p0 inps p \<Longrightarrow> hotkeys_prog_step lib nets None p p' \<Longrightarrow> hotkeys_reaches lib nets p0 inps p'"

section \<open>Invariant\<close>

text \<open>The timers run for what is to be shown again and again.\<close>

definition timers_ok :: "ksnetHotkeysClass \<Rightarrow> bool" where
  "timers_ok k \<longleftrightarrow> (kh_put k \<noteq> None \<longleftrightarrow> kh_tr_udp_m k \<or> kh_tr_udp_queues_m k) \<and> \<not> (kh_tr_udp_m k \<and> kh_tr_udp_queues_m k) \<and>
     (kh_pet k \<noteq> None \<longleftrightarrow> kh_peer_m k)"

definition ask_keys :: "int set" where
  "ask_keys = set (map of_char ''mntif'')"

text \<open>A text is asked for by one of the commands that take one; y quits only after q.\<close>

definition hotkeys_ok :: "ksnetHotkeysClass \<Rightarrow> bool" where
  "hotkeys_ok k \<longleftrightarrow> timers_ok k \<and>
     (\<not> kh_non_blocking k \<longrightarrow> kh_last_hotkey k \<in> ask_keys \<and> (kh_str_number k = 0 \<or> kh_str_number k = 1 \<and> kh_last_hotkey k = of_char CHR ''m'')) \<and>
     (kh_wait_y k \<longrightarrow> kh_last_hotkey k = of_char CHR ''q'')"

lemma upd_kh_simps [simp]: "kh (fst (upd_kh f n)) = map_option f (kh (fst n))" "snd (upd_kh f n) = snd n"
  by (simp_all add: upd_kh_def split_def)

lemma log_event_other:
  "log_event lib EV_K_USER d n = app_event_cb EV_K_USER d n" "log_event lib EV_K_HOTKEY d n = app_event_cb EV_K_HOTKEY d n"
  by (simp_all add: log_event_def Let_def logging_client_event_cb_def logging_server_event_cb_def EV_defs EV_K_USER_def EV_K_HOTKEY_def split_def)

lemma event_cb_run [simp]: "ke_run (event_cb ev d ke) = ke_run ke"
  by (simp add: event_cb_def)

lemma app_event_simps [simp]: "fst (app_event_cb ev d n) = fst n" "ke_run (snd (app_event_cb ev d n)) = ke_run (snd n)"
  by (simp_all add: app_event_cb_def split_def)

lemma debug_kh [simp]: "kh (hotkey_debug lg) = kh lg" "kh (hotkey_debug_vv lg) = kh lg" "kh (hotkey_debug_vvv lg) = kh lg"
  by (simp_all add: hotkey_debug_def hotkey_debug_vv_def hotkey_debug_vvv_def)

lemma toggle_ok:
  "timers_ok k \<Longrightarrow> timers_ok (hotkey_peers h k)" "timers_ok k \<Longrightarrow> timers_ok (hotkey_tr_udp h k)"
  "timers_ok k \<Longrightarrow> timers_ok (hotkey_queues h k)"
  by (auto simp: timers_ok_def hotkey_peers_def hotkey_tr_udp_def hotkey_queues_def peer_timer_stop_def tr_udp_timer_stop_def Let_def)

lemma toggle_fields:
  "kh_non_blocking (hotkey_peers h k) = kh_non_blocking k" "kh_non_blocking (hotkey_tr_udp h k) = kh_non_blocking k"
  "kh_non_blocking (hotkey_queues h k) = kh_non_blocking k" "kh_wait_y (hotkey_peers h k) = kh_wait_y k"
  "kh_wait_y (hotkey_tr_udp h k) = kh_wait_y k" "kh_wait_y (hotkey_queues h k) = kh_wait_y k"
  by (auto simp: hotkey_peers_def hotkey_tr_udp_def hotkey_queues_def peer_timer_stop_def tr_udp_timer_stop_def Let_def)

lemma timers_ok_upd [simp]:
  "timers_ok (k\<lparr>kh_filter_f := b\<rparr>) = timers_ok k" "timers_ok (k\<lparr>kh_filter := f\<rparr>) = timers_ok k" "timers_ok (k\<lparr>kh_pt := p\<rparr>) = timers_ok k"
  "timers_ok (k\<lparr>kh_mt := b\<rparr>) = timers_ok k" "timers_ok (k\<lparr>kh_wait_y := b\<rparr>) = timers_ok k" "timers_ok (k\<lparr>kh_last_hotkey := i\<rparr>) = timers_ok k"
  "timers_ok (k\<lparr>kh_str := t\<rparr>) = timers_ok k" "timers_ok (k\<lparr>kh_str_number := j\<rparr>) = timers_ok k" "timers_ok (k\<lparr>kh_non_blocking := b\<rparr>) = timers_ok k"
  by (simp_all add: timers_ok_def)

lemma ask_fields [simp]:
  "kh_non_blocking (ask k) = False" "kh_str_number (ask k) = 0" "kh_wait_y (ask k) = kh_wait_y k" "timers_ok (ask k) = timers_ok k"
  by (simp_all add: ask_def keys_non_blocking_stop_def timers_ok_def)

text \<open>What a key does to the record, with the flag of the last key q dropped before.\<close>

definition after_key :: "int \<Rightarrow> ksnetHotkeysClass \<Rightarrow> bool" where
  "after_key hotkey k \<longleftrightarrow> timers_ok k \<and> (\<not> kh_non_blocking k \<longrightarrow> hotkey \<in> ask_keys \<and> kh_str_number k = 0) \<and>
     (kh_wait_y k \<longrightarrow> hotkey = of_char CHR ''q'')"

definition key_post :: "int \<Rightarrow> ksnetHotkeysClass \<Rightarrow> 'm logNode \<Rightarrow> 'm logNode \<Rightarrow> bool" where
  "key_post hotkey k n n1 \<longleftrightarrow> (\<exists>k1. kh (fst n1) = Some k1 \<and> after_key hotkey k1) \<and>
     ke_run (snd n1) = (ke_run (snd n) \<and> \<not> (hotkey = of_char CHR ''y'' \<and> kh_wait_y k))"

lemma key_post_if: "(c \<Longrightarrow> key_post h k n a) \<Longrightarrow> (\<not> c \<Longrightarrow> key_post h k n b) \<Longrightarrow> key_post h k n (if c then a else b)"
  by simp

lemma key_post_same: "kh (fst n1) = Some k1 \<Longrightarrow> after_key h k1 \<Longrightarrow> h \<noteq> of_char CHR ''y'' \<Longrightarrow> ke_run (snd n1) = ke_run (snd n) \<Longrightarrow> key_post h k n n1"
  by (auto simp: key_post_def)

lemma hotkey_key_ok:
  assumes "kh (fst n) = Some k" and "timers_ok k" and "kh_non_blocking k" and "kh_wait_y k \<longrightarrow> hotkey = of_char CHR ''y''"
  shows "key_post hotkey k n (hotkey_key lib nets hotkey k n)"
proof (cases "hotkey = of_char CHR ''y''")
  case True
  then show ?thesis
    using assms by (simp add: hotkey_key_def key_post_def after_key_def ask_keys_def ksnetEvMgrStop_def timers_ok_def)
next
  case False
  have same: "after_key hotkey k" using assms False by (auto simp: after_key_def)
  note post = key_post_same [where k = k and n = n, OF _ _ False]
  have upd: "key_post hotkey k n (upd_kh f n)" if "after_key hotkey (f k)" for f
    by (rule post [where ?k1.0 = "f k"]) (use assms(1) that in simp_all)
  have asks: "key_post hotkey k n (upd_kh ask n)" if "hotkey \<in> ask_keys"
    by (rule upd) (use that assms(2,4) False in \<open>auto simp: after_key_def\<close>)
  have filt: "key_post hotkey k n (upd_kh (\<lambda>k. ask (k\<lparr>kh_filter_f := \<not> kh_filter_f k\<rparr>)) n)" if "hotkey \<in> ask_keys"
    by (rule upd) (use that assms(2,4) False in \<open>auto simp: after_key_def\<close>)
  have tabs: "key_post hotkey k n (upd_kh (hotkey_tr_udp hotkey) n)" "key_post hotkey k n (upd_kh (hotkey_queues hotkey) n)"
    "key_post hotkey k n (upd_kh (hotkey_peers hotkey) n)"
    by (rule upd; use same assms(3,4) False in \<open>auto simp: after_key_def toggle_ok toggle_fields\<close>)+
  have flags: "key_post hotkey k n (upd_kh (\<lambda>k. k\<lparr>kh_pt := x\<rparr>) n)" "key_post hotkey k n (upd_kh (\<lambda>k. k\<lparr>kh_mt := \<not> kh_mt k\<rparr>) n)" for x
    by (rule upd; use same in \<open>simp add: after_key_def\<close>)+
  have quit: "key_post hotkey k n (upd_kh (\<lambda>k. k\<lparr>kh_wait_y := True\<rparr>) n)" if "hotkey = of_char CHR ''q''"
    by (rule upd) (use that same in \<open>auto simp: after_key_def\<close>)
  have id: "key_post hotkey k n n" by (rule post) (use assms(1) same in simp_all)
  have ev: "key_post hotkey k n (app_event_cb e d n)" for e d by (rule post) (use assms(1) same in simp_all)
  have lgs: "key_post hotkey k n (apfst hotkey_debug n)" "key_post hotkey k n (apfst hotkey_debug_vv n)"
    "key_post hotkey k n (apfst hotkey_debug_vvv n)" "key_post hotkey k n (apsnd (emit acts) n)" for acts
    by (rule post; use assms(1) same in simp)+
  show ?thesis
    unfolding hotkey_key_def log_event_other
    by (intro key_post_if id ev lgs tabs flags)
      (use asks filt quit False in \<open>auto simp: ask_keys_def\<close>)
qed

text \<open>What a text does.\<close>

definition string_post :: "int \<Rightarrow> 'm logNode \<Rightarrow> 'm logNode \<Rightarrow> bool" where
  "string_post hotkey n n1 \<longleftrightarrow> (\<exists>k1. kh (fst n1) = Some k1 \<and> timers_ok k1 \<and> \<not> kh_wait_y k1 \<and>
     (\<not> kh_non_blocking k1 \<longrightarrow> kh_str_number k1 = 0 \<or> kh_str_number k1 = 1 \<and> hotkey = of_char CHR ''m'')) \<and>
     ke_run (snd n1) = ke_run (snd n)"

lemma echo_run [simp]: "ke_run (snd (ksnCommandSendCmdEcho to data ke)) = ke_run ke"
proof -
  obtain name k where s: "ksnCoreSendCmdto to CMD_ECHO (ksnCommandEchoBuffer ke data) ke = (name, k)" by fastforce
  have "ke_run k = ke_run ke" using sendCmdto_fields(8) [of to CMD_ECHO "ksnCommandEchoBuffer ke data" ke] s by simp
  then show ?thesis by (cases name) (simp_all add: ksnCommandSendCmdEcho_def s arp_store_def)
qed

lemma string_post_back:
  assumes "kh (fst n) = Some k" and "timers_ok k" and "\<not> kh_wait_y k" and "ke_run (snd n) = ke_run (snd n0)"
  shows "string_post hotkey n0 (upd_kh keys_non_blocking_start n)"
  using assms by (simp add: string_post_def keys_non_blocking_start_def)

lemma filter_fields [simp]:
  "timers_ok (hotkeysResetFilter k) = timers_ok k" "timers_ok (teoHotkeySetFilter k f) = timers_ok k"
  "kh_wait_y (hotkeysResetFilter k) = kh_wait_y k" "kh_wait_y (teoHotkeySetFilter k f) = kh_wait_y k"
  by (simp_all add: hotkeysResetFilter_def teoHotkeySetFilter_def)

lemma hotkey_string_ok:
  assumes "kh (fst n) = Some k" and "timers_ok k" and "\<not> kh_wait_y k" and "hotkey \<in> ask_keys"
    and "kh_str_number k = 0 \<or> kh_str_number k = 1 \<and> hotkey = of_char CHR ''m''"
    and "hotkey_string lib nets hotkey s k n = (None, n1)"
  shows "string_post hotkey n n1"
proof -
  have same: "string_post hotkey n n" using assms by (auto simp: string_post_def)
  have backs: "string_post hotkey n (upd_kh keys_non_blocking_start (upd_kh f n))" if "timers_ok (f k)" "\<not> kh_wait_y (f k)" for f
    by (rule string_post_back [where k = "f k"]) (use assms(1) that in simp_all)
  have back0: "string_post hotkey n (upd_kh keys_non_blocking_start n)"
    by (rule string_post_back) (use assms in auto)
  consider "hotkey = of_char CHR ''m''" | "hotkey = of_char CHR ''n''" | "hotkey = of_char CHR ''i''" |
    "hotkey = of_char CHR ''t''" | "hotkey = of_char CHR ''f''"
    using assms(4) unfolding ask_keys_def by auto
  then show ?thesis
  proof cases
    case 1
    have sent: "string_post hotkey n (upd_kh keys_non_blocking_start (apsnd (\<lambda>ke. snd (ksnCommandSendCmdEcho to data ke)) n))" for to data
      by (rule string_post_back [where k = k]) (use assms in simp_all)
    have more_text: "string_post hotkey n (upd_kh (\<lambda>k. k\<lparr>kh_str := t, kh_str_number := 1\<rparr>) n)" for t
      using assms(1-3) 1 by (simp add: string_post_def)
    show ?thesis
      using assms(5,6) 1 same back0 sent more_text by (auto simp: hotkey_string_def Let_def split: if_splits)
  next
    case 2
    have text2: "string_post hotkey n (upd_kh (\<lambda>k. k\<lparr>kh_str := t\<rparr>) (upd_kh keys_non_blocking_start n))" for t
      using assms(1-3) by (simp add: string_post_def keys_non_blocking_start_def)
    show ?thesis
      using assms(6) 2 same back0 text2 by (auto simp: hotkey_string_def Let_def split: if_splits)
  next
    case 3
    have "string_post hotkey n (upd_kh keys_non_blocking_start (upd_kh (\<lambda>k. k\<lparr>kh_pt := Some t\<rparr>) n))" for t
      by (rule backs) (use assms in simp_all)
    then show ?thesis using assms(6) 3 same back0 by (auto simp: hotkey_string_def Let_def split: if_splits)
  next
    case 4
    then show ?thesis using assms(6) same back0 by (auto simp: hotkey_string_def Let_def split: if_splits)
  next
    case 5
    let ?n = "upd_kh (\<lambda>k. k\<lparr>kh_filter_f := \<not> kh_filter_f k\<rparr>) n"
    have "string_post hotkey n (upd_kh keys_non_blocking_start (upd_kh (\<lambda>k. if c then teoHotkeySetFilter k t else hotkeysResetFilter k) ?n))" for c t
      by (rule string_post_back [where k = "if c then teoHotkeySetFilter (k\<lparr>kh_filter_f := \<not> kh_filter_f k\<rparr>) t else hotkeysResetFilter (k\<lparr>kh_filter_f := \<not> kh_filter_f k\<rparr>)"])
        (use assms(1-3) in simp_all)
    moreover have "string_post hotkey n ?n" using assms(1-3,5) by (auto simp: string_post_def)
    ultimately show ?thesis using assms(6) 5 by (auto simp: hotkey_string_def Let_def split: if_splits)
  qed
qed

lemma hotkeys_cb_ok:
  assumes "kh (fst n) = Some k" and "hotkeys_ok k" and "case inp of HotKey ch \<Rightarrow> kh_non_blocking k | HotString s \<Rightarrow> \<not> kh_non_blocking k"
    and "hotkeys_cb lib nets inp n = (None, n1)"
  shows "\<exists>k1. kh (fst n1) = Some k1 \<and> hotkeys_ok k1 \<and>
    kh_last_hotkey k1 = (case inp of HotKey ch \<Rightarrow> ch | HotString s \<Rightarrow> kh_last_hotkey k) \<and>
    ke_run (snd n1) = (ke_run (snd n) \<and> \<not> (inp = HotKey (of_char CHR ''y'') \<and> kh_wait_y k))"
proof (cases inp)
  case (HotKey ch)
  define k' where "k' = (if ch \<noteq> of_char CHR ''y'' then k\<lparr>kh_wait_y := False\<rparr> else k)"
  let ?n = "upd_kh (\<lambda>_. k') n"
  have "key_post ch k' ?n (hotkey_key lib nets ch k' ?n)"
    by (rule hotkey_key_ok) (use assms(1-3) HotKey in \<open>auto simp: k'_def hotkeys_ok_def\<close>)
  then obtain k1 where k1: "kh (fst (hotkey_key lib nets ch k' ?n)) = Some k1" "after_key ch k1"
    "ke_run (snd (hotkey_key lib nets ch k' ?n)) = (ke_run (snd n) \<and> \<not> (ch = of_char CHR ''y'' \<and> kh_wait_y k'))"
    by (auto simp: key_post_def)
  have "n1 = upd_kh (\<lambda>k. k\<lparr>kh_last_hotkey := ch\<rparr>) (hotkey_key lib nets ch k' ?n)"
    using assms(1,4) HotKey by (simp add: hotkeys_cb_def Let_def k'_def split: if_splits)
  then show ?thesis
    using k1 HotKey by (auto simp: hotkeys_ok_def after_key_def k'_def)
next
  case (HotString s)
  define h where "h = kh_last_hotkey k"
  let ?k = "k\<lparr>kh_wait_y := False\<rparr>"
  let ?n = "upd_kh (\<lambda>_. ?k) n"
  have h: "h \<in> ask_keys" "kh_str_number k = 0 \<or> kh_str_number k = 1 \<and> h = of_char CHR ''m''" "timers_ok k"
    using assms(2,3) HotString by (auto simp: hotkeys_ok_def h_def)
  then have hy: "h \<noteq> of_char CHR ''y''" "h \<noteq> of_char CHR ''q''" by (auto simp: ask_keys_def)
  obtain n2 where n2: "hotkey_string lib nets h s ?k ?n = (None, n2)" "n1 = upd_kh (\<lambda>k. k\<lparr>kh_last_hotkey := h\<rparr>) n2"
    using assms(1,4) HotString hy by (auto simp: hotkeys_cb_def Let_def h_def split: option.splits prod.splits)
  have "string_post h ?n n2" by (rule hotkey_string_ok [OF _ _ _ h(1) _ n2(1)]) (use assms(1) h in simp_all)
  then show ?thesis
    using n2(2) h(1) HotString by (auto simp: string_post_def hotkeys_ok_def h_def)
qed

section \<open>Reachable states\<close>

lemma monitor_run [simp]: "ke_run (monitor_timer_cb ke) = ke_run ke"
proof -
  have one: "\<exists>k1. monitor_timer_one_cb name arp k = (False, k1) \<and> ke_run k1 = ke_run k" for name arp k
    by (simp add: monitor_timer_one_cb_def ksnetArpAdd_def)
  have "ke_run (snd (arp_iterate monitor_timer_one_cb flag es k)) = ke_run k" for flag es k
  proof (induction es arbitrary: k)
    case (Cons e es)
    obtain key arp where e: "e = (key, arp)" by fastforce
    obtain k1 where k1: "monitor_timer_one_cb (cstr key) arp k = (False, k1)" "ke_run k1 = ke_run k" using one by blast
    then show ?case unfolding e arp_iterate.simps k1(1) using Cons.IH [of k1] Cons.IH [of k] by (cases flag) simp_all
  qed simp
  then show ?thesis by (simp add: monitor_timer_cb_def ksnetArpGetAll_def ksnetArpGetAllFlag_def)
qed

text \<open>A step without an input changes only whether a timer or its idle watcher waits.\<close>

definition same_hotkeys :: "ksnetHotkeysClass \<Rightarrow> ksnetHotkeysClass \<Rightarrow> bool" where
  "same_hotkeys k k1 \<longleftrightarrow> (kh_pet k1 = None \<longleftrightarrow> kh_pet k = None) \<and> (kh_put k1 = None \<longleftrightarrow> kh_put k = None) \<and>
     kh_peer_m k1 = kh_peer_m k \<and> kh_tr_udp_m k1 = kh_tr_udp_m k \<and> kh_tr_udp_queues_m k1 = kh_tr_udp_queues_m k \<and>
     kh_non_blocking k1 = kh_non_blocking k \<and> kh_wait_y k1 = kh_wait_y k \<and> kh_last_hotkey k1 = kh_last_hotkey k \<and>
     kh_str_number k1 = kh_str_number k"

lemma same_hotkeys_ok: "same_hotkeys k k1 \<Longrightarrow> hotkeys_ok k \<Longrightarrow> hotkeys_ok k1 \<and> kh_last_hotkey k1 = kh_last_hotkey k"
  unfolding same_hotkeys_def hotkeys_ok_def timers_ok_def by simp

lemma show_timer_none [simp]: "show_timer_cb t = None \<longleftrightarrow> t = None" "show_idle_cb t = None \<longleftrightarrow> t = None"
  by (auto simp: show_timer_cb_def show_idle_cb_def)

lemma same_hotkeys_timers:
  "same_hotkeys k k" "same_hotkeys k (peer_timer_cb k)" "same_hotkeys k (peer_idle_cb k)" "same_hotkeys k (tr_udp_timer_cb k)"
  "same_hotkeys k (k\<lparr>kh_put := show_idle_cb (kh_put k)\<rparr>)"
  by (simp_all add: same_hotkeys_def peer_timer_cb_def peer_idle_cb_def tr_udp_timer_cb_def)

lemma timer_kh:
  assumes "kh (fst n) = Some k" and "same_hotkeys k (f k)"
  shows "(\<exists>k1. kh (fst (upd_kh f n)) = Some k1 \<and> same_hotkeys k k1) \<and> ke_run (snd (upd_kh f n)) = ke_run (snd n)"
  using assms by simp

lemma hotkeys_timer_step:
  assumes "hotkeys_step lib nets None n n1" and "kh (fst n) = Some k"
  shows "(\<exists>k1. kh (fst n1) = Some k1 \<and> same_hotkeys k k1) \<and> ke_run (snd n1) = ke_run (snd n)"
  using assms(1)
proof cases
  case peer_timer
  then show ?thesis using timer_kh [of n k peer_timer_cb] assms(2) same_hotkeys_timers(2) by simp
next
  case peer_idle
  then show ?thesis using timer_kh [of n k peer_idle_cb] assms(2) same_hotkeys_timers(3) by simp
next
  case tr_udp_timer
  then show ?thesis using timer_kh [of n k tr_udp_timer_cb] assms(2) same_hotkeys_timers(4) by simp
next
  case (tr_udp_idle k')
  then show ?thesis using assms(2) same_hotkeys_timers(5) [of k] by (simp add: tr_udp_idle_cb_def split_def)
next
  case (ping lg k' peer ke junk)
  then show ?thesis using assms(2) same_hotkeys_timers(1) by (simp add: ping_timer_cb_def)
next
  case (monitor lg k' ke)
  then show ?thesis using assms(2) same_hotkeys_timers(1) by simp
next
  case (freed_idle lg k' ke)
  then show ?thesis using assms(2) same_hotkeys_timers(1) by simp
qed

lemma hotkeys_input_step:
  assumes "hotkeys_step lib nets (Some inp) n n1" and "kh (fst n) = Some k"
  shows "hotkeys_cb lib nets inp n = (None, n1)" "case inp of HotKey ch \<Rightarrow> kh_non_blocking k | HotString s \<Rightarrow> \<not> kh_non_blocking k"
  using assms by (auto elim: hotkeys_step.cases)

lemma hotkeys_init_ok: "hotkeys_ok (ksnetHotkeysInit a b)" "kh_last_hotkey (ksnetHotkeysInit a b) = 0"
  by (auto simp: ksnetHotkeysInit_def Let_def keys_non_blocking_start_def hotkeys_ok_def timers_ok_def)

definition quit_keys :: "hotkeyInput list \<Rightarrow> bool" where
  "quit_keys inps \<longleftrightarrow> (\<exists>a b. inps = a @ [HotKey (of_char CHR ''y''), HotKey (of_char CHR ''q'')] @ b)"

text \<open>
  What holds in all states: the module of the current network, which is the only one, is well formed, the
  nodes run unless y was pressed right after q, and that q was the last key can only be so when the last
  input was q.
\<close>

definition prog_ok :: "hotkeyInput list \<Rightarrow> 'm hotkeysProg \<Rightarrow> bool" where
  "prog_ok inps p \<longleftrightarrow> (\<exists>k. kh (fst (hp_node p (hp_cur p))) = Some k \<and> hotkeys_ok k \<and>
       (kh_last_hotkey k = of_char CHR ''q'' \<longrightarrow> (\<exists>r. inps = HotKey (of_char CHR ''q'') # r))) \<and>
     (\<forall>i. i \<noteq> hp_cur p \<longrightarrow> kh (fst (hp_node p i)) = None) \<and> ((\<forall>i. ke_run (snd (hp_node p i))) \<or> quit_keys inps)"

lemma quit_keys_Cons: "quit_keys inps \<Longrightarrow> quit_keys (inp # inps)"
  unfolding quit_keys_def by (metis append_Cons)

lemma upd_node_simps [simp]:
  "hp_cur (upd_node i f p) = hp_cur p" "hp_old (upd_node i f p) = hp_old p"
  "hp_node (upd_node i f p) j = (if j = i then f (hp_node p i) else hp_node p j)"
  "hp_cur (upd_old m k p) = hp_cur p" "hp_node (upd_old m k p) = hp_node p"
  by (simp_all add: upd_node_def upd_old_def)

lemma ping_timer_run: "ke_run (ping_timer_cb junk peer ke) = ke_run ke"
  by (simp add: ping_timer_cb_def)

text \<open>Callbacks of timers that were left running change no module and stop no node.\<close>

lemma prog_ok_keep:
  assumes "prog_ok inps p" and "\<And>n. fst (f n) = fst n \<and> ke_run (snd (f n)) = ke_run (snd n)"
  shows "prog_ok inps (upd_node i f p)"
  using assms by (auto simp: prog_ok_def)

lemma prog_timer_step:
  assumes "hotkeys_prog_step lib nets None p p1" and "prog_ok inps p"
  shows "prog_ok inps p1"
  using assms(1)
proof cases
  case (in_node n)
  obtain k where k: "kh (fst (hp_node p (hp_cur p))) = Some k" "hotkeys_ok k" using assms(2) by (auto simp: prog_ok_def)
  obtain k1 where "kh (fst n) = Some k1" "same_hotkeys k k1" "ke_run (snd n) = ke_run (snd (hp_node p (hp_cur p)))"
    using hotkeys_timer_step [OF in_node(2) k(1)] by blast
  then show ?thesis using in_node(1) assms(2) k same_hotkeys_ok [of k k1] by (auto simp: prog_ok_def)
qed (use assms(2) prog_ok_keep in \<open>auto simp: ping_timer_run prog_ok_def\<close>)

lemma hotkey_string_moves:
  assumes "hotkey_string lib nets hotkey s k n = (Some net, n1)"
  shows "net \<noteq> hn_idx nets \<and> kh (fst n1) = None \<and> snd n1 = snd n"
proof -
  have "hotkey = of_char CHR ''n''" using assms by (auto simp: hotkey_string_def Let_def split: if_splits)
  then show ?thesis using assms
    by (auto simp: hotkey_string_def Let_def ksnetHotkeysDestroy_def split: if_splits)
qed

lemma hotkeys_cb_moves:
  assumes "hotkeys_cb lib nets (HotString s) n = (Some net, n1)"
  shows "net \<noteq> hn_idx nets \<and> kh (fst n1) = None \<and> snd n1 = snd n"
proof -
  obtain k0 where k0: "kh (fst n) = Some k0" using assms by (cases "kh (fst n)") (simp_all add: hotkeys_cb_def)
  let ?k = "if kh_last_hotkey k0 \<noteq> of_char CHR ''y'' then k0\<lparr>kh_wait_y := False\<rparr> else k0"
  have "hotkey_string lib nets (kh_last_hotkey k0) s ?k (upd_kh (\<lambda>_. ?k) n) = (Some net, n1)"
    using assms k0 by (auto simp: hotkeys_cb_def Let_def split: prod.splits option.splits)
  from hotkey_string_moves [OF this] show ?thesis by simp
qed

lemma prog_switch:
  assumes "hotkeys_cb lib (nets\<lparr>hn_idx := hp_cur p\<rparr>) (HotString s) (hp_node p (hp_cur p)) = (Some net, n)" and "prog_ok inps p"
  shows "prog_ok (inp # inps) (switch_to_net net a b k n p)"
proof -
  have "net \<noteq> hp_cur p" "kh (fst n) = None" "ke_run (snd n) = ke_run (snd (hp_node p (hp_cur p)))"
    using hotkeys_cb_moves [OF assms(1)] by auto
  then show ?thesis
    using assms(2) hotkeys_init_ok [of a b] quit_keys_Cons by (auto simp: prog_ok_def switch_to_net_def Let_def split_def)
qed

lemma prog_input_step:
  assumes "hotkeys_prog_step lib nets (Some inp) p p1" and ok: "prog_ok inps p"
  shows "prog_ok (inp # inps) p1"
  using assms(1)
proof cases
  case (in_node n)
  obtain k where k: "kh (fst (hp_node p (hp_cur p))) = Some k" "hotkeys_ok k"
    "kh_last_hotkey k = of_char CHR ''q'' \<longrightarrow> (\<exists>r. inps = HotKey (of_char CHR ''q'') # r)" using ok by (auto simp: prog_ok_def)
  note st = hotkeys_input_step [OF in_node(2) k(1)]
  from hotkeys_cb_ok [OF k(1,2) st(2,1)] obtain k1 where k1: "kh (fst n) = Some k1" "hotkeys_ok k1"
    "kh_last_hotkey k1 = (case inp of HotKey ch \<Rightarrow> ch | HotString s \<Rightarrow> kh_last_hotkey k)"
    "ke_run (snd n) = (ke_run (snd (hp_node p (hp_cur p))) \<and> \<not> (inp = HotKey (of_char CHR ''y'') \<and> kh_wait_y k))" by blast
  have q: "quit_keys (inp # inps)" if "inp = HotKey (of_char CHR ''y'')" "kh_wait_y k"
  proof -
    have "kh_last_hotkey k = of_char CHR ''q''" using k(2) that(2) by (simp add: hotkeys_ok_def)
    with k(3) obtain r where "inps = HotKey (of_char CHR ''q'') # r" by blast
    then have "inp # inps = [] @ [HotKey (of_char CHR ''y''), HotKey (of_char CHR ''q'')] @ r" using that by simp
    then show ?thesis unfolding quit_keys_def by blast
  qed
  have "kh_last_hotkey k1 = of_char CHR ''q'' \<longrightarrow> (\<exists>r. inp # inps = HotKey (of_char CHR ''q'') # r)"
  proof (cases inp)
    case (HotString s)
    then have "kh_last_hotkey k \<in> ask_keys" using st(2) k(2) by (simp add: hotkeys_ok_def)
    then show ?thesis using k1(3) HotString by (auto simp: ask_keys_def)
  qed (use k1(3) in simp)
  then show ?thesis using in_node(1) ok k1 q quit_keys_Cons by (auto simp: prog_ok_def)
next
  case (switch_net k s net n a b)
  then show ?thesis using prog_switch [OF _ ok] by simp
qed


text \<open>A module without tables to show, in the example node, and the keys q and y.\<close>

definition hotkeys_node :: "bytes list logNode" where
  "hotkeys_node = (example_logs\<lparr>kh := Some (ksnetHotkeysInit False False)\<rparr>, log_node)"

definition one_net :: hotkeyNets where
  "one_net = \<lparr>hn_count = 1, hn_idx = 0, hn_exists = (\<lambda>i. i = 0)\<rparr>"

lemma hotkeys_node_kh: "kh (fst hotkeys_node) = Some (ksnetHotkeysInit False False)" "ke_run (snd hotkeys_node)"
  by (simp_all add: hotkeys_node_def log_node_def ksnetArpAdd_def exampleNode_def)

lemma hotkeys_quit_steps:
  "\<exists>n1 n2. hotkeys_step list_map one_net (Some (HotKey 113)) hotkeys_node n1 \<and>
     hotkeys_step list_map one_net (Some (HotKey 121)) n1 n2 \<and> \<not> ke_run (snd n2)"
proof -
  define k where "k = ksnetHotkeysInit False False"
  have nb: "kh_non_blocking k" by (simp add: k_def ksnetHotkeysInit_def keys_non_blocking_start_def)
  obtain lg ke where n0: "hotkeys_node = (lg, ke)" by fastforce
  have n: "hotkeys_node = (lg, ke)" "kh lg = Some k"
    using hotkeys_node_kh(1) unfolding n0 by (simp_all add: k_def)
  define lg1 where "lg1 = lg\<lparr>kh := Some (k\<lparr>kh_wait_y := True, kh_last_hotkey := 113\<rparr>)\<rparr>"
  have 1: "hotkeys_cb list_map one_net (HotKey 113) (lg, ke) = (None, (lg1, ke))"
    using n(2) by (simp add: hotkeys_cb_def Let_def hotkey_key_def upd_kh_def lg1_def)
  have k1: "kh lg1 = Some (k\<lparr>kh_wait_y := True, kh_last_hotkey := 113\<rparr>)" by (simp add: lg1_def)
  define n2 where "n2 = snd (hotkeys_cb list_map one_net (HotKey 121) (lg1, ke))"
  have 2: "hotkeys_cb list_map one_net (HotKey 121) (lg1, ke) = (None, n2)" "\<not> ke_run (snd n2)"
    by (simp_all add: n2_def hotkeys_cb_def Let_def hotkey_key_def upd_kh_def k1 ksnetEvMgrStop_def)
  have "hotkeys_step list_map one_net (Some (HotKey 113)) hotkeys_node (lg1, ke)"
    unfolding n(1) by (rule input_key [where k = k]) (use n(2) nb 1 in simp_all)
  moreover have "hotkeys_step list_map one_net (Some (HotKey 121)) (lg1, ke) n2"
    by (rule input_key [OF k1 _ 2(1)]) (use nb in simp)
  ultimately show ?thesis using 2(2) by blast
qed

definition hotkeys_prog :: "bytes list hotkeysProg" where
  "hotkeys_prog = \<lparr>hp_cur = 0, hp_node = (\<lambda>i. if i = 0 then hotkeys_node else (example_logs\<lparr>kh := None\<rparr>, log_node)), hp_old = []\<rparr>"

lemma hotkeys_prog_begin: "hotkeys_begin hotkeys_prog" "ke_run (snd (hp_node hotkeys_prog i))"
  using hotkeys_node_kh by (auto simp: hotkeys_begin_def hotkeys_prog_def hotkeys_node_def)


section \<open>Freed records\<close>

text \<open>
  The key p while the idle watcher of the peers' table waits frees the record that holds the watcher, which
  stays active.
\<close>

lemma hotkeys_freed_idle:
  assumes "kh lg = Some k" and "kh_pet k = Some IdleOn" and "kh_peer_m k"
  shows "\<exists>k1. kh (fst (snd (hotkeys_cb lib nets (HotKey (of_char CHR ''p'')) (lg, ke)))) = Some k1 \<and> kh_pet k1 = None \<and> kh_freed_idle k1"
  using assms by (simp add: hotkeys_cb_def Let_def hotkey_key_def hotkey_peers_def peer_timer_stop_def)

text \<open>
  Moving to another network while the statistics are shown leaves their timer running; its next idle
  callback goes through the null pointer that the destroyed module has left in the node.
\<close>

lemma hotkeys_switch_fault:
  assumes "kh lg = Some k" and "kh_last_hotkey k = of_char CHR ''n''" and "kh_str_number k = 0" and "1 < hn_count nets"
    and "trimlf s \<noteq> []" and "atoi (cstr (take 256 (trimlf s))) - 1 = net" and "hn_exists nets net" and "net \<noteq> hn_idx nets"
  shows "\<exists>n. hotkeys_cb lib nets (HotString s) (lg, ke) = (Some net, n) \<and> Fault \<in> set (ke_out (snd (tr_udp_idle_cb n)))"
  using assms by (simp add: hotkeys_cb_def Let_def hotkey_string_def ksnetHotkeysDestroy_def tr_udp_idle_cb_def split_def upd_kh_def)

end
