(* ===== verification/LogReader.thy ===== *)
theory LogReader
  imports Prelude
begin

text \<open>
  Reading of growing files (modules/log_reader.c). When a watched file changes, what is new in it is
  read into a buffer, which grows as needed, and taken apart into lines, each of which goes to the
  event callback of the node and to the callback of the watcher. The results of \<open>open\<close> and \<open>read\<close> are
  arguments; None stands for an access outside a buffer. Both buffers are kept from one change of a
  file to the next; of the first one only the size matters then.
\<close>

section \<open>State\<close>

definition BUFINC :: nat where "BUFINC = 256"

text \<open>teoLogReaderClass; the line buffer is there when its size is not zero.\<close>

record teoLogReaderClass =
  lr_buf_size :: nat
  lr_line_buf_size :: nat

definition teoLogReaderInit :: teoLogReaderClass where
  "teoLogReaderInit = \<lparr>lr_buf_size = 0, lr_line_buf_size = 0\<rparr>"

text \<open>teoLogReaderWatcher with its flags READ_FROM_END and SKIP_EMPTY; \<open>wd_cb\<close>: it has a callback.\<close>

record teoLogReaderWatcher =
  wd_name :: bytes
  wd_file_name :: bytes
  wd_read_from_end :: bool
  wd_skip_empty :: bool
  wd_fd :: int
  wd_cb :: bool

text \<open>A call of \<open>read\<close> that gives bytes, none at the end of the file, or fails.\<close>

datatype readResult =
    ReadData bytes
  | ReadError

text \<open>The calls outside: the event EV_K_LOG_READER, the watcher's callback, libev and files.\<close>

datatype logReaderOut =
    LogReaderEvent bytes
  | LogReaderCallback bytes
  | StatStart bytes
  | StatStop
  | SeekEnd int
  | CloseFile int

section \<open>Reading\<close>

text \<open>The size of the buffer before a call of \<open>read\<close>, when \<open>ptr\<close> bytes are in it.\<close>

definition grow_buffer :: "nat \<Rightarrow> nat \<Rightarrow> nat" where
  "grow_buffer ptr buf_size =
     (if buf_size = 0 then BUFINC * 2 else if buf_size - ptr < BUFINC then buf_size + BUFINC * 2 else buf_size)"

text \<open>A measure for the loop.\<close>

fun read_size :: "readResult \<Rightarrow> nat" where
  "read_size (ReadData d) = length d + 1"
| "read_size ReadError = 1"

text \<open>
  readBuffer with the results of the calls of \<open>read\<close>, after which the file is at its end. Of a result
  that is longer than the room in the buffer the next call gives the rest. The result of a failed call
  is taken as the unsigned number \<open>-1\<close>: the loop goes on with \<open>ptr\<close> lowered by one, in front of the buffer when
  it was empty.
\<close>

function readBuffer :: "readResult list \<Rightarrow> bytes \<Rightarrow> nat \<Rightarrow> (bytes \<times> nat) option" where
  "readBuffer [] buf buf_size = Some (buf, grow_buffer (length buf) buf_size)"
| "readBuffer (ReadData d # rs) buf buf_size =
     (let buf_size1 = grow_buffer (length buf) buf_size; rd = buf_size1 - length buf
      in if take rd d = [] then Some (buf, buf_size1)
         else readBuffer (if length d \<le> rd then rs else ReadData (drop rd d) # rs) (buf @ take rd d) buf_size1)"
| "readBuffer (ReadError # rs) buf buf_size =
     (if buf = [] then None else readBuffer rs (butlast buf) (grow_buffer (length buf) buf_size))"
  by pat_completeness auto
termination by (relation "measure (\<lambda>(rs, buf, n). sum_list (map read_size rs))") auto

section \<open>Lines\<close>

text \<open>
  readLineBuffer: the line, the rest of the data, and the size of the line buffer. The index of the line
  is an \<open>int\<close>.
\<close>

definition LINE_MAX :: nat where "LINE_MAX = 2147483647"

fun line_loop :: "bytes \<Rightarrow> bytes \<Rightarrow> nat \<Rightarrow> (bytes \<times> bytes \<times> nat) option" where
  "line_loop [] retstr line_buf_size = Some (retstr, [], line_buf_size)"
| "line_loop (ch # data) retstr line_buf_size =
     (if ch = 13 then line_loop data retstr line_buf_size
      else if ch \<noteq> 10
      then if length retstr + 1 < line_buf_size \<and> length retstr < LINE_MAX
           then line_loop data (retstr @ [ch])
                  (if line_buf_size - 1 \<le> length retstr + 1 then line_buf_size + BUFINC else line_buf_size)
           else None
      else Some (retstr, data, line_buf_size))"

definition readLineBuffer :: "bytes \<Rightarrow> nat \<Rightarrow> (bytes \<times> bytes \<times> nat) option" where
  "readLineBuffer data line_buf_size = line_loop data [] (if line_buf_size = 0 then BUFINC else line_buf_size)"

text \<open>What the callbacks get of a line: its text to the first zero.\<close>

definition line_out :: "teoLogReaderWatcher \<Rightarrow> bytes \<Rightarrow> logReaderOut list" where
  "line_out wd line =
     (if wd_skip_empty wd \<and> cstr line = [] then []
      else LogReaderEvent (cstr line) # (if wd_cb wd then [LogReaderCallback (cstr line)] else []))"

lemma line_loop_shorter: "line_loop data retstr n = Some (line, rest, n1) \<Longrightarrow> data \<noteq> [] \<Longrightarrow> length rest < length data"
proof (induction data arbitrary: retstr n)
  case (Cons ch data)
  show ?case
  proof (cases "data = []")
    case True
    then show ?thesis using Cons.prems by (auto split: if_splits)
  next
    case False
    then show ?thesis using Cons.prems Cons.IH by (fastforce split: if_splits)
  qed
qed simp

function receive_loop :: "teoLogReaderWatcher \<Rightarrow> bytes \<Rightarrow> nat \<Rightarrow> (logReaderOut list \<times> nat) option" where
  "receive_loop wd data n =
     (case readLineBuffer data n of
        None \<Rightarrow> None
      | Some (line, rest, n1) \<Rightarrow>
          if rest = [] then Some (line_out wd line, n1)
          else map_option (\<lambda>(outs, n2). (line_out wd line @ outs, n2)) (receive_loop wd rest n1))"
  by pat_completeness auto
termination
proof (relation "measure (\<lambda>(wd, data, n). length data)", goal_cases)
  case (2 wd data n x line y rest n1)
  then show ?case
    using line_loop_shorter [of data "[]" _ line rest n1] by (cases data) (auto simp: readLineBuffer_def)
qed simp

declare receive_loop.simps [simp del]

definition receive_cb :: "teoLogReaderWatcher \<Rightarrow> readResult list \<Rightarrow> teoLogReaderClass \<Rightarrow> (logReaderOut list \<times> teoLogReaderClass) option" where
  "receive_cb wd rs lr =
     (case readBuffer rs [] (lr_buf_size lr) of
        None \<Rightarrow> None
      | Some (data, n) \<Rightarrow>
          let lr1 = lr\<lparr>lr_buf_size := n\<rparr>
          in if data = [] then Some ([], lr1)
             else map_option (\<lambda>(outs, m). (outs, lr1\<lparr>lr_line_buf_size := m\<rparr>)) (receive_loop wd data (lr_line_buf_size lr)))"

section \<open>Watchers\<close>

text \<open>Opening: \<open>fd\<close> is the result of \<open>open\<close>, \<open>rs\<close> are those of the first reads.\<close>

definition teoLogReaderOpenCbPP ::
  "bytes \<Rightarrow> bytes \<Rightarrow> bool \<Rightarrow> bool \<Rightarrow> bool \<Rightarrow> int \<Rightarrow> readResult list \<Rightarrow> teoLogReaderClass \<Rightarrow>
   (teoLogReaderWatcher option \<times> logReaderOut list \<times> teoLogReaderClass) option" where
  "teoLogReaderOpenCbPP name file_name read_from_end skip_empty cb fd rs lr =
     (if fd = -1 then Some (None, [], lr)
      else let wd = \<lparr>wd_name = name, wd_file_name = file_name, wd_read_from_end = read_from_end,
                     wd_skip_empty = skip_empty, wd_fd = fd, wd_cb = cb\<rparr>
           in if read_from_end then Some (Some wd, [StatStart file_name, SeekEnd fd], lr)
              else map_option (\<lambda>(outs, lr1). (Some wd, StatStart file_name # outs, lr1)) (receive_cb wd rs lr))"

definition teoLogReaderClose :: "teoLogReaderWatcher option \<Rightarrow> int \<Rightarrow> int \<times> logReaderOut list" where
  "teoLogReaderClose wd close_rv =
     (case wd of None \<Rightarrow> (-1, []) | Some w \<Rightarrow> (close_rv, [StatStop, CloseFile (wd_fd w)]))"

section \<open>The lines of a text\<close>

fun lines_of :: "bytes \<Rightarrow> bytes list" where
  "lines_of [] = []"
| "lines_of (c # cs) =
     (if c = 10 then [] # lines_of cs else case lines_of cs of [] \<Rightarrow> [[c]] | l # ls \<Rightarrow> (c # l) # ls)"

lemma lines_of_eq_Nil [simp]: "lines_of cs = [] \<longleftrightarrow> cs = []"
  by (cases cs) (auto split: list.splits)

lemma lines_of_append: "xs = [] \<or> last xs = 10 \<Longrightarrow> lines_of (xs @ ys) = lines_of xs @ lines_of ys"
proof (induction xs)
  case (Cons c xs)
  then show ?case by (cases "xs = []") (auto split: list.splits)
qed simp

lemma lines_of_first:
  "cs \<noteq> [] \<Longrightarrow> lines_of cs = takeWhile (\<lambda>c. c \<noteq> 10) cs # lines_of (drop 1 (dropWhile (\<lambda>c. c \<noteq> 10) cs))"
proof (induction cs)
  case (Cons c cs)
  then show ?case by (cases "cs = []") (auto split: list.splits)
qed simp

text \<open>What the callbacks get of a text: its lines without carriage returns.\<close>

definition lines_out :: "teoLogReaderWatcher \<Rightarrow> bytes \<Rightarrow> logReaderOut list" where
  "lines_out wd data = concat (map (\<lambda>l. line_out wd (filter (\<lambda>c. c \<noteq> 13) l)) (lines_of data))"

lemma lines_out_append: "xs = [] \<or> last xs = 10 \<Longrightarrow> lines_out wd (xs @ ys) = lines_out wd xs @ lines_out wd ys"
  by (simp add: lines_out_def lines_of_append)

section \<open>Reading gives the lines\<close>

lemma line_loop_spec:
  assumes "length retstr + 1 < n" and "length retstr + length data \<le> LINE_MAX"
  shows "\<exists>m. line_loop data retstr n =
      Some (retstr @ filter (\<lambda>c. c \<noteq> 13) (takeWhile (\<lambda>c. c \<noteq> 10) data), drop 1 (dropWhile (\<lambda>c. c \<noteq> 10) data), m) \<and> n \<le> m"
  using assms
proof (induction data arbitrary: retstr n)
  case (Cons ch data)
  let ?n = "if n - 1 \<le> length retstr + 1 then n + BUFINC else n"
  have "length (retstr @ [ch]) + 1 < ?n" using Cons.prems by (auto simp: BUFINC_def)
  then obtain m where m: "line_loop data (retstr @ [ch]) ?n =
      Some (retstr @ ch # filter (\<lambda>c. c \<noteq> 13) (takeWhile (\<lambda>c. c \<noteq> 10) data), drop 1 (dropWhile (\<lambda>c. c \<noteq> 10) data), m)" "?n \<le> m"
    using Cons.IH [of "retstr @ [ch]" ?n] Cons.prems(2) by auto
  consider "ch = 13" | "ch = 10" | "ch \<noteq> 13" "ch \<noteq> 10" by blast
  then show ?case
  proof cases
    case 3
    have "n \<le> m" using m(2) by (simp split: if_splits)
    then show ?thesis using m(1) Cons.prems 3 by auto
  qed (use Cons in auto)
qed simp

definition line_size_ok :: "nat \<Rightarrow> bool" where
  "line_size_ok n \<longleftrightarrow> n = 0 \<or> BUFINC \<le> n"

lemma receive_loop_spec:
  assumes "data \<noteq> []" and "line_size_ok n" and "length data \<le> LINE_MAX"
  shows "\<exists>m. receive_loop wd data n = Some (lines_out wd data, m) \<and> line_size_ok m"
  using assms
proof (induction wd data n rule: receive_loop.induct)
  case (1 wd data n)
  let ?line = "filter (\<lambda>c. c \<noteq> 13) (takeWhile (\<lambda>c. c \<noteq> 10) data)" and ?rest = "drop 1 (dropWhile (\<lambda>c. c \<noteq> 10) data)"
  obtain m where m: "readLineBuffer data n = Some (?line, ?rest, m)" "line_size_ok m"
    using line_loop_spec [of "[]" "if n = 0 then BUFINC else n" data] 1(3,4)
    by (auto simp: readLineBuffer_def line_size_ok_def BUFINC_def split: if_splits)
  have out: "lines_out wd data = line_out wd ?line @ lines_out wd ?rest"
    by (simp add: lines_out_def lines_of_first [OF 1(2)])
  show ?case
  proof (cases "?rest = []")
    case True
    then have "lines_out wd ?rest = []" by (simp add: lines_out_def)
    with True show ?thesis using m out by (simp add: receive_loop.simps [of wd data])
  next
    case False
    have "length ?rest \<le> LINE_MAX"
      using 1(4) length_dropWhile_le [of "\<lambda>c. c \<noteq> 10" data] by (simp add: le_diff_conv)
    from 1(1) [OF m(1) refl refl False False m(2) this] show ?thesis
      using m(1) out False by (auto simp: receive_loop.simps [of wd data])
  qed
qed

definition read_bytes :: "readResult \<Rightarrow> bytes" where
  "read_bytes r = (case r of ReadData d \<Rightarrow> d | ReadError \<Rightarrow> [])"

lemma read_bytes_simps [simp]: "read_bytes (ReadData d) = d" "read_bytes ReadError = []"
  by (simp_all add: read_bytes_def)

definition buf_size_ok :: "nat \<Rightarrow> bytes \<Rightarrow> bool" where
  "buf_size_ok n buf \<longleftrightarrow> (if n = 0 then buf = [] else length buf \<le> n)"

lemma grow_room: "buf_size_ok n buf \<Longrightarrow> length buf + BUFINC \<le> grow_buffer (length buf) n"
  by (auto simp: buf_size_ok_def grow_buffer_def BUFINC_def split: if_splits)

text \<open>What a series of calls of \<open>read\<close> gives: the data before the first call that gives none.\<close>

definition taken :: "bytes list \<Rightarrow> bytes" where
  "taken ds = concat (takeWhile (\<lambda>d. d \<noteq> []) ds)"

lemma taken_simps [simp]: "taken [] = []" "taken ([] # ds) = []" "d \<noteq> [] \<Longrightarrow> taken (d # ds) = d @ taken ds"
  by (simp_all add: taken_def)

lemma readBuffer_spec:
  assumes "set rs \<subseteq> range ReadData" and "buf_size_ok n buf"
  shows "\<exists>m. readBuffer rs buf n = Some (buf @ taken (map read_bytes rs), m) \<and> m \<noteq> 0"
  using assms
proof (induction rs buf n rule: readBuffer.induct)
  case (1 buf n)
  then show ?case using grow_room [of n buf] by (auto simp: BUFINC_def)
next
  case (2 d rs buf n)
  define n1 where "n1 = grow_buffer (length buf) n"
  define rd where "rd = n1 - length buf"
  have room: "length buf + BUFINC \<le> n1" using grow_room [OF 2(3)] by (simp add: n1_def)
  then have rd: "rd > 0" by (auto simp: rd_def BUFINC_def)
  have eq: "readBuffer (ReadData d # rs) buf n =
      (if take rd d = [] then Some (buf, n1)
       else readBuffer (if length d \<le> rd then rs else ReadData (drop rd d) # rs) (buf @ take rd d) n1)"
    by (simp only: readBuffer.simps Let_def n1_def [symmetric] rd_def [symmetric])
  show ?case
  proof (cases "d = []")
    case True
    with room show ?thesis unfolding eq by (simp add: BUFINC_def)
  next
    case False
    then have t: "take rd d \<noteq> []" using rd by simp
    have ok: "buf_size_ok n1 (buf @ take rd d)" using room by (auto simp: buf_size_ok_def rd_def BUFINC_def)
    let ?rs = "if length d \<le> rd then rs else ReadData (drop rd d) # rs"
    have "set ?rs \<subseteq> range ReadData" using 2(2) by auto
    from 2(1) [OF n1_def rd_def t this ok]
    have "\<exists>m. readBuffer ?rs (buf @ take rd d) n1 = Some ((buf @ take rd d) @ taken (map read_bytes ?rs), m) \<and> m \<noteq> 0" .
    moreover have "take rd d @ taken (map read_bytes ?rs) = taken (map read_bytes (ReadData d # rs))"
      using False by simp
    ultimately show ?thesis unfolding eq using t by simp
  qed
qed auto

text \<open>The callbacks of successive changes of a file.\<close>

fun receive_changes :: "teoLogReaderWatcher \<Rightarrow> readResult list list \<Rightarrow> teoLogReaderClass \<Rightarrow> (logReaderOut list \<times> teoLogReaderClass) option" where
  "receive_changes wd [] lr = Some ([], lr)"
| "receive_changes wd (rs # rss) lr =
     (case receive_cb wd rs lr of
        None \<Rightarrow> None
      | Some (outs, lr1) \<Rightarrow> map_option (\<lambda>(outs2, lr2). (outs @ outs2, lr2)) (receive_changes wd rss lr1))"

lemma receive_cb_spec:
  assumes "length (taken ds) \<le> LINE_MAX" and "line_size_ok (lr_line_buf_size lr)"
  shows "\<exists>lr1. receive_cb wd (map ReadData ds) lr = Some (lines_out wd (taken ds), lr1) \<and> line_size_ok (lr_line_buf_size lr1)"
proof -
  have "buf_size_ok (lr_buf_size lr) []" by (simp add: buf_size_ok_def)
  then obtain n where "readBuffer (map ReadData ds) [] (lr_buf_size lr) = Some (taken ds, n)"
    using readBuffer_spec [of "map ReadData ds" "lr_buf_size lr" "[]"] by (auto simp: comp_def)
  then show ?thesis
    using receive_loop_spec [of "taken ds" "lr_line_buf_size lr" wd] assms
    by (cases "taken ds = []") (auto simp: receive_cb_def Let_def lines_out_def)
qed

lemma receive_changes_spec:
  assumes "\<forall>ds \<in> set dss. length (taken ds) \<le> LINE_MAX" and "line_size_ok (lr_line_buf_size lr)"
  shows "\<exists>lr1. receive_changes wd (map (map ReadData) dss) lr = Some (concat (map (\<lambda>ds. lines_out wd (taken ds)) dss), lr1) \<and>
    line_size_ok (lr_line_buf_size lr1)"
  using assms
proof (induction dss arbitrary: lr)
  case (Cons ds dss)
  then obtain lr1 where 1: "receive_cb wd (map ReadData ds) lr = Some (lines_out wd (taken ds), lr1)" "line_size_ok (lr_line_buf_size lr1)"
    using receive_cb_spec [of ds lr wd] by auto
  from Cons.IH [OF _ this(2)] Cons.prems(1) show ?case by (auto simp: 1(1))
qed simp

lemma lines_out_concat:
  assumes "\<forall>xs \<in> set (butlast xss). xs = [] \<or> last xs = 10"
  shows "concat (map (lines_out wd) xss) = lines_out wd (concat xss)"
  using assms
proof (induction xss)
  case (Cons xs xss)
  then show ?case by (cases "xss = []") (simp_all add: lines_out_append)
qed (simp add: lines_out_def)

text \<open>
  C39: When a file grows and is read in parts by calls of \<open>read\<close> that do not fail, cut anywhere, less than
  \<open>2 ^ 31\<close> bytes at a change, the buffers of a new reader never overflow, and each change gives the callbacks
  the lines of what is new, in order, without carriage returns and, if asked for, without empty ones. If
  what is added ends with a whole line each time, these are the lines of the file; otherwise a line is
  cut in two where the change ended. A call of \<open>read\<close> that fails breaks this (\<open>log_reader_read_error\<close> below).
\<close>

theorem log_reader_lines:
  assumes "\<forall>ds \<in> set dss. length (taken ds) < 2 ^ 31"
  shows "\<exists>lr. receive_changes wd (map (map ReadData) dss) teoLogReaderInit = Some (concat (map (\<lambda>ds. lines_out wd (taken ds)) dss), lr) \<and>
    ((\<forall>ds \<in> set (butlast dss). taken ds = [] \<or> last (taken ds) = 10) \<longrightarrow>
      receive_changes wd (map (map ReadData) dss) teoLogReaderInit = Some (lines_out wd (concat (map taken dss)), lr))"
proof -
  have "line_size_ok (lr_line_buf_size teoLogReaderInit)" by (simp add: line_size_ok_def teoLogReaderInit_def)
  moreover have "\<forall>ds \<in> set dss. length (taken ds) \<le> LINE_MAX" using assms by (auto simp: LINE_MAX_def)
  ultimately obtain lr
    where "receive_changes wd (map (map ReadData) dss) teoLogReaderInit = Some (concat (map (\<lambda>ds. lines_out wd (taken ds)) dss), lr)"
    using receive_changes_spec by blast
  moreover have "concat (map (\<lambda>ds. lines_out wd (taken ds)) dss) = lines_out wd (concat (map taken dss))"
    if "\<forall>ds \<in> set (butlast dss). taken ds = [] \<or> last (taken ds) = 10"
    using lines_out_concat [of "map taken dss" wd] that by (simp add: map_butlast [symmetric] comp_def)
  ultimately show ?thesis by auto
qed

text \<open>A file with the lines "ab" and, without its end, "c", the first one read in two parts.\<close>

definition example_watcher :: teoLogReaderWatcher where
  "example_watcher = \<lparr>wd_name = [], wd_file_name = [], wd_read_from_end = False, wd_skip_empty = True, wd_fd = 3, wd_cb = False\<rparr>"

theorem log_reader_lines_witness:
  "\<exists>lr. receive_changes example_watcher (map (map ReadData) [[[97], [98, 13, 10]], [[10, 99]]]) teoLogReaderInit =
     Some ([LogReaderEvent [97, 98], LogReaderEvent [99]], lr)"
proof -
  let ?dss = "[[[97], [98, 13, 10]], [[10, 99]]] :: bytes list list"
  have 1: "\<forall>ds \<in> set ?dss. length (taken ds) < 2 ^ 31" by simp
  have 2: "\<forall>ds \<in> set (butlast ?dss). taken ds = [] \<or> last (taken ds) = 10" by simp
  have 3: "lines_out example_watcher (concat (map taken ?dss)) = [LogReaderEvent [97, 98], LogReaderEvent [99]]"
    by (simp add: lines_out_def line_out_def example_watcher_def cstr_def)
  show ?thesis using log_reader_lines [OF 1, of example_watcher] 2 unfolding 3 by (elim exE conjE) blast
qed

text \<open>
  A failed read, such as that of a directory, makes the next one write in front of the buffer; after bytes
  have been read it makes the last of them be forgotten.
\<close>

theorem log_reader_read_error:
  "receive_cb wd (ReadError # rs) lr = None"
  "d \<noteq> [] \<Longrightarrow> length d \<le> BUFINC \<Longrightarrow> \<exists>m. readBuffer [ReadData d, ReadError] [] n = Some (butlast d, m)"
proof -
  show "receive_cb wd (ReadError # rs) lr = None" by (simp add: receive_cb_def)
  assume d: "d \<noteq> []" "length d \<le> BUFINC"
  have "BUFINC \<le> grow_buffer 0 n" using grow_room [of n "[]"] by (simp add: buf_size_ok_def)
  then show "\<exists>m. readBuffer [ReadData d, ReadError] [] n = Some (butlast d, m)" using d by (auto simp: Let_def BUFINC_def)
qed

text \<open>A line that is written in two steps comes as two lines.\<close>

lemma log_reader_cut:
  "\<exists>lr. receive_changes example_watcher [[ReadData [97]], [ReadData [98, 10]]] teoLogReaderInit =
     Some ([LogReaderEvent [97], LogReaderEvent [98]], lr)"
  using receive_changes_spec [of "[[[97]], [[98, 10]]]" teoLogReaderInit example_watcher]
  by (simp add: LINE_MAX_def line_size_ok_def teoLogReaderInit_def lines_out_def line_out_def example_watcher_def cstr_def) blast

end
