(* ===== verification/Metric.thy ===== *)
theory Metric
  imports EventLoop
begin

text \<open>
  Metrics (modules/metric.c): values sent to a statistics server as texts in datagrams, one for each call
  and, every five seconds, those of the node itself. A datagram is taken from an array of 256 bytes on the
  stack into which at most 254 characters and a zero are printed, with the length that the whole text would
  have; \<open>None\<close> stands for a byte of the array that has not been written.
\<close>

section \<open>Numbers\<close>

text \<open>The conversion \<open>%d\<close> of printf.\<close>

fun dec_digits :: "nat \<Rightarrow> bytes" where
  "dec_digits n = (if n < 10 then [48 + of_nat n] else dec_digits (n div 10) @ [48 + of_nat (n mod 10)])"

declare dec_digits.simps [simp del]

definition dec_int :: "int \<Rightarrow> bytes" where
  "dec_int i = (if i < 0 then 45 # dec_digits (nat (- i)) else dec_digits (nat i))"

section \<open>Sending\<close>

text \<open>
  The configuration, the names of the network and the host, the conversion \<open>%f\<close>, and the counter of ticks,
  a static variable.
\<close>

record teoMetricClass =
  statsd_ip :: bytes
  statsd_port :: int
  statsd_peers_f :: bool
  tm_network :: bytes
  tm_host :: bytes
  tm_float :: "real \<Rightarrow> bytes"
  tm_gauge :: "64 word"

definition teoMetricInit :: "teoMetricClass \<Rightarrow> teoMetricClass option" where
  "teoMetricInit cfg = (if statsd_ip cfg = [] \<or> statsd_port cfg = 0 then None else Some cfg)"

text \<open>A datagram with the bytes read from the array, or a read past its end.\<close>

datatype metricOut =
    Datagram "u8 option list"
  | OverRead nat

definition metric_text :: "bytes \<Rightarrow> teoMetricClass \<Rightarrow> bytes \<Rightarrow> bytes \<Rightarrow> bytes" where
  "metric_text ty tm name val =
     ascii ''teonet.'' @ ty @ ascii ''.'' @ tm_network tm @ ascii ''.'' @ tm_host tm @ ascii ''.'' @ name @ ascii '':'' @ val @ ascii ''|'' @ ty"

definition metric_send :: "bytes \<Rightarrow> metricOut" where
  "metric_send text_all =
     (let written = map Some (take 254 text_all @ [0]); buffer = written @ replicate (256 - length written) None; len = length text_all
      in if len \<le> 256 then Datagram (take len buffer) else OverRead len)"

definition teoMetric :: "teoMetricClass option \<Rightarrow> bytes \<Rightarrow> bytes \<Rightarrow> int \<Rightarrow> metricOut list" where
  "teoMetric tm name ty val = (case tm of None \<Rightarrow> [] | Some t \<Rightarrow> [metric_send (metric_text ty t name (dec_int val))])"

definition teoMetricf :: "teoMetricClass option \<Rightarrow> bytes \<Rightarrow> bytes \<Rightarrow> real \<Rightarrow> metricOut list" where
  "teoMetricf tm name ty val = (case tm of None \<Rightarrow> [] | Some t \<Rightarrow> [metric_send (metric_text ty t name (tm_float t val))])"

definition teoMetricCounter :: "teoMetricClass option \<Rightarrow> bytes \<Rightarrow> int \<Rightarrow> metricOut list" where
  "teoMetricCounter tm name val = teoMetric tm name (ascii ''c'') val"

definition teoMetricCounterf :: "teoMetricClass option \<Rightarrow> bytes \<Rightarrow> real \<Rightarrow> metricOut list" where
  "teoMetricCounterf tm name val = teoMetricf tm name (ascii ''c'') val"

definition teoMetricMs :: "teoMetricClass option \<Rightarrow> bytes \<Rightarrow> real \<Rightarrow> metricOut list" where
  "teoMetricMs tm name val = teoMetricf tm name (ascii ''ms'') val"

definition teoMetricGauge :: "teoMetricClass option \<Rightarrow> bytes \<Rightarrow> int \<Rightarrow> metricOut list" where
  "teoMetricGauge tm name val = teoMetric tm name (ascii ''g'') val"

definition teoMetricGaugef :: "teoMetricClass option \<Rightarrow> bytes \<Rightarrow> real \<Rightarrow> metricOut list" where
  "teoMetricGaugef tm name val = teoMetricf tm name (ascii ''g'') val"

text \<open>The metrics of the node. The tick is given as a 32-bit number.\<close>

definition metric_teonet_count :: "ksnetEvMgr \<Rightarrow> teoMetricClass option \<Rightarrow> metricOut list \<times> teoMetricClass option" where
  "metric_teonet_count ke tm =
     (case tm of
        None \<Rightarrow> ([], None)
      | Some t \<Rightarrow>
          (teoMetricCounter tm (ascii ''total'') 1 @
           teoMetricGauge tm (ascii ''tick'') (sint (ucast (tm_gauge t) :: u32)) @
           (if statsd_peers_f t then concat (map (\<lambda>(name, val). teoMetricGaugef tm (take 254 name) val) (ksnetArpMetrics ke)) else []) @
           (case kl ke of
              None \<Rightarrow> []
            | Some l \<Rightarrow>
                teoMetricGauge tm (ascii ''l0_clients'') (l0_clients l) @
                teoMetricGauge tm (ascii ''l0_packets_from_client'') (l0_packets_from_client l) @
                teoMetricGauge tm (ascii ''l0_packets_to_client'') (l0_packets_to_client l) @
                teoMetricGauge tm (ascii ''l0_packets_to_peer'') (l0_packets_to_peer l) @
                teoMetricGauge tm (ascii ''l0_packets_from_peer'') (l0_packets_from_peer l)),
           Some (t\<lparr>tm_gauge := tm_gauge t + 1\<rparr>)))"

text \<open>The datagrams for the metrics in a list of effects: \<open>metric_cb\<close> is what a node with the module sends.\<close>

definition metric_cb :: "teoMetricClass option \<Rightarrow> action \<Rightarrow> metricOut list" where
  "metric_cb tm a = (case a of MetricGauge name val \<Rightarrow> teoMetricGauge tm (take 254 name) val | _ \<Rightarrow> [])"

section \<open>Decimal numbers\<close>

definition dec_value :: "bytes \<Rightarrow> nat" where
  "dec_value ds = foldl (\<lambda>n d. n * 10 + unat (d - 48)) 0 ds"

lemma dec_digits_length: "n < 10 ^ Suc k \<Longrightarrow> length (dec_digits n) \<le> Suc k"
proof (induction n arbitrary: k rule: dec_digits.induct)
  case (1 n)
  show ?case
  proof (cases "n < 10")
    case False
    then obtain j where k: "k = Suc j" using 1(2) by (cases k) auto
    have "length (dec_digits (n div 10)) \<le> Suc j" by (rule 1(1)) (use False 1(2) k in auto)
    then show ?thesis using False k by (simp add: dec_digits.simps [of n])
  qed (simp add: dec_digits.simps [of n])
qed

lemma digit_value: "n < 10 \<Longrightarrow> unat ((48 + of_nat n :: u8) - 48) = n"
  by (simp add: unat_of_nat)

lemma dec_digits_value: "dec_value (dec_digits n) = n"
proof (induction n rule: dec_digits.induct)
  case (1 n)
  then show ?case
    using digit_value [of n] digit_value [of "n mod 10"]
    by (cases "n < 10") (simp_all add: dec_digits.simps [of n] dec_value_def)
qed

lemma dec_int_length: "int32 i \<Longrightarrow> length (dec_int i) \<le> 11"
proof -
  assume i: "int32 i"
  have "nat (- i) < 10 ^ Suc 9" "nat i < 10 ^ Suc 9" using i by (auto simp: int32_def)
  then have "length (dec_digits (nat (- i))) \<le> Suc 9" "length (dec_digits (nat i)) \<le> Suc 9"
    using dec_digits_length by blast+
  then show ?thesis by (simp add: dec_int_def)
qed

section \<open>What is sent\<close>

lemma metric_send_whole: "length s \<le> 254 \<Longrightarrow> metric_send s = Datagram (map Some s)"
  by (simp add: metric_send_def Let_def)

lemma metric_send_long:
  "length s = 255 \<Longrightarrow> metric_send s = Datagram (map Some (take 254 s @ [0]))"
  "length s = 256 \<Longrightarrow> metric_send s = Datagram (map Some (take 254 s @ [0]) @ [None])"
  "256 < length s \<Longrightarrow> metric_send s = OverRead (length s)"
  by (simp_all add: metric_send_def Let_def)

lemma metric_text_length: "length (metric_text ty t name val) = 12 + 2 * length ty + length (tm_network t) + length (tm_host t) + length name + length val"
  by (simp add: metric_text_def ascii_def)

text \<open>
  With the longest names of a network and a host that the configuration holds, a counter or gauge whose name
  has at most 72 characters is sent whole, with the value in decimal digits, and nothing else from the
  stack.
\<close>

theorem metric_datagram:
  assumes "length (tm_network t) < 128" and "length (tm_host t) < 31" and "length name \<le> 72" and "int32 val"
  shows "teoMetricGauge (Some t) name val = [Datagram (map Some (metric_text (ascii ''g'') t name (dec_int val)))] \<and>
    teoMetricCounter (Some t) name val = [Datagram (map Some (metric_text (ascii ''c'') t name (dec_int val)))] \<and>
    (if val < 0 then dec_value (tl (dec_int val)) = nat (- val) else dec_value (dec_int val) = nat val)"
proof -
  have "length (metric_text ty t name (dec_int val)) \<le> 254" if "length ty = 1" for ty
    using assms(1-3) dec_int_length [OF assms(4)] that unfolding metric_text_length by simp
  then have "metric_send (metric_text (ascii ''g'') t name (dec_int val)) = Datagram (map Some (metric_text (ascii ''g'') t name (dec_int val)))"
    "metric_send (metric_text (ascii ''c'') t name (dec_int val)) = Datagram (map Some (metric_text (ascii ''c'') t name (dec_int val)))"
    by (simp_all add: metric_send_whole ascii_def)
  moreover have "if val < 0 then dec_value (tl (dec_int val)) = nat (- val) else dec_value (dec_int val) = nat val"
    by (simp add: dec_int_def dec_digits_value)
  ultimately show ?thesis by (simp add: teoMetricGauge_def teoMetricCounter_def teoMetric_def)
qed

definition example_metrics :: teoMetricClass where
  "example_metrics = \<lparr>statsd_ip = [49], statsd_port = 9125, statsd_peers_f = False, tm_network = ascii ''local'',
     tm_host = ascii ''a'', tm_float = (\<lambda>r. [48]), tm_gauge = 0\<rparr>"

theorem metric_datagram_witness:
  "teoMetricGauge (Some example_metrics) (ascii ''tick'') (- 12) = [Datagram (map Some (ascii ''teonet.g.local.a.tick:-12|g''))]"
proof -
  have "length (tm_network example_metrics) < 128" "length (tm_host example_metrics) < 31" "length (ascii ''tick'') \<le> 72" "int32 (- 12)"
    by (simp_all add: example_metrics_def ascii_def int32_def)
  note m = metric_datagram [OF this]
  have "dec_int (- 12) = ascii ''-12''" by (simp add: dec_int_def dec_digits.simps ascii_def)
  then have "metric_text (ascii ''g'') example_metrics (ascii ''tick'') (dec_int (- 12)) = ascii ''teonet.g.local.a.tick:-12|g''"
    by (simp add: metric_text_def example_metrics_def ascii_def)
  with m show ?thesis by simp
qed

text \<open>A peer with a long name makes the node read past the array when it connects or disconnects.\<close>

lemma dec_int_ne: "dec_int v \<noteq> []"
  by (simp add: dec_int_def dec_digits.simps)

lemma metric_peer_overread:
  assumes "238 \<le> length peer"
  shows "\<exists>n. metric_cb (Some t) (MetricGauge (met_con peer) v) = [OverRead n]"
proof -
  have "0 < length (dec_int v)" using dec_int_ne by simp
  moreover have "242 \<le> length (take 254 (met_con peer))" using assms by (simp add: met_con_def ascii_def)
  moreover have "length (ascii ''g'') = 1" by (simp add: ascii_def)
  ultimately have "256 < length (metric_text (ascii ''g'') t (take 254 (met_con peer)) (dec_int v))"
    unfolding metric_text_length by linarith
  then show ?thesis by (simp add: metric_cb_def teoMetricGauge_def teoMetric_def metric_send_long(3))
qed

end
