(* ===== verification/Daemon.thy ===== *)
theory Daemon
  imports Main
begin

text \<open>
  The daemon mode of a program (daemon.c) with its pid files (pidfile.c). A pid file is known by the port
  in its name; the state of the operating system is what these functions see and change of it: the
  process that runs them, the files, the processes that are alive, the numbers the next processes
  get, and the processes that were signalled.
\<close>

section \<open>The state\<close>

text \<open>
  \<open>os_file\<close> holds the number a pid file gives, 0 when it holds none; \<open>pidfilename_port\<close> is the port in
  the name of the file in use, None for a null pointer. Writing to the directory needs privileges.
\<close>

record osState =
  os_pid :: int
  os_alive :: "int \<Rightarrow> bool"
  os_file :: "int \<Rightarrow> int option"
  os_writable :: bool
  os_next :: "int list"
  os_signals :: "int list"
  pidfilename_port :: "int option"

section \<open>Pid files\<close>

definition init_pidfile :: "int \<Rightarrow> osState \<Rightarrow> osState" where
  "init_pidfile port s = (if port \<noteq> 0 then s\<lparr>pidfilename_port := Some port\<rparr> else s)"

definition kill_pidfile :: "osState \<Rightarrow> osState" where
  "kill_pidfile s = s\<lparr>pidfilename_port := None\<rparr>"

definition write_pidfile :: "osState \<Rightarrow> int \<times> osState" where
  "write_pidfile s =
     (case pidfilename_port s of
        None \<Rightarrow> (-1, s)
      | Some port \<Rightarrow> if os_writable s then (0, s\<lparr>os_file := (os_file s)(port \<mapsto> os_pid s)\<rparr>) else (-1, s))"

definition read_pidfile :: "osState \<Rightarrow> int" where
  "read_pidfile s =
     (case pidfilename_port s of
        None \<Rightarrow> 0
      | Some port \<Rightarrow> (case os_file s port of None \<Rightarrow> 0 | Some pid \<Rightarrow> pid))"

definition remove_pidfile :: "osState \<Rightarrow> osState" where
  "remove_pidfile s =
     (case pidfilename_port s of
        None \<Rightarrow> s
      | Some port \<Rightarrow> if os_writable s then s\<lparr>os_file := (os_file s)(port := None)\<rparr> else s)"

definition check_pid :: "int \<Rightarrow> osState \<Rightarrow> bool" where
  "check_pid pid s = (if pid = 0 then False else if pid = os_pid s then False else os_alive s pid)"

section \<open>Starting and stopping\<close>

text \<open>A daemon leads a process group of its own, which gets the signal.\<close>

definition kill_other :: "int \<Rightarrow> osState \<Rightarrow> osState" where
  "kill_other other_pid s =
     (if other_pid \<noteq> 0 \<and> os_alive s other_pid then s\<lparr>os_signals := os_signals s @ [other_pid]\<rparr> else s)"

text \<open>The process goes on as a new one, the old one ends; False when there can be no new process.\<close>

definition daemon :: "osState \<Rightarrow> bool \<times> osState" where
  "daemon s =
     (case os_next s of
        [] \<Rightarrow> (False, s)
      | pid # pids \<Rightarrow> (True, s\<lparr>os_next := pids, os_alive := (os_alive s)(os_pid s := False, pid := True), os_pid := pid\<rparr>))"

definition EXIT_SUCCESS :: int where "EXIT_SUCCESS = 0"
definition EXIT_FAILURE :: int where "EXIT_FAILURE = 1"

text \<open>The status with which the program ends, or None when it goes on.\<close>

definition start_stop_daemon :: "bool \<Rightarrow> bool \<Rightarrow> int \<Rightarrow> osState \<Rightarrow> int option \<times> osState" where
  "start_stop_daemon dflag kflag port s =
     (if \<not> (dflag \<or> kflag) then (None, s)
      else
        let s1 = init_pidfile port s;
            port_pid = read_pidfile s1
        in if kflag then (Some EXIT_SUCCESS, kill_pidfile (remove_pidfile (kill_other port_pid s1)))
           else if \<not> check_pid port_pid s1
           then (case write_pidfile s1 of
                   (r, s2) \<Rightarrow>
                     if r \<noteq> 0 then (Some EXIT_FAILURE, s2)
                     else (case daemon (remove_pidfile s2) of
                             (True, s3) \<Rightarrow>
                               (case write_pidfile s3 of
                                  (r, s4) \<Rightarrow> if r \<noteq> 0 then (Some EXIT_FAILURE, kill_pidfile s4) else (None, s4))
                           | (False, s3) \<Rightarrow> (Some EXIT_FAILURE, kill_pidfile s3)))
           else (Some EXIT_FAILURE, kill_pidfile s1))"

section \<open>Properties\<close>

text \<open>What a daemon that was started leaves: its own number in the file of its port, and nothing else changed.\<close>

lemma daemon_started:
  assumes "os_writable s" and "os_next s = pid # pids" and "port \<noteq> 0"
    and "\<not> check_pid (case os_file s port of None \<Rightarrow> 0 | Some p \<Rightarrow> p) s"
  shows "start_stop_daemon True False port s = (None,
    s\<lparr>os_pid := pid, os_alive := (os_alive s)(os_pid s := False, pid := True), os_file := (os_file s)(port \<mapsto> pid),
      os_next := pids, pidfilename_port := Some port\<rparr>)"
  using assms
  by (auto simp: start_stop_daemon_def Let_def init_pidfile_def read_pidfile_def check_pid_def write_pidfile_def
      remove_pidfile_def daemon_def)

text \<open>A second daemon at the same port is refused, and the file and process of the first are left alone.\<close>

theorem daemon_once:
  assumes "port \<noteq> 0" and "os_file s port = Some pid" and "pid \<noteq> 0" and "pid \<noteq> os_pid s" and "os_alive s pid"
  shows "fst (start_stop_daemon True False port s) = Some EXIT_FAILURE"
    and "os_file (snd (start_stop_daemon True False port s)) = os_file s"
    and "os_alive (snd (start_stop_daemon True False port s)) = os_alive s"
  using assms
  by (simp_all add: start_stop_daemon_def Let_def init_pidfile_def read_pidfile_def check_pid_def kill_pidfile_def)

text \<open>Stopping signals the process in the file of the port when it is alive, and no other.\<close>

lemma daemon_stopped:
  assumes "port \<noteq> 0"
  shows "fst (start_stop_daemon dflag True port s) = Some EXIT_SUCCESS"
    and "os_signals (snd (start_stop_daemon dflag True port s)) =
      os_signals s @ (case os_file s port of None \<Rightarrow> [] | Some pid \<Rightarrow> if pid \<noteq> 0 \<and> os_alive s pid then [pid] else [])"
  using assms
  by (simp_all add: start_stop_daemon_def Let_def init_pidfile_def read_pidfile_def kill_other_def remove_pidfile_def
      kill_pidfile_def split: option.split)

text \<open>
  A daemon that is started at one port and then, as the program reads its command line again, at another:
  its first pid file stays, with the number of a process that has ended, and stopping at the first port
  signals no process.
\<close>

theorem daemon_restarted:
  assumes "os_writable s" and "os_next s = a # b # pids" and "port \<noteq> 0" and "port' \<noteq> 0" and "port' \<noteq> port"
    and "os_file s port = None" and "os_file s port' = None" and "distinct [os_pid s, a, b]"
    and "start_stop_daemon True False port s = (r, s1)" and "start_stop_daemon True False port' s1 = (r', s2)"
  shows "os_pid s2 = b" and "os_alive s2 b" and "os_file s2 port' = Some b" and "os_file s2 port = Some a" and "\<not> os_alive s2 a"
    and "os_signals (snd (start_stop_daemon dflag True port (s2\<lparr>os_pid := c\<rparr>))) = os_signals s"
proof -
  have s1: "s1 = s\<lparr>os_pid := a, os_alive := (os_alive s)(os_pid s := False, a := True), os_file := (os_file s)(port \<mapsto> a),
      os_next := b # pids, pidfilename_port := Some port\<rparr>"
    using daemon_started [OF assms(1,2,3)] assms(6,9) by (simp add: check_pid_def)
  have "s2 = s1\<lparr>os_pid := b, os_alive := (os_alive s1)(os_pid s1 := False, b := True), os_file := (os_file s1)(port' \<mapsto> b),
      os_next := pids, pidfilename_port := Some port'\<rparr>"
    using daemon_started [of s1 b pids port'] assms(1,4,5,7,10) by (simp add: check_pid_def s1)
  then show "os_pid s2 = b" "os_alive s2 b" "os_file s2 port' = Some b" "os_file s2 port = Some a" "\<not> os_alive s2 a"
    "os_signals (snd (start_stop_daemon dflag True port (s2\<lparr>os_pid := c\<rparr>))) = os_signals s"
    using assms(3,5,8) by (simp_all add: s1 daemon_stopped)
qed

end
