(* ===== verification/Config.thy ===== *)
theory Config
  imports Process Daemon
begin

text \<open>
  The configuration of a node (config/conf.c, config/opt.c and the first part of ksnetEvMgrInitPort in
  ev_mgr.c): defaults, command line and configuration files. getopt_long is modelled as documented,
  with its permutation of the arguments. The parser of configuration files is a library: the parameter
  \<open>ce_parse\<close> gives the assignments a file makes. Files, name lookup and the random number of the
  default host name are further arguments; the daemon mode changes the state of Daemon.
\<close>

section \<open>The configuration\<close>

text \<open>The fields of teonet_cfg that hold numbers, and those that are arrays of characters.\<close>

datatype intField =
    Show_connect_f | Show_debug_f | Show_debug_vv_f | Show_debug_vvv_f | Show_peers_f | Hot_keys_f | Crypt_f
  | Vpn_connect_f | Show_tr_udp_f | Send_ack_event_f | Sig_segv_f | Block_cli_input_f | Logging_f | Log_disable_f
  | Send_all_logs_f | Color_output_disable_f | Extended_l0_log_f | No_multi_thread_f | Dflag | Kflag
  | Port | Port_inc_f | Tcp_allow_f | Tcp_port | L0_allow_f | L0_tcp_port | R_port | R_tcp_port | R_tcp_f
  | Vpn_ip_net | Vpn_mtu | Log_priority | Statsd_port | Statsd_peers_f | Pp

datatype strField =
    Network | Net_key | Auth_secret | App_prompt | App_name | App_description | Host_name | L0_tcp_ip_remote | Filter
  | R_host_addr_opt | R_host_addr | L0_public_ipv4 | L0_public_ipv6 | Vpn_dev_name | Vpn_dev_hwaddr | Vpn_ip
  | Log_prefix | Statsd_ip | Pn | R_host_name

text \<open>An array holds its characters in front of the first zero; it is full when there is none.\<close>

record teonet_cfg =
  c_int :: "intField \<Rightarrow> int"
  c_str :: "strField \<Rightarrow> bytes"

definition KSN_BUFFER_SM_SIZE :: nat where "KSN_BUFFER_SM_SIZE = 256"

fun str_size :: "strField \<Rightarrow> nat" where
  "str_size Host_name = KSN_MAX_HOST_NAME"
| "str_size Vpn_dev_name = KSN_MAX_HOST_NAME"
| "str_size Vpn_dev_hwaddr = KSN_MAX_HOST_NAME"
| "str_size R_host_name = KSN_MAX_HOST_NAME"
| "str_size Log_prefix = KSN_BUFFER_SM_SIZE"
| "str_size Pn = KSN_BUFFER_SM_SIZE"
| "str_size _ = KSN_BUFFER_SM_SIZE div 2"

definition set_int :: "intField \<Rightarrow> int \<Rightarrow> teonet_cfg \<Rightarrow> teonet_cfg" where
  "set_int f v conf = conf\<lparr>c_int := (c_int conf)(f := v)\<rparr>"

text \<open>strncpy of at most \<open>n\<close> characters into a field: without a zero when there are as many or more.\<close>

definition strncpy_field :: "nat \<Rightarrow> strField \<Rightarrow> bytes \<Rightarrow> teonet_cfg \<Rightarrow> teonet_cfg" where
  "strncpy_field n f s conf =
     conf\<lparr>c_str := (c_str conf)(f := if length s < n then s else take n s @ drop n (c_str conf f))\<rparr>"

section \<open>Defaults\<close>

fun default_int :: "intField \<Rightarrow> int option" where
  "default_int Crypt_f = Some 1"
| "default_int Show_connect_f = Some 1"
| "default_int Show_debug_f = Some 1"
| "default_int Port = Some 9000"
| "default_int Port_inc_f = Some 1"
| "default_int Tcp_port = Some 9000"
| "default_int L0_tcp_port = Some 9000"
| "default_int R_port = Some 9000"
| "default_int R_tcp_port = Some 9000"
| "default_int Vpn_ip_net = Some 24"
| "default_int Log_priority = Some 4"
| "default_int Hot_keys_f = None"
| "default_int Send_all_logs_f = None"
| "default_int Dflag = None"
| "default_int Kflag = None"
| "default_int Statsd_port = None"
| "default_int Pp = None"
| "default_int _ = Some 0"

definition getRandomHostName :: "nat \<Rightarrow> bytes" where
  "getRandomHostName r =
     ascii ''ksnet-'' @ map (\<lambda>d. of_nat (48 + d)) [r mod 1000 div 100, r mod 100 div 10, r mod 10]"

fun default_str :: "bytes \<Rightarrow> bytes \<Rightarrow> strField \<Rightarrow> bytes option" where
  "default_str name app_name Network = Some (ascii ''local'')"
| "default_str name app_name Host_name = Some name"
| "default_str name app_name Log_prefix = Some (ascii ''teonet:'' @ app_name)"
| "default_str name app_name App_prompt = None"
| "default_str name app_name App_name = None"
| "default_str name app_name App_description = None"
| "default_str name app_name Statsd_ip = None"
| "default_str name app_name Pn = None"
| "default_str name app_name _ = Some []"

definition set_defaults :: "nat \<Rightarrow> teonet_cfg \<Rightarrow> teonet_cfg" where
  "set_defaults r conf =
     \<lparr>c_int = (\<lambda>f. case default_int f of None \<Rightarrow> c_int conf f | Some v \<Rightarrow> v),
      c_str = (\<lambda>f. case default_str (getRandomHostName r) (c_str conf App_name) f of None \<Rightarrow> c_str conf f | Some s \<Rightarrow> s)\<rparr>"

text \<open>A program of libtool has the prefix \<open>lt-\<close>.\<close>

definition ksnet_optSetApp :: "bytes \<Rightarrow> bytes \<Rightarrow> bytes \<Rightarrow> teonet_cfg \<Rightarrow> teonet_cfg" where
  "ksnet_optSetApp app_name app_prompt app_description conf =
     (let ptr = (if take 3 app_name = ascii ''lt-'' then 3 else 0)
      in strncpy_field 128 App_description app_description
           (strncpy_field 128 App_prompt app_prompt
             (strncpy_field 128 App_name (drop ptr app_name) conf)))"

section \<open>The command line\<close>

text \<open>What getopt_long returns: an option character with its argument, a long option without a flag,
  one that sets a flag, or the mark of an error.\<close>

datatype optEvent = OptChar char bytes | OptName | OptFlag intField int | OptError

datatype longKind = LNone | LFlag intField int | LChar char | LCharArg char

definition SHOW_PEER_CONTINUOSLY :: int where "SHOW_PEER_CONTINUOSLY = 2"

definition loptions :: "(string \<times> longKind) list" where
  "loptions =
     [(''help'', LChar CHR ''h''), (''version'', LChar CHR ''v''), (''app_name'', LNone), (''app_description'', LNone),
      (''uuid'', LNone), (''port'', LCharArg CHR ''p''), (''port_increment_disable'', LFlag Port_inc_f 0),
      (''r_port'', LCharArg CHR ''r''), (''r_tcp_port'', LCharArg CHR ''t''), (''r_address'', LCharArg CHR ''a''),
      (''r_tcp'', LFlag R_tcp_f 1), (''network'', LCharArg CHR ''n''), (''key'', LCharArg CHR ''e''),
      (''auth_secret'', LCharArg CHR ''u''), (''tcp_allow'', LFlag Tcp_allow_f 1), (''tcp_port'', LCharArg CHR ''o''),
      (''l0_allow'', LFlag L0_allow_f 1), (''l0_tcp_port'', LCharArg CHR ''l''), (''l0_tcp_ip_remote'', LCharArg CHR ''I''),
      (''filter'', LCharArg CHR ''f''), (''hot_keys'', LFlag Hot_keys_f 1), (''show_debug'', LFlag Show_debug_f 1),
      (''show_debug_vv'', LFlag Show_debug_vv_f 1), (''show_debug_vvv'', LFlag Show_debug_vvv_f 1),
      (''show_connect'', LFlag Show_connect_f 1), (''show_peers'', LFlag Show_peers_f SHOW_PEER_CONTINUOSLY),
      (''show_trudp'', LFlag Show_tr_udp_f SHOW_PEER_CONTINUOSLY), (''vpn_start'', LFlag Vpn_connect_f 1),
      (''vpn_ip'', LCharArg CHR ''i''), (''vpn_mtu'', LCharArg CHR ''m''), (''logging'', LFlag Logging_f 1),
      (''log_disable'', LFlag Log_disable_f 1), (''send_all_logs'', LFlag Send_all_logs_f 1),
      (''l0_public_ipv4'', LCharArg CHR ''4''), (''l0_public_ipv6'', LCharArg CHR ''6''), (''statsd_ip'', LCharArg CHR ''s''),
      (''statsd_port'', LCharArg CHR ''S''), (''statsd_peers'', LFlag Statsd_peers_f 1), (''sig_segv'', LFlag Sig_segv_f 1),
      (''log_priority'', LCharArg CHR ''L''), (''color_output_disable'', LFlag Color_output_disable_f 1),
      (''extended_l0_log'', LFlag Extended_l0_log_f 1), (''block_cli_input'', LFlag Block_cli_input_f 1),
      (''no_multi_thread'', LFlag No_multi_thread_f 1), (''send_ack_event'', LFlag Send_ack_event_f 1),
      (''daemon'', LFlag Dflag 1), (''kill'', LFlag Kflag 1)]"

text \<open>The short options, and whether each takes an argument.\<close>

definition optstring :: "(char \<times> bool) list" where
  "optstring =
     [(CHR ''?'', False), (CHR ''h'', False), (CHR ''v'', False), (CHR ''a'', True), (CHR ''I'', True), (CHR ''d'', False),
      (CHR ''k'', False), (CHR ''l'', True), (CHR ''n'', True), (CHR ''o'', True), (CHR ''p'', True), (CHR ''P'', True),
      (CHR ''r'', True), (CHR ''t'', True), (CHR ''f'', True)]"

text \<open>A long option may be cut short when what is left is the beginning of one option only, or of
  options that do the same.\<close>

definition find_long :: "string \<Rightarrow> longKind option" where
  "find_long name =
     (case map_of loptions name of
        Some k \<Rightarrow> Some k
      | None \<Rightarrow>
          (case filter (\<lambda>(n, k). take (length name) n = name) loptions of
             [] \<Rightarrow> None
           | (n, k) # rest \<Rightarrow> if \<forall>(n', k') \<in> set rest. k' = k then Some k else None))"

definition byte_char :: "u8 \<Rightarrow> char" where "byte_char c = char_of (unat c)"

text \<open>What an argument that begins with a dash gives, and the option that takes the next argument.\<close>

fun short_options :: "bytes \<Rightarrow> optEvent list \<times> char option" where
  "short_options [] = ([], None)"
| "short_options (c # cs) =
     (case map_of optstring (byte_char c) of
        Some True \<Rightarrow> if cs \<noteq> [] then ([OptChar (byte_char c) cs], None) else ([], Some (byte_char c))
      | Some False \<Rightarrow> (case short_options cs of (evs, next) \<Rightarrow> (OptChar (byte_char c) [] # evs, next))
      | None \<Rightarrow> (case short_options cs of (evs, next) \<Rightarrow> (OptError # evs, next)))"

definition long_option :: "bytes \<Rightarrow> optEvent list \<times> char option" where
  "long_option s =
     (let name = takeWhile (\<lambda>c. c \<noteq> 61) s; value = dropWhile (\<lambda>c. c \<noteq> 61) s
      in case find_long (map byte_char name) of
           None \<Rightarrow> ([OptError], None)
         | Some (LCharArg c) \<Rightarrow> if value \<noteq> [] then ([OptChar c (tl value)], None) else ([], Some c)
         | Some (LChar c) \<Rightarrow> ([if value \<noteq> [] then OptError else OptChar c []], None)
         | Some (LFlag f v) \<Rightarrow> ([if value \<noteq> [] then OptError else OptFlag f v], None)
         | Some LNone \<Rightarrow> ([if value \<noteq> [] then OptError else OptName], None))"

definition dashes :: bytes where "dashes = [45, 45]"

definition is_option :: "bytes \<Rightarrow> bool" where "is_option a \<longleftrightarrow> 1 < length a \<and> hd a = 45"

definition option_events :: "bytes \<Rightarrow> optEvent list \<times> char option" where
  "option_events a = (if take 2 a = dashes then long_option (drop 2 a) else short_options (tl a))"

text \<open>
  All options, the arguments they take up, the two dashes that end them, and the other arguments. The
  arguments are left in this order in argv, and optind at the first of the last ones.
\<close>

fun getopt_long :: "bytes list \<Rightarrow> optEvent list \<times> bytes list \<times> bytes list \<times> bytes list" where
  "getopt_long [] = ([], [], [], [])"
| "getopt_long (a # as) =
     (if a = dashes then ([], [], [a], as)
      else if \<not> is_option a then (case getopt_long as of (evs, opts, d, rest) \<Rightarrow> (evs, opts, d, a # rest))
      else case option_events a of
             (evs0, None) \<Rightarrow> (case getopt_long as of (evs, opts, d, rest) \<Rightarrow> (evs0 @ evs, a # opts, d, rest))
           | (evs0, Some c) \<Rightarrow>
               (case as of
                  [] \<Rightarrow> (evs0 @ [OptError], [a], [], [])
                | x # as' \<Rightarrow>
                    (case getopt_long as' of (evs, opts, d, rest) \<Rightarrow> (evs0 @ OptChar c x # evs, a # x # opts, d, rest))))"

definition opt_events :: "bytes list \<Rightarrow> optEvent list" where "opt_events argv = fst (getopt_long argv)"
definition opt_rest :: "bytes list \<Rightarrow> bytes list" where "opt_rest argv = snd (snd (snd (getopt_long argv)))"

definition opt_permuted :: "bytes list \<Rightarrow> bytes list" where
  "opt_permuted argv = (case getopt_long argv of (evs, opts, d, rest) \<Rightarrow> opts @ d @ rest)"

text \<open>A second scan of the permuted arguments finds the same.\<close>

lemma getopt_dashes: "getopt_long xs = (evs, opts, d, rest) \<Longrightarrow> d = [] \<or> d = [dashes]"
  by (induction xs arbitrary: evs opts d rest rule: getopt_long.induct)
    (auto split: if_splits prod.splits option.splits list.splits)

lemma getopt_rest:
  "getopt_long xs = (evs, opts, d, rest) \<Longrightarrow> getopt_long (d @ rest) = ([], [], d, rest)"
proof (induction xs arbitrary: evs opts d rest rule: getopt_long.induct)
  case (2 a as)
  show ?case
  proof (cases "a \<noteq> dashes \<and> \<not> is_option a")
    case True
    obtain evs' opts' d' rest' where r: "getopt_long as = (evs', opts', d', rest')" by (metis prod_cases4)
    have "getopt_long (d' @ rest') = ([], [], d', rest')" using "2.IH"(1) True r by simp
    then show ?thesis using "2.prems" True r getopt_dashes [OF r] by auto
  qed (use "2.prems" "2.IH" in \<open>auto split: if_splits prod.splits option.splits list.splits\<close>)
qed simp

lemma getopt_append:
  "getopt_long xs = (evs, opts, d, rest) \<Longrightarrow> OptError \<notin> set evs \<Longrightarrow> getopt_long ys = ([], [], d', rest') \<Longrightarrow>
   getopt_long (opts @ ys) = (evs, opts, d', rest')"
proof (induction xs arbitrary: evs opts d rest rule: getopt_long.induct)
  case (2 a as)
  show ?case
  proof (cases "a \<noteq> dashes \<and> is_option a")
    case False
    then show ?thesis using "2.prems" "2.IH"(1) by (auto split: if_splits prod.splits)
  next
    case True
    obtain evs0 c where e: "option_events a = (evs0, c)" by (cases "option_events a")
    show ?thesis
    proof (cases c)
      case None
      obtain evs' opts' d'' rest'' where r: "getopt_long as = (evs', opts', d'', rest'')" by (metis prod_cases4)
      then show ?thesis using True e None "2.prems" "2.IH"(2) by auto
    next
      case (Some c')
      show ?thesis
      proof (cases as)
        case Nil
        then show ?thesis using True e Some "2.prems" by auto
      next
        case (Cons x as')
        obtain evs' opts' d'' rest'' where r: "getopt_long as' = (evs', opts', d'', rest'')" by (metis prod_cases4)
        then show ?thesis using True e Some Cons "2.prems" "2.IH"(3) by auto
      qed
    qed
  qed
qed simp

lemma getopt_again:
  assumes "OptError \<notin> set (opt_events argv)"
  shows "opt_events (opt_permuted argv) = opt_events argv" and "opt_rest (opt_permuted argv) = opt_rest argv"
proof -
  obtain evs opts d rest where g: "getopt_long argv = (evs, opts, d, rest)" by (metis prod_cases4)
  then have "getopt_long (opts @ d @ rest) = (evs, opts, d, rest)"
    using getopt_append [OF g _ getopt_rest [OF g]] assms by (simp add: opt_events_def)
  then show "opt_events (opt_permuted argv) = opt_events argv" "opt_rest (opt_permuted argv) = opt_rest argv"
    using g by (simp_all add: opt_events_def opt_rest_def opt_permuted_def)
qed

section \<open>What the options do\<close>

text \<open>
  Looking up names, the files with their parser, where files may be written, the directories, and the
  random number. A value in a file is text, a number or a truth value.
\<close>

datatype confValue = VStr bytes | VInt int | VBool bool

record confEnv =
  ce_dns :: "bytes \<Rightarrow> bytes option"
  ce_file :: "bytes \<Rightarrow> bytes option"
  ce_parse :: "bytes \<Rightarrow> (string \<times> confValue) list"
  ce_can_write :: "bytes \<Rightarrow> bool"
  ce_sys_dir :: bytes
  ce_home :: bytes
  ce_prog :: bytes
  ce_random :: nat

text \<open>The program ends with a status, or reads past the end of an array.\<close>

datatype confEnd = ExitWith int | BadAccess

text \<open>The cases of the switch that store the argument of the option.\<close>

definition int_options :: "(char \<times> intField) list" where
  "int_options =
     [(CHR ''p'', Port), (CHR ''P'', R_port), (CHR ''r'', R_port), (CHR ''t'', R_tcp_port), (CHR ''m'', Vpn_mtu),
      (CHR ''S'', Statsd_port), (CHR ''L'', Log_priority), (CHR ''o'', Tcp_port), (CHR ''l'', L0_tcp_port)]"

definition str_options :: "(char \<times> strField) list" where
  "str_options =
     [(CHR ''4'', L0_public_ipv4), (CHR ''6'', L0_public_ipv6), (CHR ''i'', Vpn_ip), (CHR ''s'', Statsd_ip),
      (CHR ''n'', Network), (CHR ''e'', Net_key), (CHR ''I'', L0_tcp_ip_remote), (CHR ''f'', Filter), (CHR ''u'', Auth_secret)]"

text \<open>resolveDnsName on the configuration.\<close>

definition conf_resolve :: "confEnv \<Rightarrow> teonet_cfg \<Rightarrow> confEnd + teonet_cfg" where
  "conf_resolve env conf =
     (let opt = c_str conf R_host_addr_opt;
          conf1 = conf\<lparr>c_str := (c_str conf)(R_host_addr := [])\<rparr>
      in if take 9 opt = ascii ''localhost'' then Inr (strncpy_field 128 R_host_addr (ascii ''::1'') conf1)
         else if length opt \<ge> str_size R_host_addr_opt then Inl BadAccess
         else case ce_dns env opt of
                None \<Rightarrow> Inl (ExitWith 1)
              | Some addr \<Rightarrow> Inr (strncpy_field 128 R_host_addr addr conf1))"

fun opt_event :: "confEnv \<Rightarrow> optEvent \<Rightarrow> teonet_cfg \<Rightarrow> confEnd + teonet_cfg" where
  "opt_event env OptError conf = Inl (ExitWith EXIT_SUCCESS)"
| "opt_event env OptName conf = Inl (ExitWith EXIT_SUCCESS)"
| "opt_event env (OptFlag f v) conf = Inr (set_int f v conf)"
| "opt_event env (OptChar c arg) conf =
     (case map_of int_options c of
        Some f \<Rightarrow> Inr (set_int f (atoi arg) conf)
      | None \<Rightarrow>
          (case map_of str_options c of
             Some f \<Rightarrow> Inr (strncpy_field 128 f arg conf)
           | None \<Rightarrow>
               if c = CHR ''a'' then conf_resolve env (strncpy_field 128 R_host_addr_opt arg conf)
               else if c = CHR ''d'' then Inr (set_int Dflag 1 conf)
               else if c = CHR ''k'' then Inr (set_int Kflag 1 conf)
               else if c = CHR ''?'' \<or> c = CHR ''h'' \<or> c = CHR ''v'' then Inl (ExitWith EXIT_SUCCESS)
               else Inr conf))"

fun apply_options :: "confEnv \<Rightarrow> optEvent list \<Rightarrow> teonet_cfg \<Rightarrow> confEnd + teonet_cfg" where
  "apply_options env [] conf = Inr conf"
| "apply_options env (ev # evs) conf =
     (case opt_event env ev conf of Inl e \<Rightarrow> Inl e | Inr conf1 \<Rightarrow> apply_options env evs conf1)"

definition daemon_quiet :: "teonet_cfg \<Rightarrow> teonet_cfg" where
  "daemon_quiet conf =
     (if c_int conf Dflag \<noteq> 0 then set_int Hot_keys_f 0 (set_int Show_debug_f 0 (set_int Show_connect_f 0 conf)) else conf)"

definition ksnet_optRead ::
  "confEnv \<Rightarrow> nat \<Rightarrow> bytes list \<Rightarrow> teonet_cfg \<Rightarrow> osState \<Rightarrow> (confEnd + teonet_cfg) \<times> osState" where
  "ksnet_optRead env app_argc argv conf os =
     (case apply_options env (opt_events argv) conf of
        Inl e \<Rightarrow> (Inl e, os)
      | Inr conf1 \<Rightarrow>
          let rest = opt_rest argv
          in if length rest < app_argc \<or> length rest > app_argc then (Inl (ExitWith EXIT_FAILURE), os)
             else
               let conf2 = strncpy_field KSN_MAX_HOST_NAME Host_name (hd rest) conf1
               in case start_stop_daemon (c_int conf2 Dflag \<noteq> 0) (c_int conf2 Kflag \<noteq> 0) (c_int conf2 Port) os of
                    (Some status, os1) \<Rightarrow> (Inl (ExitWith status), os1)
                  | (None, os1) \<Rightarrow> (Inr (daemon_quiet conf2), os1))"

section \<open>Configuration files\<close>

definition getDataPath :: "bytes \<Rightarrow> bytes \<Rightarrow> bytes" where
  "getDataPath home progname =
     (let dir = ascii ''.'' @ progname;
          data_dir = (if take 4 dir = ascii ''.lt-'' then ascii ''.'' @ drop 4 dir else dir)
      in take 1023 (home @ ascii ''/'' @ data_dir))"

datatype confTarget = TStr strField | TInt intField | TBool intField

definition cfg_opts :: "(string \<times> confTarget) list" where
  "cfg_opts =
     [(''host_name'', TStr Host_name), (''port'', TInt Port), (''port_inc_f'', TBool Port_inc_f), (''key'', TStr Net_key),
      (''auth_secret'', TStr Auth_secret), (''tcp_port'', TInt Tcp_port), (''tcp_allow_f'', TBool Tcp_allow_f),
      (''l0_allow_f'', TBool L0_allow_f), (''l0_tcp_port'', TInt L0_tcp_port), (''l0_tcp_ip_remote'', TStr L0_tcp_ip_remote),
      (''filter'', TStr Filter), (''r_host_addr'', TStr R_host_addr), (''r_port'', TInt R_port), (''r_tcp_f'', TBool R_tcp_f),
      (''r_tcp_port'', TInt R_tcp_port), (''crypt_f'', TBool Crypt_f), (''show_connect_f'', TBool Show_connect_f),
      (''show_debug_f'', TBool Show_debug_f), (''show_debug_vv_f'', TBool Show_debug_vv_f),
      (''show_debug_vvv_f'', TBool Show_debug_vvv_f), (''show_peers_f'', TBool Show_peers_f),
      (''show_tr_udp_f'', TBool Show_tr_udp_f), (''hot_keys_f'', TBool Hot_keys_f), (''daemon_mode_f'', TBool Dflag),
      (''sig_segv_f'', TBool Sig_segv_f), (''block_cli_input_f'', TBool Block_cli_input_f),
      (''no_multi_thread_f'', TBool No_multi_thread_f), (''send_ack_event_f'', TBool Send_ack_event_f),
      (''vpn_connect_f'', TBool Vpn_connect_f), (''vpn_ip'', TStr Vpn_ip), (''vpn_ip_net'', TInt Vpn_ip_net),
      (''vpn_mtu'', TInt Vpn_mtu), (''vpn_dev_name'', TStr Vpn_dev_name), (''vpn_dev_hwaddr'', TStr Vpn_dev_hwaddr),
      (''logging_f'', TBool Logging_f), (''log_disable_f'', TBool Log_disable_f), (''send_all_logs_f'', TBool Send_all_logs_f),
      (''log_priority'', TInt Log_priority), (''color_output_disable_f'', TBool Color_output_disable_f),
      (''extended_l0_log_f'', TBool Extended_l0_log_f), (''l0_public_ipv4'', TStr L0_public_ipv4),
      (''l0_public_ipv6'', TStr L0_public_ipv6), (''statsd_ip'', TStr Statsd_ip), (''statsd_port'', TInt Statsd_port),
      (''statsd_peers_f'', TBool Statsd_peers_f)]"

text \<open>Numbers go to the configuration at once, texts to local variables.\<close>

fun cfg_assign :: "string \<times> confValue \<Rightarrow> (strField \<Rightarrow> bytes) \<times> teonet_cfg \<Rightarrow> (strField \<Rightarrow> bytes) \<times> teonet_cfg" where
  "cfg_assign (name, v) (vars, conf) =
     (case (map_of cfg_opts name, v) of
        (Some (TStr f), VStr s) \<Rightarrow> (vars(f := s), conf)
      | (Some (TInt f), VInt i) \<Rightarrow> (vars, set_int f i conf)
      | (Some (TBool f), VBool b) \<Rightarrow> (vars, set_int f (if b then 1 else 0) conf)
      | _ \<Rightarrow> (vars, conf))"

definition saved_fields :: "(strField \<times> nat) list" where
  "saved_fields =
     [(Net_key, 128), (Auth_secret, 128), (Host_name, 31), (R_host_addr, 128), (Vpn_ip, 31), (Statsd_ip, 128),
      (Vpn_dev_name, 31), (Vpn_dev_hwaddr, 31), (L0_tcp_ip_remote, 128), (Filter, 128), (L0_public_ipv4, 128), (L0_public_ipv6, 128)]"

definition save_conf_back :: "(strField \<Rightarrow> bytes) \<Rightarrow> teonet_cfg \<Rightarrow> teonet_cfg" where
  "save_conf_back vars conf = fold (\<lambda>(f, n). strncpy_field n f (vars f)) saved_fields conf"

definition conf_path :: "bytes \<Rightarrow> bytes \<Rightarrow> bytes \<Rightarrow> bytes" where
  "conf_path dir network name = take 1023 (dir @ (if network \<noteq> [] then ascii ''/'' @ network else []) @ name)"

definition parse_file :: "confEnv \<Rightarrow> bytes \<Rightarrow> (strField \<Rightarrow> bytes) \<times> teonet_cfg \<Rightarrow> (strField \<Rightarrow> bytes) \<times> teonet_cfg" where
  "parse_file env path vc =
     (case ce_file env path of
        None \<Rightarrow> vc
      | Some text \<Rightarrow> (case fold cfg_assign (ce_parse env text) vc of (vars, conf) \<Rightarrow> (vars, save_conf_back vars conf)))"

text \<open>
  The arrays are read as texts first, in which a full one has no end. After each common file the
  settings are printed to a file; one that cannot be opened is written through a null pointer.
\<close>

definition read_config :: "confEnv \<Rightarrow> int \<Rightarrow> teonet_cfg \<Rightarrow> confEnd + teonet_cfg" where
  "read_config env port_param conf =
     (if \<exists>f \<in> set (Network # map fst saved_fields). str_size f \<le> length (c_str conf f) then Inl BadAccess
      else
        let network = c_str conf Network;
            data_path = getDataPath (ce_home env) (ce_prog env);
            common = ascii ''/teonet.conf'';
            vc1 = parse_file env (conf_path (ce_sys_dir env) network common) (c_str conf, conf)
        in if \<not> ce_can_write env (conf_path data_path network (ascii ''/teonet.conf.out'')) then Inl BadAccess
           else
             let vc2 = parse_file env (conf_path data_path network common) vc1;
                 uconf = ascii ''/teonet-'' @ int_text port_param @ ascii ''.conf'';
                 vc4 = (if port_param \<noteq> 0
                        then parse_file env (conf_path data_path network uconf)
                               (parse_file env (conf_path (ce_sys_dir env) network uconf) vc2)
                        else vc2)
             in Inr (strncpy_field KSN_BUFFER_SM_SIZE Pn network (set_int Pp port_param (snd vc4))))"

text \<open>
  The name of the file of a port, in a buffer: the lengths are not checked against what is left of it, so
  a longer name overruns it (None). The hardware address of the virtual interface is appended to the
  file in the data directory: its name and the text.
\<close>

definition uconfigFileName :: "confEnv \<Rightarrow> nat \<Rightarrow> nat \<Rightarrow> int \<Rightarrow> bytes \<Rightarrow> bytes option" where
  "uconfigFileName env buf_size type port network =
     (let uconf = (if port \<noteq> 0 then ascii ''/teonet-'' @ int_text port @ ascii ''.conf'' else ascii ''/teonet.conf'');
          dir = (if type = 0 then ce_sys_dir env else getDataPath (ce_home env) (ce_prog env));
          path = dir @ (if network \<noteq> [] then ascii ''/'' @ network else []) @ uconf
      in if length path < buf_size then Some path else None)"

definition ksnet_addHWAddrConfig :: "confEnv \<Rightarrow> teonet_cfg \<Rightarrow> bytes \<Rightarrow> (bytes \<times> bytes) option" where
  "ksnet_addHWAddrConfig env conf hwaddr =
     (case uconfigFileName env KSN_BUFFER_SM_SIZE 1 (c_int conf Pp) (c_str conf Pn) of
        None \<Rightarrow> None
      | Some path \<Rightarrow>
          if ce_can_write env path
          then Some (path, [10] @ ascii ''vpn_dev_hwaddr = '' @ hwaddr @ [10]) else None)"

section \<open>Starting with a configuration\<close>

definition READ_OPTIONS :: int where "READ_OPTIONS = 1"
definition READ_CONFIGURATION :: int where "READ_CONFIGURATION = 2"
definition BLOCK_CLI_INPUT :: int where "BLOCK_CLI_INPUT = 8"

definition conf_zero :: teonet_cfg where "conf_zero = \<lparr>c_int = (\<lambda>f. 0), c_str = (\<lambda>f. [])\<rparr>"

text \<open>The defaults, with the port and the name of the program.\<close>

definition conf_start :: "confEnv \<Rightarrow> int \<Rightarrow> teonet_cfg" where
  "conf_start env port =
     (let conf1 = set_defaults (ce_random env) conf_zero;
          conf2 = (if port \<noteq> 0 then set_int Port port conf1 else conf1)
      in ksnet_optSetApp (ce_prog env) (ce_prog env) [] conf2)"

text \<open>The command line is read before the files, as some of it says which files to read, and again after
  them; getopt_long has permuted it by then.\<close>

definition init_config ::
  "confEnv \<Rightarrow> int \<Rightarrow> int \<Rightarrow> nat \<Rightarrow> bytes list \<Rightarrow> osState \<Rightarrow> (confEnd + teonet_cfg) \<times> osState" where
  "init_config env options port app_argc argv os =
     (case (if options AND READ_OPTIONS \<noteq> 0 then ksnet_optRead env app_argc argv (conf_start env port) os
            else (Inr (conf_start env port), os)) of
        (Inl e, os1) \<Rightarrow> (Inl e, os1)
      | (Inr conf1, os1) \<Rightarrow>
          let conf2 = (if options AND BLOCK_CLI_INPUT \<noteq> 0 then set_int Block_cli_input_f 1 conf1 else conf1)
          in case (if options AND READ_CONFIGURATION \<noteq> 0 then read_config env (c_int conf2 Port) conf2 else Inr conf2) of
               Inl e \<Rightarrow> (Inl e, os1)
             | Inr conf3 \<Rightarrow>
                 if options AND READ_OPTIONS \<noteq> 0 then ksnet_optRead env app_argc (opt_permuted argv) conf3 os1
                 else (Inr conf3, os1))"

end
