(* ===== verification/ConfigLayers.thy ===== *)
theory ConfigLayers
  imports Config
begin

text \<open>
  Which of the sources of the configuration (Config) decides: the command line before the files, of the
  files the later before the earlier, and the defaults last. A setting is the last one assigned to it;
  the assignments of each source are lists.
\<close>

section \<open>The last assignment\<close>

definition last_or :: "('f \<times> 'v) list \<Rightarrow> 'f \<Rightarrow> 'v \<Rightarrow> 'v" where
  "last_or xs f v = (case map_of (rev xs) f of None \<Rightarrow> v | Some w \<Rightarrow> w)"

lemma last_or_simps [simp]:
  "last_or [] f v = v" "last_or ((g, w) # xs) f v = last_or xs f (if g = f then w else v)"
  "last_or (xs @ ys) f v = last_or ys f (last_or xs f v)"
  by (simp_all add: last_or_def map_add_def split: option.split)

lemma last_or_twice: "last_or xs f (last_or ys f (last_or xs f v)) = last_or xs f (last_or ys f v)"
  by (simp add: last_or_def split: option.split)

lemma last_or_absent: "f \<notin> fst ` set xs \<Longrightarrow> last_or xs f v = v"
  by (induction xs arbitrary: v) auto

section \<open>Assignments of options\<close>

fun event_ints :: "optEvent \<Rightarrow> (intField \<times> int) list" where
  "event_ints (OptFlag f v) = [(f, v)]"
| "event_ints (OptChar c arg) =
     (case map_of int_options c of
        Some f \<Rightarrow> [(f, atoi arg)]
      | None \<Rightarrow> if c = CHR ''d'' then [(Dflag, 1)] else if c = CHR ''k'' then [(Kflag, 1)] else [])"
| "event_ints _ = []"

fun event_strs :: "optEvent \<Rightarrow> (strField \<times> bytes) list" where
  "event_strs (OptChar c arg) =
     (case map_of str_options c of Some f \<Rightarrow> [(f, arg)] | None \<Rightarrow> if c = CHR ''a'' then [(R_host_addr_opt, arg)] else [])"
| "event_strs _ = []"

definition line_ints :: "bytes list \<Rightarrow> (intField \<times> int) list" where
  "line_ints argv = concat (map event_ints (opt_events argv))"

definition line_strs :: "bytes list \<Rightarrow> (strField \<times> bytes) list" where
  "line_strs argv = concat (map event_strs (opt_events argv))"

lemma set_int_facts [simp]:
  "c_int (set_int f v conf) g = (if g = f then v else c_int conf g)" "c_str (set_int f v conf) = c_str conf"
  by (simp_all add: set_int_def)

lemma strncpy_field_facts [simp]:
  "c_int (strncpy_field n f s conf) = c_int conf"
  "c_str (strncpy_field n f s conf) g =
     (if g = f then if length s < n then s else take n s @ drop n (c_str conf f) else c_str conf g)"
  by (simp_all add: strncpy_field_def)

lemma options_apart: "map_of int_options c = Some f \<Longrightarrow> map_of str_options c = None \<and> c \<noteq> CHR ''a''"
  by (auto simp: int_options_def str_options_def split: if_splits)

lemma letters_apart: "map_of str_options (CHR ''a'') = None" "map_of str_options (CHR ''d'') = None" "map_of str_options (CHR ''k'') = None"
  by (simp_all add: str_options_def)

lemma resolve_facts:
  assumes "conf_resolve env conf = Inr conf'"
  shows "c_int conf' = c_int conf" and "f \<noteq> R_host_addr \<Longrightarrow> c_str conf' f = c_str conf f"
  using assms by (auto simp: conf_resolve_def Let_def split: if_splits option.splits)

lemma event_int:
  assumes "opt_event env ev conf = Inr conf'"
  shows "c_int conf' f = last_or (event_ints ev) f (c_int conf f)"
proof (cases ev)
  case (OptChar c arg)
  consider g where "map_of int_options c = Some g" | g where "map_of int_options c = None" "map_of str_options c = Some g"
    | "map_of int_options c = None" "map_of str_options c = None" by (metis option.exhaust)
  then show ?thesis
  proof cases
    case 2
    then have "c \<noteq> CHR ''d''" "c \<noteq> CHR ''k''" using letters_apart by auto
    then show ?thesis using assms OptChar 2 by auto
  next
    case 3
    then show ?thesis using assms OptChar resolve_facts(1) [of env _ conf'] by (simp split: if_splits) auto
  qed (use assms OptChar in auto)
qed (use assms in auto)

lemma event_str:
  assumes "opt_event env ev conf = Inr conf'" and "\<forall>s \<in> snd ` set (event_strs ev). length s < 128" and "f \<noteq> R_host_addr"
  shows "c_str conf' f = last_or (event_strs ev) f (c_str conf f)"
proof (cases ev)
  case (OptChar c arg)
  consider g where "map_of int_options c = Some g" | g where "map_of int_options c = None" "map_of str_options c = Some g"
    | "map_of int_options c = None" "map_of str_options c = None" by (metis option.exhaust)
  then show ?thesis
  proof cases
    case 1
    then show ?thesis using assms OptChar options_apart [OF 1] by auto
  next
    case 3
    then show ?thesis using assms OptChar resolve_facts(2) [of env _ conf' f] by (simp split: if_splits) auto
  qed (use assms OptChar in auto)
qed (use assms in auto)

lemma options_int:
  "apply_options env evs conf = Inr conf' \<Longrightarrow> c_int conf' f = last_or (concat (map event_ints evs)) f (c_int conf f)"
  by (induction env evs conf rule: apply_options.induct) (auto simp: event_int split: sum.splits)

lemma options_str:
  "apply_options env evs conf = Inr conf' \<Longrightarrow> f \<noteq> R_host_addr \<Longrightarrow>
   \<forall>s \<in> snd ` set (concat (map event_strs evs)). length s < 128 \<Longrightarrow>
   c_str conf' f = last_or (concat (map event_strs evs)) f (c_str conf f)"
proof (induction env evs conf rule: apply_options.induct)
  case (2 env ev evs conf)
  then show ?case by (auto simp: event_str split: sum.splits)
qed simp

section \<open>Reading the command line\<close>

definition quiet_fields :: "intField set" where "quiet_fields = {Show_connect_f, Show_debug_f, Hot_keys_f}"

lemma options_no_error: "apply_options env evs conf = Inr conf' \<Longrightarrow> OptError \<notin> set evs"
  by (induction env evs conf rule: apply_options.induct) (auto split: sum.splits)

lemma quiet_int: "c_int (daemon_quiet conf) f = (if c_int conf Dflag \<noteq> 0 \<and> f \<in> quiet_fields then 0 else c_int conf f)"
  by (auto simp: daemon_quiet_def quiet_fields_def)

lemma quiet_str [simp]: "c_str (daemon_quiet conf) = c_str conf"
  by (simp add: daemon_quiet_def)

lemma optRead_cases:
  assumes "ksnet_optRead env app_argc argv conf os = (Inr conf', os')"
  obtains conf1 where "apply_options env (opt_events argv) conf = Inr conf1" and "length (opt_rest argv) = app_argc"
    and "conf' = daemon_quiet (strncpy_field KSN_MAX_HOST_NAME Host_name (hd (opt_rest argv)) conf1)"
  using assms by (auto simp: ksnet_optRead_def Let_def split: sum.splits if_splits prod.splits option.splits)

lemma optRead_facts:
  assumes "ksnet_optRead env app_argc argv conf os = (Inr conf', os')"
  shows "OptError \<notin> set (opt_events argv)" and "length (opt_rest argv) = app_argc"
    and "c_int conf' f = (if last_or (line_ints argv) Dflag (c_int conf Dflag) \<noteq> 0 \<and> f \<in> quiet_fields then 0
      else last_or (line_ints argv) f (c_int conf f))"
    and "f' \<noteq> R_host_addr \<Longrightarrow> f' \<noteq> Host_name \<Longrightarrow> \<forall>s \<in> snd ` set (line_strs argv). length s < 128 \<Longrightarrow>
      c_str conf' f' = last_or (line_strs argv) f' (c_str conf f')"
    and "length (hd (opt_rest argv)) < 31 \<Longrightarrow> c_str conf' Host_name = hd (opt_rest argv)"
  using assms
  by (auto elim!: optRead_cases simp: options_no_error options_int options_str quiet_int line_ints_def line_strs_def KSN_MAX_HOST_NAME_def)

section \<open>Assignments of files\<close>

fun assign_ints :: "string \<times> confValue \<Rightarrow> (intField \<times> int) list" where
  "assign_ints (name, v) =
     (case (map_of cfg_opts name, v) of
        (Some (TInt f), VInt i) \<Rightarrow> [(f, i)]
      | (Some (TBool f), VBool b) \<Rightarrow> [(f, if b then 1 else 0)]
      | _ \<Rightarrow> [])"

fun assign_strs :: "string \<times> confValue \<Rightarrow> (strField \<times> bytes) list" where
  "assign_strs (name, v) = (case (map_of cfg_opts name, v) of (Some (TStr f), VStr s) \<Rightarrow> [(f, s)] | _ \<Rightarrow> [])"

text \<open>The assignments of the files that there are, in their order.\<close>

definition conf_files :: "confEnv \<Rightarrow> bytes \<Rightarrow> int \<Rightarrow> bytes list" where
  "conf_files env network port =
     (let data_path = getDataPath (ce_home env) (ce_prog env);
          uconf = ascii ''/teonet-'' @ int_text port @ ascii ''.conf''
      in [conf_path (ce_sys_dir env) network (ascii ''/teonet.conf''), conf_path data_path network (ascii ''/teonet.conf'')] @
         (if port \<noteq> 0 then [conf_path (ce_sys_dir env) network uconf, conf_path data_path network uconf] else []))"

definition file_assigns :: "confEnv \<Rightarrow> bytes \<Rightarrow> (string \<times> confValue) list" where
  "file_assigns env path = (case ce_file env path of None \<Rightarrow> [] | Some text \<Rightarrow> ce_parse env text)"

definition file_ints :: "confEnv \<Rightarrow> bytes \<Rightarrow> int \<Rightarrow> (intField \<times> int) list" where
  "file_ints env network port = concat (map (\<lambda>path. concat (map assign_ints (file_assigns env path))) (conf_files env network port))"

definition file_strs :: "confEnv \<Rightarrow> bytes \<Rightarrow> int \<Rightarrow> (strField \<times> bytes) list" where
  "file_strs env network port = concat (map (\<lambda>path. concat (map assign_strs (file_assigns env path))) (conf_files env network port))"

lemma assign_facts:
  "c_int (snd (cfg_assign a vc)) f = last_or (assign_ints a) f (c_int (snd vc) f)"
  "fst (cfg_assign a vc) g = last_or (assign_strs a) g (fst vc g)"
  "c_str (snd (cfg_assign a vc)) = c_str (snd vc)"
  by (cases a; cases vc; auto split: option.split confTarget.split confValue.split)+

lemma assigns_facts:
  "c_int (snd (fold cfg_assign as vc)) f = last_or (concat (map assign_ints as)) f (c_int (snd vc) f)"
  "fst (fold cfg_assign as vc) g = last_or (concat (map assign_strs as)) g (fst vc g)"
  "c_str (snd (fold cfg_assign as vc)) = c_str (snd vc)"
  by (induction as arbitrary: vc) (simp_all add: assign_facts)

lemma assign_saved: "f \<in> fst ` set (assign_strs a) \<Longrightarrow> f \<in> fst ` set saved_fields"
proof -
  have "\<forall>t \<in> snd ` set cfg_opts. case t of TStr f \<Rightarrow> f \<in> fst ` set saved_fields | _ \<Rightarrow> True"
    by (simp add: cfg_opts_def saved_fields_def)
  then have "map_of cfg_opts name = Some (TStr f) \<Longrightarrow> f \<in> fst ` set saved_fields" for name f
    using map_of_SomeD [of cfg_opts name "TStr f"] by force
  then show "f \<in> fst ` set (assign_strs a) \<Longrightarrow> f \<in> fst ` set saved_fields"
    by (cases a) (auto split: option.splits confTarget.splits confValue.splits)
qed

lemma strs_saved: "f \<in> fst ` set (concat (map assign_strs as)) \<Longrightarrow> f \<in> fst ` set saved_fields"
proof (induction as)
  case (Cons a as)
  then have "f \<in> fst ` set (assign_strs a) \<or> f \<in> fst ` set (concat (map assign_strs as))" by (simp add: image_Un)
  then show ?case using Cons.IH assign_saved by blast
qed simp

text \<open>How many characters of a field are saved.\<close>

definition save_size :: "strField \<Rightarrow> nat" where
  "save_size f = (case map_of saved_fields f of None \<Rightarrow> str_size f | Some n \<Rightarrow> n)"

lemma fold_strncpy:
  "c_int (fold (\<lambda>(f, n). strncpy_field n f (vars f)) xs conf) = c_int conf"
  "\<forall>(g, n) \<in> set xs. length (vars g) < n \<Longrightarrow>
   c_str (fold (\<lambda>(f, n). strncpy_field n f (vars f)) xs conf) f = (if f \<in> fst ` set xs then vars f else c_str conf f)"
  by (induction xs arbitrary: conf) auto

lemma saved_size: "(g, n) \<in> set saved_fields \<Longrightarrow> save_size g = n"
  by (auto simp: saved_fields_def save_size_def)

lemma save_facts:
  "c_int (save_conf_back vars conf) = c_int conf"
  "\<forall>g \<in> fst ` set saved_fields. length (vars g) < save_size g \<Longrightarrow>
   c_str (save_conf_back vars conf) f = (if f \<in> fst ` set saved_fields then vars f else c_str conf f)"
proof -
  show "c_int (save_conf_back vars conf) = c_int conf" by (simp add: save_conf_back_def fold_strncpy(1))
  assume *: "\<forall>g \<in> fst ` set saved_fields. length (vars g) < save_size g"
  have "length (vars g) < n" if "(g, n) \<in> set saved_fields" for g n
    using * that saved_size [OF that] by force
  then have "\<forall>(g, n) \<in> set saved_fields. length (vars g) < n" by blast
  then show "c_str (save_conf_back vars conf) f = (if f \<in> fst ` set saved_fields then vars f else c_str conf f)"
    unfolding save_conf_back_def by (rule fold_strncpy(2))
qed

text \<open>The local variables agree with the configuration, and each fits its array.\<close>

definition vars_agree :: "(strField \<Rightarrow> bytes) \<times> teonet_cfg \<Rightarrow> bool" where
  "vars_agree vc \<longleftrightarrow>
     (\<forall>g \<in> fst ` set saved_fields. fst vc g = c_str (snd vc) g \<and> length (fst vc g) < save_size g)"

lemma last_or_fits:
  "\<forall>(g, s) \<in> set xs. length s < save_size g \<Longrightarrow> length v < save_size f \<Longrightarrow> length (last_or xs f v) < save_size f"
  by (induction xs arbitrary: v) auto

lemma parse_file_facts:
  assumes "vars_agree vc" and "\<forall>(g, s) \<in> set (concat (map assign_strs (file_assigns env path))). length s < save_size g"
  shows "c_int (snd (parse_file env path vc)) f = last_or (concat (map assign_ints (file_assigns env path))) f (c_int (snd vc) f)"
    and "c_str (snd (parse_file env path vc)) g = last_or (concat (map assign_strs (file_assigns env path))) g (c_str (snd vc) g)"
    and "vars_agree (parse_file env path vc)"
proof -
  let ?as = "file_assigns env path" and ?strs = "concat (map assign_strs (file_assigns env path))"
  define vc1 where "vc1 = fold cfg_assign ?as vc"
  have vars: "fst vc1 g = last_or ?strs g (fst vc g)" for g by (simp add: vc1_def assigns_facts)
  have fits: "\<forall>g \<in> fst ` set saved_fields. length (fst vc1 g) < save_size g"
    using assms last_or_fits [of ?strs] by (auto simp: vars vars_agree_def)
  have absent: "g \<notin> fst ` set ?strs" if "g \<notin> fst ` set saved_fields" for g
    using strs_saved that by blast
  have str: "c_str (save_conf_back (fst vc1) (snd vc1)) g = last_or ?strs g (c_str (snd vc) g)" for g
    using assms(1) last_or_absent [OF absent, of g "c_str (snd vc) g"]
    by (auto simp: save_facts(2) [OF fits] vars vars_agree_def) (simp_all add: vc1_def assigns_facts)
  show "c_int (snd (parse_file env path vc)) f = last_or (concat (map assign_ints ?as)) f (c_int (snd vc) f)"
    by (simp add: parse_file_def file_assigns_def assigns_facts save_facts(1) split: option.split prod.split)
      (metis assigns_facts(1) snd_conv)
  have p: "parse_file env path vc = (if ce_file env path = None then vc else (fst vc1, save_conf_back (fst vc1) (snd vc1)))"
    by (simp add: parse_file_def vc1_def file_assigns_def split: option.split prod.split)
  show "c_str (snd (parse_file env path vc)) g = last_or ?strs g (c_str (snd vc) g)"
    using str by (simp add: p) (simp add: file_assigns_def)
  show "vars_agree (parse_file env path vc)"
    using assms(1) fits by (auto simp: p vars_agree_def save_facts(2) [OF fits])
qed

text \<open>The files are read one after the other.\<close>

lemma parse_files_facts:
  assumes "vars_agree vc"
    and "\<forall>(g, s) \<in> set (concat (map (\<lambda>path. concat (map assign_strs (file_assigns env path))) paths)). length s < save_size g"
  shows "c_int (snd (fold (parse_file env) paths vc)) f =
      last_or (concat (map (\<lambda>path. concat (map assign_ints (file_assigns env path))) paths)) f (c_int (snd vc) f) \<and>
    c_str (snd (fold (parse_file env) paths vc)) g =
      last_or (concat (map (\<lambda>path. concat (map assign_strs (file_assigns env path))) paths)) g (c_str (snd vc) g)"
  using assms
proof (induction paths arbitrary: vc)
  case (Cons path paths)
  have s: "\<forall>(g, s) \<in> set (concat (map assign_strs (file_assigns env path))). length s < save_size g"
    and r: "\<forall>(g, s) \<in> set (concat (map (\<lambda>path. concat (map assign_strs (file_assigns env path))) paths)). length s < save_size g"
    using Cons.prems(2) unfolding list.map concat.simps set_append ball_Un by blast+
  note p = parse_file_facts [OF Cons.prems(1) s]
  show ?case using Cons.IH [OF p(3) r] by (simp add: p(1,2))
qed simp

lemma read_config_files:
  assumes "read_config env port conf = Inr conf'"
  shows "conf' = strncpy_field KSN_BUFFER_SM_SIZE Pn (c_str conf Network)
    (set_int Pp port (snd (fold (parse_file env) (conf_files env (c_str conf Network) port) (c_str conf, conf))))"
  using assms by (auto simp: read_config_def conf_files_def Let_def split: if_splits)

lemma read_config_facts:
  assumes "read_config env port conf = Inr conf'" and "\<forall>g \<in> fst ` set saved_fields. length (c_str conf g) < save_size g"
    and "\<forall>(g, s) \<in> set (file_strs env (c_str conf Network) port). length s < save_size g"
  shows "f \<noteq> Pp \<Longrightarrow> c_int conf' f = last_or (file_ints env (c_str conf Network) port) f (c_int conf f)"
    and "g \<noteq> Pn \<Longrightarrow> c_str conf' g = last_or (file_strs env (c_str conf Network) port) g (c_str conf g)"
proof -
  have "vars_agree (c_str conf, conf)" using assms(2) by (simp add: vars_agree_def)
  note p = parse_files_facts [OF this assms(3) [unfolded file_strs_def], unfolded file_ints_def [symmetric] file_strs_def [symmetric]]
  show "f \<noteq> Pp \<Longrightarrow> c_int conf' f = last_or (file_ints env (c_str conf Network) port) f (c_int conf f)"
    by (simp add: read_config_files [OF assms(1)] p)
  show "g \<noteq> Pn \<Longrightarrow> c_str conf' g = last_or (file_strs env (c_str conf Network) port) g (c_str conf g)"
    by (simp add: read_config_files [OF assms(1)] p)
qed

section \<open>The layers\<close>

text \<open>The defaults, with the port the program asks for.\<close>

definition start_int :: "int \<Rightarrow> intField \<Rightarrow> int" where
  "start_int port f =
     (if f = Port \<and> port \<noteq> 0 then port else case default_int f of None \<Rightarrow> 0 | Some v \<Rightarrow> v)"

definition start_str :: "strField \<Rightarrow> bytes" where
  "start_str f = (if f = Network then ascii ''local'' else [])"

lemma conf_start_facts:
  "c_int (conf_start env port) f = start_int port f"
  "g \<notin> {Host_name, App_name, App_prompt, App_description, Log_prefix} \<Longrightarrow> c_str (conf_start env port) g = start_str g"
  "length (c_str (conf_start env port) Host_name) = 9"
proof -
  show "c_int (conf_start env port) f = start_int port f"
    by (simp add: conf_start_def Let_def start_int_def ksnet_optSetApp_def set_defaults_def conf_zero_def split: option.split)
  show "g \<notin> {Host_name, App_name, App_prompt, App_description, Log_prefix} \<Longrightarrow> c_str (conf_start env port) g = start_str g"
    by (cases g) (simp_all add: conf_start_def Let_def start_str_def ksnet_optSetApp_def set_defaults_def conf_zero_def)
  show "length (c_str (conf_start env port) Host_name) = 9"
    by (simp add: conf_start_def Let_def ksnet_optSetApp_def set_defaults_def getRandomHostName_def ascii_def)
qed

definition short_strs :: "(strField \<times> bytes) list \<Rightarrow> bool" where
  "short_strs xs \<longleftrightarrow> (\<forall>(f, s) \<in> set xs. length s < save_size f)"

lemma line_sizes: "f \<in> fst ` set (line_strs argv) \<Longrightarrow> save_size f \<le> 128"
proof -
  have "\<forall>g \<in> snd ` set str_options. save_size g \<le> 128"
    by (simp add: str_options_def save_size_def saved_fields_def KSN_BUFFER_SM_SIZE_def)
  then have "map_of str_options c = Some g \<Longrightarrow> save_size g \<le> 128" for c g
    using map_of_SomeD [of str_options c g] by force
  moreover have "save_size R_host_addr_opt \<le> 128" by (simp add: save_size_def saved_fields_def KSN_BUFFER_SM_SIZE_def)
  ultimately have "f \<in> fst ` set (event_strs ev) \<Longrightarrow> save_size f \<le> 128" for ev
    by (cases ev) (auto split: option.splits if_splits)
  then show "f \<in> fst ` set (line_strs argv) \<Longrightarrow> save_size f \<le> 128" by (force simp: line_strs_def)
qed

lemma short_line: "short_strs (line_strs argv) \<Longrightarrow> \<forall>s \<in> snd ` set (line_strs argv). length s < 128"
  using line_sizes [of _ argv] by (fastforce simp: short_strs_def)

lemma init_config_cases:
  assumes "init_config env (READ_OPTIONS + READ_CONFIGURATION) port app_argc argv os = (Inr conf, os')"
  obtains conf1 os1 conf3 where "ksnet_optRead env app_argc argv (conf_start env port) os = (Inr conf1, os1)"
    and "read_config env (c_int conf1 Port) conf1 = Inr conf3"
    and "ksnet_optRead env app_argc (opt_permuted argv) conf3 os1 = (Inr conf, os')"
  using assms
  by (auto simp: init_config_def READ_OPTIONS_def READ_CONFIGURATION_def BLOCK_CLI_INPUT_def split: prod.splits sum.splits)

lemma saved_str_size: "g \<in> fst ` set saved_fields \<Longrightarrow> g \<noteq> Vpn_ip \<Longrightarrow> save_size g = str_size g"
  by (auto simp: saved_fields_def save_size_def KSN_BUFFER_SM_SIZE_def KSN_MAX_HOST_NAME_def)

lemma read_config_short:
  "read_config env port conf = Inr conf' \<Longrightarrow> g \<in> fst ` set saved_fields \<Longrightarrow> length (c_str conf g) < str_size g"
  by (force simp: read_config_def Let_def not_le split: if_splits)

lemma config_settings:
  assumes "init_config env (READ_OPTIONS + READ_CONFIGURATION) port app_argc argv os = (Inr conf, os')"
    and "short_strs (line_strs argv)" and "length (hd (opt_rest argv)) < 31"
    and "network = last_or (line_strs argv) Network (ascii ''local'')"
    and "uport = last_or (line_ints argv) Port (if port \<noteq> 0 then port else 9000)"
    and "short_strs (file_strs env network uport)"
  shows "f \<noteq> Pp \<Longrightarrow> c_int conf f =
      (if c_int conf Dflag \<noteq> 0 \<and> f \<in> {Show_connect_f, Show_debug_f, Hot_keys_f} then 0
       else last_or (line_ints argv) f (last_or (file_ints env network uport) f (start_int port f)))"
    and "g \<notin> {Host_name, R_host_addr, App_name, App_prompt, App_description, Log_prefix, Pn} \<Longrightarrow>
      c_str conf g = last_or (line_strs argv) g (last_or (file_strs env network uport) g (start_str g))"
    and "c_str conf Host_name = hd (opt_rest argv)"
proof -
  obtain conf1 os1 conf3 where c: "ksnet_optRead env app_argc argv (conf_start env port) os = (Inr conf1, os1)"
    "read_config env (c_int conf1 Port) conf1 = Inr conf3" "ksnet_optRead env app_argc (opt_permuted argv) conf3 os1 = (Inr conf, os')"
    by (rule init_config_cases [OF assms(1)])
  let ?L = "line_ints argv" and ?S = "line_strs argv"
  have again: "line_ints (opt_permuted argv) = ?L" "line_strs (opt_permuted argv) = ?S" "opt_rest (opt_permuted argv) = opt_rest argv"
    using getopt_again [OF optRead_facts(1) [OF c(1)]] by (simp_all add: line_ints_def line_strs_def)
  note short = short_line [OF assms(2)]
  note first = optRead_facts(3) [OF c(1), unfolded conf_start_facts(1)] and second = optRead_facts(3) [OF c(3), unfolded again]
  have uport: "c_int conf1 Port = uport"
    by (simp add: first quiet_fields_def assms(5) start_int_def)
  have str1: "c_str conf1 g = last_or ?S g (start_str g)"
    if "g \<notin> {Host_name, R_host_addr, App_name, App_prompt, App_description, Log_prefix}" for g
    using optRead_facts(4) [OF c(1) _ _ short, of g] conf_start_facts(2) [of g env port] that by auto
  have network: "c_str conf1 Network = network" by (simp add: str1 start_str_def assms(4))
  have saved: "\<forall>g \<in> fst ` set saved_fields. length (c_str conf1 g) < save_size g"
  proof
    fix g assume g: "g \<in> fst ` set saved_fields"
    show "length (c_str conf1 g) < save_size g"
    proof (cases "g = Vpn_ip")
      case True
      have "length (last_or ?S g (start_str g)) < save_size g"
        by (rule last_or_fits) (use assms(2) True in \<open>simp_all add: short_strs_def start_str_def save_size_def saved_fields_def\<close>)
      then show ?thesis using str1 [of g] True by simp
    qed (simp add: read_config_short [OF c(2) g] saved_str_size [OF g])
  qed
  note files = read_config_facts [OF c(2) saved, unfolded network uport, OF assms(6) [unfolded short_strs_def]]
  show "c_str conf Host_name = hd (opt_rest argv)"
    using optRead_facts(5) [OF c(3)] assms(3) by (simp add: again)
  show "c_str conf g = last_or ?S g (last_or (file_strs env network uport) g (start_str g))"
    if g: "g \<notin> {Host_name, R_host_addr, App_name, App_prompt, App_description, Log_prefix, Pn}"
    using optRead_facts(4) [OF c(3), unfolded again, OF _ _ short, of g] files(2) [of g] str1 [of g] g by (simp add: last_or_twice)
  show "c_int conf f =
      (if c_int conf Dflag \<noteq> 0 \<and> f \<in> {Show_connect_f, Show_debug_f, Hot_keys_f} then 0
       else last_or ?L f (last_or (file_ints env network uport) f (start_int port f)))" if f: "f \<noteq> Pp"
  proof -
    have d: "c_int conf Dflag = last_or ?L Dflag (c_int conf3 Dflag)" by (simp add: second quiet_fields_def)
    then have d1: "last_or ?L Dflag (start_int port Dflag) = 0" if "c_int conf Dflag = 0"
      using that by (auto simp: last_or_def start_int_def split: option.splits)
    have sec: "c_int conf f = (if c_int conf Dflag \<noteq> 0 \<and> f \<in> quiet_fields then 0 else last_or ?L f (c_int conf3 f))"
      unfolding d by (rule second)
    show ?thesis
    proof (cases "c_int conf Dflag \<noteq> 0 \<and> f \<in> quiet_fields")
      case True
      then show ?thesis using sec by (simp add: quiet_fields_def)
    next
      case False
      then have "c_int conf1 f = last_or ?L f (start_int port f)" using first [of f] d1 by auto
      then have "c_int conf f = last_or ?L f (last_or (file_ints env network uport) f (start_int port f))"
        using sec False files(1) [OF f] by (simp only: if_False last_or_twice)
      then show ?thesis using False by (simp only: quiet_fields_def if_False)
    qed
  qed
qed

text \<open>
  C20: what a setting is after the command line and the configuration files have been read. A number is
  the last one the command line gives it; if it gives none, the last one the files give it, of the
  network and port named on the command line; and else the default. A text follows the same rule
  when every text fits its array. As a daemon the program shows nothing.
\<close>

theorem config_layers:
  assumes "init_config env (READ_OPTIONS + READ_CONFIGURATION) port app_argc argv os = (Inr conf, os')"
    and "short_strs (line_strs argv)" and "length (hd (opt_rest argv)) < 31"
    and "network = last_or (line_strs argv) Network (ascii ''local'')"
    and "uport = last_or (line_ints argv) Port (if port \<noteq> 0 then port else 9000)"
    and "short_strs (file_strs env network uport)"
  shows "(\<forall>f. f \<noteq> Pp \<longrightarrow> c_int conf f =
      (if c_int conf Dflag \<noteq> 0 \<and> f \<in> {Show_connect_f, Show_debug_f, Hot_keys_f} then 0
       else last_or (line_ints argv) f (last_or (file_ints env network uport) f (start_int port f)))) \<and>
    (\<forall>g. g \<notin> {Host_name, R_host_addr, App_name, App_prompt, App_description, Log_prefix, Pn} \<longrightarrow>
      c_str conf g = last_or (line_strs argv) g (last_or (file_strs env network uport) g (start_str g))) \<and>
    c_str conf Host_name = hd (opt_rest argv)"
  by (intro conjI allI impI config_settings [OF assms])

text \<open>A node whose files set the port, a key and the L0 server, started in the network \<open>net\<close> at another port.\<close>

definition example_env :: confEnv where
  "example_env =
     \<lparr>ce_dns = (\<lambda>name. None), ce_file = (\<lambda>path. Some []),
      ce_parse = (\<lambda>text. [(''port'', VInt 9500), (''key'', VStr (ascii ''secret'')), (''l0_allow_f'', VBool True)]),
      ce_can_write = (\<lambda>path. True), ce_sys_dir = ascii ''/etc'', ce_home = ascii ''/home/a'', ce_prog = ascii ''teovpn'', ce_random = 7\<rparr>"

definition example_os :: osState where
  "example_os = \<lparr>os_pid = 100, os_alive = (\<lambda>pid. pid = 100), os_file = (\<lambda>port. None), os_writable = True, os_next = [200, 300],
     os_signals = [], pidfilename_port = None\<rparr>"

definition example_argv :: "bytes list" where
  "example_argv = map ascii [''--port'', ''9100'', ''node'', ''-nnet'', ''--hot'']"

lemma example_events:
  "opt_events example_argv = [OptChar CHR ''p'' [57, 49, 48, 48], OptChar CHR ''n'' [110, 101, 116], OptFlag Hot_keys_f 1]"
  "opt_rest example_argv = [[110, 111, 100, 101]]"
  by code_simp+

lemma example_files:
  "file_assigns example_env path = [(''port'', VInt 9500), (''key'', VStr (ascii ''secret'')), (''l0_allow_f'', VBool True)]"
  by (simp add: file_assigns_def example_env_def)

lemma example_line:
  "line_ints example_argv = [(Port, 9100), (Hot_keys_f, 1)]" "line_strs example_argv = [(Network, ascii ''net'')]"
  "file_ints example_env network uport = concat (replicate (if uport = 0 then 2 else 4) [(Port, 9500), (L0_allow_f, 1)])"
  "file_strs example_env network uport = replicate (if uport = 0 then 2 else 4) (Net_key, ascii ''secret'')"
  subgoal by (simp add: line_ints_def example_events int_options_def atoi_def is_digit_def)
  subgoal by (simp add: line_strs_def example_events str_options_def ascii_def)
  subgoal by (simp add: file_ints_def example_files conf_files_def Let_def cfg_opts_def numeral_eq_Suc)
  subgoal by (simp add: file_strs_def example_files conf_files_def Let_def cfg_opts_def numeral_eq_Suc)
  done
lemma optRead_plain:
  assumes "apply_options env (opt_events argv) conf = Inr conf1" and "length (opt_rest argv) = app_argc"
    and "c_int conf1 Dflag = 0" and "c_int conf1 Kflag = 0"
  shows "ksnet_optRead env app_argc argv conf os =
    (Inr (strncpy_field KSN_MAX_HOST_NAME Host_name (hd (opt_rest argv)) conf1), os)"
  using assms by (simp add: ksnet_optRead_def Let_def start_stop_daemon_def daemon_quiet_def)

lemma read_config_ok:
  assumes "\<forall>f \<in> set (Network # map fst saved_fields). length (c_str conf f) < str_size f" and "\<And>path. ce_can_write env path"
  shows "\<exists>conf'. read_config env port conf = Inr conf'"
  using assms by (auto simp: read_config_def Let_def not_le)


lemma example_apply:
  "\<exists>conf1. apply_options example_env (opt_events example_argv) conf = Inr conf1 \<and> c_int conf1 Dflag = c_int conf Dflag \<and>
     c_int conf1 Kflag = c_int conf Kflag \<and> c_str conf1 = (c_str conf)(Network := ascii ''net'')"
  by (simp add: example_events int_options_def str_options_def fun_eq_iff ascii_def)

lemma example_init: "\<exists>conf os'. init_config example_env (READ_OPTIONS + READ_CONFIGURATION) 0 1 example_argv example_os = (Inr conf, os')"
proof -
  have rest: "length (opt_rest example_argv) = 1" by (simp add: example_events)
  note again = getopt_again [of example_argv]
  have ok: "\<exists>conf'. ksnet_optRead example_env 1 argv conf example_os = (Inr conf', example_os) \<and>
      c_int conf' Dflag = 0 \<and> c_int conf' Kflag = 0 \<and> c_str conf' = (c_str conf)(Network := ascii ''net'', Host_name := ascii ''node'')"
    if asm: "argv \<in> {example_argv, opt_permuted example_argv}" "c_int conf Dflag = 0" "c_int conf Kflag = 0" for conf argv
  proof -
    have e: "opt_events argv = opt_events example_argv" "opt_rest argv = opt_rest example_argv"
      using asm(1) again by (auto simp: example_events)
    obtain conf1 where c: "apply_options example_env (opt_events example_argv) conf = Inr conf1" "c_int conf1 Dflag = 0"
        "c_int conf1 Kflag = 0" "c_str conf1 = (c_str conf)(Network := ascii ''net'')"
      using example_apply [of conf] asm(2,3) by auto
    show ?thesis
      using optRead_plain [of example_env argv conf conf1 1 example_os] c rest
      by (simp add: e fun_eq_iff) (simp add: example_events KSN_MAX_HOST_NAME_def ascii_def)
  qed
  obtain conf1 where c1: "ksnet_optRead example_env 1 example_argv (conf_start example_env 0) example_os = (Inr conf1, example_os)"
    "c_int conf1 Dflag = 0" "c_int conf1 Kflag = 0" "c_str conf1 = (c_str (conf_start example_env 0))(Network := ascii ''net'', Host_name := ascii ''node'')"
    using ok [of example_argv "conf_start example_env 0"] by (auto simp: conf_start_facts start_int_def)
  have short: "\<forall>f \<in> set (Network # map fst saved_fields). length (c_str conf1 f) < str_size f"
    by (simp add: c1(4) saved_fields_def conf_start_facts(2) start_str_def KSN_MAX_HOST_NAME_def KSN_BUFFER_SM_SIZE_def ascii_def)
  obtain conf3 where c3: "read_config example_env (c_int conf1 Port) conf1 = Inr conf3"
    using read_config_ok [OF short, of example_env] by (auto simp: example_env_def)
  have size: "\<forall>g \<in> fst ` set saved_fields. length (c_str conf1 g) < save_size g"
    by (simp add: c1(4) saved_fields_def save_size_def conf_start_facts(2) start_str_def ascii_def)
  have "\<forall>(g, s) \<in> set (file_strs example_env (c_str conf1 Network) (c_int conf1 Port)). length s < save_size g"
    by (simp add: example_line save_size_def saved_fields_def ascii_def)
  note r = read_config_facts(1) [OF c3 size this, unfolded example_line]
  have "c_int conf3 Dflag = 0" "c_int conf3 Kflag = 0"
    using r [of Dflag] r [of Kflag] c1(2,3) by (auto simp: last_or_def map_of_eq_None_iff split: option.splits dest!: map_of_SomeD)
  from ok [OF _ this, of "opt_permuted example_argv"] obtain conf where
    "ksnet_optRead example_env 1 (opt_permuted example_argv) conf3 example_os = (Inr conf, example_os)" by auto
  then show ?thesis using c1(1) c3
    by (simp add: init_config_def READ_OPTIONS_def READ_CONFIGURATION_def BLOCK_CLI_INPUT_def)
qed

theorem config_layers_witness:
  "\<exists>conf os'. init_config example_env (READ_OPTIONS + READ_CONFIGURATION) 0 1 example_argv example_os = (Inr conf, os') \<and>
     c_int conf Port = 9100 \<and> c_int conf L0_allow_f = 1 \<and> c_int conf Show_debug_f = 1 \<and> c_str conf Net_key = ascii ''secret'' \<and>
     c_str conf Host_name = ascii ''node''"
proof -
  from example_init obtain conf os' where
    c: "init_config example_env (READ_OPTIONS + READ_CONFIGURATION) 0 1 example_argv example_os = (Inr conf, os')" by blast
  have s: "short_strs (line_strs example_argv)" "short_strs (file_strs example_env network uport)" "length (hd (opt_rest example_argv)) < 31"
    for network uport
    by (simp_all add: example_line example_events short_strs_def save_size_def saved_fields_def KSN_BUFFER_SM_SIZE_def ascii_def)
  note l = config_layers [OF c s(1,3) refl refl s(2), THEN conjunct1, rule_format]
    config_layers [OF c s(1,3) refl refl s(2), THEN conjunct2, THEN conjunct1, rule_format]
    config_layers [OF c s(1,3) refl refl s(2), THEN conjunct2, THEN conjunct2]
  have "c_int conf Dflag = 0" using l(1) [of Dflag] by (auto simp: example_line start_int_def numeral_eq_Suc)
  then show ?thesis
    using c l(1) [of Port] l(1) [of L0_allow_f] l(1) [of Show_debug_f] l(2) [of Net_key] l(3)
    by (simp add: example_line example_events start_int_def numeral_eq_Suc ascii_def)
qed

text \<open>The file to which the hardware address is appended is one that is read at the next start.\<close>

theorem hwaddr_file_read:
  assumes "ksnet_addHWAddrConfig env conf hwaddr = Some (path, line)"
  shows "path \<in> set (conf_files env (c_str conf Pn) (c_int conf Pp))"
  using assms
  by (auto simp: ksnet_addHWAddrConfig_def uconfigFileName_def conf_files_def conf_path_def KSN_BUFFER_SM_SIZE_def Let_def
      split: option.splits if_splits)

section \<open>What goes wrong\<close>

text \<open>A host name of 31 characters or more is stored without an end, and reading the files then reads past it.\<close>

theorem long_host_name:
  assumes "31 \<le> length (hd (opt_rest argv))"
  shows "fst (init_config env (READ_OPTIONS + READ_CONFIGURATION) port app_argc argv os) \<noteq> Inr conf"
proof
  assume "fst (init_config env (READ_OPTIONS + READ_CONFIGURATION) port app_argc argv os) = Inr conf"
  then obtain os' where "init_config env (READ_OPTIONS + READ_CONFIGURATION) port app_argc argv os = (Inr conf, os')"
    by (metis prod.exhaust_sel)
  then obtain conf1 os1 conf3 where c: "ksnet_optRead env app_argc argv (conf_start env port) os = (Inr conf1, os1)"
    "read_config env (c_int conf1 Port) conf1 = Inr conf3" by (rule init_config_cases)
  from c(1) have "31 \<le> length (c_str conf1 Host_name)"
    by (elim optRead_cases) (use assms in \<open>simp add: KSN_MAX_HOST_NAME_def\<close>)
  moreover have "length (c_str conf1 Host_name) < str_size Host_name"
    by (rule read_config_short [OF c(2)]) (simp add: saved_fields_def)
  ultimately show False by (simp add: KSN_MAX_HOST_NAME_def)
qed

text \<open>The prefix of log messages never has the name of the program, which is set after it.\<close>

theorem log_prefix_bare: "c_str (conf_start env port) Log_prefix = ascii ''teonet:''"
  by (simp add: conf_start_def Let_def ksnet_optSetApp_def set_defaults_def conf_zero_def)

text \<open>
  A daemon whose port is set in a file has two pid files: that of the port on the command line, with the
  number of a process that has ended, and that of its own port. Stopping it with the same command line
  looks at the first only: no process is signalled, the daemon stays.
\<close>

lemma optRead_daemon:
  assumes "ksnet_optRead env app_argc argv conf os = (Inr conf', os')" and "last_or (line_ints argv) Dflag (c_int conf Dflag) \<noteq> 0"
  shows "start_stop_daemon True False (c_int conf' Port) os = (None, os')" and "c_int conf' Dflag \<noteq> 0"
proof -
  obtain conf1 where a: "apply_options env (opt_events argv) conf = Inr conf1" using optRead_cases [OF assms(1)] by blast
  have d: "c_int conf1 Dflag \<noteq> 0" using options_int [OF a, of Dflag] assms(2) by (simp add: line_ints_def)
  then have *: "start_stop_daemon True (c_int conf1 Kflag \<noteq> 0) (c_int conf1 Port) os = (None, os')"
    and p: "c_int conf' Port = c_int conf1 Port" and dd: "c_int conf' Dflag = c_int conf1 Dflag"
    using assms(1) a by (auto simp: ksnet_optRead_def Let_def quiet_int quiet_fields_def split: if_splits prod.splits option.splits)
  have "c_int conf1 Kflag = 0" using * by (auto simp: start_stop_daemon_def Let_def split: if_splits)
  then show "start_stop_daemon True False (c_int conf' Port) os = (None, os')" "c_int conf' Dflag \<noteq> 0"
    using * p d dd by simp_all
qed

theorem daemon_not_stopped:
  assumes "init_config env (READ_OPTIONS + READ_CONFIGURATION) port app_argc argv os = (Inr conf, os')"
    and "last_or (line_ints argv) Dflag 0 = 1" and "uport = last_or (line_ints argv) Port (if port \<noteq> 0 then port else 9000)"
    and "c_int conf Port \<noteq> uport" and "uport \<noteq> 0" and "c_int conf Port \<noteq> 0"
    and "os_writable os" and "os_next os = a # b # pids" and "distinct [os_pid os, a, b]"
    and "os_file os uport = None" and "os_file os (c_int conf Port) = None"
  shows "os_pid os' = b \<and> os_alive os' b \<and> os_file os' (c_int conf Port) = Some b \<and> os_file os' uport = Some a \<and> \<not> os_alive os' a \<and>
    os_signals (snd (start_stop_daemon False True uport (os'\<lparr>os_pid := c\<rparr>))) = os_signals os"
proof -
  obtain conf1 os1 conf3 where c: "ksnet_optRead env app_argc argv (conf_start env port) os = (Inr conf1, os1)"
    "read_config env (c_int conf1 Port) conf1 = Inr conf3" "ksnet_optRead env app_argc (opt_permuted argv) conf3 os1 = (Inr conf, os')"
    by (rule init_config_cases [OF assms(1)])
  have again: "line_ints (opt_permuted argv) = line_ints argv"
    using getopt_again [OF optRead_facts(1) [OF c(1)]] by (simp add: line_ints_def)
  have d: "last_or (line_ints argv) Dflag v = 1" for v
    using assms(2) by (auto simp: last_or_def split: option.splits)
  have uport: "c_int conf1 Port = uport"
    using optRead_facts(3) [OF c(1), of Port] by (simp add: quiet_fields_def conf_start_facts(1) assms(3) start_int_def)
  have s1: "start_stop_daemon True False uport os = (None, os1)"
    using optRead_daemon(1) [OF c(1)] by (simp add: d uport)
  have s2: "start_stop_daemon True False (c_int conf Port) os1 = (None, os')"
    using optRead_daemon(1) [OF c(3)] by (simp add: again d)
  show ?thesis by (intro conjI daemon_restarted [OF assms(7,8,5,6,4,10,11,9) s1 s2])
qed

end
