(* ===== verification/Spec2Isabelle.thy ===== *)
theory Spec2Isabelle
  imports StreamCmd AsyncCalls TcpProxy PblIterator StringArr Base64 NetMulti Hotkeys LogReader Metric ConfigLayers
begin

text \<open>
  Verification of the network core of teonet: the library (src/src) by which the nodes of a mesh find
  each other, send each other commands over TR-UDP, and serve clients, together with the hash map of
  the Program Base Library (src/embedded/libpbl) on which its tables rest.

  \<^bold>\<open>How the program works.\<close> A node runs one libev loop. Its state is the structure
  ksnetEvMgrClass with one class per module. Packets arrive through TR-UDP events, are decrypted and
  parsed (net_core.c), a new sender is entered in the ARP table of peers, and the dispatcher
  (net_com.c) gives the packet to the handler of its command: commands of the network itself, parts of
  large packets, commands for the modules (streams, tunnels, VPN, L0 server, subscriptions,
  reconnection), or the application's own commands, which its event callback gets. Modules send by
  name or address through ksnCoreSendCmdto and ksnCoreSendto, which split and encrypt. Clients connect
  to the L0 server by TCP or TR-UDP and log in under a name. Timers, an idle callback that removes
  silent peers, and a queue of callbacks with timeouts drive what is not an answer to a packet.

  \<^bold>\<open>How it is modelled.\<close> A node is the record \<open>ksnetEvMgr\<close> (EvMgr), with the modules' fields in it; a
  handler is a function that returns the updated node and its result. Calls of libev, TR-UDP, sockets,
  pipes and the application's callback are entries of the node's output \<open>ke_out\<close> (type \<open>action\<close> in
  TeoTypes), in the order of the calls. A pointer into a table is the key of its record; an access
  through a null or freed pointer, or past the end of a buffer, is the output \<open>Fault\<close>, and a call that
  does not end is \<open>Diverge\<close>. Integers keep their width: bytes, command numbers, lengths in packets,
  identifiers and hash values are words. Text is bytes, with C's terminating zero where the code has it
  (\<open>cstr\<close>, \<open>strz\<close>).

  \<^bold>\<open>Theories.\<close>
  \<^item> Prelude: bytes, little-endian buffers, C strings, probing arithmetic, lists with holes.
  \<^item> PblHashSet, PblMap: pblSet.c, pblhash.c and pblMap.c: growth, probing, removal with closing of the
    gap, entries with binary keys. Locale \<open>pbl_elements\<close> is what a set asks of its hash and compare
    functions; the map's entries interpret it. The map's operations update the lookup function.
  \<^item> PblList, PblIterator: array lists (pblList.c) and iterators (pblIterator.c). Locale \<open>data_refinement\<close>
    carries the agreement of one step over to sequences of operations; the array list interprets it
    against plain lists.
  \<^item> KeyedStore: locale \<open>keyed_store\<close>, the contract of a table as the modules use it, with facts on
    sweeps and searches; PblMap interprets it on the hash map.
  \<^item> TeoTypes, EvMgr: net_com.h, ev_mgr.h, net_arp.h: commands, events, packets, the node, host info.
  \<^item> NetSplit: net_split.c: sub-packets and their combination.
  \<^item> CQue: modules/cque.c, over a locale \<open>cque_host\<close> for the state the queue lives in, interpreted on the
    node in Callbacks, which has the callbacks of the queue's records.
  \<^item> Crypt: crypt.c. ArpTable: net_arp.c. NetCore: packets and sending of net_core.c, with what l0-server.c
    adds for sends to clients. Connect: commands_creator.c, sends of net_com.c, removal of peers.
  \<^item> Stream and StreamCmd: modules/stream.c. Recon: net_recon.c. Subscribe: modules/subscribe.c.
    L0Json, L0Server and L0Client: modules/l0-server.c. Vpn: modules/vpn.c. Tun: modules/net_tun.c.
    TcpProxy: modules/tcp_proxy.c. AsyncCalls: modules/async_calls.c.
  \<^item> StringArr, Base64: utils/string_arr.c and utils/base64.c.
  \<^item> NetCom: every handler and the dispatcher of net_com.c. Process: receiving in net_core.c. EventLoop:
    the callbacks of ev_mgr.c and the events of tr-udp.c.
  \<^item> Delivery: two nodes, what one sends the other receives. Node: the step relation \<open>node_step\<close> of a node,
    with a rule for each callback and each call of the library, its reachable states and invariants.
  \<^item> TextScan, TextFilter: the filter for log lines, text-filter/lexer-filter.c and grammar-filter.c: the
    automaton of the generated scanner and the tables and the loop of the generated parser.
  \<^item> LogText, Logging: messages (utils/utils.c), the filter's place in hotkeys.c, and the logging client
    and server (modules/logging_client.c, modules/logging_server.c), whose event callbacks stand before
    the application's. Hotkeys: the keys of hotkeys.c and its timers, with a step relation of their own.
    LogReader: modules/log_reader.c. Metric: modules/metric.c.
  \<^item> Config, ConfigLayers: config/conf.c, config/opt.c and the part of ev_mgr.c that makes the configuration
    of a node, with what decides each setting. Daemon: daemon.c and pidfile.c over a state of processes,
    pid files and signals.
  \<^item> NetTcp: the TCP servers of modules/net_tcp.c, with a step relation of their own. Lifecycle: starting,
    running and stopping a node (ev_mgr.c with the init and destroy functions of the modules), composed of
    the steps of Node and NetTcp. NetMulti: net_multi.c, several networks in one program, over a store of
    nodes in which a freed node shows.

  \<^bold>\<open>What is shown.\<close> Between nodes: user data arrives once, whole or split; the packets of a client over
  TR-UDP with an application's command reach the peer's application and the answers reach the client;
  stream, tunnel, VPN and proxied data arrive where they should, however a stream of bytes is cut. Within
  a node: the tables of every reachable node are well formed; a first login, one more under the same name
  and disconnections keep the two tables of the L0 server in agreement (a login under another name does
  not: \<open>l0_relogin_stale\<close>), the packets of a client that has not logged in have no effect outside unless
  they have the form of a login or key exchange, a login is accepted, up to 2038, exactly when its JSON
  object has a user and a time that has not passed with the right signature; the packets of a TCP client
  are handled once each and in order, in the read that completes them; silent peers are removed, one in
  a pass; timeouts and answers of reconnections; asynchronous calls have the effect of direct ones, and
  in the multi-thread mode a call is made once in every interleaving in which no wait ends too early
  (and when one does: \<open>send_async_twice\<close>, \<open>send_async_late\<close>). Over a node's life: a server gets the first
  free port, a started node stops with its peers told, its connections closed and its tables empty, every
  descriptor of a TCP server or client is closed once, and the list of networks leads to living nodes
  only. For the data: round trips of packets, encryption and splitting;
  the parser accepts only packets that the creator makes; the hash map is a map, the array list a
  list as long as its sizes in bytes fit an \<open>int\<close>, an iterator returns each element once; command lines are split into the arguments they were
  joined from, and base64 decodes what it encodes; the generated scanner follows the patterns of its
  source, and the parser gives each filter the value of its expression. Log messages reach the
  application of every logging server that has made itself known, the lines of a growing file are those
  of its text as long as no read fails, and the keys take away the running flag of a node only when y
  follows q, also in a program that moves between networks. A setting of a node is
  that of its command line, else of its files, else the default. Some theorems state
  what the code does where it errs (the manifest's findings).

  \<^bold>\<open>Bounds and fuel.\<close> A packet for the L0 server's own host is handled as if it were received, inside the
  handler of another packet; \<open>node_packet n\<close> allows n such levels and gives \<open>Diverge\<close> beyond them, and the
  delivery theorems hold for every n above zero. \<open>ksnStreamClosePeer\<close> calls itself once for each stream it
  closes; its fuel is the number of entries, which stream_close_peer shows to be enough. Probing in the
  hash set is bounded by the capacity, which ends because a set is never full and the step is odd. The
  loops over client and proxy buffers are functions with a measure; the loop of asynchronous calls
  takes a schedule, the turns of the waiting thread and of the event loop, the log reader the results of
  its calls of read. The loop that stops all TCP servers may run forever when a key is not
  that of a descriptor; it is a partial function, and tcp_destroy shows that it ends from every reachable
  state. The search for a port makes KSNET_TRY_PORT rounds, as in the code.

  \<^bold>\<open>Parameters.\<close> Code outside the repository is an argument or a field of the environment \<open>teoEnv\<close>: OpenSSL's
  AES, the packet layouts and checksum of the teocli submodule, the JSON tokeniser, MD5, DNS, TR-UDP with
  its channels, queues and statistics. The parser of configuration files and
  the files themselves are fields of \<open>confEnv\<close>. The map of the teoccl library, in which the logging client keeps
  its servers, is an argument of the functions of Logging. Hypotheses on them are named where they are used (cipher
  padding and inversion, frames of the teocli protocol), and witnesses give functions that satisfy them.

  \<^bold>\<open>Not modelled.\<close> Memory allocation and its failure; printed output, apart from log messages, and the formats of printf; the calls of the system on sockets, whose results are arguments, with the callback that accepts
  a TCP connection; the terminal; the printed help; the run file, signals and
  restarting of the program; the key files of
  libpbl with the database module on them; TR-UDP, a submodule; the copied programs libcli, mongoose and
  fossa, the applications and examples. Threads appear only as the two of an
  asynchronous call, the caller and the event loop, which take turns in any order.

  \<^bold>\<open>Memory that is not written.\<close> When the TCP server of the L0 module cannot be made, its class keeps
  what the memory held: the descriptor is an argument (\<open>st_junk\<close>), and the pointer to the queue is None;
  following it is a fault, which stopping the module then runs into (\<open>l0_stop_fault\<close>).
\<close>

end
